(* ===== verification/Osal_Prelude.thy ===== *)
theory Osal_Prelude
  imports Main "HOL-Library.Word"
begin

text \<open>
  Shared vocabulary of the development: the error type of the public API
  (src/crates/osal-api/src/error.rs), the outcome of a Rust call (a value, an
  OSAL error, or a panic), checked machine arithmetic, and the slice operations
  on byte vectors that the components use.

  Machine integers. Rust's \<open>usize\<close> indices and sizes are natural numbers with
  the width written out (\<open>usize_max\<close>, a 64-bit target); counters whose
  wrap-around matters (\<open>u32\<close>, \<open>u64\<close>, the packed lifecycle word) are words.
\<close>

section \<open>Collections of facts\<close>

named_theorems res_simps \<open>evaluation of outcomes\<close>
named_theorems wf_intros \<open>well-formedness of component states\<close>

section \<open>Integer widths\<close>

type_synonym u8 = "8 word"
type_synonym u32 = "32 word"
type_synonym u64 = "64 word"
type_synonym u128 = "128 word"
type_synonym usize = "64 word"

definition usize_max :: nat where
  "usize_max = 2 ^ 64 - 1"

definition u32_max :: nat where
  "u32_max = 2 ^ 32 - 1"

definition u64_max :: nat where
  "u64_max = 2 ^ 64 - 1"

definition u128_max :: nat where
  "u128_max = 2 ^ 128 - 1"

lemma unat_u64_less: "unat (x :: u64) < 2 ^ 64"
  using unsigned_less [of x, where ?'a = nat] by simp

lemma unat_u32_less: "unat (x :: u32) < 2 ^ 32"
  using unsigned_less [of x, where ?'a = nat] by simp

lemma unat_of_nat_u64: "n < 2 ^ 64 \<Longrightarrow> unat (word_of_nat n :: u64) = n"
  by (simp add: unat_of_nat take_bit_nat_eq_self)

lemma unat_of_nat_u32: "n < 2 ^ 32 \<Longrightarrow> unat (word_of_nat n :: u32) = n"
  by (simp add: unat_of_nat take_bit_nat_eq_self)

section \<open>Errors and outcomes\<close>

datatype error =
    OutOfMemory
  | Timeout
  | QueueFull
  | QueueEmpty
  | QueueClosed
  | InvalidMessageSize
  | LockFailed
  | Overflow
  | NotFound
  | InvalidParameter
  | AlreadyInitialized
  | NotInitialized
  | Busy
  | Unsupported
  | Internal string

text \<open>
  The outcome of a call: \<open>Ok\<close> and \<open>Err\<close> are Rust's \<open>Result\<close>, \<open>Panic\<close> is a panic
  (failed assertion, \<open>expect\<close>, slice index out of range), which the workspace
  profile turns into an abort (\<open>panic = "abort"\<close> in src/Cargo.toml).
\<close>

datatype 'a res = Ok 'a | Err error | Panic string

primrec res_bind :: "'a res \<Rightarrow> ('a \<Rightarrow> 'b res) \<Rightarrow> 'b res" where
  "res_bind (Ok x) f = f x"
| "res_bind (Err e) f = Err e"
| "res_bind (Panic s) f = Panic s"

definition ok_or :: "'a option \<Rightarrow> error \<Rightarrow> 'a res" where
  "ok_or x e = (case x of None \<Rightarrow> Err e | Some v \<Rightarrow> Ok v)"

text \<open>\<open>expr?\<close> in code that threads a state: continue with the value, or return early.\<close>

fun st_bind :: "'a res \<times> 's \<Rightarrow> ('a \<Rightarrow> 's \<Rightarrow> 'b res \<times> 's) \<Rightarrow> 'b res \<times> 's" where
  "st_bind (Ok x, s) f = f x s"
| "st_bind (Err e, s) f = (Err e, s)"
| "st_bind (Panic m, s) f = (Panic m, s)"

definition is_ok :: "'a res \<Rightarrow> bool" where
  "is_ok r = (case r of Ok _ \<Rightarrow> True | _ \<Rightarrow> False)"

definition is_panic :: "'a res \<Rightarrow> bool" where
  "is_panic r = (case r of Panic _ \<Rightarrow> True | _ \<Rightarrow> False)"

lemma is_ok_simps [simp, res_simps]:
  "is_ok (Ok x)" "\<not> is_ok (Err e)" "\<not> is_ok (Panic s)"
  by (simp_all add: is_ok_def)

lemma is_panic_simps [simp, res_simps]:
  "\<not> is_panic (Ok x)" "\<not> is_panic (Err e)" "is_panic (Panic s)"
  by (simp_all add: is_panic_def)

lemma ok_or_simps [simp, res_simps]:
  "ok_or None e = Err e" "ok_or (Some v) e = Ok v"
  by (simp_all add: ok_or_def)

lemma is_okE:
  assumes "is_ok r"
  obtains x where "r = Ok x"
  using assms by (cases r) auto

section \<open>Checked arithmetic\<close>

text \<open>Rust's \<open>checked_add\<close>, \<open>checked_mul\<close>, \<open>checked_sub\<close> and \<open>checked_div\<close> on an
  unsigned integer with maximum \<open>m\<close>.\<close>

definition checked_add :: "nat \<Rightarrow> nat \<Rightarrow> nat \<Rightarrow> nat option" where
  "checked_add m a b = (if a + b \<le> m then Some (a + b) else None)"

definition checked_mul :: "nat \<Rightarrow> nat \<Rightarrow> nat \<Rightarrow> nat option" where
  "checked_mul m a b = (if a * b \<le> m then Some (a * b) else None)"

definition checked_sub :: "nat \<Rightarrow> nat \<Rightarrow> nat option" where
  "checked_sub a b = (if b \<le> a then Some (a - b) else None)"

definition checked_div :: "nat \<Rightarrow> nat \<Rightarrow> nat option" where
  "checked_div a b = (if b = 0 then None else Some (a div b))"

lemma checked_add_Some_iff: "checked_add m a b = Some c \<longleftrightarrow> c = a + b \<and> a + b \<le> m"
  by (auto simp: checked_add_def)

lemma checked_mul_Some_iff: "checked_mul m a b = Some c \<longleftrightarrow> c = a * b \<and> a * b \<le> m"
  by (auto simp: checked_mul_def)

lemma checked_sub_Some_iff: "checked_sub a b = Some c \<longleftrightarrow> b \<le> a \<and> c = a - b"
  by (auto simp: checked_sub_def)

section \<open>Slices\<close>

text \<open>\<open>&v[off..off + n]\<close> and \<open>v[off..off + n].copy_from_slice(src)\<close>: \<open>None\<close> is the
  panic of an out-of-range slice or of a length mismatch.\<close>

definition slice_read :: "'a list \<Rightarrow> nat \<Rightarrow> nat \<Rightarrow> 'a list option" where
  "slice_read v off n = (if off + n \<le> length v then Some (take n (drop off v)) else None)"

definition slice_write :: "'a list \<Rightarrow> nat \<Rightarrow> nat \<Rightarrow> 'a list \<Rightarrow> 'a list option" where
  "slice_write v off n src =
     (if off + n \<le> length v \<and> length src = n
      then Some (take off v @ src @ drop (off + n) v) else None)"

lemma slice_write_length:
  "slice_write v off n src = Some v' \<Longrightarrow> length v' = length v"
  by (auto simp: slice_write_def split: if_splits)

lemma slice_read_length:
  "slice_read v off n = Some xs \<Longrightarrow> length xs = n"
  by (auto simp: slice_read_def split: if_splits)

text \<open>A slice reads back what was written to it, and a write leaves every slice
  that does not overlap it alone.\<close>

lemma slice_read_write_same:
  assumes "slice_write v off n src = Some v'"
  shows "slice_read v' off n = Some src"
  using assms by (auto simp: slice_write_def slice_read_def split: if_splits)

lemma slice_read_write_before:
  assumes "slice_write v off n src = Some v'" and "i + m \<le> off"
  shows "slice_read v' i m = slice_read v i m"
  using assms
  by (auto simp: slice_write_def slice_read_def take_drop min_def split: if_splits)

lemma slice_read_write_after:
  assumes "slice_write v off n src = Some v'" and "off + n \<le> i"
  shows "slice_read v' i m = slice_read v i m"
proof -
  from assms have len: "off + n \<le> length v" "length src = n"
    and v': "v' = take off v @ src @ drop (off + n) v"
    by (auto simp: slice_write_def split: if_splits)
  have "drop i v' = drop i v"
    using len assms(2) by (simp add: v')
  moreover have "length v' = length v"
    using assms(1) by (rule slice_write_length)
  ultimately show ?thesis by (simp add: slice_read_def)
qed

section \<open>Searching a vector\<close>

text \<open>\<open>iter().position(p)\<close>.\<close>

fun position :: "('a \<Rightarrow> bool) \<Rightarrow> 'a list \<Rightarrow> nat option" where
  "position P [] = None"
| "position P (x # xs) = (if P x then Some 0 else map_option Suc (position P xs))"

lemma position_Some:
  "position P xs = Some i \<Longrightarrow> i < length xs \<and> P (xs ! i) \<and> (\<forall>j < i. \<not> P (xs ! j))"
proof (induction xs arbitrary: i)
  case (Cons x xs)
  then show ?case
    by (cases i) (auto split: if_splits simp: less_Suc_eq_0_disj)
qed simp

lemma position_None_iff: "position P xs = None \<longleftrightarrow> (\<forall>x\<in>set xs. \<not> P x)"
  by (induction xs) auto

lemma position_None: "(\<And>x. x \<in> set xs \<Longrightarrow> \<not> P x) \<Longrightarrow> position P xs = None"
  by (induction xs) auto

lemma unat_max_word: "unat (- 1 :: 'a::len word) = 2 ^ LENGTH('a) - 1"
  by (simp add: unsigned_minus_1_eq_mask mask_eq_exp_minus_1)

lemma unat_add_1_word:
  fixes x :: "'a::len word"
  assumes "x \<noteq> - 1"
  shows "unat (x + 1) = Suc (unat x)"
proof -
  have "unat x \<noteq> 2 ^ LENGTH('a) - 1"
    using assms by (metis unat_max_word word_unat_eq_iff)
  then have "unat x + 1 < 2 ^ LENGTH('a)" using unsigned_less [of x, where 'a = nat] by linarith
  then show ?thesis by (simp add: unat_word_ariths)
qed

text \<open>A counter with room for more steps does not wrap at the next one.\<close>

lemma room_step:
  assumes "unat (x :: u64) + Suc n < 2 ^ 64"
  shows "x \<noteq> - 1 \<and> unat (x + 1) = Suc (unat x)"
proof -
  have "x \<noteq> - 1" using assms by (auto simp: unat_max_word)
  then show ?thesis by (simp add: unat_add_1_word)
qed

end
