(* ===== verification/Std_Duration.thy ===== *)
theory Std_Duration
  imports Osal_Prelude
begin

text \<open>
  The part of Rust's \<open>core::time::Duration\<close> that the program uses. A duration is
  a number of nanoseconds below \<open>2^64\<close> seconds: the type is exactly the set of
  values of \<open>{ secs: u64, nanos: u32 < 1_000_000_000 }\<close>, so no well-formedness
  hypothesis is carried by the theorems about it.
\<close>

section \<open>The type\<close>

definition nanos_per_sec :: nat where
  "nanos_per_sec = 1000000000"

definition duration_limit :: nat where
  "duration_limit = 2 ^ 64 * nanos_per_sec"

lemma duration_limit_eq: "duration_limit = 18446744073709551616000000000"
  by (simp add: duration_limit_def nanos_per_sec_def)

lemma duration_limit_pos [simp]: "0 < duration_limit"
  by (simp add: duration_limit_eq)

typedef duration = "{n :: nat. n < duration_limit}"
  morphisms as_nanos Abs_duration
  by (rule exI [of _ 0]) simp

lemma as_nanos_less [simp]: "as_nanos d < duration_limit"
  using as_nanos [of d] by simp

text \<open>The duration of a number of nanoseconds; it is only applied below the limit.\<close>

definition of_nanos :: "nat \<Rightarrow> duration" where
  "of_nanos n = Abs_duration (n mod duration_limit)"

lemma as_nanos_of_nanos: "as_nanos (of_nanos n) = n mod duration_limit"
  by (simp add: of_nanos_def Abs_duration_inverse)

lemma as_nanos_of_nanos_less [simp]:
  "n < duration_limit \<Longrightarrow> as_nanos (of_nanos n) = n"
  by (simp add: as_nanos_of_nanos)

lemma of_nanos_as_nanos [simp]: "of_nanos (as_nanos d) = d"
  by (metis as_nanos_inject as_nanos_less as_nanos_of_nanos_less)

lemma duration_eq_iff: "d = e \<longleftrightarrow> as_nanos d = as_nanos e"
  by (simp add: as_nanos_inject)

lemma of_nanos_eq_iff:
  "n < duration_limit \<Longrightarrow> m < duration_limit \<Longrightarrow> of_nanos n = of_nanos m \<longleftrightarrow> n = m"
  by (simp add: duration_eq_iff)

lemma of_nanos_eqI: "as_nanos d = n \<Longrightarrow> of_nanos n = d"
  by auto

instantiation duration :: linorder
begin

definition less_eq_duration :: "duration \<Rightarrow> duration \<Rightarrow> bool" where
  "less_eq_duration a b = (as_nanos a \<le> as_nanos b)"

definition less_duration :: "duration \<Rightarrow> duration \<Rightarrow> bool" where
  "less_duration a b = (as_nanos a < as_nanos b)"

instance
  by standard (auto simp: less_eq_duration_def less_duration_def duration_eq_iff)

end

lemmas duration_order = less_eq_duration_def less_duration_def

section \<open>Operations\<close>

definition duration_zero :: duration where
  "duration_zero = of_nanos 0"

definition duration_max :: duration where
  "duration_max = of_nanos (duration_limit - 1)"

definition is_zero :: "duration \<Rightarrow> bool" where
  "is_zero d = (as_nanos d = 0)"

definition as_secs :: "duration \<Rightarrow> u64" where
  "as_secs d = word_of_nat (as_nanos d div nanos_per_sec)"

definition subsec_nanos :: "duration \<Rightarrow> u32" where
  "subsec_nanos d = word_of_nat (as_nanos d mod nanos_per_sec)"

text \<open>\<open>Duration::new\<close> carries excess nanoseconds into the seconds and panics when
  the seconds overflow.\<close>

definition duration_new :: "u64 \<Rightarrow> u32 \<Rightarrow> duration res" where
  "duration_new secs nanos =
     (let n = unat secs * nanos_per_sec + unat nanos in
      if n < duration_limit then Ok (of_nanos n) else Panic ''overflow in Duration::new'')"

definition dur_checked_add :: "duration \<Rightarrow> duration \<Rightarrow> duration option" where
  "dur_checked_add a b =
     (let n = as_nanos a + as_nanos b in if n < duration_limit then Some (of_nanos n) else None)"

definition dur_checked_sub :: "duration \<Rightarrow> duration \<Rightarrow> duration option" where
  "dur_checked_sub a b =
     (if as_nanos b \<le> as_nanos a then Some (of_nanos (as_nanos a - as_nanos b)) else None)"

definition dur_saturating_add :: "duration \<Rightarrow> duration \<Rightarrow> duration" where
  "dur_saturating_add a b =
     (case dur_checked_add a b of Some d \<Rightarrow> d | None \<Rightarrow> duration_max)"

definition dur_saturating_sub :: "duration \<Rightarrow> duration \<Rightarrow> duration" where
  "dur_saturating_sub a b =
     (case dur_checked_sub a b of Some d \<Rightarrow> d | None \<Rightarrow> duration_zero)"

lemma as_nanos_zero [simp]: "as_nanos duration_zero = 0"
  by (simp add: duration_zero_def)

lemma as_nanos_max: "as_nanos duration_max = duration_limit - 1"
  by (simp add: duration_max_def)

lemma is_zero_iff: "is_zero d \<longleftrightarrow> d = duration_zero"
  by (simp add: is_zero_def duration_eq_iff)

lemma as_nanos_le: "as_nanos d \<le> duration_limit - 1"
  using as_nanos_less [of d] by linarith

lemma duration_le_max [simp]: "d \<le> duration_max"
  by (simp only: duration_order as_nanos_max as_nanos_le)

lemma duration_zero_le [simp]: "duration_zero \<le> d"
  by (simp add: duration_order)

lemma dur_checked_add_Some_iff:
  "dur_checked_add a b = Some c \<longleftrightarrow> as_nanos c = as_nanos a + as_nanos b"
  by (auto simp: dur_checked_add_def Let_def duration_eq_iff) (metis as_nanos_less)

lemma dur_checked_add_None_iff:
  "dur_checked_add a b = None \<longleftrightarrow> duration_limit \<le> as_nanos a + as_nanos b"
  by (auto simp: dur_checked_add_def Let_def)

lemma sub_below_limit [simp]: "as_nanos a - n < duration_limit"
  using as_nanos_less [of a] by linarith

lemma as_nanos_saturating_sub [simp]:
  "as_nanos (dur_saturating_sub a b) = as_nanos a - as_nanos b"
  by (simp add: dur_saturating_sub_def dur_checked_sub_def)

lemma as_nanos_saturating_add:
  "as_nanos (dur_saturating_add a b) = min (as_nanos a + as_nanos b) (duration_limit - 1)"
  by (auto simp: dur_saturating_add_def dur_checked_add_def Let_def as_nanos_max min_def)

lemma unat_as_secs: "unat (as_secs d) = as_nanos d div nanos_per_sec"
proof -
  have "as_nanos d div nanos_per_sec < 2 ^ 64"
    using as_nanos_less [of d] by (simp add: duration_limit_eq nanos_per_sec_def)
  then show ?thesis by (simp add: as_secs_def unat_of_nat take_bit_nat_eq_self)
qed

lemma unat_subsec_nanos: "unat (subsec_nanos d) = as_nanos d mod nanos_per_sec"
proof -
  have "as_nanos d mod nanos_per_sec < 2 ^ 32"
    by (rule less_trans [of _ nanos_per_sec]) (simp_all add: nanos_per_sec_def)
  then show ?thesis by (simp add: subsec_nanos_def unat_of_nat take_bit_nat_eq_self)
qed

text \<open>Seconds below \<open>2^64\<close> and subsecond nanoseconds below \<open>10^9\<close> always make a duration.\<close>

lemma duration_new_Ok:
  assumes "unat nanos < nanos_per_sec"
  shows "duration_new secs nanos = Ok (of_nanos (unat secs * nanos_per_sec + unat nanos))"
proof -
  have "unat secs < 2 ^ 64" by (rule unat_u64_less)
  then have "unat secs * nanos_per_sec + unat nanos < duration_limit"
    using assms by (simp add: duration_limit_eq nanos_per_sec_def)
  then show ?thesis by (simp add: duration_new_def Let_def)
qed

end
