(* ===== verification/Osal_Types.thy ===== *)
theory Osal_Types
  imports Std_Duration
begin

text \<open>
  The data types of the public API (src/crates/osal-api/src): the timeout strategy
  (time.rs), task handles, exit codes, task states and timer modes (types.rs) and the
  observable runtime states (runtime.rs).
\<close>

section \<open>Timeouts (time.rs)\<close>

datatype timeout = NoWait | After duration | Forever

definition timeout_from :: "duration \<Rightarrow> timeout" where
  "timeout_from d = (if is_zero d then NoWait else After d)"

definition is_no_wait :: "timeout \<Rightarrow> bool" where
  "is_no_wait t = (case t of NoWait \<Rightarrow> True | _ \<Rightarrow> False)"

definition is_forever :: "timeout \<Rightarrow> bool" where
  "is_forever t = (case t of Forever \<Rightarrow> True | _ \<Rightarrow> False)"

definition timeout_duration :: "timeout \<Rightarrow> duration option" where
  "timeout_duration t = (case t of After d \<Rightarrow> Some d | _ \<Rightarrow> None)"

lemma timeout_from_forever [simp]: "\<not> is_forever (timeout_from d)"
  by (simp add: timeout_from_def is_forever_def)

lemma timeout_from_duration:
  "timeout_duration (timeout_from d) = (if is_no_wait (timeout_from d) then None else Some d)"
  by (simp add: timeout_from_def timeout_duration_def is_no_wait_def)

section \<open>Handles, exit codes, modes (types.rs)\<close>

text \<open>\<open>TaskHandle\<close> wraps a \<open>NonZeroUsize\<close>; the only constructor function is \<open>from_raw\<close>.\<close>

datatype task_handle = TaskHandle (handle_get: usize)

definition handle_from_raw :: "usize \<Rightarrow> task_handle option" where
  "handle_from_raw raw = (if raw = 0 then None else Some (TaskHandle raw))"

lemma handle_from_raw_Some_iff:
  "handle_from_raw raw = Some h \<longleftrightarrow> raw \<noteq> 0 \<and> handle_get h = raw"
  by (cases h) (auto simp: handle_from_raw_def)

datatype exit_code = ExitCode (exit_code: u32)

definition exit_success :: exit_code where
  "exit_success = ExitCode 0"

type_synonym priority = u32

datatype task_state = TaskReady | TaskRunning | TaskBlocked | TaskSuspended | TaskFinished

datatype timer_mode = OneShot | Periodic

section \<open>Runtime states (runtime.rs)\<close>

datatype runtime_state = Uninitialized | Initializing | Running | ShuttingDown

end
