(* ===== verification/Tick_Time.thy ===== *)
theory Tick_Time
  imports Osal_Types
begin

unbundle bit_operations_syntax

text \<open>
  src/crates/osal-portable/src/tick_time.rs: conversion between a wrapping kernel tick
  counter and durations. A coherent snapshot \<open>{overflow_count, tick_count}\<close> is expanded
  to a \<open>u128\<close> tick total with a shift and an OR, as in the code; the arithmetic on the
  total is on naturals with the \<open>u128\<close> bound written out where the code checks it.
\<close>

section \<open>Types\<close>

record tick_config =
  rate_hz :: u32
  tick_bits :: u8

record tick_snapshot =
  overflow_count :: u64
  tick_count :: u64

section \<open>The code\<close>

definition validate_config :: "tick_config \<Rightarrow> unit res" where
  "validate_config config =
     (if rate_hz config = 0 then Err InvalidParameter
      else if \<not> (tick_bits config = 16 \<or> tick_bits config = 32 \<or> tick_bits config = 64)
      then Err InvalidParameter
      else Ok ())"

definition expand_ticks :: "tick_snapshot \<Rightarrow> u8 \<Rightarrow> u128" where
  "expand_ticks snapshot bits =
     push_bit (unat bits) (ucast (overflow_count snapshot)) OR ucast (tick_count snapshot)"

definition ticks_to_duration :: "u128 \<Rightarrow> u32 \<Rightarrow> duration res" where
  "ticks_to_duration total_ticks hz =
     (let rate = unat hz;
          seconds = unat total_ticks div rate;
          remainder = unat total_ticks mod rate;
          nanos = remainder * nanos_per_sec div rate
      in if seconds \<le> u64_max
         then duration_new (word_of_nat seconds) (word_of_nat nanos)
         else Ok duration_max)"

definition snapshot_to_duration :: "tick_snapshot \<Rightarrow> tick_config \<Rightarrow> duration res" where
  "snapshot_to_duration snapshot config =
     res_bind (validate_config config)
       (\<lambda>_. ticks_to_duration (expand_ticks snapshot (tick_bits config)) (rate_hz config))"

definition duration_to_ticks_ceil :: "duration \<Rightarrow> u32 \<Rightarrow> nat res" where
  "duration_to_ticks_ceil d tick_rate_hz =
     (if tick_rate_hz = 0 then Err InvalidParameter
      else if is_zero d then Ok 0
      else
        let nanos = as_nanos d; rate = unat tick_rate_hz
        in res_bind
             (ok_or (Option.bind (checked_mul u128_max nanos rate)
                      (\<lambda>v. checked_add u128_max v (nanos_per_sec - 1))) Overflow)
             (\<lambda>numerator. Ok (numerator div nanos_per_sec)))"

definition max_finite_ticks :: "u8 \<Rightarrow> u64 res" where
  "max_finite_ticks bits =
     (if bits = 16 then Ok (push_bit 16 1 - 2)
      else if bits = 32 then Ok (push_bit 32 1 - 2)
      else if bits = 64 then Ok (- 1 - 1)
      else Err InvalidParameter)"

section \<open>Expansion of a snapshot\<close>

text \<open>A snapshot is coherent for a counter of \<open>w\<close> bits when its tick count is a value of
  that counter.\<close>

definition coherent :: "tick_snapshot \<Rightarrow> nat \<Rightarrow> bool" where
  "coherent s w = (unat (tick_count s) < 2 ^ w)"

definition total_ticks :: "tick_snapshot \<Rightarrow> nat \<Rightarrow> nat" where
  "total_ticks s w = unat (overflow_count s) * 2 ^ w + unat (tick_count s)"

lemma unat_ucast_u64: "unat (ucast (x :: u64) :: u128) = unat x"
proof -
  have "unat x < 2 ^ 128" by (rule less_trans [OF unat_u64_less]) simp
  then show ?thesis by (simp add: unsigned_ucast_eq take_bit_nat_eq_self)
qed

lemma or_shifted_nat: "b < 2 ^ w \<Longrightarrow> push_bit w a OR b = push_bit w a + (b :: nat)"
proof (rule disjunctive_add [symmetric])
  fix n assume "b < 2 ^ w"
  then have "\<not> bit b n" if "w \<le> n"
    using that by (metis bit_take_bit_iff linorder_not_less take_bit_nat_eq_self)
  then show "\<not> bit (push_bit w a) n \<or> \<not> bit b n"
    by (cases "w \<le> n") (auto simp: bit_push_bit_iff)
qed

text \<open>The shift-and-OR of the code is the arithmetic total: nothing is lost in \<open>u128\<close>.\<close>

lemma unat_expand_ticks:
  assumes "coherent s (unat bits)" and "unat bits \<le> 64"
  shows "unat (expand_ticks s bits) = total_ticks s (unat bits)"
proof -
  let ?w = "unat bits"
  have oc: "unat (overflow_count s) < 2 ^ 64" by (rule unat_u64_less)
  have "(2 :: nat) ^ ?w \<le> 2 ^ 64" using assms(2) by (rule power_increasing) simp
  then have "unat (overflow_count s) * 2 ^ ?w < 2 ^ 64 * 2 ^ 64"
    using oc by (intro mult_less_le_imp_less) simp_all
  then have small: "push_bit ?w (unat (overflow_count s)) < 2 ^ 128"
    by (simp add: push_bit_eq_mult)
  have "unat (expand_ticks s bits) =
      take_bit 128 (push_bit ?w (unat (overflow_count s))) OR unat (tick_count s)"
    by (simp add: expand_ticks_def unsigned_or_eq unsigned_push_bit_eq unat_ucast_u64)
  also have "\<dots> = push_bit ?w (unat (overflow_count s)) + unat (tick_count s)"
    using small assms(1) by (simp add: take_bit_nat_eq_self or_shifted_nat coherent_def)
  finally show ?thesis by (simp add: total_ticks_def push_bit_eq_mult)
qed

section \<open>Ticks to durations\<close>

text \<open>Whole seconds plus the truncated remainder is the truncated quotient.\<close>

lemma div_split:
  fixes t r :: nat
  assumes "0 < r"
  shows "t div r * c + t mod r * c div r = t * c div r"
proof -
  have "t * c = (t mod r) * c + r * (t div r * c)"
    by (metis add.commute add_mult_distrib mult.assoc mult_div_mod_eq)
  then have "t * c div r = (t mod r * c + r * (t div r * c)) div r" by simp
  also have "\<dots> = t div r * c + t mod r * c div r"
    using assms by (simp add: div_mult_self2)
  finally show ?thesis by simp
qed

definition tick_nanos :: "nat \<Rightarrow> nat \<Rightarrow> nat" where
  "tick_nanos t rate = min (t * nanos_per_sec div rate) (duration_limit - 1)"

lemma tick_nanos_mono: "t \<le> t' \<Longrightarrow> tick_nanos t rate \<le> tick_nanos t' rate"
  unfolding tick_nanos_def by (intro min.mono div_le_mono mult_le_mono1) auto

lemma ticks_to_duration_value:
  assumes "hz \<noteq> 0"
  shows "ticks_to_duration t hz = Ok (of_nanos (tick_nanos (unat t) (unat hz)))"
proof -
  define r where "r = unat hz"
  define n where "n = unat t"
  have r: "0 < r" using assms by (simp add: r_def unat_gt_0)
  have split: "n div r * nanos_per_sec + n mod r * nanos_per_sec div r = n * nanos_per_sec div r"
    using r by (rule div_split)
  have "n mod r * nanos_per_sec < r * nanos_per_sec"
    using r by (simp add: nanos_per_sec_def)
  then have sub: "n mod r * nanos_per_sec div r < nanos_per_sec"
    using r by (simp add: div_less_iff_less_mult mult.commute)
  then have u_sub: "unat (word_of_nat (n mod r * nanos_per_sec div r) :: u32)
      = n mod r * nanos_per_sec div r"
    by (simp add: unat_of_nat take_bit_nat_eq_self nanos_per_sec_def less_trans [of _ 1000000000])
  show ?thesis
  proof (cases "n div r \<le> u64_max")
    case True
    then have u_sec: "unat (word_of_nat (n div r) :: u64) = n div r"
      by (simp add: unat_of_nat take_bit_nat_eq_self u64_max_def)
    have "n * nanos_per_sec div r < duration_limit"
      using True sub split by (simp add: u64_max_def duration_limit_eq nanos_per_sec_def)
    then have "n * nanos_per_sec div r \<le> duration_limit - 1" by linarith
    then show ?thesis
      using True sub
      by (simp add: ticks_to_duration_def duration_new_Ok u_sub u_sec split tick_nanos_def
        min_absorb1 Let_def flip: n_def r_def)
  next
    case False
    then have "2 ^ 64 * nanos_per_sec \<le> n div r * nanos_per_sec"
      by (intro mult_le_mono1) (simp add: u64_max_def)
    then have "duration_limit \<le> n * nanos_per_sec div r"
      using split unfolding duration_limit_def by linarith
    then have "min (n * nanos_per_sec div r) (duration_limit - 1) = duration_limit - 1" by linarith
    then show ?thesis
      using False by (simp add: ticks_to_duration_def tick_nanos_def duration_max_def Let_def
        flip: n_def r_def)
  qed
qed

lemma tick_nanos_less [simp]: "tick_nanos t rate < duration_limit"
  by (simp add: tick_nanos_def min_less_iff_disj)

definition valid_config :: "tick_config \<Rightarrow> bool" where
  "valid_config c = (rate_hz c \<noteq> 0 \<and> (tick_bits c = 16 \<or> tick_bits c = 32 \<or> tick_bits c = 64))"

lemma validate_config_iff: "validate_config c = (if valid_config c then Ok () else Err InvalidParameter)"
  by (auto simp: validate_config_def valid_config_def)

lemma valid_config_bits: "valid_config c \<Longrightarrow> unat (tick_bits c) \<le> 64"
  by (auto simp: valid_config_def)

lemma snapshot_to_duration_value:
  assumes "valid_config c" and "coherent s (unat (tick_bits c))"
  shows "snapshot_to_duration s c =
    Ok (of_nanos (tick_nanos (total_ticks s (unat (tick_bits c))) (unat (rate_hz c))))"
  using assms valid_config_bits [OF assms(1)]
  by (simp add: snapshot_to_duration_def validate_config_iff ticks_to_duration_value
    unat_expand_ticks valid_config_def)

section \<open>Durations to ticks\<close>

lemma ceil_no_overflow:
  "as_nanos d * unat (hz :: u32) + (nanos_per_sec - 1) \<le> u128_max"
proof -
  have "unat hz < 2 ^ 32" by (rule unat_u32_less)
  then have "as_nanos d * unat hz \<le> duration_limit * 2 ^ 32"
    by (intro mult_le_mono less_imp_le) simp_all
  then show ?thesis by (simp add: duration_limit_eq u128_max_def nanos_per_sec_def)
qed

lemma duration_to_ticks_ceil_value:
  assumes "hz \<noteq> 0"
  shows "duration_to_ticks_ceil d hz
           = Ok ((as_nanos d * unat hz + (nanos_per_sec - 1)) div nanos_per_sec)"
  using assms ceil_no_overflow [of d hz]
  by (auto simp: duration_to_ticks_ceil_def is_zero_def checked_mul_def checked_add_def
    Let_def nanos_per_sec_def)

lemma ceil_div_le_iff:
  fixes a b t :: nat
  assumes "0 < b"
  shows "(a + (b - 1)) div b \<le> t \<longleftrightarrow> a \<le> t * b"
proof -
  have "(a + (b - 1)) div b \<le> t \<longleftrightarrow> (a + (b - 1)) div b < Suc t" by auto
  also have "\<dots> \<longleftrightarrow> a + (b - 1) < Suc t * b" using assms by (simp add: div_less_iff_less_mult)
  also have "\<dots> \<longleftrightarrow> a \<le> t * b" using assms by auto
  finally show ?thesis .
qed

section \<open>Properties\<close>

text \<open>The tick clock never goes backwards: with a valid configuration, a later coherent
  snapshot (more counter overflows, or the same number and a larger counter) converts
  without error or panic to a duration that is not smaller, also across a counter wrap and
  when the result saturates.\<close>

theorem snapshot_monotonic:
  assumes "valid_config c"
    and "coherent s (unat (tick_bits c))" and "coherent s' (unat (tick_bits c))"
    and "overflow_count s < overflow_count s'
         \<or> overflow_count s = overflow_count s' \<and> tick_count s \<le> tick_count s'"
  shows "\<exists>d d'. snapshot_to_duration s c = Ok d \<and> snapshot_to_duration s' c = Ok d' \<and> d \<le> d'"
proof -
  let ?w = "unat (tick_bits c)"
  have "total_ticks s ?w \<le> total_ticks s' ?w"
    using assms(4)
  proof
    assume "overflow_count s < overflow_count s'"
    then have "Suc (unat (overflow_count s)) \<le> unat (overflow_count s')"
      by (simp add: word_less_nat_alt)
    then have "Suc (unat (overflow_count s)) * 2 ^ ?w \<le> unat (overflow_count s') * 2 ^ ?w"
      by (rule mult_le_mono1)
    with assms(2) show ?thesis by (simp add: total_ticks_def coherent_def)
  next
    assume "overflow_count s = overflow_count s' \<and> tick_count s \<le> tick_count s'"
    then show ?thesis by (simp add: total_ticks_def word_le_nat_alt)
  qed
  then show ?thesis
    using assms(1-3) by (simp add: snapshot_to_duration_value duration_order tick_nanos_mono)
qed

theorem snapshot_monotonic_witness:
  "\<exists>d d'. snapshot_to_duration \<lparr>overflow_count = 0, tick_count = 65535\<rparr>
            \<lparr>rate_hz = 1000, tick_bits = 16\<rparr> = Ok d
        \<and> snapshot_to_duration \<lparr>overflow_count = 1, tick_count = 0\<rparr>
            \<lparr>rate_hz = 1000, tick_bits = 16\<rparr> = Ok d' \<and> d \<le> d'"
  by (rule snapshot_monotonic) (simp_all add: valid_config_def coherent_def)

text \<open>For every non-zero tick rate and every duration the ceiling conversion succeeds
  (the \<open>u128\<close> intermediate never overflows) and yields the least tick count whose span
  covers the duration, so a non-zero duration takes at least one tick.\<close>

theorem duration_to_ticks_ceil_least:
  assumes "hz \<noteq> 0"
  shows "\<exists>t. duration_to_ticks_ceil d hz = Ok t
           \<and> (\<forall>n. t \<le> n \<longleftrightarrow> as_nanos d * unat hz \<le> n * nanos_per_sec)
           \<and> (t = 0 \<longleftrightarrow> is_zero d)"
proof -
  let ?t = "(as_nanos d * unat hz + (nanos_per_sec - 1)) div nanos_per_sec"
  have pos: "0 < nanos_per_sec" by (simp add: nanos_per_sec_def)
  have least: "?t \<le> n \<longleftrightarrow> as_nanos d * unat hz \<le> n * nanos_per_sec" for n
    using pos by (rule ceil_div_le_iff)
  have "?t = 0 \<longleftrightarrow> is_zero d"
    using least [of 0] assms by (auto simp: is_zero_def unat_eq_0)
  with least duration_to_ticks_ceil_value [OF assms, of d] show ?thesis
    by (intro exI [of _ ?t] conjI allI)
qed

theorem duration_to_ticks_ceil_least_witness:
  "\<exists>t. duration_to_ticks_ceil (of_nanos 11000000) 100 = Ok t
     \<and> (\<forall>n. t \<le> n \<longleftrightarrow> as_nanos (of_nanos 11000000) * unat (100 :: u32) \<le> n * nanos_per_sec)
     \<and> (t = 0 \<longleftrightarrow> is_zero (of_nanos 11000000))"
  by (rule duration_to_ticks_ceil_least) simp

text \<open>C36. Ticks survive the trip through a duration: at a tick rate of at most 1 GHz,
  converting a tick total to a duration (truncating to nanoseconds) and back (rounding up)
  gives the same total, as long as the duration did not saturate.\<close>

theorem ticks_roundtrip:
  assumes "hz \<noteq> 0" and "unat hz \<le> nanos_per_sec"
    and "unat t * nanos_per_sec div unat hz < duration_limit"
  shows "\<exists>d. ticks_to_duration t hz = Ok d \<and> duration_to_ticks_ceil d hz = Ok (unat t)"
proof -
  define r where "r = unat hz"
  define m where "m = unat t * nanos_per_sec div r"
  have r: "0 < r" "r \<le> nanos_per_sec" using assms(1,2) by (simp_all add: r_def unat_gt_0)
  have m: "tick_nanos (unat t) r = m" "m < duration_limit"
    using assms(3) by (simp_all add: tick_nanos_def m_def r_def min_def)
  have eq: "unat t * nanos_per_sec = m * r + unat t * nanos_per_sec mod r"
    by (simp add: m_def)
  have lt: "unat t * nanos_per_sec mod r < r" using r by simp
  have up: "(m * r + (nanos_per_sec - 1)) div nanos_per_sec \<le> unat t"
    using eq by (simp add: ceil_div_le_iff nanos_per_sec_def)
  have down: "\<not> (m * r + (nanos_per_sec - 1)) div nanos_per_sec \<le> unat t - 1" if "unat t \<noteq> 0"
  proof -
    have "(unat t - 1) * nanos_per_sec < m * r"
      using that eq lt r unfolding nanos_per_sec_def diff_mult_distrib by linarith
    then show ?thesis by (subst ceil_div_le_iff) (simp_all add: nanos_per_sec_def)
  qed
  have "(m * r + (nanos_per_sec - 1)) div nanos_per_sec = unat t"
    using up down by (cases "unat t = 0") auto
  then show ?thesis
    using assms(1) m
    by (simp add: ticks_to_duration_value duration_to_ticks_ceil_value flip: r_def)
qed

theorem ticks_roundtrip_witness:
  "\<exists>d. ticks_to_duration 7 128 = Ok d \<and> duration_to_ticks_ceil d 128 = Ok (unat (7 :: u128))"
  by (rule ticks_roundtrip) (simp_all add: nanos_per_sec_def duration_limit_eq)

end
