(* ===== verification/Queue_Interface.thy ===== *)
theory Queue_Interface
  imports Osal_Types
begin

text \<open>
  The contract of a bounded message queue with close-drain semantics
  (src/crates/osal-api/src/traits/queue.rs and docs/behavior-contract.md), in two forms:
  an abstract FIFO with the error precedence written out, and a locale whose clients
  reason about arbitrary sequences of operations. The portable ring buffer and the
  backend queues interpret the locale.
\<close>

section \<open>Abstract FIFO\<close>

record fifo =
  fifo_msgs :: "u8 list list"
  fifo_capacity :: nat
  fifo_message_size :: nat
  fifo_closed :: bool

definition fifo_send :: "fifo \<Rightarrow> u8 list \<Rightarrow> unit res \<times> fifo" where
  "fifo_send f m =
     (if length m \<noteq> fifo_message_size f then (Err InvalidMessageSize, f)
      else if fifo_closed f then (Err QueueClosed, f)
      else if length (fifo_msgs f) = fifo_capacity f then (Err QueueFull, f)
      else (Ok (), f\<lparr>fifo_msgs := fifo_msgs f @ [m]\<rparr>))"

definition fifo_recv :: "fifo \<Rightarrow> u8 list \<Rightarrow> nat res \<times> fifo \<times> u8 list" where
  "fifo_recv f out =
     (if length out \<noteq> fifo_message_size f then (Err InvalidMessageSize, f, out)
      else case fifo_msgs f of
        [] \<Rightarrow> (Err (if fifo_closed f then QueueClosed else QueueEmpty), f, out)
      | m # ms \<Rightarrow> (Ok (fifo_message_size f), f\<lparr>fifo_msgs := ms\<rparr>, m))"

definition fifo_close :: "fifo \<Rightarrow> fifo" where
  "fifo_close f = f\<lparr>fifo_closed := True\<rparr>"

section \<open>Sequences of operations\<close>

text \<open>\<open>QRecv b\<close> receives into a buffer that holds \<open>b\<close>.\<close>

datatype 'm queue_op = QSend 'm | QRecv 'm | QClose

text \<open>Running a sequence collects the accepted messages and the delivered ones, each in
  order.\<close>

fun run_queue ::
  "('q \<Rightarrow> 'm \<Rightarrow> 'a res \<times> 'q) \<Rightarrow> ('q \<Rightarrow> 'm \<Rightarrow> 'b res \<times> 'q \<times> 'm) \<Rightarrow> ('q \<Rightarrow> 'q)
    \<Rightarrow> 'q \<Rightarrow> 'm queue_op list \<Rightarrow> 'q \<times> 'm list \<times> 'm list" where
  "run_queue snd_op rcv_op cls_op q [] = (q, [], [])"
| "run_queue snd_op rcv_op cls_op q (QSend m # ops) =
     (let (r, q1) = snd_op q m; (q', acc, del) = run_queue snd_op rcv_op cls_op q1 ops
      in (q', if is_ok r then m # acc else acc, del))"
| "run_queue snd_op rcv_op cls_op q (QRecv b # ops) =
     (let (r, q1, out) = rcv_op q b; (q', acc, del) = run_queue snd_op rcv_op cls_op q1 ops
      in (q', acc, if is_ok r then out # del else del))"
| "run_queue snd_op rcv_op cls_op q (QClose # ops) =
     run_queue snd_op rcv_op cls_op (cls_op q) ops"

text \<open>What the calls of a sequence returned: the result of each send, and the result of each receive with its buffer.\<close>

fun queue_results ::
  "('q \<Rightarrow> 'm \<Rightarrow> 'a res \<times> 'q) \<Rightarrow> ('q \<Rightarrow> 'm \<Rightarrow> 'b res \<times> 'q \<times> 'm) \<Rightarrow> ('q \<Rightarrow> 'q)
    \<Rightarrow> 'q \<Rightarrow> 'm queue_op list \<Rightarrow> ('a res + 'b res \<times> 'm) list" where
  "queue_results snd_op rcv_op cls_op q [] = []"
| "queue_results snd_op rcv_op cls_op q (QSend m # ops) =
     (let (r, q1) = snd_op q m in Inl r # queue_results snd_op rcv_op cls_op q1 ops)"
| "queue_results snd_op rcv_op cls_op q (QRecv b # ops) =
     (let (r, q1, out) = rcv_op q b in Inr (r, out) # queue_results snd_op rcv_op cls_op q1 ops)"
| "queue_results snd_op rcv_op cls_op q (QClose # ops) = queue_results snd_op rcv_op cls_op (cls_op q) ops"

section \<open>The interface\<close>

locale message_queue =
  fixes send :: "'q \<Rightarrow> 'm \<Rightarrow> 'a res \<times> 'q"
    and recv :: "'q \<Rightarrow> 'm \<Rightarrow> 'b res \<times> 'q \<times> 'm"
    and close :: "'q \<Rightarrow> 'q"
    and contents :: "'q \<Rightarrow> 'm list"
    and capacity :: "'q \<Rightarrow> nat"
    and closed :: "'q \<Rightarrow> bool"
    and invar :: "'q \<Rightarrow> bool"
  assumes bounded: "invar q \<Longrightarrow> length (contents q) \<le> capacity q"
    and send_invar: "invar q \<Longrightarrow> send q m = (r, q') \<Longrightarrow>
          invar q' \<and> closed q' = closed q \<and> capacity q' = capacity q \<and> \<not> is_panic r"
    and send_ok: "invar q \<Longrightarrow> send q m = (r, q') \<Longrightarrow> is_ok r \<Longrightarrow>
          \<not> closed q \<and> contents q' = contents q @ [m]"
    and send_fail: "invar q \<Longrightarrow> send q m = (r, q') \<Longrightarrow> \<not> is_ok r \<Longrightarrow> contents q' = contents q"
    and recv_invar: "invar q \<Longrightarrow> recv q b = (s, q', out) \<Longrightarrow>
          invar q' \<and> closed q' = closed q \<and> capacity q' = capacity q \<and> \<not> is_panic s"
    and recv_ok: "invar q \<Longrightarrow> recv q b = (s, q', out) \<Longrightarrow> is_ok s \<Longrightarrow> contents q = out # contents q'"
    and recv_fail: "invar q \<Longrightarrow> recv q b = (s, q', out) \<Longrightarrow> \<not> is_ok s \<Longrightarrow>
          contents q' = contents q \<and> out = b"
    and close_laws: "invar q \<Longrightarrow>
          invar (close q) \<and> closed (close q) \<and> contents (close q) = contents q
          \<and> capacity (close q) = capacity q"
begin

text \<open>Conservation and order: what was in the queue followed by what was accepted is what
  was delivered followed by what is left.\<close>

lemma run_conserves:
  assumes "invar q" and "run_queue send recv close q ops = (q', acc, del)"
  shows "invar q' \<and> capacity q' = capacity q \<and> contents q @ acc = del @ contents q'"
  using assms
proof (induction ops arbitrary: q q' acc del)
  case Nil
  then show ?case by simp
next
  case (Cons op ops)
  show ?case
  proof (cases op)
    case (QSend m)
    obtain r q1 where s: "send q m = (r, q1)" by (cases "send q m")
    obtain q2 acc1 del1 where rest: "run_queue send recv close q1 ops = (q2, acc1, del1)"
      by (cases "run_queue send recv close q1 ops")
    have i1: "invar q1" "capacity q1 = capacity q" using send_invar [OF Cons.prems(1) s] by auto
    from Cons.prems(2) QSend s rest have res: "q' = q2" "del = del1"
      "acc = (if is_ok r then m # acc1 else acc1)" by auto
    have IH: "invar q2 \<and> capacity q2 = capacity q1 \<and> contents q1 @ acc1 = del1 @ contents q2"
      using Cons.IH [OF i1(1) rest] .
    show ?thesis
      using IH i1 res send_ok [OF Cons.prems(1) s] send_fail [OF Cons.prems(1) s]
      by (cases "is_ok r") auto
  next
    case (QRecv b)
    obtain s q1 out where r: "recv q b = (s, q1, out)" by (cases "recv q b")
    obtain q2 acc1 del1 where rest: "run_queue send recv close q1 ops = (q2, acc1, del1)"
      by (cases "run_queue send recv close q1 ops")
    have i1: "invar q1" "capacity q1 = capacity q" using recv_invar [OF Cons.prems(1) r] by auto
    from Cons.prems(2) QRecv r rest have res: "q' = q2" "acc = acc1"
      "del = (if is_ok s then out # del1 else del1)" by auto
    have IH: "invar q2 \<and> capacity q2 = capacity q1 \<and> contents q1 @ acc1 = del1 @ contents q2"
      using Cons.IH [OF i1(1) rest] .
    show ?thesis
      using IH i1 res recv_ok [OF Cons.prems(1) r] recv_fail [OF Cons.prems(1) r]
      by (cases "is_ok s") auto
  next
    case QClose
    with Cons.prems Cons.IH [of "close q"] close_laws [OF Cons.prems(1)] show ?thesis by simp
  qed
qed

lemma closed_accepts_nothing:
  assumes "invar q" and "closed q" and "run_queue send recv close q ops = (q', acc, del)"
  shows "acc = [] \<and> closed q'"
  using assms
proof (induction ops arbitrary: q q' acc del)
  case Nil
  then show ?case by simp
next
  case (Cons op ops)
  show ?case
  proof (cases op)
    case (QSend m)
    obtain r q1 where s: "send q m = (r, q1)" by (cases "send q m")
    obtain q2 acc1 del1 where rest: "run_queue send recv close q1 ops = (q2, acc1, del1)"
      by (cases "run_queue send recv close q1 ops")
    have "invar q1" "closed q1" using send_invar [OF Cons.prems(1) s] Cons.prems(2) by auto
    then have IH: "acc1 = [] \<and> closed q2" using rest by (rule Cons.IH)
    have "\<not> is_ok r" using send_ok [OF Cons.prems(1) s] Cons.prems(2) by auto
    with IH Cons.prems(3) QSend s rest show ?thesis by auto
  next
    case (QRecv b)
    obtain s q1 out where r: "recv q b = (s, q1, out)" by (cases "recv q b")
    obtain q2 acc1 del1 where rest: "run_queue send recv close q1 ops = (q2, acc1, del1)"
      by (cases "run_queue send recv close q1 ops")
    have "invar q1" "closed q1" using recv_invar [OF Cons.prems(1) r] Cons.prems(2) by auto
    then have IH: "acc1 = [] \<and> closed q2" using rest by (rule Cons.IH)
    with Cons.prems(3) QRecv r rest show ?thesis by auto
  next
    case QClose
    with Cons.prems Cons.IH [of "close q"] close_laws [OF Cons.prems(1)] show ?thesis by simp
  qed
qed

text \<open>Delivery is in order: the delivered messages are a prefix of what was queued and
  accepted, and the backlog never exceeds the capacity.\<close>

lemma run_fifo:
  assumes "invar q" and "run_queue send recv close q ops = (q', acc, del)"
  shows "del = take (length del) (contents q @ acc)"
    and "length (contents q) + length acc \<le> length del + capacity q"
proof -
  have c: "invar q'" "capacity q' = capacity q" "contents q @ acc = del @ contents q'"
    using run_conserves [OF assms] by auto
  then show "del = take (length del) (contents q @ acc)" by simp
  have "length (contents q @ acc) = length (del @ contents q')" using c(3) by simp
  then show "length (contents q) + length acc \<le> length del + capacity q"
    using bounded [OF c(1)] c(2) by simp
qed

end

section \<open>Calls that may wait\<close>

text \<open>A caller of a blocking queue sees less: a call returns some result, after any waiting, and the queue
  has changed by exactly that result since just before. \<open>send_returns q m r q'\<close> holds when a send of
  \<open>m\<close> may commit \<open>r\<close> on \<open>q\<close> and leave \<open>q'\<close>.\<close>

locale queue_calls =
  fixes send_returns :: "'q \<Rightarrow> 'm \<Rightarrow> 'a res \<Rightarrow> 'q \<Rightarrow> bool"
    and recv_returns :: "'q \<Rightarrow> 'm \<Rightarrow> 'b res \<Rightarrow> 'q \<Rightarrow> 'm \<Rightarrow> bool"
    and close :: "'q \<Rightarrow> 'q"
    and contents :: "'q \<Rightarrow> 'm list"
    and capacity :: "'q \<Rightarrow> nat"
    and closed :: "'q \<Rightarrow> bool"
    and invar :: "'q \<Rightarrow> bool"
  assumes bound: "invar q \<Longrightarrow> length (contents q) \<le> capacity q"
    and send_call: "invar q \<Longrightarrow> send_returns q m r q' \<Longrightarrow> invar q' \<and> capacity q' = capacity q
          \<and> \<not> is_panic r \<and> contents q' = contents q @ (if is_ok r then [m] else [])"
    and recv_call: "invar q \<Longrightarrow> recv_returns q b s q' out \<Longrightarrow> invar q' \<and> capacity q' = capacity q
          \<and> \<not> is_panic s \<and> contents q = (if is_ok s then [out] else []) @ contents q'"
    and close_call: "invar q \<Longrightarrow> invar (close q) \<and> capacity (close q) = capacity q
          \<and> contents (close q) = contents q \<and> closed (close q)"

text \<open>A queue whose calls do not wait is one.\<close>

sublocale message_queue \<subseteq> calls: queue_calls
  "\<lambda>q m r q'. send q m = (r, q')" "\<lambda>q b s q' out. recv q b = (s, q', out)" close contents capacity closed invar
proof
  fix q m r q' assume "invar q" "send q m = (r, q')"
  then show "invar q' \<and> capacity q' = capacity q \<and> \<not> is_panic r
      \<and> contents q' = contents q @ (if is_ok r then [m] else [])"
    using send_invar [of q m r q'] send_ok [of q m r q'] send_fail [of q m r q'] by auto
next
  fix q b s q' out assume "invar q" "recv q b = (s, q', out)"
  then show "invar q' \<and> capacity q' = capacity q \<and> \<not> is_panic s
      \<and> contents q = (if is_ok s then [out] else []) @ contents q'"
    using recv_invar [of q b s q' out] recv_ok [of q b s q' out] recv_fail [of q b s q' out] by auto
qed (use bounded close_laws in auto)

end
