(* ===== verification/Byte_Queue.thy ===== *)
theory Byte_Queue
  imports Queue_Interface
begin

text \<open>
  src/crates/osal-portable/src/byte_queue.rs: the ring buffer of fixed-size byte messages
  that all three backends share. Debug assertions, slice bounds and the remainder by the
  capacity are panics of the model; the theory proves that a queue made by \<open>new\<close> never
  reaches one, that every operation refines the abstract FIFO, and that the index
  arithmetic stays inside \<open>usize\<close>.
\<close>

section \<open>State\<close>

record byte_queue =
  bq_storage :: "u8 list"
  bq_capacity :: nat
  bq_message_size :: nat
  bq_head :: nat
  bq_tail :: nat
  bq_len :: nat
  bq_closed :: bool

section \<open>Operations\<close>

text \<open>\<open>reserve\<close> says whether the allocator grants a reservation of that many bytes.\<close>

definition byte_queue_new :: "(nat \<Rightarrow> bool) \<Rightarrow> nat \<Rightarrow> nat \<Rightarrow> byte_queue res" where
  "byte_queue_new reserve capacity message_size =
     (if capacity = 0 \<or> message_size = 0 then Err InvalidParameter
      else res_bind (ok_or (checked_mul usize_max capacity message_size) Overflow)
        (\<lambda>storage_size.
           if \<not> reserve storage_size then Err OutOfMemory
           else Ok \<lparr>bq_storage = replicate storage_size 0, bq_capacity = capacity,
                    bq_message_size = message_size, bq_head = 0, bq_tail = 0, bq_len = 0,
                    bq_closed = False\<rparr>))"

definition available_slots :: "byte_queue \<Rightarrow> nat res" where
  "available_slots q =
     (case checked_sub (bq_capacity q) (bq_len q) of
        Some n \<Rightarrow> Ok n | None \<Rightarrow> Panic ''attempt to subtract with overflow'')"

definition bq_is_empty :: "byte_queue \<Rightarrow> bool" where
  "bq_is_empty q = (bq_len q = 0)"

definition bq_is_full :: "byte_queue \<Rightarrow> bool" where
  "bq_is_full q = (bq_len q = bq_capacity q)"

definition bq_close :: "byte_queue \<Rightarrow> byte_queue" where
  "bq_close q = q\<lparr>bq_closed := True\<rparr>"

definition bq_asserts :: "byte_queue \<Rightarrow> bool" where
  "bq_asserts q =
     (bq_len q \<le> bq_capacity q
      \<and> (bq_head q < bq_capacity q \<or> bq_capacity q = 0)
      \<and> (bq_tail q < bq_capacity q \<or> bq_capacity q = 0)
      \<and> length (bq_storage q) = bq_capacity q * bq_message_size q)"

definition try_send :: "byte_queue \<Rightarrow> u8 list \<Rightarrow> unit res \<times> byte_queue" where
  "try_send q message =
     (if \<not> bq_asserts q then (Panic ''debug_assert'', q)
      else if length message \<noteq> bq_message_size q then (Err InvalidMessageSize, q)
      else if bq_closed q then (Err QueueClosed, q)
      else if bq_is_full q then (Err QueueFull, q)
      else
        let offset = bq_tail q * bq_message_size q in
        case slice_write (bq_storage q) offset (bq_message_size q) message of
          None \<Rightarrow> (Panic ''slice index out of range'', q)
        | Some storage \<Rightarrow>
            if bq_capacity q = 0 then (Panic ''remainder with a divisor of zero'', q)
            else
              let q' = q\<lparr>bq_storage := storage,
                         bq_tail := (bq_tail q + 1) mod bq_capacity q,
                         bq_len := bq_len q + 1\<rparr>
              in if bq_len q' \<le> bq_capacity q' then (Ok (), q')
                 else (Panic ''debug_assert'', q'))"

definition try_recv :: "byte_queue \<Rightarrow> u8 list \<Rightarrow> nat res \<times> byte_queue \<times> u8 list" where
  "try_recv q out =
     (if \<not> bq_asserts q then (Panic ''debug_assert'', q, out)
      else if length out \<noteq> bq_message_size q then (Err InvalidMessageSize, q, out)
      else if bq_len q = 0
      then (Err (if bq_closed q then QueueClosed else QueueEmpty), q, out)
      else
        let offset = bq_head q * bq_message_size q in
        case slice_read (bq_storage q) offset (bq_message_size q) of
          None \<Rightarrow> (Panic ''slice index out of range'', q, out)
        | Some bytes \<Rightarrow>
          (case slice_write out 0 (bq_message_size q) bytes of
             None \<Rightarrow> (Panic ''slice index out of range'', q, out)
           | Some out' \<Rightarrow>
               if bq_capacity q = 0 then (Panic ''remainder with a divisor of zero'', q, out')
               else
                 let q' = q\<lparr>bq_head := (bq_head q + 1) mod bq_capacity q,
                            bq_len := bq_len q - 1\<rparr>
                 in if bq_len q' \<le> bq_capacity q' then (Ok (bq_message_size q'), q', out')
                    else (Panic ''debug_assert'', q', out')))"

section \<open>Invariant and abstraction\<close>

definition bq_inv :: "byte_queue \<Rightarrow> bool" where
  "bq_inv q =
     (0 < bq_capacity q \<and> 0 < bq_message_size q
      \<and> bq_capacity q * bq_message_size q \<le> usize_max
      \<and> length (bq_storage q) = bq_capacity q * bq_message_size q
      \<and> bq_head q < bq_capacity q \<and> bq_len q \<le> bq_capacity q
      \<and> bq_tail q = (bq_head q + bq_len q) mod bq_capacity q)"

definition bq_slot :: "byte_queue \<Rightarrow> nat \<Rightarrow> u8 list" where
  "bq_slot q k = take (bq_message_size q) (drop (k * bq_message_size q) (bq_storage q))"

definition bq_contents :: "byte_queue \<Rightarrow> u8 list list" where
  "bq_contents q = map (\<lambda>i. bq_slot q ((bq_head q + i) mod bq_capacity q)) [0..<bq_len q]"

definition bq_abs :: "byte_queue \<Rightarrow> fifo" where
  "bq_abs q =
     \<lparr>fifo_msgs = bq_contents q, fifo_capacity = bq_capacity q,
      fifo_message_size = bq_message_size q, fifo_closed = bq_closed q\<rparr>"

section \<open>Ring arithmetic\<close>

lemma bq_inv_asserts [simp]: "bq_inv q \<Longrightarrow> bq_asserts q"
  by (simp add: bq_inv_def bq_asserts_def)

lemma length_bq_contents [simp]: "length (bq_contents q) = bq_len q"
  by (simp add: bq_contents_def)

lemma slot_in_storage:
  fixes k :: nat
  assumes "k < c"
  shows "k * m + m \<le> c * m"
proof -
  have "Suc k * m \<le> c * m" using assms by (intro mult_le_mono1) simp
  then show ?thesis by simp
qed

lemma slots_disjoint:
  fixes k t :: nat
  assumes "k \<noteq> t"
  shows "k * m + m \<le> t * m \<or> t * m + m \<le> k * m"
  using assms slot_in_storage [of k t m] slot_in_storage [of t k m] by linarith

lemma bq_slot_read:
  assumes "bq_inv q" and "k < bq_capacity q"
  shows "slice_read (bq_storage q) (k * bq_message_size q) (bq_message_size q) = Some (bq_slot q k)"
  using assms slot_in_storage [OF assms(2), of "bq_message_size q"]
  by (simp add: bq_inv_def slice_read_def bq_slot_def)

text \<open>Within one lap the ring positions are distinct.\<close>

lemma ring_pos_neq:
  fixes h i j c :: nat
  assumes "i < j" and "j < c + i" and "0 < c"
  shows "(h + i) mod c \<noteq> (h + j) mod c"
proof
  assume "(h + i) mod c = (h + j) mod c"
  then have "(h + j) mod c = (h + i) mod c" by simp
  then have "c dvd (h + j) - (h + i)" using assms(1) by (subst (asm) mod_eq_dvd_iff_nat) simp_all
  then have "c dvd j - i" by simp
  with assms show False by (auto dest: dvd_imp_le)
qed

section \<open>The operations on a well-formed queue\<close>

lemma byte_queue_new_inv:
  assumes "byte_queue_new reserve c m = Ok q"
  shows "bq_inv q" and "bq_abs q =
    \<lparr>fifo_msgs = [], fifo_capacity = c, fifo_message_size = m, fifo_closed = False\<rparr>"
  using assms
  by (auto simp: byte_queue_new_def bq_inv_def bq_abs_def bq_contents_def checked_mul_def
    split: if_splits)

text \<open>The accepting branch of \<open>try_send\<close>: the message is written to the tail slot.\<close>

lemma try_send_accept:
  assumes inv: "bq_inv q" and size: "length m = bq_message_size q"
    and open_q: "\<not> bq_closed q" and room: "bq_len q < bq_capacity q"
  obtains st where
    "slice_write (bq_storage q) (bq_tail q * bq_message_size q) (bq_message_size q) m = Some st"
    and "try_send q m = (Ok (), q\<lparr>bq_storage := st,
           bq_tail := (bq_tail q + 1) mod bq_capacity q, bq_len := bq_len q + 1\<rparr>)"
proof -
  have "bq_tail q < bq_capacity q" using inv by (simp add: bq_inv_def)
  then have "bq_tail q * bq_message_size q + bq_message_size q
      \<le> bq_capacity q * bq_message_size q" by (rule slot_in_storage)
  then obtain st where st:
    "slice_write (bq_storage q) (bq_tail q * bq_message_size q) (bq_message_size q) m = Some st"
    using inv size by (simp add: slice_write_def bq_inv_def)
  moreover have "try_send q m = (Ok (), q\<lparr>bq_storage := st,
           bq_tail := (bq_tail q + 1) mod bq_capacity q, bq_len := bq_len q + 1\<rparr>)"
    using inv size open_q room st
    by (simp add: try_send_def bq_is_full_def Let_def)
  ultimately show ?thesis by (rule that)
qed

lemma send_contents:
  assumes inv: "bq_inv q" and room: "bq_len q < bq_capacity q"
    and st: "slice_write (bq_storage q) (bq_tail q * bq_message_size q) (bq_message_size q) m = Some st"
    and q': "q' = q\<lparr>bq_storage := st,
           bq_tail := (bq_tail q + 1) mod bq_capacity q, bq_len := bq_len q + 1\<rparr>"
  shows "bq_inv q'" and "bq_contents q' = bq_contents q @ [m]"
proof -
  let ?c = "bq_capacity q" and ?ms = "bq_message_size q"
  have len: "length st = length (bq_storage q)" using st by (rule slice_write_length)
  have t: "bq_tail q = (bq_head q + bq_len q) mod ?c" "bq_tail q < ?c" and c: "0 < ?c"
    using inv by (simp_all add: bq_inv_def)
  show inv': "bq_inv q'"
    using inv room len t by (simp add: bq_inv_def q' mod_Suc_eq)
  have keep: "bq_slot q' ((bq_head q + i) mod ?c) = bq_slot q ((bq_head q + i) mod ?c)"
    if "i < bq_len q" for i
  proof -
    let ?k = "(bq_head q + i) mod ?c"
    have k: "?k < ?c" "?k \<noteq> bq_tail q"
      using that room c t(1) ring_pos_neq [of i "bq_len q" ?c "bq_head q"] by simp_all
    have "slice_read st (?k * ?ms) ?ms = slice_read (bq_storage q) (?k * ?ms) ?ms"
      using slots_disjoint [OF k(2), of ?ms] slice_read_write_before [OF st]
        slice_read_write_after [OF st] by blast
    then have "Some (bq_slot q' ?k) = Some (bq_slot q ?k)"
      using bq_slot_read [OF inv k(1)] bq_slot_read [OF inv', of ?k] k(1) by (simp add: q')
    then show ?thesis by simp
  qed
  have "Some (bq_slot q' (bq_tail q)) = Some m"
    using bq_slot_read [OF inv', of "bq_tail q"] t(2) slice_read_write_same [OF st]
    by (simp add: q')
  then have new: "bq_slot q' ((bq_head q + bq_len q) mod ?c) = m" using t(1) by simp
  show "bq_contents q' = bq_contents q @ [m]"
    using keep new by (simp add: bq_contents_def q')
qed

text \<open>The delivering branch of \<open>try_recv\<close>.\<close>

lemma try_recv_deliver:
  assumes inv: "bq_inv q" and size: "length out = bq_message_size q" and some: "bq_len q \<noteq> 0"
  shows "try_recv q out = (Ok (bq_message_size q),
           q\<lparr>bq_head := (bq_head q + 1) mod bq_capacity q, bq_len := bq_len q - 1\<rparr>,
           bq_slot q (bq_head q))"
proof -
  have h: "bq_head q < bq_capacity q" using inv by (simp add: bq_inv_def)
  note rd = bq_slot_read [OF inv h]
  have "length (bq_slot q (bq_head q)) = bq_message_size q" using rd by (rule slice_read_length)
  then have wr: "slice_write out 0 (bq_message_size q) (bq_slot q (bq_head q))
      = Some (bq_slot q (bq_head q))"
    using size by (simp add: slice_write_def)
  show ?thesis
    using inv size some rd wr
    by (auto simp: try_recv_def Let_def bq_inv_def [of q])
qed

lemma recv_contents:
  assumes inv: "bq_inv q" and some: "bq_len q \<noteq> 0"
    and q': "q' = q\<lparr>bq_head := (bq_head q + 1) mod bq_capacity q, bq_len := bq_len q - 1\<rparr>"
  shows "bq_inv q'" and "bq_contents q = bq_slot q (bq_head q) # bq_contents q'"
proof -
  let ?c = "bq_capacity q"
  have h: "bq_head q < ?c" "0 < ?c" using inv by (simp_all add: bq_inv_def)
  obtain n where n: "bq_len q = Suc n" using some by (cases "bq_len q") auto
  show "bq_inv q'"
    using inv n by (simp add: bq_inv_def q' mod_simps)
  have "bq_slot q ((bq_head q + Suc i) mod ?c) = bq_slot q' ((bq_head q' + i) mod bq_capacity q')" for i
    by (simp add: q' bq_slot_def mod_simps)
  then show "bq_contents q = bq_slot q (bq_head q) # bq_contents q'"
    using h n by (simp add: bq_contents_def q' upt_rec [of 0] map_Suc_upt [symmetric] del: upt_Suc)
qed

section \<open>Refinement of the abstract FIFO\<close>

lemma try_send_refines:
  assumes inv: "bq_inv q" and s: "try_send q m = (r, q')"
  shows "bq_inv q'" and "fifo_send (bq_abs q) m = (r, bq_abs q')"
proof -
  have "bq_inv q' \<and> fifo_send (bq_abs q) m = (r, bq_abs q')"
  proof (cases "length m = bq_message_size q \<and> \<not> bq_closed q \<and> bq_len q < bq_capacity q")
    case True
    then obtain st where
      st: "slice_write (bq_storage q) (bq_tail q * bq_message_size q) (bq_message_size q) m = Some st"
      and e: "try_send q m = (Ok (), q\<lparr>bq_storage := st,
           bq_tail := (bq_tail q + 1) mod bq_capacity q, bq_len := bq_len q + 1\<rparr>)"
      using try_send_accept [OF inv] by metis
    have q': "q' = q\<lparr>bq_storage := st,
           bq_tail := (bq_tail q + 1) mod bq_capacity q, bq_len := bq_len q + 1\<rparr>"
      and r: "r = Ok ()" using s e by simp_all
    have room: "bq_len q < bq_capacity q" using True by simp
    have c: "bq_contents q' = bq_contents q @ [m]" and "bq_inv q'"
      using send_contents [OF inv room st q'] by auto
    then show ?thesis
      using True r by (simp add: fifo_send_def bq_abs_def c) (simp add: q')
  next
    case False
    moreover have "bq_len q \<le> bq_capacity q" using inv by (simp add: bq_inv_def)
    ultimately show ?thesis
      using inv s by (auto simp: try_send_def fifo_send_def bq_abs_def bq_is_full_def split: if_splits)
  qed
  then show "bq_inv q'" and "fifo_send (bq_abs q) m = (r, bq_abs q')" by auto
qed

lemma try_recv_refines:
  assumes inv: "bq_inv q" and s: "try_recv q out = (r, q', out')"
  shows "bq_inv q'" and "fifo_recv (bq_abs q) out = (r, bq_abs q', out')"
proof -
  have "bq_inv q' \<and> fifo_recv (bq_abs q) out = (r, bq_abs q', out')"
  proof (cases "length out = bq_message_size q \<and> bq_len q \<noteq> 0")
    case True
    then have size: "length out = bq_message_size q" and some: "bq_len q \<noteq> 0" by auto
    have q': "q' = q\<lparr>bq_head := (bq_head q + 1) mod bq_capacity q, bq_len := bq_len q - 1\<rparr>"
      and r: "r = Ok (bq_message_size q)" and o: "out' = bq_slot q (bq_head q)"
      using s try_recv_deliver [OF inv size some] by simp_all
    have c: "bq_contents q = bq_slot q (bq_head q) # bq_contents q'" and "bq_inv q'"
      using recv_contents [OF inv some q'] by auto
    then show ?thesis
      using size r o by (simp add: fifo_recv_def bq_abs_def c) (simp add: q')
  next
    case False
    then show ?thesis
      using inv s
      by (auto simp: try_recv_def fifo_recv_def bq_abs_def bq_contents_def split: if_splits)
  qed
  then show "bq_inv q'" and "fifo_recv (bq_abs q) out = (r, bq_abs q', out')" by auto
qed

lemma bq_close_refines:
  assumes "bq_inv q"
  shows "bq_inv (bq_close q)" and "bq_abs (bq_close q) = fifo_close (bq_abs q)"
  using assms
  by (simp_all add: bq_inv_def bq_close_def bq_abs_def bq_contents_def bq_slot_def fifo_close_def)

lemma bq_abs_simps [simp]:
  "fifo_msgs (bq_abs q) = bq_contents q" "fifo_capacity (bq_abs q) = bq_capacity q"
  "fifo_message_size (bq_abs q) = bq_message_size q" "fifo_closed (bq_abs q) = bq_closed q"
  by (simp_all add: bq_abs_def)

text \<open>What the abstract FIFO's equations say about the concrete fields.\<close>

lemma try_send_cases:
  assumes "bq_inv q" and "try_send q m = (r, q')"
  shows "bq_inv q'" "bq_capacity q' = bq_capacity q" "bq_message_size q' = bq_message_size q"
    "bq_closed q' = bq_closed q"
    "r = (if length m \<noteq> bq_message_size q then Err InvalidMessageSize
          else if bq_closed q then Err QueueClosed
          else if bq_len q = bq_capacity q then Err QueueFull else Ok ())"
    "bq_contents q' = (if is_ok r then bq_contents q @ [m] else bq_contents q)"
proof -
  note ref = try_send_refines [OF assms]
  show "bq_inv q'" by (rule ref(1))
  have f: "bq_abs q' = snd (fifo_send (bq_abs q) m)" and r: "r = fst (fifo_send (bq_abs q) m)"
    using ref(2) by simp_all
  from arg_cong [OF f, of fifo_capacity] show "bq_capacity q' = bq_capacity q"
    by (simp add: fifo_send_def)
  from arg_cong [OF f, of fifo_message_size] show "bq_message_size q' = bq_message_size q"
    by (simp add: fifo_send_def)
  from arg_cong [OF f, of fifo_closed] show "bq_closed q' = bq_closed q"
    by (simp add: fifo_send_def)
  from r show "r = (if length m \<noteq> bq_message_size q then Err InvalidMessageSize
          else if bq_closed q then Err QueueClosed
          else if bq_len q = bq_capacity q then Err QueueFull else Ok ())"
    by (simp add: fifo_send_def)
  from arg_cong [OF f, of fifo_msgs] r
  show "bq_contents q' = (if is_ok r then bq_contents q @ [m] else bq_contents q)"
    by (simp add: fifo_send_def)
qed

lemma try_recv_cases:
  assumes "bq_inv q" and "try_recv q out = (r, q', out')"
  shows "bq_inv q'" "bq_capacity q' = bq_capacity q" "bq_message_size q' = bq_message_size q"
    "bq_closed q' = bq_closed q"
    "r = (if length out \<noteq> bq_message_size q then Err InvalidMessageSize
          else if bq_len q = 0 then Err (if bq_closed q then QueueClosed else QueueEmpty)
          else Ok (bq_message_size q))"
    "is_ok r \<Longrightarrow> bq_contents q = out' # bq_contents q'"
    "\<not> is_ok r \<Longrightarrow> bq_contents q' = bq_contents q \<and> out' = out"
proof -
  note ref = try_recv_refines [OF assms]
  show "bq_inv q'" by (rule ref(1))
  have f: "bq_abs q' = fst (snd (fifo_recv (bq_abs q) out))"
    and r: "r = fst (fifo_recv (bq_abs q) out)" and o: "out' = snd (snd (fifo_recv (bq_abs q) out))"
    using ref(2) by simp_all
  have len: "bq_contents q = [] \<longleftrightarrow> bq_len q = 0" by (simp add: bq_contents_def)
  show "bq_capacity q' = bq_capacity q"
    using arg_cong [OF f, of fifo_capacity] by (simp add: fifo_recv_def split: list.splits if_splits)
  show "bq_message_size q' = bq_message_size q"
    using arg_cong [OF f, of fifo_message_size]
    by (simp add: fifo_recv_def split: list.splits if_splits)
  show "bq_closed q' = bq_closed q"
    using arg_cong [OF f, of fifo_closed] by (simp add: fifo_recv_def split: list.splits if_splits)
  from r len show "r = (if length out \<noteq> bq_message_size q then Err InvalidMessageSize
          else if bq_len q = 0 then Err (if bq_closed q then QueueClosed else QueueEmpty)
          else Ok (bq_message_size q))"
    by (auto simp: fifo_recv_def split: list.splits)
  show "is_ok r \<Longrightarrow> bq_contents q = out' # bq_contents q'"
    using arg_cong [OF f, of fifo_msgs] r o by (auto simp: fifo_recv_def split: list.splits if_splits)
  show "\<not> is_ok r \<Longrightarrow> bq_contents q' = bq_contents q \<and> out' = out"
    using arg_cong [OF f, of fifo_msgs] r o by (auto simp: fifo_recv_def split: list.splits if_splits)
qed

section \<open>The interface is met\<close>

interpretation ring: message_queue try_send try_recv bq_close bq_contents bq_capacity bq_closed bq_inv
proof
  show "length (bq_contents q) \<le> bq_capacity q" if "bq_inv q" for q
    using that by (simp add: bq_inv_def)
next
  fix q m r q' assume a: "bq_inv q" "try_send q m = (r, q')"
  note c = try_send_cases [OF a]
  show "bq_inv q' \<and> bq_closed q' = bq_closed q \<and> bq_capacity q' = bq_capacity q \<and> \<not> is_panic r"
    using c by simp
  show "\<not> bq_closed q \<and> bq_contents q' = bq_contents q @ [m]" if "is_ok r"
    using that c(5,6) by (auto split: if_splits)
  show "bq_contents q' = bq_contents q" if "\<not> is_ok r"
    using that c(6) by simp
next
  fix q b s q' out assume a: "bq_inv q" "try_recv q b = (s, q', out)"
  note c = try_recv_cases [OF a]
  show "bq_inv q' \<and> bq_closed q' = bq_closed q \<and> bq_capacity q' = bq_capacity q \<and> \<not> is_panic s"
    using c by simp
  show "bq_contents q = out # bq_contents q'" if "is_ok s" using that c(6) by simp
  show "bq_contents q' = bq_contents q \<and> out = b" if "\<not> is_ok s" using that c(7) by simp
next
  fix q assume "bq_inv q"
  then show "bq_inv (bq_close q) \<and> bq_closed (bq_close q) \<and> bq_contents (bq_close q) = bq_contents q
        \<and> bq_capacity (bq_close q) = bq_capacity q"
    by (simp add: bq_inv_def bq_close_def bq_contents_def bq_slot_def)
qed

section \<open>Properties\<close>

text \<open>A two-slot queue and a run through a full queue, a wrap-around and a close.\<close>

lemma demo_new: "byte_queue_new (\<lambda>_. True) 2 1 = Ok
    \<lparr>bq_storage = [0, 0], bq_capacity = 2, bq_message_size = 1, bq_head = 0, bq_tail = 0,
      bq_len = 0, bq_closed = False\<rparr>"
  by (simp add: byte_queue_new_def checked_mul_def usize_max_def) (simp add: numeral_2_eq_2)

lemma demo_run: "run_queue try_send try_recv bq_close
    \<lparr>bq_storage = [0, 0], bq_capacity = 2, bq_message_size = 1, bq_head = 0, bq_tail = 0,
      bq_len = 0, bq_closed = False\<rparr>
    [QSend [5], QSend [6], QSend [7], QRecv [0], QSend [8], QRecv [0], QClose, QSend [9]]
  = (\<lparr>bq_storage = [8, 6], bq_capacity = 2, bq_message_size = 1, bq_head = 0, bq_tail = 1,
      bq_len = 1, bq_closed = True\<rparr>, [[5], [6], [8]], [[5], [6]])"
  by code_simp

lemma run_queue_refines:
  assumes "bq_inv q"
  shows "run_queue fifo_send fifo_recv fifo_close (bq_abs q) ops
    = (case run_queue try_send try_recv bq_close q ops of (q', acc, del) \<Rightarrow> (bq_abs q', acc, del))"
  using assms
proof (induction ops arbitrary: q)
  case Nil
  then show ?case by simp
next
  case (Cons op ops)
  show ?case
  proof (cases op)
    case (QSend m)
    obtain r q1 where s: "try_send q m = (r, q1)" by (cases "try_send q m")
    show ?thesis
      using try_send_refines [OF Cons.prems s] Cons.IH [of q1] QSend s
      by (simp split: prod.splits)
  next
    case (QRecv b)
    obtain r q1 out where s: "try_recv q b = (r, q1, out)" by (cases "try_recv q b")
    show ?thesis
      using try_recv_refines [OF Cons.prems s] Cons.IH [of q1] QRecv s
      by (simp split: prod.splits)
  next
    case QClose
    then show ?thesis
      using bq_close_refines [OF Cons.prems] Cons.IH [of "bq_close q"] by simp
  qed
qed

lemma queue_results_refines:
  assumes "bq_inv q"
  shows "queue_results fifo_send fifo_recv fifo_close (bq_abs q) ops = queue_results try_send try_recv bq_close q ops"
  using assms
proof (induction ops arbitrary: q)
  case (Cons op ops)
  show ?case
  proof (cases op)
    case (QSend m)
    obtain r q1 where s: "try_send q m = (r, q1)" by (cases "try_send q m")
    show ?thesis using try_send_refines [OF Cons.prems s] Cons.IH [of q1] QSend s by simp
  next
    case (QRecv b)
    obtain r q1 out where s: "try_recv q b = (r, q1, out)" by (cases "try_recv q b")
    show ?thesis using try_recv_refines [OF Cons.prems s] Cons.IH [of q1] QRecv s by simp
  next
    case QClose
    then show ?thesis using bq_close_refines [OF Cons.prems] Cons.IH [of "bq_close q"] by simp
  qed
qed simp

text \<open>C34. The ring buffer implements the abstract FIFO: on a queue made by \<open>new\<close>, every
  sequence of sends, receives and closes accepts and delivers exactly the messages the
  abstract queue accepts and delivers, every call returns the same result (the error codes and the receive buffers included),
  and the sequence ends in a state that represents the abstract one.\<close>

theorem byte_queue_refines_fifo:
  assumes "byte_queue_new reserve c m = Ok q"
    and "run_queue try_send try_recv bq_close q ops = (q', acc, del)"
  shows "run_queue fifo_send fifo_recv fifo_close
           \<lparr>fifo_msgs = [], fifo_capacity = c, fifo_message_size = m, fifo_closed = False\<rparr> ops
         = (bq_abs q', acc, del) \<and> bq_inv q'
    \<and> queue_results fifo_send fifo_recv fifo_close
           \<lparr>fifo_msgs = [], fifo_capacity = c, fifo_message_size = m, fifo_closed = False\<rparr> ops
         = queue_results try_send try_recv bq_close q ops"
  using run_queue_refines [OF byte_queue_new_inv(1) [OF assms(1)], of ops] assms(2)
    queue_results_refines [OF byte_queue_new_inv(1) [OF assms(1)], of ops] byte_queue_new_inv(2) [OF assms(1)]
    ring.run_conserves [OF byte_queue_new_inv(1) [OF assms(1)] assms(2)]
  by simp

theorem byte_queue_refines_fifo_witness:
  "\<exists>q'. run_queue fifo_send fifo_recv fifo_close
      \<lparr>fifo_msgs = [], fifo_capacity = 2, fifo_message_size = 1, fifo_closed = False\<rparr>
      [QSend [5], QSend [6], QSend [7], QRecv [0], QSend [8], QRecv [0], QClose, QSend [9]]
    = (bq_abs q', [[5], [6], [8]], [[5], [6]]) \<and> bq_inv q'"
  using byte_queue_refines_fifo [OF demo_new demo_run] by blast

text \<open>No message is lost, duplicated or reordered: over any sequence of operations on a
  fresh queue, the accepted messages in order are the delivered ones followed by the
  current content, and the content never exceeds the capacity.\<close>

theorem byte_queue_conserves:
  assumes "byte_queue_new reserve c m = Ok q"
    and "run_queue try_send try_recv bq_close q ops = (q', acc, del)"
  shows "acc = del @ bq_contents q' \<and> length (bq_contents q') \<le> c"
proof -
  note new = byte_queue_new_inv [OF assms(1)]
  have "bq_contents q = []" "bq_capacity q = c" using arg_cong [OF new(2), of fifo_msgs]
    arg_cong [OF new(2), of fifo_capacity] by simp_all
  then show ?thesis
    using ring.run_conserves [OF new(1) assms(2)] ring.bounded [of q'] by auto
qed

theorem byte_queue_conserves_witness:
  "\<exists>q'. [[5], [6], [8]] = [[5], [6]] @ bq_contents q' \<and> length (bq_contents q') \<le> 2"
  using byte_queue_conserves [OF demo_new demo_run] by blast

lemma drain:
  assumes "bq_inv q" and "\<forall>b\<in>set bufs. length b = bq_message_size q"
    and "length bufs = length (bq_contents q)"
  shows "\<exists>q'. run_queue try_send try_recv bq_close q (map QRecv bufs) = (q', [], bq_contents q)
    \<and> bq_inv q' \<and> bq_contents q' = [] \<and> bq_closed q' = bq_closed q
    \<and> bq_message_size q' = bq_message_size q"
  using assms
proof (induction bufs arbitrary: q)
  case Nil
  then have "bq_contents q = []" by (simp add: bq_contents_def)
  with Nil(1) show ?case by simp
next
  case (Cons b bufs)
  obtain r q1 out where s: "try_recv q b = (r, q1, out)" by (cases "try_recv q b")
  note c = try_recv_cases [OF Cons.prems(1) s]
  have ok: "is_ok r" using c(5) Cons.prems(2,3) by simp
  have ct: "bq_contents q = out # bq_contents q1" using c(6) ok by simp
  then have len: "length bufs = length (bq_contents q1)"
    using Cons.prems(3) by (metis length_Cons nat.inject)
  obtain q' where q': "run_queue try_send try_recv bq_close q1 (map QRecv bufs)
        = (q', [], bq_contents q1)" "bq_inv q'" "bq_contents q' = []"
      "bq_closed q' = bq_closed q1" "bq_message_size q' = bq_message_size q1"
    using Cons.IH [OF c(1)] Cons.prems(2) len c(3) by auto
  show ?case using q' s ok ct c(3,4) by simp
qed

text \<open>Close-drain: closing keeps the queued messages. Receiving once per queued message
  then delivers all of them in order, the next receive reports \<open>QueueClosed\<close>, and a send
  of a message of the right size is refused with \<open>QueueClosed\<close>.\<close>

theorem byte_queue_close_drains:
  assumes "bq_inv q" and "\<forall>b\<in>set bufs. length b = bq_message_size q"
    and "length bufs = length (bq_contents q)"
    and "length b = bq_message_size q" and "length msg = bq_message_size q"
  shows "\<exists>q'. run_queue try_send try_recv bq_close q (QClose # map QRecv bufs)
               = (q', [], bq_contents q)
           \<and> try_recv q' b = (Err QueueClosed, q', b)
           \<and> fst (try_send q' msg) = Err QueueClosed"
proof -
  note cl = bq_close_refines [OF assms(1)]
  have c: "bq_contents (bq_close q) = bq_contents q" "bq_message_size (bq_close q) = bq_message_size q"
    "bq_closed (bq_close q)"
    by (simp_all add: bq_close_def bq_contents_def bq_slot_def)
  obtain q' where q': "run_queue try_send try_recv bq_close (bq_close q) (map QRecv bufs)
        = (q', [], bq_contents q)" "bq_inv q'" "bq_contents q' = []" "bq_closed q'"
      "bq_message_size q' = bq_message_size q"
    using drain [OF cl(1), of bufs] assms(2,3) c by auto
  then have "bq_len q' = 0" by (metis length_bq_contents list.size(3))
  then have "try_recv q' b = (Err QueueClosed, q', b)" "fst (try_send q' msg) = Err QueueClosed"
    using q' assms(4,5) by (simp_all add: try_recv_def try_send_def)
  with q'(1) show ?thesis by auto
qed

theorem byte_queue_close_drains_witness:
  "\<exists>q'. run_queue try_send try_recv bq_close
      \<lparr>bq_storage = [7, 8], bq_capacity = 2, bq_message_size = 1, bq_head = 1, bq_tail = 1,
      bq_len = 2, bq_closed = False\<rparr> [QClose, QRecv [0], QRecv [0]] = (q', [], [[8], [7]])
    \<and> try_recv q' [0] = (Err QueueClosed, q', [0])"
  using byte_queue_close_drains [of "\<lparr>bq_storage = [7, 8], bq_capacity = 2,
      bq_message_size = 1, bq_head = 1, bq_tail = 1, bq_len = 2, bq_closed = False\<rparr>"
      "[[0], [0]]" "[0]" "[1]"]
  by (auto simp: bq_inv_def usize_max_def bq_contents_def bq_slot_def upt_rec)

text \<open>Index arithmetic: in a well-formed queue no \<open>usize\<close> computation of \<open>try_send\<close> or
  \<open>try_recv\<close> can overflow: the slot offsets, their ends, the advanced head and tail and the
  incremented length all fit, and both slots lie inside the storage.\<close>

theorem byte_queue_index_bounds:
  assumes "bq_inv q"
  shows "bq_tail q * bq_message_size q + bq_message_size q \<le> length (bq_storage q)
    \<and> bq_head q * bq_message_size q + bq_message_size q \<le> length (bq_storage q)
    \<and> length (bq_storage q) \<le> usize_max
    \<and> bq_tail q + 1 \<le> usize_max \<and> bq_head q + 1 \<le> usize_max
    \<and> (\<not> bq_is_full q \<longrightarrow> bq_len q + 1 \<le> usize_max)
    \<and> available_slots q = Ok (bq_capacity q - bq_len q)"
proof -
  have i: "0 < bq_message_size q" "bq_tail q < bq_capacity q" "bq_head q < bq_capacity q"
    "length (bq_storage q) = bq_capacity q * bq_message_size q" "bq_len q \<le> bq_capacity q"
    "bq_capacity q * bq_message_size q \<le> usize_max"
    using assms by (simp_all add: bq_inv_def)
  have cap: "bq_capacity q \<le> usize_max"
    using i(1,6) by (metis Suc_leI le_trans mult.right_neutral mult_le_mono2 One_nat_def)
  have "\<not> bq_is_full q \<longrightarrow> bq_len q + 1 \<le> usize_max"
    using i cap by (simp add: bq_is_full_def)
  moreover have "available_slots q = Ok (bq_capacity q - bq_len q)"
    using i by (simp add: available_slots_def checked_sub_def)
  ultimately show ?thesis
    using i cap slot_in_storage [OF i(2)] slot_in_storage [OF i(3)] by simp
qed

theorem byte_queue_index_bounds_witness:
  "bq_tail \<lparr>bq_storage = [7, 8], bq_capacity = 2, bq_message_size = 1, bq_head = 1,
     bq_tail = 1, bq_len = 2, bq_closed = False\<rparr> + 1 \<le> usize_max"
  using byte_queue_index_bounds [of "\<lparr>bq_storage = [7, 8], bq_capacity = 2,
     bq_message_size = 1, bq_head = 1, bq_tail = 1, bq_len = 2, bq_closed = False\<rparr>"]
  by (simp add: bq_inv_def usize_max_def)

end
