(* ===== verification/Semaphore_Interface.thy ===== *)
theory Semaphore_Interface
  imports Osal_Types
begin

text \<open>
  The contract of a counting semaphore (src/crates/osal-api/src/traits/semaphore.rs): the
  count stays between zero and the configured maximum, a successful acquire takes exactly
  one permit, a release past the maximum reports \<open>Overflow\<close> and changes nothing. The
  portable state machine, the mock semaphore and the kernel semaphore of the FreeRTOS
  fixture interpret the locale.
\<close>

datatype sem_op = SemAcquire | SemRelease

text \<open>Running a sequence of non-blocking operations counts the permits taken and given.\<close>

fun run_sem ::
  "('s \<Rightarrow> bool \<times> 's) \<Rightarrow> ('s \<Rightarrow> bool \<times> 's) \<Rightarrow> 's \<Rightarrow> sem_op list \<Rightarrow> 's \<times> nat \<times> nat" where
  "run_sem acq rel s [] = (s, 0, 0)"
| "run_sem acq rel s (SemAcquire # ops) =
     (let (ok, s1) = acq s; (s', a, r) = run_sem acq rel s1 ops
      in (s', if ok then Suc a else a, r))"
| "run_sem acq rel s (SemRelease # ops) =
     (let (ok, s1) = rel s; (s', a, r) = run_sem acq rel s1 ops
      in (s', a, if ok then Suc r else r))"

locale counting_semaphore =
  fixes acq :: "'s \<Rightarrow> bool \<times> 's"
    and rel :: "'s \<Rightarrow> bool \<times> 's"
    and cnt :: "'s \<Rightarrow> nat"
    and cap :: "'s \<Rightarrow> nat"
    and invar :: "'s \<Rightarrow> bool"
  assumes cnt_bounded: "invar s \<Longrightarrow> cnt s \<le> cap s"
    and acq_law: "invar s \<Longrightarrow> acq s = (ok, s') \<Longrightarrow>
          invar s' \<and> cap s' = cap s \<and> ok = (0 < cnt s) \<and> cnt s' = (if ok then cnt s - 1 else cnt s)"
    and rel_law: "invar s \<Longrightarrow> rel s = (ok, s') \<Longrightarrow>
          invar s' \<and> cap s' = cap s \<and> ok = (cnt s < cap s)
          \<and> cnt s' = (if ok then cnt s + 1 else cnt s)"
begin

text \<open>Permits are conserved: what was there plus what was released is what was acquired plus
  what is left.\<close>

lemma run_sem_conserves:
  assumes "invar s" and "run_sem acq rel s ops = (s', a, r)"
  shows "invar s' \<and> cap s' = cap s \<and> cnt s + r = a + cnt s'"
  using assms
proof (induction ops arbitrary: s s' a r)
  case Nil
  then show ?case by simp
next
  case (Cons op ops)
  show ?case
  proof (cases op)
    case SemAcquire
    obtain ok s1 where 1: "acq s = (ok, s1)" by (cases "acq s")
    obtain s2 a1 r1 where 2: "run_sem acq rel s1 ops = (s2, a1, r1)"
      by (cases "run_sem acq rel s1 ops")
    note law = acq_law [OF Cons.prems(1) 1]
    show ?thesis
      using law Cons.IH [OF _ 2] Cons.prems(2) SemAcquire 1 2 by (auto split: if_splits)
  next
    case SemRelease
    obtain ok s1 where 1: "rel s = (ok, s1)" by (cases "rel s")
    obtain s2 a1 r1 where 2: "run_sem acq rel s1 ops = (s2, a1, r1)"
      by (cases "run_sem acq rel s1 ops")
    note law = rel_law [OF Cons.prems(1) 1]
    show ?thesis
      using law Cons.IH [OF _ 2] Cons.prems(2) SemRelease 1 2 by (auto split: if_splits)
  qed
qed

text \<open>At most \<open>cap\<close> permits are ever outstanding beyond those released.\<close>

lemma run_sem_bound:
  assumes "invar s" and "run_sem acq rel s ops = (s', a, r)"
  shows "a \<le> cnt s + r" and "cnt s + r \<le> a + cap s"
  using run_sem_conserves [OF assms] cnt_bounded [of s'] by auto

end

end
