(* ===== verification/Counting_Semaphore.thy ===== *)
theory Counting_Semaphore
  imports Semaphore_Interface
begin

text \<open>
  src/crates/osal-portable/src/counting_semaphore.rs: the count logic behind the mock and
  POSIX semaphores, on 32-bit words. Plain \<open>+\<close> and \<open>-\<close> of the source panic on overflow in
  debug builds; the model wraps, and the theory proves that neither ever wraps.
\<close>

record counting_semaphore_state =
  cs_max_count :: u32
  cs_count :: u32

definition cs_new :: "u32 \<Rightarrow> u32 \<Rightarrow> counting_semaphore_state res" where
  "cs_new max_count initial_count =
     (if max_count = 0 then Err InvalidParameter
      else if initial_count > max_count then Err InvalidParameter
      else Ok \<lparr>cs_max_count = max_count, cs_count = initial_count\<rparr>)"

definition cs_try_acquire :: "counting_semaphore_state \<Rightarrow> bool \<times> counting_semaphore_state" where
  "cs_try_acquire s =
     (if cs_count s > 0 then (True, s\<lparr>cs_count := cs_count s - 1\<rparr>) else (False, s))"

definition cs_release :: "counting_semaphore_state \<Rightarrow> unit res \<times> counting_semaphore_state" where
  "cs_release s =
     (if cs_count s \<ge> cs_max_count s then (Err Overflow, s)
      else (Ok (), s\<lparr>cs_count := cs_count s + 1\<rparr>))"

definition cs_inv :: "counting_semaphore_state \<Rightarrow> bool" where
  "cs_inv s = (0 < cs_max_count s \<and> cs_count s \<le> cs_max_count s)"

section \<open>The counter never wraps\<close>

lemma cs_new_inv [wf_intros]: "cs_new m i = Ok s \<Longrightarrow> cs_inv s"
  by (auto simp: cs_new_def cs_inv_def word_gt_0 split: if_splits)

lemma unat_dec: "0 < (x :: u32) \<Longrightarrow> unat (x - 1) = unat x - 1"
  by (simp add: unat_minus_one word_gt_0)

lemma unat_inc:
  assumes "(x :: u32) < y"
  shows "unat (x + 1) = unat x + 1"
proof -
  have "unat x < unat y" using assms by (simp add: word_less_nat_alt)
  then have "unat x + 1 < 2 ^ 32" using unat_u32_less [of y] by linarith
  then show ?thesis by (simp add: unat_word_ariths(1))
qed

lemma cs_try_acquire_cases:
  assumes "cs_inv s" and "cs_try_acquire s = (ok, s')"
  shows "cs_inv s'" "cs_max_count s' = cs_max_count s" "ok = (0 < unat (cs_count s))"
    "unat (cs_count s') = (if ok then unat (cs_count s) - 1 else unat (cs_count s))"
proof -
  have "0 < unat (cs_count s) \<longleftrightarrow> 0 < cs_count s" by (simp add: word_less_nat_alt)
  then show "ok = (0 < unat (cs_count s))" "cs_max_count s' = cs_max_count s"
    using assms(2) by (auto simp: cs_try_acquire_def split: if_splits)
  show c: "unat (cs_count s') = (if ok then unat (cs_count s) - 1 else unat (cs_count s))"
    using assms(2) by (auto simp: cs_try_acquire_def unat_dec split: if_splits)
  show "cs_inv s'"
    using assms c \<open>cs_max_count s' = cs_max_count s\<close>
    by (auto simp: cs_inv_def word_le_nat_alt split: if_splits)
qed

lemma cs_release_cases:
  assumes "cs_inv s" and "cs_release s = (r, s')"
  shows "cs_inv s'" "cs_max_count s' = cs_max_count s"
    "is_ok r = (unat (cs_count s) < unat (cs_max_count s))"
    "unat (cs_count s') = (if is_ok r then unat (cs_count s) + 1 else unat (cs_count s))"
    "r = (if is_ok r then Ok () else Err Overflow)"
proof -
  have ok: "is_ok r = (cs_count s < cs_max_count s)"
    and s': "s' = (if is_ok r then s\<lparr>cs_count := cs_count s + 1\<rparr> else s)"
    using assms(2) by (auto simp: cs_release_def split: if_splits)
  show "cs_max_count s' = cs_max_count s" using s' by simp
  show "r = (if is_ok r then Ok () else Err Overflow)"
    using assms(2) by (auto simp: cs_release_def split: if_splits)
  show ok': "is_ok r = (unat (cs_count s) < unat (cs_max_count s))"
    using ok by (simp add: word_less_nat_alt)
  show c: "unat (cs_count s') = (if is_ok r then unat (cs_count s) + 1 else unat (cs_count s))"
    using s' ok unat_inc [of "cs_count s" "cs_max_count s"] by simp
  have "unat (cs_count s') \<le> unat (cs_max_count s)"
    using c ok' assms(1) by (auto simp: cs_inv_def word_le_nat_alt)
  then show "cs_inv s'" using assms(1) \<open>cs_max_count s' = cs_max_count s\<close>
    by (simp add: cs_inv_def word_le_nat_alt)
qed

section \<open>The interface is met\<close>

interpretation count: counting_semaphore cs_try_acquire
  "\<lambda>s. case cs_release s of (r, s') \<Rightarrow> (is_ok r, s')"
  "\<lambda>s. unat (cs_count s)" "\<lambda>s. unat (cs_max_count s)" cs_inv
proof
  show "unat (cs_count s) \<le> unat (cs_max_count s)" if "cs_inv s" for s
    using that by (simp add: cs_inv_def word_le_nat_alt)
next
  fix s ok s' assume "cs_inv s" "cs_try_acquire s = (ok, s')"
  then show "cs_inv s' \<and> unat (cs_max_count s') = unat (cs_max_count s) \<and> ok = (0 < unat (cs_count s))
      \<and> unat (cs_count s') = (if ok then unat (cs_count s) - 1 else unat (cs_count s))"
    using cs_try_acquire_cases by metis
next
  fix s ok s' assume inv: "cs_inv s" and r: "(case cs_release s of (r, s') \<Rightarrow> (is_ok r, s')) = (ok, s')"
  obtain x where "cs_release s = (x, s')" "ok = is_ok x" using r by (auto split: prod.splits)
  then show "cs_inv s' \<and> unat (cs_max_count s') = unat (cs_max_count s)
      \<and> ok = (unat (cs_count s) < unat (cs_max_count s))
      \<and> unat (cs_count s') = (if ok then unat (cs_count s) + 1 else unat (cs_count s))"
    using cs_release_cases [OF inv] by metis
qed

section \<open>Properties\<close>

text \<open>Permits are conserved on the 32-bit counter: from a semaphore made by \<open>new\<close>, after
  any sequence of try-acquires and releases, the initial count plus the successful releases
  equals the successful acquires plus the current count, and the current count is at most
  the maximum. In particular the counter never wraps in either direction.\<close>

theorem semaphore_conserves:
  assumes "cs_new max_count initial = Ok s"
    and "run_sem cs_try_acquire (\<lambda>s. case cs_release s of (r, s') \<Rightarrow> (is_ok r, s')) s ops
         = (s', a, r)"
  shows "unat initial + r = a + unat (cs_count s') \<and> cs_count s' \<le> max_count"
proof -
  have s: "cs_count s = initial" "cs_max_count s = max_count"
    using assms(1) by (auto simp: cs_new_def split: if_splits)
  show ?thesis
    using count.run_sem_conserves [OF cs_new_inv [OF assms(1)] assms(2)] count.cnt_bounded [of s'] s
    by (auto simp: word_le_nat_alt)
qed

theorem semaphore_conserves_witness:
  "unat (1 :: u32) + 1 = 2 + unat (cs_count \<lparr>cs_max_count = 2, cs_count = 0\<rparr>)"
  using semaphore_conserves [of 2 1 "\<lparr>cs_max_count = 2, cs_count = 1\<rparr>"
    "[SemAcquire, SemAcquire, SemRelease, SemAcquire]" "\<lparr>cs_max_count = 2, cs_count = 0\<rparr>" 2 1]
  by (simp add: cs_new_def cs_try_acquire_def cs_release_def)

end
