(* ===== verification/Time_Convert.thy ===== *)
theory Time_Convert
  imports Osal_Types
begin

text \<open>
  src/crates/osal-portable/src/time_convert.rs: checked deadlines and the O(1)
  computation of the next periodic deadline. The code works on \<open>u128\<close> nanoseconds
  with checked operations; here those are naturals with the bound written out. The
  theory proves that the computation agrees with stepping period by period.
\<close>

section \<open>The code\<close>

definition checked_deadline :: "duration \<Rightarrow> duration \<Rightarrow> duration res" where
  "checked_deadline now after = ok_or (dur_checked_add now after) Overflow"

definition remaining_until :: "duration \<Rightarrow> duration \<Rightarrow> duration" where
  "remaining_until now deadline = dur_saturating_sub deadline now"

definition next_periodic_deadline :: "duration \<Rightarrow> duration \<Rightarrow> duration \<Rightarrow> duration res" where
  "next_periodic_deadline previous_deadline period now =
     (if is_zero period then Err InvalidParameter
      else if previous_deadline > now then Ok previous_deadline
      else
        let elapsed_ns =
              as_nanos (case dur_checked_sub now previous_deadline of
                          Some d \<Rightarrow> d | None \<Rightarrow> duration_zero);
            period_ns = as_nanos period
        in res_bind
             (ok_or (Option.bind (checked_div elapsed_ns period_ns)
                       (\<lambda>n. checked_add u128_max n 1)) Overflow)
             (\<lambda>missed. res_bind (ok_or (checked_mul u128_max period_ns missed) Overflow)
             (\<lambda>advance_ns.
                let advance_secs = advance_ns div nanos_per_sec;
                    advance_subsec = word_of_nat (advance_ns mod nanos_per_sec) :: u32
                in res_bind
                     (if advance_secs \<le> u64_max then Ok (word_of_nat advance_secs :: u64)
                      else Err Overflow)
                     (\<lambda>advance_secs_u64. res_bind (duration_new advance_secs_u64 advance_subsec)
                     (\<lambda>advance. ok_or (dur_checked_add previous_deadline advance) Overflow)))))"

section \<open>Reference: one period at a time\<close>

text \<open>The loop the source replaces ("instead of iterating period-by-period"): add the
  period until the deadline is after \<open>now\<close>, stopping with \<open>Overflow\<close> when the sum
  leaves the type.\<close>

function step_deadline :: "nat \<Rightarrow> nat \<Rightarrow> nat \<Rightarrow> duration res" where
  "step_deadline d p now =
     (if p = 0 then Err InvalidParameter
      else if duration_limit \<le> d then Err Overflow
      else if now < d then Ok (of_nanos d)
      else step_deadline (d + p) p now)"
  by pat_completeness auto
termination
  by (relation "measure (\<lambda>(d, p, now). Suc now - d)") auto

declare step_deadline.simps [simp del]

section \<open>Lemmas\<close>

lemma checked_deadline_cases:
  "checked_deadline now after =
     (if as_nanos now + as_nanos after < duration_limit
      then Ok (of_nanos (as_nanos now + as_nanos after)) else Err Overflow)"
  by (simp add: checked_deadline_def dur_checked_add_def Let_def)

lemma checked_deadline_Ok_iff:
  "checked_deadline now after = Ok d \<longleftrightarrow> as_nanos d = as_nanos now + as_nanos after"
  by (auto simp: checked_deadline_cases duration_eq_iff) (metis as_nanos_less)

lemma as_nanos_remaining_until [simp]:
  "as_nanos (remaining_until now deadline) = as_nanos deadline - as_nanos now"
  by (simp add: remaining_until_def)

text \<open>The closed form: the smallest multiple of the period past \<open>now\<close>.\<close>

definition next_multiple :: "nat \<Rightarrow> nat \<Rightarrow> nat \<Rightarrow> nat" where
  "next_multiple d p now = d + p * ((now - d) div p + 1)"

lemma next_multiple_after: "0 < p \<Longrightarrow> now < next_multiple d p now"
proof -
  assume "0 < p"
  then have "now - d < p * ((now - d) div p + 1)"
    using dividend_less_times_div [of p "now - d"] by simp
  then show ?thesis by (simp add: next_multiple_def)
qed

lemma next_multiple_before: "d \<le> now \<Longrightarrow> next_multiple d p now \<le> now + p"
proof -
  assume "d \<le> now"
  then have "d + p * ((now - d) div p) \<le> now"
    using times_div_less_eq_dividend [of p "now - d"] by linarith
  then show ?thesis by (simp add: next_multiple_def)
qed

lemma next_multiple_step:
  "0 < p \<Longrightarrow> d + p \<le> now \<Longrightarrow> next_multiple (d + p) p now = next_multiple d p now"
proof -
  assume p: "0 < p" and le: "d + p \<le> now"
  have "(now - d) div p = Suc ((now - d - p) div p)"
    using p le by (intro le_div_geq) auto
  then show ?thesis using le by (simp add: next_multiple_def algebra_simps)
qed

lemma u128_enough: "2 * duration_limit \<le> u128_max"
  by (simp add: duration_limit_eq u128_max_def)

lemma elapsed_nanos:
  "previous \<le> now \<Longrightarrow>
   as_nanos (case dur_checked_sub now previous of Some d \<Rightarrow> d | None \<Rightarrow> duration_zero)
     = as_nanos now - as_nanos previous"
  by (simp add: dur_checked_sub_def duration_order)

text \<open>Splitting nanoseconds into \<open>u64\<close> seconds and \<open>u32\<close> nanoseconds and rebuilding the
  duration loses nothing.\<close>

lemma duration_new_split:
  assumes "n < duration_limit"
  shows "duration_new (word_of_nat (n div nanos_per_sec)) (word_of_nat (n mod nanos_per_sec))
           = Ok (of_nanos n)"
proof -
  have s: "unat (word_of_nat (n div nanos_per_sec) :: u64) = n div nanos_per_sec"
    using assms by (simp add: unat_of_nat take_bit_nat_eq_self duration_limit_eq nanos_per_sec_def)
  have m: "unat (word_of_nat (n mod nanos_per_sec) :: u32) = n mod nanos_per_sec"
    by (simp add: unat_of_nat take_bit_nat_eq_self nanos_per_sec_def less_trans [of _ 1000000000])
  have "n mod nanos_per_sec < nanos_per_sec" by (simp add: nanos_per_sec_def)
  then show ?thesis by (simp add: duration_new_Ok s m)
qed

text \<open>Every branch of the code: past deadlines land on the next multiple, or report
  \<open>Overflow\<close> exactly when that multiple is not a duration.\<close>

lemma next_periodic_deadline_past:
  assumes p: "\<not> is_zero period" and le: "previous \<le> now"
  shows "next_periodic_deadline previous period now =
           (let t = next_multiple (as_nanos previous) (as_nanos period) (as_nanos now) in
            if t < duration_limit then Ok (of_nanos t) else Err Overflow)"
proof -
  define pn where "pn = as_nanos period"
  define el where "el = as_nanos now - as_nanos previous"
  define adv where "adv = pn * (el div pn + 1)"
  have pn: "0 < pn" "pn < duration_limit" using p by (simp_all add: pn_def is_zero_def)
  have el: "el < duration_limit" by (simp add: el_def)
  have "pn * (el div pn) \<le> el" by simp
  then have "adv \<le> el + pn" by (simp add: adv_def)
  then have adv: "adv \<le> u128_max" using u128_enough pn el by linarith
  have "el div pn \<le> el" by (rule div_le_dividend)
  then have missed: "el div pn + 1 \<le> u128_max" using u128_enough pn el by linarith
  have nm: "next_multiple (as_nanos previous) pn (as_nanos now) = as_nanos previous + adv"
    by (simp add: next_multiple_def adv_def el_def)
  have adv_eq: "pn * Suc (el div pn) = adv" by (simp add: adv_def)
  have now: "\<not> now < previous" using le by simp
  note unfold = next_periodic_deadline_def elapsed_nanos [OF le] pn_def [symmetric]
    el_def [symmetric] Let_def nm
  have "next_periodic_deadline previous period now =
          res_bind (if adv div nanos_per_sec \<le> u64_max
                    then Ok (word_of_nat (adv div nanos_per_sec)) else Err Overflow)
            (\<lambda>secs. res_bind (duration_new secs (word_of_nat (adv mod nanos_per_sec)))
            (\<lambda>advance. ok_or (dur_checked_add previous advance) Overflow))"
    using p now pn missed adv
    by (simp add: unfold checked_div_def checked_add_def checked_mul_def adv_eq
      del: mult_Suc_right)
  also have "\<dots> = (if as_nanos previous + adv < duration_limit
                   then Ok (of_nanos (as_nanos previous + adv)) else Err Overflow)"
  proof (cases "adv < duration_limit")
    case True
    then have "adv div nanos_per_sec \<le> u64_max"
      by (simp add: duration_limit_eq nanos_per_sec_def u64_max_def)
    with True show ?thesis
      by (simp add: duration_new_split dur_checked_add_def Let_def)
  next
    case False
    then have "\<not> adv div nanos_per_sec \<le> u64_max"
      by (simp add: duration_limit_eq nanos_per_sec_def u64_max_def)
    with False show ?thesis by simp
  qed
  finally show ?thesis by (simp add: nm Let_def flip: pn_def)
qed

lemma step_deadline_past:
  assumes "0 < p" and "d \<le> now" and "now < duration_limit"
  shows "step_deadline d p now =
           (let t = next_multiple d p now in
            if t < duration_limit then Ok (of_nanos t) else Err Overflow)"
  using assms
proof (induction d p now rule: step_deadline.induct)
  case (1 d p now)
  have unfold: "step_deadline d p now = step_deadline (d + p) p now"
    using "1.prems" by (subst step_deadline.simps) simp
  show ?case
  proof (cases "d + p \<le> now")
    case True
    with "1" show ?thesis by (simp add: unfold next_multiple_step)
  next
    case False
    with "1.prems" have "next_multiple d p now = d + p" by (simp add: next_multiple_def)
    moreover have "step_deadline (d + p) p now =
        (if d + p < duration_limit then Ok (of_nanos (d + p)) else Err Overflow)"
      using False "1.prems" by (subst step_deadline.simps) auto
    ultimately show ?thesis by (simp add: unfold Let_def)
  qed
qed

section \<open>Properties\<close>

text \<open>C35. The O(1) next periodic deadline is the one obtained by adding the period again
  and again until it is after \<open>now\<close>: for every previous deadline, period and time the two
  agree, the zero-period error and the overflow error included.\<close>

theorem next_periodic_deadline_equiv:
  "next_periodic_deadline previous period now
     = step_deadline (as_nanos previous) (as_nanos period) (as_nanos now)"
proof -
  consider (zero) "is_zero period" | (future) "\<not> is_zero period" "now < previous"
    | (past) "\<not> is_zero period" "previous \<le> now"
    by fastforce
  then show ?thesis
  proof cases
    case zero
    then show ?thesis
      by (subst step_deadline.simps) (simp add: next_periodic_deadline_def is_zero_def)
  next
    case future
    then show ?thesis
      by (subst step_deadline.simps)
        (simp add: next_periodic_deadline_def is_zero_def duration_order not_le)
  next
    case past
    then show ?thesis
      by (simp add: next_periodic_deadline_past step_deadline_past is_zero_def duration_order)
  qed
qed

lemma next_periodic_deadline_Ok:
  assumes "next_periodic_deadline previous period now = Ok d" and "previous \<le> now"
  shows "now < d" and "as_nanos d \<le> as_nanos now + as_nanos period"
    and "\<exists>k > 0. as_nanos d = as_nanos previous + k * as_nanos period"
proof -
  have p: "\<not> is_zero period"
    using assms(1) by (auto simp: next_periodic_deadline_def)
  let ?t = "next_multiple (as_nanos previous) (as_nanos period) (as_nanos now)"
  from assms p have d: "d = of_nanos ?t" "?t < duration_limit"
    by (auto simp: next_periodic_deadline_past Let_def split: if_splits)
  from p have pos: "0 < as_nanos period" by (simp add: is_zero_def)
  from d pos show "now < d" by (simp add: duration_order next_multiple_after)
  from d assms(2) show "as_nanos d \<le> as_nanos now + as_nanos period"
    by (simp add: duration_order next_multiple_before)
  from d show "\<exists>k > 0. as_nanos d = as_nanos previous + k * as_nanos period"
    by (intro exI [of _ "(as_nanos now - as_nanos previous) div as_nanos period + 1"])
      (simp add: next_multiple_def algebra_simps)
qed

lemma next_periodic_deadline_no_panic: "\<not> is_panic (next_periodic_deadline previous period now)"
proof (cases "is_zero period \<or> now < previous")
  case True
  then show ?thesis by (auto simp: next_periodic_deadline_def)
next
  case False
  then show ?thesis by (simp add: next_periodic_deadline_past Let_def not_less)
qed

end
