(* ===== verification/Timer_State.thy ===== *)
theory Timer_State
  imports Time_Convert
begin

text \<open>
  src/crates/osal-portable/src/timer_state.rs: the pre-advance timer state machine. On
  expiry the state moves to its successor before the callback runs, so that the callback
  may overwrite it.
\<close>

record timer_state =
  ts_mode :: timer_mode
  ts_period :: duration
  ts_deadline :: "duration option"

definition ts_new :: "duration \<Rightarrow> timer_mode \<Rightarrow> timer_state res" where
  "ts_new period mode =
     (if period = duration_zero then Err InvalidParameter
      else Ok \<lparr>ts_mode = mode, ts_period = period, ts_deadline = None\<rparr>)"

definition ts_start :: "timer_state \<Rightarrow> duration \<Rightarrow> unit res \<times> timer_state" where
  "ts_start t now =
     (case checked_deadline now (ts_period t) of
        Ok d \<Rightarrow> (Ok (), t\<lparr>ts_deadline := Some d\<rparr>)
      | Err e \<Rightarrow> (Err e, t)
      | Panic s \<Rightarrow> (Panic s, t))"

definition ts_stop :: "timer_state \<Rightarrow> timer_state" where
  "ts_stop t = t\<lparr>ts_deadline := None\<rparr>"

definition ts_reset :: "timer_state \<Rightarrow> duration \<Rightarrow> unit res \<times> timer_state" where
  "ts_reset t now =
     (case checked_deadline now (ts_period t) of
        Ok d \<Rightarrow> (Ok (), t\<lparr>ts_deadline := Some d\<rparr>)
      | Err e \<Rightarrow> (Err e, t)
      | Panic s \<Rightarrow> (Panic s, t))"

definition ts_change_period :: "timer_state \<Rightarrow> duration \<Rightarrow> unit res \<times> timer_state" where
  "ts_change_period t new_period =
     (if new_period = duration_zero then (Err InvalidParameter, t)
      else (Ok (), t\<lparr>ts_period := new_period\<rparr>))"

definition advance_on_expiry :: "timer_state \<Rightarrow> duration \<Rightarrow> bool \<times> timer_state" where
  "advance_on_expiry t now =
     (case ts_deadline t of
        None \<Rightarrow> (False, t)
      | Some d \<Rightarrow>
          if \<not> d \<le> now then (False, t)
          else (True,
            case ts_mode t of
              OneShot \<Rightarrow> t\<lparr>ts_deadline := None\<rparr>
            | Periodic \<Rightarrow>
                (case next_periodic_deadline d (ts_period t) now of
                   Ok nxt \<Rightarrow> t\<lparr>ts_deadline := Some nxt\<rparr>
                 | _ \<Rightarrow> t\<lparr>ts_deadline := None\<rparr>)))"

text \<open>A timer that \<open>new\<close> made has a positive period, and every operation keeps it.\<close>

definition ts_inv :: "timer_state \<Rightarrow> bool" where
  "ts_inv t = (ts_period t \<noteq> duration_zero)"

definition ts_expired :: "duration \<Rightarrow> timer_state \<Rightarrow> bool" where
  "ts_expired now t = (case ts_deadline t of None \<Rightarrow> False | Some d \<Rightarrow> d \<le> now)"

section \<open>Lemmas\<close>

lemma ts_new_inv [wf_intros]: "ts_new p m = Ok t \<Longrightarrow> ts_inv t"
  by (auto simp: ts_new_def ts_inv_def split: if_splits)

lemma ts_start_cases:
  assumes "ts_start t now = (r, t')"
  shows "ts_mode t' = ts_mode t" "ts_period t' = ts_period t"
    "r = (if as_nanos now + as_nanos (ts_period t) < duration_limit then Ok () else Err Overflow)"
    "ts_deadline t' = (if is_ok r then Some (of_nanos (as_nanos now + as_nanos (ts_period t)))
                       else ts_deadline t)"
  using assms by (auto simp: ts_start_def checked_deadline_cases split: if_splits)

lemma ts_reset_eq_start: "ts_reset = ts_start"
  by (rule ext)+ (simp add: ts_reset_def ts_start_def)

lemma ts_ops_inv [wf_intros]:
  "ts_inv t \<Longrightarrow> ts_start t now = (r, t') \<Longrightarrow> ts_inv t'"
  "ts_inv t \<Longrightarrow> ts_inv (ts_stop t)"
  "ts_inv t \<Longrightarrow> ts_reset t now = (r, t') \<Longrightarrow> ts_inv t'"
  "ts_inv t \<Longrightarrow> ts_change_period t p = (r, t') \<Longrightarrow> ts_inv t'"
  "ts_inv t \<Longrightarrow> advance_on_expiry t now = (b, t') \<Longrightarrow> ts_inv t'"
  by (auto simp: ts_inv_def ts_start_def ts_reset_def ts_stop_def ts_change_period_def
      advance_on_expiry_def split: res.splits option.splits if_splits timer_mode.splits)

lemma not_zero_iff: "ts_inv t \<longleftrightarrow> \<not> is_zero (ts_period t)"
  by (simp add: ts_inv_def is_zero_def duration_eq_iff)

lemma advance_fires: "fst (advance_on_expiry t now) = ts_expired now t"
  by (simp add: advance_on_expiry_def ts_expired_def split: option.splits)

text \<open>Progress: after its advance a timer is not expired at the same instant, so a dispatch
  loop at a fixed time meets each expiry once.\<close>

lemma advance_not_expired:
  assumes "advance_on_expiry t now = (True, t')"
  shows "\<not> ts_expired now t'"
proof -
  obtain d where d: "ts_deadline t = Some d" "d \<le> now"
    using assms by (auto simp: advance_on_expiry_def split: option.splits if_splits)
  show ?thesis
  proof (cases "ts_mode t")
    case OneShot
    then show ?thesis using assms d by (auto simp: advance_on_expiry_def ts_expired_def)
  next
    case Periodic
    show ?thesis
    proof (cases "next_periodic_deadline d (ts_period t) now")
      case (Ok nxt)
      then have "now < nxt" using next_periodic_deadline_Ok(1) d(2) by blast
      then show ?thesis
        using assms d Periodic Ok by (auto simp: advance_on_expiry_def ts_expired_def)
    qed (use assms d Periodic in \<open>auto simp: advance_on_expiry_def ts_expired_def\<close>)
  qed
qed

lemma advance_frame:
  assumes "advance_on_expiry t now = (b, t')"
  shows "ts_mode t' = ts_mode t" "ts_period t' = ts_period t" "\<not> b \<Longrightarrow> t' = t"
  using assms
  by (auto simp: advance_on_expiry_def split: option.splits if_splits timer_mode.splits res.splits)

section \<open>Properties\<close>

text \<open>Expiry of a timer made by the constructor: the advance fires exactly when a deadline
  is set and not in the future; a one-shot timer is then stopped; a periodic timer stays on
  the grid of its old deadline, with a new deadline strictly after \<open>now\<close> and at most one
  period after it, missed periods merged, and is stopped only if that instant is not
  representable.\<close>

theorem advance_on_expiry_spec:
  assumes "ts_inv t" and "ts_deadline t = Some d" and "d \<le> now"
    and "advance_on_expiry t now = (fired, t')"
  shows "fired \<and> ts_period t' = ts_period t \<and>
    (case ts_mode t of
       OneShot \<Rightarrow> ts_deadline t' = None
     | Periodic \<Rightarrow>
         (case ts_deadline t' of
            Some d' \<Rightarrow> now < d' \<and> as_nanos d' \<le> as_nanos now + as_nanos (ts_period t)
              \<and> as_nanos (ts_period t) dvd as_nanos d' - as_nanos d
          | None \<Rightarrow> duration_limit \<le> next_multiple (as_nanos d) (as_nanos (ts_period t)) (as_nanos now)))"
proof -
  have p: "\<not> is_zero (ts_period t)" using assms(1) by (simp add: not_zero_iff)
  have fired: "fired" using advance_fires [of t now] assms by (simp add: ts_expired_def)
  show ?thesis
  proof (cases "ts_mode t")
    case OneShot
    then show ?thesis using fired assms by (auto simp: advance_on_expiry_def)
  next
    case Periodic
    note past = next_periodic_deadline_past [OF p assms(3)]
    show ?thesis
    proof (cases "next_periodic_deadline d (ts_period t) now")
      case (Ok nxt)
      note n = next_periodic_deadline_Ok [OF Ok assms(3)]
      have "as_nanos (ts_period t) dvd as_nanos nxt - as_nanos d" using n(3) by auto
      moreover have "t' = t\<lparr>ts_deadline := Some nxt\<rparr>"
        using assms Periodic Ok by (simp add: advance_on_expiry_def)
      ultimately show ?thesis using n(1,2) fired Periodic by simp
    next
      case (Err e)
      then show ?thesis
        using assms Periodic fired past
        by (auto simp: advance_on_expiry_def Let_def split: if_splits)
    next
      case (Panic s)
      then show ?thesis using next_periodic_deadline_no_panic [of d "ts_period t" now] by simp
    qed
  qed
qed

theorem advance_on_expiry_spec_witness:
  "advance_on_expiry \<lparr>ts_mode = Periodic, ts_period = of_nanos 10, ts_deadline = Some (of_nanos 5)\<rparr>
     (of_nanos 31)
   = (True, \<lparr>ts_mode = Periodic, ts_period = of_nanos 10, ts_deadline = Some (of_nanos 35)\<rparr>)
   \<and> of_nanos 31 < of_nanos 35"
proof -
  let ?t = "\<lparr>ts_mode = Periodic, ts_period = of_nanos 10, ts_deadline = Some (of_nanos 5)\<rparr>"
  let ?t' = "\<lparr>ts_mode = Periodic, ts_period = of_nanos 10, ts_deadline = Some (of_nanos 35)\<rparr>"
  have adv: "advance_on_expiry ?t (of_nanos 31) = (True, ?t')"
    by (simp add: advance_on_expiry_def next_periodic_deadline_past is_zero_def duration_order
      next_multiple_def duration_limit_eq)
  then show ?thesis
    using advance_on_expiry_spec [of ?t "of_nanos 5" "of_nanos 31" True ?t']
    by (simp add: ts_inv_def duration_eq_iff duration_order duration_limit_eq)
qed

end
