(* ===== verification/Shared_Validation.thy ===== *)
theory Shared_Validation
  imports Osal_Types
begin

text \<open>
  src/crates/osal-shared/src/validation.rs and close_state.rs: the parameter checks and the
  close flag the three backends share. A task name is its list of UTF-8 bytes.
\<close>

definition validate_queue_capacity :: "nat \<Rightarrow> unit res" where
  "validate_queue_capacity capacity = (if capacity = 0 then Err InvalidParameter else Ok ())"

definition validate_queue_message_size :: "nat \<Rightarrow> unit res" where
  "validate_queue_message_size message_size =
     (if message_size = 0 then Err InvalidParameter else Ok ())"

definition validate_send_message_size :: "nat \<Rightarrow> nat \<Rightarrow> unit res" where
  "validate_send_message_size expected actual =
     (if actual \<noteq> expected then Err InvalidMessageSize else Ok ())"

definition validate_recv_buffer_size :: "nat \<Rightarrow> nat \<Rightarrow> unit res" where
  "validate_recv_buffer_size expected actual =
     (if actual \<noteq> expected then Err InvalidMessageSize else Ok ())"

definition task_name_max_bytes :: nat where
  "task_name_max_bytes = 31"

definition validate_task_config :: "u8 list \<Rightarrow> nat \<Rightarrow> unit res" where
  "validate_task_config name stack_size =
     (if length name > task_name_max_bytes then Err InvalidParameter
      else if 0 \<in> set name then Err InvalidParameter
      else if stack_size = 0 then Err InvalidParameter
      else Ok ())"

record close_flag =
  cf_closed :: bool

definition close_flag_new :: close_flag where
  "close_flag_new = \<lparr>cf_closed = False\<rparr>"

definition close_flag_close :: "close_flag \<Rightarrow> close_flag" where
  "close_flag_close f = f\<lparr>cf_closed := True\<rparr>"

lemma validate_Ok_iff [simp]:
  "validate_queue_capacity c = Ok () \<longleftrightarrow> c \<noteq> 0"
  "validate_queue_message_size m = Ok () \<longleftrightarrow> m \<noteq> 0"
  "validate_send_message_size e a = Ok () \<longleftrightarrow> a = e"
  "validate_recv_buffer_size e a = Ok () \<longleftrightarrow> a = e"
  by (simp_all add: validate_queue_capacity_def validate_queue_message_size_def
    validate_send_message_size_def validate_recv_buffer_size_def)

lemma validate_task_config_Ok_iff:
  "validate_task_config name n = Ok () \<longleftrightarrow> length name \<le> 31 \<and> 0 \<notin> set name \<and> 0 < n"
  by (auto simp: validate_task_config_def task_name_max_bytes_def)

text \<open>A name that passes survives the C string round trip: appending the terminator and
  reading up to the first NUL gives the name back.\<close>

lemma validated_name_c_string:
  "validate_task_config name n = Ok () \<Longrightarrow> takeWhile (\<lambda>b. b \<noteq> 0) (name @ [0]) = name"
  by (auto simp: validate_task_config_Ok_iff takeWhile_eq_all_conv takeWhile_tail)

end
