(* ===== verification/Runtime_Lifecycle.thy ===== *)
theory Runtime_Lifecycle
  imports Osal_Types "HOL-Library.Multiset"
begin

unbundle bit_operations_syntax

text \<open>
  src/crates/osal-shared/src/runtime.rs: the runtime lifecycle packed into one atomic word
  (two state bits, the rest the number of live leases). The theory has the word-level
  operations, the concurrent step relation of all threads (each loop a load followed by a
  weak compare-exchange that may fail), its invariant, and the refinement of an abstract
  machine on a pair of a state and a count.
\<close>

section \<open>Word encoding\<close>

definition lc_max_count :: usize where
  "lc_max_count = drop_bit 2 (- 1)"

primrec state_bits :: "runtime_state \<Rightarrow> usize" where
  "state_bits Uninitialized = 0"
| "state_bits Initializing = 1"
| "state_bits Running = 2"
| "state_bits ShuttingDown = 3"

definition encode :: "runtime_state \<Rightarrow> usize \<Rightarrow> usize res" where
  "encode st n =
     (if n \<le> lc_max_count then Ok (state_bits st OR push_bit 2 n)
      else Panic ''debug_assert'')"

definition decode_state :: "usize \<Rightarrow> runtime_state" where
  "decode_state w =
     (let b = w AND 3 in
      if b = 0 then Uninitialized else if b = 1 then Initializing
      else if b = 2 then Running else ShuttingDown)"

definition decode_count :: "usize \<Rightarrow> usize" where
  "decode_count w = drop_bit 2 w"

text \<open>\<open>compare_exchange\<close> on a word: the boolean is success, the second component the new
  content.\<close>

definition compare_exchange :: "usize \<Rightarrow> usize \<Rightarrow> usize \<Rightarrow> bool \<times> usize" where
  "compare_exchange w expected desired = (if w = expected then (True, desired) else (False, w))"

section \<open>Operations on the word\<close>

definition lifecycle_new :: usize where
  "lifecycle_new = 0"

definition begin_initialize :: "usize \<Rightarrow> unit res \<times> usize" where
  "begin_initialize w =
     (case (encode Uninitialized 0, encode Initializing 0) of
        (Ok expected, Ok desired) \<Rightarrow>
          (case compare_exchange w expected desired of
             (True, w') \<Rightarrow> (Ok (), w')
           | (False, w') \<Rightarrow>
               (case decode_state w' of
                  Uninitialized \<Rightarrow> (Err AlreadyInitialized, w')
                | Running \<Rightarrow> (Err AlreadyInitialized, w')
                | _ \<Rightarrow> (Err Busy, w')))
      | _ \<Rightarrow> (Panic ''debug_assert'', w))"

text \<open>The loop bodies between the load and the compare-exchange: an early return, or the
  next word to install.\<close>

definition begin_shutdown_next :: "usize \<Rightarrow> usize res" where
  "begin_shutdown_next current =
     (case decode_state current of
        Uninitialized \<Rightarrow> Err NotInitialized
      | Initializing \<Rightarrow> Err Busy
      | ShuttingDown \<Rightarrow> Err Busy
      | Running \<Rightarrow>
          if decode_count current \<noteq> 0 then Err Busy else encode ShuttingDown 0)"

definition acquire_next :: "usize \<Rightarrow> usize res" where
  "acquire_next current =
     (if decode_state current \<noteq> Running then Err NotInitialized
      else if decode_count current \<ge> lc_max_count then Err Overflow
      else encode Running (decode_count current + 1))"

definition lease_drop_next :: "usize \<Rightarrow> usize res" where
  "lease_drop_next current =
     (if decode_state current \<noteq> Running
      then Panic ''runtime lease dropped outside Running state''
      else if decode_count current = 0 then Panic ''runtime object count underflow''
      else encode Running (decode_count current - 1))"

text \<open>The whole operation when no other thread interferes and the exchange succeeds.\<close>

definition install :: "usize res \<Rightarrow> usize \<Rightarrow> unit res \<times> usize" where
  "install r w =
     (case r of Ok w' \<Rightarrow> (Ok (), w') | Err e \<Rightarrow> (Err e, w) | Panic s \<Rightarrow> (Panic s, w))"

definition begin_shutdown :: "usize \<Rightarrow> unit res \<times> usize" where
  "begin_shutdown w = install (begin_shutdown_next w) w"

definition acquire :: "usize \<Rightarrow> unit res \<times> usize" where
  "acquire w = install (acquire_next w) w"

definition lease_drop :: "usize \<Rightarrow> unit res \<times> usize" where
  "lease_drop w = install (lease_drop_next w) w"

text \<open>\<open>commit\<close> and \<open>drop\<close> of the two transition guards: one exchange that is asserted to
  succeed.\<close>

definition guarded_exchange ::
  "string \<Rightarrow> runtime_state \<Rightarrow> runtime_state \<Rightarrow> usize \<Rightarrow> unit res \<times> usize" where
  "guarded_exchange msg from_st to_st w =
     (case (encode from_st 0, encode to_st 0) of
        (Ok expected, Ok desired) \<Rightarrow>
          (case compare_exchange w expected desired of
             (True, w') \<Rightarrow> (Ok (), w')
           | (False, w') \<Rightarrow> (Panic msg, w'))
      | _ \<Rightarrow> (Panic ''debug_assert'', w))"

definition initialize_commit :: "usize \<Rightarrow> unit res \<times> usize" where
  "initialize_commit =
     guarded_exchange ''runtime initialize commit invariant violated'' Initializing Running"

definition initialize_drop :: "usize \<Rightarrow> unit res \<times> usize" where
  "initialize_drop =
     guarded_exchange ''runtime initialize rollback invariant violated'' Initializing Uninitialized"

definition shutdown_commit :: "usize \<Rightarrow> unit res \<times> usize" where
  "shutdown_commit =
     guarded_exchange ''runtime shutdown commit invariant violated'' ShuttingDown Uninitialized"

definition shutdown_drop :: "usize \<Rightarrow> unit res \<times> usize" where
  "shutdown_drop =
     guarded_exchange ''runtime shutdown rollback invariant violated'' ShuttingDown Running"

section \<open>Concurrent executions\<close>

text \<open>
  A loop in progress is between its load and its compare-exchange (\<open>...Cas\<close>, with the
  loaded and the next word) or about to load. A state has the shared word, the loops in
  progress of all threads, and the number of live guards and leases; a lease whose drop is
  in progress is counted by the loop. \<open>crashed\<close> records a failed assertion.
\<close>

datatype loop_pc =
    ShutdownLoad | ShutdownCas usize usize
  | AcquireLoad | AcquireCas usize usize
  | LeaseDropLoad | LeaseDropCas usize usize

record lc_world =
  lc_word :: usize
  lc_loops :: "loop_pc multiset"
  lc_init_guards :: nat
  lc_shutdown_guards :: nat
  lc_leases :: nat
  lc_crashed :: bool

definition lc_initial :: lc_world where
  "lc_initial = \<lparr>lc_word = lifecycle_new, lc_loops = {#}, lc_init_guards = 0,
     lc_shutdown_guards = 0, lc_leases = 0, lc_crashed = False\<rparr>"

datatype lc_op = OpBeginInit | OpInitCommit | OpInitDrop | OpBeginShutdown
  | OpShutdownCommit | OpShutdownDrop | OpAcquire | OpLeaseDrop

datatype lc_event = Internal_Step | Returns lc_op "unit res"

inductive lc_step :: "lc_world \<Rightarrow> lc_event \<Rightarrow> lc_world \<Rightarrow> bool" where
  begin_init: "begin_initialize (lc_word w) = (r, x) \<Longrightarrow>
    lc_step w (Returns OpBeginInit r)
      (w\<lparr>lc_word := x, lc_crashed := is_panic r,
         lc_init_guards := lc_init_guards w + (if is_ok r then 1 else 0)\<rparr>)"
| init_commit: "lc_init_guards w = Suc n \<Longrightarrow> initialize_commit (lc_word w) = (r, x) \<Longrightarrow>
    lc_step w (Returns OpInitCommit r)
      (w\<lparr>lc_word := x, lc_init_guards := n, lc_crashed := is_panic r\<rparr>)"
| init_drop: "lc_init_guards w = Suc n \<Longrightarrow> initialize_drop (lc_word w) = (r, x) \<Longrightarrow>
    lc_step w (Returns OpInitDrop r)
      (w\<lparr>lc_word := x, lc_init_guards := n, lc_crashed := is_panic r\<rparr>)"
| shutdown_commit: "lc_shutdown_guards w = Suc n \<Longrightarrow> shutdown_commit (lc_word w) = (r, x) \<Longrightarrow>
    lc_step w (Returns OpShutdownCommit r)
      (w\<lparr>lc_word := x, lc_shutdown_guards := n, lc_crashed := is_panic r\<rparr>)"
| shutdown_drop: "lc_shutdown_guards w = Suc n \<Longrightarrow> shutdown_drop (lc_word w) = (r, x) \<Longrightarrow>
    lc_step w (Returns OpShutdownDrop r)
      (w\<lparr>lc_word := x, lc_shutdown_guards := n, lc_crashed := is_panic r\<rparr>)"
| call_shutdown: "lc_step w Internal_Step (w\<lparr>lc_loops := add_mset ShutdownLoad (lc_loops w)\<rparr>)"
| call_acquire: "lc_step w Internal_Step (w\<lparr>lc_loops := add_mset AcquireLoad (lc_loops w)\<rparr>)"
| call_lease_drop: "lc_leases w = Suc n \<Longrightarrow>
    lc_step w Internal_Step
      (w\<lparr>lc_leases := n, lc_loops := add_mset LeaseDropLoad (lc_loops w)\<rparr>)"
| shutdown_load: "lc_loops w = add_mset ShutdownLoad M \<Longrightarrow>
    begin_shutdown_next (lc_word w) = Ok nxt \<Longrightarrow>
    lc_step w Internal_Step (w\<lparr>lc_loops := add_mset (ShutdownCas (lc_word w) nxt) M\<rparr>)"
| shutdown_return: "lc_loops w = add_mset ShutdownLoad M \<Longrightarrow>
    begin_shutdown_next (lc_word w) = Err e \<Longrightarrow>
    lc_step w (Returns OpBeginShutdown (Err e)) (w\<lparr>lc_loops := M\<rparr>)"
| shutdown_cas: "lc_loops w = add_mset (ShutdownCas cur nxt) M \<Longrightarrow>
    compare_exchange (lc_word w) cur nxt = (True, x) \<Longrightarrow>
    lc_step w (Returns OpBeginShutdown (Ok ()))
      (w\<lparr>lc_word := x, lc_loops := M, lc_shutdown_guards := Suc (lc_shutdown_guards w)\<rparr>)"
| shutdown_retry: "lc_loops w = add_mset (ShutdownCas cur nxt) M \<Longrightarrow>
    lc_step w Internal_Step (w\<lparr>lc_loops := add_mset ShutdownLoad M\<rparr>)"
| acquire_load: "lc_loops w = add_mset AcquireLoad M \<Longrightarrow>
    acquire_next (lc_word w) = Ok nxt \<Longrightarrow>
    lc_step w Internal_Step (w\<lparr>lc_loops := add_mset (AcquireCas (lc_word w) nxt) M\<rparr>)"
| acquire_return: "lc_loops w = add_mset AcquireLoad M \<Longrightarrow>
    acquire_next (lc_word w) = Err e \<Longrightarrow>
    lc_step w (Returns OpAcquire (Err e)) (w\<lparr>lc_loops := M\<rparr>)"
| acquire_cas: "lc_loops w = add_mset (AcquireCas cur nxt) M \<Longrightarrow>
    compare_exchange (lc_word w) cur nxt = (True, x) \<Longrightarrow>
    lc_step w (Returns OpAcquire (Ok ()))
      (w\<lparr>lc_word := x, lc_loops := M, lc_leases := Suc (lc_leases w)\<rparr>)"
| acquire_retry: "lc_loops w = add_mset (AcquireCas cur nxt) M \<Longrightarrow>
    lc_step w Internal_Step (w\<lparr>lc_loops := add_mset AcquireLoad M\<rparr>)"
| lease_load: "lc_loops w = add_mset LeaseDropLoad M \<Longrightarrow>
    lease_drop_next (lc_word w) = Ok nxt \<Longrightarrow>
    lc_step w Internal_Step (w\<lparr>lc_loops := add_mset (LeaseDropCas (lc_word w) nxt) M\<rparr>)"
| lease_cas: "lc_loops w = add_mset (LeaseDropCas cur nxt) M \<Longrightarrow>
    compare_exchange (lc_word w) cur nxt = (True, x) \<Longrightarrow>
    lc_step w (Returns OpLeaseDrop (Ok ())) (w\<lparr>lc_word := x, lc_loops := M\<rparr>)"
| lease_retry: "lc_loops w = add_mset (LeaseDropCas cur nxt) M \<Longrightarrow>
    lc_step w Internal_Step (w\<lparr>lc_loops := add_mset LeaseDropLoad M\<rparr>)"
| loop_panic: "lc_loops w = add_mset pc M \<Longrightarrow>
    pc = ShutdownLoad \<and> is_panic (begin_shutdown_next (lc_word w))
    \<or> pc = AcquireLoad \<and> is_panic (acquire_next (lc_word w))
    \<or> pc = LeaseDropLoad \<and> \<not> is_ok (lease_drop_next (lc_word w)) \<Longrightarrow>
    lc_step w Internal_Step (w\<lparr>lc_loops := M, lc_crashed := True\<rparr>)"

inductive lc_reachable :: "lc_world \<Rightarrow> bool" where
  start: "lc_reachable lc_initial"
| step: "lc_reachable w \<Longrightarrow> lc_step w ev w' \<Longrightarrow> lc_reachable w'"

inductive lc_path :: "lc_world \<Rightarrow> lc_event list \<Rightarrow> lc_world \<Rightarrow> bool" where
  path_nil: "lc_path w [] w"
| path_cons: "lc_step w ev w1 \<Longrightarrow> lc_path w1 evs w' \<Longrightarrow> lc_path w (ev # evs) w'"

section \<open>The abstract machine\<close>

text \<open>What clients rely on: a state and the number of live objects.\<close>

type_synonym lc_abs = "runtime_state \<times> nat"

fun lc_spec :: "lc_op \<Rightarrow> lc_abs \<Rightarrow> unit res \<times> lc_abs" where
  "lc_spec OpBeginInit (st, n) =
     (case st of Uninitialized \<Rightarrow> (Ok (), (Initializing, n))
      | Running \<Rightarrow> (Err AlreadyInitialized, (st, n))
      | _ \<Rightarrow> (Err Busy, (st, n)))"
| "lc_spec OpInitCommit (st, n) = (Ok (), (Running, n))"
| "lc_spec OpInitDrop (st, n) = (Ok (), (Uninitialized, n))"
| "lc_spec OpBeginShutdown (st, n) =
     (case st of Running \<Rightarrow> if n = 0 then (Ok (), (ShuttingDown, n)) else (Err Busy, (st, n))
      | Uninitialized \<Rightarrow> (Err NotInitialized, (st, n))
      | _ \<Rightarrow> (Err Busy, (st, n)))"
| "lc_spec OpShutdownCommit (st, n) = (Ok (), (Uninitialized, n))"
| "lc_spec OpShutdownDrop (st, n) = (Ok (), (Running, n))"
| "lc_spec OpAcquire (st, n) =
     (if st \<noteq> Running then (Err NotInitialized, (st, n))
      else if 2 ^ 62 - 1 \<le> n then (Err Overflow, (st, n))
      else (Ok (), (st, n + 1)))"
| "lc_spec OpLeaseDrop (st, n) = (Ok (), (st, n - 1))"

definition lc_abs :: "usize \<Rightarrow> lc_abs" where
  "lc_abs w = (decode_state w, unat (decode_count w))"

definition is_lease_loop :: "loop_pc \<Rightarrow> bool" where
  "is_lease_loop pc = (case pc of LeaseDropLoad \<Rightarrow> True | LeaseDropCas _ _ \<Rightarrow> True | _ \<Rightarrow> False)"

text \<open>What a loop knows about the word it loaded.\<close>

definition loop_ok :: "loop_pc \<Rightarrow> bool" where
  "loop_ok pc =
     (case pc of
        ShutdownCas cur nxt \<Rightarrow> begin_shutdown_next cur = Ok nxt
      | AcquireCas cur nxt \<Rightarrow> acquire_next cur = Ok nxt
      | LeaseDropCas cur nxt \<Rightarrow> lease_drop_next cur = Ok nxt
      | _ \<Rightarrow> True)"

definition lc_inv :: "lc_world \<Rightarrow> bool" where
  "lc_inv w =
     (\<not> lc_crashed w
      \<and> unat (decode_count (lc_word w)) = lc_leases w + size (filter_mset is_lease_loop (lc_loops w))
      \<and> lc_init_guards w = (if decode_state (lc_word w) = Initializing then 1 else 0)
      \<and> lc_shutdown_guards w = (if decode_state (lc_word w) = ShuttingDown then 1 else 0)
      \<and> (decode_state (lc_word w) \<noteq> Running \<longrightarrow> decode_count (lc_word w) = 0)
      \<and> (\<forall>pc \<in># lc_loops w. loop_ok pc))"

section \<open>Encoding lemmas\<close>

lemma state_bits_less: "state_bits st < 4"
  by (cases st) simp_all

lemma state_bits_take: "take_bit 2 (state_bits st) = state_bits st" "drop_bit 2 (state_bits st) = 0"
  by (cases st; simp add: take_bit_eq_mod)+

lemma and_3: "(w :: usize) AND 3 = take_bit 2 w"
proof -
  have "(3 :: usize) = mask 2" by (simp add: mask_eq_exp_minus_1)
  then show ?thesis by (simp add: take_bit_eq_mask)
qed

lemma decode_state_bits: "state_bits (decode_state w) = take_bit 2 w"
proof -
  have "unat (take_bit 2 w) = take_bit 2 (unat w)" by (rule unsigned_take_bit_eq)
  then have "unat (take_bit 2 w) < 4" using take_bit_nat_less_exp [of 2 "unat w"] by simp
  then have "unat (take_bit 2 w) \<in> {0, 1, 2, 3}" by auto
  then have "take_bit 2 w \<in> {0, 1, 2, 3}" by (auto simp: word_unat_eq_iff)
  then show ?thesis by (auto simp: decode_state_def Let_def and_3)
qed

lemma state_bits_inj: "state_bits a = state_bits b \<longleftrightarrow> a = b"
  by (cases a; cases b) simp_all

lemma max_count_take: "c \<le> lc_max_count \<longleftrightarrow> take_bit 62 c = c"
  by (simp add: lc_max_count_def word_le_nat_alt unsigned_drop_bit_eq word_unat_eq_iff
    unsigned_take_bit_eq take_bit_nat_eq_self_iff drop_bit_eq_div less_Suc_eq_le [symmetric])

lemma encode_Ok:
  assumes "encode st c = Ok w"
  shows "decode_state w = st" and "decode_count w = c"
proof -
  have c: "c \<le> lc_max_count" and w: "w = state_bits st OR push_bit 2 c"
    using assms by (auto simp: encode_def split: if_splits)
  have "take_bit 2 (push_bit 2 c) = 0"
    by (rule bit_word_eqI) (simp add: bit_simps)
  then have "take_bit 2 w = state_bits st"
    by (simp add: w state_bits_take)
  then show "decode_state w = st" using decode_state_bits [of w] state_bits_inj by metis
  have "drop_bit 2 (push_bit 2 c) = take_bit 62 c"
    by (rule bit_word_eqI) (simp add: bit_simps)
  then show "decode_count w = c"
    using c by (simp add: w decode_count_def state_bits_take max_count_take)
qed

lemma decode_count_le: "decode_count w \<le> lc_max_count"
  unfolding max_count_take decode_count_def
  by (rule bit_word_eqI) (auto simp: bit_simps dest: bit_imp_le_length)

lemma encode_decode: "encode (decode_state w) (decode_count w) = Ok w"
proof -
  have "state_bits (decode_state w) OR push_bit 2 (decode_count w) = w"
    unfolding decode_state_bits decode_count_def
  proof (rule bit_word_eqI)
    fix n
    show "bit (take_bit 2 w OR push_bit 2 (drop_bit 2 w)) n = bit w n"
    proof (cases "n < 2")
      case False
      then have "Suc (Suc (n - 2)) = n" by arith
      with False show ?thesis by (auto simp: bit_simps dest: bit_imp_le_length)
    qed (simp add: bit_simps)
  qed
  then show ?thesis by (simp add: encode_def decode_count_le)
qed

section \<open>The operations on decoded words\<close>

text \<open>The encoding of a pair that fits, as a value.\<close>

definition enc :: "runtime_state \<Rightarrow> usize \<Rightarrow> usize" where
  "enc st c = state_bits st OR push_bit 2 c"

lemma encode_enc: "c \<le> lc_max_count \<Longrightarrow> encode st c = Ok (enc st c)"
  by (simp add: encode_def enc_def)

lemma decode_enc [simp]:
  "c \<le> lc_max_count \<Longrightarrow> decode_state (enc st c) = st"
  "c \<le> lc_max_count \<Longrightarrow> decode_count (enc st c) = c"
  using encode_Ok [OF encode_enc] by auto

lemma word_eq_enc_iff:
  "c \<le> lc_max_count \<Longrightarrow> w = enc st c \<longleftrightarrow> decode_state w = st \<and> decode_count w = c"
  using encode_decode [of w] by (auto simp: encode_enc decode_count_le)

lemma zero_le_max [simp]: "0 \<le> lc_max_count"
  by simp

lemma unat_max_count: "unat lc_max_count = 2 ^ 62 - 1"
  by (simp add: lc_max_count_def unsigned_drop_bit_eq drop_bit_eq_div unsigned_minus_1_eq_mask
    mask_eq_exp_minus_1)

lemma count_inc:
  assumes "decode_count w < lc_max_count"
  shows "decode_count w + 1 \<le> lc_max_count" "unat (decode_count w + 1) = unat (decode_count w) + 1"
proof -
  have "unat (decode_count w) < 2 ^ 62 - 1" using assms by (simp add: word_less_nat_alt unat_max_count)
  then show "unat (decode_count w + 1) = unat (decode_count w) + 1"
    by (simp add: unat_word_ariths(1))
  then show "decode_count w + 1 \<le> lc_max_count"
    using assms by (simp add: word_le_nat_alt word_less_nat_alt)
qed

lemma count_dec:
  assumes "decode_count w \<noteq> 0"
  shows "decode_count w - 1 \<le> lc_max_count" "unat (decode_count w - 1) = unat (decode_count w) - 1"
proof -
  show "unat (decode_count w - 1) = unat (decode_count w) - 1"
    using assms by (rule unat_minus_one)
  then have "unat (decode_count w - 1) \<le> unat (decode_count w)" by simp
  then show "decode_count w - 1 \<le> lc_max_count"
    using decode_count_le [of w] by (simp add: word_le_nat_alt)
qed

lemma begin_initialize_cases:
  assumes "begin_initialize w = (r, x)" and "decode_state w \<noteq> Running \<longrightarrow> decode_count w = 0"
  shows "lc_spec OpBeginInit (lc_abs w) = (r, lc_abs x)" and "\<not> is_panic r"
    and "is_ok r \<longleftrightarrow> decode_state w = Uninitialized"
    and "\<not> is_ok r \<Longrightarrow> x = w" and "is_ok r \<Longrightarrow> decode_state x = Initializing \<and> decode_count x = 0"
  using assms
  by (auto simp: begin_initialize_def encode_enc compare_exchange_def word_eq_enc_iff lc_abs_def
    split: if_splits runtime_state.splits)

lemma guarded_exchange_cases:
  assumes "guarded_exchange msg a b w = (r, x)" and "decode_state w = a" and "decode_count w = 0"
  shows "r = Ok ()" and "decode_state x = b" and "decode_count x = 0"
  using assms
  by (auto simp: guarded_exchange_def encode_enc compare_exchange_def word_eq_enc_iff split: if_splits)

lemma begin_shutdown_next_cases:
  "begin_shutdown_next w =
     (case decode_state w of Uninitialized \<Rightarrow> Err NotInitialized
      | Running \<Rightarrow> if decode_count w = 0 then Ok (enc ShuttingDown 0) else Err Busy
      | _ \<Rightarrow> Err Busy)"
  by (simp add: begin_shutdown_next_def encode_enc split: runtime_state.splits)

lemma acquire_next_cases:
  "acquire_next w =
     (if decode_state w \<noteq> Running then Err NotInitialized
      else if lc_max_count \<le> decode_count w then Err Overflow
      else Ok (enc Running (decode_count w + 1)))"
proof (cases "lc_max_count \<le> decode_count w")
  case False
  then show ?thesis using count_inc(1) [of w] by (auto simp: acquire_next_def encode_enc)
qed (simp add: acquire_next_def)

lemma lease_drop_next_cases:
  assumes "decode_state w = Running" and "decode_count w \<noteq> 0"
  shows "lease_drop_next w = Ok (enc Running (decode_count w - 1))"
  using assms count_dec(1) by (simp add: lease_drop_next_def encode_enc)

lemma begin_shutdown_next_spec:
  "lc_spec OpBeginShutdown (lc_abs w) =
     (case begin_shutdown_next w of Ok x \<Rightarrow> (Ok (), lc_abs x) | Err e \<Rightarrow> (Err e, lc_abs w)
      | Panic s \<Rightarrow> (Panic s, lc_abs w))"
  by (auto simp: begin_shutdown_next_cases lc_abs_def unat_eq_0 split: runtime_state.splits)

lemma acquire_next_spec:
  "lc_spec OpAcquire (lc_abs w) =
     (case acquire_next w of Ok x \<Rightarrow> (Ok (), lc_abs x) | Err e \<Rightarrow> (Err e, lc_abs w)
      | Panic s \<Rightarrow> (Panic s, lc_abs w))"
proof (cases "lc_max_count \<le> decode_count w")
  case True
  then show ?thesis by (auto simp: acquire_next_cases lc_abs_def word_le_nat_alt unat_max_count)
next
  case False
  then have "\<not> 2 ^ 62 - 1 \<le> unat (decode_count w)" by (simp add: word_le_nat_alt unat_max_count)
  then show ?thesis
    using False count_inc [of w] by (auto simp: acquire_next_cases lc_abs_def not_le)
qed

lemma lease_drop_next_spec:
  assumes "lease_drop_next w = Ok x"
  shows "decode_state w = Running" "decode_state x = Running"
    "unat (decode_count w) = Suc (unat (decode_count x))"
    "lc_spec OpLeaseDrop (lc_abs w) = (Ok (), lc_abs x)"
proof -
  have w: "decode_state w = Running" "decode_count w \<noteq> 0"
    using assms by (auto simp: lease_drop_next_def split: if_splits)
  then have x: "x = enc Running (decode_count w - 1)" using assms lease_drop_next_cases by simp
  show "decode_state w = Running" "decode_state x = Running" using w x count_dec(1) by simp_all
  show c: "unat (decode_count w) = Suc (unat (decode_count x))"
    using w x count_dec [OF w(2)] by (simp add: unat_gt_0)
  show "lc_spec OpLeaseDrop (lc_abs w) = (Ok (), lc_abs x)"
    using c w x count_dec(1) by (simp add: lc_abs_def)
qed

section \<open>The invariant\<close>

lemma lc_inv_initial: "lc_inv lc_initial"
proof -
  have "decode_state 0 = Uninitialized" "decode_count 0 = 0"
    by (simp_all add: decode_state_def decode_count_def)
  then show ?thesis by (simp add: lc_inv_def lc_initial_def lifecycle_new_def)
qed

lemma lc_invD:
  assumes "lc_inv w"
  shows "decode_state (lc_word w) \<noteq> Running \<longrightarrow> decode_count (lc_word w) = 0"
    and "lc_init_guards w = Suc n \<Longrightarrow> decode_state (lc_word w) = Initializing \<and> n = 0"
    and "lc_shutdown_guards w = Suc n \<Longrightarrow> decode_state (lc_word w) = ShuttingDown \<and> n = 0"
    and "lc_loops w = add_mset pc M \<Longrightarrow> loop_ok pc"
  using assms by (auto simp: lc_inv_def split: if_splits)

text \<open>A pending lease drop is counted, so the word is \<open>Running\<close> with a positive count.\<close>

lemma lease_loop_running:
  assumes "lc_inv w" and "lc_loops w = add_mset pc M" and "is_lease_loop pc"
  shows "decode_state (lc_word w) = Running" and "decode_count (lc_word w) \<noteq> 0"
proof -
  have "0 < unat (decode_count (lc_word w))" using assms by (simp add: lc_inv_def)
  then show "decode_count (lc_word w) \<noteq> 0" by auto
  then show "decode_state (lc_word w) = Running" using lc_invD(1) [OF assms(1)] by blast
qed

lemma loop_panic_impossible:
  assumes "lc_inv w" and "lc_loops w = add_mset pc M"
  shows "\<not> (pc = ShutdownLoad \<and> is_panic (begin_shutdown_next (lc_word w))
    \<or> pc = AcquireLoad \<and> is_panic (acquire_next (lc_word w))
    \<or> pc = LeaseDropLoad \<and> \<not> is_ok (lease_drop_next (lc_word w)))"
proof -
  have "is_ok (lease_drop_next (lc_word w))" if "pc = LeaseDropLoad"
    using lease_loop_running [OF assms] that lease_drop_next_cases by (simp add: is_lease_loop_def)
  moreover have "\<not> is_panic (begin_shutdown_next (lc_word w))"
    by (simp add: begin_shutdown_next_cases split: runtime_state.splits)
  moreover have "\<not> is_panic (acquire_next (lc_word w))"
    by (simp add: acquire_next_cases)
  ultimately show ?thesis by blast
qed

lemma shutdown_cas_word:
  assumes "begin_shutdown_next cur = Ok nxt"
  shows "decode_state cur = Running" "decode_count cur = 0"
    "decode_state nxt = ShuttingDown" "decode_count nxt = 0"
  using assms by (auto simp: begin_shutdown_next_cases split: runtime_state.splits if_splits)

lemma acquire_cas_word:
  assumes "acquire_next cur = Ok nxt"
  shows "decode_state cur = Running" "decode_state nxt = Running"
    "unat (decode_count nxt) = Suc (unat (decode_count cur))"
proof -
  have c: "decode_state cur = Running" "decode_count cur < lc_max_count"
    "nxt = enc Running (decode_count cur + 1)"
    using assms by (auto simp: acquire_next_cases not_le split: if_splits)
  show "decode_state cur = Running" "decode_state nxt = Running"
    "unat (decode_count nxt) = Suc (unat (decode_count cur))"
    using c count_inc [OF c(2)] by simp_all
qed

lemma compare_exchange_True: "compare_exchange w a b = (True, x) \<longleftrightarrow> w = a \<and> x = b"
  by (auto simp: compare_exchange_def)

lemma is_lease_loop_simps [simp]:
  "is_lease_loop LeaseDropLoad" "is_lease_loop (LeaseDropCas a b)"
  "\<not> is_lease_loop ShutdownLoad" "\<not> is_lease_loop (ShutdownCas a b)"
  "\<not> is_lease_loop AcquireLoad" "\<not> is_lease_loop (AcquireCas a b)"
  by (simp_all add: is_lease_loop_def)

lemma loop_ok_simps [simp]:
  "loop_ok ShutdownLoad" "loop_ok AcquireLoad" "loop_ok LeaseDropLoad"
  "loop_ok (ShutdownCas a b) = (begin_shutdown_next a = Ok b)"
  "loop_ok (AcquireCas a b) = (acquire_next a = Ok b)"
  "loop_ok (LeaseDropCas a b) = (lease_drop_next a = Ok b)"
  by (simp_all add: loop_ok_def)

text \<open>A guard's exchange finds the word in the guard's state with a zero count.\<close>

lemma guard_exchange:
  assumes "lc_inv w" and "guarded_exchange msg a b (lc_word w) = (r, x)"
    and "decode_state (lc_word w) = a" and "a \<noteq> Running"
  shows "r = Ok () \<and> decode_state x = b \<and> decode_count x = 0 \<and> decode_count (lc_word w) = 0"
  using guarded_exchange_cases [OF assms(2,3)] lc_invD(1) [OF assms(1)] assms(3,4) by simp

lemma init_guard_exchange:
  assumes "lc_inv w" and "lc_init_guards w = Suc n"
    and "guarded_exchange msg Initializing b (lc_word w) = (r, x)"
  shows "r = Ok () \<and> decode_state x = b \<and> decode_count x = 0 \<and> decode_count (lc_word w) = 0
    \<and> n = 0 \<and> decode_state (lc_word w) = Initializing"
  using guard_exchange [OF assms(1,3)] lc_invD(2) [OF assms(1,2)] by simp

lemma shutdown_guard_exchange:
  assumes "lc_inv w" and "lc_shutdown_guards w = Suc n"
    and "guarded_exchange msg ShuttingDown b (lc_word w) = (r, x)"
  shows "r = Ok () \<and> decode_state x = b \<and> decode_count x = 0 \<and> decode_count (lc_word w) = 0
    \<and> n = 0 \<and> decode_state (lc_word w) = ShuttingDown"
  using guard_exchange [OF assms(1,3)] lc_invD(3) [OF assms(1,2)] by simp

lemmas guard_defs = initialize_commit_def initialize_drop_def shutdown_commit_def shutdown_drop_def

lemma lc_inv_step:
  assumes "lc_step w ev w'" and inv: "lc_inv w"
  shows "lc_inv w'"
  using assms(1)
proof (cases rule: lc_step.cases)
  case (begin_init r x)
  show ?thesis
    using begin_initialize_cases(2-5) [OF begin_init(3) lc_invD(1) [OF inv]] begin_init(2) inv
    by (cases "is_ok r") (auto simp: lc_inv_def)
next
  case (init_commit n r x)
  then show ?thesis
    using init_guard_exchange [OF inv init_commit(3) init_commit(4) [unfolded guard_defs]] inv by (simp add: lc_inv_def)
next
  case (init_drop n r x)
  then show ?thesis
    using init_guard_exchange [OF inv init_drop(3) init_drop(4) [unfolded guard_defs]] inv by (simp add: lc_inv_def)
next
  case (shutdown_commit n r x)
  then show ?thesis
    using shutdown_guard_exchange [OF inv shutdown_commit(3) shutdown_commit(4) [unfolded guard_defs]] inv by (simp add: lc_inv_def)
next
  case (shutdown_drop n r x)
  then show ?thesis
    using shutdown_guard_exchange [OF inv shutdown_drop(3) shutdown_drop(4) [unfolded guard_defs]] inv by (simp add: lc_inv_def)
next
  case (shutdown_cas cur nxt M x)
  have "begin_shutdown_next cur = Ok nxt" using lc_invD(4) [OF inv shutdown_cas(3)] by simp
  then show ?thesis
    using shutdown_cas shutdown_cas_word inv by (auto simp: lc_inv_def compare_exchange_True)
next
  case (acquire_cas cur nxt M x)
  have "acquire_next cur = Ok nxt" using lc_invD(4) [OF inv acquire_cas(3)] by simp
  then show ?thesis
    using acquire_cas acquire_cas_word inv by (auto simp: lc_inv_def compare_exchange_True)
next
  case (lease_cas cur nxt M x)
  have "lease_drop_next cur = Ok nxt" using lc_invD(4) [OF inv lease_cas(3)] by simp
  then show ?thesis
    using lease_cas lease_drop_next_spec(1-3) inv by (auto simp: lc_inv_def compare_exchange_True)
next
  case (loop_panic pc M)
  then show ?thesis using loop_panic_impossible [OF inv] by blast
qed (use inv in \<open>auto simp: lc_inv_def\<close>)

lemma lc_reachable_inv: "lc_reachable w \<Longrightarrow> lc_inv w"
  by (induction rule: lc_reachable.induct) (auto intro: lc_inv_initial lc_inv_step)

section \<open>Properties\<close>

text \<open>C1. Lifecycle safety under any interleaving of any number of threads, with weak
  compare-exchanges failing at will: no assertion of the lifecycle code ever fails; the
  packed count is the number of live leases, those being dropped included; at most one
  transition guard exists at a time, and exactly when the state is transitional; while a
  lease is alive the state is \<open>Running\<close>.\<close>

theorem lifecycle_safe:
  assumes "lc_reachable w"
  shows "\<not> lc_crashed w
    \<and> unat (decode_count (lc_word w)) = lc_leases w + size (filter_mset is_lease_loop (lc_loops w))
    \<and> lc_init_guards w + lc_shutdown_guards w \<le> 1
    \<and> (lc_init_guards w = 1 \<longleftrightarrow> decode_state (lc_word w) = Initializing)
    \<and> (lc_shutdown_guards w = 1 \<longleftrightarrow> decode_state (lc_word w) = ShuttingDown)
    \<and> (0 < lc_leases w \<longrightarrow> decode_state (lc_word w) = Running)"
proof -
  note inv = lc_reachable_inv [OF assms]
  have "decode_state (lc_word w) = Running" if "0 < lc_leases w"
  proof (rule ccontr)
    assume "decode_state (lc_word w) \<noteq> Running"
    then have "unat (decode_count (lc_word w)) = 0" using lc_invD(1) [OF inv] by simp
    with inv that show False by (simp add: lc_inv_def)
  qed
  with inv show ?thesis by (auto simp: lc_inv_def)
qed

text \<open>C2. Linearisation: in every reachable state, the step at which an operation returns
  does to the abstract pair of state and count exactly what the abstract machine does in one
  atomic step, with the same result, errors included, and no other step changes the pair.\<close>

theorem lifecycle_linearizable:
  assumes "lc_reachable w" and "lc_step w ev w'"
  shows "case ev of
      Returns op r \<Rightarrow> lc_spec op (lc_abs (lc_word w)) = (r, lc_abs (lc_word w'))
    | Internal_Step \<Rightarrow> lc_abs (lc_word w') = lc_abs (lc_word w)"
proof -
  note inv = lc_reachable_inv [OF assms(1)]
  note ini = init_guard_exchange [OF inv] and shut = shutdown_guard_exchange [OF inv] and pending = lc_invD(4) [OF inv]
  from assms(2) show ?thesis
  proof (cases rule: lc_step.cases)
    case (begin_init r x)
    then show ?thesis using begin_initialize_cases(1) [OF begin_init(3) lc_invD(1) [OF inv]] by simp
  next
    case (init_commit n r x)
    then show ?thesis using ini [OF init_commit(3) init_commit(4) [unfolded guard_defs]] by (simp add: lc_abs_def)
  next
    case (init_drop n r x)
    then show ?thesis using ini [OF init_drop(3) init_drop(4) [unfolded guard_defs]] by (simp add: lc_abs_def)
  next
    case (shutdown_commit n r x)
    then show ?thesis using shut [OF shutdown_commit(3) shutdown_commit(4) [unfolded guard_defs]] by (simp add: lc_abs_def)
  next
    case (shutdown_drop n r x)
    then show ?thesis using shut [OF shutdown_drop(3) shutdown_drop(4) [unfolded guard_defs]] by (simp add: lc_abs_def)
  next
    case (shutdown_return M e)
    then show ?thesis using begin_shutdown_next_spec [of "lc_word w"] by simp
  next
    case (shutdown_cas cur nxt M x)
    then show ?thesis
      using pending [OF shutdown_cas(3)] begin_shutdown_next_spec [of cur] by (simp add: compare_exchange_True)
  next
    case (acquire_return M e)
    then show ?thesis using acquire_next_spec [of "lc_word w"] by simp
  next
    case (acquire_cas cur nxt M x)
    then show ?thesis using pending [OF acquire_cas(3)] acquire_next_spec [of cur] by (simp add: compare_exchange_True)
  next
    case (lease_cas cur nxt M x)
    then show ?thesis using pending [OF lease_cas(3)] lease_drop_next_spec(4) [of cur nxt] by (simp add: compare_exchange_True)
  qed simp_all
qed

text \<open>A shutdown begins only on an idle runtime: when \<open>begin_shutdown\<close> succeeds no lease
  is alive and no lease drop is in progress, and from then until the transition guard is
  consumed no lease can be acquired.\<close>

theorem shutdown_excludes_leases:
  assumes "lc_reachable w" and "lc_step w (Returns OpBeginShutdown (Ok ())) w'"
  shows "lc_leases w' = 0 \<and> filter_mset is_lease_loop (lc_loops w') = {#}
    \<and> lc_init_guards w' = 0 \<and> lc_shutdown_guards w' = 1
    \<and> acquire_next (lc_word w') = Err NotInitialized"
proof -
  have inv': "lc_inv w'" using lc_inv_step [OF assms(2)] lc_reachable_inv [OF assms(1)] .
  have st: "decode_state (lc_word w') = ShuttingDown"
    using assms(2)
  proof (cases rule: lc_step.cases)
    case (shutdown_cas cur nxt M x)
    then have "begin_shutdown_next cur = Ok nxt"
      using lc_invD(4) [OF lc_reachable_inv [OF assms(1)]] by fastforce
    then show ?thesis using shutdown_cas shutdown_cas_word by (auto simp: compare_exchange_True)
  qed
  then have "decode_count (lc_word w') = 0" using lc_invD(1) [OF inv'] by simp
  then show ?thesis using inv' st by (simp add: lc_inv_def acquire_next_def)
qed

section \<open>Progress\<close>

lemma path_two: "lc_step w e1 w1 \<Longrightarrow> lc_step w1 e2 w2 \<Longrightarrow> lc_path w [e1, e2] w2"
  by (blast intro: lc_path.intros)

lemma path_one: "lc_step w e1 w1 \<Longrightarrow> lc_path w [e1] w1"
  by (blast intro: lc_path.intros)

text \<open>From its load, each loop returns within two steps of its own.\<close>

lemma load_completes:
  assumes inv: "lc_inv w" and loops: "lc_loops w = add_mset pc M"
    and pc: "pc = ShutdownLoad \<or> pc = AcquireLoad \<or> pc = LeaseDropLoad"
  shows "\<exists>evs op r w'. lc_path w (evs @ [Returns op r]) w' \<and> length evs \<le> 1 \<and> lc_loops w' = M"
proof -
  have single: ?thesis if "lc_step w (Returns op r) w1" "lc_loops w1 = M" for op r w1
    using path_one [OF that(1)] that(2) by (intro exI [of _ "[]"] exI) auto
  have double: ?thesis if "lc_step w e w1" "lc_step w1 (Returns op r) w2" "lc_loops w2 = M"
    for op r e w1 w2
    using path_two [OF that(1,2)] that(3) by (intro exI [of _ "[e]"] exI) auto
  note np = loop_panic_impossible [OF inv loops]
  from pc consider "pc = ShutdownLoad" | "pc = AcquireLoad" | "pc = LeaseDropLoad" by blast
  then show ?thesis
  proof cases
    case 1
    note l = loops [unfolded 1]
    show ?thesis
    proof (cases "begin_shutdown_next (lc_word w)")
      case (Ok nxt)
      show ?thesis
        by (rule double [OF shutdown_load [OF l Ok] shutdown_cas])
          (simp_all add: compare_exchange_True)
    next
      case (Err e)
      show ?thesis by (rule single [OF shutdown_return [OF l Err]]) simp
    qed (use np 1 in simp)
  next
    case 2
    note l = loops [unfolded 2]
    show ?thesis
    proof (cases "acquire_next (lc_word w)")
      case (Ok nxt)
      show ?thesis
        by (rule double [OF acquire_load [OF l Ok] acquire_cas])
          (simp_all add: compare_exchange_True)
    next
      case (Err e)
      show ?thesis by (rule single [OF acquire_return [OF l Err]]) simp
    qed (use np 2 in simp)
  next
    case 3
    note l = loops [unfolded 3]
    obtain nxt where Ok: "lease_drop_next (lc_word w) = Ok nxt" using np 3 by (auto elim: is_okE)
    show ?thesis
      by (rule double [OF lease_load [OF l Ok] lease_cas]) (simp_all add: compare_exchange_True)
  qed
qed

text \<open>Progress: from every reachable state, any loop in progress (of \<open>begin_shutdown\<close>,
  \<open>acquire\<close> or a lease drop) that runs alone returns within three of its own steps,
  whatever stale word it loaded before, and leaves the other loops as they are.\<close>

theorem lifecycle_progress:
  assumes "lc_reachable w" and "lc_loops w = add_mset pc M"
  shows "\<exists>evs op r w'. lc_path w (evs @ [Returns op r]) w' \<and> length evs \<le> 2 \<and> lc_loops w' = M"
proof -
  note inv = lc_reachable_inv [OF assms(1)]
  show ?thesis
  proof (cases "pc = ShutdownLoad \<or> pc = AcquireLoad \<or> pc = LeaseDropLoad")
    case True
    from load_completes [OF inv assms(2) this] obtain evs op r w'
      where "lc_path w (evs @ [Returns op r]) w'" "length evs \<le> 1" "lc_loops w' = M" by blast
    then show ?thesis by (intro exI [of _ evs] exI) auto
  next
    case False
    then obtain w1 pc1 where s: "lc_step w Internal_Step w1" and l: "lc_loops w1 = add_mset pc1 M"
      and pc1: "pc1 = ShutdownLoad \<or> pc1 = AcquireLoad \<or> pc1 = LeaseDropLoad"
      using assms(2) shutdown_retry [of w] acquire_retry [of w] lease_retry [of w]
      by (cases pc) fastforce+
    obtain evs op r w' where p: "lc_path w1 (evs @ [Returns op r]) w'" "length evs \<le> 1"
        "lc_loops w' = M"
      using load_completes [OF lc_inv_step [OF s inv] l pc1] by blast
    have "lc_path w ((Internal_Step # evs) @ [Returns op r]) w'"
      using path_cons [OF s p(1)] by simp
    with p(2,3) show ?thesis by (intro exI [of _ "Internal_Step # evs"] exI) auto
  qed
qed

section \<open>A concrete run\<close>

lemma reach_running: "lc_reachable (lc_initial\<lparr>lc_word := 2\<rparr>)"
proof -
  have 1: "begin_initialize 0 = (Ok (), 1)" and 2: "initialize_commit 1 = (Ok (), 2)"
    by code_simp+
  have "lc_reachable (lc_initial\<lparr>lc_word := 1, lc_init_guards := 1\<rparr>)"
    using lc_reachable.step [OF lc_reachable.start begin_init] 1
    by (auto simp: lc_initial_def lifecycle_new_def)
  from lc_reachable.step [OF this init_commit [of _ 0]] 2 show ?thesis
    by (auto simp: lc_initial_def)
qed

lemma reach_acquiring:
  "lc_reachable (lc_initial\<lparr>lc_word := 2, lc_loops := {#AcquireCas 2 6#}\<rparr>)"
proof -
  have "lc_reachable (lc_initial\<lparr>lc_word := 2, lc_loops := {#AcquireLoad#}\<rparr>)"
    using lc_reachable.step [OF reach_running call_acquire] by (simp add: lc_initial_def)
  moreover have "acquire_next 2 = Ok 6" by code_simp
  ultimately show ?thesis
    using lc_reachable.step [OF _ acquire_load [where M = "{#}" and nxt = 6]]
    by (fastforce simp: lc_initial_def)
qed

lemma acquiring_step:
  "lc_step (lc_initial\<lparr>lc_word := 2, lc_loops := {#AcquireCas 2 6#}\<rparr>) (Returns OpAcquire (Ok ()))
     (lc_initial\<lparr>lc_word := 6, lc_leases := 1\<rparr>)"
  using acquire_cas [of "lc_initial\<lparr>lc_word := 2, lc_loops := {#AcquireCas 2 6#}\<rparr>" 2 6 "{#}" 6]
  by (simp add: lc_initial_def compare_exchange_def)

lemma reach_shutting_down:
  "lc_reachable (lc_initial\<lparr>lc_word := 2, lc_loops := {#ShutdownCas 2 3#}\<rparr>)"
proof -
  have "lc_reachable (lc_initial\<lparr>lc_word := 2, lc_loops := {#ShutdownLoad#}\<rparr>)"
    using lc_reachable.step [OF reach_running call_shutdown] by (simp add: lc_initial_def)
  moreover have "begin_shutdown_next 2 = Ok 3" by code_simp
  ultimately show ?thesis
    using lc_reachable.step [OF _ shutdown_load [where M = "{#}" and nxt = 3]]
    by (fastforce simp: lc_initial_def)
qed

lemma shutting_down_step:
  "lc_step (lc_initial\<lparr>lc_word := 2, lc_loops := {#ShutdownCas 2 3#}\<rparr>)
     (Returns OpBeginShutdown (Ok ())) (lc_initial\<lparr>lc_word := 3, lc_shutdown_guards := 1\<rparr>)"
  using shutdown_cas [of "lc_initial\<lparr>lc_word := 2, lc_loops := {#ShutdownCas 2 3#}\<rparr>" 2 3 "{#}" 3]
  by (simp add: lc_initial_def compare_exchange_def)

theorem lifecycle_safe_witness:
  "unat (decode_count 6) = 1 \<and> decode_state 6 = Running"
  using lifecycle_safe [OF lc_reachable.step [OF reach_acquiring acquiring_step]]
  by (simp add: lc_initial_def)

theorem lifecycle_linearizable_witness:
  "lc_spec OpAcquire (lc_abs 2) = (Ok (), lc_abs 6)"
  using lifecycle_linearizable [OF reach_acquiring acquiring_step] by simp

theorem shutdown_excludes_leases_witness:
  "acquire_next 3 = Err NotInitialized"
  using shutdown_excludes_leases [OF reach_shutting_down shutting_down_step] by simp

theorem lifecycle_progress_witness:
  "\<exists>evs op r w'. lc_path (lc_initial\<lparr>lc_word := 2, lc_loops := {#AcquireCas 2 6#}\<rparr>)
     (evs @ [Returns op r]) w' \<and> length evs \<le> 2 \<and> lc_loops w' = {#}"
  by (rule lifecycle_progress [OF reach_acquiring]) simp

section \<open>One client at a time\<close>

text \<open>The operations as a single-threaded client sees them, on words that satisfy the part of
  the invariant that speaks of the word alone.\<close>

definition lc_word_ok :: "usize \<Rightarrow> bool" where
  "lc_word_ok w = (decode_state w \<noteq> Running \<longrightarrow> decode_count w = 0)"

lemma lifecycle_new_word [simp]:
  "decode_state lifecycle_new = Uninitialized" "decode_count lifecycle_new = 0"
  by (simp_all add: decode_state_def decode_count_def lifecycle_new_def)

lemma acquire_word:
  assumes "acquire w = (r, x)"
  shows "\<not> is_panic r"
    and "is_ok r \<Longrightarrow> decode_state w = Running \<and> decode_state x = Running
          \<and> unat (decode_count x) = Suc (unat (decode_count w))"
    and "\<not> is_ok r \<Longrightarrow> x = w"
    and "decode_state w \<noteq> Running \<Longrightarrow> r = Err NotInitialized"
proof -
  have n: "\<not> is_panic (acquire_next w)" by (simp add: acquire_next_cases)
  show "\<not> is_panic r" using assms n by (cases "acquire_next w") (auto simp: acquire_def install_def)
  show "is_ok r \<Longrightarrow> decode_state w = Running \<and> decode_state x = Running
          \<and> unat (decode_count x) = Suc (unat (decode_count w))"
    using assms acquire_cas_word
    by (cases "acquire_next w") (auto simp: acquire_def install_def)
  show "\<not> is_ok r \<Longrightarrow> x = w"
    using assms by (cases "acquire_next w") (auto simp: acquire_def install_def)
  show "decode_state w \<noteq> Running \<Longrightarrow> r = Err NotInitialized"
    using assms by (auto simp: acquire_def acquire_next_def install_def)
qed

lemma lease_drop_word:
  assumes "decode_state w = Running" and "0 < unat (decode_count w)"
  obtains x where "lease_drop w = (Ok (), x)" "decode_state x = Running"
    "unat (decode_count w) = Suc (unat (decode_count x))"
proof -
  have "decode_count w \<noteq> 0" using assms(2) by auto
  then obtain x where x: "lease_drop_next w = Ok x" using lease_drop_next_cases assms(1) by blast
  show ?thesis
    using lease_drop_next_spec [OF x] by (intro that [of x]) (simp_all add: lease_drop_def install_def x)
qed

lemma begin_shutdown_word:
  assumes "begin_shutdown w = (r, x)"
  shows "r = (case decode_state w of Uninitialized \<Rightarrow> Err NotInitialized
              | Running \<Rightarrow> if unat (decode_count w) = 0 then Ok () else Err Busy | _ \<Rightarrow> Err Busy)"
    and "is_ok r \<Longrightarrow> decode_state x = ShuttingDown \<and> decode_count x = 0"
    and "\<not> is_ok r \<Longrightarrow> x = w"
  using assms
  by (auto simp: begin_shutdown_def install_def begin_shutdown_next_cases unat_eq_0
    split: runtime_state.splits if_splits)

lemma initialize_word:
  assumes "decode_state w = Uninitialized" and "lc_word_ok w"
  shows "\<exists>x y. begin_initialize w = (Ok (), x) \<and> decode_state x = Initializing
    \<and> initialize_commit x = (Ok (), y) \<and> decode_state y = Running \<and> decode_count y = 0
    \<and> (\<exists>z. initialize_drop x = (Ok (), z) \<and> decode_state z = Uninitialized \<and> decode_count z = 0)"
proof -
  obtain r x where b: "begin_initialize w = (r, x)" by (cases "begin_initialize w")
  have c: "decode_state w \<noteq> Running \<longrightarrow> decode_count w = 0" using assms(2) by (simp add: lc_word_ok_def)
  note bc = begin_initialize_cases [OF b c]
  have x: "is_ok r" "decode_state x = Initializing" "decode_count x = 0" using bc assms(1) by simp_all
  then have r: "r = Ok ()" by (cases r) auto
  obtain q y where y: "initialize_commit x = (q, y)" by (cases "initialize_commit x")
  obtain q' z where z: "initialize_drop x = (q', z)" by (cases "initialize_drop x")
  show ?thesis
    using b r x y z guarded_exchange_cases [OF y [unfolded initialize_commit_def] x(2,3)]
      guarded_exchange_cases [OF z [unfolded initialize_drop_def] x(2,3)] by blast
qed

lemma shutdown_word:
  assumes "decode_state x = ShuttingDown" and "decode_count x = 0"
  shows "\<exists>y. shutdown_commit x = (Ok (), y) \<and> decode_state y = Uninitialized \<and> decode_count y = 0"
    and "\<exists>y. shutdown_drop x = (Ok (), y) \<and> decode_state y = Running \<and> decode_count y = 0"
proof -
  obtain q y where y: "shutdown_commit x = (q, y)" by (cases "shutdown_commit x")
  show "\<exists>y. shutdown_commit x = (Ok (), y) \<and> decode_state y = Uninitialized \<and> decode_count y = 0"
    using y guarded_exchange_cases [OF y [unfolded shutdown_commit_def] assms] by blast
  obtain q' z where z: "shutdown_drop x = (q', z)" by (cases "shutdown_drop x")
  show "\<exists>y. shutdown_drop x = (Ok (), y) \<and> decode_state y = Running \<and> decode_count y = 0"
    using z guarded_exchange_cases [OF z [unfolded shutdown_drop_def] assms] by blast
qed

end
