(* ===== verification/Mock_Time.thy ===== *)
theory Mock_Time
  imports Timer_State "HOL-Library.Multiset"
begin

text \<open>
  src/crates/osal-backend-mock/src/time_runtime.rs and clock.rs: the virtual clock, the timer
  registry with (epoch, id) keys, and the dispatch loop that takes one expired callback at a
  time, runs it outside the lock and puts it back. A callback is an arbitrary value of type
  \<open>'cb\<close>; what running it does to the registry is the parameter \<open>run\<close> of the loop. The
  registry behind the global lock is an option: \<open>None\<close> before the first use.
\<close>

section \<open>State\<close>

record mock_timer_key =
  mk_epoch :: u64
  mk_id :: u64

record 'cb mock_timer_entry =
  me_key :: mock_timer_key
  me_state :: timer_state
  me_callback :: "'cb option"
  me_creation_order :: u64
  me_deleted :: bool

record 'cb mock_time_runtime =
  mr_now :: duration
  mr_epoch :: u64
  mr_next_id :: u64
  mr_next_creation_order :: u64
  mr_timers :: "'cb mock_timer_entry list"

definition mock_time_new :: "'cb mock_time_runtime" where
  "mock_time_new = \<lparr>mr_now = duration_zero, mr_epoch = 1, mr_next_id = 1,
     mr_next_creation_order = 0, mr_timers = []\<rparr>"

section \<open>Operations\<close>

definition reset_and_detach ::
  "'cb mock_time_runtime \<Rightarrow> 'cb mock_timer_entry list \<times> 'cb mock_time_runtime" where
  "reset_and_detach rt =
     (mr_timers rt,
      rt\<lparr>mr_now := duration_zero, mr_epoch := mr_epoch rt + 1, mr_next_id := 1,
         mr_next_creation_order := 0, mr_timers := []\<rparr>)"

definition advance_time :: "duration \<Rightarrow> 'cb mock_time_runtime \<Rightarrow> 'cb mock_time_runtime" where
  "advance_time d rt = rt\<lparr>mr_now := dur_saturating_add (mr_now rt) d\<rparr>"

definition register_timer ::
  "duration \<Rightarrow> timer_mode \<Rightarrow> 'cb \<Rightarrow> 'cb mock_time_runtime
    \<Rightarrow> mock_timer_key res \<times> 'cb mock_time_runtime" where
  "register_timer period mode callback rt =
     (let key = \<lparr>mk_epoch = mr_epoch rt, mk_id = mr_next_id rt\<rparr> in
      if mr_next_id rt = - 1 then (Panic ''attempt to add with overflow'', rt)
      else let rt1 = rt\<lparr>mr_next_id := mr_next_id rt + 1\<rparr>; order = mr_next_creation_order rt1 in
      if order = - 1 then (Panic ''attempt to add with overflow'', rt1)
      else let rt2 = rt1\<lparr>mr_next_creation_order := order + 1\<rparr> in
      case ts_new period mode of
        Ok st \<Rightarrow>
          (Ok key, rt2\<lparr>mr_timers := mr_timers rt2 @
             [\<lparr>me_key = key, me_state = st, me_callback = Some callback,
               me_creation_order = order, me_deleted = False\<rparr>]\<rparr>)
      | _ \<Rightarrow> (Panic ''TimerState::new should be validated by caller'', rt2))"

text \<open>\<open>find_mut(key)\<close> followed by a mutation of the entry found.\<close>

fun update_first :: "('a \<Rightarrow> bool) \<Rightarrow> ('a \<Rightarrow> 'a) \<Rightarrow> 'a list \<Rightarrow> 'a list" where
  "update_first P f [] = []"
| "update_first P f (x # xs) = (if P x then f x # xs else x # update_first P f xs)"

definition entry_matches :: "mock_timer_key \<Rightarrow> 'cb mock_timer_entry \<Rightarrow> bool" where
  "entry_matches key e = (me_key e = key \<and> \<not> me_deleted e)"

definition with_entry ::
  "mock_timer_key \<Rightarrow> ('cb mock_timer_entry \<Rightarrow> 'cb mock_timer_entry)
    \<Rightarrow> 'cb mock_time_runtime \<Rightarrow> 'cb mock_time_runtime" where
  "with_entry key f rt = rt\<lparr>mr_timers := update_first (entry_matches key) f (mr_timers rt)\<rparr>"

definition start_timer :: "mock_timer_key \<Rightarrow> 'cb mock_time_runtime \<Rightarrow> 'cb mock_time_runtime" where
  "start_timer key rt =
     with_entry key (\<lambda>e. e\<lparr>me_state := snd (ts_start (me_state e) (mr_now rt))\<rparr>) rt"

definition stop_timer :: "mock_timer_key \<Rightarrow> 'cb mock_time_runtime \<Rightarrow> 'cb mock_time_runtime" where
  "stop_timer key rt = with_entry key (\<lambda>e. e\<lparr>me_state := ts_stop (me_state e)\<rparr>) rt"

definition reset_timer :: "mock_timer_key \<Rightarrow> 'cb mock_time_runtime \<Rightarrow> 'cb mock_time_runtime" where
  "reset_timer key rt =
     with_entry key (\<lambda>e. e\<lparr>me_state := snd (ts_reset (me_state e) (mr_now rt))\<rparr>) rt"

definition mock_change_period ::
  "mock_timer_key \<Rightarrow> duration \<Rightarrow> 'cb mock_time_runtime \<Rightarrow> 'cb mock_time_runtime" where
  "mock_change_period key p rt =
     with_entry key (\<lambda>e. e\<lparr>me_state := snd (ts_change_period (me_state e) p)\<rparr>) rt"

text \<open>\<open>Vec::swap_remove\<close>: the last element takes the place of the removed one.\<close>

definition swap_remove :: "nat \<Rightarrow> 'a list \<Rightarrow> 'a list" where
  "swap_remove i xs =
     (if i = length xs - 1 then butlast xs else butlast (xs[i := last xs]))"

definition remove_timer ::
  "mock_timer_key \<Rightarrow> 'cb mock_time_runtime
    \<Rightarrow> 'cb mock_timer_entry option \<times> 'cb mock_time_runtime" where
  "remove_timer key rt =
     (case position (entry_matches key) (mr_timers rt) of
        None \<Rightarrow> (None, rt)
      | Some i \<Rightarrow>
          (Some (mr_timers rt ! i), rt\<lparr>mr_timers := swap_remove i (mr_timers rt)\<rparr>))"

text \<open>The scan of \<open>take_next_expired\<close>: index, deadline and creation order of the best entry
  so far.\<close>

fun scan_expired ::
  "duration \<Rightarrow> nat \<Rightarrow> 'cb mock_timer_entry list \<Rightarrow> (nat \<times> duration \<times> u64) option
    \<Rightarrow> (nat \<times> duration \<times> u64) option" where
  "scan_expired now i [] best = best"
| "scan_expired now i (e # es) best =
     scan_expired now (Suc i) es
       (if me_deleted e \<or> me_callback e = None then best
        else case ts_deadline (me_state e) of
          None \<Rightarrow> best
        | Some d \<Rightarrow>
            if d \<le> now then
              (case best of
                 None \<Rightarrow> Some (i, d, me_creation_order e)
               | Some (_, bd, bo) \<Rightarrow>
                   if d < bd \<or> d = bd \<and> me_creation_order e < bo
                   then Some (i, d, me_creation_order e) else best)
            else best)"

definition take_next_expired ::
  "'cb mock_time_runtime \<Rightarrow> (mock_timer_key \<times> 'cb) option \<times> 'cb mock_time_runtime" where
  "take_next_expired rt =
     (case scan_expired (mr_now rt) 0 (mr_timers rt) None of
        None \<Rightarrow> (None, rt)
      | Some (idx, _, _) \<Rightarrow>
          let entry = mr_timers rt ! idx;
              (fired, st) = advance_on_expiry (me_state entry) (mr_now rt)
          in if \<not> fired then (None, rt)
             else case me_callback entry of
               None \<Rightarrow> (None, rt)
             | Some cb \<Rightarrow>
                 (Some (me_key entry, cb),
                  rt\<lparr>mr_timers := (mr_timers rt)
                       [idx := entry\<lparr>me_state := st, me_callback := None\<rparr>]\<rparr>))"

definition restore_callback ::
  "mock_timer_key \<Rightarrow> 'cb \<Rightarrow> 'cb mock_time_runtime \<Rightarrow> 'cb mock_time_runtime" where
  "restore_callback key cb rt =
     with_entry key
       (\<lambda>e. if me_callback e = None then e\<lparr>me_callback := Some cb\<rparr> else e) rt"

section \<open>The global registry\<close>

definition global_runtime :: "'cb mock_time_runtime option \<Rightarrow> 'cb mock_time_runtime" where
  "global_runtime g = (case g of None \<Rightarrow> mock_time_new | Some rt \<Rightarrow> rt)"

definition with_runtime ::
  "('cb mock_time_runtime \<Rightarrow> 'r \<times> 'cb mock_time_runtime) \<Rightarrow> 'cb mock_time_runtime option
    \<Rightarrow> 'r \<times> 'cb mock_time_runtime option" where
  "with_runtime f g = (let (r, rt) = f (global_runtime g) in (r, Some rt))"

definition reset_runtime :: "'cb mock_time_runtime option \<Rightarrow> 'cb mock_time_runtime option" where
  "reset_runtime g = snd (with_runtime reset_and_detach g)"

definition deregister_timer ::
  "mock_timer_key \<Rightarrow> 'cb mock_time_runtime option \<Rightarrow> 'cb mock_time_runtime option" where
  "deregister_timer key g = map_option (\<lambda>rt. snd (remove_timer key rt)) g"

section \<open>Dispatch (clock.rs)\<close>

text \<open>The loop of \<open>advance_and_dispatch\<close>. \<open>None\<close> is a loop that does not end, which an
  arbitrary callback can cause.\<close>

partial_function (option) dispatch_loop ::
  "('cb \<Rightarrow> 'cb mock_time_runtime option \<Rightarrow> 'cb \<times> 'cb mock_time_runtime option)
    \<Rightarrow> 'cb mock_time_runtime option \<Rightarrow> 'cb mock_time_runtime option option" where
  "dispatch_loop run g =
     (case g of
        None \<Rightarrow> Some None
      | Some rt \<Rightarrow>
          (case take_next_expired rt of
             (None, rt1) \<Rightarrow> Some (Some rt1)
           | (Some (key, cb), rt1) \<Rightarrow>
               let (cb', g2) = run cb (Some rt1)
               in dispatch_loop run (map_option (restore_callback key cb') g2)))"

definition advance_and_dispatch ::
  "('cb \<Rightarrow> 'cb mock_time_runtime option \<Rightarrow> 'cb \<times> 'cb mock_time_runtime option)
    \<Rightarrow> duration \<Rightarrow> 'cb mock_time_runtime option \<Rightarrow> 'cb mock_time_runtime option option" where
  "advance_and_dispatch run d g =
     dispatch_loop run (snd (with_runtime (\<lambda>rt. ((), advance_time d rt)) g))"

definition mock_clock_now :: "'cb mock_time_runtime option \<Rightarrow> duration \<times> 'cb mock_time_runtime option" where
  "mock_clock_now g = with_runtime (\<lambda>rt. (mr_now rt, rt)) g"

section \<open>Timer operations a callback can perform\<close>

datatype 'cb timer_cmd =
    CmdStart mock_timer_key
  | CmdStop mock_timer_key
  | CmdReset mock_timer_key
  | CmdChangePeriod mock_timer_key duration
  | CmdDrop mock_timer_key
  | CmdCreate duration timer_mode 'cb

fun exec_cmd :: "'cb timer_cmd \<Rightarrow> 'cb mock_time_runtime \<Rightarrow> 'cb mock_time_runtime" where
  "exec_cmd (CmdStart k) rt = start_timer k rt"
| "exec_cmd (CmdStop k) rt = stop_timer k rt"
| "exec_cmd (CmdReset k) rt = reset_timer k rt"
| "exec_cmd (CmdChangePeriod k p) rt = mock_change_period k p rt"
| "exec_cmd (CmdDrop k) rt = snd (remove_timer k rt)"
| "exec_cmd (CmdCreate p m cb) rt = snd (register_timer p m cb rt)"

definition exec_cmds :: "'cb timer_cmd list \<Rightarrow> 'cb mock_time_runtime \<Rightarrow> 'cb mock_time_runtime" where
  "exec_cmds cmds rt = fold exec_cmd cmds rt"

text \<open>What a callback may do to the registry: any sequence of timer operations, on its own
  timer or on others. Only a nested delay is excluded.\<close>

definition commands_only ::
  "('cb \<Rightarrow> 'cb mock_time_runtime option \<Rightarrow> 'cb \<times> 'cb mock_time_runtime option) \<Rightarrow> bool" where
  "commands_only run =
     (\<forall>cb rt. \<exists>cb' cmds. run cb (Some rt) = (cb', Some (exec_cmds cmds rt)))"

section \<open>Invariant and measure\<close>

definition entry_expired :: "duration \<Rightarrow> 'cb mock_timer_entry \<Rightarrow> bool" where
  "entry_expired now e = ts_expired now (me_state e)"

text \<open>Periods are positive, no entry is marked deleted, keys are of the current epoch, below
  the next identifier and distinct.\<close>

definition mt_inv :: "'cb mock_time_runtime \<Rightarrow> bool" where
  "mt_inv rt =
     (distinct (map me_key (mr_timers rt))
      \<and> (\<forall>e \<in> set (mr_timers rt).
            ts_inv (me_state e) \<and> \<not> me_deleted e \<and> mk_epoch (me_key e) = mr_epoch rt
            \<and> mk_id (me_key e) < mr_next_id rt))"

text \<open>Between dispatches every entry has its callback; while one runs, only its entry lacks
  it, and that entry is not expired.\<close>

definition mt_idle :: "'cb mock_time_runtime \<Rightarrow> bool" where
  "mt_idle rt = (\<forall>e \<in> set (mr_timers rt). me_callback e \<noteq> None)"

definition mt_taken :: "mock_timer_key \<Rightarrow> 'cb mock_time_runtime \<Rightarrow> bool" where
  "mt_taken k rt =
     (\<forall>e \<in> set (mr_timers rt).
        me_callback e = None \<longrightarrow> me_key e = k \<and> \<not> entry_expired (mr_now rt) e)"

definition expired_count :: "'cb mock_time_runtime \<Rightarrow> nat" where
  "expired_count rt = length (filter (entry_expired (mr_now rt)) (mr_timers rt))"

section \<open>List operations\<close>

lemma set_update_first: "y \<in> set (update_first P f xs) \<Longrightarrow> y \<in> set xs \<or> (\<exists>x \<in> set xs. P x \<and> y = f x)"
  by (induction xs) (auto split: if_splits)

lemma map_update_first:
  "(\<And>x. x \<in> set xs \<Longrightarrow> g (f x) = g x) \<Longrightarrow> map g (update_first P f xs) = map g xs"
  by (induction xs) auto

lemma filter_update_first_le:
  "(\<And>x. x \<in> set xs \<Longrightarrow> Q (f x) \<Longrightarrow> Q x)
    \<Longrightarrow> length (filter Q (update_first P f xs)) \<le> length (filter Q xs)"
  by (induction xs) auto

lemma update_first_none: "(\<And>x. x \<in> set xs \<Longrightarrow> \<not> P x) \<Longrightarrow> update_first P f xs = xs"
  by (induction xs) auto

lemma mset_swap_remove:
  assumes "i < length xs"
  shows "add_mset (xs ! i) (mset (swap_remove i xs)) = mset xs"
proof (cases "i = length xs - 1")
  case True
  then have "xs = butlast xs @ [xs ! i]" using assms by (metis append_butlast_last_id last_conv_nth
    length_0_conv less_nat_zero_code)
  then have "mset xs = mset (butlast xs @ [xs ! i])" by simp
  with True show ?thesis by (simp add: swap_remove_def)
next
  case False
  then obtain ys z where xs: "xs = ys @ [z]" using assms by (cases xs rule: rev_cases) auto
  with False assms have i: "i < length ys" by simp
  have "mset (ys[i := z]) = add_mset z (mset ys - {#ys ! i#})"
    using i by (rule mset_update)
  moreover have "swap_remove i xs = ys[i := z]"
    using False i by (simp add: swap_remove_def xs list_update_append1)
  moreover have "ys ! i \<in># mset ys" using i by simp
  ultimately show ?thesis using i by (simp add: xs nth_append)
qed

lemma swap_remove_subset: "i < length xs \<Longrightarrow> set (swap_remove i xs) \<subseteq> set xs"
  using mset_swap_remove [of i xs] by (metis set_mset_add_mset_insert set_mset_mset subset_insertI)

lemma swap_remove_filter_le:
  assumes "i < length xs"
  shows "length (filter P (swap_remove i xs)) \<le> length (filter P xs)"
proof -
  have "mset (filter P xs) = filter_mset P (add_mset (xs ! i) (mset (swap_remove i xs)))"
    by (simp add: mset_swap_remove [OF assms])
  then have "size (mset (filter P xs)) \<ge> size (mset (filter P (swap_remove i xs)))" by simp
  then show ?thesis by (simp only: size_mset)
qed

lemma swap_remove_distinct:
  assumes "i < length xs" and "distinct (map f xs)"
  shows "distinct (map f (swap_remove i xs))"
proof -
  have "mset (map f ((xs ! i) # swap_remove i xs)) = mset (map f xs)"
    using mset_swap_remove [OF assms(1)] by (metis mset.simps(2) mset_map)
  then have "distinct (map f ((xs ! i) # swap_remove i xs))"
    using assms(2) mset_eq_imp_distinct_iff by blast
  then show ?thesis by simp
qed

section \<open>The scan\<close>

definition entry_live :: "duration \<Rightarrow> 'cb mock_timer_entry \<Rightarrow> bool" where
  "entry_live now e = (\<not> me_deleted e \<and> me_callback e \<noteq> None \<and> entry_expired now e)"

definition entry_deadline :: "'cb mock_timer_entry \<Rightarrow> duration" where
  "entry_deadline e = the (ts_deadline (me_state e))"

definition not_later :: "duration \<times> u64 \<Rightarrow> duration \<times> u64 \<Rightarrow> bool" where
  "not_later a b = (fst a < fst b \<or> fst a = fst b \<and> snd a \<le> snd b)"

definition entry_rank :: "'cb mock_timer_entry \<Rightarrow> duration \<times> u64" where
  "entry_rank e = (entry_deadline e, me_creation_order e)"

lemma not_later_refl [simp]: "not_later a a"
  by (simp add: not_later_def)

lemma not_later_trans: "not_later a b \<Longrightarrow> not_later b c \<Longrightarrow> not_later a c"
  by (auto simp: not_later_def)

lemma not_later_total: "\<not> not_later a b \<Longrightarrow> not_later b a"
  by (auto simp: not_later_def)

text \<open>One step of the scan keeps the earlier of the candidate and the entry.\<close>

lemma scan_step:
  "scan_expired now i (e # es) best =
     scan_expired now (Suc i) es
       (if entry_live now e \<and> (case best of None \<Rightarrow> True | Some (_, r) \<Rightarrow> \<not> not_later r (entry_rank e))
        then Some (i, entry_rank e) else best)"
  by (auto simp: entry_live_def entry_expired_def ts_expired_def entry_rank_def entry_deadline_def
      not_later_def split: option.splits)

definition best_upto ::
  "duration \<Rightarrow> 'cb mock_timer_entry list \<Rightarrow> nat \<Rightarrow> (nat \<times> duration \<times> u64) option \<Rightarrow> bool" where
  "best_upto now xs n best =
     (case best of
        None \<Rightarrow> \<forall>j < n. \<not> entry_live now (xs ! j)
      | Some (k, q) \<Rightarrow> k < n \<and> entry_live now (xs ! k) \<and> q = entry_rank (xs ! k)
          \<and> (\<forall>j < n. entry_live now (xs ! j) \<longrightarrow> not_later q (entry_rank (xs ! j))))"

lemma best_upto_step:
  assumes "best_upto now xs i best"
  shows "best_upto now xs (Suc i)
    (if entry_live now (xs ! i)
        \<and> (case best of None \<Rightarrow> True | Some (_, r) \<Rightarrow> \<not> not_later r (entry_rank (xs ! i)))
     then Some (i, entry_rank (xs ! i)) else best)"
proof (cases best)
  case None
  with assms show ?thesis by (auto simp: best_upto_def less_Suc_eq)
next
  case (Some b)
  then obtain k q where b: "best = Some (k, q)" by (cases b) auto
  note a = assms [unfolded b best_upto_def, simplified]
  show ?thesis
  proof (cases "entry_live now (xs ! i) \<and> \<not> not_later q (entry_rank (xs ! i))")
    case True
    then have "not_later (entry_rank (xs ! i)) q" using not_later_total by blast
    then have "not_later (entry_rank (xs ! i)) (entry_rank (xs ! j))"
      if "j < Suc i" "entry_live now (xs ! j)" for j
      using that a not_later_trans [of "entry_rank (xs ! i)" q "entry_rank (xs ! j)"]
      by (cases "j = i") auto
    with True show ?thesis by (simp add: b best_upto_def)
  next
    case False
    with a show ?thesis by (auto simp: b best_upto_def less_Suc_eq)
  qed
qed

lemma scan_best:
  "i \<le> length xs \<Longrightarrow> best_upto now xs i best
    \<Longrightarrow> best_upto now xs (length xs) (scan_expired now i (drop i xs) best)"
proof (induction "length xs - i" arbitrary: i best)
  case 0
  then show ?case by simp
next
  case (Suc n)
  then have i: "i < length xs" by simp
  then have d: "drop i xs = xs ! i # drop (Suc i) xs" by (simp add: Cons_nth_drop_Suc)
  show ?case
    unfolding d scan_step
    by (rule Suc.hyps(1)) (use Suc i best_upto_step [OF Suc.prems(2)] in simp_all)
qed

lemma scan_all: "best_upto now xs (length xs) (scan_expired now 0 xs None)"
  using scan_best [of 0 xs now None] by (simp add: best_upto_def)

section \<open>Taking one callback\<close>

lemma take_next_expired_None:
  assumes "take_next_expired rt = (None, rt')"
  shows "rt' = rt" and "\<forall>e \<in> set (mr_timers rt). \<not> entry_live (mr_now rt) e"
proof -
  let ?s = "scan_expired (mr_now rt) 0 (mr_timers rt) None"
  note best = scan_all [of "mr_now rt" "mr_timers rt"]
  have "?s = None"
  proof (cases ?s)
    case (Some b)
    then obtain k q where s: "?s = Some (k, q)" by (cases b) auto
    with best have live: "entry_live (mr_now rt) (mr_timers rt ! k)" by (simp add: best_upto_def)
    obtain fired st where a: "advance_on_expiry (me_state (mr_timers rt ! k)) (mr_now rt) = (fired, st)"
      by (cases "advance_on_expiry (me_state (mr_timers rt ! k)) (mr_now rt)")
    then have "fired" using live advance_fires [of "me_state (mr_timers rt ! k)" "mr_now rt"]
      by (simp add: entry_live_def entry_expired_def)
    with assms s a live show ?thesis
      by (auto simp: take_next_expired_def Let_def entry_live_def split: prod.splits option.splits)
  qed simp
  then show "rt' = rt" "\<forall>e \<in> set (mr_timers rt). \<not> entry_live (mr_now rt) e"
    using assms best by (auto simp: take_next_expired_def best_upto_def in_set_conv_nth)
qed

lemma take_next_expired_Some:
  assumes "take_next_expired rt = (Some (key, cb), rt')"
  obtains k st where "k < length (mr_timers rt)"
    and "entry_live (mr_now rt) (mr_timers rt ! k)"
    and "me_key (mr_timers rt ! k) = key" and "me_callback (mr_timers rt ! k) = Some cb"
    and "advance_on_expiry (me_state (mr_timers rt ! k)) (mr_now rt) = (True, st)"
    and "rt' = rt\<lparr>mr_timers := (mr_timers rt)
            [k := (mr_timers rt ! k)\<lparr>me_state := st, me_callback := None\<rparr>]\<rparr>"
    and "\<forall>e \<in> set (mr_timers rt). entry_live (mr_now rt) e
            \<longrightarrow> not_later (entry_rank (mr_timers rt ! k)) (entry_rank e)"
proof -
  let ?s = "scan_expired (mr_now rt) 0 (mr_timers rt) None"
  note best = scan_all [of "mr_now rt" "mr_timers rt"]
  obtain k q where s: "?s = Some (k, q)"
    using assms by (cases ?s) (auto simp: take_next_expired_def)
  obtain fired st where a: "advance_on_expiry (me_state (mr_timers rt ! k)) (mr_now rt) = (fired, st)"
    by (cases "advance_on_expiry (me_state (mr_timers rt ! k)) (mr_now rt)")
  have k: "k < length (mr_timers rt)" "entry_live (mr_now rt) (mr_timers rt ! k)"
    "\<forall>e \<in> set (mr_timers rt). entry_live (mr_now rt) e
            \<longrightarrow> not_later (entry_rank (mr_timers rt ! k)) (entry_rank e)"
    using best s by (auto simp: best_upto_def in_set_conv_nth)
  show ?thesis
    using assms s a k
    by (intro that [of k st])
      (auto simp: take_next_expired_def Let_def split: prod.splits if_splits option.splits)
qed

lemma filter_update_dec:
  assumes "k < length xs" and "P (xs ! k)" and "\<not> P y"
  shows "length (filter P xs) = Suc (length (filter P (xs[k := y])))"
  using assms
  by (subst id_take_nth_drop [OF assms(1)]) (simp add: upd_conv_take_nth_drop)

lemma take_next_expired_step:
  assumes inv: "mt_inv rt" and idle: "mt_idle rt"
    and take: "take_next_expired rt = (Some (key, cb), rt')"
  shows "mt_inv rt'" and "mt_taken key rt'" and "mr_now rt' = mr_now rt"
    and "expired_count rt = Suc (expired_count rt')"
proof -
  obtain k st where k: "k < length (mr_timers rt)" "entry_live (mr_now rt) (mr_timers rt ! k)"
      "me_key (mr_timers rt ! k) = key"
      "advance_on_expiry (me_state (mr_timers rt ! k)) (mr_now rt) = (True, st)"
      and rt': "rt' = rt\<lparr>mr_timers := (mr_timers rt)
            [k := (mr_timers rt ! k)\<lparr>me_state := st, me_callback := None\<rparr>]\<rparr>"
    using take by (rule take_next_expired_Some)
  let ?e = "mr_timers rt ! k" and ?e' = "(mr_timers rt ! k)\<lparr>me_state := st, me_callback := None\<rparr>"
  have set': "set (mr_timers rt') \<subseteq> insert ?e' (set (mr_timers rt))"
    by (simp add: rt' set_update_subset_insert)
  have keys: "map me_key (mr_timers rt') = map me_key (mr_timers rt)"
    using k(1) by (simp add: rt' map_update) (metis list_update_id nth_map)
  have "ts_inv (me_state ?e)" using inv k(1) by (simp add: mt_inv_def)
  then have ts: "ts_inv st" using k(4) by (rule ts_ops_inv(5))
  have ne: "\<not> entry_expired (mr_now rt) ?e'"
    using advance_not_expired [OF k(4)] by (simp add: entry_expired_def)
  show now: "mr_now rt' = mr_now rt" by (simp add: rt')
  have e: "?e \<in> set (mr_timers rt)" using k(1) by simp
  then have e': "ts_inv (me_state ?e') \<and> \<not> me_deleted ?e' \<and> mk_epoch (me_key ?e') = mr_epoch rt
      \<and> mk_id (me_key ?e') < mr_next_id rt"
    using inv ts by (simp add: mt_inv_def)
  show "mt_inv rt'"
    using inv set' keys e' unfolding mt_inv_def by (auto simp: rt')
  show "mt_taken key rt'"
    unfolding mt_taken_def now
  proof (intro ballI impI)
    fix e assume e: "e \<in> set (mr_timers rt')" "me_callback e = None"
    then have "e = ?e'" using set' idle unfolding mt_idle_def by blast
    then show "me_key e = key \<and> \<not> entry_expired (mr_now rt) e" using ne k(3) by simp
  qed
  show "expired_count rt = Suc (expired_count rt')"
    using filter_update_dec [OF k(1), of "entry_expired (mr_now rt)" ?e'] k(2) ne
    by (simp add: expired_count_def rt' entry_live_def)
qed

section \<open>Commands keep the invariant and create no expiry\<close>

definition mt_keeps ::
  "mock_timer_key \<Rightarrow> 'cb mock_time_runtime \<Rightarrow> 'cb mock_time_runtime \<Rightarrow> bool" where
  "mt_keeps k rt rt' =
     (mt_inv rt' \<and> mt_taken k rt' \<and> mr_now rt' = mr_now rt
      \<and> expired_count rt' \<le> expired_count rt)"

lemma mt_keeps_trans: "mt_keeps k a b \<Longrightarrow> mt_keeps k b c \<Longrightarrow> mt_keeps k a c"
  by (auto simp: mt_keeps_def)

lemma with_entry_keeps:
  assumes inv: "mt_inv rt" and tk: "mt_taken k rt"
    and f: "\<And>e. ts_inv (me_state e) \<Longrightarrow> ts_inv (me_state (f e))"
      "\<And>e. me_key (f e) = me_key e" "\<And>e. me_deleted (f e) = me_deleted e"
      "\<And>e. me_callback (f e) = me_callback e"
      "\<And>e. ts_inv (me_state e) \<Longrightarrow> entry_expired (mr_now rt) (f e) \<Longrightarrow> entry_expired (mr_now rt) e"
  shows "mt_keeps k rt (with_entry key f rt)"
proof -
  let ?rt' = "with_entry key f rt"
  have ti: "ts_inv (me_state e)" if "e \<in> set (mr_timers rt)" for e
    using inv that by (simp add: mt_inv_def)
  have mem: "y \<in> set (mr_timers rt) \<or> (\<exists>x \<in> set (mr_timers rt). y = f x)"
    if "y \<in> set (mr_timers ?rt')" for y
    using that set_update_first by (fastforce simp: with_entry_def)
  have "map me_key (mr_timers ?rt') = map me_key (mr_timers rt)"
    using f(2) by (simp add: with_entry_def map_update_first)
  then have "distinct (map me_key (mr_timers ?rt'))" using inv by (simp add: mt_inv_def)
  moreover have "mr_epoch ?rt' = mr_epoch rt" "mr_next_id ?rt' = mr_next_id rt"
    by (simp_all add: with_entry_def)
  ultimately have i: "mt_inv ?rt'"
    using inv mem f(1-3) unfolding mt_inv_def by fastforce
  have now: "mr_now ?rt' = mr_now rt" by (simp add: with_entry_def)
  have t: "mt_taken k ?rt'"
    unfolding mt_taken_def now
  proof (intro ballI impI)
    fix e assume "e \<in> set (mr_timers ?rt')" "me_callback e = None"
    then show "me_key e = k \<and> \<not> entry_expired (mr_now rt) e"
      using mem [of e] tk f(2,4,5) ti unfolding mt_taken_def by metis
  qed
  have "expired_count ?rt' \<le> expired_count rt"
    unfolding expired_count_def now unfolding with_entry_def
    using f(5) ti by (auto intro!: filter_update_first_le)
  with i now t show ?thesis by (simp add: mt_keeps_def)
qed

text \<open>Starting or resetting a timer with a positive period never makes it expired.\<close>

lemma start_not_expired:
  assumes "ts_inv s" and "ts_expired now (snd (ts_start s now))"
  shows "ts_expired now s"
proof -
  obtain r s' where s': "ts_start s now = (r, s')" by (cases "ts_start s now")
  note c = ts_start_cases [OF s']
  have "0 < as_nanos (ts_period s)" using assms(1) by (simp add: ts_inv_def duration_eq_iff)
  then have "\<not> of_nanos (as_nanos now + as_nanos (ts_period s)) \<le> now"
    if "as_nanos now + as_nanos (ts_period s) < duration_limit"
    using that by (simp add: duration_order)
  then show ?thesis
    using assms(2) s' c by (auto simp: ts_expired_def split: if_splits)
qed

lemma remove_timer_keeps:
  assumes "mt_inv rt" and "mt_taken k rt"
  shows "mt_keeps k rt (snd (remove_timer key rt))"
proof (cases "position (entry_matches key) (mr_timers rt)")
  case None
  then show ?thesis using assms by (simp add: remove_timer_def mt_keeps_def)
next
  case (Some i)
  then have i: "i < length (mr_timers rt)" using position_Some by blast
  let ?rt' = "rt\<lparr>mr_timers := swap_remove i (mr_timers rt)\<rparr>"
  have eq: "snd (remove_timer key rt) = ?rt'" using Some by (simp add: remove_timer_def)
  note sub = swap_remove_subset [OF i]
  have "mt_inv ?rt'"
    using assms(1) sub swap_remove_distinct [OF i, of me_key] unfolding mt_inv_def by auto
  moreover have "mt_taken k ?rt'" using assms(2) sub unfolding mt_taken_def by auto
  moreover have "expired_count ?rt' \<le> expired_count rt"
    using swap_remove_filter_le [OF i] by (simp add: expired_count_def)
  ultimately show ?thesis by (simp add: eq mt_keeps_def)
qed

lemma word_inc_greater:
  assumes "(x :: u64) \<noteq> - 1"
  shows "x < x + 1"
proof -
  have "unat (- 1 :: u64) = 2 ^ 64 - 1" by (simp add: unsigned_minus_1_eq_mask mask_eq_exp_minus_1)
  then have "unat x \<noteq> 2 ^ 64 - 1" using assms by (metis word_unat_eq_iff)
  then have "unat x + 1 < 2 ^ 64" using unat_u64_less [of x] by linarith
  then have "unat (x + 1) = unat x + 1" by (simp add: unat_word_ariths(1))
  then show ?thesis by (simp add: word_less_nat_alt)
qed

text \<open>A registered timer is stopped and has a fresh key.\<close>

lemma register_timer_fields:
  "mr_now (snd (register_timer p m cb rt)) = mr_now rt"
  "mr_epoch (snd (register_timer p m cb rt)) = mr_epoch rt"
  by (simp_all add: register_timer_def Let_def split: res.splits)

lemma register_timer_keeps:
  assumes inv: "mt_inv rt" and tk: "mt_taken k rt"
  shows "mt_keeps k rt (snd (register_timer p m cb rt))"
proof (cases "mr_next_id rt = - 1")
  case True
  then show ?thesis using assms by (simp add: register_timer_def mt_keeps_def)
next
  case False
  let ?rt' = "snd (register_timer p m cb rt)"
  note inc = word_inc_greater [OF False]
  have up: "x < mr_next_id rt + 1" if "x < mr_next_id rt" for x using that inc by (rule less_trans)
  have nid: "mr_next_id ?rt' = mr_next_id rt + 1"
    using False by (simp add: register_timer_def Let_def split: res.splits)
  consider (same) "mr_timers ?rt' = mr_timers rt"
    | (new) e where "mr_timers ?rt' = mr_timers rt @ [e]" "ts_deadline (me_state e) = None"
        "ts_inv (me_state e)" "me_key e = \<lparr>mk_epoch = mr_epoch rt, mk_id = mr_next_id rt\<rparr>"
        "\<not> me_deleted e" "me_callback e \<noteq> None"
  proof (cases "mr_next_creation_order rt = - 1 \<or> p = duration_zero")
    case True
    then show ?thesis
      using False by (intro that(1)) (auto simp: register_timer_def Let_def ts_new_def)
  next
    case nz: False
    then show ?thesis
      using False
      by (intro that(2) [of "\<lparr>me_key = \<lparr>mk_epoch = mr_epoch rt, mk_id = mr_next_id rt\<rparr>,
            me_state = \<lparr>ts_mode = m, ts_period = p, ts_deadline = None\<rparr>, me_callback = Some cb,
            me_creation_order = mr_next_creation_order rt, me_deleted = False\<rparr>"])
        (auto simp: register_timer_def Let_def ts_new_def ts_inv_def)
  qed
  then show ?thesis
  proof cases
    case same
    then show ?thesis
      using inv tk up register_timer_fields [of p m cb rt]
      by (auto simp: mt_keeps_def mt_inv_def mt_taken_def expired_count_def nid)
  next
    case new
    have "me_key e \<notin> me_key ` set (mr_timers rt)"
      using inv new(4) by (fastforce simp: mt_inv_def)
    moreover have "\<not> entry_expired (mr_now rt) e"
      using new(2) by (simp add: entry_expired_def ts_expired_def)
    ultimately show ?thesis
      using inv tk up new register_timer_fields [of p m cb rt] inc
      by (auto simp: mt_keeps_def mt_inv_def mt_taken_def expired_count_def nid)
  qed
qed

lemma ts_start_inv_snd: "ts_inv s \<Longrightarrow> ts_inv (snd (ts_start s now))"
  using ts_ops_inv(1) by (metis prod.collapse)

lemma exec_cmd_keeps:
  assumes "mt_inv rt" and "mt_taken k rt"
  shows "mt_keeps k rt (exec_cmd c rt)"
proof (cases c)
  case (CmdStart key)
  show ?thesis
    unfolding CmdStart exec_cmd.simps start_timer_def
    by (rule with_entry_keeps [OF assms])
      (simp_all add: ts_start_inv_snd entry_expired_def start_not_expired)
next
  case (CmdStop key)
  show ?thesis
    unfolding CmdStop exec_cmd.simps stop_timer_def
    by (rule with_entry_keeps [OF assms])
      (simp_all add: ts_inv_def ts_stop_def entry_expired_def ts_expired_def)
next
  case (CmdReset key)
  show ?thesis
    unfolding CmdReset exec_cmd.simps reset_timer_def ts_reset_eq_start
    by (rule with_entry_keeps [OF assms])
      (simp_all add: ts_start_inv_snd entry_expired_def start_not_expired)
next
  case (CmdChangePeriod key p)
  show ?thesis
    unfolding CmdChangePeriod exec_cmd.simps mock_change_period_def
    by (rule with_entry_keeps [OF assms])
      (simp_all add: ts_inv_def ts_change_period_def entry_expired_def ts_expired_def split: if_splits)
next
  case (CmdDrop key)
  then show ?thesis using remove_timer_keeps [OF assms] by simp
next
  case (CmdCreate p m cb)
  then show ?thesis using register_timer_keeps [OF assms] by simp
qed

lemma exec_cmds_keeps:
  assumes "mt_inv rt" and "mt_taken k rt"
  shows "mt_keeps k rt (exec_cmds cs rt)"
  using assms
proof (induction cs arbitrary: rt)
  case Nil
  then show ?case by (simp add: exec_cmds_def mt_keeps_def)
next
  case (Cons c cs)
  note c = exec_cmd_keeps [OF Cons.prems, of c]
  then have "mt_keeps k (exec_cmd c rt) (exec_cmds cs (exec_cmd c rt))"
    by (intro Cons.IH) (simp_all add: mt_keeps_def)
  with c show ?case by (auto simp: exec_cmds_def intro: mt_keeps_trans)
qed

text \<open>Putting the callback back makes the registry idle again.\<close>

lemma update_first_distinct:
  assumes "distinct (map g xs)" and "\<And>x. x \<in> set xs \<Longrightarrow> P x \<longleftrightarrow> g x = k"
  shows "set (update_first P f xs) = (\<lambda>x. if g x = k then f x else x) ` set xs"
  using assms
proof (induction xs)
  case (Cons x xs)
  show ?case
  proof (cases "P x")
    case True
    then have x: "g x = k" using Cons.prems(2) by auto
    then have "g y \<noteq> k" if "y \<in> set xs" for y
      using that Cons.prems(1) by (metis distinct.simps(2) image_eqI list.set_map list.simps(9))
    with True x show ?thesis by auto
  next
    case False
    with Cons show ?thesis by auto
  qed
qed simp

lemma restore_callback_keeps:
  assumes inv: "mt_inv rt" and tk: "mt_taken key rt"
  shows "mt_inv (restore_callback key cb rt)" and "mt_idle (restore_callback key cb rt)"
    and "mr_now (restore_callback key cb rt) = mr_now rt"
    and "expired_count (restore_callback key cb rt) \<le> expired_count rt"
proof -
  define f :: "'a mock_timer_entry \<Rightarrow> 'a mock_timer_entry"
    where "f = (\<lambda>e. if me_callback e = None then e\<lparr>me_callback := Some cb\<rparr> else e)"
  let ?rt' = "with_entry key f rt"
  have eq: "restore_callback key cb rt = ?rt'" by (simp add: restore_callback_def f_def)
  have set': "set (mr_timers ?rt') = (\<lambda>e. if me_key e = key then f e else e) ` set (mr_timers rt)"
  proof -
    have "entry_matches key e \<longleftrightarrow> me_key e = key" if "e \<in> set (mr_timers rt)" for e
      using inv that by (auto simp: entry_matches_def mt_inv_def)
    then have "set (update_first (entry_matches key) f (mr_timers rt))
        = (\<lambda>e. if me_key e = key then f e else e) ` set (mr_timers rt)"
      using inv by (intro update_first_distinct) (auto simp: mt_inv_def)
    then show ?thesis by (simp add: with_entry_def)
  qed
  have fs: "me_key (f e) = me_key e" "me_state (f e) = me_state e" "me_deleted (f e) = me_deleted e"
    "me_callback (f e) \<noteq> None" for e
    by (simp_all add: f_def)
  have "map me_key (mr_timers ?rt') = map me_key (mr_timers rt)"
    using fs(1) by (simp add: with_entry_def map_update_first)
  then have "distinct (map me_key (mr_timers ?rt'))" using inv by (simp add: mt_inv_def)
  then show "mt_inv (restore_callback key cb rt)"
    using inv set' fs unfolding mt_inv_def eq by (auto simp: with_entry_def)
  show now: "mr_now (restore_callback key cb rt) = mr_now rt" by (simp add: eq with_entry_def)
  show "mt_idle (restore_callback key cb rt)"
    using tk set' fs(4) unfolding mt_idle_def mt_taken_def eq by auto
  show "expired_count (restore_callback key cb rt) \<le> expired_count rt"
    unfolding expired_count_def now unfolding eq with_entry_def
    using fs(2) by (auto intro!: filter_update_first_le simp: entry_expired_def)
qed

section \<open>The dispatch loop\<close>

lemma no_live_no_expired:
  assumes "mt_inv rt" and "mt_idle rt" and "\<forall>e \<in> set (mr_timers rt). \<not> entry_live (mr_now rt) e"
  shows "\<forall>e \<in> set (mr_timers rt). \<not> entry_expired (mr_now rt) e"
  using assms by (auto simp: mt_inv_def mt_idle_def entry_live_def)

lemma dispatch_loop_ends:
  assumes "commands_only run" and "mt_inv rt" and "mt_idle rt"
  shows "\<exists>rt'. dispatch_loop run (Some rt) = Some (Some rt') \<and> mt_inv rt' \<and> mt_idle rt'
    \<and> mr_now rt' = mr_now rt \<and> (\<forall>e \<in> set (mr_timers rt'). \<not> entry_expired (mr_now rt') e)"
  using assms(2,3)
proof (induction "expired_count rt" arbitrary: rt rule: less_induct)
  case less
  show ?case
  proof (cases "take_next_expired rt")
    case (Pair r rt1)
    show ?thesis
    proof (cases r)
      case None
      note n = take_next_expired_None [OF Pair [unfolded None]]
      have "dispatch_loop run (Some rt) = Some (Some rt)"
        using Pair None n(1) by (subst dispatch_loop.simps) simp
      then show ?thesis using less.prems no_live_no_expired n(2) by blast
    next
      case (Some kc)
      then obtain key cb where r: "r = Some (key, cb)" by (cases kc) auto
      note s = take_next_expired_step [OF less.prems Pair [unfolded r]]
      obtain cb' cmds where run: "run cb (Some rt1) = (cb', Some (exec_cmds cmds rt1))"
        using assms(1) unfolding commands_only_def by blast
      let ?rt2 = "exec_cmds cmds rt1"
      have k: "mt_inv ?rt2" "mt_taken key ?rt2" "mr_now ?rt2 = mr_now rt1"
        "expired_count ?rt2 \<le> expired_count rt1"
        using exec_cmds_keeps [OF s(1,2), of cmds] by (simp_all add: mt_keeps_def)
      let ?rt3 = "restore_callback key cb' ?rt2"
      note k3 = restore_callback_keeps [OF k(1,2), of cb']
      have eq: "dispatch_loop run (Some rt) = dispatch_loop run (Some ?rt3)"
        using Pair r run by (subst dispatch_loop.simps) simp
      have "expired_count ?rt3 < expired_count rt" using k3(4) k(4) s(4) by linarith
      from less.hyps [OF this k3(1,2)] show ?thesis
        using eq k3(3) k(3) s(3) by simp
    qed
  qed
qed

lemma update_first_nth:
  assumes "k < length xs" and "P (xs ! k)" and "\<forall>j < k. \<not> P (xs ! j)"
  shows "update_first P f xs = xs[k := f (xs ! k)]"
  using assms
proof (induction xs arbitrary: k)
  case (Cons x xs)
  show ?case
  proof (cases k)
    case 0
    then show ?thesis using Cons.prems by simp
  next
    case (Suc n)
    then have "\<not> P x" using Cons.prems(3) by auto
    moreover have "update_first P f xs = xs[n := f (xs ! n)]"
      using Cons.prems Suc by (intro Cons.IH) auto
    ultimately show ?thesis using Suc by simp
  qed
qed simp

text \<open>What one dispatch does to an entry when callbacks leave the registry alone and turn
  into \<open>nx cb\<close> by running.\<close>

definition fire_entry ::
  "('cb \<Rightarrow> 'cb) \<Rightarrow> duration \<Rightarrow> 'cb mock_timer_entry \<Rightarrow> 'cb mock_timer_entry" where
  "fire_entry nx now e =
     (if entry_expired now e
      then e\<lparr>me_state := snd (advance_on_expiry (me_state e) now),
             me_callback := map_option nx (me_callback e)\<rparr>
      else e)"

lemma fire_entry_idem: "fire_entry nx now (fire_entry nx now e) = fire_entry nx now e"
proof (cases "entry_expired now e")
  case True
  have "advance_on_expiry (me_state e) now = (True, snd (advance_on_expiry (me_state e) now))"
    using True advance_fires [of "me_state e" now] by (simp add: entry_expired_def prod_eq_iff)
  then have "\<not> ts_expired now (snd (advance_on_expiry (me_state e) now))"
    by (rule advance_not_expired)
  then show ?thesis by (simp add: fire_entry_def entry_expired_def)
qed (simp add: fire_entry_def)

lemma take_restore_fires:
  assumes inv: "mt_inv rt" and take: "take_next_expired rt = (Some (key, cb), rt1)"
  shows "\<exists>k < length (mr_timers rt). restore_callback key (nx cb) rt1
    = rt\<lparr>mr_timers := (mr_timers rt)[k := fire_entry nx (mr_now rt) (mr_timers rt ! k)]\<rparr>"
proof -
  obtain k st where k: "k < length (mr_timers rt)" "entry_live (mr_now rt) (mr_timers rt ! k)"
      "me_key (mr_timers rt ! k) = key" "me_callback (mr_timers rt ! k) = Some cb"
      "advance_on_expiry (me_state (mr_timers rt ! k)) (mr_now rt) = (True, st)"
      and rt1: "rt1 = rt\<lparr>mr_timers := (mr_timers rt)
            [k := (mr_timers rt ! k)\<lparr>me_state := st, me_callback := None\<rparr>]\<rparr>"
    using take by (rule take_next_expired_Some)
  let ?xs = "mr_timers rt" and ?e' = "(mr_timers rt ! k)\<lparr>me_state := st, me_callback := None\<rparr>"
  have nd: "\<not> me_deleted e" if "e \<in> set ?xs" for e using inv that by (simp add: mt_inv_def)
  have "me_key (?xs ! j) \<noteq> key" if "j < k" for j
    using inv that k(1,3) nth_eq_iff_index_eq [of "map me_key ?xs" j k] by (auto simp: mt_inv_def)
  then have "update_first (entry_matches key) f (?xs[k := ?e']) = (?xs[k := ?e'])[k := f ?e']" for f
    using k(1,3) nd by (subst update_first_nth [of k]) (auto simp: entry_matches_def)
  then have "restore_callback key (nx cb) rt1
      = rt\<lparr>mr_timers := ?xs[k := fire_entry nx (mr_now rt) (?xs ! k)]\<rparr>"
    using k by (simp add: restore_callback_def with_entry_def rt1 fire_entry_def entry_live_def)
  with k(1) show ?thesis by blast
qed

section \<open>Properties\<close>

text \<open>C37. The virtual clock's dispatch ends and leaves nothing expired: from a registry in
  order, advancing the clock runs the dispatch loop to its end whatever timer operations
  the callbacks perform on any timer (start, stop, reset, change of period, drop, creation);
  afterwards the clock has moved by the requested amount (saturating), every entry has its
  callback back, and no registered timer has a deadline that is not in the future.\<close>

theorem mock_dispatch_terminates:
  assumes "commands_only run" and "mt_inv rt" and "mt_idle rt"
  shows "\<exists>rt'. advance_and_dispatch run d (Some rt) = Some (Some rt')
    \<and> mr_now rt' = dur_saturating_add (mr_now rt) d \<and> mt_inv rt' \<and> mt_idle rt'
    \<and> (\<forall>e \<in> set (mr_timers rt'). \<not> ts_expired (mr_now rt') (me_state e))"
proof -
  have "mt_inv (advance_time d rt)" "mt_idle (advance_time d rt)"
    using assms(2,3) by (simp_all add: mt_inv_def mt_idle_def advance_time_def)
  from dispatch_loop_ends [OF assms(1) this] show ?thesis
    by (auto simp: advance_and_dispatch_def with_runtime_def global_runtime_def advance_time_def
      entry_expired_def)
qed

text \<open>A registry with a periodic timer due at 10 and a one-shot timer due at 5; callbacks
  count their runs.\<close>

definition demo_registry :: "nat \<Rightarrow> nat mock_time_runtime" where
  "demo_registry n = \<lparr>mr_now = of_nanos n, mr_epoch = 1, mr_next_id = 3, mr_next_creation_order = 2,
     mr_timers =
       [\<lparr>me_key = \<lparr>mk_epoch = 1, mk_id = 1\<rparr>,
         me_state = \<lparr>ts_mode = Periodic, ts_period = of_nanos 10, ts_deadline = Some (of_nanos 10)\<rparr>,
         me_callback = Some 0, me_creation_order = 0, me_deleted = False\<rparr>,
        \<lparr>me_key = \<lparr>mk_epoch = 1, mk_id = 2\<rparr>,
         me_state = \<lparr>ts_mode = OneShot, ts_period = of_nanos 5, ts_deadline = Some (of_nanos 5)\<rparr>,
         me_callback = Some 0, me_creation_order = 1, me_deleted = False\<rparr>]\<rparr>"

lemma demo_registry_inv: "mt_inv (demo_registry n)" "mt_idle (demo_registry n)"
  by (simp_all add: demo_registry_def mt_inv_def mt_idle_def ts_inv_def duration_eq_iff
    duration_limit_eq)

theorem mock_dispatch_terminates_witness:
  "\<exists>rt'. advance_and_dispatch
       (\<lambda>cb g. (Suc cb, map_option (exec_cmds [CmdStop \<lparr>mk_epoch = 1, mk_id = 1\<rparr>]) g))
       (of_nanos 12) (Some (demo_registry 0)) = Some (Some rt')
    \<and> mr_now rt' = of_nanos 12"
proof -
  have c: "commands_only (\<lambda>cb g. (Suc cb,
      map_option (exec_cmds [CmdStop \<lparr>mk_epoch = 1, mk_id = 1\<rparr>]) g))"
    unfolding commands_only_def by auto
  have "dur_saturating_add (mr_now (demo_registry 0)) (of_nanos 12) = of_nanos 12"
    by (simp add: demo_registry_def dur_saturating_add_def dur_checked_add_def duration_limit_eq)
  then show ?thesis
    using mock_dispatch_terminates [OF c demo_registry_inv [of 0], of "of_nanos 12"] by auto
qed

text \<open>Every expired timer fires exactly once per dispatch: when callbacks leave the
  registry alone and running a callback \<open>cb\<close> turns it into \<open>nx cb\<close>, the loop returns the
  registry in which each entry that was expired has its state advanced once and its callback
  run once, and every other entry is untouched.\<close>

theorem mock_dispatch_fires_once:
  assumes "\<And>cb g. run cb g = (nx cb, g)" and "mt_inv rt" and "mt_idle rt"
  shows "dispatch_loop run (Some rt)
    = Some (Some (rt\<lparr>mr_timers := map (fire_entry nx (mr_now rt)) (mr_timers rt)\<rparr>))"
  using assms(2,3)
proof (induction "expired_count rt" arbitrary: rt rule: less_induct)
  case less
  obtain r rt1 where take: "take_next_expired rt = (r, rt1)" by (cases "take_next_expired rt")
  show ?case
  proof (cases r)
    case None
    note n = take_next_expired_None [OF take [unfolded None]]
    have "\<forall>e \<in> set (mr_timers rt). \<not> entry_expired (mr_now rt) e"
      using less.prems n(2) by (rule no_live_no_expired)
    then have "map (fire_entry nx (mr_now rt)) (mr_timers rt) = mr_timers rt"
      by (simp add: fire_entry_def map_idI)
    then show ?thesis using take None n(1) by (subst dispatch_loop.simps) simp
  next
    case (Some kc)
    then obtain key cb where r: "r = Some (key, cb)" by (cases kc) auto
    note s = take_next_expired_step [OF less.prems take [unfolded r]]
    note k3 = restore_callback_keeps [OF s(1,2), of "nx cb"]
    let ?rt3 = "restore_callback key (nx cb) rt1" and ?f = "fire_entry nx (mr_now rt)"
    have eq: "dispatch_loop run (Some rt) = dispatch_loop run (Some ?rt3)"
      using take r assms(1) by (subst dispatch_loop.simps) simp
    obtain k where k: "k < length (mr_timers rt)"
      and rt3: "?rt3 = rt\<lparr>mr_timers := (mr_timers rt)[k := ?f (mr_timers rt ! k)]\<rparr>"
      using take_restore_fires [OF less.prems(1) take [unfolded r]] by blast
    have "map ?f (mr_timers ?rt3) = (map ?f (mr_timers rt))[k := ?f (mr_timers rt ! k)]"
      using k by (simp add: rt3 map_update fire_entry_idem)
    also have "\<dots> = map ?f (mr_timers rt)"
      using k by (metis list_update_id nth_map)
    finally have fire: "map ?f (mr_timers ?rt3) = map ?f (mr_timers rt)" .
    have "expired_count ?rt3 < expired_count rt" using k3(4) s(4) by linarith
    from less.hyps [OF this k3(1,2)] show ?thesis
      using eq fire by (simp add: rt3)
  qed
qed

theorem mock_dispatch_fires_once_witness:
  "dispatch_loop (\<lambda>cb g. (Suc cb, g)) (Some (demo_registry 7))
    = Some (Some ((demo_registry 7)\<lparr>mr_timers :=
        map (fire_entry Suc (mr_now (demo_registry 7))) (mr_timers (demo_registry 7))\<rparr>))"
  by (rule mock_dispatch_fires_once) (simp_all add: demo_registry_inv)

text \<open>Dispatch order: the callback taken next belongs to an expired timer, and no other
  expired timer with its callback in place has an earlier deadline, or the same deadline and
  an earlier creation; when nothing is taken, no such timer exists.\<close>

theorem mock_take_earliest:
  assumes "take_next_expired rt = (r, rt')"
  shows "case r of
      None \<Rightarrow> rt' = rt \<and> (\<forall>e \<in> set (mr_timers rt). \<not> entry_live (mr_now rt) e)
    | Some (key, cb) \<Rightarrow> \<exists>e \<in> set (mr_timers rt).
        me_key e = key \<and> me_callback e = Some cb \<and> entry_live (mr_now rt) e
        \<and> (\<forall>e' \<in> set (mr_timers rt). entry_live (mr_now rt) e' \<longrightarrow>
              entry_deadline e < entry_deadline e'
              \<or> entry_deadline e = entry_deadline e' \<and> me_creation_order e \<le> me_creation_order e')"
proof (cases r)
  case None
  then show ?thesis using take_next_expired_None [OF assms [unfolded None]] by simp
next
  case (Some kc)
  then obtain key cb where r: "r = Some (key, cb)" by (cases kc) auto
  obtain k st where "k < length (mr_timers rt)" "entry_live (mr_now rt) (mr_timers rt ! k)"
      "me_key (mr_timers rt ! k) = key" "me_callback (mr_timers rt ! k) = Some cb"
      "\<forall>e \<in> set (mr_timers rt). entry_live (mr_now rt) e
            \<longrightarrow> not_later (entry_rank (mr_timers rt ! k)) (entry_rank e)"
    using assms [unfolded r] by (rule take_next_expired_Some)
  then show ?thesis
    unfolding r by (auto simp: not_later_def entry_rank_def intro!: bexI [of _ "mr_timers rt ! k"])
qed

lemma demo_take: "fst (take_next_expired (demo_registry 12)) = Some (\<lparr>mk_epoch = 1, mk_id = 2\<rparr>, 0)"
  by (simp add: take_next_expired_def demo_registry_def duration_order duration_limit_eq
    advance_on_expiry_def)

theorem mock_take_earliest_witness:
  "\<exists>e \<in> set (mr_timers (demo_registry 12)). me_key e = \<lparr>mk_epoch = 1, mk_id = 2\<rparr>
     \<and> (\<forall>e' \<in> set (mr_timers (demo_registry 12)). entry_live (mr_now (demo_registry 12)) e' \<longrightarrow>
           entry_deadline e < entry_deadline e'
           \<or> entry_deadline e = entry_deadline e' \<and> me_creation_order e \<le> me_creation_order e')"
proof -
  have t: "take_next_expired (demo_registry 12)
      = (Some (\<lparr>mk_epoch = 1, mk_id = 2\<rparr>, 0), snd (take_next_expired (demo_registry 12)))"
    using demo_take by (simp add: prod_eq_iff)
  show ?thesis using mock_take_earliest [OF t] by auto
qed

section \<open>Epoch isolation\<close>

lemma exec_cmd_epoch: "mr_epoch (exec_cmd c rt) = mr_epoch rt"
  by (cases c) (auto simp: start_timer_def stop_timer_def reset_timer_def mock_change_period_def
    with_entry_def remove_timer_def register_timer_fields split: option.splits)

lemma exec_cmds_epoch: "mr_epoch (exec_cmds cs rt) = mr_epoch rt"
  by (induction cs arbitrary: rt) (simp_all add: exec_cmds_def exec_cmd_epoch)

text \<open>Epoch isolation: a key handed out before a reset of the runtime reaches no timer
  afterwards. Whatever timers were registered and operated since, starting, stopping,
  resetting, changing the period of, deregistering or restoring the callback of such a key
  leaves the registry exactly as it is.\<close>

theorem mock_epoch_isolation:
  assumes "mk_epoch key = mr_epoch rt"
    and "rt' = exec_cmds cmds (snd (reset_and_detach rt))"
  shows "start_timer key rt' = rt' \<and> stop_timer key rt' = rt' \<and> reset_timer key rt' = rt'
    \<and> mock_change_period key p rt' = rt' \<and> remove_timer key rt' = (None, rt')
    \<and> restore_callback key cb rt' = rt'"
proof -
  let ?r0 = "snd (reset_and_detach rt)"
  have "mt_inv ?r0" "mt_taken key ?r0"
    by (simp_all add: reset_and_detach_def mt_inv_def mt_taken_def)
  then have inv: "mt_inv rt'"
    using exec_cmds_keeps [of ?r0 key cmds] assms(2) by (simp add: mt_keeps_def)
  have "mr_epoch rt' = mr_epoch rt + 1"
    using assms(2) by (simp add: exec_cmds_epoch reset_and_detach_def)
  then have ne: "mk_epoch key \<noteq> mr_epoch rt'" using assms(1) by simp
  have none: "\<not> entry_matches key e" if "e \<in> set (mr_timers rt')" for e
    using inv that ne by (auto simp: mt_inv_def entry_matches_def)
  have w: "with_entry key f rt' = rt'" for f
    using none by (simp add: with_entry_def update_first_none)
  show ?thesis
    using none position_None [of "mr_timers rt'" "entry_matches key"]
    by (simp add: w start_timer_def stop_timer_def reset_timer_def mock_change_period_def
      remove_timer_def restore_callback_def)
qed

theorem mock_epoch_isolation_witness:
  "stop_timer \<lparr>mk_epoch = 1, mk_id = 1\<rparr>
     (exec_cmds [CmdCreate (of_nanos 3) OneShot 0] (snd (reset_and_detach (demo_registry 0))))
   = exec_cmds [CmdCreate (of_nanos 3) OneShot 0] (snd (reset_and_detach (demo_registry 0)))"
  using mock_epoch_isolation [of "\<lparr>mk_epoch = 1, mk_id = 1\<rparr>" "demo_registry 0"
      "exec_cmds [CmdCreate (of_nanos 3) OneShot 0] (snd (reset_and_detach (demo_registry 0)))"
      "[CmdCreate (of_nanos 3) OneShot 0]"]
  by (simp add: demo_registry_def)

end
