(* ===== verification/Object_Interface.thy ===== *)
theory Object_Interface
  imports Osal_Types
begin

text \<open>
  The lifetime contract between a backend's runtime and its objects (ADR 0019): every
  successful constructor takes one lease and every failed one none, the drop of an object
  gives its lease back, and the runtime refuses to shut down while a lease is alive. The contract
  has two forms: \<open>owned_objects\<close> keeps an invariant between the runtime and the list of objects
  held, \<open>leased_objects\<close> only counts them, and the second gives the first. Each backend interprets
  one of them with its constructors. Above the objects are the handles: \<open>run_handles\<close> clones and drops them and ends tasks, and
  destroys an object with its last owner.
\<close>

section \<open>Creations and destructions\<close>

datatype 'c object_op = Create 'c | Destroy nat

text \<open>A client creates objects and drops the ones it holds; a panic aborts the process.\<close>

fun run_objects ::
  "('c \<Rightarrow> 'w \<Rightarrow> 'o res \<times> 'w) \<Rightarrow> ('o \<Rightarrow> 'w \<Rightarrow> unit res \<times> 'w)
    \<Rightarrow> 'w \<Rightarrow> 'o list \<Rightarrow> 'c object_op list \<Rightarrow> ('w \<times> 'o list) option" where
  "run_objects mk del w held [] = Some (w, held)"
| "run_objects mk del w held (Create c # ops) =
     (case mk c w of
        (Ok x, w') \<Rightarrow> run_objects mk del w' (held @ [x]) ops
      | (Err _, w') \<Rightarrow> run_objects mk del w' held ops
      | (Panic _, _) \<Rightarrow> None)"
| "run_objects mk del w held (Destroy i # ops) =
     (if i < length held then
        (case del (held ! i) w of
           (Ok _, w') \<Rightarrow> run_objects mk del w' (take i held @ drop (Suc i) held) ops
         | _ \<Rightarrow> None)
      else run_objects mk del w held ops)"

section \<open>Handles and tasks\<close>

text \<open>An object is shared: every clone of its handle owns it, and the object of a task is also owned by the
  running task, through the \<open>Arc\<close>s of its start payload, until the task has ended. The object is destroyed with
  its last owner. An entry is the object, the number of its handles, and whether its task still runs.
  Operations on an entry that is not there are skipped.\<close>

datatype 'c handle_op = New 'c | CloneHandle nat | DropHandle nat | EndTask nat

definition drop_owner ::
  "('o \<Rightarrow> 'w \<Rightarrow> unit res \<times> 'w) \<Rightarrow> nat \<Rightarrow> 'o \<times> nat \<times> bool \<Rightarrow> 'w \<Rightarrow> ('o \<times> nat \<times> bool) list
    \<Rightarrow> ('w \<times> ('o \<times> nat \<times> bool) list) option" where
  "drop_owner del i e w alive =
     (case e of (x, handles, running) \<Rightarrow>
        if handles = 0 \<and> \<not> running
        then (case del x w of (Ok _, w') \<Rightarrow> Some (w', take i alive @ drop (Suc i) alive) | _ \<Rightarrow> None)
        else Some (w, alive[i := e]))"

fun run_handles ::
  "('c \<Rightarrow> 'w \<Rightarrow> 'o res \<times> 'w) \<Rightarrow> ('o \<Rightarrow> 'w \<Rightarrow> unit res \<times> 'w) \<Rightarrow> ('o \<Rightarrow> bool)
    \<Rightarrow> 'w \<Rightarrow> ('o \<times> nat \<times> bool) list \<Rightarrow> 'c handle_op list \<Rightarrow> ('w \<times> ('o \<times> nat \<times> bool) list) option" where
  "run_handles mk del spawns w alive [] = Some (w, alive)"
| "run_handles mk del spawns w alive (New c # ops) =
     (case mk c w of
        (Ok x, w') \<Rightarrow> run_handles mk del spawns w' (alive @ [(x, 1, spawns x)]) ops
      | (Err _, w') \<Rightarrow> run_handles mk del spawns w' alive ops
      | (Panic _, _) \<Rightarrow> None)"
| "run_handles mk del spawns w alive (CloneHandle i # ops) =
     (if i < length alive \<and> 0 < fst (snd (alive ! i)) then
        (case alive ! i of (x, n, b) \<Rightarrow> run_handles mk del spawns w (alive[i := (x, Suc n, b)]) ops)
      else run_handles mk del spawns w alive ops)"
| "run_handles mk del spawns w alive (DropHandle i # ops) =
     (if i < length alive \<and> 0 < fst (snd (alive ! i)) then
        (case alive ! i of (x, n, b) \<Rightarrow>
           (case drop_owner del i (x, n - 1, b) w alive of
              Some (w', alive') \<Rightarrow> run_handles mk del spawns w' alive' ops | None \<Rightarrow> None))
      else run_handles mk del spawns w alive ops)"
| "run_handles mk del spawns w alive (EndTask i # ops) =
     (if i < length alive \<and> snd (snd (alive ! i)) then
        (case alive ! i of (x, n, b) \<Rightarrow>
           (case drop_owner del i (x, n, False) w alive of
              Some (w', alive') \<Rightarrow> run_handles mk del spawns w' alive' ops | None \<Rightarrow> None))
      else run_handles mk del spawns w alive ops)"

definition has_owner :: "'o \<times> nat \<times> bool \<Rightarrow> bool" where
  "has_owner e \<longleftrightarrow> 0 < fst (snd e) \<or> snd (snd e)"

lemma map_fst_update: "i < length xs \<Longrightarrow> map fst (xs[i := (fst (xs ! i), y)]) = map fst xs"
  by (simp add: map_update list_update_same_conv)

lemma list_all_without: "list_all P xs \<Longrightarrow> list_all P (take i xs @ drop (Suc i) xs)"
  by (auto simp: list_all_iff dest: in_set_takeD in_set_dropD)

text \<open>On the objects, the drop of an owner is nothing or a destruction.\<close>

lemma drop_owner_objects:
  assumes "drop_owner del i e w alive = Some (w', alive')" and "i < length alive" and "fst e = fst (alive ! i)"
    and "list_all has_owner alive"
  shows "list_all has_owner alive' \<and> (\<exists>ops. length ops \<le> 1 \<and> run_objects mk del w (map fst alive) ops = Some (w', map fst alive'))"
proof -
  obtain x n b where e: "e = (x, n, b)" by (cases e)
  show ?thesis
  proof (cases "n = 0 \<and> \<not> b")
    case True
    with assms e have "alive' = take i alive @ drop (Suc i) alive" "del x w = (Ok (), w')"
      by (auto simp: drop_owner_def split: prod.splits res.splits)
    then have "run_objects mk del w (map fst alive) [Destroy i] = Some (w', map fst alive')"
      using assms(2,3) e by (simp add: take_map drop_map)
    then show ?thesis using assms(4) \<open>alive' = _\<close> list_all_without by (intro conjI exI [of _ "[Destroy i]"]) auto
  next
    case False
    with assms(1) e have "w' = w" "alive' = alive[i := e]" by (auto simp: drop_owner_def split: if_splits)
    moreover have "map fst (alive[i := e]) = map fst alive"
      using map_fst_update [OF assms(2), of "snd e"] assms(3) by (cases e) simp
    moreover have "list_all has_owner (alive[i := e])"
      using assms(4) False e by (auto simp: list_all_iff has_owner_def dest!: set_update_subset_insert [THEN subsetD])
    ultimately show ?thesis by (intro conjI exI [of _ "[]"]) auto
  qed
qed

lemma run_objects_append:
  "run_objects mk del w held ops = Some (w1, held1) \<Longrightarrow>
     run_objects mk del w held (ops @ ops') = run_objects mk del w1 held1 ops'"
proof (induction ops arbitrary: w held)
  case (Cons op ops)
  then show ?case by (cases op) (auto split: prod.splits res.splits if_splits)
qed simp

text \<open>So the objects alive are those of a sequence of creations and destructions, and each has an owner.\<close>

lemma run_handles_objects:
  assumes "run_handles mk del spawns w alive ops = Some (w', alive')" and "list_all has_owner alive"
  shows "list_all has_owner alive' \<and> (\<exists>ops'. length ops' \<le> length ops
    \<and> run_objects mk del w (map fst alive) ops' = Some (w', map fst alive'))"
  using assms
proof (induction ops arbitrary: w alive)
  case (Cons op ops)
  have after: ?case
    if run: "run_objects mk del w (map fst alive) first = Some (w1, map fst alive1)" and len: "length first \<le> 1"
      and rest: "run_handles mk del spawns w1 alive1 ops = Some (w', alive')" and own: "list_all has_owner alive1"
    for first w1 alive1
  proof -
    obtain ops' where "length ops' \<le> length ops" "run_objects mk del w1 (map fst alive1) ops' = Some (w', map fst alive')"
      "list_all has_owner alive'" using Cons.IH [OF rest own] by blast
    then show ?thesis using len run_objects_append [OF run, of ops'] by (intro conjI exI [of _ "first @ ops'"]) auto
  qed
  have dropped: ?case
    if i: "i < length alive" and d: "drop_owner del i (fst (alive ! i), y) w alive = Some (w1, alive1)"
      and rest: "run_handles mk del spawns w1 alive1 ops = Some (w', alive')" for i y w1 alive1
    using drop_owner_objects [OF d i _ Cons.prems(2), of mk] after rest by auto
  have skip: ?case if "run_handles mk del spawns w alive ops = Some (w', alive')"
    by (rule after [of "[]", OF _ _ that Cons.prems(2)]) auto
  show ?case
  proof (cases op)
    case (New c)
    obtain r w1 where r: "mk c w = (r, w1)" by (cases "mk c w")
    have "has_owner (x, 1, b)" for x :: 'b and b by (simp add: has_owner_def)
    then have own: "list_all has_owner (alive @ [(x, 1, b)])" for x b using Cons.prems(2) by simp
    show ?thesis
    proof (cases r)
      case (Ok x)
      show ?thesis by (rule after [of "[Create c]", OF _ _ _ own]) (use Ok r New Cons.prems(1) in auto)
    next
      case (Err e)
      show ?thesis by (rule after [of "[Create c]", OF _ _ _ Cons.prems(2)]) (use Err r New Cons.prems(1) in auto)
    qed (use r New Cons.prems(1) in simp)
  next
    case (CloneHandle i)
    show ?thesis
    proof (cases "i < length alive \<and> 0 < fst (snd (alive ! i))")
      case True
      let ?e = "(fst (alive ! i), Suc (fst (snd (alive ! i))), snd (snd (alive ! i)))"
      have "list_all has_owner (alive[i := ?e])"
        using Cons.prems(2) by (auto simp: list_all_iff has_owner_def dest!: set_update_subset_insert [THEN subsetD])
      then show ?thesis
        using Cons.prems CloneHandle True map_fst_update [of i alive] by (intro after [of "[]"]) (auto split: prod.splits)
    qed (use Cons.prems(1) CloneHandle in \<open>auto intro!: skip [simplified]\<close>)
  next
    case (DropHandle i)
    show ?thesis
    proof (cases "i < length alive \<and> 0 < fst (snd (alive ! i))")
      case True
      then obtain w1 alive1 where d: "drop_owner del i (fst (alive ! i), fst (snd (alive ! i)) - 1, snd (snd (alive ! i))) w alive = Some (w1, alive1)"
        "run_handles mk del spawns w1 alive1 ops = Some (w', alive')"
        using Cons.prems DropHandle by (auto split: prod.splits option.splits)
      show ?thesis using dropped [OF _ d] True by simp
    qed (use Cons.prems(1) DropHandle in \<open>auto intro!: skip [simplified]\<close>)
  next
    case (EndTask i)
    show ?thesis
    proof (cases "i < length alive \<and> snd (snd (alive ! i))")
      case True
      then obtain w1 alive1 where d: "drop_owner del i (fst (alive ! i), fst (snd (alive ! i)), False) w alive = Some (w1, alive1)"
        "run_handles mk del spawns w1 alive1 ops = Some (w', alive')"
        using Cons.prems EndTask by (auto split: prod.splits option.splits)
      show ?thesis using dropped [OF _ d] True by simp
    qed (use Cons.prems(1) EndTask in \<open>auto intro!: skip [simplified]\<close>)
  qed
qed (auto intro: exI [of _ "[]"])

locale owned_objects =
  fixes mk :: "'c \<Rightarrow> 'w \<Rightarrow> 'o res \<times> 'w"
    and del :: "'o \<Rightarrow> 'w \<Rightarrow> unit res \<times> 'w"
    and shutdown :: "'w \<Rightarrow> unit res \<times> 'w"
    and owns :: "'w \<Rightarrow> 'o list \<Rightarrow> bool"
  assumes owns_ok: "owns w held \<Longrightarrow> mk c w = (Ok x, w') \<Longrightarrow> owns w' (held @ [x])"
    and owns_err: "owns w held \<Longrightarrow> mk c w = (Err e, w') \<Longrightarrow> owns w' held"
    and owns_del: "owns w held \<Longrightarrow> i < length held \<Longrightarrow>
          \<exists>w'. del (held ! i) w = (Ok (), w') \<and> owns w' (take i held @ drop (Suc i) held)"
    and owns_shutdown: "owns w held \<Longrightarrow> fst (shutdown w) = (if held = [] then Ok () else Err Busy)"
begin

lemma run_owns:
  assumes "owns w held" and "run_objects mk del w held ops = Some (w', held')"
  shows "owns w' held'"
  using assms
proof (induction ops arbitrary: w held)
  case (Cons op ops)
  show ?case
  proof (cases op)
    case (Create c)
    obtain r w1 where r: "mk c w = (r, w1)" by (cases "mk c w")
    show ?thesis
    proof (cases r)
      case (Ok x)
      then show ?thesis
        using Cons.IH [OF owns_ok [OF Cons.prems(1) r [unfolded Ok]]] Cons.prems(2) Create r by simp
    next
      case (Err e)
      then show ?thesis
        using Cons.IH [OF owns_err [OF Cons.prems(1) r [unfolded Err]]] Cons.prems(2) Create r by simp
    qed (use Cons.prems(2) Create r in simp)
  next
    case (Destroy i)
    show ?thesis
    proof (cases "i < length held")
      case True
      then obtain w1 where "del (held ! i) w = (Ok (), w1)" "owns w1 (take i held @ drop (Suc i) held)"
        using owns_del [OF Cons.prems(1)] by blast
      then show ?thesis using Cons.IH Cons.prems(2) Destroy True by simp
    qed (use Cons Destroy in simp)
  qed
qed simp

lemma run_shutdown:
  assumes "owns w held" and "run_objects mk del w held ops = Some (w', held')"
  shows "fst (shutdown w') = (if held' = [] then Ok () else Err Busy)"
  by (rule owns_shutdown [OF run_owns [OF assms]])

end

locale leased_objects =
  fixes mk :: "'c \<Rightarrow> 'w \<Rightarrow> 'o res \<times> 'w"
    and del :: "'o \<Rightarrow> 'w \<Rightarrow> unit res \<times> 'w"
    and shutdown :: "'w \<Rightarrow> unit res \<times> 'w"
    and active :: "'w \<Rightarrow> nat"
    and running :: "'w \<Rightarrow> bool"
    and invar :: "'w \<Rightarrow> bool"
  assumes mk_ok: "invar w \<Longrightarrow> mk c w = (Ok x, w') \<Longrightarrow>
          invar w' \<and> running w \<and> running w' \<and> active w' = Suc (active w)"
    and mk_err: "invar w \<Longrightarrow> mk c w = (Err e, w') \<Longrightarrow>
          invar w' \<and> running w' = running w \<and> active w' = active w"
    and del_ok: "invar w \<Longrightarrow> 0 < active w \<Longrightarrow>
          \<exists>w'. del x w = (Ok (), w') \<and> invar w' \<and> running w' \<and> Suc (active w') = active w"
    and active_running: "invar w \<Longrightarrow> 0 < active w \<Longrightarrow> running w"
    and shutdown_busy: "invar w \<Longrightarrow> 0 < active w \<Longrightarrow> shutdown w = (Err Busy, w)"
    and shutdown_ok: "invar w \<Longrightarrow> active w = 0 \<Longrightarrow> running w \<Longrightarrow>
          \<exists>w'. shutdown w = (Ok (), w') \<and> invar w' \<and> \<not> running w' \<and> active w' = 0"
    and mk_not_running: "invar w \<Longrightarrow> \<not> running w \<Longrightarrow> mk c w = (r, w') \<Longrightarrow> \<not> is_ok r"
begin

lemma drop_all:
  assumes "invar w" and "active w = length held" and "running w"
  shows "\<exists>w'. run_objects mk del w held (replicate (length held) (Destroy 0)) = Some (w', [])
    \<and> fst (shutdown w') = Ok ()"
  using assms
proof (induction held arbitrary: w)
  case Nil
  then show ?case using shutdown_ok [OF Nil(1)] by auto
next
  case (Cons x held)
  then obtain w1 where w1: "del x w = (Ok (), w1)" "invar w1" "running w1" "Suc (active w1) = active w"
    using del_ok [OF Cons.prems(1), of x] by auto
  then show ?case using Cons.IH [of w1] Cons.prems(2) by simp
qed

end

text \<open>Counting is a way of owning.\<close>

sublocale leased_objects \<subseteq> owned_objects mk del shutdown
  "\<lambda>w held. invar w \<and> active w = length held \<and> running w"
proof unfold_locales
  fix w w' :: 'w and held :: "'o list" and c x
  assume a: "invar w \<and> active w = length held \<and> running w" "mk c w = (Ok x, w')"
  show "invar w' \<and> active w' = length (held @ [x]) \<and> running w'"
    using mk_ok [OF _ a(2)] a(1) by simp
next
  fix w w' :: 'w and held :: "'o list" and c e
  assume a: "invar w \<and> active w = length held \<and> running w" "mk c w = (Err e, w')"
  show "invar w' \<and> active w' = length held \<and> running w'"
    using mk_err [OF _ a(2)] a(1) by simp
next
  fix w :: 'w and held :: "'o list" and i
  assume a: "invar w \<and> active w = length held \<and> running w" "i < length held"
  then have "0 < active w" by linarith
  with a obtain w' where "del (held ! i) w = (Ok (), w')" "invar w'" "running w'" "Suc (active w') = active w"
    using del_ok [of w "held ! i"] by blast
  then show "\<exists>w'. del (held ! i) w = (Ok (), w') \<and> invar w'
      \<and> active w' = length (take i held @ drop (Suc i) held) \<and> running w'"
    using a by auto
next
  fix w :: 'w and held :: "'o list"
  assume a: "invar w \<and> active w = length held \<and> running w"
  show "fst (shutdown w) = (if held = [] then Ok () else Err Busy)"
  proof (cases held)
    case Nil
    with a shutdown_ok [of w] show ?thesis by auto
  next
    case (Cons x xs)
    with a shutdown_busy [of w] show ?thesis by simp
  qed
qed

context leased_objects
begin

text \<open>The number of active objects is the number the client holds; shutdown is refused exactly while
  an object is held.\<close>

lemma run_objects_active:
  assumes "invar w" and "active w = length held" and "running w"
    and "run_objects mk del w held ops = Some (w', held')"
  shows "invar w' \<and> active w' = length held' \<and> running w'"
  using run_owns [OF _ assms(4)] assms(1-3) by blast

lemma shutdown_iff_released:
  assumes "invar w" and "active w = length held" and "running w"
    and "run_objects mk del w held ops = Some (w', held')"
  shows "fst (shutdown w') = (if held' = [] then Ok () else Err Busy)"
  using run_shutdown [OF _ assms(4)] assms(1-3) by blast

end

end
