(* ===== verification/Mock_Backend.thy ===== *)
theory Mock_Backend
  imports Mock_Time Object_Interface Byte_Queue Counting_Semaphore Shared_Validation Runtime_Lifecycle
begin

text \<open>
  src/crates/osal-backend-mock/src: the deterministic backend. The process-wide state (the
  lifecycle word, the timer registry, the task counters, the critical-section depth) is one
  record; queues, semaphores, mutexes and tasks are values whose constructors take a lease
  from that state. \<open>Rc\<close> and \<open>Arc\<close> handles share the value, and the drop of the last handle
  is the object's drop.
\<close>

section \<open>State\<close>

record 'cb mock_world =
  mw_lifecycle :: usize
  mw_time :: "'cb mock_time_runtime option"
  mw_next_handle :: usize
  mw_live_count :: usize
  mw_current :: "task_handle option"
  mw_critical_depth :: usize

definition mock_world_initial :: "'cb mock_world" where
  "mock_world_initial = \<lparr>mw_lifecycle = lifecycle_new, mw_time = None, mw_next_handle = 1,
     mw_live_count = 0, mw_current = None, mw_critical_depth = 0\<rparr>"

section \<open>Runtime (runtime.rs)\<close>

definition on_lifecycle ::
  "(usize \<Rightarrow> unit res \<times> usize) \<Rightarrow> ('cb, 'z) mock_world_scheme \<Rightarrow> unit res \<times> ('cb, 'z) mock_world_scheme" where
  "on_lifecycle f w = (let (r, x) = f (mw_lifecycle w) in (r, w\<lparr>mw_lifecycle := x\<rparr>))"

definition mock_initialize :: "('cb, 'z) mock_world_scheme \<Rightarrow> unit res \<times> ('cb, 'z) mock_world_scheme" where
  "mock_initialize w =
     st_bind (on_lifecycle begin_initialize w) (\<lambda>_ w1.
       on_lifecycle initialize_commit (w1\<lparr>mw_time := reset_runtime (mw_time w1)\<rparr>))"

definition mock_shutdown :: "('cb, 'z) mock_world_scheme \<Rightarrow> unit res \<times> ('cb, 'z) mock_world_scheme" where
  "mock_shutdown w =
     st_bind (on_lifecycle begin_shutdown w) (\<lambda>_ w1.
       on_lifecycle shutdown_commit (w1\<lparr>mw_time := reset_runtime (mw_time w1)\<rparr>))"

definition mock_state :: "('cb, 'z) mock_world_scheme \<Rightarrow> runtime_state" where
  "mock_state w = decode_state (mw_lifecycle w)"

definition mock_acquire_object :: "('cb, 'z) mock_world_scheme \<Rightarrow> unit res \<times> ('cb, 'z) mock_world_scheme" where
  "mock_acquire_object = on_lifecycle acquire"

definition mock_active_objects :: "('cb, 'z) mock_world_scheme \<Rightarrow> usize" where
  "mock_active_objects w = decode_count (mw_lifecycle w)"

text \<open>The drop of a lease that an object held.\<close>

definition mock_lease_drop :: "('cb, 'z) mock_world_scheme \<Rightarrow> unit res \<times> ('cb, 'z) mock_world_scheme" where
  "mock_lease_drop = on_lifecycle lease_drop"

section \<open>Timers (timer.rs)\<close>

record mock_timer =
  mtm_key :: mock_timer_key

definition mock_timer_new ::
  "duration \<Rightarrow> timer_mode \<Rightarrow> 'cb \<Rightarrow> 'cb mock_world \<Rightarrow> mock_timer res \<times> 'cb mock_world" where
  "mock_timer_new period mode callback w =
     (if period = duration_zero then (Err InvalidParameter, w)
      else st_bind (mock_acquire_object w) (\<lambda>_ w1.
        let (r, g) = with_runtime (register_timer period mode callback) (mw_time w1)
        in st_bind (r, w1\<lparr>mw_time := g\<rparr>) (\<lambda>key w2. (Ok \<lparr>mtm_key = key\<rparr>, w2))))"

definition on_timer ::
  "('cb mock_time_runtime \<Rightarrow> 'cb mock_time_runtime) \<Rightarrow> 'cb mock_world \<Rightarrow> unit res \<times> 'cb mock_world" where
  "on_timer f w = (Ok (), w\<lparr>mw_time := snd (with_runtime (\<lambda>rt. ((), f rt)) (mw_time w))\<rparr>)"

definition mock_timer_start :: "mock_timer \<Rightarrow> 'cb mock_world \<Rightarrow> unit res \<times> 'cb mock_world" where
  "mock_timer_start t w = on_timer (start_timer (mtm_key t)) w"

definition mock_timer_stop :: "mock_timer \<Rightarrow> 'cb mock_world \<Rightarrow> unit res \<times> 'cb mock_world" where
  "mock_timer_stop t w = on_timer (stop_timer (mtm_key t)) w"

definition mock_timer_reset :: "mock_timer \<Rightarrow> 'cb mock_world \<Rightarrow> unit res \<times> 'cb mock_world" where
  "mock_timer_reset t w = on_timer (reset_timer (mtm_key t)) w"

definition mock_timer_change_period ::
  "mock_timer \<Rightarrow> duration \<Rightarrow> 'cb mock_world \<Rightarrow> unit res \<times> 'cb mock_world" where
  "mock_timer_change_period t new_period w =
     (if new_period = duration_zero then (Err InvalidParameter, w)
      else on_timer (mock_change_period (mtm_key t) new_period) w)"

definition mock_timer_drop :: "mock_timer \<Rightarrow> 'cb mock_world \<Rightarrow> unit res \<times> 'cb mock_world" where
  "mock_timer_drop t w = mock_lease_drop (w\<lparr>mw_time := deregister_timer (mtm_key t) (mw_time w)\<rparr>)"

section \<open>Fault injection and the wait model (fault.rs, wait.rs)\<close>

record fault_state =
  next_queue_create :: "error option"
  next_queue_send :: "error option"

definition fault_default :: fault_state where
  "fault_default = \<lparr>next_queue_create = None, next_queue_send = None\<rparr>"

definition fault_clear :: "fault_state \<Rightarrow> fault_state" where
  "fault_clear f = f\<lparr>next_queue_create := None, next_queue_send := None\<rparr>"

definition fail_next_queue_create :: "error \<Rightarrow> fault_state \<Rightarrow> fault_state" where
  "fail_next_queue_create e f = f\<lparr>next_queue_create := Some e\<rparr>"

definition fail_next_queue_send :: "error \<Rightarrow> fault_state \<Rightarrow> fault_state" where
  "fail_next_queue_send e f = f\<lparr>next_queue_send := Some e\<rparr>"

definition apply_timeout :: "timeout \<Rightarrow> 'a res \<Rightarrow> error \<Rightarrow> 'a res" where
  "apply_timeout t raw would_block_err =
     (case t of
        NoWait \<Rightarrow> raw
      | After _ \<Rightarrow> (case raw of Err e \<Rightarrow> if e = would_block_err then Err Timeout else raw | _ \<Rightarrow> raw)
      | Forever \<Rightarrow>
          (case raw of Err e \<Rightarrow> if e = would_block_err then Err Unsupported else raw | _ \<Rightarrow> raw))"

section \<open>Queues (queue.rs)\<close>

text \<open>\<open>mq_faults\<close> is the shared cell of injected faults, if the queue was given one; the cell
  itself is passed to and returned by the operations that touch it.\<close>

record mock_queue =
  mq_buffer :: byte_queue
  mq_faults :: bool

definition mock_queue_inner_new ::
  "(nat \<Rightarrow> bool) \<Rightarrow> nat \<Rightarrow> nat \<Rightarrow> bool \<Rightarrow> 'cb mock_world \<Rightarrow> mock_queue res \<times> 'cb mock_world" where
  "mock_queue_inner_new reserve capacity msg_size faults w =
     st_bind (validate_queue_capacity capacity, w) (\<lambda>_ w.
     st_bind (validate_queue_message_size msg_size, w) (\<lambda>_ w.
     st_bind (mock_acquire_object w) (\<lambda>_ w1.
       case byte_queue_new reserve capacity msg_size of
         Ok q \<Rightarrow> (Ok \<lparr>mq_buffer = q, mq_faults = faults\<rparr>, w1)
       | Err e \<Rightarrow> st_bind (mock_lease_drop w1) (\<lambda>_ w2. (Err e, w2))
       | Panic s \<Rightarrow> (Panic s, w1))))"

definition mock_queue_new ::
  "(nat \<Rightarrow> bool) \<Rightarrow> nat \<Rightarrow> nat \<Rightarrow> 'cb mock_world \<Rightarrow> mock_queue res \<times> 'cb mock_world" where
  "mock_queue_new reserve capacity msg_size w = mock_queue_inner_new reserve capacity msg_size False w"

definition mock_queue_new_with_faults ::
  "(nat \<Rightarrow> bool) \<Rightarrow> nat \<Rightarrow> nat \<Rightarrow> fault_state \<Rightarrow> 'cb mock_world
    \<Rightarrow> mock_queue res \<times> fault_state \<times> 'cb mock_world" where
  "mock_queue_new_with_faults reserve capacity msg_size f w =
     (case next_queue_create f of
        Some fault \<Rightarrow> (Err fault, f\<lparr>next_queue_create := None\<rparr>, w)
      | None \<Rightarrow>
          let (r, w') = mock_queue_inner_new reserve capacity msg_size True w in (r, f, w'))"

definition take_send_fault :: "mock_queue \<Rightarrow> fault_state \<Rightarrow> error option \<times> fault_state" where
  "take_send_fault q f =
     (if mq_faults q then (next_queue_send f, f\<lparr>next_queue_send := None\<rparr>) else (None, f))"

definition mock_queue_send ::
  "u8 list \<Rightarrow> timeout \<Rightarrow> fault_state \<Rightarrow> mock_queue \<Rightarrow> unit res \<times> fault_state \<times> mock_queue" where
  "mock_queue_send msg t f q =
     (case take_send_fault q f of
        (Some fault, f') \<Rightarrow> (Err fault, f', q)
      | (None, f') \<Rightarrow>
          let (raw, b) = try_send (mq_buffer q) msg
          in (apply_timeout t raw QueueFull, f', q\<lparr>mq_buffer := b\<rparr>))"

definition map_unit :: "'a res \<Rightarrow> unit res" where
  "map_unit r = res_bind r (\<lambda>_. Ok ())"

definition mock_queue_recv :: "u8 list \<Rightarrow> timeout \<Rightarrow> mock_queue \<Rightarrow> unit res \<times> mock_queue \<times> u8 list" where
  "mock_queue_recv buffer t q =
     (let (raw, b, out) = try_recv (mq_buffer q) buffer
      in (apply_timeout t (map_unit raw) QueueEmpty, q\<lparr>mq_buffer := b\<rparr>, out))"

definition mock_queue_close :: "mock_queue \<Rightarrow> unit res \<times> mock_queue" where
  "mock_queue_close q = (Ok (), q\<lparr>mq_buffer := bq_close (mq_buffer q)\<rparr>)"

definition mock_queue_len :: "mock_queue \<Rightarrow> nat res" where
  "mock_queue_len q = Ok (bq_len (mq_buffer q))"

section \<open>Semaphores (semaphore.rs)\<close>

definition mock_semaphore_new ::
  "u32 \<Rightarrow> u32 \<Rightarrow> 'cb mock_world \<Rightarrow> counting_semaphore_state res \<times> 'cb mock_world" where
  "mock_semaphore_new max_count initial_count w =
     st_bind (cs_new max_count initial_count, w) (\<lambda>s w.
     st_bind (mock_acquire_object w) (\<lambda>_ w1. (Ok s, w1)))"

definition mock_semaphore_acquire ::
  "timeout \<Rightarrow> counting_semaphore_state \<Rightarrow> unit res \<times> counting_semaphore_state" where
  "mock_semaphore_acquire t s =
     (case cs_try_acquire s of
        (True, s') \<Rightarrow> (Ok (), s')
      | (False, s') \<Rightarrow>
          (case t of NoWait \<Rightarrow> Err Timeout | After _ \<Rightarrow> Err Timeout | Forever \<Rightarrow> Err Unsupported, s'))"

definition mock_semaphore_release ::
  "counting_semaphore_state \<Rightarrow> unit res \<times> counting_semaphore_state" where
  "mock_semaphore_release s = cs_release s"

definition mock_binary_semaphore_new ::
  "'cb mock_world \<Rightarrow> counting_semaphore_state res \<times> 'cb mock_world" where
  "mock_binary_semaphore_new w = mock_semaphore_new 1 0 w"

definition mock_binary_is_signaled :: "counting_semaphore_state \<Rightarrow> bool res" where
  "mock_binary_is_signaled s = Ok (cs_count s = 1)"

section \<open>Mutexes (mutex.rs)\<close>

record 'a mock_mutex =
  mm_data :: 'a
  mm_locked :: bool

definition mock_mutex_new :: "'a \<Rightarrow> 'cb mock_world \<Rightarrow> 'a mock_mutex res \<times> 'cb mock_world" where
  "mock_mutex_new v w =
     st_bind (mock_acquire_object w) (\<lambda>_ w1. (Ok \<lparr>mm_data = v, mm_locked = False\<rparr>, w1))"

definition mock_mutex_lock :: "timeout \<Rightarrow> 'a mock_mutex \<Rightarrow> unit res \<times> 'a mock_mutex" where
  "mock_mutex_lock t m =
     (if mm_locked m
      then (case t of NoWait \<Rightarrow> Err LockFailed | After _ \<Rightarrow> Err Timeout | Forever \<Rightarrow> Err LockFailed, m)
      else (Ok (), m\<lparr>mm_locked := True\<rparr>))"

definition mock_mutex_guard_drop :: "'a mock_mutex \<Rightarrow> unit res \<times> 'a mock_mutex" where
  "mock_mutex_guard_drop m =
     (if \<not> mm_locked m then (Panic ''guard dropped on unlocked mutex'', m)
      else (Ok (), m\<lparr>mm_locked := False\<rparr>))"

section \<open>Tasks (task.rs)\<close>

record mock_task =
  mtk_handle :: task_handle
  mtk_priority :: priority
  mtk_exit_code :: exit_code

record mock_task_builder =
  mtb_name :: "u8 list"
  mtb_stack_size :: nat
  mtb_priority :: priority

definition mock_task_builder_new :: mock_task_builder where
  "mock_task_builder_new = \<lparr>mtb_name = [], mtb_stack_size = 4096, mtb_priority = 1\<rparr>"

definition mock_allocate_task_handle :: "('cb, 'z) mock_world_scheme \<Rightarrow> task_handle res \<times> ('cb, 'z) mock_world_scheme" where
  "mock_allocate_task_handle w =
     (if mw_next_handle w = - 1 then (Err Overflow, w)
      else let raw = mw_next_handle w; w' = w\<lparr>mw_next_handle := raw + 1\<rparr>
           in (ok_or (handle_from_raw raw) Overflow, w'))"

text \<open>\<open>entry\<close> is the task's body. The scope guards register the task as live and current
  before it runs and are dropped in reverse order after it.\<close>

definition mock_task_spawn ::
  "mock_task_builder \<Rightarrow> (('cb, 'z) mock_world_scheme \<Rightarrow> ('cb, 'z) mock_world_scheme) \<Rightarrow> ('cb, 'z) mock_world_scheme
    \<Rightarrow> mock_task res \<times> ('cb, 'z) mock_world_scheme" where
  "mock_task_spawn b entry w =
     st_bind (validate_task_config (mtb_name b) (mtb_stack_size b), w) (\<lambda>_ w.
     st_bind (mock_acquire_object w) (\<lambda>_ w1.
       case mock_allocate_task_handle w1 of
         (Ok h, w2) \<Rightarrow>
           let inner = \<lparr>mtk_handle = h, mtk_priority = mtb_priority b, mtk_exit_code = exit_success\<rparr>;
               prev = mw_current w2;
               w3 = w2\<lparr>mw_live_count := mw_live_count w2 + 1, mw_current := Some h\<rparr>;
               w4 = entry w3;
               w5 = w4\<lparr>mw_current := prev\<rparr>;
               w6 = w5\<lparr>mw_live_count := mw_live_count w5 - 1\<rparr>
           in (Ok inner, w6)
       | (Err e, w2) \<Rightarrow> st_bind (mock_lease_drop w2) (\<lambda>_ w3. (Err e, w3))
       | (Panic s, w2) \<Rightarrow> (Panic s, w2)))"

definition mock_task_join :: "mock_task \<Rightarrow> timeout \<Rightarrow> exit_code res" where
  "mock_task_join t _ = Ok (mtk_exit_code t)"

section \<open>Critical sections (system.rs)\<close>

definition mock_enter_critical :: "'cb mock_world \<Rightarrow> 'cb mock_world" where
  "mock_enter_critical w = w\<lparr>mw_critical_depth := mw_critical_depth w + 1\<rparr>"

definition mock_critical_guard_drop :: "'cb mock_world \<Rightarrow> 'cb mock_world" where
  "mock_critical_guard_drop w = w\<lparr>mw_critical_depth := mw_critical_depth w - 1\<rparr>"

definition mock_heap_free :: usize where
  "mock_heap_free = - 1"

section \<open>Objects\<close>

text \<open>The constructors of the backend, and the drop of an object's last handle. A task is
  created here with a body that returns at once.\<close>

datatype 'cb mock_ctor =
    MkQueue nat nat
  | MkSemaphore u32 u32
  | MkBinarySemaphore
  | MkMutex u32
  | MkTimer duration timer_mode 'cb
  | MkTask mock_task_builder

datatype mock_object =
    ObjQueue mock_queue
  | ObjSemaphore counting_semaphore_state
  | ObjMutex "u32 mock_mutex"
  | ObjTimer mock_timer
  | ObjTask mock_task

fun mock_create ::
  "(nat \<Rightarrow> bool) \<Rightarrow> 'cb mock_ctor \<Rightarrow> 'cb mock_world \<Rightarrow> mock_object res \<times> 'cb mock_world" where
  "mock_create reserve (MkQueue c m) w =
     st_bind (mock_queue_new reserve c m w) (\<lambda>q w. (Ok (ObjQueue q), w))"
| "mock_create reserve (MkSemaphore m i) w =
     st_bind (mock_semaphore_new m i w) (\<lambda>s w. (Ok (ObjSemaphore s), w))"
| "mock_create reserve MkBinarySemaphore w =
     st_bind (mock_binary_semaphore_new w) (\<lambda>s w. (Ok (ObjSemaphore s), w))"
| "mock_create reserve (MkMutex v) w =
     st_bind (mock_mutex_new v w) (\<lambda>m w. (Ok (ObjMutex m), w))"
| "mock_create reserve (MkTimer p m cb) w =
     st_bind (mock_timer_new p m cb w) (\<lambda>t w. (Ok (ObjTimer t), w))"
| "mock_create reserve (MkTask b) w =
     st_bind (mock_task_spawn b (\<lambda>w. w) w) (\<lambda>t w. (Ok (ObjTask t), w))"

fun mock_destroy :: "mock_object \<Rightarrow> 'cb mock_world \<Rightarrow> unit res \<times> 'cb mock_world" where
  "mock_destroy (ObjTimer t) w = mock_timer_drop t w"
| "mock_destroy _ w = mock_lease_drop w"

definition mw_inv :: "('cb, 'z) mock_world_scheme \<Rightarrow> bool" where
  "mw_inv w = lc_word_ok (mw_lifecycle w)"

section \<open>Leases\<close>

text \<open>What a constructor does to the lifecycle word, given what it does after taking the
  lease.\<close>

definition lease_effect :: "'a res \<Rightarrow> ('cb, 'z) mock_world_scheme \<Rightarrow> ('cb, 'z) mock_world_scheme \<Rightarrow> bool" where
  "lease_effect r w w' =
     (case r of
        Ok _ \<Rightarrow> mock_state w = Running \<and> mock_state w' = Running
          \<and> unat (mock_active_objects w') = Suc (unat (mock_active_objects w))
      | Err _ \<Rightarrow> mock_state w' = mock_state w \<and> mock_active_objects w' = mock_active_objects w
      | Panic _ \<Rightarrow> True)"

lemma mock_acquire_effect:
  assumes "mock_acquire_object w = (r, w')"
  shows "lease_effect r w w'" and "\<not> is_panic r"
proof -
  obtain x where a: "acquire (mw_lifecycle w) = (r, x)" and w': "w' = w\<lparr>mw_lifecycle := x\<rparr>"
    using assms by (auto simp: mock_acquire_object_def on_lifecycle_def split: prod.splits)
  show "\<not> is_panic r" by (rule acquire_word(1) [OF a])
  show "lease_effect r w w'"
    using acquire_word(2,3) [OF a]
    by (cases r) (simp_all add: lease_effect_def w' mock_state_def mock_active_objects_def)
qed

lemma mock_lease_drop_effect:
  assumes "mock_state w = Running" and "0 < unat (mock_active_objects w)"
  shows "\<exists>w'. mock_lease_drop w = (Ok (), w') \<and> mock_state w' = Running
    \<and> Suc (unat (mock_active_objects w')) = unat (mock_active_objects w)"
proof -
  obtain x where "lease_drop (mw_lifecycle w) = (Ok (), x)" "decode_state x = Running"
      "unat (decode_count (mw_lifecycle w)) = Suc (unat (decode_count x))"
    using lease_drop_word [of "mw_lifecycle w"] assms
    by (auto simp: mock_state_def mock_active_objects_def)
  then show ?thesis
    by (simp add: mock_lease_drop_def on_lifecycle_def mock_state_def mock_active_objects_def)
qed

text \<open>A step after the lease that fails gives it back.\<close>

lemma mock_lease_restore:
  assumes "mock_acquire_object w = (Ok (), w1)"
    and "mw_lifecycle w2 = mw_lifecycle w1"
  shows "\<exists>w3. mock_lease_drop w2 = (Ok (), w3) \<and> lease_effect (Err e) w w3"
proof -
  have e: "lease_effect (Ok ()) w w1" using mock_acquire_effect(1) [OF assms(1)] .
  then have "mock_state w2 = Running" "0 < unat (mock_active_objects w2)"
    using assms(2) by (simp_all add: lease_effect_def mock_state_def mock_active_objects_def)
  from mock_lease_drop_effect [OF this] obtain w3 where
    "mock_lease_drop w2 = (Ok (), w3)" "mock_state w3 = Running"
    "Suc (unat (mock_active_objects w3)) = unat (mock_active_objects w2)" by blast
  moreover have "mock_active_objects w2 = mock_active_objects w1"
    using assms(2) by (simp add: mock_active_objects_def)
  ultimately have "unat (mock_active_objects w3) = unat (mock_active_objects w)"
    using e by (simp add: lease_effect_def)
  then show ?thesis
    using e \<open>mock_lease_drop w2 = (Ok (), w3)\<close> \<open>mock_state w3 = Running\<close>
    by (simp add: lease_effect_def word_unat_eq_iff)
qed

lemma lease_effect_map:
  assumes "st_bind rw (\<lambda>x w. (Ok (f x), w)) = (r, w')" and "lease_effect (fst rw) w (snd rw)"
  shows "lease_effect r w w'"
  using assms by (cases rw; cases "fst rw") (auto simp: lease_effect_def)

lemma mock_queue_new_effect:
  "lease_effect (fst (mock_queue_new reserve c m w)) w (snd (mock_queue_new reserve c m w))"
proof -
  obtain r w1 where a: "mock_acquire_object w = (r, w1)" by (cases "mock_acquire_object w")
  note eff = mock_acquire_effect [OF a]
  show ?thesis
  proof (cases "c = 0 \<or> m = 0")
    case True
    then show ?thesis
      by (auto simp: mock_queue_new_def mock_queue_inner_new_def validate_queue_capacity_def
        validate_queue_message_size_def lease_effect_def)
  next
    case False
    show ?thesis
    proof (cases r)
      case (Ok u)
      then have a': "mock_acquire_object w = (Ok (), w1)" using a by simp
      show ?thesis
      proof (cases "byte_queue_new reserve c m")
        case (Err e)
        obtain w3 where "mock_lease_drop w1 = (Ok (), w3)" "lease_effect (Err e) w w3"
          using mock_lease_restore [OF a', of w1 e] by blast
        then show ?thesis
          using False a' Err
          by (simp add: mock_queue_new_def mock_queue_inner_new_def validate_queue_capacity_def
            validate_queue_message_size_def lease_effect_def)
      qed (use False a' eff Ok in \<open>simp_all add: mock_queue_new_def mock_queue_inner_new_def
            validate_queue_capacity_def validate_queue_message_size_def lease_effect_def\<close>)
    qed (use False a eff in \<open>simp_all add: mock_queue_new_def mock_queue_inner_new_def
            validate_queue_capacity_def validate_queue_message_size_def lease_effect_def\<close>)
  qed
qed

lemma mock_semaphore_new_effect:
  "lease_effect (fst (mock_semaphore_new m i w)) w (snd (mock_semaphore_new m i w))"
proof -
  obtain r w1 where a: "mock_acquire_object w = (r, w1)" by (cases "mock_acquire_object w")
  show ?thesis
    using mock_acquire_effect [OF a] a
    by (cases r; cases "cs_new m i") (auto simp: mock_semaphore_new_def lease_effect_def)
qed

lemma mock_mutex_new_effect:
  "lease_effect (fst (mock_mutex_new v w)) w (snd (mock_mutex_new v w))"
proof -
  obtain r w1 where a: "mock_acquire_object w = (r, w1)" by (cases "mock_acquire_object w")
  show ?thesis
    using mock_acquire_effect [OF a] a by (cases r) (auto simp: mock_mutex_new_def lease_effect_def)
qed

lemma mock_timer_new_effect:
  "lease_effect (fst (mock_timer_new p m cb w)) w (snd (mock_timer_new p m cb w))"
proof -
  obtain r w1 where a: "mock_acquire_object w = (r, w1)" by (cases "mock_acquire_object w")
  obtain k g where reg: "with_runtime (register_timer p m cb) (mw_time w1) = (k, g)"
    by (cases "with_runtime (register_timer p m cb) (mw_time w1)")
  have k: "(\<exists>x. k = Ok x) \<or> (\<exists>s. k = Panic s)"
    using reg by (auto simp: with_runtime_def register_timer_def Let_def
      split: if_splits res.splits)
  show ?thesis
    using mock_acquire_effect [OF a] a reg k
    by (cases r) (auto simp: mock_timer_new_def lease_effect_def mock_state_def mock_active_objects_def)
qed

lemma allocate_frame:
  assumes "mock_allocate_task_handle w = (r, w')"
  shows "mw_lifecycle w' = mw_lifecycle w" and "\<not> is_panic r"
    and "r = Ok h \<Longrightarrow> handle_get h = mw_next_handle w \<and> mw_next_handle w' = mw_next_handle w + 1
          \<and> mw_next_handle w \<noteq> 0"
  using assms
  by (auto simp: mock_allocate_task_handle_def handle_from_raw_def Let_def ok_or_def
    split: if_splits option.splits)

lemma mock_task_spawn_effect:
  "lease_effect (fst (mock_task_spawn b (\<lambda>w. w) w)) w (snd (mock_task_spawn b (\<lambda>w. w) w))"
proof (cases "validate_task_config (mtb_name b) (mtb_stack_size b)")
  case (Ok u)
  obtain r w1 where a: "mock_acquire_object w = (r, w1)" by (cases "mock_acquire_object w")
  note eff = mock_acquire_effect [OF a]
  show ?thesis
  proof (cases r)
    case r: (Ok u')
    then have a': "mock_acquire_object w = (Ok (), w1)" using a by simp
    obtain s w2 where al: "mock_allocate_task_handle w1 = (s, w2)"
      by (cases "mock_allocate_task_handle w1")
    show ?thesis
    proof (cases s)
      case (Err e)
      obtain w3 where "mock_lease_drop w2 = (Ok (), w3)" "lease_effect (Err e) w w3"
        using mock_lease_restore [OF a' allocate_frame(1) [OF al], of e] by blast
      then show ?thesis
        using Ok a' al Err by (simp add: mock_task_spawn_def lease_effect_def)
    qed (use Ok a' al eff r allocate_frame(1) [OF al] in \<open>simp_all add: mock_task_spawn_def
          lease_effect_def Let_def mock_state_def mock_active_objects_def\<close>)
  qed (use Ok a eff in \<open>simp_all add: mock_task_spawn_def lease_effect_def\<close>)
qed (simp_all add: mock_task_spawn_def lease_effect_def)

lemma mock_create_effect:
  assumes "mock_create reserve c w = (r, w')"
  shows "lease_effect r w w'"
proof (cases c)
  case (MkQueue cap m)
  show ?thesis
    using assms mock_queue_new_effect unfolding MkQueue mock_create.simps by (rule lease_effect_map)
next
  case (MkSemaphore m i)
  show ?thesis
    using assms mock_semaphore_new_effect unfolding MkSemaphore mock_create.simps
    by (rule lease_effect_map)
next
  case MkBinarySemaphore
  show ?thesis
    using assms mock_semaphore_new_effect
    unfolding MkBinarySemaphore mock_create.simps mock_binary_semaphore_new_def
    by (rule lease_effect_map)
next
  case (MkMutex v)
  show ?thesis
    using assms mock_mutex_new_effect unfolding MkMutex mock_create.simps by (rule lease_effect_map)
next
  case (MkTimer p m cb)
  show ?thesis
    using assms mock_timer_new_effect unfolding MkTimer mock_create.simps by (rule lease_effect_map)
next
  case (MkTask b)
  show ?thesis
    using assms mock_task_spawn_effect unfolding MkTask mock_create.simps by (rule lease_effect_map)
qed

lemma mock_destroy_eq:
  "\<exists>w1. mock_destroy x w = mock_lease_drop w1 \<and> mw_lifecycle w1 = mw_lifecycle w"
  by (cases x) (auto simp: mock_timer_drop_def)

lemma mock_shutdown_cases:
  assumes "mw_inv w"
  shows "mock_state w = Running \<Longrightarrow> 0 < unat (mock_active_objects w) \<Longrightarrow> mock_shutdown w = (Err Busy, w)"
    and "mock_state w = Running \<Longrightarrow> unat (mock_active_objects w) = 0 \<Longrightarrow>
      \<exists>w'. mock_shutdown w = (Ok (), w') \<and> mock_state w' = Uninitialized
        \<and> unat (mock_active_objects w') = 0 \<and> mw_inv w'"
proof -
  obtain r x where b: "begin_shutdown (mw_lifecycle w) = (r, x)" by (cases "begin_shutdown (mw_lifecycle w)")
  note bs = begin_shutdown_word [OF b]
  show "mock_shutdown w = (Err Busy, w)" if "mock_state w = Running" "0 < unat (mock_active_objects w)"
    using that b bs by (simp add: mock_shutdown_def on_lifecycle_def mock_state_def mock_active_objects_def)
  show "\<exists>w'. mock_shutdown w = (Ok (), w') \<and> mock_state w' = Uninitialized
        \<and> unat (mock_active_objects w') = 0 \<and> mw_inv w'"
    if "mock_state w = Running" "unat (mock_active_objects w) = 0"
  proof -
    have r: "r = Ok ()" using that bs(1) by (simp add: mock_state_def mock_active_objects_def)
    then obtain y where "shutdown_commit x = (Ok (), y)" "decode_state y = Uninitialized" "decode_count y = 0"
      using shutdown_word(1) [of x] bs(2) by auto
    with b r show ?thesis
      by (simp add: mock_shutdown_def on_lifecycle_def mock_state_def mock_active_objects_def mw_inv_def
        lc_word_ok_def)
  qed
qed

lemma active_imp_running: "mw_inv w \<Longrightarrow> 0 < unat (mock_active_objects w) \<Longrightarrow> mock_state w = Running"
  by (auto simp: mw_inv_def lc_word_ok_def mock_state_def mock_active_objects_def)

lemma running_mw_inv: "mock_state w = Running \<Longrightarrow> mw_inv w"
  by (simp add: mw_inv_def lc_word_ok_def mock_state_def)

interpretation mock: leased_objects "mock_create reserve" mock_destroy mock_shutdown
  "\<lambda>w. unat (mock_active_objects w)" "\<lambda>w. mock_state w = Running" mw_inv
  for reserve
proof
  fix w w' :: "'b mock_world" and c x
  assume "mw_inv w" "mock_create reserve c w = (Ok x, w')"
  then show "mw_inv w' \<and> mock_state w = Running \<and> mock_state w' = Running
      \<and> unat (mock_active_objects w') = Suc (unat (mock_active_objects w))"
    using mock_create_effect running_mw_inv by (fastforce simp: lease_effect_def)
next
  fix w w' :: "'b mock_world" and c e
  assume "mw_inv w" "mock_create reserve c w = (Err e, w')"
  then show "mw_inv w' \<and> (mock_state w' = Running) = (mock_state w = Running)
      \<and> unat (mock_active_objects w') = unat (mock_active_objects w)"
    using mock_create_effect [of reserve c w "Err e" w']
    by (simp add: lease_effect_def mw_inv_def lc_word_ok_def mock_state_def mock_active_objects_def)
next
  fix w :: "'b mock_world" and x
  assume a: "mw_inv w" "0 < unat (mock_active_objects w)"
  obtain w1 where w1: "mock_destroy x w = mock_lease_drop w1" "mw_lifecycle w1 = mw_lifecycle w"
    using mock_destroy_eq by blast
  then show "\<exists>w'. mock_destroy x w = (Ok (), w') \<and> mw_inv w' \<and> mock_state w' = Running
      \<and> Suc (unat (mock_active_objects w')) = unat (mock_active_objects w)"
    using mock_lease_drop_effect [of w1] active_imp_running [OF a] a(2) running_mw_inv
    by (fastforce simp: mock_state_def mock_active_objects_def)
next
  fix w :: "'b mock_world"
  assume a: "mw_inv w"
  show "mock_state w = Running" if "0 < unat (mock_active_objects w)"
    using active_imp_running [OF a that] .
  show "mock_shutdown w = (Err Busy, w)" if "0 < unat (mock_active_objects w)"
    using mock_shutdown_cases(1) [OF a active_imp_running [OF a that] that] .
  show "\<exists>w'. mock_shutdown w = (Ok (), w') \<and> mw_inv w' \<and> mock_state w' \<noteq> Running
      \<and> unat (mock_active_objects w') = 0" if "unat (mock_active_objects w) = 0" "mock_state w = Running"
    using mock_shutdown_cases(2) [OF a that(2,1)] by auto
next
  fix w w' :: "'b mock_world" and c r
  assume "mw_inv w" "mock_state w \<noteq> Running" "mock_create reserve c w = (r, w')"
  then show "\<not> is_ok r"
    using mock_create_effect [of reserve c w r w'] by (cases r) (auto simp: lease_effect_def)
qed

section \<open>Queues and semaphores meet their interfaces\<close>

lemma apply_timeout_ok [simp]:
  "is_ok (apply_timeout t raw e) = is_ok raw" "is_panic (apply_timeout t raw e) = is_panic raw"
  by (cases t; cases raw; simp add: apply_timeout_def)+

lemma map_unit_simps [simp]: "is_ok (map_unit r) = is_ok r" "is_panic (map_unit r) = is_panic r"
  by (cases r; simp add: map_unit_def)+

text \<open>A queue without a fault cell, with any timeout.\<close>

definition plain_send :: "timeout \<Rightarrow> mock_queue \<Rightarrow> u8 list \<Rightarrow> unit res \<times> mock_queue" where
  "plain_send t q msg = (case mock_queue_send msg t fault_default q of (r, _, q') \<Rightarrow> (r, q'))"

lemma mock_queue_send_no_fault:
  "\<not> mq_faults q \<Longrightarrow> mock_queue_send msg t f q =
     (apply_timeout t (fst (try_send (mq_buffer q) msg)) QueueFull, f,
      q\<lparr>mq_buffer := snd (try_send (mq_buffer q) msg)\<rparr>)"
  by (simp add: mock_queue_send_def take_send_fault_def split: prod.splits)

interpretation mockq: message_queue "plain_send t" "\<lambda>q b. mock_queue_recv b t' q"
  "\<lambda>q. snd (mock_queue_close q)" "\<lambda>q. bq_contents (mq_buffer q)" "\<lambda>q. bq_capacity (mq_buffer q)"
  "\<lambda>q. bq_closed (mq_buffer q)" "\<lambda>q. bq_inv (mq_buffer q) \<and> \<not> mq_faults q"
  for t t'
proof
  show "length (bq_contents (mq_buffer q)) \<le> bq_capacity (mq_buffer q)"
    if "bq_inv (mq_buffer q) \<and> \<not> mq_faults q" for q
    using that ring.bounded by blast
next
  fix q m r q' assume inv: "bq_inv (mq_buffer q) \<and> \<not> mq_faults q" and s: "plain_send t q m = (r, q')"
  obtain raw b where ts: "try_send (mq_buffer q) m = (raw, b)" by (cases "try_send (mq_buffer q) m")
  have r: "r = apply_timeout t raw QueueFull" and q': "q' = q\<lparr>mq_buffer := b\<rparr>"
    using s ts inv by (simp_all add: plain_send_def mock_queue_send_no_fault)
  have i: "bq_inv (mq_buffer q)" using inv by simp
  show "(bq_inv (mq_buffer q') \<and> \<not> mq_faults q') \<and> bq_closed (mq_buffer q') = bq_closed (mq_buffer q)
      \<and> bq_capacity (mq_buffer q') = bq_capacity (mq_buffer q) \<and> \<not> is_panic r"
    using ring.send_invar [OF i ts] inv by (simp add: r q')
  show "\<not> bq_closed (mq_buffer q) \<and> bq_contents (mq_buffer q') = bq_contents (mq_buffer q) @ [m]"
    if "is_ok r" using ring.send_ok [OF i ts] that by (simp add: r q')
  show "bq_contents (mq_buffer q') = bq_contents (mq_buffer q)" if "\<not> is_ok r"
    using ring.send_fail [OF i ts] that by (simp add: r q')
next
  fix q b s q' out assume inv: "bq_inv (mq_buffer q) \<and> \<not> mq_faults q"
    and r: "mock_queue_recv b t' q = (s, q', out)"
  obtain raw b' where tr: "try_recv (mq_buffer q) b = (raw, b', out)"
    and s: "s = apply_timeout t' (map_unit raw) QueueEmpty" and q': "q' = q\<lparr>mq_buffer := b'\<rparr>"
    using r by (auto simp: mock_queue_recv_def split: prod.splits)
  have i: "bq_inv (mq_buffer q)" using inv by simp
  show "(bq_inv (mq_buffer q') \<and> \<not> mq_faults q') \<and> bq_closed (mq_buffer q') = bq_closed (mq_buffer q)
      \<and> bq_capacity (mq_buffer q') = bq_capacity (mq_buffer q) \<and> \<not> is_panic s"
    using ring.recv_invar [OF i tr] inv by (simp add: s q')
  show "bq_contents (mq_buffer q) = out # bq_contents (mq_buffer q')" if "is_ok s"
    using ring.recv_ok [OF i tr] that by (simp add: s q')
  show "bq_contents (mq_buffer q') = bq_contents (mq_buffer q) \<and> out = b" if "\<not> is_ok s"
    using ring.recv_fail [OF i tr] that by (simp add: s q')
next
  fix q :: mock_queue assume inv: "bq_inv (mq_buffer q) \<and> \<not> mq_faults q"
  then show "(bq_inv (mq_buffer (snd (mock_queue_close q))) \<and> \<not> mq_faults (snd (mock_queue_close q)))
      \<and> bq_closed (mq_buffer (snd (mock_queue_close q)))
      \<and> bq_contents (mq_buffer (snd (mock_queue_close q))) = bq_contents (mq_buffer q)
      \<and> bq_capacity (mq_buffer (snd (mock_queue_close q))) = bq_capacity (mq_buffer q)"
    using ring.close_laws by (simp add: mock_queue_close_def)
qed

interpretation mocksem: counting_semaphore
  "\<lambda>s. case mock_semaphore_acquire t s of (r, s') \<Rightarrow> (is_ok r, s')"
  "\<lambda>s. case mock_semaphore_release s of (r, s') \<Rightarrow> (is_ok r, s')"
  "\<lambda>s. unat (cs_count s)" "\<lambda>s. unat (cs_max_count s)" cs_inv
  for t
proof
  show "unat (cs_count s) \<le> unat (cs_max_count s)" if "cs_inv s" for s
    using that by (rule count.cnt_bounded)
next
  fix s ok s' assume "cs_inv s"
    and "(case mock_semaphore_acquire t s of (r, s') \<Rightarrow> (is_ok r, s')) = (ok, s')"
  then show "cs_inv s' \<and> unat (cs_max_count s') = unat (cs_max_count s) \<and> ok = (0 < unat (cs_count s))
      \<and> unat (cs_count s') = (if ok then unat (cs_count s) - 1 else unat (cs_count s))"
    by (intro count.acq_law)
      (auto simp: mock_semaphore_acquire_def split: prod.splits bool.splits timeout.splits)
next
  fix s ok s' assume "cs_inv s"
    and "(case mock_semaphore_release s of (r, s') \<Rightarrow> (is_ok r, s')) = (ok, s')"
  then show "cs_inv s' \<and> unat (cs_max_count s') = unat (cs_max_count s)
      \<and> ok = (unat (cs_count s) < unat (cs_max_count s))
      \<and> unat (cs_count s') = (if ok then unat (cs_count s) + 1 else unat (cs_count s))"
    by (intro count.rel_law) (simp_all add: mock_semaphore_release_def)
qed

section \<open>Properties\<close>

lemma mock_initialize_ok:
  assumes "mw_inv w" and "mock_state w = Uninitialized"
  shows "\<exists>w'. mock_initialize w = (Ok (), w') \<and> mock_state w' = Running
    \<and> unat (mock_active_objects w') = 0 \<and> mw_inv w'"
proof -
  obtain x y where "begin_initialize (mw_lifecycle w) = (Ok (), x)" "initialize_commit x = (Ok (), y)"
      "decode_state y = Running" "decode_count y = 0"
    using initialize_word [of "mw_lifecycle w"] assms by (auto simp: mw_inv_def mock_state_def)
  then show ?thesis
    by (simp add: mock_initialize_def on_lifecycle_def mock_state_def mock_active_objects_def mw_inv_def
      lc_word_ok_def)
qed

text \<open>Object lifetime in the mock backend: after initialization from the process's initial
  state and any sequence of constructor calls (queues, semaphores, mutexes, timers, tasks,
  with any arguments) and drops of held objects, the active-object count is the number of
  objects held, and \<open>shutdown\<close> succeeds if none is held and reports \<open>Busy\<close> otherwise.\<close>

theorem mock_shutdown_iff_no_objects:
  assumes "mock_initialize mock_world_initial = (Ok (), w)"
    and "run_objects (mock_create reserve) mock_destroy w [] ops = Some (w', held)"
  shows "unat (mock_active_objects w') = length held
    \<and> fst (mock_shutdown w') = (if held = [] then Ok () else Err Busy)"
proof -
  have "mw_inv (mock_world_initial :: 'a mock_world)"
    "mock_state (mock_world_initial :: 'a mock_world) = Uninitialized"
    by (simp_all add: mock_world_initial_def mw_inv_def lc_word_ok_def mock_state_def)
  from mock_initialize_ok [OF this] assms(1)
  have w: "mock_state w = Running" "unat (mock_active_objects w) = length []" "mw_inv w" by auto
  show ?thesis
    using mock.run_objects_active [OF w(3,2,1) assms(2)]
      mock.shutdown_iff_released [OF w(3,2,1) assms(2)] by simp
qed

lemma mock_demo_init:
  "\<exists>w. mock_initialize (mock_world_initial :: nat mock_world) = (Ok (), w)"
  using mock_initialize_ok [of "mock_world_initial :: nat mock_world"]
  by (auto simp: mock_world_initial_def mw_inv_def lc_word_ok_def mock_state_def)

theorem mock_shutdown_iff_no_objects_witness:
  "\<exists>w :: nat mock_world. mock_initialize mock_world_initial = (Ok (), w)
    \<and> run_objects (mock_create (\<lambda>_. True)) mock_destroy w [] [Create (MkSemaphore 0 0), Destroy 0]
        = Some (w, [])
    \<and> fst (mock_shutdown w) = Ok ()"
proof -
  obtain w :: "nat mock_world" where w: "mock_initialize mock_world_initial = (Ok (), w)"
    using mock_demo_init by blast
  have run: "run_objects (mock_create (\<lambda>_. True)) mock_destroy w []
      [Create (MkSemaphore 0 0), Destroy 0] = Some (w, [])"
    by (simp add: mock_semaphore_new_def cs_new_def)
  show ?thesis using mock_shutdown_iff_no_objects [OF w run] w run by simp
qed

text \<open>The mock queue keeps the queue contract under every timeout: over any sequence of
  sends, receives and closes on a queue without injected faults, accepted messages are
  delivered once and in order, at most \<open>capacity\<close> are pending, and no call panics into a
  changed buffer; the timeout only decides which error a blocked call reports.\<close>

theorem mock_queue_conserves:
  assumes "bq_inv (mq_buffer q) \<and> \<not> mq_faults q"
    and "run_queue (plain_send t) (\<lambda>q b. mock_queue_recv b t' q) (\<lambda>q. snd (mock_queue_close q)) q ops
         = (q', acc, del)"
  shows "bq_contents (mq_buffer q) @ acc = del @ bq_contents (mq_buffer q')
    \<and> length (bq_contents (mq_buffer q')) \<le> bq_capacity (mq_buffer q)"
  using mockq.run_conserves [OF assms] mockq.bounded [of q'] by auto

lemma mock_demo_run:
  "run_queue (plain_send NoWait) (\<lambda>q b. mock_queue_recv b Forever q) (\<lambda>q. snd (mock_queue_close q))
     \<lparr>mq_buffer = \<lparr>bq_storage = [0], bq_capacity = 1, bq_message_size = 1, bq_head = 0,
        bq_tail = 0, bq_len = 0, bq_closed = False\<rparr>, mq_faults = False\<rparr>
     [QSend [4], QSend [5], QRecv [0], QSend [6]]
   = (\<lparr>mq_buffer = \<lparr>bq_storage = [6], bq_capacity = 1, bq_message_size = 1, bq_head = 0,
        bq_tail = 0, bq_len = 1, bq_closed = False\<rparr>, mq_faults = False\<rparr>, [[4], [6]], [[4]])"
  by code_simp

theorem mock_queue_conserves_witness:
  "bq_contents \<lparr>bq_storage = [6], bq_capacity = 1, bq_message_size = 1, bq_head = 0, bq_tail = 0,
     bq_len = 1, bq_closed = False\<rparr> = [[6]]"
proof -
  have "bq_inv \<lparr>bq_storage = [0], bq_capacity = 1, bq_message_size = 1, bq_head = 0,
        bq_tail = 0, bq_len = 0, bq_closed = False\<rparr>" by (simp add: bq_inv_def usize_max_def)
  then show ?thesis
    using mock_queue_conserves [OF _ mock_demo_run] by (simp add: bq_contents_def)
qed

text \<open>Synchronous task spawn: when \<open>spawn\<close> succeeds, the body has run exactly once, in a
  state where it is the current task, counted live and holding a lease; afterwards the
  spawner's own current task is restored and the live count is what the body left, less
  one; the handle is the next unused one and never zero, and joining reports success.\<close>

theorem mock_spawn_runs_entry:
  assumes "mock_task_spawn b entry w = (Ok task, w')"
  shows "\<exists>w1. mw_current w1 = Some (mtk_handle task)
    \<and> mw_live_count w1 = mw_live_count w + 1
    \<and> unat (mock_active_objects w1) = Suc (unat (mock_active_objects w))
    \<and> handle_get (mtk_handle task) = mw_next_handle w \<and> mw_next_handle w \<noteq> 0
    \<and> mw_next_handle w1 = mw_next_handle w + 1
    \<and> w' = (entry w1)\<lparr>mw_current := mw_current w, mw_live_count := mw_live_count (entry w1) - 1\<rparr>
    \<and> mock_task_join task t = Ok exit_success"
proof -
  have v: "validate_task_config (mtb_name b) (mtb_stack_size b) = Ok ()"
    using assms by (cases "validate_task_config (mtb_name b) (mtb_stack_size b)")
      (auto simp: mock_task_spawn_def)
  obtain r w1 where a: "mock_acquire_object w = (r, w1)" by (cases "mock_acquire_object w")
  have r: "r = Ok ()" using assms v a by (cases r) (auto simp: mock_task_spawn_def)
  obtain s w2 where al: "mock_allocate_task_handle w1 = (s, w2)"
    by (cases "mock_allocate_task_handle w1")
  have "\<exists>h. s = Ok h"
  proof (cases s)
    case (Err e)
    then obtain w3 where "mock_lease_drop w2 = (Ok (), w3)"
      using mock_lease_restore [OF a [unfolded r] allocate_frame(1) [OF al], of e] by blast
    then show ?thesis using assms v a r al Err by (simp add: mock_task_spawn_def)
  qed (use assms v a r al in \<open>auto simp: mock_task_spawn_def\<close>)
  then obtain h where h: "s = Ok h" by blast
  note fr = allocate_frame [OF al]
  have eff: "lease_effect (Ok ()) w w1" using mock_acquire_effect(1) [OF a] r by simp
  have frame: "mw_current w2 = mw_current w" "mw_live_count w2 = mw_live_count w"
    "mw_next_handle w1 = mw_next_handle w"
    using a al by (auto simp: mock_acquire_object_def on_lifecycle_def mock_allocate_task_handle_def
      Let_def split: prod.splits if_splits)
  let ?w3 = "w2\<lparr>mw_live_count := mw_live_count w2 + 1, mw_current := Some h\<rparr>"
  have sp: "task = \<lparr>mtk_handle = h, mtk_priority = mtb_priority b, mtk_exit_code = exit_success\<rparr>"
    "w' = (entry ?w3)\<lparr>mw_current := mw_current w2, mw_live_count := mw_live_count (entry ?w3) - 1\<rparr>"
    using assms v a r al h by (simp_all add: mock_task_spawn_def Let_def)
  show ?thesis
    using sp frame fr(1,3) h eff
    by (intro exI [of _ ?w3])
      (auto simp: lease_effect_def mock_active_objects_def mock_task_join_def)
qed

theorem mock_spawn_runs_entry_witness:
  "\<exists>(task :: mock_task) (w' :: nat mock_world) w.
     mock_task_spawn mock_task_builder_new mock_enter_critical w = (Ok task, w')
     \<and> handle_get (mtk_handle task) = 1 \<and> mw_current w' = None"
proof -
  let ?w = "mock_world_initial\<lparr>mw_lifecycle := 2\<rparr> :: nat mock_world"
  have "acquire 2 = (Ok (), 6)" by code_simp
  then have sp: "mock_task_spawn mock_task_builder_new mock_enter_critical ?w
      = (Ok \<lparr>mtk_handle = TaskHandle 1, mtk_priority = 1, mtk_exit_code = exit_success\<rparr>,
         ?w\<lparr>mw_lifecycle := 6, mw_next_handle := 2, mw_critical_depth := 1\<rparr>)"
    by (simp add: mock_task_spawn_def mock_task_builder_new_def validate_task_config_def
      task_name_max_bytes_def mock_acquire_object_def on_lifecycle_def mock_allocate_task_handle_def
      handle_from_raw_def mock_enter_critical_def mock_world_initial_def Let_def)
  show ?thesis
    using mock_spawn_runs_entry [OF sp] sp by (fastforce simp: mock_world_initial_def)
qed

section \<open>Mutual exclusion\<close>

datatype mutex_op = MtxLock timeout | MtxDrop

text \<open>A client keeps the guards it was given and drops only those; \<open>None\<close> is a panic.\<close>

fun run_mutex :: "'a mock_mutex \<Rightarrow> nat \<Rightarrow> mutex_op list \<Rightarrow> ('a mock_mutex \<times> nat) option" where
  "run_mutex m guards [] = Some (m, guards)"
| "run_mutex m guards (MtxLock t # ops) =
     (case mock_mutex_lock t m of
        (Ok _, m') \<Rightarrow> run_mutex m' (Suc guards) ops
      | (Err _, m') \<Rightarrow> run_mutex m' guards ops
      | _ \<Rightarrow> None)"
| "run_mutex m guards (MtxDrop # ops) =
     (case guards of
        0 \<Rightarrow> run_mutex m guards ops
      | Suc g \<Rightarrow>
          (case mock_mutex_guard_drop m of (Ok _, m') \<Rightarrow> run_mutex m' g ops | _ \<Rightarrow> None))"

lemma run_mutex_guards:
  assumes "guards = (if mm_locked m then 1 else 0)"
  shows "\<exists>m' g'. run_mutex m guards ops = Some (m', g') \<and> g' = (if mm_locked m' then 1 else 0)
    \<and> mm_data m' = mm_data m"
  using assms
proof (induction ops arbitrary: m guards)
  case (Cons op ops)
  show ?case
  proof (cases op)
    case (MtxLock t)
    show ?thesis
    proof (cases "mm_locked m")
      case True
      then show ?thesis
        using Cons.IH [of guards m] Cons.prems MtxLock by (cases t) (simp_all add: mock_mutex_lock_def)
    next
      case False
      then show ?thesis
        using Cons.IH [of 1 "m\<lparr>mm_locked := True\<rparr>"] Cons.prems MtxLock
        by (simp add: mock_mutex_lock_def)
    qed
  next
    case MtxDrop
    show ?thesis
    proof (cases "mm_locked m")
      case True
      then show ?thesis
        using Cons.IH [of 0 "m\<lparr>mm_locked := False\<rparr>"] Cons.prems MtxDrop
        by (simp add: mock_mutex_guard_drop_def)
    next
      case False
      then show ?thesis using Cons.IH [of 0 m] Cons.prems MtxDrop by simp
    qed
  qed
qed simp

text \<open>Mutual exclusion of the mock mutex: starting from a new mutex, after any sequence of
  lock attempts with any timeouts and guard drops, at most one guard is alive, the mutex is
  locked exactly when one is, and no guard drop hits the assertion; refused re-locks leave
  the protected data and the guard alone.\<close>

theorem mock_mutex_exclusion:
  "\<exists>m' g. run_mutex \<lparr>mm_data = v, mm_locked = False\<rparr> 0 ops = Some (m', g)
     \<and> g \<le> 1 \<and> (g = 1 \<longleftrightarrow> mm_locked m') \<and> mm_data m' = v"
  using run_mutex_guards [of 0 "\<lparr>mm_data = v, mm_locked = False\<rparr>" ops] by auto

end
