(* ===== verification/Freertos_Kernel.thy ===== *)
theory Freertos_Kernel
  imports Tick_Time Semaphore_Interface Counting_Semaphore
begin

text \<open>
  src/crates/osal-backend-freertos-sys/src: the status types of the safe kernel wrappers
  (lib.rs) and the host fixture behind them (sync_fixture.rs), a complete implementation of
  native mutexes, counting semaphores and the tick counter. The kernel itself is C code and
  a parameter of the backend theories (\<open>kernel\<close> below, and the native calls as arguments);
  the fixture is the instance the backend's interfaces are interpreted on. A condition
  variable wait of the fixture is an argument: for each wait, whether it timed out and what
  other threads did to the fixture meanwhile.
\<close>

section \<open>Status types (lib.rs)\<close>

datatype take_status = TakeAcquired | TakeTimeout | TakeInvalid

datatype give_status = GiveOk | GiveFull | GiveInvalid

datatype delay_status = DelayOk | DelayInvalidTicks | DelaySchedulerNotRunning | DelayUnknown u32

datatype scheduler_state = SchedNotStarted | SchedRunning | SchedSuspended | SchedUnknown u32

datatype event_wait_status = EventOk | EventTimeout | EventInvalid

datatype task_create_status = TaskCreateOk | TaskCreateOutOfMemory | TaskCreateInvalid

definition take_status_from_raw :: "u32 \<Rightarrow> take_status" where
  "take_status_from_raw raw =
     (if raw = 0 then TakeAcquired else if raw = 1 then TakeTimeout else TakeInvalid)"

definition give_status_from_raw :: "u32 \<Rightarrow> give_status" where
  "give_status_from_raw raw =
     (if raw = 0 then GiveOk else if raw = 1 then GiveFull else GiveInvalid)"

definition scheduler_state_from_raw :: "u32 \<Rightarrow> scheduler_state" where
  "scheduler_state_from_raw raw =
     (if raw = 0 then SchedNotStarted else if raw = 1 then SchedRunning
      else if raw = 2 then SchedSuspended else SchedUnknown raw)"

record capabilities =
  cap_tick_rate_hz :: u32
  cap_max_priorities :: u32
  cap_max_task_name_len :: u32
  cap_tick_bits :: u8
  cap_stack_word_size :: u8
  cap_dynamic_allocation :: bool
  cap_software_timers :: bool
  cap_minimal_stack_depth_words :: u32
  cap_max_stack_depth_words :: u32
  cap_tls_pointer_slots :: u8
  cap_task_tls_index :: u8

text \<open>What the backend reads of the kernel, as functions of the kernel's state \<open>'k\<close>: the tick
  snapshot, the scheduler state, and the largest finite delay; with the capabilities the
  runtime has cached, if any.\<close>

record 'k kernel =
  kn_snapshot :: "'k \<Rightarrow> tick_snapshot"
  kn_scheduler :: "'k \<Rightarrow> scheduler_state"
  kn_max_finite :: u64
  kn_caps :: "capabilities option"

section \<open>The fixture (sync_fixture.rs)\<close>

record fixture_mutex =
  fm_locked :: bool
  fm_owner :: "nat option"
  fm_deleted :: bool
  fm_waiters :: nat
  fm_blocked_count :: nat

record fixture_semaphore =
  fs_count :: u32
  fs_max_count :: u32
  fs_deleted :: bool
  fs_waiters :: nat
  fs_blocked_count :: nat

record fixture =
  fx_mutexes :: "nat \<rightharpoonup> fixture_mutex"
  fx_semaphores :: "nat \<rightharpoonup> fixture_semaphore"
  fx_next_id :: nat
  fx_mutex_create_count :: nat
  fx_mutex_delete_count :: nat
  fx_sem_create_count :: nat
  fx_sem_delete_count :: nat
  fx_take_call_ticks :: "u64 list"
  fx_give_call_count :: nat
  fx_max_finite_wait :: u64
  fx_fail_next_mutex_create :: bool
  fx_fail_next_sem_create :: bool
  fx_tick_bits :: u8
  fx_tick_count :: u64
  fx_tick_overflow :: u64

definition fixture_initial :: fixture where
  "fixture_initial = \<lparr>fx_mutexes = Map.empty, fx_semaphores = Map.empty, fx_next_id = 1,
     fx_mutex_create_count = 0, fx_mutex_delete_count = 0, fx_sem_create_count = 0,
     fx_sem_delete_count = 0, fx_take_call_ticks = [], fx_give_call_count = 0,
     fx_max_finite_wait = 2 ^ 32 - 2, fx_fail_next_mutex_create = False,
     fx_fail_next_sem_create = False, fx_tick_bits = 32, fx_tick_count = 0, fx_tick_overflow = 0\<rparr>"

definition read_tick_fixture :: "fixture \<Rightarrow> tick_snapshot" where
  "read_tick_fixture fx = \<lparr>overflow_count = fx_tick_overflow fx, tick_count = fx_tick_count fx\<rparr>"

text \<open>\<open>None\<close> is the panic of the overflow count.\<close>

definition advance_virtual_ticks :: "u64 \<Rightarrow> fixture \<Rightarrow> fixture option" where
  "advance_virtual_ticks ticks fx =
     (let modulus = 2 ^ unat (fx_tick_bits fx);
          total = unat (fx_tick_count fx) + unat ticks;
          wrap_count = total div modulus;
          new_count = total mod modulus
      in case checked_add u64_max (unat (fx_tick_overflow fx)) wrap_count of
           None \<Rightarrow> None
         | Some new_overflow \<Rightarrow>
             Some (fx\<lparr>fx_tick_count := word_of_nat new_count,
                      fx_tick_overflow := word_of_nat new_overflow\<rparr>))"

text \<open>\<open>delay_ticks\<close> of the fixture in its realtime mode (lib.rs).\<close>

definition fixture_delay_ticks :: "u64 \<Rightarrow> fixture \<Rightarrow> (delay_status \<times> fixture) res" where
  "fixture_delay_ticks ticks fx =
     (case advance_virtual_ticks ticks fx of
        None \<Rightarrow> Panic ''fixture overflow count overflowed u64''
      | Some fx' \<Rightarrow> Ok (DelayOk, fx'))"

definition fixture_mutex_create :: "fixture \<Rightarrow> nat option \<times> fixture" where
  "fixture_mutex_create fx =
     (if fx_fail_next_mutex_create fx then (None, fx\<lparr>fx_fail_next_mutex_create := False\<rparr>)
      else let i = fx_next_id fx in
        (Some i, fx\<lparr>fx_next_id := i + 1, fx_mutex_create_count := fx_mutex_create_count fx + 1,
           fx_mutexes := (fx_mutexes fx)(i \<mapsto> \<lparr>fm_locked = False, fm_owner = None,
             fm_deleted = False, fm_waiters = 0, fm_blocked_count = 0\<rparr>)\<rparr>))"

definition fixture_counting_semaphore_create :: "u32 \<Rightarrow> u32 \<Rightarrow> fixture \<Rightarrow> nat option \<times> fixture" where
  "fixture_counting_semaphore_create mx initial fx =
     (if fx_fail_next_sem_create fx then (None, fx\<lparr>fx_fail_next_sem_create := False\<rparr>)
      else let i = fx_next_id fx in
        (Some i, fx\<lparr>fx_next_id := i + 1, fx_sem_create_count := fx_sem_create_count fx + 1,
           fx_semaphores := (fx_semaphores fx)(i \<mapsto> \<lparr>fs_count = initial, fs_max_count = mx,
             fs_deleted = False, fs_waiters = 0, fs_blocked_count = 0\<rparr>)\<rparr>))"

definition fixture_binary_semaphore_create :: "fixture \<Rightarrow> nat option \<times> fixture" where
  "fixture_binary_semaphore_create fx = fixture_counting_semaphore_create 1 0 fx"

text \<open>One condition-variable wait: did it time out, and what others did meanwhile.\<close>

type_synonym wait_event = "bool \<times> (fixture \<Rightarrow> fixture)"

definition set_mutex :: "nat \<Rightarrow> fixture_mutex \<Rightarrow> fixture \<Rightarrow> fixture" where
  "set_mutex i e fx = fx\<lparr>fx_mutexes := (fx_mutexes fx)(i \<mapsto> e)\<rparr>"

definition set_sem :: "nat \<Rightarrow> fixture_semaphore \<Rightarrow> fixture \<Rightarrow> fixture" where
  "set_sem i e fx = fx\<lparr>fx_semaphores := (fx_semaphores fx)(i \<mapsto> e)\<rparr>"

definition with_ticks :: "u64 \<Rightarrow> take_status \<Rightarrow> fixture \<Rightarrow> (take_status \<times> fixture) res" where
  "with_ticks n s fx =
     (case advance_virtual_ticks n fx of
        None \<Rightarrow> Panic ''fixture overflow count overflowed u64''
      | Some fx' \<Rightarrow> Ok (s, fx'))"

text \<open>The loop of \<open>mutex_take\<close>; the outer \<open>None\<close> is a call that is still waiting when the
  listed waits are used up.\<close>

fun mutex_take_loop ::
  "nat \<Rightarrow> nat \<Rightarrow> u64 \<Rightarrow> wait_event list \<Rightarrow> fixture \<Rightarrow> (take_status \<times> fixture) res option" where
  "mutex_take_loop me i ticks ws fx =
     (case fx_mutexes fx i of
        None \<Rightarrow> Some (Panic ''mutex not found'')
      | Some e \<Rightarrow>
          if fm_deleted e then Some (Ok (TakeInvalid, fx))
          else if \<not> fm_locked e then
            Some (Ok (TakeAcquired, set_mutex i (e\<lparr>fm_locked := True, fm_owner := Some me\<rparr>) fx))
          else if fm_owner e = Some me then
            Some (if ticks > 0 then with_ticks ticks TakeTimeout fx else Ok (TakeTimeout, fx))
          else if ticks = 0 then Some (Ok (TakeTimeout, fx))
          else
            (case ws of
               [] \<Rightarrow> None
             | (timed_out, other) # ws' \<Rightarrow>
                 let wait_ticks = min ticks (fx_max_finite_wait fx);
                     fx1 = other (set_mutex i (e\<lparr>fm_waiters := fm_waiters e + 1,
                             fm_blocked_count := fm_blocked_count e + 1\<rparr>) fx)
                 in case fx_mutexes fx1 i of
                      None \<Rightarrow> Some (Panic ''called unwrap on None'')
                    | Some e1 \<Rightarrow>
                        let e2 = e1\<lparr>fm_blocked_count := fm_blocked_count e1 - 1,
                                    fm_waiters := fm_waiters e1 - 1\<rparr>;
                            fx2 = set_mutex i e2 fx1
                        in if timed_out then
                             (if \<not> fm_locked e2 then
                                Some (with_ticks wait_ticks TakeAcquired
                                  (set_mutex i (e2\<lparr>fm_locked := True, fm_owner := Some me\<rparr>) fx2))
                              else Some (with_ticks wait_ticks TakeTimeout fx2))
                           else
                             (case advance_virtual_ticks wait_ticks fx2 of
                                None \<Rightarrow> Some (Panic ''fixture overflow count overflowed u64'')
                              | Some fx3 \<Rightarrow> mutex_take_loop me i ticks ws' fx3)))"

definition fixture_mutex_take ::
  "nat \<Rightarrow> nat \<Rightarrow> u64 \<Rightarrow> wait_event list \<Rightarrow> fixture \<Rightarrow> (take_status \<times> fixture) res option" where
  "fixture_mutex_take me i ticks ws fx =
     mutex_take_loop me i ticks ws
       (fx\<lparr>fx_take_call_ticks := fx_take_call_ticks fx @ [ticks]\<rparr>)"

definition fixture_mutex_give :: "nat \<Rightarrow> nat \<Rightarrow> fixture \<Rightarrow> (give_status \<times> fixture) res" where
  "fixture_mutex_give me i fx =
     (let fx1 = fx\<lparr>fx_give_call_count := fx_give_call_count fx + 1\<rparr> in
      case fx_mutexes fx1 i of
        None \<Rightarrow> Panic ''mutex not found''
      | Some e \<Rightarrow>
          if fm_deleted e then Ok (GiveInvalid, fx1)
          else if \<not> fm_locked e \<or> fm_owner e \<noteq> Some me then Ok (GiveInvalid, fx1)
          else Ok (GiveOk, set_mutex i (e\<lparr>fm_locked := False, fm_owner := None\<rparr>) fx1))"

definition fixture_mutex_delete :: "nat \<Rightarrow> fixture \<Rightarrow> unit res \<times> fixture" where
  "fixture_mutex_delete i fx =
     (let fx1 = fx\<lparr>fx_mutex_delete_count := fx_mutex_delete_count fx + 1\<rparr> in
      case fx_mutexes fx1 i of
        Some e \<Rightarrow>
          if fm_locked e then (Panic ''cannot delete a held mutex'', fx1)
          else if fm_deleted e then (Panic ''mutex already deleted'', fx1)
          else (Ok (), fx1\<lparr>fx_mutexes := (fx_mutexes fx1)(i := None)\<rparr>)
      | None \<Rightarrow> (Ok (), fx1\<lparr>fx_mutexes := (fx_mutexes fx1)(i := None)\<rparr>))"

fun sem_take_loop ::
  "nat \<Rightarrow> u64 \<Rightarrow> wait_event list \<Rightarrow> fixture \<Rightarrow> (take_status \<times> fixture) res option" where
  "sem_take_loop i ticks ws fx =
     (case fx_semaphores fx i of
        None \<Rightarrow> Some (Panic ''semaphore not found'')
      | Some e \<Rightarrow>
          if fs_deleted e then Some (Ok (TakeInvalid, fx))
          else if fs_count e > 0 then
            Some (Ok (TakeAcquired, set_sem i (e\<lparr>fs_count := fs_count e - 1\<rparr>) fx))
          else if ticks = 0 then Some (Ok (TakeTimeout, fx))
          else
            (case ws of
               [] \<Rightarrow> None
             | (timed_out, other) # ws' \<Rightarrow>
                 let wait_ticks = min ticks (fx_max_finite_wait fx);
                     fx1 = other (set_sem i (e\<lparr>fs_waiters := fs_waiters e + 1,
                             fs_blocked_count := fs_blocked_count e + 1\<rparr>) fx)
                 in case fx_semaphores fx1 i of
                      None \<Rightarrow> Some (Panic ''called unwrap on None'')
                    | Some e1 \<Rightarrow>
                        let e2 = e1\<lparr>fs_blocked_count := fs_blocked_count e1 - 1,
                                    fs_waiters := fs_waiters e1 - 1\<rparr>;
                            fx2 = set_sem i e2 fx1
                        in if timed_out then
                             (if fs_count e2 > 0 then
                                Some (with_ticks wait_ticks TakeAcquired
                                  (set_sem i (e2\<lparr>fs_count := fs_count e2 - 1\<rparr>) fx2))
                              else Some (with_ticks wait_ticks TakeTimeout fx2))
                           else
                             (case advance_virtual_ticks wait_ticks fx2 of
                                None \<Rightarrow> Some (Panic ''fixture overflow count overflowed u64'')
                              | Some fx3 \<Rightarrow> sem_take_loop i ticks ws' fx3)))"

definition semaphore_take_realtime ::
  "nat \<Rightarrow> u64 \<Rightarrow> wait_event list \<Rightarrow> fixture \<Rightarrow> (take_status \<times> fixture) res option" where
  "semaphore_take_realtime i ticks ws fx =
     sem_take_loop i ticks ws (fx\<lparr>fx_take_call_ticks := fx_take_call_ticks fx @ [ticks]\<rparr>)"

definition fixture_semaphore_give :: "nat \<Rightarrow> fixture \<Rightarrow> (give_status \<times> fixture) res" where
  "fixture_semaphore_give i fx =
     (let fx1 = fx\<lparr>fx_give_call_count := fx_give_call_count fx + 1\<rparr> in
      case fx_semaphores fx1 i of
        None \<Rightarrow> Panic ''semaphore not found''
      | Some e \<Rightarrow>
          if fs_deleted e then Ok (GiveInvalid, fx1)
          else if fs_count e \<ge> fs_max_count e then Ok (GiveFull, fx1)
          else Ok (GiveOk, set_sem i (e\<lparr>fs_count := fs_count e + 1\<rparr>) fx1))"

definition fixture_semaphore_count :: "nat \<Rightarrow> fixture \<Rightarrow> u64" where
  "fixture_semaphore_count i fx =
     (case fx_semaphores fx i of None \<Rightarrow> 0 | Some e \<Rightarrow> ucast (fs_count e))"

definition fixture_semaphore_delete :: "nat \<Rightarrow> fixture \<Rightarrow> fixture" where
  "fixture_semaphore_delete i fx =
     fx\<lparr>fx_sem_delete_count := fx_sem_delete_count fx + 1,
        fx_semaphores := (fx_semaphores fx)(i := None)\<rparr>"

section \<open>The tick counter\<close>

definition fixture_ticks :: "fixture \<Rightarrow> nat" where
  "fixture_ticks fx = total_ticks (read_tick_fixture fx) (unat (fx_tick_bits fx))"

definition fixture_clock_ok :: "fixture \<Rightarrow> bool" where
  "fixture_clock_ok fx =
     (unat (fx_tick_bits fx) \<le> 64 \<and> coherent (read_tick_fixture fx) (unat (fx_tick_bits fx)))"

text \<open>Advancing moves the expanded tick total by exactly the given ticks, across any number
  of counter wraps.\<close>

lemma advance_virtual_ticks_total:
  assumes "fixture_clock_ok fx"
    and "fixture_ticks fx + unat n < 2 ^ (64 + unat (fx_tick_bits fx))"
  shows "\<exists>fx'. advance_virtual_ticks n fx = Some fx' \<and> fixture_ticks fx' = fixture_ticks fx + unat n
    \<and> fixture_clock_ok fx' \<and> fx_semaphores fx' = fx_semaphores fx \<and> fx_mutexes fx' = fx_mutexes fx
    \<and> fx_tick_bits fx' = fx_tick_bits fx \<and> fx_max_finite_wait fx' = fx_max_finite_wait fx"
proof -
  define w where "w = unat (fx_tick_bits fx)"
  define c where "c = unat (fx_tick_count fx)"
  define ov where "ov = unat (fx_tick_overflow fx)"
  define t where "t = c + unat n"
  have w: "w \<le> 64" and c: "c < 2 ^ w"
    using assms(1) by (simp_all add: fixture_clock_ok_def coherent_def read_tick_fixture_def w_def c_def)
  have total: "ov * 2 ^ w + t < 2 ^ 64 * 2 ^ w"
    using assms(2) by (simp add: fixture_ticks_def total_ticks_def read_tick_fixture_def w_def c_def
      ov_def t_def power_add ac_simps)
  have "(ov + t div 2 ^ w) * 2 ^ w \<le> ov * 2 ^ w + t" by (simp add: algebra_simps)
  then have "(ov + t div 2 ^ w) * 2 ^ w < 2 ^ 64 * 2 ^ w" using total by linarith
  then have ovf: "ov + t div 2 ^ w < 2 ^ 64" by simp
  have small: "t mod 2 ^ w < 2 ^ w" by simp
  moreover have "(2 :: nat) ^ w \<le> 2 ^ 64" using w by (rule power_increasing) simp
  ultimately have m64: "t mod 2 ^ w < 2 ^ 64" by linarith
  let ?fx' = "fx\<lparr>fx_tick_count := word_of_nat (t mod 2 ^ w),
                 fx_tick_overflow := word_of_nat (ov + t div 2 ^ w)\<rparr>"
  have adv: "advance_virtual_ticks n fx = Some ?fx'"
    using ovf by (simp add: advance_virtual_ticks_def checked_add_def Let_def u64_max_def
      flip: w_def c_def ov_def t_def)
  note u = unat_of_nat_u64 [OF m64] unat_of_nat_u64 [OF ovf]
  have "fixture_ticks ?fx' = (ov + t div 2 ^ w) * 2 ^ w + t mod 2 ^ w"
    by (simp add: fixture_ticks_def total_ticks_def read_tick_fixture_def u flip: w_def
      del: of_nat_add)
  also have "\<dots> = fixture_ticks fx + unat n"
    by (simp add: fixture_ticks_def total_ticks_def read_tick_fixture_def add_mult_distrib
      flip: w_def c_def ov_def) (simp only: t_def [symmetric] div_mult_mod_eq)
  finally have "fixture_ticks ?fx' = fixture_ticks fx + unat n" .
  moreover have "fixture_clock_ok ?fx'"
    using w small by (simp add: fixture_clock_ok_def coherent_def read_tick_fixture_def u flip: w_def
      del: of_nat_add)
  ultimately show ?thesis using adv by (intro exI [of _ ?fx']) simp
qed

section \<open>The native semaphore meets the semaphore interface\<close>

definition fixture_sem_ok :: "nat \<Rightarrow> fixture \<Rightarrow> bool" where
  "fixture_sem_ok i fx =
     (case fx_semaphores fx i of None \<Rightarrow> False
      | Some e \<Rightarrow> \<not> fs_deleted e \<and> fs_count e \<le> fs_max_count e)"

definition fixture_try_take :: "nat \<Rightarrow> fixture \<Rightarrow> bool \<times> fixture" where
  "fixture_try_take i fx =
     (case semaphore_take_realtime i 0 [] fx of
        Some (Ok (s, fx')) \<Rightarrow> (s = TakeAcquired, fx') | _ \<Rightarrow> (False, fx))"

definition fixture_give :: "nat \<Rightarrow> fixture \<Rightarrow> bool \<times> fixture" where
  "fixture_give i fx =
     (case fixture_semaphore_give i fx of Ok (s, fx') \<Rightarrow> (s = GiveOk, fx') | _ \<Rightarrow> (False, fx))"

definition fixture_count :: "nat \<Rightarrow> fixture \<Rightarrow> nat" where
  "fixture_count i fx = unat (fixture_semaphore_count i fx)"

definition fixture_max :: "nat \<Rightarrow> fixture \<Rightarrow> nat" where
  "fixture_max i fx = (case fx_semaphores fx i of None \<Rightarrow> 0 | Some e \<Rightarrow> unat (fs_max_count e))"

lemma unat_ucast_u32: "unat (ucast (x :: u32) :: u64) = unat x"
proof -
  have "unat x < 2 ^ 64" by (rule less_trans [OF unat_u32_less]) simp
  then show ?thesis by (simp add: unsigned_ucast_eq take_bit_nat_eq_self)
qed

lemma fixture_sem_okE:
  assumes "fixture_sem_ok i fx"
  obtains e where "fx_semaphores fx i = Some e" "\<not> fs_deleted e" "fs_count e \<le> fs_max_count e"
    "fixture_count i fx = unat (fs_count e)" "fixture_max i fx = unat (fs_max_count e)"
  using assms
  by (auto simp: fixture_sem_ok_def fixture_count_def fixture_semaphore_count_def fixture_max_def
    unat_ucast_u32 split: option.splits)

interpretation fixsem: counting_semaphore "fixture_try_take i" "fixture_give i" "fixture_count i"
  "fixture_max i" "fixture_sem_ok i"
  for i
proof
  fix fx assume "fixture_sem_ok i fx"
  then show "fixture_count i fx \<le> fixture_max i fx"
    by (elim fixture_sem_okE) (simp add: word_le_nat_alt)
next
  fix fx ok fx' assume inv: "fixture_sem_ok i fx" and t: "fixture_try_take i fx = (ok, fx')"
  from inv obtain e where e: "fx_semaphores fx i = Some e" "\<not> fs_deleted e"
    "fs_count e \<le> fs_max_count e" "fixture_count i fx = unat (fs_count e)"
    "fixture_max i fx = unat (fs_max_count e)" by (rule fixture_sem_okE)
  let ?l = "fx\<lparr>fx_take_call_ticks := fx_take_call_ticks fx @ [0]\<rparr>"
  show "fixture_sem_ok i fx' \<and> fixture_max i fx' = fixture_max i fx \<and> ok = (0 < fixture_count i fx)
      \<and> fixture_count i fx' = (if ok then fixture_count i fx - 1 else fixture_count i fx)"
  proof (cases "fs_count e = 0")
    case True
    then have "ok = False" "fx' = ?l"
      using t e by (auto simp: fixture_try_take_def semaphore_take_realtime_def)
    then show ?thesis
      using True e by (simp add: fixture_sem_ok_def fixture_count_def fixture_semaphore_count_def
        fixture_max_def)
  next
    case False
    then have p: "0 < fs_count e" by (simp add: word_gt_0)
    then have ok: "ok" "fx' = set_sem i (e\<lparr>fs_count := fs_count e - 1\<rparr>) ?l"
      using t e by (auto simp: fixture_try_take_def semaphore_take_realtime_def)
    have d: "unat (fs_count e - 1) = unat (fs_count e) - 1" using p by (rule unat_dec)
    then have "fs_count e - 1 \<le> fs_max_count e" using e(3) by (simp add: word_le_nat_alt)
    then show ?thesis
      using ok e p d by (simp add: fixture_sem_ok_def fixture_count_def fixture_semaphore_count_def
        fixture_max_def set_sem_def unat_ucast_u32 word_less_nat_alt)
  qed
next
  fix fx ok fx' assume inv: "fixture_sem_ok i fx" and t: "fixture_give i fx = (ok, fx')"
  from inv obtain e where e: "fx_semaphores fx i = Some e" "\<not> fs_deleted e"
    "fs_count e \<le> fs_max_count e" "fixture_count i fx = unat (fs_count e)"
    "fixture_max i fx = unat (fs_max_count e)" by (rule fixture_sem_okE)
  let ?l = "fx\<lparr>fx_give_call_count := fx_give_call_count fx + 1\<rparr>"
  show "fixture_sem_ok i fx' \<and> fixture_max i fx' = fixture_max i fx
      \<and> ok = (fixture_count i fx < fixture_max i fx)
      \<and> fixture_count i fx' = (if ok then fixture_count i fx + 1 else fixture_count i fx)"
  proof (cases "fs_count e < fs_max_count e")
    case False
    then have "\<not> ok" "fx' = ?l"
      using t e by (auto simp: fixture_give_def fixture_semaphore_give_def Let_def not_less)
    then show ?thesis
      using False e by (simp add: fixture_sem_ok_def fixture_count_def fixture_semaphore_count_def
        fixture_max_def word_less_nat_alt)
  next
    case True
    then have "\<not> fs_max_count e \<le> fs_count e" by (simp add: not_le)
    then have ok: "ok" "fx' = set_sem i (e\<lparr>fs_count := fs_count e + 1\<rparr>) ?l"
      using t e(1,2) by (auto simp: fixture_give_def fixture_semaphore_give_def Let_def)
    have d: "unat (fs_count e + 1) = unat (fs_count e) + 1" using True by (rule unat_inc)
    then have "fs_count e + 1 \<le> fs_max_count e" using True by (simp add: word_le_nat_alt word_less_nat_alt)
    then show ?thesis
      using ok e True d by (simp add: fixture_sem_ok_def fixture_count_def fixture_semaphore_count_def
        fixture_max_def set_sem_def unat_ucast_u32 word_less_nat_alt)
  qed
qed

end
