(* ===== verification/Freertos_Wait.thy ===== *)
theory Freertos_Wait
  imports Freertos_Kernel Time_Convert
begin

text \<open>
  src/crates/osal-backend-freertos/src/wait.rs and clock.rs: the tick clock, the chunked
  delay, the wait budget and the absolute-deadline loop that every blocking operation of the
  backend uses. The native calls are arguments on an abstract kernel state \<open>'k\<close>; what is
  relied on of them (time passes while a call blocks) is the locale \<open>tick_kernel\<close>, which the
  fixture's semaphore interprets.
\<close>

section \<open>Clock (clock.rs)\<close>

definition freertos_now :: "'k kernel \<Rightarrow> 'k \<Rightarrow> duration res" where
  "freertos_now K k =
     (case kn_caps K of
        None \<Rightarrow> Panic ''FreeRtosClock::now requires osal::initialize() to be called first''
      | Some caps \<Rightarrow>
          (case snapshot_to_duration (kn_snapshot K k)
                  \<lparr>rate_hz = cap_tick_rate_hz caps, tick_bits = cap_tick_bits caps\<rparr> of
             Ok d \<Rightarrow> Ok d
           | _ \<Rightarrow> Panic ''tick snapshot -> Duration conversion failed (bad capability data)''))"

text \<open>The chunk loop of \<open>delay\<close>; \<open>delay_ticks\<close> is the native call. The result is the kernel
  state or a panic, or \<open>None\<close> for a loop that does not end.\<close>

partial_function (option) delay_loop ::
  "(u64 \<Rightarrow> 'k \<Rightarrow> delay_status \<times> 'k) \<Rightarrow> nat \<Rightarrow> nat \<Rightarrow> 'k \<Rightarrow> 'k res option" where
  "delay_loop delay_ticks max_payload remaining k =
     (if remaining = 0 then Some (Ok k)
      else
        let payload = min remaining max_payload in
        case checked_add u128_max payload 1 of
          None \<Rightarrow> Some (Panic ''guard tick overflowed u128'')
        | Some native_ticks \<Rightarrow>
            (case delay_ticks (word_of_nat native_ticks) k of
               (DelayOk, k') \<Rightarrow> delay_loop delay_ticks max_payload (remaining - payload) k'
             | _ \<Rightarrow> Some (Panic ''FreeRtosClock::delay failed'')))"

definition freertos_delay ::
  "'k kernel \<Rightarrow> (u64 \<Rightarrow> 'k \<Rightarrow> delay_status \<times> 'k) \<Rightarrow> duration \<Rightarrow> 'k \<Rightarrow> 'k res option" where
  "freertos_delay K delay_ticks d k =
     (if is_zero d then Some (Ok k)
      else if kn_scheduler K k \<noteq> SchedRunning then
        Some (Panic ''FreeRtosClock::delay requires a running scheduler and task context'')
      else case kn_caps K of
        None \<Rightarrow> Some (Panic ''FreeRtosClock::delay requires osal::initialize() to be called first'')
      | Some caps \<Rightarrow>
          (case duration_to_ticks_ceil d (cap_tick_rate_hz caps) of
             Ok ceil_ticks \<Rightarrow>
               (case checked_sub (unat (kn_max_finite K)) 1 of
                  None \<Rightarrow> Some (Panic ''FreeRTOS max_finite_delay_ticks too small for guard tick'')
                | Some max_payload \<Rightarrow> delay_loop delay_ticks max_payload ceil_ticks k)
           | _ \<Rightarrow> Some (Panic ''duration -> ticks conversion overflowed'')))"

section \<open>Wait budget (wait.rs)\<close>

datatype wait_outcome = Acquired | Unavailable

datatype wait_budget =
    BudgetNoWait
  | BudgetZero
  | BudgetFinite duration "duration option" bool
  | BudgetForever bool

definition budget_new :: "timeout \<Rightarrow> wait_budget" where
  "budget_new t =
     (case t of
        NoWait \<Rightarrow> BudgetNoWait
      | After d \<Rightarrow> if d = duration_zero then BudgetZero else BudgetFinite d None False
      | Forever \<Rightarrow> BudgetForever False)"

definition ensure_blocking_allowed :: "'k kernel \<Rightarrow> 'k \<Rightarrow> unit res" where
  "ensure_blocking_allowed K k =
     (case kn_scheduler K k of
        SchedRunning \<Rightarrow> Ok ()
      | SchedNotStarted \<Rightarrow> Err NotInitialized
      | SchedSuspended \<Rightarrow> Err Busy
      | SchedUnknown _ \<Rightarrow> Err (Internal ''unknown FreeRTOS scheduler state''))"

definition budget_deadline :: "'k kernel \<Rightarrow> 'k \<Rightarrow> duration \<Rightarrow> duration option \<Rightarrow> duration res" where
  "budget_deadline K k d dl =
     (case dl of
        Some v \<Rightarrow> Ok v
      | None \<Rightarrow> res_bind (freertos_now K k) (\<lambda>now. ok_or (dur_checked_add now d) Overflow))"

definition prepare_blocking :: "'k kernel \<Rightarrow> 'k \<Rightarrow> wait_budget \<Rightarrow> unit res \<times> wait_budget" where
  "prepare_blocking K k b =
     (case b of
        BudgetNoWait \<Rightarrow> (Ok (), b)
      | BudgetZero \<Rightarrow> (Ok (), b)
      | BudgetFinite d dl prepared \<Rightarrow>
          (case ensure_blocking_allowed K k of
             Ok _ \<Rightarrow>
               (case budget_deadline K k d dl of
                  Ok v \<Rightarrow> (Ok (), BudgetFinite d (Some v) True)
                | Err e \<Rightarrow> (Err e, b)
                | Panic s \<Rightarrow> (Panic s, b))
           | Err e \<Rightarrow> (Err e, b)
           | Panic s \<Rightarrow> (Panic s, b))
      | BudgetForever prepared \<Rightarrow>
          (case ensure_blocking_allowed K k of
             Ok _ \<Rightarrow> (Ok (), BudgetForever True)
           | Err e \<Rightarrow> (Err e, b)
           | Panic s \<Rightarrow> (Panic s, b)))"

section \<open>The loops (wait.rs)\<close>

text \<open>\<open>None\<close> is a wait that never returns.\<close>

partial_function (option) deadline_loop ::
  "'k kernel \<Rightarrow> (u64 \<Rightarrow> 'k \<Rightarrow> take_status \<times> 'k) \<Rightarrow> u32 \<Rightarrow> nat \<Rightarrow> duration \<Rightarrow> 'k
    \<Rightarrow> (wait_outcome res \<times> 'k) option" where
  "deadline_loop K tk rate max_payload deadline k =
     (case tk 0 k of (s0, k0) \<Rightarrow>
      if s0 = TakeAcquired then Some (Ok Acquired, k0)
      else case freertos_now K k0 of
        Ok now \<Rightarrow>
          if now \<ge> deadline then Some (Ok Unavailable, k0)
          else
            (case duration_to_ticks_ceil (dur_saturating_sub deadline now) rate of
               Ok payload_ticks \<Rightarrow>
                 (case checked_add u128_max (min payload_ticks max_payload) 1 of
                    None \<Rightarrow> Some (Panic ''guard tick overflowed u128'', k0)
                  | Some native_ticks \<Rightarrow>
                      (case tk (word_of_nat native_ticks) k0 of
                         (TakeAcquired, k1) \<Rightarrow> Some (Ok Acquired, k1)
                       | (TakeTimeout, k1) \<Rightarrow> deadline_loop K tk rate max_payload deadline k1
                       | (TakeInvalid, k1) \<Rightarrow>
                           Some (Panic ''FreeRTOS take returned Invalid on a live handle'', k1)))
             | _ \<Rightarrow> Some (Err Overflow, k0))
      | Err e \<Rightarrow> Some (Err e, k0)
      | Panic m \<Rightarrow> Some (Panic m, k0))"

definition wait_deadline_loop ::
  "'k kernel \<Rightarrow> (u64 \<Rightarrow> 'k \<Rightarrow> take_status \<times> 'k) \<Rightarrow> duration \<Rightarrow> 'k \<Rightarrow> (wait_outcome res \<times> 'k) option" where
  "wait_deadline_loop K tk deadline k =
     (case kn_caps K of
        None \<Rightarrow> Some (Panic ''wait requires osal::initialize()'', k)
      | Some caps \<Rightarrow>
          (case checked_sub (unat (kn_max_finite K)) 1 of
             None \<Rightarrow> Some (Panic ''max_finite_delay_ticks too small for guard tick'', k)
           | Some max_payload \<Rightarrow>
               deadline_loop K tk (cap_tick_rate_hz caps) max_payload deadline k))"

partial_function (option) wait_forever ::
  "'k kernel \<Rightarrow> (u64 \<Rightarrow> 'k \<Rightarrow> take_status \<times> 'k) \<Rightarrow> 'k \<Rightarrow> (wait_outcome res \<times> 'k) option" where
  "wait_forever K tk k =
     (case tk (kn_max_finite K) k of
        (TakeAcquired, k1) \<Rightarrow> Some (Ok Acquired, k1)
      | (TakeTimeout, k1) \<Rightarrow> wait_forever K tk k1
      | (TakeInvalid, k1) \<Rightarrow> Some (Panic ''FreeRTOS take returned Invalid on a live handle'', k1))"

definition take_once :: "(u64 \<Rightarrow> 'k \<Rightarrow> take_status \<times> 'k) \<Rightarrow> 'k \<Rightarrow> wait_outcome res \<times> 'k" where
  "take_once tk k =
     (case tk 0 k of
        (TakeAcquired, k1) \<Rightarrow> (Ok Acquired, k1)
      | (TakeTimeout, k1) \<Rightarrow> (Ok Unavailable, k1)
      | (TakeInvalid, k1) \<Rightarrow> (Panic ''FreeRTOS take returned Invalid on a live handle'', k1))"

text \<open>\<open>wait_once\<close> returns the outcome, the updated budget and the kernel state.\<close>

definition wait_once ::
  "'k kernel \<Rightarrow> (u64 \<Rightarrow> 'k \<Rightarrow> take_status \<times> 'k) \<Rightarrow> wait_budget \<Rightarrow> 'k
    \<Rightarrow> (wait_outcome res \<times> wait_budget \<times> 'k) option" where
  "wait_once K tk b k =
     (case b of
        BudgetNoWait \<Rightarrow> (case take_once tk k of (r, k1) \<Rightarrow> Some (r, b, k1))
      | BudgetZero \<Rightarrow> (case take_once tk k of (r, k1) \<Rightarrow> Some (r, b, k1))
      | BudgetFinite d dl prepared \<Rightarrow>
          (case (if prepared then Ok () else ensure_blocking_allowed K k) of
             Ok _ \<Rightarrow>
               (case budget_deadline K k d dl of
                  Ok v \<Rightarrow>
                    map_option (\<lambda>(r, k1). (r, BudgetFinite d (Some v) prepared, k1))
                      (wait_deadline_loop K tk v k)
                | Err e \<Rightarrow> Some (Err e, b, k)
                | Panic s \<Rightarrow> Some (Panic s, b, k))
           | Err e \<Rightarrow> Some (Err e, b, k)
           | Panic s \<Rightarrow> Some (Panic s, b, k))
      | BudgetForever prepared \<Rightarrow>
          (case (if prepared then Ok () else ensure_blocking_allowed K k) of
             Ok _ \<Rightarrow> map_option (\<lambda>(r, k1). (r, b, k1)) (wait_forever K tk k)
           | Err e \<Rightarrow> Some (Err e, b, k)
           | Panic s \<Rightarrow> Some (Panic s, b, k)))"

definition wait_native ::
  "'k kernel \<Rightarrow> (u64 \<Rightarrow> 'k \<Rightarrow> take_status \<times> 'k) \<Rightarrow> timeout \<Rightarrow> 'k \<Rightarrow> (wait_outcome res \<times> 'k) option" where
  "wait_native K tk t k =
     map_option (\<lambda>(r, _, k1). (r, k1)) (wait_once K tk (budget_new t) k)"

section \<open>What is relied on of the kernel\<close>

definition kernel_ticks :: "'k kernel \<Rightarrow> 'k \<Rightarrow> nat" where
  "kernel_ticks K k = total_ticks (kn_snapshot K k) (unat (cap_tick_bits (the (kn_caps K))))"

definition tick_horizon :: "'k kernel \<Rightarrow> nat" where
  "tick_horizon K = 2 ^ (64 + unat (cap_tick_bits (the (kn_caps K))))"

text \<open>The least tick total at which a deadline has passed.\<close>

definition deadline_ticks :: "u32 \<Rightarrow> duration \<Rightarrow> nat" where
  "deadline_ticks rate d = (as_nanos d * unat rate + (nanos_per_sec - 1)) div nanos_per_sec"

text \<open>The clock of an initialized runtime: a valid configuration, room for the guard tick and
  coherent snapshots.\<close>

locale kernel_clock =
  fixes K :: "'k kernel" and caps :: capabilities and invar :: "'k \<Rightarrow> bool"
  assumes caps_cached: "kn_caps K = Some caps"
    and config: "valid_config \<lparr>rate_hz = cap_tick_rate_hz caps, tick_bits = cap_tick_bits caps\<rparr>"
    and max_finite: "2 \<le> unat (kn_max_finite K)"
    and snapshot_coherent: "invar k \<Longrightarrow> coherent (kn_snapshot K k) (unat (cap_tick_bits caps))"
begin

lemma rate_nonzero: "cap_tick_rate_hz caps \<noteq> 0" "0 < unat (cap_tick_rate_hz caps)"
  using config by (simp_all add: valid_config_def unat_gt_0)

lemma now_value:
  "invar k \<Longrightarrow> freertos_now K k
     = Ok (of_nanos (tick_nanos (kernel_ticks K k) (unat (cap_tick_rate_hz caps))))"
  using caps_cached snapshot_to_duration_value [OF config] snapshot_coherent
  by (simp add: freertos_now_def kernel_ticks_def)

lemma ticks_below_horizon: "invar k \<Longrightarrow> kernel_ticks K k < tick_horizon K"
proof -
  assume "invar k"
  let ?w = "unat (cap_tick_bits caps)" and ?s = "kn_snapshot K k"
  have "unat (tick_count ?s) < 2 ^ ?w" using snapshot_coherent [OF \<open>invar k\<close>] by (simp add: coherent_def)
  then have "total_ticks ?s ?w < (unat (overflow_count ?s) + 1) * 2 ^ ?w"
    by (simp add: total_ticks_def)
  also have "\<dots> \<le> 2 ^ 64 * 2 ^ ?w"
    using unat_u64_less [of "overflow_count ?s"] by (intro mult_le_mono1) simp
  finally show ?thesis
    using caps_cached by (simp add: kernel_ticks_def tick_horizon_def power_add)
qed

lemma deadline_passed:
  assumes "deadline_ticks (cap_tick_rate_hz caps) d \<le> t"
  shows "as_nanos d \<le> tick_nanos t (unat (cap_tick_rate_hz caps))"
proof -
  have "as_nanos d * unat (cap_tick_rate_hz caps) \<le> t * nanos_per_sec"
    using assms unfolding deadline_ticks_def by (subst (asm) ceil_div_le_iff) (simp_all add: nanos_per_sec_def)
  then have "as_nanos d \<le> t * nanos_per_sec div unat (cap_tick_rate_hz caps)"
    using rate_nonzero(2) by (simp add: less_eq_div_iff_mult_less_eq)
  then show ?thesis using as_nanos_le [of d] by (simp add: tick_nanos_def)
qed

lemma max_payload: "checked_sub (unat (kn_max_finite K)) 1 = Some (unat (kn_max_finite K) - 1)"
  using max_finite by (simp add: checked_sub_def)

text \<open>The chunk handed to the kernel fits the native type and stays finite.\<close>

lemma native_chunk:
  assumes "p \<le> unat (kn_max_finite K) - 1"
  shows "checked_add u128_max p 1 = Some (p + 1)"
    and "unat (word_of_nat (p + 1) :: u64) = p + 1" and "p + 1 \<le> unat (kn_max_finite K)"
proof -
  show le: "p + 1 \<le> unat (kn_max_finite K)" using assms max_finite by linarith
  have "unat (kn_max_finite K) < 2 ^ 64" by (rule unat_u64_less)
  then have lt: "p + 1 < 2 ^ 64" using le by linarith
  then show "unat (word_of_nat (p + 1) :: u64) = p + 1" by (rule unat_of_nat_u64)
  show "checked_add u128_max p 1 = Some (p + 1)" using lt by (simp add: checked_add_def u128_max_def)
qed

end

text \<open>A native take: it never reports an invalid handle, and a take of \<open>n\<close> ticks that times
  out has let at least \<open>n - 1\<close> tick interrupts pass (the first may come at once).\<close>

locale tick_kernel = kernel_clock K caps invar
  for K :: "'k kernel" and caps and invar +
  fixes tk :: "u64 \<Rightarrow> 'k \<Rightarrow> take_status \<times> 'k"
  assumes take_law: "invar k \<Longrightarrow> unat n \<le> unat (kn_max_finite K) \<Longrightarrow>
      kernel_ticks K k + unat n < tick_horizon K \<Longrightarrow> tk n k = (s, k') \<Longrightarrow>
      invar k' \<and> s \<noteq> TakeInvalid \<and> kernel_ticks K k \<le> kernel_ticks K k'
      \<and> (s = TakeTimeout \<longrightarrow> kernel_ticks K k + (unat n - 1) \<le> kernel_ticks K k')"
begin

lemma deadline_loop_returns:
  assumes "invar k" and "deadline_ticks (cap_tick_rate_hz caps) d + unat (kn_max_finite K) < tick_horizon K"
  shows "\<exists>r k'. deadline_loop K tk (cap_tick_rate_hz caps) (unat (kn_max_finite K) - 1) d k = Some (r, k')
    \<and> invar k' \<and> (r = Ok Acquired \<or> r = Ok Unavailable \<and> (\<exists>now. freertos_now K k' = Ok now \<and> d \<le> now))"
  using assms(1)
proof (induction "deadline_ticks (cap_tick_rate_hz caps) d - kernel_ticks K k" arbitrary: k rule: less_induct)
  case less
  let ?hz = "cap_tick_rate_hz caps" and ?mx = "unat (kn_max_finite K)"
  obtain s0 k0 where t0: "tk 0 k = (s0, k0)" by (cases "tk 0 k")
  have law0: "invar k0" "s0 \<noteq> TakeInvalid" "kernel_ticks K k \<le> kernel_ticks K k0"
    using take_law [OF less.prems _ _ t0] ticks_below_horizon [OF less.prems] by simp_all
  define now where "now = of_nanos (tick_nanos (kernel_ticks K k0) (unat ?hz))"
  have now: "freertos_now K k0 = Ok now" using now_value [OF law0(1)] by (simp add: now_def)
  show ?case
  proof (cases "s0 = TakeAcquired \<or> d \<le> now")
    case True
    then show ?thesis using t0 law0(1) now by (subst deadline_loop.simps) auto
  next
    case False
    define rem where "rem = dur_saturating_sub d now"
    define pt where "pt = (as_nanos rem * unat ?hz + (nanos_per_sec - 1)) div nanos_per_sec"
    have ceil: "duration_to_ticks_ceil rem ?hz = Ok pt"
      using duration_to_ticks_ceil_value [OF rate_nonzero(1)] by (simp add: pt_def)
    have "0 < as_nanos rem" using False by (simp add: rem_def duration_order not_le)
    then have "0 < as_nanos rem * unat ?hz" using rate_nonzero(2) by simp
    then have "\<not> pt \<le> 0"
      unfolding pt_def by (subst ceil_div_le_iff) (simp_all add: nanos_per_sec_def)
    then have p: "1 \<le> min pt (?mx - 1)" using max_finite by simp
    note nc = native_chunk [of "min pt (?mx - 1)"]
    have behind: "kernel_ticks K k0 < deadline_ticks (cap_tick_rate_hz caps) d"
    proof (rule ccontr)
      assume "\<not> kernel_ticks K k0 < deadline_ticks (cap_tick_rate_hz caps) d"
      then have "as_nanos d \<le> tick_nanos (kernel_ticks K k0) (unat ?hz)"
        by (intro deadline_passed) simp
      then show False using False by (simp add: now_def duration_order)
    qed
    obtain s1 k1 where t1: "tk (word_of_nat (min pt (?mx - 1) + 1)) k0 = (s1, k1)"
      by (cases "tk (word_of_nat (min pt (?mx - 1) + 1)) k0")
    have hor: "kernel_ticks K k0 + unat (word_of_nat (min pt (?mx - 1) + 1) :: u64) < tick_horizon K"
      unfolding nc(2) [OF min.cobounded2] using nc(3) [OF min.cobounded2] behind assms(2) by linarith
    have law1: "invar k1" "s1 \<noteq> TakeInvalid"
      "s1 = TakeTimeout \<Longrightarrow> kernel_ticks K k0 + min pt (?mx - 1) \<le> kernel_ticks K k1"
      using take_law [OF law0(1) _ hor t1] nc(2,3) [OF min.cobounded2] by simp_all
    have step: "deadline_loop K tk ?hz (?mx - 1) d k =
      (case s1 of TakeAcquired \<Rightarrow> Some (Ok Acquired, k1)
       | TakeTimeout \<Rightarrow> deadline_loop K tk ?hz (?mx - 1) d k1
       | TakeInvalid \<Rightarrow> Some (Panic ''FreeRTOS take returned Invalid on a live handle'', k1))"
      using t0 now False ceil nc(1) [OF min.cobounded2] t1
      by (subst deadline_loop.simps) (simp add: rem_def split: take_status.splits)
    show ?thesis
    proof (cases s1)
      case TakeAcquired
      then show ?thesis using step law1(1) by simp
    next
      case TakeTimeout
      have "deadline_ticks (cap_tick_rate_hz caps) d - kernel_ticks K k1 < deadline_ticks (cap_tick_rate_hz caps) d - kernel_ticks K k"
        using law1(3) [OF TakeTimeout] p behind law0(3) by linarith
      from less.hyps [OF this law1(1)] show ?thesis using step TakeTimeout by simp
    next
      case TakeInvalid
      then show ?thesis using law1(2) by simp
    qed
  qed
qed

lemma wait_deadline_loop_returns:
  assumes "invar k" and "deadline_ticks (cap_tick_rate_hz caps) d + unat (kn_max_finite K) < tick_horizon K"
  shows "\<exists>r k'. wait_deadline_loop K tk d k = Some (r, k') \<and> invar k'
    \<and> (r = Ok Acquired \<or> r = Ok Unavailable \<and> (\<exists>now. freertos_now K k' = Ok now \<and> d \<le> now))"
  using deadline_loop_returns [OF assms] caps_cached max_payload by (simp add: wait_deadline_loop_def)

end

text \<open>A native delay of \<open>n\<close> ticks lets at least \<open>n - 1\<close> tick interrupts pass.\<close>

locale delay_kernel = kernel_clock K caps invar
  for K :: "'k kernel" and caps and invar +
  fixes delay_ticks :: "u64 \<Rightarrow> 'k \<Rightarrow> delay_status \<times> 'k"
  assumes delay_law: "invar k \<Longrightarrow> 1 \<le> unat n \<Longrightarrow> unat n \<le> unat (kn_max_finite K) \<Longrightarrow>
      kernel_ticks K k + unat n < tick_horizon K \<Longrightarrow>
      \<exists>k'. delay_ticks n k = (DelayOk, k') \<and> invar k'
        \<and> kernel_ticks K k + (unat n - 1) \<le> kernel_ticks K k'
        \<and> kernel_ticks K k' \<le> kernel_ticks K k + unat n"
begin

text \<open>The chunks sum up to the requested ticks; with the guard ticks they take at most twice
  as long, which bounds how far the counter runs.\<close>

lemma delay_loop_returns:
  assumes "invar k" and "kernel_ticks K k + 2 * n < tick_horizon K"
  shows "\<exists>k'. delay_loop delay_ticks (unat (kn_max_finite K) - 1) n k = Some (Ok k') \<and> invar k'
    \<and> kernel_ticks K k + n \<le> kernel_ticks K k'"
  using assms
proof (induction n arbitrary: k rule: less_induct)
  case (less n)
  show ?case
  proof (cases "n = 0")
    case True
    then show ?thesis using less.prems by (subst delay_loop.simps) simp
  next
    case False
    let ?p = "min n (unat (kn_max_finite K) - 1)"
    note nc = native_chunk [of ?p]
    have p: "1 \<le> ?p" "?p \<le> n" using False max_finite by simp_all
    have "kernel_ticks K k + unat (word_of_nat (?p + 1) :: u64) < tick_horizon K"
      unfolding nc(2) [OF min.cobounded2] using less.prems(2) p by linarith
    then obtain k1 where k1: "delay_ticks (word_of_nat (?p + 1)) k = (DelayOk, k1)" "invar k1"
        "kernel_ticks K k + ?p \<le> kernel_ticks K k1" "kernel_ticks K k1 \<le> kernel_ticks K k + (?p + 1)"
      using delay_law [OF less.prems(1), of "word_of_nat (?p + 1)"] nc(2,3) [OF min.cobounded2] by auto
    have "n - ?p < n" "kernel_ticks K k1 + 2 * (n - ?p) < tick_horizon K"
      using p k1(4) less.prems(2) by linarith+
    from less.IH [OF this(1) k1(2) this(2)] obtain k' where
      k': "delay_loop delay_ticks (unat (kn_max_finite K) - 1) (n - ?p) k1 = Some (Ok k')" "invar k'"
        "kernel_ticks K k1 + (n - ?p) \<le> kernel_ticks K k'" by blast
    have "delay_loop delay_ticks (unat (kn_max_finite K) - 1) n k = Some (Ok k')"
      using False nc(1) [OF min.cobounded2] k1(1) k'(1) by (subst delay_loop.simps) (simp add: Let_def)
    then show ?thesis using k'(2,3) k1(3) p by (intro exI [of _ k']) simp
  qed
qed

lemma delay_not_early:
  assumes "invar k" and "kn_scheduler K k = SchedRunning" and "\<not> is_zero d"
    and "kernel_ticks K k + 2 * deadline_ticks (cap_tick_rate_hz caps) d < tick_horizon K"
  shows "\<exists>k'. freertos_delay K delay_ticks d k = Some (Ok k') \<and> invar k'
    \<and> kernel_ticks K k + deadline_ticks (cap_tick_rate_hz caps) d \<le> kernel_ticks K k'"
proof -
  have "duration_to_ticks_ceil d (cap_tick_rate_hz caps) = Ok (deadline_ticks (cap_tick_rate_hz caps) d)"
    using duration_to_ticks_ceil_value [OF rate_nonzero(1)] by (simp add: deadline_ticks_def)
  then show ?thesis
    using delay_loop_returns [OF assms(1,4)] assms(2,3) caps_cached max_payload
    by (simp add: freertos_delay_def)
qed

end

section \<open>The fixture as a kernel\<close>

definition fixture_caps :: capabilities where
  "fixture_caps = \<lparr>cap_tick_rate_hz = 1000, cap_max_priorities = 8, cap_max_task_name_len = 16,
     cap_tick_bits = 32, cap_stack_word_size = 4, cap_dynamic_allocation = True,
     cap_software_timers = True, cap_minimal_stack_depth_words = 64,
     cap_max_stack_depth_words = - 1, cap_tls_pointer_slots = 5, cap_task_tls_index = 0\<rparr>"

definition fixture_kernel :: "fixture kernel" where
  "fixture_kernel = \<lparr>kn_snapshot = read_tick_fixture, kn_scheduler = (\<lambda>_. SchedRunning),
     kn_max_finite = 2 ^ 32 - 2, kn_caps = Some fixture_caps\<rparr>"

text \<open>With no other thread around, the fixture's condition-variable wait times out.\<close>

definition fixture_take :: "nat \<Rightarrow> u64 \<Rightarrow> fixture \<Rightarrow> take_status \<times> fixture" where
  "fixture_take i n fx =
     (case semaphore_take_realtime i n [(True, \<lambda>fx. fx)] fx of
        Some (Ok r) \<Rightarrow> r | _ \<Rightarrow> (TakeInvalid, fx))"

definition fixture_delay :: "u64 \<Rightarrow> fixture \<Rightarrow> delay_status \<times> fixture" where
  "fixture_delay n fx =
     (case fixture_delay_ticks n fx of Ok r \<Rightarrow> r | _ \<Rightarrow> (DelayUnknown 0, fx))"

definition fixture_ok :: "fixture \<Rightarrow> bool" where
  "fixture_ok fx =
     (fixture_clock_ok fx \<and> fx_tick_bits fx = 32 \<and> fx_max_finite_wait fx = 2 ^ 32 - 2)"

lemma fixture_kernel_simps [simp]:
  "kn_caps fixture_kernel = Some fixture_caps" "unat (kn_max_finite fixture_kernel) = 2 ^ 32 - 2"
  "cap_tick_bits fixture_caps = 32" "cap_tick_rate_hz fixture_caps = 1000"
  "kn_scheduler fixture_kernel fx = SchedRunning"
  by (simp_all add: fixture_kernel_def fixture_caps_def)

lemma fixture_kernel_ticks: "fixture_ok fx \<Longrightarrow> kernel_ticks fixture_kernel fx = fixture_ticks fx"
  by (simp add: kernel_ticks_def fixture_ticks_def fixture_ok_def fixture_kernel_def fixture_caps_def)

lemma fixture_advance:
  assumes "fixture_ok fx" and "fixture_ticks fx + unat n < 2 ^ 96"
  obtains fx' where "advance_virtual_ticks n fx = Some fx'" "fixture_ok fx'"
    "fixture_ticks fx' = fixture_ticks fx + unat n" "fx_semaphores fx' = fx_semaphores fx"
proof -
  have "fixture_ticks fx + unat n < 2 ^ (64 + unat (fx_tick_bits fx))"
    using assms by (simp add: fixture_ok_def)
  then show ?thesis
    using advance_virtual_ticks_total [of fx n] assms(1) that by (auto simp: fixture_ok_def)
qed

lemma fixture_clock_laws:
  "kernel_clock fixture_kernel fixture_caps (\<lambda>fx. fixture_ok fx \<and> P fx)"
proof
  show "kn_caps fixture_kernel = Some fixture_caps" by simp
  show "valid_config \<lparr>rate_hz = cap_tick_rate_hz fixture_caps, tick_bits = cap_tick_bits fixture_caps\<rparr>"
    by (simp add: valid_config_def)
  show "2 \<le> unat (kn_max_finite fixture_kernel)" by simp
  show "coherent (kn_snapshot fixture_kernel fx) (unat (cap_tick_bits fixture_caps))"
    if "fixture_ok fx \<and> P fx" for fx
    using that by (auto simp: fixture_ok_def fixture_clock_ok_def fixture_kernel_def)
qed

lemma fixture_take_law:
  assumes ok: "fixture_ok fx \<and> fixture_sem_ok i fx" and n: "unat n \<le> 2 ^ 32 - 2"
    and hor: "fixture_ticks fx + unat n < 2 ^ 96" and t: "fixture_take i n fx = (s, fx')"
  shows "(fixture_ok fx' \<and> fixture_sem_ok i fx') \<and> s \<noteq> TakeInvalid
    \<and> fixture_ticks fx \<le> fixture_ticks fx'
    \<and> (s = TakeTimeout \<longrightarrow> fixture_ticks fx + (unat n - 1) \<le> fixture_ticks fx')"
proof -
  obtain e where e: "fx_semaphores fx i = Some e" "\<not> fs_deleted e" "fs_count e \<le> fs_max_count e"
    using ok fixture_sem_okE by blast
  let ?l = "fx\<lparr>fx_take_call_ticks := fx_take_call_ticks fx @ [n]\<rparr>"
  have same: "fixture_ok (set_sem i x fy) = fixture_ok fy" "fixture_ticks (set_sem i x fy) = fixture_ticks fy"
    for x fy
    by (simp_all add: set_sem_def fixture_ok_def fixture_clock_ok_def fixture_ticks_def read_tick_fixture_def)
  have l: "fixture_ok ?l" "fixture_ticks ?l = fixture_ticks fx"
    using ok unfolding fixture_ok_def fixture_clock_ok_def fixture_ticks_def read_tick_fixture_def
    by auto
  show ?thesis
  proof (cases "fs_count e > 0")
    case True
    then have r: "s = TakeAcquired" "fx' = set_sem i (e\<lparr>fs_count := fs_count e - 1\<rparr>) ?l"
      using t e by (auto simp: fixture_take_def semaphore_take_realtime_def)
    have "fs_count e - 1 \<le> fs_max_count e"
      using e(3) unat_dec [OF True] by (simp add: word_le_nat_alt)
    then have "fixture_sem_ok i fx'" using e r(2) by (simp add: fixture_sem_ok_def set_sem_def)
    moreover have "fixture_ok fx'" "fixture_ticks fx' = fixture_ticks fx"
      unfolding r(2) same by (rule l)+
    ultimately show ?thesis using r(1) by simp
  next
    case zero: False
    show ?thesis
    proof (cases "n = 0")
      case True
      then have "s = TakeTimeout" "fx' = ?l"
        using t e zero by (auto simp: fixture_take_def semaphore_take_realtime_def)
      then show ?thesis using True l e by (simp add: fixture_sem_ok_def)
    next
      case False
      let ?e2 = "e\<lparr>fs_waiters := fs_waiters e + 1, fs_blocked_count := fs_blocked_count e + 1,
          fs_blocked_count := fs_blocked_count e, fs_waiters := fs_waiters e\<rparr>"
      let ?fx2 = "set_sem i e ?l"
      have mn: "min n (fx_max_finite_wait fx) = n"
        using n ok by (simp add: fixture_ok_def min_def word_le_nat_alt)
      have "fixture_ok ?fx2" "fixture_ticks ?fx2 + unat n < 2 ^ 96"
        using l hor same by simp_all
      then obtain fx3 where fx3: "advance_virtual_ticks n ?fx2 = Some fx3" "fixture_ok fx3"
          "fixture_ticks fx3 = fixture_ticks ?fx2 + unat n" "fx_semaphores fx3 = fx_semaphores ?fx2"
        by (rule fixture_advance)
      have "semaphore_take_realtime i n [(True, \<lambda>fx. fx)] fx = Some (with_ticks n TakeTimeout ?fx2)"
        using e zero False mn
        by (simp add: semaphore_take_realtime_def set_sem_def Let_def fun_upd_idem)
      then have r: "s = TakeTimeout" "fx' = fx3"
        using t fx3(1) by (simp_all add: fixture_take_def with_ticks_def)
      have "fixture_sem_ok i fx3" using fx3(4) e by (simp add: fixture_sem_ok_def set_sem_def)
      moreover have "fixture_ticks fx3 = fixture_ticks fx + unat n" using fx3(3) same(2) l(2) by simp
      ultimately show ?thesis using r fx3(2) by simp
    qed
  qed
qed

interpretation fixwait: tick_kernel fixture_kernel fixture_caps
  "\<lambda>fx. fixture_ok fx \<and> fixture_sem_ok i fx" "fixture_take i"
  for i
proof (intro tick_kernel.intro fixture_clock_laws tick_kernel_axioms.intro)
  fix fx n s fx'
  assume a: "fixture_ok fx \<and> fixture_sem_ok i fx" "unat n \<le> unat (kn_max_finite fixture_kernel)"
    "kernel_ticks fixture_kernel fx + unat n < tick_horizon fixture_kernel" "fixture_take i n fx = (s, fx')"
  have "fixture_ticks fx + unat n < 2 ^ 96"
    using a(1,3) by (simp add: fixture_kernel_ticks tick_horizon_def)
  then show "(fixture_ok fx' \<and> fixture_sem_ok i fx') \<and> s \<noteq> TakeInvalid
      \<and> kernel_ticks fixture_kernel fx \<le> kernel_ticks fixture_kernel fx'
      \<and> (s = TakeTimeout \<longrightarrow>
          kernel_ticks fixture_kernel fx + (unat n - 1) \<le> kernel_ticks fixture_kernel fx')"
    using fixture_take_law [OF a(1) _ _ a(4)] a(1,2) by (simp add: fixture_kernel_ticks)
qed

interpretation fixdelay: delay_kernel fixture_kernel fixture_caps "\<lambda>fx. fixture_ok fx \<and> True" fixture_delay
proof (intro delay_kernel.intro fixture_clock_laws delay_kernel_axioms.intro)
  fix fx :: fixture and n :: u64
  assume a: "fixture_ok fx \<and> True"
    "kernel_ticks fixture_kernel fx + unat n < tick_horizon fixture_kernel"
  have "fixture_ticks fx + unat n < 2 ^ 96"
    using a by (simp add: fixture_kernel_ticks tick_horizon_def)
  then obtain fx' where "advance_virtual_ticks n fx = Some fx'" "fixture_ok fx'"
      "fixture_ticks fx' = fixture_ticks fx + unat n"
    using fixture_advance [of fx n] a(1) by blast
  then show "\<exists>k'. fixture_delay n fx = (DelayOk, k') \<and> (fixture_ok k' \<and> True)
      \<and> kernel_ticks fixture_kernel fx + (unat n - 1) \<le> kernel_ticks fixture_kernel k'
      \<and> kernel_ticks fixture_kernel k' \<le> kernel_ticks fixture_kernel fx + unat n"
    using a(1) by (simp add: fixture_delay_def fixture_delay_ticks_def fixture_kernel_ticks)
qed

section \<open>Properties\<close>

text \<open>C38. The absolute-deadline wait: on any kernel that keeps the take contract, a wait with a
  deadline inside the range of the tick counter always returns, without error or panic;
  it reports \<open>Acquired\<close>, or it reports \<open>Unavailable\<close> at a moment when the clock has reached
  the deadline, never earlier, whatever the number of early or spurious wake-ups.\<close>

theorem freertos_wait_deadline:
  assumes "tick_kernel K caps invar tk" and "invar k"
    and "deadline_ticks (cap_tick_rate_hz caps) d + unat (kn_max_finite K) < tick_horizon K"
  shows "\<exists>r k'. wait_deadline_loop K tk d k = Some (r, k')
    \<and> (r = Ok Acquired \<or> r = Ok Unavailable \<and> (\<exists>now. freertos_now K k' = Ok now \<and> d \<le> now))"
  using tick_kernel.wait_deadline_loop_returns [OF assms] by blast

definition demo_fixture :: fixture where
  "demo_fixture = snd (fixture_counting_semaphore_create 3 0 fixture_initial)"

lemma demo_fixture_ok: "fixture_ok demo_fixture" "fixture_sem_ok 1 demo_fixture"
  by (simp_all add: demo_fixture_def fixture_counting_semaphore_create_def fixture_initial_def
    fixture_ok_def fixture_clock_ok_def coherent_def read_tick_fixture_def fixture_sem_ok_def)

theorem freertos_wait_deadline_witness:
  "\<exists>r k'. wait_deadline_loop fixture_kernel (fixture_take 1) (of_nanos 5000000) demo_fixture = Some (r, k')
    \<and> (r = Ok Acquired \<or> r = Ok Unavailable
        \<and> (\<exists>now. freertos_now fixture_kernel k' = Ok now \<and> of_nanos 5000000 \<le> now))"
proof (rule freertos_wait_deadline [OF fixwait.tick_kernel_axioms])
  show "fixture_ok demo_fixture \<and> fixture_sem_ok 1 demo_fixture" using demo_fixture_ok by simp
  show "deadline_ticks (cap_tick_rate_hz fixture_caps) (of_nanos 5000000)
      + unat (kn_max_finite fixture_kernel) < tick_horizon fixture_kernel"
    by (simp add: deadline_ticks_def tick_horizon_def duration_limit_eq nanos_per_sec_def)
qed

text \<open>The delay never ends early: on any kernel that keeps the delay contract, with the
  scheduler running, a non-zero delay returns without panic after chunks that each fit the
  finite native range, and the clock has then advanced by at least the requested duration
  (or sits at its saturation value).\<close>

theorem freertos_delay_not_early:
  assumes "delay_kernel K caps invar delay_ticks" and "invar k"
    and "kn_scheduler K k = SchedRunning" and "\<not> is_zero d"
    and "kernel_ticks K k + 2 * deadline_ticks (cap_tick_rate_hz caps) d < tick_horizon K"
  shows "\<exists>k' t t'. freertos_delay K delay_ticks d k = Some (Ok k')
    \<and> freertos_now K k = Ok t \<and> freertos_now K k' = Ok t'
    \<and> (as_nanos t + as_nanos d \<le> as_nanos t' \<or> t' = duration_max)"
proof -
  have clk: "kernel_clock K caps invar" using assms(1) by (simp add: delay_kernel_def)
  let ?r = "unat (cap_tick_rate_hz caps)"
  obtain k' where k': "freertos_delay K delay_ticks d k = Some (Ok k')" "invar k'"
      "kernel_ticks K k + deadline_ticks (cap_tick_rate_hz caps) d \<le> kernel_ticks K k'"
    using delay_kernel.delay_not_early [OF assms] by blast
  have r: "0 < ?r" using kernel_clock.rate_nonzero(2) [OF clk] .
  let ?T = "kernel_ticks K k" and ?D = "deadline_ticks (cap_tick_rate_hz caps) d"
  have "as_nanos d * ?r \<le> ?D * nanos_per_sec"
    using ceil_div_le_iff [of nanos_per_sec "as_nanos d * ?r" ?D]
    by (simp add: deadline_ticks_def nanos_per_sec_def)
  with div_times_less_eq_dividend [of "?T * nanos_per_sec" ?r]
  have "(?T * nanos_per_sec div ?r + as_nanos d) * ?r \<le> (?T + ?D) * nanos_per_sec"
    unfolding add_mult_distrib by (rule add_mono)
  then have "?T * nanos_per_sec div ?r + as_nanos d \<le> (?T + ?D) * nanos_per_sec div ?r"
    using r by (simp add: less_eq_div_iff_mult_less_eq)
  also have "\<dots> \<le> kernel_ticks K k' * nanos_per_sec div ?r"
    using k'(3) by (intro div_le_mono mult_le_mono1)
  finally have step: "?T * nanos_per_sec div ?r + as_nanos d \<le> kernel_ticks K k' * nanos_per_sec div ?r" .
  show ?thesis
  proof (intro exI conjI)
    show "freertos_delay K delay_ticks d k = Some (Ok k')" by (rule k'(1))
    show "freertos_now K k = Ok (of_nanos (tick_nanos ?T ?r))"
      by (rule kernel_clock.now_value [OF clk assms(2)])
    show "freertos_now K k' = Ok (of_nanos (tick_nanos (kernel_ticks K k') ?r))"
      by (rule kernel_clock.now_value [OF clk k'(2)])
    show "as_nanos (of_nanos (tick_nanos ?T ?r)) + as_nanos d
        \<le> as_nanos (of_nanos (tick_nanos (kernel_ticks K k') ?r))
      \<or> of_nanos (tick_nanos (kernel_ticks K k') ?r) = duration_max"
    proof (cases "kernel_ticks K k' * nanos_per_sec div ?r \<le> duration_limit - 1")
      case True
      have bound: "duration_limit - 1 < duration_limit" by (simp add: duration_limit_eq)
      have "tick_nanos (kernel_ticks K k') ?r = kernel_ticks K k' * nanos_per_sec div ?r"
        and "tick_nanos ?T ?r = ?T * nanos_per_sec div ?r"
        using True step by (simp_all add: tick_nanos_def)
      moreover have "kernel_ticks K k' * nanos_per_sec div ?r < duration_limit"
        using True bound by (rule le_less_trans)
      moreover have "?T * nanos_per_sec div ?r < duration_limit"
        using step calculation(3) by linarith
      ultimately show ?thesis using step by simp
    next
      case False
      then have "tick_nanos (kernel_ticks K k') ?r = duration_limit - 1" by (simp add: tick_nanos_def)
      then show ?thesis by (simp add: duration_eq_iff as_nanos_max)
    qed
  qed
qed

theorem freertos_delay_not_early_witness:
  "\<exists>k' t t'. freertos_delay fixture_kernel fixture_delay (of_nanos 1500000) demo_fixture = Some (Ok k')
    \<and> freertos_now fixture_kernel demo_fixture = Ok t \<and> freertos_now fixture_kernel k' = Ok t'
    \<and> (as_nanos t + as_nanos (of_nanos 1500000) \<le> as_nanos t' \<or> t' = duration_max)"
proof (rule freertos_delay_not_early [OF fixdelay.delay_kernel_axioms])
  show "fixture_ok demo_fixture \<and> True" using demo_fixture_ok by simp
  show "kernel_ticks fixture_kernel demo_fixture
      + 2 * deadline_ticks (cap_tick_rate_hz fixture_caps) (of_nanos 1500000) < tick_horizon fixture_kernel"
    using demo_fixture_ok(1)
    by (simp add: fixture_kernel_ticks deadline_ticks_def tick_horizon_def duration_limit_eq
      nanos_per_sec_def)
      (simp add: fixture_ticks_def demo_fixture_def fixture_counting_semaphore_create_def
        fixture_initial_def total_ticks_def read_tick_fixture_def)
qed (simp_all add: is_zero_def duration_limit_eq)

end
