(* ===== verification/Freertos_Task.thy ===== *)
theory Freertos_Task
  imports Freertos_Wait
begin

text \<open>
  Running and joining FreeRTOS tasks (src/crates/osal-backend-freertos/src/task.rs): the
  trampoline around the user entry, the completion cell that it publishes and \<open>join\<close>. Each
  access to shared memory is one step, so that tasks and joiners interleave freely; the
  completion bit of the native event group is sticky.
\<close>

section \<open>Completion cell\<close>

record task_completion =
  tc_state :: u8
  tc_exit_code :: u32
  tc_bit :: bool

definition completion_running :: u8 where "completion_running = 0"

definition completion_finished :: u8 where "completion_finished = 1"

definition task_completion_new :: task_completion where
  "task_completion_new = \<lparr>tc_state = completion_running, tc_exit_code = 0, tc_bit = False\<rparr>"

definition finished_code :: "task_completion \<Rightarrow> exit_code option" where
  "finished_code c =
     (if tc_state c = completion_finished then Some (ExitCode (tc_exit_code c)) else None)"

section \<open>Trampoline\<close>

datatype trampoline_pc =
    InstallContext
  | AcquireLiveToken
  | RunEntry
  | DropLiveToken
  | ClearContext
  | StoreExitCode
  | StoreState
  | SetBit
  | DropStart
  | TaskEnded

record task_thread =
  tt_handle :: task_handle
  tt_pc :: trampoline_pc
  tt_context :: "task_handle option"
  tt_completion :: task_completion

definition task_thread_new :: "task_handle \<Rightarrow> task_thread" where
  "task_thread_new h = \<lparr>tt_handle = h, tt_pc = InstallContext, tt_context = None,
     tt_completion = task_completion_new\<rparr>"

text \<open>One step of the trampoline, with the global live count; \<open>publish\<close> is the three steps
  from \<open>StoreExitCode\<close>. The step out of \<open>RunEntry\<close> is the return of the user's entry.\<close>

fun trampoline_step :: "task_thread \<Rightarrow> usize \<Rightarrow> (task_thread \<times> usize) option" where
  "trampoline_step t live =
     (case tt_pc t of
        InstallContext \<Rightarrow> Some (t\<lparr>tt_pc := AcquireLiveToken, tt_context := Some (tt_handle t)\<rparr>, live)
      | AcquireLiveToken \<Rightarrow> Some (t\<lparr>tt_pc := RunEntry\<rparr>, live + 1)
      | RunEntry \<Rightarrow> Some (t\<lparr>tt_pc := DropLiveToken\<rparr>, live)
      | DropLiveToken \<Rightarrow> Some (t\<lparr>tt_pc := ClearContext\<rparr>, live - 1)
      | ClearContext \<Rightarrow> Some (t\<lparr>tt_pc := StoreExitCode, tt_context := None\<rparr>, live)
      | StoreExitCode \<Rightarrow>
          Some (t\<lparr>tt_pc := StoreState, tt_completion := (tt_completion t)\<lparr>tc_exit_code := 0\<rparr>\<rparr>, live)
      | StoreState \<Rightarrow>
          Some (t\<lparr>tt_pc := SetBit, tt_completion := (tt_completion t)\<lparr>tc_state := completion_finished\<rparr>\<rparr>, live)
      | SetBit \<Rightarrow> Some (t\<lparr>tt_pc := DropStart, tt_completion := (tt_completion t)\<lparr>tc_bit := True\<rparr>\<rparr>, live)
      | DropStart \<Rightarrow> Some (t\<lparr>tt_pc := TaskEnded\<rparr>, live)
      | TaskEnded \<Rightarrow> None)"

section \<open>Join\<close>

datatype join_pc = JoinWaiting nat wait_budget | JoinDone nat "exit_code res"

text \<open>\<open>cur\<close> is \<open>Task::current()\<close> of the caller, \<open>i\<close> the joined task.\<close>

definition join_begin ::
  "'k kernel \<Rightarrow> 'k \<Rightarrow> task_handle option \<Rightarrow> timeout \<Rightarrow> nat \<Rightarrow> task_thread \<Rightarrow> join_pc" where
  "join_begin K k cur t i tt =
     (if cur = Some (tt_handle tt) then JoinDone i (Err Busy)
      else case finished_code (tt_completion tt) of
        Some code \<Rightarrow> JoinDone i (Ok code)
      | None \<Rightarrow>
          if t = NoWait \<or> t = After duration_zero then JoinDone i (Err Timeout)
          else (case prepare_blocking K k (budget_new t) of
                  (Ok _, b) \<Rightarrow> JoinWaiting i b
                | (Err e, _) \<Rightarrow> JoinDone i (Err e)
                | (Panic s, _) \<Rightarrow> JoinDone i (Panic s)))"

definition join_finish :: "wait_outcome \<Rightarrow> task_completion \<Rightarrow> exit_code res" where
  "join_finish outcome c =
     (case outcome of
        Acquired \<Rightarrow>
          (case finished_code c of
             Some code \<Rightarrow> Ok code
           | None \<Rightarrow> Panic ''completion bit set before Finished state'')
      | Unavailable \<Rightarrow>
          (case finished_code c of Some code \<Rightarrow> Ok code | None \<Rightarrow> Err Timeout))"

section \<open>Interleaving\<close>

record task_world =
  kw_tasks :: "task_thread list"
  kw_live :: usize
  kw_joins :: "join_pc list"

definition task_world_initial :: task_world where
  "task_world_initial = \<lparr>kw_tasks = [], kw_live = 0, kw_joins = []\<rparr>"

text \<open>Handles are unique (the counter never reuses one). The native wait reports the bit only
  when it is set; a bounded wait may end without it, and the wait itself may report an error.\<close>

inductive task_step :: "'k kernel \<Rightarrow> ('k \<Rightarrow> bool) \<Rightarrow> task_world \<Rightarrow> task_world \<Rightarrow> bool"
  for K kinv where
  spawn: "task_step K kinv w (w\<lparr>kw_tasks := kw_tasks w @ [task_thread_new h]\<rparr>)"
  if "h \<notin> tt_handle ` set (kw_tasks w)" "Suc (length (kw_tasks w)) < 2 ^ 64"
| run: "task_step K kinv w (w\<lparr>kw_tasks := (kw_tasks w)[i := t], kw_live := live\<rparr>)"
  if "i < length (kw_tasks w)" "trampoline_step (kw_tasks w ! i) (kw_live w) = Some (t, live)"
| join: "task_step K kinv w (w\<lparr>kw_joins := kw_joins w @ [join_begin K k cur t i (kw_tasks w ! i)]\<rparr>)"
  if "i < length (kw_tasks w)" "kinv k"
| acquired: "task_step K kinv w
    (w\<lparr>kw_joins := (kw_joins w)[j := JoinDone i (join_finish Acquired (tt_completion (kw_tasks w ! i)))]\<rparr>)"
  if "j < length (kw_joins w)" "kw_joins w ! j = JoinWaiting i b" "tc_bit (tt_completion (kw_tasks w ! i))"
| unavailable: "task_step K kinv w
    (w\<lparr>kw_joins := (kw_joins w)[j := JoinDone i (join_finish Unavailable (tt_completion (kw_tasks w ! i)))]\<rparr>)"
  if "j < length (kw_joins w)" "kw_joins w ! j = JoinWaiting i (BudgetFinite d dl p)"
| wait_error: "task_step K kinv w (w\<lparr>kw_joins := (kw_joins w)[j := JoinDone i (Err e)]\<rparr>)"
  if "j < length (kw_joins w)" "kw_joins w ! j = JoinWaiting i b"

definition task_count :: "task_world \<Rightarrow> usize" where
  "task_count w = kw_live w"

section \<open>Invariant\<close>

definition pc_counted :: "trampoline_pc \<Rightarrow> bool" where
  "pc_counted p = (p = RunEntry \<or> p = DropLiveToken)"

definition pc_returned :: "trampoline_pc \<Rightarrow> bool" where
  "pc_returned p = (p \<in> {DropLiveToken, ClearContext, StoreExitCode, StoreState, SetBit, DropStart, TaskEnded})"

definition thread_ok :: "task_thread \<Rightarrow> bool" where
  "thread_ok t =
     ((tc_state (tt_completion t) = completion_finished) = (tt_pc t \<in> {SetBit, DropStart, TaskEnded})
      \<and> tc_bit (tt_completion t) = (tt_pc t \<in> {DropStart, TaskEnded})
      \<and> tc_exit_code (tt_completion t) = 0
      \<and> tt_context t = (if tt_pc t \<in> {AcquireLiveToken, RunEntry, DropLiveToken, ClearContext}
                        then Some (tt_handle t) else None))"

definition finished_pc :: "trampoline_pc \<Rightarrow> bool" where
  "finished_pc p = (p \<in> {SetBit, DropStart, TaskEnded})"

definition join_ok :: "task_thread list \<Rightarrow> join_pc \<Rightarrow> bool" where
  "join_ok ts j =
     (case j of
        JoinWaiting i b \<Rightarrow> i < length ts
      | JoinDone i r \<Rightarrow> \<not> is_panic r \<and> i < length ts \<and>
          (\<forall>c. r = Ok c \<longrightarrow> c = ExitCode 0 \<and> finished_pc (tt_pc (ts ! i))))"

definition counted :: "task_thread list \<Rightarrow> nat" where
  "counted ts = length (filter (\<lambda>t. pc_counted (tt_pc t)) ts)"

definition tasks_inv :: "task_world \<Rightarrow> bool" where
  "tasks_inv w =
     (length (kw_tasks w) < 2 ^ 64 \<and> distinct (map tt_handle (kw_tasks w))
      \<and> (\<forall>t\<in>set (kw_tasks w). thread_ok t)
      \<and> kw_live w = word_of_nat (counted (kw_tasks w))
      \<and> (\<forall>j\<in>set (kw_joins w). join_ok (kw_tasks w) j))"

lemma tasks_invD:
  assumes "tasks_inv w"
  shows "i < length (kw_tasks w) \<Longrightarrow> thread_ok (kw_tasks w ! i)"
    and "j < length (kw_joins w) \<Longrightarrow> join_ok (kw_tasks w) (kw_joins w ! j)"
    and "counted (kw_tasks w) < 2 ^ 64"
proof -
  show "i < length (kw_tasks w) \<Longrightarrow> thread_ok (kw_tasks w ! i)"
    using assms nth_mem unfolding tasks_inv_def by blast
  show "j < length (kw_joins w) \<Longrightarrow> join_ok (kw_tasks w) (kw_joins w ! j)"
    using assms nth_mem unfolding tasks_inv_def by blast
  show "counted (kw_tasks w) < 2 ^ 64"
    unfolding counted_def
    by (rule le_less_trans [OF length_filter_le]) (use assms in \<open>simp add: tasks_inv_def\<close>)
qed

lemmas pc_defs = pc_counted_def pc_returned_def finished_pc_def

lemma thread_ok_step:
  assumes "thread_ok t" and "trampoline_step t live = Some (t', live')"
  shows "thread_ok t'" and "tt_handle t' = tt_handle t"
    and "finished_pc (tt_pc t) \<Longrightarrow> finished_pc (tt_pc t')"
    and "live' + (if pc_counted (tt_pc t) then 1 else 0) = live + (if pc_counted (tt_pc t') then 1 else 0)"
  using assms by (auto simp: thread_ok_def pc_defs completion_finished_def split: trampoline_pc.splits)

lemma counted_update:
  assumes "i < length ts"
  shows "counted (ts[i := t]) + (if pc_counted (tt_pc (ts ! i)) then 1 else 0)
    = counted ts + (if pc_counted (tt_pc t) then 1 else 0)"
  using assms
proof (induction ts arbitrary: i)
  case (Cons x ts)
  then show ?case by (cases i) (auto simp: counted_def)
qed simp

lemma join_ok_mono:
  assumes "join_ok ts j" and "length ts \<le> length ts'"
    and "\<And>i. i < length ts \<Longrightarrow> finished_pc (tt_pc (ts ! i)) \<Longrightarrow> finished_pc (tt_pc (ts' ! i))"
  shows "join_ok ts' j"
  using assms by (auto simp: join_ok_def split: join_pc.splits)

lemma finished_code_ok:
  assumes "thread_ok t"
  shows "finished_code (tt_completion t) = (if finished_pc (tt_pc t) then Some (ExitCode 0) else None)"
  using assms by (auto simp: finished_code_def thread_ok_def finished_pc_def)

lemma finished_thread:
  assumes "thread_ok t" and "finished_pc (tt_pc t)"
  shows "pc_returned (tt_pc t)" "\<not> pc_counted (tt_pc t)" "tt_context t = None"
  using assms by (auto simp: thread_ok_def pc_defs)

lemma join_finish_ok:
  assumes "thread_ok t" and "o' = Acquired \<longrightarrow> tc_bit (tt_completion t)"
  shows "join_finish o' (tt_completion t)
    = (if finished_pc (tt_pc t) then Ok (ExitCode 0) else Err Timeout)"
  using assms finished_code_ok [OF assms(1)]
  by (cases o') (auto simp: join_finish_def thread_ok_def finished_pc_def)

context kernel_clock
begin

lemma prepare_no_panic: "invar k \<Longrightarrow> prepare_blocking K k b \<noteq> (Panic s, b')"
  using now_value [of k]
  by (auto simp: prepare_blocking_def budget_deadline_def ensure_blocking_allowed_def ok_or_def
    split: wait_budget.splits scheduler_state.splits option.splits)

lemma join_begin_ok:
  assumes "invar k" and "i < length ts" and "thread_ok (ts ! i)"
  shows "join_ok ts (join_begin K k cur t i (ts ! i))"
  using assms finished_code_ok [OF assms(3)] prepare_no_panic [OF assms(1)]
  by (auto simp: join_begin_def join_ok_def split: option.splits prod.splits res.splits if_splits)

lemma task_step_inv:
  assumes "task_step K invar w w'" and "tasks_inv w"
  shows "tasks_inv w'"
  using assms
proof cases
  case (spawn h)
  then show ?thesis
    using assms(2)
    by (auto simp: tasks_inv_def counted_def task_thread_new_def thread_ok_def task_completion_new_def
      pc_defs completion_running_def completion_finished_def nth_append intro: join_ok_mono)
next
  case (run i t live)
  have ok: "thread_ok (kw_tasks w ! i)" using run(2) assms(2) by (simp add: tasks_inv_def)
  note step = thread_ok_step [OF ok run(3)]
  have "live + (if pc_counted (tt_pc (kw_tasks w ! i)) then 1 else 0)
      = word_of_nat (counted (kw_tasks w) + (if pc_counted (tt_pc t) then 1 else 0))"
    using step(4) assms(2) by (simp add: tasks_inv_def)
  then have live: "live = word_of_nat (counted ((kw_tasks w)[i := t]))"
    unfolding counted_update [OF run(2), of t, symmetric] by (simp split: if_splits)
  have hs: "map tt_handle ((kw_tasks w)[i := t]) = map tt_handle (kw_tasks w)"
    using run(2) step(2) by (simp add: map_update list_update_same_conv)
  have fin: "finished_pc (tt_pc ((kw_tasks w)[i := t] ! n))" if "finished_pc (tt_pc (kw_tasks w ! n))" for n
    using that step(3) run(2) by (cases "n = i") simp_all
  have joins: "\<forall>j\<in>set (kw_joins w). join_ok ((kw_tasks w)[i := t]) j"
    using assms(2) fin by (auto simp: tasks_inv_def intro: join_ok_mono)
  have "\<forall>x\<in>set ((kw_tasks w)[i := t]). thread_ok x"
    using assms(2) step(1) set_update_subset_insert [of "kw_tasks w" i t] by (auto simp: tasks_inv_def)
  then show ?thesis
    using assms(2) live hs joins unfolding run(1) tasks_inv_def by simp
next
  case (join i k cur t)
  then show ?thesis using assms(2) join_begin_ok [of k i "kw_tasks w"] by (auto simp: tasks_inv_def)
next
  case (acquired j i b)
  have "join_ok (kw_tasks w) (kw_joins w ! j)" using acquired(2) assms(2) by (simp add: tasks_inv_def)
  then have i: "i < length (kw_tasks w)" using acquired(3) by (simp add: join_ok_def)
  then have "thread_ok (kw_tasks w ! i)" using assms(2) by (simp add: tasks_inv_def)
  then have "join_ok (kw_tasks w) (JoinDone i (join_finish Acquired (tt_completion (kw_tasks w ! i))))"
    using join_finish_ok [of "kw_tasks w ! i" Acquired] acquired(4) i by (auto simp: join_ok_def)
  then show ?thesis
    using assms(2) acquired(1) set_update_subset_insert by (fastforce simp: tasks_inv_def)
next
  case (unavailable j i d dl p)
  have "join_ok (kw_tasks w) (kw_joins w ! j)" using unavailable(2) assms(2) by (simp add: tasks_inv_def)
  then have i: "i < length (kw_tasks w)" using unavailable(3) by (simp add: join_ok_def)
  then have "thread_ok (kw_tasks w ! i)" using assms(2) by (simp add: tasks_inv_def)
  then have "join_ok (kw_tasks w) (JoinDone i (join_finish Unavailable (tt_completion (kw_tasks w ! i))))"
    using join_finish_ok [of "kw_tasks w ! i" Unavailable] i by (auto simp: join_ok_def)
  then show ?thesis
    using assms(2) unavailable(1) set_update_subset_insert by (fastforce simp: tasks_inv_def)
next
  case (wait_error j i b e)
  have "join_ok (kw_tasks w) (kw_joins w ! j)" using wait_error(2) assms(2) by (simp add: tasks_inv_def)
  then have "join_ok (kw_tasks w) (JoinDone i (Err e))" using wait_error(3) by (simp add: join_ok_def)
  then show ?thesis
    using assms(2) wait_error(1) set_update_subset_insert by (fastforce simp: tasks_inv_def)
qed

lemma task_reach_inv:
  assumes "(task_step K invar)\<^sup>*\<^sup>* task_world_initial w"
  shows "tasks_inv w"
  using assms
proof induction
  case base
  then show ?case by (simp add: tasks_inv_def task_world_initial_def counted_def)
next
  case (step v w)
  then show ?case using task_step_inv by blast
qed

end

section \<open>Progress\<close>

text \<open>Steps left until the completion bit is set, once the entry has returned.\<close>

fun steps_to_bit :: "trampoline_pc \<Rightarrow> nat" where
  "steps_to_bit DropLiveToken = 5"
| "steps_to_bit ClearContext = 4"
| "steps_to_bit StoreExitCode = 3"
| "steps_to_bit StoreState = 2"
| "steps_to_bit SetBit = 1"
| "steps_to_bit _ = 0"

lemma trampoline_progress:
  assumes "pc_returned (tt_pc t)" and "steps_to_bit (tt_pc t) = Suc n"
  obtains t' live' where "trampoline_step t live = Some (t', live')" "pc_returned (tt_pc t')"
    "steps_to_bit (tt_pc t') = n"
  using assms by (cases "tt_pc t") (auto simp: pc_returned_def)

text \<open>A run in which task \<open>i\<close> makes \<open>n\<close> steps; the other tasks and the joiners make any.\<close>

inductive task_run :: "'k kernel \<Rightarrow> ('k \<Rightarrow> bool) \<Rightarrow> nat \<Rightarrow> task_world \<Rightarrow> nat \<Rightarrow> task_world \<Rightarrow> bool"
  for K kinv i u where
  start: "task_run K kinv i u 0 u"
| step: "task_run K kinv i u (if kw_tasks w ! i = kw_tasks v ! i then n else Suc n) w"
  if "task_run K kinv i u n v" "task_step K kinv v w"

lemma task_stepped:
  assumes "task_step K kinv v w" and "i < length (kw_tasks v)"
  shows "kw_tasks w ! i = kw_tasks v ! i \<or> (\<exists>live live'. trampoline_step (kw_tasks v ! i) live = Some (kw_tasks w ! i, live'))"
  using assms(1)
proof cases
  case (run k t live)
  then show ?thesis using assms(2) by (cases "k = i") auto
qed (use assms(2) in \<open>auto simp: nth_append\<close>)

lemma trampoline_moves:
  assumes "pc_returned (tt_pc t)" and "trampoline_step t live = Some (t', live')"
  shows "pc_returned (tt_pc t') \<and> steps_to_bit (tt_pc t') = steps_to_bit (tt_pc t) - 1 \<and> t' \<noteq> t"
  using assms by (cases "tt_pc t") (auto simp: pc_returned_def dest: arg_cong [where f = tt_pc])

lemma task_step_length: "task_step K kinv v w \<Longrightarrow> length (kw_tasks v) \<le> length (kw_tasks w)"
  by (induction rule: task_step.induct) simp_all

lemma task_run_progress:
  assumes "task_run K kinv i u n w" and "i < length (kw_tasks u)" and "pc_returned (tt_pc (kw_tasks u ! i))"
  shows "(task_step K kinv)\<^sup>*\<^sup>* u w \<and> i < length (kw_tasks w) \<and> pc_returned (tt_pc (kw_tasks w ! i))
    \<and> steps_to_bit (tt_pc (kw_tasks w ! i)) = steps_to_bit (tt_pc (kw_tasks u ! i)) - n"
  using assms(1)
proof induction
  case start
  then show ?case using assms(2,3) by simp
next
  case (step n v w)
  have i: "i < length (kw_tasks v)" "i < length (kw_tasks w)" using step.IH task_step_length [OF step.hyps(2)] by auto
  have pc: "pc_returned (tt_pc (kw_tasks v ! i))" using step.IH by blast
  have "(task_step K kinv)\<^sup>*\<^sup>* u w" using step.IH step.hyps(2) by auto
  then show ?case
    using task_stepped [OF step.hyps(2) i(1)] trampoline_moves [OF pc] step.IH i(2) by (elim disjE exE) auto
qed

section \<open>Properties\<close>

text \<open>C19. Joining is sound under every interleaving of spawns, task steps and joins: no join
  panics (the completion bit is never visible before the finished state), and a join that
  returned \<open>Ok\<close> returned the exit code of a task whose entry has returned, which is no
  longer counted as live and no longer has a current-task context. The live count is at every
  moment the number of tasks that hold their token, without wrap-around.\<close>

theorem freertos_join_sound:
  assumes "kernel_clock K caps kinv" and "(task_step K kinv)\<^sup>*\<^sup>* task_world_initial w"
  shows "unat (task_count w) = length (filter (\<lambda>t. pc_counted (tt_pc t)) (kw_tasks w))
    \<and> (\<forall>i r. JoinDone i r \<in> set (kw_joins w) \<longrightarrow> \<not> is_panic r \<and>
         (\<forall>c. r = Ok c \<longrightarrow> c = ExitCode 0 \<and> pc_returned (tt_pc (kw_tasks w ! i))
            \<and> \<not> pc_counted (tt_pc (kw_tasks w ! i)) \<and> tt_context (kw_tasks w ! i) = None))"
proof -
  have inv: "tasks_inv w" by (rule kernel_clock.task_reach_inv [OF assms])
  have "counted (kw_tasks w) < 2 ^ 64" by (rule tasks_invD(3) [OF inv])
  then have "unat (task_count w) = counted (kw_tasks w)"
    using inv by (simp add: task_count_def tasks_inv_def unat_of_nat_u64)
  moreover have "\<not> is_panic r \<and> (\<forall>c. r = Ok c \<longrightarrow> c = ExitCode 0 \<and> pc_returned (tt_pc (kw_tasks w ! i))
            \<and> \<not> pc_counted (tt_pc (kw_tasks w ! i)) \<and> tt_context (kw_tasks w ! i) = None)"
    if "JoinDone i r \<in> set (kw_joins w)" for i r
  proof -
    have j: "join_ok (kw_tasks w) (JoinDone i r)" using inv that by (simp add: tasks_inv_def)
    then have "i < length (kw_tasks w)" by (simp add: join_ok_def)
    from finished_thread [OF tasks_invD(1) [OF inv this]] show ?thesis
      using j by (simp add: join_ok_def)
  qed
  ultimately show ?thesis by (simp add: counted_def)
qed

text \<open>C20. A completion is never missed. Once the entry of a task has returned, whatever the other tasks and the joiners do:
  the task is never blocked, and after at most five of its own steps the completion bit is set. From then on
  every joiner that still waits for it can return, and it returns the exit code whether it is woken or its time is up.
  (Before that a joiner whose time is up may report \<open>Timeout\<close>.)\<close>

theorem freertos_join_completes:
  assumes "kernel_clock K caps kinv" and "(task_step K kinv)\<^sup>*\<^sup>* task_world_initial w"
    and "i < length (kw_tasks w)" and "pc_returned (tt_pc (kw_tasks w ! i))" and "task_run K kinv i w n w'"
  shows "if tc_bit (tt_completion (kw_tasks w' ! i))
    then (\<forall>j b. j < length (kw_joins w') \<longrightarrow> kw_joins w' ! j = JoinWaiting i b \<longrightarrow>
        task_step K kinv w' (w'\<lparr>kw_joins := (kw_joins w')[j := JoinDone i (Ok (ExitCode 0))]\<rparr>))
      \<and> (\<forall>outcome. join_finish outcome (tt_completion (kw_tasks w' ! i)) = Ok (ExitCode 0))
    else n < 5 \<and> trampoline_step (kw_tasks w' ! i) (kw_live w') \<noteq> None"
proof -
  let ?t = "kw_tasks w' ! i"
  note P = task_run_progress [OF assms(5,3,4)]
  then have "tasks_inv w'" using kernel_clock.task_reach_inv [OF assms(1), of w'] assms(2) by (meson rtranclp_trans)
  then have ok: "thread_ok ?t" using P tasks_invD(1) by blast
  show ?thesis
  proof (cases "tc_bit (tt_completion ?t)")
    case True
    then have "finished_pc (tt_pc ?t)" using ok by (auto simp: thread_ok_def finished_pc_def)
    then have fin: "join_finish outcome (tt_completion ?t) = Ok (ExitCode 0)" for outcome
      using join_finish_ok [OF ok, of outcome] True by simp
    then show ?thesis using True task_step.acquired [of _ w' i _ K kinv] by auto
  next
    case False
    then have "tt_pc ?t \<notin> {DropStart, TaskEnded}" using ok by (simp add: thread_ok_def)
    then have "steps_to_bit (tt_pc ?t) \<noteq> 0" using P by (cases "tt_pc ?t") (auto simp: pc_returned_def)
    moreover have "steps_to_bit (tt_pc (kw_tasks w ! i)) \<le> 5" by (cases "tt_pc (kw_tasks w ! i)") auto
    moreover obtain t live where "trampoline_step ?t (kw_live w') = Some (t, live)"
      using trampoline_progress [of ?t _ "kw_live w'"] P calculation(1) by (metis not0_implies_Suc)
    ultimately show ?thesis using False P by auto
  qed
qed

section \<open>Witnesses\<close>

text \<open>A task is spawned and joined without a limit, then runs to the end of its entry.\<close>

definition demo_thread :: "trampoline_pc \<Rightarrow> task_handle option \<Rightarrow> task_thread" where
  "demo_thread p c = \<lparr>tt_handle = TaskHandle 1, tt_pc = p, tt_context = c, tt_completion = task_completion_new\<rparr>"

definition demo_tasks :: "task_thread \<Rightarrow> usize \<Rightarrow> task_world" where
  "demo_tasks t live = \<lparr>kw_tasks = [t], kw_live = live, kw_joins = [JoinWaiting 0 (BudgetForever True)]\<rparr>"

abbreviation demo_kinv :: "fixture \<Rightarrow> bool" where
  "demo_kinv \<equiv> \<lambda>fx. fixture_ok fx \<and> True"

lemma demo_join: "task_step fixture_kernel demo_kinv
    \<lparr>kw_tasks = [demo_thread InstallContext None], kw_live = 0, kw_joins = []\<rparr>
    (demo_tasks (demo_thread InstallContext None) 0)"
proof -
  let ?w = "\<lparr>kw_tasks = [demo_thread InstallContext None], kw_live = 0, kw_joins = []\<rparr>"
  have "join_begin fixture_kernel demo_fixture None Forever 0 (demo_thread InstallContext None)
      = JoinWaiting 0 (BudgetForever True)"
    by (simp add: join_begin_def demo_thread_def finished_code_def task_completion_new_def
      completion_running_def completion_finished_def budget_new_def prepare_blocking_def
      ensure_blocking_allowed_def)
  then show ?thesis
    using task_step.join [of 0 ?w demo_kinv demo_fixture fixture_kernel None Forever] demo_fixture_ok(1)
    by (simp add: demo_tasks_def)
qed

lemma demo_run_step:
  assumes "trampoline_step t live = Some (t', live')"
  shows "task_step fixture_kernel demo_kinv (demo_tasks t live) (demo_tasks t' live')"
  using task_step.run [of 0 "demo_tasks t live" t' live' fixture_kernel demo_kinv] assms
  by (simp add: demo_tasks_def)

lemma demo_reach:
  "(task_step fixture_kernel demo_kinv)\<^sup>*\<^sup>* task_world_initial
     (demo_tasks (demo_thread DropLiveToken (Some (TaskHandle 1))) 1)"
proof -
  let ?R = "task_step fixture_kernel demo_kinv"
  have "?R task_world_initial \<lparr>kw_tasks = [demo_thread InstallContext None], kw_live = 0, kw_joins = []\<rparr>"
    using task_step.spawn [of "TaskHandle 1" task_world_initial fixture_kernel demo_kinv]
    by (simp add: task_world_initial_def task_thread_new_def demo_thread_def)
  moreover note demo_join
  moreover have "?R (demo_tasks (demo_thread InstallContext None) 0)
      (demo_tasks (demo_thread AcquireLiveToken (Some (TaskHandle 1))) 0)"
    by (rule demo_run_step) (simp add: demo_thread_def)
  moreover have "?R (demo_tasks (demo_thread AcquireLiveToken (Some (TaskHandle 1))) 0)
      (demo_tasks (demo_thread RunEntry (Some (TaskHandle 1))) 1)"
    by (rule demo_run_step) (simp add: demo_thread_def)
  moreover have "?R (demo_tasks (demo_thread RunEntry (Some (TaskHandle 1))) 1)
      (demo_tasks (demo_thread DropLiveToken (Some (TaskHandle 1))) 1)"
    by (rule demo_run_step) (simp add: demo_thread_def)
  ultimately show ?thesis
    by (rule converse_rtranclp_into_rtranclp [OF _ converse_rtranclp_into_rtranclp
      [OF _ converse_rtranclp_into_rtranclp [OF _ converse_rtranclp_into_rtranclp [OF _ r_into_rtranclp]]]])
qed

theorem freertos_join_sound_witness:
  "unat (task_count (demo_tasks (demo_thread DropLiveToken (Some (TaskHandle 1))) 1))
     = length (filter (\<lambda>t. pc_counted (tt_pc t)) [demo_thread DropLiveToken (Some (TaskHandle 1))])"
  using freertos_join_sound [OF fixture_clock_laws demo_reach] by (simp add: demo_tasks_def)

text \<open>The task finishes with five steps.\<close>

lemma demo_task_runs:
  assumes "task_run fixture_kernel demo_kinv 0 w n (demo_tasks t live)" and "trampoline_step t live = Some (t', live')" and "t' \<noteq> t"
  shows "task_run fixture_kernel demo_kinv 0 w (Suc n) (demo_tasks t' live')"
  using task_run.step [OF assms(1) demo_run_step [OF assms(2)]] assms(3) by (simp add: demo_tasks_def)

theorem freertos_join_completes_witness:
  "\<exists>w'. task_run fixture_kernel demo_kinv 0 (demo_tasks (demo_thread DropLiveToken (Some (TaskHandle 1))) 1) 5 w'
    \<and> task_step fixture_kernel demo_kinv w' (w'\<lparr>kw_joins := [JoinDone 0 (Ok (ExitCode 0))]\<rparr>)"
proof -
  let ?w = "demo_tasks (demo_thread DropLiveToken (Some (TaskHandle 1))) 1"
  let ?run = "task_run fixture_kernel demo_kinv 0 ?w"
  let ?done = "\<lparr>tc_state = completion_finished, tc_exit_code = 0, tc_bit = True\<rparr>"
  let ?fin = "(demo_thread DropStart None)\<lparr>tt_completion := ?done\<rparr>"
  have "?run 1 (demo_tasks (demo_thread ClearContext (Some (TaskHandle 1))) 0)"
    using demo_task_runs [OF task_run.start] by (simp add: demo_thread_def)
  from demo_task_runs [OF this] have "?run 2 (demo_tasks (demo_thread StoreExitCode None) 0)"
    by (simp add: demo_thread_def numeral_2_eq_2)
  from demo_task_runs [OF this] have "?run 3 (demo_tasks (demo_thread StoreState None) 0)"
    by (simp add: demo_thread_def task_completion_new_def)
  from demo_task_runs [OF this] have "?run 4 (demo_tasks ((demo_thread SetBit None)\<lparr>tt_completion := ?done\<lparr>tc_bit := False\<rparr>\<rparr>) 0)"
    by (simp add: demo_thread_def task_completion_new_def)
  from demo_task_runs [OF this] have five: "?run 5 (demo_tasks ?fin 0)"
    by (simp add: demo_thread_def)
  have "task_step fixture_kernel demo_kinv (demo_tasks ?fin 0) ((demo_tasks ?fin 0)\<lparr>kw_joins := [JoinDone 0 (Ok (ExitCode 0))]\<rparr>)"
    using freertos_join_completes [OF fixture_clock_laws demo_reach _ _ five]
    by (auto simp: demo_tasks_def demo_thread_def pc_returned_def)
  then show ?thesis using five by blast
qed

end
