(* ===== verification/Freertos_Queue.thy ===== *)
theory Freertos_Queue
  imports Freertos_Wait Byte_Queue Shared_Validation Semaphore_Interface
begin

text \<open>
  src/crates/osal-backend-freertos/src/queue.rs: the blocking queue made of the portable ring
  buffer, a native mutex and two native counting semaphores used as wake channels.

  The counters \<open>sender_waiters\<close>, \<open>sender_wake_credits\<close> (and the receivers' pair) are kept with
  the semaphore they describe in a record \<open>wait_side\<close>; they are natural numbers, and every
  update goes through the checked arithmetic of the source, bounded by \<open>u32_max\<close>. The native
  semaphore operations are arguments: \<open>semtake\<close> (a zero-tick take, true when a token was
  taken) and \<open>semgive\<close> (true for \<open>GiveStatus::Ok\<close>); what is relied on of them is the locale
  \<open>counting_semaphore\<close>.

  Everything between \<open>lock_state\<close> and the release of the state mutex is one function on the
  queue, and one step of the interleaving: the mutex serialises these sections, and the only
  concurrent access to what they touch is a blocked task's take of a wake token, which
  commutes with the posting of tokens.
\<close>

section \<open>State\<close>

record 's wait_side =
  sd_waiters :: nat
  sd_credits :: nat
  sd_wake :: 's

record 's queue_inner =
  qi_buffer :: byte_queue
  qi_senders :: "'s wait_side"
  qi_receivers :: "'s wait_side"
  qi_capacity :: nat
  qi_message_size :: nat

section \<open>Wake signalling\<close>

definition signal_one :: "('s \<Rightarrow> bool \<times> 's) \<Rightarrow> 's wait_side \<Rightarrow> unit res \<times> 's wait_side" where
  "signal_one semgive sd =
     (if sd_waiters sd > sd_credits sd then
        (case semgive (sd_wake sd) of
           (True, w) \<Rightarrow>
             (case checked_add u32_max (sd_credits sd) 1 of
                None \<Rightarrow> (Panic ''wake credit overflowed u32'', sd\<lparr>sd_wake := w\<rparr>)
              | Some c \<Rightarrow> (Ok (), sd\<lparr>sd_wake := w, sd_credits := c\<rparr>))
         | (False, w) \<Rightarrow> (Panic ''wake semaphore give failed'', sd\<lparr>sd_wake := w\<rparr>))
      else (Ok (), sd))"

definition signal_one_receiver :: "('s \<Rightarrow> bool \<times> 's) \<Rightarrow> 's queue_inner \<Rightarrow> unit res \<times> 's queue_inner" where
  "signal_one_receiver semgive q =
     (case signal_one semgive (qi_receivers q) of (r, sd) \<Rightarrow> (r, q\<lparr>qi_receivers := sd\<rparr>))"

definition signal_one_sender :: "('s \<Rightarrow> bool \<times> 's) \<Rightarrow> 's queue_inner \<Rightarrow> unit res \<times> 's queue_inner" where
  "signal_one_sender semgive q =
     (case signal_one semgive (qi_senders q) of (r, sd) \<Rightarrow> (r, q\<lparr>qi_senders := sd\<rparr>))"

primrec give_times :: "('s \<Rightarrow> bool \<times> 's) \<Rightarrow> nat \<Rightarrow> 's \<Rightarrow> bool \<times> 's" where
  "give_times semgive 0 w = (True, w)"
| "give_times semgive (Suc n) w =
     (case semgive w of (ok, w1) \<Rightarrow>
      case give_times semgive n w1 of (all_ok, w2) \<Rightarrow> (ok \<and> all_ok, w2))"

definition broadcast_wake :: "('s \<Rightarrow> bool \<times> 's) \<Rightarrow> 's wait_side \<Rightarrow> bool res \<times> 's wait_side" where
  "broadcast_wake semgive sd =
     (case checked_sub (sd_waiters sd) (sd_credits sd) of
        None \<Rightarrow> (Panic ''wake credits exceed waiter count'', sd)
      | Some missing \<Rightarrow>
          (case give_times semgive missing (sd_wake sd) of
             (all_ok, w) \<Rightarrow> (Ok all_ok, sd\<lparr>sd_wake := w, sd_credits := sd_waiters sd\<rparr>)))"

section \<open>Waiter bookkeeping\<close>

text \<open>Register, confirm a token and unregister, and unregister after a timeout.\<close>

definition register_waiter :: "'s wait_side \<Rightarrow> unit res \<times> 's wait_side" where
  "register_waiter sd =
     (case checked_add u32_max (sd_waiters sd) 1 of
        None \<Rightarrow> (Panic ''waiter count overflowed u32'', sd)
      | Some n \<Rightarrow> (Ok (), sd\<lparr>sd_waiters := n\<rparr>))"

definition confirm_token :: "'s wait_side \<Rightarrow> unit res \<times> 's wait_side" where
  "confirm_token sd =
     (case checked_sub (sd_credits sd) 1 of
        None \<Rightarrow> (Panic ''wake token without credit'', sd)
      | Some c \<Rightarrow>
          (case checked_sub (sd_waiters sd) 1 of
             None \<Rightarrow> (Panic ''unregister without waiter'', sd\<lparr>sd_credits := c\<rparr>)
           | Some n \<Rightarrow> (Ok (), sd\<lparr>sd_credits := c, sd_waiters := n\<rparr>)))"

text \<open>The section after a wait. The result \<open>None\<close> goes back to the head of the loop; the last
  argument is the error of a genuine timeout.\<close>

definition resume_side ::
  "('s \<Rightarrow> bool \<times> 's) \<Rightarrow> wait_outcome \<Rightarrow> error \<Rightarrow> 's wait_side \<Rightarrow> unit res option \<times> 's wait_side" where
  "resume_side semtake outcome timeout_error sd =
     (let confirm = (\<lambda>sd. case confirm_token sd of
                       (Ok _, sd') \<Rightarrow> (None, sd') | (r, sd') \<Rightarrow> (Some r, sd'))
      in case outcome of
           Acquired \<Rightarrow> confirm sd
         | Unavailable \<Rightarrow>
             (case semtake (sd_wake sd) of
                (True, w) \<Rightarrow> confirm (sd\<lparr>sd_wake := w\<rparr>)
              | (False, w) \<Rightarrow>
                  (case checked_sub (sd_waiters sd) 1 of
                     None \<Rightarrow> (Some (Panic ''timeout unregister without waiter''), sd\<lparr>sd_wake := w\<rparr>)
                   | Some n \<Rightarrow> (Some (Err timeout_error), sd\<lparr>sd_wake := w, sd_waiters := n\<rparr>))))"

section \<open>Send\<close>

text \<open>A section under the mutex ends in a return or in a wait with the prepared budget.
  \<open>prep\<close> is \<open>budget.prepare_blocking()\<close> at that moment.\<close>

datatype try_outcome = TryReturn "unit res" | TryBlock wait_budget

definition block_on ::
  "(wait_budget \<Rightarrow> unit res \<times> wait_budget) \<Rightarrow> error \<Rightarrow> wait_budget \<Rightarrow> 's wait_side
    \<Rightarrow> try_outcome \<times> 's wait_side" where
  "block_on prep no_wait_error b sd =
     (case b of
        BudgetNoWait \<Rightarrow> (TryReturn (Err no_wait_error), sd)
      | BudgetZero \<Rightarrow> (TryReturn (Err Timeout), sd)
      | _ \<Rightarrow>
          (case prep b of
             (Ok _, b') \<Rightarrow>
               (case register_waiter sd of
                  (Ok _, sd') \<Rightarrow> (TryBlock b', sd') | (r, sd') \<Rightarrow> (TryReturn r, sd'))
           | (r, b') \<Rightarrow> (TryReturn r, sd)))"

definition send_try ::
  "(wait_budget \<Rightarrow> unit res \<times> wait_budget) \<Rightarrow> ('s \<Rightarrow> bool \<times> 's) \<Rightarrow> u8 list \<Rightarrow> wait_budget
    \<Rightarrow> 's queue_inner \<Rightarrow> try_outcome \<times> 's queue_inner" where
  "send_try prep semgive data b q =
     (if bq_closed (qi_buffer q) then (TryReturn (Err QueueClosed), q)
      else case try_send (qi_buffer q) data of
        (r, bq) \<Rightarrow>
          (let q1 = q\<lparr>qi_buffer := bq\<rparr> in
           case r of
             Ok _ \<Rightarrow> (case signal_one_receiver semgive q1 of (s, q2) \<Rightarrow> (TryReturn s, q2))
           | Err QueueFull \<Rightarrow>
               (case block_on prep QueueFull b (qi_senders q1) of
                  (t, sd) \<Rightarrow> (t, q1\<lparr>qi_senders := sd\<rparr>))
           | _ \<Rightarrow> (TryReturn r, q1)))"

definition send_resume ::
  "('s \<Rightarrow> bool \<times> 's) \<Rightarrow> wait_outcome \<Rightarrow> 's queue_inner \<Rightarrow> unit res option \<times> 's queue_inner" where
  "send_resume semtake outcome q =
     (case resume_side semtake outcome (if bq_closed (qi_buffer q) then QueueClosed else Timeout)
             (qi_senders q) of
        (r, sd) \<Rightarrow> (r, q\<lparr>qi_senders := sd\<rparr>))"

section \<open>Receive\<close>

definition recv_try ::
  "(wait_budget \<Rightarrow> unit res \<times> wait_budget) \<Rightarrow> ('s \<Rightarrow> bool \<times> 's) \<Rightarrow> u8 list \<Rightarrow> wait_budget
    \<Rightarrow> 's queue_inner \<Rightarrow> try_outcome \<times> 's queue_inner \<times> u8 list" where
  "recv_try prep semgive buf b q =
     (case try_recv (qi_buffer q) buf of
        (r, bq, buf') \<Rightarrow>
          (let q1 = q\<lparr>qi_buffer := bq\<rparr> in
           case r of
             Ok _ \<Rightarrow> (case signal_one_sender semgive q1 of (s, q2) \<Rightarrow> (TryReturn s, q2, buf'))
           | Err QueueEmpty \<Rightarrow>
               if bq_closed bq then (TryReturn (Err QueueClosed), q1, buf')
               else (case block_on prep QueueEmpty b (qi_receivers q1) of
                       (t, sd) \<Rightarrow> (t, q1\<lparr>qi_receivers := sd\<rparr>, buf'))
           | Err e \<Rightarrow> (TryReturn (Err e), q1, buf')
           | Panic s \<Rightarrow> (TryReturn (Panic s), q1, buf')))"

definition recv_resume ::
  "('s \<Rightarrow> bool \<times> 's) \<Rightarrow> wait_outcome \<Rightarrow> 's queue_inner \<Rightarrow> unit res option \<times> 's queue_inner" where
  "recv_resume semtake outcome q =
     (case resume_side semtake outcome
             (if bq_closed (qi_buffer q) \<and> bq_is_empty (qi_buffer q) then QueueClosed else Timeout)
             (qi_receivers q) of
        (r, sd) \<Rightarrow> (r, q\<lparr>qi_receivers := sd\<rparr>))"

section \<open>Close\<close>

definition close_locked :: "('s \<Rightarrow> bool \<times> 's) \<Rightarrow> 's queue_inner \<Rightarrow> unit res \<times> 's queue_inner" where
  "close_locked semgive q =
     (if bq_closed (qi_buffer q) then (Ok (), q)
      else
        let q1 = q\<lparr>qi_buffer := bq_close (qi_buffer q)\<rparr> in
        case broadcast_wake semgive (qi_senders q1) of
          (Ok sender_ok, sd) \<Rightarrow>
            (let q2 = q1\<lparr>qi_senders := sd\<rparr> in
             case broadcast_wake semgive (qi_receivers q2) of
               (Ok receiver_ok, rd) \<Rightarrow>
                 (let q3 = q2\<lparr>qi_receivers := rd\<rparr> in
                  if \<not> sender_ok \<or> \<not> receiver_ok
                  then (Panic ''wake semaphore give failed during close broadcast'', q3)
                  else (Ok (), q3))
             | (Err e, rd) \<Rightarrow> (Err e, q2) | (Panic m, rd) \<Rightarrow> (Panic m, q2))
        | (Err e, sd) \<Rightarrow> (Err e, q1) | (Panic m, sd) \<Rightarrow> (Panic m, q1))"

section \<open>Tasks and interleavings\<close>

text \<open>Where a task is in its call: about to lock at the head of the loop, blocked on the wake
  semaphore, about to lock again with the outcome of the wait, or back with a result.\<close>

datatype queue_pc =
    Returned "unit res"
  | SendTry "u8 list" wait_budget
  | SendWait "u8 list" wait_budget
  | SendResume "u8 list" wait_budget wait_outcome
  | RecvTry "u8 list" wait_budget
  | RecvWait "u8 list" wait_budget
  | RecvResume "u8 list" wait_budget wait_outcome
  | CloseTry

definition send_call :: "'s queue_inner \<Rightarrow> u8 list \<Rightarrow> timeout \<Rightarrow> queue_pc" where
  "send_call q data t =
     (case validate_send_message_size (qi_message_size q) (length data) of
        Ok _ \<Rightarrow> SendTry data (budget_new t) | r \<Rightarrow> Returned r)"

definition recv_call :: "'s queue_inner \<Rightarrow> u8 list \<Rightarrow> timeout \<Rightarrow> queue_pc" where
  "recv_call q buf t =
     (case validate_recv_buffer_size (qi_message_size q) (length buf) of
        Ok _ \<Rightarrow> RecvTry buf (budget_new t) | r \<Rightarrow> Returned r)"

text \<open>The world: the queue, the tasks, and the messages whose send returned \<open>Ok\<close> and that a
  receive returned with \<open>Ok\<close>, in the order of their sections under the mutex.\<close>

record 's queue_world =
  qw_queue :: "'s queue_inner"
  qw_tasks :: "queue_pc list"
  qw_sent :: "u8 list list"
  qw_received :: "u8 list list"

fun budget_prepared :: "wait_budget \<Rightarrow> bool" where
  "budget_prepared (BudgetFinite d dl p) = p"
| "budget_prepared (BudgetForever p) = p"
| "budget_prepared _ = False"

fun budget_finite :: "wait_budget \<Rightarrow> bool" where
  "budget_finite (BudgetFinite _ _ _) = True"
| "budget_finite _ = False"

definition set_pc :: "nat \<Rightarrow> queue_pc \<Rightarrow> 's queue_world \<Rightarrow> 's queue_world" where
  "set_pc i p w = w\<lparr>qw_tasks := (qw_tasks w)[i := p]\<rparr>"

text \<open>After the loop head, the task has returned or waits; after a wait it has returned or is
  at the loop head again.\<close>

fun after_try :: "(wait_budget \<Rightarrow> queue_pc) \<Rightarrow> try_outcome \<Rightarrow> queue_pc" where
  "after_try wait (TryReturn r) = Returned r"
| "after_try wait (TryBlock b) = wait b"

fun after_resume :: "queue_pc \<Rightarrow> unit res option \<Rightarrow> queue_pc" where
  "after_resume again None = again"
| "after_resume again (Some r) = Returned r"

text \<open>One step of one task, on a kernel \<open>K\<close> whose state is anything that satisfies \<open>kinv\<close> when
  the step runs. A blocked task takes a token, or its finite wait ends without one.\<close>

inductive queue_step ::
  "'k kernel \<Rightarrow> ('k \<Rightarrow> bool) \<Rightarrow> ('s \<Rightarrow> bool \<times> 's) \<Rightarrow> ('s \<Rightarrow> bool \<times> 's)
    \<Rightarrow> 's queue_world \<Rightarrow> 's queue_world \<Rightarrow> bool"
  for K kinv semtake semgive where
  call_send: "queue_step K kinv semtake semgive w (set_pc i (send_call (qw_queue w) data t) w)"
  if "i < length (qw_tasks w)" "qw_tasks w ! i = Returned r"
| call_recv: "queue_step K kinv semtake semgive w (set_pc i (recv_call (qw_queue w) buf t) w)"
  if "i < length (qw_tasks w)" "qw_tasks w ! i = Returned r"
| call_close: "queue_step K kinv semtake semgive w (set_pc i CloseTry w)"
  if "i < length (qw_tasks w)" "qw_tasks w ! i = Returned r"
| do_send: "queue_step K kinv semtake semgive w
      (set_pc i (after_try (SendWait data) t)
        (w\<lparr>qw_queue := q, qw_sent := (if t = TryReturn (Ok ()) then qw_sent w @ [data] else qw_sent w)\<rparr>))"
  if "i < length (qw_tasks w)" "qw_tasks w ! i = SendTry data b" "kinv k"
    "send_try (prepare_blocking K k) semgive data b (qw_queue w) = (t, q)"
| send_token: "queue_step K kinv semtake semgive w
      (set_pc i (SendResume data b Acquired) (w\<lparr>qw_queue := (qw_queue w)\<lparr>qi_senders :=
         (qi_senders (qw_queue w))\<lparr>sd_wake := s\<rparr>\<rparr>\<rparr>))"
  if "i < length (qw_tasks w)" "qw_tasks w ! i = SendWait data b"
    "semtake (sd_wake (qi_senders (qw_queue w))) = (True, s)"
| send_timeout: "queue_step K kinv semtake semgive w (set_pc i (SendResume data b Unavailable) w)"
  if "i < length (qw_tasks w)" "qw_tasks w ! i = SendWait data b" "budget_finite b"
| do_send_resume: "queue_step K kinv semtake semgive w
      (set_pc i (after_resume (SendTry data b) r) (w\<lparr>qw_queue := q\<rparr>))"
  if "i < length (qw_tasks w)" "qw_tasks w ! i = SendResume data b outcome"
    "send_resume semtake outcome (qw_queue w) = (r, q)"
| do_recv: "queue_step K kinv semtake semgive w
      (set_pc i (after_try (RecvWait buf') t)
        (w\<lparr>qw_queue := q, qw_received :=
           (if t = TryReturn (Ok ()) then qw_received w @ [buf'] else qw_received w)\<rparr>))"
  if "i < length (qw_tasks w)" "qw_tasks w ! i = RecvTry buf b" "kinv k"
    "recv_try (prepare_blocking K k) semgive buf b (qw_queue w) = (t, q, buf')"
| recv_token: "queue_step K kinv semtake semgive w
      (set_pc i (RecvResume buf b Acquired) (w\<lparr>qw_queue := (qw_queue w)\<lparr>qi_receivers :=
         (qi_receivers (qw_queue w))\<lparr>sd_wake := s\<rparr>\<rparr>\<rparr>))"
  if "i < length (qw_tasks w)" "qw_tasks w ! i = RecvWait buf b"
    "semtake (sd_wake (qi_receivers (qw_queue w))) = (True, s)"
| recv_timeout: "queue_step K kinv semtake semgive w (set_pc i (RecvResume buf b Unavailable) w)"
  if "i < length (qw_tasks w)" "qw_tasks w ! i = RecvWait buf b" "budget_finite b"
| do_recv_resume: "queue_step K kinv semtake semgive w
      (set_pc i (after_resume (RecvTry buf b) r) (w\<lparr>qw_queue := q\<rparr>))"
  if "i < length (qw_tasks w)" "qw_tasks w ! i = RecvResume buf b outcome"
    "recv_resume semtake outcome (qw_queue w) = (r, q)"
| do_close: "queue_step K kinv semtake semgive w (set_pc i (Returned r) (w\<lparr>qw_queue := q\<rparr>))"
  if "i < length (qw_tasks w)" "qw_tasks w ! i = CloseTry"
    "close_locked semgive (qw_queue w) = (r, q)"

text \<open>A queue as its constructor leaves it, with its two fresh wake semaphores.\<close>

definition queue_inner_init :: "byte_queue \<Rightarrow> 's \<Rightarrow> 's \<Rightarrow> 's queue_inner" where
  "queue_inner_init buffer sw rw =
     \<lparr>qi_buffer = buffer,
      qi_senders = \<lparr>sd_waiters = 0, sd_credits = 0, sd_wake = sw\<rparr>,
      qi_receivers = \<lparr>sd_waiters = 0, sd_credits = 0, sd_wake = rw\<rparr>,
      qi_capacity = bq_capacity buffer, qi_message_size = bq_message_size buffer\<rparr>"

definition queue_world_init :: "nat \<Rightarrow> 's queue_inner \<Rightarrow> 's queue_world" where
  "queue_world_init n q =
     \<lparr>qw_queue = q, qw_tasks = replicate n (Returned (Ok ())), qw_sent = [], qw_received = []\<rparr>"

section \<open>Counting tasks\<close>

text \<open>The tasks of one direction: blocked, holding a token, timed out, and back at the loop
  head after a wait (their budget is prepared).\<close>

fun send_class :: "queue_pc \<Rightarrow> nat" where
  "send_class (SendWait _ _) = 1"
| "send_class (SendResume _ _ Acquired) = 2"
| "send_class (SendResume _ _ Unavailable) = 3"
| "send_class (SendTry _ b) = (if budget_prepared b then 4 else 0)"
| "send_class _ = 0"

fun recv_class :: "queue_pc \<Rightarrow> nat" where
  "recv_class (RecvWait _ _) = 1"
| "recv_class (RecvResume _ _ Acquired) = 2"
| "recv_class (RecvResume _ _ Unavailable) = 3"
| "recv_class (RecvTry _ b) = (if budget_prepared b then 4 else 0)"
| "recv_class _ = 0"

definition in_class :: "(queue_pc \<Rightarrow> nat) \<Rightarrow> nat \<Rightarrow> queue_pc list \<Rightarrow> nat" where
  "in_class cls c ts = length (filter (\<lambda>p. cls p = c) ts)"

lemma in_class_update:
  assumes "i < length ts"
  shows "in_class cls c (ts[i := p]) + of_bool (cls (ts ! i) = c) = in_class cls c ts + of_bool (cls p = c)"
  using assms
proof (induction ts arbitrary: i)
  case (Cons t ts)
  then show ?case by (cases i) (auto simp: in_class_def)
qed simp

lemma in_class_move:
  assumes "i < length ts" and "cls (ts ! i) = c" and "cls p = c'" and "c \<noteq> c'"
  shows "in_class cls c ts = Suc (in_class cls c (ts[i := p]))"
    and "in_class cls c' (ts[i := p]) = Suc (in_class cls c' ts)"
    and "d \<noteq> c \<Longrightarrow> d \<noteq> c' \<Longrightarrow> in_class cls d (ts[i := p]) = in_class cls d ts"
  using in_class_update [OF assms(1), of cls c p] in_class_update [OF assms(1), of cls c' p]
    in_class_update [OF assms(1), of cls d p] assms(2-4)
  by simp_all

lemma in_class_same:
  "i < length ts \<Longrightarrow> cls (ts ! i) = cls p \<Longrightarrow> in_class cls d (ts[i := p]) = in_class cls d ts"
  using in_class_update [of i ts cls d p] by simp

lemma in_class_total:
  "in_class cls 1 ts + in_class cls 2 ts + in_class cls 3 ts + in_class cls 4 ts \<le> length ts"
  unfolding in_class_def by (induction ts) auto

lemma in_class_pos: "i < length ts \<Longrightarrow> cls (ts ! i) = c \<Longrightarrow> 0 < in_class cls c ts"
  unfolding in_class_def by (auto simp: length_greater_0_conv filter_empty_conv)

lemma in_class_posD: "0 < in_class cls c ts \<Longrightarrow> \<exists>i < length ts. cls (ts ! i) = c"
proof -
  assume "0 < in_class cls c ts"
  then have "filter (\<lambda>p. cls p = c) ts \<noteq> []" by (simp add: in_class_def)
  then obtain p where "p \<in> set ts" "cls p = c" by (auto simp: filter_empty_conv)
  then show ?thesis by (auto simp: in_set_conv_nth)
qed

section \<open>One direction\<close>

text \<open>The law of one direction, where \<open>av\<close> is what its tasks wait for (free slots, or queued
  messages) and \<open>W\<close>, \<open>G\<close>, \<open>T\<close>, \<open>R\<close> count its blocked, token-holding, expired and retrying tasks.
  The last conjunct is the absence of lost wake-ups: while some waiter has no credit, what is
  available is already promised to credits and retrying tasks.\<close>

locale wake_channel = counting_semaphore semtake semgive cnt cap sinv
  for semtake semgive :: "'s \<Rightarrow> bool \<times> 's" and cnt cap sinv +
  fixes tasks :: nat
  assumes tasks_u32: "tasks \<le> u32_max"
begin

definition side_inv :: "bool \<Rightarrow> nat \<Rightarrow> 's wait_side \<Rightarrow> nat \<Rightarrow> nat \<Rightarrow> nat \<Rightarrow> nat \<Rightarrow> bool" where
  "side_inv closed av sd W G T R =
     (sinv (sd_wake sd) \<and> tasks \<le> cap (sd_wake sd)
      \<and> sd_waiters sd = W + G + T \<and> sd_credits sd = cnt (sd_wake sd) + G
      \<and> sd_credits sd \<le> sd_waiters sd \<and> (closed \<longrightarrow> sd_credits sd = sd_waiters sd)
      \<and> (sd_credits sd < sd_waiters sd \<longrightarrow> av \<le> sd_credits sd + R))"

lemma signal_one_law:
  assumes "side_inv closed av sd W G T R" and "W + G + T \<le> tasks"
  shows "\<exists>sd'. signal_one semgive sd = (Ok (), sd') \<and> side_inv closed (Suc av) sd' W G T R"
proof (cases "sd_credits sd < sd_waiters sd")
  case False
  then show ?thesis using assms(1) by (simp add: signal_one_def side_inv_def)
next
  case True
  obtain ok w where g: "semgive (sd_wake sd) = (ok, w)" by (cases "semgive (sd_wake sd)")
  note law = rel_law [OF _ g]
  have "sinv (sd_wake sd)" using assms(1) by (simp add: side_inv_def)
  note law = law [OF this]
  have ok: "ok" using law True assms by (auto simp: side_inv_def)
  have "sd_credits sd + 1 \<le> u32_max" using True assms tasks_u32 by (simp add: side_inv_def)
  then have "signal_one semgive sd = (Ok (), sd\<lparr>sd_wake := w, sd_credits := sd_credits sd + 1\<rparr>)"
    using True g ok by (simp add: signal_one_def checked_add_def)
  then show ?thesis using law ok True assms(1) by (auto simp: side_inv_def)
qed

lemma register_law:
  assumes "side_inv False 0 sd W G T R" and "W + G + T < tasks"
  shows "\<exists>sd'. register_waiter sd = (Ok (), sd') \<and> side_inv False 0 sd' (Suc W) G T R'"
  using assms tasks_u32 by (auto simp: register_waiter_def side_inv_def checked_add_def)

lemma take_token_law:
  assumes "side_inv closed av sd (Suc W) G T R" and "semtake (sd_wake sd) = (True, s)"
  shows "side_inv closed av (sd\<lparr>sd_wake := s\<rparr>) W (Suc G) T R"
  using assms acq_law [OF _ assms(2)] by (auto simp: side_inv_def)

lemma expire_law:
  "side_inv closed av sd (Suc W) G T R \<Longrightarrow> side_inv closed av sd W G (Suc T) R"
  by (auto simp: side_inv_def)

lemma confirm_law:
  assumes "side_inv closed av sd W (Suc G) T R"
  shows "\<exists>sd'. confirm_token sd = (Ok (), sd') \<and> side_inv closed av sd' W G T (Suc R)"
  using assms by (auto simp: side_inv_def confirm_token_def checked_sub_def)

lemma resume_acquired_law:
  assumes "side_inv closed av sd W (Suc G) T R"
  shows "\<exists>sd'. resume_side semtake Acquired e sd = (None, sd') \<and> side_inv closed av sd' W G T (Suc R)"
  using confirm_law [OF assms] by (auto simp: resume_side_def)

text \<open>After a timeout: a token that arrived meanwhile is confirmed and the task retries;
  without one the task leaves, which can only happen while the queue is open.\<close>

lemma resume_expired_law:
  assumes "side_inv closed av sd W G (Suc T) R"
  shows "(\<exists>sd'. resume_side semtake Unavailable e sd = (None, sd') \<and> side_inv closed av sd' W G T (Suc R))
    \<or> (\<exists>sd'. resume_side semtake Unavailable e sd = (Some (Err e), sd') \<and> \<not> closed
         \<and> side_inv closed av sd' W G T R)"
proof -
  obtain ok w where t: "semtake (sd_wake sd) = (ok, w)" by (cases "semtake (sd_wake sd)")
  have "sinv (sd_wake sd)" using assms by (simp add: side_inv_def)
  note law = acq_law [OF this t]
  show ?thesis
  proof (cases ok)
    case True
    then have "side_inv closed av (sd\<lparr>sd_wake := w\<rparr>) W (Suc G) T R"
      using assms law by (auto simp: side_inv_def)
    then obtain sd' where "confirm_token (sd\<lparr>sd_wake := w\<rparr>) = (Ok (), sd')"
        "side_inv closed av sd' W G T (Suc R)" using confirm_law by blast
    then show ?thesis using t True by (simp add: resume_side_def)
  next
    case False
    then have "\<not> closed" using assms law by (auto simp: side_inv_def)
    moreover have "resume_side semtake Unavailable e sd
        = (Some (Err e), sd\<lparr>sd_wake := w, sd_waiters := sd_waiters sd - 1\<rparr>)"
      using assms t False by (simp add: resume_side_def checked_sub_def side_inv_def)
    ultimately show ?thesis using assms law False by (auto simp: side_inv_def)
  qed
qed

text \<open>A successful operation uses up one unit; a retrying task that leaves or waits again does
  so after it used one unit, or when nothing is available, or when the queue is closed.\<close>

lemma use_one_law: "side_inv closed (Suc av) sd W G T R \<Longrightarrow> side_inv closed av sd W G T R"
  by (auto simp: side_inv_def)

lemma retry_used_law: "side_inv closed (Suc av) sd W G T (Suc R) \<Longrightarrow> side_inv closed av sd W G T R"
  by (auto simp: side_inv_def)

lemma retry_leaves_law:
  "side_inv closed av sd W G T R \<Longrightarrow> closed \<or> av = 0 \<Longrightarrow> side_inv closed av sd W G T R'"
  by (auto simp: side_inv_def)

lemma give_times_law:
  assumes "sinv w" and "cnt w + n \<le> cap w" and "give_times semgive n w = (ok, w')"
  shows "sinv w' \<and> cap w' = cap w \<and> ok \<and> cnt w' = cnt w + n"
  using assms
proof (induction n arbitrary: w ok w')
  case (Suc n)
  obtain o1 w1 where g: "semgive w = (o1, w1)" by (cases "semgive w")
  note law = rel_law [OF Suc.prems(1) g]
  obtain o2 w2 where r: "give_times semgive n w1 = (o2, w2)" by (cases "give_times semgive n w1")
  have "o1" "sinv w1" "cap w1 = cap w" "cnt w1 = cnt w + 1" using law Suc.prems(2) by auto
  moreover have "sinv w2 \<and> cap w2 = cap w1 \<and> o2 \<and> cnt w2 = cnt w1 + n"
    using Suc.IH [OF _ _ r] Suc.prems(2) calculation by simp
  ultimately show ?case using Suc.prems(3) g r by simp
qed simp

lemma broadcast_law:
  assumes "side_inv False av sd W G T R" and "W + G + T \<le> tasks"
  shows "\<exists>sd'. broadcast_wake semgive sd = (Ok True, sd') \<and> side_inv True av' sd' W G T R'"
proof -
  let ?m = "sd_waiters sd - sd_credits sd"
  obtain ok w where g: "give_times semgive ?m (sd_wake sd) = (ok, w)"
    by (cases "give_times semgive ?m (sd_wake sd)")
  have "sinv w \<and> cap w = cap (sd_wake sd) \<and> ok \<and> cnt w = cnt (sd_wake sd) + ?m"
    by (rule give_times_law [OF _ _ g]) (use assms in \<open>auto simp: side_inv_def\<close>)
  then show ?thesis
    using g assms by (auto simp: broadcast_wake_def checked_sub_def side_inv_def)
qed

text \<open>A blocked task with something available: a token is posted, or somebody holds one or
  retries.\<close>

lemma blocked_not_lost:
  assumes "side_inv closed av sd W G T R" and "0 < W" and "closed \<or> 0 < av"
  shows "0 < cnt (sd_wake sd) \<or> 0 < G \<or> 0 < R"
  using assms by (cases "sd_credits sd < sd_waiters sd") (auto simp: side_inv_def)

end

section \<open>The protocol\<close>

text \<open>The queue relies on a clock that does not fail and on its two wake semaphores; \<open>tasks\<close>
  bounds the number of tasks that use the queue.\<close>

fun pc_ok :: "nat \<Rightarrow> queue_pc \<Rightarrow> bool" where
  "pc_ok n (Returned r) = (\<not> is_panic r)"
| "pc_ok n (SendTry m b) = (length m = n)"
| "pc_ok n (SendWait m b) = (length m = n \<and> budget_prepared b)"
| "pc_ok n (SendResume m b oc) = (length m = n \<and> budget_prepared b)"
| "pc_ok n (RecvTry m b) = (length m = n)"
| "pc_ok n (RecvWait m b) = (length m = n \<and> budget_prepared b)"
| "pc_ok n (RecvResume m b oc) = (length m = n \<and> budget_prepared b)"
| "pc_ok n CloseTry = True"

lemma budget_new_unprepared [simp]: "\<not> budget_prepared (budget_new t)"
  by (cases t) (simp_all add: budget_new_def)

lemma pc_ok_update:
  "(\<forall>p\<in>set ts. pc_ok n p) \<Longrightarrow> pc_ok n p \<Longrightarrow> (\<forall>p\<in>set (ts[i := p]). pc_ok n p)"
  using set_update_subset_insert [of ts i p] by auto

lemma nth_pc_ok: "(\<forall>p\<in>set ts. pc_ok n p) \<Longrightarrow> i < length ts \<Longrightarrow> ts ! i = p \<Longrightarrow> pc_ok n p"
  using nth_mem by blast

context wake_channel
begin

definition side_of :: "(queue_pc \<Rightarrow> nat) \<Rightarrow> bool \<Rightarrow> nat \<Rightarrow> 's wait_side \<Rightarrow> queue_pc list \<Rightarrow> bool" where
  "side_of cls closed av sd ts =
     side_inv closed av sd (in_class cls 1 ts) (in_class cls 2 ts) (in_class cls 3 ts) (in_class cls 4 ts)"

lemma side_same:
  "side_of cls closed av sd ts \<Longrightarrow> i < length ts \<Longrightarrow> cls (ts ! i) = cls p
    \<Longrightarrow> side_of cls closed av sd (ts[i := p])"
  by (simp add: side_of_def in_class_same)

lemma side_signal:
  assumes "side_of cls closed av sd ts" and "length ts \<le> tasks"
  shows "\<exists>sd'. signal_one semgive sd = (Ok (), sd') \<and> side_of cls closed (Suc av) sd' ts"
  using signal_one_law assms in_class_total [of cls ts] unfolding side_of_def by auto

lemma side_broadcast:
  assumes "side_of cls False av sd ts" and "length ts \<le> tasks"
  shows "\<exists>sd'. broadcast_wake semgive sd = (Ok True, sd') \<and> side_of cls True av' sd' ts"
  using broadcast_law assms in_class_total [of cls ts] unfolding side_of_def by auto

lemma side_token:
  assumes "side_of cls closed av sd ts" and "i < length ts" and "cls (ts ! i) = 1" and "cls p = 2"
    and "semtake (sd_wake sd) = (True, s)"
  shows "side_of cls closed av (sd\<lparr>sd_wake := s\<rparr>) (ts[i := p])"
  using take_token_law [OF _ assms(5)] assms(1) in_class_move [OF assms(2-4)] unfolding side_of_def by auto

lemma side_expire:
  assumes "side_of cls closed av sd ts" and "i < length ts" and "cls (ts ! i) = 1" and "cls p = 3"
  shows "side_of cls closed av sd (ts[i := p])"
  using expire_law assms(1) in_class_move [OF assms(2-4)] unfolding side_of_def by auto

lemma side_resume_acquired:
  assumes "side_of cls closed av sd ts" and "i < length ts" and "cls (ts ! i) = 2" and "cls p = 4"
  shows "\<exists>sd'. resume_side semtake Acquired e sd = (None, sd') \<and> side_of cls closed av sd' (ts[i := p])"
  using resume_acquired_law assms(1) in_class_move [OF assms(2-4)] unfolding side_of_def by auto

lemma side_resume_expired:
  assumes "side_of cls closed av sd ts" and "i < length ts" and "cls (ts ! i) = 3"
    and "cls p = 4" and "cls p' = 0"
  shows "(\<exists>sd'. resume_side semtake Unavailable e sd = (None, sd') \<and> side_of cls closed av sd' (ts[i := p]))
    \<or> (\<exists>sd'. resume_side semtake Unavailable e sd = (Some (Err e), sd') \<and> \<not> closed
         \<and> side_of cls closed av sd' (ts[i := p']))"
  using resume_expired_law [of closed av sd _ _ "in_class cls 3 (ts[i := p])" _ e]
    assms(1) in_class_move [OF assms(2-4)] in_class_move [OF assms(2,3,5)]
  unfolding side_of_def by auto

lemma side_leave:
  assumes "side_of cls closed av sd ts" and "i < length ts" and "cls (ts ! i) = 0 \<or> cls (ts ! i) = 4"
    and "cls p = 0" and "closed \<or> av = 0"
  shows "side_of cls closed av sd (ts[i := p])"
proof (cases "cls (ts ! i) = 0")
  case True
  then show ?thesis using side_same assms by metis
next
  case False
  then have c: "cls (ts ! i) = 4" using assms(3) by simp
  show ?thesis
    using retry_leaves_law assms(1,5) in_class_move [OF assms(2) c assms(4)] unfolding side_of_def by auto
qed

lemma side_used:
  assumes "side_of cls closed (Suc av) sd ts" and "i < length ts" and "cls (ts ! i) = 0 \<or> cls (ts ! i) = 4"
    and "cls p = 0"
  shows "side_of cls closed av sd (ts[i := p])"
proof (cases "cls (ts ! i) = 0")
  case True
  then have "side_of cls closed (Suc av) sd (ts[i := p])" using side_same assms by metis
  then show ?thesis unfolding side_of_def by (rule use_one_law)
next
  case False
  then have c: "cls (ts ! i) = 4" using assms(3) by simp
  show ?thesis
    using retry_used_law assms(1) in_class_move [OF assms(2) c assms(4)] unfolding side_of_def by auto
qed

lemma side_block:
  assumes "side_of cls False 0 sd ts" and "i < length ts" and "cls (ts ! i) = 0 \<or> cls (ts ! i) = 4"
    and "cls p = 1" and "length ts \<le> tasks"
  shows "\<exists>sd'. register_waiter sd = (Ok (), sd') \<and> side_of cls False 0 sd' (ts[i := p])"
proof -
  obtain c where c: "cls (ts ! i) = c" "c = 0 \<or> c = 4" using assms(3) by blast
  note mv = in_class_move [OF assms(2) c(1) assms(4)]
  have "in_class cls 1 (ts[i := p]) + in_class cls 2 (ts[i := p]) + in_class cls 3 (ts[i := p])
      + in_class cls 4 (ts[i := p]) \<le> tasks"
    using in_class_total [of cls "ts[i := p]"] assms(5) by simp
  then have "in_class cls 1 ts + in_class cls 2 ts + in_class cls 3 ts < tasks"
    using mv c(2) by auto
  from register_law [OF assms(1) [unfolded side_of_def] this, of "in_class cls 4 (ts[i := p])"]
  show ?thesis using mv c(2) unfolding side_of_def by auto
qed

end

locale queue_protocol =
  kernel_clock K caps kinv + wake_channel semtake semgive cnt cap sinv tasks
  for K :: "'k kernel" and caps kinv
    and semtake semgive :: "'s \<Rightarrow> bool \<times> 's" and cnt cap sinv tasks
begin

text \<open>Preparing a wait may fail with an error, never with a panic, and marks the budget.\<close>

lemma prepare_law:
  assumes "kinv k" and "prepare_blocking K k b = (r, b')"
  shows "\<not> is_panic r" and "r = Ok x \<Longrightarrow> b \<noteq> BudgetNoWait \<Longrightarrow> b \<noteq> BudgetZero \<Longrightarrow> budget_prepared b'"
  using assms(2) now_value [OF assms(1)]
  by (auto simp: prepare_blocking_def budget_deadline_def ensure_blocking_allowed_def ok_or_def
    split: wait_budget.splits scheduler_state.splits option.splits)

text \<open>A task that finds nothing available returns an error or registers and waits.\<close>

lemma block_on_law:
  assumes "side_of cls False 0 sd ts" and "i < length ts" and "cls (ts ! i) = 0 \<or> cls (ts ! i) = 4"
    and "length ts \<le> tasks" and "kinv k" and "\<And>b. cls (wt b) = 1" and "\<And>r. cls (Returned r) = 0"
    and "block_on (prepare_blocking K k) e b sd = (t, sd')"
  shows "(\<exists>err. t = TryReturn (Err err)) \<and> side_of cls False 0 sd' (ts[i := after_try wt t])
    \<or> (\<exists>b'. t = TryBlock b' \<and> budget_prepared b') \<and> side_of cls False 0 sd' (ts[i := after_try wt t])"
proof -
  have leave: "side_of cls False 0 sd (ts[i := Returned r])" for r
    using side_leave [OF assms(1-3)] assms(7) by simp
  obtain r b' where p: "prepare_blocking K k b = (r, b')" by (cases "prepare_blocking K k b")
  obtain sd1 where reg: "register_waiter sd = (Ok (), sd1)" "side_of cls False 0 sd1 (ts[i := wt b'])"
    using side_block [OF assms(1-3,6,4)] by blast
  show ?thesis
    using assms(8) p reg leave prepare_law [OF assms(5) p]
    by (cases b; cases r) (auto simp: block_on_def)
qed

definition qw_inv :: "'s queue_world \<Rightarrow> bool" where
  "qw_inv w =
     (let q = qw_queue w; bq = qi_buffer q; ts = qw_tasks w in
      bq_inv bq \<and> qi_message_size q = bq_message_size bq \<and> length ts \<le> tasks
      \<and> side_of send_class (bq_closed bq) (bq_capacity bq - bq_len bq) (qi_senders q) ts
      \<and> side_of recv_class (bq_closed bq) (bq_len bq) (qi_receivers q) ts
      \<and> (\<forall>p\<in>set ts. pc_ok (bq_message_size bq) p)
      \<and> qw_sent w = qw_received w @ bq_contents bq)"

lemma qw_invD:
  assumes "qw_inv w"
  shows "bq_inv (qi_buffer (qw_queue w))"
    "qi_message_size (qw_queue w) = bq_message_size (qi_buffer (qw_queue w))"
    "length (qw_tasks w) \<le> tasks"
    "side_of send_class (bq_closed (qi_buffer (qw_queue w)))
       (bq_capacity (qi_buffer (qw_queue w)) - bq_len (qi_buffer (qw_queue w)))
       (qi_senders (qw_queue w)) (qw_tasks w)"
    "side_of recv_class (bq_closed (qi_buffer (qw_queue w))) (bq_len (qi_buffer (qw_queue w)))
       (qi_receivers (qw_queue w)) (qw_tasks w)"
    "\<forall>p\<in>set (qw_tasks w). pc_ok (bq_message_size (qi_buffer (qw_queue w))) p"
    "qw_sent w = qw_received w @ bq_contents (qi_buffer (qw_queue w))"
  using assms by (simp_all add: qw_inv_def Let_def)

lemma qw_invI:
  assumes "bq_inv (qi_buffer q)" "qi_message_size q = bq_message_size (qi_buffer q)" "length ts \<le> tasks"
    "side_of send_class (bq_closed (qi_buffer q)) (bq_capacity (qi_buffer q) - bq_len (qi_buffer q))
       (qi_senders q) ts"
    "side_of recv_class (bq_closed (qi_buffer q)) (bq_len (qi_buffer q)) (qi_receivers q) ts"
    "\<forall>p\<in>set ts. pc_ok (bq_message_size (qi_buffer q)) p" "snt = rcv @ bq_contents (qi_buffer q)"
  shows "qw_inv \<lparr>qw_queue = q, qw_tasks = ts, qw_sent = snt, qw_received = rcv\<rparr>"
  using assms by (simp add: qw_inv_def Let_def)

lemma set_pc_world:
  "set_pc i p (w\<lparr>qw_queue := q\<rparr>)
     = \<lparr>qw_queue = q, qw_tasks = (qw_tasks w)[i := p], qw_sent = qw_sent w, qw_received = qw_received w\<rparr>"
  "set_pc i p (w\<lparr>qw_queue := q, qw_sent := s\<rparr>)
     = \<lparr>qw_queue = q, qw_tasks = (qw_tasks w)[i := p], qw_sent = s, qw_received = qw_received w\<rparr>"
  "set_pc i p (w\<lparr>qw_queue := q, qw_received := s\<rparr>)
     = \<lparr>qw_queue = q, qw_tasks = (qw_tasks w)[i := p], qw_sent = qw_sent w, qw_received = s\<rparr>"
  by (simp_all add: set_pc_def)

text \<open>A step that leaves the ring buffer alone.\<close>

lemma inv_same_buffer:
  assumes "qw_inv w" and "qi_buffer q = qi_buffer (qw_queue w)"
    and "qi_message_size q = qi_message_size (qw_queue w)"
    and "side_of send_class (bq_closed (qi_buffer (qw_queue w)))
       (bq_capacity (qi_buffer (qw_queue w)) - bq_len (qi_buffer (qw_queue w)))
       (qi_senders q) ((qw_tasks w)[i := p])"
    and "side_of recv_class (bq_closed (qi_buffer (qw_queue w))) (bq_len (qi_buffer (qw_queue w)))
       (qi_receivers q) ((qw_tasks w)[i := p])"
    and "pc_ok (bq_message_size (qi_buffer (qw_queue w))) p"
  shows "qw_inv (set_pc i p (w\<lparr>qw_queue := q\<rparr>))"
  unfolding set_pc_world
proof (rule qw_invI)
  show "\<forall>p\<in>set ((qw_tasks w)[i := p]). pc_ok (bq_message_size (qi_buffer q)) p"
    unfolding assms(2) by (rule pc_ok_update [OF qw_invD(6) [OF assms(1)] assms(6)])
qed (use qw_invD(1,2,3,7) [OF assms(1)] assms(2-5) in simp_all)

lemma inv_same_queue:
  assumes "qw_inv w"
    and "side_of send_class (bq_closed (qi_buffer (qw_queue w)))
       (bq_capacity (qi_buffer (qw_queue w)) - bq_len (qi_buffer (qw_queue w)))
       (qi_senders (qw_queue w)) ((qw_tasks w)[i := p])"
    and "side_of recv_class (bq_closed (qi_buffer (qw_queue w))) (bq_len (qi_buffer (qw_queue w)))
       (qi_receivers (qw_queue w)) ((qw_tasks w)[i := p])"
    and "pc_ok (bq_message_size (qi_buffer (qw_queue w))) p"
  shows "qw_inv (set_pc i p w)"
proof -
  have "set_pc i p w = set_pc i p (w\<lparr>qw_queue := qw_queue w\<rparr>)" by simp
  then show ?thesis using inv_same_buffer [OF assms(1) refl refl assms(2-4)] by simp
qed

lemma inv_move:
  assumes "qw_inv w" and "i < length (qw_tasks w)" and "send_class (qw_tasks w ! i) = send_class p"
    and "recv_class (qw_tasks w ! i) = recv_class p"
    and "pc_ok (bq_message_size (qi_buffer (qw_queue w))) p"
  shows "qw_inv (set_pc i p w)"
  by (rule inv_same_queue [OF assms(1) side_same [OF qw_invD(4) [OF assms(1)] assms(2,3)]
    side_same [OF qw_invD(5) [OF assms(1)] assms(2,4)] assms(5)])

lemma inv_send_timeout:
  assumes "qw_inv w" and "i < length (qw_tasks w)" and "qw_tasks w ! i = SendWait m b"
  shows "qw_inv (set_pc i (SendResume m b Unavailable) w)"
proof -
  have "pc_ok (bq_message_size (qi_buffer (qw_queue w))) (SendResume m b Unavailable)"
    using nth_pc_ok [OF qw_invD(6) [OF assms(1)] assms(2,3)] by simp
  moreover note side_expire [OF qw_invD(4) [OF assms(1)] assms(2), of "SendResume m b Unavailable"]
    side_same [OF qw_invD(5) [OF assms(1)] assms(2), of "SendResume m b Unavailable"]
  ultimately show ?thesis using assms(3) inv_same_queue [OF assms(1)] by simp
qed

lemma inv_recv_timeout:
  assumes "qw_inv w" and "i < length (qw_tasks w)" and "qw_tasks w ! i = RecvWait m b"
  shows "qw_inv (set_pc i (RecvResume m b Unavailable) w)"
proof -
  have "pc_ok (bq_message_size (qi_buffer (qw_queue w))) (RecvResume m b Unavailable)"
    using nth_pc_ok [OF qw_invD(6) [OF assms(1)] assms(2,3)] by simp
  moreover note side_expire [OF qw_invD(5) [OF assms(1)] assms(2), of "RecvResume m b Unavailable"]
    side_same [OF qw_invD(4) [OF assms(1)] assms(2), of "RecvResume m b Unavailable"]
  ultimately show ?thesis using assms(3) inv_same_queue [OF assms(1)] by simp
qed

lemma inv_send_token:
  assumes "qw_inv w" and "i < length (qw_tasks w)" and "qw_tasks w ! i = SendWait m b"
    and "semtake (sd_wake (qi_senders (qw_queue w))) = (True, s)"
  shows "qw_inv (set_pc i (SendResume m b Acquired) (w\<lparr>qw_queue := (qw_queue w)\<lparr>qi_senders :=
         (qi_senders (qw_queue w))\<lparr>sd_wake := s\<rparr>\<rparr>\<rparr>))" (is "qw_inv (set_pc i ?p (w\<lparr>qw_queue := ?q\<rparr>))")
proof -
  have "pc_ok (bq_message_size (qi_buffer (qw_queue w))) ?p"
    using nth_pc_ok [OF qw_invD(6) [OF assms(1)] assms(2,3)] by simp
  moreover note side_token [OF qw_invD(4) [OF assms(1)] assms(2) _ _ assms(4), of ?p]
    side_same [OF qw_invD(5) [OF assms(1)] assms(2), of ?p]
  ultimately show ?thesis using assms(3) inv_same_buffer [OF assms(1), of ?q i ?p] by simp
qed

lemma inv_recv_token:
  assumes "qw_inv w" and "i < length (qw_tasks w)" and "qw_tasks w ! i = RecvWait m b"
    and "semtake (sd_wake (qi_receivers (qw_queue w))) = (True, s)"
  shows "qw_inv (set_pc i (RecvResume m b Acquired) (w\<lparr>qw_queue := (qw_queue w)\<lparr>qi_receivers :=
         (qi_receivers (qw_queue w))\<lparr>sd_wake := s\<rparr>\<rparr>\<rparr>))" (is "qw_inv (set_pc i ?p (w\<lparr>qw_queue := ?q\<rparr>))")
proof -
  have "pc_ok (bq_message_size (qi_buffer (qw_queue w))) ?p"
    using nth_pc_ok [OF qw_invD(6) [OF assms(1)] assms(2,3)] by simp
  moreover note side_token [OF qw_invD(5) [OF assms(1)] assms(2) _ _ assms(4), of ?p]
    side_same [OF qw_invD(4) [OF assms(1)] assms(2), of ?p]
  ultimately show ?thesis using assms(3) inv_same_buffer [OF assms(1), of ?q i ?p] by simp
qed

end

context queue_protocol
begin

lemma side_resume:
  assumes "side_of cls closed av sd ts" and "i < length ts"
    and "cls (ts ! i) = (case oc of Acquired \<Rightarrow> 2 | Unavailable \<Rightarrow> 3)"
    and "cls again = 4" and "\<And>r. cls (Returned r) = 0" and "resume_side semtake oc e sd = (r, sd')"
  shows "side_of cls closed av sd' (ts[i := after_resume again r])
    \<and> (r = None \<or> r = Some (Err e))"
proof (cases oc)
  case Acquired
  then show ?thesis
    using side_resume_acquired [OF assms(1,2) _ assms(4), of e] assms(3,6) by auto
next
  case Unavailable
  then show ?thesis
    using side_resume_expired [OF assms(1,2) _ assms(4), of "Returned (Err e)" e] assms(3,5,6) by auto
qed

lemma inv_send_resume:
  assumes "qw_inv w" and "i < length (qw_tasks w)" and "qw_tasks w ! i = SendResume m b oc"
    and "send_resume semtake oc (qw_queue w) = (r, q)"
  shows "qw_inv (set_pc i (after_resume (SendTry m b) r) (w\<lparr>qw_queue := q\<rparr>))"
proof -
  have ok: "length m = bq_message_size (qi_buffer (qw_queue w))" "budget_prepared b"
    using nth_pc_ok [OF qw_invD(6) [OF assms(1)] assms(2,3)] by simp_all
  obtain e sd where rs: "resume_side semtake oc e (qi_senders (qw_queue w)) = (r, sd)"
    and q: "q = (qw_queue w)\<lparr>qi_senders := sd\<rparr>"
    using assms(4) by (auto simp: send_resume_def split: prod.splits)
  have "send_class (qw_tasks w ! i) = (case oc of Acquired \<Rightarrow> 2 | Unavailable \<Rightarrow> 3)"
    using assms(3) by (cases oc) simp_all
  from side_resume [OF qw_invD(4) [OF assms(1)] assms(2) this _ _ rs, of "SendTry m b"]
  have s: "side_of send_class (bq_closed (qi_buffer (qw_queue w)))
       (bq_capacity (qi_buffer (qw_queue w)) - bq_len (qi_buffer (qw_queue w)))
       sd ((qw_tasks w)[i := after_resume (SendTry m b) r])" and r: "r = None \<or> r = Some (Err e)"
    using ok(2) by simp_all
  have "recv_class (after_resume (SendTry m b) r) = 0" "recv_class (qw_tasks w ! i) = 0"
    "pc_ok (bq_message_size (qi_buffer (qw_queue w))) (after_resume (SendTry m b) r)"
    using r ok assms(3) by auto
  then show ?thesis
    using s inv_same_buffer [OF assms(1)] side_same [OF qw_invD(5) [OF assms(1)] assms(2)] q by simp
qed

lemma inv_recv_resume:
  assumes "qw_inv w" and "i < length (qw_tasks w)" and "qw_tasks w ! i = RecvResume m b oc"
    and "recv_resume semtake oc (qw_queue w) = (r, q)"
  shows "qw_inv (set_pc i (after_resume (RecvTry m b) r) (w\<lparr>qw_queue := q\<rparr>))"
proof -
  have ok: "length m = bq_message_size (qi_buffer (qw_queue w))" "budget_prepared b"
    using nth_pc_ok [OF qw_invD(6) [OF assms(1)] assms(2,3)] by simp_all
  obtain e sd where rs: "resume_side semtake oc e (qi_receivers (qw_queue w)) = (r, sd)"
    and q: "q = (qw_queue w)\<lparr>qi_receivers := sd\<rparr>"
    using assms(4) by (auto simp: recv_resume_def split: prod.splits)
  have "recv_class (qw_tasks w ! i) = (case oc of Acquired \<Rightarrow> 2 | Unavailable \<Rightarrow> 3)"
    using assms(3) by (cases oc) simp_all
  from side_resume [OF qw_invD(5) [OF assms(1)] assms(2) this _ _ rs, of "RecvTry m b"]
  have s: "side_of recv_class (bq_closed (qi_buffer (qw_queue w))) (bq_len (qi_buffer (qw_queue w)))
       sd ((qw_tasks w)[i := after_resume (RecvTry m b) r])" and r: "r = None \<or> r = Some (Err e)"
    using ok(2) by simp_all
  have "send_class (after_resume (RecvTry m b) r) = 0" "send_class (qw_tasks w ! i) = 0"
    "pc_ok (bq_message_size (qi_buffer (qw_queue w))) (after_resume (RecvTry m b) r)"
    using r ok assms(3) by auto
  then show ?thesis
    using s inv_same_buffer [OF assms(1)] side_same [OF qw_invD(4) [OF assms(1)] assms(2)] q by simp
qed

text \<open>The section at the head of \<open>send\<close>.\<close>

lemma inv_do_send:
  assumes "qw_inv w" and "i < length (qw_tasks w)" and "qw_tasks w ! i = SendTry m b" and "kinv k"
    and st: "send_try (prepare_blocking K k) semgive m b (qw_queue w) = (t, q)"
  shows "qw_inv (set_pc i (after_try (SendWait m) t)
    (w\<lparr>qw_queue := q, qw_sent := (if t = TryReturn (Ok ()) then qw_sent w @ [m] else qw_sent w)\<rparr>))"
proof -
  let ?bq = "qi_buffer (qw_queue w)" and ?ts = "qw_tasks w"
  note D = qw_invD [OF assms(1)]
  have m: "length m = bq_message_size ?bq" using nth_pc_ok [OF D(6) assms(2,3)] by simp
  have cl: "send_class (?ts ! i) = 0 \<or> send_class (?ts ! i) = 4" "recv_class (?ts ! i) = 0"
    using assms(3) by simp_all
  have recv: "side_of recv_class (bq_closed ?bq) (bq_len ?bq) (qi_receivers (qw_queue w)) (?ts[i := p])"
    if "recv_class p = 0" for p using side_same [OF D(5) assms(2)] that cl(2) by simp
  obtain r bq' where ts: "try_send ?bq m = (r, bq')" by (cases "try_send ?bq m")
  note T = try_send_cases [OF D(1) ts]
  consider (closed) "bq_closed ?bq" | (full) "\<not> bq_closed ?bq" "bq_len ?bq = bq_capacity ?bq"
    | (room) "\<not> bq_closed ?bq" "bq_len ?bq < bq_capacity ?bq"
    using D(1) by (auto simp: bq_inv_def le_less)
  then show ?thesis
  proof cases
    case closed
    then have "t = TryReturn (Err QueueClosed)" "q = qw_queue w" using st by (simp_all add: send_try_def)
    moreover have "qw_inv (set_pc i (Returned (Err QueueClosed)) w)"
      using side_leave [OF D(4) assms(2) cl(1)] recv closed inv_same_queue [OF assms(1)] by simp
    ultimately show ?thesis by simp
  next
    case full
    have q': "bq' = ?bq" using ts full m D(1) by (simp add: try_send_def bq_is_full_def)
    obtain sd where b: "block_on (prepare_blocking K k) QueueFull b (qi_senders (qw_queue w)) = (t, sd)"
      and q: "q = (qw_queue w)\<lparr>qi_senders := sd\<rparr>"
      using st full ts T(5) m q' by (auto simp: send_try_def split: prod.splits)
    have send0: "side_of send_class False 0 (qi_senders (qw_queue w)) ?ts" using D(4) full by simp
    note law = block_on_law [OF send0 assms(2) cl(1) D(3) assms(4) _ _ b, of "SendWait m"]
    have "side_of send_class False 0 sd (?ts[i := after_try (SendWait m) t])"
      and t: "(\<exists>err. t = TryReturn (Err err)) \<or> (\<exists>b'. t = TryBlock b' \<and> budget_prepared b')"
      using law by auto
    moreover have "pc_ok (bq_message_size ?bq) (after_try (SendWait m) t)"
      "recv_class (after_try (SendWait m) t) = 0" "t \<noteq> TryReturn (Ok ())" using t m by auto
    ultimately show ?thesis
      using recv full q inv_same_buffer [OF assms(1), of q i "after_try (SendWait m) t"] by simp
  next
    case room
    then have r: "r = Ok ()" using T(5) m by simp
    have len: "bq_len bq' = Suc (bq_len ?bq)" using arg_cong [OF T(6), of length] r by simp
    obtain sd where sg: "signal_one semgive (qi_receivers (qw_queue w)) = (Ok (), sd)"
      "side_of recv_class (bq_closed ?bq) (Suc (bq_len ?bq)) sd ?ts"
      using side_signal [OF D(5,3)] by blast
    have tq: "t = TryReturn (Ok ())" "q = (qw_queue w)\<lparr>qi_buffer := bq', qi_receivers := sd\<rparr>"
      using st room ts r sg(1) by (auto simp: send_try_def signal_one_receiver_def)
    have "Suc (bq_capacity ?bq - bq_len bq') = bq_capacity ?bq - bq_len ?bq" using room len by simp
    then have "side_of send_class (bq_closed ?bq) (Suc (bq_capacity ?bq - bq_len bq'))
        (qi_senders (qw_queue w)) ?ts" using D(4) by simp
    from side_used [OF this assms(2) cl(1)]
    have "side_of send_class (bq_closed ?bq) (bq_capacity ?bq - bq_len bq') (qi_senders (qw_queue w))
        (?ts[i := Returned (Ok ())])" by simp
    moreover have "side_of recv_class (bq_closed ?bq) (bq_len bq') sd (?ts[i := Returned (Ok ())])"
      using side_same [OF sg(2) assms(2)] cl(2) len by simp
    moreover have "\<forall>p\<in>set (?ts[i := Returned (Ok ())]). pc_ok (bq_message_size ?bq) p"
      by (rule pc_ok_update [OF D(6)]) simp
    ultimately show ?thesis
      unfolding set_pc_world tq using T D(2,3,7) r by (intro qw_invI) simp_all
  qed
qed

end

context queue_protocol
begin

text \<open>The section at the head of \<open>recv\<close>.\<close>

lemma inv_do_recv:
  assumes "qw_inv w" and "i < length (qw_tasks w)" and "qw_tasks w ! i = RecvTry m b" and "kinv k"
    and st: "recv_try (prepare_blocking K k) semgive m b (qw_queue w) = (t, q, m')"
  shows "qw_inv (set_pc i (after_try (RecvWait m') t)
    (w\<lparr>qw_queue := q, qw_received := (if t = TryReturn (Ok ()) then qw_received w @ [m'] else qw_received w)\<rparr>))"
proof -
  let ?bq = "qi_buffer (qw_queue w)" and ?ts = "qw_tasks w"
  note D = qw_invD [OF assms(1)]
  have m: "length m = bq_message_size ?bq" using nth_pc_ok [OF D(6) assms(2,3)] by simp
  have cl: "recv_class (?ts ! i) = 0 \<or> recv_class (?ts ! i) = 4" "send_class (?ts ! i) = 0"
    using assms(3) by simp_all
  have send: "side_of send_class (bq_closed ?bq) (bq_capacity ?bq - bq_len ?bq)
      (qi_senders (qw_queue w)) (?ts[i := p])"
    if "send_class p = 0" for p using side_same [OF D(4) assms(2)] that cl(2) by simp
  obtain r bq' m1 where ts: "try_recv ?bq m = (r, bq', m1)" by (cases "try_recv ?bq m")
  note T = try_recv_cases [OF D(1) ts]
  consider (closed) "bq_len ?bq = 0" "bq_closed ?bq" | (empty) "bq_len ?bq = 0" "\<not> bq_closed ?bq"
    | (some) "0 < bq_len ?bq" by blast
  then show ?thesis
  proof cases
    case closed
    then have same: "bq' = ?bq" "m1 = m" using ts m D(1) by (simp_all add: try_recv_def)
    then have "t = TryReturn (Err QueueClosed)" "q = qw_queue w"
      using st ts T(5) closed m by (simp_all add: recv_try_def)
    moreover have "qw_inv (set_pc i (Returned (Err QueueClosed)) w)"
      using side_leave [OF D(5) assms(2) cl(1)] send closed inv_same_queue [OF assms(1)] by simp
    ultimately show ?thesis by simp
  next
    case empty
    have same: "bq' = ?bq" "m1 = m" using ts empty m D(1) by (simp_all add: try_recv_def)
    obtain sd where b: "block_on (prepare_blocking K k) QueueEmpty b (qi_receivers (qw_queue w)) = (t, sd)"
      and q: "q = (qw_queue w)\<lparr>qi_receivers := sd\<rparr>" and m': "m' = m"
      using st empty ts T(5) m same by (auto simp: recv_try_def Let_def split: prod.splits)
    have recv0: "side_of recv_class False 0 (qi_receivers (qw_queue w)) ?ts" using D(5) empty by simp
    note law = block_on_law [OF recv0 assms(2) cl(1) D(3) assms(4) _ _ b, of "RecvWait m"]
    have "side_of recv_class False 0 sd (?ts[i := after_try (RecvWait m) t])"
      and t: "(\<exists>err. t = TryReturn (Err err)) \<or> (\<exists>b'. t = TryBlock b' \<and> budget_prepared b')"
      using law by auto
    moreover have "pc_ok (bq_message_size ?bq) (after_try (RecvWait m) t)"
      "send_class (after_try (RecvWait m) t) = 0" "t \<noteq> TryReturn (Ok ())" using t m by auto
    ultimately show ?thesis
      using send empty q m' inv_same_buffer [OF assms(1), of q i "after_try (RecvWait m) t"] by simp
  next
    case some
    then have r: "is_ok r" using T(5) m by simp
    have cont: "bq_contents ?bq = m1 # bq_contents bq'" using T(6) r by simp
    have len: "bq_len ?bq = Suc (bq_len bq')" using arg_cong [OF cont, of length] by simp
    have le: "bq_len ?bq \<le> bq_capacity ?bq" using D(1) by (simp add: bq_inv_def)
    obtain sd where sg: "signal_one semgive (qi_senders (qw_queue w)) = (Ok (), sd)"
      "side_of send_class (bq_closed ?bq) (Suc (bq_capacity ?bq - bq_len ?bq)) sd ?ts"
      using side_signal [OF D(4,3)] by blast
    have tq: "t = TryReturn (Ok ())" "q = (qw_queue w)\<lparr>qi_buffer := bq', qi_senders := sd\<rparr>" "m' = m1"
      using st ts r sg(1) by (auto simp: recv_try_def signal_one_sender_def elim!: is_okE)
    have "side_of recv_class (bq_closed ?bq) (Suc (bq_len bq')) (qi_receivers (qw_queue w)) ?ts"
      using D(5) len by simp
    from side_used [OF this assms(2) cl(1)]
    have "side_of recv_class (bq_closed ?bq) (bq_len bq') (qi_receivers (qw_queue w))
        (?ts[i := Returned (Ok ())])" by simp
    moreover have "Suc (bq_capacity ?bq - bq_len ?bq) = bq_capacity ?bq - bq_len bq'"
      using len le by simp
    then have "side_of send_class (bq_closed ?bq) (bq_capacity ?bq - bq_len bq') sd (?ts[i := Returned (Ok ())])"
      using side_same [OF sg(2) assms(2), of "Returned (Ok ())"] cl(2) by simp
    moreover have "\<forall>p\<in>set (?ts[i := Returned (Ok ())]). pc_ok (bq_message_size ?bq) p"
      by (rule pc_ok_update [OF D(6)]) simp
    ultimately show ?thesis
      unfolding set_pc_world tq using T(1-4) D(2,3,7) cont by (intro qw_invI) simp_all
  qed
qed

lemma inv_close:
  assumes "qw_inv w" and "i < length (qw_tasks w)" and "qw_tasks w ! i = CloseTry"
    and c: "close_locked semgive (qw_queue w) = (r, q)"
  shows "qw_inv (set_pc i (Returned r) (w\<lparr>qw_queue := q\<rparr>))"
proof -
  let ?bq = "qi_buffer (qw_queue w)" and ?ts = "qw_tasks w"
  note D = qw_invD [OF assms(1)]
  have upd: "side_of cls cl av sd (?ts[i := Returned (Ok ())])"
    if "side_of cls cl av sd ?ts" "cls CloseTry = cls (Returned (Ok ()))" for cls cl av sd
    using side_same [OF that(1) assms(2)] that(2) assms(3) by simp
  show ?thesis
  proof (cases "bq_closed ?bq")
    case True
    then have "r = Ok ()" "q = qw_queue w" using c by (simp_all add: close_locked_def)
    moreover have "qw_inv (set_pc i (Returned (Ok ())) w)"
      using inv_move [OF assms(1,2)] assms(3) by simp
    ultimately show ?thesis by simp
  next
    case False
    obtain sd rd where b: "broadcast_wake semgive (qi_senders (qw_queue w)) = (Ok True, sd)"
      "side_of send_class True (bq_capacity ?bq - bq_len ?bq) sd ?ts"
      "broadcast_wake semgive (qi_receivers (qw_queue w)) = (Ok True, rd)"
      "side_of recv_class True (bq_len ?bq) rd ?ts"
      using side_broadcast [of send_class] side_broadcast [of recv_class] D(3-5) False by metis
    have rq: "r = Ok ()" "q = (qw_queue w)\<lparr>qi_buffer := bq_close ?bq, qi_senders := sd, qi_receivers := rd\<rparr>"
      using c False b by (auto simp: close_locked_def Let_def)
    have bc: "bq_len (bq_close ?bq) = bq_len ?bq" "bq_message_size (bq_close ?bq) = bq_message_size ?bq"
      by (simp_all add: bq_close_def)
    have "\<forall>p\<in>set (?ts[i := Returned (Ok ())]). pc_ok (bq_message_size ?bq) p"
      by (rule pc_ok_update [OF D(6)]) simp
    then show ?thesis
      unfolding set_pc_world rq using ring.close_laws [OF D(1)] bc D(2,3,7) upd b(2,4)
      by (intro qw_invI) simp_all
  qed
qed

lemma queue_step_inv:
  assumes "queue_step K kinv semtake semgive w w'" and "qw_inv w"
  shows "qw_inv w'"
  using assms
proof (induction rule: queue_step.induct)
  case (call_send i w r data t)
  then show ?case using qw_invD(2) [OF call_send(3)]
    by (intro inv_move) (auto simp: send_call_def validate_send_message_size_def)
next
  case (call_recv i w r buf t)
  then show ?case using qw_invD(2) [OF call_recv(3)]
    by (intro inv_move) (auto simp: recv_call_def validate_recv_buffer_size_def)
next
  case (call_close i w r)
  then show ?case by (intro inv_move) simp_all
next
  case (do_send i w data b k t q)
  then show ?case by (intro inv_do_send)
next
  case (do_recv i w buf b k t q buf')
  then show ?case by (intro inv_do_recv)
qed (auto intro: inv_send_token inv_send_timeout inv_send_resume inv_recv_token inv_recv_timeout
  inv_recv_resume inv_close)

lemma queue_init_inv:
  assumes "bq_inv bq" and "bq_contents bq = []" and "\<not> bq_closed bq" and "n \<le> tasks"
    and "sinv sw" "cnt sw = 0" "tasks \<le> cap sw" and "sinv rw" "cnt rw = 0" "tasks \<le> cap rw"
  shows "qw_inv (queue_world_init n (queue_inner_init bq sw rw))"
proof -
  have none: "in_class cls c (replicate n (Returned (Ok ()))) = 0"
    if "cls (Returned (Ok ())) \<noteq> c" for cls c using that by (simp add: in_class_def)
  show ?thesis unfolding queue_world_init_def
    by (rule qw_invI)
      (use assms in \<open>simp_all add: queue_inner_init_def side_of_def side_inv_def none\<close>)
qed

lemma queue_reach_inv:
  assumes "(queue_step K kinv semtake semgive)\<^sup>*\<^sup>* w w'" and "qw_inv w"
  shows "qw_inv w'"
  using assms by (induction rule: rtranclp_induct) (auto intro: queue_step_inv)

end

section \<open>Properties\<close>

text \<open>The worlds a queue made by its constructor reaches with up to \<open>n\<close> tasks, whose wake
  semaphores have room for all of them.\<close>

definition queue_reachable ::
  "'k kernel \<Rightarrow> ('k \<Rightarrow> bool) \<Rightarrow> ('s \<Rightarrow> bool \<times> 's) \<Rightarrow> ('s \<Rightarrow> bool \<times> 's) \<Rightarrow> byte_queue \<Rightarrow> 's \<Rightarrow> 's \<Rightarrow> nat
    \<Rightarrow> 's queue_world \<Rightarrow> bool" where
  "queue_reachable K kinv semtake semgive bq sw rw n w =
     (queue_step K kinv semtake semgive)\<^sup>*\<^sup>* (queue_world_init n (queue_inner_init bq sw rw)) w"

definition fresh_wake :: "('s \<Rightarrow> nat) \<Rightarrow> ('s \<Rightarrow> nat) \<Rightarrow> ('s \<Rightarrow> bool) \<Rightarrow> nat \<Rightarrow> 's \<Rightarrow> bool" where
  "fresh_wake cnt cap sinv n s = (sinv s \<and> cnt s = 0 \<and> n \<le> cap s)"

definition registered :: "(queue_pc \<Rightarrow> nat) \<Rightarrow> queue_pc list \<Rightarrow> nat" where
  "registered cls ts = length (filter (\<lambda>p. cls p \<in> {1, 2, 3}) ts)"

lemma registered_eq: "registered cls ts = in_class cls 1 ts + in_class cls 2 ts + in_class cls 3 ts"
  unfolding registered_def in_class_def by (induction ts) auto

context queue_protocol
begin

lemma reachable_inv:
  assumes "byte_queue_new reserve c m = Ok bq"
    and "fresh_wake cnt cap sinv tasks sw" "fresh_wake cnt cap sinv tasks rw"
    and "queue_reachable K kinv semtake semgive bq sw rw tasks w"
  shows "qw_inv w"
proof -
  have bq: "bq_inv bq" "bq_contents bq = []" "\<not> bq_closed bq"
    using byte_queue_new_inv [OF assms(1)] bq_abs_simps [of bq] by simp_all
  then have "qw_inv (queue_world_init tasks (queue_inner_init bq sw rw))"
    using assms(2,3) by (intro queue_init_inv) (simp_all add: fresh_wake_def)
  then show ?thesis using assms(4) queue_reach_inv by (simp add: queue_reachable_def)
qed

lemma step_capacity:
  assumes "queue_step K kinv semtake semgive w w'" and "qw_inv w"
  shows "bq_capacity (qi_buffer (qw_queue w')) = bq_capacity (qi_buffer (qw_queue w))"
proof -
  have inv: "bq_inv (qi_buffer (qw_queue w))" using assms(2) by (rule qw_invD)
  have "bq_capacity (qi_buffer q) = bq_capacity (qi_buffer (qw_queue w))"
    if "send_try pr semgive d b (qw_queue w) = (t, q)" for pr d b t q
    using that try_send_cases(2) [OF inv]
    by (auto simp: send_try_def signal_one_receiver_def Let_def split: if_splits prod.splits res.splits error.splits)
  moreover have "bq_capacity (qi_buffer q) = bq_capacity (qi_buffer (qw_queue w))"
    if "recv_try pr semgive d b (qw_queue w) = (t, q, d')" for pr d b t q d'
    using that try_recv_cases(2) [OF inv]
    by (auto simp: recv_try_def signal_one_sender_def Let_def split: if_splits prod.splits res.splits error.splits)
  moreover have "bq_capacity (qi_buffer q) = bq_capacity (qi_buffer (qw_queue w))"
    if "close_locked semgive (qw_queue w) = (r, q)" for r q
    using that by (auto simp: close_locked_def Let_def bq_close_def split: if_splits prod.splits res.splits)
  ultimately show ?thesis
    using assms(1)
    by (elim queue_step.cases) (auto simp: set_pc_def send_resume_def recv_resume_def split: prod.splits)
qed

lemma reachable_capacity:
  assumes "byte_queue_new reserve c m = Ok bq"
    and "fresh_wake cnt cap sinv tasks sw" "fresh_wake cnt cap sinv tasks rw"
    and "queue_reachable K kinv semtake semgive bq sw rw tasks w"
  shows "bq_capacity (qi_buffer (qw_queue w)) = c"
  using assms(4) unfolding queue_reachable_def
proof (induction rule: rtranclp_induct)
  case base
  show ?case using byte_queue_new_inv(2) [OF assms(1)] bq_abs_simps(2) [of bq]
    by (simp add: queue_world_init_def queue_inner_init_def)
next
  case (step y z)
  have "qw_inv y" using reachable_inv [OF assms(1-3)] step(1) by (simp add: queue_reachable_def)
  then show ?case using step_capacity [OF step(2)] step(3) by simp
qed

end

context queue_protocol
begin

lemma inv_safe:
  assumes "qw_inv w"
  shows "(\<forall>p\<in>set (qw_tasks w). \<forall>s. p \<noteq> Returned (Panic s))
    \<and> sd_waiters (qi_senders (qw_queue w)) = registered send_class (qw_tasks w)
    \<and> sd_waiters (qi_receivers (qw_queue w)) = registered recv_class (qw_tasks w)"
  using qw_invD(4-6) [OF assms] by (auto simp: side_of_def side_inv_def registered_eq)

text \<open>A blocked task whose condition holds is not forgotten.\<close>

lemma side_not_lost:
  assumes "side_of cls closed av sd ts" and "i < length ts" and "cls (ts ! i) = 1" and "closed \<or> 0 < av"
  shows "0 < cnt (sd_wake sd) \<or> (\<exists>j<length ts. cls (ts ! j) = 2 \<or> cls (ts ! j) = 4)"
proof -
  have "0 < in_class cls 1 ts" using in_class_pos assms(2,3) by blast
  then have "0 < cnt (sd_wake sd) \<or> 0 < in_class cls 2 ts \<or> 0 < in_class cls 4 ts"
    using blocked_not_lost [OF assms(1) [unfolded side_of_def] _ assms(4)] by simp
  then show ?thesis using in_class_posD by blast
qed

lemma inv_not_lost:
  assumes "qw_inv w" and "i < length (qw_tasks w)"
  shows "(qw_tasks w ! i = SendWait d b
          \<and> (bq_closed (qi_buffer (qw_queue w))
             \<or> bq_len (qi_buffer (qw_queue w)) < bq_capacity (qi_buffer (qw_queue w)))
         \<longrightarrow> 0 < cnt (sd_wake (qi_senders (qw_queue w)))
             \<or> (\<exists>j<length (qw_tasks w). send_class (qw_tasks w ! j) \<in> {2, 4}))
    \<and> (qw_tasks w ! i = RecvWait d b
          \<and> (bq_closed (qi_buffer (qw_queue w)) \<or> 0 < bq_len (qi_buffer (qw_queue w)))
         \<longrightarrow> 0 < cnt (sd_wake (qi_receivers (qw_queue w)))
             \<or> (\<exists>j<length (qw_tasks w). recv_class (qw_tasks w ! j) \<in> {2, 4}))"
  using side_not_lost [OF qw_invD(4) [OF assms(1)] assms(2)]
    side_not_lost [OF qw_invD(5) [OF assms(1)] assms(2)]
  by auto

lemma side_matched:
  assumes "side_of cls closed av sd ts"
  shows "in_class cls 1 ts \<le> cnt (sd_wake sd) \<or> \<not> closed \<and> av \<le> cnt (sd_wake sd) + in_class cls 2 ts + in_class cls 4 ts"
  using assms by (auto simp: side_of_def side_inv_def)

lemma inv_matched:
  assumes "qw_inv w"
  shows "(in_class send_class 1 (qw_tasks w) \<le> cnt (sd_wake (qi_senders (qw_queue w)))
        \<or> \<not> bq_closed (qi_buffer (qw_queue w))
          \<and> bq_capacity (qi_buffer (qw_queue w)) - bq_len (qi_buffer (qw_queue w))
            \<le> cnt (sd_wake (qi_senders (qw_queue w))) + in_class send_class 2 (qw_tasks w) + in_class send_class 4 (qw_tasks w))
    \<and> (in_class recv_class 1 (qw_tasks w) \<le> cnt (sd_wake (qi_receivers (qw_queue w)))
        \<or> \<not> bq_closed (qi_buffer (qw_queue w))
          \<and> bq_len (qi_buffer (qw_queue w))
            \<le> cnt (sd_wake (qi_receivers (qw_queue w))) + in_class recv_class 2 (qw_tasks w) + in_class recv_class 4 (qw_tasks w))"
  using side_matched [OF qw_invD(4) [OF assms]] side_matched [OF qw_invD(5) [OF assms]] by blast

lemma inv_at_rest:
  assumes "qw_inv w" and "\<forall>p\<in>set (qw_tasks w). send_class p \<in> {0, 1} \<and> recv_class p \<in> {0, 1}"
    and "cnt (sd_wake (qi_senders (qw_queue w))) = 0" and "cnt (sd_wake (qi_receivers (qw_queue w))) = 0"
    and "i < length (qw_tasks w)"
  shows "(qw_tasks w ! i = SendWait d b \<longrightarrow> \<not> bq_closed (qi_buffer (qw_queue w))
           \<and> bq_len (qi_buffer (qw_queue w)) = bq_capacity (qi_buffer (qw_queue w)))
    \<and> (qw_tasks w ! i = RecvWait d b \<longrightarrow> \<not> bq_closed (qi_buffer (qw_queue w))
           \<and> bq_len (qi_buffer (qw_queue w)) = 0)"
proof -
  have le: "bq_len (qi_buffer (qw_queue w)) \<le> bq_capacity (qi_buffer (qw_queue w))"
    using qw_invD(1) [OF assms(1)] by (simp add: bq_inv_def)
  have "send_class (qw_tasks w ! j) \<notin> {2, 4} \<and> recv_class (qw_tasks w ! j) \<notin> {2, 4}"
    if "j < length (qw_tasks w)" for j using assms(2) nth_mem [OF that] by fastforce
  then show ?thesis
    using inv_not_lost [OF assms(1,5), of d b] assms(3,4) le by (auto simp: le_less)
qed

lemma inv_closed_wakes:
  assumes "qw_inv w" and "bq_closed (qi_buffer (qw_queue w))"
  shows "cnt (sd_wake (qi_senders (qw_queue w)))
           = in_class send_class 1 (qw_tasks w) + in_class send_class 3 (qw_tasks w)
    \<and> cnt (sd_wake (qi_receivers (qw_queue w)))
           = in_class recv_class 1 (qw_tasks w) + in_class recv_class 3 (qw_tasks w)"
  using qw_invD(4,5) [OF assms(1)] assms(2) by (simp add: side_of_def side_inv_def)

end

text \<open>C4. Safety of the blocking queue: with any number of tasks up to what the wake
  semaphores can count, under every interleaving of sends, receives, timeouts and closes, no
  call panics (none of the invariant checks of the wait protocol ever fires), and the waiter
  counts are exactly the numbers of tasks that are registered on each side.\<close>

theorem freertos_queue_safe:
  assumes "queue_protocol K caps kinv semtake semgive cnt cap sinv n"
    and "byte_queue_new reserve c m = Ok bq"
    and "fresh_wake cnt cap sinv n sw" "fresh_wake cnt cap sinv n rw"
    and "queue_reachable K kinv semtake semgive bq sw rw n w"
  shows "(\<forall>p\<in>set (qw_tasks w). \<forall>s. p \<noteq> Returned (Panic s))
    \<and> sd_waiters (qi_senders (qw_queue w)) = registered send_class (qw_tasks w)
    \<and> sd_waiters (qi_receivers (qw_queue w)) = registered recv_class (qw_tasks w)"
  using queue_protocol.inv_safe [OF assms(1) queue_protocol.reachable_inv [OF assms]] .

text \<open>C3. Conservation and order through the blocking queue: in every reachable world the
  messages whose send returned \<open>Ok\<close>, in the order of their sections under the state mutex,
  are exactly the received ones followed by those still queued, which are at most the
  capacity; nothing is lost, duplicated or reordered by blocking, waking, timing out or
  closing.\<close>

theorem freertos_queue_conserves:
  assumes "queue_protocol K caps kinv semtake semgive cnt cap sinv n"
    and "byte_queue_new reserve c m = Ok bq"
    and "fresh_wake cnt cap sinv n sw" "fresh_wake cnt cap sinv n rw"
    and "queue_reachable K kinv semtake semgive bq sw rw n w"
  shows "qw_sent w = qw_received w @ bq_contents (qi_buffer (qw_queue w))
    \<and> length (bq_contents (qi_buffer (qw_queue w))) \<le> c"
proof -
  note D = queue_protocol.qw_invD(1,7) [OF assms(1) queue_protocol.reachable_inv [OF assms]]
  show ?thesis
    using D ring.bounded [OF D(1)] queue_protocol.reachable_capacity [OF assms] by simp
qed

text \<open>C5. No lost wake-up, counted: either every blocked sender has a token of its own posted, or the queue is open and its
  free slots are at most the tokens posted for senders plus the senders that hold a token plus those back at
  the loop head to try again; likewise for the receivers and the queued messages. So on a closed queue every
  blocked task has a token, and no slot or message stays unclaimed while a task is blocked for it.\<close>

theorem freertos_queue_no_lost_wakeup:
  assumes "queue_protocol K caps kinv semtake semgive cnt cap sinv n"
    and "byte_queue_new reserve c m = Ok bq"
    and "fresh_wake cnt cap sinv n sw" "fresh_wake cnt cap sinv n rw"
    and "queue_reachable K kinv semtake semgive bq sw rw n w"
  shows "(in_class send_class 1 (qw_tasks w) \<le> cnt (sd_wake (qi_senders (qw_queue w)))
        \<or> \<not> bq_closed (qi_buffer (qw_queue w))
          \<and> bq_capacity (qi_buffer (qw_queue w)) - bq_len (qi_buffer (qw_queue w))
            \<le> cnt (sd_wake (qi_senders (qw_queue w))) + in_class send_class 2 (qw_tasks w) + in_class send_class 4 (qw_tasks w))
    \<and> (in_class recv_class 1 (qw_tasks w) \<le> cnt (sd_wake (qi_receivers (qw_queue w)))
        \<or> \<not> bq_closed (qi_buffer (qw_queue w))
          \<and> bq_len (qi_buffer (qw_queue w))
            \<le> cnt (sd_wake (qi_receivers (qw_queue w))) + in_class recv_class 2 (qw_tasks w) + in_class recv_class 4 (qw_tasks w))"
  using queue_protocol.inv_matched [OF assms(1) queue_protocol.reachable_inv [OF assms]] .

text \<open>No deadlock: when every task has returned or is blocked and no token is posted, a
  blocked sender faces an open full queue and a blocked receiver an open empty one. So a
  sender and a receiver are never blocked together for good, and after a close nobody is.\<close>

theorem freertos_queue_no_deadlock:
  assumes "queue_protocol K caps kinv semtake semgive cnt cap sinv n"
    and "byte_queue_new reserve c m = Ok bq"
    and "fresh_wake cnt cap sinv n sw" "fresh_wake cnt cap sinv n rw"
    and "queue_reachable K kinv semtake semgive bq sw rw n w"
    and "\<forall>p\<in>set (qw_tasks w). send_class p \<in> {0, 1} \<and> recv_class p \<in> {0, 1}"
    and "cnt (sd_wake (qi_senders (qw_queue w))) = 0" and "cnt (sd_wake (qi_receivers (qw_queue w))) = 0"
    and "i < length (qw_tasks w)"
  shows "(qw_tasks w ! i = SendWait d b \<longrightarrow> \<not> bq_closed (qi_buffer (qw_queue w))
           \<and> bq_len (qi_buffer (qw_queue w)) = bq_capacity (qi_buffer (qw_queue w)))
    \<and> (qw_tasks w ! i = RecvWait d b \<longrightarrow> \<not> bq_closed (qi_buffer (qw_queue w))
           \<and> bq_len (qi_buffer (qw_queue w)) = 0)"
  using queue_protocol.inv_at_rest
    [OF assms(1) queue_protocol.reachable_inv [OF assms(1-5)] assms(6-9)] .

text \<open>Close wakes everybody: on a closed queue each side's semaphore holds exactly one
  token for every task that is still blocked or that timed out and has not looked again, so
  each of them gets one and leaves; a genuine timeout no longer happens there.\<close>

theorem freertos_queue_close_wakes:
  assumes "queue_protocol K caps kinv semtake semgive cnt cap sinv n"
    and "byte_queue_new reserve c m = Ok bq"
    and "fresh_wake cnt cap sinv n sw" "fresh_wake cnt cap sinv n rw"
    and "queue_reachable K kinv semtake semgive bq sw rw n w"
    and "bq_closed (qi_buffer (qw_queue w))"
  shows "cnt (sd_wake (qi_senders (qw_queue w)))
           = in_class send_class 1 (qw_tasks w) + in_class send_class 3 (qw_tasks w)
    \<and> cnt (sd_wake (qi_receivers (qw_queue w)))
           = in_class recv_class 1 (qw_tasks w) + in_class recv_class 3 (qw_tasks w)"
  using queue_protocol.inv_closed_wakes
    [OF assms(1) queue_protocol.reachable_inv [OF assms(1-5)] assms(6)] .

section \<open>The interface is met by the fixture; witnesses\<close>

interpretation fixqueue: queue_protocol fixture_kernel fixture_caps "\<lambda>fx. fixture_ok fx \<and> True"
  "fixture_try_take 1" "fixture_give 1" "fixture_count 1" "fixture_max 1" "fixture_sem_ok 1" 2
  by (intro queue_protocol.intro wake_channel.intro wake_channel_axioms.intro fixture_clock_laws
    fixsem.counting_semaphore_axioms) (simp add: u32_max_def)

text \<open>A queue of one one-byte slot and two tasks: a receiver blocks, then the other task sends
  a byte, or closes.\<close>

definition demo_bq :: byte_queue where
  "demo_bq = \<lparr>bq_storage = [0], bq_capacity = 1, bq_message_size = 1, bq_head = 0, bq_tail = 0,
     bq_len = 0, bq_closed = False\<rparr>"

definition demo_blocked :: "fixture queue_world" where
  "demo_blocked =
     \<lparr>qw_queue = (queue_inner_init demo_bq demo_fixture demo_fixture)
        \<lparr>qi_receivers := \<lparr>sd_waiters = 1, sd_credits = 0, sd_wake = demo_fixture\<rparr>\<rparr>,
      qw_tasks = [RecvWait [0] (BudgetForever True), Returned (Ok ())], qw_sent = [], qw_received = []\<rparr>"

lemma demo_new1: "byte_queue_new (\<lambda>_. True) 1 1 = Ok demo_bq"
  by (simp add: byte_queue_new_def checked_mul_def usize_max_def demo_bq_def)

lemma demo_fresh: "fresh_wake (fixture_count 1) (fixture_max 1) (fixture_sem_ok 1) 2 demo_fixture"
  using demo_fixture_ok(2)
  by (simp add: fresh_wake_def demo_fixture_def fixture_counting_semaphore_create_def
    fixture_initial_def fixture_count_def fixture_semaphore_count_def fixture_max_def)

lemma demo_blocked_reachable:
  "queue_reachable fixture_kernel (\<lambda>fx. fixture_ok fx \<and> True) (fixture_try_take 1) (fixture_give 1)
     demo_bq demo_fixture demo_fixture 2 demo_blocked"
proof -
  let ?q = "queue_inner_init demo_bq demo_fixture demo_fixture"
  let ?step = "queue_step fixture_kernel (\<lambda>fx. fixture_ok fx \<and> True) (fixture_try_take 1) (fixture_give 1)"
  let ?w0 = "queue_world_init 2 ?q"
  let ?w1 = "set_pc 0 (recv_call ?q [0] Forever) ?w0"
  have s1: "?step ?w0 ?w1"
    using queue_step.call_recv [of 0 ?w0 "Ok ()"] by (simp add: queue_world_init_def numeral_2_eq_2)
  have pc: "recv_call ?q [0] Forever = RecvTry [0] (BudgetForever False)"
    by (simp add: recv_call_def validate_recv_buffer_size_def queue_inner_init_def demo_bq_def
      budget_new_def)
  have rt: "recv_try (prepare_blocking fixture_kernel demo_fixture) (fixture_give 1) [0]
      (BudgetForever False) ?q
    = (TryBlock (BudgetForever True), qw_queue demo_blocked, [0])"
    by (simp add: recv_try_def try_recv_def bq_asserts_def demo_bq_def queue_inner_init_def Let_def
      block_on_def prepare_blocking_def ensure_blocking_allowed_def fixture_kernel_def register_waiter_def
      checked_add_def u32_max_def demo_blocked_def)
  have "?step ?w1 (set_pc 0 (after_try (RecvWait [0]) (TryBlock (BudgetForever True)))
      (?w1\<lparr>qw_queue := qw_queue demo_blocked, qw_received :=
        (if TryBlock (BudgetForever True) = TryReturn (Ok ()) then qw_received ?w1 @ [[0]] else qw_received ?w1)\<rparr>))"
    by (rule queue_step.do_recv [where k = demo_fixture and b = "BudgetForever False" and buf = "[0]"])
      (use rt demo_fixture_ok(1) pc in \<open>simp_all add: set_pc_def queue_world_init_def numeral_2_eq_2\<close>)
  moreover have "set_pc 0 (after_try (RecvWait [0]) (TryBlock (BudgetForever True)))
      (?w1\<lparr>qw_queue := qw_queue demo_blocked, qw_received :=
        (if TryBlock (BudgetForever True) = TryReturn (Ok ()) then qw_received ?w1 @ [[0]] else qw_received ?w1)\<rparr>)
     = demo_blocked"
    by (simp add: set_pc_def queue_world_init_def demo_blocked_def numeral_2_eq_2)
  ultimately have s2: "?step ?w1 demo_blocked" by simp
  show ?thesis unfolding queue_reachable_def 
    by (rule converse_rtranclp_into_rtranclp [OF s1 r_into_rtranclp [of ?step, OF s2]])
qed

theorem freertos_queue_no_deadlock_witness:
  "bq_len (qi_buffer (qw_queue demo_blocked)) = 0 \<and> \<not> bq_closed (qi_buffer (qw_queue demo_blocked))"
proof -
  have "\<forall>p\<in>set (qw_tasks demo_blocked). send_class p \<in> {0, 1} \<and> recv_class p \<in> {0, 1}"
    "0 < length (qw_tasks demo_blocked)" by (simp_all add: demo_blocked_def)
  moreover have "fixture_count 1 (sd_wake (qi_senders (qw_queue demo_blocked))) = 0"
    "fixture_count 1 (sd_wake (qi_receivers (qw_queue demo_blocked))) = 0"
    using demo_fresh by (simp_all add: demo_blocked_def queue_inner_init_def fresh_wake_def)
  ultimately show ?thesis
    using freertos_queue_no_deadlock [OF fixqueue.queue_protocol_axioms demo_new1 demo_fresh demo_fresh
      demo_blocked_reachable, of 0 "[0]" "BudgetForever True"]
    by (simp add: demo_blocked_def)
qed

lemma demo_give:
  obtains fx where "fixture_give 1 demo_fixture = (True, fx)" "fixture_sem_ok 1 fx" "fixture_count 1 fx = 1"
proof -
  obtain ok fx where g: "fixture_give 1 demo_fixture = (ok, fx)" by (cases "fixture_give 1 demo_fixture")
  have ok: "fixture_sem_ok 1 demo_fixture" by (rule demo_fixture_ok(2))
  from fixsem.rel_law [OF ok g] demo_fresh
  have "fixture_sem_ok 1 fx" "ok" "fixture_count 1 fx = 1" by (simp_all add: fresh_wake_def)
  then show ?thesis using g by (intro that) simp_all
qed

text \<open>The other task sends \<open>7\<close>, which posts a token for the blocked receiver.\<close>

definition demo_sent :: "fixture \<Rightarrow> fixture queue_world" where
  "demo_sent fx =
     \<lparr>qw_queue = \<lparr>qi_buffer = demo_bq\<lparr>bq_storage := [7], bq_len := 1\<rparr>,
        qi_senders = \<lparr>sd_waiters = 0, sd_credits = 0, sd_wake = demo_fixture\<rparr>,
        qi_receivers = \<lparr>sd_waiters = 1, sd_credits = 1, sd_wake = fx\<rparr>,
        qi_capacity = 1, qi_message_size = 1\<rparr>,
      qw_tasks = [RecvWait [0] (BudgetForever True), Returned (Ok ())], qw_sent = [[7]], qw_received = []\<rparr>"

lemma demo_sent_reachable:
  assumes fx: "fixture_give 1 demo_fixture = (True, fx)"
  shows "queue_reachable fixture_kernel (\<lambda>fx. fixture_ok fx \<and> True) (fixture_try_take 1) (fixture_give 1)
     demo_bq demo_fixture demo_fixture 2 (demo_sent fx)"
proof -
  let ?step = "queue_step fixture_kernel (\<lambda>fx. fixture_ok fx \<and> True) (fixture_try_take 1) (fixture_give 1)"
  let ?w1 = "set_pc 1 (send_call (qw_queue demo_blocked) [7] NoWait) demo_blocked"
  have s1: "?step demo_blocked ?w1"
    using queue_step.call_send [of 1 demo_blocked "Ok ()"] by (simp add: demo_blocked_def)
  have pc: "send_call (qw_queue demo_blocked) [7] NoWait = SendTry [7] BudgetNoWait"
    by (simp add: send_call_def validate_send_message_size_def queue_inner_init_def demo_bq_def
      budget_new_def demo_blocked_def)
  have st: "send_try (prepare_blocking fixture_kernel demo_fixture) (fixture_give 1) [7] BudgetNoWait
      (qw_queue demo_blocked) = (TryReturn (Ok ()), qw_queue (demo_sent fx))"
    using fx by (simp add: send_try_def try_send_def bq_asserts_def demo_bq_def queue_inner_init_def Let_def
      bq_is_full_def slice_write_def signal_one_receiver_def signal_one_def checked_add_def u32_max_def
      demo_blocked_def demo_sent_def)
  have "?step ?w1 (set_pc 1 (after_try (SendWait [7]) (TryReturn (Ok ())))
      (?w1\<lparr>qw_queue := qw_queue (demo_sent fx), qw_sent :=
        (if TryReturn (Ok ()) = TryReturn (Ok ()) then qw_sent ?w1 @ [[7]] else qw_sent ?w1)\<rparr>))"
    by (rule queue_step.do_send [where k = demo_fixture and b = BudgetNoWait and data = "[7]"])
      (use st demo_fixture_ok(1) pc in \<open>simp_all add: set_pc_def demo_blocked_def\<close>)
  moreover have "set_pc 1 (after_try (SendWait [7]) (TryReturn (Ok ())))
      (?w1\<lparr>qw_queue := qw_queue (demo_sent fx), qw_sent :=
        (if TryReturn (Ok ()) = TryReturn (Ok ()) then qw_sent ?w1 @ [[7]] else qw_sent ?w1)\<rparr>) = demo_sent fx"
    by (simp add: set_pc_def demo_blocked_def demo_sent_def)
  ultimately have s2: "?step ?w1 (demo_sent fx)" by simp
  show ?thesis
    using demo_blocked_reachable s1 s2 unfolding queue_reachable_def
    by (blast intro: rtranclp.rtrancl_into_rtrancl)
qed

theorem freertos_queue_safe_witness:
  "\<exists>fx. sd_waiters (qi_receivers (qw_queue (demo_sent fx)))
    = registered recv_class (qw_tasks (demo_sent fx))"
proof -
  obtain fx where "fixture_give 1 demo_fixture = (True, fx)" by (rule demo_give)
  then show ?thesis
    using freertos_queue_safe [OF fixqueue.queue_protocol_axioms demo_new1 demo_fresh demo_fresh
      demo_sent_reachable] by blast
qed

theorem freertos_queue_conserves_witness:
  "\<exists>fx. qw_sent (demo_sent fx) = qw_received (demo_sent fx) @ bq_contents (qi_buffer (qw_queue (demo_sent fx)))"
proof -
  obtain fx where "fixture_give 1 demo_fixture = (True, fx)" by (rule demo_give)
  then show ?thesis
    using freertos_queue_conserves [OF fixqueue.queue_protocol_axioms demo_new1 demo_fresh demo_fresh
      demo_sent_reachable] by blast
qed

theorem freertos_queue_no_lost_wakeup_witness:
  "\<exists>fx. 0 < fixture_count 1 (sd_wake (qi_receivers (qw_queue (demo_sent fx))))"
proof -
  obtain fx where "fixture_give 1 demo_fixture = (True, fx)" by (rule demo_give)
  then show ?thesis
    using freertos_queue_no_lost_wakeup [OF fixqueue.queue_protocol_axioms demo_new1 demo_fresh demo_fresh
      demo_sent_reachable, of fx]
    by (intro exI [of _ fx]) (auto simp: demo_sent_def in_class_def)
qed

text \<open>Or the other task closes the queue, which also wakes the receiver.\<close>

definition demo_closed :: "fixture \<Rightarrow> fixture queue_world" where
  "demo_closed fx =
     \<lparr>qw_queue = \<lparr>qi_buffer = demo_bq\<lparr>bq_closed := True\<rparr>,
        qi_senders = \<lparr>sd_waiters = 0, sd_credits = 0, sd_wake = demo_fixture\<rparr>,
        qi_receivers = \<lparr>sd_waiters = 1, sd_credits = 1, sd_wake = fx\<rparr>,
        qi_capacity = 1, qi_message_size = 1\<rparr>,
      qw_tasks = [RecvWait [0] (BudgetForever True), Returned (Ok ())], qw_sent = [], qw_received = []\<rparr>"

lemma demo_closed_reachable:
  assumes fx: "fixture_give 1 demo_fixture = (True, fx)"
  shows "queue_reachable fixture_kernel (\<lambda>fx. fixture_ok fx \<and> True) (fixture_try_take 1) (fixture_give 1)
     demo_bq demo_fixture demo_fixture 2 (demo_closed fx)"
proof -
  let ?step = "queue_step fixture_kernel (\<lambda>fx. fixture_ok fx \<and> True) (fixture_try_take 1) (fixture_give 1)"
  let ?w1 = "set_pc 1 CloseTry demo_blocked"
  have s1: "?step demo_blocked ?w1"
    using queue_step.call_close [of 1 demo_blocked "Ok ()"] by (simp add: demo_blocked_def)
  have "close_locked (fixture_give 1) (qw_queue demo_blocked) = (Ok (), qw_queue (demo_closed fx))"
    using fx by (simp add: close_locked_def demo_bq_def queue_inner_init_def Let_def bq_close_def
      broadcast_wake_def checked_sub_def demo_blocked_def demo_closed_def)
  then have "?step ?w1 (set_pc 1 (Returned (Ok ())) (?w1\<lparr>qw_queue := qw_queue (demo_closed fx)\<rparr>))"
    by (intro queue_step.do_close) (simp_all add: set_pc_def demo_blocked_def)
  moreover have "set_pc 1 (Returned (Ok ())) (?w1\<lparr>qw_queue := qw_queue (demo_closed fx)\<rparr>) = demo_closed fx"
    by (simp add: set_pc_def demo_blocked_def demo_closed_def)
  ultimately have s2: "?step ?w1 (demo_closed fx)" by simp
  show ?thesis
    using demo_blocked_reachable s1 s2 unfolding queue_reachable_def
    by (blast intro: rtranclp.rtrancl_into_rtrancl)
qed

theorem freertos_queue_close_wakes_witness:
  "\<exists>fx. fixture_count 1 (sd_wake (qi_receivers (qw_queue (demo_closed fx)))) = 1"
proof -
  obtain fx where "fixture_give 1 demo_fixture = (True, fx)" by (rule demo_give)
  then show ?thesis
    using freertos_queue_close_wakes [OF fixqueue.queue_protocol_axioms demo_new1 demo_fresh demo_fresh
      demo_closed_reachable, of fx]
    by (intro exI [of _ fx]) (simp add: demo_closed_def in_class_def)
qed

end
