(* ===== verification/Timer_Service.thy ===== *)
theory Timer_Service
  imports Timer_State
begin

text \<open>
  The timer registry that the FreeRTOS and the POSIX timer services share in structure
  (src/crates/osal-backend-freertos/src/timer_service.rs and
  src/crates/osal-backend-posix/src/timer_service.rs): entries with an id, the portable timer
  state, the callback while it is not running, and a deletion mark. Every function here is
  one section under the registry mutex.
\<close>

section \<open>Registry\<close>

record 'cb service_entry =
  se_id :: nat
  se_state :: timer_state
  se_callback :: "'cb option"
  se_deleted :: bool

record 'cb service_state =
  sv_timers :: "'cb service_entry list"
  sv_next_id :: nat
  sv_stop_requested :: bool

definition service_state_new :: "'cb service_state" where
  "service_state_new = \<lparr>sv_timers = [], sv_next_id = 1, sv_stop_requested = False\<rparr>"

text \<open>\<open>timers.iter_mut().find(|e| e.id == id && !e.deleted)\<close> and a mutation of the entry.\<close>

definition on_entry ::
  "nat \<Rightarrow> ('cb service_entry \<Rightarrow> 'a res \<times> 'cb service_entry) \<Rightarrow> 'cb service_state
    \<Rightarrow> 'a res \<times> 'cb service_state" where
  "on_entry tid f sv =
     (case position (\<lambda>e. se_id e = tid \<and> \<not> se_deleted e) (sv_timers sv) of
        None \<Rightarrow> (Err NotFound, sv)
      | Some i \<Rightarrow>
          (case f (sv_timers sv ! i) of (r, e) \<Rightarrow> (r, sv\<lparr>sv_timers := (sv_timers sv)[i := e]\<rparr>)))"

definition with_timer ::
  "(timer_state \<Rightarrow> 'a res \<times> timer_state) \<Rightarrow> 'cb service_entry \<Rightarrow> 'a res \<times> 'cb service_entry" where
  "with_timer f e = (case f (se_state e) of (r, t) \<Rightarrow> (r, e\<lparr>se_state := t\<rparr>))"

definition service_start :: "duration \<Rightarrow> nat \<Rightarrow> 'cb service_state \<Rightarrow> unit res \<times> 'cb service_state" where
  "service_start now tid = on_entry tid (with_timer (\<lambda>t. ts_start t now))"

definition service_stop :: "nat \<Rightarrow> 'cb service_state \<Rightarrow> unit res \<times> 'cb service_state" where
  "service_stop tid = on_entry tid (with_timer (\<lambda>t. (Ok (), ts_stop t)))"

definition service_reset :: "duration \<Rightarrow> nat \<Rightarrow> 'cb service_state \<Rightarrow> unit res \<times> 'cb service_state" where
  "service_reset now tid = on_entry tid (with_timer (\<lambda>t. ts_reset t now))"

definition service_change_period ::
  "nat \<Rightarrow> duration \<Rightarrow> 'cb service_state \<Rightarrow> unit res \<times> 'cb service_state" where
  "service_change_period tid p = on_entry tid (with_timer (\<lambda>t. ts_change_period t p))"

text \<open>Deregistration hands the callback out; it is dropped by the caller.\<close>

definition service_deregister :: "nat \<Rightarrow> 'cb service_state \<Rightarrow> 'cb option res \<times> 'cb service_state" where
  "service_deregister tid =
     on_entry tid (\<lambda>e. (Ok (se_callback e),
       e\<lparr>se_deleted := True, se_state := ts_stop (se_state e), se_callback := None\<rparr>))"

text \<open>\<open>reserve\<close> says whether the allocator can grow the vector.\<close>

definition service_register ::
  "bool \<Rightarrow> duration \<Rightarrow> timer_mode \<Rightarrow> 'cb \<Rightarrow> 'cb service_state \<Rightarrow> nat res \<times> 'cb service_state" where
  "service_register reserve period mode cb sv =
     (case ts_new period mode of
        Ok t \<Rightarrow>
          if \<not> reserve then (Err OutOfMemory, sv)
          else
            let tid = sv_next_id sv in
            (case checked_add u64_max tid 1 of
               None \<Rightarrow> (Err Overflow, sv)
             | Some n \<Rightarrow>
                 (Ok tid, sv\<lparr>sv_next_id := n, sv_timers := sv_timers sv @
                    [\<lparr>se_id = tid, se_state = t, se_callback = Some cb, se_deleted = False\<rparr>]\<rparr>))
      | Err e \<Rightarrow> (Err e, sv)
      | Panic s \<Rightarrow> (Panic s, sv))"

definition retain_live :: "'cb service_state \<Rightarrow> 'cb service_state" where
  "retain_live sv = sv\<lparr>sv_timers := filter (\<lambda>e. \<not> se_deleted e) (sv_timers sv)\<rparr>"

section \<open>The next expired timer\<close>

text \<open>\<open>min_by_key(|(_, d, id)| (d, id))\<close> over the live entries whose deadline has passed: the
  first entry with the least key.\<close>

definition expired_key :: "duration \<Rightarrow> 'cb service_entry \<Rightarrow> (duration \<times> nat) option" where
  "expired_key now e =
     (if se_deleted e \<or> se_callback e = None then None
      else case ts_deadline (se_state e) of
        None \<Rightarrow> None
      | Some d \<Rightarrow> if d \<le> now then Some (d, se_id e) else None)"

definition key_le :: "duration \<times> nat \<Rightarrow> duration \<times> nat \<Rightarrow> bool" where
  "key_le a b = (fst a < fst b \<or> fst a = fst b \<and> snd a \<le> snd b)"

fun best_expired :: "duration \<Rightarrow> 'cb service_entry list \<Rightarrow> (nat \<times> duration \<times> nat) option" where
  "best_expired now [] = None"
| "best_expired now (e # es) =
     (let rest = map_option (\<lambda>(i, k). (Suc i, k)) (best_expired now es) in
      case expired_key now e of
        None \<Rightarrow> rest
      | Some k \<Rightarrow> (case rest of None \<Rightarrow> Some (0, k)
                  | Some (j, k') \<Rightarrow> if key_le k k' then Some (0, k) else Some (j, k')))"

fun earliest_deadline :: "'cb service_entry list \<Rightarrow> duration option" where
  "earliest_deadline [] = None"
| "earliest_deadline (e # es) =
     (case (if se_deleted e then None else ts_deadline (se_state e)) of
        None \<Rightarrow> earliest_deadline es
      | Some d \<Rightarrow> (case earliest_deadline es of None \<Rightarrow> Some d | Some d' \<Rightarrow> Some (min d d')))"

text \<open>After the callback: restore it unless the entry was deleted meanwhile; a callback that
  was not restored is handed out to be dropped.\<close>

definition restore_service_callback :: "nat \<Rightarrow> 'cb \<Rightarrow> 'cb service_state \<Rightarrow> 'cb option \<times> 'cb service_state" where
  "restore_service_callback tid cb sv =
     (case position (\<lambda>e. se_id e = tid \<and> \<not> se_deleted e) (sv_timers sv) of
        None \<Rightarrow> (Some cb, sv)
      | Some i \<Rightarrow>
          if se_callback (sv_timers sv ! i) = None
          then (None, sv\<lparr>sv_timers := (sv_timers sv)[i := (sv_timers sv ! i)\<lparr>se_callback := Some cb\<rparr>]\<rparr>)
          else (Some cb, sv))"

section \<open>Lemmas\<close>

text \<open>The registry hands out each id once.\<close>

definition sv_inv :: "'cb service_state \<Rightarrow> bool" where
  "sv_inv sv =
     (distinct (map se_id (sv_timers sv)) \<and> (\<forall>e\<in>set (sv_timers sv). se_id e < sv_next_id sv)
      \<and> (\<forall>e\<in>set (sv_timers sv). ts_inv (se_state e)))"

lemma key_le_refl [simp]: "key_le k k" by (simp add: key_le_def)

lemma key_le_trans: "key_le a b \<Longrightarrow> key_le b c \<Longrightarrow> key_le a c"
  by (auto simp: key_le_def)

lemma key_le_linear: "key_le a b \<or> key_le b a"
  by (auto simp: key_le_def)

lemma best_expired_None: "best_expired now es = None \<longleftrightarrow> (\<forall>e\<in>set es. expired_key now e = None)"
  by (induction es) (auto simp: Let_def split: option.splits if_splits)

lemma best_expired_Some:
  assumes "best_expired now es = Some (i, k)"
  shows "i < length es \<and> expired_key now (es ! i) = Some k
    \<and> (\<forall>j<length es. \<forall>k'. expired_key now (es ! j) = Some k' \<longrightarrow> key_le k k')"
  using assms
proof (induction es arbitrary: i k)
  case (Cons e es)
  show ?case
  proof (cases "best_expired now es")
    case None
    then have "expired_key now e = Some k" "i = 0" using Cons.prems by (auto split: option.splits)
    moreover have "\<forall>x\<in>set es. expired_key now x = None" using None best_expired_None by blast
    ultimately show ?thesis by (auto simp: nth_Cons split: nat.splits)
  next
    case (Some a)
    obtain j k1 where jk: "best_expired now es = Some (j, k1)" using Some by (cases a) auto
    note IH = Cons.IH [OF jk]
    show ?thesis
    proof (cases "expired_key now e")
      case None
      then have "i = Suc j" "k = k1" using Cons.prems jk by simp_all
      then show ?thesis using IH None by (auto simp: nth_Cons split: nat.splits)
    next
      case k0: (Some k0)
      show ?thesis
      proof (cases "key_le k0 k1")
        case True
        then have "i = 0" "k = k0" using Cons.prems jk k0 by simp_all
        then show ?thesis using IH k0 True key_le_trans [OF True]
          by (auto simp: nth_Cons split: nat.splits)
      next
        case False
        then have "i = Suc j" "k = k1" "key_le k1 k0"
          using Cons.prems jk k0 key_le_linear [of k0 k1] by simp_all
        then show ?thesis using IH k0 by (auto simp: nth_Cons split: nat.splits)
      qed
    qed
  qed
qed simp

lemma earliest_deadline_le:
  assumes "e \<in> set es" and "\<not> se_deleted e" and "ts_deadline (se_state e) = Some d"
  shows "\<exists>d'. earliest_deadline es = Some d' \<and> d' \<le> d"
  using assms by (induction es) (auto split: option.splits simp: min_le_iff_disj)

lemma earliest_deadline_in:
  assumes "earliest_deadline es = Some d"
  shows "\<exists>e\<in>set es. \<not> se_deleted e \<and> ts_deadline (se_state e) = Some d"
  using assms by (induction es arbitrary: d) (auto split: option.splits if_splits simp: min_def)

lemma on_entry_cases:
  assumes "on_entry tid f sv = (r, sv')"
  obtains "r = Err NotFound" "sv' = sv"
  | i e where "i < length (sv_timers sv)" "se_id (sv_timers sv ! i) = tid" "\<not> se_deleted (sv_timers sv ! i)"
      "f (sv_timers sv ! i) = (r, e)" "sv' = sv\<lparr>sv_timers := (sv_timers sv)[i := e]\<rparr>"
proof (cases "position (\<lambda>e. se_id e = tid \<and> \<not> se_deleted e) (sv_timers sv)")
  case None
  then show ?thesis using assms that(1) by (simp add: on_entry_def)
next
  case (Some i)
  then show ?thesis
    using assms that(2) position_Some [OF Some] by (auto simp: on_entry_def split: prod.splits)
qed

lemma with_timer_fields:
  assumes "with_timer f e = (r, e')"
  shows "se_id e' = se_id e" "se_callback e' = se_callback e" "se_deleted e' = se_deleted e"
    "f (se_state e) = (r, se_state e')"
  using assms by (auto simp: with_timer_def split: prod.splits)

text \<open>Replacing one entry by one with the same id.\<close>

lemma sv_inv_update:
  assumes "sv_inv sv" and "i < length (sv_timers sv)" and "se_id e = se_id (sv_timers sv ! i)"
    and "ts_inv (se_state e)"
  shows "sv_inv (sv\<lparr>sv_timers := (sv_timers sv)[i := e]\<rparr>)"
proof -
  have "map se_id ((sv_timers sv)[i := e]) = map se_id (sv_timers sv)"
    using assms(2,3) by (simp add: map_update list_update_same_conv)
  moreover have "set ((sv_timers sv)[i := e]) \<subseteq> insert e (set (sv_timers sv))"
    by (rule set_update_subset_insert)
  moreover have "se_id e < sv_next_id sv" using assms(1-3) by (auto simp: sv_inv_def)
  ultimately show ?thesis using assms(1,4) by (auto simp: sv_inv_def)
qed

lemma on_entry_inv:
  assumes "sv_inv sv" and "on_entry tid f sv = (r, sv')"
    and "\<And>e e'. f e = (r, e') \<Longrightarrow> ts_inv (se_state e) \<Longrightarrow> se_id e' = se_id e \<and> ts_inv (se_state e')"
  shows "sv_inv sv'"
  using assms(2)
proof (cases rule: on_entry_cases)
  case 1
  then show ?thesis using assms(1) by simp
next
  case (2 i e)
  have "ts_inv (se_state (sv_timers sv ! i))" using assms(1) 2(1) by (auto simp: sv_inv_def)
  from assms(3) [OF 2(4) this] show ?thesis using sv_inv_update [OF assms(1) 2(1)] 2(5) by simp
qed

lemma service_ops_inv [wf_intros]:
  assumes "sv_inv sv"
  shows "service_start now tid sv = (r, sv') \<Longrightarrow> sv_inv sv'"
    and "service_stop tid sv = (r, sv') \<Longrightarrow> sv_inv sv'"
    and "service_reset now tid sv = (r, sv') \<Longrightarrow> sv_inv sv'"
    and "service_change_period tid p sv = (r, sv') \<Longrightarrow> sv_inv sv'"
    and "service_deregister tid sv = (q, sv') \<Longrightarrow> sv_inv sv'"
    and "service_register b p m cb sv = (s, sv') \<Longrightarrow> sv_inv sv'"
    and "sv_inv (retain_live sv)"
proof -
  show "service_start now tid sv = (r, sv') \<Longrightarrow> sv_inv sv'"
    unfolding service_start_def using assms
    by (rule on_entry_inv) (auto dest: with_timer_fields intro: ts_ops_inv(1))
  show "service_stop tid sv = (r, sv') \<Longrightarrow> sv_inv sv'"
    unfolding service_stop_def using assms
    by (rule on_entry_inv) (auto dest: with_timer_fields simp: with_timer_def intro: ts_ops_inv(2))
  show "service_reset now tid sv = (r, sv') \<Longrightarrow> sv_inv sv'"
    unfolding service_reset_def using assms
    by (rule on_entry_inv) (auto dest: with_timer_fields intro: ts_ops_inv(3))
  show "service_change_period tid p sv = (r, sv') \<Longrightarrow> sv_inv sv'"
    unfolding service_change_period_def using assms
    by (rule on_entry_inv) (auto dest: with_timer_fields intro: ts_ops_inv(4))
  show "service_deregister tid sv = (q, sv') \<Longrightarrow> sv_inv sv'"
    unfolding service_deregister_def using assms
    by (rule on_entry_inv) (auto intro: ts_ops_inv(2))
  show "service_register b p m cb sv = (s, sv') \<Longrightarrow> sv_inv sv'"
    using assms ts_new_inv
    by (fastforce simp: service_register_def sv_inv_def Let_def checked_add_def less_SucI
      split: res.splits if_splits)
  show "sv_inv (retain_live sv)"
    using assms by (auto simp: retain_live_def sv_inv_def distinct_map intro: inj_on_subset)
qed

section \<open>The registry as a list of handles\<close>

text \<open>What the registry promises its clients, whatever the states of the timers: the live ids
  in registration order.\<close>

definition live_ids :: "'cb service_state \<Rightarrow> nat list" where
  "live_ids sv = map se_id (filter (\<lambda>e. \<not> se_deleted e) (sv_timers sv))"

lemma live_ids_distinct: "sv_inv sv \<Longrightarrow> distinct (live_ids sv)"
  by (auto simp: live_ids_def sv_inv_def distinct_map intro: inj_on_subset)

lemma live_ids_retain [simp]: "live_ids (retain_live sv) = live_ids sv"
  by (simp add: live_ids_def retain_live_def)

lemma live_ids_iff: "tid \<in> set (live_ids sv) \<longleftrightarrow> (\<exists>e\<in>set (sv_timers sv). se_id e = tid \<and> \<not> se_deleted e)"
  by (auto simp: live_ids_def)

lemma map_filter_update:
  assumes "i < length xs" and "P y = P (xs ! i)" and "f y = f (xs ! i)"
  shows "map f (filter P (xs[i := y])) = map f (filter P xs)"
  using assms
proof (induction xs arbitrary: i)
  case (Cons x xs)
  then show ?case by (cases i) auto
qed simp

lemma live_ids_update:
  assumes "i < length (sv_timers sv)" and "se_id e = se_id (sv_timers sv ! i)"
    and "se_deleted e = se_deleted (sv_timers sv ! i)"
  shows "live_ids (sv\<lparr>sv_timers := (sv_timers sv)[i := e]\<rparr>) = live_ids sv"
  using assms by (simp add: live_ids_def map_filter_update)

lemma on_entry_found:
  assumes "tid \<in> set (live_ids sv)"
  obtains i where "position (\<lambda>e. se_id e = tid \<and> \<not> se_deleted e) (sv_timers sv) = Some i"
    "i < length (sv_timers sv)" "se_id (sv_timers sv ! i) = tid" "\<not> se_deleted (sv_timers sv ! i)"
proof (cases "position (\<lambda>e. se_id e = tid \<and> \<not> se_deleted e) (sv_timers sv)")
  case None
  then show ?thesis using assms by (auto simp: position_None_iff live_ids_iff)
next
  case (Some i)
  then show ?thesis using that position_Some [OF Some] by blast
qed

lemma on_entry_live:
  assumes "on_entry tid f sv = (r, sv')"
    and "\<And>e r' e'. f e = (r', e') \<Longrightarrow> se_id e' = se_id e \<and> se_deleted e' = se_deleted e \<and> r' \<noteq> Err NotFound"
  shows "live_ids sv' = live_ids sv" and "r = Err NotFound \<longleftrightarrow> tid \<notin> set (live_ids sv)"
    and "sv_next_id sv' = sv_next_id sv"
proof -
  show "live_ids sv' = live_ids sv"
    using assms by (cases rule: on_entry_cases) (auto intro: live_ids_update dest: assms(2))
  show "sv_next_id sv' = sv_next_id sv" using assms(1) by (cases rule: on_entry_cases) auto
  show "r = Err NotFound \<longleftrightarrow> tid \<notin> set (live_ids sv)"
  proof (cases "tid \<in> set (live_ids sv)")
    case True
    from on_entry_found [OF this] obtain i
      where "position (\<lambda>e. se_id e = tid \<and> \<not> se_deleted e) (sv_timers sv) = Some i" by blast
    then obtain e' where "f (sv_timers sv ! i) = (r, e')"
      using assms(1) by (auto simp: on_entry_def split: prod.splits)
    then show ?thesis using assms(2) True by blast
  next
    case False
    then have "position (\<lambda>e. se_id e = tid \<and> \<not> se_deleted e) (sv_timers sv) = None"
      by (auto simp: position_None_iff live_ids_iff)
    then show ?thesis using assms(1) False by (simp add: on_entry_def)
  qed
qed

lemma with_timer_live:
  assumes "\<And>t r t'. f t = (r, t') \<Longrightarrow> r \<noteq> Err NotFound" and "with_timer f e = (r, e')"
  shows "se_id e' = se_id e \<and> se_deleted e' = se_deleted e \<and> r \<noteq> Err NotFound"
  using with_timer_fields [OF assms(2)] assms(1) by blast

lemma on_entry_with_timer:
  assumes "\<And>t r t'. f t = (r, t') \<Longrightarrow> r \<noteq> Err NotFound" and "on_entry tid (with_timer f) sv = (r, sv')"
  shows "live_ids sv' = live_ids sv \<and> (r = Err NotFound \<longleftrightarrow> tid \<notin> set (live_ids sv))"
proof -
  have "se_id e' = se_id e \<and> se_deleted e' = se_deleted e \<and> q \<noteq> Err NotFound"
    if "with_timer f e = (q, e')" for e q e'
    using with_timer_live [OF assms(1) that] .
  then show ?thesis using on_entry_live(1,2) [OF assms(2)] by blast
qed

lemma ts_ops_found:
  "ts_start t now = (r, t') \<Longrightarrow> r \<noteq> Err NotFound" "ts_reset t now = (r, t') \<Longrightarrow> r \<noteq> Err NotFound"
  "ts_change_period t p = (r, t') \<Longrightarrow> r \<noteq> Err NotFound"
  using ts_start_cases(3) [of t now r t']
  by (auto simp: ts_reset_eq_start ts_change_period_def split: if_splits)

text \<open>Starting, stopping, resetting and changing the period of a timer keep the handles and
  find the timer exactly when it is live.\<close>

lemma service_calls_live:
  "service_start now tid sv = (r, sv') \<Longrightarrow> live_ids sv' = live_ids sv \<and> (r = Err NotFound \<longleftrightarrow> tid \<notin> set (live_ids sv))"
  "service_stop tid sv = (r, sv') \<Longrightarrow> live_ids sv' = live_ids sv \<and> (r = Err NotFound \<longleftrightarrow> tid \<notin> set (live_ids sv))"
  "service_reset now tid sv = (r, sv') \<Longrightarrow> live_ids sv' = live_ids sv \<and> (r = Err NotFound \<longleftrightarrow> tid \<notin> set (live_ids sv))"
  "service_change_period tid p sv = (r, sv') \<Longrightarrow> live_ids sv' = live_ids sv \<and> (r = Err NotFound \<longleftrightarrow> tid \<notin> set (live_ids sv))"
  unfolding service_start_def service_stop_def service_reset_def service_change_period_def
  subgoal by (erule on_entry_with_timer [rotated]) (auto dest: ts_ops_found)
  subgoal by (erule on_entry_with_timer [rotated]) auto
  subgoal by (erule on_entry_with_timer [rotated]) (auto dest: ts_ops_found)
  subgoal by (erule on_entry_with_timer [rotated]) (auto dest: ts_ops_found)
  done

lemma service_register_live:
  assumes "service_register b p m cb sv = (r, sv')"
  shows "(\<exists>tid. r = Ok tid \<and> tid = sv_next_id sv \<and> live_ids sv' = live_ids sv @ [tid])
    \<or> (\<exists>e. r = Err e \<and> sv' = sv)"
  using assms
  by (auto simp: service_register_def ts_new_def live_ids_def Let_def checked_add_def split: if_splits)

lemma filter_update_out:
  assumes "i < length xs" and "\<not> P y"
  shows "filter P (xs[i := y]) = filter P (take i xs) @ filter P (drop (Suc i) xs)"
  using assms by (simp add: upd_conv_take_nth_drop)

lemma service_deregister_live:
  fixes sv :: "'cb service_state"
  assumes "sv_inv sv" and "tid \<in> set (live_ids sv)" and "service_deregister tid sv = (r, sv')"
  shows "is_ok r \<and> live_ids sv' = removeAll tid (live_ids sv)"
proof -
  obtain i where i: "position (\<lambda>e. se_id e = tid \<and> \<not> se_deleted e) (sv_timers sv) = Some i"
    "i < length (sv_timers sv)" "se_id (sv_timers sv ! i) = tid" "\<not> se_deleted (sv_timers sv ! i)"
    using on_entry_found [OF assms(2)] .
  define A where "A = take i (sv_timers sv)"
  define B where "B = drop (Suc i) (sv_timers sv)"
  define e where "e = sv_timers sv ! i"
  have split: "sv_timers sv = A @ e # B" unfolding A_def B_def e_def by (rule id_take_nth_drop [OF i(2)])
  have d: "tid \<notin> se_id ` set A" "tid \<notin> se_id ` set B"
    using assms(1) i(3) [folded e_def] unfolding sv_inv_def split by auto
  have r: "is_ok r" and sv': "sv_timers sv' = A @ (e\<lparr>se_deleted := True, se_state := ts_stop (se_state e),
      se_callback := None\<rparr>) # B"
    using assms(3) i(1,2) unfolding service_deregister_def on_entry_def
    by (auto simp: e_def A_def B_def upd_conv_take_nth_drop)
  have "removeAll tid (map se_id (filter (\<lambda>e. \<not> se_deleted e) C)) = map se_id (filter (\<lambda>e. \<not> se_deleted e) C)"
    if "tid \<notin> se_id ` set C" for C :: "'cb service_entry list"
    using that by (intro removeAll_id) auto
  then show ?thesis
    using r d i(3,4) [folded e_def] unfolding live_ids_def sv' split by simp
qed

lemma restore_live: "live_ids (snd (restore_service_callback tid cb sv)) = live_ids sv"
  by (auto simp: restore_service_callback_def live_ids_update dest: position_Some split: option.splits)

section \<open>Operations and the worker's obligations\<close>

datatype 'cb timer_op =
    OpRegister bool duration timer_mode 'cb
  | OpStart nat
  | OpStop nat
  | OpReset nat
  | OpChangePeriod nat duration
  | OpDeregister nat

text \<open>The section of an operation under the registry mutex, and whether it signals the
  worker.\<close>

fun service_op :: "duration \<Rightarrow> 'cb timer_op \<Rightarrow> 'cb service_state \<Rightarrow> bool \<times> 'cb service_state" where
  "service_op now (OpRegister reserve p m cb) sv =
     (case service_register reserve p m cb sv of (r, sv') \<Rightarrow> (is_ok r, sv'))"
| "service_op now (OpStart tid) sv = (case service_start now tid sv of (r, sv') \<Rightarrow> (is_ok r, sv'))"
| "service_op now (OpStop tid) sv = (case service_stop tid sv of (r, sv') \<Rightarrow> (is_ok r, sv'))"
| "service_op now (OpReset tid) sv = (case service_reset now tid sv of (r, sv') \<Rightarrow> (is_ok r, sv'))"
| "service_op now (OpChangePeriod tid p) sv =
     (case service_change_period tid p sv of (r, sv') \<Rightarrow> (False, sv'))"
| "service_op now (OpDeregister tid) sv =
     (case service_deregister tid sv of (r, sv') \<Rightarrow> (is_ok r, sv'))"

text \<open>Phase 1 of \<open>shutdown\<close> under the registry mutex: refused while a timer is registered.\<close>

definition request_stop :: "'cb service_state \<Rightarrow> unit res \<times> 'cb service_state" where
  "request_stop sv =
     (let sv1 = retain_live sv in
      if sv_timers sv1 \<noteq> [] then (Err Busy, sv1)
      else (Ok (), sv1\<lparr>sv_stop_requested := True\<rparr>))"

text \<open>A sleep without a pending token ends no later than the first deadline and not before a
  requested stop.\<close>

definition sleep_ok :: "duration option \<Rightarrow> 'cb service_state \<Rightarrow> bool" where
  "sleep_ok D sv =
     (\<not> sv_stop_requested sv
      \<and> (\<forall>e\<in>set (sv_timers sv). \<not> se_deleted e \<longrightarrow>
           (case ts_deadline (se_state e) of None \<Rightarrow> True
            | Some d' \<Rightarrow> (case D of None \<Rightarrow> False | Some d \<Rightarrow> d \<le> d'))))"

definition callbacks_ok :: "nat option \<Rightarrow> 'cb service_state \<Rightarrow> bool" where
  "callbacks_ok fl sv =
     (\<forall>e\<in>set (sv_timers sv). \<not> se_deleted e \<and> se_callback e = None \<longrightarrow> fl = Some (se_id e))"

section \<open>Operations keep the obligations\<close>

lemma update_callbacks_ok:
  assumes "callbacks_ok fl sv" and "se_deleted e \<or> se_callback e \<noteq> None \<or> fl = Some (se_id e)"
  shows "callbacks_ok fl (sv\<lparr>sv_timers := (sv_timers sv)[i := e]\<rparr>)"
  using assms set_update_subset_insert [of "sv_timers sv" i e] by (auto simp: callbacks_ok_def)

lemma with_timer_callbacks:
  assumes "callbacks_ok fl sv" and "on_entry tid (with_timer f) sv = (r, sv')"
  shows "callbacks_ok fl sv'"
  using assms(2)
proof (cases rule: on_entry_cases)
  case 1
  then show ?thesis using assms(1) by simp
next
  case (2 i e)
  have "\<not> se_deleted (sv_timers sv ! i) \<Longrightarrow> se_callback (sv_timers sv ! i) = None
      \<Longrightarrow> fl = Some (se_id (sv_timers sv ! i))"
    using assms(1) nth_mem [OF 2(1)] by (auto simp: callbacks_ok_def)
  then have "se_deleted e \<or> se_callback e \<noteq> None \<or> fl = Some (se_id e)"
    using with_timer_fields [OF 2(4)] 2(3) by auto
  then show ?thesis unfolding 2(5) by (rule update_callbacks_ok [OF assms(1)])
qed

lemma service_op_callbacks:
  assumes "callbacks_ok fl sv" and "service_op now tmop sv = (sig, sv')"
  shows "callbacks_ok fl sv'"
proof (cases tmop)
  case (OpRegister b p m cb)
  then show ?thesis
    using assms
    by (auto simp: service_register_def callbacks_ok_def Let_def split: res.splits if_splits option.splits)
next
  case (OpDeregister tid)
  then obtain r where "service_deregister tid sv = (r, sv')"
    using assms(2) by (auto split: prod.splits)
  then show ?thesis
    unfolding service_deregister_def
  proof (cases rule: on_entry_cases)
    case (2 i e)
    then show ?thesis using update_callbacks_ok [OF assms(1), of e i] by auto
  qed (use assms(1) in simp)
qed (use assms with_timer_callbacks in \<open>auto simp: service_start_def service_stop_def
  service_reset_def service_change_period_def split: prod.splits\<close>)

lemma service_op_inv:
  assumes "sv_inv sv" and "service_op now tmop sv = (sig, sv')"
  shows "sv_inv sv'"
  using assms service_ops_inv by (cases tmop) (auto split: prod.splits)

text \<open>An operation that does not signal the worker has not moved any deadline.\<close>

lemma with_timer_quiet:
  assumes "on_entry tid (with_timer f) sv = (r, sv')" and "sleep_ok D sv"
    and "\<And>t t'. f t = (r, t') \<Longrightarrow> ts_deadline t' = ts_deadline t"
  shows "sleep_ok D sv'"
  using assms(1)
proof (cases rule: on_entry_cases)
  case 1
  then show ?thesis using assms(2) by simp
next
  case (2 i e)
  have "ts_deadline (se_state e) = ts_deadline (se_state (sv_timers sv ! i))"
    using assms(3) with_timer_fields(4) [OF 2(4)] by simp
  then show ?thesis
    using assms(2) 2 nth_mem [OF 2(1)] set_update_subset_insert [of "sv_timers sv" i e]
    unfolding sleep_ok_def by fastforce
qed

lemma service_op_quiet:
  assumes "service_op now tmop sv = (False, sv')" and "sleep_ok D sv"
  shows "sleep_ok D sv'"
proof (cases tmop)
  case (OpRegister b p m cb)
  then have "sv' = sv"
    using assms(1) by (auto simp: service_register_def Let_def split: res.splits if_splits option.splits)
  then show ?thesis using assms(2) by simp
next
  case (OpDeregister tid)
  then obtain r where "service_deregister tid sv = (r, sv')" "\<not> is_ok r"
    using assms(1) by (auto split: prod.splits)
  then show ?thesis
    unfolding service_deregister_def by (cases rule: on_entry_cases) (use assms(2) in auto)
next
  case (OpStart tid)
  then obtain r where "on_entry tid (with_timer (\<lambda>t. ts_start t now)) sv = (r, sv')" "\<not> is_ok r"
    using assms(1) by (auto simp: service_start_def split: prod.splits)
  then show ?thesis using assms(2) with_timer_quiet ts_start_cases(4) by metis
next
  case (OpReset tid)
  then obtain r where "on_entry tid (with_timer (\<lambda>t. ts_start t now)) sv = (r, sv')" "\<not> is_ok r"
    using assms(1) by (auto simp: service_reset_def ts_reset_eq_start split: prod.splits)
  then show ?thesis using assms(2) with_timer_quiet ts_start_cases(4) by metis
next
  case (OpStop tid)
  then obtain r where r: "on_entry tid (with_timer (\<lambda>t. (Ok (), ts_stop t))) sv = (r, sv')" "\<not> is_ok r"
    using assms(1) by (auto simp: service_stop_def split: prod.splits)
  show ?thesis
    using r(1) by (rule with_timer_quiet [OF _ assms(2)]) (use r(2) in auto)
next
  case (OpChangePeriod tid p)
  then obtain r where r: "on_entry tid (with_timer (\<lambda>t. ts_change_period t p)) sv = (r, sv')"
    using assms(1) by (auto simp: service_change_period_def split: prod.splits)
  show ?thesis
    using r by (rule with_timer_quiet [OF _ assms(2)]) (auto simp: ts_change_period_def split: if_splits)
qed

lemma retain_live_facts:
  "callbacks_ok fl sv \<Longrightarrow> callbacks_ok fl (retain_live sv)"
  "sleep_ok D (retain_live sv) = sleep_ok D sv"
  "sv_stop_requested (retain_live sv) = sv_stop_requested sv"
  by (auto simp: retain_live_def callbacks_ok_def sleep_ok_def)

lemma restore_facts:
  assumes "sv_inv sv" and "callbacks_ok (Some tid) sv"
  shows "sv_inv (snd (restore_service_callback tid cb sv))"
    and "callbacks_ok None (snd (restore_service_callback tid cb sv))"
    and "sv_stop_requested (snd (restore_service_callback tid cb sv)) = sv_stop_requested sv"
proof -
  let ?P = "\<lambda>e. se_id e = tid \<and> \<not> se_deleted e"
  have missing: "se_id e = tid" if "e \<in> set (sv_timers sv)" "\<not> se_deleted e" "se_callback e = None" for e
    using that assms(2) by (auto simp: callbacks_ok_def)
  have "sv_inv (snd (restore_service_callback tid cb sv))
    \<and> callbacks_ok None (snd (restore_service_callback tid cb sv))
    \<and> sv_stop_requested (snd (restore_service_callback tid cb sv)) = sv_stop_requested sv"
  proof (cases "position ?P (sv_timers sv)")
    case None
    have "\<not> ?P e" if "e \<in> set (sv_timers sv)" for e
      using None that by (auto simp: position_None_iff)
    then show ?thesis
      using None missing assms(1) by (auto simp: restore_service_callback_def callbacks_ok_def)
  next
    case (Some i)
    note i = position_Some [OF Some]
    let ?e = "sv_timers sv ! i"
    have same: "j = i" if "j < length (sv_timers sv)" "se_id (sv_timers sv ! j) = tid" for j
    proof -
      have "map se_id (sv_timers sv) ! j = map se_id (sv_timers sv) ! i" using that i by simp
      then show ?thesis
        using assms(1) that(1) i nth_eq_iff_index_eq [of "map se_id (sv_timers sv)" j i]
        by (simp add: sv_inv_def)
    qed
    have only: "se_callback e \<noteq> None"
      if e: "e \<in> set (sv_timers sv)" "\<not> se_deleted e" "e \<noteq> ?e" for e
    proof
      assume "se_callback e = None"
      then have "se_id e = tid" using missing e by blast
      moreover obtain j where "j < length (sv_timers sv)" "sv_timers sv ! j = e"
        using e(1) by (auto simp: in_set_conv_nth)
      ultimately show False using same e(3) by blast
    qed
    show ?thesis
    proof (cases "se_callback ?e = None")
      case True
      have "ts_inv (se_state ?e)" using assms(1) i by (auto simp: sv_inv_def)
      then have "sv_inv (sv\<lparr>sv_timers := (sv_timers sv)[i := ?e\<lparr>se_callback := Some cb\<rparr>]\<rparr>)"
        using sv_inv_update [OF assms(1), of i] i by simp
      moreover have "se_callback e \<noteq> None"
        if e: "e \<in> set ((sv_timers sv)[i := ?e\<lparr>se_callback := Some cb\<rparr>])" "\<not> se_deleted e" for e
      proof -
        obtain j where "j < length ((sv_timers sv)[i := ?e\<lparr>se_callback := Some cb\<rparr>])"
          "(sv_timers sv)[i := ?e\<lparr>se_callback := Some cb\<rparr>] ! j = e"
          using e(1) unfolding in_set_conv_nth by blast
        then have j: "j < length (sv_timers sv)"
          "e = (sv_timers sv)[i := ?e\<lparr>se_callback := Some cb\<rparr>] ! j" by simp_all
        show ?thesis
        proof (cases "j = i")
          case False
          then have "e = sv_timers sv ! j" "e \<noteq> ?e" using j i same by auto
          then show ?thesis using only j(1) e(2) by simp
        qed (use j i in simp)
      qed
      ultimately show ?thesis
        using Some True by (auto simp: restore_service_callback_def callbacks_ok_def)
    next
      case False
      then have "callbacks_ok None sv" using only by (auto simp: callbacks_ok_def)
      then show ?thesis using Some False assms(1) by (auto simp: restore_service_callback_def)
    qed
  qed
  then show "sv_inv (snd (restore_service_callback tid cb sv))"
    "callbacks_ok None (snd (restore_service_callback tid cb sv))"
    "sv_stop_requested (snd (restore_service_callback tid cb sv)) = sv_stop_requested sv" by auto
qed

lemma callbacks_ok_mono: "callbacks_ok None sv \<Longrightarrow> callbacks_ok fl sv"
  by (auto simp: callbacks_ok_def)

lemma service_op_stop:
  "service_op now tmop sv = (sig, sv') \<Longrightarrow> sv_stop_requested sv' = sv_stop_requested sv"
  by (cases tmop) (auto simp: service_register_def service_start_def service_stop_def service_reset_def
    service_change_period_def service_deregister_def on_entry_def Let_def
    split: prod.splits option.splits res.splits if_splits)

end
