(* ===== verification/Freertos_Timer.thy ===== *)
theory Freertos_Timer
  imports Timer_Service Freertos_Wait
begin

text \<open>
  src/crates/osal-backend-freertos/src/timer_service.rs: the worker task of the timer service,
  its waits, and the protocol between the timer operations, the shutdown request and the
  worker. A section under the registry mutex is one step; the wake semaphore is binary, so it
  is a flag; the callback runs outside the mutex, so its own calls are steps of other clients
  between \<open>WCall\<close> and \<open>WRestore\<close>.
\<close>

section \<open>The worker's scan\<close>

datatype 'cb service_action =
    ActDispatch nat 'cb
  | ActWaitUntil duration
  | ActWaitForever
  | ActRescan
  | ActStop
  | ActPanic

definition service_scan :: "duration \<Rightarrow> 'cb service_state \<Rightarrow> 'cb service_action \<times> 'cb service_state" where
  "service_scan now sv =
     (let sv1 = retain_live sv in
      if sv_stop_requested sv1 then (ActStop, sv1)
      else case best_expired now (sv_timers sv1) of
        Some (i, _) \<Rightarrow>
          (let e = sv_timers sv1 ! i in
           case advance_on_expiry (se_state e) now of
             (True, t) \<Rightarrow>
               (case se_callback e of
                  None \<Rightarrow> (ActPanic, sv1)
                | Some cb \<Rightarrow>
                    (ActDispatch (se_id e) cb,
                     sv1\<lparr>sv_timers := (sv_timers sv1)[i := e\<lparr>se_state := t, se_callback := None\<rparr>]\<rparr>))
           | (False, t) \<Rightarrow>
               (ActRescan, sv1\<lparr>sv_timers := (sv_timers sv1)[i := e\<lparr>se_state := t\<rparr>]\<rparr>))
      | None \<Rightarrow>
          (case earliest_deadline (sv_timers sv1) of
             Some d \<Rightarrow> (ActWaitUntil d, sv1)
           | None \<Rightarrow> (ActWaitForever, sv1)))"

section \<open>The worker's waits\<close>

text \<open>\<open>None\<close> is a wait that never returns.\<close>

partial_function (option) wait_until_deadline ::
  "'k kernel \<Rightarrow> (u64 \<Rightarrow> 'k \<Rightarrow> take_status \<times> 'k) \<Rightarrow> duration \<Rightarrow> 'k \<Rightarrow> (unit res \<times> 'k) option" where
  "wait_until_deadline K tk deadline k =
     (case freertos_now K k of
        Ok now \<Rightarrow>
          if now \<ge> deadline then Some (Ok (), k)
          else
            (case kn_caps K of
               None \<Rightarrow> Some (Panic ''capabilities missing'', k)
             | Some caps \<Rightarrow>
                 let room = unat (kn_max_finite K) - 1;
                     chunk = (case duration_to_ticks_ceil (dur_saturating_sub deadline now)
                                     (cap_tick_rate_hz caps) of
                                Ok t \<Rightarrow> if t = 0 then 0 else min t room
                              | Err e \<Rightarrow> if e = Overflow then room else 0
                              | Panic _ \<Rightarrow> 0);
                     wait_ticks = min (min (chunk + 1) u128_max) u64_max
                 in case tk (word_of_nat wait_ticks) k of
                      (TakeAcquired, k1) \<Rightarrow> Some (Ok (), k1)
                    | (TakeTimeout, k1) \<Rightarrow> wait_until_deadline K tk deadline k1
                    | (TakeInvalid, k1) \<Rightarrow> Some (Panic ''wake sem invalid'', k1))
      | Err e \<Rightarrow> Some (Err e, k)
      | Panic m \<Rightarrow> Some (Panic m, k))"

section \<open>Operations and interleavings\<close>

datatype 'cb worker_pc =
    WScan
  | WCall nat 'cb
  | WRestore nat 'cb
  | WSleep "duration option"
  | WDone
  | WPanic

record 'cb timer_world =
  tw_state :: "'cb service_state"
  tw_token :: bool
  tw_worker :: "'cb worker_pc"
  tw_completed :: bool
  tw_now :: duration

text \<open>One iteration of \<open>run\<close>, split where the mutex is released.\<close>

inductive worker_step :: "'cb timer_world \<Rightarrow> 'cb timer_world \<Rightarrow> bool" where
  scan_dispatch: "worker_step w (w\<lparr>tw_state := sv, tw_worker := WCall tid cb\<rparr>)"
  if "tw_worker w = WScan" "service_scan (tw_now w) (tw_state w) = (ActDispatch tid cb, sv)"
| scan_until: "worker_step w (w\<lparr>tw_state := sv, tw_worker := WSleep (Some d)\<rparr>)"
  if "tw_worker w = WScan" "service_scan (tw_now w) (tw_state w) = (ActWaitUntil d, sv)"
| scan_forever: "worker_step w (w\<lparr>tw_state := sv, tw_worker := WSleep None\<rparr>)"
  if "tw_worker w = WScan" "service_scan (tw_now w) (tw_state w) = (ActWaitForever, sv)"
| scan_again: "worker_step w (w\<lparr>tw_state := sv\<rparr>)"
  if "tw_worker w = WScan" "service_scan (tw_now w) (tw_state w) = (ActRescan, sv)"
| scan_stop: "worker_step w (w\<lparr>tw_state := sv, tw_worker := WDone, tw_completed := True\<rparr>)"
  if "tw_worker w = WScan" "service_scan (tw_now w) (tw_state w) = (ActStop, sv)"
| scan_panic: "worker_step w (w\<lparr>tw_state := sv, tw_worker := WPanic\<rparr>)"
  if "tw_worker w = WScan" "service_scan (tw_now w) (tw_state w) = (ActPanic, sv)"
| call: "worker_step w (w\<lparr>tw_worker := WRestore tid cb\<rparr>)"
  if "tw_worker w = WCall tid cb"
| restore: "worker_step w (w\<lparr>tw_state := snd (restore_service_callback tid cb (tw_state w)), tw_worker := WScan\<rparr>)"
  if "tw_worker w = WRestore tid cb"
| wake_token: "worker_step w (w\<lparr>tw_token := False, tw_worker := WScan\<rparr>)"
  if "tw_worker w = WSleep D" "tw_token w"
| wake_deadline: "worker_step w (w\<lparr>tw_worker := WScan\<rparr>)"
  if "tw_worker w = WSleep (Some d)" "d \<le> tw_now w"

inductive timer_step :: "'cb timer_world \<Rightarrow> 'cb timer_world \<Rightarrow> bool" where
  time: "timer_step w (w\<lparr>tw_now := now'\<rparr>)"
  if "tw_now w \<le> now'"
| client: "timer_step w (w\<lparr>tw_state := sv, tw_token := (tw_token w \<or> sig)\<rparr>)"
  if "service_op (tw_now w) tmop (tw_state w) = (sig, sv)"
| stop_refused: "timer_step w (w\<lparr>tw_state := sv\<rparr>)"
  if "request_stop (tw_state w) = (Err e, sv)"
| stop: "timer_step w (w\<lparr>tw_state := sv, tw_token := True\<rparr>)"
  if "request_stop (tw_state w) = (Ok (), sv)"
| worker: "timer_step w w'"
  if "worker_step w w'"

definition timer_world_init :: "duration \<Rightarrow> 'cb timer_world" where
  "timer_world_init now =
     \<lparr>tw_state = service_state_new, tw_token = False, tw_worker = WScan, tw_completed = False, tw_now = now\<rparr>"

section \<open>Invariant\<close>

fun in_flight :: "'cb worker_pc \<Rightarrow> nat option" where
  "in_flight (WCall tid cb) = Some tid"
| "in_flight (WRestore tid cb) = Some tid"
| "in_flight _ = None"

definition tw_inv :: "'cb timer_world \<Rightarrow> bool" where
  "tw_inv w =
     (sv_inv (tw_state w) \<and> callbacks_ok (in_flight (tw_worker w)) (tw_state w)
      \<and> tw_worker w \<noteq> WPanic \<and> tw_completed w = (tw_worker w = WDone)
      \<and> (\<forall>D. tw_worker w = WSleep D \<and> \<not> tw_token w \<longrightarrow> sleep_ok D (tw_state w))
      \<and> (tw_worker w = WDone \<longrightarrow> sv_stop_requested (tw_state w)))"

section \<open>The scan\<close>

text \<open>What a scan does on a registry whose live callbacks are all in place.\<close>

lemma service_scan_cases:
  assumes "callbacks_ok None sv" and "service_scan now sv = (act, sv')"
  shows "sv_stop_requested sv \<Longrightarrow> act = ActStop \<and> sv' = retain_live sv"
    and "\<not> sv_stop_requested sv \<Longrightarrow>
      (\<exists>i < length (sv_timers (retain_live sv)). \<exists>d cb t.
          let e = sv_timers (retain_live sv) ! i in
          ts_deadline (se_state e) = Some d \<and> d \<le> now \<and> se_callback e = Some cb
          \<and> advance_on_expiry (se_state e) now = (True, t) \<and> act = ActDispatch (se_id e) cb
          \<and> sv' = (retain_live sv)\<lparr>sv_timers :=
                (sv_timers (retain_live sv))[i := e\<lparr>se_state := t, se_callback := None\<rparr>]\<rparr>
          \<and> (\<forall>x\<in>set (sv_timers sv). \<forall>d'. \<not> se_deleted x \<and> ts_deadline (se_state x) = Some d' \<and> d' \<le> now
                \<longrightarrow> key_le (d, se_id e) (d', se_id x)))
      \<or> (\<exists>d. act = ActWaitUntil d \<and> sv' = retain_live sv \<and> sleep_ok (Some d) sv' \<and> now < d)
      \<or> act = ActWaitForever \<and> sv' = retain_live sv \<and> sleep_ok None sv'"
proof -
  let ?ts = "sv_timers (retain_live sv)"
  have live: "x \<in> set ?ts \<longleftrightarrow> x \<in> set (sv_timers sv) \<and> \<not> se_deleted x" for x
    by (auto simp: retain_live_def)
  have cb: "se_callback x \<noteq> None" if "x \<in> set ?ts" for x
    using that assms(1) live by (auto simp: callbacks_ok_def)
  have key: "expired_key now x = (case ts_deadline (se_state x) of None \<Rightarrow> None
      | Some d \<Rightarrow> if d \<le> now then Some (d, se_id x) else None)" if "x \<in> set ?ts" for x
    using that cb [OF that] live by (auto simp: expired_key_def)
  show "sv_stop_requested sv \<Longrightarrow> act = ActStop \<and> sv' = retain_live sv"
    using assms(2) by (simp add: service_scan_def retain_live_def)
  assume open_sv: "\<not> sv_stop_requested sv"
  then have open1: "\<not> sv_stop_requested (retain_live sv)" by (simp add: retain_live_def)
  show "(\<exists>i < length ?ts. \<exists>d cb t.
          let e = ?ts ! i in
          ts_deadline (se_state e) = Some d \<and> d \<le> now \<and> se_callback e = Some cb
          \<and> advance_on_expiry (se_state e) now = (True, t) \<and> act = ActDispatch (se_id e) cb
          \<and> sv' = (retain_live sv)\<lparr>sv_timers := ?ts[i := e\<lparr>se_state := t, se_callback := None\<rparr>]\<rparr>
          \<and> (\<forall>x\<in>set (sv_timers sv). \<forall>d'. \<not> se_deleted x \<and> ts_deadline (se_state x) = Some d' \<and> d' \<le> now
                \<longrightarrow> key_le (d, se_id e) (d', se_id x)))
      \<or> (\<exists>d. act = ActWaitUntil d \<and> sv' = retain_live sv \<and> sleep_ok (Some d) sv' \<and> now < d)
      \<or> act = ActWaitForever \<and> sv' = retain_live sv \<and> sleep_ok None sv'"
  proof (cases "best_expired now ?ts")
    case (Some a)
    obtain i k where b: "best_expired now ?ts = Some (i, k)" using Some by (cases a) auto
    note best = best_expired_Some [OF b]
    let ?e = "?ts ! i"
    have mem: "?e \<in> set ?ts" using best by simp
    obtain d where d: "ts_deadline (se_state ?e) = Some d" "d \<le> now" "k = (d, se_id ?e)"
      using best key [OF mem] by (auto split: option.splits if_splits)
    obtain c where c: "se_callback ?e = Some c" using cb [OF mem] by blast
    obtain t where t: "advance_on_expiry (se_state ?e) now = (True, t)"
      using d(1,2) by (auto simp: advance_on_expiry_def)
    have "act = ActDispatch (se_id ?e) c \<and> sv' = (retain_live sv)\<lparr>sv_timers :=
        ?ts[i := ?e\<lparr>se_state := t, se_callback := None\<rparr>]\<rparr>"
      using assms(2) open1 b c t by (simp add: service_scan_def Let_def)
    moreover have "key_le (d, se_id ?e) (d', se_id x)"
      if "x \<in> set (sv_timers sv)" "\<not> se_deleted x" "ts_deadline (se_state x) = Some d'" "d' \<le> now" for x d'
    proof -
      have "x \<in> set ?ts" using that live by blast
      then obtain j where "j < length ?ts" "?ts ! j = x" by (auto simp: in_set_conv_nth)
      then show ?thesis using best key [OF \<open>x \<in> set ?ts\<close>] that d(3) by auto
    qed
    ultimately show ?thesis using best d c t by (intro disjI1 exI [of _ i]) (auto simp: Let_def)
  next
    case None
    then have none: "\<forall>x\<in>set ?ts. expired_key now x = None" using best_expired_None by blast
    show ?thesis
    proof (cases "earliest_deadline ?ts")
      case None
      then have "\<forall>x\<in>set ?ts. ts_deadline (se_state x) = None"
        using earliest_deadline_le live by fastforce
      then show ?thesis using assms(2) open1 None \<open>best_expired now ?ts = None\<close>
        by (simp add: service_scan_def Let_def sleep_ok_def)
    next
      case (Some d)
      have "now < d"
        using earliest_deadline_in [OF Some] none key by (fastforce split: if_splits simp: not_le)
      moreover have "sleep_ok (Some d) (retain_live sv)"
        using earliest_deadline_le [of _ ?ts] Some open1
        unfolding sleep_ok_def by (fastforce split: option.splits)
      moreover have "act = ActWaitUntil d" "sv' = retain_live sv"
        using assms(2) open1 Some \<open>best_expired now ?ts = None\<close>
        by (simp_all add: service_scan_def Let_def)
      ultimately show ?thesis by blast
    qed
  qed
qed

section \<open>Reachable worlds\<close>

lemma scan_facts:
  assumes "sv_inv sv" and "callbacks_ok None sv" and "service_scan now sv = (act, sv')"
  shows "sv_inv sv'" and "sv_stop_requested sv' = sv_stop_requested sv" and "act \<noteq> ActPanic"
    and "callbacks_ok (case act of ActDispatch tid cb \<Rightarrow> Some tid | _ \<Rightarrow> None) sv'"
    and "act = ActStop \<Longrightarrow> sv_stop_requested sv"
    and "act = ActWaitUntil d \<Longrightarrow> sleep_ok (Some d) sv'" and "act = ActWaitForever \<Longrightarrow> sleep_ok None sv'"
proof -
  note inv1 = service_ops_inv(7) [OF assms(1)] and cb1 = retain_live_facts(1) [OF assms(2)]
  have flag: "sv_stop_requested (retain_live sv) = sv_stop_requested sv" by (simp add: retain_live_def)
  have "sv_inv sv' \<and> sv_stop_requested sv' = sv_stop_requested sv \<and> act \<noteq> ActPanic
    \<and> callbacks_ok (case act of ActDispatch tid cb \<Rightarrow> Some tid | _ \<Rightarrow> None) sv'
    \<and> (act = ActStop \<longrightarrow> sv_stop_requested sv)
    \<and> (\<forall>d. act = ActWaitUntil d \<longrightarrow> sleep_ok (Some d) sv') \<and> (act = ActWaitForever \<longrightarrow> sleep_ok None sv')"
  proof (cases "sv_stop_requested sv")
    case True
    then show ?thesis using service_scan_cases(1) [OF assms(2,3)] inv1 cb1 flag by simp
  next
    case False
    from service_scan_cases(2) [OF assms(2,3) False]
    consider (fire) i cb t where "i < length (sv_timers (retain_live sv))"
        "advance_on_expiry (se_state (sv_timers (retain_live sv) ! i)) now = (True, t)"
        "act = ActDispatch (se_id (sv_timers (retain_live sv) ! i)) cb"
        "sv' = (retain_live sv)\<lparr>sv_timers := (sv_timers (retain_live sv))
          [i := (sv_timers (retain_live sv) ! i)\<lparr>se_state := t, se_callback := None\<rparr>]\<rparr>"
      | (sleep) d where "act = ActWaitUntil d" "sv' = retain_live sv" "sleep_ok (Some d) sv'"
      | (forever) "act = ActWaitForever" "sv' = retain_live sv" "sleep_ok None sv'"
      unfolding Let_def by blast
    then show ?thesis
    proof cases
      case fire
      have "ts_inv (se_state (sv_timers (retain_live sv) ! i))"
        using inv1 fire(1) by (auto simp: sv_inv_def)
      then have "ts_inv t" using fire(2) ts_ops_inv(5) by blast
      then have "sv_inv sv'" using sv_inv_update [OF inv1 fire(1)] fire(4) by simp
      moreover have "callbacks_ok (Some (se_id (sv_timers (retain_live sv) ! i))) sv'"
        unfolding fire(4) by (rule update_callbacks_ok) (use cb1 callbacks_ok_mono in auto)
      ultimately show ?thesis using fire flag False by simp
    qed (use inv1 cb1 flag False in auto)
  qed
  then show "sv_inv sv'" "sv_stop_requested sv' = sv_stop_requested sv" "act \<noteq> ActPanic"
    "callbacks_ok (case act of ActDispatch tid cb \<Rightarrow> Some tid | _ \<Rightarrow> None) sv'"
    "act = ActStop \<Longrightarrow> sv_stop_requested sv"
    "act = ActWaitUntil d \<Longrightarrow> sleep_ok (Some d) sv'" "act = ActWaitForever \<Longrightarrow> sleep_ok None sv'" by auto
qed

lemma worker_step_inv:
  assumes "worker_step w w'" and "tw_inv w"
  shows "tw_inv w'"
  using assms
proof (induction rule: worker_step.induct)
  case (restore w tid cb)
  then have "sv_inv (tw_state w)" "callbacks_ok (Some tid) (tw_state w)" by (simp_all add: tw_inv_def)
  from restore_facts [OF this] show ?case using restore by (simp add: tw_inv_def)
qed (use scan_facts in \<open>fastforce simp: tw_inv_def\<close>)+

lemma timer_step_inv:
  assumes "timer_step w w'" and "tw_inv w"
  shows "tw_inv w'"
  using assms
proof (induction rule: timer_step.induct)
  case (client w tmop sig sv)
  then show ?case
    using service_op_inv [OF _ client(1)] service_op_callbacks [OF _ client(1)]
      service_op_stop [OF client(1)] service_op_quiet [of "tw_now w" tmop "tw_state w" sv]
    by (auto simp: tw_inv_def)
next
  case (stop_refused w e sv)
  then have "sv = retain_live (tw_state w)" by (auto simp: request_stop_def Let_def split: if_splits)
  then show ?case using stop_refused service_ops_inv(7) [of "tw_state w"]
    by (simp add: tw_inv_def retain_live_facts)
next
  case (stop w sv)
  then have "sv = (retain_live (tw_state w))\<lparr>sv_stop_requested := True\<rparr>"
    by (auto simp: request_stop_def Let_def split: if_splits)
  moreover have "sv_inv (x\<lparr>sv_stop_requested := True\<rparr>) = sv_inv x"
    "callbacks_ok fl (x\<lparr>sv_stop_requested := True\<rparr>) = callbacks_ok fl x" for x :: "'a service_state" and fl
    by (simp_all add: sv_inv_def callbacks_ok_def)
  ultimately show ?case using stop service_ops_inv(7) retain_live_facts(1) by (auto simp: tw_inv_def)
next
  case (worker w w')
  then show ?case by (rule worker_step_inv)
qed (simp add: tw_inv_def)

lemma timer_reach_inv:
  assumes "timer_step\<^sup>*\<^sup>* (timer_world_init now) w"
  shows "tw_inv w"
  using assms
proof (induction rule: rtranclp_induct)
  case base
  show ?case by (simp add: timer_world_init_def tw_inv_def service_state_new_def sv_inv_def callbacks_ok_def)
next
  case (step y z)
  then show ?case using timer_step_inv by blast
qed

section \<open>The worker's wait returns\<close>

context tick_kernel
begin

lemma wait_until_deadline_returns:
  assumes "invar k" and "deadline_ticks (cap_tick_rate_hz caps) d + unat (kn_max_finite K) < tick_horizon K"
  shows "\<exists>k'. wait_until_deadline K tk d k = Some (Ok (), k') \<and> invar k'"
  using assms(1)
proof (induction "deadline_ticks (cap_tick_rate_hz caps) d - kernel_ticks K k" arbitrary: k rule: less_induct)
  case less
  let ?hz = "cap_tick_rate_hz caps" and ?mx = "unat (kn_max_finite K)"
  define now where "now = of_nanos (tick_nanos (kernel_ticks K k) (unat ?hz))"
  have now: "freertos_now K k = Ok now" using now_value [OF less.prems] by (simp add: now_def)
  show ?case
  proof (cases "d \<le> now")
    case True
    then show ?thesis using now less.prems by (subst wait_until_deadline.simps) simp
  next
    case False
    define pt where "pt = (as_nanos (dur_saturating_sub d now) * unat ?hz + (nanos_per_sec - 1)) div nanos_per_sec"
    have ceil: "duration_to_ticks_ceil (dur_saturating_sub d now) ?hz = Ok pt"
      using duration_to_ticks_ceil_value [OF rate_nonzero(1)] by (simp add: pt_def)
    have "0 < as_nanos (dur_saturating_sub d now) * unat ?hz"
      using False rate_nonzero(2) by (simp add: duration_order not_le)
    then have "\<not> pt \<le> 0"
      unfolding pt_def by (subst ceil_div_le_iff) (simp_all add: nanos_per_sec_def)
    define p where "p = min pt (?mx - Suc 0)"
    have p: "1 \<le> p" "pt \<noteq> 0" "p \<le> ?mx - 1"
      using max_finite \<open>\<not> pt \<le> 0\<close> by (simp_all add: p_def)
    note nc = native_chunk [OF p(3)]
    have lt: "p + 1 < 2 ^ 64" using nc(3) unat_u64_less [of "kn_max_finite K"] by linarith
    have ticks: "min (min (Suc p) u128_max) u64_max = Suc p"
      using lt by (simp add: u128_max_def u64_max_def)
    have behind: "kernel_ticks K k < deadline_ticks ?hz d"
    proof (rule ccontr)
      assume "\<not> kernel_ticks K k < deadline_ticks ?hz d"
      then have "as_nanos d \<le> tick_nanos (kernel_ticks K k) (unat ?hz)"
        by (intro deadline_passed) simp
      then show False using False by (simp add: now_def duration_order)
    qed
    obtain s1 k1 where t1: "tk (word_of_nat (p + 1)) k = (s1, k1)" by (cases "tk (word_of_nat (p + 1)) k")
    have hor: "kernel_ticks K k + unat (word_of_nat (p + 1) :: u64) < tick_horizon K"
      unfolding nc(2) using nc(3) behind assms(2) by linarith
    have law1: "invar k1" "s1 \<noteq> TakeInvalid"
      "s1 = TakeTimeout \<Longrightarrow> kernel_ticks K k + p \<le> kernel_ticks K k1"
      using take_law [OF less.prems _ hor t1] nc(2,3) by simp_all
    have step: "wait_until_deadline K tk d k =
      (case s1 of TakeAcquired \<Rightarrow> Some (Ok (), k1)
       | TakeTimeout \<Rightarrow> wait_until_deadline K tk d k1
       | TakeInvalid \<Rightarrow> Some (Panic ''wake sem invalid'', k1))"
      using now False ceil p(2) caps_cached t1
      by (subst wait_until_deadline.simps) (simp add: Let_def ticks split: take_status.splits flip: p_def)
    show ?thesis
    proof (cases s1)
      case TakeTimeout
      have "deadline_ticks ?hz d - kernel_ticks K k1 < deadline_ticks ?hz d - kernel_ticks K k"
        using law1(3) [OF TakeTimeout] p(1) behind by linarith
      from less.hyps [OF this law1(1)] show ?thesis using step TakeTimeout by simp
    qed (use step law1 in simp_all)
  qed
qed

end

section \<open>Properties\<close>

text \<open>C15. The timer worker never oversleeps: in every reachable interleaving of timer operations,
  clock advances, stop requests and worker steps, if the worker sleeps while a registered
  timer's deadline has passed or a stop was requested, then its wake-up is enabled (a token
  is posted, or its own deadline has passed); and the worker never panics.\<close>

theorem freertos_timer_no_oversleep:
  assumes "timer_step\<^sup>*\<^sup>* (timer_world_init now) w"
  shows "tw_worker w \<noteq> WPanic
    \<and> (\<forall>D. tw_worker w = WSleep D
          \<and> (sv_stop_requested (tw_state w)
             \<or> (\<exists>e\<in>set (sv_timers (tw_state w)). \<not> se_deleted e \<and> ts_expired (tw_now w) (se_state e)))
         \<longrightarrow> (\<exists>w'. worker_step w w' \<and> tw_worker w' = WScan))"
proof -
  have inv: "tw_inv w" by (rule timer_reach_inv [OF assms])
  have "\<exists>w'. worker_step w w' \<and> tw_worker w' = WScan"
    if D: "tw_worker w = WSleep D"
      and c: "sv_stop_requested (tw_state w)
        \<or> (\<exists>e\<in>set (sv_timers (tw_state w)). \<not> se_deleted e \<and> ts_expired (tw_now w) (se_state e))" for D
  proof (cases "tw_token w")
    case True
    then show ?thesis using worker_step.wake_token [OF D True] by fastforce
  next
    case False
    then have "sleep_ok D (tw_state w)" using inv D by (simp add: tw_inv_def)
    then obtain d where "D = Some d" "d \<le> tw_now w"
      using c by (fastforce simp: sleep_ok_def ts_expired_def split: option.splits)
    then show ?thesis using worker_step.wake_deadline [of w d] D by fastforce
  qed
  then show ?thesis using inv by (simp add: tw_inv_def)
qed

text \<open>What the worker dispatches: when a scan of a reachable world dispatches a callback,
  it belongs to a registered, not deleted timer whose deadline has passed, and that timer has
  the least (deadline, id) among the expired ones; its state is advanced before the callback
  runs, so it is not expired again at that instant; the branch that scans again never
  happens.\<close>

theorem freertos_timer_dispatch_earliest:
  assumes "timer_step\<^sup>*\<^sup>* (timer_world_init now) w" and "tw_worker w = WScan"
    and "service_scan (tw_now w) (tw_state w) = (act, sv)"
  shows "act \<noteq> ActRescan
    \<and> (\<forall>tid cb. act = ActDispatch tid cb \<longrightarrow>
        (\<exists>e\<in>set (sv_timers (tw_state w)). \<exists>d. se_id e = tid \<and> se_callback e = Some cb \<and> \<not> se_deleted e
          \<and> ts_deadline (se_state e) = Some d \<and> d \<le> tw_now w
          \<and> (\<forall>x\<in>set (sv_timers (tw_state w)). \<forall>d'. \<not> se_deleted x
               \<and> ts_deadline (se_state x) = Some d' \<and> d' \<le> tw_now w \<longrightarrow> key_le (d, tid) (d', se_id x)))
        \<and> (\<forall>x\<in>set (sv_timers sv). se_id x = tid \<longrightarrow> \<not> ts_expired (tw_now w) (se_state x)))"
proof -
  have inv: "sv_inv (tw_state w)" "callbacks_ok None (tw_state w)"
    using timer_reach_inv [OF assms(1)] assms(2) by (simp_all add: tw_inv_def)
  let ?ts = "sv_timers (retain_live (tw_state w))"
  show ?thesis
  proof (cases "sv_stop_requested (tw_state w)")
    case True
    then show ?thesis using service_scan_cases(1) [OF inv(2) assms(3)] by simp
  next
    case False
    from service_scan_cases(2) [OF inv(2) assms(3) False]
    consider (fire) i d cb t where "i < length ?ts" "ts_deadline (se_state (?ts ! i)) = Some d" "d \<le> tw_now w"
        "se_callback (?ts ! i) = Some cb" "advance_on_expiry (se_state (?ts ! i)) (tw_now w) = (True, t)"
        "act = ActDispatch (se_id (?ts ! i)) cb"
        "sv = (retain_live (tw_state w))\<lparr>sv_timers := ?ts[i := (?ts ! i)\<lparr>se_state := t, se_callback := None\<rparr>]\<rparr>"
        "\<forall>x\<in>set (sv_timers (tw_state w)). \<forall>d'. \<not> se_deleted x \<and> ts_deadline (se_state x) = Some d'
           \<and> d' \<le> tw_now w \<longrightarrow> key_le (d, se_id (?ts ! i)) (d', se_id x)"
      | (other) "act \<noteq> ActRescan" "\<forall>tid cb. act \<noteq> ActDispatch tid cb"
      unfolding Let_def by blast
    then show ?thesis
    proof cases
      case fire
      have mem: "?ts ! i \<in> set (sv_timers (tw_state w))" "\<not> se_deleted (?ts ! i)"
        using nth_mem [OF fire(1)] by (auto simp: retain_live_def)
      have dist: "distinct (map se_id ?ts)"
        using service_ops_inv(7) [OF inv(1)] by (simp add: sv_inv_def)
      have after: "\<not> ts_expired (tw_now w) (se_state x)"
        if x: "x \<in> set (sv_timers sv)" "se_id x = se_id (?ts ! i)" for x
      proof -
        obtain j where j: "j < length ?ts" "x = ?ts[i := (?ts ! i)\<lparr>se_state := t, se_callback := None\<rparr>] ! j"
          using x(1) fire(7) by (auto simp: in_set_conv_nth)
        have "j = i"
          using nth_eq_iff_index_eq [OF dist, of j i] j x(2) fire(1) by (cases "j = i") simp_all
        then show ?thesis using j advance_not_expired [OF fire(5)] by simp
      qed
      show ?thesis using mem fire after by auto
    qed blast
  qed
qed

lemma stopping_scan_ends:
  assumes "tw_worker v = WScan" and "sv_stop_requested (tw_state v)"
  shows "\<exists>w'. worker_step v w' \<and> tw_worker w' = WDone \<and> tw_completed w'"
proof -
  have "service_scan (tw_now v) (tw_state v) = (ActStop, retain_live (tw_state v))"
    using assms(2) by (simp add: service_scan_def retain_live_def)
  from worker_step.scan_stop [OF assms(1) this] show ?thesis by fastforce
qed

lemma stopping_restore_scans:
  assumes "tw_worker u = WRestore tid cb" and "tw_inv u" and "sv_stop_requested (tw_state u)"
  shows "\<exists>v. worker_step u v \<and> tw_worker v = WScan \<and> sv_stop_requested (tw_state v)"
proof -
  have "sv_inv (tw_state u)" "callbacks_ok (Some tid) (tw_state u)" using assms by (simp_all add: tw_inv_def)
  from restore_facts(3) [OF this] show ?thesis using worker_step.restore [OF assms(1)] assms(3) by fastforce
qed

lemma stopping_sleep_token: "tw_worker w = WSleep D \<Longrightarrow> tw_inv w \<Longrightarrow> sv_stop_requested (tw_state w) \<Longrightarrow> tw_token w"
  by (auto simp: tw_inv_def sleep_ok_def)

text \<open>C16. Shutdown of the timer service completes: once a stop is requested, from every
  reachable world the worker alone reaches its end and sets the completion bit within three
  steps, whatever it was doing (asleep, scanning, in a callback that returns).\<close>

theorem freertos_timer_shutdown_completes:
  assumes "timer_step\<^sup>*\<^sup>* (timer_world_init now) w" and "sv_stop_requested (tw_state w)"
  shows "\<exists>n\<le>3. \<exists>w'. (worker_step ^^ n) w w' \<and> tw_worker w' = WDone \<and> tw_completed w'"
proof -
  have inv: "tw_inv w" by (rule timer_reach_inv [OF assms(1)])
  show ?thesis
  proof (cases "tw_worker w")
    case WScan
    then obtain w' where "worker_step w w'" "tw_worker w' = WDone" "tw_completed w'"
      using stopping_scan_ends assms(2) by blast
    then show ?thesis by (intro exI [of _ 1]) auto
  next
    case (WCall tid cb)
    let ?u = "w\<lparr>tw_worker := WRestore tid cb\<rparr>"
    have u: "worker_step w ?u" by (rule worker_step.call [OF WCall])
    then obtain v where v: "worker_step ?u v" "tw_worker v = WScan" "sv_stop_requested (tw_state v)"
      using stopping_restore_scans [of ?u tid cb] worker_step_inv [OF u inv] assms(2) by auto
    then obtain w' where "worker_step v w'" "tw_worker w' = WDone" "tw_completed w'" using stopping_scan_ends by blast
    then show ?thesis using u v(1) by (intro exI [of _ 3]) (auto simp: numeral_3_eq_3 OO_def)
  next
    case (WRestore tid cb)
    then obtain v where v: "worker_step w v" "tw_worker v = WScan" "sv_stop_requested (tw_state v)"
      using stopping_restore_scans [of w tid cb] inv assms(2) by blast
    then obtain w' where "worker_step v w'" "tw_worker w' = WDone" "tw_completed w'" using stopping_scan_ends by blast
    then show ?thesis using v(1) by (intro exI [of _ 2]) (auto simp: numeral_2_eq_2 OO_def)
  next
    case (WSleep D)
    let ?v = "w\<lparr>tw_token := False, tw_worker := WScan\<rparr>"
    have v: "worker_step w ?v" by (rule worker_step.wake_token [OF WSleep stopping_sleep_token [OF WSleep inv assms(2)]])
    obtain w' where "worker_step ?v w'" "tw_worker w' = WDone" "tw_completed w'"
      using stopping_scan_ends [of ?v] assms(2) by auto
    then show ?thesis using v by (intro exI [of _ 2]) (auto simp: numeral_2_eq_2 OO_def)
  next
    case WDone
    then show ?thesis using inv by (intro exI [of _ 0]) (auto simp: tw_inv_def)
  next
    case WPanic
    then show ?thesis using inv by (simp add: tw_inv_def)
  qed
qed

text \<open>The worker scans the empty registry and sleeps; a client registers a one-shot timer of
  5 ns and starts it at time 10; the clock moves to 20; the worker wakes.\<close>

definition demo_timer :: "timer_state \<Rightarrow> nat service_state" where
  "demo_timer t = \<lparr>sv_timers = [\<lparr>se_id = 1, se_state = t, se_callback = Some 7, se_deleted = False\<rparr>],
     sv_next_id = 2, sv_stop_requested = False\<rparr>"

definition demo_started :: timer_state where
  "demo_started = \<lparr>ts_mode = OneShot, ts_period = of_nanos 5, ts_deadline = Some (of_nanos 15)\<rparr>"

definition demo_asleep :: "nat timer_world" where
  "demo_asleep = \<lparr>tw_state = demo_timer demo_started, tw_token = True, tw_worker = WSleep None,
     tw_completed = False, tw_now = of_nanos 20\<rparr>"

lemma demo_asleep_reachable: "timer_step\<^sup>*\<^sup>* (timer_world_init (of_nanos 10)) demo_asleep"
proof -
  let ?t0 = "\<lparr>ts_mode = OneShot, ts_period = of_nanos 5, ts_deadline = None\<rparr>"
  let ?w0 = "timer_world_init (of_nanos 10) :: nat timer_world"
  let ?w1 = "?w0\<lparr>tw_state := service_state_new, tw_worker := WSleep None\<rparr>"
  let ?w2 = "?w1\<lparr>tw_state := demo_timer ?t0, tw_token := (tw_token ?w1 \<or> True)\<rparr>"
  let ?w3 = "?w2\<lparr>tw_state := demo_timer demo_started, tw_token := (tw_token ?w2 \<or> True)\<rparr>"
  have dl: "(10 :: nat) < duration_limit" "(15 :: nat) < duration_limit" "(5 :: nat) < duration_limit"
    "(20 :: nat) < duration_limit" by (simp_all add: duration_limit_eq)
  have "service_scan (tw_now ?w0) (tw_state ?w0) = (ActWaitForever, service_state_new)"
    by (simp add: service_scan_def timer_world_init_def service_state_new_def retain_live_def)
  then have s1: "timer_step ?w0 ?w1"
    by (intro timer_step.worker worker_step.scan_forever) (simp_all add: timer_world_init_def)
  have "service_op (tw_now ?w1) (OpRegister True (of_nanos 5) OneShot 7) (tw_state ?w1) = (True, demo_timer ?t0)"
    by (simp add: service_register_def ts_new_def duration_zero_def of_nanos_eq_iff dl service_state_new_def
      checked_add_def u64_max_def demo_timer_def Let_def duration_limit_eq)
  then have s2: "timer_step ?w1 ?w2" by (rule timer_step.client)
  have "service_op (tw_now ?w2) (OpStart 1) (tw_state ?w2) = (True, demo_timer demo_started)"
    by (simp add: service_start_def on_entry_def demo_timer_def with_timer_def ts_start_def
      checked_deadline_cases demo_started_def timer_world_init_def dl)
  then have s3: "timer_step ?w2 ?w3" by (rule timer_step.client)
  have "timer_step ?w3 (?w3\<lparr>tw_now := of_nanos 20\<rparr>)"
    by (rule timer_step.time) (simp add: timer_world_init_def duration_order dl)
  moreover have "?w3\<lparr>tw_now := of_nanos 20\<rparr> = demo_asleep"
    by (simp add: demo_asleep_def timer_world_init_def)
  ultimately have s4: "timer_step ?w3 demo_asleep" by simp
  show ?thesis
    by (rule converse_rtranclp_into_rtranclp [OF s1 converse_rtranclp_into_rtranclp [OF s2
      converse_rtranclp_into_rtranclp [OF s3 r_into_rtranclp [of timer_step, OF s4]]]])
qed

theorem freertos_timer_no_oversleep_witness:
  "\<exists>w'. worker_step demo_asleep w' \<and> tw_worker w' = WScan"
proof -
  have "ts_expired (of_nanos 20) demo_started"
    by (simp add: ts_expired_def demo_started_def duration_order duration_limit_eq)
  then show ?thesis
    using freertos_timer_no_oversleep [OF demo_asleep_reachable]
    by (simp add: demo_asleep_def demo_timer_def)
qed

definition demo_awake :: "nat timer_world" where
  "demo_awake = demo_asleep\<lparr>tw_token := False, tw_worker := WScan\<rparr>"

lemma demo_awake_reachable: "timer_step\<^sup>*\<^sup>* (timer_world_init (of_nanos 10)) demo_awake"
proof -
  have "timer_step demo_asleep demo_awake"
    unfolding demo_awake_def by (intro timer_step.worker worker_step.wake_token [of _ None])
      (simp_all add: demo_asleep_def)
  then show ?thesis using demo_asleep_reachable by (rule rtranclp.rtrancl_into_rtrancl [rotated])
qed

lemma demo_awake_scan:
  "\<exists>sv. service_scan (tw_now demo_awake) (tw_state demo_awake) = (ActDispatch 1 7, sv)"
proof -
  have "of_nanos 15 \<le> of_nanos 20" by (simp add: duration_order duration_limit_eq)
  then show ?thesis
    by (simp add: service_scan_def demo_awake_def demo_asleep_def demo_timer_def demo_started_def
      retain_live_def expired_key_def advance_on_expiry_def Let_def)
qed

theorem freertos_timer_dispatch_earliest_witness:
  "\<exists>e\<in>set (sv_timers (tw_state demo_awake)). se_id e = 1 \<and> ts_deadline (se_state e) = Some (of_nanos 15)"
proof -
  obtain sv where "service_scan (tw_now demo_awake) (tw_state demo_awake) = (ActDispatch 1 7, sv)"
    using demo_awake_scan by blast
  from freertos_timer_dispatch_earliest [OF demo_awake_reachable _ this]
  have "\<exists>e\<in>set (sv_timers (tw_state demo_awake)). se_id e = 1"
    by (auto simp: demo_awake_def)
  then show ?thesis by (simp add: demo_awake_def demo_asleep_def demo_timer_def demo_started_def)
qed

text \<open>A stop is requested while the worker sleeps on the empty registry.\<close>

definition demo_stop :: "nat timer_world" where
  "demo_stop = \<lparr>tw_state = service_state_new\<lparr>sv_stop_requested := True\<rparr>, tw_token = True,
     tw_worker = WScan, tw_completed = False, tw_now = of_nanos 10\<rparr>"

lemma demo_stop_reachable: "timer_step\<^sup>*\<^sup>* (timer_world_init (of_nanos 10)) demo_stop"
proof -
  let ?w0 = "timer_world_init (of_nanos 10) :: nat timer_world"
  have "request_stop (tw_state ?w0) = (Ok (), service_state_new\<lparr>sv_stop_requested := True\<rparr>)"
    by (simp add: request_stop_def timer_world_init_def service_state_new_def retain_live_def)
  from timer_step.stop [OF this] show ?thesis by (simp add: demo_stop_def timer_world_init_def)
qed

theorem freertos_timer_shutdown_completes_witness:
  "\<exists>n\<le>3. \<exists>w'. (worker_step ^^ n) demo_stop w' \<and> tw_worker w' = WDone \<and> tw_completed w'"
  by (rule freertos_timer_shutdown_completes [OF demo_stop_reachable]) (simp add: demo_stop_def)

end
