(* ===== verification/Freertos_Runtime.thy ===== *)
theory Freertos_Runtime
  imports Freertos_Queue Freertos_Timer Runtime_Lifecycle Object_Interface
begin

text \<open>
  src/crates/osal-backend-freertos/src/runtime.rs and the object constructors of semaphore.rs,
  mutex.rs, queue.rs, task.rs and timer.rs, with the timer service's control slot
  (timer_control.rs) and life cycle (timer_service.rs). The process-wide state is one record;
  the native object calls of the sys crate are arguments, collected in a record, on an
  abstract kernel state \<open>'k\<close>; native handles are numbers.
\<close>

section \<open>Native object calls\<close>

record 'k native =
  nv_mutex_create :: "'k \<Rightarrow> nat option \<times> 'k"
  nv_mutex_delete :: "nat \<Rightarrow> 'k \<Rightarrow> 'k"
  nv_counting_create :: "u32 \<Rightarrow> u32 \<Rightarrow> 'k \<Rightarrow> nat option \<times> 'k"
  nv_binary_create :: "'k \<Rightarrow> nat option \<times> 'k"
  nv_sem_delete :: "nat \<Rightarrow> 'k \<Rightarrow> 'k"
  nv_event_create :: "'k \<Rightarrow> nat option \<times> 'k"
  nv_event_delete :: "nat \<Rightarrow> 'k \<Rightarrow> 'k"
  nv_task_create :: "u8 list \<Rightarrow> u32 \<Rightarrow> u32 \<Rightarrow> 'k \<Rightarrow> task_create_status \<times> 'k"
  nv_internal_task_create :: "u32 \<Rightarrow> u32 \<Rightarrow> 'k \<Rightarrow> nat option \<times> 'k"
  nv_max_semaphore_count :: u64
  nv_capabilities :: capabilities
  nv_scheduler :: "'k \<Rightarrow> scheduler_state"

section \<open>Timer service slot\<close>

record 'cb timer_service =
  sv_registry_mutex :: nat
  sv_wake_sem :: nat
  sv_completion_eg :: nat
  sv_locked :: bool
  sv_state :: "'cb service_state"

datatype 'cb service_slot =
    SlotStopped
  | SlotRunning "'cb timer_service" "nat option"
  | SlotStopping "'cb timer_service"

record ('k, 'cb) rtos_world =
  rw_lifecycle :: usize
  rw_caps :: "capabilities option"
  rw_slot :: "'cb service_slot"
  rw_native :: 'k
  rw_next_handle :: usize

definition rtos_world_initial :: "'k \<Rightarrow> ('k, 'cb) rtos_world" where
  "rtos_world_initial k = \<lparr>rw_lifecycle = lifecycle_new, rw_caps = None, rw_slot = SlotStopped,
     rw_native = k, rw_next_handle = 1\<rparr>"

definition on_native :: "('k \<Rightarrow> 'a \<times> 'k) \<Rightarrow> ('k, 'cb) rtos_world \<Rightarrow> 'a \<times> ('k, 'cb) rtos_world" where
  "on_native f w = (case f (rw_native w) of (x, k) \<Rightarrow> (x, w\<lparr>rw_native := k\<rparr>))"

definition set_native :: "('k \<Rightarrow> 'k) \<Rightarrow> ('k, 'cb) rtos_world \<Rightarrow> ('k, 'cb) rtos_world" where
  "set_native f w = w\<lparr>rw_native := f (rw_native w)\<rparr>"

section \<open>Timer service life cycle (timer_service.rs)\<close>

definition timer_service_new :: "'k native \<Rightarrow> 'k \<Rightarrow> 'cb timer_service res \<times> 'k" where
  "timer_service_new N k =
     (case nv_mutex_create N k of
        (None, k1) \<Rightarrow> (Err OutOfMemory, k1)
      | (Some mtx, k1) \<Rightarrow>
          (case nv_binary_create N k1 of
             (None, k2) \<Rightarrow> (Err OutOfMemory, nv_mutex_delete N mtx k2)
           | (Some sem, k2) \<Rightarrow>
               (case nv_event_create N k2 of
                  (None, k3) \<Rightarrow> (Err OutOfMemory, nv_mutex_delete N mtx (nv_sem_delete N sem k3))
                | (Some eg, k3) \<Rightarrow>
                    (Ok \<lparr>sv_registry_mutex = mtx, sv_wake_sem = sem, sv_completion_eg = eg,
                         sv_locked = False, sv_state = service_state_new\<rparr>, k3))))"

definition timer_service_delete :: "'k native \<Rightarrow> 'cb timer_service \<Rightarrow> 'k \<Rightarrow> 'k" where
  "timer_service_delete N s k =
     nv_mutex_delete N (sv_registry_mutex s) (nv_sem_delete N (sv_wake_sem s)
       (nv_event_delete N (sv_completion_eg s) k))"

definition timer_service_initialize ::
  "'k native \<Rightarrow> ('k, 'cb) rtos_world \<Rightarrow> unit res \<times> ('k, 'cb) rtos_world" where
  "timer_service_initialize N w =
     (case rw_slot w of
        SlotStopped \<Rightarrow>
          st_bind (on_native (timer_service_new N) w) (\<lambda>s w1. (Ok (), w1\<lparr>rw_slot := SlotRunning s None\<rparr>))
      | SlotRunning _ _ \<Rightarrow> (Err AlreadyInitialized, w)
      | SlotStopping _ \<Rightarrow> (Err Busy, w))"

text \<open>Phase 2 of \<open>shutdown\<close>: the outcomes of the native waits for the completion bit.\<close>

fun await_completion :: "event_wait_status list \<Rightarrow> unit res option" where
  "await_completion [] = None"
| "await_completion (EventOk # ws) = Some (Ok ())"
| "await_completion (EventTimeout # ws) = await_completion ws"
| "await_completion (EventInvalid # ws) =
     Some (Panic ''live timer completion EventGroup became invalid'')"

definition scheduler_preflight :: "scheduler_state \<Rightarrow> unit res" where
  "scheduler_preflight s =
     (case s of
        SchedRunning \<Rightarrow> Ok ()
      | SchedNotStarted \<Rightarrow> Err NotInitialized
      | SchedSuspended \<Rightarrow> Err Busy
      | SchedUnknown _ \<Rightarrow> Err (Internal ''unknown scheduler state''))"

text \<open>\<open>self\<close> says whether the caller is the worker; \<open>ws\<close> are the native wait outcomes.
  \<open>None\<close> is a shutdown that has not returned.\<close>

definition timer_service_shutdown ::
  "'k native \<Rightarrow> bool \<Rightarrow> event_wait_status list \<Rightarrow> ('k, 'cb) rtos_world
    \<Rightarrow> (unit res \<times> ('k, 'cb) rtos_world) option" where
  "timer_service_shutdown N self ws w =
     (case rw_slot w of
        SlotStopped \<Rightarrow> Some (Err NotInitialized, w)
      | SlotStopping _ \<Rightarrow> Some (Err Busy, w)
      | SlotRunning s worker \<Rightarrow>
          (case (if worker = None then Ok () else scheduler_preflight (nv_scheduler N (rw_native w))) of
             Ok _ \<Rightarrow>
               if worker \<noteq> None \<and> self then Some (Err Busy, w)
               else
                 (case request_stop (sv_state s) of
                    (Ok _, st) \<Rightarrow>
                      (let s1 = s\<lparr>sv_state := st\<rparr>; w1 = w\<lparr>rw_slot := SlotStopping s1\<rparr> in
                       case (if worker = None then Some (Ok ()) else await_completion ws) of
                         None \<Rightarrow> None
                       | Some (Ok _) \<Rightarrow>
                           Some (Ok (), (set_native (timer_service_delete N s1) w1)\<lparr>rw_slot := SlotStopped\<rparr>)
                       | Some r \<Rightarrow> Some (r, w1))
                  | (r, st) \<Rightarrow> Some (r, w\<lparr>rw_slot := SlotRunning (s\<lparr>sv_state := st\<rparr>) worker\<rparr>))
           | r \<Rightarrow> Some (r, w)))"

section \<open>Runtime (runtime.rs)\<close>

definition on_rtos_lifecycle ::
  "(usize \<Rightarrow> unit res \<times> usize) \<Rightarrow> ('k, 'cb) rtos_world \<Rightarrow> unit res \<times> ('k, 'cb) rtos_world" where
  "on_rtos_lifecycle f w = (let (r, x) = f (rw_lifecycle w) in (r, w\<lparr>rw_lifecycle := x\<rparr>))"

text \<open>An early return drops the transition guard, which rolls the state back.\<close>

definition freertos_initialize ::
  "'k native \<Rightarrow> ('k, 'cb) rtos_world \<Rightarrow> unit res \<times> ('k, 'cb) rtos_world" where
  "freertos_initialize N w =
     st_bind (on_rtos_lifecycle begin_initialize w) (\<lambda>_ w1.
       case timer_service_initialize N w1 of
         (Ok _, w2) \<Rightarrow> on_rtos_lifecycle initialize_commit (w2\<lparr>rw_caps := Some (nv_capabilities N)\<rparr>)
       | (r, w2) \<Rightarrow> st_bind (on_rtos_lifecycle initialize_drop w2) (\<lambda>_ w3. (r, w3)))"

definition freertos_shutdown ::
  "'k native \<Rightarrow> bool \<Rightarrow> event_wait_status list \<Rightarrow> ('k, 'cb) rtos_world
    \<Rightarrow> (unit res \<times> ('k, 'cb) rtos_world) option" where
  "freertos_shutdown N self ws w =
     (case on_rtos_lifecycle begin_shutdown w of
        (Ok _, w1) \<Rightarrow>
          (case timer_service_shutdown N self ws w1 of
             None \<Rightarrow> None
           | Some (Ok _, w2) \<Rightarrow> Some (on_rtos_lifecycle shutdown_commit (w2\<lparr>rw_caps := None\<rparr>))
           | Some (r, w2) \<Rightarrow> Some (st_bind (on_rtos_lifecycle shutdown_drop w2) (\<lambda>_ w3. (r, w3))))
      | (r, w1) \<Rightarrow> Some (r, w1))"

definition rtos_state :: "('k, 'cb) rtos_world \<Rightarrow> runtime_state" where
  "rtos_state w = decode_state (rw_lifecycle w)"

definition rtos_active_objects :: "('k, 'cb) rtos_world \<Rightarrow> usize" where
  "rtos_active_objects w = decode_count (rw_lifecycle w)"

definition rtos_acquire_object :: "('k, 'cb) rtos_world \<Rightarrow> unit res \<times> ('k, 'cb) rtos_world" where
  "rtos_acquire_object = on_rtos_lifecycle acquire"

definition rtos_lease_drop :: "('k, 'cb) rtos_world \<Rightarrow> unit res \<times> ('k, 'cb) rtos_world" where
  "rtos_lease_drop = on_rtos_lifecycle lease_drop"

text \<open>A constructor that holds a lease while it builds the rest: an early return drops it.\<close>

definition rtos_leased ::
  "(('k, 'cb) rtos_world \<Rightarrow> 'a res \<times> ('k, 'cb) rtos_world) \<Rightarrow> ('k, 'cb) rtos_world
    \<Rightarrow> 'a res \<times> ('k, 'cb) rtos_world" where
  "rtos_leased body w =
     st_bind (rtos_acquire_object w) (\<lambda>_ w1.
       case body w1 of
         (Err e, w2) \<Rightarrow> st_bind (rtos_lease_drop w2) (\<lambda>_ w3. (Err e, w3))
       | other \<Rightarrow> other)"

section \<open>Semaphores (semaphore.rs)\<close>

definition native_create ::
  "('k \<Rightarrow> nat option \<times> 'k) \<Rightarrow> ('k, 'cb) rtos_world \<Rightarrow> nat res \<times> ('k, 'cb) rtos_world" where
  "native_create f w = (case on_native f w of (h, w1) \<Rightarrow> (ok_or h OutOfMemory, w1))"

record rtos_semaphore =
  rsm_native :: nat
  rsm_max_count :: u32

definition rtos_semaphore_new ::
  "'k native \<Rightarrow> u32 \<Rightarrow> u32 \<Rightarrow> ('k, 'cb) rtos_world \<Rightarrow> rtos_semaphore res \<times> ('k, 'cb) rtos_world" where
  "rtos_semaphore_new N max_count initial_count w =
     (if max_count = 0 then (Err InvalidParameter, w)
      else if initial_count > max_count then (Err InvalidParameter, w)
      else if (ucast max_count :: u64) > nv_max_semaphore_count N then (Err InvalidParameter, w)
      else rtos_leased (\<lambda>w. st_bind (native_create (nv_counting_create N max_count initial_count) w)
             (\<lambda>h w. (Ok \<lparr>rsm_native = h, rsm_max_count = max_count\<rparr>, w))) w)"

definition rtos_binary_semaphore_new ::
  "'k native \<Rightarrow> ('k, 'cb) rtos_world \<Rightarrow> rtos_semaphore res \<times> ('k, 'cb) rtos_world" where
  "rtos_binary_semaphore_new N w =
     rtos_leased (\<lambda>w. st_bind (native_create (nv_binary_create N) w)
       (\<lambda>h w. (Ok \<lparr>rsm_native = h, rsm_max_count = 1\<rparr>, w))) w"

text \<open>The drop of the last handle deletes the native object and gives the lease back.\<close>

definition rtos_semaphore_drop ::
  "'k native \<Rightarrow> rtos_semaphore \<Rightarrow> ('k, 'cb) rtos_world \<Rightarrow> unit res \<times> ('k, 'cb) rtos_world" where
  "rtos_semaphore_drop N s w = rtos_lease_drop (set_native (nv_sem_delete N (rsm_native s)) w)"

text \<open>\<open>tk\<close> is the native take of this semaphore, \<open>gv\<close> its native give.\<close>

definition rtos_semaphore_acquire ::
  "'k kernel \<Rightarrow> (u64 \<Rightarrow> 'k \<Rightarrow> take_status \<times> 'k) \<Rightarrow> timeout \<Rightarrow> 'k \<Rightarrow> (unit res \<times> 'k) option" where
  "rtos_semaphore_acquire K tk t k =
     map_option (\<lambda>(r, k1).
       (res_bind r (\<lambda>outcome. case outcome of Acquired \<Rightarrow> Ok () | Unavailable \<Rightarrow> Err Timeout), k1))
       (wait_native K tk t k)"

definition rtos_semaphore_release :: "('k \<Rightarrow> give_status \<times> 'k) \<Rightarrow> 'k \<Rightarrow> unit res \<times> 'k" where
  "rtos_semaphore_release gv k =
     (case gv k of
        (GiveOk, k1) \<Rightarrow> (Ok (), k1)
      | (GiveFull, k1) \<Rightarrow> (Err Overflow, k1)
      | (GiveInvalid, k1) \<Rightarrow> (Panic ''FreeRTOS semaphore give returned Invalid on a live handle'', k1))"

section \<open>Mutexes (mutex.rs)\<close>

text \<open>The value sits behind a spin lock whose state is \<open>rmx_spin_locked\<close>.\<close>

record 'a rtos_mutex =
  rmx_native :: nat
  rmx_value :: 'a
  rmx_spin_locked :: bool

definition rtos_mutex_new ::
  "'k native \<Rightarrow> 'a \<Rightarrow> ('k, 'cb) rtos_world \<Rightarrow> 'a rtos_mutex res \<times> ('k, 'cb) rtos_world" where
  "rtos_mutex_new N v w =
     rtos_leased (\<lambda>w. st_bind (native_create (nv_mutex_create N) w)
       (\<lambda>h w. (Ok \<lparr>rmx_native = h, rmx_value = v, rmx_spin_locked = False\<rparr>, w))) w"

definition rtos_mutex_drop ::
  "'k native \<Rightarrow> 'a rtos_mutex \<Rightarrow> ('k, 'cb) rtos_world \<Rightarrow> unit res \<times> ('k, 'cb) rtos_world" where
  "rtos_mutex_drop N m w = rtos_lease_drop (set_native (nv_mutex_delete N (rmx_native m)) w)"

definition rtos_mutex_lock ::
  "'k kernel \<Rightarrow> (u64 \<Rightarrow> 'k \<Rightarrow> take_status \<times> 'k) \<Rightarrow> timeout \<Rightarrow> 'a rtos_mutex \<Rightarrow> 'k
    \<Rightarrow> (unit res \<times> 'a rtos_mutex \<times> 'k) option" where
  "rtos_mutex_lock K tk t m k =
     map_option (\<lambda>(r, k1).
       case r of
         Ok Acquired \<Rightarrow>
           if rmx_spin_locked m
           then (Panic ''FreeRTOS mutex invariant violated'', m, k1)
           else (Ok (), m\<lparr>rmx_spin_locked := True\<rparr>, k1)
       | Ok Unavailable \<Rightarrow> (Err (case t of NoWait \<Rightarrow> LockFailed | _ \<Rightarrow> Timeout), m, k1)
       | Err e \<Rightarrow> (Err e, m, k1)
       | Panic s \<Rightarrow> (Panic s, m, k1))
       (wait_native K tk t k)"

definition rtos_mutex_guard_drop ::
  "('k \<Rightarrow> give_status \<times> 'k) \<Rightarrow> 'a rtos_mutex \<Rightarrow> 'k \<Rightarrow> unit res \<times> 'a rtos_mutex \<times> 'k" where
  "rtos_mutex_guard_drop gv m k =
     (let m1 = m\<lparr>rmx_spin_locked := False\<rparr> in
      case gv k of
        (GiveOk, k1) \<Rightarrow> (Ok (), m1, k1)
      | (_, k1) \<Rightarrow> (Panic ''FreeRTOS mutex give failed after guard release'', m1, k1))"

section \<open>Queue construction (queue.rs)\<close>

record rtos_queue =
  rqu_mutex :: nat
  rqu_sender_wake :: nat
  rqu_receiver_wake :: nat
  rqu_buffer :: byte_queue

text \<open>The native objects are created under a guard whose drop deletes the ones made so far.\<close>

definition rtos_queue_natives ::
  "'k native \<Rightarrow> byte_queue \<Rightarrow> 'k \<Rightarrow> rtos_queue res \<times> 'k" where
  "rtos_queue_natives N buffer k =
     (let wake_max = ucast (min (nv_max_semaphore_count N) (2 ^ 32 - 1)) :: u32 in
      case nv_mutex_create N k of
        (None, k1) \<Rightarrow> (Err OutOfMemory, k1)
      | (Some mtx, k1) \<Rightarrow>
          (case nv_counting_create N wake_max 0 k1 of
             (None, k2) \<Rightarrow> (Err OutOfMemory, nv_mutex_delete N mtx k2)
           | (Some sw, k2) \<Rightarrow>
               (case nv_counting_create N wake_max 0 k2 of
                  (None, k3) \<Rightarrow> (Err OutOfMemory, nv_mutex_delete N mtx (nv_sem_delete N sw k3))
                | (Some rw, k3) \<Rightarrow>
                    (Ok \<lparr>rqu_mutex = mtx, rqu_sender_wake = sw, rqu_receiver_wake = rw,
                         rqu_buffer = buffer\<rparr>, k3))))"

definition rtos_queue_new ::
  "'k native \<Rightarrow> (nat \<Rightarrow> bool) \<Rightarrow> nat \<Rightarrow> nat \<Rightarrow> ('k, 'cb) rtos_world
    \<Rightarrow> rtos_queue res \<times> ('k, 'cb) rtos_world" where
  "rtos_queue_new N reserve capacity msg_size w =
     st_bind (validate_queue_capacity capacity, w) (\<lambda>_ w.
     st_bind (validate_queue_message_size msg_size, w) (\<lambda>_ w.
     st_bind (byte_queue_new reserve capacity msg_size, w) (\<lambda>buffer w.
       rtos_leased (on_native (rtos_queue_natives N buffer)) w)))"

definition rtos_queue_drop ::
  "'k native \<Rightarrow> rtos_queue \<Rightarrow> ('k, 'cb) rtos_world \<Rightarrow> unit res \<times> ('k, 'cb) rtos_world" where
  "rtos_queue_drop N q w =
     rtos_lease_drop (set_native (\<lambda>k. nv_mutex_delete N (rqu_mutex q)
       (nv_sem_delete N (rqu_sender_wake q) (nv_sem_delete N (rqu_receiver_wake q) k))) w)"

section \<open>Tasks (task.rs)\<close>

definition stack_bytes_to_words :: "nat \<Rightarrow> nat \<Rightarrow> nat \<Rightarrow> nat \<Rightarrow> nat res" where
  "stack_bytes_to_words bytes word_size minimal_words max_words =
     (if word_size = 0 then Err (Internal ''stack word size is zero'')
      else res_bind (ok_or (checked_add usize_max bytes (word_size - 1)) Overflow) (\<lambda>s.
        let words = max (s div word_size) minimal_words in
        if words > max_words then Err Overflow else Ok words))"

definition map_native_priority :: "priority \<Rightarrow> u32 \<Rightarrow> u32" where
  "map_native_priority requested max_priorities =
     (if max_priorities \<le> 1 then 0 else min requested (max_priorities - 1))"

definition rtos_allocate_task_handle :: "('k, 'cb) rtos_world \<Rightarrow> task_handle res \<times> ('k, 'cb) rtos_world" where
  "rtos_allocate_task_handle w =
     (if rw_next_handle w = - 1 then (Err Overflow, w)
      else let raw = rw_next_handle w; w' = w\<lparr>rw_next_handle := raw + 1\<rparr>
           in (ok_or (handle_from_raw raw) Overflow, w'))"

record rtos_task =
  rtk_handle :: task_handle
  rtk_priority :: priority
  rtk_event_group :: nat

record rtos_task_builder =
  rtb_name :: "u8 list"
  rtb_stack_size :: nat
  rtb_priority :: priority

definition rtos_task_builder_new :: rtos_task_builder where
  "rtos_task_builder_new = \<lparr>rtb_name = [], rtb_stack_size = 4096, rtb_priority = 1\<rparr>"

text \<open>The NUL-terminated name handed to the kernel; \<open>None\<close> is the panic of
  \<open>max_task_name_len - 1\<close> at zero.\<close>

definition native_task_name :: "u8 list \<Rightarrow> nat \<Rightarrow> u8 list option" where
  "native_task_name name max_len =
     (case checked_sub max_len 1 of
        None \<Rightarrow> None
      | Some l \<Rightarrow>
          let n = min (min (length name) l) 31
          in Some (take n name @ replicate (32 - n) 0))"

text \<open>Steps 5 to 9 of \<open>spawn\<close>, with the event group in hand.\<close>

definition rtos_task_start ::
  "'k native \<Rightarrow> rtos_task_builder \<Rightarrow> capabilities \<Rightarrow> nat \<Rightarrow> nat \<Rightarrow> ('k, 'cb) rtos_world
    \<Rightarrow> rtos_task res \<times> ('k, 'cb) rtos_world" where
  "rtos_task_start N b caps words eg w =
     st_bind (rtos_allocate_task_handle w) (\<lambda>h w.
       case native_task_name (rtb_name b) (unat (cap_max_task_name_len caps)) of
         None \<Rightarrow> (Panic ''attempt to subtract with overflow'', w)
       | Some name \<Rightarrow>
           (case on_native (nv_task_create N name (word_of_nat words)
                   (map_native_priority (rtb_priority b) (cap_max_priorities caps))) w of
              (TaskCreateOk, w) \<Rightarrow>
                (Ok \<lparr>rtk_handle = h, rtk_priority = rtb_priority b, rtk_event_group = eg\<rparr>, w)
            | (TaskCreateOutOfMemory, w) \<Rightarrow> (Err OutOfMemory, set_native (nv_event_delete N eg) w)
            | (TaskCreateInvalid, w) \<Rightarrow> (Err InvalidParameter, set_native (nv_event_delete N eg) w)))"

definition rtos_task_body ::
  "'k native \<Rightarrow> rtos_task_builder \<Rightarrow> ('k, 'cb) rtos_world \<Rightarrow> rtos_task res \<times> ('k, 'cb) rtos_world" where
  "rtos_task_body N b w =
     (case rw_caps w of
        None \<Rightarrow> (Panic ''spawn requires osal::initialize()'', w)
      | Some caps \<Rightarrow>
          st_bind (stack_bytes_to_words (rtb_stack_size b) (unat (cap_stack_word_size caps))
                     (unat (cap_minimal_stack_depth_words caps)) (unat (cap_max_stack_depth_words caps)), w)
            (\<lambda>words w. st_bind (native_create (nv_event_create N) w) (\<lambda>eg w.
               rtos_task_start N b caps words eg w)))"

definition rtos_task_spawn ::
  "'k native \<Rightarrow> rtos_task_builder \<Rightarrow> ('k, 'cb) rtos_world \<Rightarrow> rtos_task res \<times> ('k, 'cb) rtos_world" where
  "rtos_task_spawn N b w =
     st_bind (validate_task_config (rtb_name b) (rtb_stack_size b), w) (\<lambda>_ w.
       rtos_leased (rtos_task_body N b) w)"

text \<open>The last owner of the task's \<open>Arc\<close>s goes: a handle, or the trampoline at its \<open>drop(start)\<close>.\<close>

definition rtos_task_drop ::
  "'k native \<Rightarrow> rtos_task \<Rightarrow> ('k, 'cb) rtos_world \<Rightarrow> unit res \<times> ('k, 'cb) rtos_world" where
  "rtos_task_drop N t w = rtos_lease_drop (set_native (nv_event_delete N (rtk_event_group t)) w)"

section \<open>Objects\<close>

datatype rtos_ctor =
    CtorQueue nat nat
  | CtorSemaphore u32 u32
  | CtorBinarySemaphore
  | CtorMutex u32
  | CtorTask rtos_task_builder

datatype rtos_object =
    RtosQueue rtos_queue
  | RtosSemaphore rtos_semaphore
  | RtosMutex "u32 rtos_mutex"
  | RtosTask rtos_task

fun rtos_create ::
  "'k native \<Rightarrow> (nat \<Rightarrow> bool) \<Rightarrow> rtos_ctor \<Rightarrow> ('k, 'cb) rtos_world \<Rightarrow> rtos_object res \<times> ('k, 'cb) rtos_world" where
  "rtos_create N reserve (CtorQueue c m) w =
     st_bind (rtos_queue_new N reserve c m w) (\<lambda>q w. (Ok (RtosQueue q), w))"
| "rtos_create N reserve (CtorSemaphore m i) w =
     st_bind (rtos_semaphore_new N m i w) (\<lambda>s w. (Ok (RtosSemaphore s), w))"
| "rtos_create N reserve CtorBinarySemaphore w =
     st_bind (rtos_binary_semaphore_new N w) (\<lambda>s w. (Ok (RtosSemaphore s), w))"
| "rtos_create N reserve (CtorMutex v) w =
     st_bind (rtos_mutex_new N v w) (\<lambda>m w. (Ok (RtosMutex m), w))"
| "rtos_create N reserve (CtorTask b) w =
     st_bind (rtos_task_spawn N b w) (\<lambda>t w. (Ok (RtosTask t), w))"

fun rtos_destroy :: "'k native \<Rightarrow> rtos_object \<Rightarrow> ('k, 'cb) rtos_world \<Rightarrow> unit res \<times> ('k, 'cb) rtos_world" where
  "rtos_destroy N (RtosQueue q) w = rtos_queue_drop N q w"
| "rtos_destroy N (RtosSemaphore s) w = rtos_semaphore_drop N s w"
| "rtos_destroy N (RtosMutex m) w = rtos_mutex_drop N m w"
| "rtos_destroy N (RtosTask t) w = rtos_task_drop N t w"

text \<open>The trampoline of a spawned task owns the task's \<open>Arc\<close>s too, until its \<open>drop(start)\<close>.\<close>

fun rtos_spawns :: "rtos_object \<Rightarrow> bool" where
  "rtos_spawns (RtosTask t) = True"
| "rtos_spawns _ = False"

text \<open>The native objects an object owns.\<close>

datatype native_object = NativeMutex nat | NativeSem nat | NativeEvent nat

fun rtos_owned :: "rtos_object \<Rightarrow> native_object set" where
  "rtos_owned (RtosQueue q) =
     {NativeMutex (rqu_mutex q), NativeSem (rqu_sender_wake q), NativeSem (rqu_receiver_wake q)}"
| "rtos_owned (RtosSemaphore s) = {NativeSem (rsm_native s)}"
| "rtos_owned (RtosMutex m) = {NativeMutex (rmx_native m)}"
| "rtos_owned (RtosTask t) = {NativeEvent (rtk_event_group t)}"

section \<open>Leases\<close>

definition rtos_effect :: "'a res \<Rightarrow> ('k, 'cb) rtos_world \<Rightarrow> ('k, 'cb) rtos_world \<Rightarrow> bool" where
  "rtos_effect r w w' =
     (case r of
        Ok _ \<Rightarrow> rtos_state w = Running \<and> rtos_state w' = Running
          \<and> unat (rtos_active_objects w') = Suc (unat (rtos_active_objects w))
      | Err _ \<Rightarrow> rtos_state w' = rtos_state w \<and> rtos_active_objects w' = rtos_active_objects w
      | Panic _ \<Rightarrow> True)"

definition keeps_lifecycle :: "(('k, 'cb) rtos_world \<Rightarrow> 'a res \<times> ('k, 'cb) rtos_world) \<Rightarrow> bool" where
  "keeps_lifecycle body = (\<forall>w r w'. body w = (r, w') \<longrightarrow> rw_lifecycle w' = rw_lifecycle w)"

lemma keeps_lifecycleD: "keeps_lifecycle body \<Longrightarrow> body w = (r, w') \<Longrightarrow> rw_lifecycle w' = rw_lifecycle w"
  by (simp add: keeps_lifecycle_def)

lemma rtos_acquire_cases:
  assumes "rtos_acquire_object w = (r, w')"
  shows "\<not> is_panic r" and "rtos_effect r w w'" and "\<not> is_ok r \<Longrightarrow> w' = w"
    and "\<exists>x. w' = w\<lparr>rw_lifecycle := x\<rparr>"
proof -
  obtain x where a: "acquire (rw_lifecycle w) = (r, x)" and w': "w' = w\<lparr>rw_lifecycle := x\<rparr>"
    using assms by (auto simp: rtos_acquire_object_def on_rtos_lifecycle_def split: prod.splits)
  show "\<not> is_panic r" by (rule acquire_word(1) [OF a])
  show "rtos_effect r w w'"
    using acquire_word(2,3) [OF a]
    by (cases r) (simp_all add: rtos_effect_def w' rtos_state_def rtos_active_objects_def)
  show "\<not> is_ok r \<Longrightarrow> w' = w" using acquire_word(3) [OF a] by (simp add: w')
  show "\<exists>x. w' = w\<lparr>rw_lifecycle := x\<rparr>" using w' by blast
qed

lemma rtos_lease_drop_cases:
  assumes "rtos_state w = Running" and "0 < unat (rtos_active_objects w)"
  obtains w' where "rtos_lease_drop w = (Ok (), w')" "rtos_state w' = Running"
    "Suc (unat (rtos_active_objects w')) = unat (rtos_active_objects w)" "rw_native w' = rw_native w"
    "rw_next_handle w' = rw_next_handle w" "rw_slot w' = rw_slot w"
proof -
  obtain x where "lease_drop (rw_lifecycle w) = (Ok (), x)" "decode_state x = Running"
      "unat (decode_count (rw_lifecycle w)) = Suc (unat (decode_count x))"
    using lease_drop_word [of "rw_lifecycle w"] assms
    by (auto simp: rtos_state_def rtos_active_objects_def)
  then show ?thesis
    by (intro that [of "w\<lparr>rw_lifecycle := x\<rparr>"])
      (simp_all add: rtos_lease_drop_def on_rtos_lifecycle_def rtos_state_def rtos_active_objects_def)
qed

text \<open>The outcome of a leased constructor: what its body did, with the lease taken exactly on
  success.\<close>

lemma rtos_leased_cases:
  assumes "keeps_lifecycle body" and "rtos_leased body w = (r, w')"
  shows "rtos_effect r w w'"
    and "(\<exists>e. r = Err e \<and> w' = w)
      \<or> (\<exists>x w2. body (w\<lparr>rw_lifecycle := x\<rparr>) = (r, w2) \<and> rw_native w' = rw_native w2
        \<and> rw_next_handle w' = rw_next_handle w2 \<and> rw_slot w' = rw_slot w2)"
proof -
  obtain a w1 where a: "rtos_acquire_object w = (a, w1)" by (cases "rtos_acquire_object w")
  note A = rtos_acquire_cases [OF a]
  obtain x where x: "w1 = w\<lparr>rw_lifecycle := x\<rparr>" using A(4) by blast
  have "rtos_effect r w w' \<and> ((\<exists>e. r = Err e \<and> w' = w)
      \<or> (\<exists>x w2. body (w\<lparr>rw_lifecycle := x\<rparr>) = (r, w2) \<and> rw_native w' = rw_native w2
        \<and> rw_next_handle w' = rw_next_handle w2 \<and> rw_slot w' = rw_slot w2))"
  proof (cases a)
    case (Err e)
    then show ?thesis using a A(2,3) assms(2) by (auto simp: rtos_leased_def rtos_effect_def)
  next
    case (Panic s)
    then show ?thesis using A(1) by simp
  next
    case (Ok u)
    then have run: "rtos_state w = Running" "rtos_state w1 = Running"
        "unat (rtos_active_objects w1) = Suc (unat (rtos_active_objects w))"
      using A(2) by (simp_all add: rtos_effect_def)
    obtain b w2 where b: "body w1 = (b, w2)" by (cases "body w1")
    have lc: "rtos_state w2 = rtos_state w1" "rtos_active_objects w2 = rtos_active_objects w1"
      using keeps_lifecycleD [OF assms(1) b] by (simp_all add: rtos_state_def rtos_active_objects_def)
    show ?thesis
    proof (cases b)
      case (Err e)
      obtain w3 where w3: "rtos_lease_drop w2 = (Ok (), w3)" "rtos_state w3 = Running"
          "Suc (unat (rtos_active_objects w3)) = unat (rtos_active_objects w2)" "rw_native w3 = rw_native w2"
          "rw_next_handle w3 = rw_next_handle w2" "rw_slot w3 = rw_slot w2"
        using rtos_lease_drop_cases [of w2] run lc by (metis zero_less_Suc)
      then have "r = Err e" "w' = w3" using assms(2) a Ok b Err by (simp_all add: rtos_leased_def)
      moreover have "rtos_active_objects w3 = rtos_active_objects w"
        using w3(3) run(3) lc(2) by (simp add: word_unat_eq_iff)
      ultimately show ?thesis using w3 run b Err unfolding x by (auto simp: rtos_effect_def)
    next
      case okb: (Ok x)
      then have "r = Ok x" "w' = w2" using assms(2) a Ok b by (simp_all add: rtos_leased_def)
      then show ?thesis using run lc b okb unfolding x by (auto simp: rtos_effect_def)
    next
      case (Panic s)
      then have "r = Panic s" "w' = w2" using assms(2) a Ok b by (simp_all add: rtos_leased_def)
      then show ?thesis using b Panic unfolding x by (auto simp: rtos_effect_def)
    qed
  qed
  then show "rtos_effect r w w'" "(\<exists>e. r = Err e \<and> w' = w)
      \<or> (\<exists>x w2. body (w\<lparr>rw_lifecycle := x\<rparr>) = (r, w2) \<and> rw_native w' = rw_native w2
        \<and> rw_next_handle w' = rw_next_handle w2 \<and> rw_slot w' = rw_slot w2)" by auto
qed

lemma st_bind_lifecycle:
  assumes "rw_lifecycle (snd p) = l" and "\<And>x w. fst p = Ok x \<Longrightarrow> snd p = w \<Longrightarrow> rw_lifecycle (snd (f x w)) = l"
  shows "rw_lifecycle (snd (st_bind p f)) = l"
  using assms by (cases p; cases "fst p") auto

lemma keeps_lifecycleI: "(\<And>w. rw_lifecycle (snd (body w)) = rw_lifecycle w) \<Longrightarrow> keeps_lifecycle body"
  unfolding keeps_lifecycle_def by (metis snd_conv)

lemma native_lifecycle [simp]:
  "rw_lifecycle (snd (on_native f w)) = rw_lifecycle w"
  "rw_lifecycle (snd (native_create g w)) = rw_lifecycle w"
  "rw_lifecycle (set_native h w) = rw_lifecycle w"
  "rw_lifecycle (snd (rtos_allocate_task_handle w)) = rw_lifecycle w"
  by (simp_all add: on_native_def native_create_def set_native_def rtos_allocate_task_handle_def Let_def
    split: prod.splits)

lemma on_native_lifecycle: "on_native f w = (x, w') \<Longrightarrow> rw_lifecycle w' = rw_lifecycle w"
  using native_lifecycle(1) [of f w] by simp

lemma rtos_task_body_lifecycle: "keeps_lifecycle (rtos_task_body N b)"
proof (rule keeps_lifecycleI)
  fix w :: "('a, 'b) rtos_world"
  show "rw_lifecycle (snd (rtos_task_body N b w)) = rw_lifecycle w"
    unfolding rtos_task_body_def rtos_task_start_def Let_def
    by (auto split: option.splits prod.splits task_create_status.splits intro!: st_bind_lifecycle
      dest!: on_native_lifecycle)
qed

lemma create_body_lifecycle:
  "keeps_lifecycle (\<lambda>w. st_bind (native_create g w) (\<lambda>h w. (Ok (f h), w)))"
  "keeps_lifecycle (on_native h)"
  by (auto intro!: keeps_lifecycleI st_bind_lifecycle)

lemma rtos_effect_map:
  assumes "st_bind p (\<lambda>x w. (Ok (f x), w)) = (r, w')" and "rtos_effect (fst p) w (snd p)"
  shows "rtos_effect r w w'"
  using assms by (cases p; cases "fst p") (auto simp: rtos_effect_def)

lemma rtos_leased_effect:
  "keeps_lifecycle body \<Longrightarrow> rtos_effect (fst (rtos_leased body w)) w (snd (rtos_leased body w))"
  using rtos_leased_cases(1) by (metis prod.collapse)

lemma rtos_create_effect:
  assumes "rtos_create N reserve c w = (r, w')"
  shows "rtos_effect r w w'"
proof (cases c)
  case (CtorQueue n m)
  have "rtos_effect (fst (rtos_queue_new N reserve n m w)) w (snd (rtos_queue_new N reserve n m w))"
    using rtos_leased_effect [OF create_body_lifecycle(2)]
    by (cases "byte_queue_new reserve n m")
      (auto simp: rtos_queue_new_def validate_queue_capacity_def validate_queue_message_size_def
        rtos_effect_def [where r = "Err _"] rtos_effect_def [where r = "Panic _"])
  then show ?thesis using assms CtorQueue rtos_effect_map by fastforce
next
  case (CtorSemaphore m i)
  have "rtos_effect (fst (rtos_semaphore_new N m i w)) w (snd (rtos_semaphore_new N m i w))"
    using rtos_leased_effect [OF create_body_lifecycle(1)]
    by (auto simp: rtos_semaphore_new_def rtos_effect_def [where r = "Err _"])
  then show ?thesis using assms CtorSemaphore rtos_effect_map by fastforce
next
  case CtorBinarySemaphore
  have "rtos_effect (fst (rtos_binary_semaphore_new N w)) w (snd (rtos_binary_semaphore_new N w))"
    using rtos_leased_effect [OF create_body_lifecycle(1)] by (simp add: rtos_binary_semaphore_new_def)
  then show ?thesis using assms CtorBinarySemaphore rtos_effect_map by fastforce
next
  case (CtorMutex v)
  have "rtos_effect (fst (rtos_mutex_new N v w)) w (snd (rtos_mutex_new N v w))"
    using rtos_leased_effect [OF create_body_lifecycle(1)] by (simp add: rtos_mutex_new_def)
  then show ?thesis using assms CtorMutex rtos_effect_map by fastforce
next
  case (CtorTask b)
  have "rtos_effect (fst (rtos_task_spawn N b w)) w (snd (rtos_task_spawn N b w))"
    using rtos_leased_effect [OF rtos_task_body_lifecycle]
    by (cases "validate_task_config (rtb_name b) (rtb_stack_size b)")
      (auto simp: rtos_task_spawn_def rtos_effect_def [where r = "Err _"] rtos_effect_def [where r = "Panic _"])
  then show ?thesis using assms CtorTask rtos_effect_map by fastforce
qed

section \<open>The object interface is met\<close>

text \<open>A running service without timers and without a worker stops at once.\<close>

definition rtos_inv :: "('k, 'cb) rtos_world \<Rightarrow> bool" where
  "rtos_inv w = (lc_word_ok (rw_lifecycle w)
     \<and> (rtos_state w = Running \<longrightarrow>
          (\<exists>s. rw_slot w = SlotRunning s None \<and> sv_timers (sv_state s) = [])))"

definition rtos_shutdown_now :: "'k native \<Rightarrow> ('k, 'cb) rtos_world \<Rightarrow> unit res \<times> ('k, 'cb) rtos_world" where
  "rtos_shutdown_now N w =
     (case freertos_shutdown N False [] w of Some p \<Rightarrow> p | None \<Rightarrow> (Panic ''not returned'', w))"

lemma rtos_slot_kept:
  "rw_slot (snd (on_native f w)) = rw_slot w"
  "rw_slot (snd (on_rtos_lifecycle g w)) = rw_slot w"
  "rw_slot (set_native h w) = rw_slot w"
  by (simp_all add: on_native_def on_rtos_lifecycle_def set_native_def split: prod.splits)

lemma on_native_slot: "on_native f w = (x, w') \<Longrightarrow> rw_slot w' = rw_slot w"
  using rtos_slot_kept(1) [of f w] by simp

definition keeps_slot :: "(('k, 'cb) rtos_world \<Rightarrow> 'a res \<times> ('k, 'cb) rtos_world) \<Rightarrow> bool" where
  "keeps_slot body = (\<forall>w. rw_slot (snd (body w)) = rw_slot w)"

lemma st_bind_slot:
  assumes "rw_slot (snd p) = l" and "\<And>x w. fst p = Ok x \<Longrightarrow> snd p = w \<Longrightarrow> rw_slot (snd (f x w)) = l"
  shows "rw_slot (snd (st_bind p f)) = l"
  using assms by (cases p; cases "fst p") auto

lemma rtos_slot_more [simp]:
  "rw_slot (snd (native_create g w)) = rw_slot w" "rw_slot (snd (rtos_allocate_task_handle w)) = rw_slot w"
  "rw_slot (snd (rtos_lease_drop w)) = rw_slot w" "rw_slot (snd (rtos_acquire_object w)) = rw_slot w"
  by (auto simp: native_create_def rtos_allocate_task_handle_def rtos_lease_drop_def
    rtos_acquire_object_def rtos_slot_kept Let_def split: prod.splits dest: on_native_slot)

lemma rtos_leased_slot:
  assumes "keeps_slot body"
  shows "rw_slot (snd (rtos_leased body w)) = rw_slot w"
  unfolding rtos_leased_def
proof (rule st_bind_slot)
  fix x w1
  assume "snd (rtos_acquire_object w) = w1"
  then have w1: "rw_slot w1 = rw_slot w" using rtos_slot_more(4) by blast
  obtain r w2 where b: "body w1 = (r, w2)" by (cases "body w1")
  then have w2: "rw_slot w2 = rw_slot w" using assms w1 unfolding keeps_slot_def by (metis snd_conv)
  have "rw_slot (snd (st_bind (rtos_lease_drop w2) (\<lambda>_ w3. (Err e, w3)))) = rw_slot w" for e
    using w2 by (intro st_bind_slot) auto
  then show "rw_slot (snd (case body w1 of
       (Err e, w2) \<Rightarrow> st_bind (rtos_lease_drop w2) (\<lambda>_ w3. (Err e, w3)) | other \<Rightarrow> other)) = rw_slot w"
    using b w2 by (cases r) auto
qed simp

lemma bodies_keep_slot:
  "keeps_slot (rtos_task_body N b)"
  "keeps_slot (\<lambda>w. st_bind (native_create g w) (\<lambda>h w. (Ok (f h), w)))"
  "keeps_slot (on_native h)"
proof -
  show "keeps_slot (rtos_task_body N b)"
    unfolding keeps_slot_def rtos_task_body_def rtos_task_start_def Let_def
    by (auto split: option.splits prod.splits task_create_status.splits intro!: st_bind_slot
      dest!: on_native_slot simp: rtos_slot_kept)
qed (auto simp: keeps_slot_def rtos_slot_kept intro!: st_bind_slot)

lemma rtos_create_slot: "rw_slot (snd (rtos_create N reserve c w)) = rw_slot w"
  by (cases c) (auto simp: rtos_queue_new_def rtos_semaphore_new_def rtos_binary_semaphore_new_def
    rtos_mutex_new_def rtos_task_spawn_def rtos_leased_slot bodies_keep_slot intro!: st_bind_slot)

lemma rtos_destroy_eq:
  "\<exists>k. rtos_destroy N x w = rtos_lease_drop (w\<lparr>rw_native := k\<rparr>)"
  by (cases x) (auto simp: rtos_queue_drop_def rtos_semaphore_drop_def rtos_mutex_drop_def
    rtos_task_drop_def set_native_def)

lemma rtos_state_upd [simp]:
  "rtos_state (w\<lparr>rw_native := k\<rparr>) = rtos_state w" "rtos_state (w\<lparr>rw_slot := s\<rparr>) = rtos_state w"
  "rtos_state (w\<lparr>rw_caps := c\<rparr>) = rtos_state w"
  "rtos_active_objects (w\<lparr>rw_native := k\<rparr>) = rtos_active_objects w"
  "rtos_active_objects (w\<lparr>rw_slot := s\<rparr>) = rtos_active_objects w"
  "rtos_active_objects (w\<lparr>rw_caps := c\<rparr>) = rtos_active_objects w"
  by (simp_all add: rtos_state_def rtos_active_objects_def)

lemma rtos_shutdown_busy:
  assumes "rtos_inv w" and "0 < unat (rtos_active_objects w)"
  shows "rtos_state w = Running" and "rtos_shutdown_now N w = (Err Busy, w)"
proof -
  show run: "rtos_state w = Running"
    using assms by (auto simp: rtos_inv_def lc_word_ok_def rtos_state_def rtos_active_objects_def)
  obtain r x where b: "begin_shutdown (rw_lifecycle w) = (r, x)" by (cases "begin_shutdown (rw_lifecycle w)")
  have "r = Err Busy" "x = rw_lifecycle w"
    using begin_shutdown_word [OF b] run assms(2)
    by (simp_all add: rtos_state_def rtos_active_objects_def)
  then show "rtos_shutdown_now N w = (Err Busy, w)"
    using b by (simp add: rtos_shutdown_now_def freertos_shutdown_def on_rtos_lifecycle_def)
qed

lemma rtos_shutdown_empty:
  assumes "rtos_state w = Running" and "unat (rtos_active_objects w) = 0"
    and "rw_slot w = SlotRunning s None" and "sv_timers (sv_state s) = []"
  shows "\<exists>w'. freertos_shutdown N self ws w = Some (Ok (), w') \<and> rtos_state w' = Uninitialized
    \<and> unat (rtos_active_objects w') = 0 \<and> rw_slot w' = SlotStopped
    \<and> (\<exists>st. rw_native w' = timer_service_delete N (s\<lparr>sv_state := st\<rparr>) (rw_native w))"
proof -
  obtain r x where b: "begin_shutdown (rw_lifecycle w) = (r, x)" by (cases "begin_shutdown (rw_lifecycle w)")
  have r: "r = Ok ()" "decode_state x = ShuttingDown" "decode_count x = 0"
    using begin_shutdown_word [OF b] assms(1,2) by (simp_all add: rtos_state_def rtos_active_objects_def)
  obtain y where y: "shutdown_commit x = (Ok (), y)" "decode_state y = Uninitialized" "decode_count y = 0"
    using shutdown_word(1) [OF r(2,3)] by blast
  have "request_stop (sv_state s) = (Ok (), (retain_live (sv_state s))\<lparr>sv_stop_requested := True\<rparr>)"
    using assms(4) by (simp add: request_stop_def retain_live_def)
  then have "\<exists>w' st. freertos_shutdown N self ws w = Some (Ok (), w') \<and> rw_lifecycle w' = y
      \<and> rw_slot w' = SlotStopped
      \<and> rw_native w' = timer_service_delete N (s\<lparr>sv_state := st\<rparr>) (rw_native w)"
    using b r(1) y(1) assms(3)
    by (simp add: freertos_shutdown_def on_rtos_lifecycle_def timer_service_shutdown_def Let_def set_native_def)
      blast
  then show ?thesis using y by (auto simp: rtos_state_def rtos_active_objects_def)
qed

lemma rtos_shutdown_ok:
  assumes "rtos_inv w" and "unat (rtos_active_objects w) = 0" and "rtos_state w = Running"
  shows "\<exists>w'. rtos_shutdown_now N w = (Ok (), w') \<and> rtos_inv w' \<and> rtos_state w' \<noteq> Running
    \<and> unat (rtos_active_objects w') = 0"
proof -
  obtain s where s: "rw_slot w = SlotRunning s None" "sv_timers (sv_state s) = []"
    using assms by (auto simp: rtos_inv_def)
  obtain w' where "freertos_shutdown N False [] w = Some (Ok (), w')" "rtos_state w' = Uninitialized"
      "unat (rtos_active_objects w') = 0"
    using rtos_shutdown_empty [OF assms(3,2) s] by blast
  then show ?thesis
    by (auto simp: rtos_shutdown_now_def rtos_inv_def lc_word_ok_def rtos_state_def rtos_active_objects_def
      unsigned_eq_0_iff)
qed

text \<open>Initialisation from a stopped state: it runs exactly when the timer service gets its
  native objects, and rolls back otherwise.\<close>

lemma freertos_initialize_cases:
  assumes "rtos_state w = Uninitialized" and "lc_word_ok (rw_lifecycle w)" and "rw_slot w = SlotStopped"
    and "timer_service_new N (rw_native w) = (r, k')"
  shows "r = Ok s \<Longrightarrow> \<exists>w'. freertos_initialize N w = (Ok (), w') \<and> rtos_state w' = Running
      \<and> unat (rtos_active_objects w') = 0 \<and> rw_slot w' = SlotRunning s None \<and> rw_native w' = k'
      \<and> rw_caps w' = Some (nv_capabilities N) \<and> rw_next_handle w' = rw_next_handle w"
    and "r = Err e \<Longrightarrow> \<exists>w'. freertos_initialize N w = (Err e, w') \<and> rtos_state w' = Uninitialized
      \<and> unat (rtos_active_objects w') = 0 \<and> rw_slot w' = SlotStopped \<and> rw_native w' = k'
      \<and> rw_caps w' = rw_caps w"
proof -
  obtain x y z where x: "begin_initialize (rw_lifecycle w) = (Ok (), x)"
    "initialize_commit x = (Ok (), y)" "decode_state y = Running" "decode_count y = 0"
    "initialize_drop x = (Ok (), z)" "decode_state z = Uninitialized" "decode_count z = 0"
    using initialize_word [of "rw_lifecycle w"] assms(1,2) by (auto simp: rtos_state_def)
  note simps = freertos_initialize_def on_rtos_lifecycle_def timer_service_initialize_def on_native_def
    rtos_state_def rtos_active_objects_def
  show "r = Ok s \<Longrightarrow> \<exists>w'. freertos_initialize N w = (Ok (), w') \<and> rtos_state w' = Running
      \<and> unat (rtos_active_objects w') = 0 \<and> rw_slot w' = SlotRunning s None \<and> rw_native w' = k'
      \<and> rw_caps w' = Some (nv_capabilities N) \<and> rw_next_handle w' = rw_next_handle w"
    using x assms(3,4) by (simp add: simps)
  show "r = Err e \<Longrightarrow> \<exists>w'. freertos_initialize N w = (Err e, w') \<and> rtos_state w' = Uninitialized
      \<and> unat (rtos_active_objects w') = 0 \<and> rw_slot w' = SlotStopped \<and> rw_native w' = k'
      \<and> rw_caps w' = rw_caps w"
    using x assms(3,4) by (simp add: simps)
qed

lemma timer_service_new_state: "timer_service_new N k = (Ok s, k') \<Longrightarrow> sv_timers (sv_state s) = []"
  by (auto simp: timer_service_new_def service_state_new_def split: prod.splits option.splits)

lemma timer_service_new_no_panic: "timer_service_new N k \<noteq> (Panic e, k')"
  by (auto simp: timer_service_new_def split: prod.splits option.splits)

lemma rtos_inv_running:
  assumes "rtos_inv w" and "rtos_state w = Running" and "rtos_state w' = Running" and "rw_slot w' = rw_slot w"
  shows "rtos_inv w'"
  using assms by (simp add: rtos_inv_def lc_word_ok_def rtos_state_def)

interpretation rtos: leased_objects "rtos_create N reserve" "rtos_destroy N" "rtos_shutdown_now N"
  "\<lambda>w. unat (rtos_active_objects w)" "\<lambda>w. rtos_state w = Running" rtos_inv
  for N reserve
proof
  fix w w' :: "('a, 'b) rtos_world" and c x
  assume a: "rtos_inv w" "rtos_create N reserve c w = (Ok x, w')"
  have eff: "rtos_state w = Running" "rtos_state w' = Running"
      "unat (rtos_active_objects w') = Suc (unat (rtos_active_objects w))"
    using rtos_create_effect [OF a(2)] by (simp_all add: rtos_effect_def)
  have "rw_slot w' = rw_slot w" using rtos_create_slot [of N reserve c w] a(2) by simp
  then show "rtos_inv w' \<and> rtos_state w = Running \<and> rtos_state w' = Running
      \<and> unat (rtos_active_objects w') = Suc (unat (rtos_active_objects w))"
    using rtos_inv_running [OF a(1) eff(1,2)] eff by blast
next
  fix w w' :: "('a, 'b) rtos_world" and c e
  assume a: "rtos_inv w" "rtos_create N reserve c w = (Err e, w')"
  have "rw_slot w' = rw_slot w" using rtos_create_slot [of N reserve c w] a(2) by simp
  then show "rtos_inv w' \<and> (rtos_state w' = Running) = (rtos_state w = Running)
      \<and> unat (rtos_active_objects w') = unat (rtos_active_objects w)"
    using rtos_create_effect [OF a(2)] a(1)
    by (simp add: rtos_effect_def rtos_inv_def lc_word_ok_def rtos_state_def rtos_active_objects_def)
next
  fix w :: "('a, 'b) rtos_world" and x
  assume a: "rtos_inv w" "0 < unat (rtos_active_objects w)"
  obtain k where k: "rtos_destroy N x w = rtos_lease_drop (w\<lparr>rw_native := k\<rparr>)"
    using rtos_destroy_eq [of N x w] by (elim exE)
  have run: "rtos_state w = Running" by (rule rtos_shutdown_busy(1) [OF a])
  obtain w' where w': "rtos_lease_drop (w\<lparr>rw_native := k\<rparr>) = (Ok (), w')" "rtos_state w' = Running"
      "Suc (unat (rtos_active_objects w')) = unat (rtos_active_objects w)"
    using rtos_lease_drop_cases [of "w\<lparr>rw_native := k\<rparr>"] run a(2) by auto
  have "rw_slot w' = rw_slot w" using rtos_slot_more(3) [of "w\<lparr>rw_native := k\<rparr>"] w'(1) by simp
  then show "\<exists>w'. rtos_destroy N x w = (Ok (), w') \<and> rtos_inv w' \<and> rtos_state w' = Running
      \<and> Suc (unat (rtos_active_objects w')) = unat (rtos_active_objects w)"
    using k w' rtos_inv_running [OF a(1) run] by auto
next
  fix w :: "('a, 'b) rtos_world"
  assume a: "rtos_inv w"
  show "rtos_state w = Running" if "0 < unat (rtos_active_objects w)"
    using rtos_shutdown_busy(1) [OF a that] .
  show "rtos_shutdown_now N w = (Err Busy, w)" if "0 < unat (rtos_active_objects w)"
    using rtos_shutdown_busy(2) [OF a that] .
  show "\<exists>w'. rtos_shutdown_now N w = (Ok (), w') \<and> rtos_inv w' \<and> rtos_state w' \<noteq> Running
      \<and> unat (rtos_active_objects w') = 0" if "unat (rtos_active_objects w) = 0" "rtos_state w = Running"
    using rtos_shutdown_ok [OF a that] .
next
  fix w w' :: "('a, 'b) rtos_world" and c r
  assume "rtos_inv w" "rtos_state w \<noteq> Running" "rtos_create N reserve c w = (r, w')"
  then show "\<not> is_ok r"
    using rtos_create_effect [of N reserve c w r w'] by (cases r) (auto simp: rtos_effect_def)
qed

end
