(* ===== verification/Task_Fixture.thy ===== *)
theory Task_Fixture
  imports Freertos_Wait
begin

text \<open>
  src/crates/osal-backend-freertos-sys/src/task_fixture.rs: the host stand-in for event groups
  and tasks, next to the synchronisation objects of \<^theory_text>\<open>Freertos_Kernel\<close>. A started thread is
  represented by the id of its task; condition-variable waits are listed events, as in the
  synchronisation fixture.
\<close>

record fixture_event_group =
  fe_bits :: u32
  fe_deleted :: bool
  fe_waiters :: nat
  fe_blocked_count :: nat

record fixture_task =
  ft_running :: bool
  ft_started :: bool
  ft_deleted :: bool

record task_fixture =
  tf_event_groups :: "nat \<rightharpoonup> fixture_event_group"
  tf_tasks :: "nat \<rightharpoonup> fixture_task"
  tf_next_id :: nat
  tf_eg_create_count :: nat
  tf_eg_delete_count :: nat
  tf_task_create_count :: nat
  tf_pending_tasks :: "nat list"
  tf_scheduler_running :: bool
  tf_active_threads :: "nat list"
  tf_internal_tasks :: "nat list"
  tf_blocked_count :: nat
  tf_fail_next_eg_create :: bool
  tf_fail_next_task_create :: bool
  tf_fail_next_internal_task_create :: bool
  tf_last_stack_words :: u32
  tf_last_native_priority :: u32
  tf_last_internal_stack_words :: u32
  tf_last_internal_priority :: u32

definition task_fixture_initial :: task_fixture where
  "task_fixture_initial = \<lparr>tf_event_groups = Map.empty, tf_tasks = Map.empty, tf_next_id = 1,
     tf_eg_create_count = 0, tf_eg_delete_count = 0, tf_task_create_count = 0,
     tf_pending_tasks = [], tf_scheduler_running = True, tf_active_threads = [],
     tf_internal_tasks = [], tf_blocked_count = 0,
     tf_fail_next_eg_create = False, tf_fail_next_task_create = False,
     tf_fail_next_internal_task_create = False, tf_last_stack_words = 0,
     tf_last_native_priority = 0, tf_last_internal_stack_words = 0, tf_last_internal_priority = 0\<rparr>"

section \<open>Event groups\<close>

definition fixture_event_group_create :: "task_fixture \<Rightarrow> nat option \<times> task_fixture" where
  "fixture_event_group_create tf =
     (if tf_fail_next_eg_create tf then (None, tf\<lparr>tf_fail_next_eg_create := False\<rparr>)
      else let i = tf_next_id tf in
        (Some i, tf\<lparr>tf_next_id := i + 1, tf_eg_create_count := tf_eg_create_count tf + 1,
           tf_event_groups := (tf_event_groups tf)(i \<mapsto> \<lparr>fe_bits = 0, fe_deleted = False,
             fe_waiters = 0, fe_blocked_count = 0\<rparr>)\<rparr>))"

definition set_event_group :: "nat \<Rightarrow> fixture_event_group \<Rightarrow> task_fixture \<Rightarrow> task_fixture" where
  "set_event_group i e tf = tf\<lparr>tf_event_groups := (tf_event_groups tf)(i \<mapsto> e)\<rparr>"

text \<open>The status codes are \<open>EVENT_GROUP_OK\<close> = 0 and \<open>EVENT_GROUP_INVALID\<close> = 2.\<close>

definition fixture_event_group_set_bits ::
  "nat \<Rightarrow> u32 \<Rightarrow> task_fixture \<Rightarrow> (u32 \<times> task_fixture) res" where
  "fixture_event_group_set_bits i bits tf =
     (case tf_event_groups tf i of
        None \<Rightarrow> Panic ''event group not found''
      | Some e \<Rightarrow>
          if fe_deleted e then Ok (2, tf)
          else Ok (0, set_event_group i (e\<lparr>fe_bits := or (fe_bits e) bits\<rparr>) tf))"

definition bits_set :: "u32 \<Rightarrow> fixture_event_group \<Rightarrow> bool" where
  "bits_set bits e \<longleftrightarrow> and (fe_bits e) bits = bits"

definition fixture_event_group_delete :: "nat \<Rightarrow> task_fixture \<Rightarrow> unit res \<times> task_fixture" where
  "fixture_event_group_delete i tf =
     (let tf1 = tf\<lparr>tf_eg_delete_count := tf_eg_delete_count tf + 1\<rparr> in
      case tf_event_groups tf1 i of
        Some e \<Rightarrow>
          if fe_deleted e then (Panic ''event group already deleted'', tf1)
          else (Ok (), tf1\<lparr>tf_event_groups := (tf_event_groups tf1)(i := None)\<rparr>)
      | None \<Rightarrow> (Ok (), tf1\<lparr>tf_event_groups := (tf_event_groups tf1)(i := None)\<rparr>))"

section \<open>Tasks\<close>

definition fixture_task_create ::
  "u32 \<Rightarrow> u32 \<Rightarrow> task_fixture \<Rightarrow> task_create_status \<times> task_fixture" where
  "fixture_task_create stack_depth_words priority tf =
     (if tf_fail_next_task_create tf
      then (TaskCreateOutOfMemory, tf\<lparr>tf_fail_next_task_create := False\<rparr>)
      else
        let i = tf_next_id tf;
            tf1 = tf\<lparr>tf_last_stack_words := stack_depth_words, tf_last_native_priority := priority,
              tf_task_create_count := tf_task_create_count tf + 1, tf_next_id := i + 1,
              tf_tasks := (tf_tasks tf)(i \<mapsto> \<lparr>ft_running = False, ft_started = True, ft_deleted = False\<rparr>)\<rparr>
        in if \<not> tf_scheduler_running tf1
           then (TaskCreateOk, tf1\<lparr>tf_pending_tasks := tf_pending_tasks tf1 @ [i]\<rparr>)
           else (TaskCreateOk, tf1\<lparr>tf_active_threads := tf_active_threads tf1 @ [i]\<rparr>))"

definition fixture_internal_task_create ::
  "u32 \<Rightarrow> u32 \<Rightarrow> task_fixture \<Rightarrow> nat option \<times> task_fixture" where
  "fixture_internal_task_create stack_depth_words priority tf =
     (if tf_fail_next_internal_task_create tf
      then (None, tf\<lparr>tf_fail_next_internal_task_create := False\<rparr>)
      else
        let i = tf_next_id tf
        in (Some i, tf\<lparr>tf_last_internal_stack_words := stack_depth_words,
              tf_last_internal_priority := priority, tf_next_id := i + 1,
              tf_internal_tasks := tf_internal_tasks tf @ [i]\<rparr>))"

text \<open>Joining drains the internal threads, which have to end.\<close>

definition internal_task_fixture_reset :: "task_fixture \<Rightarrow> task_fixture" where
  "internal_task_fixture_reset tf =
     tf\<lparr>tf_fail_next_internal_task_create := False, tf_last_internal_stack_words := 0,
        tf_last_internal_priority := 0, tf_internal_tasks := []\<rparr>"

definition task_fixture_reset :: "task_fixture \<Rightarrow> unit res \<times> task_fixture" where
  "task_fixture_reset tf =
     (let tf1 = (internal_task_fixture_reset tf)\<lparr>tf_fail_next_eg_create := False,
            tf_fail_next_task_create := False, tf_last_stack_words := 0, tf_last_native_priority := 0,
            tf_active_threads := []\<rparr>
      in if tf_pending_tasks tf1 \<noteq> [] then (Panic ''task fixture reset with pending tasks'', tf1)
         else if tf_blocked_count tf1 \<noteq> 0
           then (Panic ''task fixture reset while threads still blocked'', tf1)
         else (Ok (), tf1\<lparr>tf_event_groups := Map.empty, tf_tasks := Map.empty, tf_next_id := 1,
                 tf_eg_create_count := 0, tf_eg_delete_count := 0, tf_task_create_count := 0,
                 tf_pending_tasks := [], tf_scheduler_running := True\<rparr>))"

definition task_fixture_notify_scheduler_state :: "bool \<Rightarrow> task_fixture \<Rightarrow> task_fixture" where
  "task_fixture_notify_scheduler_state running tf =
     (let tf1 = tf\<lparr>tf_scheduler_running := running\<rparr> in
      if running
      then tf1\<lparr>tf_pending_tasks := [], tf_active_threads := tf_active_threads tf1 @ tf_pending_tasks tf1\<rparr>
      else tf1)"

section \<open>The host kernel\<close>

record host =
  h_sync :: fixture
  h_tasks :: task_fixture
  h_max_finite_delay :: u64
  h_scheduler :: u32

definition host_initial :: host where
  "host_initial = \<lparr>h_sync = fixture_initial, h_tasks = task_fixture_initial,
     h_max_finite_delay = 2 ^ 32 - 2, h_scheduler = 1\<rparr>"

text \<open>\<open>event_group_wait_bits\<close>: the clock advances before each wait, with the lock held; the
  outer \<open>None\<close> is a call still waiting when the listed waits are used up.\<close>

fun event_group_wait_loop ::
  "nat \<Rightarrow> u32 \<Rightarrow> u64 \<Rightarrow> (bool \<times> (host \<Rightarrow> host)) list \<Rightarrow> host
    \<Rightarrow> (event_wait_status \<times> host) res option" where
  "event_group_wait_loop i bits ticks ws h =
     (case tf_event_groups (h_tasks h) i of
        None \<Rightarrow> Some (Panic ''event group not found'')
      | Some e \<Rightarrow>
          if fe_deleted e then Some (Ok (EventInvalid, h))
          else if bits_set bits e then Some (Ok (EventOk, h))
          else if ticks = 0 then Some (Ok (EventTimeout, h))
          else
            (let wait_ticks = min ticks (h_max_finite_delay h) in
             case advance_virtual_ticks wait_ticks (h_sync h) of
               None \<Rightarrow> Some (Panic ''fixture overflow count overflowed u64'')
             | Some fx \<Rightarrow>
                 (case ws of
                    [] \<Rightarrow> None
                  | (timed_out, other) # ws' \<Rightarrow>
                      let h1 = other (h\<lparr>h_sync := fx, h_tasks := (set_event_group i
                                 (e\<lparr>fe_waiters := fe_waiters e + 1, fe_blocked_count := fe_blocked_count e + 1\<rparr>)
                                 (h_tasks h))\<lparr>tf_blocked_count := tf_blocked_count (h_tasks h) + 1\<rparr>\<rparr>)
                      in case tf_event_groups (h_tasks h1) i of
                           None \<Rightarrow> Some (Panic ''called unwrap on None'')
                         | Some e1 \<Rightarrow>
                             let e2 = e1\<lparr>fe_blocked_count := fe_blocked_count e1 - 1, fe_waiters := fe_waiters e1 - 1\<rparr>;
                                 h2 = h1\<lparr>h_tasks := (set_event_group i e2 (h_tasks h1))
                                        \<lparr>tf_blocked_count := tf_blocked_count (h_tasks h1) - 1\<rparr>\<rparr>
                             in if timed_out
                                then Some (Ok (if bits_set bits e2 then EventOk else EventTimeout, h2))
                                else event_group_wait_loop i bits ticks ws' h2)))"

text \<open>A completion bit is sticky: once set, every later wait returns at once, and other
  bits do not clear it.\<close>

lemma bits_set_or [simp]: "bits_set b (e\<lparr>fe_bits := or (fe_bits e) b\<rparr>)"
  by (simp add: bits_set_def bit_eq_iff bit_and_iff bit_or_iff)

lemma bits_set_mono: "bits_set a e \<Longrightarrow> bits_set a (e\<lparr>fe_bits := or (fe_bits e) b\<rparr>)"
  by (auto simp: bits_set_def bit_eq_iff bit_and_iff bit_or_iff)

lemma set_bits_sticky:
  assumes "fixture_event_group_set_bits i b tf = Ok (0, tf')"
  shows "\<exists>e. tf_event_groups tf' i = Some e \<and> \<not> fe_deleted e \<and> bits_set b e"
  using assms by (auto simp: fixture_event_group_set_bits_def set_event_group_def
    split: option.splits if_splits)

lemma set_bits_keeps:
  assumes "fixture_event_group_set_bits j b tf = Ok (c, tf')"
    and "tf_event_groups tf i = Some e" and "bits_set a e"
  shows "\<exists>e'. tf_event_groups tf' i = Some e' \<and> bits_set a e' \<and> fe_deleted e' = fe_deleted e"
  using assms by (auto simp: fixture_event_group_set_bits_def set_event_group_def bits_set_mono
    split: option.splits if_splits)

lemma wait_after_set:
  assumes "fixture_event_group_set_bits i b tf = Ok (0, tf')" and "h_tasks h = tf'"
  shows "event_group_wait_loop i b ticks ws h = Some (Ok (EventOk, h))"
  using set_bits_sticky [OF assms(1)] assms(2) by (subst event_group_wait_loop.simps) auto

end
