(* ===== verification/Freertos_Native.thy ===== *)
theory Freertos_Native
  imports Freertos_Runtime Task_Fixture
begin

text \<open>
  The native objects behind the FreeRTOS backend: which ones a constructor leaves alive, which
  ones a drop deletes, and that the runtime as a whole leaks none. The contract of the native
  calls is a locale; the host fixture of src/crates/osal-backend-freertos-sys meets it.
\<close>

section \<open>Families of disjoint sets\<close>

primrec disjoint_sets :: "'a set list \<Rightarrow> bool" where
  "disjoint_sets [] \<longleftrightarrow> True"
| "disjoint_sets (A # As) \<longleftrightarrow> A \<inter> \<Union> (set As) = {} \<and> disjoint_sets As"

lemma disjoint_sets_append [simp]:
  "disjoint_sets (As @ Bs) \<longleftrightarrow> disjoint_sets As \<and> disjoint_sets Bs \<and> \<Union> (set As) \<inter> \<Union> (set Bs) = {}"
  by (induction As) auto

section \<open>The contract of the native calls\<close>

text \<open>A creation that succeeds adds one fresh object to the live ones, one that fails none.\<close>

definition native_creates ::
  "('k \<Rightarrow> bool) \<Rightarrow> ('k \<Rightarrow> native_object set) \<Rightarrow> ('k \<Rightarrow> nat option \<times> 'k) \<Rightarrow> (nat \<Rightarrow> native_object) \<Rightarrow> bool" where
  "native_creates ninv live g C =
     (\<forall>k h k'. ninv k \<and> g k = (h, k') \<longrightarrow> ninv k' \<and>
        (case h of None \<Rightarrow> live k' = live k
         | Some i \<Rightarrow> C i \<notin> live k \<and> live k' = insert (C i) (live k)))"

lemma native_createsD:
  assumes "native_creates ninv live g C" and "ninv k" and "g k = (h, k')"
  shows "ninv k'" and "h = None \<Longrightarrow> live k' = live k"
    and "h = Some i \<Longrightarrow> C i \<notin> live k \<and> live k' = insert (C i) (live k)"
  using assms unfolding native_creates_def by fastforce+

text \<open>The handle counter moves by at most one per construction.\<close>

definition handle_step :: "('k, 'cb) rtos_world \<Rightarrow> ('k, 'cb) rtos_world \<Rightarrow> bool" where
  "handle_step w w' \<longleftrightarrow> rw_next_handle w' = rw_next_handle w
     \<or> rw_next_handle w \<noteq> - 1 \<and> rw_next_handle w' = rw_next_handle w + 1"

lemma native_next_handle [simp]:
  "rw_next_handle (snd (on_native f w)) = rw_next_handle w"
  "rw_next_handle (snd (native_create g w)) = rw_next_handle w"
  "rw_next_handle (set_native h w) = rw_next_handle w"
  by (simp_all add: on_native_def native_create_def set_native_def split: prod.splits)

lemma st_bind_handle_step:
  assumes "rw_next_handle (snd p) = rw_next_handle w" and "\<And>x. fst p = Ok x \<Longrightarrow> handle_step (snd p) (snd (f x (snd p)))"
  shows "handle_step w (snd (st_bind p f))"
  using assms by (cases p; cases "fst p") (auto simp: handle_step_def)

lemma leased_handle_step:
  assumes "keeps_lifecycle body" and "\<And>x. handle_step w (snd (body (w\<lparr>rw_lifecycle := x\<rparr>)))"
  shows "handle_step w (snd (rtos_leased body w))"
  using rtos_leased_cases(2) [OF assms(1) prod.collapse [symmetric, of "rtos_leased body w"]] assms(2)
  by (metis handle_step_def snd_conv)

lemma task_start_handle_step: "handle_step w (snd (rtos_task_start N b caps words eg w))"
proof -
  obtain r w1 where a: "rtos_allocate_task_handle w = (r, w1)" by (cases "rtos_allocate_task_handle w")
  then have "handle_step w w1"
    by (auto simp: rtos_allocate_task_handle_def handle_step_def Let_def split: if_splits)
  moreover have "rw_next_handle (snd (rtos_task_start N b caps words eg w)) = rw_next_handle w1"
    unfolding rtos_task_start_def a
    by (cases r) (auto simp: on_native_def set_native_def split: option.splits prod.splits task_create_status.splits)
  ultimately show ?thesis by (simp add: handle_step_def)
qed

lemma task_body_handle_step: "handle_step w (snd (rtos_task_body N b w))"
  unfolding rtos_task_body_def
  by (auto simp: handle_step_def [of w w] intro!: st_bind_handle_step task_start_handle_step split: option.splits)

lemma create_body_handle_step:
  "handle_step w (snd (on_native h (w\<lparr>rw_lifecycle := x\<rparr>)))"
  "handle_step w (snd (st_bind (native_create g (w\<lparr>rw_lifecycle := x\<rparr>)) (\<lambda>h w. (Ok (f h), w))))"
  "handle_step w w"
proof -
  show "handle_step w (snd (st_bind (native_create g (w\<lparr>rw_lifecycle := x\<rparr>)) (\<lambda>h w. (Ok (f h), w))))"
    by (rule st_bind_handle_step) (simp_all add: handle_step_def)
qed (simp_all add: handle_step_def)

lemma create_next_handle:
  assumes "rtos_create N reserve c w = (r, w')"
  shows "handle_step w w'"
proof -
  have map: "handle_step w (snd (st_bind p (\<lambda>x w. (Ok (f x), w))))" if "handle_step w (snd p)"
    for p :: "'x res \<times> ('a, 'b) rtos_world" and f :: "'x \<Rightarrow> rtos_object"
    using that by (cases p; cases "fst p") auto
  have bind: "handle_step w (snd (st_bind (r, w) f))" if "\<And>x. handle_step w (snd (f x w))"
    for r :: "'x res" and f :: "'x \<Rightarrow> ('a, 'b) rtos_world \<Rightarrow> 'y res \<times> ('a, 'b) rtos_world"
    using that by (cases r) (auto simp: create_body_handle_step(3))
  have task: "handle_step w (snd (rtos_leased (rtos_task_body N b) w))" for b
    using leased_handle_step [OF rtos_task_body_lifecycle] task_body_handle_step [of "w\<lparr>rw_lifecycle := _\<rparr>" N b]
    by (fastforce simp: handle_step_def)
  note leased = leased_handle_step [OF create_body_lifecycle(1) create_body_handle_step(2)]
    leased_handle_step [OF create_body_lifecycle(2) create_body_handle_step(1)] create_body_handle_step(3)
  have "handle_step w (snd (rtos_create N reserve c w))"
    by (cases c) (auto simp: rtos_queue_new_def rtos_semaphore_new_def rtos_binary_semaphore_new_def
      rtos_mutex_new_def rtos_task_spawn_def validate_queue_capacity_def validate_queue_message_size_def
      leased task intro!: map bind)
  then show ?thesis using assms by simp
qed

definition service_owned :: "'cb timer_service \<Rightarrow> native_object set" where
  "service_owned s =
     {NativeMutex (sv_registry_mutex s), NativeSem (sv_wake_sem s), NativeEvent (sv_completion_eg s)}"

lemma service_owned_state [simp]: "service_owned (s\<lparr>sv_state := st\<rparr>) = service_owned s"
  by (simp add: service_owned_def)

locale native_objects =
  fixes N :: "'k native" and live :: "'k \<Rightarrow> native_object set" and ninv :: "'k \<Rightarrow> bool"
  assumes mutex_create: "native_creates ninv live (nv_mutex_create N) NativeMutex"
    and counting_create: "native_creates ninv live (nv_counting_create N m c) NativeSem"
    and binary_create: "native_creates ninv live (nv_binary_create N) NativeSem"
    and event_create: "native_creates ninv live (nv_event_create N) NativeEvent"
    and mutex_delete: "ninv k \<Longrightarrow> ninv (nv_mutex_delete N i k) \<and> live (nv_mutex_delete N i k) = live k - {NativeMutex i}"
    and sem_delete: "ninv k \<Longrightarrow> ninv (nv_sem_delete N i k) \<and> live (nv_sem_delete N i k) = live k - {NativeSem i}"
    and event_delete: "ninv k \<Longrightarrow> ninv (nv_event_delete N i k) \<and> live (nv_event_delete N i k) = live k - {NativeEvent i}"
    and task_create: "ninv k \<Longrightarrow> nv_task_create N name n p k = (s, k') \<Longrightarrow> ninv k' \<and> live k' = live k"
begin

lemmas deletes = mutex_delete sem_delete event_delete

text \<open>The balance of a constructor: on success exactly the owned objects are new, on an error
  nothing is.\<close>

definition balanced :: "'k \<Rightarrow> 'a res \<Rightarrow> ('a \<Rightarrow> native_object set) \<Rightarrow> 'k \<Rightarrow> bool" where
  "balanced k r owned k' =
     (ninv k' \<and> (case r of Ok x \<Rightarrow> owned x \<inter> live k = {} \<and> live k' = live k \<union> owned x
                  | Err e \<Rightarrow> live k' = live k | Panic s \<Rightarrow> True))"

lemma balanced_err: "ninv k \<Longrightarrow> balanced k (Err e) owned k" by (simp add: balanced_def)

lemma balanced_panic: "ninv k \<Longrightarrow> balanced k (Panic e) owned k" by (simp add: balanced_def)

lemma balanced_map:
  assumes "balanced k (fst p) (\<lambda>x. owned (f x)) (rw_native (snd p))"
    and "st_bind p (\<lambda>x w. (Ok (f x), w)) = (r, w')"
  shows "balanced k r owned (rw_native w')"
  using assms by (cases p; cases "fst p") (auto simp: balanced_def)

lemma create_balanced:
  assumes "native_creates ninv live g C" and "ninv (rw_native w)"
    and "st_bind (native_create g w) (\<lambda>h w. (Ok (f h), w)) = (r, w')" and "\<And>h. owned (f h) = {C h}"
  shows "balanced (rw_native w) r owned (rw_native w')"
proof -
  obtain h k' where g: "g (rw_native w) = (h, k')" by (cases "g (rw_native w)")
  show ?thesis
    using native_createsD [OF assms(1,2) g] assms(3,4) g
    by (cases h) (auto simp: balanced_def native_create_def on_native_def)
qed

lemma leased_balanced:
  assumes "keeps_lifecycle body" and "ninv (rw_native w)"
    and "\<And>x r w2. body (w\<lparr>rw_lifecycle := x\<rparr>) = (r, w2) \<Longrightarrow> balanced (rw_native w) r owned (rw_native w2)"
  shows "balanced (rw_native w) (fst (rtos_leased body w)) owned (rw_native (snd (rtos_leased body w)))"
  using rtos_leased_cases(2) [OF assms(1) prod.collapse [symmetric, of "rtos_leased body w"]]
    assms(2,3) balanced_err by metis

lemma leased_create_balanced:
  assumes "native_creates ninv live g C" and inv: "ninv (rw_native w)" and "\<And>h. owned (f h) = {C h}"
  shows "balanced (rw_native w)
      (fst (rtos_leased (\<lambda>w. st_bind (native_create g w) (\<lambda>h w. (Ok (f h), w))) w)) owned
      (rw_native (snd (rtos_leased (\<lambda>w. st_bind (native_create g w) (\<lambda>h w. (Ok (f h), w))) w)))"
proof (rule leased_balanced [OF create_body_lifecycle(1) inv])
  fix x r w2
  assume "st_bind (native_create g (w\<lparr>rw_lifecycle := x\<rparr>)) (\<lambda>h w. (Ok (f h), w)) = (r, w2)"
  from create_balanced [OF assms(1) _ this assms(3)] show "balanced (rw_native w) r owned (rw_native w2)"
    using inv by simp
qed

lemma queue_natives_balanced:
  assumes "rtos_queue_natives N buffer k = (r, k')" and inv: "ninv k"
  shows "balanced k r (\<lambda>q. rtos_owned (RtosQueue q)) k'"
proof -
  obtain m k1 where m: "nv_mutex_create N k = (m, k1)" by (cases "nv_mutex_create N k")
  let ?mx = "ucast (min (nv_max_semaphore_count N) (2 ^ 32 - 1)) :: u32"
  obtain a k2 where a: "nv_counting_create N ?mx 0 k1 = (a, k2)" by (cases "nv_counting_create N ?mx 0 k1")
  obtain b k3 where b: "nv_counting_create N ?mx 0 k2 = (b, k3)" by (cases "nv_counting_create N ?mx 0 k2")
  note M = native_createsD [OF mutex_create inv m]
  note A = native_createsD [OF counting_create M(1) a]
  note B = native_createsD [OF counting_create A(1) b]
  note run = assms(1) [unfolded rtos_queue_natives_def Let_def m prod.case]
  show ?thesis
  proof (cases m)
    case None
    then show ?thesis using run M by (auto simp: balanced_def)
  next
    case mi: (Some i)
    note run' = run [unfolded mi option.case a prod.case]
    show ?thesis
    proof (cases a)
      case None
      then show ?thesis using run' M A mi by (auto simp: balanced_def deletes)
    next
      case ai: (Some j)
      note run'' = run' [unfolded ai option.case b prod.case]
      show ?thesis
      proof (cases b)
        case None
        then show ?thesis using run'' M A B mi ai by (auto simp: balanced_def deletes)
      next
        case (Some l)
        then show ?thesis using run'' M A B mi ai by (auto simp: balanced_def)
      qed
    qed
  qed
qed

text \<open>Spawning is balanced unless the handle counter is exhausted: then the event group that
  was created first stays alive.\<close>

lemma task_start_effect:
  assumes "rtos_task_start N b caps words eg w = (r, w')" and inv: "ninv (rw_native w)"
    and nh: "rw_next_handle w \<noteq> - 1" "rw_next_handle w \<noteq> 0"
  shows "ninv (rw_native w') \<and> (case r of
      Ok t \<Rightarrow> rtk_event_group t = eg \<and> live (rw_native w') = live (rw_native w)
    | Err e \<Rightarrow> live (rw_native w') = live (rw_native w) - {NativeEvent eg}
    | Panic s \<Rightarrow> True)"
proof -
  let ?w1 = "w\<lparr>rw_next_handle := rw_next_handle w + 1\<rparr>"
  have alloc: "rtos_allocate_task_handle w = (Ok (TaskHandle (rw_next_handle w)), ?w1)"
    using nh by (simp add: rtos_allocate_task_handle_def handle_from_raw_def Let_def ok_or_def)
  note run = assms(1) [unfolded rtos_task_start_def alloc st_bind.simps]
  show ?thesis
  proof (cases "native_task_name (rtb_name b) (unat (cap_max_task_name_len caps))")
    case None
    then show ?thesis using run inv by auto
  next
    case (Some name)
    obtain s k2 where s: "nv_task_create N name (word_of_nat words)
        (map_native_priority (rtb_priority b) (cap_max_priorities caps)) (rw_native w) = (s, k2)"
      by (rule prod.exhaust)
    note T = task_create [OF inv s]
    show ?thesis
      using run Some s T deletes [of k2] by (cases s) (auto simp: on_native_def set_native_def)
  qed
qed

lemma task_body_balanced:
  assumes "rtos_task_body N b w = (r, w')" and inv: "ninv (rw_native w)"
    and nh: "rw_next_handle w \<noteq> - 1" "rw_next_handle w \<noteq> 0"
  shows "balanced (rw_native w) r (\<lambda>t. rtos_owned (RtosTask t)) (rw_native w')"
proof (cases "rw_caps w")
  case None
  then show ?thesis using assms(1) inv by (auto simp: rtos_task_body_def balanced_def)
next
  case (Some caps)
  let ?s = "stack_bytes_to_words (rtb_stack_size b) (unat (cap_stack_word_size caps))
    (unat (cap_minimal_stack_depth_words caps)) (unat (cap_max_stack_depth_words caps))"
  note run = assms(1) [unfolded rtos_task_body_def Some option.case]
  obtain h k' where g: "nv_event_create N (rw_native w) = (h, k')" by (cases "nv_event_create N (rw_native w)")
  note E = native_createsD [OF event_create inv g]
  show ?thesis
  proof (cases ?s)
    case words: (Ok words)
    show ?thesis
    proof (cases h)
      case None
      then show ?thesis using run words g E
        by (auto simp: balanced_def native_create_def on_native_def ok_or_def)
    next
      case (Some eg)
      then have "rtos_task_start N b caps words eg (w\<lparr>rw_native := k'\<rparr>) = (r, w')"
        using run words g by (simp add: native_create_def on_native_def ok_or_def)
      from task_start_effect [OF this] show ?thesis
        using E Some nh by (cases r) (auto simp: balanced_def)
    qed
  qed (use run inv in \<open>auto simp: balanced_def\<close>)
qed

lemma create_native_balanced:
  assumes "rtos_create N reserve c w = (r, w')" and inv: "ninv (rw_native w)"
    and nh: "rw_next_handle w \<noteq> - 1" "rw_next_handle w \<noteq> 0"
  shows "balanced (rw_native w) r rtos_owned (rw_native w')"
proof (cases c)
  case (CtorQueue n m)
  have body: "balanced (rw_native w) q (\<lambda>q. rtos_owned (RtosQueue q)) (rw_native w2)"
    if "on_native (rtos_queue_natives N buffer) (w\<lparr>rw_lifecycle := x\<rparr>) = (q, w2)" for buffer x q w2
    using that queue_natives_balanced [OF _ inv] by (auto simp: on_native_def split: prod.splits)
  have "balanced (rw_native w) (fst (rtos_queue_new N reserve n m w)) (\<lambda>q. rtos_owned (RtosQueue q))
      (rw_native (snd (rtos_queue_new N reserve n m w)))"
    using leased_balanced [OF create_body_lifecycle(2) inv body] inv
    by (cases "byte_queue_new reserve n m")
      (auto simp: rtos_queue_new_def validate_queue_capacity_def validate_queue_message_size_def
        balanced_err balanced_panic)
  from balanced_map [where owned = rtos_owned and f = RtosQueue, OF this] show ?thesis using assms(1) CtorQueue by simp
next
  case (CtorSemaphore m i)
  have "balanced (rw_native w) (fst (rtos_semaphore_new N m i w)) (\<lambda>s. rtos_owned (RtosSemaphore s))
      (rw_native (snd (rtos_semaphore_new N m i w)))"
    unfolding rtos_semaphore_new_def
    by (auto simp: balanced_err [OF inv] intro!: leased_create_balanced [OF counting_create inv])
  from balanced_map [where owned = rtos_owned and f = RtosSemaphore, OF this] show ?thesis using assms(1) CtorSemaphore by simp
next
  case CtorBinarySemaphore
  have "balanced (rw_native w) (fst (rtos_binary_semaphore_new N w)) (\<lambda>s. rtos_owned (RtosSemaphore s))
      (rw_native (snd (rtos_binary_semaphore_new N w)))"
    unfolding rtos_binary_semaphore_new_def
    by (rule leased_create_balanced [OF binary_create inv]) simp
  from balanced_map [where owned = rtos_owned and f = RtosSemaphore, OF this] show ?thesis using assms(1) CtorBinarySemaphore by simp
next
  case (CtorMutex v)
  have "balanced (rw_native w) (fst (rtos_mutex_new N v w)) (\<lambda>m. rtos_owned (RtosMutex m))
      (rw_native (snd (rtos_mutex_new N v w)))"
    unfolding rtos_mutex_new_def
    by (rule leased_create_balanced [OF mutex_create inv]) simp
  from balanced_map [where owned = rtos_owned and f = RtosMutex, OF this] show ?thesis using assms(1) CtorMutex by simp
next
  case (CtorTask b)
  have body: "balanced (rw_native w) q (\<lambda>t. rtos_owned (RtosTask t)) (rw_native w2)"
    if "rtos_task_body N b (w\<lparr>rw_lifecycle := x\<rparr>) = (q, w2)" for x q w2
    using task_body_balanced [OF that] inv nh by simp
  have "balanced (rw_native w) (fst (rtos_task_spawn N b w)) (\<lambda>t. rtos_owned (RtosTask t))
      (rw_native (snd (rtos_task_spawn N b w)))"
    using leased_balanced [OF rtos_task_body_lifecycle inv body] inv
    by (cases "validate_task_config (rtb_name b) (rtb_stack_size b)")
      (auto simp: rtos_task_spawn_def balanced_err balanced_panic)
  from balanced_map [where owned = rtos_owned and f = RtosTask, OF this] show ?thesis using assms(1) CtorTask by simp
qed

lemma destroy_live:
  assumes "rtos_destroy N x w = (r, w')" and inv: "ninv (rw_native w)"
  shows "ninv (rw_native w') \<and> live (rw_native w') = live (rw_native w) - rtos_owned x
    \<and> rw_next_handle w' = rw_next_handle w"
proof -
  have lease: "rw_native (snd (rtos_lease_drop v)) = rw_native v"
    "rw_next_handle (snd (rtos_lease_drop v)) = rw_next_handle v" for v :: "('k, 'c) rtos_world"
    by (simp_all add: rtos_lease_drop_def on_rtos_lifecycle_def split: prod.splits)
  have "w' = snd (rtos_destroy N x w)" using assms(1) by simp
  then show ?thesis
    using inv deletes
    by (cases x) (auto simp: rtos_queue_drop_def rtos_semaphore_drop_def rtos_mutex_drop_def
      rtos_task_drop_def set_native_def lease)
qed

text \<open>The live objects are those of the environment and those the held objects own.\<close>

definition accounted :: "native_object set \<Rightarrow> rtos_object list \<Rightarrow> native_object set \<Rightarrow> bool" where
  "accounted L0 held L =
     (disjoint_sets (map rtos_owned held) \<and> \<Union> (rtos_owned ` set held) \<inter> L0 = {}
      \<and> L = L0 \<union> \<Union> (rtos_owned ` set held))"

lemma accounted_add:
  assumes "accounted L0 held L" and "rtos_owned x \<inter> L = {}"
  shows "accounted L0 (held @ [x]) (L \<union> rtos_owned x)"
  using assms unfolding accounted_def by auto

lemma accounted_remove:
  assumes "accounted L0 held L" and "i < length held"
  shows "accounted L0 (take i held @ drop (Suc i) held) (L - rtos_owned (held ! i))"
proof -
  obtain xs y ys where h: "held = xs @ y # ys" "length xs = i"
    using id_take_nth_drop [OF assms(2)] assms(2) by (metis length_take min.absorb4)
  show ?thesis using assms(1) unfolding accounted_def h(1) h(2) [symmetric] by (auto simp: nth_append)
qed

lemma run_accounted:
  assumes "accounted L0 held (live (rw_native w))" and "ninv (rw_native w)"
    and "rw_next_handle w \<noteq> 0" and "unat (rw_next_handle w) + length ops < 2 ^ 64 - 1"
    and "run_objects (rtos_create N reserve) (rtos_destroy N) w held ops = Some (w', held')"
  shows "ninv (rw_native w') \<and> accounted L0 held' (live (rw_native w'))"
  using assms
proof (induction ops arbitrary: w held)
  case Nil
  then show ?case by simp
next
  case (Cons op ops)
  have nh: "rw_next_handle w \<noteq> - 1" using Cons.prems(4) by (auto simp: unat_max_word)
  show ?case
  proof (cases op)
    case (Create c)
    obtain r w1 where r: "rtos_create N reserve c w = (r, w1)" by (cases "rtos_create N reserve c w")
    note bal = create_native_balanced [OF r Cons.prems(2) nh Cons.prems(3)]
    have nx: "unat (rw_next_handle w + 1) = Suc (unat (rw_next_handle w))"
      using nh by (rule unat_add_1_word)
    then have "rw_next_handle w + 1 \<noteq> 0" by (metis nat.distinct(1) unat_0)
    with nx have step: "rw_next_handle w1 \<noteq> 0" "unat (rw_next_handle w1) + length ops < 2 ^ 64 - 1"
      using create_next_handle [OF r] Cons.prems(3,4) by (auto simp: handle_step_def)
    show ?thesis
    proof (cases r)
      case (Ok x)
      then have "ninv (rw_native w1)" "accounted L0 (held @ [x]) (live (rw_native w1))"
        using bal accounted_add [OF Cons.prems(1)] by (auto simp: balanced_def)
      then show ?thesis using Cons.IH [of "held @ [x]" w1] step Cons.prems(5) Create r Ok by simp
    next
      case (Err e)
      then have "ninv (rw_native w1)" "accounted L0 held (live (rw_native w1))"
        using bal Cons.prems(1) by (auto simp: balanced_def)
      then show ?thesis using Cons.IH [of held w1] step Cons.prems(5) Create r Err by simp
    next
      case (Panic s)
      then show ?thesis using Cons.prems(5) Create r by simp
    qed
  next
    case (Destroy i)
    show ?thesis
    proof (cases "i < length held")
      case True
      obtain r w1 where r: "rtos_destroy N (held ! i) w = (r, w1)" by (cases "rtos_destroy N (held ! i) w")
      note D = destroy_live [OF r Cons.prems(2)]
      have "accounted L0 (take i held @ drop (Suc i) held) (live (rw_native w1))"
        using accounted_remove [OF Cons.prems(1) True] D by simp
      then show ?thesis
        using Cons.IH [of "take i held @ drop (Suc i) held" w1] Cons.prems(3-5) Destroy True r D
        by (cases r) auto
    next
      case False
      then show ?thesis using Cons.IH [of held w] Cons.prems Destroy by simp
    qed
  qed
qed

lemma service_new_balanced:
  assumes "timer_service_new N k = (r, k')" and inv: "ninv k"
  shows "balanced k r service_owned k'"
proof -
  obtain m k1 where m: "nv_mutex_create N k = (m, k1)" by (cases "nv_mutex_create N k")
  obtain a k2 where a: "nv_binary_create N k1 = (a, k2)" by (cases "nv_binary_create N k1")
  obtain b k3 where b: "nv_event_create N k2 = (b, k3)" by (cases "nv_event_create N k2")
  note M = native_createsD [OF mutex_create inv m]
  note A = native_createsD [OF binary_create M(1) a]
  note B = native_createsD [OF event_create A(1) b]
  note run = assms(1) [unfolded timer_service_new_def Let_def m prod.case]
  show ?thesis
  proof (cases m)
    case None
    then show ?thesis using run M by (auto simp: balanced_def)
  next
    case mi: (Some i)
    note run' = run [unfolded mi option.case a prod.case]
    show ?thesis
    proof (cases a)
      case None
      then show ?thesis using run' M A mi by (auto simp: balanced_def deletes)
    next
      case ai: (Some j)
      note run'' = run' [unfolded ai option.case b prod.case]
      show ?thesis
      proof (cases b)
        case None
        then show ?thesis using run'' M A B mi ai by (auto simp: balanced_def deletes)
      next
        case (Some l)
        then have r: "r = Ok \<lparr>sv_registry_mutex = i, sv_wake_sem = j, sv_completion_eg = l,
            sv_locked = False, sv_state = service_state_new\<rparr>" "k' = k3" using run'' by simp_all
        have l: "live k3 = insert (NativeEvent l) (insert (NativeSem j) (insert (NativeMutex i) (live k)))"
            "NativeEvent l \<notin> live k" "NativeSem j \<notin> live k" "NativeMutex i \<notin> live k"
          using M(3) A(3) B(3) mi ai Some by simp_all
        show ?thesis using B(1) l unfolding r balanced_def by (simp add: service_owned_def) blast
      qed
    qed
  qed
qed

lemma service_delete_live:
  "ninv k \<Longrightarrow> ninv (timer_service_delete N s k) \<and> live (timer_service_delete N s k) = live k - service_owned s"
  using deletes by (auto simp: timer_service_delete_def service_owned_def)

end

section \<open>The host fixture meets the contract\<close>

definition on_sync :: "(fixture \<Rightarrow> 'a \<times> fixture) \<Rightarrow> host \<Rightarrow> 'a \<times> host" where
  "on_sync f h = (case f (h_sync h) of (x, fx) \<Rightarrow> (x, h\<lparr>h_sync := fx\<rparr>))"

definition on_tasks :: "(task_fixture \<Rightarrow> 'a \<times> task_fixture) \<Rightarrow> host \<Rightarrow> 'a \<times> host" where
  "on_tasks f h = (case f (h_tasks h) of (x, tf) \<Rightarrow> (x, h\<lparr>h_tasks := tf\<rparr>))"

definition host_native :: "host native" where
  "host_native = \<lparr>
     nv_mutex_create = on_sync fixture_mutex_create,
     nv_mutex_delete = (\<lambda>i h. snd (on_sync (fixture_mutex_delete i) h)),
     nv_counting_create = (\<lambda>m c. on_sync (fixture_counting_semaphore_create m c)),
     nv_binary_create = on_sync fixture_binary_semaphore_create,
     nv_sem_delete = (\<lambda>i h. h\<lparr>h_sync := fixture_semaphore_delete i (h_sync h)\<rparr>),
     nv_event_create = on_tasks fixture_event_group_create,
     nv_event_delete = (\<lambda>i h. snd (on_tasks (fixture_event_group_delete i) h)),
     nv_task_create = (\<lambda>name n p. on_tasks (fixture_task_create n p)),
     nv_internal_task_create = (\<lambda>n p. on_tasks (fixture_internal_task_create n p)),
     nv_max_semaphore_count = 2 ^ 32 - 1,
     nv_capabilities = fixture_caps,
     nv_scheduler = (\<lambda>h. scheduler_state_from_raw (h_scheduler h))\<rparr>"

definition host_live :: "host \<Rightarrow> native_object set" where
  "host_live h = NativeMutex ` dom (fx_mutexes (h_sync h)) \<union> NativeSem ` dom (fx_semaphores (h_sync h))
     \<union> NativeEvent ` dom (tf_event_groups (h_tasks h))"

text \<open>Ids are fresh, and no mutex is held while objects are created and dropped.\<close>

definition host_ok :: "host \<Rightarrow> bool" where
  "host_ok h =
     ((\<forall>i\<in>dom (fx_mutexes (h_sync h)). i < fx_next_id (h_sync h))
      \<and> (\<forall>i\<in>dom (fx_semaphores (h_sync h)). i < fx_next_id (h_sync h))
      \<and> (\<forall>i\<in>dom (tf_event_groups (h_tasks h)). i < tf_next_id (h_tasks h))
      \<and> (\<forall>e\<in>ran (fx_mutexes (h_sync h)). \<not> fm_locked e \<and> \<not> fm_deleted e)
      \<and> (\<forall>e\<in>ran (tf_event_groups (h_tasks h)). \<not> fe_deleted e))"

lemma native_creates_sync_mutex: "native_creates host_ok host_live (on_sync fixture_mutex_create) NativeMutex"
  by (auto simp: native_creates_def on_sync_def fixture_mutex_create_def host_ok_def host_live_def Let_def
    ran_def less_Suc_eq split: if_splits)

lemma native_creates_sync_sem:
  "native_creates host_ok host_live (on_sync (fixture_counting_semaphore_create m c)) NativeSem"
  by (auto simp: native_creates_def on_sync_def fixture_counting_semaphore_create_def host_ok_def host_live_def Let_def
    ran_def less_Suc_eq split: if_splits)

lemma native_creates_event: "native_creates host_ok host_live (on_tasks fixture_event_group_create) NativeEvent"
  by (auto simp: native_creates_def on_tasks_def fixture_event_group_create_def host_ok_def host_live_def Let_def
    ran_def less_Suc_eq split: if_splits)

interpretation hostnat: native_objects host_native host_live host_ok
proof
  show "native_creates host_ok host_live (nv_mutex_create host_native) NativeMutex"
    by (simp add: host_native_def native_creates_sync_mutex)
  show "native_creates host_ok host_live (nv_counting_create host_native m c) NativeSem" for m c
    by (simp add: host_native_def native_creates_sync_sem)
  show "native_creates host_ok host_live (nv_binary_create host_native) NativeSem"
    using native_creates_sync_sem [of 1 0]
    by (simp add: host_native_def fixture_binary_semaphore_create_def [abs_def])
  show "native_creates host_ok host_live (nv_event_create host_native) NativeEvent"
    by (simp add: host_native_def native_creates_event)
next
  fix i h
  assume h: "host_ok h"
  show "host_ok (nv_mutex_delete host_native i h)
      \<and> host_live (nv_mutex_delete host_native i h) = host_live h - {NativeMutex i}"
    using h by (cases "fx_mutexes (h_sync h) i")
      (auto simp: host_native_def on_sync_def fixture_mutex_delete_def host_ok_def host_live_def ran_def Let_def)
  show "host_ok (nv_sem_delete host_native i h)
      \<and> host_live (nv_sem_delete host_native i h) = host_live h - {NativeSem i}"
    using h by (auto simp: host_native_def fixture_semaphore_delete_def host_ok_def host_live_def ran_def)
  show "host_ok (nv_event_delete host_native i h)
      \<and> host_live (nv_event_delete host_native i h) = host_live h - {NativeEvent i}"
    using h by (cases "tf_event_groups (h_tasks h) i")
      (auto simp: host_native_def on_tasks_def fixture_event_group_delete_def host_ok_def host_live_def ran_def Let_def)
next
  fix h h' name n p s
  assume "host_ok h" "nv_task_create host_native name n p h = (s, h')"
  then show "host_ok h' \<and> host_live h' = host_live h"
    by (auto simp: host_native_def on_tasks_def fixture_task_create_def host_ok_def host_live_def Let_def
      less_Suc_eq split: if_splits)
qed

section \<open>Properties\<close>

lemma initial_world_facts:
  "rtos_state (rtos_world_initial k) = Uninitialized" "lc_word_ok (rw_lifecycle (rtos_world_initial k))"
  "rw_slot (rtos_world_initial k) = SlotStopped" "rw_native (rtos_world_initial k) = k"
  "rw_next_handle (rtos_world_initial k) = 1"
  by (simp_all add: rtos_world_initial_def rtos_state_def lc_word_ok_def)

lemma initialize_ok:
  fixes w :: "('k, 'cb) rtos_world"
  assumes "freertos_initialize N (rtos_world_initial k) = (Ok (), w)"
  obtains s where "timer_service_new N k = (Ok s, rw_native w)" "rw_slot w = SlotRunning s None"
    "sv_timers (sv_state s) = []" "rtos_state w = Running" "unat (rtos_active_objects w) = 0"
    "rw_next_handle w = 1" "rtos_inv w"
proof -
  obtain r :: "'cb timer_service res" and k' where r: "timer_service_new N k = (r, k')"
    by (rule prod.exhaust)
  note C = freertos_initialize_cases [OF initial_world_facts(1-3), unfolded initial_world_facts(4), OF r]
  show ?thesis
  proof (cases r)
    case (Ok s)
    with C(1) assms have "rw_slot w = SlotRunning s None" "rw_native w = k'" "rtos_state w = Running"
        "unat (rtos_active_objects w) = 0" "rw_next_handle w = 1"
      by (auto simp: initial_world_facts)
    moreover have "sv_timers (sv_state s) = []" using timer_service_new_state r Ok by fast
    moreover have "rtos_inv w" using calculation by (auto simp: rtos_inv_def lc_word_ok_def rtos_state_def)
    ultimately show ?thesis using that r Ok by blast
  next
    case (Err e)
    then show ?thesis using C(2) assms by auto
  next
    case (Panic e)
    then show ?thesis using timer_service_new_no_panic r by metis
  qed
qed

lemma run_slot:
  assumes "run_objects (rtos_create N reserve) (rtos_destroy N) w held ops = Some (w', held')"
  shows "rw_slot w' = rw_slot w"
  using assms
proof (induction ops arbitrary: w held)
  case (Cons op ops)
  have destroy: "rw_slot (snd (rtos_destroy N x v)) = rw_slot v" for x and v :: "('a, 'b) rtos_world"
    using rtos_destroy_eq [of N x v] by auto
  show ?case
  proof (cases op)
    case (Create c)
    obtain r w1 where r: "rtos_create N reserve c w = (r, w1)" by (cases "rtos_create N reserve c w")
    then have "rw_slot w1 = rw_slot w" using rtos_create_slot [of N reserve c w] by simp
    then show ?thesis
      using Cons.IH [of w1] Cons.prems Create r by (cases r) auto
  next
    case (Destroy i)
    obtain r w1 where r: "rtos_destroy N (held ! i) w = (r, w1)" by (cases "rtos_destroy N (held ! i) w")
    then have "rw_slot w1 = rw_slot w" using destroy [of "held ! i" w] by simp
    then show ?thesis
      using Cons.IH [of w1] Cons.IH [of w] Cons.prems Destroy r by (cases r) (auto split: if_splits)
  qed
qed simp

text \<open>The runtime on the objects alone.\<close>

lemma shutdown_objects:
  assumes "freertos_initialize N (rtos_world_initial k) = (Ok (), w)"
    and "run_objects (rtos_create N reserve) (rtos_destroy N) w [] ops = Some (w', held)"
  shows "unat (rtos_active_objects w') = length held
    \<and> (\<exists>w''. freertos_shutdown N self ws w' = Some (if held = [] then Ok () else Err Busy, w''))"
proof -
  have s: "rtos_state w = Running" "unat (rtos_active_objects w) = 0" "rtos_inv w"
    using initialize_ok [OF assms(1)] by blast+
  have w': "rtos_inv w'" "unat (rtos_active_objects w') = length held" "rtos_state w' = Running"
    using rtos.run_objects_active [OF s(3) _ s(1) assms(2)] s(2) by auto
  show ?thesis
  proof (cases "held = []")
    case True
    then show ?thesis
      using w' rtos_shutdown_empty [of w'] by (fastforce simp: rtos_inv_def)
  next
    case False
    then have "begin_shutdown (rw_lifecycle w') = (Err Busy, rw_lifecycle w')"
      using begin_shutdown_word [OF prod.collapse [symmetric, of "begin_shutdown (rw_lifecycle w')"]] w'
      by (simp add: rtos_state_def rtos_active_objects_def prod_eq_iff)
    then show ?thesis using w' False by (simp add: freertos_shutdown_def on_rtos_lifecycle_def)
  qed
qed

text \<open>C18. The FreeRTOS runtime and its objects: after a successful \<open>initialize\<close>, over any
  sequence of constructions of queues, semaphores, mutexes and tasks (each may fail), clones and drops of handles,
  and ends of tasks, the active-object count is the number of objects that still have an owner, a handle or their
  running task, and \<open>shutdown\<close> succeeds exactly when there is none, reporting \<open>Busy\<close> otherwise, whatever the caller
  and the outcome of native waits. A task whose handles are all dropped keeps the runtime busy until it has ended.\<close>

theorem freertos_shutdown_iff_no_objects:
  assumes "freertos_initialize N (rtos_world_initial k) = (Ok (), w)"
    and "run_handles (rtos_create N reserve) (rtos_destroy N) rtos_spawns w [] ops = Some (w', alive)"
  shows "unat (rtos_active_objects w') = length alive \<and> list_all has_owner alive
    \<and> (\<exists>w''. freertos_shutdown N self ws w' = Some (if alive = [] then Ok () else Err Busy, w''))"
proof -
  obtain ops' where "run_objects (rtos_create N reserve) (rtos_destroy N) w [] ops' = Some (w', map fst alive)"
      "list_all has_owner alive"
    using run_handles_objects [OF assms(2)] by auto
  then show ?thesis using shutdown_objects [OF assms(1), of reserve ops' w' "map fst alive" self ws] by simp
qed

context native_objects
begin

lemma initialize_err_live:
  fixes w :: "('k, 'cb) rtos_world"
  assumes "ninv k" and "freertos_initialize N (rtos_world_initial k) = (Err e, w)"
  shows "live (rw_native w) = live k"
proof -
  obtain r :: "'cb timer_service res" and k' where r: "timer_service_new N k = (r, k')"
    by (rule prod.exhaust)
  note C = freertos_initialize_cases [OF initial_world_facts(1-3), unfolded initial_world_facts(4), OF r]
  show ?thesis
  proof (cases r)
    case (Ok s)
    then show ?thesis using C(1) assms(2) by auto
  next
    case (Err e')
    then show ?thesis using C(2) assms(2) service_new_balanced [OF r assms(1)] by (auto simp: balanced_def)
  next
    case (Panic e)
    then show ?thesis using timer_service_new_no_panic r by metis
  qed
qed

lemma run_no_leak:
  fixes w :: "('k, 'cb) rtos_world"
  assumes "ninv k" and init: "freertos_initialize N (rtos_world_initial k) = (Ok (), w)"
    and "length ops < 2 ^ 64 - 2"
    and run: "run_objects (rtos_create N reserve) (rtos_destroy N) w [] ops = Some (w', held)"
  shows "\<exists>s :: 'cb timer_service. live (rw_native w') = live k \<union> service_owned s \<union> \<Union> (rtos_owned ` set held)
    \<and> disjoint_sets (live k # service_owned s # map rtos_owned held)
    \<and> (held = [] \<longrightarrow> (\<exists>w''. freertos_shutdown N self ws w' = Some (Ok (), w'')
          \<and> live (rw_native w'') = live k))"
proof -
  obtain s where s: "timer_service_new N k = (Ok s, rw_native w)" "rw_slot w = SlotRunning s None"
    "sv_timers (sv_state s) = []" "rtos_state w = Running" "unat (rtos_active_objects w) = 0"
    "rw_next_handle w = 1" "rtos_inv w"
    using initialize_ok [OF init] .
  have svc: "ninv (rw_native w)" "service_owned s \<inter> live k = {}" "live (rw_native w) = live k \<union> service_owned s"
    using service_new_balanced [OF s(1) assms(1)] by (simp_all add: balanced_def)
  have acc: "accounted (live k \<union> service_owned s) [] (live (rw_native w))"
    using svc by (simp add: accounted_def)
  have run': "ninv (rw_native w')" "accounted (live k \<union> service_owned s) held (live (rw_native w'))"
    using run_accounted [OF acc svc(1) _ _ run] s(6) assms(3) by auto
  have w': "rw_slot w' = rw_slot w" by (rule run_slot [OF run])
  have inv': "unat (rtos_active_objects w') = length held" "rtos_state w' = Running"
    using rtos.run_objects_active [OF s(7) _ s(4) run] s(5) by auto
  have "\<exists>w''. freertos_shutdown N self ws w' = Some (Ok (), w'') \<and> live (rw_native w'') = live k"
    if "held = []"
  proof -
    have slot: "rw_slot w' = SlotRunning s None" using w' s(2) by simp
    have none: "unat (rtos_active_objects w') = 0" using inv'(1) that by simp
    obtain w'' st where w'': "freertos_shutdown N self ws w' = Some (Ok (), w'')"
        "rw_native w'' = timer_service_delete N (s\<lparr>sv_state := st\<rparr>) (rw_native w')"
      using rtos_shutdown_empty [OF inv'(2) none slot s(3), of N self ws] by blast
    have "live (rw_native w') = live k \<union> service_owned s" using run'(2) that by (simp add: accounted_def)
    then have "live (rw_native w'') = live k"
      using w''(2) service_delete_live [OF run'(1), of "s\<lparr>sv_state := st\<rparr>"] svc(2) by auto
    then show ?thesis using w''(1) by blast
  qed
  then show ?thesis
    using run'(2) svc(2) unfolding accounted_def by (intro exI [of _ s]) auto
qed

end

text \<open>C17. No native object leaks: on any native kernel whose creations and deletions keep the
  contract, whatever creations fail, after any sequence of fewer than 2^64 - 2 constructions, clones and drops of handles
  and ends of tasks the live native objects are those from before \<open>initialize\<close>, the three of the timer
  service, and those owned by the objects that still have a handle or a running task, all disjoint; when
  there is none, \<open>shutdown\<close> succeeds and leaves exactly those from before. A failed \<open>initialize\<close> leaves
  nothing behind either.\<close>

theorem freertos_no_native_leak:
  fixes w :: "('k, 'cb) rtos_world"
  assumes "native_objects N live ninv" and "ninv k"
    and "freertos_initialize N (rtos_world_initial k) = (r, w)"
  shows "(\<forall>e. r = Err e \<longrightarrow> live (rw_native w) = live k)
    \<and> (\<forall>ops reserve w' alive. r = Ok () \<and> length ops < 2 ^ 64 - 2
        \<and> run_handles (rtos_create N reserve) (rtos_destroy N) rtos_spawns w [] ops = Some (w', alive) \<longrightarrow>
        (\<exists>s :: 'cb timer_service. live (rw_native w') = live k \<union> service_owned s \<union> \<Union> (rtos_owned ` fst ` set alive)
          \<and> disjoint_sets (live k # service_owned s # map (rtos_owned \<circ> fst) alive)
          \<and> (alive = [] \<longrightarrow> (\<exists>w''. freertos_shutdown N self ws w' = Some (Ok (), w'')
                \<and> live (rw_native w'') = live k))))"
proof (intro conjI allI impI)
  fix e
  assume "r = Err e"
  then show "live (rw_native w) = live k"
    using native_objects.initialize_err_live [OF assms(1,2)] assms(3) by blast
next
  fix ops reserve w' alive
  assume a: "r = Ok () \<and> length ops < 2 ^ 64 - 2
      \<and> run_handles (rtos_create N reserve) (rtos_destroy N) rtos_spawns w [] ops = Some (w', alive)"
  then obtain ops' where run: "run_objects (rtos_create N reserve) (rtos_destroy N) w [] ops' = Some (w', map fst alive)"
      and len: "length ops' \<le> length ops"
    using run_handles_objects [of "rtos_create N reserve" "rtos_destroy N" rtos_spawns w "[]" ops w' alive] by auto
  have "freertos_initialize N (rtos_world_initial k) = (Ok (), w)" "length ops' < 2 ^ 64 - 2"
    using a assms(3) len by auto
  from native_objects.run_no_leak [OF assms(1,2) this run, of self ws]
  show "\<exists>s :: 'cb timer_service. live (rw_native w') = live k \<union> service_owned s \<union> \<Union> (rtos_owned ` fst ` set alive)
      \<and> disjoint_sets (live k # service_owned s # map (rtos_owned \<circ> fst) alive)
      \<and> (alive = [] \<longrightarrow> (\<exists>w''. freertos_shutdown N self ws w' = Some (Ok (), w'')
            \<and> live (rw_native w'') = live k))"
    by (simp add: image_image)
qed

section \<open>Witnesses\<close>

lemma host_initial_ok: "host_ok host_initial" "host_live host_initial = {}"
  by (simp_all add: host_ok_def host_live_def host_initial_def fixture_initial_def task_fixture_initial_def)

definition demo_service :: "nat timer_service" where
  "demo_service = \<lparr>sv_registry_mutex = 1, sv_wake_sem = 2, sv_completion_eg = 1, sv_locked = False, sv_state = service_state_new\<rparr>"

lemma demo_service_new: "fst (timer_service_new host_native host_initial) = Ok demo_service"
  by (simp add: timer_service_new_def host_native_def on_sync_def on_tasks_def host_initial_def
    fixture_mutex_create_def fixture_binary_semaphore_create_def fixture_counting_semaphore_create_def
    fixture_event_group_create_def fixture_initial_def task_fixture_initial_def Let_def demo_service_def)

lemma demo_init:
  obtains w :: "(host, nat) rtos_world" where
    "freertos_initialize host_native (rtos_world_initial host_initial) = (Ok (), w)"
proof -
  obtain k' where "timer_service_new host_native host_initial = (Ok demo_service, k')"
    using demo_service_new by (metis prod.collapse)
  from freertos_initialize_cases(1) [OF initial_world_facts(1-3), unfolded initial_world_facts(4), OF this refl]
  show ?thesis using that by blast
qed

text \<open>A task is spawned and its handle cloned and dropped twice while it runs.\<close>

definition demo_ops :: "rtos_ctor handle_op list" where
  "demo_ops = [New (CtorTask rtos_task_builder_new), CloneHandle 0, DropHandle 0, DropHandle 0]"

lemma demo_stack:
  "stack_bytes_to_words (rtb_stack_size rtos_task_builder_new) (unat (cap_stack_word_size fixture_caps))
      (unat (cap_minimal_stack_depth_words fixture_caps)) (unat (cap_max_stack_depth_words fixture_caps)) = Ok 1024"
  by (simp add: stack_bytes_to_words_def rtos_task_builder_new_def fixture_caps_def checked_add_def ok_or_def
    usize_max_def unat_max_word)

lemma demo_spawn:
  fixes w :: "(host, nat) rtos_world"
  assumes "rw_lifecycle w = 2" and "rw_caps w = Some fixture_caps" and "rw_next_handle w = 1"
    and "rw_native w = snd (timer_service_new host_native host_initial :: nat timer_service res \<times> host)"
  shows "\<exists>w' t. rtos_task_spawn host_native rtos_task_builder_new w = (Ok t, w') \<and> rtk_event_group t = 2"
proof -
  have "acquire 2 = (Ok (), 6)" by code_simp
  moreover have "validate_task_config (rtb_name rtos_task_builder_new) (rtb_stack_size rtos_task_builder_new) = Ok ()" by code_simp
  ultimately show ?thesis
    using assms demo_stack
    by (simp add: rtos_task_spawn_def rtos_leased_def rtos_acquire_object_def on_rtos_lifecycle_def rtos_task_body_def
      native_create_def on_native_def timer_service_new_def host_native_def on_sync_def on_tasks_def host_initial_def
      fixture_mutex_create_def fixture_binary_semaphore_create_def fixture_counting_semaphore_create_def
      fixture_event_group_create_def fixture_initial_def task_fixture_initial_def Let_def rtos_task_start_def
      rtos_allocate_task_handle_def handle_from_raw_def ok_or_def native_task_name_def fixture_task_create_def
      fixture_caps_def checked_sub_def)
qed

lemma demo_handles_run:
  "\<exists>w w' t. freertos_initialize host_native (rtos_world_initial host_initial) = (Ok (), w :: (host, nat) rtos_world)
    \<and> run_handles (rtos_create host_native (\<lambda>_. True)) (rtos_destroy host_native) rtos_spawns w [] demo_ops
        = Some (w', [(RtosTask t, 0, True)]) \<and> rtk_event_group t = 2"
proof -
  obtain k where new: "timer_service_new host_native host_initial = (Ok demo_service, k)"
    using demo_service_new by (metis prod.collapse)
  let ?w = "\<lparr>rw_lifecycle = 2, rw_caps = Some fixture_caps, rw_slot = SlotRunning demo_service None, rw_native = k,
    rw_next_handle = 1\<rparr> :: (host, nat) rtos_world"
  have "begin_initialize lifecycle_new = (Ok (), 1)" "initialize_commit 1 = (Ok (), 2)" by code_simp+
  moreover have "nv_capabilities host_native = fixture_caps" by (simp add: host_native_def)
  ultimately have init: "freertos_initialize host_native (rtos_world_initial host_initial) = (Ok (), ?w)"
    using new by (simp add: freertos_initialize_def on_rtos_lifecycle_def rtos_world_initial_def timer_service_initialize_def on_native_def)
  obtain w' t where "rtos_task_spawn host_native rtos_task_builder_new ?w = (Ok t, w')" "rtk_event_group t = 2"
    using demo_spawn [of ?w] new by auto
  then show ?thesis using init by (auto simp: demo_ops_def drop_owner_def)
qed

theorem freertos_shutdown_iff_no_objects_witness:
  "\<exists>w w' w'' t. freertos_initialize host_native (rtos_world_initial host_initial) = (Ok (), w :: (host, nat) rtos_world)
    \<and> run_handles (rtos_create host_native (\<lambda>_. True)) (rtos_destroy host_native) rtos_spawns w [] demo_ops
        = Some (w', [(RtosTask t, 0, True)])
    \<and> unat (rtos_active_objects w') = 1 \<and> freertos_shutdown host_native False [] w' = Some (Err Busy, w'')"
proof -
  obtain w :: "(host, nat) rtos_world" and w' t where
    w: "freertos_initialize host_native (rtos_world_initial host_initial) = (Ok (), w)"
      "run_handles (rtos_create host_native (\<lambda>_. True)) (rtos_destroy host_native) rtos_spawns w [] demo_ops
        = Some (w', [(RtosTask t, 0, True)])"
    using demo_handles_run by blast
  then show ?thesis using freertos_shutdown_iff_no_objects [OF w, of False "[]"] by auto
qed

theorem freertos_no_native_leak_witness:
  "\<exists>w w' s. freertos_initialize host_native (rtos_world_initial host_initial) = (Ok (), w :: (host, nat) rtos_world)
    \<and> run_handles (rtos_create host_native (\<lambda>_. True)) (rtos_destroy host_native) rtos_spawns w [] demo_ops = Some (w', s)
    \<and> NativeEvent 2 \<in> host_live (rw_native w')"
proof -
  obtain w :: "(host, nat) rtos_world" and w' t where
    w: "freertos_initialize host_native (rtos_world_initial host_initial) = (Ok (), w)"
    and run: "run_handles (rtos_create host_native (\<lambda>_. True)) (rtos_destroy host_native) rtos_spawns w [] demo_ops
        = Some (w', [(RtosTask t, 0, True)])" and t: "rtk_event_group t = 2"
    using demo_handles_run by blast
  have len: "length demo_ops < 2 ^ 64 - 2" by (simp add: demo_ops_def)
  from conjunct2 [OF freertos_no_native_leak [OF hostnat.native_objects_axioms host_initial_ok(1) w],
      rule_format, OF conjI [OF refl conjI [OF len run]]]
  have "NativeEvent 2 \<in> host_live (rw_native w')" using t by auto
  then show ?thesis using w run by blast
qed

text \<open>C23. The one way to leak: when the handle counter is exhausted, \<open>spawn\<close> reports
  \<open>Overflow\<close> and drops its lease, but the event group it created before asking for a handle
  stays alive, owned by nobody.\<close>

theorem freertos_spawn_overflow_leaks:
  assumes "native_objects N live ninv" and "ninv (rw_native w)"
    and "rw_next_handle w = - 1" and "rw_caps w = Some caps"
    and "stack_bytes_to_words (rtb_stack_size b) (unat (cap_stack_word_size caps))
           (unat (cap_minimal_stack_depth_words caps)) (unat (cap_max_stack_depth_words caps)) = Ok words"
    and "nv_event_create N (rw_native w) = (Some eg, k')"
  shows "\<exists>w'. rtos_task_body N b w = (Err Overflow, w')
    \<and> live (rw_native w') = insert (NativeEvent eg) (live (rw_native w)) \<and> NativeEvent eg \<notin> live (rw_native w)"
proof -
  have "NativeEvent eg \<notin> live (rw_native w) \<and> live k' = insert (NativeEvent eg) (live (rw_native w))"
    using native_createsD(3) [OF native_objects.event_create [OF assms(1)] assms(2,6)] by simp
  then show ?thesis
    using assms(3-6) by (simp add: rtos_task_body_def rtos_task_start_def native_create_def on_native_def
      ok_or_def rtos_allocate_task_handle_def)
qed

theorem freertos_spawn_overflow_leaks_witness:
  "\<exists>w' :: (host, nat) rtos_world. rtos_task_body host_native rtos_task_builder_new
      (rtos_world_initial host_initial\<lparr>rw_next_handle := - 1, rw_caps := Some fixture_caps\<rparr>) = (Err Overflow, w')
    \<and> host_live (rw_native w') = {NativeEvent 1}"
proof -
  let ?w = "rtos_world_initial host_initial\<lparr>rw_next_handle := - 1, rw_caps := Some fixture_caps\<rparr> :: (host, nat) rtos_world"
  obtain k' where ev: "nv_event_create host_native (rw_native ?w) = (Some 1, k')"
    by (simp add: host_native_def on_tasks_def fixture_event_group_create_def host_initial_def
      task_fixture_initial_def rtos_world_initial_def Let_def)
  show ?thesis
    using freertos_spawn_overflow_leaks [OF hostnat.native_objects_axioms _ _ _ demo_stack ev] host_initial_ok
    by (simp add: rtos_world_initial_def)
qed

end
