(* ===== verification/Freertos_Timer_Api.thy ===== *)
theory Freertos_Timer_Api
  imports Freertos_Native
begin

text \<open>
  The timer handles of the FreeRTOS backend (src/crates/osal-backend-freertos/src/timer.rs) and
  the calls of timer_service.rs behind them: access to the registry through the control slot,
  lazy creation of the worker task, and the six operations. A handle is the id of its
  registry entry; its lease keeps the runtime from shutting down.
\<close>

section \<open>Registry access\<close>

text \<open>\<open>with_lock\<close>: the registry mutex is taken (with a zero timeout while the scheduler is suspended, else with an
  endless one), and given back after the access. It is free between the calls of a client and the worker's own accesses; a call that
  finds it held does not get it, which the assertion after the take reports.\<close>

definition with_lock ::
  "('cb service_state \<Rightarrow> 'a res \<times> 'cb service_state) \<Rightarrow> 'cb timer_service \<Rightarrow> 'a res \<times> 'cb timer_service" where
  "with_lock f s =
     (if sv_locked s then (Panic ''registry mutex dead'', s)
      else let s1 = s\<lparr>sv_locked := True\<rparr> in
        case f (sv_state s1) of (r, st) \<Rightarrow> (r, s1\<lparr>sv_state := st, sv_locked := False\<rparr>))"

definition with_registry ::
  "('cb service_state \<Rightarrow> 'a res \<times> 'cb service_state) \<Rightarrow> ('k, 'cb) rtos_world \<Rightarrow> 'a res \<times> ('k, 'cb) rtos_world" where
  "with_registry f w =
     (case rw_slot w of
        SlotRunning s worker \<Rightarrow>
          (case with_lock f s of (r, s1) \<Rightarrow> (r, w\<lparr>rw_slot := SlotRunning s1 worker\<rparr>))
      | SlotStopped \<Rightarrow> (Err NotInitialized, w)
      | SlotStopping _ \<Rightarrow> (Err Busy, w))"

lemma with_lock_free:
  "\<not> sv_locked s \<Longrightarrow> with_lock f s = (case f (sv_state s) of (r, st) \<Rightarrow> (r, s\<lparr>sv_state := st\<rparr>))"
  by (cases s) (auto simp: with_lock_def split: prod.splits)

section \<open>Lazy worker creation\<close>

definition ensure_worker :: "'k native \<Rightarrow> ('k, 'cb) rtos_world \<Rightarrow> unit res \<times> ('k, 'cb) rtos_world" where
  "ensure_worker N w =
     (case rw_slot w of
        SlotRunning s worker \<Rightarrow>
          st_bind (scheduler_preflight (nv_scheduler N (rw_native w)), w) (\<lambda>_ w.
            if worker \<noteq> None then (Ok (), w)
            else
              st_bind (ok_or (rw_caps w) NotInitialized, w) (\<lambda>caps w.
              st_bind (stack_bytes_to_words 4096 (unat (cap_stack_word_size caps))
                         (unat (cap_minimal_stack_depth_words caps)) (unat (cap_max_stack_depth_words caps)), w)
                (\<lambda>stack_words w.
                  let priority = (if cap_max_priorities caps = 0 then 0 else cap_max_priorities caps - 1) in
                  case on_native (nv_internal_task_create N (word_of_nat stack_words) priority) w of
                    (Some h, w) \<Rightarrow> (Ok (), w\<lparr>rw_slot := SlotRunning s (Some h)\<rparr>)
                  | (None, w) \<Rightarrow> (Err OutOfMemory, w))))
      | SlotStopped \<Rightarrow> (Err NotInitialized, w)
      | SlotStopping _ \<Rightarrow> (Err Busy, w))"

section \<open>Timer handles\<close>

definition rtos_timer_new ::
  "bool \<Rightarrow> duration \<Rightarrow> timer_mode \<Rightarrow> 'cb \<Rightarrow> ('k, 'cb) rtos_world \<Rightarrow> nat res \<times> ('k, 'cb) rtos_world" where
  "rtos_timer_new reserve period mode cb w =
     (if period = duration_zero then (Err InvalidParameter, w)
      else rtos_leased (with_registry (service_register reserve period mode cb)) w)"

text \<open>The drop of the last handle; the assertion is the one of debug builds.\<close>

definition rtos_timer_drop :: "nat \<Rightarrow> ('k, 'cb) rtos_world \<Rightarrow> unit res \<times> ('k, 'cb) rtos_world" where
  "rtos_timer_drop tid w =
     (case with_registry (service_deregister tid) w of
        (Ok _, w1) \<Rightarrow> rtos_lease_drop w1
      | (_, w1) \<Rightarrow> (Panic ''live timer deregistration failed'', w1))"

definition rtos_timer_start ::
  "'k native \<Rightarrow> duration \<Rightarrow> nat \<Rightarrow> ('k, 'cb) rtos_world \<Rightarrow> unit res \<times> ('k, 'cb) rtos_world" where
  "rtos_timer_start N now tid w =
     st_bind (ensure_worker N w) (\<lambda>_ w. with_registry (service_start now tid) w)"

definition rtos_timer_stop :: "nat \<Rightarrow> ('k, 'cb) rtos_world \<Rightarrow> unit res \<times> ('k, 'cb) rtos_world" where
  "rtos_timer_stop tid = with_registry (service_stop tid)"

definition rtos_timer_reset ::
  "'k native \<Rightarrow> duration \<Rightarrow> nat \<Rightarrow> ('k, 'cb) rtos_world \<Rightarrow> unit res \<times> ('k, 'cb) rtos_world" where
  "rtos_timer_reset N now tid w =
     st_bind (ensure_worker N w) (\<lambda>_ w. with_registry (service_reset now tid) w)"

definition rtos_timer_change_period ::
  "nat \<Rightarrow> duration \<Rightarrow> ('k, 'cb) rtos_world \<Rightarrow> unit res \<times> ('k, 'cb) rtos_world" where
  "rtos_timer_change_period tid p w =
     (if p = duration_zero then (Err InvalidParameter, w)
      else with_registry (service_change_period tid p) w)"

section \<open>Histories\<close>

text \<open>Calls on the handles a client holds (by position), and what the worker does to the
  registry between them: a scan, and the restoration of a callback.\<close>

datatype 'cb timer_call =
    CallNew bool duration timer_mode 'cb
  | CallDrop nat
  | CallStart duration nat
  | CallStop nat
  | CallReset duration nat
  | CallChangePeriod nat duration
  | WorkerScan duration
  | WorkerRestore nat 'cb

fun exec_timer_call ::
  "'k native \<Rightarrow> 'cb timer_call \<Rightarrow> ('k, 'cb) rtos_world \<Rightarrow> nat list \<Rightarrow> unit res \<times> ('k, 'cb) rtos_world \<times> nat list" where
  "exec_timer_call N (CallNew reserve p m cb) w held =
     (case rtos_timer_new reserve p m cb w of
        (Ok tid, w') \<Rightarrow> (Ok (), w', held @ [tid])
      | (Err e, w') \<Rightarrow> (Err e, w', held)
      | (Panic s, w') \<Rightarrow> (Panic s, w', held))"
| "exec_timer_call N (CallDrop i) w held =
     (if i < length held
      then (case rtos_timer_drop (held ! i) w of (r, w') \<Rightarrow> (r, w', take i held @ drop (Suc i) held))
      else (Ok (), w, held))"
| "exec_timer_call N (CallStart now i) w held =
     (if i < length held then (case rtos_timer_start N now (held ! i) w of (r, w') \<Rightarrow> (r, w', held))
      else (Ok (), w, held))"
| "exec_timer_call N (CallStop i) w held =
     (if i < length held then (case rtos_timer_stop (held ! i) w of (r, w') \<Rightarrow> (r, w', held))
      else (Ok (), w, held))"
| "exec_timer_call N (CallReset now i) w held =
     (if i < length held then (case rtos_timer_reset N now (held ! i) w of (r, w') \<Rightarrow> (r, w', held))
      else (Ok (), w, held))"
| "exec_timer_call N (CallChangePeriod i p) w held =
     (if i < length held then (case rtos_timer_change_period (held ! i) p w of (r, w') \<Rightarrow> (r, w', held))
      else (Ok (), w, held))"
| "exec_timer_call N (WorkerScan now) w held =
     (case with_registry (\<lambda>sv. (Ok (), snd (service_scan now sv))) w of (r, w') \<Rightarrow> (Ok (), w', held))"
| "exec_timer_call N (WorkerRestore tid cb) w held =
     (case with_registry (\<lambda>sv. (Ok (), snd (restore_service_callback tid cb sv))) w of (r, w') \<Rightarrow> (Ok (), w', held))"

primrec run_timers ::
  "'k native \<Rightarrow> 'cb timer_call list \<Rightarrow> ('k, 'cb) rtos_world \<Rightarrow> nat list
    \<Rightarrow> unit res list \<times> ('k, 'cb) rtos_world \<times> nat list" where
  "run_timers N [] w held = ([], w, held)"
| "run_timers N (c # cs) w held =
     (case exec_timer_call N c w held of (r, w1, held1) \<Rightarrow>
      case run_timers N cs w1 held1 of (rs, w2, held2) \<Rightarrow> (r # rs, w2, held2))"

section \<open>Invariant\<close>

text \<open>The running service holds exactly the handles of the client, and each one a lease.\<close>

definition timers_inv :: "('k, 'cb) rtos_world \<Rightarrow> nat list \<Rightarrow> bool" where
  "timers_inv w held =
     (rtos_state w = Running \<and> unat (rtos_active_objects w) = length held
      \<and> (\<exists>s worker. rw_slot w = SlotRunning s worker \<and> \<not> sv_locked s \<and> sv_inv (sv_state s) \<and> live_ids (sv_state s) = held))"

lemma service_scan_live:
  assumes "sv_inv sv"
  shows "live_ids (snd (service_scan now sv)) = live_ids sv"
proof -
  define sv1 where "sv1 = retain_live sv"
  have "live_ids (snd (service_scan now sv)) = live_ids sv1"
    unfolding service_scan_def sv1_def [symmetric] Let_def
    by (auto simp: live_ids_update dest!: best_expired_Some split: option.splits prod.splits bool.splits)
  then show ?thesis by (simp add: sv1_def)
qed

lemma service_scan_inv:
  assumes "sv_inv sv"
  shows "sv_inv (snd (service_scan now sv))"
proof -
  define sv1 where "sv1 = retain_live sv"
  have inv1: "sv_inv sv1" using service_ops_inv(7) [OF assms] by (simp add: sv1_def)
  have upd: "sv_inv (sv1\<lparr>sv_timers := (sv_timers sv1)[i := (sv_timers sv1 ! i)\<lparr>se_state := t, se_callback := c\<rparr>]\<rparr>)"
    "sv_inv (sv1\<lparr>sv_timers := (sv_timers sv1)[i := (sv_timers sv1 ! i)\<lparr>se_state := t\<rparr>]\<rparr>)"
    if "best_expired now (sv_timers sv1) = Some (i, k)" "advance_on_expiry (se_state (sv_timers sv1 ! i)) now = (b, t)"
    for i k b t c
  proof -
    have i: "i < length (sv_timers sv1)" using best_expired_Some that(1) by (cases k) blast
    then have "ts_inv (se_state (sv_timers sv1 ! i))" using inv1 by (auto simp: sv_inv_def)
    then have "ts_inv t" using that(2) ts_ops_inv(5) by blast
    then show "sv_inv (sv1\<lparr>sv_timers := (sv_timers sv1)[i := (sv_timers sv1 ! i)\<lparr>se_state := t, se_callback := c\<rparr>]\<rparr>)"
      "sv_inv (sv1\<lparr>sv_timers := (sv_timers sv1)[i := (sv_timers sv1 ! i)\<lparr>se_state := t\<rparr>]\<rparr>)"
      using sv_inv_update [OF inv1 i] by simp_all
  qed
  show ?thesis
    unfolding service_scan_def sv1_def [symmetric] Let_def
    by (auto simp: inv1 upd split: option.splits prod.splits bool.splits)
qed

lemma restore_inv:
  assumes "sv_inv sv"
  shows "sv_inv (snd (restore_service_callback tid cb sv))"
proof (cases "position (\<lambda>e. se_id e = tid \<and> \<not> se_deleted e) (sv_timers sv)")
  case None
  then show ?thesis using assms by (simp add: restore_service_callback_def)
next
  case (Some i)
  have "i < length (sv_timers sv)" using position_Some [OF Some] by blast
  moreover from this have "ts_inv (se_state (sv_timers sv ! i))" using assms by (auto simp: sv_inv_def)
  ultimately show ?thesis
    using sv_inv_update [OF assms] assms Some by (auto simp: restore_service_callback_def)
qed

text \<open>A call that only touches the registry, keeping its handles.\<close>

lemma with_registry_inv:
  assumes "timers_inv w held" and "with_registry f w = (r, w')"
    and "\<And>sv q sv'. sv_inv sv \<Longrightarrow> live_ids sv = held \<Longrightarrow> f sv = (q, sv') \<Longrightarrow> sv_inv sv' \<and> live_ids sv' = held \<and> P q"
  shows "timers_inv w' held \<and> P r"
proof -
  obtain s worker where s: "rw_slot w = SlotRunning s worker" "sv_inv (sv_state s)" "live_ids (sv_state s) = held" "\<not> sv_locked s"
    using assms(1) by (auto simp: timers_inv_def)
  obtain q st where q: "f (sv_state s) = (q, st)" by (cases "f (sv_state s)")
  have "r = q" "w' = w\<lparr>rw_slot := SlotRunning (s\<lparr>sv_state := st\<rparr>) worker\<rparr>"
    using assms(2) s(1) q by (simp_all add: with_registry_def with_lock_free s(4))
  then show ?thesis using assms(1) assms(3) [OF s(2,3) q] s(4) by (auto simp: timers_inv_def)
qed

lemma ensure_worker_inv:
  assumes "timers_inv w held" and "ensure_worker N w = (r, w')"
  shows "timers_inv w' held \<and> \<not> is_panic r \<and> r \<noteq> Err NotFound"
proof -
  obtain s worker where s: "rw_slot w = SlotRunning s worker" "sv_inv (sv_state s)" "live_ids (sv_state s) = held" "\<not> sv_locked s"
    using assms(1) by (auto simp: timers_inv_def)
  have stack: "stack_bytes_to_words a b c d \<noteq> Panic e" "stack_bytes_to_words a b c d \<noteq> Err NotFound" for a b c d e
    by (auto simp: stack_bytes_to_words_def checked_add_def ok_or_def Let_def split: if_splits)
  note run = assms(2) [unfolded ensure_worker_def s(1) service_slot.case]
  show ?thesis
  proof (cases "scheduler_preflight (nv_scheduler N (rw_native w))")
    case (Ok u)
    note run1 = run [unfolded Ok st_bind.simps]
    show ?thesis
    proof (cases worker)
      case (Some h)
      then have "r = Ok ()" "w' = w" using run1 by simp_all
      then show ?thesis using assms(1) by simp
    next
      case None
      note run2 = run1 [unfolded None, simplified]
      show ?thesis
      proof (cases "rw_caps w")
        case None
        then have "r = Err NotInitialized" "w' = w" using run2 by (simp_all add: ok_or_def)
        then show ?thesis using assms(1) by simp
      next
        case (Some caps)
        let ?words = "stack_bytes_to_words 4096 (unat (cap_stack_word_size caps))
          (unat (cap_minimal_stack_depth_words caps)) (unat (cap_max_stack_depth_words caps))"
        show ?thesis
        proof (cases ?words)
          case words: (Ok words)
          show ?thesis
            using run2 Some words assms(1) s
            by (auto simp: ok_or_def on_native_def Let_def timers_inv_def split: option.splits prod.splits)
        next
          case (Err e)
          then have "r = Err e" "w' = w" using run2 Some by (simp_all add: ok_or_def)
          then show ?thesis using assms(1) stack(2) Err by fastforce
        next
          case (Panic e)
          then show ?thesis using stack(1) by blast
        qed
      qed
    qed
  qed (use run assms(1) in \<open>auto simp: scheduler_preflight_def split: scheduler_state.splits\<close>)
qed

lemma with_registry_lifecycle: "keeps_lifecycle (with_registry f)"
  by (rule keeps_lifecycleI) (auto simp: with_registry_def split: service_slot.splits prod.splits)

lemma timer_new_inv:
  assumes "timers_inv w held" and "rtos_timer_new reserve p m cb w = (r, w')"
  shows "(\<exists>tid. r = Ok tid \<and> timers_inv w' (held @ [tid])) \<or> (\<exists>e. r = Err e \<and> timers_inv w' held)"
proof (cases "p = duration_zero")
  case True
  then show ?thesis using assms by (auto simp: rtos_timer_new_def)
next
  case False
  then have run: "rtos_leased (with_registry (service_register reserve p m cb)) w = (r, w')"
    using assms(2) by (simp add: rtos_timer_new_def)
  note eff = rtos_leased_cases(1) [OF with_registry_lifecycle run]
  obtain s worker where s: "rw_slot w = SlotRunning s worker" "sv_inv (sv_state s)" "live_ids (sv_state s) = held" "\<not> sv_locked s"
    using assms(1) by (auto simp: timers_inv_def)
  obtain q st where q: "service_register reserve p m cb (sv_state s) = (q, st)"
    by (cases "service_register reserve p m cb (sv_state s)")
  note inv = service_ops_inv(6) [OF s(2) q] and live = service_register_live [OF q]
  from rtos_leased_cases(2) [OF with_registry_lifecycle run]
  show ?thesis
  proof (elim disjE exE conjE)
    fix e assume "r = Err e" "w' = w"
    then show ?thesis using assms(1) by simp
  next
    fix x w2
    assume "with_registry (service_register reserve p m cb) (w\<lparr>rw_lifecycle := x\<rparr>) = (r, w2)" "rw_slot w' = rw_slot w2"
    then have r: "r = q" "rw_slot w' = SlotRunning (s\<lparr>sv_state := st\<rparr>) worker"
      using s(1) q by (auto simp: with_registry_def with_lock_free s(4))
    from live show ?thesis
    proof (elim disjE exE conjE)
      fix tid assume t: "q = Ok tid" "live_ids st = live_ids (sv_state s) @ [tid]"
      then have "rtos_state w' = Running" "unat (rtos_active_objects w') = Suc (length held)"
        using eff r assms(1) by (simp_all add: rtos_effect_def timers_inv_def)
      then have "timers_inv w' (held @ [tid])" using r t inv s(3,4) by (simp add: timers_inv_def)
      then show ?thesis using r t by simp
    next
      fix e assume t: "q = Err e" "st = sv_state s"
      then have "rtos_state w' = Running" "unat (rtos_active_objects w') = length held"
        using eff r assms(1) by (simp_all add: rtos_effect_def timers_inv_def)
      then have "timers_inv w' held" using r t s by (simp add: timers_inv_def)
      then show ?thesis using r t by simp
    qed
  qed
qed

lemma removeAll_nth:
  assumes "distinct xs" and "i < length xs"
  shows "removeAll (xs ! i) xs = take i xs @ drop (Suc i) xs"
proof -
  obtain A B where A: "xs = A @ xs ! i # B" "length A = i"
    using id_take_nth_drop [OF assms(2)] assms(2) by (metis length_take min.absorb4)
  then have "xs ! i \<notin> set A" "xs ! i \<notin> set B" using assms(1) by (metis distinct.simps(2) distinct_append
      disjoint_insert(1) insert_iff list.set(2) not_distinct_conv_prefix UnCI set_append)+
  then have "removeAll (xs ! i) (A @ xs ! i # B) = A @ B" by simp
  moreover have "take i (A @ xs ! i # B) = A" "drop (Suc i) (A @ xs ! i # B) = B" using A(2) by auto
  ultimately show ?thesis using A(1) by metis
qed

lemma timer_drop_inv:
  assumes "timers_inv w held" and "i < length held"
  shows "\<exists>w'. rtos_timer_drop (held ! i) w = (Ok (), w') \<and> timers_inv w' (take i held @ drop (Suc i) held)"
proof -
  obtain s worker where s: "rw_slot w = SlotRunning s worker" "sv_inv (sv_state s)" "live_ids (sv_state s) = held" "\<not> sv_locked s"
    using assms(1) by (auto simp: timers_inv_def)
  obtain q st where q: "service_deregister (held ! i) (sv_state s) = (q, st)"
    by (cases "service_deregister (held ! i) (sv_state s)")
  have "held ! i \<in> set (live_ids (sv_state s))" using s(3) assms(2) by simp
  from service_deregister_live [OF s(2) this q] obtain c
    where c: "q = Ok c" "live_ids st = removeAll (held ! i) held" using s(3) by (cases q) auto
  have live: "live_ids st = take i held @ drop (Suc i) held"
    using c(2) removeAll_nth [OF _ assms(2)] live_ids_distinct [OF s(2)] s(3) by simp
  let ?w = "w\<lparr>rw_slot := SlotRunning (s\<lparr>sv_state := st\<rparr>) worker\<rparr>"
  obtain w' where w': "rtos_lease_drop ?w = (Ok (), w')" "rtos_state w' = Running"
      "Suc (unat (rtos_active_objects w')) = unat (rtos_active_objects ?w)" "rw_slot w' = rw_slot ?w"
  proof (rule rtos_lease_drop_cases)
    show "rtos_state ?w = Running" "0 < unat (rtos_active_objects ?w)"
      using assms by (auto simp: timers_inv_def)
  qed
  have "timers_inv w' (take i held @ drop (Suc i) held)"
    using w' assms live service_ops_inv(5) [OF s(2) q] s(4) by (auto simp: timers_inv_def)
  then show ?thesis
    using w'(1) c(1) s(1) q by (simp add: rtos_timer_drop_def with_registry_def with_lock_free s(4))
qed

lemma service_call_results:
  assumes "tid \<in> set (live_ids sv)"
  shows "service_start now tid sv = (r, sv') \<Longrightarrow> \<not> is_panic r \<and> r \<noteq> Err NotFound"
    and "service_stop tid sv = (r, sv') \<Longrightarrow> \<not> is_panic r \<and> r \<noteq> Err NotFound"
    and "service_reset now tid sv = (r, sv') \<Longrightarrow> \<not> is_panic r \<and> r \<noteq> Err NotFound"
    and "service_change_period tid p sv = (r, sv') \<Longrightarrow> \<not> is_panic r \<and> r \<noteq> Err NotFound"
proof -
  have np: "\<not> is_panic q" if "on_entry tid (with_timer f) sv = (q, sv')" "\<And>t. \<not> is_panic (fst (f t))" for f q
    using that(1)
  proof (cases rule: on_entry_cases)
    case (2 i e)
    then show ?thesis using with_timer_fields(4) [OF 2(4)] that(2) by (metis fst_conv)
  qed simp
  have starts: "\<not> is_panic (fst (ts_start t now))" for t now
    using ts_start_cases(3) [OF prod.collapse [symmetric], of t now] by (simp split: if_splits)
  show "service_start now tid sv = (r, sv') \<Longrightarrow> \<not> is_panic r \<and> r \<noteq> Err NotFound"
    using np service_calls_live(1) assms starts unfolding service_start_def by blast
  show "service_stop tid sv = (r, sv') \<Longrightarrow> \<not> is_panic r \<and> r \<noteq> Err NotFound"
    using np [of "\<lambda>t. (Ok (), ts_stop t)"] service_calls_live(2) assms unfolding service_stop_def by fastforce
  show "service_reset now tid sv = (r, sv') \<Longrightarrow> \<not> is_panic r \<and> r \<noteq> Err NotFound"
    using np service_calls_live(3) assms starts unfolding service_reset_def ts_reset_eq_start by blast
  show "service_change_period tid p sv = (r, sv') \<Longrightarrow> \<not> is_panic r \<and> r \<noteq> Err NotFound"
    using np [of "\<lambda>t. ts_change_period t p"] service_calls_live(4) assms
    unfolding service_change_period_def ts_change_period_def by (fastforce split: if_splits)
qed

text \<open>What a call on a live handle guarantees.\<close>

definition call_ok :: "nat \<Rightarrow> ('cb service_state \<Rightarrow> unit res \<times> 'cb service_state) \<Rightarrow> bool" where
  "call_ok tid f =
     (\<forall>sv r sv'. sv_inv sv \<and> tid \<in> set (live_ids sv) \<and> f sv = (r, sv') \<longrightarrow>
        sv_inv sv' \<and> live_ids sv' = live_ids sv \<and> \<not> is_panic r \<and> r \<noteq> Err NotFound)"

lemma calls_ok:
  "call_ok tid (service_start now tid)" "call_ok tid (service_stop tid)" "call_ok tid (service_reset now tid)"
  "call_ok tid (service_change_period tid p)"
  unfolding call_ok_def
  subgoal using service_ops_inv(1) service_calls_live(1) service_call_results(1) by metis
  subgoal using service_ops_inv(2) service_calls_live(2) service_call_results(2) by metis
  subgoal using service_ops_inv(3) service_calls_live(3) service_call_results(3) by metis
  subgoal using service_ops_inv(4) service_calls_live(4) service_call_results(4) by metis
  done

lemma registry_call_inv:
  assumes "call_ok tid f" and "timers_inv w held" and "tid \<in> set held" and "with_registry f w = (r, w')"
  shows "timers_inv w' held \<and> \<not> is_panic r \<and> r \<noteq> Err NotFound"
proof (rule with_registry_inv [OF assms(2,4)])
  fix sv q sv'
  assume "sv_inv sv" "live_ids sv = held" "f sv = (q, sv')"
  then show "sv_inv sv' \<and> live_ids sv' = held \<and> \<not> is_panic q \<and> q \<noteq> Err NotFound"
    using assms(1,3) unfolding call_ok_def by blast
qed

lemma worker_call_inv:
  assumes "call_ok tid f" and "timers_inv w held" and "tid \<in> set held"
    and "st_bind (ensure_worker N w) (\<lambda>_ w. with_registry f w) = (r, w')"
  shows "timers_inv w' held \<and> \<not> is_panic r \<and> r \<noteq> Err NotFound"
proof -
  obtain q w1 where q: "ensure_worker N w = (q, w1)" by (cases "ensure_worker N w")
  note e = ensure_worker_inv [OF assms(2) q]
  show ?thesis
  proof (cases q)
    case (Ok u)
    then have "with_registry f w1 = (r, w')" using assms(4) q by simp
    then show ?thesis using registry_call_inv [OF assms(1) _ assms(3)] e by blast
  next
    case (Err x)
    then show ?thesis using assms(4) q e by auto
  next
    case (Panic x)
    then show ?thesis using e by simp
  qed
qed

lemma registry_step_inv:
  assumes "timers_inv w held" and "with_registry (\<lambda>sv. (Ok (), f sv)) w = (r, w')"
    and "\<And>sv. sv_inv sv \<Longrightarrow> sv_inv (f sv) \<and> live_ids (f sv) = live_ids sv"
  shows "timers_inv w' held"
  using with_registry_inv [OF assms(1,2), of "\<lambda>_. True"] assms(3) by auto

lemma timer_call_inv:
  assumes inv: "timers_inv w held" and run: "exec_timer_call N c w held = (r, w', held')"
  shows "timers_inv w' held' \<and> \<not> is_panic r \<and> ((\<forall>b p m cb. c \<noteq> CallNew b p m cb) \<longrightarrow> r \<noteq> Err NotFound)"
proof (cases c)
  case (CallNew reserve p m cb)
  obtain q w1 where q: "rtos_timer_new reserve p m cb w = (q, w1)" by (cases "rtos_timer_new reserve p m cb w")
  then show ?thesis using timer_new_inv [OF inv q] run CallNew by auto
next
  case (CallDrop i)
  then show ?thesis using inv run timer_drop_inv [OF inv] by (fastforce split: if_splits)
next
  case (CallStart now i)
  then show ?thesis
    using run inv worker_call_inv [OF calls_ok(1) inv, of "held ! i" N now] rtos_timer_start_def [of N now "held ! i" w]
    by (auto split: if_splits prod.splits)
next
  case (CallStop i)
  then show ?thesis
    using run inv registry_call_inv [OF calls_ok(2) inv, of "held ! i"]
    by (auto simp: rtos_timer_stop_def split: if_splits prod.splits)
next
  case (CallReset now i)
  then show ?thesis
    using run inv worker_call_inv [OF calls_ok(3) inv, of "held ! i" N now] rtos_timer_reset_def [of N now "held ! i" w]
    by (auto split: if_splits prod.splits)
next
  case (CallChangePeriod i p)
  then show ?thesis
    using run inv registry_call_inv [OF calls_ok(4) inv, of "held ! i" p] rtos_timer_change_period_def [of "held ! i" p w]
    by (auto split: if_splits prod.splits)
next
  case (WorkerScan now)
  then show ?thesis
    using run registry_step_inv [OF inv, of "\<lambda>sv. snd (service_scan now sv)"] service_scan_inv service_scan_live
    by (auto split: prod.splits)
next
  case (WorkerRestore tid cb)
  then show ?thesis
    using run registry_step_inv [OF inv, of "\<lambda>sv. snd (restore_service_callback tid cb sv)"]
    by (auto simp: restore_inv restore_live split: prod.splits)
qed

lemma run_timers_inv:
  assumes "timers_inv w held" and "run_timers N cs w held = (rs, w', held')"
  shows "timers_inv w' held' \<and> (\<forall>r\<in>set rs. \<not> is_panic r)
    \<and> (\<forall>i<length cs. (\<forall>b p m cb. cs ! i \<noteq> CallNew b p m cb) \<longrightarrow> rs ! i \<noteq> Err NotFound)"
  using assms
proof (induction cs arbitrary: w held rs)
  case (Cons c cs)
  obtain r w1 h1 where c: "exec_timer_call N c w held = (r, w1, h1)" by (cases "exec_timer_call N c w held")
  obtain rs1 where rs: "run_timers N cs w1 h1 = (rs1, w', held')" "rs = r # rs1"
    using Cons.prems(2) c by (auto split: prod.splits)
  note A = timer_call_inv [OF Cons.prems(1) c]
  note B = Cons.IH [OF conjunct1 [OF A] rs(1)]
  show ?case using A B rs(2) by (auto simp: nth_Cons split: nat.splits)
qed simp

section \<open>Failed calls\<close>

text \<open>What an error may not touch: the registry, the runtime state and the lease count.\<close>

definition registry :: "('k, 'cb) rtos_world \<Rightarrow> 'cb service_state option" where
  "registry w =
     (case rw_slot w of SlotRunning s _ \<Rightarrow> Some (sv_state s) | SlotStopping s \<Rightarrow> Some (sv_state s) | SlotStopped \<Rightarrow> None)"

definition unharmed :: "('k, 'cb) rtos_world \<Rightarrow> ('k, 'cb) rtos_world \<Rightarrow> bool" where
  "unharmed w w' = (registry w' = registry w \<and> rtos_state w' = rtos_state w
     \<and> rtos_active_objects w' = rtos_active_objects w)"

lemma unharmed_refl [simp]: "unharmed w w" by (simp add: unharmed_def)

lemma on_entry_err:
  assumes "on_entry tid (with_timer f) sv = (Err e, sv')" and "\<And>t r t'. f t = (Err r, t') \<Longrightarrow> t' = t"
  shows "sv' = sv"
  using assms(1)
proof (cases rule: on_entry_cases)
  case (2 i x)
  then have "x = sv_timers sv ! i" using assms(2) by (auto simp: with_timer_def split: prod.splits)
  then show ?thesis using 2 by simp
qed simp

lemma service_calls_err:
  "service_start now tid sv = (Err e, sv') \<Longrightarrow> sv' = sv" "service_stop tid sv = (Err e, sv') \<Longrightarrow> sv' = sv"
  "service_reset now tid sv = (Err e, sv') \<Longrightarrow> sv' = sv" "service_change_period tid p sv = (Err e, sv') \<Longrightarrow> sv' = sv"
  unfolding service_start_def service_stop_def service_reset_def service_change_period_def ts_reset_eq_start
  by (auto elim!: on_entry_err simp: ts_start_def ts_change_period_def split: res.splits if_splits)

lemma with_registry_err:
  assumes "with_registry f w = (Err e, w')" and "\<And>sv sv'. f sv = (Err e, sv') \<Longrightarrow> sv' = sv"
  shows "unharmed w w'"
  using assms by (auto simp: with_registry_def with_lock_def Let_def unharmed_def registry_def split: service_slot.splits prod.splits if_splits)

lemma ensure_worker_unharmed: "ensure_worker N w = (r, w') \<Longrightarrow> unharmed w w'"
proof (cases "rw_slot w")
  case (SlotRunning s worker)
  have nat: "unharmed w (w\<lparr>rw_native := k\<rparr>)" "unharmed w (w\<lparr>rw_native := k, rw_slot := SlotRunning s h\<rparr>)" for k h
    using SlotRunning by (simp_all add: unharmed_def registry_def)
  have bind: "unharmed w (snd (st_bind (q, w) f))" if "\<And>x. unharmed w (snd (f x w))"
    for q :: "'x res" and f :: "'x \<Rightarrow> ('a, 'b) rtos_world \<Rightarrow> unit res \<times> ('a, 'b) rtos_world"
    using that by (cases q) auto
  have "unharmed w (snd (ensure_worker N w))"
    unfolding ensure_worker_def SlotRunning service_slot.case
    by (intro bind) (auto intro!: bind simp: Let_def on_native_def nat split: option.splits prod.splits)
  then show "ensure_worker N w = (r, w') \<Longrightarrow> unharmed w w'" by simp
qed (auto simp: ensure_worker_def)

lemma unharmed_trans: "unharmed u v \<Longrightarrow> unharmed v w \<Longrightarrow> unharmed u w"
  by (simp add: unharmed_def)

lemma worker_call_err:
  assumes "st_bind (ensure_worker N w) (\<lambda>_ w. with_registry f w) = (Err e, w')"
    and "\<And>sv sv'. f sv = (Err e, sv') \<Longrightarrow> sv' = sv"
  shows "unharmed w w'"
proof -
  obtain q w1 where q: "ensure_worker N w = (q, w1)" by (cases "ensure_worker N w")
  note u = ensure_worker_unharmed [OF q]
  show ?thesis
    using assms q u by (cases q) (auto intro: unharmed_trans dest!: with_registry_err)
qed

lemma timer_new_err:
  assumes "rtos_timer_new reserve p m cb w = (Err e, w')"
  shows "unharmed w w'"
proof (cases "p = duration_zero")
  case True
  then show ?thesis using assms by (simp add: rtos_timer_new_def)
next
  case False
  then have run: "rtos_leased (with_registry (service_register reserve p m cb)) w = (Err e, w')"
    using assms by (simp add: rtos_timer_new_def)
  note eff = rtos_leased_cases(1) [OF with_registry_lifecycle run]
  have reg: "sv' = sv" if "service_register reserve p m cb sv = (Err e, sv')" for sv sv'
    using service_register_live [OF that] by auto
  from rtos_leased_cases(2) [OF with_registry_lifecycle run]
  have "registry w' = registry w"
  proof (elim disjE exE conjE)
    fix x w2
    assume a: "with_registry (service_register reserve p m cb) (w\<lparr>rw_lifecycle := x\<rparr>) = (Err e, w2)" "rw_slot w' = rw_slot w2"
    from with_registry_err [OF a(1) reg] a(2) show ?thesis by (simp add: unharmed_def registry_def)
  qed simp
  then show ?thesis using eff by (simp add: unharmed_def rtos_effect_def)
qed

section \<open>Properties\<close>

text \<open>C21. The registry is the list of handles: after \<open>initialize\<close>, over any history of timer
  calls on the handles held, with worker scans and callback restorations in between, no call
  panics (the deregistration asserted in a drop always succeeds), no call on a held handle
  reports \<open>NotFound\<close>, the live registry entries are exactly the handles held, in the order of
  their creation and without duplicates, and the active-object count is their number.\<close>

theorem freertos_timer_handles:
  assumes "freertos_initialize N (rtos_world_initial k) = (Ok (), w)"
    and "run_timers N cs w [] = (rs, w', held)"
  shows "(\<forall>r\<in>set rs. \<not> is_panic r)
    \<and> (\<forall>i<length cs. (\<forall>b p m cb. cs ! i \<noteq> CallNew b p m cb) \<longrightarrow> rs ! i \<noteq> Err NotFound)
    \<and> unat (rtos_active_objects w') = length held \<and> distinct held
    \<and> (\<exists>s worker. rw_slot w' = SlotRunning s worker \<and> live_ids (sv_state s) = held)"
proof -
  obtain s where s: "timer_service_new N k = (Ok s, rw_native w)" "rw_slot w = SlotRunning s None"
    "rtos_state w = Running" "unat (rtos_active_objects w) = 0"
    using initialize_ok [OF assms(1)] by blast
  have "sv_state s = service_state_new \<and> \<not> sv_locked s"
    using s(1) by (auto simp: timer_service_new_def split: prod.splits option.splits)
  then have "timers_inv w []"
    using s by (auto simp: timers_inv_def sv_inv_def live_ids_def service_state_new_def)
  from run_timers_inv [OF this assms(2)] show ?thesis
    using live_ids_distinct by (fastforce simp: timers_inv_def)
qed

text \<open>C22. Failed timer calls have no effect: when a creation, start, stop, reset or change of
  period reports an error, for whatever reason (parameters, runtime or scheduler state, memory,
  overflow, an unknown timer), the registry, the runtime state and the number of leases are
  what they were; a creation with a zero period is refused before the runtime is looked at.\<close>

theorem freertos_timer_errors:
  assumes "rtos_timer_new reserve p m cb w = (Err e, w') \<or> rtos_timer_start N now tid w = (Err e, w')
      \<or> rtos_timer_stop tid w = (Err e, w') \<or> rtos_timer_reset N now tid w = (Err e, w')
      \<or> rtos_timer_change_period tid p w = (Err e, w')"
  shows "unharmed w w' \<and> rtos_timer_new reserve duration_zero m cb w = (Err InvalidParameter, w)"
proof -
  have "unharmed w w'" if "rtos_timer_change_period tid p w = (Err e, w')"
    using that by (auto simp: rtos_timer_change_period_def split: if_splits
      intro: with_registry_err service_calls_err(4))
  then have "unharmed w w'"
    using assms unfolding rtos_timer_start_def rtos_timer_stop_def rtos_timer_reset_def
    by (elim disjE) (auto intro: timer_new_err worker_call_err with_registry_err service_calls_err)
  then show ?thesis by (simp add: rtos_timer_new_def)
qed

text \<open>A start before \<open>initialize\<close>, and a history that creates and drops nothing.\<close>

theorem freertos_timer_errors_witness:
  "rtos_timer_start host_native duration_zero 1 (rtos_world_initial host_initial :: (host, nat) rtos_world)
     = (Err NotInitialized, rtos_world_initial host_initial)
   \<and> rtos_timer_new True duration_zero OneShot 0 (rtos_world_initial host_initial :: (host, nat) rtos_world)
     = (Err InvalidParameter, rtos_world_initial host_initial)"
proof -
  have start: "rtos_timer_start host_native duration_zero 1 (rtos_world_initial host_initial :: (host, nat) rtos_world)
      = (Err NotInitialized, rtos_world_initial host_initial)"
    by (simp add: rtos_timer_start_def ensure_worker_def rtos_world_initial_def)
  show ?thesis using freertos_timer_errors [OF disjI2 [OF disjI1 [OF start]], of True OneShot 0] start by simp
qed

theorem freertos_timer_handles_witness:
  "\<exists>w w' :: (host, nat) rtos_world. \<exists>rs held.
     freertos_initialize host_native (rtos_world_initial host_initial) = (Ok (), w)
     \<and> run_timers host_native [CallNew True (of_nanos 5) OneShot 7, CallStart duration_zero 0, CallDrop 0] w [] = (rs, w', held)
     \<and> (\<forall>r\<in>set rs. \<not> is_panic r) \<and> unat (rtos_active_objects w') = length held"
proof -
  obtain w :: "(host, nat) rtos_world" where
    w: "freertos_initialize host_native (rtos_world_initial host_initial) = (Ok (), w)"
    by (rule demo_init)
  obtain rs w' held where run: "run_timers host_native
      [CallNew True (of_nanos 5) OneShot 7, CallStart duration_zero 0, CallDrop 0] w [] = (rs, w', held)"
    by (rule prod_cases3)
  show ?thesis using freertos_timer_handles [OF w run] w run by blast
qed

end
