(* ===== verification/Posix_Sys.thy ===== *)
theory Posix_Sys
  imports Osal_Types
begin

text \<open>
  The system layer of the POSIX backend (src/crates/osal-backend-posix/src/sys): the mapping of
  pthread return codes to errors (errno.rs), the arithmetic on \<open>timespec\<close> values and the sleep
  loop (time.rs, clock.rs), for a target whose \<open>time_t\<close> and \<open>c_long\<close> have 64 bits. The calls of
  the C library are arguments on an abstract system state \<open>'k\<close>; what is relied on of
  \<open>nanosleep\<close> is the locale \<open>sleep_kernel\<close>.
\<close>

section \<open>Return codes (errno.rs)\<close>

text \<open>The codes the backend distinguishes; \<open>RetOk\<close> is 0.\<close>

datatype posix_ret =
    RetOk | ETIMEDOUT | EAGAIN | ENOMEM | EINVAL | EBUSY | EDEADLK | EPERM | EOther int

definition map_errno_code :: "posix_ret \<Rightarrow> error" where
  "map_errno_code code =
     (case code of
        ETIMEDOUT \<Rightarrow> Timeout
      | EAGAIN \<Rightarrow> Timeout
      | ENOMEM \<Rightarrow> OutOfMemory
      | EINVAL \<Rightarrow> InvalidParameter
      | EBUSY \<Rightarrow> LockFailed
      | EDEADLK \<Rightarrow> LockFailed
      | EPERM \<Rightarrow> LockFailed
      | _ \<Rightarrow> Internal ''unexpected POSIX error'')"

definition check_ret :: "posix_ret \<Rightarrow> unit res" where
  "check_ret ret = (if ret = RetOk then Ok () else Err (map_errno_code ret))"

lemma check_ret_simps [simp]:
  "check_ret RetOk = Ok ()" "check_ret ETIMEDOUT = Err Timeout" "check_ret EBUSY = Err LockFailed"
  "check_ret EDEADLK = Err LockFailed" "check_ret EPERM = Err LockFailed"
  by (simp_all add: check_ret_def map_errno_code_def)

lemma check_ret_Ok_iff [simp]: "check_ret r = Ok u \<longleftrightarrow> r = RetOk"
  by (simp add: check_ret_def)

section \<open>Durations and timespecs (time.rs)\<close>

record timespec =
  tv_sec :: int
  tv_nsec :: int

definition time_t_max :: int where
  "time_t_max = 2 ^ 63 - 1"

definition checked_add_i64 :: "int \<Rightarrow> int \<Rightarrow> int option" where
  "checked_add_i64 a b = (if - (2 ^ 63) \<le> a + b \<and> a + b \<le> time_t_max then Some (a + b) else None)"

definition duration_to_timespec :: "duration \<Rightarrow> timespec res" where
  "duration_to_timespec d =
     (let secs = uint (as_secs d); nsecs = uint (subsec_nanos d) in
      if secs \<le> time_t_max then Ok \<lparr>tv_sec = secs, tv_nsec = nsecs\<rparr> else Err Overflow)"

text \<open>The argument of the three functions below that read the clock is what
  \<open>clock_gettime(CLOCK_MONOTONIC)\<close> returns.\<close>

definition monotonic_now_raw :: "posix_ret \<times> timespec \<Rightarrow> timespec res" where
  "monotonic_now_raw g =
     (if fst g = RetOk then Ok (snd g)
      else Panic ''clock_gettime(CLOCK_MONOTONIC) failed unrecoverably'')"

definition monotonic_now :: "posix_ret \<times> timespec \<Rightarrow> duration res" where
  "monotonic_now g =
     res_bind (monotonic_now_raw g)
       (\<lambda>ts. duration_new (word_of_int (tv_sec ts)) (word_of_int (tv_nsec ts)))"

definition timespec_ge :: "timespec \<Rightarrow> timespec \<Rightarrow> bool" where
  "timespec_ge a b \<longleftrightarrow> tv_sec a > tv_sec b \<or> (tv_sec a = tv_sec b \<and> tv_nsec a \<ge> tv_nsec b)"

definition checked_abs_deadline :: "posix_ret \<times> timespec \<Rightarrow> duration \<Rightarrow> timespec res" where
  "checked_abs_deadline g timeout =
     res_bind (monotonic_now_raw g) (\<lambda>now.
     res_bind (duration_to_timespec timeout) (\<lambda>to.
     res_bind (ok_or (checked_add_i64 (tv_sec now) (tv_sec to)) Overflow) (\<lambda>sec.
       let nsec = tv_nsec now + tv_nsec to in
       if nsec \<ge> 1000000000 then
         res_bind (ok_or (checked_add_i64 sec 1) Overflow)
           (\<lambda>sec'. Ok \<lparr>tv_sec = sec', tv_nsec = nsec - 1000000000\<rparr>)
       else Ok \<lparr>tv_sec = sec, tv_nsec = nsec\<rparr>)))"

section \<open>Sleeping (time.rs, clock.rs)\<close>

text \<open>The outcomes of the native \<open>nanosleep\<close>: the request elapsed, a signal interrupted it with
  the remaining time, another error.\<close>

datatype sleep_ret = SleepDone | SleepIntr timespec | SleepFail

text \<open>The inner loop, restarted after a signal; \<open>False\<close> is the early return on an error. \<open>None\<close>
  is a loop that does not end.\<close>

partial_function (option) nanosleep_segment ::
  "(timespec \<Rightarrow> 'k \<Rightarrow> sleep_ret \<times> 'k) \<Rightarrow> timespec \<Rightarrow> 'k \<Rightarrow> (bool \<times> 'k) option" where
  "nanosleep_segment ns req k =
     (case ns req k of
        (SleepDone, k1) \<Rightarrow> Some (True, k1)
      | (SleepIntr rem, k1) \<Rightarrow> nanosleep_segment ns rem k1
      | (SleepFail, k1) \<Rightarrow> Some (False, k1))"

definition sleep_segment :: "duration \<Rightarrow> duration res" where
  "sleep_segment remaining =
     duration_new (min (as_secs remaining) (word_of_int time_t_max)) (subsec_nanos remaining)"

partial_function (option) nanosleep ::
  "(timespec \<Rightarrow> 'k \<Rightarrow> sleep_ret \<times> 'k) \<Rightarrow> duration \<Rightarrow> 'k \<Rightarrow> (unit res \<times> 'k) option" where
  "nanosleep ns remaining k =
     (if is_zero remaining then Some (Ok (), k)
      else case sleep_segment remaining of
        Ok seg \<Rightarrow>
          (case duration_to_timespec seg of
             Ok ts \<Rightarrow>
               Option.bind (nanosleep_segment ns ts k) (\<lambda>(slept, k1).
                 if slept then nanosleep ns (dur_saturating_sub remaining seg) k1
                 else Some (Ok (), k1))
           | _ \<Rightarrow> Some (Ok (), k))
      | Err e \<Rightarrow> Some (Err e, k)
      | Panic m \<Rightarrow> Some (Panic m, k))"

definition posix_delay ::
  "(timespec \<Rightarrow> 'k \<Rightarrow> sleep_ret \<times> 'k) \<Rightarrow> duration \<Rightarrow> 'k \<Rightarrow> (unit res \<times> 'k) option" where
  "posix_delay ns d k = nanosleep ns d k"

section \<open>Exactness of the conversions\<close>

definition ts_nanos :: "timespec \<Rightarrow> int" where
  "ts_nanos ts = tv_sec ts * 1000000000 + tv_nsec ts"

text \<open>The values of the monotonic clock: normalized and not negative.\<close>

definition ts_valid :: "timespec \<Rightarrow> bool" where
  "ts_valid ts \<longleftrightarrow>
     0 \<le> tv_sec ts \<and> tv_sec ts \<le> time_t_max \<and> 0 \<le> tv_nsec ts \<and> tv_nsec ts < 1000000000"

lemmas unat_dur_parts = unat_as_secs [unfolded nanos_per_sec_def] unat_subsec_nanos [unfolded nanos_per_sec_def]

lemma uint_as_secs: "uint (as_secs d) = int (as_nanos d) div 1000000000"
  unfolding uint_nat unat_dur_parts by (simp add: zdiv_int)

lemma uint_subsec_nanos: "uint (subsec_nanos d) = int (as_nanos d) mod 1000000000"
  unfolding uint_nat unat_dur_parts by (simp add: zmod_int)

lemma duration_to_timespec_Ok:
  assumes "duration_to_timespec d = Ok ts"
  shows "ts_valid ts" and "ts_nanos ts = int (as_nanos d)"
  using assms
  by (auto simp: duration_to_timespec_def Let_def ts_valid_def ts_nanos_def uint_as_secs
      uint_subsec_nanos split: if_splits)

lemma duration_to_timespec_iff:
  "duration_to_timespec d = Err e \<longleftrightarrow> e = Overflow \<and> time_t_max < int (as_nanos d) div 1000000000"
  "duration_to_timespec d \<noteq> Panic m"
  by (auto simp: duration_to_timespec_def Let_def uint_as_secs)

lemma deadline_no_panic: "ts_valid now \<Longrightarrow> checked_abs_deadline (RetOk, now) d \<noteq> Panic m"
  using duration_to_timespec_iff(2) [of d]
  by (cases "duration_to_timespec d")
    (auto simp: checked_abs_deadline_def monotonic_now_raw_def checked_add_i64_def Let_def)

lemma timespec_ge_nanos:
  assumes "ts_valid a" and "ts_valid b"
  shows "timespec_ge a b \<longleftrightarrow> ts_nanos b \<le> ts_nanos a"
  using assms unfolding ts_valid_def timespec_ge_def ts_nanos_def by linarith

lemma abs_deadline_exact:
  assumes now: "ts_valid now"
  shows "case checked_abs_deadline (RetOk, now) d of
           Ok ts \<Rightarrow> ts_valid ts \<and> ts_nanos ts = ts_nanos now + int (as_nanos d)
         | Err e \<Rightarrow> e = Overflow
             \<and> (time_t_max + 1) * 1000000000 \<le> ts_nanos now + int (as_nanos d)
         | Panic m \<Rightarrow> False"
proof (cases "duration_to_timespec d")
  case (Ok ts)
  note to = duration_to_timespec_Ok [OF Ok]
  show ?thesis
    using now to
    by (auto simp: checked_abs_deadline_def monotonic_now_raw_def Ok checked_add_i64_def Let_def
        ts_valid_def ts_nanos_def)
next
  case (Err e)
  then have e: "e = Overflow" "time_t_max < int (as_nanos d) div 1000000000"
    by (simp_all add: duration_to_timespec_iff)
  have "(time_t_max + 1) * 1000000000 \<le> int (as_nanos d) div 1000000000 * 1000000000"
    by (rule mult_right_mono) (use e(2) in simp_all)
  also have "\<dots> \<le> int (as_nanos d)"
    by (simp add: minus_mod_eq_div_mult [symmetric])
  finally have "(time_t_max + 1) * 1000000000 \<le> int (as_nanos d)" .
  with e Err now show ?thesis
    by (simp add: checked_abs_deadline_def monotonic_now_raw_def ts_valid_def ts_nanos_def)
next
  case (Panic m)
  then show ?thesis by (simp add: duration_to_timespec_iff)
qed

text \<open>C28. The absolute deadline of a timed wait is exact: it is the clock reading plus the timeout, to
  the nanosecond and normalized, and \<open>Overflow\<close> is reported exactly when that instant does not
  fit in \<open>time_t\<close>.\<close>

theorem posix_deadline_exact:
  assumes now: "ts_valid now"
  shows "case checked_abs_deadline (RetOk, now) d of
           Ok ts \<Rightarrow> ts_valid ts \<and> ts_nanos ts = ts_nanos now + int (as_nanos d)
         | Err e \<Rightarrow> e = Overflow
             \<and> (time_t_max + 1) * 1000000000 \<le> ts_nanos now + int (as_nanos d)
         | Panic m \<Rightarrow> False"
  by (rule abs_deadline_exact [OF now])

theorem posix_deadline_exact_witness:
  "checked_abs_deadline (RetOk, \<lparr>tv_sec = 5, tv_nsec = 999999999\<rparr>) (of_nanos 2)
     = Ok \<lparr>tv_sec = 6, tv_nsec = 1\<rparr>
   \<and> ts_nanos \<lparr>tv_sec = 6, tv_nsec = 1\<rparr>
     = ts_nanos \<lparr>tv_sec = 5, tv_nsec = 999999999\<rparr> + int (as_nanos (of_nanos 2))"
proof -
  have c: "checked_abs_deadline (RetOk, \<lparr>tv_sec = 5, tv_nsec = 999999999\<rparr>) (of_nanos 2)
             = Ok \<lparr>tv_sec = 6, tv_nsec = 1\<rparr>"
    by (simp add: checked_abs_deadline_def monotonic_now_raw_def duration_to_timespec_def
        uint_as_secs uint_subsec_nanos duration_limit_eq checked_add_i64_def time_t_max_def)
  show ?thesis
    using posix_deadline_exact [of "\<lparr>tv_sec = 5, tv_nsec = 999999999\<rparr>" "of_nanos 2"] c
    by (simp add: ts_valid_def time_t_max_def)
qed

section \<open>What is relied on of nanosleep\<close>

text \<open>What the native call keeps, the loops around it keep.\<close>

lemma nanosleep_segment_keeps_inv:
  assumes "\<And>req k. I k \<Longrightarrow> I (snd (ns req k))" and "I k" and "nanosleep_segment ns req k = Some (b, k')"
  shows "I k'"
proof -
  have "(\<forall>req k. I k \<longrightarrow> I (snd (ns req k))) \<longrightarrow> I k \<longrightarrow> I (snd (b, k'))"
  proof (rule nanosleep_segment.raw_induct [OF _ assms(3), where P = "\<lambda>ns req k y. (\<forall>req k. I k \<longrightarrow> I (snd (ns req k))) \<longrightarrow> I k \<longrightarrow> I (snd y)"],
      intro impI, goal_cases)
    case (1 loop ns req k y)
    have "I (snd (ns req k))" using 1(3,4) by blast
    then show ?case using 1(1-3) by (auto split: prod.splits sleep_ret.splits)
  qed
  with assms(1,2) show ?thesis by simp
qed

lemma nanosleep_keeps_inv:
  assumes "\<And>req k. I k \<Longrightarrow> I (snd (ns req k))" and "I k" and "nanosleep ns d k = Some (r, k')"
  shows "I k'"
proof -
  have "(\<forall>req k. I k \<longrightarrow> I (snd (ns req k))) \<longrightarrow> I k \<longrightarrow> I (snd (r, k'))"
  proof (rule nanosleep.raw_induct [OF _ assms(3), where P = "\<lambda>ns d k y. (\<forall>req k. I k \<longrightarrow> I (snd (ns req k))) \<longrightarrow> I k \<longrightarrow> I (snd y)"],
      intro impI, goal_cases)
    case (1 loop ns d k y)
    have seg: "I k1" if "nanosleep_segment ns ts k = Some (b, k1)" for ts b k1
      using nanosleep_segment_keeps_inv [of I ns k ts b k1] 1(3,4) that by blast
    consider "y = (Ok (), k)" | e where "y = (Err e, k)" | m where "y = (Panic m, k)"
      | ts k1 where "nanosleep_segment ns ts k = Some (False, k1)" "y = (Ok (), k1)"
      | ts k1 d' where "nanosleep_segment ns ts k = Some (True, k1)" "loop ns d' k1 = Some y"
      using 1(2) by (auto simp: bind_eq_Some_conv split: if_splits res.splits)
    then show ?case
    proof cases
      case (5 ts k1 d')
      then show ?thesis using 1(1) [OF 5(2)] 1(3) seg by blast
    qed (use 1(4) seg in auto)
  qed
  with assms(1,2) show ?thesis by simp
qed

text \<open>\<open>clk\<close> is the monotonic clock in nanoseconds and \<open>pending\<close> the number of signals still to be
  delivered to the thread. A sleep that returns 0 lasted at least the request; one that a signal
  interrupts reports at least what is left of it.\<close>

locale sleep_kernel =
  fixes ns :: "timespec \<Rightarrow> 'k \<Rightarrow> sleep_ret \<times> 'k"
    and clk :: "'k \<Rightarrow> int"
    and pending :: "'k \<Rightarrow> nat"
  assumes slept: "ts_valid req \<Longrightarrow> ns req k = (SleepDone, k') \<Longrightarrow>
          clk k + ts_nanos req \<le> clk k'"
    and interrupted: "ts_valid req \<Longrightarrow> ns req k = (SleepIntr rem, k') \<Longrightarrow>
          ts_valid rem \<and> clk k + ts_nanos req \<le> clk k' + ts_nanos rem \<and> pending k' < pending k"
    and no_failure: "ts_valid req \<Longrightarrow> ns req k \<noteq> (SleepFail, k')"
begin

lemma segment_sleeps:
  assumes "ts_valid req"
  shows "\<exists>k'. nanosleep_segment ns req k = Some (True, k') \<and> clk k + ts_nanos req \<le> clk k'"
  using assms
proof (induction "pending k" arbitrary: req k rule: less_induct)
  case less
  obtain r k1 where c: "ns req k = (r, k1)" by (cases "ns req k")
  show ?case
  proof (cases r)
    case SleepDone
    with c slept [OF less.prems] show ?thesis by (simp add: nanosleep_segment.simps)
  next
    case (SleepIntr rem)
    note i = interrupted [OF less.prems c [unfolded SleepIntr]]
    with less.hyps [of k1 rem] obtain k' where
      "nanosleep_segment ns rem k1 = Some (True, k')" "clk k1 + ts_nanos rem \<le> clk k'" by auto
    with c SleepIntr i show ?thesis by (simp add: nanosleep_segment.simps [of ns req])
  next
    case SleepFail
    with c no_failure [OF less.prems] show ?thesis by simp
  qed
qed

end

lemma time_t_max_word: "uint (word_of_int time_t_max :: u64) = time_t_max"
  by (simp add: time_t_max_def)

text \<open>A segment is not longer than what remains, fits in \<open>time_t\<close>, and is not zero.\<close>

lemma sleep_segment_Ok:
  obtains seg ts where "sleep_segment d = Ok seg" and "duration_to_timespec seg = Ok ts"
    and "as_nanos seg \<le> as_nanos d" and "as_nanos d \<noteq> 0 \<Longrightarrow> as_nanos seg \<noteq> 0"
proof -
  let ?s = "min (as_secs d) (word_of_int time_t_max)"
  let ?n = "unat ?s * nanos_per_sec + unat (subsec_nanos d)"
  have s: "unat ?s \<le> unat (as_secs d)" "uint ?s \<le> time_t_max"
    using min.cobounded1 [of "as_secs d" "word_of_int time_t_max"]
      min.cobounded2 [of "as_secs d" "word_of_int time_t_max"] time_t_max_word
    by (simp_all only: word_le_nat_alt [symmetric]) (simp add: word_le_def)
  have le: "?n \<le> as_nanos d"
    using mult_le_mono1 [OF s(1), of 1000000000] div_mult_mod_eq [of "as_nanos d" 1000000000]
    unfolding unat_dur_parts nanos_per_sec_def by linarith
  then have lim: "?n < duration_limit" using as_nanos_less [of d] by linarith
  then have seg: "sleep_segment d = Ok (of_nanos ?n)"
    by (simp add: sleep_segment_def duration_new_def Let_def)
  have div: "?n div 1000000000 = unat ?s"
    unfolding unat_dur_parts nanos_per_sec_def by simp
  have fits: "duration_to_timespec (of_nanos ?n) \<noteq> Err e" for e
  proof -
    have "int ?n div 1000000000 = uint ?s"
      using arg_cong [OF div, of int] by (simp only: zdiv_int of_nat_numeral uint_nat)
    then show ?thesis using s(2) lim by (simp add: duration_to_timespec_iff)
  qed
  then obtain ts where ts: "duration_to_timespec (of_nanos ?n) = Ok ts"
    using duration_to_timespec_iff(2) by (cases "duration_to_timespec (of_nanos ?n)") auto
  have pos: "?n \<noteq> 0" if "as_nanos d \<noteq> 0"
  proof (cases "unat (as_secs d) = 0")
    case True
    then show ?thesis using that unfolding unat_dur_parts by simp
  next
    case False
    then have "unat ?s \<noteq> 0"
      using time_t_max_word by (auto simp: min_def time_t_max_def unat_eq_0)
    then show ?thesis by (simp add: nanos_per_sec_def)
  qed
  show thesis
    by (rule that [OF seg ts]) (use le lim pos in simp_all)
qed

context sleep_kernel
begin

lemma nanosleep_sleeps:
  "\<exists>k'. nanosleep ns d k = Some (Ok (), k') \<and> clk k + int (as_nanos d) \<le> clk k'"
proof (induction "as_nanos d" arbitrary: d k rule: less_induct)
  case less
  show ?case
  proof (cases "is_zero d")
    case True
    then show ?thesis by (simp add: nanosleep.simps is_zero_def)
  next
    case False
    obtain seg ts where seg: "sleep_segment d = Ok seg" "duration_to_timespec seg = Ok ts"
      "as_nanos seg \<le> as_nanos d" "as_nanos d \<noteq> 0 \<Longrightarrow> as_nanos seg \<noteq> 0"
      by (rule sleep_segment_Ok [of d]) blast
    note ts = duration_to_timespec_Ok [OF seg(2)]
    obtain k1 where k1: "nanosleep_segment ns ts k = Some (True, k1)"
      "clk k + ts_nanos ts \<le> clk k1" using segment_sleeps [OF ts(1)] by auto
    have "as_nanos (dur_saturating_sub d seg) < as_nanos d"
      using False seg(3,4) by (simp add: is_zero_def)
    from less.hyps [OF this, of k1] obtain k' where
      "nanosleep ns (dur_saturating_sub d seg) k1 = Some (Ok (), k')"
      "clk k1 + int (as_nanos (dur_saturating_sub d seg)) \<le> clk k'" by blast
    with False seg k1 ts(2) show ?thesis
      by (simp add: nanosleep.simps [of ns d])
  qed
qed

end

section \<open>A host kernel\<close>

text \<open>A concrete thread: its monotonic clock and, for the signals it will receive, how long into
  the sleep that is under way each one arrives.\<close>

record host_thread =
  ht_clock :: nat
  ht_signals :: "nat list"

definition nanos_timespec :: "int \<Rightarrow> timespec" where
  "nanos_timespec n = \<lparr>tv_sec = n div 1000000000, tv_nsec = n mod 1000000000\<rparr>"

definition host_nanosleep :: "timespec \<Rightarrow> host_thread \<Rightarrow> sleep_ret \<times> host_thread" where
  "host_nanosleep req h =
     (case ht_signals h of
        [] \<Rightarrow> (SleepDone, h\<lparr>ht_clock := ht_clock h + nat (ts_nanos req)\<rparr>)
      | s # ss \<Rightarrow>
          if int s < ts_nanos req
          then (SleepIntr (nanos_timespec (ts_nanos req - int s)),
                h\<lparr>ht_clock := ht_clock h + s, ht_signals := ss\<rparr>)
          else (SleepDone, h\<lparr>ht_clock := ht_clock h + nat (ts_nanos req)\<rparr>))"

lemma nanos_timespec_nanos [simp]: "ts_nanos (nanos_timespec n) = n"
  by (simp add: ts_nanos_def nanos_timespec_def)

lemma nanos_timespec_valid:
  assumes "ts_valid req" and "0 \<le> n" and "n \<le> ts_nanos req"
  shows "ts_valid (nanos_timespec n)"
proof -
  have "n div 1000000000 \<le> ts_nanos req div 1000000000"
    using assms(3) by (rule zdiv_mono1) simp
  also have "\<dots> = tv_sec req"
    using assms(1) by (simp add: ts_nanos_def ts_valid_def)
  finally show ?thesis
    using assms by (simp add: ts_valid_def nanos_timespec_def pos_imp_zdiv_nonneg_iff)
qed

interpretation hostsleep: sleep_kernel host_nanosleep "\<lambda>h. int (ht_clock h)" "\<lambda>h. length (ht_signals h)"
  by unfold_locales
    (auto simp: host_nanosleep_def split: list.splits if_splits intro!: nanos_timespec_valid)

text \<open>C29. A delay returns, and not before the requested duration has passed on the monotonic clock,
  whatever signals interrupt it and however many segments the request is split into.\<close>

theorem posix_delay_not_early:
  assumes "sleep_kernel ns clk pending"
  shows "\<exists>k'. posix_delay ns d k = Some (Ok (), k') \<and> clk k + int (as_nanos d) \<le> clk k'"
  unfolding posix_delay_def by (rule sleep_kernel.nanosleep_sleeps [OF assms])

theorem posix_delay_not_early_witness:
  "\<exists>h. posix_delay host_nanosleep (of_nanos 2500000000) \<lparr>ht_clock = 7, ht_signals = [10, 20]\<rparr>
         = Some (Ok (), h)
     \<and> 2500000007 \<le> ht_clock h"
  using posix_delay_not_early [OF hostsleep.sleep_kernel_axioms, of "of_nanos 2500000000"
      "\<lparr>ht_clock = 7, ht_signals = [10, 20]\<rparr>"]
  by (simp add: duration_limit_eq)

end
