(* ===== verification/Posix_Mutex.thy ===== *)
theory Posix_Mutex
  imports Posix_Sys
begin

text \<open>
  The mutex of the POSIX backend (src/crates/osal-backend-posix/src/sys/mutex.rs and mutex.rs): an
  error-checking pthread mutex and, for finite timeouts, the polling loop of \<open>try_lock\<close> and a
  short \<open>nanosleep\<close>. The pthread calls are arguments on an abstract system state \<open>'k\<close>; what is
  relied on of them is the locale \<open>lock_kernel\<close>, which extends \<open>sleep_kernel\<close>.
\<close>

section \<open>The native mutex (sys/mutex.rs)\<close>








section \<open>The mutex object (mutex.rs)\<close>




section \<open>What is relied on of the native mutex\<close>



section \<open>A host mutex\<close>







section \<open>Properties\<close>




end
