(* ===== verification/Posix_Condvar.thy ===== *)
theory Posix_Condvar
  imports Posix_Sys
begin

text \<open>
  The condition variable of the POSIX backend (src/crates/osal-backend-posix/src/sys/condvar.rs)
  as the blocking objects use it. A condition variable is the set of threads blocked on it; what
  \<open>pthread_cond_signal\<close> and \<open>pthread_cond_broadcast\<close> return and do to that set is an argument,
  with the documented behaviour as the locale \<open>pthread_cond\<close>: on an initialized variable they
  return 0; a signal unblocks at least one of the blocked threads, if there are any, a broadcast
  all of them. A wait may also end spuriously, and a timed wait with \<open>ETIMEDOUT\<close>. The locale's lemmas
  carry the accounting on which every monitor of the backend rests: while threads are blocked on
  a resource, each available unit of it is matched by a thread that is awake and will look again.
\<close>

section \<open>Deadlines and waits\<close>

text \<open>How the body of a blocking call leaves the mutex: it returns, after waking one waiter of the
  other side or not, or it waits on its condition variable, with or without a deadline.\<close>

datatype 'r section_end =
    SecReturn 'r bool
  | SecWait "timespec option"

text \<open>\<open>wake_one_after_commit\<close>: the return code of the signal decides between going on and a
  panic.\<close>

definition wake_one_after_commit :: "posix_ret \<Rightarrow> unit res" where
  "wake_one_after_commit rc =
     (case check_ret rc of
        Ok _ \<Rightarrow> Ok ()
      | _ \<Rightarrow> Panic ''POSIX condvar signal failed after state commit'')"

text \<open>The result of a wait with or without a deadline, from its return code.\<close>

definition cond_wait :: "posix_ret \<Rightarrow> unit res" where
  "cond_wait rc = check_ret rc"

text \<open>The return codes of a wait: 0 at any time, \<open>ETIMEDOUT\<close> once the deadline has passed.\<close>

definition wait_returns :: "timespec option \<Rightarrow> timespec \<Rightarrow> posix_ret \<Rightarrow> bool" where
  "wait_returns dl now rc \<longleftrightarrow>
     rc = RetOk \<or> (rc = ETIMEDOUT \<and> (case dl of None \<Rightarrow> False | Some d \<Rightarrow> timespec_ge now d))"

section \<open>The blocked threads\<close>

locale pthread_cond =
  fixes sig :: "nat set \<Rightarrow> posix_ret \<Rightarrow> nat set \<Rightarrow> bool"
    and bcast :: "nat set \<Rightarrow> posix_ret \<Rightarrow> nat set \<Rightarrow> bool"
  assumes sig_ret: "sig W rc W' \<Longrightarrow> rc = RetOk"
    and sig_subset: "sig W rc W' \<Longrightarrow> W' \<subseteq> W"
    and sig_wakes: "sig W rc W' \<Longrightarrow> W \<noteq> {} \<Longrightarrow> W' \<noteq> W"
    and bcast_all: "bcast W rc W' \<Longrightarrow> rc = RetOk \<and> W' = {}"

text \<open>The freest behaviour the standard allows: any threads, but at least one.\<close>

definition posix_signal :: "nat set \<Rightarrow> posix_ret \<Rightarrow> nat set \<Rightarrow> bool" where
  "posix_signal W rc W' \<longleftrightarrow> rc = RetOk \<and> W' \<subseteq> W \<and> (W \<noteq> {} \<longrightarrow> W' \<noteq> W)"

definition posix_broadcast :: "nat set \<Rightarrow> posix_ret \<Rightarrow> nat set \<Rightarrow> bool" where
  "posix_broadcast W rc W' \<longleftrightarrow> rc = RetOk \<and> W' = {}"

interpretation anysig: pthread_cond posix_signal posix_broadcast
  by unfold_locales (auto simp: posix_signal_def posix_broadcast_def)

text \<open>\<open>side L W avail\<close>: the threads in the waiting loop are \<open>L\<close>, those of them blocked are \<open>W\<close>,
  and while some are blocked the awake ones are at least as many as the units available.\<close>

definition side :: "nat set \<Rightarrow> nat set \<Rightarrow> nat \<Rightarrow> bool" where
  "side L W avail \<longleftrightarrow> finite L \<and> W \<subseteq> L \<and> (W \<noteq> {} \<longrightarrow> avail \<le> card (L - W))"

lemma sideD: "side L W avail \<Longrightarrow> W \<noteq> {} \<Longrightarrow> avail \<le> card (L - W)"
  by (simp add: side_def)

lemma side_all_blocked: "side L W avail \<Longrightarrow> L \<subseteq> W \<Longrightarrow> W \<noteq> {} \<Longrightarrow> avail = 0"
  by (auto simp: side_def Diff_eq_empty_iff [THEN iffD2])

lemma side_empty [intro]: "finite L \<Longrightarrow> side L {} avail"
  by (simp add: side_def)

lemma side_mono: "side L W n \<Longrightarrow> m \<le> n \<Longrightarrow> side L W m"
  by (auto simp: side_def)

lemma side_enter_wait: "side L W n \<Longrightarrow> side (insert i L) (insert i W) 0"
  by (auto simp: side_def)

lemma side_spurious:
  assumes "side L W n"
  shows "side L (W - V) n"
proof -
  have "card (L - W) \<le> card (L - (W - V))"
    using assms by (intro card_mono) (auto simp: side_def)
  with assms show ?thesis by (auto simp: side_def)
qed

text \<open>A thread leaves the loop from a wait: it was not counted as awake.\<close>

lemma side_leave_blocked:
  assumes "side L W n" and "i \<in> W"
  shows "side (L - {i}) (W - {i}) n"
proof -
  have "L - {i} - (W - {i}) = L - W" using assms by (auto simp: side_def)
  with assms show ?thesis by (auto simp: side_def)
qed

text \<open>An awake thread leaves the loop and takes a unit, or leaves when there is none.\<close>

lemma side_leave_awake:
  assumes "side L W n" and "i \<notin> W"
  shows "side (L - {i}) W (n - 1)"
proof (cases "W = {} \<or> i \<notin> L")
  case True
  then show ?thesis using assms by (auto simp: side_def)
next
  case False
  then have "card (L - {i} - W) = card (L - W) - 1"
    using assms by (simp add: side_def Diff_insert2 [symmetric] Diff_insert [symmetric] insert_commute
        Diff_Diff_Int flip: Diff_insert)
  with assms show ?thesis by (auto simp: side_def)
qed

context pthread_cond
begin

text \<open>A unit becomes available and one waiter is signalled.\<close>

lemma side_signal:
  assumes s: "side L W n" and w: "sig W rc W'"
  shows "side L W' (Suc n)"
proof (cases "W = {}")
  case True
  with sig_subset [OF w] have "W' = {}" by simp
  with s show ?thesis by (auto simp: side_def)
next
  case False
  have "L - W \<subset> L - W'"
    using s sig_subset [OF w] sig_wakes [OF w False] by (auto simp: side_def)
  then have "card (L - W) < card (L - W')"
    using s by (intro psubset_card_mono) (auto simp: side_def)
  with s sig_subset [OF w] False show ?thesis by (auto simp: side_def)
qed

text \<open>The same while \<open>c\<close> signals have been consumed by waits that timed out.\<close>

lemma side_signal_owed: "side L W (n - c) \<Longrightarrow> sig W rc W' \<Longrightarrow> side L W' (Suc n - c)"
  using side_signal [THEN side_mono] by fastforce

lemma side_subset:
  assumes "side L W n" and "sig W rc W'"
  shows "side L W' n"
  using side_signal [OF assms] by (rule side_mono) simp

end

end
