(* ===== verification/Posix_Timer.thy ===== *)
theory Posix_Timer
  imports Posix_Condvar Timer_Service
begin

text \<open>
  The timer service of the POSIX backend (src/crates/osal-backend-posix/src/timer_service.rs and
  timer_control.rs): the registry operations, the worker thread that sleeps on a condition
  variable until the earliest deadline and dispatches one callback at a time, and the control slot
  through which the service is started and shut down. The step relation interleaves the worker,
  the clients of the timer API, a shutdown and the passing of time.
\<close>

section \<open>Registry operations\<close>

definition posix_register ::
  "duration \<Rightarrow> timer_mode \<Rightarrow> 'cb \<Rightarrow> 'cb service_state \<Rightarrow> nat res \<times> 'cb service_state" where
  "posix_register period mode cb sv =
     (case ts_new period mode of
        Ok t \<Rightarrow>
          let tid = sv_next_id sv in
          (case checked_add u64_max tid 1 of
             None \<Rightarrow> (Err Overflow, sv)
           | Some n \<Rightarrow>
               if tid = 0 then (Panic ''timer ID 0 is reserved'', sv\<lparr>sv_next_id := n\<rparr>)
               else (Ok tid, sv\<lparr>sv_next_id := n, sv_timers := sv_timers sv @
                      [\<lparr>se_id = tid, se_state = t, se_callback = Some cb, se_deleted = False\<rparr>]\<rparr>))
      | _ \<Rightarrow> (Err InvalidParameter, sv))"

definition posix_start :: "duration \<Rightarrow> nat \<Rightarrow> 'cb service_state \<Rightarrow> unit res \<times> 'cb service_state" where
  "posix_start now tid = on_entry tid (with_timer (\<lambda>t. ts_start t now))"

definition posix_stop :: "nat \<Rightarrow> 'cb service_state \<Rightarrow> unit res \<times> 'cb service_state" where
  "posix_stop tid = on_entry tid (with_timer (\<lambda>t. (Ok (), ts_stop t)))"

definition posix_reset :: "duration \<Rightarrow> nat \<Rightarrow> 'cb service_state \<Rightarrow> unit res \<times> 'cb service_state" where
  "posix_reset now tid = on_entry tid (with_timer (\<lambda>t. ts_reset t now))"

definition posix_change_period ::
  "nat \<Rightarrow> duration \<Rightarrow> 'cb service_state \<Rightarrow> unit res \<times> 'cb service_state" where
  "posix_change_period tid p = on_entry tid (with_timer (\<lambda>t. ts_change_period t p))"

definition posix_deregister :: "nat \<Rightarrow> 'cb service_state \<Rightarrow> unit res \<times> 'cb service_state" where
  "posix_deregister tid =
     on_entry tid (\<lambda>e. (Ok (),
       e\<lparr>se_deleted := True, se_state := ts_stop (se_state e), se_callback := None\<rparr>))"

text \<open>An operation; it signals the worker exactly when it succeeds.\<close>

fun posix_op :: "duration \<Rightarrow> 'cb timer_op \<Rightarrow> 'cb service_state \<Rightarrow> unit res \<times> 'cb service_state" where
  "posix_op now (OpRegister _ p m cb) sv =
     (case posix_register p m cb sv of (r, sv') \<Rightarrow> (res_bind r (\<lambda>_. Ok ()), sv'))"
| "posix_op now (OpStart tid) sv = posix_start now tid sv"
| "posix_op now (OpStop tid) sv = posix_stop tid sv"
| "posix_op now (OpReset tid) sv = posix_reset now tid sv"
| "posix_op now (OpChangePeriod tid p) sv = posix_change_period tid p sv"
| "posix_op now (OpDeregister tid) sv = posix_deregister tid sv"

section \<open>The worker\<close>

datatype posix_worker_act =
    PActStop
  | PActWait "timespec option"
  | PActDispatch
  | PActPanic

definition max_slice :: duration where
  "max_slice = of_nanos 3600000000000"

text \<open>One turn of the loop of \<open>run\<close> under the mutex; \<open>now\<close> is its clock reading, \<open>g\<close> the second one
  inside \<open>checked_abs_deadline\<close>.\<close>

definition posix_worker_scan ::
  "duration \<Rightarrow> posix_ret \<times> timespec \<Rightarrow> 'cb service_state \<Rightarrow> posix_worker_act \<times> 'cb service_state" where
  "posix_worker_scan now g sv =
     (if sv_stop_requested sv then (PActStop, sv)
      else
        let sv1 = retain_live sv in
        case earliest_deadline (sv_timers sv1) of
          None \<Rightarrow> (PActWait None, sv1)
        | Some d \<Rightarrow>
            if d \<le> now then (PActDispatch, sv1)
            else
              let slice = min (dur_saturating_sub d now) max_slice in
              (case checked_abs_deadline g slice of
                 Ok dl \<Rightarrow> (PActWait (Some dl), sv1)
               | _ \<Rightarrow> (PActPanic, sv1)))"

datatype 'cb dispatch_pick = PickNone | PickCall nat 'cb | PickPanic

text \<open>The first block of \<open>dispatch_one\<close>: choose, advance, take the callback.\<close>

definition posix_dispatch_pick ::
  "duration \<Rightarrow> 'cb service_state \<Rightarrow> 'cb dispatch_pick \<times> 'cb service_state" where
  "posix_dispatch_pick now sv =
     (case best_expired now (sv_timers sv) of
        None \<Rightarrow> (PickNone, sv)
      | Some (i, _) \<Rightarrow>
          (let e = sv_timers sv ! i in
           case advance_on_expiry (se_state e) now of
             (False, t) \<Rightarrow> (PickNone, sv\<lparr>sv_timers := (sv_timers sv)[i := e\<lparr>se_state := t\<rparr>]\<rparr>)
           | (True, t) \<Rightarrow>
               (case se_callback e of
                  None \<Rightarrow> (PickPanic, sv\<lparr>sv_timers := (sv_timers sv)[i := e\<lparr>se_state := t\<rparr>]\<rparr>)
                | Some cb \<Rightarrow>
                    (PickCall (se_id e) cb,
                     sv\<lparr>sv_timers := (sv_timers sv)[i := e\<lparr>se_state := t, se_callback := None\<rparr>]\<rparr>))))"

text \<open>The last block of \<open>dispatch_one\<close>.\<close>

definition posix_restore :: "nat \<Rightarrow> 'cb \<Rightarrow> 'cb service_state \<Rightarrow> 'cb service_state" where
  "posix_restore tid cb sv =
     (case position (\<lambda>e. se_id e = tid \<and> \<not> se_deleted e) (sv_timers sv) of
        None \<Rightarrow> sv
      | Some i \<Rightarrow>
          if se_callback (sv_timers sv ! i) = None
          then sv\<lparr>sv_timers := (sv_timers sv)[i := (sv_timers sv ! i)\<lparr>se_callback := Some cb\<rparr>]\<rparr>
          else sv)"

section \<open>The control slot (timer_control.rs)\<close>

datatype posix_slot = PSlotStopped | PSlotRunning nat | PSlotStopping nat

record timer_control =
  ct_slot :: posix_slot
  ct_next_generation :: nat

definition timer_control_new :: timer_control where
  "timer_control_new = \<lparr>ct_slot = PSlotStopped, ct_next_generation = 1\<rparr>"

text \<open>\<open>initialize\<close>: \<open>made\<close> is the outcome of creating the service (its mutex and condition variable),
  \<open>spawned\<close> that of starting the worker.\<close>

definition posix_timer_initialize ::
  "unit res \<Rightarrow> unit res \<Rightarrow> timer_control \<Rightarrow> unit res \<times> timer_control" where
  "posix_timer_initialize made spawned c =
     (case ct_slot c of
        PSlotStopped \<Rightarrow>
          (let generation = ct_next_generation c in
           case checked_add u64_max generation 1 of
             None \<Rightarrow> (Err Overflow, c)
           | Some n \<Rightarrow>
               (case made of
                  Ok _ \<Rightarrow>
                    if is_ok spawned
                    then (Ok (), \<lparr>ct_slot = PSlotRunning generation, ct_next_generation = n\<rparr>)
                    else (Err (Internal ''timer worker spawn failed''), c)
                | r \<Rightarrow> (r, c)))
      | PSlotRunning _ \<Rightarrow> (Err AlreadyInitialized, c)
      | PSlotStopping _ \<Rightarrow> (Err Busy, c))"

text \<open>Phase 1 of \<open>shutdown\<close>; \<open>is_self\<close> says that the caller is the worker thread. The result is the
  generation to join.\<close>

definition posix_shutdown_request ::
  "bool \<Rightarrow> timer_control \<Rightarrow> 'cb service_state \<Rightarrow> nat res \<times> timer_control \<times> 'cb service_state" where
  "posix_shutdown_request is_self c sv =
     (case ct_slot c of
        PSlotStopped \<Rightarrow> (Err NotInitialized, c, sv)
      | PSlotStopping _ \<Rightarrow> (Err Busy, c, sv)
      | PSlotRunning g \<Rightarrow>
          if is_self then (Err Busy, c, sv)
          else
            let sv1 = retain_live sv in
            if sv_timers sv1 \<noteq> [] then (Err Busy, c, sv1)
            else (Ok g, c\<lparr>ct_slot := PSlotStopping g\<rparr>, sv1\<lparr>sv_stop_requested := True\<rparr>))"

text \<open>Phase 3, after the join.\<close>

definition posix_shutdown_finish :: "nat \<Rightarrow> timer_control \<Rightarrow> unit res \<times> timer_control" where
  "posix_shutdown_finish shut_gen c =
     (if ct_slot c = PSlotStopping shut_gen then (Ok (), c\<lparr>ct_slot := PSlotStopped\<rparr>)
      else (Panic ''timer shutdown generation invariant violated'', c))"

definition posix_with_service ::
  "('cb service_state \<Rightarrow> 'a res \<times> 'cb service_state) \<Rightarrow> timer_control \<Rightarrow> 'cb service_state
    \<Rightarrow> 'a res \<times> 'cb service_state" where
  "posix_with_service f c sv =
     (case ct_slot c of
        PSlotRunning _ \<Rightarrow> f sv
      | PSlotStopped \<Rightarrow> (Err NotInitialized, sv)
      | PSlotStopping _ \<Rightarrow> (Err Busy, sv))"

section \<open>Interleaving\<close>

text \<open>The worker's wait carries, beside its deadline, the time between its two clock readings.\<close>

datatype 'cb posix_worker_pc =
    PWRun
  | PWDispatch
  | PWCall nat 'cb
  | PWRestore nat 'cb
  | PWWait "timespec option" int
  | PWDone
  | PWPanic

record 'cb posix_timer_world =
  pt_control :: timer_control
  pt_state :: "'cb service_state"
  pt_worker :: "'cb posix_worker_pc"
  pt_blocked :: "nat set"
  pt_clock :: timespec
  pt_joining :: "nat option"
  pt_panicked :: bool

definition ts_dur :: "timespec \<Rightarrow> duration" where
  "ts_dur ts = of_nanos (nat (ts_nanos ts))"

text \<open>The clock readings at which a one-hour slice still fits in \<open>time_t\<close>.\<close>

definition clock_ok :: "timespec \<Rightarrow> bool" where
  "clock_ok ts \<longleftrightarrow> ts_valid ts \<and> ts_nanos ts + 3600000000000 < (time_t_max + 1) * 1000000000"

definition after_worker_wait :: "timespec option \<Rightarrow> posix_ret \<Rightarrow> 'cb posix_worker_pc" where
  "after_worker_wait dl rc =
     (case cond_wait rc of
        Ok _ \<Rightarrow> PWRun
      | Err e \<Rightarrow> if dl \<noteq> None \<and> e = Timeout then PWRun else PWPanic
      | Panic _ \<Rightarrow> PWPanic)"

inductive posix_worker_step :: "'cb posix_timer_world \<Rightarrow> 'cb posix_timer_world \<Rightarrow> bool" where
  run_stop: "posix_worker_step w (w\<lparr>pt_state := sv, pt_worker := PWDone\<rparr>)"
  if "pt_worker w = PWRun" "clock_ok ts2" "ts_nanos (pt_clock w) \<le> ts_nanos ts2"
    "posix_worker_scan (ts_dur (pt_clock w)) (RetOk, ts2) (pt_state w) = (PActStop, sv)"
| run_wait: "posix_worker_step w
      (w\<lparr>pt_state := sv, pt_worker := PWWait dl (ts_nanos ts2 - ts_nanos (pt_clock w)),
         pt_blocked := insert 0 (pt_blocked w), pt_clock := ts2\<rparr>)"
  if "pt_worker w = PWRun" "clock_ok ts2" "ts_nanos (pt_clock w) \<le> ts_nanos ts2"
    "posix_worker_scan (ts_dur (pt_clock w)) (RetOk, ts2) (pt_state w) = (PActWait dl, sv)"
| run_dispatch: "posix_worker_step w (w\<lparr>pt_state := sv, pt_worker := PWDispatch\<rparr>)"
  if "pt_worker w = PWRun" "clock_ok ts2" "ts_nanos (pt_clock w) \<le> ts_nanos ts2"
    "posix_worker_scan (ts_dur (pt_clock w)) (RetOk, ts2) (pt_state w) = (PActDispatch, sv)"
| run_panic: "posix_worker_step w (w\<lparr>pt_state := sv, pt_worker := PWPanic\<rparr>)"
  if "pt_worker w = PWRun" "clock_ok ts2" "ts_nanos (pt_clock w) \<le> ts_nanos ts2"
    "posix_worker_scan (ts_dur (pt_clock w)) (RetOk, ts2) (pt_state w) = (PActPanic, sv)"
| woken: "posix_worker_step w (w\<lparr>pt_worker := PWRun\<rparr>)"
  if "pt_worker w = PWWait dl lag" "0 \<notin> pt_blocked w"
| wait_over: "posix_worker_step w
      (w\<lparr>pt_blocked := pt_blocked w - {0}, pt_worker := after_worker_wait dl rc\<rparr>)"
  if "pt_worker w = PWWait dl lag" "0 \<in> pt_blocked w" "wait_returns dl (pt_clock w) rc"
| pick: "posix_worker_step w
      (w\<lparr>pt_state := sv,
         pt_worker := (case p of PickNone \<Rightarrow> PWRun | PickCall tid cb \<Rightarrow> PWCall tid cb | PickPanic \<Rightarrow> PWPanic)\<rparr>)"
  if "pt_worker w = PWDispatch" "posix_dispatch_pick (ts_dur (pt_clock w)) (pt_state w) = (p, sv)"
| call: "posix_worker_step w (w\<lparr>pt_worker := PWRestore tid cb\<rparr>)"
  if "pt_worker w = PWCall tid cb"
| restore: "posix_worker_step w
      (w\<lparr>pt_state := posix_restore tid cb (pt_state w), pt_worker := PWRun\<rparr>)"
  if "pt_worker w = PWRestore tid cb"

inductive posix_timer_step ::
  "(nat set \<Rightarrow> posix_ret \<Rightarrow> nat set \<Rightarrow> bool) \<Rightarrow> (nat set \<Rightarrow> posix_ret \<Rightarrow> nat set \<Rightarrow> bool)
    \<Rightarrow> 'cb posix_timer_world \<Rightarrow> 'cb posix_timer_world \<Rightarrow> bool"
  for sig bcast where
  time: "posix_timer_step sig bcast w (w\<lparr>pt_clock := ts\<rparr>)"
  if "clock_ok ts" "ts_nanos (pt_clock w) \<le> ts_nanos ts"
| start_service: "posix_timer_step sig bcast w
      (w\<lparr>pt_control := c, pt_state := service_state_new, pt_worker := PWRun, pt_blocked := {}\<rparr>)"
  if "posix_timer_initialize made spawned (pt_control w) = (Ok (), c)"
| quiet_op: "posix_timer_step sig bcast w
      (w\<lparr>pt_state := sv, pt_panicked := (pt_panicked w \<or> is_panic r)\<rparr>)"
  if "posix_with_service (posix_op (ts_dur (pt_clock w)) tmop) (pt_control w) (pt_state w) = (r, sv)"
    "\<not> is_ok r"
| signal_op: "posix_timer_step sig bcast w
      (w\<lparr>pt_state := sv, pt_blocked := B, pt_panicked := (pt_panicked w \<or> \<not> is_ok (check_ret rc))\<rparr>)"
  if "posix_with_service (posix_op (ts_dur (pt_clock w)) tmop) (pt_control w) (pt_state w) = (Ok (), sv)"
    "sig (pt_blocked w) rc B"
| stop_refused: "posix_timer_step sig bcast w (w\<lparr>pt_control := c, pt_state := sv\<rparr>)"
  if "posix_shutdown_request is_self (pt_control w) (pt_state w) = (Err e, c, sv)"
| stop_request: "posix_timer_step sig bcast w
      (w\<lparr>pt_control := c, pt_state := sv, pt_blocked := B, pt_joining := Some g,
         pt_panicked := (pt_panicked w \<or> \<not> is_ok (check_ret rc))\<rparr>)"
  if "posix_shutdown_request is_self (pt_control w) (pt_state w) = (Ok g, c, sv)"
    "bcast (pt_blocked w) rc B"
| joined: "posix_timer_step sig bcast w
      (w\<lparr>pt_control := c, pt_joining := None, pt_panicked := (pt_panicked w \<or> is_panic r)\<rparr>)"
  if "pt_joining w = Some g" "pt_worker w = PWDone"
    "posix_shutdown_finish g (pt_control w) = (r, c)"
| worker: "posix_timer_step sig bcast w w'"
  if "posix_worker_step w w'"

definition posix_timer_init :: "timespec \<Rightarrow> 'cb posix_timer_world" where
  "posix_timer_init ts =
     \<lparr>pt_control = timer_control_new, pt_state = service_state_new, pt_worker = PWDone,
      pt_blocked = {}, pt_clock = ts, pt_joining = None, pt_panicked = False\<rparr>"

section \<open>Relation to the shared registry\<close>

lemma on_entry_next_id: "sv_next_id (snd (on_entry tid f sv)) = sv_next_id sv"
  by (auto simp: on_entry_def split: option.splits prod.splits)

lemma on_entry_no_panic:
  assumes "\<And>e. \<not> is_panic (fst (f e))"
  shows "\<not> is_panic (fst (on_entry tid f sv))"
proof (cases "position (\<lambda>e. se_id e = tid \<and> \<not> se_deleted e) (sv_timers sv)")
  case (Some i)
  then show ?thesis
    using assms [of "sv_timers sv ! i"] by (cases "f (sv_timers sv ! i)") (simp add: on_entry_def)
qed (simp add: on_entry_def)

lemma with_timer_no_panic:
  assumes "\<And>t. \<not> is_panic (fst (f t))"
  shows "\<not> is_panic (fst (with_timer f e))"
  using assms [of "se_state e"] by (auto simp: with_timer_def split: prod.splits)

lemma ts_ops_no_panic:
  "\<not> is_panic (fst (ts_start t now))" "\<not> is_panic (fst (ts_reset t now))"
  "\<not> is_panic (fst (ts_change_period t p))"
  by (auto simp: ts_start_def ts_reset_def ts_change_period_def checked_deadline_def ok_or_def
      split: option.splits)

lemma timer_call_no_panic:
  "\<not> is_panic (fst (on_entry tid (with_timer (\<lambda>t. ts_start t now)) sv))"
  "\<not> is_panic (fst (on_entry tid (with_timer (\<lambda>t. ts_reset t now)) sv))"
  "\<not> is_panic (fst (on_entry tid (with_timer (\<lambda>t. ts_change_period t p)) sv))"
  "\<not> is_panic (fst (on_entry tid (with_timer (\<lambda>t. (Ok (), ts_stop t))) sv) :: unit res)"
  by (rule on_entry_no_panic, rule with_timer_no_panic, simp add: ts_ops_no_panic)+

text \<open>Up to the signal of \<open>change_period\<close> the operations are those of the shared registry.\<close>

lemma posix_op_service_op:
  assumes "posix_op now tmop sv = (r, sv')" and "0 < sv_next_id sv"
  shows "\<exists>tmop' s. service_op now tmop' sv = (s, sv') \<and> (s \<longrightarrow> is_ok r)" and "\<not> is_panic r"
    and "0 < sv_next_id sv'"
proof -
  show "\<exists>tmop' s. service_op now tmop' sv = (s, sv') \<and> (s \<longrightarrow> is_ok r)"
  proof (cases tmop)
    case (OpRegister b p m cb)
    have "posix_register p m cb sv = service_register True p m cb sv"
      using assms(2) by (auto simp: posix_register_def service_register_def Let_def ts_new_def
          split: option.splits)
    with OpRegister assms(1) show ?thesis
      by (intro exI [of _ "OpRegister True p m cb"]) (auto split: prod.splits res.splits elim!: is_okE)
  next
    case (OpDeregister tid)
    obtain q s1 where q: "service_deregister tid sv = (q, s1)" by (cases "service_deregister tid sv")
    have "s1 = sv' \<and> (is_ok q \<longrightarrow> is_ok r)"
      using q assms(1) OpDeregister
      by (auto simp: service_deregister_def posix_deregister_def on_entry_def split: option.splits)
    with q show ?thesis by (intro exI [of _ "OpDeregister tid"]) auto
  next
    case (OpStart tid)
    with assms(1) show ?thesis
      by (intro exI [of _ "OpStart tid"]) (auto simp: posix_start_def service_start_def)
  next
    case (OpStop tid)
    with assms(1) show ?thesis
      by (intro exI [of _ "OpStop tid"]) (auto simp: posix_stop_def service_stop_def)
  next
    case (OpReset tid)
    with assms(1) show ?thesis
      by (intro exI [of _ "OpReset tid"]) (auto simp: posix_reset_def service_reset_def)
  next
    case (OpChangePeriod tid p)
    with assms(1) show ?thesis
      by (intro exI [of _ "OpChangePeriod tid p"])
        (auto simp: posix_change_period_def service_change_period_def)
  qed
  have reg: "\<not> is_panic (fst (posix_register p m cb sv)) \<and> 0 < sv_next_id (snd (posix_register p m cb sv))"
    for p m cb
    using assms(2) by (auto simp: posix_register_def Let_def ts_new_def checked_add_def)
  show "\<not> is_panic r"
  proof (cases tmop)
    case (OpRegister b p m cb)
    then show ?thesis
      using assms(1) reg [of p m cb] by (cases "posix_register p m cb sv"; cases "fst (posix_register p m cb sv)") auto
  next
    case (OpDeregister tid)
    have "\<not> is_panic (fst (posix_deregister tid sv))"
      unfolding posix_deregister_def by (rule on_entry_no_panic) simp
    with OpDeregister assms(1) show ?thesis by simp
  qed (use assms(1) in \<open>auto simp: posix_start_def posix_stop_def posix_reset_def
      posix_change_period_def timer_call_no_panic dest!: arg_cong [of _ _ fst]\<close>)
  show "0 < sv_next_id sv'"
    using assms reg
    by (cases tmop) (auto simp: posix_start_def posix_stop_def posix_reset_def
        posix_change_period_def posix_deregister_def on_entry_next_id dest!: arg_cong [of _ _ snd]
        split: prod.splits)
qed

lemma posix_restore_eq: "posix_restore tid cb sv = snd (restore_service_callback tid cb sv)"
  by (auto simp: posix_restore_def restore_service_callback_def split: option.splits)

section \<open>The scan and the pick\<close>

lemma clock_ok_valid: "clock_ok ts \<Longrightarrow> ts_valid ts"
  by (simp add: clock_ok_def)

lemma ts_nanos_nonneg: "ts_valid ts \<Longrightarrow> 0 \<le> ts_nanos ts"
  by (simp add: ts_valid_def ts_nanos_def)

lemma as_nanos_ts_dur:
  assumes "ts_valid ts"
  shows "int (as_nanos (ts_dur ts)) = ts_nanos ts"
proof -
  have "ts_nanos ts < (time_t_max + 1) * 1000000000"
    using assms by (simp add: ts_valid_def ts_nanos_def)
  then have "nat (ts_nanos ts) < duration_limit"
    by (simp add: time_t_max_def duration_limit_eq)
  then show ?thesis
    using ts_nanos_nonneg [OF assms] by (simp add: ts_dur_def)
qed

text \<open>A wait ends no later than the first deadline, but for the time between the two clock
  readings.\<close>

definition posix_sleep_ok :: "timespec option \<Rightarrow> int \<Rightarrow> 'cb service_state \<Rightarrow> bool" where
  "posix_sleep_ok dl lag sv =
     (case dl of
        None \<Rightarrow> sleep_ok None sv
      | Some a \<Rightarrow> (\<exists>d. sleep_ok (Some d) sv \<and> ts_nanos a \<le> int (as_nanos d) + lag))"

lemma slice_deadline:
  assumes c1: "ts_valid ts1" and c2: "clock_ok ts2" and d: "ts_dur ts1 < d"
  obtains a where "checked_abs_deadline (RetOk, ts2)
      (min (dur_saturating_sub d (ts_dur ts1)) max_slice) = Ok a"
    and "ts_nanos a \<le> int (as_nanos d) + (ts_nanos ts2 - ts_nanos ts1)"
proof -
  let ?s = "min (dur_saturating_sub d (ts_dur ts1)) max_slice"
  have s: "as_nanos ?s \<le> as_nanos d - as_nanos (ts_dur ts1)" "as_nanos ?s \<le> 3600000000000"
    by (auto simp: min_def max_slice_def duration_order duration_limit_eq)
  have le: "as_nanos (ts_dur ts1) \<le> as_nanos d" using d by (simp add: duration_order)
  note x = abs_deadline_exact [OF clock_ok_valid [OF c2], of ?s]
  have "\<not> (time_t_max + 1) * 1000000000 \<le> ts_nanos ts2 + int (as_nanos ?s)"
    using c2 s(2) unfolding clock_ok_def by linarith
  with x obtain a where a: "checked_abs_deadline (RetOk, ts2) ?s = Ok a"
    "ts_nanos a = ts_nanos ts2 + int (as_nanos ?s)"
    by (cases "checked_abs_deadline (RetOk, ts2) ?s") auto
  have "int (as_nanos ?s) \<le> int (as_nanos d) - ts_nanos ts1"
    using s(1) le as_nanos_ts_dur [OF c1] by linarith
  with a show thesis by (intro that [of a]) auto
qed

lemma posix_scan_facts:
  assumes inv: "sv_inv sv" and cb: "callbacks_ok None sv"
    and c: "ts_valid ts1" "clock_ok ts2"
    and s: "posix_worker_scan (ts_dur ts1) (RetOk, ts2) sv = (act, sv')"
  shows "sv_inv sv'" and "callbacks_ok None sv'" and "sv_stop_requested sv' = sv_stop_requested sv"
    and "sv_next_id sv' = sv_next_id sv" and "act \<noteq> PActPanic"
    and "act = PActStop \<longleftrightarrow> sv_stop_requested sv"
    and "act = PActWait dl \<Longrightarrow> posix_sleep_ok dl (ts_nanos ts2 - ts_nanos ts1) sv'"
    and "sv' = sv \<or> sv' = retain_live sv"
proof -
  note r = service_ops_inv(7) [OF inv] retain_live_facts(1) [OF cb] retain_live_facts(3) [of sv]
  have n: "sv_next_id (retain_live sv) = sv_next_id sv" by (simp add: retain_live_def)
  let ?ts = "sv_timers (retain_live sv)"
  have live: "\<forall>e\<in>set ?ts. \<not> se_deleted e" by (simp add: retain_live_def)
  consider (stop) "act = PActStop" "sv' = sv" "sv_stop_requested sv"
    | (none) "act = PActWait None" "sv' = retain_live sv" "earliest_deadline ?ts = None"
        "\<not> sv_stop_requested sv"
    | (due) "act = PActDispatch" "sv' = retain_live sv" "\<not> sv_stop_requested sv"
    | (wait) d a where "act = PActWait (Some a)" "sv' = retain_live sv" "\<not> sv_stop_requested sv"
        "earliest_deadline ?ts = Some d" "ts_nanos a \<le> int (as_nanos d) + (ts_nanos ts2 - ts_nanos ts1)"
  proof (cases "sv_stop_requested sv")
    case True
    with s show thesis by (intro stop) (auto simp: posix_worker_scan_def)
  next
    case False
    show thesis
    proof (cases "earliest_deadline ?ts")
      case None
      with s False show thesis by (intro none) (auto simp: posix_worker_scan_def Let_def)
    next
      case (Some d)
      show thesis
      proof (cases "d \<le> ts_dur ts1")
        case True
        with s False Some show thesis by (intro due) (auto simp: posix_worker_scan_def Let_def)
      next
        case gt: False
        then have "ts_dur ts1 < d" by simp
        from slice_deadline [OF c this] obtain a where
          "checked_abs_deadline (RetOk, ts2) (min (dur_saturating_sub d (ts_dur ts1)) max_slice) = Ok a"
          "ts_nanos a \<le> int (as_nanos d) + (ts_nanos ts2 - ts_nanos ts1)" by blast
        with s False Some gt show thesis
          by (intro wait [of a d]) (auto simp: posix_worker_scan_def Let_def)
      qed
    qed
  qed
  note cases = this
  show "sv_inv sv'" "callbacks_ok None sv'" "sv_stop_requested sv' = sv_stop_requested sv"
    "sv_next_id sv' = sv_next_id sv" "act \<noteq> PActPanic" "act = PActStop \<longleftrightarrow> sv_stop_requested sv"
    "sv' = sv \<or> sv' = retain_live sv"
    using cases by (cases, use inv cb r n in simp_all)+
  show "act = PActWait dl \<Longrightarrow> posix_sleep_ok dl (ts_nanos ts2 - ts_nanos ts1) sv'"
    using cases
  proof cases
    case none
    then have "\<forall>e\<in>set ?ts. ts_deadline (se_state e) = None"
      using live earliest_deadline_le [of _ ?ts] by (metis option.exhaust option.discI)
    then show "act = PActWait dl \<Longrightarrow> ?thesis"
      using none by (auto simp: posix_sleep_ok_def sleep_ok_def retain_live_def)
  next
    case wait
    have "d \<le> d'" if "e \<in> set ?ts" "ts_deadline (se_state e) = Some d'" for e d'
      using earliest_deadline_le [OF that(1) _ that(2)] live that(1) wait(4) by auto
    then have "sleep_ok (Some d) sv'"
      using wait by (auto simp: sleep_ok_def retain_live_def split: option.splits)
    then show "act = PActWait dl \<Longrightarrow> ?thesis"
      using wait by (auto simp: posix_sleep_ok_def)
  qed auto
qed

lemma posix_pick_facts:
  assumes inv: "sv_inv sv" and cb: "callbacks_ok None sv"
    and p: "posix_dispatch_pick now sv = (p, sv')"
  shows "sv_inv sv' \<and> sv_stop_requested sv' = sv_stop_requested sv \<and> sv_next_id sv' = sv_next_id sv
    \<and> p \<noteq> PickPanic
    \<and> callbacks_ok (case p of PickCall tid c \<Rightarrow> Some tid | _ \<Rightarrow> None) sv'
    \<and> (sv_timers sv = [] \<longrightarrow> p = PickNone \<and> sv' = sv)"
proof (cases "best_expired now (sv_timers sv)")
  case None
  then show ?thesis using p inv cb by (simp add: posix_dispatch_pick_def)
next
  case (Some ik)
  obtain i k where "best_expired now (sv_timers sv) = Some (i, k)" using Some by (cases ik) auto
  note b = this best_expired_Some [OF this]
  let ?e = "sv_timers sv ! i"
  obtain f t where a: "advance_on_expiry (se_state ?e) now = (f, t)"
    by (cases "advance_on_expiry (se_state ?e) now")
  have e: "expired_key now ?e = Some k" "i < length (sv_timers sv)" using b(2) by auto
  then have fires: "f" using arg_cong [OF a, of fst]
    by (simp add: advance_fires ts_expired_def expired_key_def split: option.splits if_splits)
  obtain c where c: "se_callback ?e = Some c"
    using e(1) by (auto simp: expired_key_def split: if_splits)
  have out: "p = PickCall (se_id ?e) c"
    "sv' = sv\<lparr>sv_timers := (sv_timers sv)[i := ?e\<lparr>se_state := t, se_callback := None\<rparr>]\<rparr>"
    using p b(1) a fires c by (simp_all add: posix_dispatch_pick_def Let_def)
  have "ts_inv (se_state ?e)" using inv e(2) by (auto simp: sv_inv_def)
  then have "ts_inv t" using a ts_ops_inv(5) by blast
  then have "sv_inv sv'" using sv_inv_update [OF inv e(2)] out(2) by simp
  moreover have "callbacks_ok (Some (se_id ?e)) sv'"
    unfolding out(2) by (rule update_callbacks_ok) (use cb callbacks_ok_mono in auto)
  ultimately show ?thesis using out e(2) by auto
qed

section \<open>Invariant\<close>

fun posix_in_flight :: "'cb posix_worker_pc \<Rightarrow> nat option" where
  "posix_in_flight (PWCall tid cb) = Some tid"
| "posix_in_flight (PWRestore tid cb) = Some tid"
| "posix_in_flight _ = None"

definition slot_ok :: "'cb posix_timer_world \<Rightarrow> bool" where
  "slot_ok w =
     (case ct_slot (pt_control w) of
        PSlotStopped \<Rightarrow> pt_worker w = PWDone \<and> pt_joining w = None
      | PSlotRunning g \<Rightarrow> \<not> sv_stop_requested (pt_state w) \<and> pt_worker w \<noteq> PWDone \<and> pt_joining w = None
      | PSlotStopping g \<Rightarrow> sv_stop_requested (pt_state w) \<and> sv_timers (pt_state w) = []
          \<and> pt_joining w = Some g)"

definition pt_inv :: "'cb posix_timer_world \<Rightarrow> bool" where
  "pt_inv w \<longleftrightarrow>
     sv_inv (pt_state w) \<and> 0 < sv_next_id (pt_state w) \<and> clock_ok (pt_clock w)
     \<and> callbacks_ok (posix_in_flight (pt_worker w)) (pt_state w)
     \<and> pt_worker w \<noteq> PWPanic \<and> \<not> pt_panicked w
     \<and> pt_blocked w \<subseteq> {0} \<and> (pt_blocked w \<noteq> {} \<longrightarrow> (\<exists>dl lag. pt_worker w = PWWait dl lag
           \<and> posix_sleep_ok dl lag (pt_state w)))
     \<and> slot_ok w"

lemma pt_invD:
  assumes "pt_inv w"
  shows "sv_inv (pt_state w)" "0 < sv_next_id (pt_state w)" "clock_ok (pt_clock w)"
    "callbacks_ok (posix_in_flight (pt_worker w)) (pt_state w)"
    "pt_worker w \<noteq> PWPanic" "\<not> pt_panicked w" "pt_blocked w \<subseteq> {0}"
    "pt_blocked w \<noteq> {} \<Longrightarrow> \<exists>dl lag. pt_worker w = PWWait dl lag \<and> posix_sleep_ok dl lag (pt_state w)"
    "slot_ok w"
  using assms by (simp_all add: pt_inv_def)

lemma not_waiting_unblocked:
  "pt_inv w \<Longrightarrow> (\<And>dl lag. pt_worker w \<noteq> PWWait dl lag) \<Longrightarrow> pt_blocked w = {}"
  using pt_invD(8) by blast

lemma posix_sleep_okD: "posix_sleep_ok dl lag sv \<Longrightarrow> \<not> sv_stop_requested sv"
  by (auto simp: posix_sleep_ok_def sleep_ok_def split: option.splits)

lemma pt_inv_run:
  assumes inv: "pt_inv w" and pc: "pt_worker w = PWRun" and c2: "clock_ok ts2"
    and s: "posix_worker_scan (ts_dur (pt_clock w)) (RetOk, ts2) (pt_state w) = (act, sv)"
  shows "act \<noteq> PActPanic"
    and "act = PActStop \<Longrightarrow> pt_inv (w\<lparr>pt_state := sv, pt_worker := PWDone\<rparr>)"
    and "act = PActDispatch \<Longrightarrow> pt_inv (w\<lparr>pt_state := sv, pt_worker := PWDispatch\<rparr>)"
    and "act = PActWait dl \<Longrightarrow> pt_inv (w\<lparr>pt_state := sv,
           pt_worker := PWWait dl (ts_nanos ts2 - ts_nanos (pt_clock w)),
           pt_blocked := insert 0 (pt_blocked w), pt_clock := ts2\<rparr>)"
proof -
  note D = pt_invD [OF inv]
  have cb: "callbacks_ok None (pt_state w)" using D(4) pc by simp
  have blk: "pt_blocked w = {}" using not_waiting_unblocked [OF inv] pc by simp
  note f = posix_scan_facts [OF D(1) cb clock_ok_valid [OF D(3)] c2 s]
  have emp: "sv_timers (pt_state w) = [] \<Longrightarrow> sv_timers sv = []"
    using f(8) by (auto simp: retain_live_def)
  show "act \<noteq> PActPanic" by (rule f(5))
  have slot: "slot_ok (w\<lparr>pt_state := sv, pt_worker := wk\<rparr>)"
    "slot_ok (w\<lparr>pt_state := sv, pt_worker := wk, pt_blocked := B, pt_clock := t\<rparr>)"
    if "wk \<noteq> PWDone \<or> sv_stop_requested sv" for wk B t
    using D(9) f(3) emp pc that by (auto simp: slot_ok_def split: posix_slot.splits)
  show "act = PActStop \<Longrightarrow> pt_inv (w\<lparr>pt_state := sv, pt_worker := PWDone\<rparr>)"
    using D f(1-4,6) blk slot(1) by (simp add: pt_inv_def)
  show "act = PActDispatch \<Longrightarrow> pt_inv (w\<lparr>pt_state := sv, pt_worker := PWDispatch\<rparr>)"
    using D f(1-4) blk slot(1) by (simp add: pt_inv_def)
  show "act = PActWait dl \<Longrightarrow> pt_inv (w\<lparr>pt_state := sv,
           pt_worker := PWWait dl (ts_nanos ts2 - ts_nanos (pt_clock w)),
           pt_blocked := insert 0 (pt_blocked w), pt_clock := ts2\<rparr>)"
    using D f(1-4,7) blk c2 slot(2) by (simp add: pt_inv_def)
qed

lemma posix_worker_step_inv:
  assumes "posix_worker_step w w'" and inv: "pt_inv w"
  shows "pt_inv w'"
  using assms(1)
proof cases
  case (run_stop ts2 sv)
  then show ?thesis using pt_inv_run(2) [OF inv run_stop(2,3,5)] by simp
next
  case (run_wait ts2 dl sv)
  then show ?thesis using pt_inv_run(4) [OF inv run_wait(2,3,5)] by simp
next
  case (run_dispatch ts2 sv)
  then show ?thesis using pt_inv_run(3) [OF inv run_dispatch(2,3,5)] by simp
next
  case (run_panic ts2 sv)
  then show ?thesis using pt_inv_run(1) [OF inv run_panic(2,3,5)] by simp
next
  case (woken dl lag)
  note D = pt_invD [OF inv]
  have "pt_blocked w = {}" using D(7) woken(3) by auto
  then show ?thesis
    using D woken by (auto simp: pt_inv_def slot_ok_def split: posix_slot.splits)
next
  case (wait_over dl lag rc)
  note D = pt_invD [OF inv]
  have "after_worker_wait dl rc = (PWRun :: 'a posix_worker_pc)"
    using wait_over(4) by (auto simp: wait_returns_def after_worker_wait_def cond_wait_def
        split: option.splits)
  moreover have "pt_blocked w - {0} = {}" using D(7) by auto
  ultimately show ?thesis
    using D wait_over by (auto simp: pt_inv_def slot_ok_def split: posix_slot.splits)
next
  case (pick p sv)
  note D = pt_invD [OF inv]
  have cb: "callbacks_ok None (pt_state w)" using D(4) pick(2) by simp
  have blk: "pt_blocked w = {}" using not_waiting_unblocked [OF inv] pick(2) by simp
  note f = posix_pick_facts [OF D(1) cb pick(3)]
  show ?thesis
    using D f blk pick(2) unfolding pick(1)
    by (cases p) (auto simp: pt_inv_def slot_ok_def split: posix_slot.splits)
next
  case (call tid cb)
  note D = pt_invD [OF inv]
  have blk: "pt_blocked w = {}" using not_waiting_unblocked [OF inv] call(2) by simp
  show ?thesis
    using D blk call by (auto simp: pt_inv_def slot_ok_def split: posix_slot.splits)
next
  case (restore tid cb)
  note D = pt_invD [OF inv]
  have blk: "pt_blocked w = {}" using not_waiting_unblocked [OF inv] restore(2) by simp
  have c: "callbacks_ok (Some tid) (pt_state w)" using D(4) restore(2) by simp
  note f = restore_facts [OF D(1) c, of cb, folded posix_restore_eq]
  have n: "sv_next_id (posix_restore tid cb (pt_state w)) = sv_next_id (pt_state w)"
    "sv_timers (pt_state w) = [] \<Longrightarrow> sv_timers (posix_restore tid cb (pt_state w)) = []"
    by (auto simp: posix_restore_def split: option.splits)
  show ?thesis
    using D f n blk restore(2) unfolding restore(1)
    by (auto simp: pt_inv_def slot_ok_def split: posix_slot.splits)
qed

context pthread_cond
begin

lemma sig_one: "sig W rc W' \<Longrightarrow> W \<subseteq> {0} \<Longrightarrow> W' = {}"
  using sig_subset [of W rc W'] sig_wakes [of W rc W'] by blast

lemma pt_inv_op:
  assumes inv: "pt_inv w"
    and o: "posix_with_service (posix_op (ts_dur (pt_clock w)) tmop) (pt_control w) (pt_state w) = (r, sv)"
    and b: "is_ok r \<Longrightarrow> B = {}" "\<not> is_ok r \<Longrightarrow> B = pt_blocked w"
  shows "pt_inv (w\<lparr>pt_state := sv, pt_blocked := B\<rparr>)" and "\<not> is_panic r"
proof -
  note D = pt_invD [OF inv]
  have "pt_inv (w\<lparr>pt_state := sv, pt_blocked := B\<rparr>) \<and> \<not> is_panic r"
  proof (cases "ct_slot (pt_control w)")
    case (PSlotRunning g)
    with o have op: "posix_op (ts_dur (pt_clock w)) tmop (pt_state w) = (r, sv)"
      by (simp add: posix_with_service_def)
    note f = posix_op_service_op [OF op D(2)]
    obtain tmop' s where s: "service_op (ts_dur (pt_clock w)) tmop' (pt_state w) = (s, sv)"
      "s \<longrightarrow> is_ok r" using f(1) by blast
    have sl: "\<exists>dl lag. pt_worker w = PWWait dl lag \<and> posix_sleep_ok dl lag sv"
      if "B \<noteq> {}"
    proof -
      from that b have "\<not> is_ok r" "pt_blocked w \<noteq> {}" by auto
      then obtain dl lag where p: "pt_worker w = PWWait dl lag" "posix_sleep_ok dl lag (pt_state w)"
        using D(8) by auto
      have q: "service_op (ts_dur (pt_clock w)) tmop' (pt_state w) = (False, sv)"
        using s \<open>\<not> is_ok r\<close> by auto
      from p(2) have "posix_sleep_ok dl lag sv"
        using service_op_quiet [OF q] by (auto simp: posix_sleep_ok_def split: option.splits)
      with p(1) show ?thesis by blast
    qed
    have "B \<subseteq> {0}" using b D(7) by (cases "is_ok r") auto
    then show ?thesis
      using D f(2,3) sl service_op_inv [OF D(1) s(1)] service_op_callbacks [OF D(4) s(1)]
        service_op_stop [OF s(1)] PSlotRunning
      by (simp add: pt_inv_def slot_ok_def)
  next
    case PSlotStopped
    with o have "sv = pt_state w" "r = Err NotInitialized" by (auto simp: posix_with_service_def)
    with inv b show ?thesis by simp
  next
    case (PSlotStopping g)
    with o have "sv = pt_state w" "r = Err Busy" by (auto simp: posix_with_service_def)
    with inv b show ?thesis by simp
  qed
  then show "pt_inv (w\<lparr>pt_state := sv, pt_blocked := B\<rparr>)" "\<not> is_panic r" by auto
qed

lemma posix_sleep_ok_retain: "posix_sleep_ok dl lag (retain_live sv) = posix_sleep_ok dl lag sv"
  by (auto simp: posix_sleep_ok_def retain_live_facts(2) split: option.splits)

lemma pt_inv_stop_refused:
  assumes inv: "pt_inv w"
    and r: "posix_shutdown_request is_self (pt_control w) (pt_state w) = (Err e, c, sv)"
  shows "pt_inv (w\<lparr>pt_control := c, pt_state := sv\<rparr>)"
proof -
  note D = pt_invD [OF inv]
  have c: "c = pt_control w" and "sv = pt_state w
      \<or> (sv = retain_live (pt_state w) \<and> (\<exists>g. ct_slot (pt_control w) = PSlotRunning g))"
    using r by (auto simp: posix_shutdown_request_def Let_def split: posix_slot.splits if_splits)
  then show ?thesis
  proof (elim disjE conjE exE)
    fix g assume sv: "sv = retain_live (pt_state w)" "ct_slot (pt_control w) = PSlotRunning g"
    have n: "sv_next_id (retain_live (pt_state w)) = sv_next_id (pt_state w)"
      by (simp add: retain_live_def)
    show ?thesis
      using D c sv n service_ops_inv(7) [OF D(1)] retain_live_facts(1) [OF D(4)]
        retain_live_facts(3) [of "pt_state w"]
      by (simp add: pt_inv_def slot_ok_def posix_sleep_ok_retain)
  qed (use inv c in simp)
qed

lemma pt_inv_stop_request:
  assumes inv: "pt_inv w"
    and r: "posix_shutdown_request is_self (pt_control w) (pt_state w) = (Ok g, c, sv)"
  shows "pt_inv (w\<lparr>pt_control := c, pt_state := sv, pt_blocked := {}, pt_joining := Some g\<rparr>)"
proof -
  note D = pt_invD [OF inv]
  have s: "ct_slot (pt_control w) = PSlotRunning g" "ct_slot c = PSlotStopping g"
    "sv_timers (retain_live (pt_state w)) = []"
    "sv = (retain_live (pt_state w))\<lparr>sv_stop_requested := True\<rparr>"
    using r by (auto simp: posix_shutdown_request_def Let_def split: posix_slot.splits if_splits)
  show ?thesis
    using D s by (simp add: pt_inv_def slot_ok_def sv_inv_def callbacks_ok_def retain_live_def)
qed

lemma posix_timer_step_inv:
  assumes "posix_timer_step sig bcast w w'" and inv: "pt_inv w"
  shows "pt_inv w'"
  using assms(1)
proof cases
  case (time ts)
  then show ?thesis
    using pt_invD [OF inv] by (auto simp: pt_inv_def slot_ok_def split: posix_slot.splits)
next
  case (start_service made spawned c)
  then obtain g where "ct_slot (pt_control w) = PSlotStopped" "ct_slot c = PSlotRunning g"
    by (auto simp: posix_timer_initialize_def Let_def split: posix_slot.splits option.splits
        res.splits if_splits)
  then show ?thesis
    using pt_invD [OF inv] unfolding start_service(1)
    by (simp add: pt_inv_def slot_ok_def service_state_new_def sv_inv_def callbacks_ok_def)
next
  case (quiet_op tmop r sv)
  have "pt_inv (w\<lparr>pt_state := sv, pt_blocked := pt_blocked w\<rparr>)" "\<not> is_panic r"
    using pt_inv_op [OF inv quiet_op(2), of "pt_blocked w"] quiet_op(3) by auto
  then show ?thesis
    using pt_invD(6) [OF inv] unfolding quiet_op(1) by (simp add: pt_inv_def slot_ok_def split: posix_slot.splits)
next
  case (signal_op tmop sv rc B)
  have B: "B = {}" by (rule sig_one [OF signal_op(3) pt_invD(7) [OF inv]])
  have "pt_inv (w\<lparr>pt_state := sv, pt_blocked := B\<rparr>)"
    using pt_inv_op(1) [OF inv signal_op(2), of B] B by auto
  then show ?thesis
    using pt_invD(6) [OF inv] sig_ret [OF signal_op(3)] unfolding signal_op(1)
    by (simp add: pt_inv_def slot_ok_def split: posix_slot.splits)
next
  case (stop_refused is_self e c sv)
  then show ?thesis using pt_inv_stop_refused [OF inv] by simp
next
  case (stop_request is_self g c sv rc B)
  have "rc = RetOk" "B = {}" using bcast_all [OF stop_request(3)] by auto
  then show ?thesis
    using pt_inv_stop_request [OF inv stop_request(2)] pt_invD(6) [OF inv] unfolding stop_request(1)
    by (simp add: pt_inv_def slot_ok_def split: posix_slot.splits)
next
  case (joined g r c)
  note D = pt_invD [OF inv]
  have slot: "ct_slot (pt_control w) = PSlotStopping g"
    using D(9) joined(2) by (auto simp: slot_ok_def split: posix_slot.splits)
  then have "r = Ok ()" "c = (pt_control w)\<lparr>ct_slot := PSlotStopped\<rparr>"
    using joined(4) by (auto simp: posix_shutdown_finish_def)
  then show ?thesis
    using D joined(3) unfolding joined(1) by (auto simp: pt_inv_def slot_ok_def)
next
  case worker
  then show ?thesis using posix_worker_step_inv [OF _ inv] by blast
qed

lemma pt_inv_reachable:
  assumes "clock_ok ts" and "(posix_timer_step sig bcast)\<^sup>*\<^sup>* (posix_timer_init ts) w"
  shows "pt_inv w"
  using assms(2)
proof (induction rule: rtranclp_induct)
  case base
  then show ?case
    using assms(1) by (simp add: pt_inv_def posix_timer_init_def slot_ok_def timer_control_new_def
        service_state_new_def sv_inv_def callbacks_ok_def)
next
  case (step w w')
  then show ?case by (blast intro: posix_timer_step_inv)
qed

end

section \<open>Properties\<close>

text \<open>C24. The POSIX timer worker does not oversleep and never panics: while it is blocked on its
  condition variable no stop is requested, and the absolute deadline of its wait is not later than
  the deadline of any live timer but for the time between the worker's two clock readings; with no
  deadline set it waits without limit only when no live timer is armed. No client call panics
  either.\<close>

theorem posix_timer_no_oversleep:
  assumes "pthread_cond sig bcast" and "clock_ok ts"
    and "(posix_timer_step sig bcast)\<^sup>*\<^sup>* (posix_timer_init ts) w"
  shows "pt_worker w \<noteq> PWPanic \<and> \<not> pt_panicked w
    \<and> (0 \<in> pt_blocked w \<longrightarrow> (\<exists>dl lag. pt_worker w = PWWait dl lag \<and> \<not> sv_stop_requested (pt_state w)
        \<and> (\<forall>e d. e \<in> set (sv_timers (pt_state w)) \<and> \<not> se_deleted e \<and> ts_deadline (se_state e) = Some d
             \<longrightarrow> (\<exists>a. dl = Some a \<and> ts_nanos a \<le> int (as_nanos d) + lag))))"
proof -
  note D = pt_invD [OF pthread_cond.pt_inv_reachable [OF assms]]
  have "\<exists>dl lag. pt_worker w = PWWait dl lag \<and> \<not> sv_stop_requested (pt_state w)
        \<and> (\<forall>e d. e \<in> set (sv_timers (pt_state w)) \<and> \<not> se_deleted e \<and> ts_deadline (se_state e) = Some d
             \<longrightarrow> (\<exists>a. dl = Some a \<and> ts_nanos a \<le> int (as_nanos d) + lag))" if "0 \<in> pt_blocked w"
  proof -
    from that D(8) obtain dl lag where p: "pt_worker w = PWWait dl lag"
      "posix_sleep_ok dl lag (pt_state w)" by blast
    have "\<exists>a. dl = Some a \<and> ts_nanos a \<le> int (as_nanos d) + lag"
      if "e \<in> set (sv_timers (pt_state w))" "\<not> se_deleted e" "ts_deadline (se_state e) = Some d" for e d
      using p(2) that
      by (fastforce simp: posix_sleep_ok_def sleep_ok_def duration_order split: option.splits)
    with p posix_sleep_okD [OF p(2)] show ?thesis by blast
  qed
  with D(5,6) show ?thesis by blast
qed

lemma worker_run_done:
  assumes "pt_inv w" and "pt_worker w = PWRun" and "sv_stop_requested (pt_state w)"
  shows "posix_worker_step w (w\<lparr>pt_state := pt_state w, pt_worker := PWDone\<rparr>)"
  by (rule posix_worker_step.run_stop [of _ "pt_clock w"])
    (use assms pt_invD(3) [OF assms(1)] in \<open>simp_all add: posix_worker_scan_def\<close>)

lemma worker_step_control:
  "posix_worker_step w w' \<Longrightarrow> pt_control w' = pt_control w \<and> pt_joining w' = pt_joining w"
  by (induction rule: posix_worker_step.induct) simp_all

lemma worker_step_to_run:
  assumes "pt_inv w" and "ct_slot (pt_control w) = PSlotStopping g"
  shows "pt_worker w = PWDone \<or> pt_worker w = PWRun
    \<or> (\<exists>w1. posix_worker_step w w1 \<and> pt_worker w1 = PWRun)
    \<or> (\<exists>w1 w2. posix_worker_step w w1 \<and> posix_worker_step w1 w2 \<and> pt_worker w2 = PWRun)"
proof -
  note D = pt_invD [OF assms(1)]
  have s: "sv_stop_requested (pt_state w)" "sv_timers (pt_state w) = []"
    using D(9) assms(2) by (simp_all add: slot_ok_def)
  show ?thesis
  proof (cases "pt_worker w")
    case PWDispatch
    have "posix_dispatch_pick (ts_dur (pt_clock w)) (pt_state w) = (PickNone, pt_state w)"
      using s(2) by (simp add: posix_dispatch_pick_def)
    from posix_worker_step.pick [OF PWDispatch this] show ?thesis by fastforce
  next
    case (PWCall tid cb)
    have "posix_worker_step w (w\<lparr>pt_worker := PWRestore tid cb\<rparr>)"
      by (rule posix_worker_step.call [OF PWCall])
    moreover have "posix_worker_step (w\<lparr>pt_worker := PWRestore tid cb\<rparr>)
        (w\<lparr>pt_worker := PWRestore tid cb, pt_state := posix_restore tid cb (pt_state w), pt_worker := PWRun\<rparr>)"
      using posix_worker_step.restore [of "w\<lparr>pt_worker := PWRestore tid cb\<rparr>" tid cb] by simp
    ultimately show ?thesis by fastforce
  next
    case (PWRestore tid cb)
    from posix_worker_step.restore [OF PWRestore] show ?thesis by fastforce
  next
    case (PWWait dl lag)
    have "0 \<notin> pt_blocked w" using D(8) s(1) posix_sleep_okD by blast
    from posix_worker_step.woken [OF PWWait this] show ?thesis by fastforce
  qed (use D(5) in simp_all)
qed

lemma stopping_join_returns:
  assumes "pt_inv w" and "pt_worker w = PWDone" and "ct_slot (pt_control w) = PSlotStopping g" and "pt_joining w = Some g"
  shows "\<exists>w2. posix_timer_step sig bcast w w2 \<and> ct_slot (pt_control w2) = PSlotStopped
    \<and> pt_joining w2 = None \<and> \<not> pt_panicked w2"
  using posix_timer_step.joined [OF assms(4,2), of "Ok ()" "(pt_control w)\<lparr>ct_slot := PSlotStopped\<rparr>" sig bcast]
    assms(3) pt_invD(6) [OF assms(1)] by (fastforce simp: posix_shutdown_finish_def)

lemma stopping_run_ends:
  assumes "pt_inv w" and "pt_worker w = PWRun" and "ct_slot (pt_control w) = PSlotStopping g"
  shows "\<exists>w1. posix_worker_step w w1 \<and> pt_worker w1 = PWDone \<and> pt_inv w1"
proof -
  have "sv_stop_requested (pt_state w)" using pt_invD(9) [OF assms(1)] assms(3) by (simp add: slot_ok_def)
  note s = worker_run_done [OF assms(1,2) this]
  with posix_worker_step_inv [OF s assms(1)] show ?thesis by fastforce
qed

text \<open>C25. A shutdown of the POSIX timer service completes: once it has been accepted (which needs an
  empty registry), the worker ends within three of its own steps, whatever it was doing, and then
  the joining caller returns, finds its own generation in the control slot and leaves it stopped.\<close>

theorem posix_timer_shutdown_completes:
  assumes "pthread_cond sig bcast" and "clock_ok ts"
    and "(posix_timer_step sig bcast)\<^sup>*\<^sup>* (posix_timer_init ts) w"
    and slot: "ct_slot (pt_control w) = PSlotStopping g"
  shows "\<exists>n w1 w2. n \<le> 3 \<and> (posix_worker_step ^^ n) w w1 \<and> pt_worker w1 = PWDone
    \<and> posix_timer_step sig bcast w1 w2 \<and> ct_slot (pt_control w2) = PSlotStopped
    \<and> pt_joining w2 = None \<and> \<not> pt_panicked w2"
proof -
  note inv = pthread_cond.pt_inv_reachable [OF assms(1-3)]
  have join: "pt_joining w = Some g" using pt_invD(9) [OF inv] slot by (simp add: slot_ok_def)
  have ends: ?thesis
    if st: "(posix_worker_step ^^ m) w w'" "m \<le> 2" "pt_inv w'" "pt_worker w' = PWRun"
      "pt_control w' = pt_control w" "pt_joining w' = Some g" for m w'
  proof -
    obtain w1 where w1: "posix_worker_step w' w1" "pt_worker w1 = PWDone" "pt_inv w1"
      using stopping_run_ends [OF st(3,4)] st(5) slot by auto
    have "(posix_worker_step ^^ Suc m) w w1" using st(1) w1(1) by (rule relpowp_Suc_I)
    moreover have "Suc m \<le> 3" using st(2) by simp
    ultimately show ?thesis
      using stopping_join_returns [OF w1(3,2)] worker_step_control [OF w1(1)] slot st(5,6) w1(2) by metis
  qed
  from worker_step_to_run [OF inv slot]
  consider (ended) "pt_worker w = PWDone" | (zero) "pt_worker w = PWRun"
    | (one) w1 where "posix_worker_step w w1" "pt_worker w1 = PWRun"
    | (two) w1 w2 where "posix_worker_step w w1" "posix_worker_step w1 w2" "pt_worker w2 = PWRun"
    by blast
  then show ?thesis
  proof cases
    case ended
    have "(posix_worker_step ^^ 0) w w" by simp
    with stopping_join_returns [OF inv ended slot join] ended show ?thesis by (metis le0)
  next
    case zero
    show ?thesis by (rule ends [of 0 w]) (use inv zero join in simp_all)
  next
    case one
    show ?thesis
      by (rule ends [of 1 w1])
        (use one posix_worker_step_inv [OF one(1) inv] worker_step_control [OF one(1)] join in auto)
  next
    case two
    note i1 = posix_worker_step_inv [OF two(1) inv]
    have "(posix_worker_step ^^ 2) w w2" using two(1,2) by (auto simp: numeral_2_eq_2)
    then show ?thesis
      by (rule ends) (use two(3) posix_worker_step_inv [OF two(2) i1] worker_step_control [OF two(1)]
          worker_step_control [OF two(2)] join in simp_all)
  qed
qed

text \<open>Witnesses: a started service whose worker sleeps on an empty registry; a service asked to stop
  before its worker ran.\<close>

definition posix_epoch :: timespec where
  "posix_epoch = \<lparr>tv_sec = 0, tv_nsec = 0\<rparr>"

lemma posix_epoch_ok: "clock_ok posix_epoch"
  by (simp add: clock_ok_def ts_valid_def ts_nanos_def posix_epoch_def time_t_max_def)

definition posix_demo_started :: "nat posix_timer_world" where
  "posix_demo_started = (posix_timer_init posix_epoch)\<lparr>pt_control := \<lparr>ct_slot = PSlotRunning 1,
     ct_next_generation = 2\<rparr>, pt_worker := PWRun\<rparr>"

lemma posix_demo_started_step:
  "posix_timer_step posix_signal posix_broadcast (posix_timer_init posix_epoch) posix_demo_started"
proof -
  let ?w = "posix_timer_init posix_epoch :: nat posix_timer_world"
  have i: "posix_timer_initialize (Ok ()) (Ok ()) (pt_control ?w)
      = (Ok (), \<lparr>ct_slot = PSlotRunning 1, ct_next_generation = 2\<rparr>)"
    by (simp add: posix_timer_initialize_def posix_timer_init_def timer_control_new_def
        checked_add_def u64_max_def)
  have "posix_demo_started = ?w\<lparr>pt_control := \<lparr>ct_slot = PSlotRunning 1, ct_next_generation = 2\<rparr>,
      pt_state := service_state_new, pt_worker := PWRun, pt_blocked := {}\<rparr>"
    by (simp add: posix_demo_started_def posix_timer_init_def)
  then show ?thesis using posix_timer_step.start_service [OF i] by simp
qed

definition posix_demo_asleep :: "nat posix_timer_world" where
  "posix_demo_asleep = posix_demo_started\<lparr>pt_worker := PWWait None 0, pt_blocked := {0}\<rparr>"

lemma posix_demo_asleep_reachable:
  "(posix_timer_step posix_signal posix_broadcast)\<^sup>*\<^sup>* (posix_timer_init posix_epoch) posix_demo_asleep"
proof -
  let ?w = posix_demo_started
  have s: "posix_worker_scan (ts_dur (pt_clock ?w)) (RetOk, posix_epoch) (pt_state ?w)
      = (PActWait None, pt_state ?w)"
    by (simp add: posix_worker_scan_def posix_demo_started_def posix_timer_init_def
        service_state_new_def retain_live_def)
  have "posix_worker_step ?w (?w\<lparr>pt_state := pt_state ?w,
      pt_worker := PWWait None (ts_nanos posix_epoch - ts_nanos (pt_clock ?w)),
      pt_blocked := insert 0 (pt_blocked ?w), pt_clock := posix_epoch\<rparr>)"
    by (rule posix_worker_step.run_wait [OF _ posix_epoch_ok _ s])
      (simp_all add: posix_demo_started_def posix_timer_init_def)
  moreover have "?w\<lparr>pt_state := pt_state ?w,
      pt_worker := PWWait None (ts_nanos posix_epoch - ts_nanos (pt_clock ?w)),
      pt_blocked := insert 0 (pt_blocked ?w), pt_clock := posix_epoch\<rparr> = posix_demo_asleep"
    by (simp add: posix_demo_asleep_def posix_demo_started_def posix_timer_init_def)
  ultimately have "posix_timer_step posix_signal posix_broadcast ?w posix_demo_asleep"
    using posix_timer_step.worker by metis
  with posix_demo_started_step show ?thesis
    by (meson rtranclp.rtrancl_into_rtrancl rtranclp.rtrancl_refl)
qed

theorem posix_timer_no_oversleep_witness:
  "0 \<in> pt_blocked posix_demo_asleep \<and> \<not> sv_stop_requested (pt_state posix_demo_asleep)"
  using posix_timer_no_oversleep [OF anysig.pthread_cond_axioms posix_epoch_ok
      posix_demo_asleep_reachable]
  by (auto simp: posix_demo_asleep_def)

definition posix_demo_stopping :: "nat posix_timer_world" where
  "posix_demo_stopping = posix_demo_asleep\<lparr>pt_control := \<lparr>ct_slot = PSlotStopping 1,
     ct_next_generation = 2\<rparr>, pt_state := service_state_new\<lparr>sv_stop_requested := True\<rparr>,
     pt_blocked := {}, pt_joining := Some 1\<rparr>"

lemma posix_demo_stopping_reachable:
  "(posix_timer_step posix_signal posix_broadcast)\<^sup>*\<^sup>* (posix_timer_init posix_epoch) posix_demo_stopping"
proof -
  let ?w = posix_demo_asleep
  have r: "posix_shutdown_request False (pt_control ?w) (pt_state ?w)
      = (Ok 1, \<lparr>ct_slot = PSlotStopping 1, ct_next_generation = 2\<rparr>,
         service_state_new\<lparr>sv_stop_requested := True\<rparr>)"
    by (simp add: posix_shutdown_request_def posix_demo_asleep_def posix_demo_started_def
        posix_timer_init_def service_state_new_def retain_live_def)
  have b: "posix_broadcast (pt_blocked ?w) RetOk {}" by (simp add: posix_broadcast_def)
  have "posix_timer_step posix_signal posix_broadcast ?w posix_demo_stopping"
    using posix_timer_step.stop_request [where bcast = posix_broadcast and sig = posix_signal, OF r b]
    by (simp add: posix_demo_stopping_def posix_demo_asleep_def posix_demo_started_def
        posix_timer_init_def)
  with posix_demo_asleep_reachable show ?thesis by (rule rtranclp.rtrancl_into_rtrancl)
qed

theorem posix_timer_shutdown_completes_witness:
  "\<exists>n w1 w2. n \<le> 3 \<and> (posix_worker_step ^^ n) posix_demo_stopping w1 \<and> pt_worker w1 = PWDone
    \<and> posix_timer_step posix_signal posix_broadcast w1 w2 \<and> ct_slot (pt_control w2) = PSlotStopped
    \<and> pt_joining w2 = None \<and> \<not> pt_panicked w2"
  using posix_timer_shutdown_completes [OF anysig.pthread_cond_axioms posix_epoch_ok
      posix_demo_stopping_reachable, of 1]
  by (simp add: posix_demo_stopping_def)

end
