(* ===== verification/Posix_Queue.thy ===== *)
theory Posix_Queue
  imports Posix_Condvar Byte_Queue Shared_Validation
begin

text \<open>
  The blocking queue of the POSIX backend (src/crates/osal-backend-posix/src/queue.rs): the
  portable ring buffer under a pthread mutex with the condition variables \<open>not_empty\<close> and
  \<open>not_full\<close>. The part of a call between taking the mutex and leaving it (by returning or by
  waiting) is one function on the buffer; the step relation interleaves these sections with
  signals, spurious wake-ups, timeouts and closes of any number of threads.
\<close>

section \<open>The sections of send and recv\<close>

text \<open>One turn of the loop of \<open>send\<close>; \<open>dl\<close> is the absolute deadline, if any.\<close>

definition posix_send_iter ::
  "u8 list \<Rightarrow> timespec option \<Rightarrow> byte_queue \<Rightarrow> unit res section_end \<times> byte_queue" where
  "posix_send_iter data dl q =
     (if bq_closed q then (SecReturn (Err QueueClosed) False, q)
      else case try_send q data of
        (r, q1) \<Rightarrow>
          (case r of
             Ok _ \<Rightarrow> (SecReturn (Ok ()) True, q1)
           | Err QueueFull \<Rightarrow> (SecWait dl, q1)
           | _ \<Rightarrow> (SecReturn r False, q1)))"

text \<open>\<open>send\<close> from the lock to the first time it leaves the mutex; \<open>g\<close> is what \<open>clock_gettime\<close>
  returns.\<close>

definition posix_send_enter ::
  "posix_ret \<times> timespec \<Rightarrow> u8 list \<Rightarrow> timeout \<Rightarrow> byte_queue \<Rightarrow> unit res section_end \<times> byte_queue" where
  "posix_send_enter g data t q =
     (if bq_closed q then (SecReturn (Err QueueClosed) False, q)
      else case t of
        NoWait \<Rightarrow> (case try_send q data of (r, q1) \<Rightarrow> (SecReturn r (is_ok r), q1))
      | After d \<Rightarrow>
          (case checked_abs_deadline g d of
             Ok ts \<Rightarrow> posix_send_iter data (Some ts) q
           | Err e \<Rightarrow> (SecReturn (Err e) False, q)
           | Panic m \<Rightarrow> (SecReturn (Panic m) False, q))
      | Forever \<Rightarrow> posix_send_iter data None q)"

definition posix_recv_iter ::
  "u8 list \<Rightarrow> timespec option \<Rightarrow> byte_queue \<Rightarrow> unit res section_end \<times> byte_queue \<times> u8 list" where
  "posix_recv_iter buf dl q =
     (let is_closed = bq_closed q; is_empty = bq_is_empty q in
      if is_closed \<and> is_empty then (SecReturn (Err QueueClosed) False, q, buf)
      else case try_recv q buf of
        (r, q1, out) \<Rightarrow>
          (case r of
             Ok _ \<Rightarrow> (SecReturn (Ok ()) True, q1, out)
           | Err QueueEmpty \<Rightarrow>
               if is_closed then (SecReturn (Err QueueClosed) False, q1, out)
               else (SecWait dl, q1, out)
           | Err e \<Rightarrow> (SecReturn (Err e) False, q1, out)
           | Panic m \<Rightarrow> (SecReturn (Panic m) False, q1, out)))"

definition posix_recv_enter ::
  "posix_ret \<times> timespec \<Rightarrow> u8 list \<Rightarrow> timeout \<Rightarrow> byte_queue
    \<Rightarrow> unit res section_end \<times> byte_queue \<times> u8 list" where
  "posix_recv_enter g buf t q =
     (case t of
        NoWait \<Rightarrow>
          (case try_recv q buf of
             (r, q1, out) \<Rightarrow> (SecReturn (res_bind r (\<lambda>_. Ok ())) (is_ok r), q1, out))
      | After d \<Rightarrow>
          (case checked_abs_deadline g d of
             Ok ts \<Rightarrow> posix_recv_iter buf (Some ts) q
           | Err e \<Rightarrow> (SecReturn (Err e) False, q, buf)
           | Panic m \<Rightarrow> (SecReturn (Panic m) False, q, buf))
      | Forever \<Rightarrow> posix_recv_iter buf None q)"

text \<open>The end of \<open>close\<close>, from the return codes of its two broadcasts.\<close>

definition posix_close_result :: "posix_ret \<Rightarrow> posix_ret \<Rightarrow> unit res" where
  "posix_close_result e1 e2 =
     (if is_ok (check_ret e1) \<and> is_ok (check_ret e2) then Ok ()
      else Panic ''POSIX queue close broadcast failed after commit'')"

section \<open>Threads\<close>

datatype posix_pc =
    PReturned "unit res"
  | PSend "u8 list" timeout
  | PSendLoop "u8 list" "timespec option"
  | PRecv "u8 list" timeout
  | PRecvLoop "u8 list" "timespec option"
  | PClose

definition posix_send_call :: "nat \<Rightarrow> u8 list \<Rightarrow> timeout \<Rightarrow> posix_pc" where
  "posix_send_call msg_size data t =
     (case validate_send_message_size msg_size (length data) of
        Ok _ \<Rightarrow> PSend data t
      | r \<Rightarrow> PReturned r)"

definition posix_recv_call :: "nat \<Rightarrow> u8 list \<Rightarrow> timeout \<Rightarrow> posix_pc" where
  "posix_recv_call msg_size buf t =
     (case validate_recv_buffer_size msg_size (length buf) of
        Ok _ \<Rightarrow> PRecv buf t
      | r \<Rightarrow> PReturned r)"

text \<open>What a thread at \<open>pc\<close> does with the mutex in its hand.\<close>

definition send_section ::
  "posix_ret \<times> timespec \<Rightarrow> posix_pc \<Rightarrow> byte_queue
    \<Rightarrow> (u8 list \<times> unit res section_end \<times> byte_queue) option" where
  "send_section g pc q =
     (case pc of
        PSend data t \<Rightarrow> Some (data, posix_send_enter g data t q)
      | PSendLoop data dl \<Rightarrow> Some (data, posix_send_iter data dl q)
      | _ \<Rightarrow> None)"

definition recv_section ::
  "posix_ret \<times> timespec \<Rightarrow> posix_pc \<Rightarrow> byte_queue
    \<Rightarrow> (unit res section_end \<times> byte_queue \<times> u8 list) option" where
  "recv_section g pc q =
     (case pc of
        PRecv buf t \<Rightarrow> Some (posix_recv_enter g buf t q)
      | PRecvLoop buf dl \<Rightarrow> Some (posix_recv_iter buf dl q)
      | _ \<Rightarrow> None)"

text \<open>The match on the result of a wait: go round the loop, or return the error.\<close>

definition after_wait :: "posix_ret \<Rightarrow> posix_pc \<Rightarrow> posix_pc" where
  "after_wait rc pc = (case cond_wait rc of Ok _ \<Rightarrow> pc | r \<Rightarrow> PReturned r)"

section \<open>Interleaving\<close>

text \<open>The buffer, the threads blocked on each condition variable, what each thread is doing, and
  the messages accepted and delivered so far. A timed wait that was signalled may still report \<open>ETIMEDOUT\<close>, and
  the signal is then consumed: \<open>pw_lost_full\<close> and \<open>pw_lost_empty\<close> count these signals of \<open>not_full\<close> and
  \<open>not_empty\<close> since a thread last began to wait there.\<close>

record posix_queue_world =
  pw_buffer :: byte_queue
  pw_not_full :: "nat set"
  pw_not_empty :: "nat set"
  pw_pcs :: "nat \<Rightarrow> posix_pc"
  pw_sent :: "u8 list list"
  pw_received :: "u8 list list"
  pw_lost_full :: nat
  pw_lost_empty :: nat

inductive posix_step ::
  "(nat set \<Rightarrow> posix_ret \<Rightarrow> nat set \<Rightarrow> bool) \<Rightarrow> (nat set \<Rightarrow> posix_ret \<Rightarrow> nat set \<Rightarrow> bool)
    \<Rightarrow> posix_queue_world \<Rightarrow> posix_queue_world \<Rightarrow> bool"
  for sig bcast where
  call_send: "posix_step sig bcast w
      (w\<lparr>pw_pcs := (pw_pcs w)(i := posix_send_call (bq_message_size (pw_buffer w)) data t)\<rparr>)"
  if "pw_pcs w i = PReturned r"
| call_recv: "posix_step sig bcast w
      (w\<lparr>pw_pcs := (pw_pcs w)(i := posix_recv_call (bq_message_size (pw_buffer w)) buf t)\<rparr>)"
  if "pw_pcs w i = PReturned r"
| call_close: "posix_step sig bcast w (w\<lparr>pw_pcs := (pw_pcs w)(i := PClose)\<rparr>)"
  if "pw_pcs w i = PReturned r"
| send_fail: "posix_step sig bcast w (w\<lparr>pw_buffer := q, pw_pcs := (pw_pcs w)(i := PReturned r)\<rparr>)"
  if "i \<notin> pw_not_full w" "ts_valid now"
    "send_section (RetOk, now) (pw_pcs w i) (pw_buffer w) = Some (data, SecReturn r False, q)"
| send_commit: "posix_step sig bcast w
      (w\<lparr>pw_buffer := q, pw_not_empty := E,
         pw_pcs := (pw_pcs w)(i := PReturned (res_bind (wake_one_after_commit rc) (\<lambda>_. r))),
         pw_sent := pw_sent w @ [data]\<rparr>)"
  if "i \<notin> pw_not_full w" "ts_valid now"
    "send_section (RetOk, now) (pw_pcs w i) (pw_buffer w) = Some (data, SecReturn r True, q)"
    "sig (pw_not_empty w) rc E"
| send_block: "posix_step sig bcast w
      (w\<lparr>pw_buffer := q, pw_not_full := insert i (pw_not_full w),
         pw_pcs := (pw_pcs w)(i := PSendLoop data dl), pw_lost_full := 0\<rparr>)"
  if "i \<notin> pw_not_full w" "ts_valid now"
    "send_section (RetOk, now) (pw_pcs w i) (pw_buffer w) = Some (data, SecWait dl, q)"
| send_woken: "posix_step sig bcast w
      (w\<lparr>pw_not_full := pw_not_full w - {i},
         pw_pcs := (pw_pcs w)(i := after_wait rc (PSendLoop data dl))\<rparr>)"
  if "i \<in> pw_not_full w" "pw_pcs w i = PSendLoop data dl" "wait_returns dl now rc"
| send_late: "posix_step sig bcast w
      (w\<lparr>pw_pcs := (pw_pcs w)(i := after_wait ETIMEDOUT (PSendLoop data dl)),
         pw_lost_full := Suc (pw_lost_full w)\<rparr>)"
  if "i \<notin> pw_not_full w" "pw_pcs w i = PSendLoop data dl" "wait_returns dl now ETIMEDOUT"
| recv_fail: "posix_step sig bcast w (w\<lparr>pw_buffer := q, pw_pcs := (pw_pcs w)(i := PReturned r)\<rparr>)"
  if "i \<notin> pw_not_empty w" "ts_valid now"
    "recv_section (RetOk, now) (pw_pcs w i) (pw_buffer w) = Some (SecReturn r False, q, out)"
| recv_commit: "posix_step sig bcast w
      (w\<lparr>pw_buffer := q, pw_not_full := F,
         pw_pcs := (pw_pcs w)(i := PReturned (res_bind (wake_one_after_commit rc) (\<lambda>_. r))),
         pw_received := pw_received w @ [out]\<rparr>)"
  if "i \<notin> pw_not_empty w" "ts_valid now"
    "recv_section (RetOk, now) (pw_pcs w i) (pw_buffer w) = Some (SecReturn r True, q, out)"
    "sig (pw_not_full w) rc F"
| recv_block: "posix_step sig bcast w
      (w\<lparr>pw_buffer := q, pw_not_empty := insert i (pw_not_empty w),
         pw_pcs := (pw_pcs w)(i := PRecvLoop out dl), pw_lost_empty := 0\<rparr>)"
  if "i \<notin> pw_not_empty w" "ts_valid now"
    "recv_section (RetOk, now) (pw_pcs w i) (pw_buffer w) = Some (SecWait dl, q, out)"
| recv_woken: "posix_step sig bcast w
      (w\<lparr>pw_not_empty := pw_not_empty w - {i},
         pw_pcs := (pw_pcs w)(i := after_wait rc (PRecvLoop buf dl))\<rparr>)"
  if "i \<in> pw_not_empty w" "pw_pcs w i = PRecvLoop buf dl" "wait_returns dl now rc"
| recv_late: "posix_step sig bcast w
      (w\<lparr>pw_pcs := (pw_pcs w)(i := after_wait ETIMEDOUT (PRecvLoop buf dl)),
         pw_lost_empty := Suc (pw_lost_empty w)\<rparr>)"
  if "i \<notin> pw_not_empty w" "pw_pcs w i = PRecvLoop buf dl" "wait_returns dl now ETIMEDOUT"
| close_again: "posix_step sig bcast w (w\<lparr>pw_pcs := (pw_pcs w)(i := PReturned (Ok ()))\<rparr>)"
  if "pw_pcs w i = PClose" "bq_closed (pw_buffer w)"
| do_close: "posix_step sig bcast w
      (w\<lparr>pw_buffer := bq_close (pw_buffer w), pw_not_empty := E, pw_not_full := F,
         pw_pcs := (pw_pcs w)(i := PReturned (posix_close_result rc1 rc2))\<rparr>)"
  if "pw_pcs w i = PClose" "\<not> bq_closed (pw_buffer w)"
    "bcast (pw_not_empty w) rc1 E" "bcast (pw_not_full w) rc2 F"

definition posix_queue_init :: "byte_queue \<Rightarrow> posix_queue_world" where
  "posix_queue_init bq =
     \<lparr>pw_buffer = bq, pw_not_full = {}, pw_not_empty = {}, pw_pcs = (\<lambda>_. PReturned (Ok ())),
      pw_sent = [], pw_received = [], pw_lost_full = 0, pw_lost_empty = 0\<rparr>"

definition posix_queue_reachable ::
  "(nat set \<Rightarrow> posix_ret \<Rightarrow> nat set \<Rightarrow> bool) \<Rightarrow> (nat set \<Rightarrow> posix_ret \<Rightarrow> nat set \<Rightarrow> bool)
    \<Rightarrow> byte_queue \<Rightarrow> posix_queue_world \<Rightarrow> bool" where
  "posix_queue_reachable sig bcast bq w \<longleftrightarrow> (posix_step sig bcast)\<^sup>*\<^sup>* (posix_queue_init bq) w"

section \<open>Invariant\<close>

definition loop_senders :: "(nat \<Rightarrow> posix_pc) \<Rightarrow> nat set" where
  "loop_senders p = {i. \<exists>data dl. p i = PSendLoop data dl}"

definition loop_receivers :: "(nat \<Rightarrow> posix_pc) \<Rightarrow> nat set" where
  "loop_receivers p = {i. \<exists>buf dl. p i = PRecvLoop buf dl}"

definition free_slots :: "byte_queue \<Rightarrow> nat" where
  "free_slots q = bq_capacity q - bq_len q"

text \<open>A thread in a loop has a message of the right size, and a returned call did not panic.\<close>

definition pc_ok :: "nat \<Rightarrow> posix_pc \<Rightarrow> bool" where
  "pc_ok sz pc =
     (case pc of
        PSendLoop data _ \<Rightarrow> length data = sz
      | PRecvLoop buf _ \<Rightarrow> length buf = sz
      | PReturned r \<Rightarrow> \<not> is_panic r
      | _ \<Rightarrow> True)"

definition pw_inv :: "posix_queue_world \<Rightarrow> bool" where
  "pw_inv w \<longleftrightarrow>
     bq_inv (pw_buffer w)
     \<and> pw_sent w = pw_received w @ bq_contents (pw_buffer w)
     \<and> side (loop_senders (pw_pcs w)) (pw_not_full w) (free_slots (pw_buffer w) - pw_lost_full w)
     \<and> side (loop_receivers (pw_pcs w)) (pw_not_empty w) (bq_len (pw_buffer w) - pw_lost_empty w)
     \<and> (bq_closed (pw_buffer w) \<longrightarrow> pw_not_full w = {} \<and> pw_not_empty w = {})
     \<and> (\<forall>i. pc_ok (bq_message_size (pw_buffer w)) (pw_pcs w i))"

lemma loop_upd [simp]:
  "loop_senders (p(i := PSendLoop data dl)) = insert i (loop_senders p)"
  "loop_senders (p(i := PReturned r)) = loop_senders p - {i}"
  "loop_senders (p(i := PClose)) = loop_senders p - {i}"
  "loop_senders (p(i := PSend data t)) = loop_senders p - {i}"
  "loop_senders (p(i := PRecv buf t)) = loop_senders p - {i}"
  "loop_senders (p(i := PRecvLoop buf dl)) = loop_senders p - {i}"
  "loop_receivers (p(i := PRecvLoop buf dl)) = insert i (loop_receivers p)"
  "loop_receivers (p(i := PReturned r)) = loop_receivers p - {i}"
  "loop_receivers (p(i := PClose)) = loop_receivers p - {i}"
  "loop_receivers (p(i := PSend data t)) = loop_receivers p - {i}"
  "loop_receivers (p(i := PRecv buf t)) = loop_receivers p - {i}"
  "loop_receivers (p(i := PSendLoop data dl)) = loop_receivers p - {i}"
  by (auto simp: loop_senders_def loop_receivers_def)

section \<open>What a section does\<close>

lemma send_iter_end:
  assumes inv: "bq_inv q" and e: "posix_send_iter data dl q = (e, q1)"
  shows "bq_inv q1 \<and> bq_capacity q1 = bq_capacity q \<and> bq_message_size q1 = bq_message_size q
    \<and> bq_closed q1 = bq_closed q"
    and "e = SecReturn r True \<Longrightarrow>
      r = Ok () \<and> \<not> bq_closed q \<and> bq_len q < bq_capacity q \<and> bq_contents q1 = bq_contents q @ [data]"
    and "e = SecReturn r False \<Longrightarrow> \<not> is_panic r \<and> bq_contents q1 = bq_contents q
      \<and> (length data = bq_message_size q \<longrightarrow> bq_closed q)"
    and "e = SecWait dl' \<Longrightarrow> bq_contents q1 = bq_contents q \<and> \<not> bq_closed q
      \<and> bq_len q = bq_capacity q \<and> length data = bq_message_size q \<and> dl' = dl"
proof -
  obtain r0 q0 where s: "try_send q data = (r0, q0)" by (cases "try_send q data")
  note c = try_send_cases [OF inv s]
  have le: "bq_len q \<le> bq_capacity q" using ring.bounded [OF inv] by simp
  show "bq_inv q1 \<and> bq_capacity q1 = bq_capacity q \<and> bq_message_size q1 = bq_message_size q
    \<and> bq_closed q1 = bq_closed q"
    using e c inv s by (auto simp: posix_send_iter_def split: if_splits)
  show "e = SecReturn r True \<Longrightarrow>
      r = Ok () \<and> \<not> bq_closed q \<and> bq_len q < bq_capacity q \<and> bq_contents q1 = bq_contents q @ [data]"
    using e c s le by (auto simp: posix_send_iter_def split: if_splits)
  show "e = SecReturn r False \<Longrightarrow> \<not> is_panic r \<and> bq_contents q1 = bq_contents q
      \<and> (length data = bq_message_size q \<longrightarrow> bq_closed q)"
    using e c s by (auto simp: posix_send_iter_def split: if_splits)
  show "e = SecWait dl' \<Longrightarrow> bq_contents q1 = bq_contents q \<and> \<not> bq_closed q
      \<and> bq_len q = bq_capacity q \<and> length data = bq_message_size q \<and> dl' = dl"
    using e c s by (auto simp: posix_send_iter_def split: if_splits)
qed

lemma recv_iter_end:
  assumes inv: "bq_inv q" and e: "posix_recv_iter buf dl q = (e, q1, out)"
  shows "bq_inv q1 \<and> bq_capacity q1 = bq_capacity q \<and> bq_message_size q1 = bq_message_size q
    \<and> bq_closed q1 = bq_closed q"
    and "e = SecReturn r True \<Longrightarrow> r = Ok () \<and> bq_contents q = out # bq_contents q1"
    and "e = SecReturn r False \<Longrightarrow> \<not> is_panic r \<and> bq_contents q1 = bq_contents q
      \<and> (length buf = bq_message_size q \<longrightarrow> bq_closed q)"
    and "e = SecWait dl' \<Longrightarrow> bq_contents q1 = bq_contents q \<and> \<not> bq_closed q
      \<and> bq_len q = 0 \<and> length out = bq_message_size q \<and> dl' = dl"
proof -
  obtain r0 q0 b0 where s: "try_recv q buf = (r0, q0, b0)" by (cases "try_recv q buf")
  note c = try_recv_cases [OF inv s]
  show "bq_inv q1 \<and> bq_capacity q1 = bq_capacity q \<and> bq_message_size q1 = bq_message_size q
    \<and> bq_closed q1 = bq_closed q"
    using e c(1-5) inv s by (auto simp: posix_recv_iter_def split: if_splits)
  show "e = SecReturn r True \<Longrightarrow> r = Ok () \<and> bq_contents q = out # bq_contents q1"
    using e c s by (auto simp: posix_recv_iter_def split: if_splits)
  show "e = SecReturn r False \<Longrightarrow> \<not> is_panic r \<and> bq_contents q1 = bq_contents q
      \<and> (length buf = bq_message_size q \<longrightarrow> bq_closed q)"
    using e c s by (auto simp: posix_recv_iter_def split: if_splits)
  show "e = SecWait dl' \<Longrightarrow> bq_contents q1 = bq_contents q \<and> \<not> bq_closed q
      \<and> bq_len q = 0 \<and> length out = bq_message_size q \<and> dl' = dl"
    using e c s by (auto simp: posix_recv_iter_def split: if_splits)
qed

text \<open>What a caller sees: the section that returns, or a timed wait that ended with \<open>ETIMEDOUT\<close>.\<close>

definition posix_send_returns :: "byte_queue \<Rightarrow> u8 list \<Rightarrow> unit res \<Rightarrow> byte_queue \<Rightarrow> bool" where
  "posix_send_returns q data r q' \<longleftrightarrow>
     (\<exists>now t b. ts_valid now \<and> posix_send_enter (RetOk, now) data t q = (SecReturn r b, q'))
     \<or> (\<exists>dl b. posix_send_iter data dl q = (SecReturn r b, q')) \<or> r = Err Timeout \<and> q' = q"

definition posix_recv_returns ::
  "byte_queue \<Rightarrow> u8 list \<Rightarrow> unit res \<Rightarrow> byte_queue \<Rightarrow> u8 list \<Rightarrow> bool" where
  "posix_recv_returns q buf r q' out \<longleftrightarrow>
     (\<exists>now t b. ts_valid now \<and> posix_recv_enter (RetOk, now) buf t q = (SecReturn r b, q', out))
     \<or> (\<exists>dl b. posix_recv_iter buf dl q = (SecReturn r b, q', out)) \<or> r = Err Timeout \<and> q' = q \<and> out = buf"

lemma send_iter_commits:
  assumes "bq_inv q" and "posix_send_iter data dl q = (SecReturn r b, q')"
  shows "bq_inv q' \<and> bq_capacity q' = bq_capacity q \<and> \<not> is_panic r
    \<and> bq_contents q' = bq_contents q @ (if is_ok r then [data] else [])"
proof (cases b)
  case True
  then show ?thesis using send_iter_end(1,2) [OF assms] by auto
next
  case False
  have "\<not> is_ok r" using assms(2) False by (auto simp: posix_send_iter_def split: if_splits prod.splits res.splits error.splits)
  then show ?thesis using send_iter_end(1,3) [OF assms] False by auto
qed

lemma recv_iter_commits:
  assumes "bq_inv q" and "posix_recv_iter buf dl q = (SecReturn r b, q', out)"
  shows "bq_inv q' \<and> bq_capacity q' = bq_capacity q \<and> \<not> is_panic r
    \<and> bq_contents q = (if is_ok r then [out] else []) @ bq_contents q'"
proof (cases b)
  case True
  then show ?thesis using recv_iter_end(1,2) [OF assms] by auto
next
  case False
  have "\<not> is_ok r"
    using assms(2) False by (auto simp: posix_recv_iter_def Let_def split: if_splits prod.splits res.splits error.splits)
  then show ?thesis using recv_iter_end(1,3) [OF assms] False by auto
qed

lemma recv_enter_cases:
  assumes "posix_recv_enter (RetOk, now) buf t q = (SecReturn r b, q', out)" and "ts_valid now"
    and "try_recv q buf = (r0, q0, o0)"
  obtains (iter) dl where "posix_recv_iter buf dl q = (SecReturn r b, q', out)"
  | (direct) "r = res_bind r0 (\<lambda>_. Ok ())" "q' = q0" "out = o0"
  | (none) e where "r = Err e" "q' = q"
  using assms deadline_no_panic [OF assms(2)]
  by (cases t) (auto simp: posix_recv_enter_def split: res.splits)

interpretation posixcalls: queue_calls posix_send_returns posix_recv_returns bq_close bq_contents bq_capacity
  bq_closed bq_inv
proof
  fix q m r q' assume inv: "bq_inv q" and s: "posix_send_returns q m r q'"
  obtain r0 q0 where t: "try_send q m = (r0, q0)" by (cases "try_send q m")
  from s consider (iter) dl b where "posix_send_iter m dl q = (SecReturn r b, q')"
    | (direct) "r = r0" "q' = q0" | (none) e where "r = Err e" "q' = q"
    using t deadline_no_panic by (auto simp: posix_send_returns_def posix_send_enter_def
        split: if_splits timeout.splits res.splits)
  then show "bq_inv q' \<and> bq_capacity q' = bq_capacity q \<and> \<not> is_panic r
      \<and> bq_contents q' = bq_contents q @ (if is_ok r then [m] else [])"
    by cases (use inv t send_iter_commits [OF inv] ring.calls.send_call [OF inv] in auto)
next
  fix q b r q' out assume inv: "bq_inv q" and s: "posix_recv_returns q b r q' out"
  obtain r0 q0 o0 where t: "try_recv q b = (r0, q0, o0)" by (cases "try_recv q b")
  from s consider (iter) dl c where "posix_recv_iter b dl q = (SecReturn r c, q', out)"
    | (direct) "r = res_bind r0 (\<lambda>_. Ok ())" "q' = q0" "out = o0" | (none) e where "r = Err e" "q' = q"
    unfolding posix_recv_returns_def using recv_enter_cases [OF _ _ t] by metis
  then show "bq_inv q' \<and> bq_capacity q' = bq_capacity q \<and> \<not> is_panic r
      \<and> bq_contents q = (if is_ok r then [out] else []) @ bq_contents q'"
  proof cases
    case direct
    then show ?thesis using ring.calls.recv_call [OF inv t] by (cases r0) auto
  qed (use inv recv_iter_commits [OF inv] in auto)
qed (use ring.bounded ring.close_laws in auto)

text \<open>The same for whole sections. A thread in the loop leaves it without its message only
  because the queue is closed.\<close>

lemma send_section_end:
  assumes inv: "bq_inv q" and now: "ts_valid now" and ok: "pc_ok (bq_message_size q) pc"
    and s: "send_section (RetOk, now) pc q = Some (data, e, q1)"
  shows "bq_inv q1 \<and> bq_capacity q1 = bq_capacity q \<and> bq_message_size q1 = bq_message_size q
    \<and> bq_closed q1 = bq_closed q"
    and "e = SecReturn r True \<Longrightarrow>
      r = Ok () \<and> \<not> bq_closed q \<and> bq_len q < bq_capacity q \<and> bq_contents q1 = bq_contents q @ [data]"
    and "e = SecReturn r False \<Longrightarrow> \<not> is_panic r \<and> bq_contents q1 = bq_contents q
      \<and> (pc = PSendLoop data dl0 \<longrightarrow> bq_closed q)"
    and "e = SecWait dl \<Longrightarrow> bq_contents q1 = bq_contents q \<and> \<not> bq_closed q
      \<and> bq_len q = bq_capacity q \<and> length data = bq_message_size q"
proof -
  obtain r0 q0 where t: "try_send q data = (r0, q0)" by (cases "try_send q data")
  note c = try_send_cases [OF inv t]
  have le: "bq_len q \<le> bq_capacity q" using ring.bounded [OF inv] by simp
  consider (loop) dl' where "posix_send_iter data dl' q = (e, q1)" "pc = PSendLoop data dl'"
    | (first) dl' t where "posix_send_iter data dl' q = (e, q1)" "pc = PSend data t"
    | (err) x t where "e = SecReturn (Err x) False" "q1 = q" "pc = PSend data t"
    | (nowait) t where "e = SecReturn r0 (is_ok r0)" "q1 = q0" "pc = PSend data t"
    using s t deadline_no_panic [OF now]
    by (auto simp: send_section_def posix_send_enter_def split: posix_pc.splits if_splits
        timeout.splits res.splits)
  note cases = this
  show "bq_inv q1 \<and> bq_capacity q1 = bq_capacity q \<and> bq_message_size q1 = bq_message_size q
    \<and> bq_closed q1 = bq_closed q"
    using cases by cases (use send_iter_end(1) [OF inv] inv c in auto)
  show "e = SecReturn r True \<Longrightarrow>
      r = Ok () \<and> \<not> bq_closed q \<and> bq_len q < bq_capacity q \<and> bq_contents q1 = bq_contents q @ [data]"
    using cases by cases (use send_iter_end(2) [OF inv] le c in \<open>auto split: if_splits\<close>)
  show "e = SecReturn r False \<Longrightarrow> \<not> is_panic r \<and> bq_contents q1 = bq_contents q
      \<and> (pc = PSendLoop data dl0 \<longrightarrow> bq_closed q)"
    using cases ok
    by cases (use send_iter_end(3) [OF inv] c in \<open>auto simp: pc_ok_def split: if_splits\<close>)
  show "e = SecWait dl \<Longrightarrow> bq_contents q1 = bq_contents q \<and> \<not> bq_closed q
      \<and> bq_len q = bq_capacity q \<and> length data = bq_message_size q"
    using cases by cases (use send_iter_end(4) [OF inv] in auto)
qed

lemma recv_section_end:
  assumes inv: "bq_inv q" and now: "ts_valid now" and ok: "pc_ok (bq_message_size q) pc"
    and s: "recv_section (RetOk, now) pc q = Some (e, q1, out)"
  shows "bq_inv q1 \<and> bq_capacity q1 = bq_capacity q \<and> bq_message_size q1 = bq_message_size q
    \<and> bq_closed q1 = bq_closed q"
    and "e = SecReturn r True \<Longrightarrow> r = Ok () \<and> bq_contents q = out # bq_contents q1"
    and "e = SecReturn r False \<Longrightarrow> \<not> is_panic r \<and> bq_contents q1 = bq_contents q
      \<and> (pc = PRecvLoop buf dl0 \<longrightarrow> bq_closed q)"
    and "e = SecWait dl \<Longrightarrow> bq_contents q1 = bq_contents q \<and> \<not> bq_closed q
      \<and> bq_len q = 0 \<and> length out = bq_message_size q"
proof -
  consider (loop) b dl' where "posix_recv_iter b dl' q = (e, q1, out)" "pc = PRecvLoop b dl'"
    | (first) b dl' t where "posix_recv_iter b dl' q = (e, q1, out)" "pc = PRecv b t"
    | (err) b x t where "e = SecReturn (Err x) False" "q1 = q" "pc = PRecv b t"
    | (nowait) b t r0 where "e = SecReturn (res_bind r0 (\<lambda>_. Ok ())) (is_ok r0)"
        "try_recv q b = (r0, q1, out)" "pc = PRecv b t"
    using s deadline_no_panic [OF now]
    by (auto simp: recv_section_def posix_recv_enter_def split: posix_pc.splits if_splits
        timeout.splits res.splits prod.splits)
  note cases = this
  show "bq_inv q1 \<and> bq_capacity q1 = bq_capacity q \<and> bq_message_size q1 = bq_message_size q
    \<and> bq_closed q1 = bq_closed q"
    using cases by cases (use recv_iter_end(1) [OF inv] inv try_recv_cases [OF inv] in auto)
  show "e = SecReturn r True \<Longrightarrow> r = Ok () \<and> bq_contents q = out # bq_contents q1"
    using cases
    by cases (use recv_iter_end(2) [OF inv] try_recv_cases(6) [OF inv] in \<open>auto elim!: is_okE\<close>)
  show "e = SecReturn r False \<Longrightarrow> \<not> is_panic r \<and> bq_contents q1 = bq_contents q
      \<and> (pc = PRecvLoop buf dl0 \<longrightarrow> bq_closed q)"
    using cases ok
  proof cases
    case nowait
    then show "e = SecReturn r False \<Longrightarrow> ?thesis"
      using try_recv_cases(5,7) [OF inv nowait(2)] by (auto split: if_splits)
  qed (use recv_iter_end(3) [OF inv] in \<open>auto simp: pc_ok_def\<close>)
  show "e = SecWait dl \<Longrightarrow> bq_contents q1 = bq_contents q \<and> \<not> bq_closed q
      \<and> bq_len q = 0 \<and> length out = bq_message_size q"
    using cases by cases (use recv_iter_end(4) [OF inv] in auto)
qed

section \<open>Preservation\<close>

lemma bq_len_eq: "bq_len q = length (bq_contents q)"
  by simp

lemma send_section_pc:
  "send_section g pc q = Some (data, x) \<Longrightarrow> (\<exists>t. pc = PSend data t) \<or> (\<exists>dl. pc = PSendLoop data dl)"
  by (auto simp: send_section_def split: posix_pc.splits)

lemma recv_section_pc:
  "recv_section g pc q = Some x \<Longrightarrow> (\<exists>b t. pc = PRecv b t) \<or> (\<exists>b dl. pc = PRecvLoop b dl)"
  by (auto simp: recv_section_def split: posix_pc.splits)

lemma pc_ok_simps [simp]:
  "pc_ok sz (PReturned r) = (\<not> is_panic r)" "pc_ok sz (PSend data t)" "pc_ok sz (PRecv data t)"
  "pc_ok sz PClose" "pc_ok sz (PSendLoop data dl) = (length data = sz)"
  "pc_ok sz (PRecvLoop data dl) = (length data = sz)"
  by (simp_all add: pc_ok_def)

lemma in_loop_iff:
  "pw_pcs w i = PSendLoop data dl \<Longrightarrow> i \<in> loop_senders (pw_pcs w) \<and> i \<notin> loop_receivers (pw_pcs w)"
  "pw_pcs w i = PRecvLoop buf dl \<Longrightarrow> i \<in> loop_receivers (pw_pcs w) \<and> i \<notin> loop_senders (pw_pcs w)"
  "pw_pcs w i = PSend data t \<Longrightarrow> i \<notin> loop_receivers (pw_pcs w) \<and> i \<notin> loop_senders (pw_pcs w)"
  "pw_pcs w i = PRecv buf t \<Longrightarrow> i \<notin> loop_receivers (pw_pcs w) \<and> i \<notin> loop_senders (pw_pcs w)"
  "pw_pcs w i = PClose \<Longrightarrow> i \<notin> loop_receivers (pw_pcs w) \<and> i \<notin> loop_senders (pw_pcs w)"
  "pw_pcs w i = PReturned r \<Longrightarrow> i \<notin> loop_receivers (pw_pcs w) \<and> i \<notin> loop_senders (pw_pcs w)"
  by (auto simp: loop_senders_def loop_receivers_def)

lemma send_section_not_receiver:
  "send_section g (pw_pcs w i) q = Some (data, x) \<Longrightarrow> loop_receivers (pw_pcs w) - {i} = loop_receivers (pw_pcs w)"
  by (auto dest!: send_section_pc simp: loop_receivers_def)

lemma recv_section_not_sender:
  "recv_section g (pw_pcs w i) q = Some x \<Longrightarrow> loop_senders (pw_pcs w) - {i} = loop_senders (pw_pcs w)"
  by (auto dest!: recv_section_pc simp: loop_senders_def)

lemma call_pc:
  "posix_send_call sz data t = PSend data t \<or> (\<exists>e. posix_send_call sz data t = PReturned (Err e))"
  "posix_recv_call sz data t = PRecv data t \<or> (\<exists>e. posix_recv_call sz data t = PReturned (Err e))"
  by (auto simp: posix_send_call_def posix_recv_call_def validate_send_message_size_def
      validate_recv_buffer_size_def)

text \<open>A thread outside the loops changes what it is doing.\<close>

lemma pw_inv_pc:
  assumes "pw_inv w" and "i \<notin> loop_senders (pw_pcs w)" and "i \<notin> loop_receivers (pw_pcs w)"
    and "pc = PClose \<or> pc = PSend data t \<or> pc = PRecv data t \<or> (pc = PReturned r \<and> \<not> is_panic r)"
  shows "pw_inv (w\<lparr>pw_pcs := (pw_pcs w)(i := pc)\<rparr>)"
  using assms by (auto simp: pw_inv_def)

lemma free_slots_send:
  "bq_inv q \<Longrightarrow> bq_capacity q1 = bq_capacity q \<Longrightarrow> bq_contents q1 = bq_contents q @ [m]
    \<Longrightarrow> free_slots q1 = free_slots q - 1 \<and> bq_len q1 = Suc (bq_len q)"
  by (simp add: free_slots_def bq_len_eq del: length_bq_contents)

lemma free_slots_recv:
  assumes "bq_inv q" "bq_inv q1" "bq_capacity q1 = bq_capacity q" "bq_contents q = m # bq_contents q1"
  shows "free_slots q1 = Suc (free_slots q)" "bq_len q1 = bq_len q - 1"
  using assms ring.bounded [OF assms(1)]
  by (simp_all add: free_slots_def bq_len_eq del: length_bq_contents)

lemma free_slots_same:
  "bq_capacity q1 = bq_capacity q \<Longrightarrow> bq_contents q1 = bq_contents q
    \<Longrightarrow> free_slots q1 = free_slots q \<and> bq_len q1 = bq_len q"
  by (simp add: free_slots_def bq_len_eq del: length_bq_contents)

lemma wait_returns_cases:
  "wait_returns dl now rc \<Longrightarrow>
    after_wait rc pc = pc \<or> after_wait rc pc = PReturned (Err Timeout)"
  by (auto simp: wait_returns_def after_wait_def cond_wait_def)

lemma pw_invD:
  assumes "pw_inv w"
  shows "bq_inv (pw_buffer w)"
    and "pw_sent w = pw_received w @ bq_contents (pw_buffer w)"
    and "side (loop_senders (pw_pcs w)) (pw_not_full w) (free_slots (pw_buffer w) - pw_lost_full w)"
    and "side (loop_receivers (pw_pcs w)) (pw_not_empty w) (bq_len (pw_buffer w) - pw_lost_empty w)"
    and "bq_closed (pw_buffer w) \<Longrightarrow> pw_not_full w = {} \<and> pw_not_empty w = {}"
    and "pc_ok (bq_message_size (pw_buffer w)) (pw_pcs w i)"
  using assms by (simp_all add: pw_inv_def)

lemma pw_inv_send_fail:
  assumes inv: "pw_inv w" and i: "i \<notin> pw_not_full w" and now: "ts_valid now"
    and s: "send_section (RetOk, now) (pw_pcs w i) (pw_buffer w) = Some (data, SecReturn r False, q)"
  shows "pw_inv (w\<lparr>pw_buffer := q, pw_pcs := (pw_pcs w)(i := PReturned r)\<rparr>)"
proof -
  note D = pw_invD [OF inv]
  note e = send_section_end [OF D(1) now D(6) s]
  have c: "\<not> is_panic r" "bq_contents q = bq_contents (pw_buffer w)"
    "\<And>dl. pw_pcs w i = PSendLoop data dl \<Longrightarrow> bq_closed (pw_buffer w)" using e(3) by auto
  note f = free_slots_same [OF _ c(2)]
  have "side (loop_senders (pw_pcs w) - {i}) (pw_not_full w) (free_slots (pw_buffer w) - pw_lost_full w)"
  proof (cases "bq_closed (pw_buffer w)")
    case True
    with D(3,5) show ?thesis by (auto simp: side_def)
  next
    case False
    then have "i \<notin> loop_senders (pw_pcs w)" using send_section_pc [OF s] c(3)
      by (auto simp: loop_senders_def)
    with D(3) show ?thesis by simp
  qed
  then show ?thesis
    using D e(1) c f send_section_not_receiver [OF s] unfolding pw_inv_def by simp
qed

lemma pw_inv_send_block:
  assumes inv: "pw_inv w" and i: "i \<notin> pw_not_full w" and now: "ts_valid now"
    and s: "send_section (RetOk, now) (pw_pcs w i) (pw_buffer w) = Some (data, SecWait dl, q)"
  shows "pw_inv (w\<lparr>pw_buffer := q, pw_not_full := insert i (pw_not_full w),
                   pw_pcs := (pw_pcs w)(i := PSendLoop data dl), pw_lost_full := 0\<rparr>)"
proof -
  note D = pw_invD [OF inv]
  note e = send_section_end [OF D(1) now D(6) s]
  have c: "bq_contents q = bq_contents (pw_buffer w)" "\<not> bq_closed (pw_buffer w)"
    "bq_len (pw_buffer w) = bq_capacity (pw_buffer w)" "length data = bq_message_size (pw_buffer w)"
    using e(4) by auto
  have f: "free_slots q = 0" "bq_len q = bq_len (pw_buffer w)"
    using free_slots_same [OF _ c(1)] e(1) c(3) by (auto simp: free_slots_def)
  show ?thesis
    using D e(1) c f side_enter_wait [OF D(3), of i] send_section_not_receiver [OF s]
    unfolding pw_inv_def by simp
qed

lemma pw_inv_recv_fail:
  assumes inv: "pw_inv w" and i: "i \<notin> pw_not_empty w" and now: "ts_valid now"
    and s: "recv_section (RetOk, now) (pw_pcs w i) (pw_buffer w) = Some (SecReturn r False, q, out)"
  shows "pw_inv (w\<lparr>pw_buffer := q, pw_pcs := (pw_pcs w)(i := PReturned r)\<rparr>)"
proof -
  note D = pw_invD [OF inv]
  note e = recv_section_end [OF D(1) now D(6) s]
  have c: "\<not> is_panic r" "bq_contents q = bq_contents (pw_buffer w)"
    "\<And>b dl. pw_pcs w i = PRecvLoop b dl \<Longrightarrow> bq_closed (pw_buffer w)" using e(3) by auto
  note f = free_slots_same [OF _ c(2)]
  have "side (loop_receivers (pw_pcs w) - {i}) (pw_not_empty w) (bq_len (pw_buffer w) - pw_lost_empty w)"
  proof (cases "bq_closed (pw_buffer w)")
    case True
    with D(4,5) show ?thesis by (auto simp: side_def)
  next
    case False
    then have "i \<notin> loop_receivers (pw_pcs w)" using c(3)
      by (auto simp: loop_receivers_def)
    with D(4) show ?thesis by simp
  qed
  then show ?thesis
    using D e(1) c f recv_section_not_sender [OF s] unfolding pw_inv_def by simp
qed

lemma pw_inv_recv_block:
  assumes inv: "pw_inv w" and i: "i \<notin> pw_not_empty w" and now: "ts_valid now"
    and s: "recv_section (RetOk, now) (pw_pcs w i) (pw_buffer w) = Some (SecWait dl, q, out)"
  shows "pw_inv (w\<lparr>pw_buffer := q, pw_not_empty := insert i (pw_not_empty w),
                   pw_pcs := (pw_pcs w)(i := PRecvLoop out dl), pw_lost_empty := 0\<rparr>)"
proof -
  note D = pw_invD [OF inv]
  note e = recv_section_end [OF D(1) now D(6) s]
  have c: "bq_contents q = bq_contents (pw_buffer w)" "\<not> bq_closed (pw_buffer w)"
    "bq_len (pw_buffer w) = 0" "length out = bq_message_size (pw_buffer w)"
    using e(4) by auto
  have f: "free_slots q = free_slots (pw_buffer w)" "bq_len q = 0"
    using free_slots_same [OF _ c(1)] e(1) c(3) by auto
  show ?thesis
    using D e(1) c f side_enter_wait [OF D(4), of i] recv_section_not_sender [OF s]
    unfolding pw_inv_def by simp
qed

context pthread_cond
begin

lemma wake_ok: "sig W rc W' \<Longrightarrow> res_bind (wake_one_after_commit rc) (\<lambda>_. r) = r"
  by (drule sig_ret) (simp add: wake_one_after_commit_def)

lemma pw_inv_send_commit:
  assumes inv: "pw_inv w" and i: "i \<notin> pw_not_full w" and now: "ts_valid now"
    and s: "send_section (RetOk, now) (pw_pcs w i) (pw_buffer w) = Some (data, SecReturn r True, q)"
    and g: "sig (pw_not_empty w) rc E"
  shows "pw_inv (w\<lparr>pw_buffer := q, pw_not_empty := E,
           pw_pcs := (pw_pcs w)(i := PReturned (res_bind (wake_one_after_commit rc) (\<lambda>_. r))),
           pw_sent := pw_sent w @ [data]\<rparr>)"
proof -
  note D = pw_invD [OF inv]
  note e = send_section_end [OF D(1) now D(6) s]
  have c: "r = Ok ()" "\<not> bq_closed (pw_buffer w)"
    "bq_contents q = bq_contents (pw_buffer w) @ [data]" using e(2) by auto
  have f: "free_slots q = free_slots (pw_buffer w) - 1" "bq_len q = Suc (bq_len (pw_buffer w))"
    using free_slots_send [OF D(1) _ c(3)] e(1) by auto
  show ?thesis
    using D e(1) c f side_leave_awake [OF D(3) i] side_signal_owed [OF D(4) g]
      send_section_not_receiver [OF s]
    unfolding pw_inv_def wake_ok [OF g] by simp
qed

lemma pw_inv_recv_commit:
  assumes inv: "pw_inv w" and i: "i \<notin> pw_not_empty w" and now: "ts_valid now"
    and s: "recv_section (RetOk, now) (pw_pcs w i) (pw_buffer w) = Some (SecReturn r True, q, out)"
    and g: "sig (pw_not_full w) rc F"
  shows "pw_inv (w\<lparr>pw_buffer := q, pw_not_full := F,
           pw_pcs := (pw_pcs w)(i := PReturned (res_bind (wake_one_after_commit rc) (\<lambda>_. r))),
           pw_received := pw_received w @ [out]\<rparr>)"
proof -
  note D = pw_invD [OF inv]
  note e = recv_section_end [OF D(1) now D(6) s]
  have c: "r = Ok ()" "bq_contents (pw_buffer w) = out # bq_contents q" using e(2) by auto
  have f: "free_slots q = Suc (free_slots (pw_buffer w))" "bq_len q = bq_len (pw_buffer w) - 1"
    using free_slots_recv [OF D(1) _ _ c(2)] e(1) by auto
  have cl: "bq_closed q \<Longrightarrow> F = {}" using e(1) D(5) sig_subset [OF g] by auto
  show ?thesis
    using D e(1) c f cl side_leave_awake [OF D(4) i] side_signal_owed [OF D(3) g]
      recv_section_not_sender [OF s]
    unfolding pw_inv_def wake_ok [OF g] by simp
qed

lemma pw_inv_step:
  assumes "posix_step sig bcast w w'" and inv: "pw_inv w"
  shows "pw_inv w'"
  using assms(1)
proof cases
  case (call_send i r data t)
  then show ?thesis
    using call_pc(1) [of "bq_message_size (pw_buffer w)" data t] in_loop_iff(6)
    by (auto intro!: pw_inv_pc [OF inv])
next
  case (call_recv i r buf t)
  then show ?thesis
    using call_pc(2) [of "bq_message_size (pw_buffer w)" buf t] in_loop_iff(6)
    by (auto intro!: pw_inv_pc [OF inv])
next
  case (call_close i r)
  then show ?thesis using in_loop_iff(6) by (auto intro!: pw_inv_pc [OF inv])
next
  case (send_fail i now data r q)
  show ?thesis unfolding send_fail(1) by (rule pw_inv_send_fail [OF inv send_fail(2-4)])
next
  case (send_commit i now data r q rc E)
  show ?thesis unfolding send_commit(1) by (rule pw_inv_send_commit [OF inv send_commit(2-5)])
next
  case (send_block i now data dl q)
  show ?thesis unfolding send_block(1) by (rule pw_inv_send_block [OF inv send_block(2-4)])
next
  case (recv_fail i now r q out)
  show ?thesis unfolding recv_fail(1) by (rule pw_inv_recv_fail [OF inv recv_fail(2-4)])
next
  case (recv_commit i now r q out rc F)
  show ?thesis unfolding recv_commit(1) by (rule pw_inv_recv_commit [OF inv recv_commit(2-5)])
next
  case (recv_block i now dl q out)
  show ?thesis unfolding recv_block(1) by (rule pw_inv_recv_block [OF inv recv_block(2-4)])
next
  case (send_woken i data dl now rc)
  note D = pw_invD [OF inv]
  note l = in_loop_iff(1) [OF send_woken(3)]
  have "length data = bq_message_size (pw_buffer w)" using D(6) [of i] send_woken(3) by simp
  then show ?thesis
    using wait_returns_cases [OF send_woken(4), of "PSendLoop data dl"] D l
      side_spurious [OF D(3), of "{i}"] side_leave_blocked [OF D(3) send_woken(2)]
    unfolding send_woken(1) pw_inv_def by (auto simp: insert_absorb)
next
  case (recv_woken i buf dl now rc)
  note D = pw_invD [OF inv]
  note l = in_loop_iff(2) [OF recv_woken(3)]
  have "length buf = bq_message_size (pw_buffer w)" using D(6) [of i] recv_woken(3) by simp
  then show ?thesis
    using wait_returns_cases [OF recv_woken(4), of "PRecvLoop buf dl"] D l
      side_spurious [OF D(4), of "{i}"] side_leave_blocked [OF D(4) recv_woken(2)]
    unfolding recv_woken(1) pw_inv_def by (auto simp: insert_absorb)
next
  case (send_late i data dl now)
  note D = pw_invD [OF inv]
  show ?thesis
    using D in_loop_iff(1) [OF send_late(3)] side_leave_awake [OF D(3) send_late(2)]
    unfolding send_late(1) pw_inv_def by (simp add: after_wait_def cond_wait_def)
next
  case (recv_late i buf dl now)
  note D = pw_invD [OF inv]
  show ?thesis
    using D in_loop_iff(2) [OF recv_late(3)] side_leave_awake [OF D(4) recv_late(2)]
    unfolding recv_late(1) pw_inv_def by (simp add: after_wait_def cond_wait_def)
next
  case (close_again i)
  then show ?thesis using in_loop_iff(5) by (auto intro!: pw_inv_pc [OF inv])
next
  case (do_close i rc1 E rc2 F)
  note D = pw_invD [OF inv]
  have b: "rc1 = RetOk" "E = {}" "rc2 = RetOk" "F = {}"
    using bcast_all [OF do_close(4)] bcast_all [OF do_close(5)] by auto
  show ?thesis
    using D ring.close_laws [OF D(1)] in_loop_iff(5) [OF do_close(2)] b
    unfolding do_close(1) pw_inv_def by (auto simp: posix_close_result_def side_def bq_close_def)
qed

end

lemma new_buffer:
  assumes "byte_queue_new reserve c m = Ok bq"
  shows "bq_contents bq = []" and "bq_capacity bq = c" and "\<not> bq_closed bq"
  using byte_queue_new_inv(2) [OF assms] by (auto dest: arg_cong [of _ _ fifo_msgs]
      arg_cong [of _ _ fifo_capacity] arg_cong [of _ _ fifo_closed])

lemma pw_inv_init:
  assumes "byte_queue_new reserve c m = Ok bq"
  shows "pw_inv (posix_queue_init bq)"
proof -
  have "loop_senders (\<lambda>_. PReturned (Ok ())) = {}" "loop_receivers (\<lambda>_. PReturned (Ok ())) = {}"
    by (auto simp: loop_senders_def loop_receivers_def)
  then show ?thesis
    using byte_queue_new_inv(1) [OF assms] new_buffer [OF assms]
    by (auto simp: pw_inv_def posix_queue_init_def)
qed

lemma pw_inv_reachable:
  assumes "pthread_cond sig bcast" and "byte_queue_new reserve c m = Ok bq"
    and "posix_queue_reachable sig bcast bq w"
  shows "pw_inv w"
  using assms(3) unfolding posix_queue_reachable_def
  by (induction rule: rtranclp_induct)
    (use pw_inv_init [OF assms(2)] pthread_cond.pw_inv_step [OF assms(1)] in auto)

lemma bq_capacity_step:
  assumes "posix_step sig bcast w w'" and inv: "pw_inv w"
  shows "bq_capacity (pw_buffer w') = bq_capacity (pw_buffer w)"
  using assms(1) send_section_end(1) [OF pw_invD(1) [OF inv] _ pw_invD(6) [OF inv]]
    recv_section_end(1) [OF pw_invD(1) [OF inv] _ pw_invD(6) [OF inv]]
  by cases (simp_all add: bq_close_def)

lemma bq_capacity_reachable:
  assumes "pthread_cond sig bcast" and "byte_queue_new reserve c m = Ok bq"
    and "posix_queue_reachable sig bcast bq w"
  shows "bq_capacity (pw_buffer w) = c"
  using assms(3) unfolding posix_queue_reachable_def
proof (induction rule: rtranclp_induct)
  case base
  show ?case using new_buffer(2) [OF assms(2)] by (simp add: posix_queue_init_def)
next
  case (step w w')
  then show ?case
    using bq_capacity_step [OF step(2)] pw_inv_reachable [OF assms(1,2)]
    by (simp add: posix_queue_reachable_def)
qed

text \<open>When no thread can move but the blocked ones, every thread in a loop is blocked on the
  condition variable of that loop.\<close>

lemma quiescent_blocked:
  assumes inv: "pw_inv w"
    and q: "\<forall>i. (\<exists>r. pw_pcs w i = PReturned r) \<or> i \<in> pw_not_full w \<or> i \<in> pw_not_empty w"
  shows "loop_senders (pw_pcs w) \<subseteq> pw_not_full w" and "loop_receivers (pw_pcs w) \<subseteq> pw_not_empty w"
proof -
  have sub: "pw_not_full w \<subseteq> loop_senders (pw_pcs w)" "pw_not_empty w \<subseteq> loop_receivers (pw_pcs w)"
    using pw_invD(3,4) [OF inv] by (simp_all add: side_def)
  show "loop_senders (pw_pcs w) \<subseteq> pw_not_full w"
  proof
    fix i assume i: "i \<in> loop_senders (pw_pcs w)"
    then obtain data dl where "pw_pcs w i = PSendLoop data dl" by (auto simp: loop_senders_def)
    with q sub(2) in_loop_iff(1) [of w i data dl] show "i \<in> pw_not_full w"
      by (metis posix_pc.distinct(3) subsetD)
  qed
  show "loop_receivers (pw_pcs w) \<subseteq> pw_not_empty w"
  proof
    fix i assume i: "i \<in> loop_receivers (pw_pcs w)"
    then obtain buf dl where "pw_pcs w i = PRecvLoop buf dl" by (auto simp: loop_receivers_def)
    with q sub(1) in_loop_iff(2) [of w i buf dl] show "i \<in> pw_not_empty w"
      by (metis posix_pc.distinct(7) subsetD)
  qed
qed

section \<open>Properties\<close>

text \<open>C7. Conservation and order through the blocking POSIX queue: under every interleaving of
  sends, receives, closes, timeouts and spurious wake-ups the messages whose send committed are
  the received ones followed by those in the buffer, which are at most the capacity, and no call
  ends in a panic.\<close>

theorem posix_queue_conserves:
  assumes "pthread_cond sig bcast" and "byte_queue_new reserve c m = Ok bq"
    and "posix_queue_reachable sig bcast bq w"
  shows "pw_sent w = pw_received w @ bq_contents (pw_buffer w)
    \<and> length (bq_contents (pw_buffer w)) \<le> c
    \<and> (\<forall>i r. pw_pcs w i = PReturned r \<longrightarrow> \<not> is_panic r)"
proof -
  note D = pw_invD [OF pw_inv_reachable [OF assms]]
  have "\<not> is_panic r" if "pw_pcs w i = PReturned r" for i r using D(6) [of i] that by simp
  then show ?thesis
    using D(2) ring.bounded [OF D(1)] bq_capacity_reachable [OF assms] by simp
qed

text \<open>C8. Wake-ups of the POSIX queue. While a sender is blocked on \<open>not_full\<close> the queue is open and every
  free slot is matched by a sender that is awake in the loop and will try again, or by a signal that a timed wait
  consumed although it reported \<open>ETIMEDOUT\<close>, after which the code returns without trying again; while a
  receiver is blocked on \<open>not_empty\<close> the same holds of the queued messages. So, when every thread
  has returned or is blocked and no signal was consumed in this way, a blocked sender faces a full open queue and
  a blocked receiver an empty open one, and not both sides are blocked.\<close>

theorem posix_queue_no_lost_wakeup:
  assumes "pthread_cond sig bcast" and "byte_queue_new reserve c m = Ok bq"
    and "posix_queue_reachable sig bcast bq w"
  shows "(pw_not_full w \<noteq> {} \<longrightarrow> \<not> bq_closed (pw_buffer w)
        \<and> free_slots (pw_buffer w) \<le> card (loop_senders (pw_pcs w) - pw_not_full w) + pw_lost_full w)
    \<and> (pw_not_empty w \<noteq> {} \<longrightarrow> \<not> bq_closed (pw_buffer w)
        \<and> bq_len (pw_buffer w) \<le> card (loop_receivers (pw_pcs w) - pw_not_empty w) + pw_lost_empty w)
    \<and> ((\<forall>i. (\<exists>r. pw_pcs w i = PReturned r) \<or> i \<in> pw_not_full w \<or> i \<in> pw_not_empty w) \<longrightarrow>
        (pw_not_full w \<noteq> {} \<and> pw_lost_full w = 0 \<longrightarrow> bq_is_full (pw_buffer w))
        \<and> (pw_not_empty w \<noteq> {} \<and> pw_lost_empty w = 0 \<longrightarrow> bq_is_empty (pw_buffer w))
        \<and> (pw_lost_full w = 0 \<and> pw_lost_empty w = 0 \<longrightarrow> pw_not_full w = {} \<or> pw_not_empty w = {}))"
proof -
  note D = pw_invD [OF pw_inv_reachable [OF assms]]
  have le: "bq_len (pw_buffer w) \<le> bq_capacity (pw_buffer w)" using ring.bounded [OF D(1)] by simp
  have pos: "0 < bq_capacity (pw_buffer w)" using D(1) by (simp add: bq_inv_def)
  have rest: "pw_not_full w \<noteq> {} \<Longrightarrow> pw_lost_full w = 0 \<Longrightarrow> bq_len (pw_buffer w) = bq_capacity (pw_buffer w)"
    "pw_not_empty w \<noteq> {} \<Longrightarrow> pw_lost_empty w = 0 \<Longrightarrow> bq_len (pw_buffer w) = 0"
    if "\<forall>i. (\<exists>r. pw_pcs w i = PReturned r) \<or> i \<in> pw_not_full w \<or> i \<in> pw_not_empty w"
    using side_all_blocked [OF D(3)] side_all_blocked [OF D(4)] le
      quiescent_blocked [OF pw_inv_reachable [OF assms] that] by (simp_all add: free_slots_def)
  have "pw_not_full w \<noteq> {} \<Longrightarrow> free_slots (pw_buffer w) \<le> card (loop_senders (pw_pcs w) - pw_not_full w) + pw_lost_full w"
    "pw_not_empty w \<noteq> {} \<Longrightarrow> bq_len (pw_buffer w) \<le> card (loop_receivers (pw_pcs w) - pw_not_empty w) + pw_lost_empty w"
    using sideD [OF D(3)] sideD [OF D(4)] by linarith+
  moreover have "pw_not_full w = {} \<or> pw_not_empty w = {}"
    if "\<forall>i. (\<exists>r. pw_pcs w i = PReturned r) \<or> i \<in> pw_not_full w \<or> i \<in> pw_not_empty w"
      "pw_lost_full w = 0" "pw_lost_empty w = 0"
    using rest [OF that(1)] that(2,3) pos by (metis less_not_refl)
  ultimately show ?thesis
    using D(5) rest by (auto simp: bq_is_full_def bq_is_empty_def)
qed

text \<open>A receiver blocks on an empty queue; a sender commits a message and its signal wakes the
  receiver.\<close>

definition posix_demo_queue :: byte_queue where
  "posix_demo_queue = \<lparr>bq_storage = [0, 0], bq_capacity = 2, bq_message_size = 1, bq_head = 0,
     bq_tail = 0, bq_len = 0, bq_closed = False\<rparr>"

definition posix_demo_blocked :: posix_queue_world where
  "posix_demo_blocked = (posix_queue_init posix_demo_queue)\<lparr>pw_not_empty := {0},
     pw_pcs := (\<lambda>_. PReturned (Ok ()))(0 := PRecvLoop [0] None)\<rparr>"

lemma posix_demo_new: "byte_queue_new (\<lambda>_. True) 2 1 = Ok posix_demo_queue"
  unfolding posix_demo_queue_def by (rule demo_new)

lemma posix_demo_section:
  "recv_section (RetOk, \<lparr>tv_sec = 0, tv_nsec = 0\<rparr>) (PRecv [0] Forever) posix_demo_queue
     = Some (SecWait None, posix_demo_queue, [0])"
  by (simp add: recv_section_def posix_recv_enter_def posix_recv_iter_def posix_demo_queue_def
      try_recv_def bq_asserts_def bq_is_empty_def)

lemma posix_demo_reachable:
  "posix_queue_reachable posix_signal posix_broadcast posix_demo_queue posix_demo_blocked"
proof -
  let ?w = "posix_queue_init posix_demo_queue"
  let ?w1 = "?w\<lparr>pw_pcs := (pw_pcs ?w)(0 := posix_recv_call (bq_message_size (pw_buffer ?w)) [0] Forever)\<rparr>"
  have pc: "posix_recv_call (bq_message_size posix_demo_queue) [0] Forever = PRecv [0] Forever"
    by (simp add: posix_recv_call_def validate_recv_buffer_size_def posix_demo_queue_def)
  have 1: "posix_step posix_signal posix_broadcast ?w ?w1"
    by (rule posix_step.call_recv [of _ _ "Ok ()"]) (simp add: posix_queue_init_def)
  have 2: "posix_step posix_signal posix_broadcast ?w1
     (?w1\<lparr>pw_buffer := posix_demo_queue, pw_not_empty := insert 0 (pw_not_empty ?w1),
          pw_pcs := (pw_pcs ?w1)(0 := PRecvLoop [0] None), pw_lost_empty := 0\<rparr>)"
    by (rule posix_step.recv_block [of _ _ "\<lparr>tv_sec = 0, tv_nsec = 0\<rparr>"])
      (simp_all add: pc posix_demo_section posix_queue_init_def
          ts_valid_def time_t_max_def)
  have eq: "?w1\<lparr>pw_buffer := posix_demo_queue, pw_not_empty := insert 0 (pw_not_empty ?w1),
          pw_pcs := (pw_pcs ?w1)(0 := PRecvLoop [0] None), pw_lost_empty := 0\<rparr> = posix_demo_blocked"
    by (simp add: posix_demo_blocked_def posix_queue_init_def)
  show ?thesis
    unfolding posix_queue_reachable_def
    using 1 2 unfolding eq by (meson rtranclp.rtrancl_into_rtrancl rtranclp.rtrancl_refl)
qed

theorem posix_queue_conserves_witness:
  "pw_sent posix_demo_blocked = pw_received posix_demo_blocked
     @ bq_contents (pw_buffer posix_demo_blocked)"
  using posix_queue_conserves [OF anysig.pthread_cond_axioms posix_demo_new posix_demo_reachable] by simp

theorem posix_queue_no_lost_wakeup_witness:
  "pw_not_empty posix_demo_blocked = {0} \<and> bq_is_empty (pw_buffer posix_demo_blocked)
   \<and> pw_not_full posix_demo_blocked = {}"
  using posix_queue_no_lost_wakeup [OF anysig.pthread_cond_axioms posix_demo_new posix_demo_reachable]
  by (auto simp: posix_demo_blocked_def posix_queue_init_def)










end
