(* ===== verification/Posix_Semaphore.thy ===== *)
theory Posix_Semaphore
  imports Posix_Condvar Counting_Semaphore
begin

text \<open>
  The counting and binary semaphores of the POSIX backend
  (src/crates/osal-backend-posix/src/semaphore.rs): the portable counter under a pthread mutex
  with one condition variable. As for the queue, what a call does while it holds the mutex is one
  function on the counter, and the step relation interleaves the calls of any number of threads.
\<close>

section \<open>The sections\<close>

definition posix_acquire_iter ::
  "timespec option \<Rightarrow> counting_semaphore_state \<Rightarrow> unit res section_end \<times> counting_semaphore_state" where
  "posix_acquire_iter dl s =
     (case cs_try_acquire s of
        (ok, s1) \<Rightarrow> (if ok then SecReturn (Ok ()) False else SecWait dl, s1))"

definition posix_acquire_enter ::
  "posix_ret \<times> timespec \<Rightarrow> timeout \<Rightarrow> counting_semaphore_state
    \<Rightarrow> unit res section_end \<times> counting_semaphore_state" where
  "posix_acquire_enter g t s =
     (case cs_try_acquire s of
        (ok, s1) \<Rightarrow>
          if ok then (SecReturn (Ok ()) False, s1)
          else case t of
            NoWait \<Rightarrow> (SecReturn (Err Timeout) False, s1)
          | After d \<Rightarrow>
              if d = duration_zero then (SecReturn (Err Timeout) False, s1)
              else (case checked_abs_deadline g d of
                      Ok ts \<Rightarrow> posix_acquire_iter (Some ts) s1
                    | Err e \<Rightarrow> (SecReturn (Err e) False, s1)
                    | Panic m \<Rightarrow> (SecReturn (Panic m) False, s1))
          | Forever \<Rightarrow> posix_acquire_iter None s1)"

definition posix_release ::
  "counting_semaphore_state \<Rightarrow> unit res section_end \<times> counting_semaphore_state" where
  "posix_release s =
     (case cs_release s of
        (r, s1) \<Rightarrow> (case r of Ok _ \<Rightarrow> (SecReturn (Ok ()) True, s1) | _ \<Rightarrow> (SecReturn r False, s1)))"

text \<open>The binary semaphore is a counting one; \<open>is_signaled\<close> compares its count with one.\<close>

definition posix_binary_state :: "counting_semaphore_state res" where
  "posix_binary_state = cs_new 1 0"

definition posix_is_signaled :: "counting_semaphore_state \<Rightarrow> bool" where
  "posix_is_signaled s \<longleftrightarrow> cs_count s = 1"

section \<open>Interleaving\<close>

datatype sem_pc =
    SReturned "unit res"
  | SAcquire timeout
  | SAcquireLoop "timespec option"
  | SRelease

definition acquire_section ::
  "posix_ret \<times> timespec \<Rightarrow> sem_pc \<Rightarrow> counting_semaphore_state
    \<Rightarrow> (unit res section_end \<times> counting_semaphore_state) option" where
  "acquire_section g pc s =
     (case pc of
        SAcquire t \<Rightarrow> Some (posix_acquire_enter g t s)
      | SAcquireLoop dl \<Rightarrow> Some (posix_acquire_iter dl s)
      | _ \<Rightarrow> None)"

definition sem_after_wait :: "posix_ret \<Rightarrow> sem_pc \<Rightarrow> sem_pc" where
  "sem_after_wait rc pc = (case cond_wait rc of Ok _ \<Rightarrow> pc | r \<Rightarrow> SReturned r)"

text \<open>The counter, the blocked threads, what each thread is doing, and the numbers of acquires and
  releases that returned \<open>Ok\<close>. A timed wait that was signalled may still report \<open>ETIMEDOUT\<close>, and the
  signal is then consumed: \<open>zw_lost\<close> counts these signals since a thread last began to wait.\<close>

record posix_sem_world =
  zw_state :: counting_semaphore_state
  zw_blocked :: "nat set"
  zw_pcs :: "nat \<Rightarrow> sem_pc"
  zw_acquired :: nat
  zw_released :: nat
  zw_lost :: nat

inductive posix_sem_step ::
  "(nat set \<Rightarrow> posix_ret \<Rightarrow> nat set \<Rightarrow> bool) \<Rightarrow> posix_sem_world \<Rightarrow> posix_sem_world \<Rightarrow> bool"
  for sig where
  call_acquire: "posix_sem_step sig w (w\<lparr>zw_pcs := (zw_pcs w)(i := SAcquire t)\<rparr>)"
  if "zw_pcs w i = SReturned r"
| call_release: "posix_sem_step sig w (w\<lparr>zw_pcs := (zw_pcs w)(i := SRelease)\<rparr>)"
  if "zw_pcs w i = SReturned r"
| do_acquire: "posix_sem_step sig w
      (w\<lparr>zw_state := s, zw_pcs := (zw_pcs w)(i := SReturned r),
         zw_acquired := (if is_ok r then Suc (zw_acquired w) else zw_acquired w)\<rparr>)"
  if "i \<notin> zw_blocked w" "ts_valid now"
    "acquire_section (RetOk, now) (zw_pcs w i) (zw_state w) = Some (SecReturn r False, s)"
| acquire_block: "posix_sem_step sig w
      (w\<lparr>zw_state := s, zw_blocked := insert i (zw_blocked w),
         zw_pcs := (zw_pcs w)(i := SAcquireLoop dl), zw_lost := 0\<rparr>)"
  if "i \<notin> zw_blocked w" "ts_valid now"
    "acquire_section (RetOk, now) (zw_pcs w i) (zw_state w) = Some (SecWait dl, s)"
| acquire_woken: "posix_sem_step sig w
      (w\<lparr>zw_blocked := zw_blocked w - {i},
         zw_pcs := (zw_pcs w)(i := sem_after_wait rc (SAcquireLoop dl))\<rparr>)"
  if "i \<in> zw_blocked w" "zw_pcs w i = SAcquireLoop dl" "wait_returns dl now rc"
| acquire_late: "posix_sem_step sig w
      (w\<lparr>zw_pcs := (zw_pcs w)(i := sem_after_wait ETIMEDOUT (SAcquireLoop dl)), zw_lost := Suc (zw_lost w)\<rparr>)"
  if "i \<notin> zw_blocked w" "zw_pcs w i = SAcquireLoop dl" "wait_returns dl now ETIMEDOUT"
| release_fail: "posix_sem_step sig w
      (w\<lparr>zw_state := s, zw_pcs := (zw_pcs w)(i := SReturned r)\<rparr>)"
  if "zw_pcs w i = SRelease" "posix_release (zw_state w) = (SecReturn r False, s)"
| release_commit: "posix_sem_step sig w
      (w\<lparr>zw_state := s, zw_blocked := B,
         zw_pcs := (zw_pcs w)(i := SReturned (res_bind (wake_one_after_commit rc) (\<lambda>_. r))),
         zw_released := Suc (zw_released w)\<rparr>)"
  if "zw_pcs w i = SRelease" "posix_release (zw_state w) = (SecReturn r True, s)"
    "sig (zw_blocked w) rc B"

definition posix_sem_init :: "counting_semaphore_state \<Rightarrow> posix_sem_world" where
  "posix_sem_init s =
     \<lparr>zw_state = s, zw_blocked = {}, zw_pcs = (\<lambda>_. SReturned (Ok ())), zw_acquired = 0,
      zw_released = 0, zw_lost = 0\<rparr>"

definition posix_sem_reachable ::
  "(nat set \<Rightarrow> posix_ret \<Rightarrow> nat set \<Rightarrow> bool) \<Rightarrow> counting_semaphore_state \<Rightarrow> posix_sem_world \<Rightarrow> bool" where
  "posix_sem_reachable sig s w \<longleftrightarrow> (posix_sem_step sig)\<^sup>*\<^sup>* (posix_sem_init s) w"

section \<open>Invariant\<close>

definition loop_acquirers :: "(nat \<Rightarrow> sem_pc) \<Rightarrow> nat set" where
  "loop_acquirers p = {i. \<exists>dl. p i = SAcquireLoop dl}"

definition permits :: "counting_semaphore_state \<Rightarrow> nat" where
  "permits s = unat (cs_count s)"

definition zw_inv :: "counting_semaphore_state \<Rightarrow> posix_sem_world \<Rightarrow> bool" where
  "zw_inv s0 w \<longleftrightarrow>
     cs_inv (zw_state w) \<and> cs_max_count (zw_state w) = cs_max_count s0
     \<and> permits s0 + zw_released w = zw_acquired w + permits (zw_state w)
     \<and> side (loop_acquirers (zw_pcs w)) (zw_blocked w) (permits (zw_state w) - zw_lost w)
     \<and> (\<forall>i r. zw_pcs w i = SReturned r \<longrightarrow> \<not> is_panic r)"

lemma acquirers_upd [simp]:
  "loop_acquirers (p(i := SAcquireLoop dl)) = insert i (loop_acquirers p)"
  "loop_acquirers (p(i := SReturned r)) = loop_acquirers p - {i}"
  "loop_acquirers (p(i := SAcquire t)) = loop_acquirers p - {i}"
  "loop_acquirers (p(i := SRelease)) = loop_acquirers p - {i}"
  by (auto simp: loop_acquirers_def)

lemma not_acquirer:
  "zw_pcs w i = SReturned r \<Longrightarrow> loop_acquirers (zw_pcs w) - {i} = loop_acquirers (zw_pcs w)"
  "zw_pcs w i = SRelease \<Longrightarrow> loop_acquirers (zw_pcs w) - {i} = loop_acquirers (zw_pcs w)"
  "zw_pcs w i = SAcquire t \<Longrightarrow> loop_acquirers (zw_pcs w) - {i} = loop_acquirers (zw_pcs w)"
  by (auto simp: loop_acquirers_def)

text \<open>An acquire takes one permit and returns, or finds none; a thread of the loop never leaves it
  empty-handed.\<close>

lemma acquire_section_end:
  assumes inv: "cs_inv s" and now: "ts_valid now"
    and a: "acquire_section (RetOk, now) pc s = Some (e, s1)"
  shows "cs_inv s1 \<and> cs_max_count s1 = cs_max_count s"
    and "e = SecReturn (Ok ()) b \<Longrightarrow> 0 < permits s \<and> permits s1 = permits s - 1"
    and "e = SecReturn r b \<Longrightarrow> r \<noteq> Ok () \<Longrightarrow>
      permits s1 = permits s \<and> \<not> is_panic r \<and> (\<exists>t. pc = SAcquire t)"
    and "e = SecWait dl \<Longrightarrow> permits s = 0 \<and> permits s1 = 0"
proof -
  obtain ok s0 where t: "cs_try_acquire s = (ok, s0)" by (cases "cs_try_acquire s")
  note c = cs_try_acquire_cases [OF inv t]
  obtain ok' s0' where t': "cs_try_acquire s0 = (ok', s0')" by (cases "cs_try_acquire s0")
  note c' = cs_try_acquire_cases [OF c(1) t']
  consider (got) "e = SecReturn (Ok ()) False" "ok" "s1 = s0"
    | (err) x tt where "e = SecReturn (Err x) False" "\<not> ok" "s1 = s0" "pc = SAcquire tt"
    | (wait) dl where "e = SecWait dl" "\<not> ok" "s1 = s0"
    | (again) dl where "e = SecWait dl" "\<not> ok" "\<not> ok'" "s1 = s0'"
    | (late) "e = SecReturn (Ok ()) False" "\<not> ok" "ok'" "s1 = s0'"
    using a t t' deadline_no_panic [OF now]
    by (auto simp: acquire_section_def posix_acquire_enter_def posix_acquire_iter_def
        split: sem_pc.splits timeout.splits if_splits res.splits)
  note cases = this
  show "cs_inv s1 \<and> cs_max_count s1 = cs_max_count s"
    using cases by cases (use c c' in auto)
  show "e = SecReturn (Ok ()) b \<Longrightarrow> 0 < permits s \<and> permits s1 = permits s - 1"
    using cases by cases (use c c' in \<open>auto simp: permits_def\<close>)
  show "e = SecReturn r b \<Longrightarrow> r \<noteq> Ok () \<Longrightarrow>
      permits s1 = permits s \<and> \<not> is_panic r \<and> (\<exists>t. pc = SAcquire t)"
    using cases by cases (use c c' in \<open>auto simp: permits_def\<close>)
  show "e = SecWait dl \<Longrightarrow> permits s = 0 \<and> permits s1 = 0"
    using cases by cases (use c c' in \<open>auto simp: permits_def\<close>)
qed

lemma release_end:
  assumes "cs_inv s" and "posix_release s = (e, s1)"
  shows "cs_inv s1" "cs_max_count s1 = cs_max_count s"
    "e = SecReturn r True \<Longrightarrow> r = Ok () \<and> permits s1 = Suc (permits s)"
    "e = SecReturn r False \<Longrightarrow> r = Err Overflow \<and> permits s1 = permits s \<and> cs_count s = cs_max_count s"
proof -
  obtain x y where r: "cs_release s = (x, y)" by (cases "cs_release s")
  note c = cs_release_cases [OF assms(1) r]
  have y: "s1 = y" "e = SecReturn x (is_ok x)"
    using assms(2) r by (auto simp: posix_release_def split: res.splits)
  show "cs_inv s1" "cs_max_count s1 = cs_max_count s" using c y by simp_all
  show "e = SecReturn r True \<Longrightarrow> r = Ok () \<and> permits s1 = Suc (permits s)"
    using c y by (auto simp: permits_def)
  show "e = SecReturn r False \<Longrightarrow> r = Err Overflow \<and> permits s1 = permits s \<and> cs_count s = cs_max_count s"
    using c y assms(1) r by (auto simp: permits_def cs_inv_def cs_release_def split: if_splits)
qed

section \<open>Preservation\<close>

lemma zw_invD:
  assumes "zw_inv s0 w"
  shows "cs_inv (zw_state w)" and "cs_max_count (zw_state w) = cs_max_count s0"
    and "permits s0 + zw_released w = zw_acquired w + permits (zw_state w)"
    and "side (loop_acquirers (zw_pcs w)) (zw_blocked w) (permits (zw_state w) - zw_lost w)"
    and "zw_pcs w i = SReturned r \<Longrightarrow> \<not> is_panic r"
  using assms by (auto simp: zw_inv_def)

lemma zw_inv_acquire:
  assumes inv: "zw_inv s0 w" and i: "i \<notin> zw_blocked w" and now: "ts_valid now"
    and s: "acquire_section (RetOk, now) (zw_pcs w i) (zw_state w) = Some (SecReturn r False, s)"
  shows "zw_inv s0 (w\<lparr>zw_state := s, zw_pcs := (zw_pcs w)(i := SReturned r),
           zw_acquired := (if is_ok r then Suc (zw_acquired w) else zw_acquired w)\<rparr>)"
proof -
  note D = zw_invD [OF inv]
  note e = acquire_section_end [OF D(1) now s]
  show ?thesis
  proof (cases "r = Ok ()")
    case True
    have "0 < permits (zw_state w)" "permits s = permits (zw_state w) - 1"
      using e(2) True by auto
    then show ?thesis
      using D e(1) side_leave_awake [OF D(4) i] True unfolding zw_inv_def by auto
  next
    case False
    obtain t where t: "zw_pcs w i = SAcquire t" and p: "permits s = permits (zw_state w)"
      and np: "\<not> is_panic r" using e(3) False by auto
    have no: "\<not> is_ok r" using False by (auto elim!: is_okE)
    show ?thesis
      using D e(1) p np no not_acquirer(3) [OF t] unfolding zw_inv_def by auto
  qed
qed

context pthread_cond
begin

lemma zw_inv_step:
  assumes "posix_sem_step sig w w'" and inv: "zw_inv s0 w"
  shows "zw_inv s0 w'"
  using assms(1)
proof cases
  case (call_acquire i r t)
  then show ?thesis
    using zw_invD [OF inv] not_acquirer(1) [OF call_acquire(2)] unfolding zw_inv_def by auto
next
  case (call_release i r)
  then show ?thesis
    using zw_invD [OF inv] not_acquirer(1) [OF call_release(2)] unfolding zw_inv_def by auto
next
  case (do_acquire i now r s)
  show ?thesis unfolding do_acquire(1) by (rule zw_inv_acquire [OF inv do_acquire(2-4)])
next
  case (acquire_block i now dl s)
  note D = zw_invD [OF inv]
  note e = acquire_section_end [OF D(1) acquire_block(3,4)]
  have "permits (zw_state w) = 0" "permits s = 0" using e(4) by auto
  then show ?thesis
    using D e(1) side_enter_wait [OF D(4), of i] unfolding acquire_block(1) zw_inv_def by auto
next
  case (acquire_woken i dl now rc)
  note D = zw_invD [OF inv]
  have "i \<in> loop_acquirers (zw_pcs w)" using acquire_woken(3) by (auto simp: loop_acquirers_def)
  moreover have "sem_after_wait rc (SAcquireLoop dl) = SAcquireLoop dl
      \<or> sem_after_wait rc (SAcquireLoop dl) = SReturned (Err Timeout)"
    using acquire_woken(4) by (auto simp: wait_returns_def sem_after_wait_def cond_wait_def)
  ultimately show ?thesis
    using D side_spurious [OF D(4), of "{i}"] side_leave_blocked [OF D(4) acquire_woken(2)]
    unfolding acquire_woken(1) zw_inv_def by (auto simp: insert_absorb)
next
  case (acquire_late i dl now)
  note D = zw_invD [OF inv]
  have "i \<in> loop_acquirers (zw_pcs w)" using acquire_late(3) by (auto simp: loop_acquirers_def)
  then show ?thesis
    using D side_leave_awake [OF D(4) acquire_late(2)]
    unfolding acquire_late(1) zw_inv_def by (auto simp: sem_after_wait_def cond_wait_def)
next
  case (release_fail i r s)
  note D = zw_invD [OF inv]
  note e = release_end [OF D(1) release_fail(3)]
  have "permits s = permits (zw_state w)" "r = Err Overflow" using e(4) by auto
  then show ?thesis
    using D e(1,2) not_acquirer(2) [OF release_fail(2)] unfolding release_fail(1) zw_inv_def by auto
next
  case (release_commit i r s rc B)
  note D = zw_invD [OF inv]
  note e = release_end [OF D(1) release_commit(3)]
  have "r = Ok ()" "permits s = Suc (permits (zw_state w))" using e(3) by auto
  moreover have "res_bind (wake_one_after_commit rc) (\<lambda>_. r) = r"
    using sig_ret [OF release_commit(4)] by (simp add: wake_one_after_commit_def)
  ultimately show ?thesis
    using D e(1,2) side_signal_owed [OF D(4) release_commit(4)] not_acquirer(2) [OF release_commit(2)]
    unfolding release_commit(1) zw_inv_def by auto
qed

lemma zw_inv_reachable:
  assumes "cs_new m n = Ok s" and "posix_sem_reachable sig s w"
  shows "zw_inv s w"
  using assms(2) unfolding posix_sem_reachable_def
proof (induction rule: rtranclp_induct)
  case base
  have "loop_acquirers (\<lambda>_. SReturned (Ok ())) = {}" by (auto simp: loop_acquirers_def)
  then show ?case
    using cs_new_inv [OF assms(1)] by (auto simp: zw_inv_def posix_sem_init_def)
next
  case (step w w')
  show ?case by (rule zw_inv_step [OF step(2,3)])
qed

end

section \<open>Properties\<close>

text \<open>C27. The blocking POSIX semaphore: under every interleaving of acquires, releases, timeouts and
  spurious wake-ups the initial count plus the releases is the acquires plus the current count,
  which stays between zero and the maximum, and no call panics. While a thread is blocked each available
  permit is matched by an acquirer that is awake and will try again, or by a signal that a timed wait
  consumed although it reported \<open>ETIMEDOUT\<close>, after which the code returns without trying again; so when every
  thread has returned or is blocked and no signal was consumed in this way, a blocked thread means a count of zero.\<close>

theorem posix_semaphore_sound:
  assumes "pthread_cond sig bcast" and "cs_new m n = Ok s" and "posix_sem_reachable sig s w"
  shows "unat n + zw_released w = zw_acquired w + unat (cs_count (zw_state w))
    \<and> cs_count (zw_state w) \<le> m
    \<and> (\<forall>i r. zw_pcs w i = SReturned r \<longrightarrow> \<not> is_panic r)
    \<and> (zw_blocked w \<noteq> {} \<longrightarrow>
        unat (cs_count (zw_state w)) \<le> card (loop_acquirers (zw_pcs w) - zw_blocked w) + zw_lost w)
    \<and> ((\<forall>i. (\<exists>r. zw_pcs w i = SReturned r) \<or> i \<in> zw_blocked w) \<longrightarrow> zw_blocked w \<noteq> {} \<and> zw_lost w = 0 \<longrightarrow>
        cs_count (zw_state w) = 0)"
proof -
  note D = zw_invD [OF pthread_cond.zw_inv_reachable [OF assms]]
  have s: "cs_count s = n" "cs_max_count s = m" using assms(2) by (auto simp: cs_new_def split: if_splits)
  have rest: "cs_count (zw_state w) = 0"
    if q: "\<forall>i. (\<exists>r. zw_pcs w i = SReturned r) \<or> i \<in> zw_blocked w" and "zw_blocked w \<noteq> {}" "zw_lost w = 0"
  proof -
    have "loop_acquirers (zw_pcs w) \<subseteq> zw_blocked w"
    proof
      fix i assume "i \<in> loop_acquirers (zw_pcs w)"
      then obtain dl where "zw_pcs w i = SAcquireLoop dl" by (auto simp: loop_acquirers_def)
      with q [rule_format, of i] show "i \<in> zw_blocked w" by simp
    qed
    with side_all_blocked [OF D(4)] that(2,3) show ?thesis by (simp add: permits_def unat_eq_0)
  qed
  have "cs_count (zw_state w) \<le> m" using D(1,2) s by (simp add: cs_inv_def)
  moreover have "zw_blocked w \<noteq> {} \<Longrightarrow>
      unat (cs_count (zw_state w)) \<le> card (loop_acquirers (zw_pcs w) - zw_blocked w) + zw_lost w"
    using sideD [OF D(4)] by (simp add: permits_def)
  ultimately show ?thesis
    using D(3) rest D(5) s by (auto simp: permits_def)
qed

text \<open>A thread blocks on a semaphore with no permit.\<close>

definition posix_demo_sem :: posix_sem_world where
  "posix_demo_sem = (posix_sem_init \<lparr>cs_max_count = 1, cs_count = 0\<rparr>)\<lparr>zw_blocked := {0},
     zw_pcs := (\<lambda>_. SReturned (Ok ()))(0 := SAcquireLoop None)\<rparr>"

lemma posix_demo_sem_new: "cs_new 1 0 = Ok \<lparr>cs_max_count = 1, cs_count = 0\<rparr>"
  by (simp add: cs_new_def)

lemma posix_demo_sem_reachable:
  "posix_sem_reachable posix_signal \<lparr>cs_max_count = 1, cs_count = 0\<rparr> posix_demo_sem"
proof -
  let ?s = "\<lparr>cs_max_count = 1, cs_count = 0\<rparr> :: counting_semaphore_state"
  let ?w = "posix_sem_init ?s"
  let ?w1 = "?w\<lparr>zw_pcs := (zw_pcs ?w)(0 := SAcquire Forever)\<rparr>"
  have 1: "posix_sem_step posix_signal ?w ?w1"
    by (rule posix_sem_step.call_acquire [of _ _ "Ok ()"]) (simp add: posix_sem_init_def)
  have 2: "posix_sem_step posix_signal ?w1
     (?w1\<lparr>zw_state := ?s, zw_blocked := insert 0 (zw_blocked ?w1),
          zw_pcs := (zw_pcs ?w1)(0 := SAcquireLoop None), zw_lost := 0\<rparr>)"
    by (rule posix_sem_step.acquire_block [of _ _ "\<lparr>tv_sec = 0, tv_nsec = 0\<rparr>"])
      (simp_all add: posix_sem_init_def ts_valid_def time_t_max_def acquire_section_def
        posix_acquire_enter_def posix_acquire_iter_def cs_try_acquire_def)
  have eq: "?w1\<lparr>zw_state := ?s, zw_blocked := insert 0 (zw_blocked ?w1),
          zw_pcs := (zw_pcs ?w1)(0 := SAcquireLoop None), zw_lost := 0\<rparr> = posix_demo_sem"
    by (simp add: posix_demo_sem_def posix_sem_init_def)
  show ?thesis
    unfolding posix_sem_reachable_def
    using 1 2 unfolding eq by (meson rtranclp.rtrancl_into_rtrancl rtranclp.rtrancl_refl)
qed

theorem posix_semaphore_sound_witness:
  "zw_blocked posix_demo_sem = {0} \<and> cs_count (zw_state posix_demo_sem) = 0
   \<and> unat (0 :: u32) + zw_released posix_demo_sem = zw_acquired posix_demo_sem + 0"
  using posix_semaphore_sound [OF anysig.pthread_cond_axioms posix_demo_sem_new posix_demo_sem_reachable]
  by (auto simp: posix_demo_sem_def posix_sem_init_def)

end
