(* ===== verification/Posix_Runtime.thy ===== *)
theory Posix_Runtime
  imports Posix_Timer Posix_Queue Posix_Semaphore Runtime_Lifecycle Object_Interface
begin

text \<open>
  The runtime of the POSIX backend and the constructors of its objects
  (src/crates/osal-backend-posix/src/runtime.rs and the \<open>new\<close> functions of queue.rs, semaphore.rs,
  mutex.rs, timer.rs and task.rs): which parameters are rejected before a lease is taken, which
  native objects are created under it, and what an early return gives back. The return codes of the
  pthread calls are the argument \<open>'k posix_native\<close>; destructors run by scope, so the native
  objects of a failed constructor need no cleanup code.
\<close>

section \<open>Native objects (sys/mutex.rs, sys/condvar.rs, sys/task.rs)\<close>

text \<open>The return codes of the three calls that make a mutex (attribute, type, mutex), a condition
  variable (attribute, clock, variable) and a thread (attribute, stack size, thread), the result of
  the thread-local key, and what a started task reports back.\<close>

record 'k posix_native =
  pn_mutex :: "'k \<Rightarrow> (posix_ret \<times> posix_ret \<times> posix_ret) \<times> 'k"
  pn_condvar :: "'k \<Rightarrow> (posix_ret \<times> posix_ret \<times> posix_ret) \<times> 'k"
  pn_thread :: "nat \<Rightarrow> 'k \<Rightarrow> (posix_ret \<times> posix_ret \<times> posix_ret) \<times> 'k"
  pn_tls_key :: "'k \<Rightarrow> unit res \<times> 'k"
  pn_startup :: "'k \<Rightarrow> unit res \<times> 'k"
  pn_stack_min :: nat

definition posix_mutex_create :: "'k posix_native \<Rightarrow> 'k \<Rightarrow> unit res \<times> 'k" where
  "posix_mutex_create N k =
     (case pn_mutex N k of
        ((a, t, m), k1) \<Rightarrow>
          (res_bind (check_ret a) (\<lambda>_. res_bind (check_ret t) (\<lambda>_. check_ret m)), k1))"

definition posix_condvar_create :: "'k posix_native \<Rightarrow> 'k \<Rightarrow> unit res \<times> 'k" where
  "posix_condvar_create N k =
     (case pn_condvar N k of
        ((a, t, c), k1) \<Rightarrow>
          (res_bind (check_ret a) (\<lambda>_. res_bind (check_ret t) (\<lambda>_. check_ret c)), k1))"

definition posix_thread_spawn :: "'k posix_native \<Rightarrow> nat \<Rightarrow> 'k \<Rightarrow> unit res \<times> 'k" where
  "posix_thread_spawn N stack_size k =
     (let stack = (if stack_size < pn_stack_min N then pn_stack_min N else stack_size) in
      case pn_thread N stack k of
        ((a, s, c), k1) \<Rightarrow>
          ((if a \<noteq> RetOk then Err (Internal ''pthread_attr_init failed'')
            else if s \<noteq> RetOk then Err InvalidParameter
            else if c \<noteq> RetOk then Err OutOfMemory
            else Ok ()), k1))"

section \<open>The backend's state\<close>

text \<open>What the constructors work on beside the lifecycle: the native state, the task handle counter
  and the number of live tasks.\<close>

record 'k posix_env =
  pe_native :: 'k
  pe_next_handle :: usize
  pe_live :: usize

record ('k, 'cb) posix_world =
  px_lifecycle :: usize
  px_control :: timer_control
  px_service :: "'cb service_state"
  px_env :: "'k posix_env"

definition posix_world_initial :: "'k \<Rightarrow> ('k, 'cb) posix_world" where
  "posix_world_initial k =
     \<lparr>px_lifecycle = lifecycle_new, px_control = timer_control_new, px_service = service_state_new,
      px_env = \<lparr>pe_native = k, pe_next_handle = 1, pe_live = 0\<rparr>\<rparr>"

definition on_posix_native :: "('k \<Rightarrow> 'a \<times> 'k) \<Rightarrow> 'k posix_env \<Rightarrow> 'a \<times> 'k posix_env" where
  "on_posix_native f e = (case f (pe_native e) of (x, k) \<Rightarrow> (x, e\<lparr>pe_native := k\<rparr>))"

definition on_posix_lifecycle ::
  "(usize \<Rightarrow> unit res \<times> usize) \<Rightarrow> ('k, 'cb) posix_world \<Rightarrow> unit res \<times> ('k, 'cb) posix_world" where
  "on_posix_lifecycle f w = (case f (px_lifecycle w) of (r, x) \<Rightarrow> (r, w\<lparr>px_lifecycle := x\<rparr>))"

section \<open>Runtime (runtime.rs)\<close>

text \<open>\<open>timer_service::initialize\<close>: the generation is checked before anything is created.\<close>

definition posix_service_initialize ::
  "'k posix_native \<Rightarrow> ('k, 'cb) posix_world \<Rightarrow> unit res \<times> ('k, 'cb) posix_world" where
  "posix_service_initialize N w =
     (if ct_slot (px_control w) \<noteq> PSlotStopped \<or> checked_add u64_max (ct_next_generation (px_control w)) 1 = None
      then (fst (posix_timer_initialize (Ok ()) (Ok ()) (px_control w)), w)
      else
        case on_posix_native (\<lambda>k. st_bind (posix_mutex_create N k) (\<lambda>_. posix_condvar_create N)) (px_env w) of
          (made, e1) \<Rightarrow>
            (case (if is_ok made then on_posix_native (posix_thread_spawn N 4096) e1 else (Ok (), e1)) of
               (spawned, e2) \<Rightarrow>
                 (case posix_timer_initialize made spawned (px_control w) of
                    (r, c) \<Rightarrow>
                      (r, if is_ok r then w\<lparr>px_control := c, px_service := service_state_new, px_env := e2\<rparr>
                          else w\<lparr>px_env := e2\<rparr>))))"

text \<open>\<open>timer_service::shutdown\<close> with the result of joining the worker.\<close>

definition posix_service_shutdown ::
  "bool \<Rightarrow> posix_ret \<Rightarrow> ('k, 'cb) posix_world \<Rightarrow> unit res \<times> ('k, 'cb) posix_world" where
  "posix_service_shutdown is_self join_rc w =
     (case posix_shutdown_request is_self (px_control w) (px_service w) of
        (Ok g, c, sv) \<Rightarrow>
          if join_rc \<noteq> RetOk
          then (Panic ''timer worker join invariant violated'', w\<lparr>px_control := c, px_service := sv\<rparr>)
          else (case posix_shutdown_finish g c of
                  (r, c') \<Rightarrow> (r, w\<lparr>px_control := c', px_service := sv\<rparr>))
      | (Err e, c, sv) \<Rightarrow> (Err e, w\<lparr>px_control := c, px_service := sv\<rparr>)
      | (Panic m, c, sv) \<Rightarrow> (Panic m, w\<lparr>px_control := c, px_service := sv\<rparr>))"

definition posix_initialize ::
  "'k posix_native \<Rightarrow> ('k, 'cb) posix_world \<Rightarrow> unit res \<times> ('k, 'cb) posix_world" where
  "posix_initialize N w =
     st_bind (on_posix_lifecycle begin_initialize w) (\<lambda>_ w1.
       case posix_service_initialize N w1 of
         (Ok _, w2) \<Rightarrow> on_posix_lifecycle initialize_commit w2
       | (r, w2) \<Rightarrow> st_bind (on_posix_lifecycle initialize_drop w2) (\<lambda>_ w3. (r, w3)))"

definition posix_shutdown ::
  "bool \<Rightarrow> posix_ret \<Rightarrow> ('k, 'cb) posix_world \<Rightarrow> unit res \<times> ('k, 'cb) posix_world" where
  "posix_shutdown is_self join_rc w =
     st_bind (on_posix_lifecycle begin_shutdown w) (\<lambda>_ w1.
       case posix_service_shutdown is_self join_rc w1 of
         (Ok _, w2) \<Rightarrow> on_posix_lifecycle shutdown_commit w2
       | (r, w2) \<Rightarrow> st_bind (on_posix_lifecycle shutdown_drop w2) (\<lambda>_ w3. (r, w3)))"

definition posix_state :: "('k, 'cb) posix_world \<Rightarrow> runtime_state" where
  "posix_state w = decode_state (px_lifecycle w)"

definition posix_active_objects :: "('k, 'cb) posix_world \<Rightarrow> usize" where
  "posix_active_objects w = decode_count (px_lifecycle w)"

definition posix_acquire_object :: "('k, 'cb) posix_world \<Rightarrow> unit res \<times> ('k, 'cb) posix_world" where
  "posix_acquire_object = on_posix_lifecycle acquire"

definition posix_lease_drop :: "('k, 'cb) posix_world \<Rightarrow> unit res \<times> ('k, 'cb) posix_world" where
  "posix_lease_drop = on_posix_lifecycle lease_drop"

text \<open>The rest of a constructor while it holds a lease; an early return drops it.\<close>

definition posix_leased ::
  "('k posix_env \<Rightarrow> 'a res \<times> 'k posix_env) \<Rightarrow> ('k, 'cb) posix_world \<Rightarrow> 'a res \<times> ('k, 'cb) posix_world" where
  "posix_leased body w =
     st_bind (posix_acquire_object w) (\<lambda>_ w1.
       case body (px_env w1) of
         (r, e) \<Rightarrow>
           (case r of
              Err x \<Rightarrow> st_bind (posix_lease_drop (w1\<lparr>px_env := e\<rparr>)) (\<lambda>_ w3. (Err x, w3))
            | _ \<Rightarrow> (r, w1\<lparr>px_env := e\<rparr>)))"

section \<open>Constructors\<close>

definition posix_queue_body ::
  "'k posix_native \<Rightarrow> (nat \<Rightarrow> bool) \<Rightarrow> nat \<Rightarrow> nat \<Rightarrow> 'k posix_env \<Rightarrow> byte_queue res \<times> 'k posix_env" where
  "posix_queue_body N reserve capacity msg_size e =
     st_bind (on_posix_native (posix_mutex_create N) e) (\<lambda>_ e.
     st_bind (on_posix_native (posix_condvar_create N) e) (\<lambda>_ e.
     st_bind (on_posix_native (posix_condvar_create N) e) (\<lambda>_ e.
       (byte_queue_new reserve capacity msg_size, e))))"

definition posix_queue_new ::
  "'k posix_native \<Rightarrow> (nat \<Rightarrow> bool) \<Rightarrow> nat \<Rightarrow> nat \<Rightarrow> ('k, 'cb) posix_world
    \<Rightarrow> byte_queue res \<times> ('k, 'cb) posix_world" where
  "posix_queue_new N reserve capacity msg_size w =
     st_bind (validate_queue_capacity capacity, w) (\<lambda>_ w.
     st_bind (validate_queue_message_size msg_size, w) (\<lambda>_ w.
       posix_leased (posix_queue_body N reserve capacity msg_size) w))"

definition posix_semaphore_new ::
  "'k posix_native \<Rightarrow> u32 \<Rightarrow> u32 \<Rightarrow> ('k, 'cb) posix_world
    \<Rightarrow> counting_semaphore_state res \<times> ('k, 'cb) posix_world" where
  "posix_semaphore_new N max_count initial_count w =
     st_bind (cs_new max_count initial_count, w) (\<lambda>st w.
       posix_leased (\<lambda>e.
         st_bind (on_posix_native (posix_mutex_create N) e) (\<lambda>_ e.
         st_bind (on_posix_native (posix_condvar_create N) e) (\<lambda>_ e. (Ok st, e)))) w)"

definition posix_binary_semaphore_new ::
  "'k posix_native \<Rightarrow> ('k, 'cb) posix_world \<Rightarrow> counting_semaphore_state res \<times> ('k, 'cb) posix_world" where
  "posix_binary_semaphore_new N w = posix_semaphore_new N 1 0 w"

definition posix_mutex_new ::
  "'k posix_native \<Rightarrow> 'a \<Rightarrow> ('k, 'cb) posix_world \<Rightarrow> 'a res \<times> ('k, 'cb) posix_world" where
  "posix_mutex_new N value w =
     posix_leased (\<lambda>e. st_bind (on_posix_native (posix_mutex_create N) e) (\<lambda>_ e. (Ok value, e))) w"

definition posix_allocate_task_handle :: "'k posix_env \<Rightarrow> task_handle res \<times> 'k posix_env" where
  "posix_allocate_task_handle e =
     (let raw = pe_next_handle e in
      if raw = - 1 then (Err Overflow, e)
      else (ok_or (handle_from_raw raw) Overflow, e\<lparr>pe_next_handle := raw + 1\<rparr>))"

text \<open>\<open>spawn\<close> under its lease: the live token is registered before the thread is created, dropped
  when the creation fails, and dropped by the child when its startup fails.\<close>

definition posix_task_body ::
  "'k posix_native \<Rightarrow> nat \<Rightarrow> 'k posix_env \<Rightarrow> task_handle res \<times> 'k posix_env" where
  "posix_task_body N stack_size e =
     st_bind (on_posix_native (pn_tls_key N) e) (\<lambda>_ e.
     st_bind (on_posix_native (posix_mutex_create N) e) (\<lambda>_ e.
     st_bind (on_posix_native (posix_condvar_create N) e) (\<lambda>_ e.
     st_bind (posix_allocate_task_handle e) (\<lambda>h e.
       let e1 = e\<lparr>pe_live := pe_live e + 1\<rparr> in
       case on_posix_native (posix_thread_spawn N stack_size) e1 of
         (Ok _, e2) \<Rightarrow>
           (case on_posix_native (pn_startup N) e2 of
              (Ok _, e3) \<Rightarrow> (Ok h, e3)
            | (Err x, e3) \<Rightarrow> (Err x, e3\<lparr>pe_live := pe_live e3 - 1\<rparr>)
            | (Panic m, e3) \<Rightarrow> (Panic m, e3))
       | (Err x, e2) \<Rightarrow> (Err x, e2\<lparr>pe_live := pe_live e2 - 1\<rparr>)
       | (Panic m, e2) \<Rightarrow> (Panic m, e2)))))"

definition posix_task_spawn ::
  "'k posix_native \<Rightarrow> u8 list \<Rightarrow> nat \<Rightarrow> ('k, 'cb) posix_world \<Rightarrow> task_handle res \<times> ('k, 'cb) posix_world" where
  "posix_task_spawn N name stack_size w =
     st_bind (validate_task_config name stack_size, w) (\<lambda>_ w.
       posix_leased (posix_task_body N stack_size) w)"

text \<open>\<open>PosixTimer::new\<close>: the registration runs under the lease too; its service is separate from the
  environment.\<close>

definition posix_timer_new ::
  "duration \<Rightarrow> timer_mode \<Rightarrow> 'cb \<Rightarrow> ('k, 'cb) posix_world \<Rightarrow> nat res \<times> ('k, 'cb) posix_world" where
  "posix_timer_new period mode cb w =
     (if period = duration_zero then (Err InvalidParameter, w)
      else st_bind (posix_acquire_object w) (\<lambda>_ w1.
        case posix_with_service (posix_register period mode cb) (px_control w1) (px_service w1) of
          (Err x, sv) \<Rightarrow> st_bind (posix_lease_drop (w1\<lparr>px_service := sv\<rparr>)) (\<lambda>_ w3. (Err x, w3))
        | (r, sv) \<Rightarrow> (r, w1\<lparr>px_service := sv\<rparr>)))"

text \<open>The drop of the last timer handle: deregister, then release the lease.\<close>

definition posix_timer_handle_drop ::
  "nat \<Rightarrow> ('k, 'cb) posix_world \<Rightarrow> unit res \<times> ('k, 'cb) posix_world" where
  "posix_timer_handle_drop tid w =
     (case posix_with_service (posix_deregister tid) (px_control w) (px_service w) of
        (Ok _, sv) \<Rightarrow> posix_lease_drop (w\<lparr>px_service := sv\<rparr>)
      | (_, sv) \<Rightarrow> (Panic ''live timer deregistration failed'', w\<lparr>px_service := sv\<rparr>))"

section \<open>Objects\<close>

datatype 'cb posix_ctor =
    PxNewQueue nat nat
  | PxNewSemaphore u32 u32
  | PxNewBinary
  | PxNewMutex u32
  | PxSpawn "u8 list" nat
  | PxNewTimer duration timer_mode 'cb

datatype posix_object =
    PxQueue byte_queue
  | PxSemaphore counting_semaphore_state
  | PxMutex u32
  | PxTask task_handle
  | PxTimer nat

fun posix_create ::
  "'k posix_native \<Rightarrow> (nat \<Rightarrow> bool) \<Rightarrow> 'cb posix_ctor \<Rightarrow> ('k, 'cb) posix_world
    \<Rightarrow> posix_object res \<times> ('k, 'cb) posix_world" where
  "posix_create N reserve (PxNewQueue c m) w =
     st_bind (posix_queue_new N reserve c m w) (\<lambda>q w. (Ok (PxQueue q), w))"
| "posix_create N reserve (PxNewSemaphore m i) w =
     st_bind (posix_semaphore_new N m i w) (\<lambda>s w. (Ok (PxSemaphore s), w))"
| "posix_create N reserve PxNewBinary w =
     st_bind (posix_binary_semaphore_new N w) (\<lambda>s w. (Ok (PxSemaphore s), w))"
| "posix_create N reserve (PxNewMutex v) w =
     st_bind (posix_mutex_new N v w) (\<lambda>m w. (Ok (PxMutex m), w))"
| "posix_create N reserve (PxSpawn name stack) w =
     st_bind (posix_task_spawn N name stack w) (\<lambda>t w. (Ok (PxTask t), w))"
| "posix_create N reserve (PxNewTimer p m cb) w =
     st_bind (posix_timer_new p m cb w) (\<lambda>t w. (Ok (PxTimer t), w))"

text \<open>The last owner of an object goes. The start payload and the current-task guard of a running thread own the object of
  their task beside its handles.\<close>

fun posix_destroy :: "posix_object \<Rightarrow> ('k, 'cb) posix_world \<Rightarrow> unit res \<times> ('k, 'cb) posix_world" where
  "posix_destroy (PxTimer tid) w = posix_timer_handle_drop tid w"
| "posix_destroy _ w = posix_lease_drop w"

fun posix_spawns :: "posix_object \<Rightarrow> bool" where
  "posix_spawns (PxTask t) = True"
| "posix_spawns _ = False"

section \<open>Ownership\<close>

fun timer_ids :: "posix_object list \<Rightarrow> nat list" where
  "timer_ids [] = []"
| "timer_ids (PxTimer tid # xs) = tid # timer_ids xs"
| "timer_ids (_ # xs) = timer_ids xs"

definition posix_owns :: "('k, 'cb) posix_world \<Rightarrow> posix_object list \<Rightarrow> bool" where
  "posix_owns w held \<longleftrightarrow>
     posix_state w = Running \<and> unat (posix_active_objects w) = length held
     \<and> (\<exists>g. ct_slot (px_control w) = PSlotRunning g) \<and> sv_inv (px_service w)
     \<and> 0 < sv_next_id (px_service w) \<and> live_ids (px_service w) = timer_ids held"

lemma timer_ids_append [simp]: "timer_ids (xs @ ys) = timer_ids xs @ timer_ids ys"
  by (induction xs rule: timer_ids.induct) simp_all

lemma timer_ids_other: "(\<And>tid. x \<noteq> PxTimer tid) \<Longrightarrow> timer_ids (x # xs) = timer_ids xs"
  by (cases x) auto

lemma timer_ids_remove:
  assumes "i < length held"
  shows "timer_ids held = timer_ids (take i held) @ timer_ids [held ! i] @ timer_ids (drop (Suc i) held)"
  unfolding timer_ids_append [symmetric] by (simp add: id_take_nth_drop [OF assms, symmetric])

lemma px_simps [simp]:
  "posix_state (w\<lparr>px_env := e\<rparr>) = posix_state w" "posix_state (w\<lparr>px_service := sv\<rparr>) = posix_state w"
  "posix_active_objects (w\<lparr>px_env := e\<rparr>) = posix_active_objects w"
  "posix_active_objects (w\<lparr>px_service := sv\<rparr>) = posix_active_objects w"
  by (simp_all add: posix_state_def posix_active_objects_def)

lemma posix_acquire_running:
  assumes "posix_acquire_object w = (r, w1)" and "posix_state w = Running"
  obtains (got) x where "r = Ok ()" "w1 = w\<lparr>px_lifecycle := x\<rparr>" "posix_state w1 = Running"
      "unat (posix_active_objects w1) = Suc (unat (posix_active_objects w))"
  | (refused) e where "r = Err e" "w1 = w"
proof -
  obtain x where a: "acquire (px_lifecycle w) = (r, x)" and w1: "w1 = w\<lparr>px_lifecycle := x\<rparr>"
    using assms(1) by (auto simp: posix_acquire_object_def on_posix_lifecycle_def split: prod.splits)
  show thesis
  proof (cases r)
    case (Ok u)
    with acquire_word(2) [OF a] w1 show thesis
      by (intro got [of x]) (simp_all add: posix_state_def posix_active_objects_def)
  next
    case (Err e)
    with acquire_word(3) [OF a] w1 show thesis by (intro refused) simp_all
  next
    case (Panic m)
    with acquire_word(1) [OF a] show thesis by simp
  qed
qed

lemma posix_lease_drop_running:
  assumes "posix_state w = Running" and "0 < unat (posix_active_objects w)"
  obtains x where "posix_lease_drop w = (Ok (), w\<lparr>px_lifecycle := x\<rparr>)"
    and "posix_state (w\<lparr>px_lifecycle := x\<rparr>) = Running"
    and "Suc (unat (posix_active_objects (w\<lparr>px_lifecycle := x\<rparr>))) = unat (posix_active_objects w)"
proof -
  obtain x where "lease_drop (px_lifecycle w) = (Ok (), x)" "decode_state x = Running"
      "unat (decode_count (px_lifecycle w)) = Suc (unat (decode_count x))"
    using lease_drop_word [of "px_lifecycle w"] assms
    by (auto simp: posix_state_def posix_active_objects_def)
  then show thesis
    by (intro that [of x])
      (simp_all add: posix_lease_drop_def on_posix_lifecycle_def posix_state_def posix_active_objects_def)
qed

lemma posix_owns_leased:
  assumes own: "posix_owns w held" and l: "posix_leased body w = (r, w')"
    and x: "\<And>tid. x \<noteq> PxTimer tid"
  shows "is_ok r \<Longrightarrow> posix_owns w' (held @ [x])" and "r = Err e \<Longrightarrow> posix_owns w' held"
proof -
  obtain a w1 where a: "posix_acquire_object w = (a, w1)" by (cases "posix_acquire_object w")
  have run: "posix_state w = Running" using own by (simp add: posix_owns_def)
  have "(is_ok r \<longrightarrow> posix_owns w' (held @ [x])) \<and> (\<forall>e. r = Err e \<longrightarrow> posix_owns w' held)"
  proof (cases rule: posix_acquire_running [OF a run])
    case (1 y)
    obtain b e1 where b: "body (px_env w1) = (b, e1)" by (cases "body (px_env w1)")
    let ?w2 = "w1\<lparr>px_env := e1\<rparr>"
    show ?thesis
    proof (cases b)
      case (Err z)
      obtain v where v: "posix_lease_drop ?w2 = (Ok (), ?w2\<lparr>px_lifecycle := v\<rparr>)"
        "posix_state (?w2\<lparr>px_lifecycle := v\<rparr>) = Running"
        "Suc (unat (posix_active_objects (?w2\<lparr>px_lifecycle := v\<rparr>))) = unat (posix_active_objects ?w2)"
        by (rule posix_lease_drop_running [of ?w2]) (use 1 in simp_all)
      have "r = Err z" "w' = ?w2\<lparr>px_lifecycle := v\<rparr>"
        using l a 1(1) b Err v(1) by (simp_all add: posix_leased_def)
      then show ?thesis using own 1 v(2,3) by (simp add: posix_owns_def)
    next
      case (Ok z)
      then have "r = Ok z" "w' = ?w2" using l a 1(1) b by (simp_all add: posix_leased_def)
      then show ?thesis using own 1 timer_ids_other [OF x, of "[]"] by (simp add: posix_owns_def)
    next
      case (Panic m)
      then have "r = Panic m" using l a 1(1) b by (simp add: posix_leased_def)
      then show ?thesis by simp
    qed
  next
    case (2 z)
    then have "r = Err z" "w' = w" using l a by (simp_all add: posix_leased_def)
    then show ?thesis using own by simp
  qed
  then show "is_ok r \<Longrightarrow> posix_owns w' (held @ [x])" "r = Err e \<Longrightarrow> posix_owns w' held" by blast+
qed

lemma posix_register_live:
  assumes "posix_register p m cb sv = (r, sv')" and "sv_inv sv" and "0 < sv_next_id sv"
  shows "(\<exists>tid. r = Ok tid \<and> live_ids sv' = live_ids sv @ [tid]) \<or> (\<exists>e. r = Err e \<and> sv' = sv)"
    and "sv_inv sv'" and "0 < sv_next_id sv'"
proof -
  have eq: "service_register True p m cb sv = (r, sv')"
    using assms(1,3) by (auto simp: posix_register_def service_register_def Let_def ts_new_def
        split: option.splits if_splits)
  from service_register_live [OF eq]
  show "(\<exists>tid. r = Ok tid \<and> live_ids sv' = live_ids sv @ [tid]) \<or> (\<exists>e. r = Err e \<and> sv' = sv)" by blast
  show "sv_inv sv'" by (rule service_ops_inv(6) [OF assms(2) eq])
  show "0 < sv_next_id sv'"
    using assms(1,3) by (auto simp: posix_register_def Let_def ts_new_def checked_add_def split: if_splits)
qed

lemma posix_owns_timer_new:
  assumes own: "posix_owns w held" and n: "posix_timer_new p m cb w = (r, w')"
  shows "r = Ok tid \<Longrightarrow> posix_owns w' (held @ [PxTimer tid])" and "r = Err e \<Longrightarrow> posix_owns w' held"
proof -
  obtain a w1 where a: "posix_acquire_object w = (a, w1)" by (cases "posix_acquire_object w")
  have run: "posix_state w = Running" "sv_inv (px_service w)" "0 < sv_next_id (px_service w)"
    using own by (simp_all add: posix_owns_def)
  have "(\<forall>tid. r = Ok tid \<longrightarrow> posix_owns w' (held @ [PxTimer tid])) \<and> (\<forall>e. r = Err e \<longrightarrow> posix_owns w' held)"
  proof (cases "p = duration_zero")
    case True
    then show ?thesis using n own by (auto simp: posix_timer_new_def)
  next
    case False
    show ?thesis
    proof (cases rule: posix_acquire_running [OF a run(1)])
      case (1 y)
      obtain q sv where q: "posix_register p m cb (px_service w) = (q, sv)"
        by (cases "posix_register p m cb (px_service w)")
      note reg = posix_register_live [OF q run(2,3)]
      have s: "posix_with_service (posix_register p m cb) (px_control w1) (px_service w1) = (q, sv)"
        using own q 1(2) by (auto simp: posix_owns_def posix_with_service_def)
      let ?w2 = "w1\<lparr>px_service := sv\<rparr>"
      from reg(1) show ?thesis
      proof (elim disjE exE conjE)
        fix tid assume t: "q = Ok tid" "live_ids sv = live_ids (px_service w) @ [tid]"
        have "r = Ok tid" "w' = ?w2" using n a 1(1) s t False by (simp_all add: posix_timer_new_def)
        then show ?thesis using own 1 t reg(2,3) by (simp add: posix_owns_def)
      next
        fix z assume t: "q = Err z" "sv = px_service w"
        obtain v where v: "posix_lease_drop ?w2 = (Ok (), ?w2\<lparr>px_lifecycle := v\<rparr>)"
          "posix_state (?w2\<lparr>px_lifecycle := v\<rparr>) = Running"
          "Suc (unat (posix_active_objects (?w2\<lparr>px_lifecycle := v\<rparr>))) = unat (posix_active_objects ?w2)"
          by (rule posix_lease_drop_running [of ?w2]) (use 1 in simp_all)
        have "r = Err z" "w' = ?w2\<lparr>px_lifecycle := v\<rparr>"
          using n a 1(1) s t(1) v(1) False by (simp_all add: posix_timer_new_def)
        then show ?thesis using own 1 v(2,3) t(2) by (simp add: posix_owns_def)
      qed
    next
      case (2 z)
      then have "r = Err z" "w' = w" using n a False by (simp_all add: posix_timer_new_def)
      then show ?thesis using own by simp
    qed
  qed
  then show "r = Ok tid \<Longrightarrow> posix_owns w' (held @ [PxTimer tid])" "r = Err e \<Longrightarrow> posix_owns w' held"
    by blast+
qed

lemma posix_deregister_live:
  assumes "sv_inv sv" and "tid \<in> set (live_ids sv)"
  shows "\<exists>sv'. posix_deregister tid sv = (Ok (), sv') \<and> live_ids sv' = removeAll tid (live_ids sv)
    \<and> sv_inv sv' \<and> sv_next_id sv' = sv_next_id sv"
proof -
  obtain q sv' where q: "service_deregister tid sv = (q, sv')" by (cases "service_deregister tid sv")
  note l = service_deregister_live [OF assms q] service_ops_inv(5) [OF assms(1) q]
  have "posix_deregister tid sv = (Ok (), sv') \<and> sv_next_id sv' = sv_next_id sv"
    using q l(1) by (auto simp: service_deregister_def posix_deregister_def on_entry_def
        split: option.splits)
  with l show ?thesis by blast
qed

lemma posix_owns_destroy:
  assumes own: "posix_owns w held" and i: "i < length held"
  shows "\<exists>w'. posix_destroy (held ! i) w = (Ok (), w')
    \<and> posix_owns w' (take i held @ drop (Suc i) held)"
proof -
  have run: "posix_state w = Running" "0 < unat (posix_active_objects w)" "sv_inv (px_service w)"
    using own i by (auto simp: posix_owns_def)
  note ids = timer_ids_remove [OF i]
  have lease: "\<exists>w'. posix_lease_drop (w\<lparr>px_service := sv\<rparr>) = (Ok (), w')
      \<and> posix_owns w' (take i held @ drop (Suc i) held)"
    if "sv_inv sv" "0 < sv_next_id sv" "live_ids sv = timer_ids (take i held @ drop (Suc i) held)" for sv
  proof (rule posix_lease_drop_running [of "w\<lparr>px_service := sv\<rparr>"])
    fix v
    assume v: "posix_lease_drop (w\<lparr>px_service := sv\<rparr>) = (Ok (), (w\<lparr>px_service := sv\<rparr>)\<lparr>px_lifecycle := v\<rparr>)"
      "posix_state ((w\<lparr>px_service := sv\<rparr>)\<lparr>px_lifecycle := v\<rparr>) = Running"
      "Suc (unat (posix_active_objects ((w\<lparr>px_service := sv\<rparr>)\<lparr>px_lifecycle := v\<rparr>)))
        = unat (posix_active_objects (w\<lparr>px_service := sv\<rparr>))"
    then show ?thesis using own i that by (auto simp: posix_owns_def)
  qed (use run in simp_all)
  show ?thesis
  proof (cases "\<exists>tid. held ! i = PxTimer tid")
    case True
    then obtain tid where tid: "held ! i = PxTimer tid" by blast
    have live: "live_ids (px_service w) = timer_ids (take i held) @ tid # timer_ids (drop (Suc i) held)"
      using own ids tid by (simp add: posix_owns_def)
    then obtain sv where sv: "posix_deregister tid (px_service w) = (Ok (), sv)"
      "live_ids sv = removeAll tid (live_ids (px_service w))" "sv_inv sv"
      "sv_next_id sv = sv_next_id (px_service w)"
      using posix_deregister_live [OF run(3), of tid] by auto
    have "live_ids sv = timer_ids (take i held @ drop (Suc i) held)"
      using sv(2) live live_ids_distinct [OF run(3)] by simp
    moreover have "posix_destroy (held ! i) w = posix_lease_drop (w\<lparr>px_service := sv\<rparr>)"
      using own sv(1) tid by (auto simp: posix_owns_def posix_timer_handle_drop_def posix_with_service_def)
    ultimately show ?thesis using lease [OF sv(3)] sv(4) own by (simp add: posix_owns_def)
  next
    case False
    then have "live_ids (px_service w) = timer_ids (take i held @ drop (Suc i) held)"
      using own ids timer_ids_other [of "held ! i" "[]"] by (simp add: posix_owns_def)
    moreover have "posix_destroy (held ! i) w = posix_lease_drop w"
      using False by (cases "held ! i") auto
    ultimately show ?thesis using lease [of "px_service w"] own by (simp add: posix_owns_def)
  qed
qed

lemma posix_owns_shutdown:
  assumes own: "posix_owns w held"
  shows "fst (posix_shutdown False RetOk w) = (if held = [] then Ok () else Err Busy)"
proof -
  obtain r x where b: "begin_shutdown (px_lifecycle w) = (r, x)" by (cases "begin_shutdown (px_lifecycle w)")
  note bs = begin_shutdown_word [OF b]
  have run: "decode_state (px_lifecycle w) = Running" "unat (decode_count (px_lifecycle w)) = length held"
    using own by (simp_all add: posix_owns_def posix_state_def posix_active_objects_def)
  show ?thesis
  proof (cases held)
    case Nil
    then have r: "r = Ok ()" "decode_state x = ShuttingDown" "decode_count x = 0" using bs run by simp_all
    obtain y where y: "shutdown_commit x = (Ok (), y)" using shutdown_word(1) [OF r(2,3)] by blast
    have "sv_timers (retain_live (px_service w)) = []"
      using own Nil by (simp add: posix_owns_def live_ids_def retain_live_def)
    then show ?thesis
      using own b r(1) y Nil
      by (auto simp: posix_owns_def posix_shutdown_def on_posix_lifecycle_def posix_service_shutdown_def
          posix_shutdown_request_def posix_shutdown_finish_def)
  next
    case (Cons z zs)
    then have "r = Err Busy" using bs run by simp
    then show ?thesis using b Cons by (simp add: posix_shutdown_def on_posix_lifecycle_def)
  qed
qed

lemma st_bind_wrap:
  assumes "st_bind p (\<lambda>x w. (Ok (f x), w)) = (r, w')"
  shows "r = Ok y \<Longrightarrow> \<exists>x. p = (Ok x, w') \<and> y = f x" and "r = Err e \<Longrightarrow> p = (Err e, w')"
  using assms by (cases p; cases "fst p"; auto)+

lemma posix_owns_wrapped:
  assumes own: "posix_owns w held" and c: "st_bind p (\<lambda>x w. (Ok (f x), w)) = (r, w')"
    and p: "p = posix_leased body w \<or> (\<exists>e. p = (Err e, w))" and f: "\<And>u tid. f u \<noteq> PxTimer tid"
  shows "r = Ok x \<Longrightarrow> posix_owns w' (held @ [x])" and "r = Err e \<Longrightarrow> posix_owns w' held"
proof -
  obtain q v where q: "posix_leased body w = (q, v)" by (cases "posix_leased body w")
  note s = st_bind_wrap [OF c] and l = posix_owns_leased [OF own q f]
  assume "r = Ok x"
  then obtain u where "p = (Ok u, w')" "x = f u" using s(1) by blast
  then show "posix_owns w' (held @ [x])" using p q l(1) [of u] by auto
next
  obtain q v where q: "posix_leased body w = (q, v)" by (cases "posix_leased body w")
  note l = posix_owns_leased(2) [OF own q f]
  assume "r = Err e"
  then have "p = (Err e, w')" using st_bind_wrap(2) [OF c] by blast
  then show "posix_owns w' held" using p q l own by auto
qed

lemma posix_new_cases:
  "\<exists>body. posix_queue_new N reserve c m w = posix_leased body w \<or> (\<exists>e. posix_queue_new N reserve c m w = (Err e, w))"
  "\<exists>body. posix_semaphore_new N a b w = posix_leased body w \<or> (\<exists>e. posix_semaphore_new N a b w = (Err e, w))"
  "\<exists>body. posix_mutex_new N v w = posix_leased body w"
  "\<exists>body. posix_task_spawn N name n w = posix_leased body w \<or> (\<exists>e. posix_task_spawn N name n w = (Err e, w))"
  by (auto simp: posix_queue_new_def validate_queue_capacity_def validate_queue_message_size_def
      posix_semaphore_new_def cs_new_def posix_mutex_new_def posix_task_spawn_def validate_task_config_def)

lemma posix_owns_create:
  assumes own: "posix_owns w held" and c: "posix_create N reserve c w = (r, w')"
  shows "r = Ok x \<Longrightarrow> posix_owns w' (held @ [x])" and "r = Err e \<Longrightarrow> posix_owns w' held"
proof -
  have "(\<forall>x. r = Ok x \<longrightarrow> posix_owns w' (held @ [x])) \<and> (\<forall>e. r = Err e \<longrightarrow> posix_owns w' held)"
  proof (cases c)
    case (PxNewQueue a b)
    obtain body where "posix_queue_new N reserve a b w = posix_leased body w
        \<or> (\<exists>e. posix_queue_new N reserve a b w = (Err e, w))" using posix_new_cases(1) by blast
    then show ?thesis
      using posix_owns_wrapped [OF own c [unfolded PxNewQueue posix_create.simps]] by simp
  next
    case (PxNewSemaphore a b)
    obtain body where "posix_semaphore_new N a b w = posix_leased body w
        \<or> (\<exists>e. posix_semaphore_new N a b w = (Err e, w))" using posix_new_cases(2) by blast
    then show ?thesis
      using posix_owns_wrapped [OF own c [unfolded PxNewSemaphore posix_create.simps]] by simp
  next
    case PxNewBinary
    obtain body where "posix_semaphore_new N 1 0 w = posix_leased body w
        \<or> (\<exists>e. posix_semaphore_new N 1 0 w = (Err e, w))" using posix_new_cases(2) by blast
    then show ?thesis
      using posix_owns_wrapped [OF own c [unfolded PxNewBinary posix_create.simps posix_binary_semaphore_new_def]]
      by simp
  next
    case (PxNewMutex v)
    obtain body where "posix_mutex_new N v w = posix_leased body w" using posix_new_cases(3) [of N v w] by blast
    then show ?thesis
      using posix_owns_wrapped [OF own c [unfolded PxNewMutex posix_create.simps], of body] by blast
  next
    case (PxSpawn name n)
    obtain body where "posix_task_spawn N name n w = posix_leased body w
        \<or> (\<exists>e. posix_task_spawn N name n w = (Err e, w))" using posix_new_cases(4) by blast
    then show ?thesis
      using posix_owns_wrapped [OF own c [unfolded PxSpawn posix_create.simps]] by simp
  next
    case (PxNewTimer p m cb)
    note s = st_bind_wrap [OF c [unfolded PxNewTimer posix_create.simps]]
    show ?thesis
    proof (intro conjI allI impI)
      fix x assume "r = Ok x"
      then obtain t where "posix_timer_new p m cb w = (Ok t, w')" "x = PxTimer t" using s(1) by blast
      then show "posix_owns w' (held @ [x])" using posix_owns_timer_new(1) [OF own] by blast
    next
      fix e assume "r = Err e"
      then show "posix_owns w' held" using s(2) posix_owns_timer_new(2) [OF own] by blast
    qed
  qed
  then show "r = Ok x \<Longrightarrow> posix_owns w' (held @ [x])" "r = Err e \<Longrightarrow> posix_owns w' held" by blast+
qed

interpretation posixobj: owned_objects "posix_create N reserve" posix_destroy "posix_shutdown False RetOk"
  posix_owns for N reserve
  by unfold_locales (blast intro: posix_owns_create posix_owns_destroy posix_owns_shutdown)+

lemma posix_initialize_owns:
  assumes "posix_initialize N (posix_world_initial k) = (Ok (), w)"
  shows "posix_owns (w :: ('k, 'cb) posix_world) []"
proof -
  let ?w = "posix_world_initial k :: ('k, 'cb) posix_world"
  have u: "decode_state (px_lifecycle ?w) = Uninitialized" "lc_word_ok (px_lifecycle ?w)"
    by (simp_all add: posix_world_initial_def lc_word_ok_def)
  obtain x y z where x: "begin_initialize (px_lifecycle ?w) = (Ok (), x)" "initialize_commit x = (Ok (), y)"
      "decode_state y = Running" "decode_count y = 0" "initialize_drop x = (Ok (), z)"
    using initialize_word [OF u] by blast
  obtain r v where s: "posix_service_initialize N (?w\<lparr>px_lifecycle := x\<rparr>) = (r, v)"
    by (cases "posix_service_initialize N (?w\<lparr>px_lifecycle := x\<rparr>)")
  have same: "px_lifecycle v = x"
    using s by (auto simp: posix_service_initialize_def split: prod.splits if_splits)
  have r: "r = Ok ()" "w = v\<lparr>px_lifecycle := y\<rparr>"
    using assms x same s by (auto simp: posix_initialize_def on_posix_lifecycle_def split: res.splits)
  have "(\<exists>g. ct_slot (px_control v) = PSlotRunning g) \<and> px_service v = service_state_new"
    using s r(1) by (auto simp: posix_service_initialize_def posix_world_initial_def timer_control_new_def
        posix_timer_initialize_def split: prod.splits if_splits option.splits res.splits)
  then show ?thesis
    using r x by (auto simp: posix_owns_def posix_state_def posix_active_objects_def service_state_new_def
        sv_inv_def live_ids_def)
qed

section \<open>Correctness\<close>

text \<open>C26. From a successful initialisation on, whatever sequence of constructors (queues, semaphores,
  mutexes, tasks, timers, with any of the native calls failing), clones and drops of handles and ends of tasks is run:
  the runtime's object count is the number of objects that still have an owner, a handle or their running
  thread, the timer service holds exactly the timers among them, and \<open>shutdown\<close> succeeds when there is none and is refused with
  \<open>Busy\<close> otherwise. A task whose handles are all dropped keeps the runtime busy until its thread has ended.\<close>

theorem posix_shutdown_iff_no_objects:
  assumes "posix_initialize N (posix_world_initial k) = (Ok (), w)"
    and "run_handles (posix_create N reserve) posix_destroy posix_spawns w [] ops = Some (w', alive)"
  shows "unat (posix_active_objects w') = length alive \<and> list_all has_owner alive
    \<and> live_ids (px_service w') = timer_ids (map fst alive)
    \<and> fst (posix_shutdown False RetOk w') = (if alive = [] then Ok () else Err Busy)"
proof -
  obtain ops' where run: "run_objects (posix_create N reserve) posix_destroy w [] ops' = Some (w', map fst alive)"
      and own: "list_all has_owner alive"
    using run_handles_objects [OF assms(2)] by auto
  note init = posix_initialize_owns [OF assms(1)]
  have "posix_owns w' (map fst alive)" by (rule posixobj.run_owns [OF init run])
  then show ?thesis using own posixobj.run_shutdown [OF init run] by (simp add: posix_owns_def)
qed

definition posix_all_ok :: "unit posix_native" where
  "posix_all_ok = \<lparr>pn_mutex = \<lambda>k. ((RetOk, RetOk, RetOk), k), pn_condvar = \<lambda>k. ((RetOk, RetOk, RetOk), k),
     pn_thread = \<lambda>n k. ((RetOk, RetOk, RetOk), k), pn_tls_key = \<lambda>k. (Ok (), k),
     pn_startup = \<lambda>k. (Ok (), k), pn_stack_min = 16384\<rparr>"

definition posix_demo_world :: "(unit, nat) posix_world" where
  "posix_demo_world = \<lparr>px_lifecycle = 2, px_control = \<lparr>ct_slot = PSlotRunning 1, ct_next_generation = 2\<rparr>,
     px_service = service_state_new, px_env = \<lparr>pe_native = (), pe_next_handle = 1, pe_live = 0\<rparr>\<rparr>"

lemma posix_demo_init: "posix_initialize posix_all_ok (posix_world_initial ()) = (Ok (), posix_demo_world)"
proof -
  have l: "begin_initialize lifecycle_new = (Ok (), 1)" "initialize_commit 1 = (Ok (), 2)" by code_simp+
  show ?thesis
    by (simp add: l posix_initialize_def on_posix_lifecycle_def posix_world_initial_def posix_service_initialize_def
        timer_control_new_def posix_all_ok_def posix_mutex_create_def posix_condvar_create_def
        posix_thread_spawn_def check_ret_def on_posix_native_def posix_timer_initialize_def checked_add_def
        u64_max_def posix_demo_world_def)
qed

text \<open>A timer is created, a task is spawned, and the handle of the task is dropped while it runs.\<close>

definition posix_demo_ops :: "nat posix_ctor handle_op list" where
  "posix_demo_ops = [New (PxNewTimer (of_nanos 5) OneShot 7), New (PxSpawn [65] 65536), DropHandle 1]"

lemma posix_demo_run:
  "\<exists>w' t. run_handles (posix_create posix_all_ok (\<lambda>_. True)) posix_destroy posix_spawns posix_demo_world [] posix_demo_ops
     = Some (w', [(PxTimer 1, 1, False), (PxTask t, 0, True)])"
proof -
  have l: "acquire 2 = (Ok (), 6)" "acquire 6 = (Ok (), 10)" by code_simp+
  have d: "of_nanos 5 \<noteq> duration_zero" by (simp add: duration_eq_iff as_nanos_of_nanos duration_limit_def nanos_per_sec_def)
  have v: "validate_task_config [65] 65536 = Ok ()" by (simp add: validate_task_config_def task_name_max_bytes_def)
  show ?thesis
    by (simp add: l d v posix_demo_ops_def posix_leased_def posix_acquire_object_def
        on_posix_lifecycle_def posix_demo_world_def posix_all_ok_def posix_mutex_create_def posix_condvar_create_def check_ret_def
        on_posix_native_def posix_timer_new_def posix_with_service_def posix_register_def service_state_new_def
        checked_add_def u64_max_def Let_def ts_new_def posix_task_spawn_def posix_task_body_def drop_owner_def
        posix_thread_spawn_def posix_allocate_task_handle_def handle_from_raw_def ok_or_def)
qed

theorem posix_shutdown_iff_no_objects_witness:
  "\<exists>(w :: (unit, nat) posix_world) w' t. posix_initialize posix_all_ok (posix_world_initial ()) = (Ok (), w)
     \<and> run_handles (posix_create posix_all_ok (\<lambda>_. True)) posix_destroy posix_spawns w [] posix_demo_ops
         = Some (w', [(PxTimer 1, 1, False), (PxTask t, 0, True)])
     \<and> live_ids (px_service w') = [1] \<and> fst (posix_shutdown False RetOk w') = Err Busy"
proof -
  obtain w' t where run: "run_handles (posix_create posix_all_ok (\<lambda>_. True)) posix_destroy posix_spawns posix_demo_world []
      posix_demo_ops = Some (w', [(PxTimer 1, 1, False), (PxTask t, 0, True)])"
    using posix_demo_run by blast
  note p = posix_shutdown_iff_no_objects [OF posix_demo_init run]
  show ?thesis
    by (intro exI [of _ posix_demo_world] exI [of _ w'] exI [of _ t]) (use p run posix_demo_init in simp)
qed

end
