(* ===== verification/Posix_Task.thy ===== *)
theory Posix_Task
  imports Posix_Condvar
begin

text \<open>
  Task completion in the POSIX backend (src/crates/osal-backend-posix/src/task.rs, sys/task.rs): the
  start-up handshake between \<open>spawn\<close> and the trampoline, and the join state machine that turns one
  \<open>pthread_join\<close> into a repeatable join. What a call does while it holds the task's mutex is one
  function; the step relation interleaves the child thread, the spawner (thread 0) and the joins of
  any number of threads. The result of \<open>pthread_join\<close> on a thread that has ended is the argument \<open>jn\<close>,
  the broadcast of the condition variable the argument \<open>bcast\<close>.
\<close>

section \<open>States and sections\<close>

datatype join_state = JRunning | JFinished exit_code | JJoining exit_code | JJoined exit_code

datatype startup_state = StartPending | StartReady | StartFailed error

text \<open>A \<open>PosixThread\<close> is its optional identifier; \<open>try_join\<close> takes it on success.\<close>

type_synonym posix_thread = "nat option"

definition try_join :: "posix_ret \<Rightarrow> posix_thread \<Rightarrow> unit res \<times> posix_thread" where
  "try_join rc th =
     (case th of
        None \<Rightarrow> (Err (Internal ''already joined''), None)
      | Some _ \<Rightarrow>
          if rc \<noteq> RetOk then (Err (Internal ''pthread_join failed''), th) else (Ok (), None))"

datatype startup_end = StartWait | StartReturn "unit res"

definition publish_startup :: "unit res \<Rightarrow> startup_state" where
  "publish_startup r = (case r of Err e \<Rightarrow> StartFailed e | _ \<Rightarrow> StartReady)"

definition wait_startup :: "startup_state \<Rightarrow> startup_end" where
  "wait_startup s =
     (case s of
        StartPending \<Rightarrow> StartWait
      | StartReady \<Rightarrow> StartReturn (Ok ())
      | StartFailed e \<Rightarrow> StartReturn (Err e))"

text \<open>How a pass of \<open>join_inner\<close> ends: with a result, by going on to \<open>do_pthread_join\<close>, or in a wait.\<close>

datatype join_end = JoinReturn "exit_code res" | JoinReap | JoinWait "timespec option"

definition join_nowait :: "join_state \<Rightarrow> exit_code res" where
  "join_nowait s = (case s of JJoined c \<Rightarrow> Ok c | JFinished c \<Rightarrow> Ok c | _ \<Rightarrow> Err Timeout)"

definition join_iter :: "timespec option \<Rightarrow> join_state \<Rightarrow> join_end \<times> join_state" where
  "join_iter dl s =
     (case s of
        JJoined c \<Rightarrow> (JoinReturn (Ok c), s)
      | JFinished c \<Rightarrow> (JoinReap, JJoining c)
      | _ \<Rightarrow> (JoinWait dl, s))"

definition join_inner ::
  "task_handle option \<Rightarrow> task_handle \<Rightarrow> posix_ret \<times> timespec \<Rightarrow> timeout \<Rightarrow> join_state
    \<Rightarrow> join_end \<times> join_state" where
  "join_inner current h g t s =
     (if current = Some h then (JoinReturn (Err Busy), s)
      else case t of
        NoWait \<Rightarrow> (JoinReturn (join_nowait s), s)
      | After d \<Rightarrow>
          (case checked_abs_deadline g d of
             Ok ts \<Rightarrow> join_iter (Some ts) s
           | Err e \<Rightarrow> (JoinReturn (Err e), s)
           | Panic m \<Rightarrow> (JoinReturn (Panic m), s))
      | Forever \<Rightarrow> join_iter None s)"

text \<open>The exit code a finished reaper publishes.\<close>

definition join_code :: "join_state \<Rightarrow> exit_code" where
  "join_code s = (case s of JFinished c \<Rightarrow> c | JJoining c \<Rightarrow> c | JJoined c \<Rightarrow> c | JRunning \<Rightarrow> exit_success)"

definition do_pthread_join ::
  "posix_ret \<Rightarrow> posix_thread option \<Rightarrow> join_state \<Rightarrow> exit_code res \<times> posix_thread option \<times> join_state" where
  "do_pthread_join rc thread s =
     (case (case thread of
              Some t \<Rightarrow> (case try_join rc t of (r, t') \<Rightarrow> (r, Some t'))
            | None \<Rightarrow> (Ok (), None)) of
        (Ok _, _) \<Rightarrow> (Ok (join_code s), None, JJoined (join_code s))
      | (Err e, thread') \<Rightarrow> (Err e, thread', JFinished (join_code s))
      | (Panic m, thread') \<Rightarrow> (Panic m, thread', s))"

section \<open>Interleaving\<close>

text \<open>The trampoline: before the thread-local value is installed, in the entry, after it, after the live
  token is dropped, after \<open>Finished\<close> is published, after the broadcast, and ended; a failed start goes
  through \<open>CFailed\<close>.\<close>

datatype child_pc = CBegin | CEntry | CEntryDone | CTokenDropped | CFinished | CWoken | CFailed | CExited

datatype task_pc =
    JIdle
  | SpawnStore
  | SpawnWait
  | SpawnReap error
  | SpawnDone "unit res"
  | JCall timeout
  | JLoop "timespec option"
  | JReap
  | JReturned "exit_code res"

definition task_idle :: "task_pc \<Rightarrow> bool" where
  "task_idle pc = (case pc of JIdle \<Rightarrow> True | SpawnDone _ \<Rightarrow> True | JReturned _ \<Rightarrow> True | _ \<Rightarrow> False)"

definition join_section ::
  "task_handle option \<Rightarrow> task_handle \<Rightarrow> posix_ret \<times> timespec \<Rightarrow> task_pc \<Rightarrow> join_state
    \<Rightarrow> (join_end \<times> join_state) option" where
  "join_section current h g pc s =
     (case pc of
        JCall t \<Rightarrow> Some (join_inner current h g t s)
      | JLoop dl \<Rightarrow> Some (join_iter dl s)
      | _ \<Rightarrow> None)"

definition join_after_wait :: "posix_ret \<Rightarrow> timespec option \<Rightarrow> task_pc" where
  "join_after_wait rc dl =
     (case cond_wait rc of Ok _ \<Rightarrow> JLoop dl | Err e \<Rightarrow> JReturned (Err e) | Panic m \<Rightarrow> JReturned (Panic m))"

definition after_join_end :: "join_end \<Rightarrow> task_pc" where
  "after_join_end e = (case e of JoinReturn r \<Rightarrow> JReturned r | JoinReap \<Rightarrow> JReap | JoinWait dl \<Rightarrow> JLoop dl)"

text \<open>\<open>kw_handle\<close>: \<open>spawn\<close> has returned the task, so joins can be called; \<open>kw_joins\<close> counts the successful
  calls of \<open>pthread_join\<close>.\<close>

record posix_task_world =
  kw_join :: join_state
  kw_startup :: startup_state
  kw_thread :: "posix_thread option"
  kw_child :: child_pc
  kw_live :: usize
  kw_blocked :: "nat set"
  kw_pcs :: "nat \<Rightarrow> task_pc"
  kw_handle :: bool
  kw_joins :: nat
  kw_panicked :: bool

inductive posix_task_step ::
  "(nat set \<Rightarrow> posix_ret \<Rightarrow> nat set \<Rightarrow> bool) \<Rightarrow> (posix_ret \<Rightarrow> bool) \<Rightarrow> task_handle
    \<Rightarrow> (nat \<Rightarrow> task_handle option) \<Rightarrow> posix_task_world \<Rightarrow> posix_task_world \<Rightarrow> bool"
  for bcast jn h current where
  child_ready: "posix_task_step bcast jn h current w
      (w\<lparr>kw_child := CEntry, kw_startup := publish_startup (Ok ()), kw_blocked := B,
         kw_panicked := (kw_panicked w \<or> \<not> is_ok (check_ret rc))\<rparr>)"
  if "kw_child w = CBegin" "bcast (kw_blocked w) rc B"
| child_failed: "posix_task_step bcast jn h current w
      (w\<lparr>kw_child := CFailed, kw_startup := publish_startup (Err e), kw_blocked := B,
         kw_panicked := (kw_panicked w \<or> \<not> is_ok (check_ret rc))\<rparr>)"
  if "kw_child w = CBegin" "bcast (kw_blocked w) rc B"
| child_fail_exit: "posix_task_step bcast jn h current w
      (w\<lparr>kw_child := CExited, kw_live := kw_live w - 1\<rparr>)"
  if "kw_child w = CFailed"
| child_entry: "posix_task_step bcast jn h current w (w\<lparr>kw_child := CEntryDone\<rparr>)"
  if "kw_child w = CEntry"
| child_token: "posix_task_step bcast jn h current w
      (w\<lparr>kw_child := CTokenDropped, kw_live := kw_live w - 1\<rparr>)"
  if "kw_child w = CEntryDone"
| child_finish: "posix_task_step bcast jn h current w
      (w\<lparr>kw_child := CFinished, kw_join := JFinished exit_success\<rparr>)"
  if "kw_child w = CTokenDropped"
| child_wake: "posix_task_step bcast jn h current w (w\<lparr>kw_child := CWoken, kw_blocked := B\<rparr>)"
  if "kw_child w = CFinished" "bcast (kw_blocked w) rc B"
| child_exit: "posix_task_step bcast jn h current w (w\<lparr>kw_child := CExited\<rparr>)"
  if "kw_child w = CWoken"
| spawn_store: "posix_task_step bcast jn h current w
      (w\<lparr>kw_thread := Some (Some tid), kw_pcs := (kw_pcs w)(0 := SpawnWait)\<rparr>)"
  if "kw_pcs w 0 = SpawnStore"
| spawn_block: "posix_task_step bcast jn h current w (w\<lparr>kw_blocked := insert 0 (kw_blocked w)\<rparr>)"
  if "kw_pcs w 0 = SpawnWait" "0 \<notin> kw_blocked w" "wait_startup (kw_startup w) = StartWait"
| spawn_woken: "posix_task_step bcast jn h current w (w\<lparr>kw_blocked := kw_blocked w - {0}\<rparr>)"
  if "kw_pcs w 0 = SpawnWait" "0 \<in> kw_blocked w"
| spawn_ok: "posix_task_step bcast jn h current w
      (w\<lparr>kw_pcs := (kw_pcs w)(0 := SpawnDone (Ok ())), kw_handle := True\<rparr>)"
  if "kw_pcs w 0 = SpawnWait" "0 \<notin> kw_blocked w" "wait_startup (kw_startup w) = StartReturn (Ok ())"
| spawn_err: "posix_task_step bcast jn h current w (w\<lparr>kw_pcs := (kw_pcs w)(0 := SpawnReap e)\<rparr>)"
  if "kw_pcs w 0 = SpawnWait" "0 \<notin> kw_blocked w" "wait_startup (kw_startup w) = StartReturn (Err e)"
| spawn_reap: "posix_task_step bcast jn h current w
      (w\<lparr>kw_thread := None, kw_pcs := (kw_pcs w)(0 := SpawnDone (Err e)),
         kw_joins := (if is_ok r then Suc (kw_joins w) else kw_joins w),
         kw_panicked := (kw_panicked w \<or> \<not> is_ok r)\<rparr>)"
  if "kw_pcs w 0 = SpawnReap e" "rc = RetOk \<longrightarrow> kw_child w = CExited" "jn rc" "kw_thread w = Some t"
    "try_join rc t = (r, t')"
| call_join: "posix_task_step bcast jn h current w (w\<lparr>kw_pcs := (kw_pcs w)(i := JCall t)\<rparr>)"
  if "task_idle (kw_pcs w i)" "kw_handle w"
| do_join: "posix_task_step bcast jn h current w
      (w\<lparr>kw_join := s, kw_pcs := (kw_pcs w)(i := after_join_end e),
         kw_blocked := (case e of JoinWait _ \<Rightarrow> insert i (kw_blocked w) | _ \<Rightarrow> kw_blocked w)\<rparr>)"
  if "i \<notin> kw_blocked w" "ts_valid now"
    "join_section (current i) h (RetOk, now) (kw_pcs w i) (kw_join w) = Some (e, s)"
| join_woken: "posix_task_step bcast jn h current w
      (w\<lparr>kw_blocked := kw_blocked w - {i}, kw_pcs := (kw_pcs w)(i := join_after_wait rc dl)\<rparr>)"
  if "i \<in> kw_blocked w" "kw_pcs w i = JLoop dl" "wait_returns dl now rc"
| join_reap: "posix_task_step bcast jn h current w
      (w\<lparr>kw_join := s, kw_thread := thread, kw_pcs := (kw_pcs w)(i := JReturned r), kw_blocked := B,
         kw_joins := (if kw_thread w \<noteq> None \<and> is_ok r then Suc (kw_joins w) else kw_joins w)\<rparr>)"
  if "kw_pcs w i = JReap" "rc = RetOk \<longrightarrow> kw_child w = CExited" "jn rc"
    "do_pthread_join rc (kw_thread w) (kw_join w) = (r, thread, s)" "bcast (kw_blocked w) rc' B"

text \<open>The state when \<open>pthread_create\<close> has succeeded; \<open>n\<close> tasks were live before.\<close>

definition posix_task_init :: "usize \<Rightarrow> posix_task_world" where
  "posix_task_init n =
     \<lparr>kw_join = JRunning, kw_startup = StartPending, kw_thread = None, kw_child = CBegin, kw_live = n + 1,
      kw_blocked = {}, kw_pcs = (\<lambda>_. JIdle)(0 := SpawnStore), kw_handle = False, kw_joins = 0,
      kw_panicked = False\<rparr>"

definition posix_task_reachable ::
  "(nat set \<Rightarrow> posix_ret \<Rightarrow> nat set \<Rightarrow> bool) \<Rightarrow> (posix_ret \<Rightarrow> bool) \<Rightarrow> task_handle
    \<Rightarrow> (nat \<Rightarrow> task_handle option) \<Rightarrow> usize \<Rightarrow> posix_task_world \<Rightarrow> bool" where
  "posix_task_reachable bcast jn h current n w \<longleftrightarrow>
     (posix_task_step bcast jn h current)\<^sup>*\<^sup>* (posix_task_init n) w"

section \<open>Invariant\<close>

definition finished_states :: "join_state set" where
  "finished_states = {JFinished exit_success, JJoining exit_success, JJoined exit_success}"

definition child_ok :: "usize \<Rightarrow> child_pc \<Rightarrow> startup_state \<Rightarrow> join_state \<Rightarrow> usize \<Rightarrow> bool" where
  "child_ok n pc st j live \<longleftrightarrow>
     (case pc of
        CBegin \<Rightarrow> st = StartPending \<and> j = JRunning \<and> live = n + 1
      | CEntry \<Rightarrow> st = StartReady \<and> j = JRunning \<and> live = n + 1
      | CEntryDone \<Rightarrow> st = StartReady \<and> j = JRunning \<and> live = n + 1
      | CTokenDropped \<Rightarrow> st = StartReady \<and> j = JRunning \<and> live = n
      | CFinished \<Rightarrow> st = StartReady \<and> j \<in> finished_states \<and> live = n
      | CWoken \<Rightarrow> st = StartReady \<and> j \<in> finished_states \<and> live = n
      | CFailed \<Rightarrow> (\<exists>e. st = StartFailed e) \<and> j = JRunning \<and> live = n + 1
      | CExited \<Rightarrow> live = n \<and> (if st = StartReady then j \<in> finished_states
                                  else (\<exists>e. st = StartFailed e) \<and> j = JRunning))"

definition spawn_inv :: "posix_task_world \<Rightarrow> bool" where
  "spawn_inv w \<longleftrightarrow>
     (if kw_handle w then kw_startup w = StartReady \<and> (\<forall>e. kw_pcs w 0 \<noteq> SpawnReap e)
        \<and> kw_pcs w 0 \<noteq> SpawnStore \<and> kw_pcs w 0 \<noteq> SpawnWait
        \<and> (if \<exists>c. kw_join w = JJoined c then kw_thread w = None \<and> kw_joins w = 1
           else (\<exists>tid. kw_thread w = Some (Some tid)) \<and> kw_joins w = 0)
      else (\<forall>i. i \<noteq> 0 \<longrightarrow> kw_pcs w i = JIdle) \<and> (\<forall>c. kw_join w \<noteq> JJoining c \<and> kw_join w \<noteq> JJoined c)
        \<and> (case kw_pcs w 0 of
             SpawnStore \<Rightarrow> kw_thread w = None \<and> kw_joins w = 0
           | SpawnWait \<Rightarrow> (\<exists>tid. kw_thread w = Some (Some tid)) \<and> kw_joins w = 0
           | SpawnReap e \<Rightarrow> (\<exists>tid. kw_thread w = Some (Some tid)) \<and> kw_joins w = 0 \<and> kw_startup w = StartFailed e
           | SpawnDone r \<Rightarrow> kw_joins w \<le> 1
           | _ \<Rightarrow> False))"

definition waiter_ok :: "join_state \<Rightarrow> child_pc \<Rightarrow> startup_state \<Rightarrow> task_pc \<Rightarrow> bool" where
  "waiter_ok j c st pc \<longleftrightarrow>
     (case pc of
        JLoop _ \<Rightarrow> j = JRunning \<or> (\<exists>x. j = JJoining x) \<or> c = CFinished
      | SpawnWait \<Rightarrow> st = StartPending
      | _ \<Rightarrow> False)"

definition blocked_ok :: "posix_task_world \<Rightarrow> bool" where
  "blocked_ok w \<longleftrightarrow>
     (\<forall>i\<in>kw_blocked w. waiter_ok (kw_join w) (kw_child w) (kw_startup w) (kw_pcs w i))"

definition reap_ok :: "posix_task_world \<Rightarrow> bool" where
  "reap_ok w \<longleftrightarrow>
     (if \<exists>c. kw_join w = JJoining c then \<exists>i. \<forall>j. kw_pcs w j = JReap \<longleftrightarrow> j = i
      else \<forall>i. kw_pcs w i \<noteq> JReap)"

definition returned_ok :: "posix_task_world \<Rightarrow> bool" where
  "returned_ok w \<longleftrightarrow>
     (\<forall>i r. kw_pcs w i = JReturned r \<longrightarrow> \<not> is_panic r
        \<and> (\<forall>c. r = Ok c \<longrightarrow> c = exit_success \<and> kw_join w \<noteq> JRunning))"

definition kt_inv :: "usize \<Rightarrow> posix_task_world \<Rightarrow> bool" where
  "kt_inv n w \<longleftrightarrow> child_ok n (kw_child w) (kw_startup w) (kw_join w) (kw_live w) \<and> spawn_inv w \<and> blocked_ok w \<and> reap_ok w \<and> returned_ok w"

lemmas kt_defs = child_ok_def spawn_inv_def blocked_ok_def reap_ok_def returned_ok_def
  finished_states_def waiter_ok_def

lemma join_section_cases:
  assumes "join_section cur h (RetOk, now) pc s = Some (e, s1)" and "ts_valid now"
  obtains (returned) r where "e = JoinReturn r" "s1 = s" "\<not> is_panic r"
      "\<And>c. r = Ok c \<Longrightarrow> s = JJoined c \<or> s = JFinished c"
  | (reap) c where "e = JoinReap" "s = JFinished c" "s1 = JJoining c"
  | (wait) dl where "e = JoinWait dl" "s1 = s" "s = JRunning \<or> (\<exists>c. s = JJoining c)"
  using assms deadline_no_panic [OF assms(2)]
  by (auto simp: join_section_def join_inner_def join_nowait_def join_iter_def
      split: task_pc.splits if_splits timeout.splits res.splits join_state.splits)

lemma join_section_handle:
  assumes "join_section cur h g (kw_pcs w i) s = Some x" and "spawn_inv w"
  shows "kw_handle w"
  using assms by (cases "i = 0") (auto simp: join_section_def spawn_inv_def split: task_pc.splits if_splits)

section \<open>Preservation\<close>

lemma kt_inv_returned:
  assumes inv: "kt_inv n w" and h: "kw_handle w" and i: "i \<notin> kw_blocked w" and pc: "kw_pcs w i \<noteq> JReap"
    and r: "\<not> is_panic r" "\<And>c. r = Ok c \<Longrightarrow> c = exit_success \<and> kw_join w \<noteq> JRunning"
  shows "kt_inv n (w\<lparr>kw_pcs := (kw_pcs w)(i := JReturned r)\<rparr>)"
proof -
  have "spawn_inv (w\<lparr>kw_pcs := (kw_pcs w)(i := JReturned r)\<rparr>)"
    using inv h by (simp add: kt_inv_def spawn_inv_def)
  moreover have "blocked_ok (w\<lparr>kw_pcs := (kw_pcs w)(i := JReturned r)\<rparr>)"
    using inv i by (auto simp: kt_inv_def blocked_ok_def)
  moreover have "reap_ok (w\<lparr>kw_pcs := (kw_pcs w)(i := JReturned r)\<rparr>)"
    using inv pc unfolding kt_inv_def reap_ok_def by (auto split: if_splits)
  moreover have "returned_ok (w\<lparr>kw_pcs := (kw_pcs w)(i := JReturned r)\<rparr>)"
    using inv r by (auto simp: kt_inv_def returned_ok_def)
  ultimately show ?thesis using inv by (simp add: kt_inv_def)
qed

lemma kt_inv_claim:
  assumes inv: "kt_inv n w" and h: "kw_handle w" and i: "i \<notin> kw_blocked w" and s: "kw_join w = JFinished c"
  shows "kt_inv n (w\<lparr>kw_join := JJoining c, kw_pcs := (kw_pcs w)(i := JReap)\<rparr>)"
proof -
  let ?w = "w\<lparr>kw_join := JJoining c, kw_pcs := (kw_pcs w)(i := JReap)\<rparr>"
  have "child_ok n (kw_child ?w) (kw_startup ?w) (kw_join ?w) (kw_live ?w)"
    using inv s by (auto simp: kt_inv_def child_ok_def finished_states_def split: child_pc.splits if_splits)
  moreover have "spawn_inv ?w" using inv h s by (simp add: kt_inv_def spawn_inv_def)
  moreover have "blocked_ok ?w"
    using inv i by (auto simp: kt_inv_def blocked_ok_def waiter_ok_def split: task_pc.splits)
  moreover have "reap_ok ?w" using inv s by (auto simp: kt_inv_def reap_ok_def)
  moreover have "returned_ok ?w" using inv s by (auto simp: kt_inv_def returned_ok_def)
  ultimately show ?thesis by (simp add: kt_inv_def)
qed

lemma kt_inv_wait:
  assumes inv: "kt_inv n w" and h: "kw_handle w" and pc: "kw_pcs w i \<noteq> JReap"
    and s: "kw_join w = JRunning \<or> (\<exists>c. kw_join w = JJoining c)"
  shows "kt_inv n (w\<lparr>kw_pcs := (kw_pcs w)(i := JLoop dl), kw_blocked := insert i (kw_blocked w)\<rparr>)"
proof -
  let ?w = "w\<lparr>kw_pcs := (kw_pcs w)(i := JLoop dl), kw_blocked := insert i (kw_blocked w)\<rparr>"
  have "child_ok n (kw_child ?w) (kw_startup ?w) (kw_join ?w) (kw_live ?w)"
    using inv by (simp add: kt_inv_def)
  moreover have "spawn_inv ?w" using inv h by (simp add: kt_inv_def spawn_inv_def)
  moreover have "blocked_ok ?w" using inv s by (auto simp: kt_inv_def blocked_ok_def waiter_ok_def)
  moreover have "reap_ok ?w" using inv pc unfolding kt_inv_def reap_ok_def by (auto split: if_splits)
  moreover have "returned_ok ?w" using inv by (auto simp: kt_inv_def returned_ok_def)
  ultimately show ?thesis by (simp add: kt_inv_def)
qed

lemma finished_code:
  assumes "kt_inv n w"
  shows "kw_join w = JJoined c \<or> kw_join w = JFinished c \<or> kw_join w = JJoining c \<Longrightarrow> c = exit_success"
  using assms by (auto simp: kt_inv_def child_ok_def finished_states_def split: child_pc.splits if_splits)

lemma kt_inv_unblock: "kt_inv n w \<Longrightarrow> kt_inv n (w\<lparr>kw_blocked := kw_blocked w - S\<rparr>)"
  by (auto simp: kt_inv_def spawn_inv_def blocked_ok_def reap_ok_def returned_ok_def split: task_pc.splits if_splits)

lemma kt_inv_woken:
  assumes inv: "kt_inv n w" and pc: "kw_pcs w i = JLoop dl" and rc: "wait_returns dl now rc"
  shows "kt_inv n (w\<lparr>kw_blocked := kw_blocked w - {i}, kw_pcs := (kw_pcs w)(i := join_after_wait rc dl)\<rparr>)"
proof -
  let ?w = "w\<lparr>kw_blocked := kw_blocked w - {i}\<rparr>"
  have un: "kt_inv n ?w" by (rule kt_inv_unblock [OF inv])
  have h: "kw_handle ?w"
    using inv pc by (cases "i = 0") (auto simp: kt_inv_def spawn_inv_def split: if_splits)
  have "join_after_wait rc dl = kw_pcs w i \<or> join_after_wait rc dl = JReturned (Err Timeout)"
    using rc pc by (auto simp: wait_returns_def join_after_wait_def cond_wait_def)
  then show ?thesis
  proof
    assume "join_after_wait rc dl = kw_pcs w i"
    then show ?thesis using un by (simp del: fun_upd_apply add: fun_upd_idem)
  next
    assume "join_after_wait rc dl = JReturned (Err Timeout)"
    then show ?thesis using kt_inv_returned [OF un h, of i "Err Timeout"] pc by simp
  qed
qed

lemma kt_inv_call:
  assumes inv: "kt_inv n w" and h: "kw_handle w" and pc: "task_idle (kw_pcs w i)"
  shows "kt_inv n (w\<lparr>kw_pcs := (kw_pcs w)(i := JCall t)\<rparr>)"
proof -
  let ?w = "w\<lparr>kw_pcs := (kw_pcs w)(i := JCall t)\<rparr>"
  have "i \<notin> kw_blocked w" "kw_pcs w i \<noteq> JReap"
    using inv pc by (auto simp: kt_inv_def blocked_ok_def waiter_ok_def task_idle_def split: task_pc.splits)
  then have "blocked_ok ?w" "reap_ok ?w"
    using inv by (auto simp: kt_inv_def blocked_ok_def reap_ok_def split: if_splits)
  moreover have "spawn_inv ?w" using inv h by (simp add: kt_inv_def spawn_inv_def)
  moreover have "returned_ok ?w" using inv by (simp add: kt_inv_def returned_ok_def)
  ultimately show ?thesis using inv by (simp add: kt_inv_def)
qed

lemma kt_inv_do_join:
  assumes inv: "kt_inv n w" and i: "i \<notin> kw_blocked w" and now: "ts_valid now"
    and e: "join_section cur h (RetOk, now) (kw_pcs w i) (kw_join w) = Some (e, s)"
  shows "kt_inv n (w\<lparr>kw_join := s, kw_pcs := (kw_pcs w)(i := after_join_end e),
         kw_blocked := (case e of JoinWait _ \<Rightarrow> insert i (kw_blocked w) | _ \<Rightarrow> kw_blocked w)\<rparr>)"
proof -
  have h: "kw_handle w" using join_section_handle [OF e] inv by (simp add: kt_inv_def)
  have pc: "kw_pcs w i \<noteq> JReap" using e by (auto simp: join_section_def)
  have same: "w\<lparr>kw_join := kw_join w\<rparr> = w" "v\<lparr>kw_blocked := kw_blocked v\<rparr> = v" for v by simp_all
  from e now show ?thesis
  proof (cases rule: join_section_cases)
    case (returned r)
    then have "kt_inv n (w\<lparr>kw_pcs := (kw_pcs w)(i := JReturned r)\<rparr>)"
      using finished_code [OF inv] by (intro kt_inv_returned [OF inv h i pc]) auto
    then show ?thesis using returned by (simp add: after_join_end_def)
  next
    case (reap c)
    then show ?thesis using kt_inv_claim [OF inv h i reap(2)] by (simp add: after_join_end_def)
  next
    case (wait dl)
    then show ?thesis using kt_inv_wait [OF inv h pc wait(3)] by (simp add: after_join_end_def)
  qed
qed

lemma spawning:
  assumes inv: "kt_inv n w" and pc: "kw_pcs w 0 = SpawnStore \<or> kw_pcs w 0 = SpawnWait \<or> (\<exists>e. kw_pcs w 0 = SpawnReap e)"
  shows "\<not> kw_handle w" and "kw_blocked w \<subseteq> {0}" and "0 \<in> kw_blocked w \<Longrightarrow> kw_pcs w 0 = SpawnWait"
proof -
  show h: "\<not> kw_handle w" using assms by (auto simp: kt_inv_def spawn_inv_def split: if_splits)
  have waits: "waiter_ok (kw_join w) (kw_child w) (kw_startup w) (kw_pcs w i)" if "i \<in> kw_blocked w" for i
    using inv that by (simp add: kt_inv_def blocked_ok_def)
  show "kw_blocked w \<subseteq> {0}"
  proof
    fix i assume "i \<in> kw_blocked w"
    with waits [OF this] inv h show "i \<in> {0}"
      by (cases "i = 0") (auto simp: kt_inv_def spawn_inv_def waiter_ok_def)
  qed
  show "kw_pcs w 0 = SpawnWait" if "0 \<in> kw_blocked w"
    using waits [OF that] pc by (auto simp: waiter_ok_def)
qed

text \<open>The spawner's moves while no other thread has the task.\<close>

lemma kt_inv_spawner:
  assumes inv: "kt_inv n w" and h: "\<not> kw_handle w" and pc: "pc \<noteq> JReap" "\<And>r. pc \<noteq> JReturned r"
    and s: "spawn_inv w'"
    and same: "kw_child w' = kw_child w" "kw_startup w' = kw_startup w" "kw_join w' = kw_join w"
      "kw_live w' = kw_live w" "kw_pcs w' = (kw_pcs w)(0 := pc)"
    and b: "kw_blocked w' = {} \<or> kw_blocked w' = {0} \<and> pc = SpawnWait \<and> kw_startup w = StartPending"
  shows "kt_inv n w'"
proof -
  have "blocked_ok w'"
    using b unfolding blocked_ok_def waiter_ok_def same by (elim disjE conjE) simp_all
  moreover have "\<not> (\<exists>c. kw_join w = JJoining c)" "kw_pcs w j \<noteq> JReap" for j
    using inv h by (simp_all add: kt_inv_def spawn_inv_def reap_ok_def)
  then have "reap_ok w'" using pc(1) same by (simp add: reap_ok_def)
  moreover have "returned_ok w'" using inv pc(2) same by (simp add: kt_inv_def returned_ok_def)
  ultimately show ?thesis using inv s same by (simp add: kt_inv_def)
qed

lemma waiter_ok_move:
  "waiter_ok j c st pc \<Longrightarrow> j' = j \<and> c \<noteq> CFinished \<or> c' = CFinished \<Longrightarrow> waiter_ok j' c' st pc"
  by (auto simp: waiter_ok_def split: task_pc.splits)

text \<open>A move of the child: it publishes its start once, and \<open>Finished\<close> once.\<close>

lemma kt_inv_child_move:
  assumes inv: "kt_inv n w" and c: "child_ok n (kw_child w') (kw_startup w') (kw_join w') (kw_live w')"
    and same: "kw_pcs w' = kw_pcs w" "kw_thread w' = kw_thread w" "kw_handle w' = kw_handle w" "kw_joins w' = kw_joins w"
    and st: "kw_startup w' = kw_startup w \<or> kw_startup w = StartPending"
    and j: "kw_join w' = kw_join w \<or> kw_join w = JRunning \<and> kw_join w' = JFinished exit_success"
    and b: "kw_blocked w' = {} \<or> kw_blocked w' = kw_blocked w \<and> kw_startup w' = kw_startup w
      \<and> (kw_join w' = kw_join w \<and> kw_child w \<noteq> CFinished \<or> kw_child w' = CFinished)"
  shows "kt_inv n w'"
proof -
  have jn: "(\<exists>x. kw_join w' = JJoining x) = (\<exists>x. kw_join w = JJoining x)"
    "(\<exists>x. kw_join w' = JJoined x) = (\<exists>x. kw_join w = JJoined x)" using j by (elim disjE conjE; simp)+
  have "spawn_inv w'"
  proof (cases "kw_handle w")
    case True
    then show ?thesis using inv st jn same by (simp add: kt_inv_def spawn_inv_def)
  next
    case False
    then show ?thesis
      using inv st jn same unfolding kt_inv_def spawn_inv_def by (cases "kw_pcs w 0") auto
  qed
  moreover have "blocked_ok w'"
    using b
  proof (elim disjE conjE)
    assume "kw_blocked w' = {}"
    then show ?thesis by (simp add: blocked_ok_def)
  qed (use inv same in \<open>auto simp: kt_inv_def blocked_ok_def elim!: waiter_ok_move\<close>)
  moreover have "reap_ok w'" using inv jn same by (simp add: kt_inv_def reap_ok_def)
  moreover have "returned_ok w'" using inv j same by (auto simp: kt_inv_def returned_ok_def)
  ultimately show ?thesis using c by (simp add: kt_inv_def)
qed

lemma spawn_inv_spawning:
  assumes "kt_inv n w" and "\<not> kw_handle w"
  shows "i \<noteq> 0 \<Longrightarrow> kw_pcs w i = JIdle" and "kw_join w \<noteq> JJoining c" and "kw_join w \<noteq> JJoined c"
    and "kw_pcs w 0 = SpawnStore \<Longrightarrow> kw_joins w = 0"
    and "kw_pcs w 0 = SpawnWait \<Longrightarrow> (\<exists>tid. kw_thread w = Some (Some tid)) \<and> kw_joins w = 0"
    and "kw_pcs w 0 = SpawnReap e \<Longrightarrow>
      (\<exists>tid. kw_thread w = Some (Some tid)) \<and> kw_joins w = 0 \<and> kw_startup w = StartFailed e"
  using assms by (simp_all add: kt_inv_def spawn_inv_def)

context pthread_cond
begin

lemma kt_inv_reap:
  assumes inv: "kt_inv n w" and i: "kw_pcs w i = JReap" and c: "rc = RetOk \<longrightarrow> kw_child w = CExited"
    and d: "do_pthread_join rc (kw_thread w) (kw_join w) = (r, thread, s)" and b: "bcast (kw_blocked w) rc' B"
  shows "kt_inv n (w\<lparr>kw_join := s, kw_thread := thread, kw_pcs := (kw_pcs w)(i := JReturned r), kw_blocked := B,
         kw_joins := (if kw_thread w \<noteq> None \<and> is_ok r then Suc (kw_joins w) else kw_joins w)\<rparr>)"
proof -
  have j: "kw_join w = JJoining exit_success"
    using inv i by (auto simp: kt_inv_def kt_defs split: child_pc.splits if_splits)
  have h: "kw_handle w"
    using inv i by (cases "i = 0") (auto simp: kt_inv_def spawn_inv_def split: if_splits)
  obtain tid where t: "kw_thread w = Some (Some tid)" and k: "kw_joins w = 0"
    using inv h j by (auto simp: kt_inv_def spawn_inv_def)
  have others: "kw_pcs w k = JReap \<longleftrightarrow> k = i" for k using inv i j by (auto simp: kt_inv_def reap_ok_def)
    show ?thesis
  proof (cases "rc = RetOk")
    case True
    then have "r = Ok exit_success" "thread = None" "s = JJoined exit_success"
      using d t j by (auto simp: do_pthread_join_def try_join_def join_code_def)
    then show ?thesis
      using inv h t k others bcast_all [OF b] True c j unfolding kt_inv_def
      by (auto simp: kt_defs split: child_pc.splits if_splits)
  next
    case False
    then have "r = Err (Internal ''pthread_join failed'')" "thread = Some (Some tid)" "s = JFinished exit_success"
      using d t j by (auto simp: do_pthread_join_def try_join_def join_code_def)
    then show ?thesis
      using inv h t k others bcast_all [OF b] j unfolding kt_inv_def
      by (auto simp: kt_defs split: child_pc.splits if_splits)
  qed
qed

lemma kt_inv_step:
  assumes "posix_task_step bcast jn h current w w'" and inv: "kt_inv n w"
  shows "kt_inv n w'"
  using assms(1)
proof cases
  case (child_ready B rc)
  show ?thesis
    by (rule kt_inv_child_move [OF inv])
      (use inv child_ready bcast_all in \<open>auto simp: kt_inv_def child_ok_def publish_startup_def\<close>)
next
  case (child_failed e B rc)
  show ?thesis
    by (rule kt_inv_child_move [OF inv])
      (use inv child_failed bcast_all in \<open>auto simp: kt_inv_def child_ok_def publish_startup_def\<close>)
next
  case (child_wake B rc)
  show ?thesis
    by (rule kt_inv_child_move [OF inv])
      (use inv child_wake bcast_all in \<open>auto simp: kt_inv_def child_ok_def\<close>)
next
  case (do_join i now e s)
  show ?thesis unfolding do_join(1) by (rule kt_inv_do_join [OF inv do_join(2-4)])
next
  case (join_reap i rc r thread s rc' B)
  show ?thesis unfolding join_reap(1) by (rule kt_inv_reap [OF inv join_reap(2,3,5,6)])
next
  case (join_woken i dl now rc)
  show ?thesis unfolding join_woken(1) by (rule kt_inv_woken [OF inv join_woken(3,4)])
next
  case (call_join i t)
  show ?thesis unfolding call_join(1) by (rule kt_inv_call [OF inv call_join(3,2)])
next
  case spawn_woken
  show ?thesis unfolding spawn_woken(1) by (rule kt_inv_unblock [OF inv])
next
  case (spawn_store tid)
  note sp = spawning [OF inv, OF disjI1, OF spawn_store(2)]
  then have b: "kw_blocked w = {}" using spawn_store(2) by auto
  show ?thesis
    by (rule kt_inv_spawner [OF inv sp(1), of SpawnWait])
      (use spawn_store sp(1) spawn_inv_spawning [OF inv sp(1)] b in \<open>simp_all add: spawn_inv_def\<close>)
next
  case spawn_block
  note sp = spawning [OF inv, OF disjI2, OF disjI1, OF spawn_block(2)]
  have b: "kw_startup w = StartPending" using spawn_block(4) by (auto simp: wait_startup_def split: startup_state.splits)
  show ?thesis
    by (rule kt_inv_spawner [OF inv sp(1), of SpawnWait])
      (use spawn_block sp(1,2) spawn_inv_spawning [OF inv sp(1)] b in \<open>auto simp: spawn_inv_def\<close>)
next
  case spawn_ok
  note sp = spawning [OF inv, OF disjI2, OF disjI1, OF spawn_ok(2)]
  then have b: "kw_blocked w = {}" using spawn_ok(3) by auto
  have "kw_startup w = StartReady" using spawn_ok(4) by (auto simp: wait_startup_def split: startup_state.splits)
  then show ?thesis
    by (intro kt_inv_spawner [OF inv sp(1), of "SpawnDone (Ok ())"])
      (use spawn_ok sp(1) spawn_inv_spawning [OF inv sp(1)] b in \<open>simp_all add: spawn_inv_def\<close>)
next
  case (spawn_err e)
  note sp = spawning [OF inv, OF disjI2, OF disjI1, OF spawn_err(2)]
  then have b: "kw_blocked w = {}" using spawn_err(3) by auto
  have "kw_startup w = StartFailed e" using spawn_err(4) by (auto simp: wait_startup_def split: startup_state.splits)
  then show ?thesis
    by (intro kt_inv_spawner [OF inv sp(1), of "SpawnReap e"])
      (use spawn_err sp(1) spawn_inv_spawning [OF inv sp(1)] b in \<open>simp_all add: spawn_inv_def\<close>)
next
  case (spawn_reap e rc t r t')
  note sp = spawning [OF inv, OF disjI2, OF disjI2, OF exI, OF spawn_reap(2)]
  then have b: "kw_blocked w = {}" using spawn_reap(2) by auto
  show ?thesis
    by (rule kt_inv_spawner [OF inv sp(1), of "SpawnDone (Err e)"])
      (use spawn_reap(1,2) sp(1) spawn_inv_spawning [OF inv sp(1)] b in \<open>simp_all add: spawn_inv_def\<close>)
qed (rule kt_inv_child_move [OF inv]; use inv in \<open>auto simp: kt_inv_def child_ok_def finished_states_def\<close>)+

lemma kt_inv_reachable: "posix_task_reachable bcast jn h current n w \<Longrightarrow> kt_inv n w"
  unfolding posix_task_reachable_def
proof (induction rule: rtranclp_induct)
  case base
  show ?case
    by (auto simp: kt_inv_def child_ok_def spawn_inv_def blocked_ok_def reap_ok_def returned_ok_def posix_task_init_def)
next
  case (step w w')
  show ?case by (rule kt_inv_step [OF step(2,3)])
qed

text \<open>Nobody panics when \<open>pthread_join\<close> works on a joinable thread.\<close>

lemma task_no_panic:
  assumes "posix_task_reachable bcast jn h current n w" and "\<And>rc. jn rc \<Longrightarrow> rc = RetOk"
  shows "\<not> kw_panicked w"
  using assms(1) unfolding posix_task_reachable_def
proof (induction rule: rtranclp_induct)
  case base
  show ?case by (simp add: posix_task_init_def)
next
  case (step w w')
  have inv: "kt_inv n w"
    by (rule kt_inv_reachable) (use step(1) in \<open>simp add: posix_task_reachable_def\<close>)
  have reap: "is_ok r" if "kw_pcs w 0 = SpawnReap e" "kw_thread w = Some t" "try_join rc t = (r, t')" "jn rc"
    for e t rc r t'
    using that assms(2) spawn_inv_spawning(6) [OF inv spawning(1) [OF inv], of e] by (auto simp: try_join_def)
  from step(2) show ?case
    by cases (use step(3) reap in \<open>auto dest!: bcast_all\<close>)
qed

end

section \<open>Properties\<close>

text \<open>C9. POSIX join is repeatable and safe: under every interleaving of the child, the spawner and any
  number of joining threads, with spurious wake-ups, timeouts and failing calls of \<open>pthread_join\<close>, at
  most one thread is in \<open>pthread_join\<close>, it holds the unconsumed thread handle while the state is
  \<open>Joining\<close>, and \<open>pthread_join\<close> succeeds at most once; a join that returned \<open>Ok\<close> returned the exit code
  of a task whose entry has ended and which is no longer counted live; no join panics.\<close>

theorem posix_join_once:
  assumes "pthread_cond sig bcast" and "posix_task_reachable bcast jn h current n w"
  shows "kw_joins w \<le> 1
    \<and> (\<forall>i. kw_pcs w i = JReap \<longrightarrow> (\<exists>tid. kw_thread w = Some (Some tid)) \<and> (\<exists>c. kw_join w = JJoining c)
          \<and> (\<forall>j. kw_pcs w j = JReap \<longrightarrow> j = i))
    \<and> (\<forall>i c. kw_pcs w i = JReturned (Ok c) \<longrightarrow>
          c = exit_success \<and> kw_live w = n \<and> kw_child w \<in> {CFinished, CWoken, CExited})
    \<and> (\<forall>i m. kw_pcs w i \<noteq> JReturned (Panic m))"
proof (intro conjI allI impI)
  have inv: "kt_inv n w" by (rule pthread_cond.kt_inv_reachable [OF assms])
  show "kw_joins w \<le> 1"
    using inv by (auto simp: kt_inv_def spawn_inv_def split: if_splits task_pc.splits)
  show "kw_pcs w i \<noteq> JReturned (Panic m)" for i m
    using inv by (fastforce simp: kt_inv_def returned_ok_def)
  fix i c assume ret: "kw_pcs w i = JReturned (Ok c)"
  then have j: "c = exit_success" "kw_join w \<noteq> JRunning" using inv by (auto simp: kt_inv_def returned_ok_def)
  then show "c = exit_success" "kw_live w = n" "kw_child w \<in> {CFinished, CWoken, CExited}"
    using inv by (auto simp: kt_inv_def child_ok_def split: child_pc.splits if_splits)
next
  have inv: "kt_inv n w" by (rule pthread_cond.kt_inv_reachable [OF assms])
  fix i assume i: "kw_pcs w i = JReap"
  show j: "\<exists>c. kw_join w = JJoining c" using inv i by (auto simp: kt_inv_def reap_ok_def split: if_splits)
  show "j = i" if "kw_pcs w j = JReap" for j
    using inv i that by (auto simp: kt_inv_def reap_ok_def split: if_splits)
  show "\<exists>tid. kw_thread w = Some (Some tid)"
    using inv j by (auto simp: kt_inv_def spawn_inv_def split: if_splits)
qed

text \<open>C10. No POSIX joiner is forgotten: once the child thread has ended and every other thread has
  returned or is blocked, nobody is blocked, whatever joins timed out, were woken spuriously or had their
  \<open>pthread_join\<close> fail in between; and when \<open>pthread_join\<close> works nothing has panicked.\<close>

theorem posix_join_wakes_all:
  assumes "pthread_cond sig bcast" and "posix_task_reachable bcast jn h current n w"
    and "kw_child w = CExited" and "\<And>i. task_idle (kw_pcs w i) \<or> i \<in> kw_blocked w"
  shows "kw_blocked w = {} \<and> ((\<forall>rc. jn rc \<longrightarrow> rc = RetOk) \<longrightarrow> \<not> kw_panicked w)"
proof -
  have inv: "kt_inv n w" by (rule pthread_cond.kt_inv_reachable [OF assms(1,2)])
  have "\<not> waiter_ok (kw_join w) (kw_child w) (kw_startup w) (kw_pcs w i)" for i
  proof
    assume a: "waiter_ok (kw_join w) (kw_child w) (kw_startup w) (kw_pcs w i)"
    have "kw_join w \<noteq> JJoining c" for c
    proof
      assume "kw_join w = JJoining c"
      then obtain k where k: "kw_pcs w k = JReap" using inv by (auto simp: kt_inv_def reap_ok_def)
      with assms(4) [of k] have "k \<in> kw_blocked w" by (auto simp: task_idle_def)
      with inv k show False by (auto simp: kt_inv_def blocked_ok_def waiter_ok_def)
    qed
    moreover have "kw_join w \<noteq> JRunning" if "kw_handle w"
      using inv that assms(3) by (auto simp: kt_inv_def child_ok_def spawn_inv_def finished_states_def split: if_splits)
    moreover have "kw_handle w" if "kw_pcs w i = JLoop dl" for dl
      using inv that by (cases "i = 0") (auto simp: kt_inv_def spawn_inv_def split: if_splits)
    ultimately show False
      using a inv assms(3) by (auto simp: kt_inv_def child_ok_def waiter_ok_def split: task_pc.splits if_splits)
  qed
  then have "kw_blocked w = {}" using inv by (auto simp: kt_inv_def blocked_ok_def)
  then show ?thesis using pthread_cond.task_no_panic [OF assms(1,2)] by simp
qed

text \<open>A task that runs to its end, and a thread that joins it without waiting.\<close>

definition posix_demo_task :: posix_task_world where
  "posix_demo_task =
     \<lparr>kw_join = JFinished exit_success, kw_startup = StartReady, kw_thread = Some (Some 7), kw_child = CExited,
      kw_live = 0, kw_blocked = {},
      kw_pcs = (\<lambda>_. JIdle)(0 := SpawnDone (Ok ()), 1 := JReturned (Ok exit_success)),
      kw_handle = True, kw_joins = 0, kw_panicked = False\<rparr>"

lemma posix_demo_task_reachable:
  "posix_task_reachable posix_broadcast (\<lambda>rc. rc = RetOk) (TaskHandle 1) (\<lambda>_. None) 0 posix_demo_task"
proof -
  let ?step = "posix_task_step posix_broadcast (\<lambda>rc. rc = RetOk) (TaskHandle 1) (\<lambda>_. None)"
  let ?w0 = "posix_task_init 0"
  let ?w1 = "?w0\<lparr>kw_thread := Some (Some 7), kw_pcs := (kw_pcs ?w0)(0 := SpawnWait)\<rparr>"
  let ?w2 = "?w1\<lparr>kw_child := CEntry, kw_startup := publish_startup (Ok ()), kw_blocked := {},
         kw_panicked := (kw_panicked ?w1 \<or> \<not> is_ok (check_ret RetOk))\<rparr>"
  let ?w3 = "?w2\<lparr>kw_pcs := (kw_pcs ?w2)(0 := SpawnDone (Ok ())), kw_handle := True\<rparr>"
  let ?w4 = "?w3\<lparr>kw_child := CEntryDone\<rparr>"
  let ?w5 = "?w4\<lparr>kw_child := CTokenDropped, kw_live := kw_live ?w4 - 1\<rparr>"
  let ?w6 = "?w5\<lparr>kw_child := CFinished, kw_join := JFinished exit_success\<rparr>"
  let ?w7 = "?w6\<lparr>kw_child := CWoken, kw_blocked := {}\<rparr>"
  let ?w8 = "?w7\<lparr>kw_child := CExited\<rparr>"
  let ?w9 = "?w8\<lparr>kw_pcs := (kw_pcs ?w8)(1 := JCall NoWait)\<rparr>"
  let ?e = "JoinReturn (Ok exit_success)"
  let ?w10 = "?w9\<lparr>kw_join := JFinished exit_success, kw_pcs := (kw_pcs ?w9)(1 := after_join_end ?e),
         kw_blocked := (case ?e of JoinWait _ \<Rightarrow> insert 1 (kw_blocked ?w9) | _ \<Rightarrow> kw_blocked ?w9)\<rparr>"
  have 1: "?step ?w0 ?w1" by (rule posix_task_step.spawn_store) (simp add: posix_task_init_def)
  have 2: "?step ?w1 ?w2" by (rule posix_task_step.child_ready) (simp_all add: posix_task_init_def posix_broadcast_def)
  have 3: "?step ?w2 ?w3"
    by (rule posix_task_step.spawn_ok) (simp_all add: posix_task_init_def publish_startup_def wait_startup_def)
  have 4: "?step ?w3 ?w4" by (rule posix_task_step.child_entry) simp
  have 5: "?step ?w4 ?w5" by (rule posix_task_step.child_token) simp
  have 6: "?step ?w5 ?w6" by (rule posix_task_step.child_finish) simp
  have 7: "?step ?w6 ?w7" by (rule posix_task_step.child_wake [where rc = RetOk]) (simp_all add: posix_broadcast_def)
  have 8: "?step ?w7 ?w8" by (rule posix_task_step.child_exit) simp
  have 9: "?step ?w8 ?w9" by (rule posix_task_step.call_join) (simp_all add: posix_task_init_def task_idle_def)
  have 10: "?step ?w9 ?w10"
    by (rule posix_task_step.do_join [where now = "\<lparr>tv_sec = 0, tv_nsec = 0\<rparr>"])
      (simp_all add: ts_valid_def time_t_max_def join_section_def join_inner_def join_nowait_def)
  have "?step\<^sup>*\<^sup>* ?w0 ?w10" using 1 2 3 4 5 6 7 8 9 10 by (meson rtranclp.rtrancl_into_rtrancl rtranclp.rtrancl_refl)
  moreover have "?w10 = posix_demo_task"
    by (simp add: posix_demo_task_def posix_task_init_def publish_startup_def after_join_end_def)
  ultimately show ?thesis by (simp add: posix_task_reachable_def)
qed

theorem posix_join_once_witness:
  "kw_pcs posix_demo_task 1 = JReturned (Ok exit_success) \<and> kw_live posix_demo_task = 0
   \<and> kw_joins posix_demo_task \<le> 1"
proof -
  note p = posix_join_once [OF anysig.pthread_cond_axioms posix_demo_task_reachable]
  have pc: "kw_pcs posix_demo_task 1 = JReturned (Ok exit_success)" by (simp add: posix_demo_task_def)
  show ?thesis using p pc by blast
qed

theorem posix_join_wakes_all_witness: "kw_blocked posix_demo_task = {} \<and> \<not> kw_panicked posix_demo_task"
proof -
  note p = posix_join_wakes_all [OF anysig.pthread_cond_axioms posix_demo_task_reachable]
  have "kw_child posix_demo_task = CExited" "task_idle (kw_pcs posix_demo_task i)" for i
    by (simp_all add: posix_demo_task_def task_idle_def)
  then show ?thesis using p by simp
qed

end
