(* ===== verification/Demo_Packet.thy ===== *)
theory Demo_Packet
  imports Osal_Types
begin

text \<open>
  The messages of the pipeline demo (src/examples/osal-demo/src/pipeline_demo.rs): sixteen bytes that
  hold a producer number, a sequence number and their exclusive or, little endian.
\<close>

unbundle bit_operations_syntax

definition demo_packet_size :: nat where
  "demo_packet_size = 16"

text \<open>\<open>u32::to_le_bytes\<close> and \<open>u32::from_le_bytes\<close>.\<close>

definition to_le_bytes :: "u32 \<Rightarrow> u8 list" where
  "to_le_bytes x = [ucast x, ucast (drop_bit 8 x), ucast (drop_bit 16 x), ucast (drop_bit 24 x)]"

definition from_le_bytes :: "u8 \<Rightarrow> u8 \<Rightarrow> u8 \<Rightarrow> u8 \<Rightarrow> u32" where
  "from_le_bytes a b c d =
     ucast a OR push_bit 8 (ucast b) OR push_bit 16 (ucast c) OR push_bit 24 (ucast d)"

text \<open>The loop of \<open>build_packet\<close>, which runs \<open>i\<close> from 0 to 3.\<close>

definition fill_packet :: "u8 list \<Rightarrow> u8 list \<Rightarrow> u8 list \<Rightarrow> nat \<Rightarrow> u8 list \<Rightarrow> u8 list" where
  "fill_packet pid seq cks i buf = buf[i := pid ! i, 4 + i := seq ! i, 8 + i := cks ! i]"

definition build_packet :: "u32 \<Rightarrow> u32 \<Rightarrow> u8 list" where
  "build_packet producer_id sequence_id =
     (let checksum = producer_id XOR sequence_id in
      fold (fill_packet (to_le_bytes producer_id) (to_le_bytes sequence_id) (to_le_bytes checksum))
        [0, 1, 2, 3] (replicate demo_packet_size 0))"

definition slice_get :: "u8 list \<Rightarrow> nat \<Rightarrow> u8 option" where
  "slice_get buf i = (if i < length buf then Some (buf ! i) else None)"

definition read_u32_le :: "u8 list \<Rightarrow> nat \<Rightarrow> u32 option" where
  "read_u32_le buf offset =
     (case (slice_get buf offset, slice_get buf (offset + 1), slice_get buf (offset + 2), slice_get buf (offset + 3)) of
        (Some a, Some b, Some c, Some d) \<Rightarrow> Some (from_le_bytes a b c d)
      | _ \<Rightarrow> None)"

definition verify_packet :: "u8 list \<Rightarrow> bool" where
  "verify_packet buf =
     (case (read_u32_le buf 0, read_u32_le buf 4, read_u32_le buf 8) of
        (Some pid, Some seq, Some checksum) \<Rightarrow> checksum = (pid XOR seq)
      | _ \<Rightarrow> False)"

section \<open>Properties\<close>

lemma le_bytes_roundtrip:
  "from_le_bytes (ucast x) (ucast (drop_bit 8 x)) (ucast (drop_bit 16 x)) (ucast (drop_bit 24 x)) = x"
proof (rule bit_word_eqI)
  fix n assume "n < LENGTH(32)"
  then show "bit (from_le_bytes (ucast x) (ucast (drop_bit 8 x)) (ucast (drop_bit 16 x)) (ucast (drop_bit 24 x))) n
      = bit x n"
    by (cases "n < 16"; cases "n < 24") (auto simp: from_le_bytes_def bit_simps)
qed

lemma length_le_bytes [simp]: "length (to_le_bytes x) = 4"
  by (simp add: to_le_bytes_def)

lemma read_le_bytes: "read_u32_le (xs @ to_le_bytes v @ ys) (length xs) = Some v"
  by (simp add: read_u32_le_def slice_get_def nth_append to_le_bytes_def le_bytes_roundtrip)

lemma build_packet_bytes:
  "build_packet p s = to_le_bytes p @ to_le_bytes s @ to_le_bytes (p XOR s) @ [0, 0, 0, 0]"
  by (simp add: build_packet_def fill_packet_def demo_packet_size_def to_le_bytes_def numeral_eq_Suc)

lemma length_build_packet [simp]: "length (build_packet p s) = demo_packet_size"
  by (simp add: build_packet_bytes to_le_bytes_def demo_packet_size_def)

lemma read_build_packet:
  "read_u32_le (build_packet p s) 0 = Some p" "read_u32_le (build_packet p s) 4 = Some s"
  "read_u32_le (build_packet p s) 8 = Some (p XOR s)"
  using read_le_bytes [of "[]" p] read_le_bytes [of "to_le_bytes p" s]
    read_le_bytes [of "to_le_bytes p @ to_le_bytes s" "p XOR s"]
  by (simp_all add: build_packet_bytes length_le_bytes)

lemma verify_build_packet: "verify_packet (build_packet p s)"
  by (simp add: verify_packet_def read_build_packet)

lemma read_u32_le_Some: "offset + 4 \<le> length buf \<Longrightarrow> \<exists>v. read_u32_le buf offset = Some v"
  by (auto simp: read_u32_le_def slice_get_def)

end
