(* ===== verification/Demo_Runtime.thy ===== *)
theory Demo_Runtime
  imports Osal_Types
begin

text \<open>
  The frame of the demo programs (src/examples/osal-demo/src/error.rs and runtime.rs): the error type,
  \<open>with_runtime\<close>, which initialises the library, runs a body and shuts the library down, and the bounded wait
  for a shutdown that is still refused. The library's calls are arguments; the locale \<open>settling_runtime\<close>
  states what is relied on. \<open>None\<close> is a call that does not return: a loop without end or a panic.
\<close>

section \<open>Errors\<close>

datatype demo_error = DemoOsal string error | DemoCheck string | DemoWorker u32

section \<open>Shutdown\<close>

definition settle_timeout :: duration where "settle_timeout = of_nanos 1000000000"

definition settle_poll :: duration where "settle_poll = of_nanos 2000000"

definition shutdown_failed :: "error \<Rightarrow> demo_error" where
  "shutdown_failed e = DemoOsal ''runtime.shutdown'' e"

partial_function (option) settle_loop ::
  "('w \<Rightarrow> unit res \<times> 'w) \<Rightarrow> ('w \<Rightarrow> duration \<times> 'w) \<Rightarrow> (duration \<Rightarrow> 'w \<Rightarrow> 'w option) \<Rightarrow> duration \<Rightarrow> 'w
    \<Rightarrow> ((demo_error + unit) \<times> 'w) option" where
  "settle_loop shutdown now delay deadline w =
     (case shutdown w of
        (Ok _, w1) \<Rightarrow> Some (Inr (), w1)
      | (Err e, w1) \<Rightarrow>
          if e = Busy then
            (case now w1 of (t, w2) \<Rightarrow>
               if t < deadline
               then Option.bind (delay settle_poll w2) (\<lambda>w3. settle_loop shutdown now delay deadline w3)
               else Some (Inl (shutdown_failed e), w2))
          else Some (Inl (shutdown_failed e), w1)
      | (Panic _, _) \<Rightarrow> None)"

text \<open>The sum of the clock and the timeout panics when it overflows.\<close>

definition shutdown_settled ::
  "('w \<Rightarrow> unit res \<times> 'w) \<Rightarrow> ('w \<Rightarrow> duration \<times> 'w) \<Rightarrow> (duration \<Rightarrow> 'w \<Rightarrow> 'w option) \<Rightarrow> 'w
    \<Rightarrow> ((demo_error + unit) \<times> 'w) option" where
  "shutdown_settled shutdown now delay w =
     (case now w of (t, w1) \<Rightarrow>
        Option.bind (dur_checked_add t settle_timeout) (\<lambda>deadline. settle_loop shutdown now delay deadline w1))"

definition demo_with_runtime ::
  "('w \<Rightarrow> unit res \<times> 'w) \<Rightarrow> ('w \<Rightarrow> unit res \<times> 'w) \<Rightarrow> ('w \<Rightarrow> duration \<times> 'w) \<Rightarrow> (duration \<Rightarrow> 'w \<Rightarrow> 'w option)
    \<Rightarrow> ('w \<Rightarrow> ((demo_error + 'v) \<times> 'w) option) \<Rightarrow> 'w \<Rightarrow> ((demo_error + 'v) \<times> 'w) option" where
  "demo_with_runtime initialize shutdown now delay body w =
     (case initialize w of
        (Err e, w1) \<Rightarrow> Some (Inl (DemoOsal ''runtime.initialize'' e), w1)
      | (Panic _, _) \<Rightarrow> None
      | (Ok _, w1) \<Rightarrow>
          Option.bind (body w1) (\<lambda>(result, w2).
            Option.bind (shutdown_settled shutdown now delay w2) (\<lambda>(down, w3).
              case result of
                Inl e \<Rightarrow> Some (Inl e, w3)
              | Inr v \<Rightarrow> (case down of Inl e \<Rightarrow> Some (Inl e, w3) | Inr _ \<Rightarrow> Some (Inr v, w3)))))"

section \<open>What the wait relies on\<close>

text \<open>A shutdown does not panic and a refused one keeps the runtime in order; the clock does not go back
  and saturates; a delay returns and is not shorter than asked.\<close>

locale settling_runtime =
  fixes shutdown :: "'w \<Rightarrow> unit res \<times> 'w"
    and now :: "'w \<Rightarrow> duration \<times> 'w"
    and delay :: "duration \<Rightarrow> 'w \<Rightarrow> 'w option"
    and clock :: "'w \<Rightarrow> duration"
    and ok :: "'w \<Rightarrow> bool"
  assumes no_panic: "ok w \<Longrightarrow> shutdown w \<noteq> (Panic m, w')"
    and refused: "ok w \<Longrightarrow> shutdown w = (Err Busy, w') \<Longrightarrow> ok w' \<and> clock w \<le> clock w'"
    and now_reads: "ok w \<Longrightarrow> now w = (t, w') \<Longrightarrow> ok w' \<and> clock w \<le> t \<and> t \<le> clock w'"
    and delay_waits: "ok w \<Longrightarrow> \<exists>w'. delay d w = Some w' \<and> ok w' \<and> dur_saturating_add (clock w) d \<le> clock w'"
begin

definition settled :: "duration \<Rightarrow> demo_error + unit \<Rightarrow> 'w \<Rightarrow> bool" where
  "settled deadline r w \<longleftrightarrow>
     (case r of
        Inr _ \<Rightarrow> (\<exists>w0. ok w0 \<and> shutdown w0 = (Ok (), w))
      | Inl e \<Rightarrow> (\<exists>x w0 w1. e = shutdown_failed x \<and> ok w0 \<and> shutdown w0 = (Err x, w1)
          \<and> (if x = Busy then deadline \<le> clock w else w = w1)))"

lemma settle_ends:
  assumes "ok w"
  shows "\<exists>r w'. settle_loop shutdown now delay deadline w = Some (r, w') \<and> settled deadline r w'"
  using assms
proof (induction "as_nanos deadline - as_nanos (clock w)" arbitrary: w rule: less_induct)
  case less
  obtain r w1 where s: "shutdown w = (r, w1)" by (cases "shutdown w")
  show ?case
  proof (cases "r = Err Busy")
    case True
    then have busy: "ok w1" "clock w \<le> clock w1" using refused [OF less.prems] s by auto
    obtain t w2 where n: "now w1 = (t, w2)" by (cases "now w1")
    note t = now_reads [OF busy(1) n]
    show ?thesis
    proof (cases "t < deadline")
      case True
      obtain w3 where d: "delay settle_poll w2 = Some w3" "ok w3"
        "dur_saturating_add (clock w2) settle_poll \<le> clock w3"
        using delay_waits t by blast
      have "as_nanos deadline - as_nanos (clock w3) < as_nanos deadline - as_nanos (clock w)"
        using d(3) busy(2) t True as_nanos_less [of deadline]
        by (auto simp: duration_order as_nanos_saturating_add settle_poll_def duration_limit_eq min_def split: if_splits)
      from less.hyps [OF this d(2)] show ?thesis
        using s n d(1) True \<open>r = Err Busy\<close> by (subst settle_loop.simps) simp
    next
      case False
      then have "settled deadline (Inl (shutdown_failed Busy)) w2"
        using less.prems s t \<open>r = Err Busy\<close> by (auto simp: settled_def duration_order)
      then show ?thesis using s n False \<open>r = Err Busy\<close> by (subst settle_loop.simps) simp
    qed
  next
    case False
    then show ?thesis
      using s less.prems no_panic
      by (subst settle_loop.simps) (fastforce simp: settled_def split: res.splits)
  qed
qed

lemma settled_ends:
  assumes "ok w" and "now w = (t, w1)" and "dur_checked_add t settle_timeout = Some deadline"
  shows "\<exists>r w'. shutdown_settled shutdown now delay w = Some (r, w') \<and> settled deadline r w'"
  using settle_ends [of w1 deadline] now_reads [OF assms(1,2)] assms by (simp add: shutdown_settled_def)

end

end
