(* ===== verification/Demo_Pipeline.thy ===== *)
theory Demo_Pipeline
  imports Demo_Packet Demo_Runtime Queue_Interface Counting_Semaphore
begin

text \<open>
  The pipeline demo (src/examples/osal-demo/src/pipeline_demo.rs), the program that composes the library:
  two producers and three consumers share a queue and a mutex-protected statistics record, a monitor
  samples it when a timer fires, and a supervisor starts, times, stops and joins them. Every atomic access
  and every call of the library is one step; a worker is the point it has reached. The queue is any
  type with the calls of the locale \<open>queue_calls\<close>. A delay is a point that is left once the clock has
  reached its end; the clock advances at any time. The polling delays of one to twenty milliseconds
  change nothing and have no step of their own. The heartbeat timer and the mutex are their effects on the
  shared state only: the timer may fire at any moment, a lock is obtained or fails, and a call of the
  supervisor on the timer succeeds or fails with any error. A counter of the statistics that would overflow aborts
  the process, so that no step follows.
\<close>

section \<open>Parameters\<close>

definition demo_queue_capacity :: nat where "demo_queue_capacity = 128"

definition producer_count :: nat where "producer_count = 2"

definition consumer_count :: nat where "consumer_count = 3"

definition total_ready_tasks :: nat where "total_ready_tasks = producer_count + consumer_count + 1"

text \<open>Times are nanoseconds.\<close>

definition from_ms :: "nat \<Rightarrow> nat" where "from_ms n = n * 1000000"

definition start_bit :: u8 where "start_bit = 1"

definition stop_bit :: u8 where "stop_bit = 2"

definition consumer_go_bit :: u8 where "consumer_go_bit = 4"

section \<open>Errors and reports\<close>

datatype worker_error = ReadyRelease | StatsLock | QueueSend | QueueRecv

definition worker_error_code :: "worker_error \<Rightarrow> u32" where
  "worker_error_code e = (case e of ReadyRelease \<Rightarrow> 1 | StatsLock \<Rightarrow> 2 | QueueSend \<Rightarrow> 3 | QueueRecv \<Rightarrow> 4)"

record demo_stats =
  ds_produced :: u32
  ds_consumed :: u32
  ds_dropped :: u32
  ds_checksum_error :: u32
  ds_queue_timeout :: u32

record pipeline_report =
  rp_produced :: u32
  rp_consumed :: u32
  rp_dropped :: u32
  rp_queue_timeout :: u32
  rp_checksum_error :: u32
  rp_timer_fires :: u32
  rp_monitor_samples :: u32

definition pipeline_invariant_failure :: "demo_stats \<Rightarrow> u32 \<Rightarrow> u32 \<Rightarrow> u32 \<Rightarrow> demo_error option" where
  "pipeline_invariant_failure snapshot timer_fires monitor_samples worker_error =
     (if ds_produced snapshot = 0 then Some (DemoCheck ''pipeline produced no packets'')
      else if ds_consumed snapshot = 0 then Some (DemoCheck ''pipeline consumed no packets'')
      else if ds_consumed snapshot > ds_produced snapshot
      then Some (DemoCheck ''pipeline consumed more than produced'')
      else if ds_checksum_error snapshot \<noteq> 0 then Some (DemoCheck ''pipeline payload checksum mismatch'')
      else if timer_fires = 0 then Some (DemoCheck ''pipeline timer never fired'')
      else if monitor_samples = 0 then Some (DemoCheck ''pipeline monitor never sampled stats'')
      else if worker_error \<noteq> 0 then Some (DemoWorker worker_error)
      else None)"

text \<open>The end of \<open>run_with_reporter\<close>, from what it has read.\<close>

definition pipeline_result ::
  "demo_stats \<Rightarrow> u32 \<Rightarrow> u32 \<Rightarrow> u32 \<Rightarrow> nat \<Rightarrow> demo_error + pipeline_report" where
  "pipeline_result snapshot timer_fires monitor_samples worker_error final_len =
     (case pipeline_invariant_failure snapshot timer_fires monitor_samples worker_error of
        Some e \<Rightarrow> Inl e
      | None \<Rightarrow>
          if final_len > demo_queue_capacity then Inl (DemoCheck ''queue exceeded capacity'')
          else Inr \<lparr>rp_produced = ds_produced snapshot, rp_consumed = ds_consumed snapshot,
                    rp_dropped = ds_dropped snapshot, rp_queue_timeout = ds_queue_timeout snapshot,
                    rp_checksum_error = ds_checksum_error snapshot, rp_timer_fires = timer_fires,
                    rp_monitor_samples = monitor_samples\<rparr>)"

section \<open>Shared state\<close>

record 'q app_state =
  as_queue :: 'q
  as_stats :: demo_stats
  as_ready :: counting_semaphore_state
  as_events :: u8
  as_worker_error :: u32
  as_monitor_samples :: u32
  as_timer_fires :: u32

definition has_bit :: "u8 \<Rightarrow> 'q app_state \<Rightarrow> bool" where
  "has_bit b s \<longleftrightarrow> as_events s AND b \<noteq> 0"

definition set_bit_of :: "u8 \<Rightarrow> 'q app_state \<Rightarrow> 'q app_state" where
  "set_bit_of b s = s\<lparr>as_events := as_events s OR b\<rparr>"

definition record_worker_error :: "worker_error \<Rightarrow> 'q app_state \<Rightarrow> 'q app_state" where
  "record_worker_error e s =
     (if as_worker_error s = 0 then s\<lparr>as_worker_error := worker_error_code e\<rparr> else s)"

definition signal_ready :: "'q app_state \<Rightarrow> bool \<times> 'q app_state" where
  "signal_ready s =
     (case cs_release (as_ready s) of
        (r, ready) \<Rightarrow>
          if is_ok r then (True, s\<lparr>as_ready := ready\<rparr>)
          else (False, record_worker_error ReadyRelease (s\<lparr>as_ready := ready\<rparr>)))"

definition stat_add :: "u32 \<Rightarrow> u32 option" where
  "stat_add x = (if x = - 1 then None else Some (x + 1))"

text \<open>What a producer and a consumer do to the statistics while they hold the mutex.\<close>

definition count_send :: "bool \<Rightarrow> demo_stats \<Rightarrow> demo_stats option" where
  "count_send sent st =
     (if sent then map_option (\<lambda>n. st\<lparr>ds_produced := n\<rparr>) (stat_add (ds_produced st))
      else map_option (\<lambda>n. st\<lparr>ds_dropped := n\<rparr>) (stat_add (ds_dropped st)))"

definition count_recv :: "bool option \<Rightarrow> demo_stats \<Rightarrow> demo_stats option" where
  "count_recv got st =
     (case got of
        None \<Rightarrow> map_option (\<lambda>n. st\<lparr>ds_queue_timeout := n\<rparr>) (stat_add (ds_queue_timeout st))
      | Some valid \<Rightarrow>
          Option.bind (stat_add (ds_consumed st)) (\<lambda>n.
            let st1 = st\<lparr>ds_consumed := n\<rparr> in
            if valid then Some st1
            else map_option (\<lambda>k. st1\<lparr>ds_checksum_error := k\<rparr>) (stat_add (ds_checksum_error st1))))"

section \<open>Workers\<close>

datatype worker_role = RProducer u32 | RConsumer | RMonitor

text \<open>A producer carries its number, its sequence number, its last wake time and whether it is in its
  head start; a consumer its buffer; a monitor the number of timer fires it has seen and its deadline.\<close>

datatype demo_worker_pc =
    WAbsent
  | WReady worker_role
  | WGate worker_role
  | PdTop u32 u32 nat bool
  | PdStop u32 u32 nat bool
  | PdSend u32 u32 nat bool
  | PdCount u32 u32 nat bool bool
  | PdDelay u32 u32 nat bool
  | PdSleep u32 u32 nat bool nat
  | CTop "u8 list"
  | CRecv "u8 list"
  | CCount "u8 list" "bool option"
  | CClosed
  | CSleep "u8 list" nat
  | MTop
  | MPrev
  | MStop u32 nat
  | MFires u32 nat
  | MClock u32 nat
  | MStats
  | WDone

definition gate_open :: "worker_role \<Rightarrow> 'q app_state \<Rightarrow> bool" where
  "gate_open role s \<longleftrightarrow>
     (case role of
        RConsumer \<Rightarrow> has_bit start_bit s \<and> has_bit consumer_go_bit s
      | _ \<Rightarrow> has_bit start_bit s)"

definition role_start :: "worker_role \<Rightarrow> nat \<Rightarrow> demo_worker_pc" where
  "role_start role now =
     (case role of
        RProducer pid \<Rightarrow> PdTop pid 0 now True
      | RConsumer \<Rightarrow> CTop (replicate demo_packet_size 0)
      | RMonitor \<Rightarrow> MTop)"

text \<open>The steps of the workers; \<open>start\<close> is the start of the demo.\<close>

inductive demo_worker_step ::
  "('q \<Rightarrow> u8 list \<Rightarrow> unit res \<Rightarrow> 'q \<Rightarrow> bool) \<Rightarrow> ('q \<Rightarrow> u8 list \<Rightarrow> unit res \<Rightarrow> 'q \<Rightarrow> u8 list \<Rightarrow> bool)
    \<Rightarrow> nat \<Rightarrow> nat \<Rightarrow> demo_worker_pc \<Rightarrow> 'q app_state \<Rightarrow> demo_worker_pc \<Rightarrow> 'q app_state \<Rightarrow> bool"
  for snd_ret rcv_ret start now where
  ready: "demo_worker_step snd_ret rcv_ret start now (WReady role) s (if ok then WGate role else WDone) s'"
  if "signal_ready s = (ok, s')"
| gate_stop: "demo_worker_step snd_ret rcv_ret start now (WGate role) s WDone s"
  if "has_bit stop_bit s"
| gate_go: "demo_worker_step snd_ret rcv_ret start now (WGate role) s (role_start role now) s"
  if "\<not> has_bit stop_bit s" "gate_open role s"
| head_more: "demo_worker_step snd_ret rcv_ret start now (PdTop pid seq wake True) s (PdStop pid seq wake True) s"
  if "now < start + from_ms 1000"
| head_end: "demo_worker_step snd_ret rcv_ret start now (PdTop pid seq wake True) s
    (PdTop pid seq wake False) (set_bit_of consumer_go_bit s)"
  if "\<not> now < start + from_ms 1000"
| loop: "demo_worker_step snd_ret rcv_ret start now (PdTop pid seq wake False) s (PdStop pid seq wake False) s"
| produce_stop: "demo_worker_step snd_ret rcv_ret start now (PdStop pid seq wake ph) s
    (if has_bit stop_bit s then WDone else PdSend pid seq wake ph) s"
| send_done: "demo_worker_step snd_ret rcv_ret start now (PdSend pid seq wake ph) s
    (PdCount pid seq wake ph (r = Ok ())) (s\<lparr>as_queue := q\<rparr>)"
  if "snd_ret (as_queue s) (build_packet pid seq) r q" "r = Ok () \<or> r = Err Timeout"
| send_failed: "demo_worker_step snd_ret rcv_ret start now (PdSend pid seq wake ph) s
    WDone (record_worker_error QueueSend (s\<lparr>as_queue := q\<rparr>))"
  if "snd_ret (as_queue s) (build_packet pid seq) (Err e) q" "e \<noteq> Timeout"
| counted: "demo_worker_step snd_ret rcv_ret start now (PdCount pid seq wake ph sent) s
    (PdDelay pid (seq + 1) wake ph) (s\<lparr>as_stats := st\<rparr>)"
  if "count_send sent (as_stats s) = Some st"
| count_failed: "demo_worker_step snd_ret rcv_ret start now (PdCount pid seq wake ph sent) s
    WDone (record_worker_error StatsLock s)"
| delay: "demo_worker_step snd_ret rcv_ret start now (PdDelay pid seq wake ph) s
    (PdSleep pid seq (wake + from_ms 25) ph (max now wake)) s"
| slept: "demo_worker_step snd_ret rcv_ret start now (PdSleep pid seq wake ph until) s (PdTop pid seq wake ph) s"
  if "until \<le> now"
| consume_stop: "demo_worker_step snd_ret rcv_ret start now (CTop buf) s
    (if has_bit stop_bit s then WDone else CRecv buf) s"
| recv_done: "demo_worker_step snd_ret rcv_ret start now (CRecv buf) s
    (CCount out (Some (verify_packet out))) (s\<lparr>as_queue := q\<rparr>)"
  if "rcv_ret (as_queue s) buf (Ok ()) q out"
| recv_timeout: "demo_worker_step snd_ret rcv_ret start now (CRecv buf) s (CCount out None) (s\<lparr>as_queue := q\<rparr>)"
  if "rcv_ret (as_queue s) buf (Err Timeout) q out"
| recv_closed: "demo_worker_step snd_ret rcv_ret start now (CRecv buf) s CClosed (s\<lparr>as_queue := q\<rparr>)"
  if "rcv_ret (as_queue s) buf (Err QueueClosed) q out"
| recv_failed: "demo_worker_step snd_ret rcv_ret start now (CRecv buf) s
    WDone (record_worker_error QueueRecv (s\<lparr>as_queue := q\<rparr>))"
  if "rcv_ret (as_queue s) buf (Err e) q out" "e \<noteq> Timeout" "e \<noteq> QueueClosed"
| closed: "demo_worker_step snd_ret rcv_ret start now CClosed s
    WDone (if has_bit stop_bit s then s else record_worker_error QueueRecv s)"
| recv_counted: "demo_worker_step snd_ret rcv_ret start now (CCount buf got) s
    (CSleep buf (now + from_ms 30)) (s\<lparr>as_stats := st\<rparr>)"
  if "count_recv got (as_stats s) = Some st"
| recv_count_failed: "demo_worker_step snd_ret rcv_ret start now (CCount buf got) s
    WDone (record_worker_error StatsLock s)"
| consumed: "demo_worker_step snd_ret rcv_ret start now (CSleep buf until) s (CTop buf) s"
  if "until \<le> now"
| monitor_top: "demo_worker_step snd_ret rcv_ret start now MTop s
    (if has_bit stop_bit s then WDone else MPrev) s"
| monitor_previous: "demo_worker_step snd_ret rcv_ret start now MPrev s
    (MStop (as_timer_fires s) (now + from_ms 2000)) s"
| monitor_stop: "demo_worker_step snd_ret rcv_ret start now (MStop previous deadline) s
    (if has_bit stop_bit s then WDone else MFires previous deadline) s"
| monitor_fires: "demo_worker_step snd_ret rcv_ret start now (MFires previous deadline) s
    (if as_timer_fires s \<noteq> previous then MStats else MClock previous deadline) s"
| monitor_clock: "demo_worker_step snd_ret rcv_ret start now (MClock previous deadline) s
    (if deadline \<le> now then MStats else MStop previous deadline) s"
| monitor_sample: "demo_worker_step snd_ret rcv_ret start now MStats s
    MTop (s\<lparr>as_monitor_samples := as_monitor_samples s + 1\<rparr>)"
| monitor_failed: "demo_worker_step snd_ret rcv_ret start now MStats s WDone (record_worker_error StatsLock s)"

section \<open>Supervisor\<close>

text \<open>The points of \<open>run_with_reporter\<close> after the objects exist: spawning, \<open>supervisor_main\<close> with the
  monitor samples it has reported, \<open>stop_and_join\<close> with the error that led to it, the number of
  tasks, the next task and the first join error, and the collection of the report.\<close>

datatype sup_pc =
    SSpawn nat
  | SReady nat
  | STimer
  | SDelay nat nat u32
  | SChange
  | SReset
  | SStopping
  | STimerStop
  | SStop "demo_error option" nat
  | SClose "demo_error option" nat
  | SJoin "demo_error option" nat nat "demo_error option"
  | SCollect
  | SDone "demo_error + pipeline_report"

definition worker_role_of :: "nat \<Rightarrow> worker_role" where
  "worker_role_of n =
     (if n < producer_count then RProducer (word_of_nat n)
      else if n < producer_count + consumer_count then RConsumer else RMonitor)"

definition spawn_context :: "nat \<Rightarrow> string" where
  "spawn_context n =
     (case worker_role_of n of
        RProducer _ \<Rightarrow> ''pipeline.producer.spawn''
      | RConsumer \<Rightarrow> ''pipeline.consumer.spawn''
      | RMonitor \<Rightarrow> ''pipeline.monitor.spawn'')"

text \<open>The lengths of the three phases, and what follows each.\<close>

definition phase_length :: "nat \<Rightarrow> nat" where
  "phase_length k = from_ms (if k = 0 then 1000 else if k = 1 then 2001 else 3001)"

definition enter_phase :: "nat \<Rightarrow> nat \<Rightarrow> 'q app_state \<Rightarrow> sup_pc" where
  "enter_phase k now s = SDelay k (now + phase_length k) (as_monitor_samples s)"

definition after_phase :: "nat \<Rightarrow> nat \<Rightarrow> 'q app_state \<Rightarrow> sup_pc" where
  "after_phase k now s = (if k = 0 then enter_phase 1 now s else if k = 1 then SChange else SStopping)"

definition after_joins :: "demo_error option \<Rightarrow> demo_error option \<Rightarrow> sup_pc" where
  "after_joins cause first_error =
     (case cause of
        Some e \<Rightarrow> SDone (Inl e)
      | None \<Rightarrow> (case first_error of Some e \<Rightarrow> SDone (Inl e) | None \<Rightarrow> SCollect))"

record 'q demo_world =
  dw_state :: "'q app_state"
  dw_clock :: nat
  dw_start :: nat
  dw_workers :: "nat \<Rightarrow> demo_worker_pc"
  dw_sup :: sup_pc

inductive sup_step :: "('q \<Rightarrow> 'q) \<Rightarrow> ('q \<Rightarrow> nat) \<Rightarrow> 'q demo_world \<Rightarrow> 'q demo_world \<Rightarrow> bool"
  for cls len where
  spawn: "sup_step cls len w
      (w\<lparr>dw_workers := (dw_workers w)(n := WReady (worker_role_of n)), dw_sup := SSpawn (Suc n)\<rparr>)"
  if "dw_sup w = SSpawn n" "n < total_ready_tasks"
| spawn_error: "sup_step cls len w (w\<lparr>dw_sup := SStop (Some (DemoOsal (spawn_context n) e)) n\<rparr>)"
  if "dw_sup w = SSpawn n" "n < total_ready_tasks"
| spawned: "sup_step cls len w (w\<lparr>dw_sup := SReady total_ready_tasks\<rparr>)"
  if "dw_sup w = SSpawn total_ready_tasks"
| ready_acquired: "sup_step cls len w
      (w\<lparr>dw_state := (dw_state w)\<lparr>as_ready := sem\<rparr>, dw_sup := SReady k\<rparr>)"
  if "dw_sup w = SReady (Suc k)" "cs_try_acquire (as_ready (dw_state w)) = (True, sem)"
| ready_error: "sup_step cls len w
      (w\<lparr>dw_sup := SStop (Some (DemoOsal ''pipeline.ready'' e)) total_ready_tasks\<rparr>)"
  if "dw_sup w = SReady (Suc k)"
| started: "sup_step cls len w (w\<lparr>dw_state := set_bit_of start_bit (dw_state w), dw_sup := STimer\<rparr>)"
  if "dw_sup w = SReady 0"
| timer_started: "sup_step cls len w (w\<lparr>dw_sup := enter_phase 0 (dw_clock w) (dw_state w)\<rparr>)"
  if "dw_sup w = STimer"
| reported: "sup_step cls len w (w\<lparr>dw_sup := SDelay k end (as_monitor_samples (dw_state w))\<rparr>)"
  if "dw_sup w = SDelay k end seen" "dw_clock w < end"
| phase_end: "sup_step cls len w (w\<lparr>dw_sup := after_phase k (dw_clock w) (dw_state w)\<rparr>)"
  if "dw_sup w = SDelay k end seen" "end \<le> dw_clock w"
| period_changed: "sup_step cls len w (w\<lparr>dw_sup := SReset\<rparr>)"
  if "dw_sup w = SChange"
| timer_reset: "sup_step cls len w (w\<lparr>dw_sup := enter_phase 2 (dw_clock w) (dw_state w)\<rparr>)"
  if "dw_sup w = SReset"
| stopping: "sup_step cls len w (w\<lparr>dw_state := set_bit_of stop_bit (dw_state w), dw_sup := STimerStop\<rparr>)"
  if "dw_sup w = SStopping"
| timer_stopped: "sup_step cls len w (w\<lparr>dw_sup := SStop None total_ready_tasks\<rparr>)"
  if "dw_sup w = STimerStop"
| call_error: "sup_step cls len w
      (w\<lparr>dw_sup := SStop (Some (DemoOsal context e)) total_ready_tasks\<rparr>)"
  if "(context, dw_sup w) \<in> {(''pipeline.timer.start'', STimer),
        (''pipeline.timer.change_period'', SChange), (''pipeline.timer.reset'', SReset),
        (''pipeline.timer.stop'', STimerStop)}"
| report_error: "sup_step cls len w
      (w\<lparr>dw_sup := SStop (Some (DemoOsal ''pipeline.stats.lock'' e)) total_ready_tasks\<rparr>)"
  if "dw_sup w = SDelay k end seen" "as_monitor_samples (dw_state w) \<noteq> seen"
| stop_requested: "sup_step cls len w
      (w\<lparr>dw_state := set_bit_of stop_bit (dw_state w), dw_sup := SClose cause n\<rparr>)"
  if "dw_sup w = SStop cause n"
| queue_closed: "sup_step cls len w
      (w\<lparr>dw_state := (dw_state w)\<lparr>as_queue := cls (as_queue (dw_state w))\<rparr>, dw_sup := SJoin cause n 0 None\<rparr>)"
  if "dw_sup w = SClose cause n"
| join_ok: "sup_step cls len w (w\<lparr>dw_sup := SJoin cause n (Suc k) first\<rparr>)"
  if "dw_sup w = SJoin cause n k first" "k < n" "dw_workers w k = WDone"
| join_error: "sup_step cls len w
      (w\<lparr>dw_sup := SJoin cause n (Suc k) (if first = None then Some (DemoOsal ''pipeline.join'' e) else first)\<rparr>)"
  if "dw_sup w = SJoin cause n k first" "k < n"
| joined: "sup_step cls len w (w\<lparr>dw_sup := after_joins cause first\<rparr>)"
  if "dw_sup w = SJoin cause n n first"
| collected: "sup_step cls len w
      (w\<lparr>dw_sup := SDone (pipeline_result (as_stats s) (as_timer_fires s) (as_monitor_samples s)
                          (as_worker_error s) (len (as_queue s)))\<rparr>)"
  if "dw_sup w = SCollect" "s = dw_state w"
| collect_error: "sup_step cls len w (w\<lparr>dw_sup := SDone (Inl (DemoOsal context e))\<rparr>)"
  if "dw_sup w = SCollect" "context \<in> {''pipeline.stats.lock'', ''pipeline.queue.len''}"

section \<open>The whole\<close>

inductive demo_step ::
  "('q \<Rightarrow> u8 list \<Rightarrow> unit res \<Rightarrow> 'q \<Rightarrow> bool) \<Rightarrow> ('q \<Rightarrow> u8 list \<Rightarrow> unit res \<Rightarrow> 'q \<Rightarrow> u8 list \<Rightarrow> bool)
    \<Rightarrow> ('q \<Rightarrow> 'q) \<Rightarrow> ('q \<Rightarrow> nat) \<Rightarrow> 'q demo_world \<Rightarrow> 'q demo_world \<Rightarrow> bool"
  for snd_ret rcv_ret cls len where
  worker: "demo_step snd_ret rcv_ret cls len w (w\<lparr>dw_state := s, dw_workers := (dw_workers w)(i := pc)\<rparr>)"
  if "demo_worker_step snd_ret rcv_ret (dw_start w) (dw_clock w) (dw_workers w i) (dw_state w) pc s"
| supervisor: "demo_step snd_ret rcv_ret cls len w w'"
  if "sup_step cls len w w'"
| timer_fire: "demo_step snd_ret rcv_ret cls len w
      (w\<lparr>dw_state := (dw_state w)\<lparr>as_timer_fires := as_timer_fires (dw_state w) + 1\<rparr>\<rparr>)"
| time: "demo_step snd_ret rcv_ret cls len w (w\<lparr>dw_clock := dw_clock w + n\<rparr>)"

definition demo_init :: "'q \<Rightarrow> nat \<Rightarrow> 'q demo_world" where
  "demo_init q now =
     \<lparr>dw_state = \<lparr>as_queue = q, as_stats = \<lparr>ds_produced = 0, ds_consumed = 0, ds_dropped = 0,
        ds_checksum_error = 0, ds_queue_timeout = 0\<rparr>,
        as_ready = \<lparr>cs_max_count = word_of_nat total_ready_tasks, cs_count = 0\<rparr>, as_events = 0,
        as_worker_error = 0, as_monitor_samples = 0, as_timer_fires = 0\<rparr>,
      dw_clock = now, dw_start = now, dw_workers = (\<lambda>_. WAbsent), dw_sup = SSpawn 0\<rparr>"

section \<open>Accounting\<close>

text \<open>Messages sent but not yet counted as produced, received but not yet counted as consumed.\<close>

fun pending :: "demo_worker_pc \<Rightarrow> nat" where
  "pending (PdCount _ _ _ _ True) = 1"
| "pending _ = 0"

fun taken :: "demo_worker_pc \<Rightarrow> nat" where
  "taken (CCount _ (Some _)) = 1"
| "taken _ = 0"

fun pc_valid :: "demo_worker_pc \<Rightarrow> bool" where
  "pc_valid (CCount _ (Some v)) = v"
| "pc_valid _ = True"

definition produced :: "'q app_state \<Rightarrow> nat" where "produced s = unat (ds_produced (as_stats s))"

definition consumed :: "'q app_state \<Rightarrow> nat" where "consumed s = unat (ds_consumed (as_stats s))"

definition is_osal :: "demo_error option \<Rightarrow> bool" where
  "is_osal e \<longleftrightarrow> (case e of Some (DemoOsal _ _) \<Rightarrow> True | None \<Rightarrow> True | _ \<Rightarrow> False)"

definition all_done :: "'q demo_world \<Rightarrow> bool" where
  "all_done w \<longleftrightarrow> (\<forall>i < total_ready_tasks. dw_workers w i = WDone)"

text \<open>The verdicts that a run of the demo without a worker error never gives.\<close>

definition false_alarms :: "demo_error set" where
  "false_alarms = {DemoCheck ''pipeline consumed more than produced'',
     DemoCheck ''pipeline payload checksum mismatch'', DemoCheck ''queue exceeded capacity''}"

definition done_ok :: "'q demo_world \<Rightarrow> demo_error + pipeline_report \<Rightarrow> bool" where
  "done_ok w r \<longleftrightarrow>
     (case r of
        Inl e \<Rightarrow> as_worker_error (dw_state w) = 0 \<longrightarrow> e \<notin> false_alarms
      | Inr rep \<Rightarrow> all_done w \<and> as_worker_error (dw_state w) = 0
          \<and> unat (rp_produced rep) = produced (dw_state w) \<and> unat (rp_consumed rep) = consumed (dw_state w)
          \<and> rp_checksum_error rep = 0)"

definition sup_ok :: "'q demo_world \<Rightarrow> bool" where
  "sup_ok w \<longleftrightarrow>
     (\<forall>i \<ge> total_ready_tasks. dw_workers w i = WAbsent) \<and>
     (case dw_sup w of
        SSpawn n \<Rightarrow> n \<le> total_ready_tasks \<and> (\<forall>i \<ge> n. dw_workers w i = WAbsent)
      | SStop cause n \<Rightarrow> is_osal cause \<and> (cause = None \<longrightarrow> n = total_ready_tasks)
      | SClose cause n \<Rightarrow> is_osal cause \<and> (cause = None \<longrightarrow> n = total_ready_tasks)
      | SJoin cause n k first \<Rightarrow> is_osal cause \<and> is_osal first \<and> k \<le> n
          \<and> (cause = None \<longrightarrow> n = total_ready_tasks) \<and> (first = None \<longrightarrow> (\<forall>j < k. dw_workers w j = WDone))
      | SCollect \<Rightarrow> all_done w
      | SDone r \<Rightarrow> done_ok w r
      | _ \<Rightarrow> True)"

lemma stat_add_Some: "stat_add x = Some y \<Longrightarrow> unat y = Suc (unat x)"
  using unat_add_1_word [of x] by (auto simp: stat_add_def split: if_splits)

lemma worker_error_sticks:
  "as_worker_error (record_worker_error e s) \<noteq> 0"
  "as_queue (record_worker_error e s) = as_queue s" "as_stats (record_worker_error e s) = as_stats s"
  by (auto simp: record_worker_error_def worker_error_code_def split: worker_error.splits)

lemma signal_ready_frame:
  assumes "signal_ready s = (ok, s')"
  shows "as_queue s' = as_queue s" "as_stats s' = as_stats s" "as_worker_error s' = 0 \<Longrightarrow> as_worker_error s = 0"
  using assms by (auto simp: signal_ready_def record_worker_error_def split: prod.splits if_splits)

lemma set_bit_frame [simp]:
  "as_queue (set_bit_of b s) = as_queue s" "as_stats (set_bit_of b s) = as_stats s"
  "as_worker_error (set_bit_of b s) = as_worker_error s"
  by (simp_all add: set_bit_of_def)

lemma sum_workers_upd:
  fixes f :: "demo_worker_pc \<Rightarrow> nat" and i n :: nat
  assumes "i < n"
  shows "(\<Sum>j<n. f ((g(i := x)) j)) + f (g i) = (\<Sum>j<n. f (g j)) + f x"
proof -
  have "(\<Sum>j\<in>{..<n} - {i}. f ((g(i := x)) j)) = (\<Sum>j\<in>{..<n} - {i}. f (g j))"
    by (intro sum.cong) auto
  then show ?thesis
    using assms sum.remove [of "{..<n}" i "\<lambda>j. f ((g(i := x)) j)"] sum.remove [of "{..<n}" i "\<lambda>j. f (g j)"]
    by simp
qed

text \<open>The queue as a caller of the demo sees it.\<close>

locale demo_queue = queue_calls send_returns recv_returns close contents capacity closed invar
  for send_returns :: "'q \<Rightarrow> u8 list \<Rightarrow> unit res \<Rightarrow> 'q \<Rightarrow> bool"
    and recv_returns :: "'q \<Rightarrow> u8 list \<Rightarrow> unit res \<Rightarrow> 'q \<Rightarrow> u8 list \<Rightarrow> bool"
    and close :: "'q \<Rightarrow> 'q" and contents :: "'q \<Rightarrow> u8 list list" and capacity :: "'q \<Rightarrow> nat"
    and closed :: "'q \<Rightarrow> bool" and invar :: "'q \<Rightarrow> bool"
begin

definition state_ok :: "'q app_state \<Rightarrow> bool" where
  "state_ok s \<longleftrightarrow> invar (as_queue s) \<and> capacity (as_queue s) = demo_queue_capacity
     \<and> (\<forall>m \<in> set (contents (as_queue s)). verify_packet m) \<and> ds_checksum_error (as_stats s) = 0"

definition backlog :: "'q app_state \<Rightarrow> nat" where
  "backlog s = length (contents (as_queue s))"

text \<open>A step of one worker moves messages between the queue, the counters and the worker itself.\<close>

lemma worker_step_ok:
  assumes "demo_worker_step send_returns recv_returns start now pc s pc' s'" and ok: "state_ok s" "pc_valid pc"
  shows "state_ok s' \<and> pc_valid pc' \<and> (as_worker_error s' = 0 \<longrightarrow> as_worker_error s = 0
    \<and> produced s' + pending pc' + consumed s + taken pc + backlog s
      = produced s + pending pc + consumed s' + taken pc' + backlog s')"
  using assms(1)
proof cases
  case (send_done pid seq r q wake hd)
  then show ?thesis
    using ok send_call [of "as_queue s" "build_packet pid seq" r q] verify_build_packet
    by (auto simp: state_ok_def produced_def consumed_def backlog_def)
next
  case (send_failed pid seq e q wake hd)
  then show ?thesis
    using ok send_call [of "as_queue s" "build_packet pid seq" "Err e" q]
    by (simp add: state_ok_def worker_error_sticks)
next
  case (counted sent st pid seq wake hd)
  then show ?thesis
    using ok by (cases sent) (auto simp: state_ok_def produced_def consumed_def backlog_def count_send_def
        dest: stat_add_Some)
next
  case (recv_done buf q out)
  then show ?thesis
    using ok recv_call [of "as_queue s" buf "Ok ()" q out]
    by (auto simp: state_ok_def produced_def consumed_def backlog_def)
next
  case (recv_timeout buf q out)
  then show ?thesis
    using ok recv_call [of "as_queue s" buf "Err Timeout" q out]
    by (simp add: state_ok_def produced_def consumed_def backlog_def)
next
  case (recv_closed buf q out)
  then show ?thesis
    using ok recv_call [of "as_queue s" buf "Err QueueClosed" q out]
    by (simp add: state_ok_def produced_def consumed_def backlog_def)
next
  case (recv_failed buf e q out)
  then show ?thesis
    using ok recv_call [of "as_queue s" buf "Err e" q out] by (simp add: state_ok_def worker_error_sticks)
next
  case (recv_counted got st buf)
  then show ?thesis
    using ok by (cases got) (auto simp: state_ok_def produced_def consumed_def backlog_def count_recv_def
        dest: stat_add_Some split: bind_splits)
next
  case (ready ok role)
  then show ?thesis
    using ok signal_ready_frame [OF ready(3)] by (auto simp: state_ok_def produced_def consumed_def backlog_def)
next
  case (gate_go role)
  then show ?thesis using ok by (auto simp: role_start_def split: worker_role.splits)
qed (use ok in \<open>auto simp: state_ok_def produced_def consumed_def backlog_def worker_error_sticks\<close>)

definition balanced :: "'q demo_world \<Rightarrow> bool" where
  "balanced w \<longleftrightarrow>
     produced (dw_state w) + (\<Sum>i<total_ready_tasks. pending (dw_workers w i))
     = consumed (dw_state w) + (\<Sum>i<total_ready_tasks. taken (dw_workers w i)) + backlog (dw_state w)"

definition dw_inv :: "'q demo_world \<Rightarrow> bool" where
  "dw_inv w \<longleftrightarrow> state_ok (dw_state w) \<and> (\<forall>i. pc_valid (dw_workers w i)) \<and> sup_ok w
     \<and> (as_worker_error (dw_state w) = 0 \<longrightarrow> balanced w)"

lemma worker_active:
  assumes "demo_worker_step send_returns recv_returns start now pc s pc' s'"
  shows "pc \<noteq> WAbsent" and "pc \<noteq> WDone"
  using assms by (auto elim: demo_worker_step.cases)

lemma dw_inv_worker:
  assumes inv: "dw_inv w" and m: "demo_worker_step send_returns recv_returns (dw_start w) (dw_clock w)
      (dw_workers w i) (dw_state w) pc s"
  shows "dw_inv (w\<lparr>dw_state := s, dw_workers := (dw_workers w)(i := pc)\<rparr>)"
proof -
  let ?w = "w\<lparr>dw_state := s, dw_workers := (dw_workers w)(i := pc)\<rparr>"
  have st: "state_ok (dw_state w)" "pc_valid (dw_workers w i)" "sup_ok w" using inv by (simp_all add: dw_inv_def)
  note ok = worker_step_ok [OF m st(1,2)] and act = worker_active [OF m]
  have i: "i < total_ready_tasks" using st(3) act(1) by (metis sup_ok_def leI)
  have "sup_ok ?w"
    using st(3) act i ok unfolding sup_ok_def all_done_def done_ok_def
    by (auto split: sup_pc.splits sum.splits)
  moreover have "balanced ?w" if e: "as_worker_error s = 0"
  proof -
    have "balanced w" using inv e ok by (simp add: dw_inv_def)
    then show ?thesis
      using ok e sum_workers_upd [OF i, of pending "dw_workers w" pc] sum_workers_upd [OF i, of taken "dw_workers w" pc]
      unfolding balanced_def by simp
  qed
  moreover have "\<forall>j. pc_valid (dw_workers ?w j)" using inv ok by (simp add: dw_inv_def)
  ultimately show ?thesis using ok by (simp add: dw_inv_def)
qed

text \<open>The supervisor's moves that change neither the accounts nor the workers.\<close>

lemma dw_inv_quiet:
  assumes "dw_inv w" and "dw_workers w' = dw_workers w" and "as_stats (dw_state w') = as_stats (dw_state w)"
    and "invar (as_queue (dw_state w'))" and "capacity (as_queue (dw_state w')) = capacity (as_queue (dw_state w))"
    and "contents (as_queue (dw_state w')) = contents (as_queue (dw_state w))"
    and "as_worker_error (dw_state w') = as_worker_error (dw_state w)" and "sup_ok w'"
  shows "dw_inv w'"
  using assms by (simp add: dw_inv_def state_ok_def balanced_def produced_def consumed_def backlog_def)

lemma collect_verdict:
  assumes inv: "dw_inv w" and d: "all_done w" and s: "s = dw_state w"
  shows "done_ok w (pipeline_result (as_stats s) (as_timer_fires s) (as_monitor_samples s) (as_worker_error s)
    (length (contents (as_queue s))))"
proof -
  have st: "state_ok s" using inv s by (simp add: dw_inv_def)
  have len: "length (contents (as_queue s)) \<le> demo_queue_capacity"
    using st bound [of "as_queue s"] by (auto simp: state_ok_def)
  have "consumed s \<le> produced s" if "as_worker_error s = 0"
  proof -
    have "pending (dw_workers w i) = 0" "taken (dw_workers w i) = 0" if "i < total_ready_tasks" for i
      using d that by (auto simp: all_done_def)
    moreover have "balanced w" using inv s that by (simp add: dw_inv_def)
    ultimately show ?thesis unfolding balanced_def s by simp
  qed
  then have le: "\<not> ds_consumed (as_stats s) > ds_produced (as_stats s)" if "as_worker_error s = 0"
    using that by (simp add: produced_def consumed_def word_less_nat_alt not_less)
  show ?thesis
    using st len le d s
    by (auto simp: pipeline_result_def pipeline_invariant_failure_def done_ok_def false_alarms_def state_ok_def
        produced_def consumed_def)
qed

lemma dw_inv_sup:
  assumes "sup_step close (\<lambda>q. length (contents q)) w w'" and inv: "dw_inv w"
  shows "dw_inv w'"
proof -
  have ok: "sup_ok w" "state_ok (dw_state w)" using inv by (simp_all add: dw_inv_def)
  have q: "invar (as_queue (dw_state w))" using ok by (simp add: state_ok_def)
  from assms(1) show ?thesis
  proof cases
    case (spawn n)
    have absent: "dw_workers w n = WAbsent" using ok(1) spawn by (simp add: sup_ok_def)
    have "sup_ok w'" using ok(1) spawn by (auto simp: sup_ok_def)
    moreover have "balanced w'" if "balanced w"
      using that sum_workers_upd [OF spawn(3), of pending "dw_workers w"]
        sum_workers_upd [OF spawn(3), of taken "dw_workers w"] absent spawn(1)
      by (simp add: balanced_def)
    ultimately show ?thesis using inv spawn(1) by (simp add: dw_inv_def)
  next
    case (collected s)
    then have "all_done w" using ok(1) by (simp add: sup_ok_def)
    from collect_verdict [OF inv this collected(3)] have "sup_ok w'"
      using ok(1) collected(1) by (auto simp: sup_ok_def done_ok_def all_done_def split: sum.splits)
    then show ?thesis by (rule dw_inv_quiet [OF inv, rotated -1]) (use collected q in simp_all)
  next
    case (queue_closed cause n)
    then have "sup_ok w'" using ok(1) by (auto simp: sup_ok_def is_osal_def)
    then show ?thesis by (rule dw_inv_quiet [OF inv, rotated -1]) (use queue_closed q close_call in simp_all)
  next
    case (joined cause n first)
    then have "sup_ok w'" using ok(1)
      by (auto simp: sup_ok_def after_joins_def all_done_def is_osal_def done_ok_def false_alarms_def
          split: option.splits demo_error.splits)
    then show ?thesis by (rule dw_inv_quiet [OF inv, rotated -1]) (use joined q in simp_all)
  next
    case (join_ok cause n k first)
    then have "sup_ok w'" using ok(1) by (auto simp: sup_ok_def less_Suc_eq)
    then show ?thesis by (rule dw_inv_quiet [OF inv, rotated -1]) (use join_ok q in simp_all)
  next
    case (collect_error "context" e)
    then have "sup_ok w'" using ok(1) by (auto simp: sup_ok_def done_ok_def false_alarms_def)
    then show ?thesis by (rule dw_inv_quiet [OF inv, rotated -1]) (use collect_error q in simp_all)
  next
    case (phase_end k "end" seen)
    then have "sup_ok w'" using ok(1) by (auto simp: sup_ok_def after_phase_def enter_phase_def)
    then show ?thesis by (rule dw_inv_quiet [OF inv, rotated -1]) (use phase_end q in simp_all)
  qed (rule dw_inv_quiet [OF inv]; use ok(1) q in \<open>auto simp: sup_ok_def is_osal_def enter_phase_def\<close>)+
qed

lemma dw_inv_step:
  assumes "demo_step send_returns recv_returns close (\<lambda>q. length (contents q)) w w'" and inv: "dw_inv w"
  shows "dw_inv w'"
  using assms(1)
proof cases
  case (worker i pc s)
  show ?thesis unfolding worker(1) by (rule dw_inv_worker [OF inv worker(2)])
next
  case supervisor
  then show ?thesis by (rule dw_inv_sup [OF _ inv])
next
  case timer_fire
  then have "sup_ok w'" using inv
    by (auto simp: dw_inv_def sup_ok_def done_ok_def all_done_def produced_def consumed_def split: sup_pc.splits sum.splits)
  then show ?thesis
    by (rule dw_inv_quiet [OF inv, rotated -1]) (use timer_fire inv in \<open>simp_all add: dw_inv_def state_ok_def\<close>)
next
  case (time n)
  then have "sup_ok w'" using inv
    by (auto simp: dw_inv_def sup_ok_def done_ok_def all_done_def split: sup_pc.splits sum.splits)
  then show ?thesis
    by (rule dw_inv_quiet [OF inv, rotated -1]) (use time inv in \<open>simp_all add: dw_inv_def state_ok_def\<close>)
qed

lemma dw_inv_reachable:
  assumes "invar q" and "contents q = []" and "capacity q = demo_queue_capacity"
    and "(demo_step send_returns recv_returns close (\<lambda>q. length (contents q)))\<^sup>*\<^sup>* (demo_init q now) w"
  shows "dw_inv w"
  using assms(4)
proof (induction rule: rtranclp_induct)
  case base
  show ?case
    using assms(1-3) by (auto simp: dw_inv_def state_ok_def sup_ok_def balanced_def produced_def consumed_def
        backlog_def demo_init_def)
next
  case (step w w')
  show ?case by (rule dw_inv_step [OF step(2,3)])
qed

text \<open>A worker error is never cleared, and rules out a report.\<close>

lemma worker_error_kept:
  assumes "demo_step send_returns recv_returns close (\<lambda>q. length (contents q)) w w'" and "dw_inv w"
    and "as_worker_error (dw_state w) \<noteq> 0"
  shows "as_worker_error (dw_state w') \<noteq> 0"
  using assms(1)
proof cases
  case (worker i pc s)
  then show ?thesis using worker_step_ok [OF worker(2)] assms(2,3) by (auto simp: dw_inv_def)
next
  case supervisor
  then show ?thesis using assms(3) by cases simp_all
qed (use assms(3) in simp_all)

lemma worker_error_final:
  assumes "(demo_step send_returns recv_returns close (\<lambda>q. length (contents q)))\<^sup>*\<^sup>* w w'" and "dw_inv w"
    and "as_worker_error (dw_state w) \<noteq> 0"
  shows "dw_sup w' \<noteq> SDone (Inr rep)"
proof -
  have "dw_inv w' \<and> as_worker_error (dw_state w') \<noteq> 0"
    using assms(1)
  proof (induction rule: rtranclp_induct)
    case (step w1 w2)
    then show ?case using dw_inv_step worker_error_kept by blast
  qed (use assms in simp)
  then show ?thesis by (auto simp: dw_inv_def sup_ok_def done_ok_def)
qed

end

section \<open>Properties\<close>

text \<open>C11. The pipeline demo keeps its books: over any queue that behaves as the library's, under every
  interleaving of the six workers, the supervisor, the timer and the clock, with any library call failing,
  a report is only given when all workers have ended, it counts as produced exactly the packets that were
  consumed or are still queued, and no packet was corrupt; and as long as no worker recorded an error the
  demo never claims that more was consumed than produced, that a checksum was wrong or that the queue
  exceeded its capacity.\<close>

theorem pipeline_accounts:
  assumes "demo_queue snd_ret rcv_ret cls contents capacity closed invar"
    and "invar q" and "contents q = []" and "capacity q = demo_queue_capacity"
    and "(demo_step snd_ret rcv_ret cls (\<lambda>q. length (contents q)))\<^sup>*\<^sup>* (demo_init q now) w"
    and "dw_sup w = SDone r"
  shows "(\<forall>rep. r = Inr rep \<longrightarrow> all_done w \<and> rp_checksum_error rep = 0
        \<and> unat (rp_produced rep) = unat (rp_consumed rep) + length (contents (as_queue (dw_state w))))
    \<and> (as_worker_error (dw_state w) = 0 \<longrightarrow> (\<forall>e. r = Inl e \<longrightarrow> e \<notin> false_alarms))"
proof -
  have inv: "demo_queue.dw_inv contents capacity invar w"
    by (rule demo_queue.dw_inv_reachable [OF assms(1-5)])
  then have d: "done_ok w r" using assms(6) by (simp add: demo_queue.dw_inv_def [OF assms(1)] sup_ok_def)
  have "unat (rp_produced rep) = unat (rp_consumed rep) + length (contents (as_queue (dw_state w)))"
    if "r = Inr rep" for rep
  proof -
    have quiet: "\<And>i. i < total_ready_tasks \<Longrightarrow> pending (dw_workers w i) = 0 \<and> taken (dw_workers w i) = 0"
      using d that by (auto simp: done_ok_def all_done_def)
    have "demo_queue.balanced contents w"
      using inv d that by (simp add: demo_queue.dw_inv_def [OF assms(1)] done_ok_def)
    then show ?thesis
      using d that quiet by (simp add: demo_queue.balanced_def [OF assms(1)] demo_queue.backlog_def [OF assms(1)]
          done_ok_def)
  qed
  then show ?thesis using d by (auto simp: done_ok_def)
qed

end
