(* ===== verification/Demo_Posix.thy ===== *)
theory Demo_Posix
  imports Demo_Pipeline Posix_Queue
begin

text \<open>
  The pipeline demo on the POSIX queue: the calls of \<open>Posix_Queue\<close> are calls of the kind the demo relies
  on. The theory also follows the demo's shutdown, in which a producer can take the closing of the queue
  for a failure.
\<close>

interpretation posixdemo: demo_queue posix_send_returns posix_recv_returns bq_close bq_contents bq_capacity
  bq_closed bq_inv
  by (intro demo_queue.intro posixcalls.queue_calls_axioms)

abbreviation posix_demo_step :: "byte_queue demo_world \<Rightarrow> byte_queue demo_world \<Rightarrow> bool" where
  "posix_demo_step \<equiv> demo_step posix_send_returns posix_recv_returns bq_close (\<lambda>q. length (bq_contents q))"

lemma demo_queue_new:
  assumes "byte_queue_new reserve demo_queue_capacity demo_packet_size = Ok q"
  shows "bq_inv q" "bq_contents q = []" "bq_capacity q = demo_queue_capacity"
  using byte_queue_new_inv [OF assms] by (simp_all add: bq_abs_def)



section \<open>Runs\<close>

definition demo_ring :: byte_queue where
  "demo_ring = \<lparr>bq_storage = replicate 2048 0, bq_capacity = 128, bq_message_size = 16, bq_head = 0, bq_tail = 0,
     bq_len = 0, bq_closed = False\<rparr>"

lemma demo_ring_new: "byte_queue_new (\<lambda>_. True) demo_queue_capacity demo_packet_size = Ok demo_ring"
  by (simp add: byte_queue_new_def checked_mul_def usize_max_def demo_queue_capacity_def demo_packet_size_def
      demo_ring_def)


lemma sup_step_eq: "sup_step cls len w v \<Longrightarrow> v = w' \<Longrightarrow> demo_step snd_ret rcv_ret cls len w w'"
  by (simp add: demo_step.supervisor)

text \<open>The first spawn fails: the demo stops, closes the queue, has nothing to join and reports the error.\<close>

definition demo_no_spawn :: "byte_queue demo_world" where
  "demo_no_spawn = (demo_init demo_ring 0)
     \<lparr>dw_state := (set_bit_of stop_bit (dw_state (demo_init demo_ring 0)))\<lparr>as_queue := bq_close demo_ring\<rparr>,
      dw_sup := SDone (Inl (DemoOsal ''pipeline.producer.spawn'' OutOfMemory))\<rparr>"

lemma demo_no_spawn_reachable: "posix_demo_step\<^sup>*\<^sup>* (demo_init demo_ring 0) demo_no_spawn"
proof -
  let ?e = "Some (DemoOsal ''pipeline.producer.spawn'' OutOfMemory)"
  let ?w0 = "demo_init demo_ring 0"
  let ?w1 = "?w0\<lparr>dw_sup := SStop ?e 0\<rparr>"
  let ?w2 = "?w1\<lparr>dw_state := set_bit_of stop_bit (dw_state ?w1), dw_sup := SClose ?e 0\<rparr>"
  let ?w3 = "?w2\<lparr>dw_state := (dw_state ?w2)\<lparr>as_queue := bq_close (as_queue (dw_state ?w2))\<rparr>,
      dw_sup := SJoin ?e 0 0 None\<rparr>"
  have 1: "posix_demo_step ?w0 ?w1"
    by (rule sup_step_eq [OF sup_step.spawn_error [of _ 0]])
      (simp_all add: demo_init_def total_ready_tasks_def spawn_context_def worker_role_of_def producer_count_def)
  have 2: "posix_demo_step ?w1 ?w2" by (intro demo_step.supervisor sup_step.stop_requested) simp
  have 3: "posix_demo_step ?w2 ?w3" by (intro demo_step.supervisor sup_step.queue_closed) simp
  have 4: "posix_demo_step ?w3 (?w3\<lparr>dw_sup := after_joins ?e None\<rparr>)"
    by (intro demo_step.supervisor sup_step.joined) simp
  moreover have "?w3\<lparr>dw_sup := after_joins ?e None\<rparr> = demo_no_spawn"
    by (simp add: demo_no_spawn_def after_joins_def demo_init_def)
  ultimately show ?thesis
    using 1 2 3 by (metis (no_types, lifting) rtranclp.rtrancl_into_rtrancl rtranclp.rtrancl_refl)
qed

theorem pipeline_accounts_witness:
  "as_worker_error (dw_state demo_no_spawn) = 0
   \<and> DemoOsal ''pipeline.producer.spawn'' OutOfMemory \<notin> false_alarms"
proof -
  have "dw_sup demo_no_spawn = SDone (Inl (DemoOsal ''pipeline.producer.spawn'' OutOfMemory))"
    "as_worker_error (dw_state demo_no_spawn) = 0"
    by (simp_all add: demo_no_spawn_def demo_init_def)
  then show ?thesis
    using pipeline_accounts [OF posixdemo.demo_queue_axioms demo_queue_new [OF demo_ring_new] demo_no_spawn_reachable]
    by blast
qed



definition demo_gated :: "nat \<Rightarrow> byte_queue demo_world" where
  "demo_gated n = (demo_init demo_ring 0)
     \<lparr>dw_workers := (\<lambda>i. if i < n then WGate (worker_role_of i)
        else if i < total_ready_tasks then WReady (worker_role_of i) else WAbsent),
      dw_sup := SReady (total_ready_tasks - n)\<rparr>"




text \<open>A world of the last stretch: the start bit is set and nobody has moved yet.\<close>

definition demo_waiting :: "nat \<Rightarrow> sup_pc \<Rightarrow> byte_queue demo_world" where
  "demo_waiting c u = (demo_gated total_ready_tasks)
     \<lparr>dw_state := set_bit_of start_bit (dw_state (demo_gated total_ready_tasks)), dw_clock := c, dw_sup := u\<rparr>"

lemma demo_waiting_sel [simp]:
  "dw_sup (demo_waiting c u) = u" "dw_clock (demo_waiting c u) = c"
  "as_monitor_samples (dw_state (demo_waiting c u)) = 0"
  "(demo_waiting c u)\<lparr>dw_sup := v\<rparr> = demo_waiting c v" "(demo_waiting c u)\<lparr>dw_clock := d\<rparr> = demo_waiting d u"
  by (simp_all add: demo_waiting_def demo_gated_def demo_init_def set_bit_of_def)







end
