(* ===== verification/Demo_Mock.thy ===== *)
theory Demo_Mock
  imports Demo_Runtime Mock_Backend
begin

text \<open>
  The frame of the demos on the mock backend: its clock and its shutdown meet \<open>settling_runtime\<close>, as long as
  timer callbacks only operate on timers.
\<close>

definition mock_now :: "('cb, 'z) mock_world_scheme \<Rightarrow> duration \<times> ('cb, 'z) mock_world_scheme" where
  "mock_now w = (case mock_clock_now (mw_time w) of (t, g) \<Rightarrow> (t, w\<lparr>mw_time := g\<rparr>))"

definition mock_delay ::
  "('cb \<Rightarrow> 'cb mock_time_runtime option \<Rightarrow> 'cb \<times> 'cb mock_time_runtime option) \<Rightarrow> duration \<Rightarrow> ('cb, 'z) mock_world_scheme
    \<Rightarrow> ('cb, 'z) mock_world_scheme option" where
  "mock_delay run d w = map_option (\<lambda>g. w\<lparr>mw_time := g\<rparr>) (advance_and_dispatch run d (mw_time w))"

definition mock_clock_ok :: "'cb mock_world \<Rightarrow> bool" where
  "mock_clock_ok w \<longleftrightarrow> mt_inv (global_runtime (mw_time w)) \<and> mt_idle (global_runtime (mw_time w))"

definition mock_holds :: "nat \<Rightarrow> 'cb mock_world \<Rightarrow> bool" where
  "mock_holds n w \<longleftrightarrow> mock_clock_ok w \<and> mock_state w = Running \<and> unat (mock_active_objects w) = n"

lemma mock_holds_time:
  "mock_holds n w \<Longrightarrow> mt_inv rt \<Longrightarrow> mt_idle rt \<Longrightarrow> mock_holds n (w\<lparr>mw_time := Some rt\<rparr>)"
  by (simp add: mock_holds_def mock_clock_ok_def mock_state_def mock_active_objects_def global_runtime_def)

lemma mock_holds_shutdown:
  assumes "mock_holds n w"
  shows "if n = 0 then \<exists>w'. mock_shutdown w = (Ok (), w') \<and> mock_state w' = Uninitialized
    else mock_shutdown w = (Err Busy, w)"
  using mock_shutdown_cases [of w] running_mw_inv assms by (auto simp: mock_holds_def)

lemma mock_delay_waits:
  assumes "commands_only run" and "mock_holds n w"
  shows "\<exists>w'. mock_delay run d w = Some w' \<and> mock_holds n w'
    \<and> dur_saturating_add (mr_now (global_runtime (mw_time w))) d \<le> mr_now (global_runtime (mw_time w'))"
proof -
  let ?rt = "advance_time d (global_runtime (mw_time w))"
  have "mt_inv ?rt" "mt_idle ?rt"
    using assms(2) by (simp_all add: mock_holds_def mock_clock_ok_def mt_inv_def mt_idle_def advance_time_def)
  from dispatch_loop_ends [OF assms(1) this] obtain rt' where
    "dispatch_loop run (Some ?rt) = Some (Some rt')" "mt_inv rt'" "mt_idle rt'" "mr_now rt' = mr_now ?rt" by blast
  then show ?thesis
    using mock_holds_time [OF assms(2)]
    by (simp add: mock_delay_def advance_and_dispatch_def with_runtime_def global_runtime_def advance_time_def)
qed

interpretation mockdemo: settling_runtime mock_shutdown mock_now "mock_delay run"
  "\<lambda>w. mr_now (global_runtime (mw_time w))" "\<lambda>w. commands_only run \<and> mock_holds n w"
  for run n
proof
  fix w w' :: "'a mock_world" and t
  assume "commands_only run \<and> mock_holds n w" "mock_now w = (t, w')"
  then show "(commands_only run \<and> mock_holds n w') \<and> mr_now (global_runtime (mw_time w)) \<le> t
      \<and> t \<le> mr_now (global_runtime (mw_time w'))"
    using mock_holds_time [of n w "global_runtime (mw_time w)"]
    by (auto simp: mock_now_def mock_clock_now_def with_runtime_def mock_holds_def mock_clock_ok_def global_runtime_def)
next
  fix w w' :: "'a mock_world"
  assume "commands_only run \<and> mock_holds n w" "mock_shutdown w = (Err Busy, w')"
  then show "(commands_only run \<and> mock_holds n w')
      \<and> mr_now (global_runtime (mw_time w)) \<le> mr_now (global_runtime (mw_time w'))"
    using mock_holds_shutdown [of n w] by (auto split: if_splits)
qed (use mock_holds_shutdown mock_delay_waits in \<open>fastforce split: if_splits\<close>)+

lemma mock_settled:
  assumes "commands_only run" and "mock_holds n w"
    and "as_nanos (mr_now (global_runtime (mw_time w))) + as_nanos settle_timeout < duration_limit"
  shows "\<exists>w'. shutdown_settled mock_shutdown mock_now (mock_delay run) w
      = Some (if n = 0 then Inr () else Inl (shutdown_failed Busy), w') \<and> (n = 0 \<longrightarrow> mock_state w' = Uninitialized)"
proof -
  obtain t w1 where now: "mock_now w = (t, w1)" by (cases "mock_now w")
  then have "t = mr_now (global_runtime (mw_time w))"
    by (simp add: mock_now_def mock_clock_now_def with_runtime_def)
  then obtain deadline where "dur_checked_add t settle_timeout = Some deadline"
    using assms(3) by (simp add: dur_checked_add_def)
  from mockdemo.settled_ends [OF conjI [OF assms(1,2)] now this] obtain r w' where
    run: "shutdown_settled mock_shutdown mock_now (mock_delay run) w = Some (r, w')"
      "mockdemo.settled run n deadline r w'" by blast
  then show ?thesis
    using mock_holds_shutdown [of n] by (fastforce simp: mockdemo.settled_def split: sum.splits if_splits)
qed

section \<open>Property\<close>

text \<open>A demo leaves the mock runtime shut down or says so: the frame of the demos returns, whatever timers
  fire while it waits. A failed body is reported with its own error; a body that succeeds and holds
  no object any more gives its value and leaves the runtime uninitialised; one that leaks an object is
  refused with \<open>Busy\<close> after the bounded wait.\<close>

theorem demo_frame_reports_leaks:
  assumes "commands_only run" and "mock_initialize w = (Ok (), w1)" and "body w1 = Some (r, w2)"
    and "mock_clock_ok w2" and "mock_state w2 = Running"
    and "as_nanos (mr_now (global_runtime (mw_time w2))) + as_nanos settle_timeout < duration_limit"
  shows "\<exists>w3. demo_with_runtime mock_initialize mock_shutdown mock_now (mock_delay run) body w
      = Some (case r of
          Inl e \<Rightarrow> Inl e
        | Inr v \<Rightarrow> if mock_active_objects w2 = 0 then Inr v else Inl (shutdown_failed Busy), w3)
    \<and> (mock_active_objects w2 = 0 \<longrightarrow> mock_state w3 = Uninitialized)"
proof -
  have "mock_holds (unat (mock_active_objects w2)) w2" using assms(4,5) by (simp add: mock_holds_def)
  from mock_settled [OF assms(1) this assms(6)] show ?thesis
    using assms(2,3) by (auto simp: demo_with_runtime_def unat_eq_zero split: sum.splits)
qed

text \<open>A body that creates a semaphore and keeps it, with no timers.\<close>

definition leaking_body :: "nat mock_world \<Rightarrow> ((demo_error + nat) \<times> nat mock_world) option" where
  "leaking_body w = (case mock_semaphore_new 3 1 w of
     (Ok _, w') \<Rightarrow> Some (Inr 7, w')
   | (Err e, w') \<Rightarrow> Some (Inl (DemoOsal ''semaphore'' e), w')
   | (Panic _, _) \<Rightarrow> None)"

lemma lifecycle_words:
  "begin_initialize lifecycle_new = (Ok (), 1)" "initialize_commit 1 = (Ok (), 2)" "acquire 2 = (Ok (), 6)"
  "decode_state 6 = Running" "decode_count 6 \<noteq> 0"
  by code_simp+

definition leaking_world :: "nat mock_world" where
  "leaking_world = mock_world_initial\<lparr>mw_lifecycle := 6, mw_time := Some (mock_time_new\<lparr>mr_epoch := 2\<rparr>)\<rparr>"

lemma leaking_run:
  "mock_initialize mock_world_initial = (Ok (), leaking_world\<lparr>mw_lifecycle := 2\<rparr>)"
  "leaking_body (leaking_world\<lparr>mw_lifecycle := 2\<rparr>) = Some (Inr 7, leaking_world)"
proof -
  have "cs_new 3 1 = Ok \<lparr>cs_max_count = 3, cs_count = 1\<rparr>" by (simp add: cs_new_def)
  then show "leaking_body (leaking_world\<lparr>mw_lifecycle := 2\<rparr>) = Some (Inr 7, leaking_world)"
    by (simp add: leaking_body_def mock_semaphore_new_def mock_acquire_object_def on_lifecycle_def lifecycle_words
        leaking_world_def mock_world_initial_def)
  show "mock_initialize mock_world_initial = (Ok (), leaking_world\<lparr>mw_lifecycle := 2\<rparr>)"
    by (simp add: mock_initialize_def on_lifecycle_def mock_world_initial_def leaking_world_def lifecycle_words
        reset_runtime_def with_runtime_def reset_and_detach_def global_runtime_def mock_time_new_def)
qed

theorem demo_frame_reports_leaks_witness:
  "\<exists>w3. demo_with_runtime mock_initialize mock_shutdown mock_now (mock_delay (\<lambda>cb g. (cb, g))) leaking_body
      mock_world_initial = Some (Inl (shutdown_failed Busy), w3)"
proof -
  have "commands_only (\<lambda>(cb :: nat) g. (cb, g))"
    by (auto simp: commands_only_def exec_cmds_def intro: exI [of _ "[]"])
  moreover have "mock_clock_ok leaking_world"
    by (simp add: mock_clock_ok_def leaking_world_def global_runtime_def mt_inv_def mt_idle_def mock_time_new_def)
  moreover have "as_nanos (mr_now (global_runtime (mw_time leaking_world))) + as_nanos settle_timeout < duration_limit"
    by (simp add: leaking_world_def global_runtime_def mock_time_new_def settle_timeout_def duration_limit_eq)
  moreover have "mock_state leaking_world = Running" "mock_active_objects leaking_world \<noteq> 0"
    by (simp_all add: mock_state_def mock_active_objects_def leaking_world_def lifecycle_words)
  ultimately show ?thesis
    using demo_frame_reports_leaks [of "\<lambda>cb g. (cb, g)" mock_world_initial _ leaking_body, OF _ leaking_run] by auto
qed

end
