(* ===== verification/Contract_Kit.thy ===== *)
theory Contract_Kit
  imports Osal_Types
begin

text \<open>
  The frame of the contract test kit (src/crates/osal-testkit): assertions, tests that own one object, and
  suites. A failed assertion or an \<open>unwrap\<close> of an error is a panic. The state of a test is its object
  while that is alive, with the backend's world around it. A test with clones works on handles: the object is the cell
  of a reference-counted heap, as behind \<open>Arc\<close> and \<open>Rc\<close>, a clone is whatever handle the backend's \<open>clone\<close> makes, and the drop
  of a handle drops the object of its cell only when it was the last. The locale \<open>tested_object\<close> relates an object
  to an abstract state: a test passes on every object that implements the abstract operations if it passes on those.
\<close>

section \<open>Assertions (assertions.rs)\<close>

definition osal_assert :: "bool \<Rightarrow> 's \<Rightarrow> unit res \<times> 's" where
  "osal_assert b s = (if b then Ok () else Panic ''assertion failed'', s)"

definition unwrap :: "'a res \<times> 's \<Rightarrow> 'a res \<times> 's" where
  "unwrap rs = (case rs of (Err e, s) \<Rightarrow> (Panic ''called unwrap on an Err value'', s) | _ \<Rightarrow> rs)"

text \<open>\<open>let result = call;\<close> keeps the outcome for a later assertion; a panic ends the test.\<close>

definition observe :: "'a res \<times> 's \<Rightarrow> 'a res res \<times> 's" where
  "observe rs = (case rs of (Panic m, s) \<Rightarrow> (Panic m, s) | (r, s) \<Rightarrow> (Ok r, s))"

section \<open>Tests and suites\<close>

text \<open>A test creates its object, works with it and drops it at the end of the scope.\<close>

definition with_object ::
  "('w \<Rightarrow> 'q res \<times> 'w) \<Rightarrow> ('q \<Rightarrow> 'w \<Rightarrow> unit res \<times> 'w) \<Rightarrow> ('q \<Rightarrow> unit res \<times> 'q) \<Rightarrow> 'w \<Rightarrow> unit res \<times> 'w" where
  "with_object mk del body w =
     st_bind (unwrap (mk w)) (\<lambda>q w1. case body q of (r, q') \<Rightarrow> st_bind (r, w1) (\<lambda>_ w2. del q' w2))"

text \<open>Reference-counted cells: a handle is the position of its cell, a cell has its contents and the number of its handles.
  \<open>arc_clone\<close> is the \<open>clone\<close> of \<open>Arc\<close>, \<open>arc_drop\<close> the drop of a handle.\<close>

type_synonym 'q arc_heap = "('q \<times> nat) list"

definition arc_clone :: "nat \<Rightarrow> 'q arc_heap \<Rightarrow> nat \<times> 'q arc_heap" where
  "arc_clone i h = (i, h[i := (fst (h ! i), Suc (snd (h ! i)))])"

definition arc_drop ::
  "('q \<Rightarrow> 'w \<Rightarrow> unit res \<times> 'w) \<Rightarrow> nat \<Rightarrow> 'q arc_heap \<times> 'w \<Rightarrow> unit res \<times> 'q arc_heap \<times> 'w" where
  "arc_drop del i s =
     (case s of (h, w) \<Rightarrow> case h ! i of (q, n) \<Rightarrow>
      if n = 1 then (case del q w of (r, w1) \<Rightarrow> (r, h[i := (q, 0)], w1)) else (Ok (), h[i := (q, n - 1)], w))"

definition clone_handle ::
  "(nat \<Rightarrow> 'q arc_heap \<Rightarrow> nat \<times> 'q arc_heap) \<Rightarrow> nat \<Rightarrow> 'q arc_heap \<times> 'w \<Rightarrow> nat res \<times> 'q arc_heap \<times> 'w" where
  "clone_handle cl i s = (case s of (h, w) \<Rightarrow> case cl i h of (j, h1) \<Rightarrow> (Ok j, h1, w))"

text \<open>The object behind a handle, a call on it, and a call on it that acts on the world.\<close>

definition behind :: "nat \<Rightarrow> 'q arc_heap \<times> 'w \<Rightarrow> 'q" where
  "behind i s = fst (fst s ! i)"

definition on_handle :: "nat \<Rightarrow> ('q \<Rightarrow> 'a res \<times> 'q) \<Rightarrow> 'q arc_heap \<times> 'w \<Rightarrow> 'a res \<times> 'q arc_heap \<times> 'w" where
  "on_handle i f s =
     (case s of (h, w) \<Rightarrow> case h ! i of (q, n) \<Rightarrow> case f q of (r, q1) \<Rightarrow> (r, h[i := (q1, n)], w))"

definition at_handle :: "nat \<Rightarrow> ('q \<Rightarrow> 'w \<Rightarrow> 'a res \<times> 'w) \<Rightarrow> 'q arc_heap \<times> 'w \<Rightarrow> 'a res \<times> 'q arc_heap \<times> 'w" where
  "at_handle i f s = (case s of (h, w) \<Rightarrow> case f (fst (h ! i)) w of (r, w1) \<Rightarrow> (r, h, w1))"

text \<open>A test that creates its object behind the first handle, and drops its handles itself.\<close>

definition with_handle ::
  "('w \<Rightarrow> 'q res \<times> 'w) \<Rightarrow> (nat \<Rightarrow> 'q arc_heap \<times> 'w \<Rightarrow> unit res \<times> 'q arc_heap \<times> 'w) \<Rightarrow> 'w \<Rightarrow> unit res \<times> 'w" where
  "with_handle mk body w =
     st_bind (unwrap (mk w)) (\<lambda>q w1. case body 0 ([(q, 1)], w1) of (r, h, w2) \<Rightarrow> (r, w2))"

text \<open>A test that expects the construction to fail.\<close>

definition expect_rejected :: "('w \<Rightarrow> 'q res \<times> 'w) \<Rightarrow> error \<Rightarrow> 'w \<Rightarrow> unit res \<times> 'w" where
  "expect_rejected mk e w = st_bind (observe (mk w)) (\<lambda>result w. osal_assert (result = Err e) w)"

primrec run_contracts :: "('w \<Rightarrow> unit res \<times> 'w) list \<Rightarrow> 'w \<Rightarrow> unit res \<times> 'w" where
  "run_contracts [] w = (Ok (), w)"
| "run_contracts (c # cs) w = st_bind (c w) (\<lambda>_ w1. run_contracts cs w1)"

text \<open>The duration the contracts wait, and the timeouts they use.\<close>

definition ten_ms :: duration where "ten_ms = of_nanos 10000000"

definition kit_timeout :: "timeout \<Rightarrow> bool" where
  "kit_timeout t \<longleftrightarrow> t = NoWait \<or> t = After ten_ms \<or> t = After duration_zero"

definition res_val :: "'a res \<Rightarrow> 'a" where
  "res_val r = (case r of Ok x \<Rightarrow> x | _ \<Rightarrow> undefined)"

lemma res_val_Ok [simp]: "res_val (Ok x) = x"
  by (simp add: res_val_def)

section \<open>Objects under test\<close>

text \<open>An object with an abstract state; \<open>refines\<close> relates a call to an abstract operation.\<close>

locale abstracted =
  fixes abs :: "'q \<Rightarrow> 'f"
    and invar :: "'q \<Rightarrow> bool"
begin

definition refines :: "('q \<Rightarrow> 'a res \<times> 'q) \<Rightarrow> ('f \<Rightarrow> 'a res \<times> 'f) \<Rightarrow> bool" where
  "refines call spec \<longleftrightarrow>
     (\<forall>q. invar q \<longrightarrow> (\<exists>q'. call q = (fst (spec (abs q)), q') \<and> invar q' \<and> abs q' = snd (spec (abs q))))"

text \<open>A body that succeeds from every object in the abstract state \<open>f\<close>.\<close>

definition passes :: "'f \<Rightarrow> ('q \<Rightarrow> unit res \<times> 'q) \<Rightarrow> bool" where
  "passes f body \<longleftrightarrow> (\<forall>q. invar q \<and> abs q = f \<longrightarrow> (\<exists>q'. body q = (Ok (), q') \<and> invar q'))"

lemma passes_assert:
  "(\<And>q. invar q \<Longrightarrow> abs q = f \<Longrightarrow> P q) \<Longrightarrow> passes f (\<lambda>q. osal_assert (P q) q)"
  by (simp add: passes_def osal_assert_def)

lemma passes_assert_then:
  "(\<And>q. invar q \<Longrightarrow> abs q = f \<Longrightarrow> P q) \<Longrightarrow> passes f k
    \<Longrightarrow> passes f (\<lambda>q. st_bind (osal_assert (P q) q) (\<lambda>_ q. k q))"
  by (simp add: passes_def osal_assert_def)

lemma passes_last_assert [simp]: "b \<Longrightarrow> passes f (osal_assert b)"
  by (simp add: passes_def osal_assert_def)

lemma passes_call:
  assumes "refines call spec" and "is_ok (fst (spec f))" and "passes (snd (spec f)) (k (res_val (fst (spec f))))"
  shows "passes f (\<lambda>q. st_bind (call q) (\<lambda>x q. k x q))"
  unfolding passes_def
proof (intro allI impI)
  fix q assume "invar q \<and> abs q = f"
  with assms(1) obtain q1 where "call q = (fst (spec f), q1)" "invar q1" "abs q1 = snd (spec f)"
    by (auto simp: refines_def)
  with assms(2,3) show "\<exists>q'. st_bind (call q) (\<lambda>x q. k x q) = (Ok (), q') \<and> invar q'"
    by (cases "fst (spec f)") (auto simp: passes_def)
qed

lemma passes_observe:
  assumes "refines call spec" and "\<not> is_panic (fst (spec f))" and "passes (snd (spec f)) (k (fst (spec f)))"
  shows "passes f (\<lambda>q. st_bind (observe (call q)) (\<lambda>r q. k r q))"
proof (rule passes_call [where spec = "\<lambda>f. observe (spec f)"])
  show "refines (\<lambda>q. observe (call q)) (\<lambda>f. observe (spec f))"
    using assms(1) by (force simp: refines_def observe_def split: res.splits prod.splits)
qed (use assms(2,3) in \<open>auto simp: observe_def split: res.splits prod.splits\<close>)

lemma passes_unwrap:
  assumes "refines call spec" and "is_ok (fst (spec f))" and "passes (snd (spec f)) (k (res_val (fst (spec f))))"
  shows "passes f (\<lambda>q. st_bind (unwrap (call q)) (\<lambda>x q. k x q))"
proof (rule passes_call [where spec = "\<lambda>f. unwrap (spec f)"])
  show "refines (\<lambda>q. unwrap (call q)) (\<lambda>f. unwrap (spec f))"
    using assms(1) by (force simp: refines_def unwrap_def split: res.splits prod.splits)
qed (use assms(2,3) in \<open>auto simp: unwrap_def split: res.splits prod.splits\<close>)

lemma passes_last_unwrap:
  assumes "refines call spec" and "fst (spec f) = Ok ()"
  shows "passes f (\<lambda>q. unwrap (call q))"
  using assms by (fastforce simp: passes_def refines_def unwrap_def)

lemma passes_run:
  "(\<And>c f. c \<in> set cs \<Longrightarrow> passes f c) \<Longrightarrow> passes f (run_contracts cs)"
proof (induction cs arbitrary: f)
  case (Cons c cs)
  then have "passes f c" "passes g (run_contracts cs)" for g by simp_all
  then show ?case unfolding passes_def by fastforce
qed (simp add: passes_def)

end

text \<open>A backend's objects of one kind: a test starts and ends in a world that is ready for an object.\<close>

locale tested_object = abstracted abs invar
  for abs :: "'q \<Rightarrow> 'f" and invar +
  fixes del :: "'q \<Rightarrow> 'w \<Rightarrow> unit res \<times> 'w"
    and ready :: "'w \<Rightarrow> bool"
    and holding :: "'w \<Rightarrow> bool"
  assumes drop_ok: "holding w \<Longrightarrow> invar q \<Longrightarrow> \<exists>w'. del q w = (Ok (), w') \<and> ready w'"
begin

definition makes :: "('w \<Rightarrow> 'q res \<times> 'w) \<Rightarrow> 'f \<Rightarrow> bool" where
  "makes mk f \<longleftrightarrow> (\<forall>w. ready w \<longrightarrow> (\<exists>q w'. mk w = (Ok q, w') \<and> invar q \<and> abs q = f \<and> holding w'))"

definition clean :: "('w \<Rightarrow> unit res \<times> 'w) \<Rightarrow> bool" where
  "clean c \<longleftrightarrow> (\<forall>w. ready w \<longrightarrow> (\<exists>w'. c w = (Ok (), w') \<and> ready w'))"

lemma clean_object: "makes mk f \<Longrightarrow> passes f body \<Longrightarrow> clean (with_object mk del body)"
  using drop_ok by (fastforce simp: clean_def makes_def passes_def with_object_def unwrap_def)

text \<open>A program on \<open>n\<close> handles of one object in the abstract state \<open>f\<close> that drops them all.\<close>

definition shares :: "'f \<Rightarrow> nat \<Rightarrow> ('q arc_heap \<times> 'w \<Rightarrow> unit res \<times> 'q arc_heap \<times> 'w) \<Rightarrow> bool" where
  "shares f n body \<longleftrightarrow> (\<forall>q w. invar q \<and> abs q = f \<and> holding w \<longrightarrow> (\<exists>h w'. body ([(q, n)], w) = (Ok (), h, w') \<and> ready w'))"

lemma clean_handle: "makes mk f \<Longrightarrow> shares f (Suc 0) (body 0) \<Longrightarrow> clean (with_handle mk body)"
  by (fastforce simp: clean_def makes_def shares_def with_handle_def unwrap_def)

lemma shares_clone:
  "(\<And>h. cl 0 h = arc_clone 0 h) \<Longrightarrow> shares f (Suc n) (k 0) \<Longrightarrow> shares f n (\<lambda>s. st_bind (clone_handle cl 0 s) (\<lambda>j s. k j s))"
  by (simp add: shares_def clone_handle_def arc_clone_def)

lemma shares_drop: "shares f (Suc n) k \<Longrightarrow> shares f (Suc (Suc n)) (\<lambda>s. st_bind (arc_drop del 0 s) (\<lambda>_ s. k s))"
  by (simp add: shares_def arc_drop_def)

lemma shares_last_drop: "shares f (Suc 0) (arc_drop del 0)"
  using drop_ok by (fastforce simp: shares_def arc_drop_def)

lemma shares_assert:
  "(\<And>q. invar q \<Longrightarrow> abs q = f \<Longrightarrow> P q) \<Longrightarrow> shares f n k
    \<Longrightarrow> shares f n (\<lambda>s. st_bind (osal_assert (P (behind 0 s)) s) (\<lambda>_ s. k s))"
  by (simp add: shares_def osal_assert_def behind_def)

lemma shares_assert_value: "b \<Longrightarrow> shares f n k \<Longrightarrow> shares f n (\<lambda>s. st_bind (osal_assert b s) (\<lambda>_ s. k s))"
  by (simp add: shares_def osal_assert_def)

lemma shares_call:
  assumes "refines call spec" and "is_ok (fst (spec f))" and "shares (snd (spec f)) n (k (res_val (fst (spec f))))"
  shows "shares f n (\<lambda>s. st_bind (on_handle 0 call s) (\<lambda>x s. k x s))"
  unfolding shares_def
proof (intro allI impI)
  fix q w assume q: "invar q \<and> abs q = f \<and> holding w"
  with assms(1) obtain q1 where "call q = (fst (spec f), q1)" "invar q1" "abs q1 = snd (spec f)"
    by (auto simp: refines_def)
  with assms(2,3) q show "\<exists>h w'. st_bind (on_handle 0 call ([(q, n)], w)) (\<lambda>x s. k x s) = (Ok (), h, w') \<and> ready w'"
    by (cases "fst (spec f)") (auto simp: shares_def on_handle_def)
qed

lemma shares_unwrap:
  assumes "refines call spec" and "is_ok (fst (spec f))" and "shares (snd (spec f)) n (k (res_val (fst (spec f))))"
  shows "shares f n (\<lambda>s. st_bind (unwrap (on_handle 0 call s)) (\<lambda>x s. k x s))"
proof -
  have "unwrap (on_handle 0 call s) = on_handle 0 (\<lambda>q. unwrap (call q)) s" for s :: "'q arc_heap \<times> 'w"
    by (auto simp: unwrap_def on_handle_def split: res.splits prod.splits)
  moreover have "refines (\<lambda>q. unwrap (call q)) (\<lambda>f. unwrap (spec f))"
    using assms(1) by (force simp: refines_def unwrap_def split: res.splits prod.splits)
  moreover have "unwrap (spec f) = spec f" using assms(2) by (auto simp: unwrap_def split: res.splits prod.splits)
  ultimately show ?thesis using shares_call [of "\<lambda>q. unwrap (call q)" "\<lambda>f. unwrap (spec f)"] assms(2,3) by simp
qed

lemma shares_observe:
  assumes "refines call spec" and "\<not> is_panic (fst (spec f))" and "shares (snd (spec f)) n (k (fst (spec f)))"
  shows "shares f n (\<lambda>s. st_bind (observe (on_handle 0 call s)) (\<lambda>r s. k r s))"
proof -
  have "observe (on_handle 0 call s) = on_handle 0 (\<lambda>q. observe (call q)) s" for s :: "'q arc_heap \<times> 'w"
    by (auto simp: observe_def on_handle_def split: res.splits prod.splits)
  moreover have "refines (\<lambda>q. observe (call q)) (\<lambda>f. observe (spec f))"
    using assms(1) by (force simp: refines_def observe_def split: res.splits prod.splits)
  moreover have "observe (spec f) = (Ok (fst (spec f)), snd (spec f))"
    using assms(2) by (auto simp: observe_def split: res.splits prod.splits)
  ultimately show ?thesis using shares_call [of "\<lambda>q. observe (call q)" "\<lambda>f. observe (spec f)"] assms(3) by simp
qed

lemmas handle_rules = shares_clone shares_drop shares_last_drop shares_assert shares_assert_value

lemma clean_rejected: "(\<And>w. mk w = (Err e, w)) \<Longrightarrow> clean (expect_rejected mk e)"
  by (simp add: clean_def expect_rejected_def observe_def osal_assert_def)

lemma clean_run: "clean (run_contracts [])" "clean c \<Longrightarrow> clean (run_contracts cs) \<Longrightarrow> clean (run_contracts (c # cs))"
  by (fastforce simp: clean_def)+

end

end
