(* ===== verification/Contract_Queue.thy ===== *)
theory Contract_Queue
  imports Contract_Kit Queue_Interface
begin

text \<open>
  The queue contracts of the test kit (src/crates/osal-testkit/src/contract/queue and lifetime.rs) as
  programs over a backend. The locale \<open>queue_backend\<close> says when a backend implements the abstract FIFO of
  \<open>Queue_Interface\<close> for callers that are alone, and every such backend passes the contracts.
\<close>

section \<open>Queues under test\<close>

record ('w, 'q) queue_kit =
  qk_create :: "nat \<Rightarrow> nat \<Rightarrow> 'w \<Rightarrow> 'q res \<times> 'w"
  qk_clone :: "nat \<Rightarrow> 'q arc_heap \<Rightarrow> nat \<times> 'q arc_heap"
  qk_drop :: "'q \<Rightarrow> 'w \<Rightarrow> unit res \<times> 'w"
  qk_send :: "u8 list \<Rightarrow> timeout \<Rightarrow> 'q \<Rightarrow> unit res \<times> 'q"
  qk_recv :: "u8 list \<Rightarrow> timeout \<Rightarrow> 'q \<Rightarrow> unit res \<times> 'q \<times> u8 list"
  qk_close :: "'q \<Rightarrow> unit res \<times> 'q"
  qk_capacity :: "'q \<Rightarrow> nat"
  qk_msg_size :: "'q \<Rightarrow> nat"
  qk_len :: "'q \<Rightarrow> nat res"

text \<open>The provided methods of the trait.\<close>

definition qk_is_empty :: "('w, 'q) queue_kit \<Rightarrow> 'q \<Rightarrow> bool res" where
  "qk_is_empty F q = res_bind (qk_len F q) (\<lambda>n. Ok (n = 0))"

definition qk_is_full :: "('w, 'q) queue_kit \<Rightarrow> 'q \<Rightarrow> bool res" where
  "qk_is_full F q = res_bind (qk_len F q) (\<lambda>n. Ok (n = qk_capacity F q))"

text \<open>A receive into a buffer, as an outcome together with the buffer.\<close>

definition recv_into :: "('w, 'q) queue_kit \<Rightarrow> u8 list \<Rightarrow> timeout \<Rightarrow> 'q \<Rightarrow> (unit res \<times> u8 list) res \<times> 'q" where
  "recv_into F buf t q =
     (case qk_recv F buf t q of
        (Panic m, q1, _) \<Rightarrow> (Panic m, q1)
      | (r, q1, out) \<Rightarrow> (Ok (r, out), q1))"

definition recv_unwrap :: "('w, 'q) queue_kit \<Rightarrow> u8 list \<Rightarrow> timeout \<Rightarrow> 'q \<Rightarrow> u8 list res \<times> 'q" where
  "recv_unwrap F buf t q =
     st_bind (recv_into F buf t q) (\<lambda>(r, out) q1. unwrap (res_bind r (\<lambda>_. Ok out), q1))"

definition with_queue ::
  "('w, 'q) queue_kit \<Rightarrow> nat \<Rightarrow> nat \<Rightarrow> ('q \<Rightarrow> unit res \<times> 'q) \<Rightarrow> 'w \<Rightarrow> unit res \<times> 'w" where
  "with_queue F capacity msg_size = with_object (qk_create F capacity msg_size) (qk_drop F)"

section \<open>Creation (creation.rs)\<close>

definition create_valid :: "('w, 'q) queue_kit \<Rightarrow> 'w \<Rightarrow> unit res \<times> 'w" where
  "create_valid F = with_queue F 8 4 (\<lambda>q.
     st_bind (osal_assert (qk_capacity F q = 8) q) (\<lambda>_ q.
     st_bind (osal_assert (qk_msg_size F q = 4) q) (\<lambda>_ q.
     st_bind (osal_assert (qk_len F q = Ok 0) q) (\<lambda>_ q.
     st_bind (osal_assert (qk_is_empty F q = Ok True) q) (\<lambda>_ q.
     osal_assert (qk_is_full F q = Ok False) q)))))"

definition reject_zero_capacity :: "('w, 'q) queue_kit \<Rightarrow> 'w \<Rightarrow> unit res \<times> 'w" where
  "reject_zero_capacity F = expect_rejected (qk_create F 0 4) InvalidParameter"

definition reject_zero_msg_size :: "('w, 'q) queue_kit \<Rightarrow> 'w \<Rightarrow> unit res \<times> 'w" where
  "reject_zero_msg_size F = expect_rejected (qk_create F 8 0) InvalidParameter"

definition run_creation :: "('w, 'q) queue_kit \<Rightarrow> 'w \<Rightarrow> unit res \<times> 'w" where
  "run_creation F = run_contracts [create_valid F, reject_zero_capacity F, reject_zero_msg_size F]"

section \<open>Order (fifo.rs)\<close>

definition send_recv_roundtrip :: "('w, 'q) queue_kit \<Rightarrow> 'w \<Rightarrow> unit res \<times> 'w" where
  "send_recv_roundtrip F = with_queue F 4 4 (\<lambda>q.
     st_bind (unwrap (qk_send F [1, 2, 3, 4] NoWait q)) (\<lambda>_ q.
     st_bind (recv_unwrap F [0, 0, 0, 0] NoWait q) (\<lambda>buf q.
     osal_assert (buf = [1, 2, 3, 4]) q)))"

definition fifo_order :: "('w, 'q) queue_kit \<Rightarrow> 'w \<Rightarrow> unit res \<times> 'w" where
  "fifo_order F = with_queue F 4 2 (\<lambda>q.
     st_bind (unwrap (qk_send F [1, 2] NoWait q)) (\<lambda>_ q.
     st_bind (unwrap (qk_send F [3, 4] NoWait q)) (\<lambda>_ q.
     st_bind (recv_unwrap F [0, 0] NoWait q) (\<lambda>buf q.
     st_bind (osal_assert (buf = [1, 2]) q) (\<lambda>_ q.
     st_bind (recv_unwrap F buf NoWait q) (\<lambda>buf q.
     osal_assert (buf = [3, 4]) q))))))"

definition send_full_no_wait :: "('w, 'q) queue_kit \<Rightarrow> 'w \<Rightarrow> unit res \<times> 'w" where
  "send_full_no_wait F = with_queue F 1 1 (\<lambda>q.
     st_bind (unwrap (qk_send F [42] NoWait q)) (\<lambda>_ q.
     st_bind (observe (qk_send F [99] NoWait q)) (\<lambda>result q.
     osal_assert (result = Err QueueFull) q)))"

definition recv_empty_no_wait :: "('w, 'q) queue_kit \<Rightarrow> 'w \<Rightarrow> unit res \<times> 'w" where
  "recv_empty_no_wait F = with_queue F 4 2 (\<lambda>q.
     st_bind (recv_into F [0, 0] NoWait q) (\<lambda>(result, buf) q.
     osal_assert (result = Err QueueEmpty) q))"

definition run_fifo :: "('w, 'q) queue_kit \<Rightarrow> 'w \<Rightarrow> unit res \<times> 'w" where
  "run_fifo F = run_contracts [send_recv_roundtrip F, fifo_order F, send_full_no_wait F, recv_empty_no_wait F]"

section \<open>Error precedence (error\_precedence.rs)\<close>

definition send_wrong_size :: "('w, 'q) queue_kit \<Rightarrow> 'w \<Rightarrow> unit res \<times> 'w" where
  "send_wrong_size F = with_queue F 4 4 (\<lambda>q.
     st_bind (observe (qk_send F [1, 2] NoWait q)) (\<lambda>result q.
     osal_assert (result = Err InvalidMessageSize) q))"

definition recv_wrong_size :: "('w, 'q) queue_kit \<Rightarrow> 'w \<Rightarrow> unit res \<times> 'w" where
  "recv_wrong_size F = with_queue F 4 2 (\<lambda>q.
     st_bind (unwrap (qk_send F [1, 2] NoWait q)) (\<lambda>_ q.
     st_bind (recv_into F [0, 0, 0, 0] NoWait q) (\<lambda>(result, buf) q.
     osal_assert (result = Err InvalidMessageSize) q)))"

definition closed_queue_wrong_send_size :: "('w, 'q) queue_kit \<Rightarrow> 'w \<Rightarrow> unit res \<times> 'w" where
  "closed_queue_wrong_send_size F = with_queue F 4 4 (\<lambda>q.
     st_bind (unwrap (qk_close F q)) (\<lambda>_ q.
     st_bind (observe (qk_send F [1, 2] NoWait q)) (\<lambda>result q.
     osal_assert (result = Err InvalidMessageSize) q)))"

definition closed_queue_wrong_recv_size :: "('w, 'q) queue_kit \<Rightarrow> 'w \<Rightarrow> unit res \<times> 'w" where
  "closed_queue_wrong_recv_size F = with_queue F 4 4 (\<lambda>q.
     st_bind (unwrap (qk_close F q)) (\<lambda>_ q.
     st_bind (recv_into F [0, 0] NoWait q) (\<lambda>(result, buf) q.
     osal_assert (result = Err InvalidMessageSize) q)))"

definition run_error_precedence :: "('w, 'q) queue_kit \<Rightarrow> 'w \<Rightarrow> unit res \<times> 'w" where
  "run_error_precedence F = run_contracts
     [send_wrong_size F, recv_wrong_size F, closed_queue_wrong_send_size F, closed_queue_wrong_recv_size F]"

section \<open>Closing (close.rs)\<close>

definition send_after_close :: "('w, 'q) queue_kit \<Rightarrow> 'w \<Rightarrow> unit res \<times> 'w" where
  "send_after_close F = with_queue F 4 2 (\<lambda>q.
     st_bind (unwrap (qk_close F q)) (\<lambda>_ q.
     st_bind (observe (qk_send F [1, 2] NoWait q)) (\<lambda>result q.
     osal_assert (result = Err QueueClosed) q)))"

definition recv_empty_after_close :: "('w, 'q) queue_kit \<Rightarrow> 'w \<Rightarrow> unit res \<times> 'w" where
  "recv_empty_after_close F = with_queue F 4 2 (\<lambda>q.
     st_bind (unwrap (qk_close F q)) (\<lambda>_ q.
     st_bind (recv_into F [0, 0] NoWait q) (\<lambda>(result, buf) q.
     osal_assert (result = Err QueueClosed) q)))"

definition recv_drains_after_close :: "('w, 'q) queue_kit \<Rightarrow> 'w \<Rightarrow> unit res \<times> 'w" where
  "recv_drains_after_close F = with_queue F 4 2 (\<lambda>q.
     st_bind (unwrap (qk_send F [1, 2] NoWait q)) (\<lambda>_ q.
     st_bind (unwrap (qk_send F [3, 4] NoWait q)) (\<lambda>_ q.
     st_bind (unwrap (qk_close F q)) (\<lambda>_ q.
     st_bind (recv_unwrap F [0, 0] NoWait q) (\<lambda>buf q.
     st_bind (osal_assert (buf = [1, 2]) q) (\<lambda>_ q.
     st_bind (recv_unwrap F buf NoWait q) (\<lambda>buf q.
     st_bind (osal_assert (buf = [3, 4]) q) (\<lambda>_ q.
     st_bind (recv_into F buf NoWait q) (\<lambda>(result, buf) q.
     osal_assert (result = Err QueueClosed) q)))))))))"

definition close_idempotent :: "('w, 'q) queue_kit \<Rightarrow> 'w \<Rightarrow> unit res \<times> 'w" where
  "close_idempotent F = with_queue F 4 2 (\<lambda>q.
     st_bind (unwrap (qk_close F q)) (\<lambda>_ q. unwrap (qk_close F q)))"

definition metadata_after_close :: "('w, 'q) queue_kit \<Rightarrow> 'w \<Rightarrow> unit res \<times> 'w" where
  "metadata_after_close F = with_queue F 4 2 (\<lambda>q.
     st_bind (unwrap (qk_send F [1, 2] NoWait q)) (\<lambda>_ q.
     st_bind (unwrap (qk_close F q)) (\<lambda>_ q.
     st_bind (osal_assert (qk_capacity F q = 4) q) (\<lambda>_ q.
     st_bind (osal_assert (qk_msg_size F q = 2) q) (\<lambda>_ q.
     st_bind (osal_assert (qk_len F q = Ok 1) q) (\<lambda>_ q.
     st_bind (osal_assert (qk_is_empty F q = Ok False) q) (\<lambda>_ q.
     osal_assert (qk_is_full F q = Ok False) q)))))))"

definition run_close :: "('w, 'q) queue_kit \<Rightarrow> 'w \<Rightarrow> unit res \<times> 'w" where
  "run_close F = run_contracts [send_after_close F, recv_empty_after_close F, recv_drains_after_close F,
     close_idempotent F, metadata_after_close F]"

section \<open>Timeouts (timeout.rs)\<close>

definition send_timeout_when_full :: "('w, 'q) queue_kit \<Rightarrow> 'w \<Rightarrow> unit res \<times> 'w" where
  "send_timeout_when_full F = with_queue F 1 1 (\<lambda>q.
     st_bind (unwrap (qk_send F [42] NoWait q)) (\<lambda>_ q.
     st_bind (observe (qk_send F [99] (After ten_ms) q)) (\<lambda>result q.
     osal_assert (result = Err Timeout) q)))"

definition recv_timeout :: "('w, 'q) queue_kit \<Rightarrow> 'w \<Rightarrow> unit res \<times> 'w" where
  "recv_timeout F = with_queue F 4 2 (\<lambda>q.
     st_bind (recv_into F [0, 0] (After ten_ms) q) (\<lambda>(result, buf) q.
     osal_assert (result = Err Timeout) q))"

definition run_timeout :: "('w, 'q) queue_kit \<Rightarrow> 'w \<Rightarrow> unit res \<times> 'w" where
  "run_timeout F = run_contracts [send_timeout_when_full F, recv_timeout F]"

definition run_queue_contracts :: "('w, 'q) queue_kit \<Rightarrow> 'w \<Rightarrow> unit res \<times> 'w" where
  "run_queue_contracts F =
     run_contracts [run_creation F, run_fifo F, run_error_precedence F, run_close F, run_timeout F]"

section \<open>Clones (lifetime.rs)\<close>

definition clone_handle_shares_state :: "('w, 'q) queue_kit \<Rightarrow> 'w \<Rightarrow> unit res \<times> 'w" where
  "clone_handle_shares_state F = with_handle (qk_create F 4 2) (\<lambda>q1 s.
     st_bind (clone_handle (qk_clone F) q1 s) (\<lambda>q2 s.
     st_bind (unwrap (on_handle q1 (qk_send F [1, 2] NoWait) s)) (\<lambda>_ s.
     st_bind (on_handle q2 (recv_unwrap F [0, 0] NoWait) s) (\<lambda>out s.
     st_bind (osal_assert (out = [1, 2]) s) (\<lambda>_ s.
     st_bind (arc_drop (qk_drop F) q2 s) (\<lambda>_ s.
     arc_drop (qk_drop F) q1 s))))))"

definition drop_clone_keeps_object_alive :: "('w, 'q) queue_kit \<Rightarrow> 'w \<Rightarrow> unit res \<times> 'w" where
  "drop_clone_keeps_object_alive F = with_handle (qk_create F 4 2) (\<lambda>q1 s.
     st_bind (clone_handle (qk_clone F) q1 s) (\<lambda>q2 s.
     st_bind (unwrap (on_handle q1 (qk_send F [1, 2] NoWait) s)) (\<lambda>_ s.
     st_bind (arc_drop (qk_drop F) q1 s) (\<lambda>_ s.
     st_bind (on_handle q2 (recv_unwrap F [0, 0] NoWait) s) (\<lambda>out s.
     st_bind (osal_assert (out = [1, 2]) s) (\<lambda>_ s.
     arc_drop (qk_drop F) q2 s))))))"

definition close_affects_all_clones :: "('w, 'q) queue_kit \<Rightarrow> 'w \<Rightarrow> unit res \<times> 'w" where
  "close_affects_all_clones F = with_handle (qk_create F 4 2) (\<lambda>q1 s.
     st_bind (clone_handle (qk_clone F) q1 s) (\<lambda>q2 s.
     st_bind (unwrap (on_handle q1 (qk_close F) s)) (\<lambda>_ s.
     st_bind (observe (on_handle q2 (qk_send F [1, 2] NoWait) s)) (\<lambda>result s.
     st_bind (osal_assert (result = Err QueueClosed) s) (\<lambda>_ s.
     st_bind (arc_drop (qk_drop F) q2 s) (\<lambda>_ s.
     arc_drop (qk_drop F) q1 s))))))"

definition run_clone_contracts :: "('w, 'q) queue_kit \<Rightarrow> 'w \<Rightarrow> unit res \<times> 'w" where
  "run_clone_contracts F = run_contracts
     [clone_handle_shares_state F, drop_clone_keeps_object_alive F, close_affects_all_clones F]"

section \<open>Backends that implement the FIFO\<close>

text \<open>What a call with a timeout returns where the FIFO would block.\<close>

definition timed_result :: "timeout \<Rightarrow> error \<Rightarrow> 'a res \<Rightarrow> 'a res" where
  "timed_result t blocked r = (case t of After _ \<Rightarrow> if r = Err blocked then Err Timeout else r | _ \<Rightarrow> r)"

definition fifo_send_timed :: "timeout \<Rightarrow> u8 list \<Rightarrow> fifo \<Rightarrow> unit res \<times> fifo" where
  "fifo_send_timed t m f = (case fifo_send f m of (r, f') \<Rightarrow> (timed_result t QueueFull r, f'))"

definition fifo_recv_timed :: "timeout \<Rightarrow> u8 list \<Rightarrow> fifo \<Rightarrow> (unit res \<times> u8 list) res \<times> fifo" where
  "fifo_recv_timed t b f =
     (case fifo_recv f b of
        (r, f', out) \<Rightarrow> (Ok (timed_result t QueueEmpty (res_bind r (\<lambda>_. Ok ())), out), f'))"

definition fifo_new :: "nat \<Rightarrow> nat \<Rightarrow> fifo" where
  "fifo_new capacity msg_size =
     \<lparr>fifo_msgs = [], fifo_capacity = capacity, fifo_message_size = msg_size, fifo_closed = False\<rparr>"

locale queue_backend = tested_object abs invar "qk_drop F" ready holding
  for F :: "('w, 'q) queue_kit" and abs :: "'q \<Rightarrow> fifo" and invar ready holding +
  assumes create_ok: "0 < c \<Longrightarrow> 0 < m \<Longrightarrow> c * m \<le> 32 \<Longrightarrow> makes (qk_create F c m) (fifo_new c m)"
    and create_zero: "c = 0 \<or> m = 0 \<Longrightarrow> qk_create F c m w = (Err InvalidParameter, w)"
    and send_refines: "kit_timeout t \<Longrightarrow> refines (qk_send F d t) (fifo_send_timed t d)"
    and recv_refines: "kit_timeout t \<Longrightarrow> refines (recv_into F b t) (fifo_recv_timed t b)"
    and close_refines: "refines (qk_close F) (\<lambda>f. (Ok (), fifo_close f))"
    and clone_shares: "qk_clone F i h = arc_clone i h"
    and metadata: "invar q \<Longrightarrow> qk_capacity F q = fifo_capacity (abs q)
        \<and> qk_msg_size F q = fifo_message_size (abs q) \<and> qk_len F q = Ok (length (fifo_msgs (abs q)))"
begin

lemma clean_queue:
  "0 < c \<Longrightarrow> 0 < m \<Longrightarrow> c * m \<le> 32 \<Longrightarrow> passes (fifo_new c m) body \<Longrightarrow> clean (with_queue F c m body)"
  unfolding with_queue_def by (rule clean_object [OF create_ok])

lemma passes_recv:
  assumes "kit_timeout t" and "passes (snd (fifo_recv_timed t b f)) (k (res_val (fst (fifo_recv_timed t b f))))"
  shows "passes f (\<lambda>q. st_bind (recv_into F b t q) (\<lambda>p q. k p q))"
  by (rule passes_call [OF recv_refines [OF assms(1)], where k = k])
    (use assms(2) in \<open>simp_all add: fifo_recv_timed_def split: prod.splits\<close>)

lemma passes_recv_unwrap:
  assumes "kit_timeout t" and "fst (res_val (fst (fifo_recv_timed t b f))) = Ok ()"
    and "passes (snd (fifo_recv_timed t b f)) (k (snd (res_val (fst (fifo_recv_timed t b f)))))"
  shows "passes f (\<lambda>q. st_bind (recv_unwrap F b t q) (\<lambda>p q. k p q))"
proof -
  obtain r out f' where r: "fifo_recv_timed t b f = (Ok (r, out), f')"
    by (cases "fifo_recv f b") (simp add: fifo_recv_timed_def)
  have "passes f (\<lambda>q. st_bind (recv_into F b t q)
      (\<lambda>p q. st_bind (case p of (r, out) \<Rightarrow> unwrap (res_bind r (\<lambda>_. Ok out), q)) k))"
    using assms(2,3) by (intro passes_recv assms(1)) (simp add: r unwrap_def)
  moreover have "st_bind (st_bind x (\<lambda>(r, out) q. unwrap (res_bind r (\<lambda>_. Ok out), q))) k
      = st_bind x (\<lambda>p q. st_bind (case p of (r, out) \<Rightarrow> unwrap (res_bind r (\<lambda>_. Ok out), q)) k)"
    for x :: "(unit res \<times> u8 list) res \<times> 'q"
    by (cases x; cases "fst x") auto
  ultimately show ?thesis by (simp add: recv_unwrap_def)
qed

lemmas queue_rules = clean_run clean_queue clean_rejected passes_assert passes_assert_then
  passes_recv passes_recv_unwrap passes_observe [OF send_refines] passes_unwrap [OF send_refines]
  passes_unwrap [OF close_refines] passes_last_unwrap [OF close_refines]

lemmas fifo_eval = kit_timeout_def fifo_send_timed_def fifo_recv_timed_def timed_result_def fifo_send_def fifo_recv_def
  fifo_new_def fifo_close_def

lemma clean_creation: "clean (run_creation F)"
  unfolding run_creation_def create_valid_def reject_zero_capacity_def reject_zero_msg_size_def
  by (intro queue_rules; simp add: fifo_eval metadata qk_is_empty_def qk_is_full_def create_zero)

lemma clean_fifo: "clean (run_fifo F)"
  unfolding run_fifo_def send_recv_roundtrip_def fifo_order_def send_full_no_wait_def recv_empty_no_wait_def
  by (intro queue_rules; simp add: fifo_eval)

lemma clean_error_precedence: "clean (run_error_precedence F)"
  unfolding run_error_precedence_def send_wrong_size_def recv_wrong_size_def closed_queue_wrong_send_size_def
    closed_queue_wrong_recv_size_def
  by (intro queue_rules; simp add: fifo_eval)

lemma clean_close: "clean (run_close F)"
  unfolding run_close_def send_after_close_def recv_empty_after_close_def recv_drains_after_close_def
    close_idempotent_def metadata_after_close_def
  by (intro queue_rules; simp add: fifo_eval metadata qk_is_empty_def qk_is_full_def)

lemma clean_timeout: "clean (run_timeout F)"
  unfolding run_timeout_def send_timeout_when_full_def recv_timeout_def
  by (intro queue_rules; simp add: fifo_eval)

lemma recv_unwrap_refines:
  assumes "kit_timeout t"
  shows "refines (recv_unwrap F b t) (\<lambda>f. st_bind (fifo_recv_timed t b f) (\<lambda>(r, out) f. unwrap (res_bind r (\<lambda>_. Ok out), f)))"
  unfolding refines_def
proof (intro allI impI)
  fix q assume "invar q"
  then obtain q' where q': "recv_into F b t q = (fst (fifo_recv_timed t b (abs q)), q')" "invar q'"
      "abs q' = snd (fifo_recv_timed t b (abs q))"
    using recv_refines [OF assms] by (auto simp: refines_def)
  obtain r out f' where "fifo_recv_timed t b (abs q) = (Ok (r, out), f')"
    by (cases "fifo_recv (abs q) b") (simp add: fifo_recv_timed_def)
  with q' show "\<exists>q'. recv_unwrap F b t q
        = (fst (st_bind (fifo_recv_timed t b (abs q)) (\<lambda>(r, out) f. unwrap (res_bind r (\<lambda>_. Ok out), f))), q')
      \<and> invar q' \<and> abs q' = snd (st_bind (fifo_recv_timed t b (abs q)) (\<lambda>(r, out) f. unwrap (res_bind r (\<lambda>_. Ok out), f)))"
    by (cases r) (simp_all add: recv_unwrap_def unwrap_def)
qed

lemma clean_shared_queue:
  "0 < c \<Longrightarrow> 0 < m \<Longrightarrow> c * m \<le> 32 \<Longrightarrow> shares (fifo_new c m) (Suc 0) (body 0) \<Longrightarrow> clean (with_handle (qk_create F c m) body)"
  by (rule clean_handle [OF create_ok])

lemmas shared_queue_rules = clean_run clean_shared_queue handle_rules shares_call [OF recv_unwrap_refines]
  shares_unwrap [OF send_refines] shares_observe [OF send_refines] shares_unwrap [OF close_refines]

lemma clean_clones: "clean (run_clone_contracts F)"
  unfolding run_clone_contracts_def clone_handle_shares_state_def drop_clone_keeps_object_alive_def
    close_affects_all_clones_def
  by (intro shared_queue_rules; simp add: fifo_eval clone_shares unwrap_def)

lemma clean_suite: "clean (run_queue_contracts F)"
  unfolding run_queue_contracts_def
  by (intro clean_run clean_creation clean_fifo clean_error_precedence clean_close clean_timeout)

end

end
