(* ===== verification/Contract_Semaphore.thy ===== *)
theory Contract_Semaphore
  imports Contract_Kit Counting_Semaphore
begin

text \<open>
  The semaphore contracts of the test kit (src/crates/osal-testkit/src/contract/semaphore.rs) as programs
  over a backend, and the locales \<open>semaphore_backend\<close> and \<open>binary_backend\<close> of the backends that implement
  the portable counter for callers that are alone.
\<close>

section \<open>Counting semaphores\<close>

record ('w, 's) semaphore_kit =
  sk_create :: "u32 \<Rightarrow> u32 \<Rightarrow> 'w \<Rightarrow> 's res \<times> 'w"
  sk_clone :: "nat \<Rightarrow> 's arc_heap \<Rightarrow> nat \<times> 's arc_heap"
  sk_drop :: "'s \<Rightarrow> 'w \<Rightarrow> unit res \<times> 'w"
  sk_acquire :: "timeout \<Rightarrow> 's \<Rightarrow> unit res \<times> 's"
  sk_release :: "'s \<Rightarrow> unit res \<times> 's"
  sk_count :: "'s \<Rightarrow> u32 res"
  sk_max_count :: "'s \<Rightarrow> u32"

definition counting_create_valid :: "('w, 's) semaphore_kit \<Rightarrow> 'w \<Rightarrow> unit res \<times> 'w" where
  "counting_create_valid F = with_object (sk_create F 5 2) (sk_drop F) (\<lambda>s.
     st_bind (osal_assert (sk_max_count F s = 5) s) (\<lambda>_ s.
     osal_assert (sk_count F s = Ok 2) s))"

definition counting_reject_max_zero :: "('w, 's) semaphore_kit \<Rightarrow> 'w \<Rightarrow> unit res \<times> 'w" where
  "counting_reject_max_zero F = expect_rejected (sk_create F 0 0) InvalidParameter"

definition counting_reject_initial_gt_max :: "('w, 's) semaphore_kit \<Rightarrow> 'w \<Rightarrow> unit res \<times> 'w" where
  "counting_reject_initial_gt_max F = expect_rejected (sk_create F 3 5) InvalidParameter"

definition counting_max_count_is_fixed :: "('w, 's) semaphore_kit \<Rightarrow> 'w \<Rightarrow> unit res \<times> 'w" where
  "counting_max_count_is_fixed F = with_object (sk_create F 5 3) (sk_drop F) (\<lambda>s.
     st_bind (unwrap (sk_acquire F NoWait s)) (\<lambda>_ s.
     st_bind (unwrap (sk_release F s)) (\<lambda>_ s.
     osal_assert (sk_max_count F s = 5) s)))"

definition counting_acquire_decrements :: "('w, 's) semaphore_kit \<Rightarrow> 'w \<Rightarrow> unit res \<times> 'w" where
  "counting_acquire_decrements F = with_object (sk_create F 5 3) (sk_drop F) (\<lambda>s.
     st_bind (unwrap (sk_acquire F NoWait s)) (\<lambda>_ s.
     osal_assert (sk_count F s = Ok 2) s))"

definition counting_release_increments :: "('w, 's) semaphore_kit \<Rightarrow> 'w \<Rightarrow> unit res \<times> 'w" where
  "counting_release_increments F = with_object (sk_create F 5 0) (sk_drop F) (\<lambda>s.
     st_bind (unwrap (sk_release F s)) (\<lambda>_ s.
     osal_assert (sk_count F s = Ok 1) s))"

definition counting_release_at_max_overflows :: "('w, 's) semaphore_kit \<Rightarrow> 'w \<Rightarrow> unit res \<times> 'w" where
  "counting_release_at_max_overflows F = with_object (sk_create F 1 1) (sk_drop F) (\<lambda>s.
     st_bind (observe (sk_release F s)) (\<lambda>result s.
     osal_assert (result = Err Overflow) s))"

definition counting_overflow_preserves_count :: "('w, 's) semaphore_kit \<Rightarrow> 'w \<Rightarrow> unit res \<times> 'w" where
  "counting_overflow_preserves_count F = with_object (sk_create F 2 2) (sk_drop F) (\<lambda>s.
     st_bind (observe (sk_release F s)) (\<lambda>_ s.
     osal_assert (sk_count F s = Ok 2) s))"

definition counting_empty_no_wait_times_out :: "('w, 's) semaphore_kit \<Rightarrow> 'w \<Rightarrow> unit res \<times> 'w" where
  "counting_empty_no_wait_times_out F = with_object (sk_create F 3 0) (sk_drop F) (\<lambda>s.
     st_bind (observe (sk_acquire F NoWait s)) (\<lambda>result s.
     osal_assert (result = Err Timeout) s))"

definition counting_empty_after_zero_times_out :: "('w, 's) semaphore_kit \<Rightarrow> 'w \<Rightarrow> unit res \<times> 'w" where
  "counting_empty_after_zero_times_out F = with_object (sk_create F 3 0) (sk_drop F) (\<lambda>s.
     st_bind (observe (sk_acquire F (After duration_zero) s)) (\<lambda>result s.
     osal_assert (result = Err Timeout) s))"

definition counting_available_after_zero_succeeds :: "('w, 's) semaphore_kit \<Rightarrow> 'w \<Rightarrow> unit res \<times> 'w" where
  "counting_available_after_zero_succeeds F = with_object (sk_create F 3 1) (sk_drop F) (\<lambda>s.
     st_bind (unwrap (sk_acquire F (After duration_zero) s)) (\<lambda>_ s.
     osal_assert (sk_count F s = Ok 0) s))"

definition counting_failed_acquire_preserves_count :: "('w, 's) semaphore_kit \<Rightarrow> 'w \<Rightarrow> unit res \<times> 'w" where
  "counting_failed_acquire_preserves_count F = with_object (sk_create F 3 1) (sk_drop F) (\<lambda>s.
     st_bind (observe (sk_acquire F (After ten_ms) s)) (\<lambda>_ s.
     osal_assert (sk_count F s = Ok 0) s))"

definition counting_clone_shares_state :: "('w, 's) semaphore_kit \<Rightarrow> 'w \<Rightarrow> unit res \<times> 'w" where
  "counting_clone_shares_state F = with_handle (sk_create F 3 1) (\<lambda>s1 s.
     st_bind (clone_handle (sk_clone F) s1 s) (\<lambda>s2 s.
     st_bind (unwrap (on_handle s2 (sk_acquire F NoWait) s)) (\<lambda>_ s.
     st_bind (osal_assert (sk_count F (behind s1 s) = Ok 0) s) (\<lambda>_ s.
     st_bind (osal_assert (sk_count F (behind s2 s) = Ok 0) s) (\<lambda>_ s.
     st_bind (arc_drop (sk_drop F) s2 s) (\<lambda>_ s.
     arc_drop (sk_drop F) s1 s))))))"

definition counting_drop_one_clone_preserves_resource :: "('w, 's) semaphore_kit \<Rightarrow> 'w \<Rightarrow> unit res \<times> 'w" where
  "counting_drop_one_clone_preserves_resource F = with_handle (sk_create F 3 1) (\<lambda>s1 s.
     st_bind (clone_handle (sk_clone F) s1 s) (\<lambda>s2 s.
     st_bind (arc_drop (sk_drop F) s1 s) (\<lambda>_ s.
     st_bind (unwrap (on_handle s2 (sk_acquire F NoWait) s)) (\<lambda>_ s.
     st_bind (osal_assert (sk_count F (behind s2 s) = Ok 0) s) (\<lambda>_ s.
     arc_drop (sk_drop F) s2 s)))))"

definition run_counting_core_contracts :: "('w, 's) semaphore_kit \<Rightarrow> 'w \<Rightarrow> unit res \<times> 'w" where
  "run_counting_core_contracts F = run_contracts
     [counting_create_valid F,
      counting_reject_max_zero F,
      counting_reject_initial_gt_max F,
      counting_max_count_is_fixed F,
      counting_acquire_decrements F,
      counting_release_increments F,
      counting_release_at_max_overflows F,
      counting_overflow_preserves_count F,
      counting_empty_no_wait_times_out F,
      counting_empty_after_zero_times_out F,
      counting_available_after_zero_succeeds F,
      counting_failed_acquire_preserves_count F,
      counting_clone_shares_state F,
      counting_drop_one_clone_preserves_resource F]"

section \<open>Binary semaphores\<close>

record ('w, 's) binary_kit =
  bk_create :: "'w \<Rightarrow> 's res \<times> 'w"
  bk_clone :: "nat \<Rightarrow> 's arc_heap \<Rightarrow> nat \<times> 's arc_heap"
  bk_drop :: "'s \<Rightarrow> 'w \<Rightarrow> unit res \<times> 'w"
  bk_acquire :: "timeout \<Rightarrow> 's \<Rightarrow> unit res \<times> 's"
  bk_release :: "'s \<Rightarrow> unit res \<times> 's"
  bk_is_signaled :: "'s \<Rightarrow> bool res"

definition binary_create_unsignaled :: "('w, 's) binary_kit \<Rightarrow> 'w \<Rightarrow> unit res \<times> 'w" where
  "binary_create_unsignaled F = with_object (bk_create F) (bk_drop F) (\<lambda>s.
     osal_assert (bk_is_signaled F s = Ok False) s)"

definition binary_release_signals :: "('w, 's) binary_kit \<Rightarrow> 'w \<Rightarrow> unit res \<times> 'w" where
  "binary_release_signals F = with_object (bk_create F) (bk_drop F) (\<lambda>s.
     st_bind (unwrap (bk_release F s)) (\<lambda>_ s.
     osal_assert (bk_is_signaled F s = Ok True) s))"

definition binary_acquire_clears_signal :: "('w, 's) binary_kit \<Rightarrow> 'w \<Rightarrow> unit res \<times> 'w" where
  "binary_acquire_clears_signal F = with_object (bk_create F) (bk_drop F) (\<lambda>s.
     st_bind (unwrap (bk_release F s)) (\<lambda>_ s.
     st_bind (unwrap (bk_acquire F NoWait s)) (\<lambda>_ s.
     osal_assert (bk_is_signaled F s = Ok False) s)))"

definition binary_double_release_overflows :: "('w, 's) binary_kit \<Rightarrow> 'w \<Rightarrow> unit res \<times> 'w" where
  "binary_double_release_overflows F = with_object (bk_create F) (bk_drop F) (\<lambda>s.
     st_bind (unwrap (bk_release F s)) (\<lambda>_ s.
     st_bind (observe (bk_release F s)) (\<lambda>result s.
     osal_assert (result = Err Overflow) s)))"

definition binary_overflow_preserves_signal :: "('w, 's) binary_kit \<Rightarrow> 'w \<Rightarrow> unit res \<times> 'w" where
  "binary_overflow_preserves_signal F = with_object (bk_create F) (bk_drop F) (\<lambda>s.
     st_bind (unwrap (bk_release F s)) (\<lambda>_ s.
     st_bind (observe (bk_release F s)) (\<lambda>_ s.
     osal_assert (bk_is_signaled F s = Ok True) s)))"

definition binary_empty_no_wait_times_out :: "('w, 's) binary_kit \<Rightarrow> 'w \<Rightarrow> unit res \<times> 'w" where
  "binary_empty_no_wait_times_out F = with_object (bk_create F) (bk_drop F) (\<lambda>s.
     st_bind (observe (bk_acquire F NoWait s)) (\<lambda>result s.
     osal_assert (result = Err Timeout) s))"

definition binary_empty_after_zero_times_out :: "('w, 's) binary_kit \<Rightarrow> 'w \<Rightarrow> unit res \<times> 'w" where
  "binary_empty_after_zero_times_out F = with_object (bk_create F) (bk_drop F) (\<lambda>s.
     st_bind (observe (bk_acquire F (After duration_zero) s)) (\<lambda>result s.
     osal_assert (result = Err Timeout) s))"

definition binary_clone_shares_state :: "('w, 's) binary_kit \<Rightarrow> 'w \<Rightarrow> unit res \<times> 'w" where
  "binary_clone_shares_state F = with_handle (bk_create F) (\<lambda>s1 s.
     st_bind (clone_handle (bk_clone F) s1 s) (\<lambda>s2 s.
     st_bind (unwrap (on_handle s2 (bk_release F) s)) (\<lambda>_ s.
     st_bind (osal_assert (bk_is_signaled F (behind s1 s) = Ok True) s) (\<lambda>_ s.
     st_bind (arc_drop (bk_drop F) s2 s) (\<lambda>_ s.
     arc_drop (bk_drop F) s1 s)))))"

definition binary_drop_one_clone_preserves_resource :: "('w, 's) binary_kit \<Rightarrow> 'w \<Rightarrow> unit res \<times> 'w" where
  "binary_drop_one_clone_preserves_resource F = with_handle (bk_create F) (\<lambda>s1 s.
     st_bind (clone_handle (bk_clone F) s1 s) (\<lambda>s2 s.
     st_bind (arc_drop (bk_drop F) s1 s) (\<lambda>_ s.
     st_bind (unwrap (on_handle s2 (bk_release F) s)) (\<lambda>_ s.
     st_bind (osal_assert (bk_is_signaled F (behind s2 s) = Ok True) s) (\<lambda>_ s.
     arc_drop (bk_drop F) s2 s)))))"

definition run_binary_core_contracts :: "('w, 's) binary_kit \<Rightarrow> 'w \<Rightarrow> unit res \<times> 'w" where
  "run_binary_core_contracts F = run_contracts
     [binary_create_unsignaled F,
      binary_release_signals F,
      binary_acquire_clears_signal F,
      binary_double_release_overflows F,
      binary_overflow_preserves_signal F,
      binary_empty_no_wait_times_out F,
      binary_empty_after_zero_times_out F,
      binary_clone_shares_state F,
      binary_drop_one_clone_preserves_resource F]"

section \<open>Backends that implement the counter\<close>

definition acquire_or_timeout :: "counting_semaphore_state \<Rightarrow> unit res \<times> counting_semaphore_state" where
  "acquire_or_timeout s = (case cs_try_acquire s of (ok, s') \<Rightarrow> (if ok then Ok () else Err Timeout, s'))"

locale semaphore_backend = tested_object abs invar "sk_drop F" ready holding
  for F :: "('w, 's) semaphore_kit" and abs :: "'s \<Rightarrow> counting_semaphore_state" and invar ready holding +
  assumes create_ok: "cs_new m i = Ok st \<Longrightarrow> makes (sk_create F m i) st"
    and create_bad: "cs_new m i = Err e \<Longrightarrow> sk_create F m i w = (Err e, w)"
    and acquire_refines: "kit_timeout t \<Longrightarrow> refines (sk_acquire F t) acquire_or_timeout"
    and release_refines: "refines (sk_release F) cs_release"
    and clone_shares: "sk_clone F j h = arc_clone j h"
    and metadata: "invar s \<Longrightarrow> sk_count F s = Ok (cs_count (abs s)) \<and> sk_max_count F s = cs_max_count (abs s)"
begin

lemma clean_semaphore:
  "0 < m \<Longrightarrow> i \<le> m \<Longrightarrow> passes \<lparr>cs_max_count = m, cs_count = i\<rparr> body
    \<Longrightarrow> clean (with_object (sk_create F m i) (sk_drop F) body)"
  by (rule clean_object [OF create_ok]) (auto simp: cs_new_def)

lemma clean_shared_semaphore:
  "0 < m \<Longrightarrow> i \<le> m \<Longrightarrow> shares \<lparr>cs_max_count = m, cs_count = i\<rparr> (Suc 0) (body 0)
    \<Longrightarrow> clean (with_handle (sk_create F m i) body)"
  by (rule clean_handle [OF create_ok]) (auto simp: cs_new_def)

lemmas semaphore_rules = clean_shared_semaphore handle_rules shares_unwrap [OF acquire_refines] clean_run clean_semaphore clean_rejected passes_assert passes_assert_then
  passes_observe [OF acquire_refines] passes_unwrap [OF acquire_refines]
  passes_observe [OF release_refines] passes_unwrap [OF release_refines]

lemmas counter_eval = kit_timeout_def acquire_or_timeout_def cs_try_acquire_def cs_release_def metadata

lemma clean_counting: "clean (run_counting_core_contracts F)"
  unfolding run_counting_core_contracts_def counting_create_valid_def counting_reject_max_zero_def
    counting_reject_initial_gt_max_def counting_max_count_is_fixed_def counting_acquire_decrements_def
    counting_release_increments_def counting_release_at_max_overflows_def counting_overflow_preserves_count_def
    counting_empty_no_wait_times_out_def counting_empty_after_zero_times_out_def counting_available_after_zero_succeeds_def
    counting_failed_acquire_preserves_count_def counting_clone_shares_state_def counting_drop_one_clone_preserves_resource_def
  by (intro semaphore_rules; simp add: counter_eval create_bad cs_new_def clone_shares)

end

locale binary_backend = tested_object abs invar "bk_drop F" ready holding
  for F :: "('w, 's) binary_kit" and abs :: "'s \<Rightarrow> counting_semaphore_state" and invar ready holding +
  assumes create_ok: "makes (bk_create F) \<lparr>cs_max_count = 1, cs_count = 0\<rparr>"
    and acquire_refines: "kit_timeout t \<Longrightarrow> refines (bk_acquire F t) acquire_or_timeout"
    and release_refines: "refines (bk_release F) cs_release"
    and clone_shares: "bk_clone F i h = arc_clone i h"
    and signaled: "invar s \<Longrightarrow> bk_is_signaled F s = Ok (cs_count (abs s) = 1)"
begin

lemmas binary_rules = clean_handle [OF create_ok] handle_rules shares_unwrap [OF release_refines] clean_run clean_object [OF create_ok] passes_assert passes_assert_then
  passes_observe [OF acquire_refines] passes_unwrap [OF acquire_refines]
  passes_observe [OF release_refines] passes_unwrap [OF release_refines]

lemma clean_binary: "clean (run_binary_core_contracts F)"
  unfolding run_binary_core_contracts_def binary_create_unsignaled_def binary_release_signals_def
    binary_acquire_clears_signal_def binary_double_release_overflows_def binary_overflow_preserves_signal_def
    binary_empty_no_wait_times_out_def binary_empty_after_zero_times_out_def binary_clone_shares_state_def
    binary_drop_one_clone_preserves_resource_def
  by (intro binary_rules; simp add: kit_timeout_def acquire_or_timeout_def cs_try_acquire_def cs_release_def signaled clone_shares)

end

end
