(* ===== verification/Contract_Runtime.thy ===== *)
theory Contract_Runtime
  imports Contract_Kit
begin

text \<open>
  The mutex and runtime contracts of the test kit (src/crates/osal-testkit/src/contract/mutex.rs and
  runtime.rs), and the locales of the backends that pass them.
\<close>

section \<open>Mutexes (mutex.rs)\<close>

text \<open>The data behind a guard is read and written through \<open>mx_get\<close> and \<open>mx_put\<close>; \<open>mx_unlock\<close> is the drop of
  the guard.\<close>

record ('w, 'm) mutex_kit =
  mx_create :: "u32 \<Rightarrow> 'w \<Rightarrow> 'm res \<times> 'w"
  mx_clone :: "nat \<Rightarrow> 'm arc_heap \<Rightarrow> nat \<times> 'm arc_heap"
  mx_drop :: "'m \<Rightarrow> 'w \<Rightarrow> unit res \<times> 'w"
  mx_lock :: "timeout \<Rightarrow> 'm \<Rightarrow> unit res \<times> 'm"
  mx_unlock :: "'m \<Rightarrow> unit res \<times> 'm"
  mx_get :: "'m \<Rightarrow> u32"
  mx_put :: "u32 \<Rightarrow> 'm \<Rightarrow> unit res \<times> 'm"

definition mutex_create :: "('w, 'm) mutex_kit \<Rightarrow> 'w \<Rightarrow> unit res \<times> 'w" where
  "mutex_create F = with_object (mx_create F 42) (mx_drop F) (\<lambda>m.
     st_bind (unwrap (mx_lock F NoWait m)) (\<lambda>_ m.
     st_bind (osal_assert (mx_get F m = 42) m) (\<lambda>_ m.
     unwrap (mx_unlock F m))))"

definition lock_unlock :: "('w, 'm) mutex_kit \<Rightarrow> 'w \<Rightarrow> unit res \<times> 'w" where
  "lock_unlock F = with_object (mx_create F 42) (mx_drop F) (\<lambda>m.
     st_bind (unwrap (mx_lock F NoWait m)) (\<lambda>_ m.
     st_bind (osal_assert (mx_get F m = 42) m) (\<lambda>_ m.
     st_bind (unwrap (mx_unlock F m)) (\<lambda>_ m.
     st_bind (unwrap (mx_lock F NoWait m)) (\<lambda>_ m.
     unwrap (mx_unlock F m))))))"

definition guard_deref_mut :: "('w, 'm) mutex_kit \<Rightarrow> 'w \<Rightarrow> unit res \<times> 'w" where
  "guard_deref_mut F = with_object (mx_create F 0) (mx_drop F) (\<lambda>m.
     st_bind (unwrap (mx_lock F NoWait m)) (\<lambda>_ m.
     st_bind (unwrap (mx_put F (mx_get F m + 1) m)) (\<lambda>_ m.
     st_bind (osal_assert (mx_get F m = 1) m) (\<lambda>_ m.
     st_bind (unwrap (mx_unlock F m)) (\<lambda>_ m.
     st_bind (unwrap (mx_lock F NoWait m)) (\<lambda>_ m.
     st_bind (osal_assert (mx_get F m = 1) m) (\<lambda>_ m.
     unwrap (mx_unlock F m))))))))"

definition lock_forever :: "('w, 'm) mutex_kit \<Rightarrow> 'w \<Rightarrow> unit res \<times> 'w" where
  "lock_forever F = with_object (mx_create F 0) (mx_drop F) (\<lambda>m.
     st_bind (unwrap (mx_lock F Forever m)) (\<lambda>_ m.
     st_bind (osal_assert (mx_get F m = 0) m) (\<lambda>_ m.
     unwrap (mx_unlock F m))))"

definition lock_no_wait :: "('w, 'm) mutex_kit \<Rightarrow> 'w \<Rightarrow> unit res \<times> 'w" where
  "lock_no_wait F = with_object (mx_create F 100) (mx_drop F) (\<lambda>m.
     st_bind (unwrap (mx_lock F NoWait m)) (\<lambda>_ m.
     st_bind (osal_assert (mx_get F m = 100) m) (\<lambda>_ m.
     unwrap (mx_unlock F m))))"

definition no_second_guard :: "('w, 'm) mutex_kit \<Rightarrow> 'w \<Rightarrow> unit res \<times> 'w" where
  "no_second_guard F = with_object (mx_create F 0) (mx_drop F) (\<lambda>m.
     st_bind (unwrap (mx_lock F NoWait m)) (\<lambda>_ m.
     st_bind (observe (mx_lock F NoWait m)) (\<lambda>result m.
     st_bind (osal_assert (result = Err LockFailed) m) (\<lambda>_ m.
     unwrap (mx_unlock F m)))))"

definition clone_shares_state :: "('w, 'm) mutex_kit \<Rightarrow> 'w \<Rightarrow> unit res \<times> 'w" where
  "clone_shares_state F = with_handle (mx_create F 0) (\<lambda>m1 s.
     st_bind (clone_handle (mx_clone F) m1 s) (\<lambda>m2 s.
     st_bind (unwrap (on_handle m1 (mx_lock F NoWait) s)) (\<lambda>_ s.
     st_bind (unwrap (on_handle m1 (mx_put F 99) s)) (\<lambda>_ s.
     st_bind (unwrap (on_handle m1 (mx_unlock F) s)) (\<lambda>_ s.
     st_bind (unwrap (on_handle m2 (mx_lock F NoWait) s)) (\<lambda>_ s.
     st_bind (osal_assert (mx_get F (behind m2 s) = 99) s) (\<lambda>_ s.
     st_bind (unwrap (on_handle m2 (mx_unlock F) s)) (\<lambda>_ s.
     st_bind (arc_drop (mx_drop F) m2 s) (\<lambda>_ s.
     arc_drop (mx_drop F) m1 s)))))))))"

definition drop_clone_keeps_alive :: "('w, 'm) mutex_kit \<Rightarrow> 'w \<Rightarrow> unit res \<times> 'w" where
  "drop_clone_keeps_alive F = with_handle (mx_create F 0) (\<lambda>m1 s.
     st_bind (clone_handle (mx_clone F) m1 s) (\<lambda>m2 s.
     st_bind (unwrap (on_handle m1 (mx_lock F NoWait) s)) (\<lambda>_ s.
     st_bind (unwrap (on_handle m1 (mx_put F 55) s)) (\<lambda>_ s.
     st_bind (unwrap (on_handle m1 (mx_unlock F) s)) (\<lambda>_ s.
     st_bind (arc_drop (mx_drop F) m1 s) (\<lambda>_ s.
     st_bind (unwrap (on_handle m2 (mx_lock F NoWait) s)) (\<lambda>_ s.
     st_bind (osal_assert (mx_get F (behind m2 s) = 55) s) (\<lambda>_ s.
     st_bind (unwrap (on_handle m2 (mx_unlock F) s)) (\<lambda>_ s.
     arc_drop (mx_drop F) m2 s)))))))))"

definition run_mutex_contracts :: "('w, 'm) mutex_kit \<Rightarrow> 'w \<Rightarrow> unit res \<times> 'w" where
  "run_mutex_contracts F = run_contracts
     [mutex_create F, lock_unlock F, guard_deref_mut F, lock_forever F, lock_no_wait F, no_second_guard F,
      clone_shares_state F, drop_clone_keeps_alive F]"

text \<open>The abstract mutex: its value and whether a guard is alive.\<close>

record lock_state =
  ls_value :: u32
  ls_locked :: bool

definition lock_spec :: "lock_state \<Rightarrow> unit res \<times> lock_state" where
  "lock_spec s = (if ls_locked s then (Err LockFailed, s) else (Ok (), s\<lparr>ls_locked := True\<rparr>))"

definition unlock_spec :: "lock_state \<Rightarrow> unit res \<times> lock_state" where
  "unlock_spec s = (if ls_locked s then Ok () else Panic ''guard dropped on unlocked mutex'', s\<lparr>ls_locked := False\<rparr>)"

locale mutex_backend = tested_object abs invar "mx_drop F" ready holding
  for F :: "('w, 'm) mutex_kit" and abs :: "'m \<Rightarrow> lock_state" and invar ready holding +
  assumes create_ok: "makes (mx_create F v) \<lparr>ls_value = v, ls_locked = False\<rparr>"
    and lock_refines: "t = NoWait \<or> t = Forever \<Longrightarrow> refines (mx_lock F t) lock_spec"
    and unlock_refines: "invar m \<Longrightarrow> ls_locked (abs m) \<Longrightarrow>
          \<exists>m'. mx_unlock F m = (Ok (), m') \<and> invar m' \<and> abs m' = (abs m)\<lparr>ls_locked := False\<rparr>"
    and put_refines: "refines (mx_put F v) (\<lambda>s. (Ok (), s\<lparr>ls_value := v\<rparr>))"
    and clone_shares: "mx_clone F i h = arc_clone i h"
    and get_value: "invar m \<Longrightarrow> mx_get F m = ls_value (abs m)"
begin

lemma passes_unlock:
  "ls_locked f \<Longrightarrow> passes (f\<lparr>ls_locked := False\<rparr>) k \<Longrightarrow> passes f (\<lambda>m. st_bind (unwrap (mx_unlock F m)) (\<lambda>_ m. k m))"
  "ls_locked f \<Longrightarrow> passes f (\<lambda>m. unwrap (mx_unlock F m))"
  using unlock_refines by (fastforce simp: passes_def unwrap_def)+

text \<open>A write of a value computed from the current one.\<close>

lemma passes_increment:
  assumes "passes (f\<lparr>ls_value := ls_value f + 1\<rparr>) k"
  shows "passes f (\<lambda>m. st_bind (unwrap (mx_put F (mx_get F m + 1) m)) (\<lambda>_ m. k m))"
proof -
  have "passes f (\<lambda>m. st_bind (unwrap (mx_put F (ls_value f + 1) m)) (\<lambda>_ m. k m))"
    by (rule passes_unwrap [OF put_refines]) (use assms in simp_all)
  then show ?thesis by (auto simp: passes_def get_value)
qed

lemma shares_unlock:
  "ls_locked f \<Longrightarrow> shares (f\<lparr>ls_locked := False\<rparr>) n k
    \<Longrightarrow> shares f n (\<lambda>s. st_bind (unwrap (on_handle 0 (mx_unlock F) s)) (\<lambda>_ s. k s))"
  using unlock_refines by (fastforce simp: shares_def unwrap_def on_handle_def)

lemmas shared_mutex_rules = clean_handle [OF create_ok] handle_rules shares_unlock shares_unwrap [OF put_refines]
  shares_unwrap [OF lock_refines]

lemmas mutex_rules = shared_mutex_rules clean_run clean_object [OF create_ok] passes_assert passes_assert_then passes_unlock
  passes_increment passes_unwrap [OF put_refines] passes_unwrap [OF lock_refines] passes_observe [OF lock_refines]

lemma clean_mutex: "clean (run_mutex_contracts F)"
  unfolding run_mutex_contracts_def mutex_create_def lock_unlock_def guard_deref_mut_def lock_forever_def
    lock_no_wait_def no_second_guard_def clone_shares_state_def drop_clone_keeps_alive_def
  by (intro mutex_rules; simp add: lock_spec_def get_value clone_shares)

end

section \<open>Runtimes (runtime.rs)\<close>

record 'w runtime_kit =
  rk_initialize :: "'w \<Rightarrow> unit res \<times> 'w"
  rk_shutdown :: "'w \<Rightarrow> unit res \<times> 'w"
  rk_state :: "'w \<Rightarrow> runtime_state"

definition initial_state_is_uninitialized :: "'w runtime_kit \<Rightarrow> 'w \<Rightarrow> unit res \<times> 'w" where
  "initial_state_is_uninitialized F = (\<lambda>w.
     st_bind (observe (rk_shutdown F w)) (\<lambda>_ w.
     osal_assert (rk_state F w = Uninitialized) w))"

definition initialize_enters_running :: "'w runtime_kit \<Rightarrow> 'w \<Rightarrow> unit res \<times> 'w" where
  "initialize_enters_running F = (\<lambda>w.
     st_bind (observe (rk_initialize F w)) (\<lambda>_ w.
     st_bind (observe (rk_shutdown F w)) (\<lambda>_ w.
     st_bind (unwrap (rk_initialize F w)) (\<lambda>_ w.
     st_bind (osal_assert (rk_state F w = Running) w) (\<lambda>_ w.
     unwrap (rk_shutdown F w))))))"

definition repeated_initialize_returns_already_initialized :: "'w runtime_kit \<Rightarrow> 'w \<Rightarrow> unit res \<times> 'w" where
  "repeated_initialize_returns_already_initialized F = (\<lambda>w.
     st_bind (observe (rk_initialize F w)) (\<lambda>_ w.
     st_bind (observe (rk_shutdown F w)) (\<lambda>_ w.
     st_bind (unwrap (rk_initialize F w)) (\<lambda>_ w.
     st_bind (observe (rk_initialize F w)) (\<lambda>result w.
     st_bind (osal_assert (result = Err AlreadyInitialized) w) (\<lambda>_ w.
     st_bind (osal_assert (rk_state F w = Running) w) (\<lambda>_ w.
     unwrap (rk_shutdown F w))))))))"

definition shutdown_returns_to_uninitialized :: "'w runtime_kit \<Rightarrow> 'w \<Rightarrow> unit res \<times> 'w" where
  "shutdown_returns_to_uninitialized F = (\<lambda>w.
     st_bind (observe (rk_initialize F w)) (\<lambda>_ w.
     st_bind (observe (rk_shutdown F w)) (\<lambda>_ w.
     st_bind (unwrap (rk_initialize F w)) (\<lambda>_ w.
     st_bind (unwrap (rk_shutdown F w)) (\<lambda>_ w.
     osal_assert (rk_state F w = Uninitialized) w)))))"

definition shutdown_before_initialize_returns_not_initialized :: "'w runtime_kit \<Rightarrow> 'w \<Rightarrow> unit res \<times> 'w" where
  "shutdown_before_initialize_returns_not_initialized F = (\<lambda>w.
     st_bind (observe (rk_initialize F w)) (\<lambda>_ w.
     st_bind (observe (rk_shutdown F w)) (\<lambda>_ w.
     st_bind (observe (rk_shutdown F w)) (\<lambda>result w.
     osal_assert (result = Err NotInitialized) w))))"

definition runtime_can_reinitialize :: "'w runtime_kit \<Rightarrow> 'w \<Rightarrow> unit res \<times> 'w" where
  "runtime_can_reinitialize F = (\<lambda>w.
     st_bind (observe (rk_initialize F w)) (\<lambda>_ w.
     st_bind (observe (rk_shutdown F w)) (\<lambda>_ w.
     st_bind (unwrap (rk_initialize F w)) (\<lambda>_ w.
     st_bind (osal_assert (rk_state F w = Running) w) (\<lambda>_ w.
     unwrap (rk_shutdown F w))))))"

definition run_runtime_contracts :: "'w runtime_kit \<Rightarrow> 'w \<Rightarrow> unit res \<times> 'w" where
  "run_runtime_contracts F = run_contracts
     [initial_state_is_uninitialized F, initialize_enters_running F,
      repeated_initialize_returns_already_initialized F, shutdown_returns_to_uninitialized F,
      shutdown_before_initialize_returns_not_initialized F, runtime_can_reinitialize F]"

text \<open>A runtime without objects is up or down.\<close>

definition up_spec :: "bool \<Rightarrow> unit res \<times> bool" where
  "up_spec up = (if up then Err AlreadyInitialized else Ok (), True)"

definition down_spec :: "bool \<Rightarrow> unit res \<times> bool" where
  "down_spec up = (if up then Ok () else Err NotInitialized, False)"

locale runtime_backend = abstracted up invar
  for F :: "'w runtime_kit" and up :: "'w \<Rightarrow> bool" and invar +
  assumes initialize_refines: "refines (rk_initialize F) up_spec"
    and shutdown_refines: "refines (rk_shutdown F) down_spec"
    and state_of: "invar w \<Longrightarrow> rk_state F w = (if up w then Running else Uninitialized)"
begin

lemmas runtime_rules = passes_assert passes_assert_then
  passes_observe [OF initialize_refines] passes_observe [OF shutdown_refines]
  passes_unwrap [OF initialize_refines] passes_unwrap [OF shutdown_refines] passes_last_unwrap [OF shutdown_refines]

lemma runtime_contracts: "passes f (run_runtime_contracts F)"
  unfolding run_runtime_contracts_def
proof (rule passes_run)
  fix c g
  assume "c \<in> set [initial_state_is_uninitialized F, initialize_enters_running F,
      repeated_initialize_returns_already_initialized F, shutdown_returns_to_uninitialized F,
      shutdown_before_initialize_returns_not_initialized F, runtime_can_reinitialize F]"
  then show "passes g c"
    unfolding set_simps insert_iff empty_iff initial_state_is_uninitialized_def initialize_enters_running_def
      repeated_initialize_returns_already_initialized_def shutdown_returns_to_uninitialized_def
      shutdown_before_initialize_returns_not_initialized_def runtime_can_reinitialize_def
    by (elim disjE; hypsubst?; (intro runtime_rules)?; simp add: up_spec_def down_spec_def state_of)
qed

end

end
