(* ===== verification/Contract_Backends.thy ===== *)
theory Contract_Backends
  imports Contract_Queue Contract_Semaphore Contract_Runtime Mock_Backend Posix_Runtime Posix_Semaphore
begin

text \<open>
  The contracts on the backends: the mock backend, and the POSIX queues and semaphores used by one thread that
  nobody else signals. They interpret the locales of the contracts, with the leases of their runtimes.
\<close>

section \<open>Leases\<close>

lemma acquire_room:
  assumes "decode_state x = Running" and "decode_count x < lc_max_count"
  obtains y where "acquire x = (Ok (), y)" "decode_state y = Running" "unat (decode_count y) = Suc (unat (decode_count x))"
proof -
  obtain r y where a: "acquire x = (r, y)" by (cases "acquire x")
  have "is_ok r"
    using a assms acquire_word(1) [OF a]
    by (cases "encode Running (decode_count x + 1)") (auto simp: acquire_def acquire_next_def install_def encode_def split: if_splits)
  with acquire_word(2) [OF a] a that show thesis by (cases r) auto
qed

text \<open>A lifecycle word of a running runtime with \<open>n\<close> leases and room for one more.\<close>

definition leases :: "nat \<Rightarrow> usize \<Rightarrow> bool" where
  "leases n x \<longleftrightarrow> decode_state x = Running \<and> unat (decode_count x) = n"

lemma leases_acquire:
  "leases n x \<Longrightarrow> n < unat lc_max_count \<Longrightarrow> \<exists>y. acquire x = (Ok (), y) \<and> leases (Suc n) y"
  by (rule acquire_room [of x]) (auto simp: leases_def word_less_nat_alt)

lemma leases_drop: "leases (Suc n) x \<Longrightarrow> \<exists>y. lease_drop x = (Ok (), y) \<and> leases n y"
  by (rule lease_drop_word [of x]) (auto simp: leases_def)

section \<open>Mock\<close>

text \<open>The handles are \<open>Rc\<close>s of the object and \<open>clone\<close> clones the \<open>Rc\<close>.\<close>

definition mock_queue_clone :: "nat \<Rightarrow> mock_queue arc_heap \<Rightarrow> nat \<times> mock_queue arc_heap" where
  "mock_queue_clone = arc_clone"

definition mock_semaphore_clone :: "nat \<Rightarrow> counting_semaphore_state arc_heap \<Rightarrow> nat \<times> counting_semaphore_state arc_heap" where
  "mock_semaphore_clone = arc_clone"

definition mock_mutex_clone :: "nat \<Rightarrow> 'a mock_mutex arc_heap \<Rightarrow> nat \<times> 'a mock_mutex arc_heap" where
  "mock_mutex_clone = arc_clone"

definition mock_queue_kit :: "(nat \<Rightarrow> bool) \<Rightarrow> ('cb mock_world, mock_queue) queue_kit" where
  "mock_queue_kit reserve =
     \<lparr>qk_create = mock_queue_new reserve,
      qk_clone = mock_queue_clone,
      qk_drop = (\<lambda>_. mock_lease_drop),
      qk_send = (\<lambda>data t q. plain_send t q data),
      qk_recv = mock_queue_recv,
      qk_close = mock_queue_close,
      qk_capacity = (\<lambda>q. bq_capacity (mq_buffer q)),
      qk_msg_size = (\<lambda>q. bq_message_size (mq_buffer q)),
      qk_len = mock_queue_len\<rparr>"

lemma mock_kit_create:
  assumes "leases n (mw_lifecycle w)" and "n < unat lc_max_count" and "\<And>k. k \<le> 32 \<Longrightarrow> reserve k"
    and "0 < c" and "0 < m" and "c * m \<le> 32"
  shows "\<exists>q w'. mock_queue_new reserve c m w = (Ok q, w') \<and> (bq_inv (mq_buffer q) \<and> \<not> mq_faults q)
    \<and> bq_abs (mq_buffer q) = fifo_new c m \<and> leases (Suc n) (mw_lifecycle w')"
proof -
  obtain y where y: "acquire (mw_lifecycle w) = (Ok (), y)" "leases (Suc n) y"
    using leases_acquire [OF assms(1,2)] by blast
  obtain b where b: "byte_queue_new reserve c m = Ok b"
    using assms(3-6) by (simp add: byte_queue_new_def checked_mul_def usize_max_def)
  from byte_queue_new_inv [OF b] show ?thesis
    using y b assms(4,5)
    by (simp add: mock_queue_new_def mock_queue_inner_new_def validate_queue_capacity_def
        validate_queue_message_size_def mock_acquire_object_def on_lifecycle_def fifo_new_def)
qed

lemma mock_kit_send:
  assumes "bq_inv (mq_buffer q)" and "\<not> mq_faults q" and "kit_timeout t"
  shows "\<exists>q'. plain_send t q d = (fst (fifo_send_timed t d (bq_abs (mq_buffer q))), q')
    \<and> (bq_inv (mq_buffer q') \<and> \<not> mq_faults q') \<and> bq_abs (mq_buffer q') = snd (fifo_send_timed t d (bq_abs (mq_buffer q)))"
proof -
  obtain r b where s: "try_send (mq_buffer q) d = (r, b)" by (cases "try_send (mq_buffer q) d")
  have "apply_timeout t r QueueFull = timed_result t QueueFull r"
    using assms(3) by (cases r) (auto simp: kit_timeout_def apply_timeout_def timed_result_def)
  with try_send_refines [OF assms(1) s] s assms(2) show ?thesis
    by (simp add: plain_send_def mock_queue_send_no_fault fifo_send_timed_def)
qed

lemma mock_kit_recv:
  assumes "bq_inv (mq_buffer q)" and "\<not> mq_faults q" and "kit_timeout t"
  shows "\<exists>q'. recv_into (mock_queue_kit reserve) b t q = (fst (fifo_recv_timed t b (bq_abs (mq_buffer q))), q')
    \<and> (bq_inv (mq_buffer q') \<and> \<not> mq_faults q') \<and> bq_abs (mq_buffer q') = snd (fifo_recv_timed t b (bq_abs (mq_buffer q)))"
proof -
  obtain r b' out where s: "try_recv (mq_buffer q) b = (r, b', out)" by (cases "try_recv (mq_buffer q) b")
  have "apply_timeout t (map_unit r) QueueEmpty = timed_result t QueueEmpty (res_bind r (\<lambda>_. Ok ()))"
    using assms(3) by (cases r) (auto simp: kit_timeout_def apply_timeout_def timed_result_def map_unit_def)
  moreover have "\<not> is_panic (timed_result t QueueEmpty (res_bind r (\<lambda>_. Ok ())))"
    using ring.recv_invar [OF assms(1) s] assms(3) by (cases r) (auto simp: kit_timeout_def timed_result_def)
  ultimately show ?thesis
    using try_recv_refines [OF assms(1) s] s assms(2)
    by (cases "timed_result t QueueEmpty (res_bind r (\<lambda>_. Ok ()))")
      (simp_all add: recv_into_def mock_queue_kit_def mock_queue_recv_def fifo_recv_timed_def)
qed

text \<open>Memory for the buffers, \<open>n\<close> live objects and room for one more.\<close>

definition mock_ready :: "(nat \<Rightarrow> bool) \<Rightarrow> nat \<Rightarrow> 'cb mock_world \<Rightarrow> bool" where
  "mock_ready reserve n w \<longleftrightarrow> (\<forall>k \<le> 32. reserve k) \<and> n < unat lc_max_count \<and> leases n (mw_lifecycle w)"

definition mock_holding :: "(nat \<Rightarrow> bool) \<Rightarrow> nat \<Rightarrow> 'cb mock_world \<Rightarrow> bool" where
  "mock_holding reserve n w \<longleftrightarrow> (\<forall>k \<le> 32. reserve k) \<and> n < unat lc_max_count \<and> leases (Suc n) (mw_lifecycle w)"

lemma mock_holding_drop: "mock_holding reserve n w \<Longrightarrow> \<exists>w'. mock_lease_drop w = (Ok (), w') \<and> mock_ready reserve n w'"
  using leases_drop by (force simp: mock_holding_def mock_ready_def mock_lease_drop_def on_lifecycle_def)

lemma mock_ready_acquire:
  "mock_ready reserve n w \<Longrightarrow> \<exists>w'. mock_acquire_object w = (Ok (), w') \<and> mock_holding reserve n w'"
  using leases_acquire [of n "mw_lifecycle w"]
  by (auto simp: mock_holding_def mock_ready_def mock_acquire_object_def on_lifecycle_def)

interpretation mocktest: tested_object "\<lambda>q. bq_abs (mq_buffer q)" "\<lambda>q. bq_inv (mq_buffer q) \<and> \<not> mq_faults q"
  "qk_drop (mock_queue_kit reserve)" "mock_ready reserve n" "mock_holding reserve n"
  for reserve n
  using mock_holding_drop by unfold_locales (simp add: mock_queue_kit_def)

interpretation mockkit: queue_backend "mock_queue_kit reserve" "\<lambda>q. bq_abs (mq_buffer q)"
  "\<lambda>q. bq_inv (mq_buffer q) \<and> \<not> mq_faults q" "mock_ready reserve n" "mock_holding reserve n"
  for reserve n
proof (unfold_locales, goal_cases)
  case (1 c m)
  then show ?case
    unfolding mocktest.makes_def using mock_kit_create [of n _ reserve c m]
    by (auto simp: mock_queue_kit_def mock_ready_def mock_holding_def)
next
  case (2 c m w)
  then show ?case
    by (auto simp: mock_queue_kit_def mock_queue_new_def mock_queue_inner_new_def validate_queue_capacity_def
        validate_queue_message_size_def)
next
  case (3 t d)
  then show ?case
    unfolding mocktest.refines_def using mock_kit_send [of _ t d] by (simp add: mock_queue_kit_def)
next
  case (4 t b)
  then show ?case unfolding mocktest.refines_def by (auto intro!: mock_kit_recv [simplified])
next
  case 5
  then show ?case
    unfolding mocktest.refines_def using bq_close_refines by (simp add: mock_queue_kit_def mock_queue_close_def)
next
  case (6 i h)
  then show ?case by (simp add: mock_queue_kit_def mock_queue_clone_def)
next
  case (7 q)
  then show ?case by (simp add: mock_queue_kit_def mock_queue_len_def)
qed

section \<open>POSIX\<close>

text \<open>A call of the only thread: the section that returns, or a timed wait that nobody signals and that ends
  with \<open>ETIMEDOUT\<close>. A wait without a deadline would not return; it is the panic.\<close>

definition alone :: "unit res section_end \<Rightarrow> unit res" where
  "alone e =
     (case e of
        SecReturn r _ \<Rightarrow> r
      | SecWait (Some _) \<Rightarrow> Err Timeout
      | SecWait None \<Rightarrow> Panic ''no thread is left to wake the caller'')"

definition posix_send_alone :: "timespec \<Rightarrow> u8 list \<Rightarrow> timeout \<Rightarrow> byte_queue \<Rightarrow> unit res \<times> byte_queue" where
  "posix_send_alone now data t q =
     st_bind (validate_send_message_size (bq_message_size q) (length data), q) (\<lambda>_ q.
       case posix_send_enter (RetOk, now) data t q of (e, q1) \<Rightarrow> (alone e, q1))"

definition posix_recv_alone ::
  "timespec \<Rightarrow> u8 list \<Rightarrow> timeout \<Rightarrow> byte_queue \<Rightarrow> unit res \<times> byte_queue \<times> u8 list" where
  "posix_recv_alone now buf t q =
     (case validate_recv_buffer_size (bq_message_size q) (length buf) of
        Ok _ \<Rightarrow> (case posix_recv_enter (RetOk, now) buf t q of (e, q1, out) \<Rightarrow> (alone e, q1, out))
      | r \<Rightarrow> (r, q, buf))"

text \<open>The handles are \<open>Arc\<close>s of the inner object, with its mutex, its condition variables and its lease.\<close>

definition posix_queue_clone :: "nat \<Rightarrow> byte_queue arc_heap \<Rightarrow> nat \<times> byte_queue arc_heap" where
  "posix_queue_clone = arc_clone"

definition posix_semaphore_clone :: "nat \<Rightarrow> counting_semaphore_state arc_heap \<Rightarrow> nat \<times> counting_semaphore_state arc_heap" where
  "posix_semaphore_clone = arc_clone"

definition posix_queue_kit ::
  "'k posix_native \<Rightarrow> (nat \<Rightarrow> bool) \<Rightarrow> timespec \<Rightarrow> (('k, 'cb) posix_world, byte_queue) queue_kit" where
  "posix_queue_kit N reserve now =
     \<lparr>qk_create = posix_queue_new N reserve,
      qk_clone = posix_queue_clone,
      qk_drop = (\<lambda>_. posix_lease_drop),
      qk_send = posix_send_alone now,
      qk_recv = posix_recv_alone now,
      qk_close = (\<lambda>q. (posix_close_result RetOk RetOk, bq_close q)),
      qk_capacity = bq_capacity,
      qk_msg_size = bq_message_size,
      qk_len = (\<lambda>q. Ok (bq_len q))\<rparr>"

text \<open>An environment in which the native constructors succeed and memory is available.\<close>

definition posix_benign :: "'k posix_native \<Rightarrow> (nat \<Rightarrow> bool) \<Rightarrow> bool" where
  "posix_benign N reserve \<longleftrightarrow>
     (\<forall>k. fst (pn_mutex N k) = (RetOk, RetOk, RetOk) \<and> fst (pn_condvar N k) = (RetOk, RetOk, RetOk))
     \<and> (\<forall>k \<le> 32. reserve k)"

lemma posix_benign_natives:
  assumes "posix_benign N reserve"
  shows "\<exists>e'. on_posix_native (posix_mutex_create N) e = (Ok (), e')"
    and "\<exists>e'. on_posix_native (posix_condvar_create N) e = (Ok (), e')"
proof -
  have "fst (pn_mutex N (pe_native e)) = (RetOk, RetOk, RetOk)"
    "fst (pn_condvar N (pe_native e)) = (RetOk, RetOk, RetOk)" using assms by (simp_all add: posix_benign_def)
  then show "\<exists>e'. on_posix_native (posix_mutex_create N) e = (Ok (), e')"
    "\<exists>e'. on_posix_native (posix_condvar_create N) e = (Ok (), e')"
    by (cases "pn_mutex N (pe_native e)"; cases "pn_condvar N (pe_native e)";
        simp add: on_posix_native_def posix_mutex_create_def posix_condvar_create_def check_ret_def)+
qed

lemma posix_kit_create:
  assumes "leases n (px_lifecycle w)" and "n < unat lc_max_count" and N: "posix_benign N reserve"
    and "0 < c" and "0 < m" and "c * m \<le> 32"
  shows "\<exists>q w'. posix_queue_new N reserve c m w = (Ok q, w') \<and> bq_inv q \<and> bq_abs q = fifo_new c m
    \<and> leases (Suc n) (px_lifecycle w')"
proof -
  obtain y where y: "acquire (px_lifecycle w) = (Ok (), y)" "leases (Suc n) y"
    using leases_acquire [OF assms(1,2)] by blast
  obtain b where b: "byte_queue_new reserve c m = Ok b"
    using assms(3-6) by (simp add: posix_benign_def byte_queue_new_def checked_mul_def usize_max_def)
  obtain e1 where e1: "on_posix_native (posix_mutex_create N) (px_env w) = (Ok (), e1)"
    using posix_benign_natives(1) [OF N] by blast
  obtain e2 where e2: "on_posix_native (posix_condvar_create N) e1 = (Ok (), e2)"
    using posix_benign_natives(2) [OF N] by blast
  obtain e3 where e3: "on_posix_native (posix_condvar_create N) e2 = (Ok (), e3)"
    using posix_benign_natives(2) [OF N] by blast
  from byte_queue_new_inv [OF b] show ?thesis
    using y b e1 e2 e3 assms(4,5)
    by (simp add: posix_queue_new_def posix_leased_def posix_queue_body_def validate_queue_capacity_def
        validate_queue_message_size_def posix_acquire_object_def on_posix_lifecycle_def fifo_new_def)
qed

text \<open>The clock is far enough from its end for the contracts' waits.\<close>

definition kit_clock :: "timespec \<Rightarrow> bool" where
  "kit_clock now \<longleftrightarrow> (\<forall>d. kit_timeout (After d) \<longrightarrow> is_ok (checked_abs_deadline (RetOk, now) d))"

lemma posix_kit_send:
  assumes "bq_inv q" and "kit_timeout t" and "kit_clock now"
  shows "\<exists>q'. posix_send_alone now m t q = (fst (fifo_send_timed t m (bq_abs q)), q') \<and> bq_inv q'
    \<and> bq_abs q' = snd (fifo_send_timed t m (bq_abs q))"
proof -
  obtain r q1 where s: "try_send q m = (r, q1)" by (cases "try_send q m")
  note ref = try_send_refines [OF assms(1) s]
  have "\<exists>dl. checked_abs_deadline (RetOk, now) d = Ok dl" if "t = After d" for d
    using that assms(2,3) unfolding kit_clock_def by (cases "checked_abs_deadline (RetOk, now) d") auto
  then show ?thesis
    using assms(1,2) ref s
    by (auto simp: kit_timeout_def posix_send_alone_def validate_send_message_size_def posix_send_enter_def
        posix_send_iter_def alone_def fifo_send_timed_def timed_result_def fifo_send_def
        split: if_splits res.splits error.splits)
qed

lemma posix_kit_recv:
  assumes "bq_inv q" and "kit_timeout t" and "kit_clock now"
  shows "\<exists>q'. recv_into (posix_queue_kit N reserve now) b t q = (fst (fifo_recv_timed t b (bq_abs q)), q') \<and> bq_inv q'
    \<and> bq_abs q' = snd (fifo_recv_timed t b (bq_abs q))"
proof -
  obtain r q1 out where s: "try_recv q b = (r, q1, out)" by (cases "try_recv q b")
  note ref = try_recv_refines [OF assms(1) s]
  have "bq_contents q = []" if "bq_is_empty q" using that by (simp add: bq_is_empty_def bq_contents_def)
  moreover have "\<exists>dl. checked_abs_deadline (RetOk, now) d = Ok dl" if "t = After d" for d
    using that assms(2,3) unfolding kit_clock_def by (cases "checked_abs_deadline (RetOk, now) d") auto
  ultimately show ?thesis
    using assms(1,2) ref s
    by (auto simp: kit_timeout_def recv_into_def posix_queue_kit_def posix_recv_alone_def validate_recv_buffer_size_def
        posix_recv_enter_def posix_recv_iter_def alone_def fifo_recv_timed_def timed_result_def fifo_recv_def Let_def
        split: if_splits res.splits error.splits list.splits)
qed

definition posix_ready :: "'k posix_native \<Rightarrow> (nat \<Rightarrow> bool) \<Rightarrow> timespec \<Rightarrow> nat \<Rightarrow> ('k, 'cb) posix_world \<Rightarrow> bool" where
  "posix_ready N reserve now n w \<longleftrightarrow>
     kit_clock now \<and> posix_benign N reserve \<and> n < unat lc_max_count \<and> leases n (px_lifecycle w)"

definition posix_holding :: "'k posix_native \<Rightarrow> (nat \<Rightarrow> bool) \<Rightarrow> timespec \<Rightarrow> nat \<Rightarrow> ('k, 'cb) posix_world \<Rightarrow> bool" where
  "posix_holding N reserve now n w \<longleftrightarrow>
     kit_clock now \<and> posix_benign N reserve \<and> n < unat lc_max_count \<and> leases (Suc n) (px_lifecycle w)"

lemma posix_holding_drop:
  "posix_holding N reserve now n w \<Longrightarrow> \<exists>w'. posix_lease_drop w = (Ok (), w') \<and> posix_ready N reserve now n w'"
  using leases_drop by (force simp: posix_holding_def posix_ready_def posix_lease_drop_def on_posix_lifecycle_def)

interpretation posixtest: tested_object bq_abs "\<lambda>q. kit_clock now \<and> bq_inv q" "qk_drop (posix_queue_kit N reserve now)"
  "posix_ready N reserve now n" "posix_holding N reserve now n"
  for N reserve now n
  using posix_holding_drop by unfold_locales (simp add: posix_queue_kit_def)

interpretation posixkit: queue_backend "posix_queue_kit N reserve now" bq_abs "\<lambda>q. kit_clock now \<and> bq_inv q"
  "posix_ready N reserve now n" "posix_holding N reserve now n"
  for N reserve now n
proof (unfold_locales, goal_cases)
  case (1 c m)
  then show ?case
    unfolding posixtest.makes_def using posix_kit_create [of n _ N reserve c m]
    by (auto simp: posix_queue_kit_def posix_ready_def posix_holding_def)
next
  case (2 c m w)
  then show ?case
    by (auto simp: posix_queue_kit_def posix_queue_new_def validate_queue_capacity_def
        validate_queue_message_size_def)
next
  case (3 t d)
  then show ?case
    unfolding posixtest.refines_def by (simp add: posix_queue_kit_def posix_kit_send)
next
  case (4 t b)
  then show ?case unfolding posixtest.refines_def by (auto intro: posix_kit_recv)
next
  case 5
  then show ?case
    unfolding posixtest.refines_def
    using bq_close_refines by (simp add: posix_queue_kit_def posix_close_result_def check_ret_def)
next
  case (6 i h)
  then show ?case by (simp add: posix_queue_kit_def posix_queue_clone_def)
next
  case (7 q)
  then show ?case by (simp add: posix_queue_kit_def)
qed

section \<open>Semaphores\<close>

definition mock_semaphore_kit :: "('cb mock_world, counting_semaphore_state) semaphore_kit" where
  "mock_semaphore_kit =
     \<lparr>sk_create = mock_semaphore_new, sk_clone = mock_semaphore_clone, sk_drop = (\<lambda>_. mock_lease_drop), sk_acquire = mock_semaphore_acquire,
      sk_release = mock_semaphore_release, sk_count = (\<lambda>s. Ok (cs_count s)), sk_max_count = cs_max_count\<rparr>"

definition mock_binary_kit :: "('cb mock_world, counting_semaphore_state) binary_kit" where
  "mock_binary_kit =
     \<lparr>bk_create = mock_binary_semaphore_new, bk_clone = mock_semaphore_clone, bk_drop = (\<lambda>_. mock_lease_drop), bk_acquire = mock_semaphore_acquire,
      bk_release = mock_semaphore_release, bk_is_signaled = mock_binary_is_signaled\<rparr>"

lemma mock_kit_acquire: "kit_timeout t \<Longrightarrow> mock_semaphore_acquire t = acquire_or_timeout"
  by (auto simp: kit_timeout_def mock_semaphore_acquire_def acquire_or_timeout_def split: prod.splits)

interpretation mocksemtest: tested_object "\<lambda>s. s" "\<lambda>s. True" "\<lambda>_. mock_lease_drop" "mock_ready reserve n"
  "mock_holding reserve n"
  for reserve n
  using mock_holding_drop by unfold_locales

lemma mock_kit_semaphore: "cs_new m i = Ok st \<Longrightarrow> mocksemtest.makes reserve n (mock_semaphore_new m i) st"
  using mock_ready_acquire by (fastforce simp: mocksemtest.makes_def mock_semaphore_new_def)

interpretation mocksemkit: semaphore_backend mock_semaphore_kit "\<lambda>s. s" "\<lambda>s. True" "mock_ready reserve n"
  "mock_holding reserve n"
  for reserve n
  using mock_holding_drop mock_kit_semaphore
  by unfold_locales (simp_all add: mock_semaphore_kit_def mock_semaphore_new_def mock_kit_acquire mocksemtest.refines_def
      mock_semaphore_release_def mock_semaphore_clone_def)

lemma mock_kit_binary: "mocksemtest.makes reserve n mock_binary_semaphore_new \<lparr>cs_max_count = 1, cs_count = 0\<rparr>"
  unfolding mock_binary_semaphore_new_def [abs_def] by (rule mock_kit_semaphore) (simp add: cs_new_def)

interpretation mockbinkit: binary_backend mock_binary_kit "\<lambda>s. s" "\<lambda>s. True" "mock_ready reserve n"
  "mock_holding reserve n"
  for reserve n
  using mock_holding_drop
  by unfold_locales (simp_all add: mock_binary_kit_def mock_kit_binary mock_kit_acquire
      mocksemtest.refines_def mock_semaphore_release_def mock_binary_is_signaled_def mock_semaphore_clone_def)

definition posix_acquire_alone :: "timespec \<Rightarrow> timeout \<Rightarrow> counting_semaphore_state \<Rightarrow> unit res \<times> counting_semaphore_state" where
  "posix_acquire_alone now t s = (case posix_acquire_enter (RetOk, now) t s of (e, s1) \<Rightarrow> (alone e, s1))"

definition posix_release_alone :: "counting_semaphore_state \<Rightarrow> unit res \<times> counting_semaphore_state" where
  "posix_release_alone s = (case posix_release s of (e, s1) \<Rightarrow> (alone e, s1))"

definition posix_semaphore_kit ::
  "'k posix_native \<Rightarrow> timespec \<Rightarrow> (('k, 'cb) posix_world, counting_semaphore_state) semaphore_kit" where
  "posix_semaphore_kit N now =
     \<lparr>sk_create = posix_semaphore_new N, sk_clone = posix_semaphore_clone, sk_drop = (\<lambda>_. posix_lease_drop), sk_acquire = posix_acquire_alone now,
      sk_release = posix_release_alone, sk_count = (\<lambda>s. Ok (cs_count s)), sk_max_count = cs_max_count\<rparr>"

definition posix_binary_kit ::
  "'k posix_native \<Rightarrow> timespec \<Rightarrow> (('k, 'cb) posix_world, counting_semaphore_state) binary_kit" where
  "posix_binary_kit N now =
     \<lparr>bk_create = posix_binary_semaphore_new N, bk_clone = posix_semaphore_clone, bk_drop = (\<lambda>_. posix_lease_drop), bk_acquire = posix_acquire_alone now,
      bk_release = posix_release_alone, bk_is_signaled = (\<lambda>s. Ok (posix_is_signaled s))\<rparr>"

lemma posix_kit_acquire: "kit_clock now \<Longrightarrow> kit_timeout t \<Longrightarrow> posix_acquire_alone now t = acquire_or_timeout"
proof
  fix s assume clock: "kit_clock now" and t: "kit_timeout t"
  have "\<exists>dl. checked_abs_deadline (RetOk, now) d = Ok dl" if "t = After d" for d
    using that clock t unfolding kit_clock_def by (cases "checked_abs_deadline (RetOk, now) d") auto
  with t show "posix_acquire_alone now t s = acquire_or_timeout s"
    by (cases t) (auto simp: kit_timeout_def posix_acquire_alone_def acquire_or_timeout_def posix_acquire_enter_def
        posix_acquire_iter_def cs_try_acquire_def alone_def split: if_splits)
qed

lemma posix_kit_release: "posix_release_alone = cs_release"
  by (rule ext) (auto simp: posix_release_alone_def posix_release_def alone_def cs_release_def)

interpretation posixsemtest: tested_object "\<lambda>s. s" "\<lambda>s. kit_clock now" "\<lambda>_. posix_lease_drop"
  "posix_ready N reserve now n" "posix_holding N reserve now n"
  for N reserve now n
  using posix_holding_drop by unfold_locales

lemma posix_kit_semaphore:
  "cs_new m i = Ok st \<Longrightarrow> posixsemtest.makes now N reserve n (posix_semaphore_new N m i) st"
  unfolding posixsemtest.makes_def
proof (intro allI impI)
  fix w :: "('a, 'b) posix_world" assume st: "cs_new m i = Ok st" and w: "posix_ready N reserve now n w"
  obtain y where y: "acquire (px_lifecycle w) = (Ok (), y)" "leases (Suc n) y"
    using leases_acquire [of n "px_lifecycle w"] w by (auto simp: posix_ready_def)
  have N: "posix_benign N reserve" using w by (simp add: posix_ready_def)
  obtain e1 where e1: "on_posix_native (posix_mutex_create N) (px_env w) = (Ok (), e1)"
    using posix_benign_natives(1) [OF N] by blast
  obtain e2 where "on_posix_native (posix_condvar_create N) e1 = (Ok (), e2)"
    using posix_benign_natives(2) [OF N] by blast
  then show "\<exists>q w'. posix_semaphore_new N m i w = (Ok q, w') \<and> kit_clock now \<and> q = st \<and> posix_holding N reserve now n w'"
    using y e1 st w
    by (simp add: posix_semaphore_new_def posix_leased_def posix_acquire_object_def on_posix_lifecycle_def
        posix_holding_def posix_ready_def)
qed

interpretation posixsemkit: semaphore_backend "posix_semaphore_kit N now" "\<lambda>s. s" "\<lambda>s. kit_clock now"
  "posix_ready N reserve now n" "posix_holding N reserve now n"
  for N reserve now n
  using posix_holding_drop posix_kit_semaphore
  by unfold_locales (simp_all add: posix_semaphore_kit_def posix_semaphore_new_def posix_kit_acquire posix_kit_release
      posixsemtest.refines_def posix_semaphore_clone_def)

lemma posix_kit_binary:
  "posixsemtest.makes now N reserve n (posix_binary_semaphore_new N) \<lparr>cs_max_count = 1, cs_count = 0\<rparr>"
  unfolding posix_binary_semaphore_new_def [abs_def] by (rule posix_kit_semaphore) (simp add: cs_new_def)

interpretation posixbinkit: binary_backend "posix_binary_kit N now" "\<lambda>s. s" "\<lambda>s. kit_clock now"
  "posix_ready N reserve now n" "posix_holding N reserve now n"
  for N reserve now n
  using posix_holding_drop
  by unfold_locales (simp_all add: posix_binary_kit_def posix_kit_binary posix_kit_acquire
      posix_kit_release posixsemtest.refines_def posix_is_signaled_def posix_semaphore_clone_def)

section \<open>Mutexes and the runtime of the mock\<close>

definition mock_mutex_kit :: "('cb mock_world, u32 mock_mutex) mutex_kit" where
  "mock_mutex_kit =
     \<lparr>mx_create = mock_mutex_new, mx_clone = mock_mutex_clone, mx_drop = (\<lambda>_. mock_lease_drop), mx_lock = mock_mutex_lock,
      mx_unlock = mock_mutex_guard_drop, mx_get = mm_data, mx_put = (\<lambda>v m. (Ok (), m\<lparr>mm_data := v\<rparr>))\<rparr>"

definition mock_runtime_kit :: "'cb mock_world runtime_kit" where
  "mock_runtime_kit = \<lparr>rk_initialize = mock_initialize, rk_shutdown = mock_shutdown, rk_state = mock_state\<rparr>"

definition lock_of :: "u32 mock_mutex \<Rightarrow> lock_state" where
  "lock_of m = \<lparr>ls_value = mm_data m, ls_locked = mm_locked m\<rparr>"

interpretation mocklocktest: tested_object lock_of "\<lambda>m. True" "mx_drop mock_mutex_kit" "mock_ready reserve n"
  "mock_holding reserve n"
  for reserve n
  using mock_holding_drop by unfold_locales (simp add: mock_mutex_kit_def)

interpretation mockmutexkit: mutex_backend mock_mutex_kit lock_of "\<lambda>m. True" "mock_ready reserve n" "mock_holding reserve n"
  for reserve n
proof (unfold_locales, goal_cases)
  case (1 v)
  then show ?case
    using mock_ready_acquire
    by (fastforce simp: mocklocktest.makes_def mock_mutex_kit_def mock_mutex_new_def lock_of_def)
qed (auto simp: mocklocktest.refines_def mock_mutex_kit_def mock_mutex_lock_def lock_spec_def lock_of_def
    mock_mutex_guard_drop_def mock_mutex_clone_def)

text \<open>A runtime without objects that is up or down.\<close>

definition mock_bare :: "'cb mock_world \<Rightarrow> bool" where
  "mock_bare w \<longleftrightarrow> mw_inv w \<and> mock_active_objects w = 0 \<and> mock_state w \<in> {Running, Uninitialized}"

lemma mock_bare_initialize:
  assumes "mock_bare w"
  shows "\<exists>w'. mock_initialize w = (fst (up_spec (mock_state w = Running)), w') \<and> mock_bare w'
    \<and> (mock_state w' = Running) = snd (up_spec (mock_state w = Running))"
proof (cases "mock_state w = Running")
  case True
  obtain r x where b: "begin_initialize (mw_lifecycle w) = (r, x)" by (cases "begin_initialize (mw_lifecycle w)")
  have "r = Err AlreadyInitialized" "x = mw_lifecycle w"
    using True begin_initialize_cases [OF b] by (auto simp: mock_state_def lc_abs_def)
  then show ?thesis
    using b assms True by (simp add: mock_initialize_def on_lifecycle_def up_spec_def)
next
  case False
  then show ?thesis
    using mock_initialize_ok [of w] assms by (auto simp: mock_bare_def up_spec_def unat_eq_zero)
qed

lemma mock_bare_shutdown:
  assumes "mock_bare w"
  shows "\<exists>w'. mock_shutdown w = (fst (down_spec (mock_state w = Running)), w') \<and> mock_bare w'
    \<and> (mock_state w' = Running) = snd (down_spec (mock_state w = Running))"
proof (cases "mock_state w = Running")
  case True
  then show ?thesis
    using mock_shutdown_cases(2) [of w] assms by (auto simp: mock_bare_def down_spec_def unat_eq_zero)
next
  case False
  obtain r x where b: "begin_shutdown (mw_lifecycle w) = (r, x)" by (cases "begin_shutdown (mw_lifecycle w)")
  have "r = Err NotInitialized" "x = mw_lifecycle w"
    using False assms begin_shutdown_word [OF b] by (auto simp: mock_bare_def mock_state_def)
  then show ?thesis
    using b assms False by (auto simp: mock_shutdown_def on_lifecycle_def down_spec_def mock_bare_def)
qed

interpretation mockruntimetest: abstracted "\<lambda>w. mock_state w = Running" mock_bare .

interpretation mockruntimekit: runtime_backend mock_runtime_kit "\<lambda>w. mock_state w = Running" mock_bare
proof (unfold_locales, goal_cases)
  case 1
  then show ?case
    unfolding mockruntimetest.refines_def mock_runtime_kit_def by (simp add: mock_bare_initialize)
next
  case 2
  then show ?case
    unfolding mockruntimetest.refines_def mock_runtime_kit_def by (simp add: mock_bare_shutdown)
next
  case (3 w)
  then show ?case by (auto simp: mock_runtime_kit_def mock_bare_def)
qed

section \<open>Properties\<close>

definition mock_contracts :: "(nat \<Rightarrow> bool) \<Rightarrow> 'cb mock_world \<Rightarrow> unit res \<times> 'cb mock_world" where
  "mock_contracts reserve = run_contracts
     [run_queue_contracts (mock_queue_kit reserve), run_clone_contracts (mock_queue_kit reserve),
      run_counting_core_contracts mock_semaphore_kit, run_binary_core_contracts mock_binary_kit,
      run_mutex_contracts mock_mutex_kit]"

definition posix_contracts ::
  "'k posix_native \<Rightarrow> (nat \<Rightarrow> bool) \<Rightarrow> timespec \<Rightarrow> ('k, 'cb) posix_world \<Rightarrow> unit res \<times> ('k, 'cb) posix_world" where
  "posix_contracts N reserve now = run_contracts
     [run_queue_contracts (posix_queue_kit N reserve now), run_clone_contracts (posix_queue_kit N reserve now),
      run_counting_core_contracts (posix_semaphore_kit N now), run_binary_core_contracts (posix_binary_kit N now)]"

lemma mock_contracts_clean: "mocktest.clean reserve n (mock_contracts reserve)"
  unfolding mock_contracts_def
  by (intro mocktest.clean_run mockkit.clean_suite mockkit.clean_clones mocksemkit.clean_counting
      mockbinkit.clean_binary mockmutexkit.clean_mutex)

lemma posix_contracts_clean: "posixtest.clean N reserve now n (posix_contracts N reserve now)"
  unfolding posix_contracts_def
  by (intro posixtest.clean_run posixkit.clean_suite posixkit.clean_clones posixsemkit.clean_counting
      posixbinkit.clean_binary)

text \<open>The mock backend passes the contracts of the test kit for queues (creation, order, precedence of
  errors, closing, timeouts, clones), semaphores and mutexes: from a running runtime with room for an
  object and with memory for the buffers no assertion fails, and afterwards the runtime is still running
  with the same number of live objects.\<close>

theorem mock_passes_contracts:
  assumes "\<forall>k \<le> 32. reserve k" and "mock_state w = Running" and "mock_active_objects w < lc_max_count"
  shows "\<exists>w'. mock_contracts reserve w = (Ok (), w') \<and> mock_state w' = Running
    \<and> mock_active_objects w' = mock_active_objects w"
proof -
  have "mock_ready reserve (unat (mock_active_objects w)) w"
    using assms by (simp add: mock_ready_def leases_def mock_state_def mock_active_objects_def word_less_nat_alt)
  then show ?thesis
    using mock_contracts_clean [of reserve "unat (mock_active_objects w)"] unfolding mocktest.clean_def
    by (fastforce simp: mock_ready_def leases_def mock_state_def mock_active_objects_def word_unat_eq_iff)
qed

lemma mock_started:
  "\<exists>w. mock_initialize (mock_world_initial :: nat mock_world) = (Ok (), w) \<and> mock_state w = Running
    \<and> mock_active_objects w = 0"
  using mock_initialize_ok [of "mock_world_initial :: nat mock_world"]
  by (auto simp: mock_world_initial_def mw_inv_def lc_word_ok_def mock_state_def unat_eq_zero)

lemma no_leases_room: "(0 :: usize) < lc_max_count"
  by code_simp

theorem mock_passes_contracts_witness:
  "\<exists>w w'. mock_initialize (mock_world_initial :: nat mock_world) = (Ok (), w)
    \<and> mock_contracts (\<lambda>_. True) w = (Ok (), w') \<and> mock_active_objects w' = 0"
proof -
  obtain w :: "nat mock_world" where w: "mock_initialize mock_world_initial = (Ok (), w)" "mock_state w = Running"
    "mock_active_objects w = 0" using mock_started by blast
  then show ?thesis using mock_passes_contracts [of "\<lambda>_. True" w] no_leases_room by auto
qed

text \<open>C31. The POSIX backend passes the queue and semaphore contracts for a caller that is alone: an
  uncontended call is one section under the mutex, and a timed wait that nobody signals ends with a
  timeout. The native constructors are assumed to succeed and the clock to be far from its end.\<close>

theorem posix_passes_contracts:
  assumes "posix_benign N reserve" and "kit_clock now"
    and "posix_state w = Running" and "posix_active_objects w < lc_max_count"
  shows "\<exists>w'. posix_contracts N reserve now w = (Ok (), w') \<and> posix_state w' = Running
    \<and> posix_active_objects w' = posix_active_objects w"
proof -
  have "posix_ready N reserve now (unat (posix_active_objects w)) w"
    using assms by (simp add: posix_ready_def leases_def posix_state_def posix_active_objects_def word_less_nat_alt)
  then show ?thesis
    using posix_contracts_clean [of N reserve now "unat (posix_active_objects w)"] unfolding posixtest.clean_def
    by (fastforce simp: posix_ready_def leases_def posix_state_def posix_active_objects_def word_unat_eq_iff)
qed

theorem posix_passes_contracts_witness:
  "\<exists>w'. posix_contracts posix_all_ok (\<lambda>_. True) \<lparr>tv_sec = 5, tv_nsec = 999999999\<rparr> posix_demo_world = (Ok (), w')
    \<and> posix_active_objects w' = 0"
proof -
  have "posix_benign posix_all_ok (\<lambda>_. True)" by (simp add: posix_benign_def posix_all_ok_def)
  moreover have "kit_clock \<lparr>tv_sec = 5, tv_nsec = 999999999\<rparr>"
    by (auto simp: kit_clock_def kit_timeout_def ten_ms_def checked_abs_deadline_def monotonic_now_raw_def
        duration_to_timespec_def uint_as_secs uint_subsec_nanos duration_limit_eq checked_add_i64_def time_t_max_def)
  moreover have "decode_state 2 = Running" "decode_count 2 = 0" by code_simp+
  then have "posix_state posix_demo_world = Running" "posix_active_objects posix_demo_world = 0"
    by (simp_all add: posix_state_def posix_active_objects_def posix_demo_world_def)
  ultimately show ?thesis
    using posix_passes_contracts [of posix_all_ok "\<lambda>_. True" "\<lparr>tv_sec = 5, tv_nsec = 999999999\<rparr>" posix_demo_world]
      no_leases_room by auto
qed

text \<open>The mock runtime passes the life-cycle contracts, from the first state of the process on.\<close>

theorem mock_passes_runtime_contracts:
  "\<exists>w'. run_runtime_contracts mock_runtime_kit mock_world_initial = (Ok (), w') \<and> mock_bare w'"
proof -
  have "mock_bare (mock_world_initial :: 'a mock_world)"
    by (simp add: mock_bare_def mock_world_initial_def mw_inv_def lc_word_ok_def mock_state_def mock_active_objects_def)
  then show ?thesis
    using mockruntimekit.runtime_contracts unfolding mockruntimetest.passes_def by blast
qed

end
