(* ===== verification/Posix_Once.thy ===== *)
theory Posix_Once
  imports Posix_Sys
begin

text \<open>
  One-time initialisation in the POSIX backend without \<open>pthread_once\<close>: the lazily created thread-specific key
  with the guard that sets it (sys/tls.rs), and the lazily created control mutex of the timer service
  (\<open>ensure_init\<close> of timer\_control.rs). Both use an atomic byte as a token; every atomic access, every write of
  the guarded cell and every native call is one step, and any number of threads interleave.
\<close>

section \<open>The thread-specific key (sys/tls.rs)\<close>

definition once_uninitialized :: u8 where "once_uninitialized = 0"

definition once_initializing :: u8 where "once_initializing = 1"

definition once_ready :: u8 where "once_ready = 2"

lemmas once_states = once_uninitialized_def once_initializing_def once_ready_def

text \<open>The key is \<open>None\<close> while its memory is uninitialised.\<close>

record 'k tls_slot =
  tls_state :: u8
  tls_key :: "'k option"

definition tls_slot_new :: "'k tls_slot" where
  "tls_slot_new = \<lparr>tls_state = once_uninitialized, tls_key = None\<rparr>"

text \<open>The points of \<open>get_or_init\<close>; reading uninitialised memory would be undefined behaviour and is a panic.\<close>

datatype 'k tls_pc =
    TFast
  | TClaim
  | TCreate
  | TWrite 'k
  | TStore 'k
  | TRollback
  | TSpin
  | TRead
  | TReturned "'k res"

definition tls_fast :: "'k tls_slot \<Rightarrow> 'k tls_pc" where
  "tls_fast s = (if tls_state s = once_ready then TRead else TClaim)"

definition tls_claim :: "'k tls_slot \<Rightarrow> 'k tls_pc \<times> 'k tls_slot" where
  "tls_claim s =
     (if tls_state s = once_uninitialized then (TCreate, s\<lparr>tls_state := once_initializing\<rparr>) else (TSpin, s))"

definition tls_spin :: "'k tls_slot \<Rightarrow> 'k tls_pc" where
  "tls_spin s =
     (if tls_state s = once_ready then TRead
      else if tls_state s = once_uninitialized
      then TReturned (Err (Internal ''pthread TLS initialisation was attempted but failed''))
      else TSpin)"

definition tls_read :: "'k tls_slot \<Rightarrow> 'k res" where
  "tls_read s = (case tls_key s of Some k \<Rightarrow> Ok k | None \<Rightarrow> Panic ''assume_init of uninitialised memory'')"

definition tls_get :: "'k tls_slot \<Rightarrow> 'k res option" where
  "tls_get s = (if tls_state s = once_ready then Some (tls_read s) else None)"

text \<open>The threads, and the keys that \<open>pthread_key_create\<close> has made.\<close>

record 'k tls_world =
  kw_slot :: "'k tls_slot"
  kw_pc :: "nat \<Rightarrow> 'k tls_pc"
  kw_created :: "'k list"

definition tls_init :: "'k tls_world" where
  "tls_init = \<lparr>kw_slot = tls_slot_new, kw_pc = (\<lambda>_. TFast), kw_created = []\<rparr>"

definition tls_move :: "nat \<Rightarrow> 'k tls_pc \<Rightarrow> 'k tls_slot \<Rightarrow> 'k tls_world \<Rightarrow> 'k tls_world" where
  "tls_move i pc s w = w\<lparr>kw_slot := s, kw_pc := (kw_pc w)(i := pc)\<rparr>"

inductive tls_step :: "'k tls_world \<Rightarrow> 'k tls_world \<Rightarrow> bool" where
  fast: "kw_pc w i = TFast \<Longrightarrow> tls_step w (tls_move i (tls_fast (kw_slot w)) (kw_slot w) w)"
| claim: "kw_pc w i = TClaim \<Longrightarrow> tls_claim (kw_slot w) = (pc, s) \<Longrightarrow> tls_step w (tls_move i pc s w)"
| create: "kw_pc w i = TCreate \<Longrightarrow>
    tls_step w ((tls_move i (TWrite k) (kw_slot w) w)\<lparr>kw_created := k # kw_created w\<rparr>)"
| create_fails: "kw_pc w i = TCreate \<Longrightarrow> tls_step w (tls_move i TRollback (kw_slot w) w)"
| write_key: "kw_pc w i = TWrite k \<Longrightarrow> tls_step w (tls_move i (TStore k) ((kw_slot w)\<lparr>tls_key := Some k\<rparr>) w)"
| store_ready: "kw_pc w i = TStore k \<Longrightarrow>
    tls_step w (tls_move i (TReturned (Ok k)) ((kw_slot w)\<lparr>tls_state := once_ready\<rparr>) w)"
| rollback: "kw_pc w i = TRollback \<Longrightarrow>
    tls_step w (tls_move i (TReturned (Err (Internal ''pthread_key_create failed'')))
      ((kw_slot w)\<lparr>tls_state := once_uninitialized\<rparr>) w)"
| spin: "kw_pc w i = TSpin \<Longrightarrow> tls_step w (tls_move i (tls_spin (kw_slot w)) (kw_slot w) w)"
| read_key: "kw_pc w i = TRead \<Longrightarrow> tls_step w (tls_move i (TReturned (tls_read (kw_slot w))) (kw_slot w) w)"
| call_again: "kw_pc w i = TReturned r \<Longrightarrow> tls_step w (tls_move i TFast (kw_slot w) w)"

text \<open>\<open>CurrentGuard\<close>: the value of a key in one thread is saved, set and restored; \<open>sets\<close> says whether
  \<open>pthread_setspecific\<close> succeeds, and \<open>debug\<close> whether the assertion of \<open>drop\<close> is compiled in.\<close>

record ('k, 'v) current_guard =
  cg_key :: 'k
  cg_previous :: 'v

definition current_enter :: "bool \<Rightarrow> 'k \<Rightarrow> 'v \<Rightarrow> ('k \<Rightarrow> 'v) \<Rightarrow> ('k, 'v) current_guard res \<times> ('k \<Rightarrow> 'v)" where
  "current_enter sets k v specific =
     (if sets then (Ok \<lparr>cg_key = k, cg_previous = specific k\<rparr>, specific(k := v)) else (Err OutOfMemory, specific))"

definition current_drop :: "bool \<Rightarrow> bool \<Rightarrow> ('k, 'v) current_guard \<Rightarrow> ('k \<Rightarrow> 'v) \<Rightarrow> unit res \<times> ('k \<Rightarrow> 'v)" where
  "current_drop debug sets g specific =
     (if sets then (Ok (), specific(cg_key g := cg_previous g))
      else (if debug then Panic ''pthread_setspecific restore failed'' else Ok (), specific))"

section \<open>The control mutex (timer\_control.rs)\<close>

datatype ensure_pc =
    ELoad
  | EClaim
  | EInit
  | EReady
  | EFailed
  | EReturned "unit res"

text \<open>One turn of the loop: a load and, when it saw no owner, a compare-exchange.\<close>

definition ensure_load :: "u8 \<Rightarrow> ensure_pc" where
  "ensure_load st =
     (if st = once_ready then EReturned (Ok ())
      else if st = once_uninitialized then EClaim
      else if st = once_initializing then ELoad
      else EReturned (Panic ''internal error: entered unreachable code''))"

definition ensure_claim :: "u8 \<Rightarrow> ensure_pc \<times> u8" where
  "ensure_claim st = (if st = once_uninitialized then (EInit, once_initializing) else (ELoad, st))"

text \<open>\<open>ew_inits\<close> counts the successful calls of \<open>pthread_mutex_init\<close>.\<close>

record ensure_world =
  ew_state :: u8
  ew_pc :: "nat \<Rightarrow> ensure_pc"
  ew_inits :: nat

definition ensure_world_init :: ensure_world where
  "ensure_world_init = \<lparr>ew_state = once_uninitialized, ew_pc = (\<lambda>_. ELoad), ew_inits = 0\<rparr>"

definition ensure_move :: "nat \<Rightarrow> ensure_pc \<Rightarrow> u8 \<Rightarrow> ensure_world \<Rightarrow> ensure_world" where
  "ensure_move i pc st w = w\<lparr>ew_state := st, ew_pc := (ew_pc w)(i := pc)\<rparr>"

inductive ensure_step :: "ensure_world \<Rightarrow> ensure_world \<Rightarrow> bool" where
  load: "ew_pc w i = ELoad \<Longrightarrow> ensure_step w (ensure_move i (ensure_load (ew_state w)) (ew_state w) w)"
| claim: "ew_pc w i = EClaim \<Longrightarrow> ensure_claim (ew_state w) = (pc, st) \<Longrightarrow> ensure_step w (ensure_move i pc st w)"
| init_ok: "ew_pc w i = EInit \<Longrightarrow>
    ensure_step w ((ensure_move i EReady (ew_state w) w)\<lparr>ew_inits := Suc (ew_inits w)\<rparr>)"
| init_fails: "ew_pc w i = EInit \<Longrightarrow> ensure_step w (ensure_move i EFailed (ew_state w) w)"
| store_ready: "ew_pc w i = EReady \<Longrightarrow> ensure_step w (ensure_move i (EReturned (Ok ())) once_ready w)"
| store_failed: "ew_pc w i = EFailed \<Longrightarrow>
    ensure_step w (ensure_move i (EReturned (Err (Internal ''timer control mutex init failed''))) once_uninitialized w)"
| call_again: "ew_pc w i = EReturned r \<Longrightarrow> ensure_step w (ensure_move i ELoad (ew_state w) w)"

section \<open>Ownership of the token\<close>

text \<open>A byte that is a token: while it says that an initialisation is in progress exactly one thread owns it.\<close>

definition token_inv :: "('p \<Rightarrow> bool) \<Rightarrow> u8 \<Rightarrow> (nat \<Rightarrow> 'p) \<Rightarrow> bool" where
  "token_inv owner st pc \<longleftrightarrow>
     st \<in> {once_uninitialized, once_initializing, once_ready}
     \<and> (\<forall>i j. owner (pc i) \<longrightarrow> owner (pc j) \<longrightarrow> i = j) \<and> ((\<exists>i. owner (pc i)) \<longleftrightarrow> st = once_initializing)"

lemma token_owner: "token_inv owner st pc \<Longrightarrow> owner (pc i) \<Longrightarrow> st = once_initializing"
  by (auto simp: token_inv_def)

lemma token_unique: "token_inv owner st pc \<Longrightarrow> owner (pc i) \<Longrightarrow> owner (pc j) \<Longrightarrow> i = j"
  by (auto simp: token_inv_def)

lemma token_same:
  assumes "token_inv owner st pc" and "owner x = owner (pc i)"
  shows "token_inv owner st (pc(i := x))"
proof -
  have "owner ((pc(i := x)) j) = owner (pc j)" for j using assms(2) by simp
  then show ?thesis using assms(1) by (simp add: token_inv_def)
qed

lemma token_claim:
  assumes "token_inv owner once_uninitialized pc" and "owner x"
  shows "token_inv owner once_initializing (pc(i := x))"
proof -
  have "\<not> owner (pc j)" for j using assms(1) by (auto simp: token_inv_def once_states)
  then show ?thesis using assms(2) by (auto simp: token_inv_def)
qed

lemma token_release:
  assumes "token_inv owner st pc" and "owner (pc i)" and "\<not> owner x" and "st' \<in> {once_uninitialized, once_ready}"
  shows "token_inv owner st' (pc(i := x))"
proof -
  have "\<not> owner ((pc(i := x)) j)" for j using token_unique [OF assms(1,2)] assms(3) by auto
  then show ?thesis using assms(4) by (auto simp: token_inv_def once_states)
qed

section \<open>The key is created once\<close>

fun tls_owner :: "'k tls_pc \<Rightarrow> bool" where
  "tls_owner TCreate = True"
| "tls_owner (TWrite _) = True"
| "tls_owner (TStore _) = True"
| "tls_owner TRollback = True"
| "tls_owner _ = False"

text \<open>What a thread at a point knows of the slot and of the keys created.\<close>

fun tls_pc_ok :: "'k tls_slot \<Rightarrow> 'k list \<Rightarrow> 'k tls_pc \<Rightarrow> bool" where
  "tls_pc_ok s ks TCreate \<longleftrightarrow> ks = []"
| "tls_pc_ok s ks TRollback \<longleftrightarrow> ks = []"
| "tls_pc_ok s ks (TWrite k) \<longleftrightarrow> ks = [k]"
| "tls_pc_ok s ks (TStore k) \<longleftrightarrow> ks = [k] \<and> tls_key s = Some k"
| "tls_pc_ok s ks TRead \<longleftrightarrow> tls_state s = once_ready"
| "tls_pc_ok s ks (TReturned (Ok k)) \<longleftrightarrow> tls_state s = once_ready \<and> ks = [k]"
| "tls_pc_ok s ks (TReturned (Panic _)) \<longleftrightarrow> False"
| "tls_pc_ok s ks _ \<longleftrightarrow> True"

definition kw_inv :: "'k tls_world \<Rightarrow> bool" where
  "kw_inv w \<longleftrightarrow>
     token_inv tls_owner (tls_state (kw_slot w)) (kw_pc w)
     \<and> (tls_state (kw_slot w) = once_uninitialized \<longrightarrow> kw_created w = [])
     \<and> (tls_state (kw_slot w) = once_ready \<longrightarrow> (\<exists>k. kw_created w = [k] \<and> tls_key (kw_slot w) = Some k))
     \<and> (\<forall>i. tls_pc_ok (kw_slot w) (kw_created w) (kw_pc w i))"

text \<open>A step that leaves the slot alone.\<close>

lemma kw_inv_quiet:
  assumes "kw_inv w" and "tls_owner pc = tls_owner (kw_pc w i)" and "tls_pc_ok (kw_slot w) (kw_created w) pc"
  shows "kw_inv (tls_move i pc (kw_slot w) w)"
  using assms token_same [of tls_owner _ "kw_pc w" pc i] by (simp add: kw_inv_def tls_move_def)

text \<open>A step of the owner: nobody else relies on the slot or on the keys.\<close>

lemma kw_others:
  assumes "kw_inv w" and "tls_owner (kw_pc w i)" and "j \<noteq> i"
  shows "tls_pc_ok s ks (kw_pc w j)"
proof -
  have "tls_state (kw_slot w) = once_initializing" "\<not> tls_owner (kw_pc w j)"
    using assms token_owner token_unique unfolding kw_inv_def by metis+
  moreover have "tls_pc_ok (kw_slot w) (kw_created w) (kw_pc w j)" using assms(1) by (simp add: kw_inv_def)
  ultimately show ?thesis
    by (cases "(kw_slot w, kw_created w, kw_pc w j)" rule: tls_pc_ok.cases) (simp_all add: once_states)
qed

lemma kw_inv_owner:
  assumes "kw_inv w" and "tls_owner (kw_pc w i)"
    and "token_inv tls_owner (tls_state s) ((kw_pc w)(i := pc))" and "tls_pc_ok s ks pc"
    and "tls_state s = once_uninitialized \<Longrightarrow> ks = []"
    and "tls_state s = once_ready \<Longrightarrow> \<exists>k. ks = [k] \<and> tls_key s = Some k"
  shows "kw_inv ((tls_move i pc s w)\<lparr>kw_created := ks\<rparr>)"
  using assms kw_others [OF assms(1,2)] by (simp add: kw_inv_def tls_move_def)

lemma kw_inv_step:
  assumes "tls_step w w'" and inv: "kw_inv w"
  shows "kw_inv w'"
proof -
  have tok: "token_inv tls_owner (tls_state (kw_slot w)) (kw_pc w)" and ok: "\<And>i. tls_pc_ok (kw_slot w) (kw_created w) (kw_pc w i)"
    using inv by (simp_all add: kw_inv_def)
  have owner: "tls_owner (kw_pc w i) \<Longrightarrow> tls_state (kw_slot w) = once_initializing" for i by (rule token_owner [OF tok])
  note rel = token_release [OF tok]
  from assms(1) show ?thesis
  proof cases
    case (claim i pc s)
    show ?thesis
    proof (cases "tls_state (kw_slot w) = once_uninitialized")
      case True
      then have "kw_created w = []" using inv by (simp add: kw_inv_def)
      moreover have "tls_pc_ok (kw_slot w\<lparr>tls_state := once_initializing\<rparr>) [] (kw_pc w j)" for j
        using ok [of j] True \<open>kw_created w = []\<close>
        by (cases "(kw_slot w, kw_created w, kw_pc w j)" rule: tls_pc_ok.cases) (simp_all add: once_states)
      ultimately show ?thesis
        using claim True token_claim [of tls_owner "kw_pc w" TCreate i] tok
        by (auto simp: tls_claim_def kw_inv_def tls_move_def once_states)
    qed (use claim kw_inv_quiet [OF inv, of TSpin i] in \<open>auto simp: tls_claim_def\<close>)
  next
    case (create i k)
    show ?thesis unfolding create(1)
      by (rule kw_inv_owner [OF inv]) (use create ok [of i] owner [of i] token_same [OF tok, of "TWrite k" i] in \<open>auto simp: once_states\<close>)
  next
    case (write_key i k)
    have "kw_inv ((tls_move i (TStore k) ((kw_slot w)\<lparr>tls_key := Some k\<rparr>) w)\<lparr>kw_created := kw_created w\<rparr>)"
      by (rule kw_inv_owner [OF inv])
        (use write_key ok [of i] owner [of i] token_same [OF tok, of "TStore k" i] in \<open>auto simp: once_states\<close>)
    then show ?thesis by (simp add: write_key(1) tls_move_def)
  next
    case (store_ready i k)
    have "kw_inv ((tls_move i (TReturned (Ok k)) ((kw_slot w)\<lparr>tls_state := once_ready\<rparr>) w)\<lparr>kw_created := kw_created w\<rparr>)"
      by (rule kw_inv_owner [OF inv]) (use store_ready ok [of i] rel [of i "TReturned (Ok k)"] in \<open>auto simp: once_states\<close>)
    then show ?thesis by (simp add: store_ready(1) tls_move_def)
  next
    case (rollback i)
    let ?r = "TReturned (Err (Internal ''pthread_key_create failed''))"
    have "kw_inv ((tls_move i ?r ((kw_slot w)\<lparr>tls_state := once_uninitialized\<rparr>) w)\<lparr>kw_created := kw_created w\<rparr>)"
      by (rule kw_inv_owner [OF inv]) (use rollback ok [of i] rel [of i ?r] in \<open>auto simp: once_states\<close>)
    then show ?thesis by (simp add: rollback(1) tls_move_def)
  next
    case (read_key i)
    have "tls_state (kw_slot w) = once_ready" using ok [of i] read_key(2) by simp
    then obtain k where "kw_created w = [k]" "tls_key (kw_slot w) = Some k" using inv by (auto simp: kw_inv_def)
    then show ?thesis
      using read_key kw_inv_quiet [OF inv, of "TReturned (Ok k)" i] \<open>tls_state (kw_slot w) = once_ready\<close>
      by (simp add: tls_read_def)
  next
    case (create_fails i)
    then show ?thesis using kw_inv_quiet [OF inv, of TRollback i] ok [of i] by simp
  qed (use kw_inv_quiet [OF inv] ok in \<open>auto simp: tls_fast_def tls_spin_def\<close>)
qed

lemma kw_inv_reachable:
  assumes "tls_step\<^sup>*\<^sup>* tls_init w"
  shows "kw_inv w"
  using assms
proof (induction rule: rtranclp_induct)
  case base
  show ?case by (simp add: kw_inv_def tls_init_def tls_slot_new_def token_inv_def once_states)
qed (rule kw_inv_step)

text \<open>
  However many threads call \<open>get_or_init\<close> at once, at most one key is ever created, every call that
  succeeds returns that key and no call reads the key before it is written.
\<close>

theorem tls_key_once:
  assumes "tls_step\<^sup>*\<^sup>* tls_init w"
  shows "length (kw_created w) \<le> 1"
    and "kw_pc w i = TReturned (Ok k) \<Longrightarrow> kw_created w = [k] \<and> tls_get (kw_slot w) = Some (Ok k)"
    and "kw_pc w i \<noteq> TReturned (Panic m)"
proof -
  have inv: "kw_inv w" by (rule kw_inv_reachable [OF assms])
  have ok: "tls_pc_ok (kw_slot w) (kw_created w) (kw_pc w j)" for j using inv by (simp add: kw_inv_def)
  show "kw_pc w i \<noteq> TReturned (Panic m)" using ok [of i] by auto
  show "kw_created w = [k] \<and> tls_get (kw_slot w) = Some (Ok k)" if "kw_pc w i = TReturned (Ok k)"
    using that ok [of i] inv by (auto simp: kw_inv_def tls_get_def tls_read_def)
  show "length (kw_created w) \<le> 1"
  proof (cases "tls_state (kw_slot w) = once_initializing")
    case True
    then obtain j where "tls_owner (kw_pc w j)" using inv by (auto simp: kw_inv_def token_inv_def)
    then show ?thesis using ok [of j] by (cases "kw_pc w j") auto
  next
    case False
    then show ?thesis using inv by (auto simp: kw_inv_def token_inv_def)
  qed
qed

text \<open>A guard that is dropped gives its key the value it had before, whatever the key held meanwhile, and touches no other.\<close>

lemma current_guard_restores:
  assumes "current_enter True k v specific = (Ok g, s1)" and "s2 k' = (if k' = k then x else specific k')"
  shows "s1 k = v" and "snd (current_drop debug True g s2) k' = specific k'"
  using assms by (auto simp: current_enter_def current_drop_def)

section \<open>The control mutex is initialised once\<close>

fun ensure_owner :: "ensure_pc \<Rightarrow> bool" where
  "ensure_owner EInit = True"
| "ensure_owner EReady = True"
| "ensure_owner EFailed = True"
| "ensure_owner _ = False"

fun ensure_pc_ok :: "u8 \<Rightarrow> nat \<Rightarrow> ensure_pc \<Rightarrow> bool" where
  "ensure_pc_ok st n EInit \<longleftrightarrow> n = 0"
| "ensure_pc_ok st n EFailed \<longleftrightarrow> n = 0"
| "ensure_pc_ok st n EReady \<longleftrightarrow> n = 1"
| "ensure_pc_ok st n (EReturned (Ok _)) \<longleftrightarrow> st = once_ready"
| "ensure_pc_ok st n (EReturned (Panic _)) \<longleftrightarrow> False"
| "ensure_pc_ok st n _ \<longleftrightarrow> True"

definition ew_inv :: "ensure_world \<Rightarrow> bool" where
  "ew_inv w \<longleftrightarrow>
     token_inv ensure_owner (ew_state w) (ew_pc w)
     \<and> (ew_state w = once_uninitialized \<longrightarrow> ew_inits w = 0) \<and> (ew_state w = once_ready \<longrightarrow> ew_inits w = 1)
     \<and> (\<forall>i. ensure_pc_ok (ew_state w) (ew_inits w) (ew_pc w i))"

lemma ew_inv_quiet:
  assumes "ew_inv w" and "ensure_owner pc = ensure_owner (ew_pc w i)" and "ensure_pc_ok (ew_state w) (ew_inits w) pc"
  shows "ew_inv (ensure_move i pc (ew_state w) w)"
  using assms token_same [of ensure_owner _ "ew_pc w" pc i] by (simp add: ew_inv_def ensure_move_def)

lemma ew_others:
  assumes "ew_inv w" and "ew_state w \<noteq> once_ready" and "\<not> ensure_owner (ew_pc w j)"
  shows "ensure_pc_ok st n (ew_pc w j)"
proof -
  have "ensure_pc_ok (ew_state w) (ew_inits w) (ew_pc w j)" using assms(1) by (simp add: ew_inv_def)
  then show ?thesis using assms(2,3)
    by (cases "(ew_state w, ew_inits w, ew_pc w j)" rule: ensure_pc_ok.cases) simp_all
qed

lemma ew_inv_owner:
  assumes "ew_inv w" and "ensure_owner (ew_pc w i)"
    and "token_inv ensure_owner st ((ew_pc w)(i := pc))" and "ensure_pc_ok st n pc"
    and "st = once_uninitialized \<Longrightarrow> n = 0" and "st = once_ready \<Longrightarrow> n = 1"
  shows "ew_inv ((ensure_move i pc st w)\<lparr>ew_inits := n\<rparr>)"
proof -
  have tok: "token_inv ensure_owner (ew_state w) (ew_pc w)" using assms(1) by (simp add: ew_inv_def)
  have "ew_state w \<noteq> once_ready" using token_owner [OF tok assms(2)] by (simp add: once_states)
  then have "ensure_pc_ok st n (ew_pc w j)" if "j \<noteq> i" for j
    using ew_others [OF assms(1)] token_unique [OF tok assms(2)] that by blast
  then show ?thesis using assms by (simp add: ew_inv_def ensure_move_def)
qed

lemma ew_inv_step:
  assumes "ensure_step w w'" and inv: "ew_inv w"
  shows "ew_inv w'"
proof -
  have tok: "token_inv ensure_owner (ew_state w) (ew_pc w)"
    and ok: "\<And>i. ensure_pc_ok (ew_state w) (ew_inits w) (ew_pc w i)"
    using inv by (simp_all add: ew_inv_def)
  have owner: "ensure_owner (ew_pc w i) \<Longrightarrow> ew_state w = once_initializing" for i by (rule token_owner [OF tok])
  from assms(1) show ?thesis
  proof cases
    case (load i)
    have "ew_state w \<in> {once_uninitialized, once_initializing, once_ready}" using tok by (simp add: token_inv_def)
    then show ?thesis using load ew_inv_quiet [OF inv, of "ensure_load (ew_state w)" i]
      by (auto simp: ensure_load_def once_states)
  next
    case (claim i pc st)
    show ?thesis
    proof (cases "ew_state w = once_uninitialized")
      case True
      have "\<not> ensure_owner (ew_pc w j)" for j using owner [of j] True by (auto simp: once_states)
      then have "ensure_pc_ok once_initializing 0 (ew_pc w j)" for j
        using ew_others [OF inv] True by (simp add: once_states)
      then show ?thesis
        using claim True inv token_claim [of ensure_owner "ew_pc w" EInit i] tok
        by (auto simp: ensure_claim_def ew_inv_def ensure_move_def once_states)
    qed (use claim ew_inv_quiet [OF inv, of ELoad i] in \<open>auto simp: ensure_claim_def\<close>)
  next
    case (init_ok i)
    show ?thesis unfolding init_ok(1)
      by (rule ew_inv_owner [OF inv])
        (use init_ok ok [of i] owner [of i] token_same [OF tok, of EReady i] in \<open>auto simp: once_states\<close>)
  next
    case (init_fails i)
    then show ?thesis using ew_inv_quiet [OF inv, of EFailed i] ok [of i] by simp
  next
    case (store_ready i)
    have "ew_inv ((ensure_move i (EReturned (Ok ())) once_ready w)\<lparr>ew_inits := ew_inits w\<rparr>)"
      by (rule ew_inv_owner [OF inv])
        (use store_ready ok [of i] token_release [OF tok, of i "EReturned (Ok ())"] in \<open>auto simp: once_states\<close>)
    then show ?thesis by (simp add: store_ready(1) ensure_move_def)
  next
    case (store_failed i)
    let ?r = "EReturned (Err (Internal ''timer control mutex init failed''))"
    have "ew_inv ((ensure_move i ?r once_uninitialized w)\<lparr>ew_inits := ew_inits w\<rparr>)"
      by (rule ew_inv_owner [OF inv])
        (use store_failed ok [of i] token_release [OF tok, of i ?r] in \<open>auto simp: once_states\<close>)
    then show ?thesis by (simp add: store_failed(1) ensure_move_def)
  qed (use ew_inv_quiet [OF inv] ok in auto)
qed

lemma ew_inv_reachable:
  assumes "ensure_step\<^sup>*\<^sup>* ensure_world_init w"
  shows "ew_inv w"
  using assms
proof (induction rule: rtranclp_induct)
  case base
  show ?case by (simp add: ew_inv_def ensure_world_init_def token_inv_def once_states)
qed (rule ew_inv_step)

text \<open>
  The control mutex is initialised at most once whatever the interleaving; a caller that gets \<open>Ok\<close>
  has an initialised mutex, and the \<open>unreachable!\<close> arm is never taken.
\<close>

theorem ensure_init_once:
  assumes "ensure_step\<^sup>*\<^sup>* ensure_world_init w"
  shows "ew_inits w \<le> 1"
    and "ew_pc w i = EReturned (Ok ()) \<Longrightarrow> ew_inits w = 1"
    and "ew_pc w i \<noteq> EReturned (Panic m)"
proof -
  have inv: "ew_inv w" by (rule ew_inv_reachable [OF assms])
  have ok: "ensure_pc_ok (ew_state w) (ew_inits w) (ew_pc w j)" for j using inv by (simp add: ew_inv_def)
  show "ew_pc w i \<noteq> EReturned (Panic m)" using ok [of i] by auto
  show "ew_inits w = 1" if "ew_pc w i = EReturned (Ok ())" using that ok [of i] inv by (simp add: ew_inv_def)
  show "ew_inits w \<le> 1"
  proof (cases "ew_state w = once_initializing")
    case True
    then obtain j where "ensure_owner (ew_pc w j)" using inv by (auto simp: ew_inv_def token_inv_def)
    then show ?thesis using ok [of j] by (cases "ew_pc w j") auto
  next
    case False
    then show ?thesis using inv by (auto simp: ew_inv_def token_inv_def)
  qed
qed

end
