(* ===== verification/Qemu_Allocator.thy ===== *)
theory Qemu_Allocator
  imports Osal_Prelude
begin

text \<open>
  src/integration/freertos-qemu-mps2/rust/src/allocator.rs: the global allocator of the firmware, which gets
  blocks from the kernel heap without any alignment and hides the block's address in a header before the
  memory it hands out. The target has 32-bit pointers; an address is a natural number and 0 is null. Memory
  is a map from addresses to bytes, so that the header is bytes like the client's own. The kernel heap is C
  code: a parameter with the documented laws of \<open>pvPortMalloc\<close> and \<open>vPortFree\<close>.
\<close>

section \<open>The allocator\<close>

type_synonym memory = "nat \<Rightarrow> u8"

record layout =
  layout_size :: nat
  layout_align :: nat

text \<open>\<open>size_of\<close> and \<open>align_of\<close> of \<open>AllocationHeader\<close>, one pointer.\<close>

definition header_size :: nat where "header_size = 4"

definition header_align :: nat where "header_align = 4"

definition effective_align :: "layout \<Rightarrow> nat" where
  "effective_align l = max (layout_align l) header_align"

definition alloc_total :: "layout \<Rightarrow> nat option" where
  "alloc_total l =
     (case checked_add u32_max (layout_size l) header_size of
        None \<Rightarrow> None
      | Some v \<Rightarrow> checked_add u32_max v (effective_align l - 1))"

text \<open>\<open>align_offset\<close> of a byte pointer.\<close>

definition align_offset :: "nat \<Rightarrow> nat \<Rightarrow> nat" where
  "align_offset p a = (if p mod a = 0 then 0 else a - p mod a)"

text \<open>A header is the four bytes of the raw pointer, least significant first.\<close>

definition header_write :: "nat \<Rightarrow> nat \<Rightarrow> memory \<Rightarrow> memory" where
  "header_write p raw m =
     m(p := word_of_nat raw, p + 1 := word_of_nat (raw div 2 ^ 8),
       p + 2 := word_of_nat (raw div 2 ^ 16), p + 3 := word_of_nat (raw div 2 ^ 24))"

definition header_read :: "nat \<Rightarrow> memory \<Rightarrow> nat" where
  "header_read p m =
     unat (m p) + 2 ^ 8 * unat (m (p + 1)) + 2 ^ 16 * unat (m (p + 2)) + 2 ^ 24 * unat (m (p + 3))"

text \<open>The kernel heap: \<open>heap_alloc\<close> and \<open>heap_dealloc\<close> of osal-backend-freertos-sys.\<close>

record 'h native_heap =
  heap_alloc :: "nat \<Rightarrow> 'h \<Rightarrow> memory \<Rightarrow> nat \<times> 'h \<times> memory"
  heap_dealloc :: "nat \<Rightarrow> 'h \<Rightarrow> memory \<Rightarrow> 'h \<times> memory"

definition allocator_alloc :: "'h native_heap \<Rightarrow> layout \<Rightarrow> 'h \<Rightarrow> memory \<Rightarrow> nat \<times> 'h \<times> memory" where
  "allocator_alloc N l h m =
     (if layout_size l = 0 then (0, h, m)
      else case alloc_total l of
             None \<Rightarrow> (0, h, m)
           | Some n \<Rightarrow>
               let (raw, h1, m1) = heap_alloc N n h m in
               if raw = 0 then (0, h1, m1)
               else let candidate = raw + header_size;
                        offset = align_offset candidate (effective_align l)
                    in if offset = u32_max then (case heap_dealloc N raw h1 m1 of (h2, m2) \<Rightarrow> (0, h2, m2))
                       else let user = candidate + offset
                            in (user, h1, header_write (user - header_size) raw m1))"

definition allocator_dealloc :: "'h native_heap \<Rightarrow> nat \<Rightarrow> 'h \<Rightarrow> memory \<Rightarrow> 'h \<times> memory" where
  "allocator_dealloc N p h m =
     (if p = 0 then (h, m) else heap_dealloc N (header_read (p - header_size) m) h m)"

text \<open>What a program does with the allocator: it allocates with a valid layout (\<open>Layout\<close> guarantees a power of
  two as alignment and a size that can be rounded up to it within \<open>isize\<close>), writes to memory it holds, and frees what it
  holds. \<open>live\<close> is what it holds.\<close>

definition layout_valid :: "layout \<Rightarrow> bool" where
  "layout_valid l \<longleftrightarrow>
     layout_align l \<in> set (map (\<lambda>k. 2 ^ k) [0..<31]) \<and> layout_size l + layout_align l \<le> 2 ^ 31"

definition payload :: "nat \<Rightarrow> layout \<Rightarrow> nat set" where
  "payload p l = {p ..< p + layout_size l}"

inductive heap_step ::
  "'h native_heap \<Rightarrow> (nat \<rightharpoonup> layout) \<times> 'h \<times> memory \<Rightarrow> (nat \<rightharpoonup> layout) \<times> 'h \<times> memory \<Rightarrow> bool"
  for N where
  alloc_fails: "layout_valid l \<Longrightarrow> allocator_alloc N l h m = (0, h', m') \<Longrightarrow> heap_step N (live, h, m) (live, h', m')"
| alloc: "layout_valid l \<Longrightarrow> allocator_alloc N l h m = (p, h', m') \<Longrightarrow> p \<noteq> 0 \<Longrightarrow>
    heap_step N (live, h, m) (live(p \<mapsto> l), h', m')"
| free: "live p = Some l \<Longrightarrow> allocator_dealloc N p h m = (h', m') \<Longrightarrow>
    heap_step N (live, h, m) (live(p := None), h', m')"
| store: "live p = Some l \<Longrightarrow> a \<in> payload p l \<Longrightarrow> heap_step N (live, h, m) (live, h, m(a := b))"

section \<open>Headers and alignment\<close>

lemma unat_byte: "unat (word_of_nat n :: u8) = n mod 256"
  by (simp add: unat_of_nat take_bit_eq_mod)

lemma header_read_write:
  assumes "raw < 2 ^ 32"
  shows "header_read p (header_write p raw m) = raw"
proof -
  let ?d = "\<lambda>n. raw div 2 ^ n"
  have d: "raw = raw mod 256 + 256 * ?d 8" "?d 8 = ?d 8 mod 256 + 256 * ?d 16" "?d 16 = ?d 16 mod 256 + 256 * ?d 24"
    using mod_mult_div_eq [of raw 256] mod_mult_div_eq [of "?d 8" 256] mod_mult_div_eq [of "?d 16" 256]
    by (simp_all flip: div_mult2_eq)
  have digits: "w + 256 * x + 65536 * y + 16777216 * z = r"
    if "r = w + 256 * b" "b = x + 256 * c" "c = y + 256 * z" for r w x y z b c :: nat
    using that by simp
  have "?d 24 mod 256 = ?d 24" using assms by (simp add: less_mult_imp_div_less)
  moreover have "raw mod 256 + 256 * (?d 8 mod 256) + 65536 * (?d 16 mod 256) + 16777216 * ?d 24 = raw"
    by (rule digits [OF d])
  ultimately show ?thesis by (simp add: header_read_def header_write_def unat_byte)
qed

lemma header_read_cong: "(\<And>i. p \<le> i \<Longrightarrow> i < p + header_size \<Longrightarrow> m' i = m i) \<Longrightarrow> header_read p m' = header_read p m"
  by (simp add: header_read_def header_size_def)

lemma header_write_other: "i < p \<or> p + header_size \<le> i \<Longrightarrow> header_write p raw m i = m i"
  by (auto simp: header_write_def header_size_def)

lemma align_offset_less: "0 < a \<Longrightarrow> align_offset p a < a"
  by (auto simp: align_offset_def)

lemma align_offset_aligns: "0 < a \<Longrightarrow> (p + align_offset p a) mod a = 0"
proof -
  assume "0 < a"
  then have "p mod a < a" by simp
  moreover have "a * (p div a) + p mod a = p" by (rule mult_div_mod_eq)
  ultimately have "p + (a - p mod a) = a * (p div a) + a" by linarith
  then show ?thesis by (auto simp: align_offset_def)
qed

text \<open>Both alignments are powers of two, so the larger is a multiple of each.\<close>

lemma effective_align_dvd:
  assumes "layout_valid l"
  shows "layout_align l dvd effective_align l" and "header_align dvd effective_align l" and "0 < effective_align l"
    and "effective_align l < 2 ^ 31"
proof -
  obtain k where k: "layout_align l = 2 ^ k" "k < 31" using assms by (auto simp: layout_valid_def)
  have h: "header_align = 2 ^ 2" by (simp add: header_align_def)
  show "layout_align l dvd effective_align l" "header_align dvd effective_align l"
    using le_imp_power_dvd [of k 2 "2 :: nat"] le_imp_power_dvd [of 2 k "2 :: nat"]
    unfolding effective_align_def k(1) h by (metis dvd_refl linear max_def power_increasing_iff one_less_numeral_iff semiring_norm(76))+
  show "0 < effective_align l" by (simp add: effective_align_def header_align_def)
  have "(2 :: nat) ^ k < 2 ^ 31" by (rule power_strict_increasing [OF k(2)]) simp
  then show "effective_align l < 2 ^ 31" unfolding effective_align_def header_align_def k(1) by simp
qed

section \<open>The kernel heap\<close>

text \<open>The documented laws: a new block overlaps no live block, and neither call touches the contents of the
  blocks that stay live.\<close>

locale native_heap_laws =
  fixes N :: "'h native_heap" and blocks :: "'h \<Rightarrow> nat \<rightharpoonup> nat" and heap_ok :: "'h \<Rightarrow> bool"
  assumes alloc_null: "heap_ok h \<Longrightarrow> heap_alloc N n h m = (0, h', m') \<Longrightarrow> heap_ok h' \<and> blocks h' = blocks h"
    and alloc_block: "heap_ok h \<Longrightarrow> heap_alloc N n h m = (raw, h', m') \<Longrightarrow> raw \<noteq> 0 \<Longrightarrow> 0 < n \<Longrightarrow>
      heap_ok h' \<and> blocks h raw = None \<and> blocks h' = (blocks h)(raw \<mapsto> n) \<and> raw + n \<le> 2 ^ 32"
    and alloc_apart: "heap_ok h \<Longrightarrow> heap_alloc N n h m = (raw, h', m') \<Longrightarrow> raw \<noteq> 0 \<Longrightarrow> blocks h b = Some k \<Longrightarrow>
      raw + n \<le> b \<or> b + k \<le> raw"
    and alloc_keeps: "heap_ok h \<Longrightarrow> heap_alloc N n h m = (raw, h', m') \<Longrightarrow> blocks h b = Some k \<Longrightarrow>
      b \<le> a \<Longrightarrow> a < b + k \<Longrightarrow> m' a = m a"
    and dealloc_block: "heap_ok h \<Longrightarrow> blocks h raw = Some n \<Longrightarrow> heap_dealloc N raw h m = (h', m') \<Longrightarrow>
      heap_ok h' \<and> blocks h' = (blocks h)(raw := None)"
    and dealloc_keeps: "heap_ok h \<Longrightarrow> blocks h raw = Some n \<Longrightarrow> heap_dealloc N raw h m = (h', m') \<Longrightarrow>
      blocks h b = Some k \<Longrightarrow> b \<noteq> raw \<Longrightarrow> b \<le> a \<Longrightarrow> a < b + k \<Longrightarrow> m' a = m a"
begin

text \<open>The block behind an allocation is the one its header names.\<close>

definition base :: "memory \<Rightarrow> nat \<Rightarrow> nat" where
  "base m p = header_read (p - header_size) m"

definition fits :: "'h \<Rightarrow> nat \<Rightarrow> nat \<Rightarrow> layout \<Rightarrow> bool" where
  "fits h raw p l \<longleftrightarrow>
     (\<exists>n. blocks h raw = Some n \<and> raw + header_size \<le> p \<and> p + layout_size l \<le> raw + n)
     \<and> layout_align l dvd p \<and> header_align dvd p \<and> 0 < layout_size l"

definition heap_inv :: "(nat \<rightharpoonup> layout) \<Rightarrow> 'h \<Rightarrow> memory \<Rightarrow> bool" where
  "heap_inv live h m \<longleftrightarrow>
     heap_ok h
     \<and> (\<forall>b k b' k'. blocks h b = Some k \<longrightarrow> blocks h b' = Some k' \<longrightarrow> b \<noteq> b' \<longrightarrow> b + k \<le> b' \<or> b' + k' \<le> b)
     \<and> (\<forall>b k. blocks h b = Some k \<longrightarrow> 0 < b \<and> 0 < k \<and> b + k \<le> 2 ^ 32)
     \<and> (\<forall>p l. live p = Some l \<longrightarrow> fits h (base m p) p l)
     \<and> inj_on (base m) (dom live) \<and> base m ` dom live = dom (blocks h)"

text \<open>What a call of the allocator comes to.\<close>

lemma alloc_cases:
  assumes "layout_valid l" and "allocator_alloc N l h m = (p, h', m')"
  obtains (refused) "p = 0" "h' = h" "m' = m"
  | (null) n where "p = 0" "heap_alloc N n h m = (0, h', m')"
  | (block) n raw m1 where "heap_alloc N n h m = (raw, h', m1)" "raw \<noteq> 0" "0 < n" "raw + header_size \<le> p"
      "p + layout_size l \<le> raw + n" "layout_align l dvd p" "header_align dvd p" "0 < layout_size l"
      "m' = header_write (p - header_size) raw m1"
proof (cases "layout_size l = 0 \<or> alloc_total l = None")
  case True
  then have "allocator_alloc N l h m = (0, h, m)" by (auto simp: allocator_alloc_def)
  then show ?thesis using assms(2) refused by simp
next
  case False
  then obtain n where n: "alloc_total l = Some n" "0 < layout_size l" by auto
  obtain raw h1 m1 where a: "heap_alloc N n h m = (raw, h1, m1)" by (cases "heap_alloc N n h m") auto
  let ?c = "raw + header_size" and ?a = "effective_align l"
  note ea = effective_align_dvd [OF assms(1)]
  have n_eq: "n = layout_size l + header_size + (?a - 1)"
    using n(1) by (auto simp: alloc_total_def checked_add_Some_iff split: option.splits)
  have off: "align_offset ?c ?a < ?a" by (rule align_offset_less [OF ea(3)])
  have dvd: "?a dvd ?c + align_offset ?c ?a" using align_offset_aligns [OF ea(3)] by (simp add: dvd_eq_mod_eq_0)
  have "align_offset ?c ?a \<noteq> u32_max" using off ea(4) by (simp add: u32_max_def)
  then have "allocator_alloc N l h m =
      (if raw = 0 then (0, h1, m1)
       else (?c + align_offset ?c ?a, h1, header_write (?c + align_offset ?c ?a - header_size) raw m1))"
    using n a by (simp add: allocator_alloc_def Let_def)
  note eq = this [unfolded assms(2)]
  show ?thesis
  proof (cases "raw = 0")
    case True
    then show ?thesis using null a eq by simp
  next
    case False
    then have "p = ?c + align_offset ?c ?a" "h' = h1" "m' = header_write (p - header_size) raw m1" using eq by simp_all
    then show ?thesis
      using False a n_eq n(2) off dvd ea(1,2) by (intro block [of n raw m1]) (auto intro: dvd_trans)
  qed
qed

lemma base_keeps:
  assumes "fits h (base m p) p l" and "\<And>a k. blocks h (base m p) = Some k \<Longrightarrow> base m p \<le> a \<Longrightarrow> a < p \<Longrightarrow> a < base m p + k \<Longrightarrow> m' a = m a"
  shows "base m' p = base m p"
  unfolding base_def
  by (rule header_read_cong) (use assms in \<open>auto simp: fits_def base_def\<close>)

lemma inv_apart:
  assumes "heap_inv live h m" and "live p = Some l" and "live q = Some k" and "p \<noteq> q"
  shows "payload p l \<inter> payload q k = {}"
proof -
  have ne: "base m p \<noteq> base m q" using assms unfolding heap_inv_def inj_on_def by (metis domI)
  have "fits h (base m p) p l" "fits h (base m q) q k" using assms by (simp_all add: heap_inv_def)
  then obtain n n' where b: "blocks h (base m p) = Some n" "base m p + header_size \<le> p" "p + layout_size l \<le> base m p + n"
    "blocks h (base m q) = Some n'" "base m q + header_size \<le> q" "q + layout_size k \<le> base m q + n'"
    by (auto simp: fits_def)
  then have "base m p + n \<le> base m q \<or> base m q + n' \<le> base m p" using assms(1) ne unfolding heap_inv_def by blast
  then show ?thesis using b by (auto simp: payload_def)
qed

lemma inv_kept:
  assumes inv: "heap_inv live h m" and "heap_ok h'" and "blocks h' = blocks h"
    and "\<And>b k a. blocks h b = Some k \<Longrightarrow> b \<le> a \<Longrightarrow> a < b + k \<Longrightarrow> m' a = m a"
  shows "heap_inv live h' m'"
proof -
  have "base m' p = base m p" if "live p = Some l" for p l
    by (rule base_keeps [of h m p l]) (use inv that assms(4) in \<open>auto simp: heap_inv_def\<close>)
  then have "base m' p = base m p" if "p \<in> dom live" for p using that by blast
  then show ?thesis using inv assms(2,3)
    by (simp add: heap_inv_def fits_def inj_on_def cong: image_cong) (metis domI)
qed

lemma inv_block:
  assumes inv: "heap_inv live h m" and a: "heap_alloc N n h m = (raw, h', m1)" "raw \<noteq> 0" "0 < n"
    and p: "raw + header_size \<le> p" "p + layout_size l \<le> raw + n" "layout_align l dvd p" "header_align dvd p" "0 < layout_size l"
    and m': "m' = header_write (p - header_size) raw m1"
  shows "heap_inv (live(p \<mapsto> l)) h' m'" and "live p = None"
    and "\<And>b k a. blocks h b = Some k \<Longrightarrow> b \<le> a \<Longrightarrow> a < b + k \<Longrightarrow> m' a = m a"
proof -
  have ok: "heap_ok h" using inv by (simp add: heap_inv_def)
  note blk = alloc_block [OF ok a] and apart = alloc_apart [OF ok a(1,2)]
  show keeps: "\<And>b k a. blocks h b = Some k \<Longrightarrow> b \<le> a \<Longrightarrow> a < b + k \<Longrightarrow> m' a = m a"
    using apart alloc_keeps [OF ok a(1)] p by (fastforce simp: m' header_write_other)
  show fresh: "live p = None"
  proof (rule ccontr)
    assume "live p \<noteq> None"
    then obtain l' where "live p = Some l'" by blast
    then have "fits h (base m p) p l'" using inv by (simp add: heap_inv_def)
    then show False using apart p by (fastforce simp: fits_def)
  qed
  have "raw < 2 ^ 32" using blk a(3) by linarith
  then have new: "base m' p = raw" by (simp add: base_def m' header_read_write)
  have old: "base m' q = base m q" if "live q = Some l'" for q l'
    by (rule base_keeps [of h m q l']) (use inv that keeps in \<open>auto simp: heap_inv_def\<close>)
  then have old': "q \<in> dom live \<Longrightarrow> base m' q = base m q" for q by blast
  have im: "base m ` dom live = dom (blocks h)" and inj: "inj_on (base m) (dom live)" using inv by (simp_all add: heap_inv_def)
  have im': "base m' ` dom live = dom (blocks h)" using old' im by (simp cong: image_cong)
  have "inj_on (base m') (dom live)" using old' inj by (simp cong: inj_on_cong)
  then have "inj_on (base m') (dom (live(p \<mapsto> l)))" using im' new blk fresh by (simp add: domIff)
  moreover have "base m' ` dom (live(p \<mapsto> l)) = dom (blocks h')" using im' new blk by simp
  moreover have "fits h' (base m' q) q l'" if "(live(p \<mapsto> l)) q = Some l'" for q l'
  proof (cases "q = p")
    case True
    then show ?thesis using that p blk new by (auto simp: fits_def)
  next
    case False
    then have "live q = Some l'" using that by simp
    moreover from this have "fits h (base m q) q l'" using inv by (simp add: heap_inv_def)
    ultimately show ?thesis using old blk by (auto simp: fits_def)
  qed
  moreover have "\<forall>b k b' k'. blocks h' b = Some k \<longrightarrow> blocks h' b' = Some k' \<longrightarrow> b \<noteq> b' \<longrightarrow> b + k \<le> b' \<or> b' + k' \<le> b"
    using inv blk apart unfolding heap_inv_def by (auto split: if_splits)
  moreover have "\<forall>b k. blocks h' b = Some k \<longrightarrow> 0 < b \<and> 0 < k \<and> b + k \<le> 2 ^ 32"
    using inv blk a(2,3) unfolding heap_inv_def by auto
  ultimately show "heap_inv (live(p \<mapsto> l)) h' m'" using blk unfolding heap_inv_def by blast
qed

lemma inv_free:
  assumes inv: "heap_inv live h m" and p: "live p = Some l" and d: "allocator_dealloc N p h m = (h', m')"
  shows "heap_inv (live(p := None)) h' m'"
    and "\<And>q k a. live q = Some k \<Longrightarrow> q \<noteq> p \<Longrightarrow> a \<in> payload q k \<Longrightarrow> m' a = m a"
proof -
  let ?raw = "base m p"
  have ok: "heap_ok h" and fp: "fits h ?raw p l" using inv p by (simp_all add: heap_inv_def)
  then obtain n where n: "blocks h ?raw = Some n" "p \<noteq> 0" by (auto simp: fits_def header_size_def)
  then have nat: "heap_dealloc N ?raw h m = (h', m')" using d by (simp add: allocator_dealloc_def base_def)
  note blk = dealloc_block [OF ok n(1) nat] and keeps = dealloc_keeps [OF ok n(1) nat]
  have im: "base m ` dom live = dom (blocks h)" and inj: "inj_on (base m) (dom live)" using inv by (simp_all add: heap_inv_def)
  have ne: "base m q \<noteq> ?raw" if "live q = Some k" "q \<noteq> p" for q k using inj that p by (metis domI inj_onD)
  have fq: "fits h (base m q) q k" if "live q = Some k" for q k using inv that by (simp add: heap_inv_def)
  show "\<And>q k a. live q = Some k \<Longrightarrow> q \<noteq> p \<Longrightarrow> a \<in> payload q k \<Longrightarrow> m' a = m a"
    using keeps ne fq by (fastforce simp: fits_def payload_def)
  have old: "base m' q = base m q" if "live q = Some k" "q \<noteq> p" for q k
    by (rule base_keeps [OF fq [OF that(1)]]) (use keeps ne [OF that] in blast)
  then have old': "q \<in> dom live - {p} \<Longrightarrow> base m' q = base m q" for q by auto
  have "inj_on (base m) (dom live - {p})" using inj by (rule inj_on_subset) simp
  moreover have "inj_on (base m') (dom live - {p}) = inj_on (base m) (dom live - {p})" by (rule inj_on_cong) (rule old')
  ultimately have "inj_on (base m') (dom live - {p})" by simp
  moreover have "base m' ` (dom live - {p}) = dom (blocks h) - {?raw}"
  proof -
    have "base m' ` (dom live - {p}) = base m ` (dom live - {p})" by (rule image_cong [OF refl old'])
    also have "\<dots> = base m ` dom live - base m ` {p}"
      by (rule inj_on_image_set_diff [OF inj]) (use p in auto)
    finally show ?thesis by (simp add: im)
  qed
  moreover have "dom (live(p := None)) = dom live - {p}" "dom (blocks h') = dom (blocks h) - {?raw}" using blk by simp_all
  moreover have "fits h' (base m' q) q k" if "(live(p := None)) q = Some k" for q k
  proof -
    have q: "live q = Some k" "q \<noteq> p" using that by (auto split: if_splits)
    then show ?thesis using fq [OF q(1)] old [OF q] ne [OF q] blk by (simp add: fits_def)
  qed
  moreover have "\<forall>b k b' k'. blocks h' b = Some k \<longrightarrow> blocks h' b' = Some k' \<longrightarrow> b \<noteq> b' \<longrightarrow> b + k \<le> b' \<or> b' + k' \<le> b"
    "\<forall>b k. blocks h' b = Some k \<longrightarrow> 0 < b \<and> 0 < k \<and> b + k \<le> 2 ^ 32"
    using inv blk unfolding heap_inv_def by auto
  ultimately show "heap_inv (live(p := None)) h' m'" using blk unfolding heap_inv_def by metis
qed

lemma inv_store:
  assumes inv: "heap_inv live h m" and p: "live p = Some l" and a: "a \<in> payload p l"
  shows "heap_inv live h (m(a := b))"
proof -
  have fq: "fits h (base m q) q k" if "live q = Some k" for q k using inv that by (simp add: heap_inv_def)
  have apart: "\<And>b k b' k'. blocks h b = Some k \<Longrightarrow> blocks h b' = Some k' \<Longrightarrow> b \<noteq> b' \<Longrightarrow> b + k \<le> b' \<or> b' + k' \<le> b"
    using inv unfolding heap_inv_def by blast
  have "base (m(a := b)) q = base m q" if q: "live q = Some k" for q k
  proof (rule base_keeps [OF fq [OF q]])
    fix i n assume i: "blocks h (base m q) = Some n" "base m q \<le> i" "i < q" "i < base m q + n"
    have "i \<noteq> a"
    proof (cases "base m q = base m p")
      case True
      then have "q = p" using inv p q unfolding heap_inv_def by (metis domI inj_onD)
      then show ?thesis using i(3) a by (auto simp: payload_def)
    next
      case False
      then show ?thesis using apart [OF i(1)] i(2,4) fq [OF p] a by (fastforce simp: fits_def payload_def)
    qed
    then show "(m(a := b)) i = m i" by simp
  qed
  then have "\<And>q. q \<in> dom live \<Longrightarrow> base (m(a := b)) q = base m q" by blast
  then show ?thesis using inv by (simp add: heap_inv_def cong: image_cong inj_on_cong) (metis domI)
qed

lemma inv_step:
  assumes "heap_step N (live, h, m) (live', h', m')" and inv: "heap_inv live h m"
  shows "heap_inv live' h' m'"
    and "live p = Some l \<Longrightarrow> live' p = Some l \<Longrightarrow> a \<in> payload p l \<Longrightarrow> m' a = m a \<or> (\<exists>b. m' = m(a := b) \<and> live' = live \<and> h' = h)"
proof -
  have ok: "heap_ok h" using inv by (simp add: heap_inv_def)
  have inside: "\<exists>k. blocks h (base m p) = Some k \<and> base m p \<le> a \<and> a < base m p + k"
    if "live p = Some l" "a \<in> payload p l" for p l a
  proof -
    have "fits h (base m p) p l" using inv that by (simp add: heap_inv_def)
    then show ?thesis using that(2) by (auto simp: fits_def payload_def)
  qed
  have "heap_inv live' h' m' \<and> (live p = Some l \<longrightarrow> live' p = Some l \<longrightarrow> a \<in> payload p l \<longrightarrow> m' a = m a \<or> (\<exists>b. m' = m(a := b) \<and> live' = live \<and> h' = h))"
    using assms(1)
  proof cases
    case (alloc_fails l0)
    from alloc_fails(2,3) show ?thesis
    proof (cases rule: alloc_cases)
      case refused
      then show ?thesis using inv alloc_fails(1) by simp
    next
      case (null n)
      then show ?thesis
        using inv_kept [OF inv, of h' m'] alloc_null [OF ok null(2)] alloc_keeps [OF ok null(2)] alloc_fails(1) inside by metis
    next
      case (block n raw m1)
      then show ?thesis by simp
    qed
  next
    case (alloc l0 q)
    from alloc(2,3) show ?thesis
    proof (cases rule: alloc_cases)
      case (block n raw m1)
      note b = inv_block [OF inv block]
      show ?thesis using b(1) b(3) inside unfolding alloc(1) by blast
    qed (use alloc in simp_all)
  next
    case (free q l0)
    note f = inv_free [OF inv free(2,3)]
    show ?thesis using f(1) f(2) [of p l a] unfolding free(1) by auto
  next
    case (store q l0 i b)
    have "heap_inv live h (m(i := b))" by (rule inv_store [OF inv store(4,5)])
    then show ?thesis using store by auto
  qed
  then show "heap_inv live' h' m'"
    and "live p = Some l \<Longrightarrow> live' p = Some l \<Longrightarrow> a \<in> payload p l \<Longrightarrow> m' a = m a \<or> (\<exists>b. m' = m(a := b) \<and> live' = live \<and> h' = h)"
    by simp_all
qed

lemma inv_reachable:
  assumes "heap_ok h0" and "blocks h0 = Map.empty" and "(heap_step N)\<^sup>*\<^sup>* (Map.empty, h0, m0) s"
  shows "case s of (live, h, m) \<Rightarrow> heap_inv live h m"
  using assms(3)
proof (induction rule: rtranclp_induct)
  case base
  show ?case using assms(1,2) by (simp add: heap_inv_def)
next
  case (step s s')
  then show ?case by (cases s, cases s') (auto intro: inv_step(1))
qed

end

section \<open>A kernel heap\<close>

text \<open>The simplest heap with the laws: blocks are cut from the front of a region and not used again.\<close>

record bump_heap =
  bump_next :: nat
  bump_blocks :: "nat \<rightharpoonup> nat"

definition bump :: "nat \<Rightarrow> bump_heap native_heap" where
  "bump limit = \<lparr>
     heap_alloc = (\<lambda>n h m. if bump_next h + n \<le> limit
       then (bump_next h, h\<lparr>bump_next := bump_next h + n, bump_blocks := (bump_blocks h)(bump_next h \<mapsto> n)\<rparr>, m)
       else (0, h, m)),
     heap_dealloc = (\<lambda>raw h m. (h\<lparr>bump_blocks := (bump_blocks h)(raw := None)\<rparr>, m))\<rparr>"

definition bump_ok :: "bump_heap \<Rightarrow> bool" where
  "bump_ok h \<longleftrightarrow> 0 < bump_next h \<and> (\<forall>b k. bump_blocks h b = Some k \<longrightarrow> 0 < k \<and> b + k \<le> bump_next h)"

lemma bump_block: "bump_ok h \<Longrightarrow> bump_blocks h b = Some k \<Longrightarrow> 0 < k \<and> b + k \<le> bump_next h"
  by (simp add: bump_ok_def)

lemma bump_fresh: "bump_ok h \<Longrightarrow> bump_blocks h (bump_next h) = None"
  using bump_block [of h "bump_next h"] by (cases "bump_blocks h (bump_next h)") auto

lemma bump_ok_cut: "bump_ok h \<Longrightarrow> 0 < n \<Longrightarrow>
    bump_ok (h\<lparr>bump_next := bump_next h + n, bump_blocks := (bump_blocks h)(bump_next h \<mapsto> n)\<rparr>)"
  by (auto simp: bump_ok_def intro: trans_le_add1)

lemma bump_alloc:
  assumes "heap_alloc (bump limit) n h m = (raw, h', m')" and "bump_ok h"
  shows "m' = m" and "raw = 0 \<Longrightarrow> h' = h"
    and "raw \<noteq> 0 \<Longrightarrow> raw = bump_next h \<and> raw + n \<le> limit
      \<and> h' = h\<lparr>bump_next := bump_next h + n, bump_blocks := (bump_blocks h)(bump_next h \<mapsto> n)\<rparr>"
  using assms by (auto simp: bump_def bump_ok_def split: if_splits)

lemma bump_laws:
  assumes "limit \<le> 2 ^ 32"
  shows "native_heap_laws (bump limit) bump_blocks bump_ok"
proof
  fix h h' :: bump_heap and n m m' raw
  assume h: "bump_ok h"
  show "bump_ok h' \<and> bump_blocks h' = bump_blocks h" if "heap_alloc (bump limit) n h m = (0, h', m')"
    using bump_alloc(2) [OF that h] h by simp
  show "bump_ok h' \<and> bump_blocks h raw = None \<and> bump_blocks h' = (bump_blocks h)(raw \<mapsto> n) \<and> raw + n \<le> 2 ^ 32"
    if "heap_alloc (bump limit) n h m = (raw, h', m')" "raw \<noteq> 0" "0 < n"
    using bump_alloc(3) [OF that(1) h that(2)] bump_fresh [OF h] bump_ok_cut [OF h that(3)] assms by auto
  show "raw + n \<le> b \<or> b + k \<le> raw"
    if "heap_alloc (bump limit) n h m = (raw, h', m')" "raw \<noteq> 0" "bump_blocks h b = Some k" for b k
    using bump_alloc(3) [OF that(1) h that(2)] bump_block [OF h that(3)] by simp
  show "m' a = m a" if "heap_alloc (bump limit) n h m = (raw, h', m')" for a using bump_alloc(1) [OF that h] by simp
  show "bump_ok h' \<and> bump_blocks h' = (bump_blocks h)(raw := None)" if "heap_dealloc (bump limit) raw h m = (h', m')"
    using h that by (auto simp: bump_def bump_ok_def split: if_splits)
  show "m' a = m a" if "heap_dealloc (bump limit) raw h m = (h', m')" for a using that by (simp add: bump_def)
qed

interpretation bump: native_heap_laws "bump (2 ^ 32)" bump_blocks bump_ok
  by (rule bump_laws) simp

section \<open>Allocations are aligned, apart and never lost\<close>

text \<open>C12. On any kernel heap with the documented laws, whatever a program allocates, writes and frees: every
  allocation it holds is not null, aligned and inside the address space; no two overlap; each lies in a block
  of its own and no other block is live, so that nothing leaks; and no call changes the contents of an
  allocation that stays held.
\<close>

theorem allocator_sound:
  assumes "native_heap_laws N blocks heap_ok" and "heap_ok h0" and "blocks h0 = Map.empty"
    and "(heap_step N)\<^sup>*\<^sup>* (Map.empty, h0, m0) (live, h, m)"
  shows "(\<forall>p l. live p = Some l \<longrightarrow> p \<noteq> 0 \<and> layout_align l dvd p \<and> p + layout_size l \<le> 2 ^ 32)
    \<and> (\<forall>p l q k. live p = Some l \<longrightarrow> live q = Some k \<longrightarrow> p \<noteq> q \<longrightarrow> payload p l \<inter> payload q k = {})
    \<and> (\<exists>f. bij_betw f (dom live) (dom (blocks h))
        \<and> (\<forall>p l. live p = Some l \<longrightarrow> (\<exists>n. blocks h (f p) = Some n \<and> payload p l \<subseteq> {f p ..< f p + n})))
    \<and> (\<forall>live' h' m' p l a. heap_step N (live, h, m) (live', h', m') \<longrightarrow> live p = Some l \<longrightarrow> live' p = Some l \<longrightarrow>
        a \<in> payload p l \<longrightarrow> m' a = m a \<or> (\<exists>b. m' = m(a := b) \<and> live' = live \<and> h' = h))"
proof (intro conjI allI impI)
  note laws = assms(1)
  have inv: "native_heap_laws.heap_inv blocks heap_ok live h m"
    using native_heap_laws.inv_reachable [OF laws assms(2-4)] by simp
  note inv' = inv [unfolded native_heap_laws.heap_inv_def [OF laws] native_heap_laws.fits_def [OF laws]]
  let ?f = "native_heap_laws.base m"
  have place: "p \<noteq> 0 \<and> layout_align l dvd p \<and> p + layout_size l \<le> 2 ^ 32" if "live p = Some l" for p l
  proof -
    have f: "(\<exists>n. blocks h (?f p) = Some n \<and> ?f p + header_size \<le> p \<and> p + layout_size l \<le> ?f p + n) \<and> layout_align l dvd p"
      using inv' that by blast
    moreover have "\<forall>n. blocks h (?f p) = Some n \<longrightarrow> ?f p + n \<le> 2 ^ 32" using inv' by blast
    ultimately show ?thesis by (auto simp: header_size_def)
  qed
  show "p \<noteq> 0" "layout_align l dvd p" "p + layout_size l \<le> 2 ^ 32" if "live p = Some l" for p l
    using place [OF that] by simp_all
  show "payload p l \<inter> payload q k = {}" if "live p = Some l" "live q = Some k" "p \<noteq> q" for p l q k
    by (rule native_heap_laws.inv_apart [OF laws inv that])
  have "bij_betw ?f (dom live) (dom (blocks h))" using inv' by (simp add: bij_betw_def)
  moreover have "\<exists>n. blocks h (?f p) = Some n \<and> payload p l \<subseteq> {?f p ..< ?f p + n}" if "live p = Some l" for p l
  proof -
    have "\<exists>n. blocks h (?f p) = Some n \<and> ?f p + header_size \<le> p \<and> p + layout_size l \<le> ?f p + n" using inv' that by blast
    then show ?thesis by (fastforce simp: payload_def)
  qed
  ultimately show "\<exists>f. bij_betw f (dom live) (dom (blocks h))
      \<and> (\<forall>p l. live p = Some l \<longrightarrow> (\<exists>n. blocks h (f p) = Some n \<and> payload p l \<subseteq> {f p ..< f p + n}))" by blast
  show "m' a = m a \<or> (\<exists>b. m' = m(a := b) \<and> live' = live \<and> h' = h)"
    if "heap_step N (live, h, m) (live', h', m')" "live p = Some l" "live' p = Some l" "a \<in> payload p l" for live' h' m' p l a
    by (rule native_heap_laws.inv_step(2) [OF laws that(1) inv that(2-4)])
qed

text \<open>Two allocations on an odd address, one of them with an alignment of 16.\<close>

theorem allocator_sound_witness:
  "\<exists>live h m. (heap_step (bump (2 ^ 32)))\<^sup>*\<^sup>*
       (Map.empty, \<lparr>bump_next = 1001, bump_blocks = Map.empty\<rparr>, \<lambda>_. 0) (live, h, m)
     \<and> live 1008 = Some \<lparr>layout_size = 10, layout_align = 16\<rparr>
     \<and> live 1036 = Some \<lparr>layout_size = 3, layout_align = 1\<rparr>
     \<and> payload 1008 \<lparr>layout_size = 10, layout_align = 16\<rparr> \<inter> payload 1036 \<lparr>layout_size = 3, layout_align = 1\<rparr> = {}
     \<and> bump_blocks h = [1001 \<mapsto> 29, 1030 \<mapsto> 10]"
proof -
  let ?N = "bump (2 ^ 32)" and ?a = "\<lparr>layout_size = 10, layout_align = 16\<rparr>" and ?b = "\<lparr>layout_size = 3, layout_align = 1\<rparr>"
  let ?h0 = "\<lparr>bump_next = 1001, bump_blocks = Map.empty\<rparr>" and ?h1 = "\<lparr>bump_next = 1030, bump_blocks = [1001 \<mapsto> 29]\<rparr>"
    and ?h2 = "\<lparr>bump_next = 1040, bump_blocks = [1001 \<mapsto> 29, 1030 \<mapsto> 10]\<rparr>"
  let ?m1 = "header_write 1004 1001 (\<lambda>_. 0)" and ?m2 = "header_write 1032 1030 (header_write 1004 1001 (\<lambda>_. 0))"
  note ev = allocator_alloc_def alloc_total_def checked_add_def effective_align_def header_size_def header_align_def u32_max_def
    align_offset_def bump_def Let_def
  have valid: "layout_valid ?a" "layout_valid ?b" by (simp_all add: layout_valid_def upt_conv_Cons)
  have "allocator_alloc ?N ?a ?h0 (\<lambda>_. 0) = (1008, ?h1, ?m1)" "allocator_alloc ?N ?b ?h1 ?m1 = (1036, ?h2, ?m2)"
    by (simp_all add: ev)
  then have "heap_step ?N (Map.empty, ?h0, \<lambda>_. 0) ([1008 \<mapsto> ?a], ?h1, ?m1)"
    "heap_step ?N ([1008 \<mapsto> ?a], ?h1, ?m1) ([1008 \<mapsto> ?a, 1036 \<mapsto> ?b], ?h2, ?m2)"
    using valid by (auto intro: heap_step.alloc)
  then have reach: "(heap_step ?N)\<^sup>*\<^sup>* (Map.empty, ?h0, \<lambda>_. 0) ([1008 \<mapsto> ?a, 1036 \<mapsto> ?b], ?h2, ?m2)"
    by (meson converse_rtranclp_into_rtranclp r_into_rtranclp)
  have "payload 1008 ?a \<inter> payload 1036 ?b = {}"
    using allocator_sound [OF bump_laws _ _ reach] by (simp add: bump_ok_def)
  then show ?thesis using reach by fastforce
qed

end
