(* ===== verification/Qemu_Harness.thy ===== *)
theory Qemu_Harness
  imports Freertos_Kernel
begin

text \<open>
  src/integration/freertos-qemu-mps2/rust/src/harness.rs: the harness of the QEMU firmware, in which native
  helper tasks report their phases through C bridges to atomics that a controller polls. The tasks run
  concurrently: before every access of the controller to shared memory the other tasks may have moved, which
  the field \<open>hs_preempt\<close> of the interface \<open>harness_sys\<close> stands for, and a helper may be anywhere inside
  a bridge. The helpers of the interface are arbitrary; the one the harness spawns
  (\<open>harness_smoke_helper\<close> of app/main.c) is part of the instance at the end.
\<close>

section \<open>Case states\<close>

datatype harness_error =
    SpawnFailed
  | HarnessTimeout
  | HeapLeak
  | HelperResult
  | TickStalled
  | PhaseNotVisited
  | StateIsolation

fun harness_code :: "harness_error \<Rightarrow> int" where
  "harness_code SpawnFailed = 100"
| "harness_code HarnessTimeout = 101"
| "harness_code HeapLeak = 102"
| "harness_code HelperResult = 103"
| "harness_code TickStalled = 104"
| "harness_code PhaseNotVisited = 105"
| "harness_code StateIsolation = 106"

definition phase_created :: u32 where "phase_created = 0"
definition phase_started :: u32 where "phase_started = 1"
definition phase_before_operation :: u32 where "phase_before_operation = 2"
definition phase_operation_completed :: u32 where "phase_operation_completed = 3"
definition phase_exiting :: u32 where "phase_exiting = 4"
definition phase_done :: u32 where "phase_done = 5"

lemmas phases = phase_created_def phase_started_def phase_before_operation_def phase_operation_completed_def
  phase_exiting_def phase_done_def

definition required_helper_phases :: "u32 list" where
  "required_helper_phases = [phase_started, phase_before_operation, phase_operation_completed, phase_exiting]"

text \<open>Results are \<open>i32\<close>.\<close>

definition result_invalid_phase :: u32 where "result_invalid_phase = - 2"

record case_state =
  cs_phase :: u32
  cs_visited :: u32
  cs_result :: u32
  cs_start_tick :: u32
  cs_end_tick :: u32

definition case_state_new :: case_state where
  "case_state_new = \<lparr>cs_phase = phase_created, cs_visited = 0, cs_result = 0, cs_start_tick = 0, cs_end_tick = 0\<rparr>"

definition set_result :: "u32 \<Rightarrow> case_state \<Rightarrow> case_state" where
  "set_result r s = (if cs_result s = 0 then s\<lparr>cs_result := r\<rparr> else s)"

text \<open>\<open>record_phase\<close>: the checks with the load of the phase, the store, and the \<open>fetch_or\<close>.\<close>

definition phase_check :: "u32 \<Rightarrow> case_state \<Rightarrow> bool" where
  "phase_check next s \<longleftrightarrow> next \<le> phase_done \<and> next = cs_phase s + 1"

definition phase_store :: "u32 \<Rightarrow> case_state \<Rightarrow> case_state" where
  "phase_store next s = s\<lparr>cs_phase := next\<rparr>"

definition phase_visit :: "u32 \<Rightarrow> case_state \<Rightarrow> case_state" where
  "phase_visit next s = s\<lparr>cs_visited := cs_visited s OR push_bit (unat next) 1\<rparr>"

definition all_visited :: "u32 list \<Rightarrow> case_state \<Rightarrow> bool" where
  "all_visited required s \<longleftrightarrow> list_all (\<lambda>p. cs_visited s AND push_bit (unat p) 1 \<noteq> 0) required"

section \<open>The bridges, as a helper runs them\<close>

datatype bridge_pc = BIdle | BStore u32 | BVisit u32 | BFail

text \<open>A helper's view: where it is in a bridge, its case state, the phases it has stored, and how many errors
  it has reported.\<close>

type_synonym helper_view = "bridge_pc \<times> case_state \<times> u32 list \<times> nat"

inductive helper_step :: "helper_view \<Rightarrow> helper_view \<Rightarrow> bool" where
  set_phase: "phase_check n s \<Longrightarrow> helper_step (BIdle, s, lg, bad) (BStore n, s, lg, bad)"
| reject: "\<not> phase_check n s \<Longrightarrow> helper_step (BIdle, s, lg, bad) (BFail, s, lg, bad)"
| store_phase: "helper_step (BStore n, s, lg, bad) (BVisit n, phase_store n s, lg @ [n], bad)"
| visit_phase: "helper_step (BVisit n, s, lg, bad) (BIdle, phase_visit n s, lg, bad)"
| rejected: "helper_step (BFail, s, lg, bad) (BIdle, set_result result_invalid_phase s, lg, Suc bad)"
| set_error: "helper_step (BIdle, s, lg, bad) (BIdle, set_result r s, lg, if r = 0 then bad else Suc bad)"
| record_start: "helper_step (BIdle, s, lg, bad) (BIdle, s\<lparr>cs_start_tick := t\<rparr>, lg, bad)"
| record_end: "helper_step (BIdle, s, lg, bad) (BIdle, s\<lparr>cs_end_tick := t\<rparr>, lg, bad)"

section \<open>The controller\<close>

text \<open>The two static case states.\<close>

datatype slot = SlotA | SlotB

record 'w harness_sys =
  hs_case :: "slot \<Rightarrow> 'w \<Rightarrow> case_state"
  hs_put :: "slot \<Rightarrow> (case_state \<Rightarrow> case_state) \<Rightarrow> 'w \<Rightarrow> 'w"
  hs_preempt :: "'w \<Rightarrow> 'w"
  hs_snapshot :: "'w \<Rightarrow> tick_snapshot"
  hs_delay :: "u64 \<Rightarrow> 'w \<Rightarrow> delay_status \<times> 'w"
  hs_heap :: "'w \<Rightarrow> u64"
  hs_spawn :: "slot \<Rightarrow> u32 \<Rightarrow> u32 \<Rightarrow> 'w \<Rightarrow> u32 \<times> 'w"

type_synonym 'w harness_run = "((harness_error + unit) \<times> 'w) option"

text \<open>\<open>?\<close>, where \<open>None\<close> is a run that does not end.\<close>

definition then_run :: "'w harness_run \<Rightarrow> ('w \<Rightarrow> 'w harness_run) \<Rightarrow> 'w harness_run" where
  "then_run m k = (case m of Some (Inr u, w) \<Rightarrow> k w | _ \<Rightarrow> m)"

text \<open>The controller's \<open>record_phase\<close>, in three accesses.\<close>

definition controller_phase :: "'w harness_sys \<Rightarrow> slot \<Rightarrow> u32 \<Rightarrow> 'w \<Rightarrow> 'w" where
  "controller_phase H c n w =
     (let w1 = hs_preempt H w in
      if phase_check n (hs_case H c w1)
      then hs_put H c (phase_visit n) (hs_preempt H (hs_put H c (phase_store n) (hs_preempt H w1)))
      else hs_put H c (set_result result_invalid_phase) (hs_preempt H w1))"

definition total_ticks_diff :: "tick_snapshot \<Rightarrow> tick_snapshot \<Rightarrow> u8 \<Rightarrow> u128" where
  "total_ticks_diff later earlier bits =
     (let ta = expand_ticks later bits; tb = expand_ticks earlier bits in if tb \<le> ta then ta - tb else 0)"

text \<open>The loop of \<open>wait_until_phase\<close> and \<open>wait_until_heap_recovered\<close>, which differ in what they look at and in the
  error of a timeout.\<close>

partial_function (option) poll ::
  "'w harness_sys \<Rightarrow> ('w \<Rightarrow> (harness_error + unit) option \<times> 'w) \<Rightarrow> harness_error \<Rightarrow> tick_snapshot \<Rightarrow> u32 \<Rightarrow> u8
    \<Rightarrow> 'w \<Rightarrow> 'w harness_run" where
  "poll H look late start timeout bits w =
     (case look w of
        (Some r, w1) \<Rightarrow> Some (r, w1)
      | (None, w1) \<Rightarrow>
          let w2 = hs_preempt H w1 in
          if ucast timeout \<le> total_ticks_diff (hs_snapshot H w2) start bits then Some (Inl late, w2)
          else (case hs_delay H 1 w2 of
                  (status, w3) \<Rightarrow>
                    if status \<noteq> DelayOk then Some (Inl TickStalled, w3)
                    else poll H look late start timeout bits w3))"

definition look_phase :: "'w harness_sys \<Rightarrow> slot \<Rightarrow> u32 \<Rightarrow> 'w \<Rightarrow> (harness_error + unit) option \<times> 'w" where
  "look_phase H c expected w =
     (let w1 = hs_preempt H w in
      if cs_result (hs_case H c w1) \<noteq> 0 then (Some (Inl HelperResult), w1)
      else let w2 = hs_preempt H w1 in
           if expected \<le> cs_phase (hs_case H c w2) then (Some (Inr ()), w2) else (None, w2))"

definition look_heap :: "'w harness_sys \<Rightarrow> u64 \<Rightarrow> 'w \<Rightarrow> (harness_error + unit) option \<times> 'w" where
  "look_heap H baseline w =
     (let w1 = hs_preempt H w in (if hs_heap H w1 = baseline then Some (Inr ()) else None, w1))"

definition wait_until_phase :: "'w harness_sys \<Rightarrow> slot \<Rightarrow> u32 \<Rightarrow> u32 \<Rightarrow> u8 \<Rightarrow> 'w \<Rightarrow> 'w harness_run" where
  "wait_until_phase H c expected timeout bits w =
     poll H (look_phase H c expected) HarnessTimeout (hs_snapshot H w) timeout bits w"

definition wait_until_heap_recovered :: "'w harness_sys \<Rightarrow> u64 \<Rightarrow> u32 \<Rightarrow> u8 \<Rightarrow> 'w \<Rightarrow> 'w harness_run" where
  "wait_until_heap_recovered H baseline deadline bits w =
     poll H (look_heap H baseline) HeapLeak (hs_snapshot H w) deadline bits w"

definition validate_helper :: "'w harness_sys \<Rightarrow> slot \<Rightarrow> 'w \<Rightarrow> 'w harness_run" where
  "validate_helper H c w =
     (let w1 = hs_preempt H w in
      if \<not> all_visited required_helper_phases (hs_case H c w1) then Some (Inl PhaseNotVisited, w1)
      else
        let w2 = hs_preempt H w1; st = cs_start_tick (hs_case H c w2);
            w3 = hs_preempt H w2; en = cs_end_tick (hs_case H c w3)
        in if (st \<noteq> 0 \<or> en \<noteq> 0) \<and> en - st < 1 then Some (Inl TickStalled, w3)
           else let w4 = hs_preempt H w3 in
                if cs_result (hs_case H c w4) \<noteq> 0 then Some (Inl HelperResult, w4) else Some (Inr (), w4))"

definition expected_mask :: u32 where
  "expected_mask = push_bit (unat phase_started) 1 OR push_bit (unat phase_before_operation) 1
     OR push_bit (unat phase_operation_completed) 1 OR push_bit (unat phase_exiting) 1 OR push_bit (unat phase_done) 1"

definition check_isolation :: "'w harness_sys \<Rightarrow> 'w \<Rightarrow> 'w harness_run" where
  "check_isolation H w =
     (let w1 = hs_preempt H w; a = cs_visited (hs_case H SlotA w1);
          w2 = hs_preempt H w1; b = cs_visited (hs_case H SlotB w2)
      in if a AND expected_mask \<noteq> expected_mask then Some (Inl StateIsolation, w2)
         else if b AND expected_mask \<noteq> expected_mask then Some (Inl StateIsolation, w2)
         else Some (Inr (), w2))"

definition spawn_helper :: "'w harness_sys \<Rightarrow> slot \<Rightarrow> 'w \<Rightarrow> 'w harness_run" where
  "spawn_helper H c w =
     (case hs_spawn H c 512 2 w of (rc, w1) \<Rightarrow> Some (if rc \<noteq> 0 then Inl SpawnFailed else Inr (), w1))"

definition run_harness_case :: "'w harness_sys \<Rightarrow> u8 \<Rightarrow> 'w \<Rightarrow> 'w harness_run" where
  "run_harness_case H bits w =
     (let baseline = hs_heap H w;
          w0 = hs_put H SlotB (\<lambda>_. case_state_new) (hs_put H SlotA (\<lambda>_. case_state_new) w)
      in then_run (spawn_helper H SlotA w0) (\<lambda>w.
         then_run (spawn_helper H SlotB w) (\<lambda>w.
         then_run (wait_until_phase H SlotA phase_exiting 100 bits w) (\<lambda>w.
         then_run (wait_until_phase H SlotB phase_exiting 100 bits w) (\<lambda>w.
         then_run (wait_until_heap_recovered H baseline 100 bits w) (\<lambda>w.
         let w = controller_phase H SlotB phase_done (controller_phase H SlotA phase_done w) in
         then_run (validate_helper H SlotA w) (\<lambda>w.
         then_run (validate_helper H SlotB w) (\<lambda>w.
         check_isolation H w))))))))"

text \<open>Before the timeout the clock is less than that many ticks after the start.\<close>

lemma not_late:
  assumes "\<not> ucast (timeout :: u32) \<le> total_ticks_diff later earlier bits"
  shows "unat (expand_ticks later bits) < unat (expand_ticks earlier bits) + unat timeout"
proof -
  have "unat timeout < 2 ^ 128" by (rule less_trans [OF unat_u32_less]) simp
  then have u: "unat (ucast timeout :: u128) = unat timeout" by (simp add: unsigned_ucast_eq take_bit_nat_eq_self)
  show ?thesis
  proof (cases "expand_ticks earlier bits \<le> expand_ticks later bits")
    case True
    then show ?thesis using assms u
      by (simp add: total_ticks_diff_def Let_def word_le_nat_alt unat_sub)
  next
    case False
    then show ?thesis by (simp add: word_le_nat_alt)
  qed
qed

section \<open>What a helper can do to its case state\<close>

text \<open>While only the helper writes: the stored phases are the numbers from 1 on.\<close>

fun helper_fresh :: "helper_view \<Rightarrow> bool" where
  "helper_fresh (pc, s, lg, bad) \<longleftrightarrow>
     cs_phase s \<le> phase_done \<and> lg = map word_of_nat [1..<Suc (unat (cs_phase s))]
     \<and> (\<forall>n. pc = BStore n \<longrightarrow> phase_check n s)"

text \<open>At all times: a reported error is visible in the result.\<close>

fun helper_honest :: "helper_view \<Rightarrow> bool" where
  "helper_honest (pc, s, lg, bad) \<longleftrightarrow> (0 < bad \<longrightarrow> cs_result s \<noteq> 0)"

fun helper_log :: "helper_view \<Rightarrow> u32 list" where
  "helper_log (pc, s, lg, bad) = lg"

text \<open>A helper that did what the harness asks for.\<close>

fun helper_accepted :: "helper_view \<Rightarrow> bool" where
  "helper_accepted (pc, s, lg, bad) \<longleftrightarrow> bad = 0 \<and> take 4 lg = required_helper_phases"

lemma set_result_nonzero: "r \<noteq> 0 \<Longrightarrow> cs_result (set_result r s) \<noteq> 0" "cs_result s \<noteq> 0 \<Longrightarrow> cs_result (set_result r s) \<noteq> 0"
  by (simp_all add: set_result_def)

lemma set_result_phase [simp]: "cs_phase (set_result r s) = cs_phase s"
  by (simp add: set_result_def)

lemma phase_check_Suc:
  assumes "phase_check n s" and "cs_phase s \<le> phase_done"
  shows "unat n = Suc (unat (cs_phase s))"
proof -
  have "\<not> (- 1 :: u32) \<le> 5" by (simp add: word_order.extremum_unique)
  moreover have "cs_phase s = - 1" if "1 + cs_phase s = 0" using that by (simp add: eq_neg_iff_add_eq_0 add.commute)
  ultimately have "1 + cs_phase s \<noteq> 0" using assms(2) by (metis phase_done_def)
  then show ?thesis using assms(1) by (simp add: phase_check_def unatSuc add.commute)
qed

lemma helper_fresh_step: "helper_step v v' \<Longrightarrow> helper_fresh v \<Longrightarrow> helper_fresh v'"
proof (induction rule: helper_step.induct)
  case (store_phase n s lg bad)
  then have c: "phase_check n s" "cs_phase s \<le> phase_done" by simp_all
  have "unat n = Suc (unat (cs_phase s))" "n = 1 + cs_phase s"
    using phase_check_Suc [OF c] c(1) by (simp_all add: phase_check_def add.commute)
  then show ?case using store_phase c by (simp add: phase_store_def phase_check_def)
next
  case (visit_phase n s lg bad)
  then show ?case by (simp add: phase_visit_def)
qed (simp_all add: phase_check_def)

lemma helper_honest_step: "helper_step v v' \<Longrightarrow> helper_honest v \<Longrightarrow> helper_honest v'"
  by (induction rule: helper_step.induct)
    (auto simp: phase_store_def phase_visit_def set_result_def result_invalid_phase_def)

lemma helper_log_step: "helper_step v v' \<Longrightarrow> take 4 (helper_log v) = required_helper_phases \<Longrightarrow> take 4 (helper_log v') = required_helper_phases"
proof (induction rule: helper_step.induct)
  case (store_phase n s lg bad)
  then have "take 4 lg = required_helper_phases" by simp
  moreover from this have "4 \<le> length lg" by (metis length_take list.size(3,4) min.cobounded1 numeral_Bit0 one_add_one One_nat_def add_Suc_right add_0_right required_helper_phases_def)
  ultimately show ?case by simp
qed simp_all

lemma helper_fresh_steps: "helper_step\<^sup>*\<^sup>* v v' \<Longrightarrow> helper_fresh v \<Longrightarrow> helper_fresh v'"
  by (induction rule: rtranclp_induct) (auto intro: helper_fresh_step)

lemma helper_honest_steps: "helper_step\<^sup>*\<^sup>* v v' \<Longrightarrow> helper_honest v \<Longrightarrow> helper_honest v'"
  by (induction rule: rtranclp_induct) (auto intro: helper_honest_step)

lemma helper_log_steps: "helper_step\<^sup>*\<^sup>* v v' \<Longrightarrow> take 4 (helper_log v) = required_helper_phases \<Longrightarrow> take 4 (helper_log v') = required_helper_phases"
  by (induction rule: rtranclp_induct) (auto intro: helper_log_step)

text \<open>A helper seen in its last phase has stored the four phases in order.\<close>

lemma helper_exiting:
  assumes "helper_fresh (pc, s, lg, bad)" and "phase_exiting \<le> cs_phase s"
  shows "take 4 lg = required_helper_phases"
proof -
  have "4 \<le> unat (cs_phase s)" using assms(2) by (simp add: phases word_le_nat_alt)
  then have "take 4 [1..<Suc (unat (cs_phase s))] = [1..<5]" by (subst take_upt) simp_all
  then have "take 4 lg = map word_of_nat [1..<5]" using assms(1) by (simp add: take_map del: upt_Suc)
  then show ?thesis by (simp add: required_helper_phases_def phases upt_conv_Cons)
qed

section \<open>Systems the harness can run on\<close>

definition helper_view_of ::
  "'w harness_sys \<Rightarrow> (slot \<Rightarrow> 'w \<Rightarrow> bridge_pc \<times> u32 list \<times> nat) \<Rightarrow> slot \<Rightarrow> 'w \<Rightarrow> helper_view" where
  "helper_view_of H ghost c w = (case ghost c w of (pc, lg, bad) \<Rightarrow> (pc, hs_case H c w, lg, bad))"

definition harness_ticks :: "'w harness_sys \<Rightarrow> u8 \<Rightarrow> 'w \<Rightarrow> nat" where
  "harness_ticks H bits w = unat (expand_ticks (hs_snapshot H w) bits)"

text \<open>Other tasks run: the clock does not go back and each helper makes steps of its own.\<close>

definition harness_moves ::
  "'w harness_sys \<Rightarrow> u8 \<Rightarrow> (slot \<Rightarrow> 'w \<Rightarrow> bridge_pc \<times> u32 list \<times> nat) \<Rightarrow> 'w \<Rightarrow> 'w \<Rightarrow> bool" where
  "harness_moves H bits ghost w w' \<longleftrightarrow>
     harness_ticks H bits w \<le> harness_ticks H bits w'
     \<and> (\<forall>c. helper_step\<^sup>*\<^sup>* (helper_view_of H ghost c w) (helper_view_of H ghost c w'))"

locale harness_world =
  fixes H :: "'w harness_sys" and bits :: u8 and ghost :: "slot \<Rightarrow> 'w \<Rightarrow> bridge_pc \<times> u32 list \<times> nat"
    and world_ok :: "'w \<Rightarrow> bool"
  assumes preempt: "world_ok w \<Longrightarrow> world_ok (hs_preempt H w) \<and> harness_moves H bits ghost w (hs_preempt H w)"
    and spawn: "world_ok w \<Longrightarrow> hs_spawn H c stack prio w = (rc, w') \<Longrightarrow> world_ok w' \<and> harness_moves H bits ghost w w'"
    and delay: "world_ok w \<Longrightarrow> hs_delay H 1 w = (st, w') \<Longrightarrow> world_ok w' \<and> harness_moves H bits ghost w w'
      \<and> (st = DelayOk \<longrightarrow> harness_ticks H bits w < harness_ticks H bits w')"
    and put: "world_ok w \<Longrightarrow> world_ok (hs_put H c f w) \<and> hs_snapshot H (hs_put H c f w) = hs_snapshot H w
      \<and> hs_case H d (hs_put H c f w) = (if d = c then f (hs_case H d w) else hs_case H d w)
      \<and> ghost d (hs_put H c f w) = ghost d w"
begin

definition view :: "slot \<Rightarrow> 'w \<Rightarrow> helper_view" where
  "view = helper_view_of H ghost"

definition ended :: "('w \<Rightarrow> bool) \<Rightarrow> 'w harness_run \<Rightarrow> bool" where
  "ended P m \<longleftrightarrow> (\<exists>r w. m = Some (r, w) \<and> world_ok w \<and> (r = Inr () \<longrightarrow> P w))"

lemma ended_then:
  assumes "ended P m" and "\<And>w. world_ok w \<Longrightarrow> P w \<Longrightarrow> ended Q (k w)"
  shows "ended Q (then_run m k)"
  using assms by (auto simp: ended_def then_run_def split: sum.splits)

definition persistent :: "('w \<Rightarrow> bool) \<Rightarrow> bool" where
  "persistent P \<longleftrightarrow> (\<forall>w w'. P w \<longrightarrow> harness_moves H bits ghost w w' \<longrightarrow> P w')"

lemma persistentD: "persistent P \<Longrightarrow> P w \<Longrightarrow> harness_moves H bits ghost w w' \<Longrightarrow> P w'"
  by (auto simp: persistent_def)

lemma persistent_conj: "persistent P \<Longrightarrow> persistent Q \<Longrightarrow> persistent (\<lambda>w. P w \<and> Q w)"
  by (auto simp: persistent_def)

lemma persistent_all: "(\<And>c. persistent (P c)) \<Longrightarrow> persistent (\<lambda>w. \<forall>c. P c w)"
  unfolding persistent_def by blast

text \<open>Polling ends, whatever it looks for.\<close>

lemma poll_ends:
  assumes look: "\<And>w r w1. world_ok w \<Longrightarrow> P w \<Longrightarrow> look w = (r, w1) \<Longrightarrow>
      world_ok w1 \<and> P w1 \<and> harness_ticks H bits w \<le> harness_ticks H bits w1 \<and> (r = Some (Inr ()) \<longrightarrow> Q w1)"
    and P: "persistent P"
  shows "world_ok w \<Longrightarrow> P w \<Longrightarrow> ended Q (poll H look late start timeout bits w)"
proof (induction "unat (expand_ticks start bits) + unat timeout - harness_ticks H bits w" arbitrary: w rule: less_induct)
  case less
  obtain r w1 where l: "look w = (r, w1)" by force
  note l1 = look [OF less.prems l]
  show ?case
  proof (cases r)
    case (Some x)
    then show ?thesis using l l1 by (subst poll.simps) (auto simp: ended_def)
  next
    case None
    let ?w2 = "hs_preempt H w1"
    have p: "world_ok ?w2" "P ?w2" "harness_ticks H bits w1 \<le> harness_ticks H bits ?w2"
      using preempt [of w1] l1 persistentD [OF P, of w1 ?w2] by (auto simp: harness_moves_def)
    obtain st w3 where d: "hs_delay H 1 ?w2 = (st, w3)" by force
    note d1 = delay [OF p(1) d]
    have "P w3" using d1 p(2) P by (auto intro: persistentD)
    show ?thesis
    proof (cases "ucast timeout \<le> total_ticks_diff (hs_snapshot H ?w2) start bits \<or> st \<noteq> DelayOk")
      case True
      then show ?thesis using l None p d d1 by (subst poll.simps) (auto simp: ended_def Let_def)
    next
      case False
      then have "harness_ticks H bits ?w2 < unat (expand_ticks start bits) + unat timeout"
        using not_late by (simp add: harness_ticks_def)
      then have "ended Q (poll H look late start timeout bits w3)"
        using less.hyps [of w3] False d1 \<open>P w3\<close> l1 p(3) by auto
      then show ?thesis using l None d False by (subst poll.simps) (simp add: Let_def)
    qed
  qed
qed

text \<open>What is known of a helper and persists.\<close>

abbreviation (input) fresh :: "slot \<Rightarrow> 'w \<Rightarrow> bool" where
  "fresh c w \<equiv> helper_fresh (view c w) \<and> helper_honest (view c w)"

abbreviation (input) logged :: "slot \<Rightarrow> 'w \<Rightarrow> bool" where
  "logged c w \<equiv> take 4 (helper_log (view c w)) = required_helper_phases"

definition accepted :: "slot \<Rightarrow> 'w \<Rightarrow> bool" where
  "accepted c w \<longleftrightarrow> (\<exists>v. helper_step\<^sup>*\<^sup>* v (view c w) \<and> helper_accepted v)"

lemma moves_steps: "harness_moves H bits ghost w w' \<Longrightarrow> helper_step\<^sup>*\<^sup>* (view c w) (view c w')"
  by (simp add: harness_moves_def view_def)

lemma persistents:
  "persistent (\<lambda>w. helper_fresh (view c w))" "persistent (\<lambda>w. helper_honest (view c w))" "persistent (\<lambda>w. logged c w)"
  "persistent (accepted c)"
  unfolding persistent_def accepted_def
  by (blast intro: helper_fresh_steps helper_honest_steps helper_log_steps moves_steps rtranclp_trans [of helper_step])+

lemmas persistent_rules = persistent_conj persistent_all persistents

lemma preempt_keeps: "world_ok w \<Longrightarrow> persistent P \<Longrightarrow> P w \<Longrightarrow> world_ok (hs_preempt H w) \<and> P (hs_preempt H w)"
  using preempt by (auto intro: persistentD)

lemma spawn_ended: "world_ok w \<Longrightarrow> persistent P \<Longrightarrow> P w \<Longrightarrow> ended P (spawn_helper H c w)"
  using spawn by (auto simp: spawn_helper_def ended_def split: prod.splits intro: persistentD)

lemma wait_phase_ended:
  assumes "world_ok w" and P: "persistent P" "P w" and fr: "\<And>w. P w \<Longrightarrow> helper_fresh (view c w)"
  shows "ended (\<lambda>w. P w \<and> logged c w) (wait_until_phase H c phase_exiting timeout bits w)"
  unfolding wait_until_phase_def
proof (rule poll_ends [where P = P])
  fix w r w1
  assume w: "world_ok w" "P w" and l: "look_phase H c phase_exiting w = (r, w1)"
  let ?a = "hs_preempt H w" let ?b = "hs_preempt H ?a"
  have a: "world_ok ?a" "P ?a" "harness_ticks H bits w \<le> harness_ticks H bits ?a"
    using preempt_keeps [OF w(1) P(1) w(2)] preempt [OF w(1)] by (auto simp: harness_moves_def)
  have b: "world_ok ?b" "P ?b" "harness_ticks H bits ?a \<le> harness_ticks H bits ?b"
    using preempt_keeps [OF a(1) P(1) a(2)] preempt [OF a(1)] by (auto simp: harness_moves_def)
  obtain pc lg bad where "ghost c ?b = (pc, lg, bad)" by (cases "ghost c ?b") auto
  then have v: "view c ?b = (pc, hs_case H c ?b, lg, bad)" by (simp add: view_def helper_view_of_def)
  then have "logged c ?b" if "phase_exiting \<le> cs_phase (hs_case H c ?b)"
    using helper_exiting [OF _ that] fr [OF b(2)] by (metis helper_log.simps)
  then show "world_ok w1 \<and> P w1 \<and> harness_ticks H bits w \<le> harness_ticks H bits w1
      \<and> (r = Some (Inr ()) \<longrightarrow> P w1 \<and> logged c w1)"
    using l a b by (auto simp: look_phase_def Let_def split: if_splits)
qed (use assms in simp_all)

lemma wait_heap_ended:
  assumes "world_ok w" and P: "persistent P" "P w"
  shows "ended P (wait_until_heap_recovered H baseline deadline bits w)"
  unfolding wait_until_heap_recovered_def
proof (rule poll_ends [where P = P])
  fix w r w1
  assume w: "world_ok w" "P w" and l: "look_heap H baseline w = (r, w1)"
  then show "world_ok w1 \<and> P w1 \<and> harness_ticks H bits w \<le> harness_ticks H bits w1 \<and> (r = Some (Inr ()) \<longrightarrow> P w1)"
    using preempt_keeps [OF w(1) P(1) w(2)] preempt [OF w(1)] by (auto simp: look_heap_def Let_def harness_moves_def)
qed (use assms in simp_all)

text \<open>After the controller has written a phase a helper is still honest and keeps its log.\<close>

lemma put_keeps:
  assumes "world_ok w" and "\<forall>d. helper_honest (view d w) \<and> logged d w"
    and "\<And>s. cs_result s \<noteq> 0 \<Longrightarrow> cs_result (f s) \<noteq> 0"
  shows "world_ok (hs_put H c f w) \<and> (\<forall>d. helper_honest (view d (hs_put H c f w)) \<and> logged d (hs_put H c f w))"
proof -
  have "world_ok (hs_put H c f w)" using put [OF assms(1)] by simp
  moreover have "helper_honest (view d (hs_put H c f w)) \<and> logged d (hs_put H c f w)" for d
    using put [OF assms(1), of c f d] assms(2) [rule_format, of d] assms(3) [of "hs_case H d w"]
    by (auto simp: view_def helper_view_of_def split: prod.splits)
  ultimately show ?thesis by blast
qed

lemma controller_keeps:
  assumes "world_ok w" and "\<forall>d. helper_honest (view d w) \<and> logged d w"
  shows "world_ok (controller_phase H c n w) \<and> (\<forall>d. helper_honest (view d (controller_phase H c n w)) \<and> logged d (controller_phase H c n w))"
proof -
  let ?I = "\<lambda>w. \<forall>d. helper_honest (view d w) \<and> logged d w"
  have I: "persistent ?I" by (intro persistent_rules)
  have pre: "world_ok (hs_preempt H w) \<and> ?I (hs_preempt H w)" if "world_ok w" "?I w" for w
    using preempt_keeps [OF that(1) I that(2)] .
  have upd: "world_ok (hs_put H c f w) \<and> ?I (hs_put H c f w)"
    if "world_ok w" "?I w" "f = phase_store n \<or> f = phase_visit n \<or> f = set_result result_invalid_phase" for f w
    by (rule put_keeps [OF that(1,2)]) (use that(3) in \<open>auto simp: phase_store_def phase_visit_def set_result_def\<close>)
  show ?thesis unfolding controller_phase_def Let_def using pre upd assms by simp
qed

lemma validate_ended:
  assumes w: "world_ok w" and P: "persistent P" "P w" "\<And>w. P w \<Longrightarrow> helper_honest (view c w) \<and> logged c w"
  shows "ended (\<lambda>w. P w \<and> accepted c w) (validate_helper H c w)"
proof -
  note pre = preempt_keeps [OF _ P(1)]
  let ?a = "hs_preempt H w" let ?b = "hs_preempt H ?a" let ?c = "hs_preempt H ?b" let ?d = "hs_preempt H ?c"
  have a: "world_ok ?a \<and> P ?a" by (rule pre [OF w P(2)])
  have b: "world_ok ?b \<and> P ?b" using pre a by blast
  have c: "world_ok ?c \<and> P ?c" using pre b by blast
  have d: "world_ok ?d \<and> P ?d" using pre c by blast
  have "accepted c ?d" if "cs_result (hs_case H c ?d) = 0"
    unfolding accepted_def
    by (rule exI [of _ "view c ?d"])
      (use P(3) [of ?d] d that in \<open>auto simp: view_def helper_view_of_def split: prod.splits\<close>)
  then show ?thesis using a b c d by (auto simp: validate_helper_def Let_def ended_def)
qed

lemma isolation_ended: "world_ok w \<Longrightarrow> persistent P \<Longrightarrow> P w \<Longrightarrow> ended P (check_isolation H w)"
  using preempt_keeps [of w P] preempt_keeps [of "hs_preempt H w" P] by (auto simp: check_isolation_def Let_def ended_def)

lemma reset_fresh:
  assumes "world_ok w" and "\<forall>c. ghost c w = (BIdle, [], 0)"
  shows "world_ok (hs_put H SlotB (\<lambda>_. case_state_new) (hs_put H SlotA (\<lambda>_. case_state_new) w))"
    and "fresh c (hs_put H SlotB (\<lambda>_. case_state_new) (hs_put H SlotA (\<lambda>_. case_state_new) w))"
proof -
  let ?a = "hs_put H SlotA (\<lambda>_. case_state_new) w" let ?b = "hs_put H SlotB (\<lambda>_. case_state_new) ?a"
  note a = put [OF assms(1), of SlotA "\<lambda>_. case_state_new"]
  then have ok: "world_ok ?a" by blast
  note b = put [OF ok, of SlotB "\<lambda>_. case_state_new"]
  show "world_ok ?b" using b by blast
  have "view c ?b = (BIdle, case_state_new, [], 0)"
    using a [of c] b [of c] assms(2) by (cases c) (simp_all add: view_def helper_view_of_def)
  then show "fresh c ?b" by (simp add: case_state_new_def phases)
qed

lemma harness_case_ended:
  assumes "world_ok w" and "\<forall>c. ghost c w = (BIdle, [], 0)"
  shows "ended (\<lambda>w. \<forall>c. accepted c w) (run_harness_case H bits w)"
proof -
  let ?fresh = "\<lambda>w. \<forall>c. fresh c w" and ?good = "\<lambda>w. \<forall>c. helper_honest (view c w) \<and> logged c w"
  note ps = persistent_rules
  have lg: "logged SlotA w \<Longrightarrow> logged SlotB w \<Longrightarrow> logged c w" for w c by (cases c) simp_all
  have acc: "accepted SlotA w \<Longrightarrow> accepted SlotB w \<Longrightarrow> accepted c w" for w c by (cases c) simp_all
  show ?thesis unfolding run_harness_case_def Let_def
  proof (intro ended_then)
    show "ended ?fresh (spawn_helper H SlotA (hs_put H SlotB (\<lambda>_. case_state_new) (hs_put H SlotA (\<lambda>_. case_state_new) w)))"
      by (rule spawn_ended) (use reset_fresh [OF assms] in \<open>auto intro!: ps\<close>)
    show "ended ?fresh (spawn_helper H SlotB w)" if "world_ok w" "?fresh w" for w
      by (rule spawn_ended) (use that in \<open>auto intro!: ps\<close>)
    show "ended (\<lambda>w. ?fresh w \<and> logged SlotA w) (wait_until_phase H SlotA phase_exiting 100 bits w)" if "world_ok w" "?fresh w" for w
      by (rule wait_phase_ended) (use that in \<open>auto intro!: ps\<close>)
    show "ended (\<lambda>w. (?fresh w \<and> logged SlotA w) \<and> logged SlotB w) (wait_until_phase H SlotB phase_exiting 100 bits w)"
      if "world_ok w" "?fresh w \<and> logged SlotA w" for w
      by (rule wait_phase_ended) (use that in \<open>auto intro!: ps\<close>)
    show "ended ?good (wait_until_heap_recovered H (hs_heap H w0) 100 bits w)"
      if "world_ok w" "(?fresh w \<and> logged SlotA w) \<and> logged SlotB w" for w0 w
      by (rule wait_heap_ended) (use that lg [of w] in \<open>auto intro!: ps\<close>)
    show "ended (\<lambda>w. ?good w \<and> accepted SlotA w)
        (validate_helper H SlotA (controller_phase H SlotB phase_done (controller_phase H SlotA phase_done w)))"
      if "world_ok w" "?good w" for w
    proof (rule validate_ended)
      let ?w = "controller_phase H SlotB phase_done (controller_phase H SlotA phase_done w)"
      have "world_ok ?w \<and> ?good ?w" using controller_keeps [OF that] controller_keeps by blast
      then show "world_ok ?w" "?good ?w" by blast+
    qed (auto intro!: ps)
    show "ended (\<lambda>w. (?good w \<and> accepted SlotA w) \<and> accepted SlotB w) (validate_helper H SlotB w)"
      if "world_ok w" "?good w \<and> accepted SlotA w" for w
      by (rule validate_ended) (use that in \<open>auto intro!: ps\<close>)
    show "ended (\<lambda>w. \<forall>c. accepted c w) (check_isolation H w)"
      if "world_ok w" "(?good w \<and> accepted SlotA w) \<and> accepted SlotB w" for w
      by (rule isolation_ended) (use that acc [of w] in \<open>auto intro!: ps\<close>)
  qed
qed

end

text \<open>C13. On every system whose other tasks only use the bridges and whose clock moves, the harness case ends;
  when it passes, each of the two helpers has stored the phases 1 to 4 in order and had reported no error when
  it was validated, wherever the controller was preempted.\<close>

theorem harness_case_sound:
  assumes "harness_world H bits ghost world_ok" and "world_ok w" and "\<forall>c. ghost c w = (BIdle, [], 0)"
  shows "\<exists>r w'. run_harness_case H bits w = Some (r, w')
    \<and> (r = Inr () \<longrightarrow> (\<forall>c. \<exists>v. helper_step\<^sup>*\<^sup>* v (helper_view_of H ghost c w') \<and> helper_accepted v))"
  using harness_world.harness_case_ended [OF assms]
  unfolding harness_world.ended_def [OF assms(1)] harness_world.accepted_def [OF assms(1)] harness_world.view_def [OF assms(1)]
  by blast

section \<open>The firmware's helpers\<close>

text \<open>\<open>harness_smoke_helper\<close> (app/main.c): its bridge calls, the delay between them, and the exit that gives the
  memory of the task back. The task runs one atomic action at a time.\<close>

datatype helper_op = OpPhase u32 | OpStart | OpEnd | OpDelay u64 | OpSchedulerCheck

definition harness_smoke_helper :: "helper_op list" where
  "harness_smoke_helper = [OpPhase 1, OpStart, OpPhase 2, OpDelay 1, OpEnd, OpSchedulerCheck, OpPhase 3, OpPhase 4]"

record helper_task =
  ht_case :: case_state
  ht_pc :: bridge_pc
  ht_log :: "u32 list"
  ht_bad :: nat
  ht_prog :: "helper_op list"
  ht_wake :: u64

record firmware =
  fw_a :: helper_task
  fw_b :: helper_task
  fw_tick :: u64

definition fw_task :: "firmware \<Rightarrow> slot \<Rightarrow> helper_task" where
  "fw_task w c = (case c of SlotA \<Rightarrow> fw_a w | SlotB \<Rightarrow> fw_b w)"

definition fw_upd :: "slot \<Rightarrow> (helper_task \<Rightarrow> helper_task) \<Rightarrow> firmware \<Rightarrow> firmware" where
  "fw_upd c f w = (case c of SlotA \<Rightarrow> w\<lparr>fw_a := f (fw_a w)\<rparr> | SlotB \<Rightarrow> w\<lparr>fw_b := f (fw_b w)\<rparr>)"

definition helper_exec :: "u64 \<Rightarrow> helper_task \<Rightarrow> helper_task" where
  "helper_exec tick t =
     (case ht_pc t of
        BStore n \<Rightarrow> t\<lparr>ht_pc := BVisit n, ht_case := phase_store n (ht_case t), ht_log := ht_log t @ [n]\<rparr>
      | BVisit n \<Rightarrow> t\<lparr>ht_pc := BIdle, ht_case := phase_visit n (ht_case t)\<rparr>
      | BFail \<Rightarrow> t\<lparr>ht_pc := BIdle, ht_case := set_result result_invalid_phase (ht_case t), ht_bad := Suc (ht_bad t)\<rparr>
      | BIdle \<Rightarrow>
          if tick < ht_wake t then t
          else (case ht_prog t of
                  [] \<Rightarrow> t
                | OpPhase n # p \<Rightarrow> t\<lparr>ht_prog := p, ht_pc := if phase_check n (ht_case t) then BStore n else BFail\<rparr>
                | OpStart # p \<Rightarrow> t\<lparr>ht_prog := p, ht_case := (ht_case t)\<lparr>cs_start_tick := ucast tick\<rparr>\<rparr>
                | OpEnd # p \<Rightarrow> t\<lparr>ht_prog := p, ht_case := (ht_case t)\<lparr>cs_end_tick := ucast tick\<rparr>\<rparr>
                | OpDelay n # p \<Rightarrow> t\<lparr>ht_prog := p, ht_wake := tick + n\<rparr>
                | OpSchedulerCheck # p \<Rightarrow> t\<lparr>ht_prog := p\<rparr>))"

definition fw_run :: "firmware \<Rightarrow> firmware" where
  "fw_run w = w\<lparr>fw_a := helper_exec (fw_tick w) (fw_a w), fw_b := helper_exec (fw_tick w) (fw_b w)\<rparr>"

definition helper_alive :: "helper_task \<Rightarrow> bool" where
  "helper_alive t \<longleftrightarrow> ht_prog t \<noteq> [] \<or> ht_pc t \<noteq> BIdle"

definition fw_view :: "slot \<Rightarrow> firmware \<Rightarrow> bridge_pc \<times> u32 list \<times> nat" where
  "fw_view c w = (ht_pc (fw_task w c), ht_log (fw_task w c), ht_bad (fw_task w c))"

definition firmware_sys :: "firmware harness_sys" where
  "firmware_sys = \<lparr>
     hs_case = (\<lambda>c w. ht_case (fw_task w c)),
     hs_put = (\<lambda>c f. fw_upd c (\<lambda>t. t\<lparr>ht_case := f (ht_case t)\<rparr>)),
     hs_preempt = fw_run,
     hs_snapshot = (\<lambda>w. \<lparr>overflow_count = drop_bit 32 (fw_tick w), tick_count = take_bit 32 (fw_tick w)\<rparr>),
     hs_delay = (\<lambda>n w. if fw_tick w \<le> fw_tick w + n
       then (DelayOk, fw_run (w\<lparr>fw_tick := fw_tick w + n\<rparr>)) else (DelayInvalidTicks, w)),
     hs_heap = (\<lambda>w. 65536 - (if helper_alive (fw_task w SlotA) then 2200 else 0) - (if helper_alive (fw_task w SlotB) then 2200 else 0)),
     hs_spawn = (\<lambda>c stack prio w. (0, fw_upd c (\<lambda>t. t\<lparr>ht_prog := harness_smoke_helper\<rparr>) w))\<rparr>"

definition helper_idle :: helper_task where
  "helper_idle = \<lparr>ht_case = case_state_new, ht_pc = BIdle, ht_log = [], ht_bad = 0, ht_prog = [], ht_wake = 0\<rparr>"

definition fw_boot :: firmware where
  "fw_boot = \<lparr>fw_a = helper_idle, fw_b = helper_idle, fw_tick = 1000\<rparr>"

lemma fw_task_upd: "fw_task (fw_upd c f w) d = (if d = c then f (fw_task w d) else fw_task w d)"
  by (cases c; cases d) (simp_all add: fw_upd_def fw_task_def)

lemma fw_tick_upd [simp]: "fw_tick (fw_upd c f w) = fw_tick w"
  by (cases c) (simp_all add: fw_upd_def)

lemma fw_task_tick [simp]: "fw_task (w\<lparr>fw_tick := n\<rparr>) = fw_task w"
  by (rule ext) (simp add: fw_task_def split: slot.split)

lemma fw_task_run: "fw_task (fw_run w) c = helper_exec (fw_tick w) (fw_task w c)"
  by (cases c) (simp_all add: fw_run_def fw_task_def)

lemma fw_ticks: "harness_ticks firmware_sys 32 w = unat (fw_tick w)"
proof -
  have "push_bit 32 (ucast (drop_bit 32 t)) OR ucast (take_bit 32 t) = (ucast t :: u128)" for t :: u64
    by (rule bit_eqI) (auto simp: bit_simps)
  then show ?thesis by (simp add: harness_ticks_def firmware_sys_def expand_ticks_def unat_ucast_u64)
qed

lemma helper_exec_step:
  "helper_step\<^sup>*\<^sup>* (ht_pc t, ht_case t, ht_log t, ht_bad t)
     (ht_pc (helper_exec k t), ht_case (helper_exec k t), ht_log (helper_exec k t), ht_bad (helper_exec k t))"
proof (cases "ht_pc t")
  case BIdle
  then show ?thesis
    by (auto simp: helper_exec_def split: list.splits helper_op.splits intro: helper_step.intros r_into_rtranclp)
qed (auto simp: helper_exec_def intro: helper_step.intros)

lemma fw_sel:
  "hs_case firmware_sys c w = ht_case (fw_task w c)" "hs_preempt firmware_sys w = fw_run w"
  "hs_delay firmware_sys n w = (if fw_tick w \<le> fw_tick w + n
     then (DelayOk, fw_run (w\<lparr>fw_tick := fw_tick w + n\<rparr>)) else (DelayInvalidTicks, w))"
  "hs_spawn firmware_sys c stack prio w = (0, fw_upd c (\<lambda>t. t\<lparr>ht_prog := harness_smoke_helper\<rparr>) w)"
  "helper_view_of firmware_sys fw_view c w
     = (ht_pc (fw_task w c), ht_case (fw_task w c), ht_log (fw_task w c), ht_bad (fw_task w c))"
  by (simp_all add: firmware_sys_def helper_view_of_def fw_view_def)

text \<open>The tasks stay as they are up to their programs, or make one action each.\<close>

lemma fw_moves:
  assumes "fw_tick w \<le> fw_tick w'"
    and "(\<forall>c. \<exists>p. fw_task w' c = (fw_task w c)\<lparr>ht_prog := p\<rparr>) \<or> (\<exists>v. w' = fw_run v \<and> fw_task v = fw_task w)"
  shows "harness_moves firmware_sys 32 fw_view w w'"
proof -
  have "helper_step\<^sup>*\<^sup>* (helper_view_of firmware_sys fw_view c w) (helper_view_of firmware_sys fw_view c w')" for c
    using assms(2)
  proof
    assume "\<forall>c. \<exists>p. fw_task w' c = (fw_task w c)\<lparr>ht_prog := p\<rparr>"
    then obtain p where "fw_task w' c = (fw_task w c)\<lparr>ht_prog := p\<rparr>" by blast
    then show ?thesis by (simp add: fw_sel)
  next
    assume "\<exists>v. w' = fw_run v \<and> fw_task v = fw_task w"
    then obtain v where "w' = fw_run v" "fw_task v = fw_task w" by blast
    then show ?thesis using helper_exec_step [of "fw_task w c" "fw_tick v"] by (simp add: fw_sel fw_task_run)
  qed
  then show ?thesis using assms(1) by (simp add: harness_moves_def fw_ticks word_le_nat_alt)
qed

lemma ht_prog_same: "\<exists>p. (t :: helper_task) = t\<lparr>ht_prog := p\<rparr>"
  by (rule exI [of _ "ht_prog t"]) simp

interpretation fw: harness_world firmware_sys 32 fw_view "\<lambda>w. True"
proof
  have tick [simp]: "fw_tick (fw_run w) = fw_tick w" for w by (simp add: fw_run_def)
  fix w w' :: firmware and c d stack prio rc st f
  show "True \<and> harness_moves firmware_sys 32 fw_view w (hs_preempt firmware_sys w)"
    using fw_moves [of w "fw_run w"] by (auto simp: fw_sel)
  show "True \<and> harness_moves firmware_sys 32 fw_view w w'" if "hs_spawn firmware_sys c stack prio w = (rc, w')"
  proof -
    have "w' = fw_upd c (\<lambda>t. t\<lparr>ht_prog := harness_smoke_helper\<rparr>) w" using that by (simp add: fw_sel)
    moreover have "\<exists>p. fw_task w' d = (fw_task w d)\<lparr>ht_prog := p\<rparr>" for d
      using calculation ht_prog_same [of "fw_task w d"] by (cases "d = c") (auto simp: fw_task_upd)
    ultimately show ?thesis using fw_moves [of w w'] by simp
  qed
  show "True \<and> harness_moves firmware_sys 32 fw_view w w'
      \<and> (st = DelayOk \<longrightarrow> harness_ticks firmware_sys 32 w < harness_ticks firmware_sys 32 w')"
    if d: "hs_delay firmware_sys 1 w = (st, w')"
  proof (cases "fw_tick w \<le> fw_tick w + 1")
    case True
    let ?v = "w\<lparr>fw_tick := fw_tick w + 1\<rparr>"
    have "fw_tick w < fw_tick w + 1" using True by (simp add: order_less_le)
    moreover have "w' = fw_run ?v" using d True by (simp add: fw_sel)
    moreover have "harness_moves firmware_sys 32 fw_view w (fw_run ?v)"
      by (rule fw_moves) (use True in \<open>auto intro!: exI [of _ ?v]\<close>)
    ultimately show ?thesis by (simp add: fw_ticks word_less_nat_alt)
  next
    case False
    then have "w' = w" "st = DelayInvalidTicks" using d by (simp_all add: fw_sel)
    moreover have "harness_moves firmware_sys 32 fw_view w w" by (rule fw_moves) (use ht_prog_same in auto)
    ultimately show ?thesis by simp
  qed
  show "True \<and> hs_snapshot firmware_sys (hs_put firmware_sys c f w) = hs_snapshot firmware_sys w
      \<and> hs_case firmware_sys d (hs_put firmware_sys c f w) = (if d = c then f (hs_case firmware_sys d w) else hs_case firmware_sys d w)
      \<and> fw_view d (hs_put firmware_sys c f w) = fw_view d w"
    by (simp add: firmware_sys_def fw_view_def fw_task_upd)
qed

text \<open>The firmware's two helpers under its own clock.\<close>

theorem harness_case_sound_witness:
  "(\<forall>c. fw_view c fw_boot = (BIdle, [], 0))
   \<and> (\<exists>r w'. run_harness_case firmware_sys 32 fw_boot = Some (r, w')
       \<and> (r = Inr () \<longrightarrow> (\<forall>c. \<exists>v. helper_step\<^sup>*\<^sup>* v (helper_view_of firmware_sys fw_view c w') \<and> helper_accepted v)))"
proof
  show boot: "\<forall>c. fw_view c fw_boot = (BIdle, [], 0)"
    by (simp add: fw_view_def fw_boot_def fw_task_def helper_idle_def split: slot.split)
  show "\<exists>r w'. run_harness_case firmware_sys 32 fw_boot = Some (r, w')
      \<and> (r = Inr () \<longrightarrow> (\<forall>c. \<exists>v. helper_step\<^sup>*\<^sup>* v (helper_view_of firmware_sys fw_view c w') \<and> helper_accepted v))"
    by (rule harness_case_sound [OF fw.harness_world_axioms]) (use boot in simp_all)
qed

end
