(* ===== verification/Critical_Section.thy ===== *)
theory Critical_Section
  imports Freertos_Kernel Mock_Backend
begin

text \<open>
  The \<open>System\<close> trait: nested critical sections. The contract of one thread is the locale \<open>nested_sections\<close>, which the
  host fixture of the FreeRTOS backend provides (a bare counter, lib.rs: the fixture excludes nobody, that is left to the
  kernel's own critical section, an argument of the backend's functions). The contract of many threads is \<open>nested_exclusion\<close>,
  a lock with a holder and a depth; the POSIX backend (system.rs over a recursive pthread mutex, sys/recursive\_mutex.rs)
  provides it as long as a guard is dropped by the thread that entered. The system contracts of the test kit and the system
  demo are programs over them.
\<close>

section \<open>FreeRTOS (system.rs, lib.rs)\<close>

text \<open>The critical section and the free heap of the kernel; \<open>None\<close> is an entry that does not return.\<close>

record 'k critical_calls =
  cc_enter :: "nat \<Rightarrow> 'k \<Rightarrow> 'k option"
  cc_exit :: "nat \<Rightarrow> 'k \<Rightarrow> unit res \<times> 'k"
  cc_heap_free :: "'k \<Rightarrow> u64"

text \<open>The host fixture has two counters in their place.\<close>

record crit_fixture =
  cf_depth :: u64
  cf_heap_free :: u64

definition fixture_enter_critical :: "crit_fixture \<Rightarrow> crit_fixture" where
  "fixture_enter_critical s = s\<lparr>cf_depth := cf_depth s + 1\<rparr>"

definition fixture_exit_critical :: "crit_fixture \<Rightarrow> unit res \<times> crit_fixture" where
  "fixture_exit_critical s =
     (let prev = cf_depth s; s1 = s\<lparr>cf_depth := prev - 1\<rparr>
      in (if prev = 0 then Panic ''exit_critical() called without matching enter_critical()'' else Ok (), s1))"

definition fixture_critical_calls :: "crit_fixture critical_calls" where
  "fixture_critical_calls = \<lparr>cc_enter = (\<lambda>i s. Some (fixture_enter_critical s)), cc_exit = (\<lambda>i s. fixture_exit_critical s),
     cc_heap_free = cf_heap_free\<rparr>"

definition rtos_heap_free :: "'k critical_calls \<Rightarrow> 'k \<Rightarrow> nat" where
  "rtos_heap_free C s = (if unat (cc_heap_free C s) \<le> usize_max then unat (cc_heap_free C s) else usize_max)"

text \<open>\<open>enter_critical\<close> of the backend and the drop of its guard.\<close>

definition rtos_enter_critical :: "'k critical_calls \<Rightarrow> nat \<Rightarrow> 'k \<Rightarrow> (unit res \<times> 'k) option" where
  "rtos_enter_critical C i s = map_option (\<lambda>s1. (Ok (), s1)) (cc_enter C i s)"

definition rtos_critical_guard_drop :: "'k critical_calls \<Rightarrow> nat \<Rightarrow> 'k \<Rightarrow> unit res \<times> 'k" where
  "rtos_critical_guard_drop C i s = cc_exit C i s"

section \<open>POSIX (system.rs, recursive\_mutex.rs)\<close>

text \<open>The pthread calls on a mutex \<open>'m\<close>, with their return codes; a lock that blocks is \<open>None\<close>.\<close>

record 'm recursive_calls =
  rc_attr_init :: int
  rc_attr_settype :: int
  rc_attr_destroy :: int
  rc_mutex_init :: "'m \<Rightarrow> int \<times> 'm"
  rc_lock :: "nat \<Rightarrow> 'm \<Rightarrow> (int \<times> 'm) option"
  rc_unlock :: "nat \<Rightarrow> 'm \<Rightarrow> int \<times> 'm"

text \<open>\<open>debug_assert_eq!(rc, 0)\<close>, which a release build leaves out.\<close>

definition assert_rc :: "bool \<Rightarrow> int \<Rightarrow> string \<Rightarrow> 's \<Rightarrow> unit res \<times> 's" where
  "assert_rc debug rc msg s = (if debug \<and> rc \<noteq> 0 then Panic msg else Ok (), s)"

definition recursive_init :: "'m recursive_calls \<Rightarrow> bool \<Rightarrow> 'm \<Rightarrow> unit res \<times> 'm" where
  "recursive_init P debug m =
     st_bind (assert_rc debug (rc_attr_init P) ''pthread_mutexattr_init failed'' m) (\<lambda>_ m.
     st_bind (assert_rc debug (rc_attr_settype P) ''pthread_mutexattr_settype(PTHREAD_MUTEX_RECURSIVE) failed'' m) (\<lambda>_ m.
     case rc_mutex_init P m of (rc, m1) \<Rightarrow>
     st_bind (assert_rc debug rc ''pthread_mutex_init failed'' m1) (\<lambda>_ m.
     assert_rc debug (rc_attr_destroy P) ''pthread_mutexattr_destroy failed'' m)))"

definition recursive_lock :: "'m recursive_calls \<Rightarrow> bool \<Rightarrow> nat \<Rightarrow> 'm \<Rightarrow> (unit res \<times> 'm) option" where
  "recursive_lock P debug i m =
     map_option (\<lambda>(rc, m1). assert_rc debug rc ''pthread_mutex_lock failed'' m1) (rc_lock P i m)"

definition recursive_unlock :: "'m recursive_calls \<Rightarrow> bool \<Rightarrow> nat \<Rightarrow> 'm \<Rightarrow> unit res \<times> 'm" where
  "recursive_unlock P debug i m =
     (case rc_unlock P i m of (rc, m1) \<Rightarrow> assert_rc debug rc ''pthread_mutex_unlock failed'' m1)"

record 'm posix_system =
  ps_once :: bool
  ps_mutex :: 'm

definition on_mutex :: "('m \<Rightarrow> unit res \<times> 'm) \<Rightarrow> 'm posix_system \<Rightarrow> unit res \<times> 'm posix_system" where
  "on_mutex f s = (case f (ps_mutex s) of (r, m) \<Rightarrow> (r, s\<lparr>ps_mutex := m\<rparr>))"

definition posix_ensure_init :: "'m recursive_calls \<Rightarrow> bool \<Rightarrow> 'm posix_system \<Rightarrow> unit res \<times> 'm posix_system" where
  "posix_ensure_init P debug s =
     (if ps_once s then (Ok (), s) else on_mutex (recursive_init P debug) (s\<lparr>ps_once := True\<rparr>))"

definition posix_enter_critical ::
  "'m recursive_calls \<Rightarrow> bool \<Rightarrow> nat \<Rightarrow> 'm posix_system \<Rightarrow> (unit res \<times> 'm posix_system) option" where
  "posix_enter_critical P debug i s =
     (case posix_ensure_init P debug s of
        (Ok _, s1) \<Rightarrow> map_option (\<lambda>(r, m). (r, s1\<lparr>ps_mutex := m\<rparr>)) (recursive_lock P debug i (ps_mutex s1))
      | other \<Rightarrow> Some other)"

definition posix_critical_guard_drop ::
  "'m recursive_calls \<Rightarrow> bool \<Rightarrow> nat \<Rightarrow> 'm posix_system \<Rightarrow> unit res \<times> 'm posix_system" where
  "posix_critical_guard_drop P debug i s = on_mutex (recursive_unlock P debug i) s"

definition posix_heap_free :: nat where "posix_heap_free = usize_max"

section \<open>Guards of any number of threads\<close>

text \<open>\<open>g i\<close> is the number of guards thread \<open>i\<close> has. A guard is dropped by the thread that has it; when the guard type is
  \<open>Send\<close> (\<open>sendable\<close>), as the one of the POSIX backend, it can be handed to another thread before.\<close>

inductive guard_step ::
  "(nat \<Rightarrow> 's \<Rightarrow> (unit res \<times> 's) option) \<Rightarrow> (nat \<Rightarrow> 's \<Rightarrow> unit res \<times> 's) \<Rightarrow> bool \<Rightarrow> nat
    \<Rightarrow> 's \<times> (nat \<Rightarrow> nat) \<Rightarrow> 's \<times> (nat \<Rightarrow> nat) \<Rightarrow> bool"
  for enter leave sendable limit where
  enter: "g i < limit \<Longrightarrow> enter i s = Some (Ok (), s') \<Longrightarrow>
    guard_step enter leave sendable limit (s, g) (s', g(i := Suc (g i)))"
| drop: "0 < g i \<Longrightarrow> leave i s = (r, s') \<Longrightarrow> guard_step enter leave sendable limit (s, g) (s', g(i := g i - 1))"
| send: "sendable \<Longrightarrow> 0 < g i \<Longrightarrow> i \<noteq> j \<Longrightarrow>
    guard_step enter leave sendable limit (s, g) (s, g(i := g i - 1, j := Suc (g j)))"

text \<open>The programs of the test kit and of the demo: guards are dropped in reverse order at the end of a scope.\<close>

datatype crit_act = CEnter | CDrop

fun crit_run ::
  "(nat \<Rightarrow> 's \<Rightarrow> (unit res \<times> 's) option) \<Rightarrow> (nat \<Rightarrow> 's \<Rightarrow> unit res \<times> 's) \<Rightarrow> nat \<Rightarrow> crit_act list \<Rightarrow> 's
    \<Rightarrow> (unit res \<times> 's) option" where
  "crit_run enter leave i [] s = Some (Ok (), s)"
| "crit_run enter leave i (CEnter # as) s =
     (case enter i s of Some (Ok _, s1) \<Rightarrow> crit_run enter leave i as s1 | other \<Rightarrow> other)"
| "crit_run enter leave i (CDrop # as) s =
     (case leave i s of (Ok _, s1) \<Rightarrow> crit_run enter leave i as s1 | other \<Rightarrow> Some other)"

definition enter_critical_returns_guard :: "crit_act list" where
  "enter_critical_returns_guard = [CEnter, CDrop]"

definition critical_section_guard_exits_on_drop :: "crit_act list" where
  "critical_section_guard_exits_on_drop = [CEnter, CDrop, CEnter, CDrop]"

definition critical_section_supports_nesting :: "crit_act list" where
  "critical_section_supports_nesting = [CEnter, CEnter, CDrop, CDrop]"

definition nested_guards_drop_in_reverse_order :: "crit_act list" where
  "nested_guards_drop_in_reverse_order = [CEnter, CEnter, CDrop, CDrop]"

definition system_contracts :: "crit_act list" where
  "system_contracts = enter_critical_returns_guard @ critical_section_guard_exits_on_drop
     @ critical_section_supports_nesting @ nested_guards_drop_in_reverse_order"

definition system_demo :: "crit_act list" where
  "system_demo = [CEnter, CEnter, CDrop, CDrop]"

text \<open>Every drop has its guard, and no more than \<open>limit\<close> guards are held at once.\<close>

fun crit_balanced :: "nat \<Rightarrow> nat \<Rightarrow> crit_act list \<Rightarrow> bool" where
  "crit_balanced limit d [] \<longleftrightarrow> d = 0"
| "crit_balanced limit d (CEnter # as) \<longleftrightarrow> d < limit \<and> crit_balanced limit (Suc d) as"
| "crit_balanced limit d (CDrop # as) \<longleftrightarrow> 0 < d \<and> crit_balanced limit (d - 1) as"

section \<open>The contract\<close>

text \<open>For one thread: \<open>inside i d s\<close> when thread \<open>i\<close>, and nobody else, is in at depth \<open>d\<close>.\<close>

locale nested_sections =
  fixes enter :: "nat \<Rightarrow> 's \<Rightarrow> (unit res \<times> 's) option" and leave :: "nat \<Rightarrow> 's \<Rightarrow> unit res \<times> 's"
    and inside :: "nat \<Rightarrow> nat \<Rightarrow> 's \<Rightarrow> bool" and limit :: nat
  assumes limit: "2 \<le> limit"
    and enter_level: "inside i d s \<Longrightarrow> d < limit \<Longrightarrow> \<exists>s'. enter i s = Some (Ok (), s') \<and> inside i (Suc d) s'"
    and leave_one: "inside i (Suc d) s \<Longrightarrow> \<exists>s'. leave i s = (Ok (), s') \<and> inside i d s'"
begin

lemma balanced_runs:
  "inside i d s \<Longrightarrow> crit_balanced limit d as \<Longrightarrow> \<exists>s'. crit_run enter leave i as s = Some (Ok (), s') \<and> inside i 0 s'"
proof (induction as arbitrary: d s)
  case (Cons a as)
  show ?case
  proof (cases a)
    case CEnter
    obtain s1 where "enter i s = Some (Ok (), s1)" "inside i (Suc d) s1"
      using Cons.prems CEnter enter_level [of i d s] by auto
    then show ?thesis using Cons.IH [of "Suc d" s1] Cons.prems(2) CEnter by simp
  next
    case CDrop
    then obtain k where d: "d = Suc k" using Cons.prems(2) by (cases d) auto
    obtain s1 where "leave i s = (Ok (), s1)" "inside i k s1" using Cons.prems(1) leave_one [of i k s] by (auto simp: d)
    then show ?thesis using Cons.IH [of k s1] Cons.prems(2) CDrop d by simp
  qed
qed simp

lemma system_runs:
  assumes "inside i 0 s" and "as = system_contracts \<or> as = system_demo"
  shows "\<exists>s'. crit_run enter leave i as s = Some (Ok (), s') \<and> inside i 0 s'"
proof -
  have "crit_balanced limit 0 as"
    using assms(2) limit by (auto simp: system_contracts_def system_demo_def enter_critical_returns_guard_def
      critical_section_guard_exits_on_drop_def critical_section_supports_nesting_def nested_guards_drop_in_reverse_order_def)
  then show ?thesis using balanced_runs [of i 0 s as] assms(1) by simp
qed

end

text \<open>For many threads: a lock with a holder and a depth.\<close>

locale nested_exclusion =
  fixes enter :: "nat \<Rightarrow> 's \<Rightarrow> (unit res \<times> 's) option" and leave :: "nat \<Rightarrow> 's \<Rightarrow> unit res \<times> 's"
    and holder :: "'s \<Rightarrow> (nat \<times> nat) option" and crit_ok :: "'s \<Rightarrow> bool" and limit :: nat
  assumes limit: "2 \<le> limit"
    and enter_free: "crit_ok s \<Longrightarrow> holder s = None \<Longrightarrow> \<exists>s'. enter i s = Some (Ok (), s') \<and> crit_ok s' \<and> holder s' = Some (i, 1)"
    and enter_nested: "crit_ok s \<Longrightarrow> holder s = Some (i, d) \<Longrightarrow> d < limit \<Longrightarrow>
      \<exists>s'. enter i s = Some (Ok (), s') \<and> crit_ok s' \<and> holder s' = Some (i, Suc d)"
    and enter_blocks: "crit_ok s \<Longrightarrow> holder s = Some (j, d) \<Longrightarrow> i \<noteq> j \<Longrightarrow> enter i s = None"
    and leave_level: "crit_ok s \<Longrightarrow> holder s = Some (i, Suc d) \<Longrightarrow>
      \<exists>s'. leave i s = (Ok (), s') \<and> crit_ok s' \<and> holder s' = (if d = 0 then None else Some (i, d))"
begin

definition at_depth :: "nat \<Rightarrow> nat \<Rightarrow> 's \<Rightarrow> bool" where
  "at_depth i d s \<longleftrightarrow> crit_ok s \<and> holder s = (if d = 0 then None else Some (i, d))"

lemma sections: "nested_sections enter leave at_depth limit"
proof (unfold_locales, goal_cases)
  case (2 i d s)
  then show ?case using enter_free [of s i] enter_nested [of s i d] by (cases "d = 0") (auto simp: at_depth_def)
next
  case (3 i d s)
  then show ?case using leave_level [of s i d] by (auto simp: at_depth_def)
qed (rule limit)

text \<open>The holder is the thread with guards, at the depth of their number.\<close>

definition guards_inv :: "'s \<times> (nat \<Rightarrow> nat) \<Rightarrow> bool" where
  "guards_inv x \<longleftrightarrow> (case x of (s, g) \<Rightarrow> crit_ok s
     \<and> (case holder s of None \<Rightarrow> \<forall>i. g i = 0 | Some (i, d) \<Rightarrow> 0 < d \<and> g i = d \<and> (\<forall>j. j \<noteq> i \<longrightarrow> g j = 0)))"

lemma guards_inv_step: "guard_step enter leave False limit x y \<Longrightarrow> guards_inv x \<Longrightarrow> guards_inv y"
proof (induction rule: guard_step.induct)
  case (enter g i s s')
  have ok: "crit_ok s" using enter.prems by (simp add: guards_inv_def)
  show ?case
  proof (cases "holder s")
    case None
    then have "g j = 0" for j using enter.prems by (simp add: guards_inv_def)
    then show ?thesis using enter_free [OF ok None, of i] enter.hyps by (auto simp: guards_inv_def)
  next
    case (Some jd)
    then obtain j d where h: "holder s = Some (j, d)" by (cases jd) simp
    then have "i = j" using enter_blocks [OF ok h, of i] enter.hyps by auto
    then show ?thesis using enter_nested [OF ok, of i d] h enter.hyps enter.prems by (auto simp: guards_inv_def)
  qed
next
  case (drop g i s r s')
  have ok: "crit_ok s" using drop.prems by (simp add: guards_inv_def)
  obtain j d where h: "holder s = Some (j, d)" using drop by (fastforce simp: guards_inv_def split: option.splits)
  then have "j = i" "d = Suc (g i - 1)" using drop by (auto simp: guards_inv_def)
  then show ?case using leave_level [OF ok, of i "g i - 1"] h drop by (auto simp: guards_inv_def)
qed simp

lemma exclusion:
  assumes "crit_ok s0" and "holder s0 = None" and "(guard_step enter leave False limit)\<^sup>*\<^sup>* (s0, \<lambda>_. 0) (s, g)"
  shows "(\<forall>i j. 0 < g i \<longrightarrow> 0 < g j \<longrightarrow> i = j) \<and> (\<forall>i. 0 < g i \<longrightarrow> fst (leave i s) = Ok ())
    \<and> (\<forall>i j. 0 < g j \<longrightarrow> j \<noteq> i \<longrightarrow> enter i s = None)
    \<and> (\<forall>i. (\<forall>j. j \<noteq> i \<longrightarrow> g j = 0) \<and> g i < limit \<longrightarrow> (\<exists>s'. enter i s = Some (Ok (), s')))"
proof -
  have "guards_inv (s0, \<lambda>_. 0)" using assms(1,2) by (simp add: guards_inv_def)
  with assms(3) have "guards_inv (s, g)" by (induction rule: rtranclp_induct) (blast intro: guards_inv_step)+
  then have ok: "crit_ok s" and inv: "case holder s of None \<Rightarrow> \<forall>i. g i = 0 | Some (i, d) \<Rightarrow> 0 < d \<and> g i = d \<and> (\<forall>j. j \<noteq> i \<longrightarrow> g j = 0)"
    by (auto simp: guards_inv_def)
  show ?thesis
  proof (cases "holder s")
    case None
    then show ?thesis using inv enter_free [OF ok None] by auto
  next
    case (Some jd)
    then obtain j d where h: "holder s = Some (j, Suc d)" "g j = Suc d" "\<forall>i. i \<noteq> j \<longrightarrow> g i = 0"
      using inv by (cases jd) (auto simp: gr0_conv_Suc)
    have only: "i = j" if "0 < g i" for i using that h(3) by (cases "i = j") simp_all
    have "fst (leave j s) = Ok ()" using leave_level [OF ok h(1)] by force
    moreover have "\<exists>s'. enter i s = Some (Ok (), s')" if "\<forall>j. j \<noteq> i \<longrightarrow> g j = 0" "g i < limit" for i
      using that h(2) enter_nested [OF ok h(1)] by (cases "i = j") auto
    moreover have "enter i s = None" if "0 < g k" "k \<noteq> i" for i k using only [OF that(1)] that(2) enter_blocks [OF ok h(1)] by simp
    ultimately show ?thesis using only by (intro conjI allI impI) (auto dest: only)
  qed
qed

end

section \<open>FreeRTOS critical sections\<close>

lemma depth_bump: "unat (x :: u64) < 2 ^ 64 - 1 \<Longrightarrow> unat (x + 1) = Suc (unat x)"
  by (simp add: unat_word_ariths)

interpretation rtoscrit: nested_sections "rtos_enter_critical fixture_critical_calls" "rtos_critical_guard_drop fixture_critical_calls"
  "\<lambda>i d s. unat (cf_depth s) = d" "2 ^ 64 - 1"
proof (unfold_locales, goal_cases)
  case (2 i d s)
  then show ?case using depth_bump [of "cf_depth s"] by (simp add: rtos_enter_critical_def fixture_critical_calls_def fixture_enter_critical_def)
next
  case (3 i d s)
  then have "cf_depth s \<noteq> 0" by auto
  then show ?case using 3 unat_minus_one [of "cf_depth s"]
    by (simp add: rtos_critical_guard_drop_def fixture_critical_calls_def fixture_exit_critical_def Let_def)
qed simp

section \<open>POSIX critical sections\<close>

text \<open>What POSIX says of a recursive mutex: it is free after \<open>pthread_mutex_init\<close>; locking it returns 0, up to the depth
  the implementation supports, and blocks while another thread owns it; its owner unlocks one level, any other thread gets an
  error and changes nothing.\<close>

locale recursive_pthread =
  fixes P :: "'m recursive_calls" and owner :: "'m \<Rightarrow> (nat \<times> nat) option" and made :: "'m \<Rightarrow> bool" and max_depth :: nat
  assumes depth: "2 \<le> max_depth"
    and attrs: "rc_attr_init P = 0" "rc_attr_settype P = 0" "rc_attr_destroy P = 0"
    and init: "\<exists>m'. rc_mutex_init P m = (0, m') \<and> made m' \<and> owner m' = None"
    and lock_free: "made m \<Longrightarrow> owner m = None \<Longrightarrow> \<exists>m'. rc_lock P i m = Some (0, m') \<and> made m' \<and> owner m' = Some (i, 1)"
    and lock_again: "made m \<Longrightarrow> owner m = Some (i, d) \<Longrightarrow> d < max_depth \<Longrightarrow>
      \<exists>m'. rc_lock P i m = Some (0, m') \<and> made m' \<and> owner m' = Some (i, Suc d)"
    and lock_held: "made m \<Longrightarrow> owner m = Some (j, d) \<Longrightarrow> i \<noteq> j \<Longrightarrow> rc_lock P i m = None"
    and unlock: "made m \<Longrightarrow> owner m = Some (i, Suc d) \<Longrightarrow>
      \<exists>m'. rc_unlock P i m = (0, m') \<and> made m' \<and> owner m' = (if d = 0 then None else Some (i, d))"
    and unlock_other: "made m \<Longrightarrow> owner m = Some (j, d) \<Longrightarrow> i \<noteq> j \<Longrightarrow> \<exists>rc. rc \<noteq> 0 \<and> rc_unlock P i m = (rc, m)"
begin

definition system_holder :: "'m posix_system \<Rightarrow> (nat \<times> nat) option" where
  "system_holder s = (if ps_once s then owner (ps_mutex s) else None)"

definition system_ok :: "'m posix_system \<Rightarrow> bool" where
  "system_ok s \<longleftrightarrow> (ps_once s \<longrightarrow> made (ps_mutex s))"

lemma ensured:
  assumes "system_ok s"
  shows "\<exists>s1. posix_ensure_init P debug s = (Ok (), s1) \<and> ps_once s1 \<and> made (ps_mutex s1)
    \<and> owner (ps_mutex s1) = system_holder s"
proof (cases "ps_once s")
  case True
  then show ?thesis using assms by (simp add: posix_ensure_init_def system_ok_def system_holder_def)
next
  case False
  obtain m' where "rc_mutex_init P (ps_mutex s) = (0, m')" "made m'" "owner m' = None" using init by blast
  then have "posix_ensure_init P debug s = (Ok (), s\<lparr>ps_once := True, ps_mutex := m'\<rparr>)"
    using False attrs by (simp add: posix_ensure_init_def on_mutex_def recursive_init_def assert_rc_def)
  then show ?thesis using False \<open>made m'\<close> \<open>owner m' = None\<close> by (simp add: system_holder_def)
qed

lemma enter_by:
  assumes "posix_ensure_init P debug s = (Ok (), s1)"
  shows "posix_enter_critical P debug i s = map_option (\<lambda>(r, m). (r, s1\<lparr>ps_mutex := m\<rparr>)) (recursive_lock P debug i (ps_mutex s1))"
  using assms by (simp add: posix_enter_critical_def)

lemma enter_ok:
  assumes "posix_ensure_init P debug s = (Ok (), s1)" and "rc_lock P i (ps_mutex s1) = Some (0, m')"
  shows "posix_enter_critical P debug i s = Some (Ok (), s1\<lparr>ps_mutex := m'\<rparr>)"
  using assms by (simp add: enter_by recursive_lock_def assert_rc_def)

lemma posix_exclusion:
  "nested_exclusion (posix_enter_critical P debug) (posix_critical_guard_drop P debug) system_holder system_ok max_depth"
proof
  fix s :: "'m posix_system" and i j d
  assume ok: "system_ok s"
  then obtain s1 where s1: "posix_ensure_init P debug s = (Ok (), s1)" "ps_once s1" "made (ps_mutex s1)"
    "owner (ps_mutex s1) = system_holder s" using ensured by blast
  note e = enter_by [OF s1(1), of i]
  show "\<exists>s'. posix_enter_critical P debug i s = Some (Ok (), s') \<and> system_ok s' \<and> system_holder s' = Some (i, 1)"
    if none: "system_holder s = None"
  proof -
    obtain m' where m': "rc_lock P i (ps_mutex s1) = Some (0, m')" "made m'" "owner m' = Some (i, 1)"
      using lock_free [OF s1(3), of i] none s1(4) by auto
    then show ?thesis using enter_ok [OF s1(1) m'(1)] s1(2) by (simp add: system_ok_def system_holder_def)
  qed
  show "\<exists>s'. posix_enter_critical P debug i s = Some (Ok (), s') \<and> system_ok s' \<and> system_holder s' = Some (i, Suc d)"
    if held: "system_holder s = Some (i, d)" "d < max_depth"
  proof -
    obtain m' where m': "rc_lock P i (ps_mutex s1) = Some (0, m')" "made m'" "owner m' = Some (i, Suc d)"
      using lock_again [OF s1(3), of i d] held s1(4) by auto
    then show ?thesis using enter_ok [OF s1(1) m'(1)] s1(2) by (simp add: system_ok_def system_holder_def)
  qed
  show "posix_enter_critical P debug i s = None" if "system_holder s = Some (j, d)" "i \<noteq> j"
    using lock_held [OF s1(3), of j d i] that s1(4) by (simp add: e recursive_lock_def)
  show "\<exists>s'. posix_critical_guard_drop P debug i s = (Ok (), s') \<and> system_ok s'
      \<and> system_holder s' = (if d = 0 then None else Some (i, d))" if "system_holder s = Some (i, Suc d)"
    using unlock [of "ps_mutex s" i d] that ok
    by (fastforce simp: posix_critical_guard_drop_def on_mutex_def recursive_unlock_def assert_rc_def system_holder_def
        system_ok_def split: if_splits)
qed (rule depth)

text \<open>A guard that thread \<open>i\<close> hands to thread \<open>j\<close>.\<close>

lemma sent_guard:
  fixes debug :: bool
  assumes "i \<noteq> j" and "system_ok s0" and "system_holder s0 = None"
  defines "step \<equiv> guard_step (posix_enter_critical P debug) (posix_critical_guard_drop P debug) True max_depth"
  shows "\<exists>s both. step\<^sup>*\<^sup>* (s0, \<lambda>_. 0) (both, (\<lambda>_. 0)(i := 1, j := 1)) \<and> step\<^sup>*\<^sup>* (s0, \<lambda>_. 0) (s, (\<lambda>_. 0)(j := 1))
    \<and> posix_critical_guard_drop P debug j s = (if debug then Panic ''pthread_mutex_unlock failed'' else Ok (), s)
    \<and> (\<forall>k. k \<noteq> i \<longrightarrow> posix_enter_critical P debug k s = None)"
proof -
  note px = posix_exclusion [of debug]
  obtain s where s: "posix_enter_critical P debug i s0 = Some (Ok (), s)" "system_ok s" "system_holder s = Some (i, 1)"
    using nested_exclusion.enter_free [OF px assms(2,3)] by blast
  obtain both where both: "posix_enter_critical P debug i s = Some (Ok (), both)"
    using nested_exclusion.enter_nested [OF px s(2,3)] depth by fastforce
  have blocks: "posix_enter_critical P debug k s = None" if "k \<noteq> i" for k
    using nested_exclusion.enter_blocks [OF px s(2,3)] that by blast
  have "ps_once s" "made (ps_mutex s)" "owner (ps_mutex s) = Some (i, 1)"
    using s(2,3) by (auto simp: system_ok_def system_holder_def split: if_splits)
  then have drop: "posix_critical_guard_drop P debug j s = (if debug then Panic ''pthread_mutex_unlock failed'' else Ok (), s)"
    using unlock_other [of "ps_mutex s" i 1 j] assms(1)
    by (auto simp: posix_critical_guard_drop_def on_mutex_def recursive_unlock_def assert_rc_def)
  have "step (s0, \<lambda>_. 0) (s, (\<lambda>_. 0)(i := Suc ((\<lambda>_. 0) i)))"
    unfolding step_def by (rule guard_step.enter) (use s(1) depth in simp_all)
  then have "step (s0, \<lambda>_. 0) (s, (\<lambda>_. 0)(i := 1))" by simp
  moreover have "step (s, (\<lambda>_. 0)(i := 1)) (s, (\<lambda>_. 0)(j := 1))"
  proof -
    have z: "((\<lambda>_. 0::nat)(i := 1))(i := 0, j := 1) = (\<lambda>_. 0)(j := 1)" using assms(1) by auto
    show ?thesis
      using guard_step.send [where g = "(\<lambda>_. 0)(i := 1)" and i = i and j = j and sendable = True] assms(1) z
      by (simp add: step_def)
  qed
  ultimately have sent: "step\<^sup>*\<^sup>* (s0, \<lambda>_. 0) (s, (\<lambda>_. 0)(j := 1))" by simp
  moreover have "step (s, (\<lambda>_. 0)(j := 1)) (both, (\<lambda>_. 0)(i := 1, j := 1))"
    using guard_step.enter [where g = "(\<lambda>_. 0)(j := 1)" and i = i and limit = max_depth and s = s and s' = both
        and enter = "posix_enter_critical P debug", OF _ both] assms(1) depth
    by (simp add: step_def fun_upd_twist)
  ultimately show ?thesis using drop blocks by (meson rtranclp.rtrancl_into_rtrancl)
qed

end

text \<open>A recursive mutex that counts.\<close>

definition host_recursive :: "(bool \<times> (nat \<times> nat) option) recursive_calls" where
  "host_recursive = \<lparr>rc_attr_init = 0, rc_attr_settype = 0, rc_attr_destroy = 0,
     rc_mutex_init = (\<lambda>_. (0, (True, None))),
     rc_lock = (\<lambda>i (b, h). case h of
         None \<Rightarrow> Some (0, (b, Some (i, 1)))
       | Some (j, d) \<Rightarrow> if i = j then (if d < 1000 then Some (0, (b, Some (i, Suc d))) else Some (11, (b, h))) else None),
     rc_unlock = (\<lambda>i (b, h). case h of
         None \<Rightarrow> (1, (b, h))
       | Some (j, d) \<Rightarrow> if i = j then (0, (b, if d \<le> 1 then None else Some (j, d - 1))) else (1, (b, h)))\<rparr>"

interpretation hostrec: recursive_pthread host_recursive snd fst 1000
  by unfold_locales (auto simp: host_recursive_def)

text \<open>C14. Critical sections of the POSIX backend exclude each other and nest, as long as every guard is dropped by the
  thread that entered: whatever guards any number of threads take and drop, only one thread holds any, no other thread
  can enter meanwhile, dropping a guard that is held never fails, and a thread can enter when no other one holds a
  guard. This holds for every recursive mutex of the standard, up to the depth it supports, in debug and in release builds.\<close>

theorem critical_sections_exclude:
  assumes "recursive_pthread P owner made max_depth"
    and "(guard_step (posix_enter_critical P debug) (posix_critical_guard_drop P debug) False max_depth)\<^sup>*\<^sup>*
      (\<lparr>ps_once = False, ps_mutex = m\<rparr>, \<lambda>_. 0) (s, g)"
  shows "(\<forall>i j. 0 < g i \<longrightarrow> 0 < g j \<longrightarrow> i = j) \<and> (\<forall>i. 0 < g i \<longrightarrow> fst (posix_critical_guard_drop P debug i s) = Ok ())
    \<and> (\<forall>i j. 0 < g j \<longrightarrow> j \<noteq> i \<longrightarrow> posix_enter_critical P debug i s = None)
    \<and> (\<forall>i. (\<forall>j. j \<noteq> i \<longrightarrow> g j = 0) \<and> g i < max_depth \<longrightarrow> (\<exists>s'. posix_enter_critical P debug i s = Some (Ok (), s')))"
  by (rule nested_exclusion.exclusion [OF recursive_pthread.posix_exclusion [OF assms(1), of debug] _ _ assms(2)])
    (simp_all add: recursive_pthread.system_ok_def [OF assms(1)] recursive_pthread.system_holder_def [OF assms(1)])

definition host_system_at :: "nat \<Rightarrow> (bool \<times> (nat \<times> nat) option) posix_system" where
  "host_system_at n = \<lparr>ps_once = True, ps_mutex = (True, if n = 0 then None else Some (7, n))\<rparr>"

lemma host_system_enters:
  "posix_enter_critical host_recursive debug 7 \<lparr>ps_once = False, ps_mutex = (False, None)\<rparr> = Some (Ok (), host_system_at 1)"
  "posix_enter_critical host_recursive debug 7 (host_system_at 1) = Some (Ok (), host_system_at 2)"
  by (simp_all add: posix_enter_critical_def posix_ensure_init_def on_mutex_def recursive_init_def recursive_lock_def assert_rc_def
    host_recursive_def host_system_at_def)

theorem critical_sections_exclude_witness:
  "(guard_step (posix_enter_critical host_recursive True) (posix_critical_guard_drop host_recursive True) False 1000)\<^sup>*\<^sup>*
     (\<lparr>ps_once = False, ps_mutex = (False, None)\<rparr>, \<lambda>_. 0) (host_system_at 2, (\<lambda>_. 0)(7 := 2))
   \<and> posix_enter_critical host_recursive True 8 (host_system_at 2) = None"
proof -
  let ?step = "guard_step (posix_enter_critical host_recursive True) (posix_critical_guard_drop host_recursive True) False 1000"
  have "?step (\<lparr>ps_once = False, ps_mutex = (False, None)\<rparr>, \<lambda>_. 0) (host_system_at 1, (\<lambda>_. 0)(7 := Suc ((\<lambda>_. 0) (7 :: nat))))"
    by (rule guard_step.enter) (simp_all add: host_system_enters host_system_enters [unfolded One_nat_def])
  moreover have "?step (host_system_at 1, (\<lambda>_. 0)(7 := Suc 0)) (host_system_at 2, ((\<lambda>_. 0)(7 := Suc 0))(7 := Suc (((\<lambda>_. 0)(7 := Suc 0)) (7 :: nat))))"
    by (rule guard_step.enter) (simp_all add: host_system_enters host_system_enters [unfolded One_nat_def])
  ultimately have reach: "?step\<^sup>*\<^sup>* (\<lparr>ps_once = False, ps_mutex = (False, None)\<rparr>, \<lambda>_. 0) (host_system_at 2, (\<lambda>_. 0)(7 := 2))"
    by (simp add: numeral_2_eq_2)
  have "0 < ((\<lambda>_. 0)(7 := 2 :: nat)) (7 :: nat)" by simp
  then have "posix_enter_critical host_recursive True 8 (host_system_at 2) = None"
    using critical_sections_exclude [OF hostrec.recursive_pthread_axioms reach]
    by (metis (no_types, lifting) numeral_eq_iff semiring_norm(88))
  then show ?thesis using reach by blast
qed

text \<open>C40. A critical-section guard of the POSIX backend can be sent to another thread, which breaks the section: both threads
  can then hold a guard at once, and when the receiver drops the guard, the unlock fails (a panic of a debug build,
  unnoticed in a release build), every guard is gone, and every thread but the first blocks in \<open>enter_critical\<close>.\<close>

theorem posix_sent_guard_breaks_section:
  assumes "recursive_pthread P owner made max_depth" and "i \<noteq> j"
  shows "\<exists>s both. (guard_step (posix_enter_critical P debug) (posix_critical_guard_drop P debug) True max_depth)\<^sup>*\<^sup>*
      (\<lparr>ps_once = False, ps_mutex = m\<rparr>, \<lambda>_. 0) (both, (\<lambda>_. 0)(i := 1, j := 1))
    \<and> (guard_step (posix_enter_critical P debug) (posix_critical_guard_drop P debug) True max_depth)\<^sup>*\<^sup>*
      (\<lparr>ps_once = False, ps_mutex = m\<rparr>, \<lambda>_. 0) (s, (\<lambda>_. 0)(j := 1))
    \<and> posix_critical_guard_drop P debug j s = (if debug then Panic ''pthread_mutex_unlock failed'' else Ok (), s)
    \<and> (\<forall>k. k \<noteq> i \<longrightarrow> posix_enter_critical P debug k s = None)"
  using recursive_pthread.sent_guard [OF assms(1,2), of "\<lparr>ps_once = False, ps_mutex = m\<rparr>" debug]
  by (simp add: recursive_pthread.system_ok_def [OF assms(1)] recursive_pthread.system_holder_def [OF assms(1)])

theorem posix_sent_guard_breaks_section_witness:
  "\<exists>s. (guard_step (posix_enter_critical host_recursive False) (posix_critical_guard_drop host_recursive False) True 1000)\<^sup>*\<^sup>*
      (\<lparr>ps_once = False, ps_mutex = (False, None)\<rparr>, \<lambda>_. 0) (s, (\<lambda>_. 0)(4 := 1))
    \<and> posix_critical_guard_drop host_recursive False 4 s = (Ok (), s) \<and> posix_enter_critical host_recursive False 4 s = None"
  using posix_sent_guard_breaks_section [OF hostrec.recursive_pthread_axioms, of 3 4 False "(False, None)"] by auto

text \<open>The system contracts of the test kit and the system demo succeed on the fixture and on POSIX and leave no section open.\<close>

lemma rtos_system_contracts:
  assumes "as = system_contracts \<or> as = system_demo" and "cf_depth s = 0"
  shows "\<exists>s'. crit_run (rtos_enter_critical fixture_critical_calls) (rtos_critical_guard_drop fixture_critical_calls) i as s
    = Some (Ok (), s') \<and> cf_depth s' = 0"
  using rtoscrit.system_runs [OF _ assms(1), of s i] assms(2) by (simp add: unat_eq_0)

lemma posix_system_contracts:
  assumes "recursive_pthread P owner made max_depth" and "as = system_contracts \<or> as = system_demo"
  shows "\<exists>s'. crit_run (posix_enter_critical P debug) (posix_critical_guard_drop P debug) i as \<lparr>ps_once = False, ps_mutex = m\<rparr> = Some (Ok (), s')"
proof -
  note px = recursive_pthread.posix_exclusion [OF assms(1), of debug]
  have "nested_exclusion.at_depth (recursive_pthread.system_holder owner) (recursive_pthread.system_ok made) i 0 \<lparr>ps_once = False, ps_mutex = m\<rparr>"
    by (simp add: nested_exclusion.at_depth_def [OF px] recursive_pthread.system_ok_def [OF assms(1)]
      recursive_pthread.system_holder_def [OF assms(1)])
  from nested_sections.system_runs [OF nested_exclusion.sections [OF px] this assms(2)] show ?thesis by blast
qed

end
