(* ===== verification/Fixture_Virtual.thy ===== *)
theory Fixture_Virtual
  imports Task_Fixture
begin

text \<open>
  The rest of the FreeRTOS host fixture (src/crates/osal-backend-freertos-sys/src): the virtual wait mode, in which time
  passes only when a test advances it (sync\_fixture.rs), and the controls of the module \<open>fixture\<close> of lib.rs. A
  condition-variable wait is an argument, as in the realtime mode: whether it timed out after the wall-clock
  watchdog, and what other threads did meanwhile.
\<close>

section \<open>State\<close>

datatype wait_mode = Realtime | Virtual

text \<open>The statics of lib.rs and sync\_fixture.rs around the fixture state.\<close>

record virtual_fixture =
  vx_fixture :: fixture
  vx_wait_mode :: u8
  vx_generation :: u64
  vx_blocked :: u64
  vx_scheduler :: u32
  vx_heap_free :: u64
  vx_critical_depth :: u64
  vx_max_finite_delay :: u64

definition wait_mode_realtime :: u8 where "wait_mode_realtime = 0"

definition wait_mode_virtual :: u8 where "wait_mode_virtual = 1"

definition sync_set_wait_mode :: "wait_mode \<Rightarrow> virtual_fixture \<Rightarrow> virtual_fixture" where
  "sync_set_wait_mode mode v =
     v\<lparr>vx_wait_mode := (case mode of Realtime \<Rightarrow> wait_mode_realtime | Virtual \<Rightarrow> wait_mode_virtual)\<rparr>"

definition sync_wait_mode :: "virtual_fixture \<Rightarrow> wait_mode" where
  "sync_wait_mode v = (if vx_wait_mode v = wait_mode_virtual then Virtual else Realtime)"

definition on_fixture :: "(fixture \<Rightarrow> fixture) \<Rightarrow> virtual_fixture \<Rightarrow> virtual_fixture" where
  "on_fixture f v = v\<lparr>vx_fixture := f (vx_fixture v)\<rparr>"

section \<open>Virtual time\<close>

definition tick_generation_inc :: "virtual_fixture \<Rightarrow> virtual_fixture" where
  "tick_generation_inc v = v\<lparr>vx_generation := vx_generation v + 1\<rparr>"

definition advance_ticks_and_notify :: "u64 \<Rightarrow> virtual_fixture \<Rightarrow> unit res \<times> virtual_fixture" where
  "advance_ticks_and_notify ticks v =
     (case advance_virtual_ticks ticks (vx_fixture v) of
        None \<Rightarrow> (Panic ''fixture overflow count overflowed u64'', v)
      | Some fx \<Rightarrow> (Ok (), tick_generation_inc (v\<lparr>vx_fixture := fx\<rparr>)))"

definition sync_notify_all :: "virtual_fixture \<Rightarrow> virtual_fixture" where
  "sync_notify_all v = tick_generation_inc v"

text \<open>The product and the sum are on \<open>u128\<close>, where they cannot overflow.\<close>

definition monotonic_virtual_ticks :: "virtual_fixture \<Rightarrow> nat" where
  "monotonic_virtual_ticks v =
     (let fx = vx_fixture v; modulus = 2 ^ unat (fx_tick_bits fx)
      in unat (fx_tick_overflow fx) * modulus + unat (fx_tick_count fx))"

text \<open>\<open>delay_ticks\<close> in both modes.\<close>

definition delay_ticks :: "u64 \<Rightarrow> virtual_fixture \<Rightarrow> delay_status res \<times> virtual_fixture" where
  "delay_ticks ticks v =
     (if sync_wait_mode v = Virtual
      then st_bind (advance_ticks_and_notify ticks v) (\<lambda>_ v1. (Ok DelayOk, v1))
      else (case fixture_delay_ticks ticks (vx_fixture v) of
              Ok (s, fx) \<Rightarrow> (Ok s, v\<lparr>vx_fixture := fx\<rparr>)
            | Err e \<Rightarrow> (Err e, v)
            | Panic m \<Rightarrow> (Panic m, v)))"

section \<open>Waiting for a semaphore\<close>

type_synonym virtual_wait = "bool \<times> (virtual_fixture \<Rightarrow> virtual_fixture)"

definition virtual_block :: "nat \<Rightarrow> fixture_semaphore \<Rightarrow> virtual_fixture \<Rightarrow> virtual_fixture" where
  "virtual_block i e v =
     (on_fixture (set_sem i (e\<lparr>fs_waiters := fs_waiters e + 1, fs_blocked_count := fs_blocked_count e + 1\<rparr>)) v)
       \<lparr>vx_blocked := vx_blocked v + 1\<rparr>"

definition virtual_unblock :: "nat \<Rightarrow> fixture_semaphore \<Rightarrow> virtual_fixture \<Rightarrow> virtual_fixture" where
  "virtual_unblock i e v =
     (on_fixture (set_sem i (e\<lparr>fs_blocked_count := fs_blocked_count e - 1, fs_waiters := fs_waiters e - 1\<rparr>)) v)
       \<lparr>vx_blocked := vx_blocked v - 1\<rparr>"

fun virtual_take_loop ::
  "nat \<Rightarrow> nat \<Rightarrow> virtual_wait list \<Rightarrow> virtual_fixture \<Rightarrow> (take_status res \<times> virtual_fixture) option" where
  "virtual_take_loop i deadline ws v =
     (case fx_semaphores (vx_fixture v) i of
        None \<Rightarrow> Some (Panic ''semaphore not found'', v)
      | Some e \<Rightarrow>
          if fs_deleted e then Some (Ok TakeInvalid, v)
          else if fs_count e > 0 then
            Some (Ok TakeAcquired, on_fixture (set_sem i (e\<lparr>fs_count := fs_count e - 1\<rparr>)) v)
          else if monotonic_virtual_ticks v \<ge> deadline then Some (Ok TakeTimeout, v)
          else
            (case ws of
               [] \<Rightarrow> None
             | (timed_out, other) # ws' \<Rightarrow>
                 let v1 = other (virtual_block i e v) in
                 (case fx_semaphores (vx_fixture v1) i of
                    None \<Rightarrow> Some (Panic ''semaphore not found'', v1\<lparr>vx_blocked := vx_blocked v1 - 1\<rparr>)
                  | Some e1 \<Rightarrow>
                      let v2 = virtual_unblock i e1 v1 in
                      if timed_out \<and> monotonic_virtual_ticks v2 < deadline \<and> fs_count e1 = 0
                         \<and> vx_generation v2 = vx_generation v
                      then Some (Panic ''virtual semaphore wait stalled'', v2)
                      else virtual_take_loop i deadline ws' v2)))"

declare virtual_take_loop.simps [simp del]

definition semaphore_take_virtual ::
  "nat \<Rightarrow> u64 \<Rightarrow> virtual_wait list \<Rightarrow> virtual_fixture \<Rightarrow> (take_status res \<times> virtual_fixture) option" where
  "semaphore_take_virtual i ticks ws v =
     (let v1 = on_fixture (\<lambda>fx. fx\<lparr>fx_take_call_ticks := fx_take_call_ticks fx @ [ticks]\<rparr>) v in
      if ticks = 0 then
        (case fx_semaphores (vx_fixture v1) i of
           None \<Rightarrow> Some (Panic ''semaphore not found'', v1)
         | Some e \<Rightarrow>
             if fs_deleted e then Some (Ok TakeInvalid, v1)
             else if fs_count e > 0 then
               Some (Ok TakeAcquired, on_fixture (set_sem i (e\<lparr>fs_count := fs_count e - 1\<rparr>)) v1)
             else Some (Ok TakeTimeout, v1))
      else
        (case checked_add u128_max (monotonic_virtual_ticks v) (unat ticks) of
           None \<Rightarrow> Some (Panic ''fixture virtual deadline overflow'', v)
         | Some deadline \<Rightarrow> virtual_take_loop i deadline ws v1))"

section \<open>Controls (the module fixture of lib.rs)\<close>

definition sync_reset :: "virtual_fixture \<Rightarrow> unit res \<times> virtual_fixture" where
  "sync_reset v =
     (let v1 = (sync_set_wait_mode Realtime v)\<lparr>vx_generation := 0\<rparr>;
          v2 = on_fixture (\<lambda>fx. fx\<lparr>fx_fail_next_mutex_create := False, fx_fail_next_sem_create := False,
                 fx_max_finite_wait := 2 ^ 32 - 2\<rparr>) v1
      in if vx_blocked v2 \<noteq> 0 then (Panic ''sync_reset: thread(s) still blocked in Condvar'', v2)
         else (Ok (), on_fixture (\<lambda>fx. fx\<lparr>fx_mutexes := Map.empty, fx_semaphores := Map.empty, fx_next_id := 1,
                 fx_mutex_create_count := 0, fx_mutex_delete_count := 0, fx_sem_create_count := 0,
                 fx_sem_delete_count := 0, fx_take_call_ticks := [], fx_give_call_count := 0\<rparr>) v2))"

text \<open>\<open>reset\<close>. Resetting the task fixture first notifies the waiters and joins the threads; what these do to the
  synchronisation objects until they have ended is the argument \<open>joined\<close>.\<close>

definition fixture_reset ::
  "(virtual_fixture \<Rightarrow> virtual_fixture) \<Rightarrow> virtual_fixture \<times> task_fixture \<Rightarrow> unit res \<times> virtual_fixture \<times> task_fixture" where
  "fixture_reset joined = (\<lambda>(v, tf).
     let v1 = (on_fixture (\<lambda>fx. fx\<lparr>fx_tick_overflow := 0, fx_tick_count := 0, fx_tick_bits := 32\<rparr>) v)
            \<lparr>vx_scheduler := 1, vx_heap_free := 65536, vx_critical_depth := 0, vx_max_finite_delay := 2 ^ 32 - 2\<rparr>;
          v2 = joined (sync_notify_all v1)
      in case task_fixture_reset tf of
           (Panic m, tf1) \<Rightarrow> (Panic m, v2, tf1)
         | (Err e, tf1) \<Rightarrow> (Err e, v2, tf1)
         | (Ok _, tf1) \<Rightarrow> (case sync_reset v2 of (r, v3) \<Rightarrow> (r, v3, tf1)))"

definition set_tick_snapshot :: "u64 \<Rightarrow> u64 \<Rightarrow> virtual_fixture \<Rightarrow> virtual_fixture" where
  "set_tick_snapshot overflow count v =
     tick_generation_inc (on_fixture (\<lambda>fx. fx\<lparr>fx_tick_overflow := overflow, fx_tick_count := count\<rparr>) v)"

definition set_tick_bits :: "u8 \<Rightarrow> virtual_fixture \<Rightarrow> unit res \<times> virtual_fixture" where
  "set_tick_bits bits v =
     (if \<not> (bits = 16 \<or> bits = 32 \<or> bits = 64) then (Panic ''tick_bits must be 16, 32, or 64'', v)
      else (Ok (), on_fixture (\<lambda>fx. fx\<lparr>fx_tick_bits := bits\<rparr>) v))"

definition set_max_finite_delay_ticks :: "u64 \<Rightarrow> virtual_fixture \<Rightarrow> unit res \<times> virtual_fixture" where
  "set_max_finite_delay_ticks value v =
     (if value < 2 then (Panic ''max_finite_delay_ticks must be at least 2'', v)
      else (Ok (), v\<lparr>vx_max_finite_delay := value\<rparr>))"

definition sync_set_max_finite_wait_ticks :: "u64 \<Rightarrow> virtual_fixture \<Rightarrow> unit res \<times> virtual_fixture" where
  "sync_set_max_finite_wait_ticks ticks v =
     (if ticks < 2 then (Panic ''max_finite_wait_ticks must be >= 2'', v)
      else (Ok (), on_fixture (\<lambda>fx. fx\<lparr>fx_max_finite_wait := ticks\<rparr>) v))"

definition set_scheduler_state :: "scheduler_state \<Rightarrow> virtual_fixture \<Rightarrow> virtual_fixture" where
  "set_scheduler_state s v =
     v\<lparr>vx_scheduler := (case s of SchedNotStarted \<Rightarrow> 0 | SchedRunning \<Rightarrow> 1 | SchedSuspended \<Rightarrow> 2 | SchedUnknown x \<Rightarrow> x)\<rparr>"

definition read_scheduler_state_fixture :: "virtual_fixture \<Rightarrow> scheduler_state" where
  "read_scheduler_state_fixture v = scheduler_state_from_raw (vx_scheduler v)"

definition set_heap_free :: "u64 \<Rightarrow> virtual_fixture \<Rightarrow> virtual_fixture" where
  "set_heap_free bytes v = v\<lparr>vx_heap_free := bytes\<rparr>"

definition sync_set_fail_next_mutex_create :: "bool \<Rightarrow> virtual_fixture \<Rightarrow> virtual_fixture" where
  "sync_set_fail_next_mutex_create fail = on_fixture (\<lambda>fx. fx\<lparr>fx_fail_next_mutex_create := fail\<rparr>)"

definition sync_set_fail_next_semaphore_create :: "bool \<Rightarrow> virtual_fixture \<Rightarrow> virtual_fixture" where
  "sync_set_fail_next_semaphore_create fail = on_fixture (\<lambda>fx. fx\<lparr>fx_fail_next_sem_create := fail\<rparr>)"

definition task_fixture_set_fail_next_event_group_create :: "bool \<Rightarrow> task_fixture \<Rightarrow> task_fixture" where
  "task_fixture_set_fail_next_event_group_create fail tf = tf\<lparr>tf_fail_next_eg_create := fail\<rparr>"

definition task_fixture_set_fail_next_task_create :: "bool \<Rightarrow> task_fixture \<Rightarrow> task_fixture" where
  "task_fixture_set_fail_next_task_create fail tf = tf\<lparr>tf_fail_next_task_create := fail\<rparr>"

definition set_fail_next_internal_task_create :: "bool \<Rightarrow> task_fixture \<Rightarrow> task_fixture" where
  "set_fail_next_internal_task_create fail tf = tf\<lparr>tf_fail_next_internal_task_create := fail\<rparr>"

definition sync_clear_take_call_ticks :: "virtual_fixture \<Rightarrow> virtual_fixture" where
  "sync_clear_take_call_ticks = on_fixture (\<lambda>fx. fx\<lparr>fx_take_call_ticks := []\<rparr>)"

section \<open>Reading back what was set\<close>

lemma wait_mode_roundtrip [simp]: "sync_wait_mode (sync_set_wait_mode m v) = m"
  by (cases m) (simp_all add: sync_wait_mode_def sync_set_wait_mode_def wait_mode_virtual_def wait_mode_realtime_def)

text \<open>A scheduler state reads back as set, unless it is an unknown one with the code of a known one.\<close>

lemma scheduler_state_roundtrip:
  "read_scheduler_state_fixture (set_scheduler_state s v) = s \<longleftrightarrow> s \<notin> {SchedUnknown 0, SchedUnknown 1, SchedUnknown 2}"
  by (cases s) (auto simp: read_scheduler_state_fixture_def set_scheduler_state_def scheduler_state_from_raw_def)

text \<open>A reset succeeds exactly when no thread is left blocked and no task is pending; then every object, counter and
  control is as at the start, provided the threads that were joined left the clock alone.\<close>

definition same_clock :: "fixture \<Rightarrow> fixture \<Rightarrow> bool" where
  "same_clock a b \<longleftrightarrow> fx_tick_overflow a = fx_tick_overflow b \<and> fx_tick_count a = fx_tick_count b \<and> fx_tick_bits a = fx_tick_bits b"

definition joined_ok :: "(virtual_fixture \<Rightarrow> virtual_fixture) \<Rightarrow> bool" where
  "joined_ok joined \<longleftrightarrow> (\<forall>v. same_clock (vx_fixture (joined v)) (vx_fixture v) \<and> vx_scheduler (joined v) = vx_scheduler v
     \<and> vx_blocked (joined v) = 0)"

lemma fixture_reset_initial:
  assumes "joined_ok joined" and "tf_pending_tasks tf = []" and "tf_blocked_count tf = 0"
  shows "\<exists>v' tf'. fixture_reset joined (v, tf) = (Ok (), v', tf') \<and> vx_fixture v' = fixture_initial
    \<and> tf' = task_fixture_initial \<and> sync_wait_mode v' = Realtime \<and> vx_generation v' = 0 \<and> read_scheduler_state_fixture v' = SchedRunning"
proof -
  define v1 where "v1 = (on_fixture (\<lambda>fx. fx\<lparr>fx_tick_overflow := 0, fx_tick_count := 0, fx_tick_bits := 32\<rparr>) v)
    \<lparr>vx_scheduler := 1, vx_heap_free := 65536, vx_critical_depth := 0, vx_max_finite_delay := 2 ^ 32 - 2\<rparr>"
  define v2 where "v2 = joined (sync_notify_all v1)"
  have v2: "vx_blocked v2 = 0" "vx_scheduler v2 = 1" "fx_tick_overflow (vx_fixture v2) = 0" "fx_tick_count (vx_fixture v2) = 0"
    "fx_tick_bits (vx_fixture v2) = 32"
    using assms(1) by (simp_all add: v2_def joined_ok_def same_clock_def sync_notify_all_def tick_generation_inc_def v1_def on_fixture_def)
  have tf: "task_fixture_reset tf = (Ok (), task_fixture_initial)" using assms(2,3)
    by (cases tf) (simp add: task_fixture_reset_def internal_task_fixture_reset_def task_fixture_initial_def Let_def)
  have "\<exists>v'. sync_reset v2 = (Ok (), v') \<and> vx_fixture v' = fixture_initial \<and> sync_wait_mode v' = Realtime \<and> vx_generation v' = 0
      \<and> read_scheduler_state_fixture v' = SchedRunning" using v2
    by (cases "vx_fixture v2") (simp add: sync_reset_def on_fixture_def sync_set_wait_mode_def sync_wait_mode_def fixture_initial_def
      wait_mode_realtime_def wait_mode_virtual_def read_scheduler_state_fixture_def scheduler_state_from_raw_def Let_def)
  then show ?thesis using tf by (auto simp: fixture_reset_def Let_def v1_def v2_def)
qed

lemma fixture_reset_refused:
  assumes "tf_pending_tasks tf \<noteq> [] \<or> tf_blocked_count tf \<noteq> 0 \<or> (\<forall>v. vx_blocked (joined v) \<noteq> 0)"
  shows "\<exists>m s. fixture_reset joined (v, tf) = (Panic m, s)"
  using assms
  by (auto simp: fixture_reset_def task_fixture_reset_def internal_task_fixture_reset_def sync_reset_def sync_set_wait_mode_def
    on_fixture_def Let_def)

section \<open>Virtual waits\<close>

lemma monotonic_is_fixture_ticks: "monotonic_virtual_ticks v = fixture_ticks (vx_fixture v)"
  by (simp add: monotonic_virtual_ticks_def fixture_ticks_def total_ticks_def read_tick_fixture_def Let_def)

text \<open>Advancing moves virtual time by exactly the ticks given and wakes the waiters: the generation changes.\<close>

lemma advance_notifies:
  assumes "fixture_clock_ok (vx_fixture v)"
    and "monotonic_virtual_ticks v + unat n < 2 ^ (64 + unat (fx_tick_bits (vx_fixture v)))"
  shows "\<exists>v'. advance_ticks_and_notify n v = (Ok (), v') \<and> monotonic_virtual_ticks v' = monotonic_virtual_ticks v + unat n
    \<and> vx_generation v' \<noteq> vx_generation v \<and> fx_semaphores (vx_fixture v') = fx_semaphores (vx_fixture v)"
  using advance_virtual_ticks_total [of "vx_fixture v" n] assms
  by (auto simp: monotonic_is_fixture_ticks advance_ticks_and_notify_def tick_generation_inc_def)

lemma unblock_same [simp]:
  "monotonic_virtual_ticks (virtual_unblock i e v) = monotonic_virtual_ticks v"
  "vx_generation (virtual_unblock i e v) = vx_generation v" "vx_generation (virtual_block i e v) = vx_generation v"
  "fx_semaphores (vx_fixture (virtual_unblock i e v)) i \<noteq> None" "fx_semaphores (vx_fixture (virtual_block i e v)) i \<noteq> None"
  by (simp_all add: virtual_unblock_def virtual_block_def on_fixture_def set_sem_def monotonic_virtual_ticks_def Let_def)

text \<open>A virtual wait never times out early, and when it acquires it takes one permit.\<close>

lemma virtual_take_result:
  assumes "virtual_take_loop i deadline ws v = Some (Ok st, v')"
  shows "(st = TakeTimeout \<longrightarrow> deadline \<le> monotonic_virtual_ticks v')
    \<and> (st = TakeAcquired \<longrightarrow> (\<exists>u e. fx_semaphores (vx_fixture u) i = Some e \<and> 0 < fs_count e
          \<and> v' = on_fixture (set_sem i (e\<lparr>fs_count := fs_count e - 1\<rparr>)) u))"
  using assms
proof (induction ws arbitrary: v)
  case Nil
  then show ?case by (subst (asm) virtual_take_loop.simps) (fastforce split: option.splits if_splits)
next
  case (Cons w ws)
  obtain timed_out other where w: "w = (timed_out, other)" by (cases w)
  show ?case
  proof (cases "\<exists>v2. virtual_take_loop i deadline ws v2 = Some (Ok st, v')")
    case True
    then show ?thesis using Cons.IH by blast
  next
    case False
    then show ?thesis using Cons.prems unfolding w
      by (subst (asm) virtual_take_loop.simps) (fastforce simp: Let_def split: option.splits if_splits)
  qed
qed

text \<open>A wait ends without a panic when nobody deletes the semaphore, a wait that the watchdog ends has seen time
  advance, and at some wait virtual time reaches the deadline.\<close>

definition keeps_sem :: "nat \<Rightarrow> virtual_wait \<Rightarrow> bool" where
  "keeps_sem i w \<longleftrightarrow> (\<forall>v. fx_semaphores (vx_fixture v) i \<noteq> None \<longrightarrow> fx_semaphores (vx_fixture (snd w v)) i \<noteq> None)
     \<and> (fst w \<longrightarrow> (\<forall>v. vx_generation (snd w v) \<noteq> vx_generation v))"

definition reaches :: "nat \<Rightarrow> virtual_wait \<Rightarrow> bool" where
  "reaches deadline w \<longleftrightarrow> (\<forall>v. deadline \<le> monotonic_virtual_ticks (snd w v))"

lemma virtual_take_returns:
  assumes "\<forall>w \<in> set ws. keeps_sem i w" and "deadline \<le> monotonic_virtual_ticks v \<or> (\<exists>w \<in> set ws. reaches deadline w)"
    and "fx_semaphores (vx_fixture v) i \<noteq> None"
  shows "\<exists>st v'. virtual_take_loop i deadline ws v = Some (Ok st, v')"
  using assms
proof (induction ws arbitrary: v)
  case Nil
  then show ?case by (subst virtual_take_loop.simps) auto
next
  case (Cons w ws)
  obtain timed_out other where w: "w = (timed_out, other)" by (cases w)
  obtain e where e: "fx_semaphores (vx_fixture v) i = Some e" using Cons.prems(3) by auto
  let ?v1 = "other (virtual_block i e v)"
  have k: "keeps_sem i w" using Cons.prems(1) by simp
  obtain e1 where e1: "fx_semaphores (vx_fixture ?v1) i = Some e1"
    using k unblock_same(5) unfolding keeps_sem_def w by (metis not_None_eq snd_conv)
  have gen: "timed_out \<Longrightarrow> vx_generation ?v1 \<noteq> vx_generation v"
    using k unfolding keeps_sem_def w by (metis fst_conv snd_conv unblock_same(3))
  have "\<exists>st v'. virtual_take_loop i deadline ws (virtual_unblock i e1 ?v1) = Some (Ok st, v')" if "monotonic_virtual_ticks v < deadline"
  proof (rule Cons.IH)
    show "\<forall>w \<in> set ws. keeps_sem i w" using Cons.prems(1) by simp
    show "deadline \<le> monotonic_virtual_ticks (virtual_unblock i e1 ?v1) \<or> (\<exists>w \<in> set ws. reaches deadline w)"
      using Cons.prems(2) that by (auto simp: reaches_def w)
  qed simp
  then show ?case using e e1 gen by (subst virtual_take_loop.simps) (auto simp: w Let_def)
qed

text \<open>Waiting two ticks while another thread advances by one each time.\<close>

lemma virtual_take_returns_witness:
  "\<exists>v'. semaphore_take_virtual 1 2 [(False, \<lambda>v. snd (advance_ticks_and_notify 1 v)), (False, \<lambda>v. snd (advance_ticks_and_notify 1 v))]
     \<lparr>vx_fixture = snd (fixture_counting_semaphore_create 1 0 fixture_initial), vx_wait_mode = 1, vx_generation = 0, vx_blocked = 0,
       vx_scheduler = 1, vx_heap_free = 65536, vx_critical_depth = 0, vx_max_finite_delay = 2 ^ 32 - 2\<rparr>
     = Some (Ok TakeTimeout, v')"
  by (simp add: semaphore_take_virtual_def virtual_take_loop.simps fixture_counting_semaphore_create_def fixture_initial_def
    monotonic_virtual_ticks_def on_fixture_def virtual_block_def virtual_unblock_def set_sem_def advance_ticks_and_notify_def
    advance_virtual_ticks_def tick_generation_inc_def checked_add_def u64_max_def u128_max_def Let_def)

end
