(* ===== verification/Sys_Diag.thy ===== *)
theory Sys_Diag
  imports Osal_Prelude
begin

text \<open>
  The integration diagnostics of osal-backend-freertos-sys (src/lib.rs, module \<open>integration_diag\<close>) and the safe wrappers
  that create and delete kernel objects with these hooks in the firmware. The C functions behind the wrappers are the
  argument \<open>K\<close>: each returns a raw pointer, with \<open>None\<close> for NULL, and the next kernel state.
\<close>

section \<open>The counters\<close>

record sync_diag =
  sd_fail_countdown :: u32
  sd_mutex_create_attempts :: u32
  sd_mutex_create_successes :: u32
  sd_mutex_deletes :: u32
  sd_semaphore_create_attempts :: u32
  sd_semaphore_create_successes :: u32
  sd_semaphore_deletes :: u32

definition sync_diag_initial :: sync_diag where
  "sync_diag_initial = \<lparr>sd_fail_countdown = 0, sd_mutex_create_attempts = 0, sd_mutex_create_successes = 0, sd_mutex_deletes = 0,
     sd_semaphore_create_attempts = 0, sd_semaphore_create_successes = 0, sd_semaphore_deletes = 0\<rparr>"

definition arm_sync_create_failure :: "u32 \<Rightarrow> sync_diag \<Rightarrow> sync_diag" where
  "arm_sync_create_failure n d = d\<lparr>sd_fail_countdown := n\<rparr>"

definition clear_sync_create_failure :: "sync_diag \<Rightarrow> sync_diag" where
  "clear_sync_create_failure d = d\<lparr>sd_fail_countdown := 0\<rparr>"

text \<open>\<open>fetch_update\<close> with \<open>checked_sub(1)\<close>: an error leaves zero in place, success returns the value before.\<close>

definition check_fail :: "sync_diag \<Rightarrow> bool \<times> sync_diag" where
  "check_fail d =
     (let current = sd_fail_countdown d in
      if current = 0 then (False, d) else (current = 1, d\<lparr>sd_fail_countdown := current - 1\<rparr>))"

definition record_mutex_create_attempt :: "sync_diag \<Rightarrow> sync_diag" where
  "record_mutex_create_attempt d = d\<lparr>sd_mutex_create_attempts := sd_mutex_create_attempts d + 1\<rparr>"

definition record_mutex_create_success :: "sync_diag \<Rightarrow> sync_diag" where
  "record_mutex_create_success d = d\<lparr>sd_mutex_create_successes := sd_mutex_create_successes d + 1\<rparr>"

definition record_mutex_delete :: "sync_diag \<Rightarrow> sync_diag" where
  "record_mutex_delete d = d\<lparr>sd_mutex_deletes := sd_mutex_deletes d + 1\<rparr>"

definition record_semaphore_create_attempt :: "sync_diag \<Rightarrow> sync_diag" where
  "record_semaphore_create_attempt d = d\<lparr>sd_semaphore_create_attempts := sd_semaphore_create_attempts d + 1\<rparr>"

definition record_semaphore_create_success :: "sync_diag \<Rightarrow> sync_diag" where
  "record_semaphore_create_success d = d\<lparr>sd_semaphore_create_successes := sd_semaphore_create_successes d + 1\<rparr>"

definition record_semaphore_delete :: "sync_diag \<Rightarrow> sync_diag" where
  "record_semaphore_delete d = d\<lparr>sd_semaphore_deletes := sd_semaphore_deletes d + 1\<rparr>"

section \<open>The wrappers\<close>

record 'k sync_kernel =
  osal_freertos_mutex_create :: "'k \<Rightarrow> nat option \<times> 'k"
  osal_freertos_mutex_delete :: "nat \<Rightarrow> 'k \<Rightarrow> 'k"
  osal_freertos_counting_semaphore_create :: "u32 \<Rightarrow> u32 \<Rightarrow> 'k \<Rightarrow> nat option \<times> 'k"
  osal_freertos_binary_semaphore_create :: "'k \<Rightarrow> nat option \<times> 'k"
  osal_freertos_semaphore_delete :: "nat \<Rightarrow> 'k \<Rightarrow> 'k"

definition diag_mutex_create :: "'k sync_kernel \<Rightarrow> 'k \<times> sync_diag \<Rightarrow> nat option \<times> 'k \<times> sync_diag" where
  "diag_mutex_create K = (\<lambda>(k, d).
     case check_fail (record_mutex_create_attempt d) of
       (True, d1) \<Rightarrow> (None, k, d1)
     | (False, d1) \<Rightarrow>
         (case osal_freertos_mutex_create K k of
            (result, k1) \<Rightarrow> (result, k1, if result \<noteq> None then record_mutex_create_success d1 else d1)))"

definition diag_mutex_delete :: "'k sync_kernel \<Rightarrow> nat \<Rightarrow> 'k \<times> sync_diag \<Rightarrow> 'k \<times> sync_diag" where
  "diag_mutex_delete K handle = (\<lambda>(k, d). (osal_freertos_mutex_delete K handle k, record_mutex_delete d))"

definition diag_counting_semaphore_create ::
  "'k sync_kernel \<Rightarrow> u32 \<Rightarrow> u32 \<Rightarrow> 'k \<times> sync_diag \<Rightarrow> nat option \<times> 'k \<times> sync_diag" where
  "diag_counting_semaphore_create K mx initial = (\<lambda>(k, d).
     case check_fail (record_semaphore_create_attempt d) of
       (True, d1) \<Rightarrow> (None, k, d1)
     | (False, d1) \<Rightarrow>
         (case osal_freertos_counting_semaphore_create K mx initial k of
            (result, k1) \<Rightarrow> (result, k1, if result \<noteq> None then record_semaphore_create_success d1 else d1)))"

definition diag_binary_semaphore_create :: "'k sync_kernel \<Rightarrow> 'k \<times> sync_diag \<Rightarrow> nat option \<times> 'k \<times> sync_diag" where
  "diag_binary_semaphore_create K = (\<lambda>(k, d).
     case check_fail (record_semaphore_create_attempt d) of
       (True, d1) \<Rightarrow> (None, k, d1)
     | (False, d1) \<Rightarrow>
         (case osal_freertos_binary_semaphore_create K k of
            (result, k1) \<Rightarrow> (result, k1, if result \<noteq> None then record_semaphore_create_success d1 else d1)))"

definition diag_semaphore_delete :: "'k sync_kernel \<Rightarrow> nat \<Rightarrow> 'k \<times> sync_diag \<Rightarrow> 'k \<times> sync_diag" where
  "diag_semaphore_delete K handle = (\<lambda>(k, d). (osal_freertos_semaphore_delete K handle k, record_semaphore_delete d))"

lemmas diag_record_defs =
  record_mutex_create_attempt_def record_mutex_create_success_def record_mutex_delete_def
  record_semaphore_create_attempt_def record_semaphore_create_success_def record_semaphore_delete_def

section \<open>Sequences of calls\<close>

text \<open>A run of the wrappers, in the order in which the kernel serialises them, against the same calls made of the
  kernel directly.\<close>

datatype sync_call =
  MutexCreate | CountingCreate u32 u32 | BinaryCreate | MutexDelete nat | SemaphoreDelete nat

fun diag_call :: "'k sync_kernel \<Rightarrow> sync_call \<Rightarrow> 'k \<times> sync_diag \<Rightarrow> nat option \<times> 'k \<times> sync_diag" where
  "diag_call K MutexCreate s = diag_mutex_create K s"
| "diag_call K (CountingCreate mx i) s = diag_counting_semaphore_create K mx i s"
| "diag_call K BinaryCreate s = diag_binary_semaphore_create K s"
| "diag_call K (MutexDelete h) s = (None, diag_mutex_delete K h s)"
| "diag_call K (SemaphoreDelete h) s = (None, diag_semaphore_delete K h s)"

fun kernel_call :: "'k sync_kernel \<Rightarrow> sync_call \<Rightarrow> 'k \<Rightarrow> nat option \<times> 'k" where
  "kernel_call K MutexCreate k = osal_freertos_mutex_create K k"
| "kernel_call K (CountingCreate mx i) k = osal_freertos_counting_semaphore_create K mx i k"
| "kernel_call K BinaryCreate k = osal_freertos_binary_semaphore_create K k"
| "kernel_call K (MutexDelete h) k = (None, osal_freertos_mutex_delete K h k)"
| "kernel_call K (SemaphoreDelete h) k = (None, osal_freertos_semaphore_delete K h k)"

fun creates :: "sync_call \<Rightarrow> bool" where
  "creates (MutexDelete h) = False"
| "creates (SemaphoreDelete h) = False"
| "creates _ = True"

fun diag_calls :: "'k sync_kernel \<Rightarrow> sync_call list \<Rightarrow> 'k \<times> sync_diag \<Rightarrow> nat option list \<times> 'k \<times> sync_diag" where
  "diag_calls K [] s = ([], s)"
| "diag_calls K (c # cs) s = (case diag_call K c s of (r, s1) \<Rightarrow> (case diag_calls K cs s1 of (rs, s2) \<Rightarrow> (r # rs, s2)))"

text \<open>The reference: the kernel makes every call, except that the creation counted down to fails without reaching it.\<close>

fun kernel_calls :: "'k sync_kernel \<Rightarrow> nat \<Rightarrow> sync_call list \<Rightarrow> 'k \<Rightarrow> nat option list \<times> 'k" where
  "kernel_calls K n [] k = ([], k)"
| "kernel_calls K n (c # cs) k =
     (if creates c \<and> n = 1 then (case kernel_calls K 0 cs k of (rs, k2) \<Rightarrow> (None # rs, k2))
      else (case kernel_call K c k of (r, k1) \<Rightarrow>
        (case kernel_calls K (if creates c then n - 1 else n) cs k1 of (rs, k2) \<Rightarrow> (r # rs, k2))))"

section \<open>Fault injection hits exactly the armed creation\<close>

lemma check_fail_split:
  "check_fail d = (unat (sd_fail_countdown d) = 1, d\<lparr>sd_fail_countdown := of_nat (unat (sd_fail_countdown d) - 1)\<rparr>)"
proof (cases "sd_fail_countdown d = 0")
  case False
  then have "unat (sd_fail_countdown d) \<ge> 1" by (metis One_nat_def Suc_leI unat_gt_0)
  then have "(of_nat (unat (sd_fail_countdown d) - 1) :: u32) = sd_fail_countdown d - 1" by (simp add: of_nat_diff)
  moreover have "sd_fail_countdown d = 1 \<longleftrightarrow> unat (sd_fail_countdown d) = 1" by (metis unsigned_1 unsigned_word_eqI)
  ultimately show ?thesis using False by (simp add: check_fail_def Let_def)
qed (cases d; simp add: check_fail_def)

lemma diag_call_kernel:
  assumes "diag_call K c (k, d) = (r, k1, d1)"
  shows "(if creates c \<and> unat (sd_fail_countdown d) = 1 then r = None \<and> k1 = k else kernel_call K c k = (r, k1))
    \<and> unat (sd_fail_countdown d1) = unat (sd_fail_countdown d) - (if creates c then 1 else 0)"
proof -
  have cd: "unat (of_nat (unat x - Suc 0) :: u32) = unat x - Suc 0" for x :: u32
    using unsigned_less [of x, where ?'a = nat] by (simp add: unsigned_of_nat take_bit_nat_eq_self)
  show ?thesis using assms
    by (cases c) (auto simp: diag_mutex_create_def diag_counting_semaphore_create_def diag_binary_semaphore_create_def
      diag_mutex_delete_def diag_semaphore_delete_def check_fail_split diag_record_defs cd split: prod.splits bool.splits if_splits)
qed

lemma diag_calls_kernel:
  "diag_calls K cs (k, d) = (rs, k', d') \<Longrightarrow> kernel_calls K (unat (sd_fail_countdown d)) cs k = (rs, k')
    \<and> unat (sd_fail_countdown d') = unat (sd_fail_countdown d) - length (filter creates cs)"
proof (induction cs arbitrary: k d rs)
  case (Cons c cs)
  obtain r k1 d1 where 1: "diag_call K c (k, d) = (r, k1, d1)" by (cases "diag_call K c (k, d)") auto
  obtain rs1 where 2: "diag_calls K cs (k1, d1) = (rs1, k', d')" "rs = r # rs1"
    using Cons.prems 1 by (auto split: prod.splits)
  show ?case using diag_call_kernel [OF 1] Cons.IH [OF 2(1)] 2(2) by (auto split: if_splits prod.splits)
qed simp

lemma kernel_calls_plain:
  assumes "length (filter creates as) < n" "creates c" "n = Suc (length (filter creates as))"
  shows "kernel_calls K n (as @ c # bs) k =
    (let (ra, k1) = kernel_calls K 0 as k; (rb, k2) = kernel_calls K 0 bs k1 in (ra @ None # rb, k2))"
  using assms
proof (induction as arbitrary: k n)
  case Nil
  then show ?case by (simp split: prod.split)
next
  case (Cons a as)
  then show ?case by (cases "creates a") (auto simp: Let_def split: prod.split)
qed

text \<open>After arming \<open>n\<close>, the calls before and after the creation of that number get what the kernel returns, this one
  fails and does not reach the kernel, and the injection is spent.\<close>

theorem armed_creation_fails:
  assumes "creates c" and "Suc (length (filter creates as)) = unat n"
    and "kernel_calls K 0 as k = (ra, k1)" and "kernel_calls K 0 bs k1 = (rb, k2)"
  shows "\<exists>d'. diag_calls K (as @ c # bs) (k, arm_sync_create_failure n d) = (ra @ None # rb, k2, d') \<and> sd_fail_countdown d' = 0"
proof -
  obtain rs k' d' where r: "diag_calls K (as @ c # bs) (k, arm_sync_create_failure n d) = (rs, k', d')"
    by (cases "diag_calls K (as @ c # bs) (k, arm_sync_create_failure n d)") auto
  from diag_calls_kernel [OF r] have "kernel_calls K (unat n) (as @ c # bs) k = (rs, k')" "unat (sd_fail_countdown d') = 0"
    using assms(1,2) by (simp_all add: arm_sync_create_failure_def)
  moreover have "kernel_calls K (unat n) (as @ c # bs) k = (ra @ None # rb, k2)"
    by (subst kernel_calls_plain) (simp_all add: assms flip: assms(2))
  ultimately show ?thesis using r by (auto simp: unat_eq_0)
qed

text \<open>Without an armed failure the hooks are transparent.\<close>

theorem cleared_creation_transparent:
  "diag_calls K cs (k, clear_sync_create_failure d) = (rs, k', d') \<Longrightarrow> kernel_calls K 0 cs k = (rs, k')"
  using diag_calls_kernel by (fastforce simp: clear_sync_create_failure_def)

text \<open>The number of attempts is the number of creations asked for, and the number of successes that of the handles
  returned, modulo the width of the counters.\<close>

definition mutex_creates :: "sync_call \<Rightarrow> bool" where
  "mutex_creates c \<longleftrightarrow> c = MutexCreate"

lemma diag_counts:
  "diag_calls K cs (k, d) = (rs, k', d') \<Longrightarrow>
    sd_mutex_create_attempts d' = sd_mutex_create_attempts d + of_nat (length (filter mutex_creates cs))
    \<and> sd_mutex_create_successes d' + sd_semaphore_create_successes d'
      = sd_mutex_create_successes d + sd_semaphore_create_successes d + of_nat (length (filter (\<lambda>r. r \<noteq> None) rs))
    \<and> sd_mutex_create_attempts d' + sd_semaphore_create_attempts d'
      = sd_mutex_create_attempts d + sd_semaphore_create_attempts d + of_nat (length (filter creates cs))"
proof (induction cs arbitrary: k d rs)
  case (Cons c cs)
  obtain r k1 d1 where 1: "diag_call K c (k, d) = (r, k1, d1)" by (cases "diag_call K c (k, d)") auto
  obtain rs1 where 2: "diag_calls K cs (k1, d1) = (rs1, k', d')" "rs = r # rs1"
    using Cons.prems 1 by (auto split: prod.splits)
  have "sd_mutex_create_attempts d1 = sd_mutex_create_attempts d + of_nat (length (filter mutex_creates [c]))
    \<and> sd_mutex_create_successes d1 + sd_semaphore_create_successes d1
      = sd_mutex_create_successes d + sd_semaphore_create_successes d + of_nat (length (filter (\<lambda>r. r \<noteq> None) [r]))
    \<and> sd_mutex_create_attempts d1 + sd_semaphore_create_attempts d1
      = sd_mutex_create_attempts d + sd_semaphore_create_attempts d + of_nat (length (filter creates [c]))"
    using 1 by (cases c) (auto simp: diag_mutex_create_def diag_counting_semaphore_create_def diag_binary_semaphore_create_def
      diag_mutex_delete_def diag_semaphore_delete_def check_fail_split diag_record_defs mutex_creates_def split: prod.splits bool.splits if_splits)
  then show ?case using Cons.IH [OF 2(1)] 2(2) by (auto simp: algebra_simps)
qed simp

end
