(* ===== verification/Contract_Time.thy ===== *)
theory Contract_Time
  imports Contract_Kit Timer_State
begin

text \<open>
  The clock and timer contracts of the test kit (src/crates/osal-testkit/src/contract/clock.rs and timer.rs) as programs,
  and the locales of the backends that pass them. A timer lives in the world of its backend: the kit gives its
  operations on that world, with a callback that counts its runs. Advancing the clock is an operation of
  deterministic backends only.
\<close>

section \<open>Timers: core contracts (timer.rs)\<close>

record ('w, 't) timer_kit =
  tmk_create :: "duration \<Rightarrow> timer_mode \<Rightarrow> 'w \<Rightarrow> 't res \<times> 'w"
  tmk_clone :: "nat \<Rightarrow> 't arc_heap \<Rightarrow> nat \<times> 't arc_heap"
  tmk_drop :: "'t \<Rightarrow> 'w \<Rightarrow> unit res \<times> 'w"
  tmk_start :: "'t \<Rightarrow> 'w \<Rightarrow> unit res \<times> 'w"
  tmk_stop :: "'t \<Rightarrow> 'w \<Rightarrow> unit res \<times> 'w"
  tmk_reset :: "'t \<Rightarrow> 'w \<Rightarrow> unit res \<times> 'w"
  tmk_change_period :: "'t \<Rightarrow> duration \<Rightarrow> 'w \<Rightarrow> unit res \<times> 'w"
  tmk_fired :: "'t \<Rightarrow> 'w \<Rightarrow> u32 option"
  tmk_advance :: "duration \<Rightarrow> 'w \<Rightarrow> unit res \<times> 'w"

definition from_millis :: "nat \<Rightarrow> duration" where
  "from_millis n = of_nanos (n * 1000000)"

definition with_timer ::
  "('w, 't) timer_kit \<Rightarrow> duration \<Rightarrow> timer_mode \<Rightarrow> ('t \<Rightarrow> 'w \<Rightarrow> unit res \<times> 'w) \<Rightarrow> 'w \<Rightarrow> unit res \<times> 'w" where
  "with_timer F period mode body w =
     st_bind (unwrap (tmk_create F period mode w)) (\<lambda>t w. st_bind (body t w) (\<lambda>_ w. tmk_drop F t w))"

definition zero_period_rejected :: "('w, 't) timer_kit \<Rightarrow> 'w \<Rightarrow> unit res \<times> 'w" where
  "zero_period_rejected F = expect_rejected (tmk_create F duration_zero OneShot) InvalidParameter"

definition created_stopped :: "('w, 't) timer_kit \<Rightarrow> 'w \<Rightarrow> unit res \<times> 'w" where
  "created_stopped F = with_timer F (from_millis 100) OneShot (\<lambda>t w. (Ok (), w))"

definition stop_idempotent :: "('w, 't) timer_kit \<Rightarrow> 'w \<Rightarrow> unit res \<times> 'w" where
  "stop_idempotent F = with_timer F (from_millis 100) OneShot (\<lambda>t w.
     st_bind (unwrap (tmk_stop F t w)) (\<lambda>_ w.
     unwrap (tmk_stop F t w)))"

definition change_period_zero_rejected :: "('w, 't) timer_kit \<Rightarrow> 'w \<Rightarrow> unit res \<times> 'w" where
  "change_period_zero_rejected F = with_timer F (from_millis 100) OneShot (\<lambda>t w.
     st_bind (observe (tmk_change_period F t duration_zero w)) (\<lambda>result w.
     osal_assert (result = Err InvalidParameter) w))"

definition clone_shares_control :: "('w, 't) timer_kit \<Rightarrow> 'w \<Rightarrow> unit res \<times> 'w" where
  "clone_shares_control F = with_handle (tmk_create F (from_millis 100) OneShot) (\<lambda>t1 s.
     st_bind (clone_handle (tmk_clone F) t1 s) (\<lambda>t2 s.
     st_bind (unwrap (at_handle t2 (tmk_stop F) s)) (\<lambda>_ s.
     st_bind (arc_drop (tmk_drop F) t2 s) (\<lambda>_ s.
     arc_drop (tmk_drop F) t1 s))))"

definition drop_clone_preserves :: "('w, 't) timer_kit \<Rightarrow> 'w \<Rightarrow> unit res \<times> 'w" where
  "drop_clone_preserves F = with_handle (tmk_create F (from_millis 100) OneShot) (\<lambda>t1 s.
     st_bind (clone_handle (tmk_clone F) t1 s) (\<lambda>t2 s.
     st_bind (arc_drop (tmk_drop F) t1 s) (\<lambda>_ s.
     st_bind (unwrap (at_handle t2 (tmk_stop F) s)) (\<lambda>_ s.
     arc_drop (tmk_drop F) t2 s))))"

definition run_timer_core_contracts :: "('w, 't) timer_kit \<Rightarrow> 'w \<Rightarrow> unit res \<times> 'w" where
  "run_timer_core_contracts F = run_contracts
     [zero_period_rejected F, created_stopped F, stop_idempotent F, change_period_zero_rejected F,
      clone_shares_control F, drop_clone_preserves F]"

section \<open>Timers: controlled contracts (timer.rs)\<close>

definition oneshot_fires_once :: "('w, 't) timer_kit \<Rightarrow> 'w \<Rightarrow> unit res \<times> 'w" where
  "oneshot_fires_once F = with_timer F (from_millis 100) OneShot (\<lambda>t w.
     st_bind (unwrap (tmk_start F t w)) (\<lambda>_ w.
     st_bind (tmk_advance F (from_millis 99) w) (\<lambda>_ w.
     st_bind (osal_assert (tmk_fired F t w = Some 0) w) (\<lambda>_ w.
     st_bind (tmk_advance F (from_millis 1) w) (\<lambda>_ w.
     st_bind (osal_assert (tmk_fired F t w = Some 1) w) (\<lambda>_ w.
     st_bind (tmk_advance F (from_millis 200) w) (\<lambda>_ w.
     osal_assert (tmk_fired F t w = Some 1) w)))))))"

definition periodic_fires_multiple :: "('w, 't) timer_kit \<Rightarrow> 'w \<Rightarrow> unit res \<times> 'w" where
  "periodic_fires_multiple F = with_timer F (from_millis 100) Periodic (\<lambda>t w.
     st_bind (unwrap (tmk_start F t w)) (\<lambda>_ w.
     st_bind (tmk_advance F (from_millis 100) w) (\<lambda>_ w.
     st_bind (osal_assert (tmk_fired F t w = Some 1) w) (\<lambda>_ w.
     st_bind (tmk_advance F (from_millis 100) w) (\<lambda>_ w.
     st_bind (osal_assert (tmk_fired F t w = Some 2) w) (\<lambda>_ w.
     st_bind (tmk_advance F (from_millis 100) w) (\<lambda>_ w.
     osal_assert (case tmk_fired F t w of Some n \<Rightarrow> n \<ge> 3 | None \<Rightarrow> False) w)))))))"

definition stop_prevents_callback :: "('w, 't) timer_kit \<Rightarrow> 'w \<Rightarrow> unit res \<times> 'w" where
  "stop_prevents_callback F = with_timer F (from_millis 100) OneShot (\<lambda>t w.
     st_bind (unwrap (tmk_start F t w)) (\<lambda>_ w.
     st_bind (unwrap (tmk_stop F t w)) (\<lambda>_ w.
     st_bind (tmk_advance F (from_millis 200) w) (\<lambda>_ w.
     osal_assert (tmk_fired F t w = Some 0) w))))"

definition reset_restarts_deadline :: "('w, 't) timer_kit \<Rightarrow> 'w \<Rightarrow> unit res \<times> 'w" where
  "reset_restarts_deadline F = with_timer F (from_millis 100) OneShot (\<lambda>t w.
     st_bind (unwrap (tmk_start F t w)) (\<lambda>_ w.
     st_bind (tmk_advance F (from_millis 50) w) (\<lambda>_ w.
     st_bind (unwrap (tmk_reset F t w)) (\<lambda>_ w.
     st_bind (tmk_advance F (from_millis 60) w) (\<lambda>_ w.
     st_bind (osal_assert (tmk_fired F t w = Some 0) w) (\<lambda>_ w.
     st_bind (tmk_advance F (from_millis 50) w) (\<lambda>_ w.
     osal_assert (tmk_fired F t w = Some 1) w)))))))"

definition missed_expiration_coalesced :: "('w, 't) timer_kit \<Rightarrow> 'w \<Rightarrow> unit res \<times> 'w" where
  "missed_expiration_coalesced F = with_timer F (from_millis 100) Periodic (\<lambda>t w.
     st_bind (unwrap (tmk_start F t w)) (\<lambda>_ w.
     st_bind (tmk_advance F (from_millis 350) w) (\<lambda>_ w.
     osal_assert (tmk_fired F t w = Some 1) w)))"

definition run_timer_controlled_contracts :: "('w, 't) timer_kit \<Rightarrow> 'w \<Rightarrow> unit res \<times> 'w" where
  "run_timer_controlled_contracts F = run_contracts
     [oneshot_fires_once F, periodic_fires_multiple F, stop_prevents_callback F, reset_restarts_deadline F,
      missed_expiration_coalesced F]"

section \<open>Clocks (clock.rs)\<close>

record 'w clock_kit =
  ck_now :: "'w \<Rightarrow> duration \<times> 'w"
  ck_delay :: "duration \<Rightarrow> 'w \<Rightarrow> unit res \<times> 'w"
  ck_advance :: "duration \<Rightarrow> 'w \<Rightarrow> unit res \<times> 'w"

text \<open>The provided method \<open>elapsed\<close> of the trait.\<close>

definition ck_elapsed :: "'w clock_kit \<Rightarrow> duration \<Rightarrow> 'w \<Rightarrow> duration \<times> 'w" where
  "ck_elapsed F start w = (case ck_now F w of (now, w) \<Rightarrow> (dur_saturating_sub now start, w))"

definition now_is_monotonic :: "'w clock_kit \<Rightarrow> 'w \<Rightarrow> unit res \<times> 'w" where
  "now_is_monotonic F w = (case ck_now F w of (a, w) \<Rightarrow> case ck_now F w of (b, w) \<Rightarrow> osal_assert (b \<ge> a) w)"

definition elapsed_is_non_negative :: "'w clock_kit \<Rightarrow> 'w \<Rightarrow> unit res \<times> 'w" where
  "elapsed_is_non_negative F w =
     (case ck_now F w of (start, w) \<Rightarrow> case ck_elapsed F start w of (elapsed, w) \<Rightarrow> osal_assert (elapsed \<ge> duration_zero) w)"

definition delay_zero_returns :: "'w clock_kit \<Rightarrow> 'w \<Rightarrow> unit res \<times> 'w" where
  "delay_zero_returns F w = ck_delay F duration_zero w"

definition delay_waits_at_least_duration :: "'w clock_kit \<Rightarrow> 'w \<Rightarrow> unit res \<times> 'w" where
  "delay_waits_at_least_duration F w =
     (case ck_now F w of (start, w) \<Rightarrow>
      st_bind (ck_delay F (from_millis 1) w) (\<lambda>_ w.
      case ck_elapsed F start w of (elapsed, w) \<Rightarrow> osal_assert (elapsed \<ge> from_millis 1) w))"

definition advance_clock_advances_time :: "'w clock_kit \<Rightarrow> 'w \<Rightarrow> unit res \<times> 'w" where
  "advance_clock_advances_time F w =
     (case ck_now F w of (start, w) \<Rightarrow>
      st_bind (ck_advance F (from_millis 42) w) (\<lambda>_ w.
      case ck_elapsed F start w of (elapsed, w) \<Rightarrow> osal_assert (elapsed \<ge> from_millis 42) w))"

text \<open>The addition of durations panics on overflow.\<close>

definition advance_clock_increases_now :: "'w clock_kit \<Rightarrow> 'w \<Rightarrow> unit res \<times> 'w" where
  "advance_clock_increases_now F w =
     (case ck_now F w of (a, w) \<Rightarrow>
      st_bind (ck_advance F (from_millis 1) w) (\<lambda>_ w.
      case ck_now F w of (b, w) \<Rightarrow>
        (case dur_checked_add a (from_millis 1) of
           None \<Rightarrow> (Panic ''overflow when adding durations'', w)
         | Some c \<Rightarrow> osal_assert (b \<ge> c) w)))"

definition run_clock_basic_contracts :: "'w clock_kit \<Rightarrow> 'w \<Rightarrow> unit res \<times> 'w" where
  "run_clock_basic_contracts F = run_contracts [now_is_monotonic F, elapsed_is_non_negative F, delay_zero_returns F]"

definition run_clock_realtime_contracts :: "'w clock_kit \<Rightarrow> 'w \<Rightarrow> unit res \<times> 'w" where
  "run_clock_realtime_contracts F = run_contracts [delay_waits_at_least_duration F]"

definition run_clock_controlled_contracts :: "'w clock_kit \<Rightarrow> 'w \<Rightarrow> unit res \<times> 'w" where
  "run_clock_controlled_contracts F = run_contracts [advance_clock_advances_time F, advance_clock_increases_now F]"

section \<open>Clocks that pass\<close>

lemma as_nanos_millis: "n < 10 ^ 12 \<Longrightarrow> as_nanos (from_millis n) = n * 1000000"
  by (simp add: from_millis_def duration_limit_eq)

text \<open>Reading the clock does not move it; waiting moves it by at least what was asked for, unless it ends.\<close>

locale clock_backend =
  fixes F :: "'w clock_kit" and good :: "'w \<Rightarrow> bool" and clock :: "'w \<Rightarrow> duration"
  assumes now_reads: "good w \<Longrightarrow> ck_now F w = (t, w') \<Longrightarrow> good w' \<and> clock w \<le> t \<and> t \<le> clock w'"
    and delay_waits: "good w \<Longrightarrow> \<exists>w'. ck_delay F d w = (Ok (), w') \<and> good w' \<and> dur_saturating_add (clock w) d \<le> clock w'"
begin

definition fine :: "('w \<Rightarrow> unit res \<times> 'w) \<Rightarrow> 'w \<Rightarrow> bool" where
  "fine c w \<longleftrightarrow> (\<exists>w'. c w = (Ok (), w') \<and> good w' \<and> clock w \<le> clock w')"

lemma add_ge: "d \<le> dur_saturating_add d e"
  using as_nanos_le [of d] by (simp add: duration_order as_nanos_saturating_add)

lemma fine_run:
  assumes "good w" and "\<And>c w. c \<in> set cs \<Longrightarrow> good w \<Longrightarrow> fine c w"
  shows "fine (run_contracts cs) w"
  using assms
proof (induction cs arbitrary: w)
  case (Cons c cs)
  from Cons.prems obtain w1 where "c w = (Ok (), w1)" "good w1" "clock w \<le> clock w1" by (force simp: fine_def)
  with Cons.IH [of w1] Cons.prems(2) show ?case by (force simp: fine_def)
qed (simp add: fine_def)

lemma two_reads:
  assumes "good w" and "ck_now F w = (a, w1)" and "ck_now F w1 = (b, w2)"
  shows "a \<le> b \<and> good w2 \<and> clock w \<le> clock w2"
  using now_reads [OF assms(1,2)] now_reads [OF _ assms(3)] by (meson order_trans)

lemma basic_contracts: "good w \<Longrightarrow> fine (run_clock_basic_contracts F) w"
  unfolding run_clock_basic_contracts_def
proof (rule fine_run)
  fix c w
  assume c: "c \<in> set [now_is_monotonic F, elapsed_is_non_negative F, delay_zero_returns F]" and w: "good w"
  obtain a w1 b w2 where "ck_now F w = (a, w1)" "ck_now F w1 = (b, w2)" by (metis surj_pair)
  moreover obtain w3 where "ck_delay F duration_zero w = (Ok (), w3)" "good w3" "clock w \<le> clock w3"
    using delay_waits [OF w, of duration_zero] add_ge order_trans by blast
  ultimately show "fine c w"
    using c two_reads [OF w]
    by (auto simp: fine_def now_is_monotonic_def elapsed_is_non_negative_def delay_zero_returns_def ck_elapsed_def osal_assert_def)
qed

text \<open>A wait of \<open>d\<close> between two readings of the clock.\<close>

lemma wait_between:
  assumes "good w" and "ck_now F w = (a, w1)" and "ck_delay F d w1 = (r, w2)" and "ck_now F w2 = (b, w3)"
    and "as_nanos (clock w1) + as_nanos d < duration_limit"
  shows "r = Ok () \<and> good w3 \<and> clock w \<le> clock w3 \<and> as_nanos a + as_nanos d \<le> as_nanos b"
proof -
  have 1: "good w1" "clock w \<le> a" "a \<le> clock w1" using now_reads [OF assms(1,2)] by auto
  have 2: "r = Ok ()" "good w2" "dur_saturating_add (clock w1) d \<le> clock w2" using delay_waits [OF 1(1), of d] assms(3) by auto
  have 3: "good w3" "clock w2 \<le> b" "b \<le> clock w3" using now_reads [OF 2(2) assms(4)] by auto
  show ?thesis using 1 2 3 assms(5) by (auto simp: duration_order as_nanos_saturating_add)
qed

text \<open>The delay contract of real-time clocks, away from the end of the clock.\<close>

lemma realtime_contracts:
  assumes "good w" and "\<And>t w'. ck_now F w = (t, w') \<Longrightarrow> as_nanos (clock w') + 1000000 < duration_limit"
  shows "fine (run_clock_realtime_contracts F) w"
proof -
  obtain a w1 r w2 b w3 where s: "ck_now F w = (a, w1)" "ck_delay F (from_millis 1) w1 = (r, w2)" "ck_now F w2 = (b, w3)"
    by (metis surj_pair)
  have "as_nanos (clock w1) + as_nanos (from_millis 1) < duration_limit" using assms(2) s(1) by (simp add: as_nanos_millis)
  from wait_between [OF assms(1) s this] show ?thesis using s
    by (auto simp: fine_def run_clock_realtime_contracts_def delay_waits_at_least_duration_def ck_elapsed_def osal_assert_def
      duration_order as_nanos_millis)
qed

end

text \<open>A clock that a test advances behaves as its delay does.\<close>

locale controlled_clock = clock_backend F good clock for F :: "'w clock_kit" and good clock +
  assumes advance_delay: "ck_advance F = ck_delay F"
    and still: "good w \<Longrightarrow> ck_now F w = (t, w') \<Longrightarrow> clock w' = clock w"
    and exact: "good w \<Longrightarrow> ck_delay F d w = (r, w') \<Longrightarrow> clock w' = dur_saturating_add (clock w) d"
begin

lemma basic_still:
  assumes "good w"
  shows "\<exists>w'. run_clock_basic_contracts F w = (Ok (), w') \<and> good w' \<and> clock w' = clock w"
proof -
  have zero: "dur_saturating_add d duration_zero = d" for d
    using as_nanos_le [of d] by (simp add: duration_eq_iff as_nanos_saturating_add)
  have read: "\<exists>t w'. ck_now F w = (t, w') \<and> good w' \<and> t = clock w \<and> clock w' = clock w" if "good w" for w
    using now_reads [OF that] still [OF that] by (metis order_antisym surj_pair)
  obtain w1 where 1: "ck_now F w = (clock w, w1)" "good w1" "clock w1 = clock w" using read [OF assms] by blast
  obtain w2 where 2: "ck_now F w1 = (clock w, w2)" "good w2" "clock w2 = clock w" using read [OF 1(2)] 1(3) by auto
  obtain w3 where 3: "ck_now F w2 = (clock w, w3)" "good w3" "clock w3 = clock w" using read [OF 2(2)] 2(3) by auto
  obtain w4 where 4: "ck_now F w3 = (clock w, w4)" "good w4" "clock w4 = clock w" using read [OF 3(2)] 3(3) by auto
  obtain w5 where "ck_delay F duration_zero w4 = (Ok (), w5)" "good w5" using delay_waits [OF 4(2)] by blast
  moreover from exact [OF 4(2) this(1)] have "clock w5 = clock w" using 4(3) by (simp add: zero)
  ultimately show ?thesis using 1 2 3 4
    by (simp add: run_clock_basic_contracts_def now_is_monotonic_def elapsed_is_non_negative_def delay_zero_returns_def ck_elapsed_def
      osal_assert_def)
qed

lemma controlled_contracts:
  assumes "good w" and "as_nanos (clock w) + 43000000 < duration_limit"
  shows "\<exists>w'. run_clock_controlled_contracts F w = (Ok (), w') \<and> good w' \<and> as_nanos (clock w') = as_nanos (clock w) + 43000000"
proof -
  obtain a w1 r w2 b w3 where s: "ck_now F w = (a, w1)" "ck_delay F (from_millis 42) w1 = (r, w2)" "ck_now F w2 = (b, w3)"
    by (metis surj_pair)
  obtain a' w4 r' w5 b' w6 where s': "ck_now F w3 = (a', w4)" "ck_delay F (from_millis 1) w4 = (r', w5)" "ck_now F w5 = (b', w6)"
    by (metis surj_pair)
  have g: "good w1" "clock w1 = clock w" using still now_reads assms(1) s(1) by blast+
  have 1: "r = Ok ()" "good w3" "as_nanos a + as_nanos (from_millis 42) \<le> as_nanos b"
    using wait_between [OF assms(1) s] assms(2) g by (simp_all add: as_nanos_millis)
  have g2: "good w2" using delay_waits [OF g(1), of "from_millis 42"] s(2) by auto
  have c3: "clock w3 = dur_saturating_add (clock w) (from_millis 42)" using exact [OF g(1) s(2)] still [OF g2 s(3)] g(2) by simp
  have g4: "good w4" "clock w4 = clock w3" "a' \<le> clock w4" using still [OF 1(2) s'(1)] now_reads [OF 1(2) s'(1)] by auto
  have 2: "r' = Ok ()" "good w6" "as_nanos a' + as_nanos (from_millis 1) \<le> as_nanos b'"
    using wait_between [OF 1(2) s'] assms(2) g4(2) c3 by (simp_all add: as_nanos_millis as_nanos_saturating_add)
  have g5: "good w5" using delay_waits [OF g4(1), of "from_millis 1"] s'(2) by auto
  have c6: "as_nanos (clock w6) = as_nanos (clock w) + 43000000"
    using exact [OF g4(1) s'(2)] still [OF g5 s'(3)] g4(2) c3 assms(2) by (simp add: as_nanos_saturating_add as_nanos_millis)
  have "as_nanos a' + 1000000 < duration_limit"
    using g4(2,3) c3 assms(2) by (simp add: duration_order as_nanos_saturating_add as_nanos_millis)
  then show ?thesis using s s' 1 2 c6
    by (simp add: run_clock_controlled_contracts_def advance_clock_advances_time_def advance_clock_increases_now_def
      ck_elapsed_def osal_assert_def advance_delay duration_order as_nanos_millis dur_checked_add_def)
qed

end

section \<open>Timers that pass\<close>

text \<open>\<open>ready n\<close>: no timer is held and \<open>n\<close> more can be created; \<open>holding n t\<close>: the test holds \<open>t\<close>.\<close>

locale timer_core_backend =
  fixes F :: "('w, 't) timer_kit" and ready :: "nat \<Rightarrow> 'w \<Rightarrow> bool" and holding :: "nat \<Rightarrow> 't \<Rightarrow> 'w \<Rightarrow> bool"
  assumes create_zero: "tmk_create F duration_zero m w = (Err InvalidParameter, w)"
    and create_ok: "ready (Suc n) w \<Longrightarrow> p \<noteq> duration_zero \<Longrightarrow> \<exists>t w'. tmk_create F p m w = (Ok t, w') \<and> holding n t w'"
    and stop_ok: "holding n t w \<Longrightarrow> \<exists>w'. tmk_stop F t w = (Ok (), w') \<and> holding n t w'"
    and change_zero: "tmk_change_period F t duration_zero w = (Err InvalidParameter, w)"
    and drop_ok: "holding n t w \<Longrightarrow> \<exists>w'. tmk_drop F t w = (Ok (), w') \<and> ready n w'"
    and clone_shares: "tmk_clone F i h = arc_clone i h"
begin

definition keeps :: "('t \<Rightarrow> 'w \<Rightarrow> unit res \<times> 'w) \<Rightarrow> bool" where
  "keeps body \<longleftrightarrow> (\<forall>n t w. holding n t w \<longrightarrow> (\<exists>w'. body t w = (Ok (), w') \<and> holding n t w'))"

lemma millis_nonzero: "from_millis 100 \<noteq> duration_zero"
  by (simp add: duration_eq_iff as_nanos_millis)

lemma with_timer_ok:
  assumes "keeps body" and "ready (Suc n) w"
  shows "\<exists>w'. with_timer F (from_millis 100) m body w = (Ok (), w') \<and> ready n w'"
proof -
  obtain t w1 where 1: "tmk_create F (from_millis 100) m w = (Ok t, w1)" "holding n t w1"
    using create_ok [OF assms(2) millis_nonzero] by blast
  obtain w2 where 2: "body t w1 = (Ok (), w2)" "holding n t w2" using assms(1) 1(2) unfolding keeps_def by blast
  obtain w3 where "tmk_drop F t w2 = (Ok (), w3)" "ready n w3" using drop_ok [OF 2(2)] by blast
  with 1 2 show ?thesis by (simp add: with_timer_def unwrap_def)
qed

lemma keeps_nothing: "keeps (\<lambda>t w. (Ok (), w))"
  by (simp add: keeps_def)

lemma keeps_stop: "keeps (\<lambda>t w. unwrap (tmk_stop F t w))"
  unfolding keeps_def using stop_ok by (fastforce simp: unwrap_def)

lemma keeps_then: "keeps a \<Longrightarrow> keeps b \<Longrightarrow> keeps (\<lambda>t w. st_bind (a t w) (\<lambda>_ w. b t w))"
  unfolding keeps_def by fastforce

lemma keeps_change:
  "keeps (\<lambda>t w. st_bind (observe (tmk_change_period F t duration_zero w)) (\<lambda>result w. osal_assert (result = Err InvalidParameter) w))"
  by (simp add: keeps_def observe_def osal_assert_def change_zero)

lemma clones_ok:
  assumes "ready (Suc n) w"
  shows "\<exists>w'. clone_shares_control F w = (Ok (), w') \<and> ready n w'" and "\<exists>w'. drop_clone_preserves F w = (Ok (), w') \<and> ready n w'"
proof -
  obtain t w1 where 1: "tmk_create F (from_millis 100) OneShot w = (Ok t, w1)" "holding n t w1"
    using create_ok [OF assms millis_nonzero] by blast
  obtain w2 where 2: "tmk_stop F t w1 = (Ok (), w2)" "holding n t w2" using stop_ok [OF 1(2)] by blast
  obtain w3 where 3: "tmk_drop F t w2 = (Ok (), w3)" "ready n w3" using drop_ok [OF 2(2)] by blast
  note ev = with_handle_def clone_handle_def arc_clone_def arc_drop_def at_handle_def clone_shares unwrap_def
  show "\<exists>w'. clone_shares_control F w = (Ok (), w') \<and> ready n w'" "\<exists>w'. drop_clone_preserves F w = (Ok (), w') \<and> ready n w'"
    using 1 2 3 by (simp_all add: clone_shares_control_def drop_clone_preserves_def ev)
qed

lemma core_contracts:
  assumes "ready (n + 5) w"
  shows "\<exists>w'. run_timer_core_contracts F w = (Ok (), w') \<and> ready n w'"
proof -
  note T = with_timer_ok [where m = OneShot]
  have r: "ready (Suc (n + 4)) w" using assms by (simp add: numeral_eq_Suc)
  obtain w1 where 1: "created_stopped F w = (Ok (), w1)" "ready (Suc (n + 3)) w1"
    using T [OF keeps_nothing r] by (auto simp: created_stopped_def numeral_eq_Suc)
  obtain w2 where 2: "stop_idempotent F w1 = (Ok (), w2)" "ready (Suc (n + 2)) w2"
    using T [OF keeps_then [OF keeps_stop keeps_stop] 1(2)] by (auto simp: stop_idempotent_def numeral_eq_Suc)
  obtain w3 where 3: "change_period_zero_rejected F w2 = (Ok (), w3)" "ready (Suc (n + 1)) w3"
    using T [OF keeps_change 2(2)] by (auto simp: change_period_zero_rejected_def numeral_eq_Suc)
  obtain w4 where 4: "clone_shares_control F w3 = (Ok (), w4)" "ready (Suc n) w4"
    using clones_ok(1) [of "Suc n"] 3(2) by auto
  obtain w5 where 5: "drop_clone_preserves F w4 = (Ok (), w5)" "ready n w5"
    using clones_ok(2) [OF 4(2)] by blast
  have "zero_period_rejected F w = (Ok (), w)"
    by (simp add: zero_period_rejected_def expect_rejected_def observe_def osal_assert_def create_zero)
  with 1 2 3 4 5 show ?thesis by (simp add: run_timer_core_contracts_def)
qed

end

text \<open>The view of a timer on a deterministic clock: times in nanoseconds, and how often its callback ran.\<close>

record timer_view =
  vw_period :: nat
  vw_mode :: timer_mode
  vw_deadline :: "nat option"
  vw_fired :: u32

definition view_start :: "nat \<Rightarrow> timer_view \<Rightarrow> timer_view" where
  "view_start now v = v\<lparr>vw_deadline := Some (now + vw_period v)\<rparr>"

definition view_stop :: "timer_view \<Rightarrow> timer_view" where
  "view_stop v = v\<lparr>vw_deadline := None\<rparr>"

text \<open>At its deadline a timer fires once, however long the advance was; a periodic one goes on at the first
  multiple of its period that is still ahead.\<close>

definition view_advance :: "nat \<Rightarrow> timer_view \<Rightarrow> timer_view" where
  "view_advance now v =
     (case vw_deadline v of
        None \<Rightarrow> v
      | Some d \<Rightarrow>
          if now < d then v
          else v\<lparr>vw_fired := vw_fired v + 1,
                 vw_deadline := (case vw_mode v of OneShot \<Rightarrow> None
                   | Periodic \<Rightarrow> Some (d + vw_period v * ((now - d) div vw_period v + 1)))\<rparr>)"

locale timer_controlled_backend = timer_core_backend F ready holding
  for F :: "('w, 't) timer_kit" and ready holding +
  fixes clock :: "'w \<Rightarrow> nat" and view :: "'t \<Rightarrow> 'w \<Rightarrow> timer_view"
  assumes create_view: "ready (Suc n) w \<Longrightarrow> p \<noteq> duration_zero \<Longrightarrow> tmk_create F p m w = (Ok t, w') \<Longrightarrow>
      clock w' = clock w \<and> view t w' = \<lparr>vw_period = as_nanos p, vw_mode = m, vw_deadline = None, vw_fired = 0\<rparr>"
    and drop_clock: "holding n t w \<Longrightarrow> tmk_drop F t w = (r, w') \<Longrightarrow> clock w' = clock w"
    and start_view: "holding n t w \<Longrightarrow> clock w + vw_period (view t w) < duration_limit \<Longrightarrow>
      \<exists>w'. tmk_start F t w = (Ok (), w') \<and> holding n t w' \<and> clock w' = clock w \<and> view t w' = view_start (clock w) (view t w)"
    and stop_view: "holding n t w \<Longrightarrow> tmk_stop F t w = (r, w') \<Longrightarrow> clock w' = clock w \<and> view t w' = view_stop (view t w)"
    and reset_start: "tmk_reset F = tmk_start F"
    and advance_view: "holding n t w \<Longrightarrow> clock w + as_nanos d + vw_period (view t w) < duration_limit \<Longrightarrow>
      \<exists>w'. tmk_advance F d w = (Ok (), w') \<and> holding n t w' \<and> clock w' = clock w + as_nanos d
        \<and> view t w' = view_advance (clock w + as_nanos d) (view t w)"
    and fired_view: "holding n t w \<Longrightarrow> tmk_fired F t w = Some (vw_fired (view t w))"
begin

text \<open>A piece of a test takes the held timer from one view at one time to another.\<close>

definition at :: "nat \<Rightarrow> 't \<Rightarrow> nat \<times> timer_view \<Rightarrow> 'w \<Rightarrow> bool" where
  "at n t s w \<longleftrightarrow> holding n t w \<and> clock w = fst s \<and> view t w = snd s"

definition moves :: "nat \<Rightarrow> 't \<Rightarrow> ('w \<Rightarrow> unit res \<times> 'w) \<Rightarrow> nat \<times> timer_view \<Rightarrow> nat \<times> timer_view \<Rightarrow> bool" where
  "moves n t c s s' \<longleftrightarrow> (\<forall>w. at n t s w \<longrightarrow> (\<exists>w'. c w = (Ok (), w') \<and> at n t s' w'))"

lemma moves_start:
  assumes "c + vw_period v < duration_limit" and "moves n t k (c, view_start c v) s'"
  shows "moves n t (\<lambda>w. st_bind (unwrap (tmk_start F t w)) (\<lambda>_ w. k w)) (c, v) s'"
  unfolding moves_def
proof (intro allI impI)
  fix w assume w: "at n t (c, v) w"
  then obtain w1 where "tmk_start F t w = (Ok (), w1)" "at n t (c, view_start c v) w1"
    using start_view [of n t w] assms(1) by (auto simp: at_def)
  with assms(2) show "\<exists>w'. st_bind (unwrap (tmk_start F t w)) (\<lambda>_ w. k w) = (Ok (), w') \<and> at n t s' w'"
    by (auto simp: moves_def unwrap_def)
qed

lemma moves_stop:
  assumes "moves n t k (c, view_stop v) s'"
  shows "moves n t (\<lambda>w. st_bind (unwrap (tmk_stop F t w)) (\<lambda>_ w. k w)) (c, v) s'"
  unfolding moves_def
proof (intro allI impI)
  fix w assume w: "at n t (c, v) w"
  then obtain w1 where "tmk_stop F t w = (Ok (), w1)" "at n t (c, view_stop v) w1"
    using stop_ok [of n t w] stop_view [of n t w] by (auto simp: at_def)
  with assms show "\<exists>w'. st_bind (unwrap (tmk_stop F t w)) (\<lambda>_ w. k w) = (Ok (), w') \<and> at n t s' w'"
    by (auto simp: moves_def unwrap_def)
qed

lemma moves_advance:
  assumes "c + as_nanos d + vw_period v < duration_limit" and "moves n t k (c + as_nanos d, view_advance (c + as_nanos d) v) s'"
  shows "moves n t (\<lambda>w. st_bind (tmk_advance F d w) (\<lambda>_ w. k w)) (c, v) s'"
  unfolding moves_def
proof (intro allI impI)
  fix w assume w: "at n t (c, v) w"
  then obtain w1 where "tmk_advance F d w = (Ok (), w1)" "at n t (c + as_nanos d, view_advance (c + as_nanos d) v) w1"
    using advance_view [of n t w d] assms(1) by (auto simp: at_def)
  with assms(2) show "\<exists>w'. st_bind (tmk_advance F d w) (\<lambda>_ w. k w) = (Ok (), w') \<and> at n t s' w'"
    by (auto simp: moves_def)
qed

lemma moves_assert:
  "P (Some (vw_fired v)) \<Longrightarrow> moves n t k (c, v) s' \<Longrightarrow>
    moves n t (\<lambda>w. st_bind (osal_assert (P (tmk_fired F t w)) w) (\<lambda>_ w. k w)) (c, v) s'"
  by (auto simp: moves_def at_def osal_assert_def fired_view)

lemma moves_last:
  "P (Some (vw_fired v)) \<Longrightarrow> c = c' \<Longrightarrow> moves n t (\<lambda>w. osal_assert (P (tmk_fired F t w)) w) (c, v) (c', v)"
  by (auto simp: moves_def at_def osal_assert_def fired_view)

lemma with_timer_moves:
  assumes "\<And>t. moves n t (body t) (clock w, \<lparr>vw_period = 100000000, vw_mode = m, vw_deadline = None, vw_fired = 0\<rparr>) (c, v)"
    and "ready (Suc n) w"
  shows "\<exists>w'. with_timer F (from_millis 100) m body w = (Ok (), w') \<and> ready n w' \<and> clock w' = c"
proof -
  obtain t w1 where 1: "tmk_create F (from_millis 100) m w = (Ok t, w1)" "holding n t w1"
    using create_ok [OF assms(2) millis_nonzero] by blast
  then have "at n t (clock w, \<lparr>vw_period = 100000000, vw_mode = m, vw_deadline = None, vw_fired = 0\<rparr>) w1"
    using create_view [OF assms(2) millis_nonzero 1(1)] by (simp add: at_def as_nanos_millis)
  then obtain w2 where 2: "body t w1 = (Ok (), w2)" "holding n t w2" "clock w2 = c"
    using assms(1) [of t] by (auto simp: moves_def at_def)
  obtain w3 where 3: "tmk_drop F t w2 = (Ok (), w3)" "ready n w3" using drop_ok [OF 2(2)] by blast
  with 1 2 drop_clock [OF 2(2) 3(1)] show ?thesis by (simp add: with_timer_def unwrap_def)
qed

lemmas moves_rules = moves_start moves_stop moves_advance moves_assert moves_last

lemmas view_eval = view_start_def view_stop_def view_advance_def as_nanos_millis

text \<open>The core contracts do not move the clock.\<close>

lemma core_still: "timer_core_backend F (\<lambda>n w. ready n w \<and> clock w = c) (\<lambda>n t w. holding n t w \<and> clock w = c)"
proof (unfold_locales, goal_cases)
  case (2 n w p m)
  then show ?case using create_ok [of n w p m] create_view [of n w p m] by blast
next
  case (3 n t w)
  then show ?case using stop_ok [of n t w] stop_view [of n t w] by blast
next
  case (5 n t w)
  then show ?case using drop_ok [of n t w] drop_clock [of n t w] by blast
qed (simp_all add: create_zero change_zero clone_shares)

lemma contract_moves:
  assumes "ready (Suc n) w" and "clock w + 1000000000 < duration_limit"
  shows "\<exists>w'. oneshot_fires_once F w = (Ok (), w') \<and> ready n w' \<and> clock w' = clock w + 300000000"
    and "\<exists>w'. periodic_fires_multiple F w = (Ok (), w') \<and> ready n w' \<and> clock w' = clock w + 300000000"
    and "\<exists>w'. stop_prevents_callback F w = (Ok (), w') \<and> ready n w' \<and> clock w' = clock w + 200000000"
    and "\<exists>w'. reset_restarts_deadline F w = (Ok (), w') \<and> ready n w' \<and> clock w' = clock w + 160000000"
    and "\<exists>w'. missed_expiration_coalesced F w = (Ok (), w') \<and> ready n w' \<and> clock w' = clock w + 350000000"
proof -
  note T = with_timer_moves [OF _ assms(1)]
  note room = assms(2)
  show "\<exists>w'. oneshot_fires_once F w = (Ok (), w') \<and> ready n w' \<and> clock w' = clock w + 300000000"
    unfolding oneshot_fires_once_def by (rule T, (rule moves_rules; use room in \<open>simp add: view_eval\<close>)+)
  show "\<exists>w'. periodic_fires_multiple F w = (Ok (), w') \<and> ready n w' \<and> clock w' = clock w + 300000000"
    unfolding periodic_fires_multiple_def by (rule T, (rule moves_rules; use room in \<open>simp add: view_eval\<close>)+)
  show "\<exists>w'. stop_prevents_callback F w = (Ok (), w') \<and> ready n w' \<and> clock w' = clock w + 200000000"
    unfolding stop_prevents_callback_def by (rule T, (rule moves_rules; use room in \<open>simp add: view_eval\<close>)+)
  show "\<exists>w'. reset_restarts_deadline F w = (Ok (), w') \<and> ready n w' \<and> clock w' = clock w + 160000000"
    unfolding reset_restarts_deadline_def reset_start by (rule T, (rule moves_rules; use room in \<open>simp add: view_eval\<close>)+)
  show "\<exists>w'. missed_expiration_coalesced F w = (Ok (), w') \<and> ready n w' \<and> clock w' = clock w + 350000000"
    unfolding missed_expiration_coalesced_def by (rule T, (rule moves_rules; use room in \<open>simp add: view_eval\<close>)+)
qed

lemma controlled_timer_contracts:
  assumes "ready (n + 5) w" and "clock w + 2000000000 < duration_limit"
  shows "\<exists>w'. run_timer_controlled_contracts F w = (Ok (), w') \<and> ready n w' \<and> clock w' = clock w + 1310000000"
proof -
  have e: "n + 5 = Suc (n + 4)" "n + 4 = Suc (n + 3)" "n + 3 = Suc (n + 2)" "n + 2 = Suc (n + 1)" by simp_all
  have r: "ready (Suc (n + 4)) w" using assms(1) by (simp only: e(1))
  obtain w1 where 1: "oneshot_fires_once F w = (Ok (), w1)" "ready (Suc (n + 3)) w1" "clock w1 = clock w + 300000000"
    using contract_moves(1) [OF r] assms(2) unfolding e(2) by auto
  obtain w2 where 2: "periodic_fires_multiple F w1 = (Ok (), w2)" "ready (Suc (n + 2)) w2" "clock w2 = clock w1 + 300000000"
    using contract_moves(2) [OF 1(2)] 1(3) assms(2) unfolding e(3) by auto
  obtain w3 where 3: "stop_prevents_callback F w2 = (Ok (), w3)" "ready (Suc (n + 1)) w3" "clock w3 = clock w2 + 200000000"
    using contract_moves(3) [OF 2(2)] 2(3) 1(3) assms(2) unfolding e(4) by auto
  obtain w4 where 4: "reset_restarts_deadline F w3 = (Ok (), w4)" "ready (Suc n) w4" "clock w4 = clock w3 + 160000000"
    using contract_moves(4) [OF 3(2)] 3(3) 2(3) 1(3) assms(2) by auto
  obtain w5 where 5: "missed_expiration_coalesced F w4 = (Ok (), w5)" "ready n w5" "clock w5 = clock w4 + 350000000"
    using contract_moves(5) [OF 4(2)] 4(3) 3(3) 2(3) 1(3) assms(2) by auto
  from 1 2 3 4 5 show ?thesis by (simp add: run_timer_controlled_contracts_def)
qed

end

end
