(* ===== verification/Contract_Mock.thy ===== *)
theory Contract_Mock
  imports Contract_Time Contract_Backends Demo_Mock
begin

text \<open>
  The clock and timer contracts on the mock backend. The timer callback of the contracts counts its runs in a counter it
  captures. The callback is the only writer of its counter, which is therefore the state of the callback, read where the
  registry keeps the callback; while the registry has no callback for the timer there is nothing to read. An advance of the clock that did not return would count as a
  failure of the test.
\<close>

section \<open>The kits\<close>

definition count_run :: "u32 \<Rightarrow> u32 mock_time_runtime option \<Rightarrow> u32 \<times> u32 mock_time_runtime option" where
  "count_run cb g = (cb + 1, g)"

definition mock_advance :: "duration \<Rightarrow> u32 mock_world \<Rightarrow> unit res \<times> u32 mock_world" where
  "mock_advance d w = (case mock_delay count_run d w of Some w' \<Rightarrow> (Ok (), w') | None \<Rightarrow> (Panic ''does not return'', w))"

definition mock_clock_kit :: "u32 mock_world clock_kit" where
  "mock_clock_kit = \<lparr>ck_now = mock_now, ck_delay = mock_advance, ck_advance = mock_advance\<rparr>"

definition mock_fired :: "mock_timer \<Rightarrow> u32 mock_world \<Rightarrow> u32 option" where
  "mock_fired t w =
     (case filter (\<lambda>e. me_key e = mtm_key t) (mr_timers (global_runtime (mw_time w))) of
        e # _ \<Rightarrow> me_callback e
      | [] \<Rightarrow> None)"

text \<open>A handle is an \<open>Arc\<close> of the timer's key and lease.\<close>

definition mock_timer_clone :: "nat \<Rightarrow> mock_timer arc_heap \<Rightarrow> nat \<times> mock_timer arc_heap" where
  "mock_timer_clone = arc_clone"

definition mock_timer_kit :: "(u32 mock_world, mock_timer) timer_kit" where
  "mock_timer_kit =
     \<lparr>tmk_create = (\<lambda>p m. mock_timer_new p m 0), tmk_clone = mock_timer_clone, tmk_drop = mock_timer_drop,
      tmk_start = mock_timer_start, tmk_stop = mock_timer_stop, tmk_reset = mock_timer_reset,
      tmk_change_period = mock_timer_change_period, tmk_fired = mock_fired, tmk_advance = mock_advance\<rparr>"

section \<open>The clock\<close>

definition mock_clock_good :: "usize \<Rightarrow> u32 mock_world \<Rightarrow> bool" where
  "mock_clock_good x w \<longleftrightarrow> mw_lifecycle w = x \<and> mt_inv (global_runtime (mw_time w)) \<and> mt_idle (global_runtime (mw_time w))"

lemma count_run_commands: "commands_only count_run"
proof -
  have "\<exists>cb' cmds. count_run cb (Some rt) = (cb', Some (exec_cmds cmds rt))" for cb rt
    by (rule exI [of _ "cb + 1"], rule exI [of _ "[]"]) (simp add: count_run_def exec_cmds_def)
  then show ?thesis by (simp add: commands_only_def)
qed

lemma mock_advance_clock:
  assumes "mock_clock_good x w"
  shows "\<exists>w'. mock_advance d w = (Ok (), w') \<and> mock_clock_good x w'
    \<and> mr_now (global_runtime (mw_time w')) = dur_saturating_add (mr_now (global_runtime (mw_time w))) d"
proof -
  let ?rt = "advance_time d (global_runtime (mw_time w))"
  have "mt_inv ?rt" "mt_idle ?rt"
    using assms by (simp_all add: mock_clock_good_def mt_inv_def mt_idle_def advance_time_def)
  from dispatch_loop_ends [OF count_run_commands this] obtain rt' where
    "dispatch_loop count_run (Some ?rt) = Some (Some rt')" "mt_inv rt'" "mt_idle rt'" "mr_now rt' = mr_now ?rt" by blast
  then show ?thesis using assms
    by (simp add: mock_advance_def mock_delay_def advance_and_dispatch_def with_runtime_def mock_clock_good_def global_runtime_def advance_time_def)
qed

interpretation mockclock: controlled_clock mock_clock_kit "mock_clock_good x" "\<lambda>w. mr_now (global_runtime (mw_time w))"
  for x
proof
  fix w :: "u32 mock_world" and d
  assume g: "mock_clock_good x w"
  show "\<exists>w'. ck_delay mock_clock_kit d w = (Ok (), w') \<and> mock_clock_good x w'
      \<and> dur_saturating_add (mr_now (global_runtime (mw_time w))) d \<le> mr_now (global_runtime (mw_time w'))"
    using mock_advance_clock [OF g, of d] by (auto simp: mock_clock_kit_def)
  fix r w' assume "ck_delay mock_clock_kit d w = (r, w')"
  then show "mr_now (global_runtime (mw_time w')) = dur_saturating_add (mr_now (global_runtime (mw_time w))) d"
    using mock_advance_clock [OF g, of d] by (auto simp: mock_clock_kit_def)
qed (auto simp: mock_clock_kit_def mock_now_def mock_clock_now_def with_runtime_def mock_clock_good_def global_runtime_def)

section \<open>Timers\<close>

text \<open>The registry of a test holds no timer, or the test's own; \<open>n\<close> more can be created, and \<open>k\<close> other objects are alive.\<close>

definition mock_registry :: "u32 mock_world \<Rightarrow> u32 mock_time_runtime" where
  "mock_registry w = global_runtime (mw_time w)"

definition mock_timer_room :: "nat \<Rightarrow> u32 mock_world \<Rightarrow> bool" where
  "mock_timer_room n w \<longleftrightarrow> unat (mr_next_id (mock_registry w)) + n < 2 ^ 64 \<and> unat (mr_next_creation_order (mock_registry w)) + n < 2 ^ 64"

definition mock_timer_ready :: "nat \<Rightarrow> nat \<Rightarrow> u32 mock_world \<Rightarrow> bool" where
  "mock_timer_ready k n w \<longleftrightarrow> k < unat lc_max_count \<and> leases k (mw_lifecycle w) \<and> mr_timers (mock_registry w) = [] \<and> mock_timer_room n w"

definition sole_entry :: "mock_timer \<Rightarrow> u32 mock_timer_entry \<Rightarrow> bool" where
  "sole_entry t e \<longleftrightarrow> me_key e = mtm_key t \<and> \<not> me_deleted e \<and> me_callback e \<noteq> None \<and> ts_inv (me_state e)"

definition mock_timer_holding :: "nat \<Rightarrow> nat \<Rightarrow> mock_timer \<Rightarrow> u32 mock_world \<Rightarrow> bool" where
  "mock_timer_holding k n t w \<longleftrightarrow> k < unat lc_max_count \<and> leases (Suc k) (mw_lifecycle w)
     \<and> (\<exists>e. mr_timers (mock_registry w) = [e] \<and> sole_entry t e) \<and> mock_timer_room n w"

definition entry_view :: "u32 mock_timer_entry \<Rightarrow> timer_view" where
  "entry_view e = \<lparr>vw_period = as_nanos (ts_period (me_state e)), vw_mode = ts_mode (me_state e),
     vw_deadline = map_option as_nanos (ts_deadline (me_state e)), vw_fired = (case me_callback e of Some n \<Rightarrow> n | None \<Rightarrow> 0)\<rparr>"

definition mock_view :: "mock_timer \<Rightarrow> u32 mock_world \<Rightarrow> timer_view" where
  "mock_view t w = entry_view (hd (mr_timers (mock_registry w)))"

definition mock_nanos :: "u32 mock_world \<Rightarrow> nat" where
  "mock_nanos w = as_nanos (mr_now (mock_registry w))"

lemmas mock_timer_defs = mock_timer_kit_def mock_timer_ready_def mock_timer_holding_def mock_timer_room_def mock_registry_def
  with_runtime_def global_runtime_def

lemma mock_timer_create:
  assumes "mock_timer_ready k (Suc n) w" and "p \<noteq> duration_zero"
  shows "\<exists>t w'. mock_timer_new p m 0 w = (Ok t, w') \<and> mock_timer_holding k n t w' \<and> mock_nanos w' = mock_nanos w
    \<and> mock_view t w' = \<lparr>vw_period = as_nanos p, vw_mode = m, vw_deadline = None, vw_fired = 0\<rparr>"
proof -
  let ?rt = "mock_registry w"
  obtain y where y: "acquire (mw_lifecycle w) = (Ok (), y)" "leases (Suc k) y"
    using leases_acquire [of k "mw_lifecycle w"] assms(1) by (auto simp: mock_timer_ready_def)
  have r: "mr_next_id ?rt \<noteq> - 1 \<and> unat (mr_next_id ?rt + 1) = Suc (unat (mr_next_id ?rt))"
    "mr_next_creation_order ?rt \<noteq> - 1 \<and> unat (mr_next_creation_order ?rt + 1) = Suc (unat (mr_next_creation_order ?rt))"
    using room_step [of _ n] assms(1) by (simp_all add: mock_timer_ready_def mock_timer_room_def)
  have empty: "mr_timers ?rt = []" using assms(1) by (simp add: mock_timer_ready_def)
  show ?thesis
    using y r empty assms
    by (simp add: mock_timer_new_def mock_acquire_object_def on_lifecycle_def register_timer_def ts_new_def with_runtime_def
      mock_timer_holding_def mock_timer_ready_def mock_timer_room_def mock_view_def entry_view_def mock_nanos_def sole_entry_def ts_inv_def Let_def
      flip: mock_registry_def) (simp add: mock_registry_def global_runtime_def)
qed

text \<open>An operation on the held timer changes its entry.\<close>

lemma on_held:
  assumes "mock_timer_holding k n t w" and "\<And>e. sole_entry t e \<Longrightarrow> sole_entry t (f e)"
    and "\<And>rt. op rt = with_entry (mtm_key t) f rt"
  shows "\<exists>w'. on_timer op w = (Ok (), w') \<and> mock_timer_holding k n t w' \<and> mock_nanos w' = mock_nanos w
    \<and> mr_timers (mock_registry w') = [f (hd (mr_timers (mock_registry w)))]"
proof -
  obtain e where e: "mr_timers (mock_registry w) = [e]" "sole_entry t e" using assms(1) by (auto simp: mock_timer_holding_def)
  then have "update_first (entry_matches (mtm_key t)) f [e] = [f e]" by (simp add: entry_matches_def sole_entry_def)
  then show ?thesis
    using e assms(1) assms(2) [OF e(2)]
    by (simp add: on_timer_def with_runtime_def assms(3) with_entry_def mock_timer_holding_def mock_timer_room_def mock_nanos_def
      flip: mock_registry_def) (simp add: mock_registry_def global_runtime_def)
qed

text \<open>What an advance to \<open>now\<close> makes of the held entry.\<close>

definition fire_sole :: "duration \<Rightarrow> u32 mock_timer_entry \<Rightarrow> u32 mock_timer_entry" where
  "fire_sole now e =
     (if ts_expired now (me_state e)
      then e\<lparr>me_state := snd (advance_on_expiry (me_state e) now), me_callback := map_option (\<lambda>n. n + 1) (me_callback e)\<rparr> else e)"

lemma dispatch_sole:
  assumes "mr_timers rt = [e]" and "sole_entry t e"
  shows "dispatch_loop count_run (Some rt) = Some (Some (rt\<lparr>mr_timers := [fire_sole (mr_now rt) e]\<rparr>))"
proof (cases "ts_expired (mr_now rt) (me_state e)")
  case False
  then have "take_next_expired rt = (None, rt)"
    using assms by (auto simp: take_next_expired_def ts_expired_def sole_entry_def split: option.splits)
  then show ?thesis using False assms(1) by (subst dispatch_loop.simps) (simp add: fire_sole_def)
next
  case True
  let ?now = "mr_now rt"
  obtain st where st: "advance_on_expiry (me_state e) ?now = (True, st)"
    using True advance_fires [of "me_state e" ?now] by (cases "advance_on_expiry (me_state e) ?now") auto
  obtain cb where cb: "me_callback e = Some cb" using assms(2) by (auto simp: sole_entry_def)
  have 1: "take_next_expired rt = (Some (me_key e, cb), rt\<lparr>mr_timers := [e\<lparr>me_state := st, me_callback := None\<rparr>]\<rparr>)"
    using True assms st cb by (auto simp: take_next_expired_def ts_expired_def sole_entry_def split: option.splits)
  let ?e = "e\<lparr>me_state := st, me_callback := Some (cb + 1)\<rparr>"
  have 2: "restore_callback (me_key e) (cb + 1) (rt\<lparr>mr_timers := [e\<lparr>me_state := st, me_callback := None\<rparr>]\<rparr>) = rt\<lparr>mr_timers := [?e]\<rparr>"
    using assms(2) by (simp add: restore_callback_def with_entry_def entry_matches_def sole_entry_def)
  have "\<not> ts_expired ?now st" using advance_not_expired [OF st] .
  then have 3: "take_next_expired (rt\<lparr>mr_timers := [?e]\<rparr>) = (None, rt\<lparr>mr_timers := [?e]\<rparr>)"
    by (auto simp: take_next_expired_def ts_expired_def split: option.splits)
  show ?thesis using True st cb
    by (subst dispatch_loop.simps, simp add: 1 count_run_def 2, subst dispatch_loop.simps) (simp add: 3 fire_sole_def)
qed

lemma fire_sole_view:
  assumes "ts_inv (me_state e)" and "as_nanos now + as_nanos (ts_period (me_state e)) < duration_limit" and "me_callback e \<noteq> None"
  shows "entry_view (fire_sole now e) = view_advance (as_nanos now) (entry_view e)"
proof (cases "ts_deadline (me_state e)")
  case None
  then show ?thesis by (simp add: fire_sole_def ts_expired_def view_advance_def entry_view_def)
next
  case (Some d)
  show ?thesis
  proof (cases "d \<le> now")
    case False
    then show ?thesis using Some by (simp add: fire_sole_def ts_expired_def view_advance_def entry_view_def duration_order)
  next
    case True
    let ?p = "ts_period (me_state e)"
    have p: "\<not> is_zero ?p" using assms(1) by (simp add: not_zero_iff)
    have "next_multiple (as_nanos d) (as_nanos ?p) (as_nanos now) < duration_limit"
      using next_multiple_before [of "as_nanos d" "as_nanos now" "as_nanos ?p"] True assms(2) by (simp add: duration_order)
    then show ?thesis using Some True p assms(3)
      by (auto simp: fire_sole_def ts_expired_def view_advance_def entry_view_def duration_order advance_on_expiry_def
        next_periodic_deadline_past Let_def next_multiple_def algebra_simps split: timer_mode.splits)
  qed
qed

lemma mock_timer_advance:
  assumes "mock_timer_holding k n t w" and "mock_nanos w + as_nanos d + vw_period (mock_view t w) < duration_limit"
  shows "\<exists>w'. mock_advance d w = (Ok (), w') \<and> mock_timer_holding k n t w' \<and> mock_nanos w' = mock_nanos w + as_nanos d
    \<and> mock_view t w' = view_advance (mock_nanos w + as_nanos d) (mock_view t w)"
proof -
  let ?rt = "advance_time d (mock_registry w)"
  obtain e where e: "mr_timers (mock_registry w) = [e]" "sole_entry t e" using assms(1) by (auto simp: mock_timer_holding_def)
  have v: "mock_view t w = entry_view e" by (simp add: mock_view_def e)
  have now: "as_nanos (mr_now ?rt) = mock_nanos w + as_nanos d"
    using assms(2) by (simp add: advance_time_def as_nanos_saturating_add mock_nanos_def)
  have "mock_delay count_run d w = Some (w\<lparr>mw_time := Some (?rt\<lparr>mr_timers := [fire_sole (mr_now ?rt) e]\<rparr>)\<rparr>)"
    using dispatch_sole [of ?rt e t] e
    by (simp add: mock_delay_def advance_and_dispatch_def with_runtime_def advance_time_def flip: mock_registry_def)
  moreover have "entry_view (fire_sole (mr_now ?rt) e) = view_advance (mock_nanos w + as_nanos d) (entry_view e)"
    using fire_sole_view [of e "mr_now ?rt"] now assms(2) e(2) v by (simp add: sole_entry_def entry_view_def)
  moreover have "sole_entry t (fire_sole (mr_now ?rt) e)"
    using e(2) ts_ops_inv(5) [of "me_state e" "mr_now ?rt"]
    by (cases "advance_on_expiry (me_state e) (mr_now ?rt)") (auto simp: fire_sole_def sole_entry_def)
  ultimately show ?thesis using assms(1) now v
    by (simp add: mock_advance_def mock_timer_holding_def mock_timer_room_def mock_nanos_def mock_view_def)
      (simp add: mock_registry_def global_runtime_def advance_time_def)
qed

lemma mock_timer_delete:
  assumes "mock_timer_holding k n t w"
  shows "\<exists>w'. mock_timer_drop t w = (Ok (), w') \<and> mock_timer_ready k n w' \<and> mock_nanos w' = mock_nanos w"
proof -
  obtain e where e: "mr_timers (mock_registry w) = [e]" "sole_entry t e" using assms(1) by (auto simp: mock_timer_holding_def)
  obtain rt where g: "mw_time w = Some rt" using e(1) by (cases "mw_time w") (auto simp: mock_registry_def global_runtime_def mock_time_new_def)
  obtain y where y: "lease_drop (mw_lifecycle w) = (Ok (), y)" "leases k y"
    using leases_drop assms by (auto simp: mock_timer_holding_def)
  have "remove_timer (mtm_key t) rt = (Some e, rt\<lparr>mr_timers := []\<rparr>)"
    using e g by (simp add: remove_timer_def mock_registry_def global_runtime_def entry_matches_def sole_entry_def swap_remove_def)
  then show ?thesis using assms y g
    by (simp add: mock_timer_drop_def deregister_timer_def mock_lease_drop_def on_lifecycle_def mock_timer_holding_def mock_timer_ready_def
      mock_timer_room_def mock_nanos_def mock_registry_def global_runtime_def)
qed

lemma mock_timer_started:
  assumes "mock_timer_holding k n t w" and "mock_nanos w + vw_period (mock_view t w) < duration_limit"
  shows "\<exists>w'. mock_timer_start t w = (Ok (), w') \<and> mock_timer_holding k n t w' \<and> mock_nanos w' = mock_nanos w
    \<and> mock_view t w' = view_start (mock_nanos w) (mock_view t w)"
proof -
  let ?now = "mr_now (mock_registry w)" and ?e = "hd (mr_timers (mock_registry w))"
  let ?f = "\<lambda>e. e\<lparr>me_state := snd (ts_start (me_state e) ?now)\<rparr>"
  have f: "sole_entry t e \<Longrightarrow> sole_entry t (?f e)" for e :: "u32 mock_timer_entry"
    using ts_start_inv_snd by (simp add: sole_entry_def)
  have "on_timer (start_timer (mtm_key t)) w = on_timer (with_entry (mtm_key t) ?f) w"
    by (simp add: on_timer_def with_runtime_def start_timer_def mock_registry_def)
  then obtain w' where w': "mock_timer_start t w = (Ok (), w')" "mock_timer_holding k n t w'" "mock_nanos w' = mock_nanos w"
    "mr_timers (mock_registry w') = [?f ?e]"
    using on_held [OF assms(1), of ?f, OF f refl] by (auto simp: mock_timer_start_def)
  have "entry_view (?f ?e) = view_start (mock_nanos w) (entry_view ?e)"
    using assms(2) by (simp add: entry_view_def view_start_def ts_start_def checked_deadline_cases mock_nanos_def mock_view_def)
  with w' show ?thesis by (simp add: mock_view_def)
qed

lemma mock_timer_stopped:
  assumes "mock_timer_holding k n t w"
  shows "\<exists>w'. mock_timer_stop t w = (Ok (), w') \<and> mock_timer_holding k n t w' \<and> mock_nanos w' = mock_nanos w
    \<and> mock_view t w' = view_stop (mock_view t w)"
proof -
  have f: "sole_entry t e \<Longrightarrow> sole_entry t (e\<lparr>me_state := ts_stop (me_state e)\<rparr>)" for e :: "u32 mock_timer_entry"
    by (simp add: sole_entry_def ts_ops_inv(2))
  from on_held [OF assms f stop_timer_def] show ?thesis
    by (auto simp: mock_timer_stop_def mock_view_def entry_view_def view_stop_def ts_stop_def)
qed

interpretation mocktimer: timer_controlled_backend mock_timer_kit "mock_timer_ready k" "mock_timer_holding k" mock_nanos mock_view
  for k
proof
  fix n w t p m and d :: duration and r w'
  show "tmk_create mock_timer_kit duration_zero m w = (Err InvalidParameter, w)" by (simp add: mock_timer_kit_def mock_timer_new_def)
  show "tmk_clone mock_timer_kit i h = arc_clone i h" for i h by (simp add: mock_timer_kit_def mock_timer_clone_def)
  show "tmk_change_period mock_timer_kit t duration_zero w = (Err InvalidParameter, w)"
    by (simp add: mock_timer_kit_def mock_timer_change_period_def)
  show "tmk_reset mock_timer_kit = tmk_start mock_timer_kit"
    by (rule ext)+ (simp add: mock_timer_kit_def mock_timer_reset_def mock_timer_start_def reset_timer_def start_timer_def ts_reset_eq_start on_timer_def)
  {
    assume c: "mock_timer_ready k (Suc n) w" "p \<noteq> duration_zero"
    show "\<exists>t w'. tmk_create mock_timer_kit p m w = (Ok t, w') \<and> mock_timer_holding k n t w'"
      using mock_timer_create [OF c, of m] by (auto simp: mock_timer_kit_def)
    assume "tmk_create mock_timer_kit p m w = (Ok t, w')"
    then show "mock_nanos w' = mock_nanos w
        \<and> mock_view t w' = \<lparr>vw_period = as_nanos p, vw_mode = m, vw_deadline = None, vw_fired = 0\<rparr>"
      using mock_timer_create [OF c, of m] by (auto simp: mock_timer_kit_def)
  next
    assume h: "mock_timer_holding k n t w"
    show "\<exists>w'. tmk_stop mock_timer_kit t w = (Ok (), w') \<and> mock_timer_holding k n t w'"
      using mock_timer_stopped [OF h] by (auto simp: mock_timer_kit_def)
    show "tmk_stop mock_timer_kit t w = (r, w') \<Longrightarrow> mock_nanos w' = mock_nanos w \<and> mock_view t w' = view_stop (mock_view t w)"
      using mock_timer_stopped [OF h] by (auto simp: mock_timer_kit_def)
    show "\<exists>w'. tmk_drop mock_timer_kit t w = (Ok (), w') \<and> mock_timer_ready k n w'"
      using mock_timer_delete [OF h] by (auto simp: mock_timer_kit_def)
    show "tmk_drop mock_timer_kit t w = (r, w') \<Longrightarrow> mock_nanos w' = mock_nanos w"
      using mock_timer_delete [OF h] by (auto simp: mock_timer_kit_def)
    show "mock_nanos w + vw_period (mock_view t w) < duration_limit \<Longrightarrow> \<exists>w'. tmk_start mock_timer_kit t w = (Ok (), w')
        \<and> mock_timer_holding k n t w' \<and> mock_nanos w' = mock_nanos w \<and> mock_view t w' = view_start (mock_nanos w) (mock_view t w)"
      using mock_timer_started [OF h] by (auto simp: mock_timer_kit_def)
    show "mock_nanos w + as_nanos d + vw_period (mock_view t w) < duration_limit \<Longrightarrow> \<exists>w'. tmk_advance mock_timer_kit d w = (Ok (), w')
        \<and> mock_timer_holding k n t w' \<and> mock_nanos w' = mock_nanos w + as_nanos d
        \<and> mock_view t w' = view_advance (mock_nanos w + as_nanos d) (mock_view t w)"
      using mock_timer_advance [OF h] by (auto simp: mock_timer_kit_def)
    show "tmk_fired mock_timer_kit t w = Some (vw_fired (mock_view t w))"
      using h by (auto simp: mock_timer_kit_def mock_fired_def mock_timer_holding_def sole_entry_def mock_view_def entry_view_def mock_registry_def)
  }
qed

section \<open>Injected faults (contract/fault.rs)\<close>

record ('w, 'q) fault_kit =
  fk_clear_faults :: "'w \<Rightarrow> 'w"
  fk_fail_next_queue_create :: "error \<Rightarrow> 'w \<Rightarrow> 'w"
  fk_fail_next_queue_send :: "error \<Rightarrow> 'w \<Rightarrow> 'w"
  fk_create :: "nat \<Rightarrow> nat \<Rightarrow> 'w \<Rightarrow> 'q res \<times> 'w"
  fk_send :: "u8 list \<Rightarrow> timeout \<Rightarrow> 'q \<Rightarrow> 'w \<Rightarrow> unit res \<times> 'q \<times> 'w"
  fk_drop :: "'q \<Rightarrow> 'w \<Rightarrow> unit res \<times> 'w"

definition queue_create_fault_is_reported :: "('w, 'q) fault_kit \<Rightarrow> 'w \<Rightarrow> unit res \<times> 'w" where
  "queue_create_fault_is_reported F w =
     (let w = fk_fail_next_queue_create F OutOfMemory (fk_clear_faults F w) in
      st_bind (observe (fk_create F 4 2 w)) (\<lambda>result w. osal_assert (result = Err OutOfMemory) w))"

definition queue_send_fault_is_reported :: "('w, 'q) fault_kit \<Rightarrow> 'w \<Rightarrow> unit res \<times> 'w" where
  "queue_send_fault_is_reported F w =
     st_bind (unwrap (fk_create F 4 2 (fk_clear_faults F w))) (\<lambda>q w.
       case fk_send F [1, 2] NoWait q (fk_fail_next_queue_send F QueueFull w) of
         (result, q, w) \<Rightarrow>
           st_bind (observe (result, w)) (\<lambda>result w.
           st_bind (osal_assert (result = Err QueueFull) w) (\<lambda>_ w. fk_drop F q w)))"

definition faults_can_be_cleared :: "('w, 'q) fault_kit \<Rightarrow> 'w \<Rightarrow> unit res \<times> 'w" where
  "faults_can_be_cleared F w =
     (let w = fk_clear_faults F (fk_fail_next_queue_create F OutOfMemory (fk_clear_faults F w)) in
      st_bind (observe (fk_create F 4 2 w)) (\<lambda>result w.
        case result of Ok q \<Rightarrow> fk_drop F q w | _ \<Rightarrow> osal_assert False w))"

definition run_queue_fault_contracts :: "('w, 'q) fault_kit \<Rightarrow> 'w \<Rightarrow> unit res \<times> 'w" where
  "run_queue_fault_contracts F = run_contracts
     [queue_create_fault_is_reported F, queue_send_fault_is_reported F, faults_can_be_cleared F]"

text \<open>The factory with its cell of faults.\<close>

definition mock_fault_kit :: "(nat \<Rightarrow> bool) \<Rightarrow> (fault_state \<times> 'cb mock_world, mock_queue) fault_kit" where
  "mock_fault_kit reserve =
     \<lparr>fk_clear_faults = apfst fault_clear, fk_fail_next_queue_create = (\<lambda>e. apfst (fail_next_queue_create e)),
      fk_fail_next_queue_send = (\<lambda>e. apfst (fail_next_queue_send e)),
      fk_create = (\<lambda>c m (f, w). mock_queue_new_with_faults reserve c m f w),
      fk_send = (\<lambda>d t q (f, w). case mock_queue_send d t f q of (r, f, q) \<Rightarrow> (r, q, f, w)),
      fk_drop = (\<lambda>q (f, w). case mock_lease_drop w of (r, w) \<Rightarrow> (r, f, w))\<rparr>"

lemma mock_faulty_create:
  assumes "mock_ready reserve n w"
  shows "\<exists>q w'. mock_queue_inner_new reserve 4 2 True w = (Ok q, w') \<and> mq_faults q \<and> mock_holding reserve n w'"
proof -
  obtain y where y: "acquire (mw_lifecycle w) = (Ok (), y)" "leases (Suc n) y"
    using leases_acquire [of n "mw_lifecycle w"] assms by (auto simp: mock_ready_def)
  obtain b where b: "byte_queue_new reserve 4 2 = Ok b"
    using assms by (simp add: mock_ready_def byte_queue_new_def checked_mul_def usize_max_def)
  from y b assms show ?thesis
    by (simp add: mock_queue_inner_new_def validate_queue_capacity_def validate_queue_message_size_def mock_acquire_object_def
      on_lifecycle_def mock_ready_def mock_holding_def)
qed

lemma mock_fault_contracts:
  assumes "mock_ready reserve n w"
  shows "\<exists>f' w'. run_queue_fault_contracts (mock_fault_kit reserve) (f, w) = (Ok (), f', w') \<and> mock_ready reserve n w'"
proof -
  let ?F = "mock_fault_kit reserve"
  note ev = mock_fault_kit_def mock_queue_new_with_faults_def observe_def unwrap_def osal_assert_def Let_def fault_clear_def
    fail_next_queue_create_def fail_next_queue_send_def
  obtain f1 where 1: "queue_create_fault_is_reported ?F (f, w) = (Ok (), f1, w)"
    by (simp add: queue_create_fault_is_reported_def ev)
  obtain q w2 where c: "mock_queue_inner_new reserve 4 2 True w = (Ok q, w2)" "mq_faults q" "mock_holding reserve n w2"
    using mock_faulty_create [OF assms] by blast
  obtain w3 where d: "mock_lease_drop w2 = (Ok (), w3)" "mock_ready reserve n w3" using mock_holding_drop [OF c(3)] by blast
  obtain f2 where 2: "queue_send_fault_is_reported ?F (f1, w) = (Ok (), f2, w3)"
    using c(1,2) d(1) by (simp add: queue_send_fault_is_reported_def ev mock_queue_send_def take_send_fault_def)
  obtain q' w4 where c': "mock_queue_inner_new reserve 4 2 True w3 = (Ok q', w4)" "mock_holding reserve n w4"
    using mock_faulty_create [OF d(2)] by blast
  obtain w5 where d': "mock_lease_drop w4 = (Ok (), w5)" "mock_ready reserve n w5" using mock_holding_drop [OF c'(2)] by blast
  have "\<exists>f3. faults_can_be_cleared ?F (f2, w3) = (Ok (), f3, w5)" using c'(1) d'(1) by (simp add: faults_can_be_cleared_def ev)
  with 1 2 d'(2) show ?thesis by (auto simp: run_queue_fault_contracts_def)
qed

section \<open>Property\<close>

text \<open>C32. The mock backend passes the timer and clock contracts of the test kit: no assertion fails. A one-shot timer has
  not fired a millisecond before its deadline and has fired once at it, a periodic one fires once per period and once for several
  missed periods, a stopped one not at all, a reset one a full period later, and a clone controls the timer of its original, which
  outlives it. Afterwards no timer is registered, the runtime holds what it held before, and the clock has moved by exactly what
  the tests advanced it, 1310 ms. The clock tests pass whatever timers are running, leave the runtime alone
  and move the clock by exactly the 43 ms they advance it.\<close>

theorem mock_passes_timed_contracts:
  assumes "mock_state w = Running" and "mock_active_objects w < lc_max_count" and "mr_timers (mock_registry w) = []"
    and "mock_timer_room 10 w" and "mock_nanos w + 3000000000 < duration_limit"
    and "mt_inv (mock_registry v)" and "mt_idle (mock_registry v)" and "mock_nanos v + 43000000 < duration_limit"
  shows "(\<exists>w'. run_contracts [run_timer_controlled_contracts mock_timer_kit, run_timer_core_contracts mock_timer_kit] w = (Ok (), w')
      \<and> mock_state w' = Running \<and> mock_active_objects w' = mock_active_objects w \<and> mr_timers (mock_registry w') = []
      \<and> mock_nanos w' = mock_nanos w + 1310000000)
    \<and> (\<exists>v'. run_contracts [run_clock_controlled_contracts mock_clock_kit, run_clock_basic_contracts mock_clock_kit] v = (Ok (), v')
      \<and> mw_lifecycle v' = mw_lifecycle v \<and> mock_nanos v' = mock_nanos v + 43000000)"
proof (rule conjI)
  let ?k = "unat (mock_active_objects w)"
  have r: "mock_timer_ready ?k (5 + 5) w"
    using assms(1-4) by (simp add: mock_timer_ready_def leases_def mock_state_def mock_active_objects_def word_less_nat_alt)
  from mocktimer.controlled_timer_contracts [OF r] assms(5) obtain w1 where
    1: "run_timer_controlled_contracts mock_timer_kit w = (Ok (), w1)" "mock_timer_ready ?k (0 + 5) w1"
      "mock_nanos w1 = mock_nanos w + 1310000000" by auto
  obtain w2 where 2: "run_timer_core_contracts mock_timer_kit w1 = (Ok (), w2)" "mock_timer_ready ?k 0 w2" "mock_nanos w2 = mock_nanos w1"
    using timer_core_backend.core_contracts [OF mocktimer.core_still, of ?k 0 w1 "mock_nanos w1"] 1(2) by auto
  then show "\<exists>w'. run_contracts [run_timer_controlled_contracts mock_timer_kit, run_timer_core_contracts mock_timer_kit] w = (Ok (), w')
      \<and> mock_state w' = Running \<and> mock_active_objects w' = mock_active_objects w \<and> mr_timers (mock_registry w') = []
      \<and> mock_nanos w' = mock_nanos w + 1310000000"
    using 1(1,3) by (simp add: mock_timer_ready_def leases_def mock_state_def mock_active_objects_def word_unat_eq_iff)
next
  have g: "mock_clock_good (mw_lifecycle v) v" using assms(6,7) by (simp add: mock_clock_good_def mock_registry_def)
  obtain v1 where 1: "run_clock_controlled_contracts mock_clock_kit v = (Ok (), v1)" "mock_clock_good (mw_lifecycle v) v1"
      "mock_nanos v1 = mock_nanos v + 43000000"
    using mockclock.controlled_contracts [OF g] assms(8) by (auto simp: mock_nanos_def mock_registry_def)
  from mockclock.basic_still [OF 1(2)] obtain v2 where "run_clock_basic_contracts mock_clock_kit v1 = (Ok (), v2)"
      "mock_clock_good (mw_lifecycle v) v2" "mock_nanos v2 = mock_nanos v1"
    by (auto simp: mock_nanos_def mock_registry_def)
  with 1 show "\<exists>v'. run_contracts [run_clock_controlled_contracts mock_clock_kit, run_clock_basic_contracts mock_clock_kit] v = (Ok (), v')
      \<and> mw_lifecycle v' = mw_lifecycle v \<and> mock_nanos v' = mock_nanos v + 43000000"
    by (auto simp: mock_clock_good_def)
qed

lemma mock_started_idle:
  "\<exists>w :: u32 mock_world. mock_initialize mock_world_initial = (Ok (), w) \<and> mock_state w = Running \<and> mock_active_objects w = 0
    \<and> mw_time w = Some \<lparr>mr_now = duration_zero, mr_epoch = 2, mr_next_id = 1, mr_next_creation_order = 0, mr_timers = []\<rparr>"
proof -
  obtain w :: "u32 mock_world" where w: "mock_initialize mock_world_initial = (Ok (), w)" "mock_state w = Running"
    "mock_active_objects w = 0"
    using mock_initialize_ok [of "mock_world_initial :: u32 mock_world"]
    by (auto simp: mock_world_initial_def mw_inv_def lc_word_ok_def mock_state_def unat_eq_zero)
  moreover from w(1) have "mw_time w = Some \<lparr>mr_now = duration_zero, mr_epoch = 2, mr_next_id = 1, mr_next_creation_order = 0, mr_timers = []\<rparr>"
    by (cases "fst (begin_initialize (lifecycle_new :: usize))")
      (auto simp: mock_initialize_def on_lifecycle_def mock_world_initial_def reset_runtime_def with_runtime_def global_runtime_def
        mock_time_new_def reset_and_detach_def split: prod.splits)
  ultimately show ?thesis by blast
qed

theorem mock_passes_timed_contracts_witness:
  "\<exists>w w'. mock_initialize (mock_world_initial :: u32 mock_world) = (Ok (), w)
    \<and> run_contracts [run_timer_controlled_contracts mock_timer_kit, run_timer_core_contracts mock_timer_kit] w = (Ok (), w')
    \<and> mock_active_objects w' = 0 \<and> mock_nanos w' = 1310000000"
proof -
  obtain w :: "u32 mock_world" where w: "mock_initialize mock_world_initial = (Ok (), w)" "mock_state w = Running" "mock_active_objects w = 0"
    "mw_time w = Some \<lparr>mr_now = duration_zero, mr_epoch = 2, mr_next_id = 1, mr_next_creation_order = 0, mr_timers = []\<rparr>"
    using mock_started_idle by blast
  have r: "mock_registry w = \<lparr>mr_now = duration_zero, mr_epoch = 2, mr_next_id = 1, mr_next_creation_order = 0, mr_timers = []\<rparr>"
    using w(4) by (simp add: mock_registry_def global_runtime_def)
  have "mock_timer_room 10 w" "mt_inv (mock_registry w)" "mt_idle (mock_registry w)" "mock_nanos w = 0"
    by (simp_all add: mock_timer_room_def mock_nanos_def r mt_inv_def mt_idle_def)
  then show ?thesis
    using mock_passes_timed_contracts [of w w] w(1-3) r no_leases_room by (auto simp: duration_limit_eq)
qed

end
