(* ===== verification/Contract_Task.thy ===== *)
theory Contract_Task
  imports Contract_Backends
begin

text \<open>
  The task contracts of the test kit (src/crates/osal-testkit/src/contract/task.rs) as programs over a backend, the
  locale \<open>immediate_tasks\<close> of the backends that run a task to its end inside \<open>spawn\<close>, and the mock backend, which does.
  The statics of the tests are part of the state that the body of a task sees.
\<close>

section \<open>The kit\<close>

record task_statics =
  st_count_lock :: usize
  st_counter :: usize
  st_captured_raw :: usize
  st_inside_count :: usize

record ('w, 'b, 't) task_kit =
  tk_builder :: 'b
  tk_name :: "u8 list \<Rightarrow> 'b \<Rightarrow> 'b"
  tk_stack_size :: "nat \<Rightarrow> 'b \<Rightarrow> 'b"
  tk_set_priority :: "priority \<Rightarrow> 'b \<Rightarrow> 'b"
  tk_spawn :: "'b \<Rightarrow> ('w \<Rightarrow> 'w) \<Rightarrow> 'w \<Rightarrow> 't res \<times> 'w"
  tk_join :: "'t \<Rightarrow> timeout \<Rightarrow> 'w \<Rightarrow> exit_code res \<times> 'w"
  tk_handle :: "'t \<Rightarrow> task_handle"
  tk_priority :: "'t \<Rightarrow> priority"
  tk_current :: "'w \<Rightarrow> task_handle option"
  tk_count :: "'w \<Rightarrow> usize"
  tk_drop :: "'t \<Rightarrow> 'w \<Rightarrow> unit res \<times> 'w"
  tk_statics :: "'w \<Rightarrow> task_statics"
  tk_put :: "task_statics \<Rightarrow> 'w \<Rightarrow> 'w"

definition count_lock :: "('w, 'b, 't) task_kit \<Rightarrow> 'w \<Rightarrow> unit res \<times> 'w" where
  "count_lock F w =
     (if st_count_lock (tk_statics F w) \<noteq> 0 then (Panic ''spins on a lock that nobody releases'', w)
      else (Ok (), tk_put F ((tk_statics F w)\<lparr>st_count_lock := 1\<rparr>) w))"

definition count_guard_drop :: "('w, 'b, 't) task_kit \<Rightarrow> 'w \<Rightarrow> unit res \<times> 'w" where
  "count_guard_drop F w = (Ok (), tk_put F ((tk_statics F w)\<lparr>st_count_lock := 0\<rparr>) w)"

text \<open>The bodies of the tasks: nothing, an increment, the current handle, the number of live tasks.\<close>

definition no_op :: "'w \<Rightarrow> 'w" where
  "no_op w = w"

definition count_body :: "('w, 'b, 't) task_kit \<Rightarrow> 'w \<Rightarrow> 'w" where
  "count_body F w = tk_put F ((tk_statics F w)\<lparr>st_counter := st_counter (tk_statics F w) + 1\<rparr>) w"

definition current_body :: "('w, 'b, 't) task_kit \<Rightarrow> 'w \<Rightarrow> 'w" where
  "current_body F w =
     (case tk_current F w of Some h \<Rightarrow> tk_put F ((tk_statics F w)\<lparr>st_captured_raw := handle_get h\<rparr>) w | None \<Rightarrow> w)"

definition inside_body :: "('w, 'b, 't) task_kit \<Rightarrow> 'w \<Rightarrow> 'w" where
  "inside_body F w = tk_put F ((tk_statics F w)\<lparr>st_inside_count := tk_count F w\<rparr>) w"

text \<open>A test that spawns a task, works with it and drops it.\<close>

definition with_task ::
  "('w, 'b, 't) task_kit \<Rightarrow> 'b \<Rightarrow> ('w \<Rightarrow> 'w) \<Rightarrow> ('t \<Rightarrow> 'w \<Rightarrow> unit res \<times> 'w) \<Rightarrow> 'w \<Rightarrow> unit res \<times> 'w" where
  "with_task F b entry body w =
     st_bind (unwrap (tk_spawn F b entry w)) (\<lambda>task w. st_bind (body task w) (\<lambda>_ w. tk_drop F task w))"

definition join_forever :: "('w, 'b, 't) task_kit \<Rightarrow> 't \<Rightarrow> 'w \<Rightarrow> unit res \<times> 'w" where
  "join_forever F task w = st_bind (unwrap (tk_join F task Forever w)) (\<lambda>_ w. (Ok (), w))"

section \<open>The contracts\<close>

definition create_with_default_config :: "('w, 'b, 't) task_kit \<Rightarrow> 'w \<Rightarrow> unit res \<times> 'w" where
  "create_with_default_config F = with_task F (tk_builder F) no_op (\<lambda>task w. join_forever F task w)"

definition accept_empty_name :: "('w, 'b, 't) task_kit \<Rightarrow> 'w \<Rightarrow> unit res \<times> 'w" where
  "accept_empty_name F = with_task F (tk_name F [] (tk_builder F)) no_op (\<lambda>task w. join_forever F task w)"

text \<open>97 is the code of the letter a.\<close>

definition accept_max_length_name :: "('w, 'b, 't) task_kit \<Rightarrow> 'w \<Rightarrow> unit res \<times> 'w" where
  "accept_max_length_name F = with_task F (tk_name F (replicate 31 97) (tk_builder F)) no_op (\<lambda>task w. join_forever F task w)"

definition reject_nul_in_name :: "('w, 'b, 't) task_kit \<Rightarrow> 'w \<Rightarrow> unit res \<times> 'w" where
  "reject_nul_in_name F = expect_rejected
     (tk_spawn F (tk_name F [98, 97, 100, 0, 110, 97, 109, 101] (tk_builder F)) no_op) InvalidParameter"

definition reject_overlong_name :: "('w, 'b, 't) task_kit \<Rightarrow> 'w \<Rightarrow> unit res \<times> 'w" where
  "reject_overlong_name F = expect_rejected (tk_spawn F (tk_name F (replicate 32 97) (tk_builder F)) no_op) InvalidParameter"

definition reject_zero_stack :: "('w, 'b, 't) task_kit \<Rightarrow> 'w \<Rightarrow> unit res \<times> 'w" where
  "reject_zero_stack F = expect_rejected (tk_spawn F (tk_stack_size F 0 (tk_builder F)) no_op) InvalidParameter"

definition positive_stack_size_succeeds :: "('w, 'b, 't) task_kit \<Rightarrow> 'w \<Rightarrow> unit res \<times> 'w" where
  "positive_stack_size_succeeds F = with_task F (tk_stack_size F 8192 (tk_builder F)) no_op (\<lambda>task w. join_forever F task w)"

definition spawn_runs_entry_exactly_once :: "('w, 'b, 't) task_kit \<Rightarrow> 'w \<Rightarrow> unit res \<times> 'w" where
  "spawn_runs_entry_exactly_once F w =
     with_task F (tk_name F [101, 120, 97, 99, 116] (tk_builder F)) (count_body F) (\<lambda>task w.
       st_bind (join_forever F task w) (\<lambda>_ w.
       osal_assert (st_counter (tk_statics F w) = 1) w))
     (tk_put F ((tk_statics F w)\<lparr>st_counter := 0\<rparr>) w)"

definition join_returns_after_task_exit :: "('w, 'b, 't) task_kit \<Rightarrow> 'w \<Rightarrow> unit res \<times> 'w" where
  "join_returns_after_task_exit F = with_task F (tk_name F [106, 111, 105, 110] (tk_builder F)) no_op (\<lambda>task w.
     st_bind (observe (tk_join F task Forever w)) (\<lambda>result w. osal_assert (is_ok result) w))"

definition repeated_join_returns_cached :: "('w, 'b, 't) task_kit \<Rightarrow> 'w \<Rightarrow> unit res \<times> 'w" where
  "repeated_join_returns_cached F = with_task F (tk_name F [114, 101, 112, 101, 97, 116] (tk_builder F)) no_op (\<lambda>task w.
     st_bind (unwrap (tk_join F task Forever w)) (\<lambda>r1 w.
     st_bind (unwrap (tk_join F task NoWait w)) (\<lambda>r2 w.
     st_bind (unwrap (tk_join F task Forever w)) (\<lambda>r3 w.
     st_bind (osal_assert (r1 = r2) w) (\<lambda>_ w.
     osal_assert (r2 = r3) w)))))"

definition handle_is_nonzero :: "('w, 'b, 't) task_kit \<Rightarrow> 'w \<Rightarrow> unit res \<times> 'w" where
  "handle_is_nonzero F = with_task F (tk_name F [104] (tk_builder F)) no_op (\<lambda>task w.
     st_bind (osal_assert (handle_get (tk_handle F task) \<noteq> 0) w) (\<lambda>_ w.
     join_forever F task w))"

definition handle_is_unique :: "('w, 'b, 't) task_kit \<Rightarrow> 'w \<Rightarrow> unit res \<times> 'w" where
  "handle_is_unique F = with_task F (tk_name F [97] (tk_builder F)) no_op (\<lambda>t1.
     with_task F (tk_name F [98] (tk_builder F)) no_op (\<lambda>t2 w.
       osal_assert (tk_handle F t1 \<noteq> tk_handle F t2) w))"

definition current_from_within_task :: "('w, 'b, 't) task_kit \<Rightarrow> 'w \<Rightarrow> unit res \<times> 'w" where
  "current_from_within_task F = with_task F (tk_name F [99, 117, 114, 114] (tk_builder F)) (current_body F) (\<lambda>task w.
     st_bind (join_forever F task w) (\<lambda>_ w.
     let captured_raw = st_captured_raw (tk_statics F w) in
     st_bind (osal_assert (captured_raw \<noteq> 0) w) (\<lambda>_ w.
     osal_assert (captured_raw = handle_get (tk_handle F task)) w)))"

definition current_from_main_is_none :: "('w, 'b, 't) task_kit \<Rightarrow> 'w \<Rightarrow> unit res \<times> 'w" where
  "current_from_main_is_none F w = osal_assert (tk_current F w = None) w"

definition priority_is_preserved :: "('w, 'b, 't) task_kit \<Rightarrow> 'w \<Rightarrow> unit res \<times> 'w" where
  "priority_is_preserved F = with_task F (tk_set_priority F 7 (tk_builder F)) no_op (\<lambda>task w.
     st_bind (osal_assert (tk_priority F task = 7) w) (\<lambda>_ w.
     st_bind (join_forever F task w) (\<lambda>_ w.
     osal_assert (tk_priority F task = 7) w)))"

definition count_reflects_live_tasks :: "('w, 'b, 't) task_kit \<Rightarrow> 'w \<Rightarrow> unit res \<times> 'w" where
  "count_reflects_live_tasks F w =
     st_bind (count_lock F w) (\<lambda>_ w.
     let w = tk_put F ((tk_statics F w)\<lparr>st_inside_count := 0\<rparr>) w; baseline = tk_count F w in
     st_bind (with_task F (tk_name F [99, 111, 117, 110, 116] (tk_builder F)) (inside_body F) (\<lambda>task w.
       st_bind (join_forever F task w) (\<lambda>_ w.
       st_bind (osal_assert (st_inside_count (tk_statics F w) > baseline) w) (\<lambda>_ w.
       osal_assert (tk_count F w = baseline) w))) w) (\<lambda>_ w.
     count_guard_drop F w))"

definition finished_task_not_in_count :: "('w, 'b, 't) task_kit \<Rightarrow> 'w \<Rightarrow> unit res \<times> 'w" where
  "finished_task_not_in_count F w =
     st_bind (count_lock F w) (\<lambda>_ w.
     let baseline = tk_count F w in
     st_bind (with_task F (tk_name F [102, 105, 110] (tk_builder F)) no_op (\<lambda>task w.
       st_bind (join_forever F task w) (\<lambda>_ w.
       osal_assert (tk_count F w = baseline) w)) w) (\<lambda>_ w.
     count_guard_drop F w))"

definition run_task_core_contracts :: "('w, 'b, 't) task_kit \<Rightarrow> 'w \<Rightarrow> unit res \<times> 'w" where
  "run_task_core_contracts F = run_contracts
     [create_with_default_config F,
      accept_empty_name F,
      accept_max_length_name F,
      reject_nul_in_name F,
      reject_overlong_name F,
      reject_zero_stack F,
      positive_stack_size_succeeds F,
      spawn_runs_entry_exactly_once F,
      join_returns_after_task_exit F,
      repeated_join_returns_cached F,
      handle_is_nonzero F,
      handle_is_unique F,
      current_from_within_task F,
      current_from_main_is_none F,
      priority_is_preserved F,
      count_reflects_live_tasks F,
      finished_task_not_in_count F]"

section \<open>Backends that run a task inside spawn\<close>

text \<open>\<open>held n ts\<close>: the test holds the tasks \<open>ts\<close>, the latest first, none is running, and \<open>n\<close> more can be spawned.
  A body that reads the current handle and the count and writes the statics runs once, as the current and
  counted task.\<close>

locale immediate_tasks =
  fixes F :: "('w, 'b, 't) task_kit"
    and config :: "'b \<Rightarrow> u8 list \<times> nat \<times> priority"
    and held :: "nat \<Rightarrow> 't list \<Rightarrow> 'w \<Rightarrow> bool"
  assumes config_default: "fst (config (tk_builder F)) = [] \<and> 0 < fst (snd (config (tk_builder F)))"
    and config_name: "config (tk_name F name b) = (name, snd (config b))"
    and config_stack: "config (tk_stack_size F bytes b) = (fst (config b), bytes, snd (snd (config b)))"
    and config_priority: "config (tk_set_priority F prio b) = (fst (config b), fst (snd (config b)), prio)"
    and spawn_rejects: "validate_task_config (fst (config b)) (fst (snd (config b))) = Err e \<Longrightarrow> tk_spawn F b entry w = (Err e, w)"
    and spawn_runs: "held (Suc n) ts w \<Longrightarrow> validate_task_config (fst (config b)) (fst (snd (config b))) = Ok () \<Longrightarrow>
        (\<And>w. entry w = tk_put F (f (tk_current F w) (tk_count F w) (tk_statics F w)) w) \<Longrightarrow>
        \<exists>t w'. tk_spawn F b entry w = (Ok t, w') \<and> held n (t # ts) w' \<and> tk_count F w' = tk_count F w
          \<and> tk_statics F w' = f (Some (tk_handle F t)) (tk_count F w + 1) (tk_statics F w) \<and> tk_priority F t = snd (snd (config b))"
    and join_done: "held n ts w \<Longrightarrow> t \<in> set ts \<Longrightarrow> tk_join F t timeout w = (Ok exit_success, w)"
    and handles: "held n ts w \<Longrightarrow> distinct (map (tk_handle F) ts) \<and> (\<forall>t \<in> set ts. handle_get (tk_handle F t) \<noteq> 0)"
    and idle: "held n ts w \<Longrightarrow> tk_current F w = None \<and> tk_count F w \<noteq> - 1"
    and drop_ok: "held n (t # ts) w \<Longrightarrow> \<exists>w'. tk_drop F t w = (Ok (), w') \<and> held n ts w' \<and> tk_statics F w' = tk_statics F w"
    and put_held: "held n ts w \<Longrightarrow> held n ts (tk_put F s w)"
    and put_reads: "tk_statics F (tk_put F s w) = s" "tk_count F (tk_put F s w) = tk_count F w"
    and put_same: "tk_put F (tk_statics F w) w = w"
begin

definition unlocked :: "nat \<Rightarrow> 'w \<Rightarrow> bool" where
  "unlocked n w \<longleftrightarrow> held n [] w \<and> st_count_lock (tk_statics F w) = 0"

lemma with_task_ok:
  assumes "held (Suc n) ts w" and "validate_task_config (fst (config b)) (fst (snd (config b))) = Ok ()"
    and "\<And>w. entry w = tk_put F (f (tk_current F w) (tk_count F w) (tk_statics F w)) w"
    and "\<And>t w1. held n (t # ts) w1 \<Longrightarrow> tk_count F w1 = tk_count F w \<Longrightarrow> tk_priority F t = snd (snd (config b)) \<Longrightarrow>
      tk_statics F w1 = f (Some (tk_handle F t)) (tk_count F w + 1) (tk_statics F w) \<Longrightarrow> body t w1 = (Ok (), w1)"
  shows "\<exists>(h :: task_handle) w'. with_task F b entry body w = (Ok (), w') \<and> held n ts w' \<and> tk_statics F w' = f (Some h) (tk_count F w + 1) (tk_statics F w)"
proof -
  obtain t w1 where 1: "tk_spawn F b entry w = (Ok t, w1)" "held n (t # ts) w1" "tk_count F w1 = tk_count F w"
    "tk_statics F w1 = f (Some (tk_handle F t)) (tk_count F w + 1) (tk_statics F w)" "tk_priority F t = snd (snd (config b))"
    using spawn_runs [OF assms(1-3)] by blast
  obtain w2 where "tk_drop F t w1 = (Ok (), w2)" "held n ts w2" "tk_statics F w2 = tk_statics F w1" using drop_ok [OF 1(2)] by blast
  then show ?thesis using 1 assms(4) [OF 1(2,3,5,4)] by (auto simp: with_task_def unwrap_def)
qed

lemmas config_simps = config_default config_name config_stack config_priority validate_task_config_def task_name_max_bytes_def

lemma joined: "held n (t # ts) w \<Longrightarrow> join_forever F t w = (Ok (), w)"
  by (simp add: join_forever_def join_done unwrap_def)

lemma no_op_put: "no_op w = tk_put F ((\<lambda>_ _ s. s) (tk_current F w) (tk_count F w) (tk_statics F w)) w"
  by (simp add: no_op_def put_same)

text \<open>A test with an idle body that only looks.\<close>

lemma idle_task:
  assumes "unlocked (Suc n) w" and "validate_task_config (fst (config b)) (fst (snd (config b))) = Ok ()"
    and "\<And>t w1. held n [t] w1 \<Longrightarrow> tk_count F w1 = tk_count F w \<Longrightarrow> tk_priority F t = snd (snd (config b)) \<Longrightarrow> body t w1 = (Ok (), w1)"
  shows "\<exists>w'. with_task F b no_op body w = (Ok (), w') \<and> unlocked n w'"
  using with_task_ok [OF _ assms(2) no_op_put, of n "[]" w body] assms(1,3) by (auto simp: unlocked_def)

lemma task_contract_idle:
  assumes "unlocked (Suc n) w"
  shows "\<exists>w'. create_with_default_config F w = (Ok (), w') \<and> unlocked n w'" "\<exists>w'. accept_empty_name F w = (Ok (), w') \<and> unlocked n w'"
    "\<exists>w'. accept_max_length_name F w = (Ok (), w') \<and> unlocked n w'" "\<exists>w'. positive_stack_size_succeeds F w = (Ok (), w') \<and> unlocked n w'"
    "\<exists>w'. join_returns_after_task_exit F w = (Ok (), w') \<and> unlocked n w'" "\<exists>w'. repeated_join_returns_cached F w = (Ok (), w') \<and> unlocked n w'"
    "\<exists>w'. handle_is_nonzero F w = (Ok (), w') \<and> unlocked n w'" "\<exists>w'. priority_is_preserved F w = (Ok (), w') \<and> unlocked n w'"
  unfolding create_with_default_config_def accept_empty_name_def accept_max_length_name_def positive_stack_size_succeeds_def
    join_returns_after_task_exit_def repeated_join_returns_cached_def handle_is_nonzero_def priority_is_preserved_def
  by (rule idle_task [OF assms]; force simp: config_simps joined join_done osal_assert_def observe_def unwrap_def dest: handles)+

lemma task_contract_rejected:
  "reject_nul_in_name F w = (Ok (), w)" "reject_overlong_name F w = (Ok (), w)" "reject_zero_stack F w = (Ok (), w)"
proof -
  have r: "expect_rejected (tk_spawn F b no_op) e w = (Ok (), w)"
    if "validate_task_config (fst (config b)) (fst (snd (config b))) = Err e" for b e
    by (simp add: expect_rejected_def spawn_rejects [OF that] observe_def osal_assert_def)
  show "reject_nul_in_name F w = (Ok (), w)" "reject_overlong_name F w = (Ok (), w)" "reject_zero_stack F w = (Ok (), w)"
    unfolding reject_nul_in_name_def reject_overlong_name_def reject_zero_stack_def by (rule r; simp add: config_simps)+
qed

lemma task_contract_statics:
  assumes "unlocked (Suc n) w"
  shows "\<exists>w'. spawn_runs_entry_exactly_once F w = (Ok (), w') \<and> unlocked n w'"
    and "\<exists>w'. current_from_within_task F w = (Ok (), w') \<and> unlocked n w'"
proof -
  have h: "held (Suc n) [] w" "st_count_lock (tk_statics F w) = 0" using assms by (simp_all add: unlocked_def)
  let ?w = "tk_put F ((tk_statics F w)\<lparr>st_counter := 0\<rparr>) w"
  have "\<exists>(h :: task_handle) w'. with_task F (tk_name F [101, 120, 97, 99, 116] (tk_builder F)) (count_body F) (\<lambda>task w.
       st_bind (join_forever F task w) (\<lambda>_ w. osal_assert (st_counter (tk_statics F w) = 1) w)) ?w = (Ok (), w')
      \<and> held n [] w' \<and> tk_statics F w' = (\<lambda>_ _ s. s\<lparr>st_counter := st_counter s + 1\<rparr>) (Some h) (tk_count F ?w + 1) (tk_statics F ?w)"
    by (rule with_task_ok [where f = "\<lambda>_ _ s. s\<lparr>st_counter := st_counter s + 1\<rparr>"])
      (auto simp: h put_held config_simps count_body_def joined osal_assert_def put_reads)
  then show "\<exists>w'. spawn_runs_entry_exactly_once F w = (Ok (), w') \<and> unlocked n w'"
    using h by (auto simp: spawn_runs_entry_exactly_once_def unlocked_def put_reads)
  let ?f = "\<lambda>c _ s. case c of Some h \<Rightarrow> s\<lparr>st_captured_raw := handle_get h\<rparr> | None \<Rightarrow> s"
  have "\<exists>(h :: task_handle) w'. current_from_within_task F w = (Ok (), w')
      \<and> held n [] w' \<and> tk_statics F w' = ?f (Some h) (tk_count F w + 1) (tk_statics F w)"
    unfolding current_from_within_task_def Let_def
  proof (rule with_task_ok [where f = ?f])
    show "current_body F w = tk_put F (?f (tk_current F w) (tk_count F w) (tk_statics F w)) w" for w
      by (simp add: current_body_def put_same split: option.split)
  qed (auto simp: h config_simps joined osal_assert_def dest: handles)
  then show "\<exists>w'. current_from_within_task F w = (Ok (), w') \<and> unlocked n w'"
    using h by (auto simp: unlocked_def)
qed

lemma task_contract_unique:
  assumes "unlocked (Suc (Suc n)) w"
  shows "\<exists>w'. handle_is_unique F w = (Ok (), w') \<and> unlocked n w'"
proof -
  have v: "validate_task_config (fst (config (tk_name F [97] (tk_builder F)))) (fst (snd (config (tk_name F [97] (tk_builder F))))) = Ok ()"
    "validate_task_config (fst (config (tk_name F [98] (tk_builder F)))) (fst (snd (config (tk_name F [98] (tk_builder F))))) = Ok ()"
    by (simp_all add: config_simps)
  have h: "held (Suc (Suc n)) [] w" using assms by (simp add: unlocked_def)
  obtain t1 w1 where 1: "tk_spawn F (tk_name F [97] (tk_builder F)) no_op w = (Ok t1, w1)" "held (Suc n) [t1] w1" "tk_statics F w1 = tk_statics F w"
    using spawn_runs [OF h v(1) no_op_put] by blast
  have "\<exists>(h :: task_handle) w'. with_task F (tk_name F [98] (tk_builder F)) no_op (\<lambda>t2 w. osal_assert (tk_handle F t1 \<noteq> tk_handle F t2) w) w1 = (Ok (), w')
      \<and> held n [t1] w' \<and> tk_statics F w' = tk_statics F w1"
    by (rule with_task_ok [OF 1(2) v(2) no_op_put]) (auto simp: osal_assert_def dest: handles)
  then obtain w2 where 2: "with_task F (tk_name F [98] (tk_builder F)) no_op (\<lambda>t2 w. osal_assert (tk_handle F t1 \<noteq> tk_handle F t2) w) w1 = (Ok (), w2)"
    "held n [t1] w2" "tk_statics F w2 = tk_statics F w1" by blast
  obtain w3 where "tk_drop F t1 w2 = (Ok (), w3)" "held n [] w3" "tk_statics F w3 = tk_statics F w2" using drop_ok [OF 2(2)] by blast
  then show ?thesis using 1 2 assms by (simp add: handle_is_unique_def with_task_def [of F "tk_name F [97] (tk_builder F)"] unwrap_def unlocked_def)
qed

lemma word_lt_inc: "(x :: usize) \<noteq> - 1 \<Longrightarrow> x < x + 1"
  by (simp add: word_less_nat_alt unat_add_1_word)

lemma task_contract_counts:
  assumes "unlocked (Suc n) w"
  shows "\<exists>w'. count_reflects_live_tasks F w = (Ok (), w') \<and> unlocked n w'"
    and "\<exists>w'. finished_task_not_in_count F w = (Ok (), w') \<and> unlocked n w'"
proof -
  have h: "held (Suc n) [] w" "st_count_lock (tk_statics F w) = 0" using assms by (simp_all add: unlocked_def)
  let ?f = "\<lambda>_ c s. s\<lparr>st_inside_count := c\<rparr>"
  let ?l = "tk_put F ((tk_statics F w)\<lparr>st_count_lock := 1\<rparr>) w"
  let ?w = "tk_put F ((tk_statics F ?l)\<lparr>st_inside_count := 0\<rparr>) ?l"
  have lock: "count_lock F w = (Ok (), ?l)" using h(2) by (simp add: count_lock_def)
  have hw: "held (Suc n) [] ?l" "held (Suc n) [] ?w" by (simp_all add: h put_held)
  have c: "tk_count F ?l = tk_count F w" "tk_count F ?w = tk_count F w" "tk_count F w \<noteq> - 1" using idle [OF h(1)] by (simp_all add: put_reads)
  have "\<exists>(h :: task_handle) w'. with_task F (tk_name F [99, 111, 117, 110, 116] (tk_builder F)) (inside_body F) (\<lambda>task v.
       st_bind (join_forever F task v) (\<lambda>_ v. st_bind (osal_assert (st_inside_count (tk_statics F v) > tk_count F ?w) v) (\<lambda>_ v.
       osal_assert (tk_count F v = tk_count F ?w) v))) ?w = (Ok (), w')
      \<and> held n [] w' \<and> tk_statics F w' = ?f (Some h) (tk_count F ?w + 1) (tk_statics F ?w)"
    by (rule with_task_ok [where f = ?f, OF hw(2)])
      (auto simp: config_simps inside_body_def joined osal_assert_def c word_lt_inc)
  then show "\<exists>w'. count_reflects_live_tasks F w = (Ok (), w') \<and> unlocked n w'"
    by (auto simp: count_reflects_live_tasks_def lock Let_def count_guard_drop_def unlocked_def put_reads put_held)
  have "\<exists>(h :: task_handle) w'. with_task F (tk_name F [102, 105, 110] (tk_builder F)) no_op (\<lambda>task v.
       st_bind (join_forever F task v) (\<lambda>_ v. osal_assert (tk_count F v = tk_count F ?l) v)) ?l = (Ok (), w')
      \<and> held n [] w' \<and> tk_statics F w' = tk_statics F ?l"
    by (rule with_task_ok [OF hw(1) _ no_op_put]) (auto simp: config_simps joined osal_assert_def)
  then show "\<exists>w'. finished_task_not_in_count F w = (Ok (), w') \<and> unlocked n w'"
    by (auto simp: finished_task_not_in_count_def lock Let_def count_guard_drop_def unlocked_def put_reads put_held)
qed

text \<open>The suite: each test uses up some of the handles.\<close>

definition spends :: "nat \<Rightarrow> ('w \<Rightarrow> unit res \<times> 'w) \<Rightarrow> bool" where
  "spends k c \<longleftrightarrow> (\<forall>n w. unlocked (n + k) w \<longrightarrow> (\<exists>w'. c w = (Ok (), w') \<and> unlocked n w'))"

lemma spends_run: "spends 0 (run_contracts [])" "spends k c \<Longrightarrow> spends m (run_contracts cs) \<Longrightarrow> spends (k + m) (run_contracts (c # cs))"
proof -
  show "spends 0 (run_contracts [])" by (simp add: spends_def)
  assume a: "spends k c" "spends m (run_contracts cs)"
  show "spends (k + m) (run_contracts (c # cs))" unfolding spends_def
  proof (intro allI impI)
    fix n w assume "unlocked (n + (k + m)) w"
    then have "unlocked ((n + m) + k) w" by (simp add: ac_simps)
    then obtain w1 where "c w = (Ok (), w1)" "unlocked (n + m) w1" using a(1) unfolding spends_def by blast
    moreover from this(2) obtain w2 where "run_contracts cs w1 = (Ok (), w2)" "unlocked n w2" using a(2) unfolding spends_def by blast
    ultimately show "\<exists>w'. run_contracts (c # cs) w = (Ok (), w') \<and> unlocked n w'" by simp
  qed
qed

lemma spends_contracts:
  "spends 1 (create_with_default_config F)" "spends 1 (accept_empty_name F)" "spends 1 (accept_max_length_name F)"
  "spends 0 (reject_nul_in_name F)" "spends 0 (reject_overlong_name F)" "spends 0 (reject_zero_stack F)"
  "spends 1 (positive_stack_size_succeeds F)" "spends 1 (spawn_runs_entry_exactly_once F)" "spends 1 (join_returns_after_task_exit F)"
  "spends 1 (repeated_join_returns_cached F)" "spends 1 (handle_is_nonzero F)" "spends 2 (handle_is_unique F)"
  "spends 1 (current_from_within_task F)" "spends 0 (current_from_main_is_none F)" "spends 1 (priority_is_preserved F)"
  "spends 1 (count_reflects_live_tasks F)" "spends 1 (finished_task_not_in_count F)"
  unfolding spends_def
  by (simp_all add: task_contract_idle task_contract_rejected task_contract_statics task_contract_unique task_contract_counts)
    (auto simp: current_from_main_is_none_def osal_assert_def unlocked_def dest: idle)

lemma task_contracts:
  assumes "unlocked (n + 14) w"
  shows "\<exists>w'. run_task_core_contracts F w = (Ok (), w') \<and> unlocked n w'"
proof -
  have "spends (1 + (1 + (1 + (0 + (0 + (0 + (1 + (1 + (1 + (1 + (1 + (2 + (1 + (0 + (1 + (1 + (1 + 0))))))))))))))))) (run_task_core_contracts F)"
    unfolding run_task_core_contracts_def by (intro spends_run spends_contracts)
  then show ?thesis using assms unfolding spends_def by simp
qed

end

section \<open>The mock backend\<close>

text \<open>The world of the mock with the statics of the tests.\<close>

record 'cb task_world = "'cb mock_world" +
  tw_statics :: task_statics

definition mock_task_kit :: "(('cb, 'z) task_world_scheme, mock_task_builder, mock_task) task_kit" where
  "mock_task_kit =
     \<lparr>tk_builder = mock_task_builder_new,
      tk_name = (\<lambda>name b. b\<lparr>mtb_name := name\<rparr>),
      tk_stack_size = (\<lambda>bytes b. b\<lparr>mtb_stack_size := bytes\<rparr>),
      tk_set_priority = (\<lambda>prio b. b\<lparr>mtb_priority := prio\<rparr>),
      tk_spawn = mock_task_spawn,
      tk_join = (\<lambda>t timeout w. (mock_task_join t timeout, w)),
      tk_handle = mtk_handle, tk_priority = mtk_priority, tk_current = mw_current, tk_count = mw_live_count,
      tk_drop = (\<lambda>_. mock_lease_drop), tk_statics = tw_statics, tk_put = (\<lambda>s w. w\<lparr>tw_statics := s\<rparr>)\<rparr>"

definition mock_tasks_held :: "nat \<Rightarrow> nat \<Rightarrow> mock_task list \<Rightarrow> 'cb task_world \<Rightarrow> bool" where
  "mock_tasks_held k n ts w \<longleftrightarrow> leases (k + length ts) (mw_lifecycle w) \<and> k + length ts + n \<le> unat lc_max_count
     \<and> mw_next_handle w \<noteq> 0 \<and> unat (mw_next_handle w) + n < 2 ^ 64 \<and> mw_current w = None \<and> mw_live_count w \<noteq> - 1
     \<and> distinct (map mtk_handle ts) \<and> (\<forall>t \<in> set ts. handle_get (mtk_handle t) \<noteq> 0 \<and> handle_get (mtk_handle t) < mw_next_handle w
        \<and> mtk_exit_code t = exit_success)"

lemma mock_spawn_held:
  assumes "mock_tasks_held k (Suc n) ts w" and "validate_task_config (mtb_name b) (mtb_stack_size b) = Ok ()"
    and "\<And>w :: 'cb task_world. entry w = w\<lparr>tw_statics := f (mw_current w) (mw_live_count w) (tw_statics w)\<rparr>"
  shows "\<exists>t w'. mock_task_spawn b entry w = (Ok t, w') \<and> mock_tasks_held k n (t # ts) w' \<and> mw_live_count w' = mw_live_count w
    \<and> tw_statics w' = f (Some (mtk_handle t)) (mw_live_count w + 1) (tw_statics w) \<and> mtk_priority t = mtb_priority b"
proof -
  let ?h = "mw_next_handle w"
  obtain y where y: "acquire (mw_lifecycle w) = (Ok (), y)" "leases (Suc (k + length ts)) y"
    using leases_acquire [of "k + length ts" "mw_lifecycle w"] assms(1) by (auto simp: mock_tasks_held_def)
  have h: "?h \<noteq> 0" "?h \<noteq> - 1" "unat (?h + 1) = Suc (unat ?h)"
    using assms(1) room_step [of ?h n] by (simp_all add: mock_tasks_held_def)
  have lt: "x < ?h \<Longrightarrow> x < ?h + 1" for x using h(3) by (simp add: word_less_nat_alt)
  have "?h < ?h + 1" "?h + 1 \<noteq> 0" using h(3) by (auto simp: word_less_nat_alt)
  moreover have "TaskHandle ?h \<notin> mtk_handle ` set ts"
  proof
    assume "TaskHandle ?h \<in> mtk_handle ` set ts"
    then obtain t where "t \<in> set ts" "handle_get (mtk_handle t) = ?h" by (metis image_iff task_handle.sel)
    then show False using assms(1) by (auto simp: mock_tasks_held_def)
  qed
  ultimately show ?thesis
    using assms y h lt
    by (simp add: mock_task_spawn_def mock_acquire_object_def on_lifecycle_def mock_allocate_task_handle_def handle_from_raw_def
      mock_tasks_held_def Let_def)
qed

lemma mock_task_delete:
  assumes "mock_tasks_held k n (t # ts) w"
  shows "\<exists>w'. mock_lease_drop w = (Ok (), w') \<and> mock_tasks_held k n ts w' \<and> tw_statics w' = tw_statics w"
proof -
  obtain y where "lease_drop (mw_lifecycle w) = (Ok (), y)" "leases (k + length ts) y"
    using leases_drop [of "k + length ts" "mw_lifecycle w"] assms by (auto simp: mock_tasks_held_def)
  then show ?thesis using assms by (auto simp: mock_lease_drop_def on_lifecycle_def mock_tasks_held_def)
qed

interpretation mocktask: immediate_tasks mock_task_kit "\<lambda>b. (mtb_name b, mtb_stack_size b, mtb_priority b)" "mock_tasks_held k"
  for k
proof
  fix n ts and w :: "'a task_world" and b :: mock_task_builder and e f and t :: mock_task
    and entry :: "'a task_world \<Rightarrow> 'a task_world"
  {
    assume "validate_task_config (fst (mtb_name b, mtb_stack_size b, mtb_priority b)) (fst (snd (mtb_name b, mtb_stack_size b, mtb_priority b))) = Err e"
    then show "tk_spawn mock_task_kit b entry w = (Err e, w)" by (simp add: mock_task_kit_def mock_task_spawn_def)
  next
    assume a: "mock_tasks_held k (Suc n) ts w" "\<And>w. entry w = tk_put mock_task_kit (f (tk_current mock_task_kit w) (tk_count mock_task_kit w) (tk_statics mock_task_kit w)) w"
      "validate_task_config (fst (mtb_name b, mtb_stack_size b, mtb_priority b)) (fst (snd (mtb_name b, mtb_stack_size b, mtb_priority b))) = Ok ()"
    show "\<exists>t w'. tk_spawn mock_task_kit b entry w = (Ok t, w') \<and> mock_tasks_held k n (t # ts) w' \<and> tk_count mock_task_kit w' = tk_count mock_task_kit w
        \<and> tk_statics mock_task_kit w' = f (Some (tk_handle mock_task_kit t)) (tk_count mock_task_kit w + 1) (tk_statics mock_task_kit w)
        \<and> tk_priority mock_task_kit t = snd (snd (mtb_name b, mtb_stack_size b, mtb_priority b))"
      using mock_spawn_held [OF a(1), of b entry f] a(2,3) by (simp add: mock_task_kit_def)
  next
    assume "mock_tasks_held k n (t # ts) w"
    from mock_task_delete [OF this]
    show "\<exists>w'. tk_drop mock_task_kit t w = (Ok (), w') \<and> mock_tasks_held k n ts w' \<and> tk_statics mock_task_kit w' = tk_statics mock_task_kit w"
      by (simp add: mock_task_kit_def)
  }
qed (auto simp: mock_task_kit_def mock_task_builder_new_def mock_task_join_def mock_tasks_held_def)

text \<open>The mock passes the task contracts: a spawned body runs exactly once, inside its own handle and counted as alive, its join returns at
  once and again, names and stack sizes are checked first, and no task or lease is left.\<close>

theorem mock_passes_task_contracts:
  fixes w :: "'cb task_world"
  assumes "leases k (mw_lifecycle w)" and "k + 14 \<le> unat lc_max_count" and "mw_next_handle w \<noteq> 0" and "unat (mw_next_handle w) + 14 < 2 ^ 64"
    and "mw_current w = None" and "mw_live_count w \<noteq> - 1" and "st_count_lock (tw_statics w) = 0"
  shows "\<exists>w'. run_task_core_contracts mock_task_kit w = (Ok (), w') \<and> leases k (mw_lifecycle w') \<and> mw_current w' = None"
proof -
  have "mocktask.unlocked k (0 + 14) w"
    unfolding mocktask.unlocked_def using assms by (simp add: mock_tasks_held_def mock_task_kit_def)
  from mocktask.task_contracts [OF this] show ?thesis by (auto simp: mocktask.unlocked_def mock_tasks_held_def)
qed

end
