(* ===== verification/Demo_Short.thy ===== *)
theory Demo_Short
  imports Contract_Mock Contract_Task Demo_Packet
begin

text \<open>
  The short demos (src/examples/osal-demo/src: mutex.rs, queue.rs, semaphore.rs, task.rs and timer.rs) as programs over a
  backend, in the frame of \<open>Demo_Runtime\<close>, and their runs on the mock backend. A result is \<open>Inl\<close> a demo error or \<open>Inr\<close> the
  report; \<open>None\<close> is a panic. An object whose scope ends early is dropped as at the end of the body.
\<close>

section \<open>Errors with context (error.rs)\<close>

type_synonym ('a, 's) demo_run = "((demo_error + 'a) \<times> 's) option"

definition demo_context :: "string \<Rightarrow> 'a res \<times> 's \<Rightarrow> ('a, 's) demo_run" where
  "demo_context operation rs =
     (case rs of (Ok x, s) \<Rightarrow> Some (Inr x, s) | (Err e, s) \<Rightarrow> Some (Inl (DemoOsal operation e), s) | (Panic _, _) \<Rightarrow> None)"

definition demo_bind :: "('a, 's) demo_run \<Rightarrow> ('a \<Rightarrow> 's \<Rightarrow> ('b, 's) demo_run) \<Rightarrow> ('b, 's) demo_run" where
  "demo_bind m f = (case m of None \<Rightarrow> None | Some (Inl e, s) \<Rightarrow> Some (Inl e, s) | Some (Inr x, s) \<Rightarrow> f x s)"

definition demo_check :: "bool \<Rightarrow> string \<Rightarrow> 's \<Rightarrow> (unit, 's) demo_run" where
  "demo_check b reason s = Some (if b then Inr () else Inl (DemoCheck reason), s)"

text \<open>The scope of an object.\<close>

definition demo_scope ::
  "('q \<Rightarrow> 'w \<Rightarrow> unit res \<times> 'w) \<Rightarrow> ('q \<times> 'w \<Rightarrow> ('a, 'q \<times> 'w) demo_run) \<Rightarrow> 'q \<Rightarrow> 'w \<Rightarrow> ('a, 'w) demo_run" where
  "demo_scope del body q w =
     (case body (q, w) of
        None \<Rightarrow> None
      | Some (r, q', w') \<Rightarrow> (case del q' w' of (Panic _, _) \<Rightarrow> None | (_, w'') \<Rightarrow> Some (r, w'')))"

text \<open>A call of the object in scope.\<close>

definition on_object :: "('q \<Rightarrow> 'a res \<times> 'q) \<Rightarrow> 'q \<times> 'w \<Rightarrow> 'a res \<times> 'q \<times> 'w" where
  "on_object call = (\<lambda>(q, w). case call q of (r, q') \<Rightarrow> (r, q', w))"

text \<open>The scope of a handle.\<close>

definition handle_scope ::
  "('q \<Rightarrow> 'w \<Rightarrow> unit res \<times> 'w) \<Rightarrow> nat \<Rightarrow> ('q arc_heap \<times> 'w \<Rightarrow> ('a, 'q arc_heap \<times> 'w) demo_run) \<Rightarrow> 'q arc_heap \<times> 'w
    \<Rightarrow> ('a, 'q arc_heap \<times> 'w) demo_run" where
  "handle_scope del i body s =
     (case body s of
        None \<Rightarrow> None
      | Some (r, s1) \<Rightarrow> (case arc_drop del i s1 of (Panic _, _) \<Rightarrow> None | (_, s2) \<Rightarrow> Some (r, s2)))"

section \<open>The programs\<close>

text \<open>The handles of the mutex are dropped in the reverse order of their creation, also after an error.\<close>

definition mutex_demo :: "('w, 'm) mutex_kit \<Rightarrow> 'w \<Rightarrow> (u32, 'w) demo_run" where
  "mutex_demo F w =
     demo_bind (demo_context ''mutex.create'' (mx_create F 0 w)) (\<lambda>m w.
     map_option (\<lambda>(r, h, w). (r, w)) (handle_scope (mx_drop F) 0 (\<lambda>s.
       demo_bind (demo_context ''mutex.lock'' (on_handle 0 (mx_lock F Forever) s)) (\<lambda>_ s.
       demo_bind (demo_context ''guard'' (on_handle 0 (\<lambda>m. mx_put F (mx_get F m + 1) m) s)) (\<lambda>_ s.
       demo_bind (demo_context ''guard'' (on_handle 0 (mx_unlock F) s)) (\<lambda>_ s.
       demo_bind (demo_context ''clone'' (clone_handle (mx_clone F) 0 s)) (\<lambda>cloned s.
       handle_scope (mx_drop F) cloned (\<lambda>s.
         demo_bind (demo_context ''mutex.clone.lock'' (on_handle cloned (mx_lock F Forever) s)) (\<lambda>_ s.
         let value = mx_get F (behind cloned s) in
         demo_bind (demo_context ''guard'' (on_handle cloned (mx_unlock F) s)) (\<lambda>_ s.
         demo_bind (demo_check (value = 1) ''mutex clone did not share protected value'' s) (\<lambda>_ s.
         Some (Inr value, s))))) s))))) ([(m, 1)], w)))"

record queue_report =
  qr_sent :: u32
  qr_received :: u32
  qr_final_len :: nat

definition queue_demo :: "('w, 'q) queue_kit \<Rightarrow> 'w \<Rightarrow> (queue_report, 'w) demo_run" where
  "queue_demo F w =
     demo_bind (demo_context ''queue.create'' (qk_create F 4 4 w)) (demo_scope (qk_drop F) (\<lambda>s.
     demo_bind (demo_context ''queue.send'' (on_object (qk_send F (to_le_bytes 1) NoWait) s)) (\<lambda>_ s.
     demo_bind (demo_context ''queue.recv''
       (on_object (\<lambda>q. case qk_recv F [0, 0, 0, 0] NoWait q of (r, q', out) \<Rightarrow> (res_bind r (\<lambda>_. Ok out), q')) s)) (\<lambda>buffer s.
     let value = from_le_bytes (buffer ! 0) (buffer ! 1) (buffer ! 2) (buffer ! 3) in
     demo_bind (demo_check (value = 1) ''queue payload mismatch'' s) (\<lambda>_ s.
     demo_bind (demo_context ''queue.len'' (qk_len F (fst s), s)) (\<lambda>final_len s.
     demo_bind (demo_check (final_len = 0) ''queue not drained after roundtrip'' s) (\<lambda>_ s.
     Some (Inr \<lparr>qr_sent = 1, qr_received = 1, qr_final_len = final_len\<rparr>, s))))))))"

record semaphore_report =
  sr_initial_count :: u32
  sr_after_acquire :: u32
  sr_after_release :: u32
  sr_binary_roundtrip :: bool

definition counting_demo :: "('w, 's) semaphore_kit \<Rightarrow> 's \<times> 'w \<Rightarrow> (u32 \<times> u32 \<times> u32, 's \<times> 'w) demo_run" where
  "counting_demo C s =
     demo_bind (demo_context ''semaphore.counting.count'' (sk_count C (fst s), s)) (\<lambda>initial_count s.
     demo_bind (demo_check (initial_count = 1) ''counting semaphore initial count'' s) (\<lambda>_ s.
     demo_bind (demo_context ''semaphore.counting.acquire'' (on_object (sk_acquire C NoWait) s)) (\<lambda>_ s.
     demo_bind (demo_context ''semaphore.counting.count'' (sk_count C (fst s), s)) (\<lambda>after_acquire s.
     demo_bind (demo_check (after_acquire = 0) ''counting semaphore acquire did not decrement'' s) (\<lambda>_ s.
     demo_bind (demo_context ''semaphore.counting.release'' (on_object (sk_release C) s)) (\<lambda>_ s.
     demo_bind (demo_context ''semaphore.counting.count'' (sk_count C (fst s), s)) (\<lambda>after_release s.
     demo_bind (demo_check (after_release = 1) ''counting semaphore release did not restore count'' s) (\<lambda>_ s.
     Some (Inr (initial_count, after_acquire, after_release), s)))))))))"

definition binary_demo :: "('w, 'b) binary_kit \<Rightarrow> 'b \<times> 'w \<Rightarrow> (unit, 'b \<times> 'w) demo_run" where
  "binary_demo B s =
     demo_bind (demo_context ''semaphore.binary.is_signaled'' (bk_is_signaled B (fst s), s)) (\<lambda>signaled s.
     demo_bind (demo_check (\<not> signaled) ''binary semaphore started signaled'' s) (\<lambda>_ s.
     demo_bind (demo_context ''semaphore.binary.release'' (on_object (bk_release B) s)) (\<lambda>_ s.
     demo_bind (demo_context ''semaphore.binary.is_signaled'' (bk_is_signaled B (fst s), s)) (\<lambda>signaled s.
     demo_bind (demo_check signaled ''binary semaphore release did not signal'' s) (\<lambda>_ s.
     demo_bind (demo_context ''semaphore.binary.acquire'' (on_object (bk_acquire B NoWait) s)) (\<lambda>_ s.
     demo_bind (demo_context ''semaphore.binary.is_signaled'' (bk_is_signaled B (fst s), s)) (\<lambda>signaled s.
     demo_check (\<not> signaled) ''binary semaphore acquire did not clear'' s)))))))"

text \<open>Both semaphores are alive at the end; the first is dropped first when the demo succeeds and last
  when it fails.\<close>

definition semaphore_demo ::
  "('w, 's) semaphore_kit \<Rightarrow> ('w, 'b) binary_kit \<Rightarrow> 'w \<Rightarrow> (semaphore_report, 'w) demo_run" where
  "semaphore_demo C B w =
     demo_bind (demo_context ''semaphore.counting.create'' (sk_create C 2 1 w)) (\<lambda>pool w.
     case counting_demo C (pool, w) of
       None \<Rightarrow> None
     | Some (Inl e, pool, w) \<Rightarrow> demo_scope (sk_drop C) (\<lambda>s. Some (Inl e, s)) pool w
     | Some (Inr (a, b, c), pool, w) \<Rightarrow>
         (case demo_context ''semaphore.binary.create'' (bk_create B w) of
            None \<Rightarrow> None
          | Some (Inl e, w) \<Rightarrow> demo_scope (sk_drop C) (\<lambda>s. Some (Inl e, s)) pool w
          | Some (Inr ready, w) \<Rightarrow>
              (case binary_demo B (ready, w) of
                 None \<Rightarrow> None
               | Some (Inl e, ready, w) \<Rightarrow>
                   Option.bind (demo_scope (bk_drop B) (\<lambda>s. Some (Inr (), s)) ready w) (\<lambda>(_, w).
                   demo_scope (sk_drop C) (\<lambda>s. Some (Inl e, s)) pool w)
               | Some (Inr _, ready, w) \<Rightarrow>
                   Option.bind (demo_scope (sk_drop C) (\<lambda>s. Some (Inr (), s)) pool w) (\<lambda>(_, w).
                   demo_scope (bk_drop B) (\<lambda>s. Some (Inr
                     \<lparr>sr_initial_count = a, sr_after_acquire = b, sr_after_release = c, sr_binary_roundtrip = True\<rparr>, s)) ready w))))"

text \<open>The flags that the worker of the task demo shares with its parent are read and written through \<open>get\<close> and \<open>put\<close>:
  whether it ran and whether it saw its own handle.\<close>

record task_report =
  tr_exit_code :: u32
  tr_worker_ran :: bool
  tr_current_identity_seen :: bool

definition task_demo_worker ::
  "('w, 'b, 't) task_kit \<Rightarrow> ('w \<Rightarrow> bool \<times> bool) \<Rightarrow> (bool \<times> bool \<Rightarrow> 'w \<Rightarrow> 'w) \<Rightarrow> 'w \<Rightarrow> 'w" where
  "task_demo_worker F get put w =
     (let w = (if tk_current F w \<noteq> None then put (fst (get w), True) w else w) in put (True, snd (get w)) w)"

definition task_demo ::
  "('w, 'b, 't) task_kit \<Rightarrow> ('w \<Rightarrow> bool \<times> bool) \<Rightarrow> (bool \<times> bool \<Rightarrow> 'w \<Rightarrow> 'w) \<Rightarrow> 'w \<Rightarrow> (task_report, 'w) demo_run" where
  "task_demo F get put w =
     demo_bind (demo_context ''task.spawn''
       (tk_spawn F (tk_set_priority F 1 (tk_name F [119, 111, 114, 107, 101, 114] (tk_builder F))) (task_demo_worker F get put)
         (put (False, False) w))) (demo_scope (tk_drop F) (\<lambda>(task, w).
     demo_bind (demo_context ''task.join'' (case tk_join F task Forever w of (r, w) \<Rightarrow> (r, task, w))) (\<lambda>exit s.
     demo_bind (demo_check (exit = exit_success) ''task exit code was not SUCCESS'' s) (\<lambda>_ s.
     demo_bind (demo_check (fst (get (snd s))) ''task entry did not run'' s) (\<lambda>_ s.
     demo_bind (demo_check (snd (get (snd s))) ''Task::current() returned None inside task'' s) (\<lambda>_ s.
     Some (Inr \<lparr>tr_exit_code = exit_code.exit_code exit, tr_worker_ran = True, tr_current_identity_seen = True\<rparr>, s)))))))"

definition timer_period_ms :: nat where "timer_period_ms = 10"

definition timer_wait_ms :: nat where "timer_wait_ms = 30"

definition timer_demo :: "('w, 't) timer_kit \<Rightarrow> 'w \<Rightarrow> (u32, 'w) demo_run" where
  "timer_demo F w =
     demo_bind (demo_context ''timer.create'' (tmk_create F (from_millis timer_period_ms) OneShot w)) (demo_scope (tmk_drop F) (\<lambda>(t, w).
     let lift = (\<lambda>rs. case rs of (r, w) \<Rightarrow> (r, t, w)) in
     demo_bind (demo_context ''timer.start'' (lift (tmk_start F t w))) (\<lambda>_ s.
     demo_bind (demo_context ''clock.delay'' (lift (tmk_advance F (from_millis timer_wait_ms) (snd s)))) (\<lambda>_ s.
     Option.bind (tmk_fired F t (snd s)) (\<lambda>callback_count.
     demo_bind (demo_check (callback_count = 1) ''one-shot timer did not fire exactly once'' s) (\<lambda>_ s.
     demo_bind (demo_context ''timer.stop'' (lift (tmk_stop F t (snd s)))) (\<lambda>_ s.
     Some (Inr callback_count, s))))))))"

lemmas demo_defs = demo_context_def demo_bind_def demo_check_def demo_scope_def on_object_def

section \<open>On the mock backend\<close>

definition mock_frame ::
  "('cb \<Rightarrow> 'cb mock_time_runtime option \<Rightarrow> 'cb \<times> 'cb mock_time_runtime option)
    \<Rightarrow> (('cb, 'z) mock_world_scheme \<Rightarrow> ('v, ('cb, 'z) mock_world_scheme) demo_run) \<Rightarrow> ('cb, 'z) mock_world_scheme
    \<Rightarrow> ('v, ('cb, 'z) mock_world_scheme) demo_run" where
  "mock_frame run = demo_with_runtime mock_initialize mock_shutdown mock_now (mock_delay run)"

text \<open>The words of the lifecycle: down, up, up with one and with two objects.\<close>

lemma demo_words:
  "begin_initialize lifecycle_new = (Ok (), 1)" "initialize_commit 1 = (Ok (), 2)" "acquire 2 = (Ok (), 6)" "acquire 6 = (Ok (), 10)"
  "lease_drop 6 = (Ok (), 2)" "lease_drop 10 = (Ok (), 6)" "begin_shutdown 2 = (Ok (), 3)" "shutdown_commit 3 = (Ok (), 0)"
  "decode_state 0 = Uninitialized"
  by code_simp+

text \<open>The body of a demo starts with the runtime up, no object and the clock at zero.\<close>

definition mock_up :: "('cb, 'z) mock_world_scheme \<Rightarrow> ('cb, 'z) mock_world_scheme" where
  "mock_up w = w\<lparr>mw_lifecycle := 2, mw_time := reset_runtime (mw_time w)\<rparr>"

lemma mock_frame_ok:
  assumes "mw_lifecycle w = lifecycle_new" and "body (mock_up w) = Some (Inr v, w2)" and "mw_lifecycle w2 = 2"
    and "as_nanos (mr_now (global_runtime (mw_time w2))) + 1000000000 < duration_limit"
  shows "\<exists>w'. mock_frame run body w = Some (Inr v, w') \<and> mock_state w' = Uninitialized \<and> mw_lifecycle w' = lifecycle_new"
proof -
  let ?rt = "global_runtime (mw_time w2)"
  have init: "mock_initialize w = (Ok (), mock_up w)"
    using assms(1) by (simp add: mock_initialize_def on_lifecycle_def demo_words mock_up_def)
  have now: "mock_now w2 = (mr_now ?rt, w2\<lparr>mw_time := Some ?rt\<rparr>)"
    by (simp add: mock_now_def mock_clock_now_def with_runtime_def)
  obtain deadline where d: "dur_checked_add (mr_now ?rt) settle_timeout = Some deadline"
    using assms(4) by (simp add: dur_checked_add_def settle_timeout_def duration_limit_eq)
  obtain w3 where "mock_shutdown (w2\<lparr>mw_time := Some ?rt\<rparr>) = (Ok (), w3)" "mw_lifecycle w3 = 0"
    using assms(3) by (simp add: mock_shutdown_def on_lifecycle_def demo_words)
  then have "shutdown_settled mock_shutdown mock_now (mock_delay run) w2 = Some (Inr (), w3) \<and> mw_lifecycle w3 = 0"
    by (simp add: shutdown_settled_def now d) (subst settle_loop.simps, simp)
  then show ?thesis using init assms(2)
    by (auto simp: mock_frame_def demo_with_runtime_def mock_state_def demo_words lifecycle_new_def)
qed

lemma up_clock: "mr_now (global_runtime (mw_time (mock_up w))) = duration_zero" "mw_lifecycle (mock_up w) = 2"
  by (simp_all add: mock_up_def reset_runtime_def with_runtime_def reset_and_detach_def global_runtime_def)

lemmas mock_lease_eval = mock_acquire_object_def mock_lease_drop_def on_lifecycle_def demo_words

lemma mutex_demo_mock:
  "mutex_demo mock_mutex_kit (mock_up w) = Some (Inr 1, mock_up w)"
  by (simp add: mutex_demo_def demo_defs handle_scope_def on_handle_def clone_handle_def arc_clone_def arc_drop_def behind_def
    mock_mutex_clone_def mock_mutex_kit_def mock_mutex_new_def mock_mutex_lock_def mock_mutex_guard_drop_def
    mock_lease_eval mock_up_def Let_def)

lemma semaphore_demo_mock:
  "semaphore_demo mock_semaphore_kit mock_binary_kit (mock_up w)
    = Some (Inr \<lparr>sr_initial_count = 1, sr_after_acquire = 0, sr_after_release = 1, sr_binary_roundtrip = True\<rparr>, mock_up w)"
  by (simp add: semaphore_demo_def counting_demo_def binary_demo_def demo_defs mock_semaphore_kit_def mock_binary_kit_def
    mock_semaphore_new_def mock_binary_semaphore_new_def cs_new_def mock_semaphore_acquire_def mock_semaphore_release_def
    cs_try_acquire_def cs_release_def mock_binary_is_signaled_def apply_timeout_def mock_lease_eval mock_up_def Let_def)

lemma queue_demo_mock:
  assumes "reserve 16"
  shows "queue_demo (mock_queue_kit reserve) (mock_up w) = Some (Inr \<lparr>qr_sent = 1, qr_received = 1, qr_final_len = 0\<rparr>, mock_up w)"
proof -
  obtain b where b: "byte_queue_new reserve 4 4 = Ok b" using assms by (simp add: byte_queue_new_def checked_mul_def usize_max_def)
  note n = byte_queue_new_inv [OF b]
  obtain r b1 where s: "try_send b (to_le_bytes 1) = (r, b1)" by (cases "try_send b (to_le_bytes 1)")
  note f = try_send_refines [OF n(1) s]
  obtain r' b2 out where v: "try_recv b1 [0, 0, 0, 0] = (r', b2, out)" by (cases "try_recv b1 [0, 0, 0, 0]")
  note g = try_recv_refines [OF f(1) v]
  have r: "r = Ok ()" "bq_abs b1 = \<lparr>fifo_msgs = [to_le_bytes 1], fifo_capacity = 4, fifo_message_size = 4, fifo_closed = False\<rparr>"
    using f(2) n(2) by (auto simp: fifo_send_def to_le_bytes_def)
  have r': "r' = Ok 4" "out = to_le_bytes 1" "fifo_msgs (bq_abs b2) = []"
    using arg_cong [OF g(2), of "\<lambda>x. fifo_msgs (fst (snd x))"] g(2) r(2) by (simp_all add: fifo_recv_def)
  from arg_cong [OF r'(3), of length] have len: "bq_len b2 = 0" by (simp add: bq_abs_def)
  have le: "from_le_bytes (to_le_bytes 1 ! 0) (to_le_bytes 1 ! Suc 0) (to_le_bytes 1 ! 2) (to_le_bytes 1 ! 3) = 1"
    using le_bytes_roundtrip [of 1] by (simp add: to_le_bytes_def eval_nat_numeral)
  show ?thesis
    by (simp add: queue_demo_def demo_defs mock_queue_kit_def mock_queue_new_def mock_queue_inner_new_def validate_queue_capacity_def
      validate_queue_message_size_def b plain_send_def mock_queue_send_no_fault s r(1) mock_queue_recv_def v r' le mock_queue_len_def len
      apply_timeout_def map_unit_def mock_lease_eval mock_up_def Let_def)
qed

text \<open>The timer demo, through the view of its timer.\<close>

lemma timer_demo_mock:
  "\<exists>w'. timer_demo mock_timer_kit (mock_up w) = Some (Inr 1, w') \<and> mw_lifecycle w' = 2
    \<and> as_nanos (mr_now (global_runtime (mw_time w'))) = 30000000"
proof -
  let ?F = "mock_timer_kit" and ?p = "from_millis timer_period_ms" and ?d = "from_millis timer_wait_ms"
  have p: "as_nanos ?p = 10000000" "as_nanos ?d = 30000000" by (simp_all add: timer_period_ms_def timer_wait_ms_def as_nanos_millis)
  have "decode_state 2 = Running" "decode_count 2 = 0" by code_simp+
  moreover have "0 < unat lc_max_count" using no_leases_room by (simp add: word_less_nat_alt)
  ultimately have "mock_timer_ready 0 1 (mock_up w)" and now: "mock_nanos (mock_up w) = 0"
    by (simp_all add: mock_timer_ready_def leases_def mock_timer_room_def mock_nanos_def mock_registry_def mock_up_def reset_runtime_def
      with_runtime_def reset_and_detach_def global_runtime_def)
  then obtain t w1 where 1: "tmk_create ?F ?p OneShot (mock_up w) = (Ok t, w1)" "mock_timer_holding 0 0 t w1" "mock_nanos w1 = 0"
      "mock_view t w1 = \<lparr>vw_period = 10000000, vw_mode = OneShot, vw_deadline = None, vw_fired = 0\<rparr>"
    using mocktimer.create_ok [of 0 0 "mock_up w" ?p OneShot] mocktimer.create_view [of 0 0 "mock_up w" ?p OneShot] p
    by (force simp: duration_eq_iff)
  obtain w2 where 2: "tmk_start ?F t w1 = (Ok (), w2)" "mock_timer_holding 0 0 t w2" "mock_nanos w2 = 0"
      "mock_view t w2 = \<lparr>vw_period = 10000000, vw_mode = OneShot, vw_deadline = Some 10000000, vw_fired = 0\<rparr>"
    using mocktimer.start_view [OF 1(2)] 1(3,4) by (auto simp: view_start_def duration_limit_eq)
  obtain w3 where 3: "tmk_advance ?F ?d w2 = (Ok (), w3)" "mock_timer_holding 0 0 t w3" "mock_nanos w3 = 30000000" "vw_fired (mock_view t w3) = 1"
    using mocktimer.advance_view [OF 2(2), of ?d] 2(3,4) p by (auto simp: view_advance_def duration_limit_eq)
  obtain w4 where 4: "tmk_stop ?F t w3 = (Ok (), w4)" "mock_timer_holding 0 0 t w4" "mock_nanos w4 = 30000000"
    using mocktimer.stop_ok [OF 3(2)] mocktimer.stop_view [OF 3(2)] 3(3) by force
  obtain w5 where 5: "tmk_drop ?F t w4 = (Ok (), w5)" "mock_timer_ready 0 0 w5" "mock_nanos w5 = 30000000"
    using mocktimer.drop_ok [OF 4(2)] mocktimer.drop_clock [OF 4(2)] 4(3) by force
  have "encode Running 0 = Ok 2" by code_simp
  then have "mw_lifecycle w5 = 2"
    using 5(2) encode_decode [of "mw_lifecycle w5"] by (simp add: mock_timer_ready_def leases_def unat_eq_0)
  then show ?thesis
    using 1 2 3 4 5 mocktimer.fired_view [OF 3(2)]
    by (simp add: timer_demo_def demo_defs Let_def mock_nanos_def mock_registry_def)
qed

text \<open>The task demo, in a world with the flags of its worker.\<close>

record 'cb worker_world = "'cb task_world" +
  ww_flags :: "bool \<times> bool"

lemma task_demo_mock:
  fixes w :: "'cb worker_world"
  assumes "mw_next_handle w \<noteq> 0" and "mw_next_handle w \<noteq> - 1"
  shows "\<exists>w'. task_demo mock_task_kit ww_flags (\<lambda>v w. w\<lparr>ww_flags := v\<rparr>) (mock_up w)
      = Some (Inr \<lparr>tr_exit_code = 0, tr_worker_ran = True, tr_current_identity_seen = True\<rparr>, w')
    \<and> mw_lifecycle w' = 2 \<and> mw_time w' = mw_time (mock_up w)"
  using assms
  by (simp add: task_demo_def task_demo_worker_def demo_defs mock_task_kit_def mock_task_spawn_def mock_task_builder_new_def
    validate_task_config_def task_name_max_bytes_def mock_allocate_task_handle_def handle_from_raw_def mock_task_join_def
    exit_success_def mock_lease_eval mock_up_def Let_def)

section \<open>Property\<close>

text \<open>Each short demo succeeds on the mock backend, from any state in which the runtime is down: it returns its
  report with the values that the program is meant to show (the value written through one handle of the mutex and read through its
  clone, one message sent and received, the counts of the semaphores, the exit code of the task, exactly one run of the
  one-shot timer), and leaves the runtime shut down with nothing alive.\<close>

theorem mock_demos_succeed:
  fixes w :: "u32 mock_world" and u :: "u32 worker_world"
  assumes "mw_lifecycle w = lifecycle_new" and "mw_lifecycle u = lifecycle_new" and "reserve 16"
    and "mw_next_handle u \<noteq> 0" and "mw_next_handle u \<noteq> - 1"
  shows "(\<exists>w'. mock_frame count_run (mutex_demo mock_mutex_kit) w = Some (Inr 1, w') \<and> mw_lifecycle w' = lifecycle_new)
    \<and> (\<exists>w'. mock_frame count_run (queue_demo (mock_queue_kit reserve)) w
        = Some (Inr \<lparr>qr_sent = 1, qr_received = 1, qr_final_len = 0\<rparr>, w') \<and> mw_lifecycle w' = lifecycle_new)
    \<and> (\<exists>w'. mock_frame count_run (semaphore_demo mock_semaphore_kit mock_binary_kit) w
        = Some (Inr \<lparr>sr_initial_count = 1, sr_after_acquire = 0, sr_after_release = 1, sr_binary_roundtrip = True\<rparr>, w')
        \<and> mw_lifecycle w' = lifecycle_new)
    \<and> (\<exists>w'. mock_frame count_run (timer_demo mock_timer_kit) w = Some (Inr 1, w') \<and> mw_lifecycle w' = lifecycle_new)
    \<and> (\<exists>u'. mock_frame count_run (task_demo mock_task_kit ww_flags (\<lambda>v w. w\<lparr>ww_flags := v\<rparr>)) u
        = Some (Inr \<lparr>tr_exit_code = 0, tr_worker_ran = True, tr_current_identity_seen = True\<rparr>, u') \<and> mw_lifecycle u' = lifecycle_new)"
proof (intro conjI)
  have z: "as_nanos duration_zero + 1000000000 < duration_limit" by (simp add: duration_limit_eq)
  note frame = mock_frame_ok [OF assms(1), where run = count_run]
  note up = up_clock [of w]
  show "\<exists>w'. mock_frame count_run (mutex_demo mock_mutex_kit) w = Some (Inr 1, w') \<and> mw_lifecycle w' = lifecycle_new"
    using frame [where body = "mutex_demo mock_mutex_kit", OF mutex_demo_mock] up z by auto
  show "\<exists>w'. mock_frame count_run (queue_demo (mock_queue_kit reserve)) w
      = Some (Inr \<lparr>qr_sent = 1, qr_received = 1, qr_final_len = 0\<rparr>, w') \<and> mw_lifecycle w' = lifecycle_new"
    using frame [where body = "queue_demo (mock_queue_kit reserve)", OF queue_demo_mock [of reserve, OF assms(3)]] up z by auto
  show "\<exists>w'. mock_frame count_run (semaphore_demo mock_semaphore_kit mock_binary_kit) w
      = Some (Inr \<lparr>sr_initial_count = 1, sr_after_acquire = 0, sr_after_release = 1, sr_binary_roundtrip = True\<rparr>, w')
      \<and> mw_lifecycle w' = lifecycle_new"
    using frame [where body = "semaphore_demo mock_semaphore_kit mock_binary_kit", OF semaphore_demo_mock] up z by auto
  obtain w1 where t: "timer_demo mock_timer_kit (mock_up w) = Some (Inr 1, w1)" "mw_lifecycle w1 = 2"
    "as_nanos (mr_now (global_runtime (mw_time w1))) = 30000000" using timer_demo_mock by blast
  show "\<exists>w'. mock_frame count_run (timer_demo mock_timer_kit) w = Some (Inr 1, w') \<and> mw_lifecycle w' = lifecycle_new"
    using frame [where body = "timer_demo mock_timer_kit", OF t(1,2)] t(3) by (auto simp: duration_limit_eq)
  obtain u1 where k: "task_demo mock_task_kit ww_flags (\<lambda>v w. w\<lparr>ww_flags := v\<rparr>) (mock_up u)
      = Some (Inr \<lparr>tr_exit_code = 0, tr_worker_ran = True, tr_current_identity_seen = True\<rparr>, u1)" "mw_lifecycle u1 = 2"
    "mw_time u1 = mw_time (mock_up u)" using task_demo_mock [OF assms(4,5)] by blast
  show "\<exists>u'. mock_frame count_run (task_demo mock_task_kit ww_flags (\<lambda>v w. w\<lparr>ww_flags := v\<rparr>)) u
      = Some (Inr \<lparr>tr_exit_code = 0, tr_worker_ran = True, tr_current_identity_seen = True\<rparr>, u') \<and> mw_lifecycle u' = lifecycle_new"
    using mock_frame_ok [OF assms(2), where body = "task_demo mock_task_kit ww_flags (\<lambda>v w. w\<lparr>ww_flags := v\<rparr>)" and run = count_run, OF k(1,2)] k(3) up_clock(1) [of u] z by auto
qed

theorem mock_demos_succeed_witness:
  "\<exists>w'. mock_frame count_run (timer_demo mock_timer_kit) mock_world_initial = Some (Inr 1, w') \<and> mw_lifecycle w' = lifecycle_new"
proof -
  let ?u = "\<lparr>mw_lifecycle = lifecycle_new, mw_time = None, mw_next_handle = 1, mw_live_count = 0, mw_current = None, mw_critical_depth = 0,
    tw_statics = \<lparr>st_count_lock = 0, st_counter = 0, st_captured_raw = 0, st_inside_count = 0\<rparr>, ww_flags = (False, False)\<rparr> :: u32 worker_world"
  have "mw_lifecycle (mock_world_initial :: u32 mock_world) = lifecycle_new" by (simp add: mock_world_initial_def)
  then show ?thesis using mock_demos_succeed [of mock_world_initial ?u "\<lambda>_. True"] by simp
qed

end
