(* ===== verification/Contract_Rtos.thy ===== *)
theory Contract_Rtos
  imports Contract_Backends Freertos_Queue Freertos_Native
begin

text \<open>
  The queue contracts on the FreeRTOS backend, for a task that is alone: a call that has to wait is not signalled, and
  its finite wait ends without a token. The object is the constructed queue with its wait protocol, whose wake
  semaphores are counters; the constructor and the drop are those of the runtime, with the native objects they create and
  delete. \<open>prep\<close> is the preparation of a wait budget by the kernel.
\<close>

section \<open>The kit\<close>

type_synonym rtos_test_queue = "rtos_queue \<times> counting_semaphore_state queue_inner"

definition wake_give :: "counting_semaphore_state \<Rightarrow> bool \<times> counting_semaphore_state" where
  "wake_give s = (case cs_release s of (r, s') \<Rightarrow> (is_ok r, s'))"

definition rtos_test_queue_new ::
  "'k native \<Rightarrow> (nat \<Rightarrow> bool) \<Rightarrow> nat \<Rightarrow> nat \<Rightarrow> ('k, 'cb) rtos_world \<Rightarrow> rtos_test_queue res \<times> ('k, 'cb) rtos_world" where
  "rtos_test_queue_new N reserve c m w =
     st_bind (rtos_queue_new N reserve c m w) (\<lambda>q w.
       let wake = \<lparr>cs_max_count = ucast (min (nv_max_semaphore_count N) (2 ^ 32 - 1)), cs_count = 0\<rparr>
       in (Ok (q, queue_inner_init (rqu_buffer q) wake wake), w))"

text \<open>A token that nobody gave would count as a failure, like a wait without end.\<close>

definition rtos_send_alone ::
  "(wait_budget \<Rightarrow> unit res \<times> wait_budget) \<Rightarrow> u8 list \<Rightarrow> timeout \<Rightarrow> counting_semaphore_state queue_inner
    \<Rightarrow> unit res \<times> counting_semaphore_state queue_inner" where
  "rtos_send_alone prep data t q =
     (case send_call q data t of
        SendTry d b \<Rightarrow>
          (case send_try prep wake_give d b q of
             (TryReturn r, q1) \<Rightarrow> (r, q1)
           | (TryBlock b1, q1) \<Rightarrow>
               if budget_finite b1
               then (case send_resume cs_try_acquire Unavailable q1 of
                       (Some r, q2) \<Rightarrow> (r, q2) | (None, q2) \<Rightarrow> (Panic ''a token that nobody gave'', q2))
               else (Panic ''no task is left to wake the caller'', q1))
      | Returned r \<Rightarrow> (r, q)
      | _ \<Rightarrow> (Panic ''not a send'', q))"

definition rtos_recv_alone ::
  "(wait_budget \<Rightarrow> unit res \<times> wait_budget) \<Rightarrow> u8 list \<Rightarrow> timeout \<Rightarrow> counting_semaphore_state queue_inner
    \<Rightarrow> unit res \<times> counting_semaphore_state queue_inner \<times> u8 list" where
  "rtos_recv_alone prep buf t q =
     (case recv_call q buf t of
        RecvTry d b \<Rightarrow>
          (case recv_try prep wake_give d b q of
             (TryReturn r, q1, out) \<Rightarrow> (r, q1, out)
           | (TryBlock b1, q1, out) \<Rightarrow>
               if budget_finite b1
               then (case recv_resume cs_try_acquire Unavailable q1 of
                       (Some r, q2) \<Rightarrow> (r, q2, out) | (None, q2) \<Rightarrow> (Panic ''a token that nobody gave'', q2, out))
               else (Panic ''no task is left to wake the caller'', q1, out))
      | Returned r \<Rightarrow> (r, q, buf)
      | _ \<Rightarrow> (Panic ''not a receive'', q, buf))"

definition rtos_queue_clone :: "nat \<Rightarrow> rtos_test_queue arc_heap \<Rightarrow> nat \<times> rtos_test_queue arc_heap" where
  "rtos_queue_clone = arc_clone"

definition rtos_queue_kit ::
  "'k native \<Rightarrow> (nat \<Rightarrow> bool) \<Rightarrow> (wait_budget \<Rightarrow> unit res \<times> wait_budget) \<Rightarrow> (('k, 'cb) rtos_world, rtos_test_queue) queue_kit" where
  "rtos_queue_kit N reserve prep =
     \<lparr>qk_create = rtos_test_queue_new N reserve,
      qk_clone = rtos_queue_clone,
      qk_drop = (\<lambda>q. rtos_queue_drop N (fst q)),
      qk_send = (\<lambda>data t (h, q). case rtos_send_alone prep data t q of (r, q1) \<Rightarrow> (r, h, q1)),
      qk_recv = (\<lambda>buf t (h, q). case rtos_recv_alone prep buf t q of (r, q1, out) \<Rightarrow> (r, (h, q1), out)),
      qk_close = (\<lambda>(h, q). case close_locked wake_give q of (r, q1) \<Rightarrow> (r, h, q1)),
      qk_capacity = (\<lambda>(h, q). qi_capacity q),
      qk_msg_size = (\<lambda>(h, q). qi_message_size q),
      qk_len = (\<lambda>(h, q). Ok (bq_len (qi_buffer q)))\<rparr>"

section \<open>Waits of a task that is alone\<close>

text \<open>No task is registered and no token is pending.\<close>

definition quiet :: "counting_semaphore_state wait_side \<Rightarrow> bool" where
  "quiet sd \<longleftrightarrow> sd_waiters sd = 0 \<and> sd_credits sd = 0 \<and> cs_count (sd_wake sd) = 0"

definition rtos_quiet :: "rtos_test_queue \<Rightarrow> bool" where
  "rtos_quiet q \<longleftrightarrow> bq_inv (qi_buffer (snd q)) \<and> quiet (qi_senders (snd q)) \<and> quiet (qi_receivers (snd q))
     \<and> qi_capacity (snd q) = bq_capacity (qi_buffer (snd q)) \<and> qi_message_size (snd q) = bq_message_size (qi_buffer (snd q))"

definition rtos_fifo :: "rtos_test_queue \<Rightarrow> fifo" where
  "rtos_fifo q = bq_abs (qi_buffer (snd q))"

text \<open>The scheduler runs and the deadline of the contracts' wait can be represented.\<close>

definition rtos_kit_clock :: "(wait_budget \<Rightarrow> unit res \<times> wait_budget) \<Rightarrow> bool" where
  "rtos_kit_clock prep \<longleftrightarrow> (\<exists>v. prep (BudgetFinite ten_ms None False) = (Ok (), BudgetFinite ten_ms (Some v) True))"

lemma ten_ms_nonzero: "ten_ms \<noteq> duration_zero"
  by (simp add: ten_ms_def duration_eq_iff duration_limit_eq)

text \<open>Waiting on a quiet side leaves it quiet, with the error of the timeout.\<close>

lemma quiet_signal: "quiet sd \<Longrightarrow> signal_one wake_give sd = (Ok (), sd)"
  by (simp add: quiet_def signal_one_def)

lemma quiet_block:
  assumes "quiet sd" and "kit_timeout t" and "rtos_kit_clock prep"
  shows "if t = NoWait then block_on prep e (budget_new t) sd = (TryReturn (Err e), sd)
    else block_on prep e (budget_new t) sd = (TryReturn (Err Timeout), sd)
      \<or> (\<exists>b. block_on prep e (budget_new t) sd = (TryBlock b, sd\<lparr>sd_waiters := 1\<rparr>) \<and> budget_finite b
        \<and> resume_side cs_try_acquire Unavailable x (sd\<lparr>sd_waiters := 1\<rparr>) = (Some (Err x), sd))"
  using assms ten_ms_nonzero
  by (cases sd) (auto simp: kit_timeout_def budget_new_def block_on_def rtos_kit_clock_def quiet_def register_waiter_def checked_add_def
    u32_max_def resume_side_def cs_try_acquire_def checked_sub_def)

lemma rtos_kit_send:
  assumes "rtos_quiet q" and "kit_timeout t" and "rtos_kit_clock prep"
  shows "\<exists>q'. qk_send (rtos_queue_kit N reserve prep) d t q = (fst (fifo_send_timed t d (rtos_fifo q)), q') \<and> rtos_quiet q'
    \<and> rtos_fifo q' = snd (fifo_send_timed t d (rtos_fifo q))"
proof -
  obtain h qi where q: "q = (h, qi)" by (cases q)
  let ?b = "qi_buffer qi"
  have inv: "bq_inv ?b" "quiet (qi_senders qi)" "quiet (qi_receivers qi)" "qi_message_size qi = bq_message_size ?b"
    using assms(1) by (simp_all add: rtos_quiet_def q)
  obtain r b1 where s: "try_send ?b d = (r, b1)" by (cases "try_send ?b d")
  note ref = try_send_refines [OF inv(1) s]
  note blk = quiet_block [OF inv(2) assms(2,3), of QueueFull "if bq_closed b1 then QueueClosed else Timeout"]
  note sig = quiet_signal [OF inv(3)]
  note ev = rtos_queue_kit_def rtos_send_alone_def send_call_def validate_send_message_size_def rtos_fifo_def rtos_quiet_def q
    fifo_send_timed_def fifo_send_def send_try_def
  have keeps: "bq_capacity b1 = bq_capacity ?b \<and> bq_message_size b1 = bq_message_size ?b \<and> (\<not> is_ok r \<longrightarrow> b1 = ?b)"
    using s ring.send_invar [OF inv(1) s] by (auto simp: try_send_def Let_def split: if_splits option.splits)
  consider "length d \<noteq> bq_message_size ?b" | "length d = bq_message_size ?b" "bq_closed ?b"
    | "length d = bq_message_size ?b" "\<not> bq_closed ?b" "r = Err QueueFull" | "length d = bq_message_size ?b" "\<not> bq_closed ?b" "r = Ok ()"
    using ref(2) by (auto simp: fifo_send_def bq_abs_def split: if_splits)
  then show ?thesis
  proof cases
    case 3
    have b1: "b1 = ?b" "fifo_send (bq_abs ?b) d = (Err QueueFull, bq_abs ?b)" using keeps ref(2) 3(3) by simp_all
    have same: "qi\<lparr>qi_buffer := ?b, qi_senders := qi_senders qi\<rparr> = qi" by simp
    have "rtos_send_alone prep d t qi = (fst (fifo_send_timed t d (bq_abs ?b)), qi)"
      using blk 3 s b1 inv(4)
      by (auto simp: rtos_send_alone_def send_call_def validate_send_message_size_def send_try_def send_resume_def fifo_send_timed_def
        timed_result_def Let_def split: if_splits timeout.splits) (use assms(2) in \<open>auto simp: kit_timeout_def\<close>)
    then show ?thesis using assms(1) b1(2) by (auto simp: rtos_queue_kit_def q rtos_fifo_def rtos_quiet_def fifo_send_timed_def)
  next
    case 4
    have "rtos_send_alone prep d t qi = (Ok (), qi\<lparr>qi_buffer := b1\<rparr>)"
      using 4 s inv(4) sig
      by (simp add: rtos_send_alone_def send_call_def validate_send_message_size_def send_try_def signal_one_receiver_def Let_def)
    then show ?thesis using assms(1,2) ref keeps 4(3)
      by (auto simp: rtos_queue_kit_def q rtos_fifo_def rtos_quiet_def fifo_send_timed_def timed_result_def split: timeout.splits)
  qed (use assms(1,2) inv in \<open>auto simp: ev timed_result_def kit_timeout_def bq_abs_def\<close>)
qed

lemma rtos_kit_recv:
  assumes "rtos_quiet q" and "kit_timeout t" and "rtos_kit_clock prep"
  shows "\<exists>q'. recv_into (rtos_queue_kit N reserve prep) buf t q = (fst (fifo_recv_timed t buf (rtos_fifo q)), q') \<and> rtos_quiet q'
    \<and> rtos_fifo q' = snd (fifo_recv_timed t buf (rtos_fifo q))"
proof -
  obtain h qi where q: "q = (h, qi)" by (cases q)
  let ?b = "qi_buffer qi"
  have inv: "bq_inv ?b" "quiet (qi_senders qi)" "quiet (qi_receivers qi)" "qi_message_size qi = bq_message_size ?b"
    using assms(1) by (simp_all add: rtos_quiet_def q)
  obtain r b1 out where s: "try_recv ?b buf = (r, b1, out)" by (cases "try_recv ?b buf")
  note ref = try_recv_refines [OF inv(1) s]
  have keeps: "bq_capacity b1 = bq_capacity ?b \<and> bq_message_size b1 = bq_message_size ?b \<and> (\<not> is_ok r \<longrightarrow> b1 = ?b)"
    using s ring.recv_invar [OF inv(1) s] by (auto simp: try_recv_def Let_def split: if_splits option.splits)
  note blk = quiet_block [OF inv(3) assms(2,3), of QueueEmpty "if bq_closed ?b \<and> bq_is_empty ?b then QueueClosed else Timeout"]
  note sig = quiet_signal [OF inv(2)]
  consider "length buf \<noteq> bq_message_size ?b" | "length buf = bq_message_size ?b" "r = Err QueueClosed"
    | "length buf = bq_message_size ?b" "r = Err QueueEmpty" "\<not> bq_closed ?b" | n where "length buf = bq_message_size ?b" "r = Ok n"
    using ref(2) by (auto simp: fifo_recv_def bq_abs_def split: if_splits list.splits)
  then show ?thesis
  proof cases
    case 1
    then show ?thesis using assms(1,2) inv
      by (auto simp: recv_into_def rtos_queue_kit_def rtos_recv_alone_def recv_call_def validate_recv_buffer_size_def rtos_fifo_def q
        fifo_recv_timed_def fifo_recv_def timed_result_def kit_timeout_def bq_abs_def)
  next
    case 2
    have "rtos_recv_alone prep buf t qi = (Err QueueClosed, qi, out)"
      using 2 s inv(4) keeps by (simp add: rtos_recv_alone_def recv_call_def validate_recv_buffer_size_def recv_try_def Let_def)
    then show ?thesis using assms(1,2) ref(2) 2 keeps
      by (auto simp: recv_into_def rtos_queue_kit_def q rtos_fifo_def fifo_recv_timed_def timed_result_def split: timeout.splits)
  next
    case 3
    have "rtos_recv_alone prep buf t qi = (timed_result t QueueEmpty (Err QueueEmpty), qi, out)"
      using blk 3 s keeps inv(4)
      by (auto simp: rtos_recv_alone_def recv_call_def validate_recv_buffer_size_def recv_try_def recv_resume_def
        timed_result_def Let_def split: if_splits timeout.splits) (use assms(2) in \<open>auto simp: kit_timeout_def\<close>)
    then show ?thesis using assms(1,2) ref(2) 3 keeps
      by (auto simp: recv_into_def rtos_queue_kit_def q rtos_fifo_def fifo_recv_timed_def timed_result_def split: timeout.splits)
  next
    case 4
    have "rtos_recv_alone prep buf t qi = (Ok (), qi\<lparr>qi_buffer := b1\<rparr>, out)"
      using 4 s inv(4) sig
      by (simp add: rtos_recv_alone_def recv_call_def validate_recv_buffer_size_def recv_try_def signal_one_sender_def Let_def)
    then show ?thesis using assms(1,2) ref keeps 4
      by (auto simp: recv_into_def rtos_queue_kit_def q rtos_fifo_def rtos_quiet_def fifo_recv_timed_def timed_result_def split: timeout.splits)
  qed
qed

lemma quiet_broadcast: "quiet sd \<Longrightarrow> broadcast_wake wake_give sd = (Ok True, sd)"
  by (simp add: quiet_def broadcast_wake_def checked_sub_def)

lemma rtos_kit_close:
  assumes "rtos_quiet q"
  shows "\<exists>q'. qk_close (rtos_queue_kit N reserve prep) q = (Ok (), q') \<and> rtos_quiet q' \<and> rtos_fifo q' = fifo_close (rtos_fifo q)"
proof -
  obtain h qi where q: "q = (h, qi)" by (cases q)
  then have inv: "bq_inv (qi_buffer qi)" "quiet (qi_senders qi)" "quiet (qi_receivers qi)" using assms by (simp_all add: rtos_quiet_def)
  note c = bq_close_refines [OF inv(1)]
  have "fifo_close (bq_abs (qi_buffer qi)) = bq_abs (qi_buffer qi)" if "bq_closed (qi_buffer qi)"
    using that by (simp add: fifo_close_def bq_abs_def)
  then show ?thesis using assms c inv
    by (auto simp: rtos_queue_kit_def q close_locked_def quiet_broadcast rtos_quiet_def rtos_fifo_def bq_close_def Let_def)
qed

section \<open>Construction and drop\<close>

text \<open>A kernel in a state \<open>P\<close> whose heap serves the requests, and memory for the buffers.\<close>

definition rtos_benign :: "('k \<Rightarrow> bool) \<Rightarrow> 'k native \<Rightarrow> (nat \<Rightarrow> bool) \<Rightarrow> bool" where
  "rtos_benign P N reserve \<longleftrightarrow>
     (\<forall>k. P k \<longrightarrow> (\<exists>h k'. nv_mutex_create N k = (Some h, k') \<and> P k'))
     \<and> (\<forall>mx k. P k \<longrightarrow> (\<exists>h k'. nv_counting_create N mx 0 k = (Some h, k') \<and> P k'))
     \<and> (\<forall>h k. P k \<longrightarrow> P (nv_mutex_delete N h k) \<and> P (nv_sem_delete N h k)) \<and> (\<forall>k \<le> 32. reserve k)"

lemma rtos_benign_natives:
  assumes N: "rtos_benign P N reserve" and "P k"
  obtains q k' where "rtos_queue_natives N b k = (Ok q, k')" and "rqu_buffer q = b" and "P k'"
proof -
  let ?mx = "ucast (min (nv_max_semaphore_count N) (2 ^ 32 - 1)) :: u32"
  obtain m k1 where m: "nv_mutex_create N k = (Some m, k1)" "P k1" using assms unfolding rtos_benign_def by blast
  obtain sw k2 where s: "nv_counting_create N ?mx 0 k1 = (Some sw, k2)" "P k2" using N m(2) unfolding rtos_benign_def by blast
  obtain rw k3 where r: "nv_counting_create N ?mx 0 k2 = (Some rw, k3)" "P k3" using N s(2) unfolding rtos_benign_def by blast
  show thesis using that m s r by (simp add: rtos_queue_natives_def)
qed

lemma rtos_kit_create:
  assumes "leases n (rw_lifecycle w)" and "n < unat lc_max_count" and N: "rtos_benign P N reserve"
    and "0 < c" and "0 < m" and "c * m \<le> 32" and "P (rw_native w)"
  shows "\<exists>q w'. rtos_test_queue_new N reserve c m w = (Ok q, w') \<and> rtos_quiet q \<and> rtos_fifo q = fifo_new c m
    \<and> leases (Suc n) (rw_lifecycle w') \<and> P (rw_native w')"
proof -
  obtain y where y: "acquire (rw_lifecycle w) = (Ok (), y)" "leases (Suc n) y"
    using leases_acquire [OF assms(1,2)] by blast
  obtain b where b: "byte_queue_new reserve c m = Ok b"
    using assms(3-6) by (simp add: rtos_benign_def byte_queue_new_def checked_mul_def usize_max_def)
  obtain q k where k: "rtos_queue_natives N b (rw_native w) = (Ok q, k)" "rqu_buffer q = b" "P k"
    using rtos_benign_natives [OF N assms(7)] by blast
  from byte_queue_new_inv [OF b] show ?thesis
    using y b k assms(4,5)
    by (simp add: rtos_test_queue_new_def rtos_queue_new_def rtos_leased_def on_native_def validate_queue_capacity_def
        validate_queue_message_size_def rtos_acquire_object_def on_rtos_lifecycle_def fifo_new_def rtos_quiet_def rtos_fifo_def
        quiet_def queue_inner_init_def Let_def)
qed

definition rtos_ready ::
  "('k \<Rightarrow> bool) \<Rightarrow> 'k native \<Rightarrow> (nat \<Rightarrow> bool) \<Rightarrow> (wait_budget \<Rightarrow> unit res \<times> wait_budget) \<Rightarrow> nat \<Rightarrow> ('k, 'cb) rtos_world \<Rightarrow> bool" where
  "rtos_ready P N reserve prep n w \<longleftrightarrow>
     rtos_kit_clock prep \<and> rtos_benign P N reserve \<and> n < unat lc_max_count \<and> leases n (rw_lifecycle w)
     \<and> P (rw_native w)"

definition rtos_holding ::
  "('k \<Rightarrow> bool) \<Rightarrow> 'k native \<Rightarrow> (nat \<Rightarrow> bool) \<Rightarrow> (wait_budget \<Rightarrow> unit res \<times> wait_budget) \<Rightarrow> nat \<Rightarrow> ('k, 'cb) rtos_world \<Rightarrow> bool" where
  "rtos_holding P N reserve prep n w \<longleftrightarrow>
     rtos_kit_clock prep \<and> rtos_benign P N reserve \<and> n < unat lc_max_count \<and> leases (Suc n) (rw_lifecycle w)
     \<and> P (rw_native w)"

lemma rtos_holding_drop:
  "rtos_holding P N reserve prep n w \<Longrightarrow> \<exists>w'. rtos_queue_drop N q w = (Ok (), w') \<and> rtos_ready P N reserve prep n w'"
  using leases_drop [of n "rw_lifecycle w"]
  by (auto simp: rtos_holding_def rtos_ready_def rtos_queue_drop_def rtos_lease_drop_def on_rtos_lifecycle_def set_native_def
    rtos_benign_def)

section \<open>The contracts\<close>

interpretation rtostest: tested_object rtos_fifo "\<lambda>q. rtos_kit_clock prep \<and> rtos_quiet q"
  "qk_drop (rtos_queue_kit N reserve prep)" "rtos_ready P N reserve prep n" "rtos_holding P N reserve prep n"
  for P N reserve prep n
  using rtos_holding_drop by unfold_locales (simp add: rtos_queue_kit_def)

interpretation rtoskit: queue_backend "rtos_queue_kit N reserve prep" rtos_fifo "\<lambda>q. rtos_kit_clock prep \<and> rtos_quiet q"
  "rtos_ready P N reserve prep n" "rtos_holding P N reserve prep n"
  for P N reserve prep n
proof (unfold_locales, goal_cases)
  case (1 c m)
  then show ?case
    unfolding rtostest.makes_def using rtos_kit_create [of n _ P N reserve c m]
    by (auto simp: rtos_queue_kit_def rtos_ready_def rtos_holding_def)
next
  case (2 c m w)
  then show ?case
    by (auto simp: rtos_queue_kit_def rtos_test_queue_new_def rtos_queue_new_def validate_queue_capacity_def
        validate_queue_message_size_def)
next
  case (3 t d)
  then show ?case unfolding rtostest.refines_def using rtos_kit_send by blast
next
  case (4 t b)
  then show ?case unfolding rtostest.refines_def using rtos_kit_recv by blast
next
  case 5
  then show ?case unfolding rtostest.refines_def unfolding fst_conv snd_conv using rtos_kit_close by blast
next
  case (6 i h)
  then show ?case by (simp add: rtos_queue_kit_def rtos_queue_clone_def)
next
  case (7 q)
  then show ?case by (cases q) (auto simp: rtos_queue_kit_def rtos_quiet_def rtos_fifo_def)
qed

definition rtos_queue_contracts ::
  "'k native \<Rightarrow> (nat \<Rightarrow> bool) \<Rightarrow> (wait_budget \<Rightarrow> unit res \<times> wait_budget) \<Rightarrow> ('k, 'cb) rtos_world
    \<Rightarrow> unit res \<times> ('k, 'cb) rtos_world" where
  "rtos_queue_contracts N reserve prep = run_contracts
     [run_queue_contracts (rtos_queue_kit N reserve prep), run_clone_contracts (rtos_queue_kit N reserve prep)]"

text \<open>The preparation by a kernel whose scheduler runs and whose clock is not at its end.\<close>

lemma rtos_kit_clock_kernel:
  assumes "kn_scheduler K k = SchedRunning" and "freertos_now K k = Ok now" and "dur_checked_add now ten_ms = Some v"
  shows "rtos_kit_clock (prepare_blocking K k)"
  using assms
  by (simp add: rtos_kit_clock_def prepare_blocking_def ensure_blocking_allowed_def budget_deadline_def ok_or_def)

text \<open>The FreeRTOS queue passes the contracts for a task that is alone, and returns every lease.\<close>

theorem rtos_queue_passes_contracts:
  assumes "rtos_benign P N reserve" and "P (rw_native w)" and "rtos_kit_clock prep"
    and "rtos_state w = Running" and "rtos_active_objects w < lc_max_count"
  shows "\<exists>w'. rtos_queue_contracts N reserve prep w = (Ok (), w') \<and> rtos_state w' = Running
    \<and> rtos_active_objects w' = rtos_active_objects w"
proof -
  have "rtos_ready P N reserve prep (unat (rtos_active_objects w)) w"
    using assms by (simp add: rtos_ready_def leases_def rtos_state_def rtos_active_objects_def word_less_nat_alt)
  moreover have "rtostest.clean P N reserve prep (unat (rtos_active_objects w)) (rtos_queue_contracts N reserve prep)"
    unfolding rtos_queue_contracts_def by (intro rtostest.clean_run rtoskit.clean_suite rtoskit.clean_clones)
  ultimately show ?thesis
    unfolding rtostest.clean_def
    by (fastforce simp: rtos_ready_def leases_def rtos_state_def rtos_active_objects_def word_unat_eq_iff)
qed

text \<open>The host fixture serves the requests while no failure is injected.\<close>

definition host_serves :: "host \<Rightarrow> bool" where
  "host_serves h \<longleftrightarrow> \<not> fx_fail_next_mutex_create (h_sync h) \<and> \<not> fx_fail_next_sem_create (h_sync h)"

lemma host_benign: "rtos_benign host_serves host_native (\<lambda>_. True)"
  by (auto simp: rtos_benign_def host_serves_def host_native_def on_sync_def fixture_mutex_create_def
    fixture_counting_semaphore_create_def fixture_mutex_delete_def fixture_semaphore_delete_def set_mutex_def set_sem_def Let_def
    split: option.splits prod.splits)

lemma fixture_kit_clock: "rtos_kit_clock (prepare_blocking fixture_kernel demo_fixture)"
proof (rule rtos_kit_clock_kernel)
  have "kernel_ticks fixture_kernel demo_fixture = 0"
    using demo_fixture_ok(1)
    by (simp add: fixture_kernel_ticks fixture_ticks_def demo_fixture_def fixture_counting_semaphore_create_def
      fixture_initial_def total_ticks_def read_tick_fixture_def)
  then show "freertos_now fixture_kernel demo_fixture = Ok (of_nanos 0)"
    using fixdelay.now_value [of demo_fixture] demo_fixture_ok(1) by (simp add: tick_nanos_def)
  show "dur_checked_add (of_nanos 0) ten_ms = Some ten_ms" by (simp add: dur_checked_add_Some_iff duration_limit_eq)
qed (simp add: fixture_kernel_def)

lemma host_serves_started:
  fixes w :: "(host, nat) rtos_world"
  assumes "freertos_initialize host_native (rtos_world_initial host_initial) = (Ok (), w)"
  shows "host_serves (rw_native w)"
proof -
  have served: "host_serves (snd (timer_service_new host_native host_initial :: nat timer_service res \<times> host))"
    by (simp add: timer_service_new_def host_native_def on_sync_def on_tasks_def host_initial_def
      fixture_mutex_create_def fixture_binary_semaphore_create_def fixture_counting_semaphore_create_def
      fixture_event_group_create_def fixture_initial_def task_fixture_initial_def Let_def host_serves_def)
  from assms show ?thesis by (rule initialize_ok) (use served in simp)
qed

theorem rtos_queue_passes_contracts_witness:
  "\<exists>w w'. freertos_initialize host_native (rtos_world_initial host_initial :: (host, nat) rtos_world) = (Ok (), w)
    \<and> rtos_queue_contracts host_native (\<lambda>_. True) (prepare_blocking fixture_kernel demo_fixture) w = (Ok (), w')
    \<and> rtos_active_objects w' = 0"
proof -
  obtain w :: "(host, nat) rtos_world" where
    w: "freertos_initialize host_native (rtos_world_initial host_initial) = (Ok (), w)"
    by (rule demo_init)
  then have "rtos_state w = Running" "rtos_active_objects w = 0"
    by (rule initialize_ok; simp add: unat_eq_zero)+
  then show ?thesis
    using rtos_queue_passes_contracts [OF host_benign host_serves_started [OF w] fixture_kit_clock] w no_leases_room by auto
qed

end
