(* ===== verification/Freertos_Alone.thy ===== *)
theory Freertos_Alone
  imports Contract_Rtos
begin

text \<open>
  The complete calls of the FreeRTOS queue for a task that no other task signals: the loop around the sections under
  the mutex, with the waits of wait.rs on the kernel's clock. A take of an empty semaphore that nobody gives
  times out after the ticks it was given; \<open>idle\<close> is the passing of these ticks. A call that is blocked either returns the
  refusal of the scheduler, or its timeout, and then not before the timeout has passed.
\<close>

section \<open>The calls\<close>

definition with_wake :: "'k kernel \<Rightarrow> ('s \<times> 'k) kernel" where
  "with_wake K = \<lparr>kn_snapshot = (\<lambda>(_, k). kn_snapshot K k), kn_scheduler = (\<lambda>(_, k). kn_scheduler K k),
     kn_max_finite = kn_max_finite K, kn_caps = kn_caps K\<rparr>"

definition lone_take ::
  "(u64 \<Rightarrow> 'k \<Rightarrow> 'k) \<Rightarrow> u64 \<Rightarrow> counting_semaphore_state \<times> 'k \<Rightarrow> take_status \<times> counting_semaphore_state \<times> 'k" where
  "lone_take idle n = (\<lambda>(s, k).
     case cs_try_acquire s of (True, s1) \<Rightarrow> (TakeAcquired, s1, k) | (False, s1) \<Rightarrow> (TakeTimeout, s1, idle n k))"

text \<open>\<open>None\<close> is a call that never returns.\<close>

partial_function (option) lone_send_loop ::
  "'k kernel \<Rightarrow> (u64 \<Rightarrow> 'k \<Rightarrow> 'k) \<Rightarrow> u8 list \<Rightarrow> wait_budget \<Rightarrow> counting_semaphore_state queue_inner \<Rightarrow> 'k
    \<Rightarrow> (unit res \<times> counting_semaphore_state queue_inner \<times> 'k) option" where
  "lone_send_loop K idle data b q k =
     (case send_try (prepare_blocking K k) wake_give data b q of
        (TryReturn r, q1) \<Rightarrow> Some (r, q1, k)
      | (TryBlock b1, q1) \<Rightarrow>
          (case wait_once (with_wake K) (lone_take idle) b1 (sd_wake (qi_senders q1), k) of
             None \<Rightarrow> None
           | Some (r, b2, s, k2) \<Rightarrow>
               (let q2 = q1\<lparr>qi_senders := (qi_senders q1)\<lparr>sd_wake := s\<rparr>\<rparr> in
                case r of
                  Ok outcome \<Rightarrow>
                    (case send_resume cs_try_acquire outcome q2 of
                       (Some r1, q3) \<Rightarrow> Some (r1, q3, k2)
                     | (None, q3) \<Rightarrow> lone_send_loop K idle data b2 q3 k2)
                | Err e \<Rightarrow> Some (Err e, q2, k2)
                | Panic m \<Rightarrow> Some (Panic m, q2, k2))))"

definition lone_send ::
  "'k kernel \<Rightarrow> (u64 \<Rightarrow> 'k \<Rightarrow> 'k) \<Rightarrow> u8 list \<Rightarrow> timeout \<Rightarrow> counting_semaphore_state queue_inner \<Rightarrow> 'k
    \<Rightarrow> (unit res \<times> counting_semaphore_state queue_inner \<times> 'k) option" where
  "lone_send K idle data t q k =
     (case validate_send_message_size (qi_message_size q) (length data) of
        Ok _ \<Rightarrow> lone_send_loop K idle data (budget_new t) q k
      | r \<Rightarrow> Some (r, q, k))"

partial_function (option) lone_recv_loop ::
  "'k kernel \<Rightarrow> (u64 \<Rightarrow> 'k \<Rightarrow> 'k) \<Rightarrow> u8 list \<Rightarrow> wait_budget \<Rightarrow> counting_semaphore_state queue_inner \<Rightarrow> 'k
    \<Rightarrow> (unit res \<times> u8 list \<times> counting_semaphore_state queue_inner \<times> 'k) option" where
  "lone_recv_loop K idle buf b q k =
     (case recv_try (prepare_blocking K k) wake_give buf b q of
        (TryReturn r, q1, out) \<Rightarrow> Some (r, out, q1, k)
      | (TryBlock b1, q1, out) \<Rightarrow>
          (case wait_once (with_wake K) (lone_take idle) b1 (sd_wake (qi_receivers q1), k) of
             None \<Rightarrow> None
           | Some (r, b2, s, k2) \<Rightarrow>
               (let q2 = q1\<lparr>qi_receivers := (qi_receivers q1)\<lparr>sd_wake := s\<rparr>\<rparr> in
                case r of
                  Ok outcome \<Rightarrow>
                    (case recv_resume cs_try_acquire outcome q2 of
                       (Some r1, q3) \<Rightarrow> Some (r1, out, q3, k2)
                     | (None, q3) \<Rightarrow> lone_recv_loop K idle out b2 q3 k2)
                | Err e \<Rightarrow> Some (Err e, out, q2, k2)
                | Panic m \<Rightarrow> Some (Panic m, out, q2, k2))))"

definition lone_recv ::
  "'k kernel \<Rightarrow> (u64 \<Rightarrow> 'k \<Rightarrow> 'k) \<Rightarrow> u8 list \<Rightarrow> timeout \<Rightarrow> counting_semaphore_state queue_inner \<Rightarrow> 'k
    \<Rightarrow> (unit res \<times> u8 list \<times> counting_semaphore_state queue_inner \<times> 'k) option" where
  "lone_recv K idle buf t q k =
     (case validate_recv_buffer_size (qi_message_size q) (length buf) of
        Ok _ \<Rightarrow> lone_recv_loop K idle buf (budget_new t) q k
      | r \<Rightarrow> Some (r, buf, q, k))"

section \<open>The sections under the mutex, on a queue where nobody waits\<close>

lemma send_head:
  assumes "rtos_quiet (h, q)" and "length d = qi_message_size q"
  shows "if fst (fifo_send (rtos_fifo (h, q)) d) = Err QueueFull
    then send_try prep wake_give d b q = (case block_on prep QueueFull b (qi_senders q) of (t, sd) \<Rightarrow> (t, q\<lparr>qi_senders := sd\<rparr>))
      \<and> \<not> bq_closed (qi_buffer q)
    else \<exists>q'. send_try prep wake_give d b q = (TryReturn (fst (fifo_send (rtos_fifo (h, q)) d)), q')
      \<and> rtos_quiet (h, q') \<and> rtos_fifo (h, q') = snd (fifo_send (rtos_fifo (h, q)) d)"
proof -
  let ?b = "qi_buffer q"
  obtain r b1 where s: "try_send ?b d = (r, b1)" by (cases "try_send ?b d")
  have inv: "bq_inv ?b" "quiet (qi_receivers q)" using assms(1) by (simp_all add: rtos_quiet_def)
  note ref = try_send_refines [OF inv(1) s] and sig = quiet_signal [OF inv(2)]
  have keeps: "bq_capacity b1 = bq_capacity ?b \<and> bq_message_size b1 = bq_message_size ?b \<and> (\<not> is_ok r \<longrightarrow> b1 = ?b)"
    using s ring.send_invar [OF inv(1) s] by (auto simp: try_send_def Let_def split: if_splits option.splits)
  have closed: "r = Err QueueClosed" if "bq_closed ?b"
    using that ref(2) assms by (auto simp: fifo_send_def bq_abs_def rtos_quiet_def split: if_splits)
  consider "r = Ok ()" | "r = Err QueueFull" | "r = Err QueueClosed"
    using ref(2) assms by (auto simp: fifo_send_def bq_abs_def rtos_quiet_def split: if_splits)
  then show ?thesis
    using assms(1) s ref sig keeps closed
    by cases (auto simp: send_try_def rtos_fifo_def rtos_quiet_def signal_one_receiver_def Let_def split: prod.splits)
qed

lemma recv_head:
  assumes "rtos_quiet (h, q)" and "length buf = qi_message_size q"
  shows "if fst (fifo_recv (rtos_fifo (h, q)) buf) = Err QueueEmpty
    then recv_try prep wake_give buf b q
        = (case block_on prep QueueEmpty b (qi_receivers q) of (t, sd) \<Rightarrow> (t, q\<lparr>qi_receivers := sd\<rparr>, buf))
      \<and> \<not> bq_closed (qi_buffer q) \<and> snd (snd (fifo_recv (rtos_fifo (h, q)) buf)) = buf
    else \<exists>q'. recv_try prep wake_give buf b q
        = (TryReturn (res_bind (fst (fifo_recv (rtos_fifo (h, q)) buf)) (\<lambda>_. Ok ())), q', snd (snd (fifo_recv (rtos_fifo (h, q)) buf)))
      \<and> rtos_quiet (h, q') \<and> rtos_fifo (h, q') = fst (snd (fifo_recv (rtos_fifo (h, q)) buf))"
proof -
  let ?b = "qi_buffer q"
  obtain r b1 out where s: "try_recv ?b buf = (r, b1, out)" by (cases "try_recv ?b buf")
  have inv: "bq_inv ?b" "quiet (qi_senders q)" using assms(1) by (simp_all add: rtos_quiet_def)
  note ref = try_recv_refines [OF inv(1) s] and sig = quiet_signal [OF inv(2)]
  have keeps: "bq_capacity b1 = bq_capacity ?b \<and> bq_message_size b1 = bq_message_size ?b \<and> (\<not> is_ok r \<longrightarrow> b1 = ?b \<and> out = buf)"
    using s ring.recv_invar [OF inv(1) s] by (auto simp: try_recv_def Let_def split: if_splits option.splits)
  have opened: "\<not> bq_closed ?b" if "r = Err QueueEmpty"
    using that ref(2) by (auto simp: fifo_recv_def bq_abs_def split: if_splits list.splits)
  consider n where "r = Ok n" | "r = Err QueueEmpty" | "r = Err QueueClosed"
    using ref(2) assms by (auto simp: fifo_recv_def bq_abs_def rtos_quiet_def split: if_splits list.splits)
  then show ?thesis
  proof cases
    case 1
    then show ?thesis using assms(1) s ref sig keeps
      by (simp add: recv_try_def rtos_fifo_def rtos_quiet_def signal_one_sender_def)
  next
    case 2
    then show ?thesis using s ref(2) keeps opened by (simp add: recv_try_def rtos_fifo_def split: prod.splits)
  next
    case 3
    then show ?thesis using assms(1) s ref keeps by (simp add: recv_try_def rtos_fifo_def)
  qed
qed

section \<open>The waits\<close>

lemma with_wake_clock [simp]:
  "freertos_now (with_wake K) (s, k) = freertos_now K k"
  "ensure_blocking_allowed (with_wake K) (s, k) = ensure_blocking_allowed K k"
  "kernel_ticks (with_wake K) (s, k) = kernel_ticks K k"
  "tick_horizon (with_wake K) = tick_horizon K" "kn_max_finite (with_wake K) = kn_max_finite K"
  by (simp_all add: with_wake_def freertos_now_def ensure_blocking_allowed_def kernel_ticks_def tick_horizon_def
    cong: option.case_cong)

text \<open>A take that never acquires in the states \<open>I\<close>, which it keeps, never lets the wait acquire.\<close>

lemma deadline_loop_starved:
  assumes "\<And>n k. I k \<Longrightarrow> fst (tk n k) \<noteq> TakeAcquired \<and> I (snd (tk n k))"
    and "I k" and "deadline_loop K tk rate mx d k = Some (r, k')"
  shows "r \<noteq> Ok Acquired \<and> I k'"
proof -
  let ?starved = "\<lambda>tk. \<forall>n k. I k \<longrightarrow> fst (tk n k) \<noteq> TakeAcquired \<and> I (snd (tk n k))"
  have "?starved tk \<longrightarrow> I k \<longrightarrow> fst (r, k') \<noteq> Ok Acquired \<and> I (snd (r, k'))"
  proof (rule deadline_loop.raw_induct [OF _ assms(3), where P = "\<lambda>K tk rate mx d k y. ?starved tk \<longrightarrow> I k \<longrightarrow> fst y \<noteq> Ok Acquired \<and> I (snd y)"],
      intro impI, goal_cases)
    case (1 loop K tk rate mx d k y)
    note ih = 1(1) and step = 1(2) and tk = 1(3) and I = 1(4)
    obtain s0 k0 where t0: "tk 0 k = (s0, k0)" by (cases "tk 0 k")
    have I0: "s0 \<noteq> TakeAcquired" "I k0" using tk I t0 by (metis fst_conv snd_conv)+
    have I1: "fst (tk n k0) \<noteq> TakeAcquired" "I (snd (tk n k0))" for n using tk I0(2) by blast+
    show ?case
    proof (cases "\<exists>n k1. tk n k0 = (TakeTimeout, k1) \<and> loop K tk rate mx d k1 = Some y")
      case True
      then show ?thesis using ih tk I1(2) by (metis snd_conv)
    next
      case False
      then show ?thesis
        using step t0 I0 I1
        by (auto split: res.splits option.splits if_splits prod.splits take_status.splits) (metis fst_conv snd_conv)+
    qed
  qed
  with assms(1,2) show ?thesis by auto
qed

text \<open>How a call ends that finds the queue full or empty: refused, or after its timeout, and not more than the same
  number of ticks late.\<close>

definition blocked_end :: "'k kernel \<Rightarrow> error \<Rightarrow> timeout \<Rightarrow> 'k \<Rightarrow> unit res \<Rightarrow> 'k \<Rightarrow> bool" where
  "blocked_end K no_wait_error t k r k' \<longleftrightarrow>
     (if t = NoWait then r = Err no_wait_error \<and> k' = k
      else if t = After duration_zero then r = Err Timeout \<and> k' = k
      else case ensure_blocking_allowed K k of
        Ok _ \<Rightarrow> (\<exists>d now. t = After d \<and> freertos_now K k = Ok now
          \<and> (if dur_checked_add now d = None then r = Err Overflow \<and> k' = k
             else r = Err Timeout \<and> (\<exists>now'. freertos_now K k' = Ok now' \<and> as_nanos now + as_nanos d \<le> as_nanos now'
               \<and> kernel_ticks K k' \<le> kernel_ticks K k + 2 * deadline_ticks (cap_tick_rate_hz (the (kn_caps K))) d)))
      | r' \<Rightarrow> r = r' \<and> k' = k)"

text \<open>The call waits without end; and a deadline inside the range of the tick counter.\<close>

definition waits_forever :: "'k kernel \<Rightarrow> timeout \<Rightarrow> 'k \<Rightarrow> bool" where
  "waits_forever K t k \<longleftrightarrow> t = Forever \<and> is_ok (ensure_blocking_allowed K k)"

definition deadline_fits :: "'k kernel \<Rightarrow> duration \<Rightarrow> bool" where
  "deadline_fits K v \<longleftrightarrow>
     deadline_ticks (cap_tick_rate_hz (the (kn_caps K))) v + unat (kn_max_finite K) < tick_horizon K"

definition deadline_in_range :: "'k kernel \<Rightarrow> timeout \<Rightarrow> 'k \<Rightarrow> bool" where
  "deadline_in_range K t k \<longleftrightarrow>
     (case (t, freertos_now K k) of
        (After d, Ok now) \<Rightarrow> (case dur_checked_add now d of Some v \<Rightarrow> deadline_fits K v | None \<Rightarrow> True)
      | _ \<Rightarrow> True)"

text \<open>The clock of a kernel on which a task that is alone lets ticks pass.\<close>

locale lone_kernel = kernel_clock K caps invar
  for K :: "'k kernel" and caps and invar +
  fixes idle :: "u64 \<Rightarrow> 'k \<Rightarrow> 'k"
  assumes idle_law: "invar k \<Longrightarrow> unat n \<le> unat (kn_max_finite K) \<Longrightarrow> kernel_ticks K k + unat n < tick_horizon K \<Longrightarrow>
      invar (idle n k) \<and> kernel_ticks K k + (unat n - 1) \<le> kernel_ticks K (idle n k)
      \<and> kernel_ticks K (idle n k) \<le> kernel_ticks K k + unat n"
begin

text \<open>With the empty semaphore \<open>s\<close> beside it, the kernel keeps the contract of a native take.\<close>

lemma lone_take_kernel:
  assumes "cs_count s = 0"
  shows "tick_kernel (with_wake K) caps (\<lambda>(s', k). s' = s \<and> invar k) (lone_take idle)"
proof (unfold_locales, goal_cases)
  case (4 k)
  then show ?case using snapshot_coherent by (auto simp: with_wake_def)
next
  case (5 k n r k')
  then show ?case using assms idle_law [of "snd k" n] by (auto simp: lone_take_def cs_try_acquire_def)
qed (use caps_cached config max_finite in \<open>simp_all add: with_wake_def\<close>)

text \<open>The wait does not go on for long after its deadline: a chunk covers what was left of the \<open>n\<close> nanoseconds it began
  with, and one tick.\<close>

definition span_ticks :: "nat \<Rightarrow> nat" where
  "span_ticks n = (n * unat (cap_tick_rate_hz caps) + (nanos_per_sec - 1)) div nanos_per_sec"

lemma span_ticks_mono: "m \<le> n \<Longrightarrow> span_ticks m \<le> span_ticks n"
  by (simp add: span_ticks_def div_le_mono)

lemma lone_chunk:
  assumes "invar k" and "deadline_fits K v" and "as_nanos v \<le> tick_nanos (kernel_ticks K k) (unat (cap_tick_rate_hz caps)) + n"
    and "freertos_now K k = Ok now" and "\<not> v \<le> now"
    and "duration_to_ticks_ceil (dur_saturating_sub v now) (cap_tick_rate_hz caps) = Ok p"
    and "checked_add u128_max (min p (unat (kn_max_finite K) - 1)) 1 = Some c"
  shows "invar (idle (word_of_nat c) k)" and "kernel_ticks K k \<le> kernel_ticks K (idle (word_of_nat c) k)"
    and "kernel_ticks K (idle (word_of_nat c) k) \<le> span_ticks (as_nanos v) + span_ticks n"
proof -
  let ?hz = "cap_tick_rate_hz caps"
  have now: "as_nanos now = tick_nanos (kernel_ticks K k) (unat ?hz)"
    using now_value [OF assms(1)] assms(4) by (simp add: tick_nanos_less)
  have "p = span_ticks (as_nanos (dur_saturating_sub v now))"
    using duration_to_ticks_ceil_value [OF rate_nonzero(1)] assms(6) by (simp add: span_ticks_def)
  also have "\<dots> \<le> span_ticks n" using assms(3) now by (intro span_ticks_mono) simp
  finally have p: "p \<le> span_ticks n" .
  have behind: "kernel_ticks K k < span_ticks (as_nanos v)"
    using deadline_passed [of v "kernel_ticks K k"] assms(5) now
    by (force simp: deadline_ticks_def span_ticks_def duration_order not_le)
  note nc = native_chunk [of "min p (unat (kn_max_finite K) - 1)", OF min.cobounded2]
  have c: "c = min p (unat (kn_max_finite K) - 1) + 1" using nc(1) assms(7) by simp
  have hor: "kernel_ticks K k + unat (word_of_nat c :: u64) < tick_horizon K"
    using nc(2,3) c behind assms(2) by (simp add: deadline_fits_def deadline_ticks_def span_ticks_def caps_cached)
  note law = idle_law [OF assms(1) _ hor]
  show "invar (idle (word_of_nat c) k)" "kernel_ticks K k \<le> kernel_ticks K (idle (word_of_nat c) k)"
    "kernel_ticks K (idle (word_of_nat c) k) \<le> span_ticks (as_nanos v) + span_ticks n"
    using law nc(2,3) p behind unfolding c by linarith+
qed

lemma lone_loop_overshoot:
  assumes "cs_count s = 0" and "deadline_fits K v" and "invar k"
    and "as_nanos v \<le> tick_nanos (kernel_ticks K k) (unat (cap_tick_rate_hz caps)) + n"
    and "deadline_loop (with_wake K) (lone_take idle) (cap_tick_rate_hz caps) (unat (kn_max_finite K) - 1) v (s, k) = Some (r, s', k')"
  shows "kernel_ticks K k' \<le> max (kernel_ticks K k) (span_ticks (as_nanos v) + span_ticks n)"
proof -
  let ?late = "\<lambda>k. as_nanos v \<le> tick_nanos (kernel_ticks K k) (unat (cap_tick_rate_hz caps)) + n"
  let ?P = "\<lambda>(K' :: (counting_semaphore_state \<times> 'k) kernel) tk rate mx d p (y :: wait_outcome res \<times> counting_semaphore_state \<times> 'k).
    K' = with_wake K \<and> tk = lone_take idle \<and> rate = cap_tick_rate_hz caps \<and> mx = unat (kn_max_finite K) - 1 \<and> d = v \<and> fst p = s
    \<longrightarrow> invar (snd p) \<longrightarrow> ?late (snd p)
    \<longrightarrow> kernel_ticks K (snd (snd y)) \<le> max (kernel_ticks K (snd p)) (span_ticks (as_nanos v) + span_ticks n)"
  have "?P (with_wake K) (lone_take idle) (cap_tick_rate_hz caps) (unat (kn_max_finite K) - 1) v (s, k) (r, s', k')"
  proof (rule deadline_loop.raw_induct [OF _ assms(5), where P = ?P], intro impI, elim conjE, goal_cases)
    case (1 loop K' tk rate mx d p y)
    note ih = 1(1) and step = 1(2) [unfolded 1(5-9)] and p = 1(10) and I = 1(3) and late = 1(4)
    let ?k0 = "idle 0 (snd p)"
    have k0: "invar ?k0" "kernel_ticks K ?k0 = kernel_ticks K (snd p)"
      using idle_law [OF I, of 0] ticks_below_horizon [OF I] by auto
    have t0: "lone_take idle n (s, k) = (TakeTimeout, s, idle n k)" for n k
      using assms(1) by (simp add: lone_take_def cs_try_acquire_def)
    obtain now where now: "freertos_now K ?k0 = Ok now" using now_value [OF k0(1)] by blast
    define pt where "pt = span_ticks (as_nanos (dur_saturating_sub v now))"
    have pt: "duration_to_ticks_ceil (dur_saturating_sub v now) (cap_tick_rate_hz caps) = Ok pt"
      using duration_to_ticks_ceil_value [OF rate_nonzero(1)] by (simp add: pt_def span_ticks_def)
    define c where "c = min pt (unat (kn_max_finite K) - 1) + 1"
    have c: "checked_add u128_max (min pt (unat (kn_max_finite K) - 1)) 1 = Some c"
      unfolding c_def by (rule native_chunk(1)) simp
    have p: "p = (s, snd p)" using p by (cases p) simp
    show ?case
    proof (cases "v \<le> now")
      case True
      then have "snd (snd y) = ?k0" using step now t0 by (subst (asm) p) auto
      then show ?thesis using k0(2) by simp
    next
      case False
      have late0: "?late ?k0" using late k0(2) by simp
      note chunk = lone_chunk [OF k0(1) assms(2) late0 now False pt c]
      have "loop (with_wake K) (lone_take idle) (cap_tick_rate_hz caps) (unat (kn_max_finite K) - 1) v (s, idle (word_of_nat c) ?k0) = Some y"
        using step now t0 False pt c by (subst (asm) p) simp
      moreover have "?late (idle (word_of_nat c) ?k0)"
        using late0 tick_nanos_mono [OF chunk(2)] by (meson add_le_cancel_right le_trans)
      ultimately show ?thesis using ih chunk(1,3) by fastforce
    qed
  qed
  then show ?thesis using assms(3,4) by simp
qed

lemma span_after:
  assumes "as_nanos v = tick_nanos t (unat (cap_tick_rate_hz caps)) + n"
  shows "span_ticks (as_nanos v) \<le> t + span_ticks n"
proof -
  let ?hz = "unat (cap_tick_rate_hz caps)"
  have "as_nanos v * ?hz \<le> (t * nanos_per_sec div ?hz + n) * ?hz"
    using assms by (intro mult_le_mono1) (simp add: tick_nanos_def)
  also have "\<dots> \<le> t * nanos_per_sec + n * ?hz" by (simp add: algebra_simps)
  finally have "span_ticks (as_nanos v) \<le> (n * ?hz + (nanos_per_sec - 1) + t * nanos_per_sec) div nanos_per_sec"
    unfolding span_ticks_def by (intro div_le_mono) simp
  also have "\<dots> = t + span_ticks n" unfolding span_ticks_def by (subst div_mult_self1) (simp_all add: nanos_per_sec_def)
  finally show ?thesis .
qed

lemma lone_wait:
  assumes "invar k" and "cs_count s = 0" and "deadline_fits K v" and "as_nanos v = tick_nanos (kernel_ticks K k) (unat (cap_tick_rate_hz caps)) + n"
  obtains k' now where "wait_once (with_wake K) (lone_take idle) (BudgetFinite d (Some v) True) (s, k)
      = Some (Ok Unavailable, BudgetFinite d (Some v) True, s, k')"
    and "invar k'" and "freertos_now K k' = Ok now" and "v \<le> now" and "kernel_ticks K k' \<le> kernel_ticks K k + 2 * span_ticks n"
proof -
  note T = tick_kernel.wait_deadline_loop_returns [OF lone_take_kernel [OF assms(2)], of "(s, k)" v]
  obtain r s' k' where w: "wait_deadline_loop (with_wake K) (lone_take idle) v (s, k) = Some (r, s', k')" "s' = s" "invar k'"
      "r = Ok Acquired \<or> r = Ok Unavailable \<and> (\<exists>now. freertos_now K k' = Ok now \<and> v \<le> now)"
    using T assms by (auto simp: deadline_fits_def caps_cached)
  then have loop: "deadline_loop (with_wake K) (lone_take idle) (cap_tick_rate_hz caps) (unat (kn_max_finite K) - 1) v (s, k) = Some (r, s', k')"
    using caps_cached max_payload by (simp add: wait_deadline_loop_def with_wake_def)
  have "r \<noteq> Ok Acquired \<and> fst (s', k') = s"
    by (rule deadline_loop_starved [where I = "\<lambda>p. fst p = s", OF _ _ loop])
      (use assms(2) in \<open>auto simp: lone_take_def cs_try_acquire_def\<close>)
  moreover have "kernel_ticks K k' \<le> kernel_ticks K k + 2 * span_ticks n"
    using lone_loop_overshoot [OF assms(2,3,1) _ loop] span_after [OF assms(4)] assms(4) by (fastforce simp: max_def split: if_splits)
  ultimately show thesis using that w by (auto simp: wait_once_def budget_deadline_def)
qed

text \<open>Blocking on a quiet side: registered with a prepared budget that waits and times out, or not registered.\<close>

lemma lone_forever: "cs_count s = 0 \<Longrightarrow> wait_forever (with_wake K) (lone_take idle) (s, k) = None"
proof (rule ccontr)
  assume zero: "cs_count s = 0" and "wait_forever (with_wake K) (lone_take idle) (s, k) \<noteq> None"
  then obtain y where y: "wait_forever (with_wake K) (lone_take idle) (s, k) = Some y" by blast
  let ?starved = "\<lambda>(tk :: u64 \<Rightarrow> counting_semaphore_state \<times> 'k \<Rightarrow> take_status \<times> counting_semaphore_state \<times> 'k) p.
    tk = lone_take idle \<and> cs_count (fst p) = 0"
  have "?starved (lone_take idle) (s, k) \<longrightarrow> False"
    by (rule wait_forever.raw_induct [OF _ y, where P = "\<lambda>K tk p y. ?starved tk p \<longrightarrow> False"])
      (auto simp: lone_take_def cs_try_acquire_def split: prod.splits take_status.splits)
  with zero show False by simp
qed

lemma lone_block_forever:
  assumes "quiet sd" and "waits_forever K t k"
  shows "block_on (prepare_blocking K k) e (budget_new t) sd = (TryBlock (BudgetForever True), sd\<lparr>sd_waiters := 1\<rparr>)
    \<and> wait_once (with_wake K) (lone_take idle) (BudgetForever True) (sd_wake sd, k) = None"
  using assms lone_forever
  by (auto simp: waits_forever_def budget_new_def block_on_def prepare_blocking_def register_waiter_def quiet_def wait_once_def
    checked_add_def u32_max_def split: res.splits)

lemma lone_block:
  assumes "quiet sd" and "invar k" and "\<not> waits_forever K t k" and "deadline_in_range K t k"
  shows "(\<exists>r. block_on (prepare_blocking K k) e (budget_new t) sd = (TryReturn r, sd) \<and> blocked_end K e t k r k)
    \<or> (\<exists>b k'. block_on (prepare_blocking K k) e (budget_new t) sd = (TryBlock b, sd\<lparr>sd_waiters := 1\<rparr>)
        \<and> wait_once (with_wake K) (lone_take idle) b (sd_wake sd, k) = Some (Ok Unavailable, b, sd_wake sd, k')
        \<and> invar k' \<and> blocked_end K e t k (Err Timeout) k')"
proof (cases t)
  case (After d)
  obtain now where now: "freertos_now K k = Ok now" "as_nanos now = tick_nanos (kernel_ticks K k) (unat (cap_tick_rate_hz caps))"
    using now_value [OF assms(2)] by (auto simp: tick_nanos_less)
  show ?thesis
  proof (cases "dur_checked_add now d")
    case None
    then show ?thesis using After now assms(1)
      by (cases "ensure_blocking_allowed K k")
        (auto simp: budget_new_def block_on_def prepare_blocking_def budget_deadline_def ok_or_def blocked_end_def)
  next
    case (Some v)
    then have v: "deadline_fits K v" using assms(4) After now(1) by (simp add: deadline_in_range_def)
    have n: "as_nanos v = tick_nanos (kernel_ticks K k) (unat (cap_tick_rate_hz caps)) + as_nanos d"
      using Some now(2) by (auto simp: dur_checked_add_Some_iff)
    obtain k' now' where w: "wait_once (with_wake K) (lone_take idle) (BudgetFinite d (Some v) True) (sd_wake sd, k)
        = Some (Ok Unavailable, BudgetFinite d (Some v) True, sd_wake sd, k')" "invar k'" "freertos_now K k' = Ok now'" "v \<le> now'"
        "kernel_ticks K k' \<le> kernel_ticks K k + 2 * span_ticks (as_nanos d)"
      using lone_wait [OF assms(2) _ v n] assms(1) by (metis quiet_def)
    have "as_nanos now + as_nanos d \<le> as_nanos now'" using Some w(4) by (simp add: dur_checked_add_Some_iff less_eq_duration_def)
    moreover have "span_ticks (as_nanos d) = deadline_ticks (cap_tick_rate_hz (the (kn_caps K))) d"
      using caps_cached by (simp add: span_ticks_def deadline_ticks_def)
    ultimately show ?thesis
      using After now Some w assms(1)
      by (cases "ensure_blocking_allowed K k")
        (auto simp: budget_new_def block_on_def prepare_blocking_def budget_deadline_def ok_or_def register_waiter_def quiet_def
          checked_add_def u32_max_def blocked_end_def)
  qed
qed (use assms(3) in \<open>auto simp: budget_new_def block_on_def prepare_blocking_def blocked_end_def waits_forever_def split: res.splits\<close>)

text \<open>A call that can go on does so at once, whatever its timeout.\<close>

lemma lone_send_goes_on:
  assumes "rtos_quiet (h, q)" and "fst (fifo_send (rtos_fifo (h, q)) d) \<noteq> Err QueueFull"
  shows "\<exists>q'. lone_send K idle d t q k = Some (fst (fifo_send (rtos_fifo (h, q)) d), q', k) \<and> rtos_quiet (h, q')
    \<and> rtos_fifo (h, q') = snd (fifo_send (rtos_fifo (h, q)) d)"
proof (cases "length d = qi_message_size q")
  case False
  then show ?thesis using assms
    by (simp add: lone_send_def validate_send_message_size_def fifo_send_def rtos_fifo_def bq_abs_def rtos_quiet_def)
next
  case size: True
  then have call: "lone_send K idle d t q k = lone_send_loop K idle d (budget_new t) q k"
    by (simp add: lone_send_def validate_send_message_size_def)
  show ?thesis using send_head [OF assms(1) size, of "prepare_blocking K k" "budget_new t"] assms(2)
    unfolding call by (subst lone_send_loop.simps) auto
qed

lemma lone_send_blocked:
  assumes "rtos_quiet (h, q)" and "invar k" and "fst (fifo_send (rtos_fifo (h, q)) d) = Err QueueFull"
  shows "if waits_forever K t k then lone_send K idle d t q k = None
    else deadline_in_range K t k \<longrightarrow> (\<exists>r q' k'. lone_send K idle d t q k = Some (r, q', k') \<and> rtos_quiet (h, q')
      \<and> rtos_fifo (h, q') = rtos_fifo (h, q) \<and> blocked_end K QueueFull t k r k')"
proof -
  have size: "length d = qi_message_size q"
    using assms(1,3) by (auto simp: fifo_send_def rtos_fifo_def bq_abs_def rtos_quiet_def split: if_splits)
  then have call: "lone_send K idle d t q k = lone_send_loop K idle d (budget_new t) q k"
    by (simp add: lone_send_def validate_send_message_size_def)
  note head = send_head [OF assms(1) size, of "prepare_blocking K k" "budget_new t"]
  have q: "quiet (qi_senders q)" using assms(1) by (simp add: rtos_quiet_def)
  then have unregistered: "(qi_senders q)\<lparr>sd_waiters := 0\<rparr> = qi_senders q" by (simp add: quiet_def)
  show ?thesis
  proof (cases "waits_forever K t k")
    case True
    then show ?thesis using head assms(3) lone_block_forever [OF q True, of QueueFull]
      unfolding call by (subst lone_send_loop.simps) simp
  next
    case False
    then show ?thesis
    proof (simp only: if_False, intro impI)
      assume r: "deadline_in_range K t k"
      from lone_block [OF q assms(2) False r, of QueueFull]
      show "\<exists>r q' k'. lone_send K idle d t q k = Some (r, q', k') \<and> rtos_quiet (h, q')
          \<and> rtos_fifo (h, q') = rtos_fifo (h, q) \<and> blocked_end K QueueFull t k r k'"
        using head assms(1,3) q unfolding call
        by (subst lone_send_loop.simps)
          (auto simp: send_resume_def resume_side_def cs_try_acquire_def quiet_def checked_sub_def Let_def unregistered)
    qed
  qed
qed

lemma lone_recv_goes_on:
  assumes "rtos_quiet (h, q)" and "fst (fifo_recv (rtos_fifo (h, q)) buf) \<noteq> Err QueueEmpty"
  shows "\<exists>q'. lone_recv K idle buf t q k
      = Some (res_bind (fst (fifo_recv (rtos_fifo (h, q)) buf)) (\<lambda>_. Ok ()), snd (snd (fifo_recv (rtos_fifo (h, q)) buf)), q', k)
    \<and> rtos_quiet (h, q') \<and> rtos_fifo (h, q') = fst (snd (fifo_recv (rtos_fifo (h, q)) buf))"
proof (cases "length buf = qi_message_size q")
  case False
  then show ?thesis using assms
    by (simp add: lone_recv_def validate_recv_buffer_size_def fifo_recv_def rtos_fifo_def bq_abs_def rtos_quiet_def)
next
  case size: True
  then have call: "lone_recv K idle buf t q k = lone_recv_loop K idle buf (budget_new t) q k"
    by (simp add: lone_recv_def validate_recv_buffer_size_def)
  show ?thesis using recv_head [OF assms(1) size, of "prepare_blocking K k" "budget_new t"] assms(2)
    unfolding call by (subst lone_recv_loop.simps) auto
qed

lemma lone_recv_blocked:
  assumes "rtos_quiet (h, q)" and "invar k" and "fst (fifo_recv (rtos_fifo (h, q)) buf) = Err QueueEmpty"
  shows "if waits_forever K t k then lone_recv K idle buf t q k = None
    else deadline_in_range K t k \<longrightarrow> (\<exists>r q' k'. lone_recv K idle buf t q k = Some (r, buf, q', k') \<and> rtos_quiet (h, q')
      \<and> rtos_fifo (h, q') = rtos_fifo (h, q) \<and> blocked_end K QueueEmpty t k r k')"
proof -
  have size: "length buf = qi_message_size q"
    using assms(1,3) by (auto simp: fifo_recv_def rtos_fifo_def bq_abs_def rtos_quiet_def split: if_splits)
  then have call: "lone_recv K idle buf t q k = lone_recv_loop K idle buf (budget_new t) q k"
    by (simp add: lone_recv_def validate_recv_buffer_size_def)
  note head = recv_head [OF assms(1) size, of "prepare_blocking K k" "budget_new t"]
  have q: "quiet (qi_receivers q)" using assms(1) by (simp add: rtos_quiet_def)
  then have unregistered: "(qi_receivers q)\<lparr>sd_waiters := 0\<rparr> = qi_receivers q" by (simp add: quiet_def)
  show ?thesis
  proof (cases "waits_forever K t k")
    case True
    then show ?thesis using head assms(3) lone_block_forever [OF q True, of QueueEmpty]
      unfolding call by (subst lone_recv_loop.simps) simp
  next
    case False
    then show ?thesis
    proof (simp only: if_False, intro impI)
      assume r: "deadline_in_range K t k"
      from lone_block [OF q assms(2) False r, of QueueEmpty]
      show "\<exists>r q' k'. lone_recv K idle buf t q k = Some (r, buf, q', k') \<and> rtos_quiet (h, q')
          \<and> rtos_fifo (h, q') = rtos_fifo (h, q) \<and> blocked_end K QueueEmpty t k r k'"
        using head assms(1,3) q unfolding call
        by (subst lone_recv_loop.simps)
          (auto simp: recv_resume_def resume_side_def cs_try_acquire_def quiet_def checked_sub_def Let_def unregistered)
    qed
  qed
qed

end

section \<open>The host fixture\<close>

definition host_kernel :: "host kernel" where
  "host_kernel = \<lparr>kn_snapshot = (\<lambda>h. read_tick_fixture (h_sync h)),
     kn_scheduler = (\<lambda>h. scheduler_state_from_raw (h_scheduler h)), kn_max_finite = 2 ^ 32 - 2, kn_caps = Some fixture_caps\<rparr>"

definition host_idle :: "u64 \<Rightarrow> host \<Rightarrow> host" where
  "host_idle n h = h\<lparr>h_sync := snd (fixture_delay n (h_sync h))\<rparr>"

definition host_calm :: "host \<Rightarrow> bool" where
  "host_calm h \<longleftrightarrow> fixture_ok (h_sync h) \<and> host_ok h \<and> host_serves h"

lemma host_kernel_ticks: "fixture_ok (h_sync h) \<Longrightarrow> kernel_ticks host_kernel h = fixture_ticks (h_sync h)"
  by (simp add: kernel_ticks_def fixture_ticks_def fixture_ok_def host_kernel_def fixture_caps_def)

lemma advance_keeps_objects:
  "advance_virtual_ticks n fx = Some fx' \<Longrightarrow>
     fx' = fx\<lparr>fx_tick_count := fx_tick_count fx', fx_tick_overflow := fx_tick_overflow fx'\<rparr>"
  by (auto simp: advance_virtual_ticks_def Let_def split: option.splits)

interpretation hostlone: lone_kernel host_kernel fixture_caps host_calm host_idle
proof (unfold_locales, goal_cases)
  case (4 h)
  then show ?case by (auto simp: host_calm_def fixture_ok_def fixture_clock_ok_def host_kernel_def fixture_caps_def)
next
  case (5 h n)
  then have "fixture_ticks (h_sync h) + unat n < 2 ^ 96" "fixture_ok (h_sync h)"
    by (simp_all add: host_calm_def host_kernel_ticks tick_horizon_def) (simp add: host_kernel_def fixture_caps_def)
  then obtain fx where fx: "advance_virtual_ticks n (h_sync h) = Some fx" "fixture_ok fx"
      "fixture_ticks fx = fixture_ticks (h_sync h) + unat n"
    using fixture_advance by blast
  then have h': "host_idle n h = h\<lparr>h_sync := fx\<rparr>" by (simp add: host_idle_def fixture_delay_def fixture_delay_ticks_def)
  have "host_ok (h\<lparr>h_sync := fx\<rparr>)" "host_serves (h\<lparr>h_sync := fx\<rparr>)"
    using 5(1) by (subst advance_keeps_objects [OF fx(1)], simp add: host_calm_def host_ok_def host_serves_def)+
  then show ?case using 5(1) fx h' by (simp add: host_calm_def host_kernel_ticks)
qed (simp_all add: host_kernel_def fixture_caps_def valid_config_def)

section \<open>The calls of a task that is alone\<close>

text \<open>C6. The calls of a task that nobody signals, on a queue where nobody waits. A send or receive that can go on does so
  at once, whatever its timeout, as on the bounded FIFO. One that finds the queue full or empty leaves it as it was: it never
  returns when it may wait forever; with any other timeout, whose deadline lies inside the range of the tick counter, it
  returns what the timeout asks for, the refusal of the scheduler, \<open>Overflow\<close> for a deadline that is no duration,
  or \<open>Timeout\<close>, which comes neither before the timeout has passed nor late by more than the ticks of the timeout.\<close>

theorem freertos_lone_calls:
  assumes "lone_kernel K caps invar idle" and "invar k" and "rtos_quiet (h, q)"
  shows "(if fst (fifo_send (rtos_fifo (h, q)) d) = Err QueueFull
      then if waits_forever K t k then lone_send K idle d t q k = None
        else deadline_in_range K t k \<longrightarrow> (\<exists>r q' k'. lone_send K idle d t q k = Some (r, q', k') \<and> rtos_quiet (h, q')
          \<and> rtos_fifo (h, q') = rtos_fifo (h, q) \<and> blocked_end K QueueFull t k r k')
      else \<exists>q'. lone_send K idle d t q k = Some (fst (fifo_send (rtos_fifo (h, q)) d), q', k) \<and> rtos_quiet (h, q')
        \<and> rtos_fifo (h, q') = snd (fifo_send (rtos_fifo (h, q)) d))
    \<and> (if fst (fifo_recv (rtos_fifo (h, q)) buf) = Err QueueEmpty
      then if waits_forever K t k then lone_recv K idle buf t q k = None
        else deadline_in_range K t k \<longrightarrow> (\<exists>r q' k'. lone_recv K idle buf t q k = Some (r, buf, q', k') \<and> rtos_quiet (h, q')
          \<and> rtos_fifo (h, q') = rtos_fifo (h, q) \<and> blocked_end K QueueEmpty t k r k')
      else \<exists>q'. lone_recv K idle buf t q k
          = Some (res_bind (fst (fifo_recv (rtos_fifo (h, q)) buf)) (\<lambda>_. Ok ()), snd (snd (fifo_recv (rtos_fifo (h, q)) buf)), q', k)
        \<and> rtos_quiet (h, q') \<and> rtos_fifo (h, q') = fst (snd (fifo_recv (rtos_fifo (h, q)) buf)))"
  using lone_kernel.lone_send_goes_on [OF assms(1,3)] lone_kernel.lone_send_blocked [OF assms(1,3,2)]
    lone_kernel.lone_recv_goes_on [OF assms(1,3)] lone_kernel.lone_recv_blocked [OF assms(1,3,2)] by presburger

text \<open>On the host fixture, a receive of five milliseconds from an empty queue of one message.\<close>

definition lone_demo_queue :: "counting_semaphore_state queue_inner" where
  "lone_demo_queue = (let wake = \<lparr>cs_max_count = 1, cs_count = 0\<rparr> in queue_inner_init demo_bq wake wake)"

lemma lone_demo_quiet: "rtos_quiet (h, lone_demo_queue)" "rtos_fifo (h, lone_demo_queue) = fifo_new 1 1"
  using byte_queue_new_inv [OF demo_new1]
  by (simp_all add: lone_demo_queue_def rtos_quiet_def quiet_def rtos_fifo_def queue_inner_init_def Let_def demo_bq_def
    fifo_new_def)

lemma host_initial_calm: "host_calm host_initial"
  using host_initial_ok(1)
  by (simp add: host_calm_def host_serves_def host_initial_def fixture_initial_def fixture_ok_def fixture_clock_ok_def coherent_def
    read_tick_fixture_def)

lemma host_initial_now: "freertos_now host_kernel host_initial = Ok (of_nanos 0)"
  using hostlone.now_value [OF host_initial_calm] host_kernel_ticks [of host_initial] host_initial_calm
  by (simp add: host_calm_def fixture_ticks_def host_initial_def fixture_initial_def total_ticks_def read_tick_fixture_def tick_nanos_def)

theorem freertos_lone_calls_witness:
  "(\<exists>q' k' now. lone_recv host_kernel host_idle [0] (After (of_nanos 5000000)) lone_demo_queue host_initial
      = Some (Err Timeout, [0], q', k') \<and> freertos_now host_kernel k' = Ok now \<and> 5000000 \<le> as_nanos now)
    \<and> (\<exists>q'. lone_send host_kernel host_idle [7] Forever lone_demo_queue host_initial = Some (Ok (), q', host_initial)
      \<and> fifo_msgs (bq_abs (qi_buffer q')) = [[7]])
    \<and> lone_recv host_kernel host_idle [0] Forever lone_demo_queue host_initial = None"
proof -
  let ?t = "After (of_nanos 5000000)"
  have "deadline_fits host_kernel (of_nanos 5000000)"
    by (simp add: deadline_fits_def deadline_ticks_def tick_horizon_def host_kernel_def fixture_caps_def duration_limit_eq nanos_per_sec_def)
  moreover have sum: "dur_checked_add (of_nanos 0) (of_nanos 5000000) = Some (of_nanos 5000000)"
    by (simp add: dur_checked_add_Some_iff duration_limit_eq)
  ultimately have ret: "deadline_in_range host_kernel ?t host_initial" using host_initial_now by (simp add: deadline_in_range_def)
  have running: "ensure_blocking_allowed host_kernel host_initial = Ok ()"
    by (simp add: ensure_blocking_allowed_def host_kernel_def host_initial_def scheduler_state_from_raw_def)
  have nonzero: "?t \<noteq> After duration_zero" by (simp add: duration_eq_iff duration_limit_eq)
  have empty: "fifo_recv (fifo_new 1 1) [0] = (Err QueueEmpty, fifo_new 1 1, [0])" by (simp add: fifo_recv_def fifo_new_def)
  have room: "fifo_send (fifo_new 1 1) [7] = (Ok (), (fifo_new 1 1)\<lparr>fifo_msgs := [[7]]\<rparr>)" by (simp add: fifo_send_def fifo_new_def)
  note lone = freertos_lone_calls [OF hostlone.lone_kernel_axioms host_initial_calm lone_demo_quiet(1) [of "undefined :: rtos_queue"],
    where d = "[7]" and buf = "[0]"]
  have timed: "\<exists>r q' k'. lone_recv host_kernel host_idle [0] ?t lone_demo_queue host_initial = Some (r, [0], q', k')
      \<and> blocked_end host_kernel QueueEmpty ?t host_initial r k'"
    using conjunct2 [OF lone [where t = ?t]] ret empty by (auto simp: waits_forever_def lone_demo_quiet(2))
  have "\<exists>q' k' now. lone_recv host_kernel host_idle [0] ?t lone_demo_queue host_initial
      = Some (Err Timeout, [0], q', k') \<and> freertos_now host_kernel k' = Ok now \<and> 5000000 \<le> as_nanos now"
    using timed running nonzero sum by (fastforce simp: blocked_end_def duration_limit_eq host_initial_now)
  moreover have "\<exists>q'. lone_send host_kernel host_idle [7] Forever lone_demo_queue host_initial = Some (Ok (), q', host_initial)
      \<and> fifo_msgs (bq_abs (qi_buffer q')) = [[7]]"
    using conjunct1 [OF lone [where t = Forever], unfolded lone_demo_quiet(2) room] by (auto simp: rtos_fifo_def bq_abs_def fifo_new_def)
  moreover have "lone_recv host_kernel host_idle [0] Forever lone_demo_queue host_initial = None"
    using conjunct2 [OF lone [where t = Forever]] running empty by (simp add: waits_forever_def lone_demo_quiet(2))
  ultimately show ?thesis by blast
qed

end
